(* ===== verification/Prelude.thy ===== *)
theory Prelude
  imports
    Main
    "HOL-Library.Product_Lexorder"
    "HOL-Library.List_Lexorder"
    "HOL-Library.Char_ord"
begin

text \<open>
  What every component of the model shares: Python's errors as values of a sum type, the
  sequencing and loop combinators over that sum, dictionaries and sequences as the sources use
  them, f-strings kept unrendered, and the rank of a coordinate among sorted coordinates.
  The collection \<open>py_simps\<close> holds the equations that evaluate this vocabulary.
\<close>

named_theorems py_simps \<open>equations that evaluate the Python vocabulary\<close>


section \<open>Text\<close>

text \<open>
  Identifiers are strings. An f-string is kept as the list of its parts, literal text and
  interpolated values, so an error carries exactly what the source puts in its message
  without the rendering of \<open>repr\<close> and of decimal integers.
\<close>

datatype fpart =
    Lit string
  | Repr string
  | Num int
  | ReprList "string list"
  | ReprTuple "string list"
  | ReprInts "int list"

type_synonym fstring = "fpart list"


section \<open>Errors as values\<close>

datatype py_error =
    KeyError
  | IndexError
  | ZeroDivisionError
  | RecursionError
  | ValueError fstring
  | TypeError fstring
  | AssertionError fstring
  | OverflowError
  | StopIteration
  | CaptureError fstring
  | ValidationError fstring fstring

definition bindE :: "'e + 'a \<Rightarrow> ('a \<Rightarrow> 'e + 'b) \<Rightarrow> 'e + 'b" where
  "bindE m f = (case m of Inl e \<Rightarrow> Inl e | Inr x \<Rightarrow> f x)"

definition ensure :: "bool \<Rightarrow> 'e \<Rightarrow> 'e + unit" where
  "ensure c e = (if c then Inr () else Inl e)"

definition of_rec :: "'a option \<Rightarrow> py_error + 'a" where
  "of_rec r = (case r of None \<Rightarrow> Inl RecursionError | Some x \<Rightarrow> Inr x)"

definition map_error :: "('e \<Rightarrow> 'f) \<Rightarrow> 'e + 'a \<Rightarrow> 'f + 'a" where
  "map_error g m = (case m of Inl e \<Rightarrow> Inl (g e) | Inr x \<Rightarrow> Inr x)"

lemma bindE_simps [simp, py_simps]:
  "bindE (Inl e) f = Inl e"
  "bindE (Inr x) f = f x"
  by (simp_all add: bindE_def)

lemma bindE_Inr_iff: "bindE m f = Inr y \<longleftrightarrow> (\<exists>x. m = Inr x \<and> f x = Inr y)"
  by (cases m) auto

lemma bindE_Inl_iff:
  "bindE m f = Inl e \<longleftrightarrow> m = Inl e \<or> (\<exists>x. m = Inr x \<and> f x = Inl e)"
  by (cases m) auto

lemma bindE_InrE [elim!]:
  assumes "bindE m f = Inr y"
  obtains x where "m = Inr x" "f x = Inr y"
  using assms by (auto simp: bindE_Inr_iff)

lemma bindE_cong [fundef_cong]:
  "m = m' \<Longrightarrow> (\<And>v. m' = Inr v \<Longrightarrow> f v = g v) \<Longrightarrow> bindE m f = bindE m' g"
  by (simp add: bindE_def split: sum.split)

lemma bindE_assoc: "bindE (bindE m f) g = bindE m (\<lambda>x. bindE (f x) g)"
  by (cases m) auto

lemma bindE_return [simp]: "bindE m Inr = m"
  by (cases m) auto

lemma ensure_simps [simp, py_simps]:
  "ensure True e = Inr ()"
  "ensure False e = Inl e"
  by (simp_all add: ensure_def)

lemma ensure_Inr_iff [simp]: "ensure c e = Inr u \<longleftrightarrow> c"
  by (cases c) auto

lemma ensure_Inl_iff [simp]: "ensure c e = Inl e' \<longleftrightarrow> \<not> c \<and> e = e'"
  by (cases c) auto

lemma of_rec_simps [simp, py_simps]:
  "of_rec None = Inl RecursionError"
  "of_rec (Some x) = Inr x"
  by (simp_all add: of_rec_def)

lemma of_rec_Inr_iff [simp]: "of_rec r = Inr x \<longleftrightarrow> r = Some x"
  by (cases r) auto

lemma map_error_simps [simp, py_simps]:
  "map_error g (Inl e) = Inl (g e)"
  "map_error g (Inr x) = Inr x"
  by (simp_all add: map_error_def)

lemma map_error_Inr_iff [simp]: "map_error g m = Inr x \<longleftrightarrow> m = Inr x"
  by (cases m) auto


section \<open>Loops over the error sum\<close>

text \<open>A \<^verbatim>\<open>for\<close> loop that may raise, threading the state the body mutates.\<close>

fun foldE :: "('s \<Rightarrow> 'a \<Rightarrow> 'e + 's) \<Rightarrow> 's \<Rightarrow> 'a list \<Rightarrow> 'e + 's" where
  "foldE f s [] = Inr s"
| "foldE f s (x # xs) = bindE (f s x) (\<lambda>s'. foldE f s' xs)"

text \<open>A comprehension whose element expression may raise.\<close>

fun mapE :: "('a \<Rightarrow> 'e + 'b) \<Rightarrow> 'a list \<Rightarrow> 'e + 'b list" where
  "mapE f [] = Inr []"
| "mapE f (x # xs) = bindE (f x) (\<lambda>y. bindE (mapE f xs) (\<lambda>ys. Inr (y # ys)))"

text \<open>A loop that only checks.\<close>

fun checkE :: "('a \<Rightarrow> 'e + unit) \<Rightarrow> 'a list \<Rightarrow> 'e + unit" where
  "checkE f [] = Inr ()"
| "checkE f (x # xs) = bindE (f x) (\<lambda>_. checkE f xs)"

lemma foldE_append: "foldE f s (xs @ ys) = bindE (foldE f s xs) (\<lambda>s'. foldE f s' ys)"
  by (induction xs arbitrary: s) (auto simp: bindE_assoc)

lemma foldE_cong [fundef_cong]:
  assumes "xs = ys" and "s = s'" and "\<And>t x. x \<in> set ys \<Longrightarrow> f t x = g t x"
  shows "foldE f s xs = foldE g s' ys"
  unfolding assms(1,2) using assms(3)
proof (induction ys arbitrary: s')
  case Nil
  then show ?case by simp
next
  case (Cons y ys)
  then show ?case by (cases "g s' y") auto
qed

lemma mapE_cong [fundef_cong]:
  assumes "xs = ys" and "\<And>x. x \<in> set ys \<Longrightarrow> f x = g x"
  shows "mapE f xs = mapE g ys"
  unfolding assms(1) using assms(2) by (induction ys) auto

lemma mapE_Inr_all: "(\<And>x. x \<in> set xs \<Longrightarrow> f x = Inr (g x)) \<Longrightarrow> mapE f xs = Inr (map g xs)"
  by (induction xs) auto

lemma mapE_Inr_map: "mapE f (map h xs) = mapE (\<lambda>x. f (h x)) xs"
  by (induction xs) auto

lemma mapE_length: "mapE f xs = Inr ys \<Longrightarrow> length ys = length xs"
  by (induction xs arbitrary: ys) auto

lemma mapE_nth: "mapE f xs = Inr ys \<Longrightarrow> i < length xs \<Longrightarrow> f (xs ! i) = Inr (ys ! i)"
  by (induction xs arbitrary: ys i) (auto simp: nth_Cons')

lemma checkE_Inl_member: "checkE f xs = Inl e \<Longrightarrow> \<exists>x \<in> set xs. f x = Inl e"
  by (induction xs) (auto simp: bindE_Inl_iff)

lemma mapE_Inr_set: "mapE f xs = Inr ys \<Longrightarrow> y \<in> set ys \<Longrightarrow> \<exists>x \<in> set xs. f x = Inr y"
  by (induction xs arbitrary: ys) (auto simp: bindE_Inr_iff)

lemma mapE_list_all2: "mapE f xs = Inr ys \<Longrightarrow> list_all2 (\<lambda>x y. f x = Inr y) xs ys"
  by (induction xs arbitrary: ys) (auto simp: bindE_Inr_iff)

lemma list_all2_member: "list_all2 P xs ys \<Longrightarrow> y \<in> set ys \<Longrightarrow> \<exists>x \<in> set xs. P x y"
  by (induction rule: list_all2_induct) auto

lemma checkE_Inr_iff: "checkE f xs = Inr () \<longleftrightarrow> (\<forall>x \<in> set xs. f x = Inr ())"
  by (induction xs) (auto simp: bindE_Inr_iff)

text \<open>
  The invariant rule of the raising loop: an invariant over the elements consumed so far that
  each step keeps holds of the state a loop that returns leaves behind.
\<close>

lemma foldE_invariant:
  assumes "foldE f s xs = Inr s'"
    and "P [] s"
    and "\<And>ys x zs t t'. P ys t \<Longrightarrow> xs = ys @ x # zs \<Longrightarrow> f t x = Inr t' \<Longrightarrow> P (ys @ [x]) t'"
  shows "P xs s'"
  using assms
proof (induction xs arbitrary: s' rule: rev_induct)
  case Nil
  then show ?case by simp
next
  case (snoc x xs)
  from snoc.prems(1) obtain t where t: "foldE f s xs = Inr t" "f t x = Inr s'"
    by (auto simp: foldE_append)
  have "P xs t"
  proof (rule snoc.IH [OF t(1) snoc.prems(2)])
    fix ys y zs u u'
    assume "P ys u" "xs = ys @ y # zs" "f u y = Inr u'"
    then show "P (ys @ [y]) u'"
      by (intro snoc.prems(3) [of ys u y "zs @ [x]"]) auto
  qed
  then show ?case
    using t(2) by (intro snoc.prems(3) [of xs t x "[]"]) auto
qed

lemma foldE_simple_invariant:
  assumes "foldE f s xs = Inr s'"
    and "P s"
    and "\<And>x t t'. P t \<Longrightarrow> x \<in> set xs \<Longrightarrow> f t x = Inr t' \<Longrightarrow> P t'"
  shows "P s'"
  by (rule foldE_invariant [where P = "\<lambda>_. P", OF assms(1,2)]) (auto intro: assms(3))

text \<open>A loop that raises raised at one of its elements, after returning on those before.\<close>

lemma foldE_InlE:
  assumes "foldE f s xs = Inl e"
  obtains ys x zs t where "xs = ys @ x # zs" "foldE f s ys = Inr t" "f t x = Inl e"
  using assms
proof (induction xs arbitrary: s thesis)
  case Nil
  then show ?case by simp
next
  case (Cons y ys)
  show ?case
  proof (cases "f s y")
    case (Inl e')
    then show ?thesis using Cons.prems(1) [of "[]" y ys s] Cons.prems(2) by simp
  next
    case (Inr s')
    then have "foldE f s' ys = Inl e" using Cons.prems(2) by simp
    from Cons.IH [OF _ this] obtain as x zs t where
      "ys = as @ x # zs" "foldE f s' as = Inr t" "f t x = Inl e" by blast
    then show ?thesis using Cons.prems(1) [of "y # as" x zs t] Inr by simp
  qed
qed

lemma foldE_Inl_member: "foldE f s xs = Inl e \<Longrightarrow> \<exists>x \<in> set xs. \<exists>t. f t x = Inl e"
  by (erule foldE_InlE) auto

text \<open>A loop whose every step returns under an invariant returns, and keeps the invariant.\<close>

lemma foldE_total:
  assumes "P [] s"
    and "\<And>ys x zs t. P ys t \<Longrightarrow> xs = ys @ x # zs \<Longrightarrow> \<exists>t'. f t x = Inr t' \<and> P (ys @ [x]) t'"
  shows "\<exists>s'. foldE f s xs = Inr s' \<and> P xs s'"
  using assms
proof (induction xs rule: rev_induct)
  case Nil
  then show ?case by simp
next
  case (snoc x xs)
  have "\<exists>t. foldE f s xs = Inr t \<and> P xs t"
  proof (rule snoc.IH [OF snoc.prems(1)])
    fix ys y zs u
    assume "P ys u" "xs = ys @ y # zs"
    then show "\<exists>u'. f u y = Inr u' \<and> P (ys @ [y]) u'"
      by (intro snoc.prems(2) [of ys u y "zs @ [x]"]) auto
  qed
  then obtain t where t: "foldE f s xs = Inr t" "P xs t" by blast
  then obtain t' where "f t x = Inr t'" "P (xs @ [x]) t'"
    using snoc.prems(2) [of xs t x "[]"] by auto
  with t show ?case by (auto simp: foldE_append)
qed


section \<open>Sequences and dictionaries\<close>

text \<open>Two distinct members of a list stand in one order or the other.\<close>

lemma two_members:
  assumes "x \<in> set xs" "y \<in> set xs" "x \<noteq> y"
    and "\<And>as bs cs. xs = as @ x # bs @ y # cs \<Longrightarrow> P"
    and "\<And>as bs cs. xs = as @ y # bs @ x # cs \<Longrightarrow> P"
  shows P
proof -
  obtain as rest where xs: "xs = as @ x # rest" using split_list [OF assms(1)] by blast
  with assms(2,3) consider "y \<in> set as" | "y \<in> set rest" by auto
  then show P
  proof cases
    case 1
    then obtain bs cs where "as = bs @ y # cs" by (meson split_list)
    then show P using xs assms(5) [of bs cs rest] by simp
  next
    case 2
    then obtain bs cs where "rest = bs @ y # cs" by (meson split_list)
    then show P using xs assms(4) [of as bs cs] by simp
  qed
qed

text \<open>Indexing as Python does it: negative indices count from the end, any other raises.\<close>

definition py_nth :: "'a list \<Rightarrow> int \<Rightarrow> py_error + 'a" where
  "py_nth seq i =
     (if i < - int (length seq) \<or> int (length seq) \<le> i then Inl IndexError
      else Inr (seq ! nat (i mod int (length seq))))"

definition dict_get :: "('k \<rightharpoonup> 'v) \<Rightarrow> 'k \<Rightarrow> py_error + 'v" where
  "dict_get m k = (case m k of None \<Rightarrow> Inl KeyError | Some v \<Rightarrow> Inr v)"

definition py_floordiv :: "int \<Rightarrow> int \<Rightarrow> py_error + int" where
  "py_floordiv n d = bindE (ensure (d \<noteq> 0) ZeroDivisionError) (\<lambda>_. Inr (n div d))"

text \<open>A dictionary built from pairs in order: a later pair replaces an earlier one.\<close>

definition dict_of :: "('k \<times> 'v) list \<Rightarrow> ('k \<rightharpoonup> 'v)" where
  "dict_of kvs = map_of (rev kvs)"

text \<open>\<^verbatim>\<open>dict.fromkeys\<close>: the distinct elements, each at its first occurrence.\<close>

definition fromkeys :: "'a list \<Rightarrow> 'a list" where
  "fromkeys xs = rev (remdups (rev xs))"

lemma py_nth_nat [simp]: "i < length xs \<Longrightarrow> py_nth xs (int i) = Inr (xs ! i)"
  by (simp add: py_nth_def)

lemma py_nth_InrD: "py_nth xs i = Inr x \<Longrightarrow> 0 \<le> i \<Longrightarrow> nat i < length xs \<and> x = xs ! nat i"
  by (auto simp: py_nth_def nat_mod_as_int split: if_splits)

lemma dict_get_simps [simp, py_simps]:
  "m k = Some v \<Longrightarrow> dict_get m k = Inr v"
  "m k = None \<Longrightarrow> dict_get m k = Inl KeyError"
  by (simp_all add: dict_get_def)

lemma dict_get_Inr_iff: "dict_get m k = Inr v \<longleftrightarrow> m k = Some v"
  by (auto simp: dict_get_def split: option.splits)

lemma py_floordiv_nonzero [simp]: "b \<noteq> 0 \<Longrightarrow> py_floordiv a b = Inr (a div b)"
  by (simp add: py_floordiv_def)

lemma py_floordiv_Inr_iff: "py_floordiv a b = Inr q \<longleftrightarrow> b \<noteq> 0 \<and> q = a div b"
  by (auto simp: py_floordiv_def)

lemma set_fromkeys [simp]: "set (fromkeys xs) = set xs"
  by (simp add: fromkeys_def)

lemma distinct_fromkeys [simp]: "distinct (fromkeys xs)"
  by (simp add: fromkeys_def)

lemma mapE_dict_get:
  "mapE (dict_get m) xs = Inr ys \<Longrightarrow>
     set ys = {a. \<exists>x \<in> set xs. m x = Some a} \<and> (\<forall>x \<in> set xs. m x \<noteq> None)"
proof (induction xs arbitrary: ys)
  case (Cons x xs)
  then show ?case by (cases "m x") (auto simp: bindE_Inr_iff dict_get_def)
qed simp

lemma dict_of_snoc: "dict_of (kvs @ [(k, v)]) = (dict_of kvs)(k \<mapsto> v)"
  by (simp add: dict_of_def)

lemma dict_of_dom: "dom (dict_of kvs) = fst ` set kvs"
  by (auto simp: dict_of_def dom_map_of_conv_image_fst)

lemma dict_of_SomeD: "dict_of kvs k = Some v \<Longrightarrow> (k, v) \<in> set kvs"
  by (auto simp: dict_of_def dest: map_of_SomeD)

lemma dict_of_is_Some: "(\<exists>v. dict_of kvs k = Some v) \<longleftrightarrow> k \<in> fst ` set kvs"
  using dict_of_dom [of kvs] by (auto simp: dom_def)

lemma dict_of_distinct:
  "distinct (map fst kvs) \<Longrightarrow> (k, v) \<in> set kvs \<Longrightarrow> dict_of kvs k = Some v"
  by (simp add: dict_of_def rev_map [symmetric])


lemma member_enumerate: "x \<in> set xs \<Longrightarrow> \<exists>i < length xs. (i, x) \<in> set (enumerate 0 xs)"
proof -
  assume "x \<in> set xs"
  then obtain i where "i < length xs" "x = xs ! i" by (auto simp: in_set_conv_nth)
  then show ?thesis by (intro exI [of _ i]) (simp add: in_set_enumerate_eq)
qed


section \<open>Ranks of coordinates\<close>

text \<open>
  \<^verbatim>\<open>{value: index for index, value in enumerate(times)}\<close> over a list of distinct values:
  the index of a value. Every value the sources look up is one of the list.
\<close>

definition rank_of :: "'a list \<Rightarrow> 'a \<Rightarrow> nat" where
  "rank_of xs x = length (takeWhile (\<lambda>y. y \<noteq> x) xs)"

definition coordinates :: "'a::linorder list \<Rightarrow> 'a list" where
  "coordinates xs = sort (remdups xs)"

lemma coordinates_props [simp]:
  "set (coordinates xs) = set xs"
  "distinct (coordinates xs)"
  "sorted (coordinates xs)"
  by (simp_all add: coordinates_def)

lemma rank_of_less_length: "x \<in> set xs \<Longrightarrow> rank_of xs x < length xs"
  unfolding rank_of_def by (induction xs) auto

lemma nth_rank_of: "x \<in> set xs \<Longrightarrow> xs ! rank_of xs x = x"
  unfolding rank_of_def by (induction xs) auto

lemma rank_of_nth: "distinct xs \<Longrightarrow> i < length xs \<Longrightarrow> rank_of xs (xs ! i) = i"
  by (metis nth_eq_iff_index_eq nth_mem nth_rank_of rank_of_less_length)

lemma rank_of_mono:
  assumes "sorted xs" "distinct xs" "x \<in> set xs" "y \<in> set xs"
  shows "rank_of xs x < rank_of xs y \<longleftrightarrow> x < y"
proof -
  let ?i = "rank_of xs x" and ?j = "rank_of xs y"
  have "?i < length xs" "?j < length xs" "xs ! ?i = x" "xs ! ?j = y"
    using assms by (auto simp: rank_of_less_length nth_rank_of)
  then show ?thesis
    using assms(1,2)
    by (metis linorder_neqE_nat nth_eq_iff_index_eq order.strict_iff_order order.asym
        sorted_wrt_nth_less strict_sorted_iff)
qed

lemma rank_of_less [simp]:
  "x \<in> set xs \<Longrightarrow> y \<in> set xs \<Longrightarrow>
    rank_of (coordinates xs) x < rank_of (coordinates xs) y \<longleftrightarrow> x < y"
  by (rule rank_of_mono) auto

lemma rank_of_le [simp]:
  "x \<in> set xs \<Longrightarrow> y \<in> set xs \<Longrightarrow>
    rank_of (coordinates xs) x \<le> rank_of (coordinates xs) y \<longleftrightarrow> x \<le> y"
  by (simp add: linorder_not_less [symmetric])

lemma rank_of_coordinates_less:
  "x \<in> set xs \<Longrightarrow> rank_of (coordinates xs) x < length (coordinates xs)"
  by (simp add: rank_of_less_length)

end
