(* ===== verification/Heap_Tree.thy ===== *)
theory Heap_Tree
  imports Prelude
begin

text \<open>
  The numbering both segment trees share: node \<open>n\<close> over \<open>[l, r)\<close> has children \<open>2n\<close> and
  \<open>2n + 1\<close> over the two halves. Here: the numbers below a node, and how large a node array
  has to be for a range of a given width (the \<open>4 * max 1 length\<close> the sources allocate).
\<close>

section \<open>Numbers below a node\<close>

text \<open>Those that halve down to it.\<close>

definition below :: "nat \<Rightarrow> nat set" where
  "below node = {m. \<exists>d. m div 2 ^ d = node}"

lemma below_self [simp]: "node \<in> below node"
  unfolding below_def by (auto intro: exI [of _ 0])

lemma below_child: "m \<in> below (node * 2 + b) \<Longrightarrow> b < 2 \<Longrightarrow> m \<in> below node"
  unfolding below_def
proof clarify
  fix d
  assume "b < 2" "m div 2 ^ d = node * 2 + b"
  then have "m div 2 ^ d div 2 = node" by simp
  then have "m div 2 ^ Suc d = node"
    by (metis div_mult2_eq power_Suc2)
  then show "\<exists>d'. m div 2 ^ d' = node" by blast
qed

lemma below_lower: "0 < node \<Longrightarrow> m \<in> below node \<Longrightarrow> node \<le> m"
  unfolding below_def by (auto simp: div_le_dividend)

lemma div_pow_le_half: "(x::nat) div 2 ^ Suc k \<le> x div 2"
  by (metis div_le_dividend div_mult2_eq power_Suc)

lemma div_pow_add: "(m::nat) div 2 ^ (x + k) = (m div 2 ^ x) div 2 ^ k"
  by (metis div_mult2_eq power_add)

lemma below_siblings_disjoint:
  assumes "0 < node" "m \<in> below (node * 2)" "m \<in> below (node * 2 + 1)"
  shows False
proof -
  from assms(2,3) obtain a b where a: "m div 2 ^ a = node * 2" and b: "m div 2 ^ b = node * 2 + 1"
    unfolding below_def by blast
  consider "a = b" | k where "b = a + Suc k" | k where "a = b + Suc k"
    by (metis add_Suc_right less_imp_Suc_add linorder_neqE_nat)
  then show False
  proof cases
    case 1
    with a b show False by simp
  next
    case 2
    then have "node * 2 + 1 = (node * 2) div 2 ^ Suc k" using a b div_pow_add by metis
    also have "\<dots> \<le> node * 2 div 2" by (rule div_pow_le_half)
    finally show False by simp
  next
    case 3
    then have "node * 2 = (node * 2 + 1) div 2 ^ Suc k" using a b div_pow_add by metis
    also have "\<dots> \<le> (node * 2 + 1) div 2" by (rule div_pow_le_half)
    finally show False using assms(1) by simp
  qed
qed

lemma below_child_notin: "0 < node \<Longrightarrow> b < 2 \<Longrightarrow> node \<notin> below (node * 2 + b)"
  using below_lower [of "node * 2 + b" node] by auto



section \<open>Room for a subtree\<close>

text \<open>
  An array of \<open>len\<close> entries has room for the subtree of \<open>node\<close> over a range of width \<open>w\<close>
  when some power of two covers the width and \<open>(node + 1) * 2 ^ d\<close> fits.
\<close>

definition room :: "nat \<Rightarrow> nat \<Rightarrow> nat \<Rightarrow> bool" where
  "room len node w \<longleftrightarrow> (\<exists>d. w \<le> 2 ^ d \<and> (node + 1) * 2 ^ d \<le> len)"

lemma room_node: "room len node w \<Longrightarrow> node < len"
proof -
  assume "room len node w"
  then obtain d where "(node + 1) * 2 ^ d \<le> len" by (auto simp: room_def)
  moreover have "(node + 1) * 1 \<le> (node + 1) * 2 ^ d" by (rule mult_le_mono2) simp
  ultimately have "node + 1 \<le> len" by (metis le_trans mult.right_neutral)
  then show ?thesis by simp
qed

lemma room_children:
  assumes "room len node (r - l)" "1 < r - l"
  shows "room len (node * 2) ((l + r) div 2 - l)" "room len (node * 2 + 1) (r - (l + r) div 2)"
proof -
  from assms obtain d where d: "r - l \<le> 2 ^ d" "(node + 1) * 2 ^ d \<le> len"
    by (auto simp: room_def)
  with assms(2) obtain c where c: "d = Suc c" by (cases d) auto
  have "(l + r) div 2 - l \<le> 2 ^ c" "r - (l + r) div 2 \<le> 2 ^ c"
    using d(1) c by auto
  moreover have "(node * 2 + 1 + 1) * 2 ^ c \<le> len" using d(2) c by (simp add: algebra_simps)
  moreover have "(node * 2 + 1) * 2 ^ c \<le> (node * 2 + 1 + 1) * 2 ^ c" by simp
  ultimately show "room len (node * 2) ((l + r) div 2 - l)"
    "room len (node * 2 + 1) (r - (l + r) div 2)"
    unfolding room_def by (meson order_trans)+
qed

lemma room_root: "room (4 * max 1 n) 1 n"
proof -
  have "\<exists>d. n \<le> 2 ^ d \<and> 2 * 2 ^ d \<le> 4 * max 1 n"
  proof (cases "n \<le> 1")
    case True
    then show ?thesis by (intro exI [of _ 0]) auto
  next
    case False
    define d where "d = (LEAST d. n \<le> 2 ^ d)"
    have le: "n \<le> 2 ^ d" unfolding d_def by (rule LeastI [of "\<lambda>d. n \<le> 2 ^ d" n]) simp
    then obtain c where c: "d = Suc c" using False by (cases d) auto
    have "\<not> n \<le> 2 ^ c"
      using not_less_Least [of c "\<lambda>d. n \<le> 2 ^ d"] c by (simp add: d_def)
    then show ?thesis using le c by (intro exI [of _ d]) auto
  qed
  then show ?thesis unfolding room_def one_add_one .
qed

end
