(* ===== verification/Temporal_Index.thy ===== *)
theory Temporal_Index
  imports Heap_Tree
begin

text \<open>
  The temporal index of fixed-offset placement
  (\<^verbatim>\<open>reference/python/admission/placement.py\<close>, class \<^verbatim>\<open>_TemporalIndex\<close>): a segment tree over ranks
  whose node dictionary maps heap numbers (children \<open>2n\<close> and \<open>2n + 1\<close>) to the interval ids
  stored there. Both recursions are partial: where the Python would recurse for ever the
  model has no value. The locale \<open>interval_index\<close> is the contract placement relies on; the
  tree is its interpretation.
\<close>

section \<open>The tree as the source has it\<close>

record temporal_index =
  ti_length :: nat
  ti_nodes :: "nat \<rightharpoonup> nat list"

definition ti_new :: "nat \<Rightarrow> temporal_index" where
  "ti_new len = \<lparr>ti_length = len, ti_nodes = Map.empty\<rparr>"

text \<open>\<^verbatim>\<open>nodes.setdefault(node, []).append(item)\<close> and \<^verbatim>\<open>nodes.get(node, ())\<close>.\<close>

definition nodes_append :: "(nat \<rightharpoonup> nat list) \<Rightarrow> nat \<Rightarrow> nat \<Rightarrow> (nat \<rightharpoonup> nat list)" where
  "nodes_append nodes node item =
     nodes(node \<mapsto> (case nodes node of None \<Rightarrow> [] | Some xs \<Rightarrow> xs) @ [item])"

definition nodes_get :: "(nat \<rightharpoonup> nat list) \<Rightarrow> nat \<Rightarrow> nat list" where
  "nodes_get nodes node = (case nodes node of None \<Rightarrow> [] | Some xs \<Rightarrow> xs)"

partial_function (option) ti_add_node ::
    "(nat \<rightharpoonup> nat list) \<Rightarrow> nat \<Rightarrow> nat \<Rightarrow> nat \<Rightarrow> nat \<Rightarrow> nat \<Rightarrow> nat \<Rightarrow> (nat \<rightharpoonup> nat list) option" where
  "ti_add_node nodes node left right start stop item =
     (if start \<le> left \<and> right \<le> stop then Some (nodes_append nodes node item)
      else
        Option.bind
          (if start < (left + right) div 2
           then ti_add_node nodes (node * 2) left ((left + right) div 2) start stop item
           else Some nodes)
          (\<lambda>nodes'.
             if (left + right) div 2 < stop
             then ti_add_node nodes' (node * 2 + 1) ((left + right) div 2) right start stop item
             else Some nodes'))"

text \<open>The set of found ids is kept as a list without repetitions: its only reader sorts.\<close>

partial_function (option) ti_query_node ::
    "(nat \<rightharpoonup> nat list) \<Rightarrow> nat \<Rightarrow> nat \<Rightarrow> nat \<Rightarrow> nat \<Rightarrow> nat \<Rightarrow> nat list \<Rightarrow> nat list option" where
  "ti_query_node nodes node left right start stop found =
     (if stop \<le> left \<or> right \<le> start then Some found
      else if right - left = 1 then Some (fold List.insert (nodes_get nodes node) found)
      else
        Option.bind
          (if start < (left + right) div 2
           then ti_query_node nodes (node * 2) left ((left + right) div 2) start stop
                  (fold List.insert (nodes_get nodes node) found)
           else Some (fold List.insert (nodes_get nodes node) found))
          (\<lambda>found'.
             if (left + right) div 2 < stop
             then ti_query_node nodes (node * 2 + 1) ((left + right) div 2) right start stop found'
             else Some found'))"

declare ti_add_node.simps [code] ti_query_node.simps [code]

definition ti_add :: "temporal_index \<Rightarrow> nat \<Rightarrow> nat \<Rightarrow> nat \<Rightarrow> temporal_index option" where
  "ti_add t start stop item =
     Option.bind (ti_add_node (ti_nodes t) 1 0 (ti_length t) start stop item)
       (\<lambda>nodes. Some (t\<lparr>ti_nodes := nodes\<rparr>))"

definition ti_overlapping :: "temporal_index \<Rightarrow> nat \<Rightarrow> nat \<Rightarrow> nat list option" where
  "ti_overlapping t start stop = ti_query_node (ti_nodes t) 1 0 (ti_length t) start stop []"


section \<open>The contract\<close>

text \<open>
  An index over \<open>n\<close> ranks holds a set of entries \<open>(start, stop, item)\<close>. Adding a non-empty
  interval adds its entry, adding an empty one changes nothing, and a query over a non-empty
  range returns exactly the items whose interval meets it.
\<close>

locale interval_index =
  fixes create :: "nat \<Rightarrow> 't"
    and add :: "'t \<Rightarrow> nat \<Rightarrow> nat \<Rightarrow> nat \<Rightarrow> 't option"
    and overlapping :: "'t \<Rightarrow> nat \<Rightarrow> nat \<Rightarrow> nat list option"
    and holds :: "nat \<Rightarrow> 't \<Rightarrow> (nat \<times> nat \<times> nat) set \<Rightarrow> bool"
  assumes holds_create: "0 < n \<Longrightarrow> holds n (create n) {}"
    and holds_add: "holds n t E \<Longrightarrow> s < e \<Longrightarrow> e < n \<Longrightarrow>
          \<exists>t'. add t s e i = Some t' \<and> holds n t' (insert (s, e, i) E)"
    and holds_add_empty: "holds n t E \<Longrightarrow> s < n \<Longrightarrow> \<exists>t'. add t s s i = Some t' \<and> holds n t' E"
    and overlapping_exact: "holds n t E \<Longrightarrow> s < e \<Longrightarrow> e < n \<Longrightarrow>
          \<exists>found. overlapping t s e = Some found \<and> distinct found
            \<and> set found = {i. \<exists>a b. (a, b, i) \<in> E \<and> a < e \<and> s < b}"
    and overlapping_empty: "holds n t E \<Longrightarrow> s < n \<Longrightarrow>
          \<exists>found. overlapping t s s = Some found \<and> set found \<subseteq> {i. \<exists>a b. (a, b, i) \<in> E}"
begin

text \<open>Both operations return for every interval that does not end before it starts.\<close>

lemma add_total:
  assumes "holds n t E" "s \<le> e" "e < n"
  shows "\<exists>t'. add t s e i = Some t' \<and> holds n t' (if s < e then insert (s, e, i) E else E)"
proof (cases "s < e")
  case True
  then show ?thesis using holds_add [OF assms(1) True assms(3)] by simp
next
  case False
  then have "e = s" using assms(2) by simp
  then show ?thesis using holds_add_empty [OF assms(1)] assms(3) by simp
qed

lemma overlapping_total:
  assumes "holds n t E" "s \<le> e" "e < n"
  shows "\<exists>found. overlapping t s e = Some found \<and> set found \<subseteq> {i. \<exists>a b. (a, b, i) \<in> E}
    \<and> (s < e \<longrightarrow> set found = {i. \<exists>a b. (a, b, i) \<in> E \<and> a < e \<and> s < b})"
proof (cases "s < e")
  case True
  from overlapping_exact [OF assms(1) True assms(3)]
  obtain found where found: "overlapping t s e = Some found"
    "set found = {i. \<exists>a b. (a, b, i) \<in> E \<and> a < e \<and> s < b}"
    by blast
  then have "set found \<subseteq> {i. \<exists>a b. (a, b, i) \<in> E}" by auto
  with found True show ?thesis by simp
next
  case False
  then have "e = s" using assms(2) by simp
  then show ?thesis using overlapping_empty [OF assms(1)] assms(3) by simp
qed

end


section \<open>Nodes an interval is stored at, nodes a query visits\<close>

text \<open>
  Both recursions are described by the node sets they touch, over the same halving of
  \<open>[l, r)\<close>. The descriptions are total, so correctness is a statement about sets.
\<close>

function stored_at :: "nat \<Rightarrow> nat \<Rightarrow> nat \<Rightarrow> nat \<Rightarrow> nat \<Rightarrow> nat set" where
  "stored_at node l r s e =
     (if s \<le> l \<and> r \<le> e then {node}
      else if r - l \<le> 1 then {}
      else (if s < (l + r) div 2 then stored_at (node * 2) l ((l + r) div 2) s e else {})
        \<union> (if (l + r) div 2 < e then stored_at (node * 2 + 1) ((l + r) div 2) r s e else {}))"
  by pat_completeness auto
termination
  by (relation "measure (\<lambda>(node, l, r, s, e). r - l)") auto

function visited :: "nat \<Rightarrow> nat \<Rightarrow> nat \<Rightarrow> nat \<Rightarrow> nat \<Rightarrow> nat set" where
  "visited node l r s e =
     (if e \<le> l \<or> r \<le> s then {}
      else if r - l \<le> 1 then {node}
      else insert node
        ((if s < (l + r) div 2 then visited (node * 2) l ((l + r) div 2) s e else {})
        \<union> (if (l + r) div 2 < e then visited (node * 2 + 1) ((l + r) div 2) r s e else {})))"
  by pat_completeness auto
termination
  by (relation "measure (\<lambda>(node, l, r, s, e). r - l)") auto

declare stored_at.simps [simp del] visited.simps [simp del]

lemma stored_at_below: "stored_at node l r s e \<subseteq> below node"
proof (induction node l r s e rule: stored_at.induct)
  case (1 node l r s e)
  let ?m = "(l + r) div 2"
  have sub: "below (node * 2) \<subseteq> below node" "below (node * 2 + 1) \<subseteq> below node"
    using below_child [of _ node 0] below_child [of _ node 1] by auto
  show ?case
  proof (cases "\<not> (s \<le> l \<and> r \<le> e) \<and> \<not> r - l \<le> 1")
    case True
    then have "(if s < ?m then stored_at (node * 2) l ?m s e else {}) \<subseteq> below node"
      "(if ?m < e then stored_at (node * 2 + 1) ?m r s e else {}) \<subseteq> below node"
      using "1.IH" sub by (auto split: if_splits)
    with True show ?thesis by (subst stored_at.simps) auto
  next
    case False
    then show ?thesis by (subst stored_at.simps) auto
  qed
qed

lemma visited_below: "visited node l r s e \<subseteq> below node"
proof (induction node l r s e rule: visited.induct)
  case (1 node l r s e)
  let ?m = "(l + r) div 2"
  have sub: "below (node * 2) \<subseteq> below node" "below (node * 2 + 1) \<subseteq> below node"
    using below_child [of _ node 0] below_child [of _ node 1] by auto
  show ?case
  proof (cases "\<not> (e \<le> l \<or> r \<le> s) \<and> \<not> r - l \<le> 1")
    case True
    then have "(if s < ?m then visited (node * 2) l ?m s e else {}) \<subseteq> below node"
      "(if ?m < e then visited (node * 2 + 1) ?m r s e else {}) \<subseteq> below node"
      using "1.IH" sub by (auto split: if_splits)
    with True show ?thesis by (subst visited.simps) auto
  next
    case False
    then show ?thesis by (subst visited.simps) auto
  qed
qed

text \<open>
  The heart of the tree: over a halving of \<open>[l, r)\<close>, the nodes an interval is stored at meet
  the nodes a query visits exactly when the two intervals meet inside \<open>[l, r)\<close>.
\<close>

lemma stored_meets_visited:
  assumes "0 < node" "l < r" "s < e" "qs < qe" "s < r" "l < e" "qs < r" "l < qe"
  shows "stored_at node l r s e \<inter> visited node l r qs qe \<noteq> {}
    \<longleftrightarrow> max l (max s qs) < min r (min e qe)"
  using assms
proof (induction node l r s e rule: stored_at.induct)
  case (1 node l r s e)
  let ?m = "(l + r) div 2"
  show ?case
  proof (cases "s \<le> l \<and> r \<le> e")
    case True
    then have "stored_at node l r s e = {node}" by (subst stored_at.simps) simp
    moreover have "node \<in> visited node l r qs qe"
      using "1.prems" by (subst visited.simps) auto
    ultimately show ?thesis using True "1.prems" by auto
  next
    case False
    with "1.prems" have wide: "\<not> r - l \<le> 1" by auto
    then have m: "l < ?m" "?m < r" by auto
    let ?SL = "if s < ?m then stored_at (node * 2) l ?m s e else {}"
    let ?SR = "if ?m < e then stored_at (node * 2 + 1) ?m r s e else {}"
    let ?VL = "if qs < ?m then visited (node * 2) l ?m qs qe else {}"
    let ?VR = "if ?m < qe then visited (node * 2 + 1) ?m r qs qe else {}"
    have S: "stored_at node l r s e = ?SL \<union> ?SR"
      using False wide by (subst stored_at.simps) auto
    have V: "visited node l r qs qe = insert node (?VL \<union> ?VR)"
      using wide "1.prems" by (subst visited.simps) auto
    have sub: "?SL \<subseteq> below (node * 2)" "?VL \<subseteq> below (node * 2)"
      "?SR \<subseteq> below (node * 2 + 1)" "?VR \<subseteq> below (node * 2 + 1)"
      using stored_at_below visited_below by auto
    have notin: "node \<notin> below (node * 2)" "node \<notin> below (node * 2 + 1)"
      using below_child_notin [of node 0] below_child_notin [of node 1] "1.prems"(1) by auto
    have disj: "below (node * 2) \<inter> below (node * 2 + 1) = {}"
      using below_siblings_disjoint [OF "1.prems"(1)] by blast
    have "stored_at node l r s e \<inter> visited node l r qs qe = (?SL \<inter> ?VL) \<union> (?SR \<inter> ?VR)"
      using sub notin disj unfolding S V by blast
    moreover have "?SL \<inter> ?VL \<noteq> {} \<longleftrightarrow> max l (max s qs) < min ?m (min e qe)"
    proof (cases "s < ?m \<and> qs < ?m")
      case True
      then show ?thesis
        using "1.IH"(1) [OF False wide] "1.prems" m by simp
    next
      case False
      then show ?thesis by auto
    qed
    moreover have "?SR \<inter> ?VR \<noteq> {} \<longleftrightarrow> max ?m (max s qs) < min r (min e qe)"
    proof (cases "?m < e \<and> ?m < qe")
      case True
      then show ?thesis
        using "1.IH"(2) [OF False wide] "1.prems" m by simp
    next
      case False
      then show ?thesis by auto
    qed
    ultimately show ?thesis using m by auto
  qed
qed


section \<open>The recursions follow the descriptions\<close>

lemma nodes_get_append:
  "nodes_get (nodes_append nodes k i) k' = nodes_get nodes k' @ (if k' = k then [i] else [])"
  by (auto simp: nodes_get_def nodes_append_def split: option.splits)

text \<open>
  An insertion that returns appends the item at each of its nodes and nowhere else; it
  returns for a non-empty interval that meets \<open>[l, r)\<close>, and for an empty one inside it.
\<close>

lemma ti_add_node_ok:
  assumes "0 < node" "l < r" "s < r" "l < e \<or> s = e \<and> l \<le> s" "s \<le> e"
  shows "\<exists>nodes'. ti_add_node nodes node l r s e i = Some nodes'
    \<and> (\<forall>k. nodes_get nodes' k = nodes_get nodes k @ (if k \<in> stored_at node l r s e then [i] else []))"
  using assms
proof (induction node l r s e arbitrary: nodes rule: stored_at.induct)
  case (1 node l r s e)
  let ?m = "(l + r) div 2"
  note unf = ti_add_node.simps [of nodes node l r s e i] stored_at.simps [of node l r s e]
  show ?case
  proof (cases "s \<le> l \<and> r \<le> e")
    case True
    then show ?thesis unfolding unf by (auto simp: nodes_get_append)
  next
    case False
    show ?thesis
    proof (cases "r - l \<le> 1")
      case True
      with "1.prems" False have "s = e" "s = l" "r = Suc l" by auto
      with False show ?thesis unfolding unf by simp
    next
      case wide: False
      then have m: "l < ?m" "?m < r" by auto
      let ?SL = "if s < ?m then stored_at (node * 2) l ?m s e else {}"
      let ?SR = "if ?m < e then stored_at (node * 2 + 1) ?m r s e else {}"
      have "\<exists>nl. (if s < ?m then ti_add_node nodes (node * 2) l ?m s e i else Some nodes) = Some nl
        \<and> (\<forall>k. nodes_get nl k = nodes_get nodes k @ (if k \<in> ?SL then [i] else []))"
        using "1.IH"(1) [OF False wide, of nodes] "1.prems" m by auto
      then obtain nl where nl:
        "(if s < ?m then ti_add_node nodes (node * 2) l ?m s e i else Some nodes) = Some nl"
        "\<forall>k. nodes_get nl k = nodes_get nodes k @ (if k \<in> ?SL then [i] else [])"
        by blast
      have "\<exists>nr. (if ?m < e then ti_add_node nl (node * 2 + 1) ?m r s e i else Some nl) = Some nr
        \<and> (\<forall>k. nodes_get nr k = nodes_get nl k @ (if k \<in> ?SR then [i] else []))"
        using "1.IH"(2) [OF False wide, of nl] "1.prems" m by auto
      then obtain nr where nr:
        "(if ?m < e then ti_add_node nl (node * 2 + 1) ?m r s e i else Some nl) = Some nr"
        "\<forall>k. nodes_get nr k = nodes_get nl k @ (if k \<in> ?SR then [i] else [])"
        by blast
      have "?SL \<inter> ?SR = {}"
        using stored_at_below [of "node * 2" l ?m s e]
          stored_at_below [of "node * 2 + 1" ?m r s e]
          below_siblings_disjoint [OF "1.prems"(1)] by auto
      then have "\<forall>k. nodes_get nr k
          = nodes_get nodes k @ (if k \<in> ?SL \<union> ?SR then [i] else [])"
        using nl(2) nr(2) by (auto simp del: Un_iff simp: Un_iff [symmetric])
      moreover have "ti_add_node nodes node l r s e i = Some nr"
        using False nl(1) nr(1) by (subst unf(1)) (simp only: if_False bind.bind_lunit simp_thms)
      moreover have "stored_at node l r s e = ?SL \<union> ?SR"
        using False wide by (subst unf(2)) auto
      ultimately show ?thesis by auto
    qed
  qed
qed

lemma set_fold_insert [simp]: "set (fold List.insert xs ys) = set xs \<union> set ys"
  by (induction xs arbitrary: ys) auto

lemma distinct_fold_insert: "distinct ys \<Longrightarrow> distinct (fold List.insert xs ys)"
  by (induction xs arbitrary: ys) auto

text \<open>A query over a proper range of ranks always returns, with the items of its nodes.\<close>

lemma ti_query_node_ok:
  assumes "l < r"
  shows "\<exists>found'. ti_query_node nodes node l r s e found = Some found'
    \<and> (distinct found \<longrightarrow> distinct found')
    \<and> set found' = set found \<union> (\<Union>k \<in> visited node l r s e. set (nodes_get nodes k))"
  using assms
proof (induction node l r s e arbitrary: found rule: visited.induct)
  case (1 node l r s e)
  let ?m = "(l + r) div 2"
  let ?f = "fold List.insert (nodes_get nodes node) found"
  note unf = ti_query_node.simps [of nodes node l r s e found] visited.simps [of node l r s e]
  show ?case
  proof (cases "e \<le> l \<or> r \<le> s")
    case True
    then show ?thesis unfolding unf by auto
  next
    case False
    show ?thesis
    proof (cases "r - l \<le> 1")
      case True
      with "1.prems" have "r - l = 1" by simp
      with False show ?thesis unfolding unf by (auto simp: distinct_fold_insert)
    next
      case wide: False
      then have m: "l < ?m" "?m < r" by auto
      let ?VL = "if s < ?m then visited (node * 2) l ?m s e else {}"
      let ?VR = "if ?m < e then visited (node * 2 + 1) ?m r s e else {}"
      have "\<exists>fl. (if s < ?m then ti_query_node nodes (node * 2) l ?m s e ?f else Some ?f) = Some fl
        \<and> (distinct ?f \<longrightarrow> distinct fl)
        \<and> set fl = set ?f \<union> (\<Union>k \<in> ?VL. set (nodes_get nodes k))"
        using "1.IH"(1) [OF False wide, of ?f] m by auto
      then obtain fl where fl:
        "(if s < ?m then ti_query_node nodes (node * 2) l ?m s e ?f else Some ?f) = Some fl"
        "distinct ?f \<longrightarrow> distinct fl"
        "set fl = set ?f \<union> (\<Union>k \<in> ?VL. set (nodes_get nodes k))"
        by blast
      have "\<exists>fr. (if ?m < e then ti_query_node nodes (node * 2 + 1) ?m r s e fl else Some fl) = Some fr
        \<and> (distinct fl \<longrightarrow> distinct fr)
        \<and> set fr = set fl \<union> (\<Union>k \<in> ?VR. set (nodes_get nodes k))"
        using "1.IH"(2) [OF False wide, of fl] m by auto
      then obtain fr where fr:
        "(if ?m < e then ti_query_node nodes (node * 2 + 1) ?m r s e fl else Some fl) = Some fr"
        "distinct fl \<longrightarrow> distinct fr"
        "set fr = set fl \<union> (\<Union>k \<in> ?VR. set (nodes_get nodes k))"
        by blast
      have "ti_query_node nodes node l r s e found = Some fr"
        using False wide fl(1) fr(1) by (subst unf(1)) (simp del: One_nat_def)
      moreover have "visited node l r s e = insert node (?VL \<union> ?VR)"
        using False wide by (subst unf(2)) auto
      moreover have "distinct found \<longrightarrow> distinct fr"
        using fl(2) fr(2) by (simp add: distinct_fold_insert)
      moreover have "set fr = set found
          \<union> (\<Union>k \<in> insert node (?VL \<union> ?VR). set (nodes_get nodes k))"
        using fl(3) fr(3) by auto
      ultimately show ?thesis by simp
    qed
  qed
qed


section \<open>The tree keeps the contract\<close>

definition ti_holds :: "nat \<Rightarrow> temporal_index \<Rightarrow> (nat \<times> nat \<times> nat) set \<Rightarrow> bool" where
  "ti_holds n t E \<longleftrightarrow> 0 < n \<and> ti_length t = n
     \<and> (\<forall>(s, e, i) \<in> E. s < e \<and> e < n)
     \<and> (\<forall>k. set (nodes_get (ti_nodes t) k) = {i. \<exists>s e. (s, e, i) \<in> E \<and> k \<in> stored_at 1 0 n s e})"

lemma stored_at_empty_interval:
  "s = e \<Longrightarrow> l \<le> s \<Longrightarrow> s < r \<Longrightarrow> stored_at node l r s e = {}"
proof (induction node l r s e rule: stored_at.induct)
  case (1 node l r s e)
  then show ?case by (subst stored_at.simps) auto
qed

lemma ti_new_holds: "0 < n \<Longrightarrow> ti_holds n (ti_new n) {}"
  by (simp add: ti_holds_def ti_new_def nodes_get_def)

lemma ti_add_holds:
  assumes "ti_holds n t E" "s \<le> e" "e < n"
  shows "\<exists>t'. ti_add t s e i = Some t'
    \<and> ti_holds n t' (if s < e then insert (s, e, i) E else E)"
proof -
  from assms(1) have t: "0 < n" "ti_length t = n" "\<forall>(s, e, i) \<in> E. s < e \<and> e < n"
    "\<And>k. set (nodes_get (ti_nodes t) k) = {i. \<exists>s e. (s, e, i) \<in> E \<and> k \<in> stored_at 1 0 n s e}"
    by (auto simp: ti_holds_def)
  obtain nodes' where add: "ti_add_node (ti_nodes t) 1 0 n s e i = Some nodes'"
    and get: "\<And>k. nodes_get nodes' k
        = nodes_get (ti_nodes t) k @ (if k \<in> stored_at 1 0 n s e then [i] else [])"
  proof -
    have "0 < e \<or> s = e \<and> 0 \<le> s" using assms(2) by auto
    then show ?thesis
      using that ti_add_node_ok [of 1 0 n s e "ti_nodes t" i] assms(2,3) t(1) by force
  qed
  let ?t' = "t\<lparr>ti_nodes := nodes'\<rparr>"
  have "ti_holds n ?t' (if s < e then insert (s, e, i) E else E)"
  proof (cases "s < e")
    case True
    then show ?thesis using t get assms(3) by (auto simp: ti_holds_def)
  next
    case False
    then have "stored_at 1 0 n s e = {}"
      using stored_at_empty_interval [of s e 0 n 1] assms by auto
    then show ?thesis using t get False by (auto simp: ti_holds_def)
  qed
  moreover have "ti_add t s e i = Some ?t'"
    using add t(2) by (simp add: ti_add_def)
  ultimately show ?thesis by blast
qed

lemma ti_overlapping_found:
  assumes "ti_holds n t E"
  shows "\<exists>found. ti_overlapping t s e = Some found \<and> distinct found
    \<and> set found = {i. \<exists>a b. (a, b, i) \<in> E \<and> stored_at 1 0 n a b \<inter> visited 1 0 n s e \<noteq> {}}"
proof -
  from assms have t: "0 < n" "ti_length t = n"
    "\<And>k. set (nodes_get (ti_nodes t) k) = {i. \<exists>s e. (s, e, i) \<in> E \<and> k \<in> stored_at 1 0 n s e}"
    by (auto simp: ti_holds_def)
  obtain found where "ti_query_node (ti_nodes t) 1 0 n s e [] = Some found" "distinct found"
    "set found = (\<Union>k \<in> visited 1 0 n s e. set (nodes_get (ti_nodes t) k))"
    using ti_query_node_ok [OF t(1), of "ti_nodes t" 1 s e "[]"] by auto
  then show ?thesis
    using t by (auto simp: ti_overlapping_def)
qed

lemma ti_overlapping_exact:
  assumes "ti_holds n t E" "s < e" "e < n"
  shows "\<exists>found. ti_overlapping t s e = Some found \<and> distinct found
    \<and> set found = {i. \<exists>a b. (a, b, i) \<in> E \<and> a < e \<and> s < b}"
proof -
  have "stored_at 1 0 n a b \<inter> visited 1 0 n s e \<noteq> {} \<longleftrightarrow> a < e \<and> s < b"
    if "(a, b, i) \<in> E" for a b i
  proof -
    from that assms(1) have "a < b" "b < n" "0 < n" by (auto simp: ti_holds_def)
    then show ?thesis
      using stored_meets_visited [of 1 0 n a b s e] assms(2,3) by auto
  qed
  then have "{i. \<exists>a b. (a, b, i) \<in> E \<and> stored_at 1 0 n a b \<inter> visited 1 0 n s e \<noteq> {}}
      = {i. \<exists>a b. (a, b, i) \<in> E \<and> a < e \<and> s < b}"
    by blast
  with ti_overlapping_found [OF assms(1), of s e] show ?thesis by simp
qed

interpretation segment_tree: interval_index ti_new ti_add ti_overlapping ti_holds
proof
  fix n t E s i
  assume "ti_holds n t E" "(s::nat) < n"
  then show "\<exists>t'. ti_add t s s i = Some t' \<and> ti_holds n t' E"
    using ti_add_holds [of n t E s s i] by simp
next
  fix n t E s
  assume "ti_holds n t E" "(s::nat) < n"
  then show "\<exists>found. ti_overlapping t s s = Some found \<and> set found \<subseteq> {i. \<exists>a b. (a, b, i) \<in> E}"
    using ti_overlapping_found [of n t E s s] by auto
next
  fix n t E s e i
  assume "ti_holds n t E" "(s::nat) < e" "e < n"
  then show "\<exists>t'. ti_add t s e i = Some t' \<and> ti_holds n t' (insert (s, e, i) E)"
    using ti_add_holds [of n t E s e i] by simp
qed (rule ti_new_holds ti_overlapping_exact; assumption)+

end
