(* ===== verification/Placement.thy ===== *)
theory Placement
  imports Temporal_Index
begin

text \<open>
  Fixed-offset placement (\<^verbatim>\<open>reference/python/admission/placement.py\<close>): leases are taken largest
  first, longest-lived first among equals, and each gets the lowest aligned offset that clears
  the leases already placed whose predicted lifetime meets its own. The loop is written over
  the operations of an interval index; its lemmas are proved in the locale \<open>interval_index\<close>
  and reach the program through the segment tree.
\<close>

section \<open>The algorithm\<close>

text \<open>The four numbers placement reads from one lease (the protocol \<^verbatim>\<open>Lifetime\<close>).\<close>

record lifetime =
  lf_bytes :: int
  lf_alignment :: int
  lf_start_ns :: int
  lf_end_ns :: int

definition align_up :: "int \<Rightarrow> int \<Rightarrow> py_error + int" where
  "align_up value alignment =
     bindE (py_floordiv (value + alignment - 1) alignment) (\<lambda>q. Inr (q * alignment))"

text \<open>The cursor after the scan over the occupied ranges, sorted by their left ends.\<close>

fun fit_cursor :: "int \<Rightarrow> int \<Rightarrow> (int \<times> int) list \<Rightarrow> int \<Rightarrow> py_error + int" where
  "fit_cursor sz alignment [] cursor = Inr cursor"
| "fit_cursor sz alignment ((left, right) # occupied) cursor =
     (if right \<le> cursor then fit_cursor sz alignment occupied cursor
      else bindE (align_up cursor alignment) (\<lambda>candidate.
        if candidate + sz \<le> left then Inr cursor
        else fit_cursor sz alignment occupied (max cursor right)))"

definition place_times :: "'a lifetime_scheme list \<Rightarrow> int list" where
  "place_times items = coordinates (map lf_start_ns items @ map lf_end_ns items)"

definition start_rank :: "'a lifetime_scheme list \<Rightarrow> nat \<Rightarrow> nat" where
  "start_rank items j = rank_of (place_times items) (lf_start_ns (items ! j))"

definition end_rank :: "'a lifetime_scheme list \<Rightarrow> nat \<Rightarrow> nat" where
  "end_rank items j = rank_of (place_times items) (lf_end_ns (items ! j))"

definition place_order :: "'a lifetime_scheme list \<Rightarrow> nat list" where
  "place_order items =
     sort_key (\<lambda>j. (- lf_bytes (items ! j),
                    - (int (end_rank items j) - int (start_rank items j)),
                    lf_start_ns (items ! j), j))
       [0..<length items]"

definition place_one ::
    "('t \<Rightarrow> nat \<Rightarrow> nat \<Rightarrow> nat \<Rightarrow> 't option) \<Rightarrow> ('t \<Rightarrow> nat \<Rightarrow> nat \<Rightarrow> nat list option)
     \<Rightarrow> 'a lifetime_scheme list \<Rightarrow> int list \<times> 't \<times> int \<Rightarrow> nat \<Rightarrow> py_error + (int list \<times> 't \<times> int)" where
  "place_one add overlapping items st j =
     (case st of (offsets, index, required) \<Rightarrow>
       let item = items ! j; s = start_rank items j; e = end_rank items j
       in bindE (of_rec (overlapping index s e)) (\<lambda>found.
            let occupied = sort (map (\<lambda>k. (offsets ! k, offsets ! k + lf_bytes (items ! k))) found)
            in bindE (fit_cursor (lf_bytes item) (lf_alignment item) occupied 0) (\<lambda>cursor.
                 bindE (align_up cursor (lf_alignment item)) (\<lambda>offset.
                   bindE (of_rec (add index s e j)) (\<lambda>index'.
                     Inr (offsets[j := offset], index', max required (offset + lf_bytes item)))))))"

definition place_all ::
    "(nat \<Rightarrow> 't) \<Rightarrow> ('t \<Rightarrow> nat \<Rightarrow> nat \<Rightarrow> nat \<Rightarrow> 't option) \<Rightarrow> ('t \<Rightarrow> nat \<Rightarrow> nat \<Rightarrow> nat list option)
     \<Rightarrow> 'a lifetime_scheme list \<Rightarrow> py_error + (int list \<times> int)" where
  "place_all create add overlapping items =
     (if items = [] then Inr ([], 0)
      else bindE
        (foldE (place_one add overlapping items)
          (replicate (length items) 0, create (max 1 (length (place_times items))), 0)
          (place_order items))
        (\<lambda>(offsets, index, required). Inr (offsets, required)))"

text \<open>
  The entry point. An excluded lease is placed elsewhere: the kept ones are placed among
  themselves and its own offset is zero.
\<close>

definition place_lifetimes ::
    "'a lifetime_scheme list \<Rightarrow> bool list option \<Rightarrow> py_error + (int list \<times> int)" where
  "place_lifetimes items excluded =
     (if items = [] then Inr ([], 0)
      else case excluded of
        None \<Rightarrow> place_all ti_new ti_add ti_overlapping items
      | Some skips \<Rightarrow>
          if \<not> list_ex (\<lambda>skip. skip) skips then place_all ti_new ti_add ti_overlapping items
          else
            let kept = map fst (filter (\<lambda>(source, skip). \<not> skip) (enumerate 0 skips))
            in bindE (mapE (\<lambda>source. py_nth items (int source)) kept) (\<lambda>sub.
                 bindE (place_all ti_new ti_add ti_overlapping sub) (\<lambda>(placed, required).
                   Inr (fold (\<lambda>(position, source) offsets. offsets[source := placed ! position])
                          (enumerate 0 kept) (replicate (length items) 0),
                        required))))"


section \<open>What a placement promises\<close>

definition placeable :: "'a lifetime_scheme list \<Rightarrow> bool" where
  "placeable items \<longleftrightarrow> list_all (\<lambda>i. 0 < lf_alignment i \<and> lf_start_ns i \<le> lf_end_ns i) items"

definition lives :: "'a lifetime_scheme \<Rightarrow> bool" where
  "lives a \<longleftrightarrow> lf_start_ns a < lf_end_ns a"

definition time_overlap :: "'a lifetime_scheme \<Rightarrow> 'a lifetime_scheme \<Rightarrow> bool" where
  "time_overlap a b \<longleftrightarrow> lf_start_ns a < lf_end_ns b \<and> lf_start_ns b < lf_end_ns a"

definition clears :: "int \<Rightarrow> int \<Rightarrow> int \<times> int \<Rightarrow> bool" where
  "clears offset sz rng = (offset + sz \<le> fst rng \<or> snd rng \<le> offset)"

definition lowest_fit :: "int \<Rightarrow> int \<Rightarrow> (int \<times> int) set \<Rightarrow> int \<Rightarrow> bool" where
  "lowest_fit sz alignment occupied x \<longleftrightarrow>
     0 \<le> x \<and> alignment dvd x \<and> (\<forall>r \<in> occupied. clears x sz r)
     \<and> (\<forall>y. 0 \<le> y \<longrightarrow> alignment dvd y \<longrightarrow> (\<forall>r \<in> occupied. clears y sz r) \<longrightarrow> x \<le> y)"

text \<open>The ranges of the leases in \<open>ds\<close> that are live together with lease \<open>j\<close>.\<close>

definition occupied_by :: "'a lifetime_scheme list \<Rightarrow> int list \<Rightarrow> nat set \<Rightarrow> nat \<Rightarrow> (int \<times> int) set" where
  "occupied_by items offsets ds j =
     {(offsets ! k, offsets ! k + lf_bytes (items ! k)) | k.
        k \<in> ds \<and> lives (items ! k) \<and> time_overlap (items ! k) (items ! j)}"


section \<open>Alignment and the scan\<close>

lemma align_up_ok:
  assumes "0 < alignment"
  shows "\<exists>x. align_up v alignment = Inr x \<and> v \<le> x \<and> alignment dvd x
    \<and> (\<forall>y. v \<le> y \<longrightarrow> alignment dvd y \<longrightarrow> x \<le> y)"
proof -
  let ?q = "(v + alignment - 1) div alignment"
  have "?q * alignment + (v + alignment - 1) mod alignment = v + alignment - 1"
    by (rule div_mult_mod_eq)
  then have ge: "v \<le> ?q * alignment"
    using pos_mod_bound [OF assms, of "v + alignment - 1"] by linarith
  have "?q * alignment \<le> y" if "v \<le> y" "alignment dvd y" for y
  proof -
    from that(2) obtain k where y: "y = alignment * k" by (auto elim: dvdE)
    have "v + alignment - 1 < (k + 1) * alignment"
      using that(1) y assms by (simp add: algebra_simps)
    moreover have "?q * alignment \<le> v + alignment - 1"
      using pos_mod_sign [OF assms, of "v + alignment - 1"]
        div_mult_mod_eq [of "v + alignment - 1" alignment] by linarith
    ultimately have "?q * alignment < (k + 1) * alignment" by linarith
    then have "?q \<le> k" using assms by simp
    then show ?thesis
      using y assms by (simp add: mult.commute)
  qed
  with ge assms show ?thesis by (simp add: align_up_def)
qed

lemma fit_cursor_ok:
  assumes "0 < alignment" and "sorted (map fst occupied)"
  shows "\<exists>c x. fit_cursor sz alignment occupied cursor = Inr c
    \<and> align_up c alignment = Inr x \<and> cursor \<le> x \<and> alignment dvd x
    \<and> (\<forall>r \<in> set occupied. clears x sz r)
    \<and> (\<forall>y. cursor \<le> y \<longrightarrow> alignment dvd y \<longrightarrow> (\<forall>r \<in> set occupied. clears y sz r) \<longrightarrow> x \<le> y)"
  using assms(2)
proof (induction occupied arbitrary: cursor)
  case Nil
  then show ?case using align_up_ok [OF assms(1), of cursor] by auto
next
  case (Cons rng occupied)
  obtain left right where rng: "rng = (left, right)" by fastforce
  have sorted: "sorted (map fst occupied)" and left: "\<forall>r \<in> set occupied. left \<le> fst r"
    using Cons.prems rng by auto
  show ?case
  proof (cases "right \<le> cursor")
    case True
    then show ?thesis
      using Cons.IH [OF sorted, of cursor] rng by (auto simp: clears_def)
  next
    case False
    obtain x where x: "align_up cursor alignment = Inr x" "cursor \<le> x" "alignment dvd x"
      "\<And>y. cursor \<le> y \<Longrightarrow> alignment dvd y \<Longrightarrow> x \<le> y"
      using align_up_ok [OF assms(1), of cursor] by auto
    show ?thesis
    proof (cases "x + sz \<le> left")
      case True
      then have "\<forall>r \<in> set (rng # occupied). clears x sz r"
        using left rng by (force simp: clears_def)
      then show ?thesis using False True x rng by auto
    next
      case high: False
      have "max cursor right \<le> y"
        if "cursor \<le> y" "alignment dvd y" "clears y sz (left, right)" for y
        using x(4) [OF that(1,2)] that high by (auto simp: clears_def)
      moreover obtain c z where z: "fit_cursor sz alignment occupied (max cursor right) = Inr c"
        "align_up c alignment = Inr z" "max cursor right \<le> z" "alignment dvd z"
        "\<forall>r \<in> set occupied. clears z sz r"
        "\<forall>y. max cursor right \<le> y \<longrightarrow> alignment dvd y \<longrightarrow> (\<forall>r \<in> set occupied. clears y sz r) \<longrightarrow> z \<le> y"
        using Cons.IH [OF sorted, of "max cursor right"] by blast
      ultimately have "\<forall>y. cursor \<le> y \<longrightarrow> alignment dvd y
          \<longrightarrow> (\<forall>r \<in> set (rng # occupied). clears y sz r) \<longrightarrow> z \<le> y"
        using rng by auto
      moreover have "clears z sz rng" using z(3) rng by (simp add: clears_def)
      moreover have "fit_cursor sz alignment (rng # occupied) cursor = Inr c"
        using False high x(1) z(1) rng by simp
      ultimately show ?thesis using z by auto
    qed
  qed
qed

lemma fit_cursor_lowest:
  assumes "0 < alignment"
  shows "\<exists>c x. fit_cursor sz alignment (sort occupied) 0 = Inr c
    \<and> align_up c alignment = Inr x \<and> lowest_fit sz alignment (set occupied) x"
proof -
  have "sorted (map fst (sort occupied))"
  proof (rule sorted_wrt_mono_rel [THEN sorted_wrt_map [THEN iffD2]])
    show "sorted_wrt (\<le>) (sort occupied)" by simp
  qed (auto simp: less_eq_prod_def)
  then show ?thesis
    using fit_cursor_ok [OF assms, of "sort occupied" sz 0] by (auto simp: lowest_fit_def)
qed


section \<open>The loop over the leases\<close>

lemma times_member:
  assumes "j < length items"
  shows "lf_start_ns (items ! j) \<in> set (map lf_start_ns items @ map lf_end_ns items)"
    and "lf_end_ns (items ! j) \<in> set (map lf_start_ns items @ map lf_end_ns items)"
  using assms by auto

lemma rank_order [simp]:
  assumes "j < length items" "k < length items"
  shows "start_rank items j < end_rank items k \<longleftrightarrow> lf_start_ns (items ! j) < lf_end_ns (items ! k)"
    and "start_rank items j \<le> end_rank items k \<longleftrightarrow> lf_start_ns (items ! j) \<le> lf_end_ns (items ! k)"
  unfolding start_rank_def end_rank_def place_times_def
  using times_member [OF assms(1)] times_member [OF assms(2)]
  by (simp_all only: rank_of_less rank_of_le)

lemma end_rank_bound:
  assumes "j < length items"
  shows "end_rank items j < max 1 (length (place_times items))"
proof -
  have "end_rank items j < length (place_times items)"
    unfolding end_rank_def place_times_def
    by (rule rank_of_coordinates_less [OF times_member(2) [OF assms]])
  then show ?thesis by simp
qed

lemma place_order_props [simp]:
  "set (place_order items) = {..<length items}"
  "distinct (place_order items)"
  "length (place_order items) = length items"
  by (auto simp: place_order_def)

definition placed_inv ::
    "(nat \<Rightarrow> 't \<Rightarrow> (nat \<times> nat \<times> nat) set \<Rightarrow> bool) \<Rightarrow> 'a lifetime_scheme list \<Rightarrow> nat list
     \<Rightarrow> int list \<times> 't \<times> int \<Rightarrow> bool" where
  "placed_inv holds items ds st \<longleftrightarrow> (case st of (offsets, index, required) \<Rightarrow>
     length offsets = length items
     \<and> holds (max 1 (length (place_times items))) index
         {(start_rank items k, end_rank items k, k) | k. k \<in> set ds \<and> lives (items ! k)}
     \<and> 0 \<le> required
     \<and> (required = 0 \<or> (\<exists>k \<in> set ds. required = offsets ! k + lf_bytes (items ! k)))
     \<and> (\<forall>k \<in> set ds. 0 \<le> offsets ! k \<and> lf_alignment (items ! k) dvd offsets ! k
          \<and> offsets ! k + lf_bytes (items ! k) \<le> required)
     \<and> (\<forall>as k bs. ds = as @ k # bs \<longrightarrow> lives (items ! k) \<longrightarrow>
          lowest_fit (lf_bytes (items ! k)) (lf_alignment (items ! k))
            (occupied_by items offsets (set as) k) (offsets ! k)))"

lemma placed_inv_lowest:
  assumes "placed_inv holds items ds (offsets, index, required)"
    and "ds = as @ k # bs" "lives (items ! k)"
  shows "lowest_fit (lf_bytes (items ! k)) (lf_alignment (items ! k))
    (occupied_by items offsets (set as) k) (offsets ! k)"
  using assms unfolding placed_inv_def by simp

lemma placed_inv_bounds:
  assumes "placed_inv holds items ds (offsets, index, required)"
  shows "length offsets = length items" "0 \<le> required"
    and "required = 0 \<or> (\<exists>k \<in> set ds. required = offsets ! k + lf_bytes (items ! k))"
    and "\<forall>k \<in> set ds. 0 \<le> offsets ! k \<and> lf_alignment (items ! k) dvd offsets ! k
           \<and> offsets ! k + lf_bytes (items ! k) \<le> required"
  using assms unfolding placed_inv_def by simp_all

lemma occupied_by_update:
  "j \<notin> as \<Longrightarrow> occupied_by items (offsets[j := x]) as k = occupied_by items offsets as k"
  unfolding occupied_by_def by (metis (no_types, lifting) nth_list_update_neq)

context interval_index
begin

lemma place_one_ok:
  assumes items: "placeable items" and inv: "placed_inv holds items ds st"
    and ds: "distinct (ds @ [j])" "set (ds @ [j]) \<subseteq> {..<length items}"
  shows "\<exists>st'. place_one add overlapping items st j = Inr st' \<and> placed_inv holds items (ds @ [j]) st'"
proof -
  obtain offsets index required where st: "st = (offsets, index, required)"
    by (cases st) auto
  let ?item = "items ! j" and ?s = "start_rank items j" and ?e = "end_rank items j"
  let ?n = "max 1 (length (place_times items))"
  let ?E = "{(start_rank items k, end_rank items k, k) | k. k \<in> set ds \<and> lives (items ! k)}"
  have j: "j < length items" and jnew: "j \<notin> set ds" and dsn: "set ds \<subseteq> {..<length items}"
    using ds by auto
  have al: "0 < lf_alignment ?item" and se: "lf_start_ns ?item \<le> lf_end_ns ?item"
    using items j by (auto simp: placeable_def list_all_length)
  from inv st have len: "length offsets = length items" and idx: "holds ?n index ?E"
    and req: "0 \<le> required"
      "required = 0 \<or> (\<exists>k \<in> set ds. required = offsets ! k + lf_bytes (items ! k))"
    and placed: "\<forall>k \<in> set ds. 0 \<le> offsets ! k \<and> lf_alignment (items ! k) dvd offsets ! k
          \<and> offsets ! k + lf_bytes (items ! k) \<le> required"
    and low: "\<forall>as k bs. ds = as @ k # bs \<longrightarrow> lives (items ! k) \<longrightarrow>
          lowest_fit (lf_bytes (items ! k)) (lf_alignment (items ! k))
            (occupied_by items offsets (set as) k) (offsets ! k)"
    by (auto simp: placed_inv_def)
  have rank: "?s \<le> ?e" "?e < ?n" using j se end_rank_bound by auto
  from overlapping_total [OF idx rank] obtain found where found:
    "overlapping index ?s ?e = Some found"
    "?s < ?e \<longrightarrow> set found = {i. \<exists>a b. (a, b, i) \<in> ?E \<and> a < ?e \<and> ?s < b}"
    by blast
  from add_total [OF idx rank, of j] obtain index' where index':
    "add index ?s ?e j = Some index'"
    "holds ?n index' (if ?s < ?e then insert (?s, ?e, j) ?E else ?E)"
    by blast
  let ?occ = "map (\<lambda>k. (offsets ! k, offsets ! k + lf_bytes (items ! k))) found"
  obtain c x where x: "fit_cursor (lf_bytes ?item) (lf_alignment ?item) (sort ?occ) 0 = Inr c"
    "align_up c (lf_alignment ?item) = Inr x"
    "lowest_fit (lf_bytes ?item) (lf_alignment ?item) (set ?occ) x"
    using fit_cursor_lowest [OF al, of "lf_bytes ?item" ?occ] by blast
  let ?offsets = "offsets[j := x]"
  let ?st' = "(?offsets, index', max required (x + lf_bytes ?item))"
  have step: "place_one add overlapping items st j = Inr ?st'"
    using found(1) x(1,2) index'(1) st by (simp add: place_one_def Let_def)
  have lv: "lives ?item \<longleftrightarrow> ?s < ?e" using j by (simp add: lives_def)
  have E': "{(start_rank items k, end_rank items k, k) | k. k \<in> set (ds @ [j]) \<and> lives (items ! k)}
      = (if ?s < ?e then insert (?s, ?e, j) ?E else ?E)"
    using lv by auto
  have occ: "set ?occ = occupied_by items ?offsets (set ds) j" if "lives ?item"
  proof -
    have "set found = {k. k \<in> set ds \<and> lives (items ! k) \<and> time_overlap (items ! k) ?item}"
      using found(2) lv that dsn j by (auto simp: time_overlap_def)
    then have "set ?occ = occupied_by items offsets (set ds) j"
      unfolding occupied_by_def by auto
    also have "\<dots> = occupied_by items ?offsets (set ds) j"
      by (rule occupied_by_update [OF jnew, symmetric])
    finally show ?thesis .
  qed
  have keep: "?offsets ! k = offsets ! k" if "k \<in> set ds" for k
    using that jnew by (metis nth_list_update_neq)
  have newx: "?offsets ! j = x" using j len by simp
  have x0: "0 \<le> x" "lf_alignment ?item dvd x" using x(3) by (auto simp: lowest_fit_def)
  have "placed_inv holds items (ds @ [j]) ?st'"
    unfolding placed_inv_def prod.case
  proof (intro conjI allI impI ballI)
    show "length ?offsets = length items" using len by simp
    show "holds ?n index' {(start_rank items k, end_rank items k, k) | k.
        k \<in> set (ds @ [j]) \<and> lives (items ! k)}"
      unfolding E' by (rule index'(2))
    show "0 \<le> max required (x + lf_bytes ?item)" using req by simp
    show "max required (x + lf_bytes ?item) = 0
      \<or> (\<exists>k \<in> set (ds @ [j]). max required (x + lf_bytes ?item) = ?offsets ! k + lf_bytes (items ! k))"
      using req(2) keep newx by (auto simp: max_def)
    fix k
    assume k: "k \<in> set (ds @ [j])"
    show "0 \<le> ?offsets ! k" "lf_alignment (items ! k) dvd ?offsets ! k"
      using k placed keep newx x0 by auto
    show "?offsets ! k + lf_bytes (items ! k) \<le> max required (x + lf_bytes ?item)"
      using k placed keep newx by (auto intro: max.coboundedI1)
  next
    fix as k bs
    assume split: "ds @ [j] = as @ k # bs" and lk: "lives (items ! k)"
    show "lowest_fit (lf_bytes (items ! k)) (lf_alignment (items ! k))
        (occupied_by items ?offsets (set as) k) (?offsets ! k)"
    proof (cases bs rule: rev_cases)
      case Nil
      then have "as = ds" "k = j" using split by auto
      then show ?thesis using x(3) occ lk newx by simp
    next
      case (snoc bs' b)
      then have ds': "ds = as @ k # bs'" using split by auto
      then have "j \<notin> set as" "k \<in> set ds" using jnew by auto
      then show ?thesis using low ds' lk by (simp add: occupied_by_update keep)
    qed
  qed
  with step show ?thesis by blast
qed

lemma place_all_ok:
  assumes "placeable items"
  shows "\<exists>offsets required. place_all create add overlapping items = Inr (offsets, required)
    \<and> (\<exists>index. placed_inv holds items (place_order items) (offsets, index, required))"
proof (cases "items = []")
  case True
  have "holds (max 1 (length (place_times items))) (create (max 1 (length (place_times items)))) {}"
    by (rule holds_create) simp
  moreover have "place_order items = []" using True by (simp add: place_order_def)
  ultimately show ?thesis
    using True by (auto simp: place_all_def placed_inv_def)
next
  case False
  let ?n = "max 1 (length (place_times items))"
  have "\<exists>st'. foldE (place_one add overlapping items) (replicate (length items) 0, create ?n, 0)
      (place_order items) = Inr st' \<and> placed_inv holds items (place_order items) st'"
  proof (rule foldE_total [where P = "placed_inv holds items"])
    have "holds ?n (create ?n) {}" by (rule holds_create) simp
    then show "placed_inv holds items [] (replicate (length items) 0, create ?n, 0)"
      by (simp add: placed_inv_def)
  next
    fix ys x zs st
    assume inv: "placed_inv holds items ys st" and split: "place_order items = ys @ x # zs"
    have "distinct (ys @ [x])"
      using place_order_props(2) [of items] unfolding split by auto
    moreover have "set (ys @ [x]) \<subseteq> {..<length items}"
      using place_order_props(1) [of items] unfolding split by auto
    ultimately show "\<exists>st'. place_one add overlapping items st x = Inr st'
        \<and> placed_inv holds items (ys @ [x]) st'"
      using place_one_ok [OF assms inv] by blast
  qed
  then show ?thesis using False by (auto simp: place_all_def)
qed

end


section \<open>Properties\<close>

lemma place_lifetimes_None: "place_lifetimes items None = place_all ti_new ti_add ti_overlapping items"
  by (simp add: place_lifetimes_def place_all_def)

lemma place_lifetimes_placed:
  assumes "placeable items" "place_lifetimes items None = Inr (offsets, required)"
  shows "\<exists>index. placed_inv ti_holds items (place_order items) (offsets, index, required)"
  using segment_tree.place_all_ok [OF assms(1)] assms(2) by (auto simp: place_lifetimes_None)

text \<open>
  C3. Two leases whose predicted lifetimes meet never share an address: whenever placement
  returns, their byte ranges are disjoint, whatever their sizes, alignments and order.
\<close>

theorem place_lifetimes_disjoint:
  assumes "placeable items" and "place_lifetimes items None = Inr (offsets, required)"
    and "i < length items" "j < length items" "i \<noteq> j"
    and "lives (items ! i)" "lives (items ! j)" "time_overlap (items ! i) (items ! j)"
  shows "offsets ! i + lf_bytes (items ! i) \<le> offsets ! j
    \<or> offsets ! j + lf_bytes (items ! j) \<le> offsets ! i"
proof -
  have later: "clears (offsets ! k) (lf_bytes (items ! k)) (offsets ! l, offsets ! l + lf_bytes (items ! l))"
    if order: "place_order items = as @ l # bs @ k # cs"
      and kl: "lives (items ! l)" "lives (items ! k)" "time_overlap (items ! l) (items ! k)" for as l bs k cs
  proof -
    obtain index where inv: "placed_inv ti_holds items (place_order items) (offsets, index, required)"
      using place_lifetimes_placed [OF assms(1,2)] by blast
    have "place_order items = (as @ l # bs) @ k # cs" using order by simp
    from placed_inv_lowest [OF inv this kl(2)] have
      "lowest_fit (lf_bytes (items ! k)) (lf_alignment (items ! k))
         (occupied_by items offsets (set (as @ l # bs)) k) (offsets ! k)" .
    moreover have "(offsets ! l, offsets ! l + lf_bytes (items ! l))
        \<in> occupied_by items offsets (set (as @ l # bs)) k"
      using kl by (auto simp: occupied_by_def)
    ultimately show ?thesis by (auto simp: lowest_fit_def)
  qed
  have "i \<in> set (place_order items)" "j \<in> set (place_order items)"
    using assms(3,4) by auto
  then consider as bs cs where "place_order items = as @ i # bs @ j # cs"
    | as bs cs where "place_order items = as @ j # bs @ i # cs"
    by (rule two_members) (use assms(5) in auto)
  then show ?thesis
  proof cases
    case 1
    from later [OF this assms(6,7,8)] show ?thesis by (auto simp: clears_def)
  next
    case 2
    have "time_overlap (items ! j) (items ! i)" using assms(8) by (simp add: time_overlap_def)
    from later [OF 2 assms(7,6) this] show ?thesis by (auto simp: clears_def)
  qed
qed

abbreviation lease :: "int \<Rightarrow> int \<Rightarrow> int \<Rightarrow> int \<Rightarrow> lifetime" where
  "lease b a s e \<equiv> \<lparr>lf_bytes = b, lf_alignment = a, lf_start_ns = s, lf_end_ns = e\<rparr>"

theorem place_lifetimes_disjoint_witness:
  "place_lifetimes [lease 3 2 0 4, lease 5 4 2 6, lease 2 1 5 9] None = Inr ([6, 0, 5], 9)
   \<and> ((6::int) + 3 \<le> 0 \<or> (0::int) + 5 \<le> 6)"
proof
  let ?items = "[lease 3 2 0 4, lease 5 4 2 6, lease 2 1 5 9]"
  show run: "place_lifetimes ?items None = Inr ([6, 0, 5], 9)"
    by code_simp
  show "(6::int) + 3 \<le> 0 \<or> (0::int) + 5 \<le> 6"
    using place_lifetimes_disjoint [OF _ run, of 0 1]
    by (simp add: placeable_def lives_def time_overlap_def)
qed

text \<open>
  C16. Placement always returns on leases with positive alignments that do not end before they
  start; every offset is a non-negative multiple of its lease's alignment, and the bytes
  required are exactly the highest end of a placed lease.
\<close>

theorem place_lifetimes_returns:
  assumes "placeable items"
  shows "\<exists>offsets required. place_lifetimes items None = Inr (offsets, required)
    \<and> length offsets = length items
    \<and> (\<forall>j < length items. 0 \<le> offsets ! j \<and> lf_alignment (items ! j) dvd offsets ! j
         \<and> offsets ! j + lf_bytes (items ! j) \<le> required)
    \<and> (required = 0 \<or> (\<exists>j < length items. required = offsets ! j + lf_bytes (items ! j)))"
proof -
  obtain offsets required index where
    "place_lifetimes items None = Inr (offsets, required)"
    and inv: "placed_inv ti_holds items (place_order items) (offsets, index, required)"
    using segment_tree.place_all_ok [OF assms] by (auto simp: place_lifetimes_None)
  then show ?thesis
    using placed_inv_bounds [OF inv] by (auto simp: Bex_def)
qed

theorem place_lifetimes_returns_witness:
  "\<exists>offsets required. place_lifetimes [lease 3 2 0 4, lease 5 4 2 6] None = Inr (offsets, required)
     \<and> length offsets = 2"
  using place_lifetimes_returns [of "[lease 3 2 0 4, lease 5 4 2 6]"]
  by (auto simp: placeable_def)

text \<open>
  C17. First fit: the offset a lease gets is the lowest aligned offset that clears the leases
  taken before it whose lifetimes meet its own, in the order largest first, longest-lived
  first, earliest first, then by position.
\<close>

theorem place_lifetimes_lowest:
  assumes "placeable items" and "place_lifetimes items None = Inr (offsets, required)"
    and "place_order items = before @ j # after" and "lives (items ! j)"
  shows "lowest_fit (lf_bytes (items ! j)) (lf_alignment (items ! j))
    (occupied_by items offsets (set before) j) (offsets ! j)"
proof -
  obtain index where "placed_inv ti_holds items (place_order items) (offsets, index, required)"
    using place_lifetimes_placed [OF assms(1,2)] by blast
  then show ?thesis
    using assms(3,4) by (rule placed_inv_lowest)
qed

theorem place_lifetimes_lowest_witness:
  "lowest_fit 3 2 (occupied_by [lease 3 2 0 4, lease 5 4 2 6, lease 2 1 5 9] [6, 0, 5] {1} 0) 6"
proof -
  let ?items = "[lease 3 2 0 4, lease 5 4 2 6, lease 2 1 5 9]"
  have run: "place_lifetimes ?items None = Inr ([6, 0, 5], 9)" by code_simp
  have order: "place_order ?items = [1] @ 0 # [2]" by code_simp
  show ?thesis
    using place_lifetimes_lowest [OF _ run order] by (simp add: placeable_def lives_def)
qed

definition scatter :: "int list \<Rightarrow> (nat \<times> nat) list \<Rightarrow> int list \<Rightarrow> int list" where
  "scatter placed = fold (\<lambda>(position, source) os. os[source := placed ! position])"

lemma length_scatter [simp]: "length (scatter placed ps offsets) = length offsets"
  unfolding scatter_def by (induction ps arbitrary: offsets) auto

lemma scatter_other: "j \<notin> snd ` set ps \<Longrightarrow> scatter placed ps offsets ! j = offsets ! j"
  unfolding scatter_def by (induction ps arbitrary: offsets) auto

lemma scatter_enumerate:
  assumes "distinct kept" "\<forall>source \<in> set kept. source < length offsets" "p < length kept"
  shows "scatter placed (enumerate m kept) offsets ! (kept ! p) = placed ! (m + p)"
  using assms
proof (induction kept arbitrary: m offsets p)
  case (Cons k kept)
  have rest: "snd ` set (enumerate (Suc m) kept) = set kept"
    by (metis list.set_map map_snd_enumerate)
  show ?case
  proof (cases p)
    case 0
    have "scatter placed (enumerate m (k # kept)) offsets
        = scatter placed (enumerate (Suc m) kept) (offsets[k := placed ! m])"
      by (simp add: scatter_def)
    then show ?thesis
      using 0 Cons.prems scatter_other [of k "enumerate (Suc m) kept"] rest by auto
  next
    case (Suc q)
    then show ?thesis
      using Cons.IH [of "offsets[k := placed ! m]" q "Suc m"] Cons.prems
      by (simp add: scatter_def)
  qed
qed simp

definition kept_sources :: "bool list \<Rightarrow> nat list" where
  "kept_sources skips = map fst (filter (\<lambda>(source, skip). \<not> skip) (enumerate 0 skips))"

lemma kept_sources_props:
  "distinct (kept_sources skips)"
  "set (kept_sources skips) = {j. j < length skips \<and> \<not> skips ! j}"
proof -
  have "distinct (map fst (enumerate 0 skips))" by simp
  then show "distinct (kept_sources skips)"
    unfolding kept_sources_def by (rule distinct_map_filter)
  show "set (kept_sources skips) = {j. j < length skips \<and> \<not> skips ! j}"
    unfolding kept_sources_def by (force simp: in_set_enumerate_eq image_iff)
qed

text \<open>
  Excluded leases take no part: each gets offset zero, and the kept leases get exactly the
  offsets, and need exactly the bytes, of a placement of the kept leases alone.
\<close>

theorem place_lifetimes_excluded:
  assumes "length skips = length items" and "True \<in> set skips"
    and "place_lifetimes (map ((!) items) (kept_sources skips)) None = Inr (placed, required)"
  shows "\<exists>offsets. place_lifetimes items (Some skips) = Inr (offsets, required)
    \<and> length offsets = length items
    \<and> (\<forall>j < length items. skips ! j \<longrightarrow> offsets ! j = 0)
    \<and> (\<forall>p < length (kept_sources skips). offsets ! (kept_sources skips ! p) = placed ! p)"
proof -
  let ?kept = "kept_sources skips"
  let ?offsets = "scatter placed (enumerate 0 ?kept) (replicate (length items) 0)"
  have ne: "items \<noteq> []" using assms(1,2) by auto
  have any: "list_ex (\<lambda>skip. skip) skips" using assms(2) by (auto simp: list_ex_iff)
  have inrange: "\<forall>source \<in> set ?kept. source < length (replicate (length items) (0::int))"
    using kept_sources_props(2) assms(1) by auto
  have "mapE (\<lambda>source. py_nth items (int source)) ?kept = Inr (map ((!) items) ?kept)"
    using inrange by (intro mapE_Inr_all) auto
  then have "place_lifetimes items (Some skips) = Inr (?offsets, required)"
    using ne any assms(3) unfolding place_lifetimes_None
    by (simp add: place_lifetimes_def kept_sources_def [symmetric] scatter_def Let_def)
  moreover have "?offsets ! j = 0" if "j < length items" "skips ! j" for j
  proof -
    have "snd ` set (enumerate 0 ?kept) = set ?kept" by (metis list.set_map map_snd_enumerate)
    then show ?thesis
      using that scatter_other [of j "enumerate 0 ?kept"] kept_sources_props(2) [of skips] by simp
  qed
  ultimately show ?thesis
    using scatter_enumerate [OF kept_sources_props(1) inrange, where m = 0 and placed = placed]
    by auto
qed

theorem place_lifetimes_excluded_witness:
  "\<exists>offsets. place_lifetimes [lease 3 2 0 4, lease 5 4 2 6, lease 2 1 0 9] (Some [False, True, False])
     = Inr (offsets, 5) \<and> offsets ! 1 = 0 \<and> offsets ! 2 = 3"
proof -
  let ?items = "[lease 3 2 0 4, lease 5 4 2 6, lease 2 1 0 9]" and ?skips = "[False, True, False]"
  have kept: "kept_sources ?skips = [0, 2]" by code_simp
  have run: "place_lifetimes (map ((!) ?items) (kept_sources ?skips)) None = Inr ([0, 3], 5)"
    by code_simp
  obtain offsets where offsets: "place_lifetimes ?items (Some ?skips) = Inr (offsets, 5)"
    "\<And>j. j < 3 \<Longrightarrow> ?skips ! j \<Longrightarrow> offsets ! j = 0"
    "\<And>p. p < 2 \<Longrightarrow> offsets ! ([0, 2] ! p) = [0, 3] ! p"
    using place_lifetimes_excluded [OF _ _ run] unfolding kept by auto
  have "offsets ! 1 = 0" "offsets ! 2 = 3"
    using offsets(2) [of 1] offsets(3) [of 1] by simp_all
  with offsets(1) show ?thesis by blast
qed

end
