(* ===== verification/Owner_Index.thy ===== *)
theory Owner_Index
  imports Heap_Tree
begin

text \<open>
  The range-assignment tree of reuse recovery (\<^verbatim>\<open>reference/python/admission/reuse.py\<close>, class
  \<^verbatim>\<open>_LatestOwnerIndex\<close>): leaves name the latest owner of an address cell, inner nodes the owner
  of a uniform range or \<open>MIXED\<close>, and assignments wait in a lazy column until a walk pushes
  them down. The locale \<open>owner_map\<close> is what recovery relies on: a map from cells to owners.
\<close>

section \<open>The tree as the source has it\<close>

definition EMPTY :: int where "EMPTY = - 1"
definition MIXED :: int where "MIXED = - 2"

record owner_index =
  oi_length :: nat
  oi_owners :: "int list"
  oi_lazy :: "int option list"

definition oi_new :: "nat \<Rightarrow> owner_index" where
  "oi_new len =
     (let sz = 4 * max 1 len
      in \<lparr>oi_length = len, oi_owners = replicate sz EMPTY, oi_lazy = replicate sz None\<rparr>)"

definition oi_push :: "owner_index \<Rightarrow> nat \<Rightarrow> owner_index" where
  "oi_push t node =
     (case oi_lazy t ! node of
        None \<Rightarrow> t
      | Some v \<Rightarrow>
          t\<lparr>oi_owners := (oi_owners t)[node * 2 := v, node * 2 + 1 := v],
            oi_lazy := (oi_lazy t)[node * 2 := Some v, node * 2 + 1 := Some v, node := None]\<rparr>)"

text \<open>
  Both walks halve a range that never gets empty before the first guard returns, so the test
  for a single cell is written with \<open>\<le>\<close>; the found set is a list without repetitions.
\<close>

function oi_query ::
    "owner_index \<Rightarrow> nat \<Rightarrow> nat \<Rightarrow> nat \<Rightarrow> nat \<Rightarrow> nat \<Rightarrow> int list \<Rightarrow> owner_index \<times> int list" where
  "oi_query t node left right start stop found =
     (if stop \<le> left \<or> right \<le> start then (t, found)
      else if start \<le> left \<and> right \<le> stop \<and> oi_owners t ! node \<noteq> MIXED
        then (t, if 0 \<le> oi_owners t ! node then List.insert (oi_owners t ! node) found else found)
      else if right - left \<le> 1 then (t, found)
      else
        (case oi_query (oi_push t node) (node * 2) left ((left + right) div 2) start stop found of
           (t', found') \<Rightarrow>
             oi_query t' (node * 2 + 1) ((left + right) div 2) right start stop found'))"
  by pat_completeness auto
termination
  by (relation "measure (\<lambda>(t, node, l, r, s, e, f). r - l)") auto

function oi_assign ::
    "owner_index \<Rightarrow> nat \<Rightarrow> nat \<Rightarrow> nat \<Rightarrow> nat \<Rightarrow> nat \<Rightarrow> int \<Rightarrow> owner_index" where
  "oi_assign t node left right start stop owner =
     (if stop \<le> left \<or> right \<le> start then t
      else if start \<le> left \<and> right \<le> stop \<or> right - left \<le> 1
        then t\<lparr>oi_owners := (oi_owners t)[node := owner], oi_lazy := (oi_lazy t)[node := Some owner]\<rparr>
      else
        (let t1 = oi_assign (oi_push t node) (node * 2) left ((left + right) div 2) start stop owner;
             t2 = oi_assign t1 (node * 2 + 1) ((left + right) div 2) right start stop owner;
             left_owner = oi_owners t2 ! (node * 2);
             right_owner = oi_owners t2 ! (node * 2 + 1)
         in t2\<lparr>oi_owners :=
              (oi_owners t2)[node := if left_owner = right_owner then left_owner else MIXED]\<rparr>))"
  by pat_completeness auto
termination
  by (relation "measure (\<lambda>(t, node, l, r, s, e, f). r - l)") auto

declare oi_query.simps [simp del] oi_assign.simps [simp del]

definition oi_replace :: "owner_index \<Rightarrow> nat \<Rightarrow> nat \<Rightarrow> int \<Rightarrow> owner_index \<times> int list" where
  "oi_replace t left right owner =
     (case oi_query t 1 0 (oi_length t) left right [] of
        (t', predecessors) \<Rightarrow>
          (oi_assign t' 1 0 (oi_length t') left right owner, predecessors))"


section \<open>The contract\<close>

text \<open>
  A map from \<open>n\<close> cells to owners, negative where a cell has none. Replacing the owner of a
  range reports exactly the owners the range had.
\<close>

locale owner_map =
  fixes create :: "nat \<Rightarrow> 't"
    and replace :: "'t \<Rightarrow> nat \<Rightarrow> nat \<Rightarrow> int \<Rightarrow> 't \<times> int list"
    and holds :: "nat \<Rightarrow> 't \<Rightarrow> (nat \<Rightarrow> int) \<Rightarrow> bool"
  assumes create_holds: "holds n (create n) (\<lambda>_. EMPTY)"
    and holds_cong: "holds n t own \<Longrightarrow> (\<And>p. p < n \<Longrightarrow> own p = own' p) \<Longrightarrow> holds n t own'"
    and replace_holds: "holds n t own \<Longrightarrow> s \<le> e \<Longrightarrow> e \<le> n \<Longrightarrow> 0 \<le> w \<Longrightarrow>
          holds n (fst (replace t s e w)) (\<lambda>p. if s \<le> p \<and> p < e then w else own p)"
    and replace_found: "holds n t own \<Longrightarrow> s \<le> e \<Longrightarrow> e \<le> n \<Longrightarrow> 0 \<le> w \<Longrightarrow>
          set (snd (replace t s e w)) = {v. \<exists>p. s \<le> p \<and> p < e \<and> v = own p \<and> 0 \<le> v}"
begin

text \<open>Replacing twice leaves the later owner, and reports the earlier one.\<close>

lemma replace_again:
  assumes "holds n t own" "s < e" "e \<le> n" "0 \<le> w" "0 \<le> v"
  shows "set (snd (replace (fst (replace t s e w)) s e v)) = {w}"
proof -
  have "holds n (fst (replace t s e w)) (\<lambda>p. if s \<le> p \<and> p < e then w else own p)"
    using assms by (intro replace_holds) auto
  from replace_found [OF this, of s e v] show ?thesis using assms by auto
qed

end


section \<open>What the columns mean\<close>

text \<open>The owner of a cell, read through the lazy assignments above it.\<close>

function cell_owner :: "int list \<Rightarrow> int option list \<Rightarrow> nat \<Rightarrow> nat \<Rightarrow> nat \<Rightarrow> nat \<Rightarrow> int" where
  "cell_owner own lz node l r p =
     (case lz ! node of
        Some v \<Rightarrow> v
      | None \<Rightarrow>
          if r - l \<le> 1 then own ! node
          else if p < (l + r) div 2 then cell_owner own lz (node * 2) l ((l + r) div 2) p
          else cell_owner own lz (node * 2 + 1) ((l + r) div 2) r p)"
  by pat_completeness auto
termination
  by (relation "measure (\<lambda>(own, lz, node, l, r, p). r - l)") auto

text \<open>
  A column pair is sound below a node: a pending assignment agrees with the owner shown, an
  owner that is not \<open>MIXED\<close> owns every cell below, and a cell is never \<open>MIXED\<close>.
\<close>

function sound :: "int list \<Rightarrow> int option list \<Rightarrow> nat \<Rightarrow> nat \<Rightarrow> nat \<Rightarrow> bool" where
  "sound own lz node l r =
     (case lz ! node of
        Some v \<Rightarrow> own ! node = v \<and> v \<noteq> MIXED
      | None \<Rightarrow>
          if r - l \<le> 1 then own ! node \<noteq> MIXED
          else (own ! node \<noteq> MIXED \<longrightarrow>
                 (\<forall>p \<in> {l..<r}. cell_owner own lz node l r p = own ! node))
            \<and> sound own lz (node * 2) l ((l + r) div 2)
            \<and> sound own lz (node * 2 + 1) ((l + r) div 2) r)"
  by pat_completeness auto
termination
  by (relation "measure (\<lambda>(own, lz, node, l, r). r - l)") auto

declare cell_owner.simps [simp del] sound.simps [simp del]

lemma below_left: "m \<in> below (node * 2) \<Longrightarrow> m \<in> below node"
  using below_child [of m node 0] by simp

lemma below_right: "m \<in> below (node * 2 + 1) \<Longrightarrow> m \<in> below node"
  using below_child [of m node 1] by simp

lemmas below_down = below_left below_right

definition agree_below :: "nat \<Rightarrow> int list \<Rightarrow> int option list \<Rightarrow> int list \<Rightarrow> int option list \<Rightarrow> bool" where
  "agree_below node own lz own' lz' \<longleftrightarrow>
     (\<forall>m \<in> below node. own ! m = own' ! m \<and> lz ! m = lz' ! m)"

lemma agree_below_here:
  "agree_below node own lz own' lz' \<Longrightarrow> own ! node = own' ! node \<and> lz ! node = lz' ! node"
  by (simp add: agree_below_def)

lemma agree_below_down:
  "agree_below node own lz own' lz' \<Longrightarrow> agree_below (node * 2) own lz own' lz'"
  "agree_below node own lz own' lz' \<Longrightarrow> agree_below (node * 2 + 1) own lz own' lz'"
  unfolding agree_below_def by (meson below_left below_right)+

lemma cell_owner_frame:
  "agree_below node own lz own' lz' \<Longrightarrow>
    cell_owner own lz node l r p = cell_owner own' lz' node l r p"
proof (induction own lz node l r p rule: cell_owner.induct)
  case (1 own lz node l r p)
  note here = agree_below_here [OF "1.prems"] and down = agree_below_down [OF "1.prems"]
  show ?case
  proof (cases "lz ! node = None \<and> \<not> r - l \<le> 1")
    case True
    then have "lz ! node = None" "\<not> r - l \<le> 1" by auto
    note IH = "1.IH" [OF this]
    show ?thesis
      using IH(1) [OF _ down(1)] IH(2) [OF _ down(2)] True here
      by (subst (1 2) cell_owner.simps) simp
  next
    case False
    then show ?thesis using here by (subst (1 2) cell_owner.simps) (auto split: option.splits)
  qed
qed

lemma sound_frame:
  "agree_below node own lz own' lz' \<Longrightarrow> sound own lz node l r = sound own' lz' node l r"
proof (induction own lz node l r rule: sound.induct)
  case (1 own lz node l r)
  note here = agree_below_here [OF "1.prems"] and down = agree_below_down [OF "1.prems"]
    and same = cell_owner_frame [OF "1.prems"]
  show ?case
  proof (cases "lz ! node = None \<and> \<not> r - l \<le> 1")
    case True
    then have "lz ! node = None" "\<not> r - l \<le> 1" by auto
    note IH = "1.IH" [OF this]
    show ?thesis
      using IH(1) [OF down(1)] IH(2) [OF down(2)] True here same
      by (subst (1 2) sound.simps) simp
  next
    case False
    then show ?thesis using here by (subst (1 2) sound.simps) (auto split: option.splits)
  qed
qed

lemma sound_uniform:
  assumes "sound own lz node l r" "own ! node \<noteq> MIXED" "l \<le> p" "p < r"
  shows "cell_owner own lz node l r p = own ! node"
proof (cases "lz ! node = None \<and> \<not> r - l \<le> 1")
  case True
  then show ?thesis using assms by (subst (asm) sound.simps) auto
next
  case False
  then show ?thesis using assms
    by (subst (asm) sound.simps, subst cell_owner.simps) (auto split: option.splits if_splits)
qed

lemma cell_owner_split:
  assumes "lz ! node = None" "\<not> r - l \<le> 1"
  shows "cell_owner own lz node l r p =
    (if p < (l + r) div 2 then cell_owner own lz (node * 2) l ((l + r) div 2) p
     else cell_owner own lz (node * 2 + 1) ((l + r) div 2) r p)"
  using assms by (subst cell_owner.simps) simp


section \<open>Walks keep the columns sound\<close>

text \<open>
  A tree is good below a node when its two columns have room for the subtree and are sound
  there. A walk below a node leaves every other node alone.
\<close>

abbreviation owner_at :: "owner_index \<Rightarrow> nat \<Rightarrow> nat \<Rightarrow> nat \<Rightarrow> nat \<Rightarrow> int" where
  "owner_at t \<equiv> cell_owner (oi_owners t) (oi_lazy t)"

definition good :: "owner_index \<Rightarrow> nat \<Rightarrow> nat \<Rightarrow> nat \<Rightarrow> bool" where
  "good t node l r \<longleftrightarrow>
     0 < node \<and> length (oi_lazy t) = length (oi_owners t)
     \<and> room (length (oi_owners t)) node (r - l) \<and> sound (oi_owners t) (oi_lazy t) node l r"

definition untouched :: "owner_index \<Rightarrow> owner_index \<Rightarrow> nat \<Rightarrow> bool" where
  "untouched t t' node \<longleftrightarrow>
     oi_length t' = oi_length t \<and> length (oi_owners t') = length (oi_owners t)
     \<and> length (oi_lazy t') = length (oi_lazy t)
     \<and> (\<forall>m. m \<notin> below node \<longrightarrow> oi_owners t' ! m = oi_owners t ! m \<and> oi_lazy t' ! m = oi_lazy t ! m)"

lemma untouched_refl [simp]: "untouched t t node"
  by (simp add: untouched_def)

lemma untouched_trans: "untouched t t' node \<Longrightarrow> untouched t' t'' node \<Longrightarrow> untouched t t'' node"
  by (simp add: untouched_def)

lemma untouched_up: "untouched t t' (node * 2) \<Longrightarrow> untouched t t' node"
  "untouched t t' (node * 2 + 1) \<Longrightarrow> untouched t t' node"
  unfolding untouched_def by (meson below_left below_right)+

lemma sibling_apart:
  assumes "0 < node"
  shows "m \<in> below (node * 2) \<Longrightarrow> m \<notin> below (node * 2 + 1)"
    "m \<in> below (node * 2 + 1) \<Longrightarrow> m \<notin> below (node * 2)"
  using below_siblings_disjoint [OF assms] by blast+

text \<open>A walk in one child keeps what the other child means.\<close>

lemma good_untouched:
  assumes "good t node l r" "untouched t t' other" "\<And>m. m \<in> below node \<Longrightarrow> m \<notin> below other"
  shows "good t' node l r" "owner_at t' node l r p = owner_at t node l r p"
proof -
  have same: "agree_below node (oi_owners t) (oi_lazy t) (oi_owners t') (oi_lazy t')"
    using assms(2,3) by (simp add: untouched_def agree_below_def)
  show "owner_at t' node l r p = owner_at t node l r p"
    using cell_owner_frame [OF same] by simp
  show "good t' node l r"
    using assms sound_frame [OF same] by (simp add: good_def untouched_def)
qed

text \<open>Pushing a pending assignment down changes no cell and leaves both children good.\<close>

lemma push_ok:
  assumes "good t node l r" "\<not> r - l \<le> 1"
  shows "untouched t (oi_push t node) node"
    and "oi_lazy (oi_push t node) ! node = None"
    and "good (oi_push t node) (node * 2) l ((l + r) div 2)"
    and "good (oi_push t node) (node * 2 + 1) ((l + r) div 2) r"
    and "l \<le> p \<Longrightarrow> p < r \<Longrightarrow> owner_at (oi_push t node) node l r p = owner_at t node l r p"
proof -
  let ?m = "(l + r) div 2" and ?t = "oi_push t node"
  have node: "0 < node" and len: "length (oi_lazy t) = length (oi_owners t)"
    and snd: "sound (oi_owners t) (oi_lazy t) node l r"
    and room: "room (length (oi_owners t)) node (r - l)"
    using assms(1) by (auto simp: good_def)
  have rooms: "room (length (oi_owners t)) (node * 2) (?m - l)"
    "room (length (oi_owners t)) (node * 2 + 1) (r - ?m)"
    using room_children [OF room] assms(2) by auto
  have inside: "node < length (oi_owners t)" "node * 2 < length (oi_owners t)"
    "node * 2 + 1 < length (oi_owners t)"
    using room_node room rooms by blast+
  have below: "node * 2 \<in> below node" "node * 2 + 1 \<in> below node" "node \<in> below node"
    using below_left below_right below_self by blast+
  show "untouched t ?t node"
  proof -
    have "node \<noteq> m" "node * 2 \<noteq> m" "node * 2 + 1 \<noteq> m" if "m \<notin> below node" for m
      using below that by blast+
    then show ?thesis by (auto simp: untouched_def oi_push_def split: option.splits)
  qed
  show lazy: "oi_lazy ?t ! node = None"
    using inside len by (auto simp: oi_push_def split: option.splits)
  have apart: "node \<noteq> node * 2" "node \<noteq> node * 2 + 1" using node by auto
  have pushed: "oi_lazy ?t ! (node * 2) = Some v \<and> oi_lazy ?t ! (node * 2 + 1) = Some v
      \<and> oi_owners ?t ! (node * 2) = v \<and> oi_owners ?t ! (node * 2 + 1) = v \<and> v \<noteq> MIXED"
    if "oi_lazy t ! node = Some v" for v
    using that inside len apart snd
    by (subst (asm) sound.simps) (auto simp: oi_push_def nth_list_update)
  have lens: "length (oi_lazy ?t) = length (oi_owners ?t)" "length (oi_owners ?t) = length (oi_owners t)"
    using len by (auto simp: oi_push_def split: option.splits)
  have snd': "sound (oi_owners ?t) (oi_lazy ?t) (node * 2) l ?m
    \<and> sound (oi_owners ?t) (oi_lazy ?t) (node * 2 + 1) ?m r"
  proof (cases "oi_lazy t ! node")
    case None
    then have "?t = t" by (simp add: oi_push_def)
    then show ?thesis using snd None assms(2) by (subst (asm) sound.simps) simp
  next
    case (Some v)
    then show ?thesis using pushed [OF Some] by (simp add: sound.simps)
  qed
  show "good ?t (node * 2) l ?m" "good ?t (node * 2 + 1) ?m r"
    using node rooms lens snd' by (auto simp: good_def)
  show "owner_at ?t node l r p = owner_at t node l r p" if "l \<le> p" "p < r"
  proof (cases "oi_lazy t ! node")
    case None
    then show ?thesis by (simp add: oi_push_def)
  next
    case (Some v)
    have "owner_at t node l r p = v" using Some by (subst cell_owner.simps) simp
    moreover have "owner_at ?t node l r p = v"
      using pushed [OF Some]
      by (subst cell_owner_split [OF lazy assms(2)]) (simp add: cell_owner.simps)
    ultimately show ?thesis by simp
  qed
qed

text \<open>What a walk through the left child and then the right child leaves behind.\<close>

lemma walk_children:
  assumes "good t node l r" "\<not> r - l \<le> 1"
    and left: "untouched (oi_push t node) t2 (node * 2)" "good t2 (node * 2) l ((l + r) div 2)"
    and right: "untouched t2 t3 (node * 2 + 1)" "good t3 (node * 2 + 1) ((l + r) div 2) r"
  shows "untouched t t3 node" and "oi_lazy t3 ! node = None"
    and "good t3 (node * 2) l ((l + r) div 2)"
    and "oi_owners t3 ! node = oi_owners t ! node"
    and "owner_at t3 (node * 2) l ((l + r) div 2) p = owner_at t2 (node * 2) l ((l + r) div 2) p"
    and "owner_at t2 (node * 2 + 1) ((l + r) div 2) r p
      = owner_at (oi_push t node) (node * 2 + 1) ((l + r) div 2) r p"
    and "good t2 (node * 2 + 1) ((l + r) div 2) r"
proof -
  note push = push_ok [OF assms(1,2)]
  have node: "0 < node" using assms(1) by (simp add: good_def)
  note apart = sibling_apart [OF node]
  have notin: "node \<notin> below (node * 2)" "node \<notin> below (node * 2 + 1)"
    using below_child_notin [OF node, of 0] below_child_notin [OF node, of 1] by auto
  show "untouched t t3 node"
    using push(1) untouched_up(1) [OF left(1)] untouched_up(2) [OF right(1)]
    by (blast intro: untouched_trans)
  show "oi_lazy t3 ! node = None"
    using push(2) left(1) right(1) notin by (simp add: untouched_def)
  have "oi_owners (oi_push t node) ! node = oi_owners t ! node"
    using node by (auto simp: oi_push_def split: option.splits)
  then show "oi_owners t3 ! node = oi_owners t ! node"
    using left(1) right(1) notin by (simp add: untouched_def)
  show "good t3 (node * 2) l ((l + r) div 2)"
    using good_untouched(1) [OF left(2) right(1)] apart by blast
  show "owner_at t3 (node * 2) l ((l + r) div 2) p = owner_at t2 (node * 2) l ((l + r) div 2) p"
    using good_untouched(2) [OF left(2) right(1)] apart by blast
  show "good t2 (node * 2 + 1) ((l + r) div 2) r"
    using good_untouched(1) [OF push(4) left(1)] apart by blast
  show "owner_at t2 (node * 2 + 1) ((l + r) div 2) r p
      = owner_at (oi_push t node) (node * 2 + 1) ((l + r) div 2) r p"
    using good_untouched(2) [OF push(4) left(1)] apart by blast
qed

lemma good_join:
  assumes "good t node l r" "\<not> r - l \<le> 1" "untouched t t' node" "oi_lazy t' ! node = None"
    and "good t' (node * 2) l ((l + r) div 2)" "good t' (node * 2 + 1) ((l + r) div 2) r"
    and "oi_owners t' ! node \<noteq> MIXED \<Longrightarrow>
      \<forall>p \<in> {l..<r}. owner_at t' node l r p = oi_owners t' ! node"
  shows "good t' node l r"
  using assms unfolding good_def untouched_def by (subst sound.simps) auto

text \<open>The query changes no cell and finds the owners of the cells in its range.\<close>

definition owners_in :: "owner_index \<Rightarrow> nat \<Rightarrow> nat \<Rightarrow> nat \<Rightarrow> nat \<Rightarrow> nat \<Rightarrow> int set" where
  "owners_in t node l r s e =
     {v. \<exists>p. l \<le> p \<and> p < r \<and> s \<le> p \<and> p < e \<and> v = owner_at t node l r p \<and> 0 \<le> v}"

lemma owners_in_cong:
  assumes "\<And>p. l \<le> p \<Longrightarrow> p < r \<Longrightarrow> owner_at t node l r p = owner_at t' node l r p"
  shows "owners_in t node l r s e = owners_in t' node l r s e"
  using assms unfolding owners_in_def by metis

lemma owners_in_split:
  assumes "oi_lazy t ! node = None" "\<not> r - l \<le> 1"
  shows "owners_in t node l r s e =
    owners_in t (node * 2) l ((l + r) div 2) s e \<union> owners_in t (node * 2 + 1) ((l + r) div 2) r s e"
proof -
  let ?m = "(l + r) div 2"
  have m: "l < ?m" "?m < r" using assms(2) by auto
  have low: "owner_at t node l r p = owner_at t (node * 2) l ?m p" if "p < ?m" for p
    using that by (subst cell_owner_split [OF assms]) simp
  have high: "owner_at t node l r p = owner_at t (node * 2 + 1) ?m r p" if "?m \<le> p" for p
    using that by (subst cell_owner_split [OF assms]) simp
  show ?thesis
  proof (intro set_eqI iffI)
    fix v
    assume "v \<in> owners_in t node l r s e"
    then obtain p where p: "l \<le> p" "p < r" "s \<le> p" "p < e" "v = owner_at t node l r p" "0 \<le> v"
      unfolding owners_in_def by blast
    then show "v \<in> owners_in t (node * 2) l ?m s e \<union> owners_in t (node * 2 + 1) ?m r s e"
    proof (cases "p < ?m")
      case True
      then show ?thesis using p low [of p] unfolding owners_in_def by blast
    next
      case False
      then have "?m \<le> p" by simp
      then show ?thesis using p high [of p] unfolding owners_in_def by blast
    qed
  next
    fix v
    assume "v \<in> owners_in t (node * 2) l ?m s e \<union> owners_in t (node * 2 + 1) ?m r s e"
    then obtain p where p: "s \<le> p" "p < e" "0 \<le> v"
      "l \<le> p \<and> p < ?m \<and> v = owner_at t (node * 2) l ?m p
        \<or> ?m \<le> p \<and> p < r \<and> v = owner_at t (node * 2 + 1) ?m r p"
      unfolding owners_in_def by blast
    then have "l \<le> p" "p < r" "v = owner_at t node l r p"
      using m low [of p] high [of p] by auto
    with p show "v \<in> owners_in t node l r s e" unfolding owners_in_def by blast
  qed
qed

lemma oi_query_ok:
  assumes "good t node l r" "l < r" "oi_query t node l r s e found = (t', found')"
  shows "untouched t t' node \<and> good t' node l r
    \<and> (\<forall>p. l \<le> p \<longrightarrow> p < r \<longrightarrow> owner_at t' node l r p = owner_at t node l r p)
    \<and> set found' = set found \<union> owners_in t node l r s e"
  using assms
proof (induction t node l r s e found arbitrary: t' found' rule: oi_query.induct)
  case (1 t node l r s e found)
  let ?m = "(l + r) div 2"
  have snd: "sound (oi_owners t) (oi_lazy t) node l r" using "1.prems" by (simp add: good_def)
  show ?case
  proof (cases "(e \<le> l \<or> r \<le> s) \<or> s \<le> l \<and> r \<le> e \<and> oi_owners t ! node \<noteq> MIXED \<or> r - l \<le> 1")
    case True
    then consider "e \<le> l \<or> r \<le> s"
      | "\<not> (e \<le> l \<or> r \<le> s)" "s \<le> l \<and> r \<le> e \<and> oi_owners t ! node \<noteq> MIXED"
      | "\<not> (e \<le> l \<or> r \<le> s)" "\<not> (s \<le> l \<and> r \<le> e \<and> oi_owners t ! node \<noteq> MIXED)" "r - l \<le> 1"
      by blast
    then show ?thesis
    proof cases
      case 1
      then have "owners_in t node l r s e = {}" by (auto simp: owners_in_def)
      then show ?thesis using 1 "1.prems" by (auto simp: oi_query.simps)
    next
      case 2
      have "owners_in t node l r s e = (if 0 \<le> oi_owners t ! node then {oi_owners t ! node} else {})"
        using 2 "1.prems"(2) sound_uniform [OF snd] unfolding owners_in_def
        by (auto intro!: exI [of _ l])
      then show ?thesis using 2 "1.prems" by (auto simp: oi_query.simps)
    next
      case 3
      then have "oi_owners t ! node = MIXED" "r = Suc l" using "1.prems"(2) by auto
      then have False using snd by (subst (asm) sound.simps) (auto split: option.splits)
      then show ?thesis ..
    qed
  next
    case False
    then have g: "\<not> (e \<le> l \<or> r \<le> s)" "\<not> (s \<le> l \<and> r \<le> e \<and> oi_owners t ! node \<noteq> MIXED)"
      "\<not> r - l \<le> 1" by blast+
    note push = push_ok [OF "1.prems"(1) g(3)]
    obtain t2 f2 where q2: "oi_query (oi_push t node) (node * 2) l ?m s e found = (t2, f2)"
      by fastforce
    with "1.prems"(3) g have q3: "oi_query t2 (node * 2 + 1) ?m r s e f2 = (t', found')"
      by (subst (asm) oi_query.simps) simp
    have m: "l < ?m" "?m < r" using g(3) by auto
    note L = "1.IH"(1) [OF g push(3) m(1) q2]
    then have L1: "untouched (oi_push t node) t2 (node * 2)" "good t2 (node * 2) l ?m" by auto
    have G2: "good t2 (node * 2 + 1) ?m r"
      using good_untouched(1) [OF push(4) L1(1)] sibling_apart(2) [of node] "1.prems"(1)
      by (auto simp: good_def [of t])
    note R = "1.IH"(2) [OF g q2 [symmetric] G2 m(2) q3]
    then have R1: "untouched t2 t' (node * 2 + 1)" "good t' (node * 2 + 1) ?m r" by auto
    note W = walk_children [OF "1.prems"(1) g(3) L1 R1]
    have own: "owner_at t' node l r p = owner_at t node l r p" if "l \<le> p" "p < r" for p
    proof -
      have "owner_at t' node l r p = owner_at (oi_push t node) node l r p"
        using L R W(5,6) that m
        by (simp add: cell_owner_split [OF W(2) g(3)] cell_owner_split [OF push(2) g(3)])
      then show ?thesis using push(5) that by simp
    qed
    have "good t' node l r"
      using good_join [OF "1.prems"(1) g(3) W(1,2,3) R1(2)] own W(4) sound_uniform [OF snd] by simp
    moreover have "set found' = set found \<union> owners_in t node l r s e"
    proof -
      have "owners_in t node l r s e = owners_in (oi_push t node) node l r s e"
        by (rule owners_in_cong) (simp add: push(5))
      also have "\<dots> = owners_in (oi_push t node) (node * 2) l ?m s e
          \<union> owners_in (oi_push t node) (node * 2 + 1) ?m r s e"
        by (rule owners_in_split [OF push(2) g(3)])
      also have "owners_in (oi_push t node) (node * 2 + 1) ?m r s e = owners_in t2 (node * 2 + 1) ?m r s e"
        by (rule owners_in_cong) (simp add: W(6) [simplified])
      finally show ?thesis using L R by auto
    qed
    ultimately show ?thesis using W(1) own by blast
  qed
qed

text \<open>The assignment changes the cells of its range and no other.\<close>

lemma assign_node_ok:
  assumes "good t node l r" "w \<noteq> MIXED"
    and "t' = t\<lparr>oi_owners := (oi_owners t)[node := w], oi_lazy := (oi_lazy t)[node := Some w]\<rparr>"
  shows "untouched t t' node \<and> good t' node l r \<and> owner_at t' node l r p = w"
proof -
  have inside: "node < length (oi_owners t)" "node < length (oi_lazy t)"
    using assms(1) room_node by (auto simp: good_def)
  have "node \<noteq> m" if "m \<notin> below node" for m using that by auto
  then have "untouched t t' node" using assms(3) by (simp add: untouched_def)
  moreover have "good t' node l r"
    using assms inside by (simp add: good_def sound.simps)
  moreover have "owner_at t' node l r p = w"
    using assms(3) inside by (simp add: cell_owner.simps)
  ultimately show ?thesis by blast
qed

lemma oi_assign_ok:
  assumes "good t node l r" "l < r" "w \<noteq> MIXED"
  shows "untouched t (oi_assign t node l r s e w) node \<and> good (oi_assign t node l r s e w) node l r
    \<and> (\<forall>p. l \<le> p \<longrightarrow> p < r \<longrightarrow>
         owner_at (oi_assign t node l r s e w) node l r p
           = (if s \<le> p \<and> p < e then w else owner_at t node l r p))"
  using assms
proof (induction t node l r s e w rule: oi_assign.induct)
  case (1 t node l r s e w)
  let ?m = "(l + r) div 2"
  show ?case
  proof (cases "(e \<le> l \<or> r \<le> s) \<or> s \<le> l \<and> r \<le> e \<or> r - l \<le> 1")
    case True
    then consider "e \<le> l \<or> r \<le> s"
      | "\<not> (e \<le> l \<or> r \<le> s)" "s \<le> l \<and> r \<le> e \<or> r - l \<le> 1"
      by blast
    then show ?thesis
    proof cases
      case 1
      then show ?thesis using "1.prems" by (auto simp: oi_assign.simps)
    next
      case 2
      then have "s \<le> p \<and> p < e" if "l \<le> p" "p < r" for p using that by auto
      moreover have "oi_assign t node l r s e w
          = t\<lparr>oi_owners := (oi_owners t)[node := w], oi_lazy := (oi_lazy t)[node := Some w]\<rparr>"
        using 2 by (subst oi_assign.simps) simp
      ultimately show ?thesis
        using assign_node_ok [OF "1.prems"(1,3) refl] by simp
    qed
  next
    case False
    then have g: "\<not> (e \<le> l \<or> r \<le> s)" "\<not> (s \<le> l \<and> r \<le> e \<or> r - l \<le> 1)" "\<not> r - l \<le> 1"
      by blast+
    note push = push_ok [OF "1.prems"(1) g(3)]
    have m: "l < ?m" "?m < r" using g(3) by auto
    have node: "0 < node" using "1.prems"(1) by (simp add: good_def)
    define t2 where "t2 = oi_assign (oi_push t node) (node * 2) l ?m s e w"
    define t3 where "t3 = oi_assign t2 (node * 2 + 1) ?m r s e w"
    define lo where "lo = oi_owners t3 ! (node * 2)"
    define ro where "ro = oi_owners t3 ! (node * 2 + 1)"
    define w' where "w' = (if lo = ro then lo else MIXED)"
    define t4 where "t4 = t3\<lparr>oi_owners := (oi_owners t3)[node := w']\<rparr>"
    have result: "oi_assign t node l r s e w = t4"
      unfolding t4_def w'_def lo_def ro_def t3_def t2_def
      by (simp only: oi_assign.simps [of t node] g(1,2) if_False Let_def)
    note L = "1.IH"(1) [OF g(1,2) push(3) m(1) "1.prems"(3), folded t2_def]
    then have L1: "untouched (oi_push t node) t2 (node * 2)" "good t2 (node * 2) l ?m" by auto
    have G2: "good t2 (node * 2 + 1) ?m r"
      using good_untouched(1) [OF push(4) L1(1)] sibling_apart(2) [OF node] by blast
    note R = "1.IH"(2) [OF g(1,2) t2_def G2 m(2) "1.prems"(3), folded t3_def]
    then have R1: "untouched t2 t3 (node * 2 + 1)" "good t3 (node * 2 + 1) ?m r" by auto
    note W = walk_children [OF "1.prems"(1) g(3) L1 R1]
    have U34: "oi_length t4 = oi_length t3" "oi_lazy t4 = oi_lazy t3"
      "length (oi_owners t4) = length (oi_owners t3)"
      "\<And>k. k \<noteq> node \<Longrightarrow> oi_owners t4 ! k = oi_owners t3 ! k"
      by (auto simp: t4_def)
    have agree: "agree_below (node * 2 + b) (oi_owners t3) (oi_lazy t3) (oi_owners t4) (oi_lazy t4)"
      if "b < 2" for b
    proof -
      have "k \<noteq> node" if "k \<in> below (node * 2 + b)" for k
        using that below_child_notin [OF node \<open>b < 2\<close>] by blast
      then show ?thesis by (simp add: agree_below_def U34)
    qed
    have own: "owner_at t4 node l r p = (if s \<le> p \<and> p < e then w else owner_at t node l r p)"
      if "l \<le> p" "p < r" for p
    proof -
      have lazy4: "oi_lazy t4 ! node = None" using W(2) U34 by simp
      have kids: "owner_at t4 (node * 2) l ?m p = owner_at t3 (node * 2) l ?m p"
        "owner_at t4 (node * 2 + 1) ?m r p = owner_at t3 (node * 2 + 1) ?m r p"
        using cell_owner_frame [OF agree [of 0]] cell_owner_frame [OF agree [of 1]] by simp_all
      have "owner_at t4 node l r p
          = (if s \<le> p \<and> p < e then w else owner_at (oi_push t node) node l r p)"
        using L R that m W(5,6) kids
        unfolding cell_owner_split [OF lazy4 g(3)] cell_owner_split [OF push(2) g(3)] by auto
      then show ?thesis using push(5) that by simp
    qed
    have "k \<noteq> node" if "k \<notin> below node" for k using that by auto
    then have unt: "untouched t t4 node" using W(1) U34 by (simp add: untouched_def)
    have "good t4 node l r"
    proof (rule good_join [OF "1.prems"(1) g(3) unt])
      show "oi_lazy t4 ! node = None" using W(2) U34 by simp
      show "good t4 (node * 2) l ?m" "good t4 (node * 2 + 1) ?m r"
        using W(3) R1(2) U34 sound_frame [OF agree [of 0]] sound_frame [OF agree [of 1]]
        by (simp_all add: good_def)
      assume here: "oi_owners t4 ! node \<noteq> MIXED"
      have "node < length (oi_owners t3)"
        using "1.prems"(1) W(1) room_node by (auto simp: good_def untouched_def)
      then have at: "oi_owners t4 ! node = w'" by (simp add: t4_def)
      with here have eq: "lo = ro" "w' = lo" by (auto simp: w'_def split: if_splits)
      have lazy4: "oi_lazy t4 ! node = None" using W(2) U34 by simp
      show "\<forall>p \<in> {l..<r}. owner_at t4 node l r p = oi_owners t4 ! node"
      proof
        fix p
        assume p: "p \<in> {l..<r}"
        have kids: "owner_at t4 (node * 2) l ?m p = owner_at t3 (node * 2) l ?m p"
          "owner_at t4 (node * 2 + 1) ?m r p = owner_at t3 (node * 2 + 1) ?m r p"
          using cell_owner_frame [OF agree [of 0]] cell_owner_frame [OF agree [of 1]] by simp_all
        have "lo \<noteq> MIXED" "ro \<noteq> MIXED" using here at eq by auto
        then have "l \<le> p \<Longrightarrow> p < ?m \<Longrightarrow> owner_at t3 (node * 2) l ?m p = lo"
          "?m \<le> p \<Longrightarrow> p < r \<Longrightarrow> owner_at t3 (node * 2 + 1) ?m r p = ro"
          using W(3) R1(2) sound_uniform unfolding good_def lo_def ro_def by blast+
        then show "owner_at t4 node l r p = oi_owners t4 ! node"
          using p kids eq at unfolding cell_owner_split [OF lazy4 g(3)] by auto
      qed
    qed
    then show ?thesis unfolding result using own unt by blast
  qed
qed


section \<open>The tree meets the contract\<close>

definition oi_holds :: "nat \<Rightarrow> owner_index \<Rightarrow> (nat \<Rightarrow> int) \<Rightarrow> bool" where
  "oi_holds n t own \<longleftrightarrow> oi_length t = n
     \<and> (0 < n \<longrightarrow> good t 1 0 n \<and> (\<forall>p < n. owner_at t 1 0 n p = own p))"

lemma cell_owner_fresh:
  "(\<And>m. m < len \<Longrightarrow> own ! m = EMPTY) \<Longrightarrow> (\<And>m. m < len \<Longrightarrow> lz ! m = None) \<Longrightarrow> l < r \<Longrightarrow>
    room len node (r - l) \<Longrightarrow> cell_owner own lz node l r p = EMPTY"
proof (induction own lz node l r p rule: cell_owner.induct)
  case (1 own lz node l r p)
  have node: "node < len" using "1.prems"(4) room_node by blast
  then have here: "lz ! node = None" "own ! node = EMPTY" using "1.prems"(1,2) by auto
  show ?case
  proof (cases "r - l \<le> 1")
    case True
    then show ?thesis using here by (subst cell_owner.simps) simp
  next
    case False
    note rooms = room_children [OF "1.prems"(4)]
    show ?thesis
      using "1.IH"(1) [OF here(1) False _ "1.prems"(1,2)] "1.IH"(2) [OF here(1) False _ "1.prems"(1,2)]
        rooms False by (subst cell_owner_split [OF here(1) False]) auto
  qed
qed

lemma sound_fresh:
  "(\<And>m. m < len \<Longrightarrow> own ! m = EMPTY) \<Longrightarrow> (\<And>m. m < len \<Longrightarrow> lz ! m = None) \<Longrightarrow> l < r \<Longrightarrow>
    room len node (r - l) \<Longrightarrow> sound own lz node l r"
proof (induction own lz node l r rule: sound.induct)
  case (1 own lz node l r)
  have node: "node < len" using "1.prems"(4) room_node by blast
  then have here: "lz ! node = None" "own ! node = EMPTY" using "1.prems"(1,2) by auto
  show ?case
  proof (cases "r - l \<le> 1")
    case True
    then show ?thesis using here by (subst sound.simps) (simp add: EMPTY_def MIXED_def)
  next
    case False
    note rooms = room_children [OF "1.prems"(4)] and fresh = cell_owner_fresh [OF "1.prems"]
    show ?thesis
      using "1.IH"(1) [OF here(1) False "1.prems"(1,2)] "1.IH"(2) [OF here(1) False "1.prems"(1,2)]
        rooms False here fresh by (subst sound.simps) auto
  qed
qed

lemma oi_new_holds: "oi_holds n (oi_new n) (\<lambda>_. EMPTY)"
proof (cases "0 < n")
  case True
  let ?len = "4 * max 1 n"
  have room: "room ?len 1 (n - 0)" using room_root [of n] by simp
  have "good (oi_new n) 1 0 n"
    using sound_fresh [of ?len _ _ 0 n 1] True room by (simp add: good_def oi_new_def Let_def)
  moreover have "owner_at (oi_new n) 1 0 n p = EMPTY" for p
    using cell_owner_fresh [of ?len _ _ 0 n 1] True room by (simp add: oi_new_def Let_def)
  ultimately show ?thesis using True by (simp add: oi_holds_def oi_new_def Let_def)
qed (simp add: oi_holds_def oi_new_def Let_def)

lemma oi_replace_ok:
  assumes "oi_holds n t own" "s \<le> e" "e \<le> n" "w \<noteq> MIXED"
  shows "oi_holds n (fst (oi_replace t s e w)) (\<lambda>p. if s \<le> p \<and> p < e then w else own p)
    \<and> set (snd (oi_replace t s e w)) = {v. \<exists>p. s \<le> p \<and> p < e \<and> v = own p \<and> 0 \<le> v}"
proof (cases "0 < n")
  case True
  have t: "oi_length t = n" "good t 1 0 n" "\<And>p. p < n \<Longrightarrow> owner_at t 1 0 n p = own p"
    using assms(1) True by (auto simp: oi_holds_def)
  obtain t' found where q: "oi_query t 1 0 n s e [] = (t', found)" by fastforce
  from oi_query_ok [OF t(2) True q] have
    t': "oi_length t' = n" "good t' 1 0 n" "\<And>p. p < n \<Longrightarrow> owner_at t' 1 0 n p = own p"
    and found: "set found = owners_in t 1 0 n s e"
    using t by (auto simp: untouched_def)
  have run: "oi_replace t s e w = (oi_assign t' 1 0 n s e w, found)"
    using q t(1) t'(1) by (simp add: oi_replace_def)
  have "owners_in t 1 0 n s e = {v. \<exists>p. s \<le> p \<and> p < e \<and> v = own p \<and> 0 \<le> v}"
  proof -
    have "(\<exists>p. 0 \<le> p \<and> p < n \<and> s \<le> p \<and> p < e \<and> v = owner_at t 1 0 n p \<and> 0 \<le> v)
        \<longleftrightarrow> (\<exists>p. s \<le> p \<and> p < e \<and> v = own p \<and> 0 \<le> v)" for v
      using t(3) assms(3) by (metis le0 less_le_trans)
    then show ?thesis by (simp add: owners_in_def)
  qed
  moreover have "oi_holds n (oi_assign t' 1 0 n s e w) (\<lambda>p. if s \<le> p \<and> p < e then w else own p)"
    using oi_assign_ok [OF t'(2) True assms(4), of s e] t'
    by (simp add: oi_holds_def untouched_def)
  ultimately show ?thesis using run found by simp
next
  case False
  then show ?thesis
    using assms by (simp add: oi_holds_def oi_replace_def oi_query.simps oi_assign.simps)
qed

interpretation owner_tree: owner_map oi_new oi_replace oi_holds
proof unfold_locales
  fix n t own own' s e and w :: int
  show "oi_holds n (oi_new n) (\<lambda>_. EMPTY)" by (rule oi_new_holds)
  show "oi_holds n t own \<Longrightarrow> (\<And>p. p < n \<Longrightarrow> own p = own' p) \<Longrightarrow> oi_holds n t own'"
    by (simp add: oi_holds_def)
  assume t: "oi_holds n t own" "s \<le> e" "e \<le> n"
  show "oi_holds n (fst (oi_replace t s e w)) (\<lambda>p. if s \<le> p \<and> p < e then w else own p)"
    if "0 \<le> w"
    using oi_replace_ok [OF t, of w] that by (simp add: MIXED_def)
  show "set (snd (oi_replace t s e w)) = {v. \<exists>p. s \<le> p \<and> p < e \<and> v = own p \<and> 0 \<le> v}"
    if "0 \<le> w"
    using oi_replace_ok [OF t, of w] that by (simp add: MIXED_def)
qed

end
