(* ===== verification/Layout_Reuse.thy ===== *)
theory Layout_Reuse
  imports Owner_Index
begin

text \<open>
  Reuse-dependency recovery (\<^verbatim>\<open>reference/python/admission/reuse.py\<close>): leases are taken in causal
  order, the owner map names the latest lease to have held each address, and every lease it
  names across a successor's range must have ended before the successor starts and becomes a
  dependency of it, or the layout is refused. The loop is written over the operations of an
  owner map; its lemmas are proved in the locale \<open>owner_map\<close>.
\<close>

section \<open>The algorithm\<close>

record placed_lease =
  pl_lease_id :: int
  pl_offset :: int
  pl_bytes :: int
  pl_causal_start :: int
  pl_causal_end :: int
  pl_task :: "int option"
  pl_action :: "int option"

record operations =
  op_dependency_ids :: "int option list"
  op_purposes :: "int list"
  op_boundaries :: "int list"
  op_indices :: "int list"
  op_lease_retires :: "int option list"
  op_action_trigger_tasks :: "int list"

record reuse =
  ru_dependency_id :: int
  ru_predecessor_lease_id :: int
  ru_predecessor_purpose :: int
  ru_predecessor_task :: int
  ru_predecessor_action :: "int option"
  ru_successor_lease_id :: int
  ru_successor_task :: "int option"
  ru_successor_action :: "int option"

text \<open>The refusal with its kind, predecessor, successor and message, or another Python error.\<close>

datatype reuse_error =
    LayoutRefused int int int fstring
  | ReuseFault py_error

definition INITIAL_BOUNDARY :: int where "INITIAL_BOUNDARY = 0"
definition ACTION_BOUNDARIES :: "int list" where "ACTION_BOUNDARIES = [3, 4]"

text \<open>
  The retirement of a lease: its dependency, purpose, task and action, or the kind of the
  refusal (2 without a completion dependency, 3 without a task).
\<close>

datatype retirement =
    RetiredBy int int int "int option"
  | NotRetired int

definition retirement_of :: "operations \<Rightarrow> int \<Rightarrow> py_error + retirement" where
  "retirement_of ops lease_id =
     bindE (py_nth (op_lease_retires ops) lease_id) (\<lambda>retires.
       case retires of
         None \<Rightarrow> Inr (NotRetired 2)
       | Some index \<Rightarrow>
           bindE (py_nth (op_dependency_ids ops) index) (\<lambda>dependency.
             case dependency of
               None \<Rightarrow> Inr (NotRetired 2)
             | Some dependency_id \<Rightarrow>
                 bindE (py_nth (op_boundaries ops) index) (\<lambda>boundary.
                 bindE (py_nth (op_indices ops) index) (\<lambda>position.
                   if boundary \<in> set ACTION_BOUNDARIES then
                     bindE (py_nth (op_action_trigger_tasks ops) position) (\<lambda>task.
                     bindE (py_nth (op_purposes ops) index) (\<lambda>purpose.
                       Inr (RetiredBy dependency_id purpose task (Some position))))
                   else if boundary = INITIAL_BOUNDARY then Inr (NotRetired 3)
                   else
                     bindE (py_nth (op_purposes ops) index) (\<lambda>purpose.
                       Inr (RetiredBy dependency_id purpose position None))))))"

definition reuse_positions :: "placed_lease list \<Rightarrow> int list" where
  "reuse_positions leases =
     coordinates (concat (map (\<lambda>item. [pl_offset item, pl_offset item + pl_bytes item]) leases))"

definition causal_order :: "placed_lease list \<Rightarrow> placed_lease list" where
  "causal_order leases = sort_key (\<lambda>item. (pl_causal_start item, pl_lease_id item)) leases"

text \<open>One predecessor of a successor: the checks in the order the loop has them.\<close>

definition recover_predecessor ::
    "(int \<rightharpoonup> placed_lease) \<Rightarrow> operations \<Rightarrow> placed_lease \<Rightarrow> reuse list \<Rightarrow> int
     \<Rightarrow> reuse_error + reuse list" where
  "recover_predecessor by_id ops successor found predecessor_id =
     bindE (map_error ReuseFault (dict_get by_id predecessor_id)) (\<lambda>predecessor.
     bindE (ensure (\<not> pl_causal_end predecessor > pl_causal_start successor)
       (LayoutRefused 1 predecessor_id (pl_lease_id successor)
         [Lit ''fixed layout overlaps causally live leases: predecessor='', Num predecessor_id,
          Lit '', successor='', Num (pl_lease_id successor)])) (\<lambda>_.
     bindE (map_error ReuseFault (retirement_of ops predecessor_id)) (\<lambda>retired.
       case retired of
         NotRetired kind \<Rightarrow>
           if kind = 2 then
             Inl (LayoutRefused 2 predecessor_id (pl_lease_id successor)
               [Lit ''fixed layout reuses lease '', Num predecessor_id,
                Lit '' without a completion dependency''])
           else
             Inl (LayoutRefused 3 predecessor_id (pl_lease_id successor)
               [Lit ''fixed-layout predecessor lacks a task''])
       | RetiredBy dependency_id purpose task action \<Rightarrow>
           if pl_task successor = None \<and> pl_action successor = None then
             Inl (LayoutRefused 4 predecessor_id (pl_lease_id successor)
               [Lit ''fixed-layout successor lacks a consumer''])
           else
             Inr (List.insert
               \<lparr>ru_dependency_id = dependency_id, ru_predecessor_lease_id = predecessor_id,
                ru_predecessor_purpose = purpose, ru_predecessor_task = task,
                ru_predecessor_action = action, ru_successor_lease_id = pl_lease_id successor,
                ru_successor_task = pl_task successor, ru_successor_action = pl_action successor\<rparr>
               found))))"

definition recover_successor ::
    "('t \<Rightarrow> nat \<Rightarrow> nat \<Rightarrow> int \<Rightarrow> 't \<times> int list) \<Rightarrow> int list \<Rightarrow> (int \<rightharpoonup> placed_lease) \<Rightarrow> operations
     \<Rightarrow> 't \<times> reuse list \<Rightarrow> placed_lease \<Rightarrow> reuse_error + ('t \<times> reuse list)" where
  "recover_successor repl positions by_id ops st successor =
     (case st of (latest, found) \<Rightarrow>
        case repl latest (rank_of positions (pl_offset successor))
               (rank_of positions (pl_offset successor + pl_bytes successor))
               (pl_lease_id successor)
        of (latest', predecessors) \<Rightarrow>
          bindE (foldE (recover_predecessor by_id ops successor) found (sort predecessors))
            (\<lambda>found'. Inr (latest', found')))"

definition recover_all ::
    "(nat \<Rightarrow> 't) \<Rightarrow> ('t \<Rightarrow> nat \<Rightarrow> nat \<Rightarrow> int \<Rightarrow> 't \<times> int list)
     \<Rightarrow> placed_lease list \<Rightarrow> operations \<Rightarrow> reuse_error + reuse list" where
  "recover_all create repl leases ops =
     (let positions = reuse_positions leases;
          by_id = dict_of (map (\<lambda>item. (pl_lease_id item, item)) leases)
      in bindE
           (foldE (recover_successor repl positions by_id ops)
             (create (length positions - 1), []) (causal_order leases))
           (\<lambda>(latest, found).
             Inr (sort_key (\<lambda>item. (ru_successor_lease_id item, ru_dependency_id item,
                                    ru_predecessor_lease_id item)) found)))"

definition recover_layout_reuse :: "placed_lease list \<Rightarrow> operations \<Rightarrow> reuse_error + reuse list" where
  "recover_layout_reuse = recover_all oi_new oi_replace"


section \<open>What a recovered layout promises\<close>

text \<open>
  A layout to recover from: distinct non-negative lease ids, no negative size, and no lease
  that ends before it starts.
\<close>

definition wf_layout :: "placed_lease list \<Rightarrow> bool" where
  "wf_layout leases \<longleftrightarrow> distinct (map pl_lease_id leases)
     \<and> list_all (\<lambda>a. 0 \<le> pl_lease_id a \<and> 0 \<le> pl_bytes a \<and> pl_causal_start a \<le> pl_causal_end a) leases"

definition covers :: "placed_lease \<Rightarrow> int \<Rightarrow> bool" where
  "covers a x \<longleftrightarrow> pl_offset a \<le> x \<and> x < pl_offset a + pl_bytes a"

definition links :: "reuse list \<Rightarrow> (int \<times> int) set" where
  "links found = (\<lambda>r. (ru_predecessor_lease_id r, ru_successor_lease_id r)) ` set found"

text \<open>
  The specification the recovery is measured against: one lease directly precedes another
  where it is the latest of those before it, in causal order, to hold some address of it.
\<close>

definition latest_holder :: "placed_lease list \<Rightarrow> int \<Rightarrow> int" where
  "latest_holder done x =
     (case filter (\<lambda>a. covers a x) (rev done) of [] \<Rightarrow> EMPTY | a # _ \<Rightarrow> pl_lease_id a)"

definition direct_links :: "placed_lease list \<Rightarrow> (int \<times> int) set" where
  "direct_links order =
     {(latest_holder before x, pl_lease_id b) | before b after x.
        order = before @ b # after \<and> covers b x \<and> latest_holder before x \<noteq> EMPTY}"

lemma latest_holder_simps [simp]:
  "latest_holder [] x = EMPTY"
  "latest_holder (xs @ [b]) x = (if covers b x then pl_lease_id b else latest_holder xs x)"
  by (simp_all add: latest_holder_def)

lemma latest_holder_last:
  "covers c x \<Longrightarrow> \<forall>d \<in> set after. \<not> covers d x \<Longrightarrow> latest_holder (before @ c # after) x = pl_lease_id c"
  by (simp add: latest_holder_def filter_empty_conv)

lemma latest_holder_cases:
  "latest_holder before x = EMPTY \<or>
    (\<exists>as c bs. before = as @ c # bs \<and> covers c x \<and> latest_holder before x = pl_lease_id c
       \<and> (\<forall>d \<in> set bs. \<not> covers d x))"
proof (cases "\<exists>c \<in> set before. covers c x")
  case True
  then obtain as c bs where c: "before = as @ c # bs" "covers c x" "\<forall>d \<in> set bs. \<not> covers d x"
    using split_list_last_prop [of before "\<lambda>c. covers c x"] by blast
  then show ?thesis using latest_holder_last by metis
next
  case False
  then have "filter (\<lambda>a. covers a x) (rev before) = []" by (simp add: filter_empty_conv)
  then show ?thesis by (simp add: latest_holder_def)
qed

lemma latest_holder_member:
  "latest_holder before x \<noteq> EMPTY \<Longrightarrow>
    \<exists>a \<in> set before. covers a x \<and> pl_lease_id a = latest_holder before x"
  using latest_holder_cases [of before x] by force

lemma latest_holder_cong:
  "(\<And>a. a \<in> set before \<Longrightarrow> covers a x = covers a y) \<Longrightarrow> latest_holder before x = latest_holder before y"
  by (induction before rule: rev_induct) auto

lemma direct_links_Nil [simp]: "direct_links [] = {}"
  by (simp add: direct_links_def)

lemma direct_links_snoc:
  "direct_links (xs @ [b]) = direct_links xs
    \<union> {(latest_holder xs x, pl_lease_id b) | x. covers b x \<and> latest_holder xs x \<noteq> EMPTY}"
proof (intro set_eqI iffI)
  fix z
  assume "z \<in> direct_links (xs @ [b])"
  then obtain before c after x where
    z: "z = (latest_holder before x, pl_lease_id c)" "xs @ [b] = before @ c # after" "covers c x"
      "latest_holder before x \<noteq> EMPTY"
    unfolding direct_links_def by blast
  show "z \<in> direct_links xs
    \<union> {(latest_holder xs x, pl_lease_id b) | x. covers b x \<and> latest_holder xs x \<noteq> EMPTY}"
  proof (cases after rule: rev_cases)
    case Nil
    with z show ?thesis by auto
  next
    case (snoc after' d)
    with z have "xs = before @ c # after'" by auto
    with z show ?thesis unfolding direct_links_def by blast
  qed
next
  fix z
  assume "z \<in> direct_links xs
    \<union> {(latest_holder xs x, pl_lease_id b) | x. covers b x \<and> latest_holder xs x \<noteq> EMPTY}"
  then consider before c after x where
      "z = (latest_holder before x, pl_lease_id c)" "xs = before @ c # after" "covers c x"
      "latest_holder before x \<noteq> EMPTY"
    | x where "z = (latest_holder xs x, pl_lease_id b)" "covers b x" "latest_holder xs x \<noteq> EMPTY"
    unfolding direct_links_def by blast
  then show "z \<in> direct_links (xs @ [b])"
  proof cases
    case 1
    then have "xs @ [b] = before @ c # (after @ [b])" by simp
    with 1 show ?thesis unfolding direct_links_def by blast
  next
    case 2
    have "xs @ [b] = xs @ b # []" by simp
    with 2 show ?thesis unfolding direct_links_def by blast
  qed
qed

text \<open>Two leases holding the same address are linked by a chain of direct links.\<close>

lemma direct_links_chain:
  assumes "order = before @ a # mid @ b # after" "covers a x" "covers b x"
    and "\<forall>c \<in> set order. pl_lease_id c \<noteq> EMPTY"
  shows "(pl_lease_id a, pl_lease_id b) \<in> (direct_links order)\<^sup>+"
  using assms(1,3)
proof (induction "length mid" arbitrary: mid b after rule: less_induct)
  case less
  let ?h = "latest_holder (before @ a # mid) x"
  have order: "order = (before @ a # mid) @ b # after" using less.prems(1) by simp
  have link: "(?h, pl_lease_id b) \<in> direct_links order" if "?h \<noteq> EMPTY"
    using order less.prems(2) that unfolding direct_links_def by blast
  show ?case
  proof (cases "\<exists>c \<in> set mid. covers c x")
    case False
    then have "?h = pl_lease_id a" using assms(2) by (intro latest_holder_last) auto
    moreover have "pl_lease_id a \<noteq> EMPTY" using assms(4) order by simp
    ultimately show ?thesis using link by auto
  next
    case True
    then obtain m1 c m2 where m: "mid = m1 @ c # m2" "covers c x" "\<forall>d \<in> set m2. \<not> covers d x"
      using split_list_last_prop [of mid "\<lambda>c. covers c x"] by blast
    have "?h = pl_lease_id c"
      using latest_holder_last [OF m(2,3), of "before @ a # m1"] m(1) by simp
    moreover have "pl_lease_id c \<noteq> EMPTY" using assms(4) order m(1) by simp
    moreover have "(pl_lease_id a, pl_lease_id c) \<in> (direct_links order)\<^sup>+"
      by (rule less.hyps [of m1 c "m2 @ b # after"]) (use m order in auto)
    ultimately show ?thesis using link by (metis trancl.trancl_into_trancl)
  qed
qed

text \<open>Every address of a lease lies in a cell its range spans, and the cell decides coverage.\<close>

lemma reuse_positions_member:
  "a \<in> set leases \<Longrightarrow> pl_offset a \<in> set (reuse_positions leases)"
  "a \<in> set leases \<Longrightarrow> pl_offset a + pl_bytes a \<in> set (reuse_positions leases)"
  by (auto simp: reuse_positions_def)

lemma cell_of_address:
  assumes "b \<in> set leases" "covers b x"
  shows "\<exists>p. rank_of (reuse_positions leases) (pl_offset b) \<le> p
    \<and> p < rank_of (reuse_positions leases) (pl_offset b + pl_bytes b)
    \<and> (\<forall>a \<in> set leases. covers a x = covers a (reuse_positions leases ! p))"
proof -
  let ?C = "reuse_positions leases"
  define c where "c = Max {c \<in> set ?C. c \<le> x}"
  have ne: "{c \<in> set ?C. c \<le> x} \<noteq> {}"
    using reuse_positions_member(1) [OF assms(1)] assms(2) by (auto simp: covers_def)
  have "c \<in> {c \<in> set ?C. c \<le> x}" unfolding c_def by (rule Max_in) (use ne in auto)
  then have c: "c \<in> set ?C" "c \<le> x" by auto
  have top: "y \<le> c" if "y \<in> set ?C" "y \<le> x" for y
    unfolding c_def using that by (intro Max_ge) auto
  have same: "covers a x = covers a c" if "a \<in> set leases" for a
    using top [OF reuse_positions_member(1) [OF that]] top [OF reuse_positions_member(2) [OF that]] c(2)
    unfolding covers_def by linarith
  have "covers b c" using same [OF assms(1)] assms(2) by simp
  then have "rank_of ?C (pl_offset b) \<le> rank_of ?C c" "rank_of ?C c < rank_of ?C (pl_offset b + pl_bytes b)"
    using reuse_positions_member [OF assms(1)] c(1) by (auto simp: covers_def reuse_positions_def)
  moreover have "?C ! rank_of ?C c = c" using c(1) by (rule nth_rank_of)
  ultimately show ?thesis using same by (intro exI [of _ "rank_of ?C c"]) simp
qed

lemma address_of_cell:
  assumes "b \<in> set leases"
    and "rank_of (reuse_positions leases) (pl_offset b) \<le> p"
    and "p < rank_of (reuse_positions leases) (pl_offset b + pl_bytes b)"
  shows "covers b (reuse_positions leases ! p)"
proof -
  let ?C = "reuse_positions leases"
  have len: "rank_of ?C (pl_offset b + pl_bytes b) < length ?C"
    using reuse_positions_member(2) [OF assms(1)] by (rule rank_of_less_length)
  then have p: "p < length ?C" using assms(3) by simp
  have "distinct ?C" by (simp add: reuse_positions_def)
  then have "rank_of ?C (?C ! p) = p" using p by (rule rank_of_nth)
  then show ?thesis
    using assms(2,3) reuse_positions_member [OF assms(1)] p
    by (metis coordinates_props(1) covers_def nth_mem rank_of_le rank_of_less reuse_positions_def)
qed

lemma cell_holders:
  assumes "b \<in> set leases" "set before \<subseteq> set leases"
  shows "{v. \<exists>p. rank_of (reuse_positions leases) (pl_offset b) \<le> p
      \<and> p < rank_of (reuse_positions leases) (pl_offset b + pl_bytes b)
      \<and> v = latest_holder before (reuse_positions leases ! p) \<and> 0 \<le> v}
    = {v. \<exists>x. covers b x \<and> v = latest_holder before x \<and> 0 \<le> v}"
proof (intro set_eqI iffI)
  fix v
  assume "v \<in> {v. \<exists>x. covers b x \<and> v = latest_holder before x \<and> 0 \<le> v}"
  then obtain x where x: "covers b x" "v = latest_holder before x" "0 \<le> v" by blast
  obtain p where p: "rank_of (reuse_positions leases) (pl_offset b) \<le> p"
    "p < rank_of (reuse_positions leases) (pl_offset b + pl_bytes b)"
    "\<forall>a \<in> set leases. covers a x = covers a (reuse_positions leases ! p)"
    using cell_of_address [OF assms(1) x(1)] by blast
  then have "latest_holder before x = latest_holder before (reuse_positions leases ! p)"
    using assms(2) by (intro latest_holder_cong) auto
  with x p(1,2) show "v \<in> {v. \<exists>p. rank_of (reuse_positions leases) (pl_offset b) \<le> p
      \<and> p < rank_of (reuse_positions leases) (pl_offset b + pl_bytes b)
      \<and> v = latest_holder before (reuse_positions leases ! p) \<and> 0 \<le> v}"
    by auto
next
  fix v
  assume "v \<in> {v. \<exists>p. rank_of (reuse_positions leases) (pl_offset b) \<le> p
      \<and> p < rank_of (reuse_positions leases) (pl_offset b + pl_bytes b)
      \<and> v = latest_holder before (reuse_positions leases ! p) \<and> 0 \<le> v}"
  then show "v \<in> {v. \<exists>x. covers b x \<and> v = latest_holder before x \<and> 0 \<le> v}"
    using address_of_cell [OF assms(1)] by blast
qed

text \<open>What one recovered predecessor, and the predecessors of one successor, add.\<close>

lemma recover_predecessor_ok:
  assumes "recover_predecessor by_id ops b found v = Inr found'"
  shows "links found' = insert (v, pl_lease_id b) (links found)
    \<and> (\<exists>a. by_id v = Some a \<and> pl_causal_end a \<le> pl_causal_start b)"
  using assms unfolding recover_predecessor_def
  by (auto simp: dict_get_Inr_iff links_def split: retirement.splits if_splits)

lemma recover_predecessor_conflict:
  assumes "by_id u = Some a" "recover_predecessor by_id ops b f u = Inl (LayoutRefused 1 v w msg)"
  shows "v = u \<and> w = pl_lease_id b \<and> pl_causal_start b < pl_causal_end a"
proof (cases "retirement_of ops u")
  case (Inl e)
  then show ?thesis using assms by (auto simp: recover_predecessor_def ensure_def split: if_splits)
next
  case (Inr retired)
  then show ?thesis using assms
    by (cases retired) (auto simp: recover_predecessor_def ensure_def split: if_splits)
qed

lemma recover_predecessors_ok:
  assumes "foldE (recover_predecessor by_id ops b) found vs = Inr found'"
  shows "links found' = links found \<union> (\<lambda>v. (v, pl_lease_id b)) ` set vs
    \<and> (\<forall>v \<in> set vs. \<exists>a. by_id v = Some a \<and> pl_causal_end a \<le> pl_causal_start b)"
  by (rule foldE_invariant [OF assms, where P = "\<lambda>done t. links t = links found
        \<union> (\<lambda>v. (v, pl_lease_id b)) ` set done
        \<and> (\<forall>v \<in> set done. \<exists>a. by_id v = Some a \<and> pl_causal_end a \<le> pl_causal_start b)"])
    (auto dest: recover_predecessor_ok)

definition recover_inv ::
    "(nat \<Rightarrow> 't \<Rightarrow> (nat \<Rightarrow> int) \<Rightarrow> bool) \<Rightarrow> placed_lease list \<Rightarrow> placed_lease list \<Rightarrow> 't \<times> reuse list \<Rightarrow> bool"
  where
  "recover_inv holds leases done st \<longleftrightarrow>
     holds (length (reuse_positions leases) - 1) (fst st)
       (\<lambda>p. latest_holder done (reuse_positions leases ! p))
     \<and> links (snd st) = direct_links done
     \<and> (\<forall>a \<in> set leases. \<forall>b \<in> set leases. (pl_lease_id a, pl_lease_id b) \<in> links (snd st) \<longrightarrow>
          pl_causal_end a \<le> pl_causal_start b)"

lemma causal_order_set [simp]: "set (causal_order leases) = set leases"
  by (simp add: causal_order_def)

lemma by_id_lookup:
  "wf_layout leases \<Longrightarrow> a \<in> set leases \<Longrightarrow>
    dict_of (map (\<lambda>item. (pl_lease_id item, item)) leases) (pl_lease_id a) = Some a"
  unfolding wf_layout_def by (intro dict_of_distinct) (auto simp: comp_def)

lemma wf_layout_ids:
  "wf_layout leases \<Longrightarrow> a \<in> set leases \<Longrightarrow> b \<in> set leases \<Longrightarrow> pl_lease_id a = pl_lease_id b \<Longrightarrow> a = b"
  unfolding wf_layout_def by (auto simp: distinct_map dest: inj_onD)

lemma position_bounds:
  assumes "wf_layout leases" "b \<in> set leases"
  shows "rank_of (reuse_positions leases) (pl_offset b)
      \<le> rank_of (reuse_positions leases) (pl_offset b + pl_bytes b)"
    and "rank_of (reuse_positions leases) (pl_offset b + pl_bytes b) \<le> length (reuse_positions leases) - 1"
proof -
  have "0 \<le> pl_bytes b" using assms by (auto simp: wf_layout_def list_all_iff)
  then show "rank_of (reuse_positions leases) (pl_offset b)
      \<le> rank_of (reuse_positions leases) (pl_offset b + pl_bytes b)"
    using reuse_positions_member [OF assms(2)] by (simp add: reuse_positions_def)
  show "rank_of (reuse_positions leases) (pl_offset b + pl_bytes b) \<le> length (reuse_positions leases) - 1"
    using rank_of_less_length [OF reuse_positions_member(2) [OF assms(2)]] by simp
qed

context owner_map begin

lemma recover_successor_found:
  assumes "wf_layout leases" "recover_inv holds leases before st" "set before \<subseteq> set leases"
    and "b \<in> set leases"
    and "replace (fst st) (rank_of (reuse_positions leases) (pl_offset b))
      (rank_of (reuse_positions leases) (pl_offset b + pl_bytes b)) (pl_lease_id b) = (t', vs)"
  shows "set vs = {v. \<exists>x. covers b x \<and> v = latest_holder before x \<and> v \<noteq> EMPTY}"
    and "holds (length (reuse_positions leases) - 1) t'
      (\<lambda>p. if rank_of (reuse_positions leases) (pl_offset b) \<le> p
              \<and> p < rank_of (reuse_positions leases) (pl_offset b + pl_bytes b)
           then pl_lease_id b else latest_holder before (reuse_positions leases ! p))"
proof -
  note inv = assms(2) [unfolded recover_inv_def] and bounds = position_bounds [OF assms(1,4)]
  have id: "0 \<le> pl_lease_id b" using assms(1,4) by (auto simp: wf_layout_def list_all_iff)
  have nonneg: "0 \<le> latest_holder before x \<longleftrightarrow> latest_holder before x \<noteq> EMPTY" for x
  proof
    show "0 \<le> latest_holder before x \<Longrightarrow> latest_holder before x \<noteq> EMPTY" by (simp add: EMPTY_def)
    assume "latest_holder before x \<noteq> EMPTY"
    then obtain a where "a \<in> set before" "pl_lease_id a = latest_holder before x"
      using latest_holder_member by blast
    then show "0 \<le> latest_holder before x"
      using assms(1,3) by (force simp: wf_layout_def list_all_iff)
  qed
  show "set vs = {v. \<exists>x. covers b x \<and> v = latest_holder before x \<and> v \<noteq> EMPTY}"
    using replace_found [OF inv [THEN conjunct1] bounds id] assms(5)
      cell_holders [OF assms(4,3)] nonneg by auto
  show "holds (length (reuse_positions leases) - 1) t'
      (\<lambda>p. if rank_of (reuse_positions leases) (pl_offset b) \<le> p
              \<and> p < rank_of (reuse_positions leases) (pl_offset b + pl_bytes b)
           then pl_lease_id b else latest_holder before (reuse_positions leases ! p))"
    using replace_holds [OF inv [THEN conjunct1] bounds id] assms(5) by simp
qed

lemma recover_successor_ok:
  assumes "wf_layout leases" "recover_inv holds leases before st" "set before \<subseteq> set leases"
    and "b \<in> set leases"
    and "recover_successor replace (reuse_positions leases)
      (dict_of (map (\<lambda>item. (pl_lease_id item, item)) leases)) ops st b = Inr st'"
  shows "recover_inv holds leases (before @ [b]) st'"
proof -
  let ?C = "reuse_positions leases" and ?ids = "dict_of (map (\<lambda>item. (pl_lease_id item, item)) leases)"
  let ?s = "rank_of ?C (pl_offset b)" and ?e = "rank_of ?C (pl_offset b + pl_bytes b)"
  obtain t found where st: "st = (t, found)" by fastforce
  obtain t' vs where r: "replace t ?s ?e (pl_lease_id b) = (t', vs)" by fastforce
  from assms(5) obtain found' where
    run: "foldE (recover_predecessor ?ids ops b) found (sort vs) = Inr found'" and st': "st' = (t', found')"
    by (auto simp: recover_successor_def st r)
  note step = recover_successor_found [OF assms(1-4), of t' vs] and preds = recover_predecessors_ok [OF run]
  have inv: "links found = direct_links before"
    "\<forall>a \<in> set leases. \<forall>c \<in> set leases. (pl_lease_id a, pl_lease_id c) \<in> links found
      \<longrightarrow> pl_causal_end a \<le> pl_causal_start c"
    using assms(2) by (auto simp: recover_inv_def st)
  have vs: "set vs = {v. \<exists>x. covers b x \<and> v = latest_holder before x \<and> v \<noteq> EMPTY}"
    using step(1) r st by simp
  have "holds (length ?C - 1) t' (\<lambda>p. latest_holder (before @ [b]) (?C ! p))"
  proof (rule holds_cong)
    show "holds (length ?C - 1) t' (\<lambda>p. if ?s \<le> p \<and> p < ?e then pl_lease_id b
        else latest_holder before (?C ! p))"
      using step(2) r st by simp
    fix p
    assume p: "p < length ?C - 1"
    have "?s \<le> p \<and> p < ?e \<longleftrightarrow> covers b (?C ! p)"
    proof
      show "?s \<le> p \<and> p < ?e \<Longrightarrow> covers b (?C ! p)" using address_of_cell [OF assms(4)] by blast
      have "distinct ?C" by (simp add: reuse_positions_def)
      then have at: "rank_of ?C (?C ! p) = p" "?C ! p \<in> set ?C"
        using p by (auto intro: rank_of_nth)
      assume "covers b (?C ! p)"
      then have "?s \<le> rank_of ?C (?C ! p)" "rank_of ?C (?C ! p) < ?e"
        using reuse_positions_member [OF assms(4)] at(2) unfolding covers_def reuse_positions_def
        by auto
      then show "?s \<le> p \<and> p < ?e" using at by simp
    qed
    then show "(if ?s \<le> p \<and> p < ?e then pl_lease_id b else latest_holder before (?C ! p))
        = latest_holder (before @ [b]) (?C ! p)"
      by simp
  qed
  moreover have "links found' = direct_links (before @ [b])"
    using preds inv(1) vs unfolding direct_links_snoc by auto
  moreover have "pl_causal_end a \<le> pl_causal_start c"
    if ac: "a \<in> set leases" "c \<in> set leases" "(pl_lease_id a, pl_lease_id c) \<in> links found'" for a c
  proof (cases "(pl_lease_id a, pl_lease_id c) \<in> links found")
    case True
    then show ?thesis using inv(2) ac by blast
  next
    case False
    then have "pl_lease_id a \<in> set vs" "pl_lease_id c = pl_lease_id b" using ac(3) preds by auto
    then show ?thesis
      using preds by_id_lookup [OF assms(1) ac(1)] wf_layout_ids [OF assms(1) ac(2) assms(4)] by force
  qed
  ultimately show ?thesis by (simp add: recover_inv_def st')
qed

lemma recover_all_ok:
  assumes "wf_layout leases" "recover_all create replace leases ops = Inr result"
  shows "links result = direct_links (causal_order leases)"
    and "a \<in> set leases \<Longrightarrow> b \<in> set leases \<Longrightarrow> (pl_lease_id a, pl_lease_id b) \<in> links result \<Longrightarrow>
      pl_causal_end a \<le> pl_causal_start b"
proof -
  let ?C = "reuse_positions leases" and ?ids = "dict_of (map (\<lambda>item. (pl_lease_id item, item)) leases)"
  obtain t found where
    run: "foldE (recover_successor replace ?C ?ids ops) (create (length ?C - 1), []) (causal_order leases)
      = Inr (t, found)"
    and result: "set result = set found"
    using assms(2) by (auto simp: recover_all_def Let_def)
  have "recover_inv holds leases (causal_order leases) (t, found)"
  proof (rule foldE_invariant [OF run])
    show "recover_inv holds leases [] (create (length ?C - 1), [])"
      using create_holds by (simp add: recover_inv_def links_def)
    fix before b after st st'
    assume step: "recover_inv holds leases before st" "causal_order leases = before @ b # after"
      "recover_successor replace ?C ?ids ops st b = Inr st'"
    then have "set before \<subseteq> set leases" "b \<in> set leases"
      by (metis causal_order_set set_append UnI1 subsetI, metis causal_order_set in_set_conv_decomp)
    then show "recover_inv holds leases (before @ [b]) st'"
      using recover_successor_ok [OF assms(1) step(1) _ _ step(3)] by blast
  qed
  then show "links result = direct_links (causal_order leases)"
    "a \<in> set leases \<Longrightarrow> b \<in> set leases \<Longrightarrow> (pl_lease_id a, pl_lease_id b) \<in> links result \<Longrightarrow>
      pl_causal_end a \<le> pl_causal_start b"
    using result by (auto simp: recover_inv_def links_def)
qed

text \<open>A refusal of kind 1 names a pair that really conflicts.\<close>

lemma recover_all_conflict:
  assumes "wf_layout leases"
    and "recover_all create replace leases ops = Inl (LayoutRefused 1 v w msg)"
  shows "\<exists>a \<in> set leases. \<exists>b \<in> set leases. pl_lease_id a = v \<and> pl_lease_id b = w
    \<and> (\<exists>x. covers a x \<and> covers b x) \<and> pl_causal_start b < pl_causal_end a"
proof -
  let ?C = "reuse_positions leases" and ?ids = "dict_of (map (\<lambda>item. (pl_lease_id item, item)) leases)"
  have "foldE (recover_successor replace ?C ?ids ops) (create (length ?C - 1), []) (causal_order leases)
      = Inl (LayoutRefused 1 v w msg)"
    using assms(2) by (auto simp: recover_all_def Let_def bindE_Inl_iff split: prod.splits)
  then obtain before b after t found where order: "causal_order leases = before @ b # after"
    and run: "foldE (recover_successor replace ?C ?ids ops) (create (length ?C - 1), []) before
      = Inr (t, found)"
    and bad: "recover_successor replace ?C ?ids ops (t, found) b = Inl (LayoutRefused 1 v w msg)"
    by (auto elim!: foldE_InlE)
  have members: "set before \<subseteq> set leases" "b \<in> set leases"
    using order by (metis causal_order_set set_append UnI1 subsetI, metis causal_order_set in_set_conv_decomp order)
  have inv: "recover_inv holds leases before (t, found)"
  proof (rule foldE_invariant [OF run])
    show "recover_inv holds leases [] (create (length ?C - 1), [])"
      using create_holds by (simp add: recover_inv_def links_def)
    fix ys c zs st st'
    assume "recover_inv holds leases ys st" "before = ys @ c # zs"
      "recover_successor replace ?C ?ids ops st c = Inr st'"
    then show "recover_inv holds leases (ys @ [c]) st'"
      using recover_successor_ok [OF assms(1)] members(1) by auto
  qed
  obtain t' vs where r: "replace t (rank_of ?C (pl_offset b)) (rank_of ?C (pl_offset b + pl_bytes b))
      (pl_lease_id b) = (t', vs)" by fastforce
  note vs = recover_successor_found(1) [OF assms(1) inv members, unfolded fst_conv, OF r]
  from bad have "foldE (recover_predecessor ?ids ops b) found (sort vs) = Inl (LayoutRefused 1 v w msg)"
    by (auto simp: recover_successor_def r bindE_Inl_iff)
  then obtain u f where u: "u \<in> set vs"
    "recover_predecessor ?ids ops b f u = Inl (LayoutRefused 1 v w msg)"
    by (elim foldE_InlE) (metis in_set_conv_decomp set_sort)
  from u(1) vs obtain x a where x: "covers b x" "a \<in> set before" "covers a x" "pl_lease_id a = u"
    using latest_holder_member [of before] by force
  then have "?ids u = Some a" using by_id_lookup [OF assms(1)] members(1) by blast
  then have "v = u" "w = pl_lease_id b" "pl_causal_start b < pl_causal_end a"
    using recover_predecessor_conflict [OF _ u(2)] by auto
  then show ?thesis using x members by blast
qed

end

section \<open>Chains of recovered dependencies\<close>

lemma chain_ordered:
  assumes "wf_layout leases" "recover_layout_reuse leases ops = Inr result"
    and "(v, w) \<in> (links result)\<^sup>+"
  shows "\<exists>a \<in> set leases. \<exists>b \<in> set leases.
    pl_lease_id a = v \<and> pl_lease_id b = w \<and> pl_causal_end a \<le> pl_causal_start b"
  using assms(3)
proof (induction rule: trancl_induct)
  case (base w)
  note ok = owner_tree.recover_all_ok [OF assms(1) assms(2) [unfolded recover_layout_reuse_def]]
  from base obtain before b after x where "causal_order leases = before @ b # after"
    "w = pl_lease_id b" "v = latest_holder before x" "v \<noteq> EMPTY"
    unfolding ok(1) direct_links_def by blast
  then obtain a where "a \<in> set leases" "b \<in> set leases" "pl_lease_id a = v" "pl_lease_id b = w"
    using latest_holder_member [of before x]
    by (metis UnI1 causal_order_set in_set_conv_decomp set_append)
  then show ?case using ok(2) base by blast
next
  case (step u w)
  note ok = owner_tree.recover_all_ok [OF assms(1) assms(2) [unfolded recover_layout_reuse_def]]
  from step.IH obtain a c where a: "a \<in> set leases" "c \<in> set leases" "pl_lease_id a = v"
    "pl_lease_id c = u" "pl_causal_end a \<le> pl_causal_start c" by blast
  from step.hyps(2) obtain before b after x where "causal_order leases = before @ b # after"
    "w = pl_lease_id b" unfolding ok(1) direct_links_def by blast
  then have b: "b \<in> set leases" "pl_lease_id b = w" by (metis causal_order_set in_set_conv_decomp, simp)
  have "pl_causal_end c \<le> pl_causal_start b" using ok(2) [OF a(2) b(1)] a(4) b(2) step.hyps(2) by simp
  moreover have "pl_causal_start c \<le> pl_causal_end c"
    using assms(1) a(2) by (simp add: wf_layout_def list_all_iff)
  ultimately show ?case using a b by (intro bexI [of _ a] bexI [of _ b]) auto
qed

lemma accepted_chain:
  assumes "wf_layout leases" "recover_layout_reuse leases ops = Inr result"
    and "causal_order leases = as @ a # bs @ b # cs" "covers a x" "covers b x"
  shows "(pl_lease_id a, pl_lease_id b) \<in> (links result)\<^sup>+"
proof -
  have "links result = direct_links (causal_order leases)"
    using owner_tree.recover_all_ok(1) [OF assms(1)] assms(2) by (simp add: recover_layout_reuse_def)
  moreover have "\<forall>c \<in> set (causal_order leases). pl_lease_id c \<noteq> EMPTY"
    using assms(1) by (auto simp: wf_layout_def list_all_iff EMPTY_def)
  ultimately show ?thesis using direct_links_chain [OF assms(3,4,5)] by simp
qed

lemma accepted_ordered:
  assumes "wf_layout leases" "recover_layout_reuse leases ops = Inr result"
    and "causal_order leases = as @ a # bs @ b # cs" "covers a x" "covers b x"
  shows "pl_causal_end a \<le> pl_causal_start b"
proof -
  have "a \<in> set leases" "b \<in> set leases"
    using causal_order_set [of leases] unfolding assms(3) by auto
  then show ?thesis
    using chain_ordered [OF assms(1,2) accepted_chain [OF assms]] wf_layout_ids [OF assms(1)] by metis
qed


section \<open>Properties\<close>

text \<open>
  C4. An accepted layout is safe to run: of two leases that share an address, one has ended,
  in causal order, before the other starts.
\<close>

theorem recover_layout_reuse_safe:
  assumes "wf_layout leases" and "recover_layout_reuse leases ops = Inr result"
    and "a \<in> set leases" and "b \<in> set leases" and "a \<noteq> b"
    and "covers a x" and "covers b x"
  shows "pl_causal_end a \<le> pl_causal_start b \<or> pl_causal_end b \<le> pl_causal_start a"
proof -
  have "a \<in> set (causal_order leases)" "b \<in> set (causal_order leases)" using assms by auto
  then consider as bs cs where "causal_order leases = as @ a # bs @ b # cs"
    | as bs cs where "causal_order leases = as @ b # bs @ a # cs"
    using two_members assms(5) by metis
  then show ?thesis
  proof cases
    case 1
    then show ?thesis
      using accepted_ordered [OF assms(1,2) _ assms(6,7)] by blast
  next
    case 2
    then show ?thesis
      using accepted_ordered [OF assms(1,2) _ assms(7,6)] by blast
  qed
qed

abbreviation held :: "int \<Rightarrow> int \<Rightarrow> int \<Rightarrow> int \<Rightarrow> int \<Rightarrow> int \<Rightarrow> placed_lease" where
  "held i off b s e task \<equiv>
     \<lparr>pl_lease_id = i, pl_offset = off, pl_bytes = b, pl_causal_start = s, pl_causal_end = e,
      pl_task = Some task, pl_action = None\<rparr>"

text \<open>
  Lease 0 is split among leases 1 and 2; lease 3 covers both. Every lease \<open>i\<close> retires at
  operation \<open>i\<close>, whose boundary is a task boundary.
\<close>

definition sample_layout :: "placed_lease list" where
  "sample_layout = [held 0 0 8 0 1 0, held 2 4 4 1 3 2, held 1 0 4 2 3 1, held 3 2 4 5 6 3]"

definition sample_operations :: operations where
  "sample_operations =
     \<lparr>op_dependency_ids = map Some [10, 11, 12, 13], op_purposes = [0, 0, 0, 0],
      op_boundaries = [1, 1, 1, 1], op_indices = [0, 1, 2, 3],
      op_lease_retires = map Some [0, 1, 2, 3], op_action_trigger_tasks = []\<rparr>"

definition sample_reuse :: "int \<Rightarrow> int \<Rightarrow> reuse" where
  "sample_reuse p s =
     \<lparr>ru_dependency_id = 10 + p, ru_predecessor_lease_id = p, ru_predecessor_purpose = 0,
      ru_predecessor_task = p, ru_predecessor_action = None, ru_successor_lease_id = s,
      ru_successor_task = Some s, ru_successor_action = None\<rparr>"

lemma sample_layout_wf: "wf_layout sample_layout"
  by (simp add: wf_layout_def sample_layout_def)

lemma sample_layout_run:
  "recover_layout_reuse sample_layout sample_operations
   = Inr [sample_reuse 0 1, sample_reuse 0 2, sample_reuse 1 3, sample_reuse 2 3]"
  by code_simp

theorem recover_layout_reuse_safe_witness:
  "pl_causal_end (held 0 0 8 0 1 0) \<le> pl_causal_start (held 3 2 4 5 6 3)
   \<or> pl_causal_end (held 3 2 4 5 6 3) \<le> pl_causal_start (held 0 0 8 0 1 0)"
  by (rule recover_layout_reuse_safe [OF sample_layout_wf sample_layout_run, where x = 3])
    (simp_all add: sample_layout_def covers_def)

text \<open>
  C18. The recovery is exact and complete: it reports a dependency from one lease to another
  exactly where the first is the latest before it, in causal order, to hold some address of
  the second; and any two leases that share an address are linked by a chain of reported
  dependencies. The report comes sorted by successor, dependency and predecessor.
\<close>

theorem recover_layout_reuse_exact:
  assumes "wf_layout leases" and "recover_layout_reuse leases ops = Inr result"
  shows "links result = direct_links (causal_order leases)
    \<and> (\<forall>as a bs b cs x. causal_order leases = as @ a # bs @ b # cs \<and> covers a x \<and> covers b x \<longrightarrow>
         (pl_lease_id a, pl_lease_id b) \<in> (links result)\<^sup>+)
    \<and> sorted (map (\<lambda>item. (ru_successor_lease_id item, ru_dependency_id item,
                            ru_predecessor_lease_id item)) result)"
proof (intro conjI)
  show "links result = direct_links (causal_order leases)"
    using owner_tree.recover_all_ok(1) [OF assms(1)] assms(2) by (simp add: recover_layout_reuse_def)
  show "\<forall>as a bs b cs x. causal_order leases = as @ a # bs @ b # cs \<and> covers a x \<and> covers b x \<longrightarrow>
      (pl_lease_id a, pl_lease_id b) \<in> (links result)\<^sup>+"
    using accepted_chain [OF assms] by blast
  show "sorted (map (\<lambda>item. (ru_successor_lease_id item, ru_dependency_id item,
      ru_predecessor_lease_id item)) result)"
    using assms(2) by (auto simp: recover_layout_reuse_def recover_all_def Let_def)
qed

theorem recover_layout_reuse_exact_witness:
  "direct_links (causal_order sample_layout) = {(0, 1), (0, 2), (1, 3), (2, 3)}"
proof -
  have "links [sample_reuse 0 1, sample_reuse 0 2, sample_reuse 1 3, sample_reuse 2 3]
      = {(0, 1), (0, 2), (1, 3), (2, 3)}"
    by (auto simp: links_def sample_reuse_def)
  then show ?thesis
    using recover_layout_reuse_exact [OF sample_layout_wf sample_layout_run] by simp
qed

text \<open>
  C19. A layout refused for overlapping live leases does overlap: the refusal names two leases
  of it that share an address, the first still held, in causal order, when the second starts.
\<close>

theorem recover_layout_reuse_refusal:
  assumes "wf_layout leases"
    and "recover_layout_reuse leases ops = Inl (LayoutRefused 1 v w msg)"
  shows "\<exists>a \<in> set leases. \<exists>b \<in> set leases. pl_lease_id a = v \<and> pl_lease_id b = w
    \<and> (\<exists>x. covers a x \<and> covers b x) \<and> pl_causal_start b < pl_causal_end a"
  using owner_tree.recover_all_conflict [OF assms(1)] assms(2)
  by (simp add: recover_layout_reuse_def)

theorem recover_layout_reuse_refusal_witness:
  "\<exists>a \<in> {held 0 0 8 0 4 0, held 1 4 8 2 6 1}. \<exists>b \<in> {held 0 0 8 0 4 0, held 1 4 8 2 6 1}.
     pl_lease_id a = 0 \<and> pl_lease_id b = 1 \<and> (\<exists>x. covers a x \<and> covers b x)
     \<and> pl_causal_start b < pl_causal_end a"
proof -
  have run: "recover_layout_reuse [held 0 0 8 0 4 0, held 1 4 8 2 6 1] sample_operations
      = Inl (LayoutRefused 1 0 1
          [Lit ''fixed layout overlaps causally live leases: predecessor='', Num 0,
           Lit '', successor='', Num 1])"
    by code_simp
  have "wf_layout [held 0 0 8 0 4 0, held 1 4 8 2 6 1]" by (simp add: wf_layout_def)
  from recover_layout_reuse_refusal [OF this run] show ?thesis by simp
qed

end
