(* ===== verification/Validation.thy ===== *)
theory Validation
  imports Prelude Complex_Main
begin

text \<open>
  The validation primitives of the IR (\<^verbatim>\<open>src/shadowspill/ir/validation.py\<close>) over the values a
  parsed JSON document can hold. A \<open>ValidationError\<close> carries its path and message. Record
  fields are typed in the model, so the \<open>isinstance\<close> tests of a constructor are the types of
  its fields; those of the decoders are cases on the value. The locales \<open>str_enum\<close> and \<open>codec\<close>
  are the contracts of the enumerations and of the \<open>to_dict\<close>/\<open>from_value\<close> pairs.
\<close>

section \<open>Values\<close>

text \<open>
  A float is a rational or one of the three special values. A dictionary keeps its entries in
  order; its keys are values, as in Python.
\<close>

datatype pyfloat =
    Finite rat
  | PosInf
  | NegInf
  | NaN

datatype pyval =
    PNone
  | PBool bool
  | PInt int
  | PFloat pyfloat
  | PStr string
  | PList "pyval list"
  | PDict "(pyval \<times> pyval) list"

type_synonym path = fstring

text \<open>\<^verbatim>\<open>f"{path}.key"\<close> and \<^verbatim>\<open>f"{path}[{index}]"\<close>.\<close>

definition at_field :: "path \<Rightarrow> string \<Rightarrow> path" where
  "at_field path key = path @ [Lit (''.'' @ key)]"

definition at_index :: "path \<Rightarrow> nat \<Rightarrow> path" where
  "at_index path index = path @ [Lit ''['', Num (int index), Lit '']'']"


section \<open>Primitives\<close>

definition fail :: "path \<Rightarrow> fstring \<Rightarrow> py_error + 'a" where
  "fail path message = Inl (ValidationError path message)"

definition require :: "bool \<Rightarrow> path \<Rightarrow> fstring \<Rightarrow> py_error + unit" where
  "require condition path message = (if \<not> condition then fail path message else Inr ())"

text \<open>\<^verbatim>\<open>str.strip\<close> and \<^verbatim>\<open>str.isspace\<close> on the first 256 code points.\<close>

definition py_isspace :: "char \<Rightarrow> bool" where
  "py_isspace c = (of_char c \<in> set ([9..<14] @ [28..<33] @ [133, 160 :: nat]))"

definition py_strip :: "string \<Rightarrow> string" where
  "py_strip s = rev (dropWhile py_isspace (rev (dropWhile py_isspace s)))"

definition require_identifier :: "string \<Rightarrow> path \<Rightarrow> py_error + unit" where
  "require_identifier value path =
     bindE (require (value \<noteq> []) path [Lit ''must not be empty'']) (\<lambda>_.
       require (py_strip value = value) path [Lit ''must not have surrounding whitespace''])"

definition require_non_negative :: "int \<Rightarrow> path \<Rightarrow> py_error + unit" where
  "require_non_negative value path = require (value \<ge> 0) path [Lit ''must be non-negative'']"

definition require_positive :: "int \<Rightarrow> path \<Rightarrow> py_error + unit" where
  "require_positive value path =
     bindE (require_non_negative value path) (\<lambda>_.
       require (value > 0) path [Lit ''must be positive''])"

definition index_one :: "path \<Rightarrow> (string \<rightharpoonup> nat) \<Rightarrow> nat \<times> string \<Rightarrow> py_error + (string \<rightharpoonup> nat)" where
  "index_one path result iv =
     (case iv of (index, value) \<Rightarrow>
        bindE (require_identifier value (at_index path index)) (\<lambda>_.
          case result value of
            Some first \<Rightarrow>
              fail (at_index path index)
                [Lit ''duplicates '', Repr value, Lit '' first seen at index '', Num (int first)]
          | None \<Rightarrow> Inr (result(value \<mapsto> index))))"

definition index_unique :: "string list \<Rightarrow> path \<Rightarrow> py_error + (string \<rightharpoonup> nat)" where
  "index_unique values path = foldE (index_one path) Map.empty (enumerate 0 values)"

text \<open>A mapping with string keys, read by key.\<close>

fun str_keys :: "(pyval \<times> pyval) list \<Rightarrow> (string \<times> pyval) list option" where
  "str_keys [] = Some []"
| "str_keys ((PStr k, v) # kvs) = map_option (\<lambda>rest. (k, v) # rest) (str_keys kvs)"
| "str_keys (_ # kvs) = None"

definition expect_mapping :: "pyval \<Rightarrow> path \<Rightarrow> py_error + (string \<times> pyval) list" where
  "expect_mapping value path =
     (case value of
        PDict kvs \<Rightarrow>
          (case str_keys kvs of
             Some data \<Rightarrow> Inr data
           | None \<Rightarrow> fail path [Lit ''must have string keys''])
      | _ \<Rightarrow> fail path [Lit ''must be an object''])"

definition field :: "(string \<times> pyval) list \<Rightarrow> string \<Rightarrow> path \<Rightarrow> py_error + pyval" where
  "field mapping key path =
     (case map_of mapping key of
        None \<Rightarrow> fail (at_field path key) [Lit ''is required'']
      | Some v \<Rightarrow> Inr v)"

definition expect_string :: "pyval \<Rightarrow> path \<Rightarrow> py_error + string" where
  "expect_string value path =
     (case value of PStr s \<Rightarrow> Inr s | _ \<Rightarrow> fail path [Lit ''must be a string''])"

definition expect_integer :: "pyval \<Rightarrow> path \<Rightarrow> py_error + int" where
  "expect_integer value path =
     (case value of PInt i \<Rightarrow> Inr i | _ \<Rightarrow> fail path [Lit ''must be an integer''])"

definition expect_boolean :: "pyval \<Rightarrow> path \<Rightarrow> py_error + bool" where
  "expect_boolean value path =
     (case value of PBool b \<Rightarrow> Inr b | _ \<Rightarrow> fail path [Lit ''must be a boolean''])"

definition expect_list :: "pyval \<Rightarrow> path \<Rightarrow> py_error + pyval list" where
  "expect_list value path =
     (case value of PList xs \<Rightarrow> Inr xs | _ \<Rightarrow> fail path [Lit ''must be an array''])"

text \<open>
  The idioms every decoder is written in: a required field of one type, a field or a default
  (\<^verbatim>\<open>data.get\<close>), and a list decoded element by element under the element's path.
\<close>

definition string_field :: "(string \<times> pyval) list \<Rightarrow> string \<Rightarrow> path \<Rightarrow> py_error + string" where
  "string_field data key path = bindE (field data key path) (\<lambda>v. expect_string v (at_field path key))"

definition integer_field :: "(string \<times> pyval) list \<Rightarrow> string \<Rightarrow> path \<Rightarrow> py_error + int" where
  "integer_field data key path = bindE (field data key path) (\<lambda>v. expect_integer v (at_field path key))"

definition boolean_field :: "(string \<times> pyval) list \<Rightarrow> string \<Rightarrow> path \<Rightarrow> py_error + bool" where
  "boolean_field data key path = bindE (field data key path) (\<lambda>v. expect_boolean v (at_field path key))"

definition list_field :: "(string \<times> pyval) list \<Rightarrow> string \<Rightarrow> path \<Rightarrow> py_error + pyval list" where
  "list_field data key path = bindE (field data key path) (\<lambda>v. expect_list v (at_field path key))"

definition data_get :: "(string \<times> pyval) list \<Rightarrow> string \<Rightarrow> pyval \<Rightarrow> pyval" where
  "data_get data key fallback = (case map_of data key of None \<Rightarrow> fallback | Some v \<Rightarrow> v)"

definition decode_list :: "(pyval \<Rightarrow> path \<Rightarrow> py_error + 'a) \<Rightarrow> pyval list \<Rightarrow> path \<Rightarrow> py_error + 'a list" where
  "decode_list decode items path =
     mapE (\<lambda>(index, item). decode item (at_index path index)) (enumerate 0 items)"

definition string_list :: "string list \<Rightarrow> pyval" where
  "string_list values = PList (map PStr values)"

text \<open>A \<^verbatim>\<open>dict\<close> literal with string keys, and a constructor call running \<^verbatim>\<open>__post_init__\<close>.\<close>

definition dict_lit :: "(string \<times> pyval) list \<Rightarrow> pyval" where
  "dict_lit kvs = PDict (map (\<lambda>(k, v). (PStr k, v)) kvs)"

definition construct :: "('a \<Rightarrow> py_error + unit) \<Rightarrow> 'a \<Rightarrow> py_error + 'a" where
  "construct post_init x = bindE (post_init x) (\<lambda>_. Inr x)"


section \<open>Their laws\<close>

lemma require_simps [simp, py_simps]:
  "require True path message = Inr ()"
  "require False path message = fail path message"
  by (simp_all add: require_def)

lemma require_Inr_iff [simp]: "require c path message = Inr u \<longleftrightarrow> c"
  by (simp add: require_def fail_def)

lemma checkE_require [simp]:
  "checkE (\<lambda>x. require (c x) (p x) (m x)) xs = Inr u \<longleftrightarrow> (\<forall>x \<in> set xs. c x)"
  by (simp add: checkE_Inr_iff)

lemma fail_not_Inr [simp]: "fail path message \<noteq> Inr x"
  by (simp add: fail_def)

lemma construct_Inr_iff: "construct post_init x = Inr y \<longleftrightarrow> post_init x = Inr () \<and> y = x"
  by (auto simp: construct_def bindE_Inr_iff)

definition is_identifier :: "string \<Rightarrow> bool" where
  "is_identifier value \<longleftrightarrow> value \<noteq> [] \<and> py_strip value = value"

lemma require_identifier_Inr_iff [simp]:
  "require_identifier value path = Inr u \<longleftrightarrow> is_identifier value"
  by (auto simp: require_identifier_def is_identifier_def bindE_Inr_iff)

lemma require_non_negative_Inr_iff [simp]: "require_non_negative v path = Inr u \<longleftrightarrow> 0 \<le> v"
  by (simp add: require_non_negative_def)

lemma require_positive_Inr_iff [simp]: "require_positive v path = Inr u \<longleftrightarrow> 0 < v"
  by (auto simp: require_positive_def bindE_Inr_iff)

lemma str_keys_lit [simp]: "str_keys (map (\<lambda>(k, v). (PStr k, v)) kvs) = Some kvs"
  by (induction kvs) auto

lemma expect_mapping_lit [simp, py_simps]: "expect_mapping (dict_lit kvs) path = Inr kvs"
  by (simp add: expect_mapping_def dict_lit_def)

lemma expect_simps [simp, py_simps]:
  "expect_string (PStr s) path = Inr s"
  "expect_integer (PInt i) path = Inr i"
  "expect_boolean (PBool b) path = Inr b"
  "expect_list (PList xs) path = Inr xs"
  by (simp_all add: expect_string_def expect_integer_def expect_boolean_def expect_list_def)

lemma expect_string_Inr_iff: "expect_string v path = Inr s \<longleftrightarrow> v = PStr s"
  by (cases v) (auto simp: expect_string_def)

lemma expect_list_Inr_iff: "expect_list v path = Inr xs \<longleftrightarrow> v = PList xs"
  by (cases v) (auto simp: expect_list_def)

lemma field_simps [simp, py_simps]:
  "map_of data key = Some v \<Longrightarrow> field data key path = Inr v"
  by (simp add: field_def)

lemma data_get_simps [simp, py_simps]:
  "map_of data key = Some v \<Longrightarrow> data_get data key d = v"
  "map_of data key = None \<Longrightarrow> data_get data key d = d"
  by (simp_all add: data_get_def)

lemmas field_defs = string_field_def integer_field_def boolean_field_def list_field_def

lemma decode_list_map:
  "(\<And>x p. x \<in> set xs \<Longrightarrow> decode (encode x) p = Inr x) \<Longrightarrow>
    decode_list decode (map encode xs) path = Inr xs"
proof -
  assume ok: "\<And>x p. x \<in> set xs \<Longrightarrow> decode (encode x) p = Inr x"
  have "decode_list decode (map encode xs) path
      = Inr (map (\<lambda>iv. xs ! fst iv) (enumerate 0 (map encode xs)))"
    unfolding decode_list_def
    by (rule mapE_Inr_all) (auto simp: in_set_enumerate_eq ok)
  also have "map (\<lambda>iv. xs ! fst iv) (enumerate 0 (map encode xs)) = xs"
    by (rule nth_equalityI) (auto simp: nth_enumerate_eq)
  finally show ?thesis .
qed

lemma decode_list_strings [simp]: "decode_list expect_string (map PStr xs) path = Inr xs"
  by (rule decode_list_map) simp

lemma decode_list_all:
  assumes "decode_list decode items path = Inr xs"
    and "\<And>v p x. decode v p = Inr x \<Longrightarrow> P x"
  shows "\<forall>x \<in> set xs. P x"
proof
  fix x
  assume "x \<in> set xs"
  then obtain i where i: "i < length xs" "x = xs ! i" by (auto simp: in_set_conv_nth)
  have len: "length xs = length items"
    using assms(1) by (auto simp: decode_list_def dest!: mapE_length)
  have "(\<lambda>(index, item). decode item (at_index path index)) (enumerate 0 items ! i) = Inr (xs ! i)"
    using i(1) len by (intro mapE_nth [OF assms(1) [unfolded decode_list_def]]) simp
  then show "P x" using assms(2) i len by (auto simp: nth_enumerate_eq)
qed

text \<open>Indexing succeeds exactly on distinct identifiers, and then gives their positions.\<close>

definition positions_of :: "string list \<Rightarrow> (string \<rightharpoonup> nat)" where
  "positions_of values v = (if v \<in> set values then Some (rank_of values v) else None)"

lemma positions_of_snoc:
  "v \<notin> set values \<Longrightarrow> positions_of (values @ [v]) = (positions_of values)(v \<mapsto> length values)"
  by (rule ext) (auto simp: positions_of_def rank_of_def takeWhile_append)

lemma index_unique_run:
  "(index_unique vs path = Inr m) \<longleftrightarrow>
    (distinct vs \<and> (\<forall>v \<in> set vs. is_identifier v) \<and> m = positions_of vs)"
proof (induction vs arbitrary: m rule: rev_induct)
  case Nil
  then show ?case by (auto simp: index_unique_def positions_of_def)
next
  case (snoc v vs)
  have enum: "enumerate 0 (vs @ [v]) = enumerate 0 vs @ [(length vs, v)]"
    by (simp add: enumerate_append_eq)
  have "index_unique (vs @ [v]) path
      = bindE (index_unique vs path) (\<lambda>r. index_one path r (length vs, v))"
    unfolding index_unique_def enum by (simp add: foldE_append)
  also have "\<dots> = Inr m \<longleftrightarrow> (\<exists>r. index_unique vs path = Inr r
      \<and> is_identifier v \<and> r v = None \<and> m = r(v \<mapsto> length vs))"
    by (auto simp: bindE_Inr_iff index_one_def split: option.splits)
  also have "\<dots> \<longleftrightarrow> distinct (vs @ [v]) \<and> (\<forall>v \<in> set (vs @ [v]). is_identifier v)
      \<and> m = positions_of (vs @ [v])"
    using snoc.IH positions_of_snoc [of v vs]
    by (auto simp: positions_of_def [of vs v] split: if_splits)
  finally show ?case .
qed


section \<open>The contracts\<close>

text \<open>An enumeration with string values: every value names its member and no other.\<close>

locale str_enum =
  fixes name_of :: "'k \<Rightarrow> string" and of_name :: "string \<Rightarrow> 'k option"
  assumes of_name_of [simp]: "of_name (name_of k) = Some k"
    and name_of_name: "of_name s = Some k \<Longrightarrow> name_of k = s"
begin

lemma name_of_inject [simp]: "name_of a = name_of b \<longleftrightarrow> a = b"
  using of_name_of by (metis option.inject)

end

text \<open>
  A record with a decoder for its encoding: a decoded value is always valid, and decoding the
  encoding of a valid value gives it back under any path.
\<close>

locale codec =
  fixes encode :: "'a \<Rightarrow> pyval" and decode :: "pyval \<Rightarrow> path \<Rightarrow> py_error + 'a" and valid :: "'a \<Rightarrow> bool"
  assumes decode_encode: "valid x \<Longrightarrow> decode (encode x) path = Inr x"
    and decode_valid: "decode v path = Inr x \<Longrightarrow> valid x"
begin

lemma encode_inject: "valid x \<Longrightarrow> valid y \<Longrightarrow> encode x = encode y \<Longrightarrow> x = y"
  using decode_encode by (metis sum.inject(2))

lemma decode_list_encode: "\<forall>x \<in> set xs. valid x \<Longrightarrow> decode_list decode (map encode xs) path = Inr xs"
  by (rule decode_list_map) (simp add: decode_encode)

lemma decode_list_valid: "decode_list decode items path = Inr xs \<Longrightarrow> \<forall>x \<in> set xs. valid x"
  by (erule decode_list_all) (rule decode_valid)

end

end
