(* ===== verification/Program_Timing.thy ===== *)
theory Program_Timing
  imports Validation
begin

text \<open>
  The timing and transfer records of a program (\<^verbatim>\<open>src/shadowspill/ir/program/timing.py\<close> and
  \<^verbatim>\<open>transfers.py\<close>), each with its \<open>__post_init__\<close> check, its \<open>to_dict\<close> and its \<open>from_value\<close>.
\<close>

section \<open>Task timing\<close>

record task_resource_phase =
  rp_duration_ns :: int
  rp_resource :: "string option"

definition task_resource_phase_post_init :: "task_resource_phase \<Rightarrow> py_error + unit" where
  "task_resource_phase_post_init self =
     bindE (require_non_negative (rp_duration_ns self) [Lit ''task_phase.duration_ns'']) (\<lambda>_.
       case rp_resource self of
         None \<Rightarrow> Inr ()
       | Some resource \<Rightarrow> require_identifier resource [Lit ''task_phase.resource''])"

text \<open>An optional string as JSON has it.\<close>

definition opt_string :: "string option \<Rightarrow> pyval" where
  "opt_string s = (case s of None \<Rightarrow> PNone | Some x \<Rightarrow> PStr x)"

definition expect_opt_string :: "pyval \<Rightarrow> path \<Rightarrow> py_error + string option" where
  "expect_opt_string value path =
     (if value = PNone then Inr None else bindE (expect_string value path) (\<lambda>s. Inr (Some s)))"

definition task_resource_phase_to_dict :: "task_resource_phase \<Rightarrow> pyval" where
  "task_resource_phase_to_dict self =
     dict_lit [(''duration_ns'', PInt (rp_duration_ns self)),
               (''resource'', opt_string (rp_resource self))]"

definition task_resource_phase_from_value :: "pyval \<Rightarrow> path \<Rightarrow> py_error + task_resource_phase" where
  "task_resource_phase_from_value value path =
     bindE (expect_mapping value path) (\<lambda>data.
     bindE (field data ''resource'' path) (\<lambda>resource.
     bindE (integer_field data ''duration_ns'' path) (\<lambda>duration_ns.
     bindE (expect_opt_string resource (at_field path ''resource'')) (\<lambda>resource.
       construct task_resource_phase_post_init
         \<lparr>rp_duration_ns = duration_ns, rp_resource = resource\<rparr>))))"

text \<open>
  \<^verbatim>\<open>float(value)\<close> of an integer: rounded to 53 significant bits, ties to even, and an
  \<^verbatim>\<open>OverflowError\<close> from \<open>2 ^ 1024\<close> on.
\<close>

fun bit_length :: "nat \<Rightarrow> nat" where
  "bit_length n = (if n = 0 then 0 else Suc (bit_length (n div 2)))"

definition float_of_int :: "int \<Rightarrow> py_error + pyfloat" where
  "float_of_int i =
     (let m = nat \<bar>i\<bar>; e = bit_length m - 53; q = m div 2 ^ e; r = 2 * (m mod 2 ^ e);
          q' = (if r > 2 ^ e \<or> r = 2 ^ e \<and> odd q then q + 1 else q)
      in if q' * 2 ^ e \<ge> 2 ^ 1024 then Inl OverflowError
         else Inr (Finite (rat_of_int (sgn i * int (q' * 2 ^ e)))))"

record task_overlap_cost =
  oc_timing_class :: string
  oc_bytes :: int
  oc_task_rate :: pyfloat
  oc_transfer_rate :: pyfloat

definition is_rate :: "pyfloat \<Rightarrow> bool" where
  "is_rate value = (case value of Finite q \<Rightarrow> 0 < q \<and> q \<le> 1 | _ \<Rightarrow> False)"

definition task_overlap_cost_post_init :: "task_overlap_cost \<Rightarrow> py_error + unit" where
  "task_overlap_cost_post_init self =
     bindE (require_identifier (oc_timing_class self) [Lit ''overlap.timing_class'']) (\<lambda>_.
     bindE (require_non_negative (oc_bytes self) [Lit ''overlap.bytes'']) (\<lambda>_.
     bindE (require (is_rate (oc_task_rate self)) [Lit ''overlap.task_rate'']
       [Lit ''expected a finite progress rate in (0, 1]'']) (\<lambda>_.
     require (is_rate (oc_transfer_rate self)) [Lit ''overlap.transfer_rate'']
       [Lit ''expected a finite progress rate in (0, 1]''])))"

definition task_overlap_cost_to_dict :: "task_overlap_cost \<Rightarrow> pyval" where
  "task_overlap_cost_to_dict self =
     dict_lit [(''timing_class'', PStr (oc_timing_class self)),
               (''bytes'', PInt (oc_bytes self)),
               (''task_rate'', PFloat (oc_task_rate self)),
               (''transfer_rate'', PFloat (oc_transfer_rate self))]"

definition rate_field :: "(string \<times> pyval) list \<Rightarrow> string \<Rightarrow> path \<Rightarrow> py_error + pyfloat" where
  "rate_field data name path =
     bindE (field data name path) (\<lambda>value.
       case value of
         PInt i \<Rightarrow> float_of_int i
       | PFloat f \<Rightarrow> Inr f
       | _ \<Rightarrow> fail (at_field path name) [Lit ''expected a number''])"

definition task_overlap_cost_from_value :: "pyval \<Rightarrow> path \<Rightarrow> py_error + task_overlap_cost" where
  "task_overlap_cost_from_value value path =
     bindE (expect_mapping value path) (\<lambda>data.
     bindE (rate_field data ''task_rate'' path) (\<lambda>task_rate.
     bindE (rate_field data ''transfer_rate'' path) (\<lambda>transfer_rate.
     bindE (string_field data ''timing_class'' path) (\<lambda>timing_class.
     bindE (integer_field data ''bytes'' path) (\<lambda>bytes.
       construct task_overlap_cost_post_init
         \<lparr>oc_timing_class = timing_class, oc_bytes = bytes, oc_task_rate = task_rate,
          oc_transfer_rate = transfer_rate\<rparr>)))))"

definition validate_task_timing ::
    "int \<Rightarrow> task_resource_phase list \<Rightarrow> task_overlap_cost list \<Rightarrow> py_error + unit" where
  "validate_task_timing runtime_ns resource_phases overlap_costs =
     bindE (require (resource_phases = [] \<or> sum_list (map rp_duration_ns resource_phases) = runtime_ns)
       [Lit ''profile.resource_phases''] [Lit ''phase durations must sum to runtime_ns'']) (\<lambda>_.
     let keys = map (\<lambda>item. (oc_timing_class item, oc_bytes item)) overlap_costs
     in require (length keys = length (remdups keys))
       [Lit ''profile.overlap_costs''] [Lit ''duplicate timing class and message size''])"


section \<open>Transfers\<close>

record transfer_phase =
  tp_kind :: string
  tp_bytes :: int
  tp_duration_ns :: int
  tp_resource :: "string option"
  tp_submission_ordered :: bool
  tp_timing_class :: "string option"

definition transfer_phase_post_init :: "transfer_phase \<Rightarrow> py_error + unit" where
  "transfer_phase_post_init self =
     bindE
       (case tp_timing_class self of
          None \<Rightarrow> Inr ()
        | Some timing_class \<Rightarrow>
            bindE (require_identifier timing_class [Lit ''transfer.timing_class'']) (\<lambda>_.
              require (tp_kind self = ''timed'') [Lit ''transfer.timing_class'']
                [Lit ''requires timed work''])) (\<lambda>_.
     bindE (require (tp_kind self \<in> {''copy'', ''timed''}) [Lit ''transfer.kind'']
       [Lit ''unknown phase'']) (\<lambda>_.
     bindE (require_non_negative (tp_bytes self) [Lit ''transfer.bytes'']) (\<lambda>_.
     bindE (require_non_negative (tp_duration_ns self) [Lit ''transfer.duration_ns'']) (\<lambda>_.
       if tp_kind self = ''copy'' then
         bindE (require (tp_resource self = None) [Lit ''transfer.resource'']
           [Lit ''copy uses its lane'']) (\<lambda>_.
         bindE (require (tp_duration_ns self = 0) [Lit ''transfer.duration_ns'']
           [Lit ''copy uses rates'']) (\<lambda>_.
         require (\<not> tp_submission_ordered self) [Lit ''transfer.submission_ordered'']
           [Lit ''only timed phases are ordered'']))
       else
         (case tp_resource self of
            None \<Rightarrow> fail [Lit ''transfer.resource''] [Lit ''resource is required'']
          | Some resource \<Rightarrow> require_identifier resource [Lit ''transfer.resource''])))))"

definition transfer_phase_to_dict :: "transfer_phase \<Rightarrow> pyval" where
  "transfer_phase_to_dict self =
     dict_lit [(''kind'', PStr (tp_kind self)),
               (''bytes'', PInt (tp_bytes self)),
               (''duration_ns'', PInt (tp_duration_ns self)),
               (''resource'', opt_string (tp_resource self)),
               (''submission_ordered'', PBool (tp_submission_ordered self)),
               (''timing_class'', opt_string (tp_timing_class self))]"

definition transfer_phase_from_value :: "pyval \<Rightarrow> path \<Rightarrow> py_error + transfer_phase" where
  "transfer_phase_from_value value path =
     bindE (expect_mapping value path) (\<lambda>data.
     bindE (field data ''resource'' path) (\<lambda>resource.
     bindE (string_field data ''kind'' path) (\<lambda>kind.
     bindE (integer_field data ''bytes'' path) (\<lambda>bytes.
     bindE (integer_field data ''duration_ns'' path) (\<lambda>duration_ns.
     bindE (expect_opt_string resource (at_field path ''resource'')) (\<lambda>resource.
     bindE (expect_boolean (data_get data ''submission_ordered'' (PBool False))
       (at_field path ''submission_ordered'')) (\<lambda>submission_ordered.
     bindE (expect_opt_string (data_get data ''timing_class'' PNone)
       (at_field path ''timing_class'')) (\<lambda>timing_class.
       construct transfer_phase_post_init
         \<lparr>tp_kind = kind, tp_bytes = bytes, tp_duration_ns = duration_ns, tp_resource = resource,
          tp_submission_ordered = submission_ordered, tp_timing_class = timing_class\<rparr>))))))))"

record transfer_spec =
  ts_spill_size_bytes :: int
  ts_fetch :: "transfer_phase list"
  ts_evict :: "transfer_phase list"

definition check_recipe :: "string \<Rightarrow> transfer_phase list \<Rightarrow> py_error + unit" where
  "check_recipe name phases =
     bindE (require (phases \<noteq> []) [Lit (''transfer.'' @ name)] [Lit ''recipe must not be empty'']) (\<lambda>_.
       require (length (filter tp_submission_ordered phases) \<le> 1) [Lit (''transfer.'' @ name)]
         [Lit ''one ordered collective phase per transfer''])"

definition transfer_spec_post_init :: "transfer_spec \<Rightarrow> py_error + unit" where
  "transfer_spec_post_init self =
     bindE (require_non_negative (ts_spill_size_bytes self) [Lit ''transfer.spill_size_bytes'']) (\<lambda>_.
     bindE (check_recipe ''fetch'' (ts_fetch self)) (\<lambda>_.
     check_recipe ''evict'' (ts_evict self)))"

definition transfer_spec_to_dict :: "transfer_spec \<Rightarrow> pyval" where
  "transfer_spec_to_dict self =
     dict_lit [(''spill_size_bytes'', PInt (ts_spill_size_bytes self)),
               (''fetch'', PList (map transfer_phase_to_dict (ts_fetch self))),
               (''evict'', PList (map transfer_phase_to_dict (ts_evict self)))]"

definition phases_field :: "(string \<times> pyval) list \<Rightarrow> string \<Rightarrow> path \<Rightarrow> py_error + transfer_phase list" where
  "phases_field data name path =
     bindE (list_field data name path) (\<lambda>items.
       decode_list transfer_phase_from_value items (at_field path name))"

definition transfer_spec_from_value :: "pyval \<Rightarrow> path \<Rightarrow> py_error + transfer_spec" where
  "transfer_spec_from_value value path =
     bindE (expect_mapping value path) (\<lambda>data.
     bindE (integer_field data ''spill_size_bytes'' path) (\<lambda>spill_size_bytes.
     bindE (phases_field data ''fetch'' path) (\<lambda>fetch.
     bindE (phases_field data ''evict'' path) (\<lambda>evict.
       construct transfer_spec_post_init
         \<lparr>ts_spill_size_bytes = spill_size_bytes, ts_fetch = fetch, ts_evict = evict\<rparr>))))"


section \<open>Validity and round trips\<close>

text \<open>
  A valid record is one its constructor accepts with valid parts, so the only records there
  are. Each decoder gives back what its encoder wrote, and gives nothing but valid records.
\<close>

lemma expect_opt_string_opt [simp, py_simps]: "expect_opt_string (opt_string s) path = Inr s"
  by (auto simp: expect_opt_string_def opt_string_def split: option.split)

definition valid_resource_phase :: "task_resource_phase \<Rightarrow> bool" where
  "valid_resource_phase p \<longleftrightarrow> task_resource_phase_post_init p = Inr ()"

definition valid_overlap_cost :: "task_overlap_cost \<Rightarrow> bool" where
  "valid_overlap_cost c \<longleftrightarrow> task_overlap_cost_post_init c = Inr ()"

definition valid_transfer_phase :: "transfer_phase \<Rightarrow> bool" where
  "valid_transfer_phase p \<longleftrightarrow> transfer_phase_post_init p = Inr ()"

definition valid_transfer_spec :: "transfer_spec \<Rightarrow> bool" where
  "valid_transfer_spec t \<longleftrightarrow> transfer_spec_post_init t = Inr ()
     \<and> (\<forall>p \<in> set (ts_fetch t). valid_transfer_phase p)
     \<and> (\<forall>p \<in> set (ts_evict t). valid_transfer_phase p)"

lemmas decode_simps = field_defs construct_def rate_field_def phases_field_def

text \<open>A record is rebuilt from its fields.\<close>

lemma timing_eta [simp]:
  "\<lparr>rp_duration_ns = rp_duration_ns a, rp_resource = rp_resource a\<rparr> = a"
  "\<lparr>oc_timing_class = oc_timing_class b, oc_bytes = oc_bytes b,
     oc_task_rate = oc_task_rate b, oc_transfer_rate = oc_transfer_rate b\<rparr> = b"
  "\<lparr>tp_kind = tp_kind c, tp_bytes = tp_bytes c, tp_duration_ns = tp_duration_ns c,
     tp_resource = tp_resource c, tp_submission_ordered = tp_submission_ordered c,
     tp_timing_class = tp_timing_class c\<rparr> = c"
  "\<lparr>ts_spill_size_bytes = ts_spill_size_bytes d, ts_fetch = ts_fetch d,
     ts_evict = ts_evict d\<rparr> = d"
  by simp_all

interpretation resource_phase: codec task_resource_phase_to_dict task_resource_phase_from_value
    valid_resource_phase
  by unfold_locales
    (auto simp: task_resource_phase_to_dict_def task_resource_phase_from_value_def
      valid_resource_phase_def decode_simps construct_Inr_iff)

interpretation overlap_cost: codec task_overlap_cost_to_dict task_overlap_cost_from_value
    valid_overlap_cost
  by unfold_locales
    (auto simp: task_overlap_cost_to_dict_def task_overlap_cost_from_value_def
      valid_overlap_cost_def decode_simps construct_Inr_iff)

interpretation transfer_phase: codec transfer_phase_to_dict transfer_phase_from_value
    valid_transfer_phase
  by unfold_locales
    (auto simp: transfer_phase_to_dict_def transfer_phase_from_value_def
      valid_transfer_phase_def decode_simps construct_Inr_iff)

interpretation transfer_spec: codec transfer_spec_to_dict transfer_spec_from_value
    valid_transfer_spec
proof unfold_locales
  fix t path
  assume "valid_transfer_spec t"
  then show "transfer_spec_from_value (transfer_spec_to_dict t) path = Inr t"
    by (simp add: transfer_spec_to_dict_def transfer_spec_from_value_def valid_transfer_spec_def
        decode_simps transfer_phase.decode_list_encode)
next
  fix v path t
  assume "transfer_spec_from_value v path = Inr t"
  then show "valid_transfer_spec t"
    by (auto simp: transfer_spec_from_value_def valid_transfer_spec_def construct_Inr_iff
        phases_field_def dest: transfer_phase.decode_list_valid)
qed

end
