(* ===== verification/Program_Specs.thy ===== *)
theory Program_Specs
  imports Program_Timing
begin

text \<open>
  What a program is made of: its vocabularies (\<^verbatim>\<open>src/shadowspill/ir/program/enums.py\<close>), devices,
  resources, alias groups, objects, profiles and tasks (\<^verbatim>\<open>specs.py\<close>) and the choices it offers
  (\<^verbatim>\<open>alternatives.py\<close>). Every record has its \<open>__post_init__\<close> check, \<open>to_dict\<close> and \<open>from_value\<close>,
  with the fields checked and decoded in the order of the source, and is an interpretation of
  \<open>codec\<close>; every vocabulary is one of \<open>str_enum\<close>.
\<close>

section \<open>Vocabularies\<close>

datatype object_role = INPUT | PARAMETER | BUFFER | ACTIVATION | GRADIENT | OPTIMIZER_STATE
  | OUTPUT | OTHER | CONTROL_OBJECT

fun object_role_value :: "object_role \<Rightarrow> string" where
  "object_role_value INPUT = ''input''"
| "object_role_value PARAMETER = ''parameter''"
| "object_role_value BUFFER = ''buffer''"
| "object_role_value ACTIVATION = ''activation''"
| "object_role_value GRADIENT = ''gradient''"
| "object_role_value OPTIMIZER_STATE = ''optimizer_state''"
| "object_role_value OUTPUT = ''output''"
| "object_role_value OTHER = ''other''"
| "object_role_value CONTROL_OBJECT = ''control''"

datatype persistence = STEP | RUN | CHECKPOINT

fun persistence_value :: "persistence \<Rightarrow> string" where
  "persistence_value STEP = ''step''"
| "persistence_value RUN = ''run''"
| "persistence_value CHECKPOINT = ''checkpoint''"

datatype shared_residency_policy = SHARED_READ_ONLY | SHARED_WRITABLE_CAUSAL
  | SHARED_WRITABLE_UNORDERED

fun shared_residency_policy_value :: "shared_residency_policy \<Rightarrow> string" where
  "shared_residency_policy_value SHARED_READ_ONLY = ''shared_read_only''"
| "shared_residency_policy_value SHARED_WRITABLE_CAUSAL = ''shared_writable_causal''"
| "shared_residency_policy_value SHARED_WRITABLE_UNORDERED = ''shared_writable_unordered''"

datatype resource_kind = COMPUTE | COMMUNICATION | CONTROL

fun resource_kind_value :: "resource_kind \<Rightarrow> string" where
  "resource_kind_value COMPUTE = ''compute''"
| "resource_kind_value COMMUNICATION = ''communication''"
| "resource_kind_value CONTROL = ''control''"

text \<open>The member a \<^verbatim>\<open>StrEnum\<close> call finds, first match of the members in order.\<close>

definition member_of :: "('k \<Rightarrow> string) \<Rightarrow> 'k list \<Rightarrow> string \<Rightarrow> 'k option" where
  "member_of value_of members name = find (\<lambda>k. value_of k = name) members"

definition object_role_of :: "string \<Rightarrow> object_role option" where
  "object_role_of = member_of object_role_value
     [INPUT, PARAMETER, BUFFER, ACTIVATION, GRADIENT, OPTIMIZER_STATE, OUTPUT, OTHER, CONTROL_OBJECT]"

definition persistence_of :: "string \<Rightarrow> persistence option" where
  "persistence_of = member_of persistence_value [STEP, RUN, CHECKPOINT]"

definition shared_residency_policy_of :: "string \<Rightarrow> shared_residency_policy option" where
  "shared_residency_policy_of = member_of shared_residency_policy_value
     [SHARED_READ_ONLY, SHARED_WRITABLE_CAUSAL, SHARED_WRITABLE_UNORDERED]"

definition resource_kind_of :: "string \<Rightarrow> resource_kind option" where
  "resource_kind_of = member_of resource_kind_value [COMPUTE, COMMUNICATION, CONTROL]"

lemma member_of_SomeD: "member_of value_of members name = Some k \<Longrightarrow> value_of k = name"
  by (auto simp: member_of_def find_Some_iff)

interpretation object_role: str_enum object_role_value object_role_of
proof unfold_locales
  show "object_role_of (object_role_value k) = Some k" for k
    by (cases k) (simp_all add: object_role_of_def member_of_def)
qed (auto simp: object_role_of_def dest: member_of_SomeD)

interpretation persistence: str_enum persistence_value persistence_of
proof unfold_locales
  show "persistence_of (persistence_value k) = Some k" for k
    by (cases k) (simp_all add: persistence_of_def member_of_def)
qed (auto simp: persistence_of_def dest: member_of_SomeD)

interpretation shared_policy: str_enum shared_residency_policy_value shared_residency_policy_of
proof unfold_locales
  show "shared_residency_policy_of (shared_residency_policy_value k) = Some k" for k
    by (cases k) (simp_all add: shared_residency_policy_of_def member_of_def)
qed (auto simp: shared_residency_policy_of_def dest: member_of_SomeD)

interpretation resource_kind: str_enum resource_kind_value resource_kind_of
proof unfold_locales
  show "resource_kind_of (resource_kind_value k) = Some k" for k
    by (cases k) (simp_all add: resource_kind_of_def member_of_def)
qed (auto simp: resource_kind_of_def dest: member_of_SomeD)

text \<open>A member by name, or the refusal of the decoder that catches the \<^verbatim>\<open>ValueError\<close>.\<close>

definition enum_member :: "(string \<Rightarrow> 'k option) \<Rightarrow> string \<Rightarrow> path \<Rightarrow> string \<Rightarrow> py_error + 'k" where
  "enum_member of_name name path what =
     (case of_name name of
        Some k \<Rightarrow> Inr k
      | None \<Rightarrow> fail path [Lit (''unknown '' @ what @ '' ''), Repr name])"

lemma enum_member_Some [simp]: "of_name name = Some k \<Longrightarrow> enum_member of_name name path what = Inr k"
  by (simp add: enum_member_def)


section \<open>Devices, resources, alias groups and objects\<close>

record device_spec =
  dv_device_id :: string
  dv_process_id :: string
  dv_kind :: string
  dv_index :: int

definition device_spec_post_init :: "device_spec \<Rightarrow> py_error + unit" where
  "device_spec_post_init self =
     bindE (require_identifier (dv_device_id self) [Lit ''device.device_id'']) (\<lambda>_.
     bindE (require_identifier (dv_process_id self) [Lit ''device.process_id'']) (\<lambda>_.
     bindE (require_identifier (dv_kind self) [Lit ''device.kind'']) (\<lambda>_.
     require_non_negative (dv_index self) [Lit ''device.index''])))"

definition device_spec_to_dict :: "device_spec \<Rightarrow> pyval" where
  "device_spec_to_dict self =
     dict_lit [(''device_id'', PStr (dv_device_id self)),
               (''index'', PInt (dv_index self)),
               (''kind'', PStr (dv_kind self)),
               (''process_id'', PStr (dv_process_id self))]"

definition device_spec_from_value :: "pyval \<Rightarrow> path \<Rightarrow> py_error + device_spec" where
  "device_spec_from_value value path =
     bindE (expect_mapping value path) (\<lambda>data.
     bindE (string_field data ''device_id'' path) (\<lambda>device_id.
     bindE (string_field data ''process_id'' path) (\<lambda>process_id.
     bindE (string_field data ''kind'' path) (\<lambda>kind.
     bindE (integer_field data ''index'' path) (\<lambda>index.
       construct device_spec_post_init
         \<lparr>dv_device_id = device_id, dv_process_id = process_id, dv_kind = kind,
          dv_index = index\<rparr>)))))"

record resource_spec =
  rs_device_id :: string
  rs_kind :: resource_kind
  rs_lane :: int

definition resource_spec_post_init :: "resource_spec \<Rightarrow> py_error + unit" where
  "resource_spec_post_init self =
     bindE (require_identifier (rs_device_id self) [Lit ''resource.device_id'']) (\<lambda>_.
     require_non_negative (rs_lane self) [Lit ''resource.lane''])"

definition resource_spec_to_dict :: "resource_spec \<Rightarrow> pyval" where
  "resource_spec_to_dict self =
     dict_lit [(''device_id'', PStr (rs_device_id self)),
               (''kind'', PStr (resource_kind_value (rs_kind self))),
               (''lane'', PInt (rs_lane self))]"

definition resource_spec_from_value :: "pyval \<Rightarrow> path \<Rightarrow> py_error + resource_spec" where
  "resource_spec_from_value value path =
     bindE (expect_mapping value path) (\<lambda>data.
     bindE (string_field data ''kind'' path) (\<lambda>kind_value.
     bindE (enum_member resource_kind_of kind_value (at_field path ''kind'') ''resource kind'') (\<lambda>kind.
     bindE (string_field data ''device_id'' path) (\<lambda>device_id.
     bindE (integer_field data ''lane'' path) (\<lambda>lane.
       construct resource_spec_post_init
         \<lparr>rs_device_id = device_id, rs_kind = kind, rs_lane = lane\<rparr>)))))"

record alias_group_spec =
  ag_alias_group_id :: string
  ag_device_id :: string
  ag_size_bytes :: int
  ag_initial_version :: int
  ag_retain_spill_copy :: bool
  ag_shared_residency :: "shared_residency_policy option"
  ag_transfer :: "transfer_spec option"

definition alias_group_spec_post_init :: "alias_group_spec \<Rightarrow> py_error + unit" where
  "alias_group_spec_post_init self =
     bindE (require_identifier (ag_alias_group_id self) [Lit ''alias_group.alias_group_id'']) (\<lambda>_.
     bindE (require_identifier (ag_device_id self) [Lit ''alias_group.device_id'']) (\<lambda>_.
     bindE (require_non_negative (ag_size_bytes self) [Lit ''alias_group.size_bytes'']) (\<lambda>_.
     require_non_negative (ag_initial_version self) [Lit ''alias_group.initial_version''])))"

definition spill_size_bytes :: "alias_group_spec \<Rightarrow> int" where
  "spill_size_bytes self =
     (case ag_transfer self of None \<Rightarrow> ag_size_bytes self | Some t \<Rightarrow> ts_spill_size_bytes t)"

definition alias_group_spec_to_dict :: "alias_group_spec \<Rightarrow> pyval" where
  "alias_group_spec_to_dict self =
     dict_lit ([(''alias_group_id'', PStr (ag_alias_group_id self)),
                (''device_id'', PStr (ag_device_id self)),
                (''initial_version'', PInt (ag_initial_version self)),
                (''retain_spill_copy'', PBool (ag_retain_spill_copy self)),
                (''shared_residency'',
                  case ag_shared_residency self of
                    None \<Rightarrow> PNone
                  | Some policy \<Rightarrow> PStr (shared_residency_policy_value policy)),
                (''size_bytes'', PInt (ag_size_bytes self))]
       @ (case ag_transfer self of
            None \<Rightarrow> []
          | Some t \<Rightarrow> [(''transfer'', transfer_spec_to_dict t)]))"

definition shared_residency_from :: "pyval \<Rightarrow> path \<Rightarrow> py_error + shared_residency_policy option" where
  "shared_residency_from shared_value path =
     (if shared_value = PNone then Inr None
      else bindE (expect_string shared_value path) (\<lambda>shared_name.
           bindE (enum_member shared_residency_policy_of shared_name path ''shared residency policy'')
             (\<lambda>policy. Inr (Some policy))))"

definition alias_group_spec_from_value :: "pyval \<Rightarrow> path \<Rightarrow> py_error + alias_group_spec" where
  "alias_group_spec_from_value value path =
     bindE (expect_mapping value path) (\<lambda>data.
     bindE (field data ''shared_residency'' path) (\<lambda>shared_value.
     bindE (shared_residency_from shared_value (at_field path ''shared_residency'')) (\<lambda>shared_residency.
     bindE (string_field data ''alias_group_id'' path) (\<lambda>alias_group_id.
     bindE (string_field data ''device_id'' path) (\<lambda>device_id.
     bindE (integer_field data ''size_bytes'' path) (\<lambda>size_bytes.
     bindE (integer_field data ''initial_version'' path) (\<lambda>initial_version.
     bindE (boolean_field data ''retain_spill_copy'' path) (\<lambda>retain_spill_copy.
     bindE (if data_get data ''transfer'' PNone = PNone then Inr None
            else bindE (transfer_spec_from_value (data_get data ''transfer'' PNone)
                   (at_field path ''transfer'')) (\<lambda>t. Inr (Some t))) (\<lambda>transfer.
       construct alias_group_spec_post_init
         \<lparr>ag_alias_group_id = alias_group_id, ag_device_id = device_id, ag_size_bytes = size_bytes,
          ag_initial_version = initial_version, ag_retain_spill_copy = retain_spill_copy,
          ag_shared_residency = shared_residency, ag_transfer = transfer\<rparr>)))))))))"

record object_spec =
  ob_object_id :: string
  ob_alias_group_id :: string
  ob_offset_bytes :: int
  ob_size_bytes :: int
  ob_role :: object_role
  ob_persistence :: persistence

definition object_spec_post_init :: "object_spec \<Rightarrow> py_error + unit" where
  "object_spec_post_init self =
     bindE (require_identifier (ob_object_id self) [Lit ''object.object_id'']) (\<lambda>_.
     bindE (require_identifier (ob_alias_group_id self) [Lit ''object.alias_group_id'']) (\<lambda>_.
     bindE (require_non_negative (ob_offset_bytes self) [Lit ''object.offset_bytes'']) (\<lambda>_.
     require_non_negative (ob_size_bytes self) [Lit ''object.size_bytes''])))"

definition object_spec_to_dict :: "object_spec \<Rightarrow> pyval" where
  "object_spec_to_dict self =
     dict_lit [(''alias_group_id'', PStr (ob_alias_group_id self)),
               (''object_id'', PStr (ob_object_id self)),
               (''offset_bytes'', PInt (ob_offset_bytes self)),
               (''persistence'', PStr (persistence_value (ob_persistence self))),
               (''role'', PStr (object_role_value (ob_role self))),
               (''size_bytes'', PInt (ob_size_bytes self))]"

definition object_spec_from_value :: "pyval \<Rightarrow> path \<Rightarrow> py_error + object_spec" where
  "object_spec_from_value value path =
     bindE (expect_mapping value path) (\<lambda>data.
     bindE (string_field data ''role'' path) (\<lambda>role_value.
     bindE (string_field data ''persistence'' path) (\<lambda>persist_value.
     bindE (enum_member object_role_of role_value (at_field path ''role'') ''object role'') (\<lambda>role.
     bindE (enum_member persistence_of persist_value (at_field path ''persistence'') ''persistence'')
       (\<lambda>persistence.
     bindE (string_field data ''object_id'' path) (\<lambda>object_id.
     bindE (string_field data ''alias_group_id'' path) (\<lambda>alias_group_id.
     bindE (integer_field data ''offset_bytes'' path) (\<lambda>offset_bytes.
     bindE (integer_field data ''size_bytes'' path) (\<lambda>size_bytes.
       construct object_spec_post_init
         \<lparr>ob_object_id = object_id, ob_alias_group_id = alias_group_id,
          ob_offset_bytes = offset_bytes, ob_size_bytes = size_bytes, ob_role = role,
          ob_persistence = persistence\<rparr>)))))))))"


section \<open>Profiles and tasks\<close>

record task_profile =
  pf_profile_id :: string
  pf_runtime_ns :: int
  pf_workspace_bytes :: int
  pf_compatibility_digest :: string
  pf_resource_phases :: "task_resource_phase list"
  pf_overlap_costs :: "task_overlap_cost list"

definition task_profile_post_init :: "task_profile \<Rightarrow> py_error + unit" where
  "task_profile_post_init self =
     bindE (require_identifier (pf_profile_id self) [Lit ''profile.profile_id'']) (\<lambda>_.
     bindE (require_non_negative (pf_runtime_ns self) [Lit ''profile.runtime_ns'']) (\<lambda>_.
     bindE (require_non_negative (pf_workspace_bytes self) [Lit ''profile.workspace_bytes'']) (\<lambda>_.
     bindE (require_identifier (pf_compatibility_digest self) [Lit ''profile.compatibility_digest'']) (\<lambda>_.
     validate_task_timing (pf_runtime_ns self) (pf_resource_phases self) (pf_overlap_costs self)))))"

definition task_profile_to_dict :: "task_profile \<Rightarrow> pyval" where
  "task_profile_to_dict self =
     dict_lit [(''compatibility_digest'', PStr (pf_compatibility_digest self)),
               (''profile_id'', PStr (pf_profile_id self)),
               (''runtime_ns'', PInt (pf_runtime_ns self)),
               (''workspace_bytes'', PInt (pf_workspace_bytes self)),
               (''resource_phases'', PList (map task_resource_phase_to_dict (pf_resource_phases self))),
               (''overlap_costs'', PList (map task_overlap_cost_to_dict (pf_overlap_costs self)))]"

definition task_profile_from_value :: "pyval \<Rightarrow> path \<Rightarrow> py_error + task_profile" where
  "task_profile_from_value value path =
     bindE (expect_mapping value path) (\<lambda>data.
     bindE (string_field data ''profile_id'' path) (\<lambda>profile_id.
     bindE (integer_field data ''runtime_ns'' path) (\<lambda>runtime_ns.
     bindE (integer_field data ''workspace_bytes'' path) (\<lambda>workspace_bytes.
     bindE (string_field data ''compatibility_digest'' path) (\<lambda>compatibility_digest.
     bindE (bindE (expect_list (data_get data ''resource_phases'' (PList []))
         (at_field path ''resource_phases''))
       (\<lambda>items. decode_list task_resource_phase_from_value items (at_field path ''resource_phases'')))
       (\<lambda>resource_phases.
     bindE (bindE (expect_list (data_get data ''overlap_costs'' (PList []))
         (at_field path ''overlap_costs''))
       (\<lambda>items. decode_list task_overlap_cost_from_value items (at_field path ''overlap_costs'')))
       (\<lambda>overlap_costs.
       construct task_profile_post_init
         \<lparr>pf_profile_id = profile_id, pf_runtime_ns = runtime_ns,
          pf_workspace_bytes = workspace_bytes, pf_compatibility_digest = compatibility_digest,
          pf_resource_phases = resource_phases, pf_overlap_costs = overlap_costs\<rparr>)))))))"

record mutation_spec =
  mu_object_id :: string
  mu_version_delta :: int

definition mutation_spec_post_init :: "mutation_spec \<Rightarrow> py_error + unit" where
  "mutation_spec_post_init self =
     bindE (require_identifier (mu_object_id self) [Lit ''mutation.object_id'']) (\<lambda>_.
     require_positive (mu_version_delta self) [Lit ''mutation.version_delta''])"

definition mutation_spec_to_dict :: "mutation_spec \<Rightarrow> pyval" where
  "mutation_spec_to_dict self =
     dict_lit [(''object_id'', PStr (mu_object_id self)),
               (''version_delta'', PInt (mu_version_delta self))]"

definition mutation_spec_from_value :: "pyval \<Rightarrow> path \<Rightarrow> py_error + mutation_spec" where
  "mutation_spec_from_value value path =
     bindE (expect_mapping value path) (\<lambda>data.
     bindE (string_field data ''object_id'' path) (\<lambda>object_id.
     bindE (integer_field data ''version_delta'' path) (\<lambda>version_delta.
       construct mutation_spec_post_init
         \<lparr>mu_object_id = object_id, mu_version_delta = version_delta\<rparr>)))"

record task_spec =
  tk_task_id :: string
  tk_resource :: resource_spec
  tk_profile_id :: string
  tk_dependencies :: "string list"
  tk_inputs :: "string list"
  tk_outputs :: "string list"
  tk_mutations :: "mutation_spec list"
  tk_phase :: string
  tk_requires_entrypoint :: bool

definition task_spec_post_init :: "task_spec \<Rightarrow> py_error + unit" where
  "task_spec_post_init self =
     bindE (require_identifier (tk_task_id self) [Lit ''task.task_id'']) (\<lambda>_.
     bindE (require_identifier (tk_profile_id self) [Lit ''task.profile_id'']) (\<lambda>_.
     bindE (index_unique (tk_dependencies self) [Lit ''task.dependencies'']) (\<lambda>_.
     bindE (index_unique (tk_inputs self) [Lit ''task.inputs'']) (\<lambda>_.
     bindE (index_unique (tk_outputs self) [Lit ''task.outputs'']) (\<lambda>_.
     bindE (index_unique (map mu_object_id (tk_mutations self)) [Lit ''task.mutations'']) (\<lambda>_.
     require_identifier (tk_phase self) [Lit ''task.phase'']))))))"

definition task_spec_to_dict :: "task_spec \<Rightarrow> pyval" where
  "task_spec_to_dict self =
     dict_lit [(''dependencies'', string_list (tk_dependencies self)),
               (''inputs'', string_list (tk_inputs self)),
               (''mutations'', PList (map mutation_spec_to_dict (tk_mutations self))),
               (''outputs'', string_list (tk_outputs self)),
               (''phase'', PStr (tk_phase self)),
               (''profile_id'', PStr (tk_profile_id self)),
               (''requires_entrypoint'', PBool (tk_requires_entrypoint self)),
               (''resource'', resource_spec_to_dict (tk_resource self)),
               (''task_id'', PStr (tk_task_id self))]"

definition task_spec_from_value :: "pyval \<Rightarrow> path \<Rightarrow> py_error + task_spec" where
  "task_spec_from_value value path =
     bindE (expect_mapping value path) (\<lambda>data.
     bindE (list_field data ''dependencies'' path) (\<lambda>dependencies.
     bindE (list_field data ''inputs'' path) (\<lambda>inputs.
     bindE (list_field data ''outputs'' path) (\<lambda>outputs.
     bindE (list_field data ''mutations'' path) (\<lambda>mutations.
     bindE (string_field data ''task_id'' path) (\<lambda>task_id.
     bindE (bindE (field data ''resource'' path)
       (\<lambda>v. resource_spec_from_value v (at_field path ''resource''))) (\<lambda>resource.
     bindE (string_field data ''profile_id'' path) (\<lambda>profile_id.
     bindE (decode_list expect_string dependencies (at_field path ''dependencies'')) (\<lambda>dependencies.
     bindE (decode_list expect_string inputs (at_field path ''inputs'')) (\<lambda>inputs.
     bindE (decode_list expect_string outputs (at_field path ''outputs'')) (\<lambda>outputs.
     bindE (decode_list mutation_spec_from_value mutations (at_field path ''mutations'')) (\<lambda>mutations.
     bindE (string_field data ''phase'' path) (\<lambda>phase.
     bindE (boolean_field data ''requires_entrypoint'' path) (\<lambda>requires_entrypoint.
       construct task_spec_post_init
         \<lparr>tk_task_id = task_id, tk_resource = resource, tk_profile_id = profile_id,
          tk_dependencies = dependencies, tk_inputs = inputs, tk_outputs = outputs,
          tk_mutations = mutations, tk_phase = phase,
          tk_requires_entrypoint = requires_entrypoint\<rparr>))))))))))))))"


section \<open>Alternatives\<close>

record task_alternative_option =
  ao_option_id :: string
  ao_active_task_ids :: "string list"
  ao_retained_alias_group_ids :: "string list"

definition task_alternative_option_post_init :: "task_alternative_option \<Rightarrow> py_error + unit" where
  "task_alternative_option_post_init self =
     bindE (require_identifier (ao_option_id self) [Lit ''task_alternative_option.option_id'']) (\<lambda>_.
     bindE (index_unique (ao_active_task_ids self)
       [Lit ''task_alternative_option.active_task_ids'']) (\<lambda>_.
     bindE (index_unique (ao_retained_alias_group_ids self)
       [Lit ''task_alternative_option.retained_alias_group_ids'']) (\<lambda>_. Inr ())))"

definition task_alternative_option_to_dict :: "task_alternative_option \<Rightarrow> pyval" where
  "task_alternative_option_to_dict self =
     dict_lit [(''active_task_ids'', string_list (ao_active_task_ids self)),
               (''option_id'', PStr (ao_option_id self)),
               (''retained_alias_group_ids'', string_list (ao_retained_alias_group_ids self))]"

definition task_alternative_option_from_value ::
    "pyval \<Rightarrow> path \<Rightarrow> py_error + task_alternative_option" where
  "task_alternative_option_from_value value path =
     bindE (expect_mapping value path) (\<lambda>data.
     bindE (list_field data ''active_task_ids'' path) (\<lambda>active.
     bindE (list_field data ''retained_alias_group_ids'' path) (\<lambda>retained.
     bindE (string_field data ''option_id'' path) (\<lambda>option_id.
     bindE (decode_list expect_string active (at_field path ''active_task_ids'')) (\<lambda>active_task_ids.
     bindE (decode_list expect_string retained (at_field path ''retained_alias_group_ids''))
       (\<lambda>retained_alias_group_ids.
       construct task_alternative_option_post_init
         \<lparr>ao_option_id = option_id, ao_active_task_ids = active_task_ids,
          ao_retained_alias_group_ids = retained_alias_group_ids\<rparr>))))))"

record task_alternative_group =
  al_group_id :: string
  al_options :: "task_alternative_option list"

definition task_alternative_group_post_init :: "task_alternative_group \<Rightarrow> py_error + unit" where
  "task_alternative_group_post_init self =
     bindE (require_identifier (al_group_id self) [Lit ''task_alternative_group.group_id'']) (\<lambda>_.
     bindE (require (al_options self \<noteq> []) [Lit ''task_alternative_group.options'']
       [Lit ''must not be empty'']) (\<lambda>_.
     bindE (index_unique (map ao_option_id (al_options self)) [Lit ''task_alternative_group.options''])
       (\<lambda>_. Inr ())))"

definition task_alternative_group_to_dict :: "task_alternative_group \<Rightarrow> pyval" where
  "task_alternative_group_to_dict self =
     dict_lit [(''group_id'', PStr (al_group_id self)),
               (''options'', PList (map task_alternative_option_to_dict (al_options self)))]"

definition task_alternative_group_from_value ::
    "pyval \<Rightarrow> path \<Rightarrow> py_error + task_alternative_group" where
  "task_alternative_group_from_value value path =
     bindE (expect_mapping value path) (\<lambda>data.
     bindE (list_field data ''options'' path) (\<lambda>options.
     bindE (string_field data ''group_id'' path) (\<lambda>group_id.
     bindE (decode_list task_alternative_option_from_value options (at_field path ''options'')) (\<lambda>options.
       construct task_alternative_group_post_init
         \<lparr>al_group_id = group_id, al_options = options\<rparr>))))"

record task_alternative_choice =
  ac_group_id :: string
  ac_option_id :: string

definition task_alternative_choice_post_init :: "task_alternative_choice \<Rightarrow> py_error + unit" where
  "task_alternative_choice_post_init self =
     bindE (require_identifier (ac_group_id self) [Lit ''selection.group_id'']) (\<lambda>_.
     require_identifier (ac_option_id self) [Lit ''selection.option_id''])"

definition task_alternative_choice_to_dict :: "task_alternative_choice \<Rightarrow> pyval" where
  "task_alternative_choice_to_dict self =
     dict_lit [(''group_id'', PStr (ac_group_id self)), (''option_id'', PStr (ac_option_id self))]"

definition task_alternative_choice_from_value ::
    "pyval \<Rightarrow> path \<Rightarrow> py_error + task_alternative_choice" where
  "task_alternative_choice_from_value value path =
     bindE (expect_mapping value path) (\<lambda>data.
     bindE (string_field data ''group_id'' path) (\<lambda>group_id.
     bindE (string_field data ''option_id'' path) (\<lambda>option_id.
       construct task_alternative_choice_post_init
         \<lparr>ac_group_id = group_id, ac_option_id = option_id\<rparr>)))"


section \<open>Validity and round trips\<close>

definition valid_device :: "device_spec \<Rightarrow> bool" where
  "valid_device d \<longleftrightarrow> device_spec_post_init d = Inr ()"

definition valid_resource :: "resource_spec \<Rightarrow> bool" where
  "valid_resource r \<longleftrightarrow> resource_spec_post_init r = Inr ()"

definition valid_alias_group :: "alias_group_spec \<Rightarrow> bool" where
  "valid_alias_group g \<longleftrightarrow> alias_group_spec_post_init g = Inr ()
     \<and> (case ag_transfer g of None \<Rightarrow> True | Some t \<Rightarrow> valid_transfer_spec t)"

definition valid_object :: "object_spec \<Rightarrow> bool" where
  "valid_object b \<longleftrightarrow> object_spec_post_init b = Inr ()"

definition valid_profile :: "task_profile \<Rightarrow> bool" where
  "valid_profile p \<longleftrightarrow> task_profile_post_init p = Inr ()
     \<and> (\<forall>x \<in> set (pf_resource_phases p). valid_resource_phase x)
     \<and> (\<forall>x \<in> set (pf_overlap_costs p). valid_overlap_cost x)"

definition valid_mutation :: "mutation_spec \<Rightarrow> bool" where
  "valid_mutation m \<longleftrightarrow> mutation_spec_post_init m = Inr ()"

definition valid_task :: "task_spec \<Rightarrow> bool" where
  "valid_task t \<longleftrightarrow> task_spec_post_init t = Inr () \<and> valid_resource (tk_resource t)
     \<and> (\<forall>m \<in> set (tk_mutations t). valid_mutation m)"

definition valid_option :: "task_alternative_option \<Rightarrow> bool" where
  "valid_option x \<longleftrightarrow> task_alternative_option_post_init x = Inr ()"

definition valid_group :: "task_alternative_group \<Rightarrow> bool" where
  "valid_group g \<longleftrightarrow> task_alternative_group_post_init g = Inr ()
     \<and> (\<forall>x \<in> set (al_options g). valid_option x)"

definition valid_choice :: "task_alternative_choice \<Rightarrow> bool" where
  "valid_choice c \<longleftrightarrow> task_alternative_choice_post_init c = Inr ()"

text \<open>A record is rebuilt from its fields.\<close>

lemma specs_eta [simp]:
  "\<lparr>dv_device_id = dv_device_id a, dv_process_id = dv_process_id a, dv_kind = dv_kind a,
     dv_index = dv_index a\<rparr> = a"
  "\<lparr>rs_device_id = rs_device_id b, rs_kind = rs_kind b, rs_lane = rs_lane b\<rparr> = b"
  "\<lparr>ag_alias_group_id = ag_alias_group_id c, ag_device_id = ag_device_id c,
     ag_size_bytes = ag_size_bytes c, ag_initial_version = ag_initial_version c,
     ag_retain_spill_copy = ag_retain_spill_copy c,
     ag_shared_residency = ag_shared_residency c, ag_transfer = ag_transfer c\<rparr> = c"
  "\<lparr>ob_object_id = ob_object_id d, ob_alias_group_id = ob_alias_group_id d,
     ob_offset_bytes = ob_offset_bytes d, ob_size_bytes = ob_size_bytes d, ob_role = ob_role d,
     ob_persistence = ob_persistence d\<rparr> = d"
  "\<lparr>pf_profile_id = pf_profile_id e, pf_runtime_ns = pf_runtime_ns e,
     pf_workspace_bytes = pf_workspace_bytes e,
     pf_compatibility_digest = pf_compatibility_digest e,
     pf_resource_phases = pf_resource_phases e, pf_overlap_costs = pf_overlap_costs e\<rparr> = e"
  "\<lparr>mu_object_id = mu_object_id f, mu_version_delta = mu_version_delta f\<rparr> = f"
  "\<lparr>tk_task_id = tk_task_id g, tk_resource = tk_resource g,
     tk_profile_id = tk_profile_id g, tk_dependencies = tk_dependencies g,
     tk_inputs = tk_inputs g, tk_outputs = tk_outputs g, tk_mutations = tk_mutations g,
     tk_phase = tk_phase g, tk_requires_entrypoint = tk_requires_entrypoint g\<rparr> = g"
  "\<lparr>ao_option_id = ao_option_id h, ao_active_task_ids = ao_active_task_ids h,
     ao_retained_alias_group_ids = ao_retained_alias_group_ids h\<rparr> = h"
  "\<lparr>al_group_id = al_group_id i, al_options = al_options i\<rparr> = i"
  "\<lparr>ac_group_id = ac_group_id j, ac_option_id = ac_option_id j\<rparr> = j"
  by simp_all

interpretation device: codec device_spec_to_dict device_spec_from_value valid_device
  by unfold_locales
    (auto simp: device_spec_to_dict_def device_spec_from_value_def valid_device_def
      decode_simps construct_Inr_iff)

interpretation resource: codec resource_spec_to_dict resource_spec_from_value valid_resource
  by unfold_locales
    (auto simp: resource_spec_to_dict_def resource_spec_from_value_def valid_resource_def
      decode_simps construct_Inr_iff)

interpretation object_codec: codec object_spec_to_dict object_spec_from_value valid_object
  by unfold_locales
    (auto simp: object_spec_to_dict_def object_spec_from_value_def valid_object_def
      decode_simps construct_Inr_iff)

interpretation mutation: codec mutation_spec_to_dict mutation_spec_from_value valid_mutation
  by unfold_locales
    (auto simp: mutation_spec_to_dict_def mutation_spec_from_value_def valid_mutation_def
      decode_simps construct_Inr_iff)

interpretation choice: codec task_alternative_choice_to_dict task_alternative_choice_from_value
    valid_choice
  by unfold_locales
    (auto simp: task_alternative_choice_to_dict_def task_alternative_choice_from_value_def
      valid_choice_def decode_simps construct_Inr_iff)

interpretation option_codec: codec task_alternative_option_to_dict task_alternative_option_from_value
    valid_option
  by unfold_locales
    (auto simp: task_alternative_option_to_dict_def task_alternative_option_from_value_def
      valid_option_def decode_simps construct_Inr_iff string_list_def)

lemma shared_residency_round:
  "shared_residency_from
     (case s of None \<Rightarrow> PNone | Some policy \<Rightarrow> PStr (shared_residency_policy_value policy)) path = Inr s"
  by (cases s) (simp_all add: shared_residency_from_def)

lemma transfer_dict_some [simp]: "transfer_spec_to_dict t \<noteq> PNone"
  by (simp add: transfer_spec_to_dict_def dict_lit_def)

interpretation alias_group: codec alias_group_spec_to_dict alias_group_spec_from_value valid_alias_group
proof unfold_locales
  fix g path
  assume "valid_alias_group g"
  then show "alias_group_spec_from_value (alias_group_spec_to_dict g) path = Inr g"
    by (cases g; cases "ag_transfer g")
      (auto simp: alias_group_spec_to_dict_def alias_group_spec_from_value_def valid_alias_group_def
        decode_simps shared_residency_round transfer_spec.decode_encode)
next
  fix v path g
  assume "alias_group_spec_from_value v path = Inr g"
  then show "valid_alias_group g"
    by (auto simp: alias_group_spec_from_value_def valid_alias_group_def construct_Inr_iff
        split: if_splits) (erule transfer_spec.decode_valid)
qed

interpretation profile: codec task_profile_to_dict task_profile_from_value valid_profile
proof unfold_locales
  fix p path
  assume "valid_profile p"
  then show "task_profile_from_value (task_profile_to_dict p) path = Inr p"
    by (simp add: task_profile_to_dict_def task_profile_from_value_def valid_profile_def decode_simps
        resource_phase.decode_list_encode overlap_cost.decode_list_encode)
next
  fix v path p
  assume "task_profile_from_value v path = Inr p"
  then show "valid_profile p"
    by (auto simp: task_profile_from_value_def valid_profile_def construct_Inr_iff
        dest: resource_phase.decode_list_valid overlap_cost.decode_list_valid)
qed

interpretation task: codec task_spec_to_dict task_spec_from_value valid_task
proof unfold_locales
  fix t path
  assume "valid_task t"
  then show "task_spec_from_value (task_spec_to_dict t) path = Inr t"
    by (simp add: task_spec_to_dict_def task_spec_from_value_def valid_task_def decode_simps
        string_list_def resource.decode_encode mutation.decode_list_encode)
next
  fix v path t
  assume "task_spec_from_value v path = Inr t"
  then show "valid_task t"
    by (auto simp: task_spec_from_value_def valid_task_def construct_Inr_iff
        dest: resource.decode_valid mutation.decode_list_valid)
qed

interpretation group: codec task_alternative_group_to_dict task_alternative_group_from_value valid_group
proof unfold_locales
  fix g path
  assume "valid_group g"
  then show "task_alternative_group_from_value (task_alternative_group_to_dict g) path = Inr g"
    by (simp add: task_alternative_group_to_dict_def task_alternative_group_from_value_def
        valid_group_def decode_simps option_codec.decode_list_encode)
next
  fix v path g
  assume "task_alternative_group_from_value v path = Inr g"
  then show "valid_group g"
    by (auto simp: task_alternative_group_from_value_def valid_group_def construct_Inr_iff
        dest: option_codec.decode_list_valid)
qed

end
