(* ===== verification/Program_Checks.thy ===== *)
theory Program_Checks
  imports Program_Specs
begin

text \<open>
  What a program must be true of (\<^verbatim>\<open>src/shadowspill/ir/program/checks.py\<close>), one definition per
  check, in the order the constructor runs them. A Python set that is only iterated or tested
  is the list of its elements in the order the source inserts them.
\<close>

section \<open>The program and its identities\<close>

record shadow_spill_program =
  pg_devices :: "device_spec list"
  pg_alias_groups :: "alias_group_spec list"
  pg_objects :: "object_spec list"
  pg_profiles :: "task_profile list"
  pg_tasks :: "task_spec list"
  pg_task_alternative_groups :: "task_alternative_group list"

record identities =
  id_device_ids :: "string \<rightharpoonup> nat"
  id_alias_ids :: "string \<rightharpoonup> nat"
  id_object_ids :: "string \<rightharpoonup> nat"
  id_profile_ids :: "string \<rightharpoonup> nat"
  id_task_ids :: "string \<rightharpoonup> nat"
  id_group_ids :: "string \<rightharpoonup> nat"
  id_alias_by_id :: "string \<rightharpoonup> alias_group_spec"
  id_object_by_id :: "string \<rightharpoonup> object_spec"

abbreviation known :: "('k \<rightharpoonup> 'v) \<Rightarrow> 'k \<Rightarrow> bool" where
  "known m k \<equiv> m k \<noteq> None"

definition require_shapes :: "shadow_spill_program \<Rightarrow> py_error + unit" where
  "require_shapes program =
     require (pg_devices program \<noteq> []) [Lit ''program.devices''] [Lit ''must not be empty'']"

definition index_identities :: "shadow_spill_program \<Rightarrow> string list \<Rightarrow> py_error + identities" where
  "index_identities program profile_keys =
     bindE (index_unique (map dv_device_id (pg_devices program)) [Lit ''program.devices'']) (\<lambda>device_ids.
     bindE (index_unique (map ag_alias_group_id (pg_alias_groups program)) [Lit ''program.alias_groups''])
       (\<lambda>alias_ids.
     bindE (index_unique (map ob_object_id (pg_objects program)) [Lit ''program.objects'']) (\<lambda>object_ids.
     bindE (index_unique profile_keys [Lit ''program.task_definitions'']) (\<lambda>profile_ids.
     bindE (index_unique (map tk_task_id (pg_tasks program)) [Lit ''program.tasks'']) (\<lambda>task_ids.
     bindE (index_unique (map al_group_id (pg_task_alternative_groups program))
       [Lit ''program.task_alternative_groups'']) (\<lambda>group_ids.
       Inr \<lparr>id_device_ids = device_ids, id_alias_ids = alias_ids, id_object_ids = object_ids,
            id_profile_ids = profile_ids, id_task_ids = task_ids, id_group_ids = group_ids,
            id_alias_by_id = dict_of (map (\<lambda>g. (ag_alias_group_id g, g)) (pg_alias_groups program)),
            id_object_by_id = dict_of (map (\<lambda>b. (ob_object_id b, b)) (pg_objects program))\<rparr>))))))"

definition check_alias_groups :: "shadow_spill_program \<Rightarrow> identities \<Rightarrow> py_error + unit" where
  "check_alias_groups program ids =
     checkE (\<lambda>(index, alias_group).
         require (known (id_device_ids ids) (ag_device_id alias_group))
           (at_field (at_index [Lit ''program.alias_groups''] index) ''device_id'')
           [Lit ''unknown device '', Repr (ag_device_id alias_group)])
       (enumerate 0 (pg_alias_groups program))"

definition check_object :: "identities \<Rightarrow> nat \<times> object_spec \<Rightarrow> py_error + unit" where
  "check_object ids = (\<lambda>(index, item).
     let path = at_index [Lit ''program.objects''] index
     in case id_alias_by_id ids (ob_alias_group_id item) of
          None \<Rightarrow> fail (at_field path ''alias_group_id'')
                    [Lit ''unknown alias group '', Repr (ob_alias_group_id item)]
        | Some alias_group \<Rightarrow>
            let extent = ag_size_bytes alias_group
            in require (ob_offset_bytes item + ob_size_bytes item \<le> extent) path
                 [Lit ''object '', Repr (ob_object_id item),
                  Lit '' ('', Lit (object_role_value (ob_role item)), Lit '', '',
                  Lit (persistence_value (ob_persistence item)), Lit '') spans ['',
                  Num (ob_offset_bytes item), Lit '', '',
                  Num (ob_offset_bytes item + ob_size_bytes item), Lit '') of alias group '',
                  Repr (ob_alias_group_id item), Lit '', which is '', Num extent, Lit '' bytes''])"

definition check_objects :: "shadow_spill_program \<Rightarrow> identities \<Rightarrow> py_error + unit" where
  "check_objects program ids = checkE (check_object ids) (enumerate 0 (pg_objects program))"


section \<open>Alternative groups\<close>

text \<open>
  The option's tasks and retained groups must be known, and no shared group is retained; the
  tasks of an option are checked in the order the option lists them.
\<close>

definition check_option :: "identities \<Rightarrow> path \<Rightarrow> task_alternative_option \<Rightarrow> py_error + unit" where
  "check_option ids option_path option =
     bindE (checkE (\<lambda>task_id.
         require (known (id_task_ids ids) task_id) (at_field option_path ''active_task_ids'')
           [Lit ''unknown task '', Repr task_id]) (ao_active_task_ids option)) (\<lambda>_.
     checkE (\<lambda>alias_id.
         bindE (require (known (id_alias_ids ids) alias_id)
           (at_field option_path ''retained_alias_group_ids'')
           [Lit ''unknown alias group '', Repr alias_id]) (\<lambda>_.
         bindE (dict_get (id_alias_by_id ids) alias_id) (\<lambda>alias_group.
         require (ag_shared_residency alias_group = None)
           (at_field option_path ''retained_alias_group_ids'')
           [Lit ''shared alias group '', Repr alias_id,
            Lit '' is runtime-resident and cannot be retained by a task-alternative option''])))
       (ao_retained_alias_group_ids option))"

text \<open>\<^verbatim>\<open>frozenset((left_task, right_task))\<close>: a pair kept in either order.\<close>

definition pair_in :: "(string \<times> string) list \<Rightarrow> string \<Rightarrow> string \<Rightarrow> bool" where
  "pair_in pairs a b = list_ex (\<lambda>(x, y). {x, y} = {a, b}) pairs"

fun option_pairs :: "string list list \<Rightarrow> (string \<times> string) list" where
  "option_pairs [] = []"
| "option_pairs (left # rest) =
     concat (map (\<lambda>right.
         concat (map (\<lambda>left_task. map (\<lambda>right_task. (left_task, right_task))
             (filter (\<lambda>t. t \<notin> set left) right))
           (filter (\<lambda>t. t \<notin> set right) left))) rest)
     @ option_pairs rest"

definition check_alternative_group ::
    "identities \<Rightarrow> string list \<times> (string \<times> string) list \<Rightarrow> nat \<times> task_alternative_group
     \<Rightarrow> py_error + (string list \<times> (string \<times> string) list)" where
  "check_alternative_group ids st ig =
     (case st of (tasks_in_groups, exclusive_pairs) \<Rightarrow> case ig of (group_index, choice_group) \<Rightarrow>
        let group_path = at_index [Lit ''program.task_alternative_groups''] group_index
        in bindE (require (known (id_group_ids ids) (al_group_id choice_group)) group_path
             [Lit ''invalid group identity'']) (\<lambda>_.
           bindE (checkE (\<lambda>(option_index, option).
                check_option ids (at_index (at_field group_path ''options'') option_index) option)
              (enumerate 0 (al_options choice_group))) (\<lambda>_.
           let option_tasks = map ao_active_task_ids (al_options choice_group);
               group_tasks = remdups (concat option_tasks);
               overlap = filter (\<lambda>t. t \<in> set tasks_in_groups) group_tasks
           in bindE (require (overlap = []) group_path
                [Lit ''tasks occur in several task-alternative groups: '', ReprList (sort overlap)]) (\<lambda>_.
              Inr (tasks_in_groups @ group_tasks, exclusive_pairs @ option_pairs option_tasks)))))"

definition check_alternative_groups ::
    "shadow_spill_program \<Rightarrow> identities \<Rightarrow> py_error + (string \<times> string) list" where
  "check_alternative_groups program ids =
     bindE (foldE (check_alternative_group ids) ([], [])
       (enumerate 0 (pg_task_alternative_groups program)))
       (\<lambda>(tasks_in_groups, exclusive_pairs). Inr exclusive_pairs)"


section \<open>Tasks\<close>

definition producers_of :: "(string \<rightharpoonup> string list) \<Rightarrow> string \<Rightarrow> string list" where
  "producers_of produced_by object_id = (case produced_by object_id of None \<Rightarrow> [] | Some ws \<Rightarrow> ws)"

definition check_output ::
    "identities \<Rightarrow> (string \<times> string) list \<Rightarrow> path \<Rightarrow> task_spec \<Rightarrow> (string \<rightharpoonup> string list) \<Rightarrow> string
     \<Rightarrow> py_error + (string \<rightharpoonup> string list)" where
  "check_output ids exclusive_pairs path task produced_by output =
     bindE (dict_get (id_object_by_id ids) output) (\<lambda>item.
     bindE (dict_get (id_alias_by_id ids) (ob_alias_group_id item)) (\<lambda>alias_group.
     bindE (case ag_shared_residency alias_group of
              None \<Rightarrow> Inr ()
            | Some sharing \<Rightarrow>
                require (sharing = SHARED_WRITABLE_CAUSAL) (at_field path ''outputs'')
                  [Lit ''shared alias group '', Repr (ob_alias_group_id item), Lit '' uses '',
                   Repr (shared_residency_policy_value sharing),
                   Lit '' and cannot publish task outputs'']) (\<lambda>_.
     bindE (require (list_all (\<lambda>writer. pair_in exclusive_pairs writer (tk_task_id task))
         (producers_of produced_by output)) (at_field path ''outputs'')
       [Lit ''object '', Repr output, Lit '' has simultaneously active writers'']) (\<lambda>_.
       Inr (produced_by(output \<mapsto> producers_of produced_by output @ [tk_task_id task]))))))"

definition check_input :: "path \<Rightarrow> task_spec \<Rightarrow> (string \<rightharpoonup> string list) \<Rightarrow> string \<Rightarrow> py_error + unit" where
  "check_input path task produced_by input_id =
     (let producers = producers_of produced_by input_id
      in require (producers = [] \<or> list_ex (\<lambda>p. p \<in> set (tk_dependencies task)) producers)
           (at_field path ''dependencies'')
           [Lit ''must include a producer for input '', Repr input_id,
            Lit ''; candidates are '', ReprList producers])"

definition check_mutation ::
    "identities \<Rightarrow> path \<Rightarrow> task_spec \<Rightarrow> nat \<times> mutation_spec \<Rightarrow> py_error + unit" where
  "check_mutation ids path task = (\<lambda>(mutation_index, mutation).
     let mutation_path = at_field (at_index (at_field path ''mutations'') mutation_index) ''object_id''
     in bindE (require (mu_object_id mutation \<in> set (tk_inputs task)) mutation_path
          [Lit ''mutated object must be an input'']) (\<lambda>_.
        bindE (dict_get (id_object_by_id ids) (mu_object_id mutation)) (\<lambda>item.
        bindE (dict_get (id_alias_by_id ids) (ob_alias_group_id item)) (\<lambda>alias_group.
        require (ag_shared_residency alias_group \<noteq> Some SHARED_READ_ONLY) mutation_path
          [Lit ''shared alias group '', Repr (ob_alias_group_id item), Lit '' is read-only'']))))"

definition check_task ::
    "identities \<Rightarrow> (string \<times> string) list \<Rightarrow> (string \<rightharpoonup> string list) \<times> string list \<Rightarrow> nat \<times> task_spec
     \<Rightarrow> py_error + ((string \<rightharpoonup> string list) \<times> string list)" where
  "check_task ids exclusive_pairs st it =
     (case st of (produced_by, seen_tasks) \<Rightarrow> case it of (index, task) \<Rightarrow>
        let path = at_index [Lit ''program.tasks''] index
        in bindE (require (known (id_device_ids ids) (rs_device_id (tk_resource task)))
             (at_field (at_field path ''resource'') ''device_id'')
             [Lit ''unknown device '', Repr (rs_device_id (tk_resource task))]) (\<lambda>_.
           bindE (require (known (id_profile_ids ids) (tk_profile_id task))
             (at_field path ''profile_id'')
             [Lit ''unknown profile '', Repr (tk_profile_id task)]) (\<lambda>_.
           bindE (checkE (\<lambda>dependency.
               require (dependency \<in> set seen_tasks) (at_field path ''dependencies'')
                 [Lit ''dependency '', Repr dependency, Lit '' must precede the task''])
             (tk_dependencies task)) (\<lambda>_.
           bindE (checkE (\<lambda>object_id.
               require (known (id_object_ids ids) object_id) (at_field path ''inputs'')
                 [Lit ''unknown object '', Repr object_id]) (tk_inputs task)) (\<lambda>_.
           bindE (checkE (\<lambda>object_id.
               require (known (id_object_ids ids) object_id) (at_field path ''outputs'')
                 [Lit ''unknown object '', Repr object_id]) (tk_outputs task)) (\<lambda>_.
           bindE (foldE (check_output ids exclusive_pairs path task) produced_by (tk_outputs task))
             (\<lambda>produced_by.
           bindE (checkE (check_input path task produced_by) (tk_inputs task)) (\<lambda>_.
           bindE (checkE (check_mutation ids path task) (enumerate 0 (tk_mutations task))) (\<lambda>_.
             Inr (produced_by, seen_tasks @ [tk_task_id task]))))))))))"

definition check_tasks ::
    "shadow_spill_program \<Rightarrow> identities \<Rightarrow> (string \<times> string) list \<Rightarrow> py_error + unit" where
  "check_tasks program ids exclusive_pairs =
     bindE (foldE (check_task ids exclusive_pairs) (Map.empty, []) (enumerate 0 (pg_tasks program)))
       (\<lambda>_. Inr ())"

definition program_post_init :: "shadow_spill_program \<Rightarrow> py_error + unit" where
  "program_post_init self =
     bindE (require_shapes self) (\<lambda>_.
     bindE (index_identities self (map pf_profile_id (pg_profiles self))) (\<lambda>identities.
     bindE (check_alias_groups self identities) (\<lambda>_.
     bindE (check_objects self identities) (\<lambda>_.
     bindE (check_alternative_groups self identities) (\<lambda>exclusive_pairs.
     check_tasks self identities exclusive_pairs)))))"


section \<open>What an accepted program satisfies\<close>

text \<open>
  The invariants the rest of the planner relies on, in one predicate over the program alone:
  unique ids, objects inside their alias groups, dependencies that point backwards, known
  objects, mutated objects among the inputs of their task, a dependency on an earlier producer
  for every input that has a producer so far, and two writers of one object only where some
  alternative group has an option for each without the other.
\<close>

definition task_in_program :: "shadow_spill_program \<Rightarrow> nat \<Rightarrow> task_spec \<Rightarrow> bool" where
  "task_in_program program i task \<longleftrightarrow>
     rs_device_id (tk_resource task) \<in> dv_device_id ` set (pg_devices program)
     \<and> tk_profile_id task \<in> pf_profile_id ` set (pg_profiles program)
     \<and> (\<forall>d \<in> set (tk_dependencies task). \<exists>j < i. d = tk_task_id (pg_tasks program ! j))
     \<and> set (tk_inputs task) \<union> set (tk_outputs task) \<subseteq> ob_object_id ` set (pg_objects program)
     \<and> mu_object_id ` set (tk_mutations task) \<subseteq> set (tk_inputs task)
     \<and> (\<forall>x \<in> set (tk_inputs task). (\<exists>j \<le> i. x \<in> set (tk_outputs (pg_tasks program ! j))) \<longrightarrow>
          (\<exists>j < i. x \<in> set (tk_outputs (pg_tasks program ! j))
             \<and> tk_task_id (pg_tasks program ! j) \<in> set (tk_dependencies task)))"

text \<open>Two tasks some alternative group never activates through the same option.\<close>

definition alternates :: "shadow_spill_program \<Rightarrow> string \<Rightarrow> string \<Rightarrow> bool" where
  "alternates program v w \<longleftrightarrow>
     (\<exists>g \<in> set (pg_task_alternative_groups program). \<exists>a \<in> set (al_options g). \<exists>b \<in> set (al_options g).
        v \<in> set (ao_active_task_ids a) - set (ao_active_task_ids b)
        \<and> w \<in> set (ao_active_task_ids b) - set (ao_active_task_ids a))"

definition well_formed :: "shadow_spill_program \<Rightarrow> bool" where
  "well_formed program \<longleftrightarrow>
     pg_devices program \<noteq> []
     \<and> distinct (map dv_device_id (pg_devices program))
     \<and> distinct (map ag_alias_group_id (pg_alias_groups program))
     \<and> distinct (map ob_object_id (pg_objects program))
     \<and> distinct (map pf_profile_id (pg_profiles program))
     \<and> distinct (map tk_task_id (pg_tasks program))
     \<and> distinct (map al_group_id (pg_task_alternative_groups program))
     \<and> (\<forall>g \<in> set (pg_alias_groups program). ag_device_id g \<in> dv_device_id ` set (pg_devices program))
     \<and> (\<forall>b \<in> set (pg_objects program). \<exists>g \<in> set (pg_alias_groups program).
          ag_alias_group_id g = ob_alias_group_id b
          \<and> ob_offset_bytes b + ob_size_bytes b \<le> ag_size_bytes g)
     \<and> (\<forall>i < length (pg_tasks program). task_in_program program i (pg_tasks program ! i))
     \<and> (\<forall>j < length (pg_tasks program). \<forall>i < j. \<forall>x.
          x \<in> set (tk_outputs (pg_tasks program ! i)) \<and> x \<in> set (tk_outputs (pg_tasks program ! j)) \<longrightarrow>
          alternates program (tk_task_id (pg_tasks program ! i)) (tk_task_id (pg_tasks program ! j)))"

lemma dict_of_records:
  "dict_of (map (\<lambda>x. (key x, x)) xs) k = Some x \<Longrightarrow> x \<in> set xs \<and> key x = k"
  by (auto dest: dict_of_SomeD)

lemma positions_of_known [simp]: "known (positions_of vs) v \<longleftrightarrow> v \<in> set vs"
  by (simp add: positions_of_def)

lemma index_identities_Inr:
  assumes "index_identities program keys = Inr ids"
  shows "distinct (map dv_device_id (pg_devices program))"
    "distinct (map ag_alias_group_id (pg_alias_groups program))"
    "distinct (map ob_object_id (pg_objects program))"
    "distinct keys"
    "distinct (map tk_task_id (pg_tasks program))"
    "distinct (map al_group_id (pg_task_alternative_groups program))"
    "id_device_ids ids = positions_of (map dv_device_id (pg_devices program))"
    "id_alias_ids ids = positions_of (map ag_alias_group_id (pg_alias_groups program))"
    "id_object_ids ids = positions_of (map ob_object_id (pg_objects program))"
    "id_profile_ids ids = positions_of keys"
    "id_task_ids ids = positions_of (map tk_task_id (pg_tasks program))"
    "id_alias_by_id ids = dict_of (map (\<lambda>g. (ag_alias_group_id g, g)) (pg_alias_groups program))"
    "id_object_by_id ids = dict_of (map (\<lambda>b. (ob_object_id b, b)) (pg_objects program))"
  using assms by (auto simp: index_identities_def index_unique_run)

lemma pair_in_iff: "pair_in pairs a b \<longleftrightarrow> (a, b) \<in> set pairs \<or> (b, a) \<in> set pairs"
  unfolding pair_in_def list_ex_iff by (auto simp: doubleton_eq_iff Bex_def)

lemma option_pairs_members:
  "(v, w) \<in> set (option_pairs actives) \<Longrightarrow>
    \<exists>a \<in> set actives. \<exists>b \<in> set actives. v \<in> set a - set b \<and> w \<in> set b - set a"
  by (induction actives rule: option_pairs.induct) auto

lemma check_alternative_groups_pairs:
  assumes "check_alternative_groups program ids = Inr pairs" "pair_in pairs v w"
  shows "alternates program v w"
proof -
  obtain gs where run: "foldE (check_alternative_group ids) ([], [])
      (enumerate 0 (pg_task_alternative_groups program)) = Inr (gs, pairs)"
    using assms(1) by (auto simp: check_alternative_groups_def)
  have "\<forall>(v, w) \<in> set (snd (gs, pairs)). alternates program v w"
  proof (rule foldE_simple_invariant [OF run])
    fix ig st st'
    assume inv: "\<forall>(v, w) \<in> set (snd st). alternates program v w"
      and ig: "ig \<in> set (enumerate 0 (pg_task_alternative_groups program))"
      and step: "check_alternative_group ids st ig = Inr st'"
    have g: "snd ig \<in> set (pg_task_alternative_groups program)"
      using ig by (auto simp: in_set_enumerate_eq) (metis nth_mem)
    have "snd st' = snd st @ option_pairs (map ao_active_task_ids (al_options (snd ig)))"
      using step by (auto simp: check_alternative_group_def Let_def split: prod.splits)
    then show "\<forall>(v, w) \<in> set (snd st'). alternates program v w"
      using inv g by (fastforce simp: alternates_def dest: option_pairs_members)
  qed simp
  then show ?thesis using assms(2) by (fastforce simp: pair_in_iff alternates_def)
qed

text \<open>What the writers recorded so far are, and what one output adds to them.\<close>

lemma producers_of_update [simp]:
  "producers_of (pb(y \<mapsto> ws)) x = (if x = y then ws else producers_of pb x)"
  by (simp add: producers_of_def)

lemma check_output_Inr:
  assumes "check_output ids pairs path task pb y = Inr pb'"
  shows "pb' = pb(y \<mapsto> producers_of pb y @ [tk_task_id task])"
    and "\<forall>w \<in> set (producers_of pb y). pair_in pairs w (tk_task_id task)"
  using assms unfolding check_output_def by (auto simp: list_all_iff)

lemma check_outputs_run:
  assumes "foldE (check_output ids pairs path task) pb outs = Inr pb'"
  shows "set (producers_of pb' x) = set (producers_of pb x) \<union> (if x \<in> set outs then {tk_task_id task} else {})
    \<and> (x \<in> set outs \<longrightarrow> (\<forall>w \<in> set (producers_of pb x). pair_in pairs w (tk_task_id task)))"
proof (rule foldE_invariant [OF assms, where P = "\<lambda>past t.
      set (producers_of t x) = set (producers_of pb x) \<union> (if x \<in> set past then {tk_task_id task} else {})
      \<and> (x \<in> set past \<longrightarrow> (\<forall>w \<in> set (producers_of pb x). pair_in pairs w (tk_task_id task)))"])
  fix past y zs t t'
  assume "set (producers_of t x) = set (producers_of pb x)
        \<union> (if x \<in> set past then {tk_task_id task} else {})
      \<and> (x \<in> set past \<longrightarrow> (\<forall>w \<in> set (producers_of pb x). pair_in pairs w (tk_task_id task)))"
    and "check_output ids pairs path task t y = Inr t'"
  then show "set (producers_of t' x) = set (producers_of pb x)
        \<union> (if x \<in> set (past @ [y]) then {tk_task_id task} else {})
      \<and> (x \<in> set (past @ [y]) \<longrightarrow> (\<forall>w \<in> set (producers_of pb x). pair_in pairs w (tk_task_id task)))"
    using check_output_Inr by (cases "x = y") (fastforce split: if_splits)+
qed simp

definition tasks_inv ::
    "shadow_spill_program \<Rightarrow> (string \<times> string) list \<Rightarrow> (nat \<times> task_spec) list
     \<Rightarrow> (string \<rightharpoonup> string list) \<times> string list \<Rightarrow> bool" where
  "tasks_inv program pairs past st \<longleftrightarrow>
     snd st = map (\<lambda>(i, t). tk_task_id t) past
     \<and> (\<forall>x. set (producers_of (fst st) x)
          = {tk_task_id t | i t. (i, t) \<in> set past \<and> x \<in> set (tk_outputs t)})
     \<and> (\<forall>(i, t) \<in> set past. task_in_program program i t
          \<and> (\<forall>x \<in> set (tk_outputs t). \<forall>j < i. x \<in> set (tk_outputs (pg_tasks program ! j)) \<longrightarrow>
               pair_in pairs (tk_task_id (pg_tasks program ! j)) (tk_task_id t)))"

lemma enumerate_prefix:
  assumes "enumerate 0 xs = ys @ (i, t) # zs"
  shows "i = length ys" "i < length xs" "t = xs ! i" "ys = enumerate 0 (take i xs)"
proof -
  have len: "length xs = length ys + Suc (length zs)"
    by (metis assms length_enumerate length_append length_Cons)
  then have at: "enumerate 0 xs ! length ys = (length ys, xs ! length ys)"
    by (simp add: nth_enumerate_eq)
  then show "i = length ys" "t = xs ! i" using assms by auto
  then show "i < length xs" using len by simp
  have "ys = take i (enumerate 0 xs)" using assms \<open>i = length ys\<close> by simp
  then show "ys = enumerate 0 (take i xs)" 
    using \<open>i < length xs\<close> by (simp add: enumerate_eq_zip take_zip)
qed

lemma check_task_Inr:
  assumes "check_task ids pairs (pb, seen) (i, t) = Inr st'"
  obtains path pb' where "st' = (pb', seen @ [tk_task_id t])"
    "known (id_device_ids ids) (rs_device_id (tk_resource t))"
    "known (id_profile_ids ids) (tk_profile_id t)"
    "set (tk_dependencies t) \<subseteq> set seen"
    "\<forall>x \<in> set (tk_inputs t) \<union> set (tk_outputs t). known (id_object_ids ids) x"
    "foldE (check_output ids pairs path t) pb (tk_outputs t) = Inr pb'"
    "\<forall>x \<in> set (tk_inputs t). producers_of pb' x = []
       \<or> (\<exists>p \<in> set (producers_of pb' x). p \<in> set (tk_dependencies t))"
    "mu_object_id ` set (tk_mutations t) \<subseteq> set (tk_inputs t)"
proof -
  let ?path = "at_index [Lit ''program.tasks''] i"
  have muts: "mu_object_id ` set ms \<subseteq> set (tk_inputs t)"
    if "checkE (check_mutation ids ?path t) (enumerate n ms) = Inr ()" for ms n
    using that by (induction ms arbitrary: n) (auto simp: check_mutation_def Let_def)
  from assms obtain pb' where R: "st' = (pb', seen @ [tk_task_id t])"
    "known (id_device_ids ids) (rs_device_id (tk_resource t))"
    "known (id_profile_ids ids) (tk_profile_id t)"
    "\<forall>d \<in> set (tk_dependencies t). d \<in> set seen"
    "\<forall>x \<in> set (tk_inputs t). known (id_object_ids ids) x"
    "\<forall>x \<in> set (tk_outputs t). known (id_object_ids ids) x"
    "foldE (check_output ids pairs ?path t) pb (tk_outputs t) = Inr pb'"
    "checkE (check_input ?path t pb') (tk_inputs t) = Inr ()"
    "checkE (check_mutation ids ?path t) (enumerate 0 (tk_mutations t)) = Inr ()"
    by (auto simp: check_task_def Let_def)
  have "\<forall>x \<in> set (tk_inputs t). producers_of pb' x = []
      \<or> (\<exists>p \<in> set (producers_of pb' x). p \<in> set (tk_dependencies t))"
    using R(8) by (simp add: checkE_Inr_iff check_input_def Let_def list_ex_iff)
  then show thesis
    using R muts [OF R(9)] by (intro that [of pb' ?path]) auto
qed

lemma tasks_inv_step:
  assumes ids: "index_identities program (map pf_profile_id (pg_profiles program)) = Inr ids"
    and inv: "tasks_inv program pairs past st" and at: "enumerate 0 (pg_tasks program) = past @ x # zs"
    and step: "check_task ids pairs st x = Inr st'"
  shows "tasks_inv program pairs (past @ [x]) st'"
proof -
  obtain i t where x: "x = (i, t)" by fastforce
  obtain pb seen where st: "st = (pb, seen)" by fastforce
  note pre = enumerate_prefix [OF at [unfolded x]]
  note I = index_identities_Inr [OF ids]
  from step obtain path pb' where R: "st' = (pb', seen @ [tk_task_id t])"
    "known (id_device_ids ids) (rs_device_id (tk_resource t))"
    "known (id_profile_ids ids) (tk_profile_id t)" "set (tk_dependencies t) \<subseteq> set seen"
    "\<forall>x \<in> set (tk_inputs t) \<union> set (tk_outputs t). known (id_object_ids ids) x"
    "foldE (check_output ids pairs path t) pb (tk_outputs t) = Inr pb'"
    "\<forall>x \<in> set (tk_inputs t). producers_of pb' x = []
       \<or> (\<exists>p \<in> set (producers_of pb' x). p \<in> set (tk_dependencies t))"
    "mu_object_id ` set (tk_mutations t) \<subseteq> set (tk_inputs t)"
    unfolding x st by (rule check_task_Inr)
  have seen: "set seen = {tk_task_id (pg_tasks program ! j) | j. j < i}"
  proof -
    have "set seen = (\<lambda>(j, u). tk_task_id u) ` set past" using inv st by (simp add: tasks_inv_def)
    also have "\<dots> = {tk_task_id (pg_tasks program ! j) | j. j < i}"
      using pre(2) unfolding pre(4) by (force simp: in_set_enumerate_eq image_iff)
    finally show ?thesis .
  qed
  have prods: "set (producers_of pb y)
      = {tk_task_id (pg_tasks program ! j) | j. j < i \<and> y \<in> set (tk_outputs (pg_tasks program ! j))}" for y
  proof -
    have "set (producers_of pb y) = {tk_task_id u | j u. (j, u) \<in> set past \<and> y \<in> set (tk_outputs u)}"
      using inv st by (simp add: tasks_inv_def)
    also have "\<dots> = {tk_task_id (pg_tasks program ! j) | j. j < i \<and> y \<in> set (tk_outputs (pg_tasks program ! j))}"
      using pre(2) unfolding pre(4) by (fastforce simp: in_set_enumerate_eq)
    finally show ?thesis .
  qed
  note outs = check_outputs_run [OF R(6)]
  have "tk_task_id t \<notin> set seen"
    using I(5) pre(2,3) seen by (auto simp: distinct_conv_nth)
  then have own: "tk_task_id t \<notin> set (tk_dependencies t)" using R(4) by blast
  have reads: "\<exists>j < i. y \<in> set (tk_outputs (pg_tasks program ! j))
      \<and> tk_task_id (pg_tasks program ! j) \<in> set (tk_dependencies t)"
    if y: "y \<in> set (tk_inputs t)" "\<exists>j \<le> i. y \<in> set (tk_outputs (pg_tasks program ! j))" for y
  proof -
    have "producers_of pb' y \<noteq> []"
    proof -
      from y(2) obtain j where "j \<le> i" "y \<in> set (tk_outputs (pg_tasks program ! j))" by blast
      then have "set (producers_of pb' y) \<noteq> {}"
        using outs [of y] prods [of y] pre(3) by (cases "j = i") auto
      then show ?thesis by auto
    qed
    then obtain p where p: "p \<in> set (producers_of pb' y)" "p \<in> set (tk_dependencies t)"
      using R(7) y(1) by blast
    then have "p \<in> set (producers_of pb y)" using outs [of y] own by (auto split: if_splits)
    then show ?thesis using prods [of y] p(2) by auto
  qed
  have "task_in_program program i t"
    using R(2,3,5) [unfolded I(7,9,10) positions_of_known] R(4,8) reads seen
    unfolding task_in_program_def by auto
  moreover have "pair_in pairs (tk_task_id (pg_tasks program ! j)) (tk_task_id t)"
    if "y \<in> set (tk_outputs t)" "j < i" "y \<in> set (tk_outputs (pg_tasks program ! j))" for y j
    using outs [of y] prods [of y] that by auto
  moreover have "set (producers_of pb' y)
      = {tk_task_id u | j u. (j, u) \<in> set (past @ [x]) \<and> y \<in> set (tk_outputs u)}" for y
    using outs [of y] inv st x by (auto simp: tasks_inv_def)
  ultimately show ?thesis using inv st R(1) x by (simp add: tasks_inv_def)
qed

lemma check_tasks_inv:
  assumes "index_identities program (map pf_profile_id (pg_profiles program)) = Inr ids"
    and "check_tasks program ids pairs = Inr ()"
  shows "\<exists>st. tasks_inv program pairs (enumerate 0 (pg_tasks program)) st"
proof -
  obtain st where run: "foldE (check_task ids pairs) (Map.empty, []) (enumerate 0 (pg_tasks program)) = Inr st"
    using assms(2) by (auto simp: check_tasks_def)
  have "tasks_inv program pairs (enumerate 0 (pg_tasks program)) st"
  proof (rule foldE_invariant [OF run])
    show "tasks_inv program pairs [] (Map.empty, [])" by (simp add: tasks_inv_def producers_of_def)
  qed (rule tasks_inv_step [OF assms(1)])
  then show ?thesis ..
qed

lemma program_post_init_objects:
  assumes "index_identities program keys = Inr ids" "check_objects program ids = Inr ()"
    and "b \<in> set (pg_objects program)"
  shows "\<exists>g \<in> set (pg_alias_groups program). ag_alias_group_id g = ob_alias_group_id b
    \<and> ob_offset_bytes b + ob_size_bytes b \<le> ag_size_bytes g"
proof -
  obtain i where i: "i < length (pg_objects program)" "b = pg_objects program ! i"
    using assms(3) by (auto simp: in_set_conv_nth)
  then have "(i, b) \<in> set (enumerate 0 (pg_objects program))" by (simp add: in_set_enumerate_eq)
  then have "check_object ids (i, b) = Inr ()"
    using assms(2) by (auto simp: check_objects_def checkE_Inr_iff)
  then obtain g where "id_alias_by_id ids (ob_alias_group_id b) = Some g"
    "ob_offset_bytes b + ob_size_bytes b \<le> ag_size_bytes g"
    by (auto simp: check_object_def Let_def split: option.splits)
  then show ?thesis
    using dict_of_records unfolding index_identities_Inr(12) [OF assms(1)] by fastforce
qed

lemma program_post_init_groups:
  assumes "index_identities program keys = Inr ids" "check_alias_groups program ids = Inr ()"
    and "g \<in> set (pg_alias_groups program)"
  shows "ag_device_id g \<in> dv_device_id ` set (pg_devices program)"
proof -
  obtain i where i: "i < length (pg_alias_groups program)" "g = pg_alias_groups program ! i"
    using assms(3) by (auto simp: in_set_conv_nth)
  then have "(i, g) \<in> set (enumerate 0 (pg_alias_groups program))" by (simp add: in_set_enumerate_eq)
  then have "known (id_device_ids ids) (ag_device_id g)"
    using assms(2) by (auto simp: check_alias_groups_def checkE_Inr_iff)
  then show ?thesis by (simp only: index_identities_Inr(7) [OF assms(1)] positions_of_known set_map)
qed

lemma program_post_init_well_formed:
  assumes "program_post_init program = Inr ()"
  shows "well_formed program"
proof -
  from assms obtain ids pairs where R: "require_shapes program = Inr ()"
    "index_identities program (map pf_profile_id (pg_profiles program)) = Inr ids"
    "check_alias_groups program ids = Inr ()" "check_objects program ids = Inr ()"
    "check_alternative_groups program ids = Inr pairs" "check_tasks program ids pairs = Inr ()"
    by (auto simp: program_post_init_def)
  note I = index_identities_Inr [OF R(2)]
  obtain st where st: "tasks_inv program pairs (enumerate 0 (pg_tasks program)) st"
    using check_tasks_inv [OF R(2,6)] by blast
  have each: "task_in_program program i (pg_tasks program ! i)
      \<and> (\<forall>x \<in> set (tk_outputs (pg_tasks program ! i)). \<forall>j < i.
           x \<in> set (tk_outputs (pg_tasks program ! j)) \<longrightarrow>
           pair_in pairs (tk_task_id (pg_tasks program ! j)) (tk_task_id (pg_tasks program ! i)))"
    if "i < length (pg_tasks program)" for i
  proof -
    have "(i, pg_tasks program ! i) \<in> set (enumerate 0 (pg_tasks program))"
      using that by (simp add: in_set_enumerate_eq)
    then show ?thesis using st by (auto simp: tasks_inv_def)
  qed
  have "alternates program (tk_task_id (pg_tasks program ! i)) (tk_task_id (pg_tasks program ! j))"
    if "j < length (pg_tasks program)" "i < j" "x \<in> set (tk_outputs (pg_tasks program ! i))"
      "x \<in> set (tk_outputs (pg_tasks program ! j))" for i j x
    using each [OF that(1)] that check_alternative_groups_pairs [OF R(5)] by blast
  moreover have "pg_devices program \<noteq> []" using R(1) by (simp add: require_shapes_def)
  ultimately show ?thesis
    unfolding well_formed_def
    using I(1-6) each program_post_init_groups [OF R(2,3)] program_post_init_objects [OF R(2,4)] by blast
qed

end
