(* ===== verification/Program.thy ===== *)
theory Program
  imports Program_Checks
begin

text \<open>
  One program (\<^verbatim>\<open>src/shadowspill/ir/program/__init__.py\<close>): its dictionary form and decoder, the
  tasks a selection activates, and the one-entry cache of the last selection. The digest and
  the JSON text go through \<^verbatim>\<open>hashlib\<close> and \<^verbatim>\<open>json\<close> and are not modelled.
\<close>

section \<open>The dictionary form\<close>

text \<open>\<^verbatim>\<open>src/shadowspill/schema.py\<close>: the schema name carries the version in decimal.\<close>

definition ARTIFACT_VERSION :: string where "ARTIFACT_VERSION = ''1''"

definition artifact_schema :: "string \<Rightarrow> string" where
  "artifact_schema kind = ''shadowspill.'' @ kind @ ''/v'' @ ARTIFACT_VERSION"

definition program_schema :: string where "program_schema = artifact_schema ''program''"

definition program_to_dict :: "shadow_spill_program \<Rightarrow> pyval" where
  "program_to_dict self =
     dict_lit [(''alias_groups'', PList (map alias_group_spec_to_dict (pg_alias_groups self))),
               (''devices'', PList (map device_spec_to_dict (pg_devices self))),
               (''objects'', PList (map object_spec_to_dict (pg_objects self))),
               (''profiles'', PList (map task_profile_to_dict (pg_profiles self))),
               (''task_alternative_groups'',
                 PList (map task_alternative_group_to_dict (pg_task_alternative_groups self))),
               (''schema'', PStr program_schema),
               (''tasks'', PList (map task_spec_to_dict (pg_tasks self)))]"

definition program_from_dict :: "pyval \<Rightarrow> py_error + shadow_spill_program" where
  "program_from_dict value =
     (let path = [Lit ''program'']
      in bindE (expect_mapping value path) (\<lambda>data.
         bindE (string_field data ''schema'' path) (\<lambda>schema.
         bindE (require (schema = program_schema) (at_field path ''schema'')
           [Lit ''unsupported schema '', Repr schema]) (\<lambda>_.
         bindE (list_field data ''devices'' path) (\<lambda>devices.
         bindE (list_field data ''alias_groups'' path) (\<lambda>aliases.
         bindE (list_field data ''objects'' path) (\<lambda>objects.
         bindE (list_field data ''profiles'' path) (\<lambda>profiles.
         bindE (list_field data ''tasks'' path) (\<lambda>tasks.
         bindE (list_field data ''task_alternative_groups'' path) (\<lambda>groups.
         bindE (decode_list device_spec_from_value devices (at_field path ''devices'')) (\<lambda>devices.
         bindE (decode_list alias_group_spec_from_value aliases (at_field path ''alias_groups''))
           (\<lambda>alias_groups.
         bindE (decode_list object_spec_from_value objects (at_field path ''objects'')) (\<lambda>objects.
         bindE (decode_list task_profile_from_value profiles (at_field path ''profiles'')) (\<lambda>profiles.
         bindE (decode_list task_spec_from_value tasks (at_field path ''tasks'')) (\<lambda>tasks.
         bindE (decode_list task_alternative_group_from_value groups
           (at_field path ''task_alternative_groups'')) (\<lambda>groups.
           construct program_post_init
             \<lparr>pg_devices = devices, pg_alias_groups = alias_groups, pg_objects = objects,
              pg_profiles = profiles, pg_tasks = tasks,
              pg_task_alternative_groups = groups\<rparr>))))))))))))))))"


section \<open>Selections\<close>

definition without_inactive_dependencies :: "task_spec \<Rightarrow> string list \<Rightarrow> py_error + task_spec" where
  "without_inactive_dependencies task active =
     (let dependencies = filter (\<lambda>d. d \<in> set active) (tk_dependencies task)
      in if length dependencies = length (tk_dependencies task) then Inr task
         else construct task_spec_post_init (task\<lparr>tk_dependencies := dependencies\<rparr>))"

definition select_group ::
    "(string \<rightharpoonup> task_alternative_choice) \<Rightarrow> string list \<times> string list \<Rightarrow> task_alternative_group
     \<Rightarrow> py_error + (string list \<times> string list)" where
  "select_group selection_by_group st choice_group =
     (case st of (variant_tasks, active_variant_tasks) \<Rightarrow>
        let options = dict_of (map (\<lambda>x. (ao_option_id x, x)) (al_options choice_group))
        in bindE (dict_get selection_by_group (al_group_id choice_group)) (\<lambda>selection.
           bindE (require (known options (ac_option_id selection)) [Lit ''selections'']
             [Lit ''unknown option '', Repr (ac_option_id selection), Lit '' for group '',
              Repr (al_group_id choice_group)]) (\<lambda>_.
           bindE (dict_get options (ac_option_id selection)) (\<lambda>option.
             Inr (variant_tasks @ concat (map ao_active_task_ids (al_options choice_group)),
                  active_variant_tasks @ ao_active_task_ids option)))))"

definition check_selected_output ::
    "task_spec \<Rightarrow> (string \<rightharpoonup> string) \<Rightarrow> string \<Rightarrow> py_error + (string \<rightharpoonup> string)" where
  "check_selected_output task produced_by output =
     bindE (require (\<not> known produced_by output) [Lit ''selections'']
       [Lit ''selected tasks produce object '', Repr output, Lit '' more than once'']) (\<lambda>_.
       Inr (produced_by(output \<mapsto> tk_task_id task)))"

definition check_selected_task ::
    "(string \<rightharpoonup> string) \<Rightarrow> task_spec \<Rightarrow> py_error + (string \<rightharpoonup> string)" where
  "check_selected_task produced_by task =
     bindE (foldE (check_selected_output task) produced_by (tk_outputs task)) (\<lambda>produced_by.
     bindE (checkE (\<lambda>input_id.
         case produced_by input_id of
           None \<Rightarrow> Inr ()
         | Some producer \<Rightarrow>
             require (producer \<in> set (tk_dependencies task)) [Lit ''selections'']
               [Lit ''task '', Repr (tk_task_id task), Lit '' omits active producer '', Repr producer])
       (tk_inputs task)) (\<lambda>_. Inr produced_by))"

definition select_tasks ::
    "shadow_spill_program \<Rightarrow> task_alternative_choice list \<Rightarrow> py_error + task_spec list" where
  "select_tasks self selections =
     (let selection_by_group = dict_of (map (\<lambda>c. (ac_group_id c, c)) selections)
      in bindE (require (length (remdups (map ac_group_id selections)) = length selections)
           [Lit ''selections''] [Lit ''contains duplicate group IDs'']) (\<lambda>_.
         bindE (require (set (map ac_group_id selections)
               = set (map al_group_id (pg_task_alternative_groups self)))
           [Lit ''selections'']
           [Lit ''must select exactly one option from every task-alternative group'']) (\<lambda>_.
         bindE (foldE (select_group selection_by_group) ([], []) (pg_task_alternative_groups self))
           (\<lambda>(variant_tasks, active_variant_tasks).
         let selected_ids = filter (\<lambda>t. t \<notin> set variant_tasks \<or> t \<in> set active_variant_tasks)
               (map tk_task_id (pg_tasks self))
         in bindE (mapE (\<lambda>task. without_inactive_dependencies task selected_ids)
               (filter (\<lambda>task. tk_task_id task \<in> set selected_ids) (pg_tasks self))) (\<lambda>selected.
            bindE (foldE check_selected_task Map.empty selected) (\<lambda>_. Inr selected))))))"

text \<open>
  \<^verbatim>\<open>selected_tasks\<close> with its cache, the selections and tasks of the last success: the result and
  the cache after the call.
\<close>

type_synonym selected_cache = "(task_alternative_choice list \<times> task_spec list) option"

definition selected_tasks ::
    "shadow_spill_program \<Rightarrow> selected_cache \<Rightarrow> task_alternative_choice list
     \<Rightarrow> (py_error + task_spec list) \<times> selected_cache" where
  "selected_tasks self cached selections =
     (case cached of
        Some (held, tasks) \<Rightarrow>
          if held = selections then (Inr tasks, cached)
          else (case select_tasks self selections of
                  Inl e \<Rightarrow> (Inl e, cached)
                | Inr selected \<Rightarrow> (Inr selected, Some (selections, selected)))
      | None \<Rightarrow>
          (case select_tasks self selections of
             Inl e \<Rightarrow> (Inl e, cached)
           | Inr selected \<Rightarrow> (Inr selected, Some (selections, selected))))"

text \<open>
  \<^verbatim>\<open>canonical_index\<close>. \<^verbatim>\<open>isdigit\<close> also holds of the superscript digits, which \<^verbatim>\<open>int\<close> then
  refuses; its own message is not modelled and the error is a \<open>ValueError\<close> without parts.
\<close>

definition py_isdigit :: "char \<Rightarrow> bool" where
  "py_isdigit c = (of_char c \<in> set ([48..<58] @ [178, 179, 185 :: nat]))"

definition digit_value :: "char \<Rightarrow> int option" where
  "digit_value c = (if of_char c \<in> set [48..<58] then Some (of_char c - 48) else None)"

fun digits_value :: "int \<Rightarrow> string \<Rightarrow> int option" where
  "digits_value acc [] = Some acc"
| "digits_value acc (c # cs) =
     (case digit_value c of None \<Rightarrow> None | Some d \<Rightarrow> digits_value (10 * acc + d) cs)"

definition canonical_index :: "string \<Rightarrow> string \<Rightarrow> py_error + int" where
  "canonical_index value prefx =
     (let starts = (take (length prefx) value = prefx);
          suffix = (if starts then drop (length prefx) value else value)
      in if \<not> starts \<or> suffix = [] \<or> \<not> list_all py_isdigit suffix then
           Inl (ValueError [Lit ''identity '', Repr value, Lit '' is not '', Lit prefx, Lit ''<index>''])
         else case digits_value 0 suffix of
                Some i \<Rightarrow> Inr i
              | None \<Rightarrow> Inl (ValueError []))"

section \<open>What an accepted program and its selections satisfy\<close>

definition valid_program :: "shadow_spill_program \<Rightarrow> bool" where
  "valid_program p \<longleftrightarrow> program_post_init p = Inr ()
     \<and> (\<forall>x \<in> set (pg_devices p). valid_device x)
     \<and> (\<forall>x \<in> set (pg_alias_groups p). valid_alias_group x)
     \<and> (\<forall>x \<in> set (pg_objects p). valid_object x)
     \<and> (\<forall>x \<in> set (pg_profiles p). valid_profile x)
     \<and> (\<forall>x \<in> set (pg_tasks p). valid_task x)
     \<and> (\<forall>x \<in> set (pg_task_alternative_groups p). valid_group x)"

lemma program_eta [simp]:
  "\<lparr>pg_devices = pg_devices p, pg_alias_groups = pg_alias_groups p, pg_objects = pg_objects p,
    pg_profiles = pg_profiles p, pg_tasks = pg_tasks p,
    pg_task_alternative_groups = pg_task_alternative_groups p\<rparr> = p"
  by simp

lemmas record_lists_encode = device.decode_list_encode alias_group.decode_list_encode
  object_codec.decode_list_encode profile.decode_list_encode task.decode_list_encode
  group.decode_list_encode

lemmas record_lists_valid = device.decode_list_valid alias_group.decode_list_valid
  object_codec.decode_list_valid profile.decode_list_valid task.decode_list_valid
  group.decode_list_valid

interpretation program: codec program_to_dict "\<lambda>v path. program_from_dict v" valid_program
proof unfold_locales
  fix p
  assume "valid_program p"
  then show "program_from_dict (program_to_dict p) = Inr p"
    by (simp add: valid_program_def program_from_dict_def program_to_dict_def decode_simps
        record_lists_encode Let_def)
next
  fix v p
  assume "program_from_dict v = Inr p"
  then show "valid_program p"
    by (auto simp: program_from_dict_def valid_program_def construct_Inr_iff Let_def
        dest: record_lists_valid)
qed

text \<open>A task takes part when no group offers it, or the selection chooses it.\<close>

definition takes_part :: "shadow_spill_program \<Rightarrow> task_alternative_choice list \<Rightarrow> string \<Rightarrow> bool" where
  "takes_part p selections t \<longleftrightarrow>
     (\<forall>g \<in> set (pg_task_alternative_groups p). \<forall>x \<in> set (al_options g). t \<notin> set (ao_active_task_ids x))
     \<or> (\<exists>g \<in> set (pg_task_alternative_groups p). \<exists>x \<in> set (al_options g). \<exists>c \<in> set selections.
          ac_group_id c = al_group_id g \<and> ac_option_id c = ao_option_id x
          \<and> t \<in> set (ao_active_task_ids x))"

lemma select_group_Inr:
  assumes "select_group sel (vs, as) g = Inr st'"
  shows "\<exists>c x. sel (al_group_id g) = Some c \<and> x \<in> set (al_options g) \<and> ao_option_id x = ac_option_id c
    \<and> st' = (vs @ concat (map ao_active_task_ids (al_options g)), as @ ao_active_task_ids x)"
  using assms unfolding select_group_def
  by (auto simp: Let_def dict_get_Inr_iff) (metis dict_of_records)

definition chosen :: "(string \<rightharpoonup> task_alternative_choice) \<Rightarrow> task_alternative_group \<Rightarrow> string set" where
  "chosen sel g = {t. \<exists>c. \<exists>x \<in> set (al_options g). sel (al_group_id g) = Some c
     \<and> ac_option_id c = ao_option_id x \<and> t \<in> set (ao_active_task_ids x)}"

lemma valid_group_options:
  "valid_group g \<Longrightarrow> x \<in> set (al_options g) \<Longrightarrow> y \<in> set (al_options g) \<Longrightarrow>
    ao_option_id x = ao_option_id y \<Longrightarrow> x = y"
  by (auto simp: valid_group_def task_alternative_group_post_init_def index_unique_run distinct_map
      dest: inj_onD)

lemma select_groups_run:
  assumes "foldE (select_group sel) ([], []) groups = Inr (vs, as)" "\<forall>g \<in> set groups. valid_group g"
  shows "set vs = (\<Union>g \<in> set groups. \<Union>x \<in> set (al_options g). set (ao_active_task_ids x))"
    and "set as = (\<Union>g \<in> set groups. chosen sel g)"
proof -
  have "set (fst (vs, as)) = (\<Union>g \<in> set groups. \<Union>x \<in> set (al_options g). set (ao_active_task_ids x))
    \<and> set (snd (vs, as)) = (\<Union>g \<in> set groups. chosen sel g)"
  proof (rule foldE_invariant [OF assms(1), where P = "\<lambda>past st.
      set (fst st) = (\<Union>g \<in> set past. \<Union>x \<in> set (al_options g). set (ao_active_task_ids x))
      \<and> set (snd st) = (\<Union>g \<in> set past. chosen sel g)"])
    fix past g zs st st'
    assume inv: "set (fst st) = (\<Union>g \<in> set past. \<Union>x \<in> set (al_options g). set (ao_active_task_ids x))
        \<and> set (snd st) = (\<Union>g \<in> set past. chosen sel g)"
      and at: "groups = past @ g # zs" and step: "select_group sel st g = Inr st'"
    have g: "valid_group g" using assms(2) at by simp
    obtain vs as where st: "st = (vs, as)" by fastforce
    obtain c x where cx: "sel (al_group_id g) = Some c" "x \<in> set (al_options g)"
      "ao_option_id x = ac_option_id c"
      "st' = (vs @ concat (map ao_active_task_ids (al_options g)), as @ ao_active_task_ids x)"
      using select_group_Inr step unfolding st by blast
    have only: "y = x" if "y \<in> set (al_options g)" "ac_option_id c = ao_option_id y" for y
      using valid_group_options [OF g that(1) cx(2)] that(2) cx(3) by simp
    have "chosen sel g = set (ao_active_task_ids x)"
    proof -
      have "chosen sel g = {t. \<exists>y \<in> set (al_options g). ac_option_id c = ao_option_id y
          \<and> t \<in> set (ao_active_task_ids y)}"
        using cx(1) by (simp add: chosen_def)
      also have "\<dots> = set (ao_active_task_ids x)" using cx(2) cx(3) [symmetric] only by blast
      finally show ?thesis .
    qed
    then show "set (fst st') = (\<Union>g \<in> set (past @ [g]). \<Union>x \<in> set (al_options g). set (ao_active_task_ids x))
        \<and> set (snd st') = (\<Union>g \<in> set (past @ [g]). chosen sel g)"
      using inv cx(4) st by auto
  qed simp
  then show "set vs = (\<Union>g \<in> set groups. \<Union>x \<in> set (al_options g). set (ao_active_task_ids x))"
    "set as = (\<Union>g \<in> set groups. chosen sel g)" by simp_all
qed

lemma check_selected_outputs_run:
  assumes "foldE (check_selected_output task) pb outs = Inr pb'"
  shows "(\<forall>x \<in> set outs. pb x = None)
    \<and> pb' = (\<lambda>x. if x \<in> set outs then Some (tk_task_id task) else pb x)"
  by (rule foldE_invariant [OF assms, where P = "\<lambda>past t. (\<forall>x \<in> set past. pb x = None)
      \<and> t = (\<lambda>x. if x \<in> set past then Some (tk_task_id task) else pb x)"])
    (auto simp: check_selected_output_def fun_eq_iff split: if_splits)

definition produces_alone :: "task_spec list \<Rightarrow> bool" where
  "produces_alone ts \<longleftrightarrow>
     (\<forall>i < length ts. \<forall>j < length ts. \<forall>x. x \<in> set (tk_outputs (ts ! i)) \<and> x \<in> set (tk_outputs (ts ! j)) \<longrightarrow> i = j)
     \<and> (\<forall>i < length ts. \<forall>x \<in> set (tk_inputs (ts ! i)). \<forall>j \<le> i. x \<in> set (tk_outputs (ts ! j)) \<longrightarrow>
          tk_task_id (ts ! j) \<in> set (tk_dependencies (ts ! i)))"

definition produced_by_inv :: "task_spec list \<Rightarrow> (string \<rightharpoonup> string) \<Rightarrow> bool" where
  "produced_by_inv ts pb \<longleftrightarrow> produces_alone ts
     \<and> (\<forall>x w. pb x = Some w \<longleftrightarrow> (\<exists>i < length ts. x \<in> set (tk_outputs (ts ! i)) \<and> w = tk_task_id (ts ! i)))"

lemma check_selected_task_step:
  assumes "produced_by_inv past pb" "check_selected_task pb t = Inr pb'"
  shows "produced_by_inv (past @ [t]) pb'"
proof -
  from assms(2) have outs: "foldE (check_selected_output t) pb (tk_outputs t) = Inr pb'"
    and ins: "\<forall>x \<in> set (tk_inputs t). \<forall>w. pb' x = Some w \<longrightarrow> w \<in> set (tk_dependencies t)"
    by (auto simp: check_selected_task_def checkE_Inr_iff split: option.splits)
  note R = check_selected_outputs_run [OF outs]
  have fresh: "x \<notin> set (tk_outputs (past ! i))" if "x \<in> set (tk_outputs t)" "i < length past" for x i
    using R assms(1) that by (metis option.distinct(1) produced_by_inv_def)
  have P: "pb' x = Some w \<longleftrightarrow> (\<exists>i < length (past @ [t]). x \<in> set (tk_outputs ((past @ [t]) ! i))
      \<and> w = tk_task_id ((past @ [t]) ! i))" for x w
    using R assms(1) fresh unfolding produced_by_inv_def
    by (auto simp: nth_append less_Suc_eq)
  have "produces_alone (past @ [t])"
    unfolding produces_alone_def
  proof (intro conjI allI impI ballI)
    fix i j x
    assume "i < length (past @ [t])" "j < length (past @ [t])"
      "x \<in> set (tk_outputs ((past @ [t]) ! i)) \<and> x \<in> set (tk_outputs ((past @ [t]) ! j))"
    then show "i = j"
      using assms(1) fresh unfolding produced_by_inv_def produces_alone_def
      by (auto simp: nth_append less_Suc_eq split: if_splits) blast+
  next
    fix i x j
    assume i: "i < length (past @ [t])" and x: "x \<in> set (tk_inputs ((past @ [t]) ! i))"
      and j: "j \<le> i" "x \<in> set (tk_outputs ((past @ [t]) ! j))"
    show "tk_task_id ((past @ [t]) ! j) \<in> set (tk_dependencies ((past @ [t]) ! i))"
    proof (cases "i < length past")
      case True
      then show ?thesis
        using assms(1) x j unfolding produced_by_inv_def produces_alone_def
        by (auto simp: nth_append)
    next
      case False
      then have "i = length past" using i by simp
      moreover have "pb' x = Some (tk_task_id ((past @ [t]) ! j))"
        using P j i by fastforce
      ultimately show ?thesis using ins x by (simp add: nth_append)
    qed
  qed
  then show ?thesis using P by (simp add: produced_by_inv_def)
qed

lemma without_inactive_Inr:
  "without_inactive_dependencies t active = Inr t' \<Longrightarrow>
    t' = t\<lparr>tk_dependencies := filter (\<lambda>d. d \<in> set active) (tk_dependencies t)\<rparr>"
proof -
  assume run: "without_inactive_dependencies t active = Inr t'"
  let ?ds = "filter (\<lambda>d. d \<in> set active) (tk_dependencies t)"
  show ?thesis
  proof (cases "length ?ds = length (tk_dependencies t)")
    case True
    then have "?ds = tk_dependencies t"
      by (metis filter_id_conv length_filter_less nat_neq_iff)
    then show ?thesis using run True by (simp add: without_inactive_dependencies_def Let_def)
  next
    case False
    then show ?thesis
      using run by (simp add: without_inactive_dependencies_def Let_def construct_Inr_iff)
  qed
qed

lemma mapE_eq_map:
  "mapE f xs = Inr ys \<Longrightarrow> (\<And>x y. x \<in> set xs \<Longrightarrow> f x = Inr y \<Longrightarrow> y = g x) \<Longrightarrow> ys = map g xs"
  by (induction xs arbitrary: ys) auto

lemma length_remdups_distinct: "length (remdups (map f xs)) = length xs \<longleftrightarrow> distinct (map f xs)"
  by (metis card_distinct distinct_remdups_id length_map length_remdups_card_conv)

lemma choice_lookup:
  assumes "distinct (map ac_group_id selections)"
  shows "dict_of (map (\<lambda>c. (ac_group_id c, c)) selections) k = Some c
    \<longleftrightarrow> c \<in> set selections \<and> ac_group_id c = k"
proof
  show "dict_of (map (\<lambda>c. (ac_group_id c, c)) selections) k = Some c
    \<Longrightarrow> c \<in> set selections \<and> ac_group_id c = k" by (rule dict_of_records)
  have "distinct (map fst (map (\<lambda>c. (ac_group_id c, c)) selections))" using assms by (simp add: comp_def)
  then show "c \<in> set selections \<and> ac_group_id c = k
    \<Longrightarrow> dict_of (map (\<lambda>c. (ac_group_id c, c)) selections) k = Some c"
    by (intro dict_of_distinct) auto
qed

lemma selected_part:
  assumes "valid_program p" "distinct (map ac_group_id selections)"
    and "foldE (select_group (dict_of (map (\<lambda>c. (ac_group_id c, c)) selections))) ([], [])
      (pg_task_alternative_groups p) = Inr (vs, as)"
  shows "(t \<in> set vs \<longrightarrow> t \<in> set as) \<longleftrightarrow> takes_part p selections t"
proof -
  have "\<forall>g \<in> set (pg_task_alternative_groups p). valid_group g"
    using assms(1) by (simp add: valid_program_def)
  note G = select_groups_run [OF assms(3) this]
  show ?thesis
    unfolding G takes_part_def chosen_def choice_lookup [OF assms(2)] by (simp, blast)
qed

lemma select_tasks_Inr:
  assumes "valid_program p" "select_tasks p selections = Inr ts"
  shows "ts = map (\<lambda>t. t\<lparr>tk_dependencies := filter (\<lambda>d. d \<in> tk_task_id ` set (pg_tasks p)
            \<and> takes_part p selections d) (tk_dependencies t)\<rparr>)
        (filter (\<lambda>t. takes_part p selections (tk_task_id t)) (pg_tasks p))"
    and "produces_alone ts"
proof -
  let ?sel = "dict_of (map (\<lambda>c. (ac_group_id c, c)) selections)"
  from assms(2) obtain vs as pb where R:
    "length (remdups (map ac_group_id selections)) = length selections"
    "foldE (select_group ?sel) ([], []) (pg_task_alternative_groups p) = Inr (vs, as)"
    "mapE (\<lambda>task. without_inactive_dependencies task
        (filter (\<lambda>t. t \<notin> set vs \<or> t \<in> set as) (map tk_task_id (pg_tasks p))))
      (filter (\<lambda>task. tk_task_id task
          \<in> set (filter (\<lambda>t. t \<notin> set vs \<or> t \<in> set as) (map tk_task_id (pg_tasks p)))) (pg_tasks p))
      = Inr ts"
    "foldE check_selected_task Map.empty ts = Inr pb"
    by (auto simp: select_tasks_def Let_def)
  have dist: "distinct (map ac_group_id selections)"
    using R(1) by (simp only: length_remdups_distinct)
  note part = selected_part [OF assms(1) dist R(2)]
  show "ts = map (\<lambda>t. t\<lparr>tk_dependencies := filter (\<lambda>d. d \<in> tk_task_id ` set (pg_tasks p)
            \<and> takes_part p selections d) (tk_dependencies t)\<rparr>)
        (filter (\<lambda>t. takes_part p selections (tk_task_id t)) (pg_tasks p))"
  proof -
    have same: "filter (\<lambda>task. tk_task_id task
          \<in> set (filter (\<lambda>t. t \<notin> set vs \<or> t \<in> set as) (map tk_task_id (pg_tasks p)))) (pg_tasks p)
        = filter (\<lambda>t. takes_part p selections (tk_task_id t)) (pg_tasks p)"
    proof (rule filter_cong)
      show "(tk_task_id t \<in> set (filter (\<lambda>t. t \<notin> set vs \<or> t \<in> set as) (map tk_task_id (pg_tasks p))))
          = takes_part p selections (tk_task_id t)" if "t \<in> set (pg_tasks p)" for t
        using that part by simp
    qed simp
    then show ?thesis
      by (intro mapE_eq_map [OF R(3) [unfolded same]])
        (auto dest!: without_inactive_Inr simp: part image_iff)
  qed
  have "produced_by_inv ts pb"
  proof (rule foldE_invariant [OF R(4)])
    show "produced_by_inv [] Map.empty" by (simp add: produced_by_inv_def produces_alone_def)
  qed (rule check_selected_task_step)
  then show "produces_alone ts" by (simp add: produced_by_inv_def)
qed

lemma well_formed_task:
  assumes "well_formed p" "pg_tasks p = before @ u # after"
  shows "task_in_program p (length before) u"
proof -
  have "\<forall>i < length (pg_tasks p). task_in_program p i (pg_tasks p ! i)"
    using assms(1) unfolding well_formed_def by blast
  moreover have "length before < length (pg_tasks p)" "pg_tasks p ! length before = u"
    using assms(2) by simp_all
  ultimately show ?thesis by blast
qed

lemma filter_split:
  "filter P xs = as @ u # bs \<Longrightarrow> \<exists>before after. xs = before @ u # after \<and> as = filter P before"
proof (induction xs arbitrary: as)
  case Nil
  then show ?case by simp
next
  case (Cons x xs)
  show ?case
  proof (cases "P x \<and> as = []")
    case True
    then show ?thesis using Cons.prems by (intro exI [of _ "[]"] exI [of _ xs]) auto
  next
    case False
    then obtain as' where as': "filter P xs = as' @ u # bs" "as = filter P [x] @ as'"
      using Cons.prems by (cases as) (auto split: if_splits)
    then obtain before after where "xs = before @ u # after" "as' = filter P before"
      using Cons.IH by blast
    then show ?thesis using as'(2) by (intro exI [of _ "x # before"] exI [of _ after]) auto
  qed
qed

lemma selected_dependencies_precede:
  assumes "valid_program p" "select_tasks p selections = Inr ts" "ts = as @ t # bs"
  shows "set (tk_dependencies t) \<subseteq> tk_task_id ` set as"
proof
  fix d
  assume d: "d \<in> set (tk_dependencies t)"
  let ?P = "\<lambda>t. takes_part p selections (tk_task_id t)"
  let ?f = "\<lambda>t. t\<lparr>tk_dependencies := filter (\<lambda>d. d \<in> tk_task_id ` set (pg_tasks p)
      \<and> takes_part p selections d) (tk_dependencies t)\<rparr>"
  have "map ?f (filter ?P (pg_tasks p)) = as @ t # bs"
    using select_tasks_Inr(1) [OF assms(1,2)] assms(3) by simp
  then obtain as' u bs' where split: "filter ?P (pg_tasks p) = as' @ u # bs'" "as = map ?f as'" "t = ?f u"
    by (auto simp: map_eq_append_conv map_eq_Cons_conv)
  then obtain before after where tasks: "pg_tasks p = before @ u # after" "as' = filter ?P before"
    using filter_split by metis
  have wf: "well_formed p" using assms(1) program_post_init_well_formed by (simp add: valid_program_def)
  then have "task_in_program p (length before) u" using tasks(1) by (rule well_formed_task)
  then have "\<exists>j < length before. d = tk_task_id (pg_tasks p ! j)"
    using d split(3) tasks(1) by (auto simp: task_in_program_def)
  then obtain v where "v \<in> set before" "tk_task_id v = d"
    using tasks(1) by (auto simp: nth_append) (metis nth_mem)
  moreover have "takes_part p selections d" using d split(3) by simp
  ultimately show "d \<in> tk_task_id ` set as"
    unfolding split(2) tasks(2) by (auto simp: image_image intro!: rev_image_eqI [of v])
qed

section \<open>When selecting is refused\<close>

definition complete_choice :: "shadow_spill_program \<Rightarrow> task_alternative_choice list \<Rightarrow> bool" where
  "complete_choice p selections \<longleftrightarrow>
     distinct (map ac_group_id selections)
     \<and> set (map ac_group_id selections) = set (map al_group_id (pg_task_alternative_groups p))
     \<and> (\<forall>g \<in> set (pg_task_alternative_groups p). \<forall>c \<in> set selections.
          ac_group_id c = al_group_id g \<longrightarrow> ac_option_id c \<in> ao_option_id ` set (al_options g))"

definition active_selection :: "shadow_spill_program \<Rightarrow> task_alternative_choice list \<Rightarrow> task_spec list" where
  "active_selection p selections =
     map (\<lambda>t. t\<lparr>tk_dependencies := filter (\<lambda>d. d \<in> tk_task_id ` set (pg_tasks p)
            \<and> takes_part p selections d) (tk_dependencies t)\<rparr>)
        (filter (\<lambda>t. takes_part p selections (tk_task_id t)) (pg_tasks p))"

text \<open>What a refused selection is blamed on: two active writers, or a reader of an active writer.\<close>

definition selection_conflict :: "task_spec list \<Rightarrow> fstring \<Rightarrow> bool" where
  "selection_conflict ts m \<longleftrightarrow>
     (\<exists>i j x. i < j \<and> j < length ts \<and> x \<in> set (tk_outputs (ts ! i)) \<and> x \<in> set (tk_outputs (ts ! j))
        \<and> m = [Lit ''selected tasks produce object '', Repr x, Lit '' more than once''])
     \<or> (\<exists>i j x. i \<le> j \<and> j < length ts \<and> x \<in> set (tk_outputs (ts ! i)) \<and> x \<in> set (tk_inputs (ts ! j))
        \<and> tk_task_id (ts ! i) \<notin> set (tk_dependencies (ts ! j))
        \<and> m = [Lit ''task '', Repr (tk_task_id (ts ! j)), Lit '' omits active producer '',
               Repr (tk_task_id (ts ! i))])"

lemma selection_conflict_append: "selection_conflict ts m \<Longrightarrow> selection_conflict (ts @ us) m"
proof -
  have same: "(ts @ us) ! i = ts ! i" if "i < length ts" for i using that by (simp add: nth_append)
  assume "selection_conflict ts m"
  then consider
    (twice) i j x where "i < j" "j < length ts" "x \<in> set (tk_outputs (ts ! i))" "x \<in> set (tk_outputs (ts ! j))"
      "m = [Lit ''selected tasks produce object '', Repr x, Lit '' more than once'']"
  | (omits) i j x where "i \<le> j" "j < length ts" "x \<in> set (tk_outputs (ts ! i))" "x \<in> set (tk_inputs (ts ! j))"
      "tk_task_id (ts ! i) \<notin> set (tk_dependencies (ts ! j))"
      "m = [Lit ''task '', Repr (tk_task_id (ts ! j)), Lit '' omits active producer '', Repr (tk_task_id (ts ! i))]"
    unfolding selection_conflict_def by blast
  then show ?thesis
  proof cases
    case twice
    then show ?thesis
      unfolding selection_conflict_def by (intro disjI1 exI [of _ i] exI [of _ j] exI [of _ x]) (simp add: same)
  next
    case omits
    then show ?thesis
      unfolding selection_conflict_def by (intro disjI2 exI [of _ i] exI [of _ j] exI [of _ x]) (simp add: same)
  qed
qed

lemma check_selected_outputs_refused:
  assumes "foldE (check_selected_output task) pb outs = Inl e" "distinct outs"
  shows "\<exists>x \<in> set outs. pb x \<noteq> None \<and> e = ValidationError [Lit ''selections'']
    [Lit ''selected tasks produce object '', Repr x, Lit '' more than once'']"
proof -
  obtain past x rest pb' where x: "outs = past @ x # rest" "foldE (check_selected_output task) pb past = Inr pb'"
    "check_selected_output task pb' x = Inl e"
    by (rule foldE_InlE [OF assms(1)])
  have "pb' x = pb x" using check_selected_outputs_run [OF x(2)] x(1) assms(2) by auto
  then show ?thesis using x(1,3)
    by (intro bexI [of _ x]) (auto simp: check_selected_output_def bindE_Inl_iff require_def fail_def split: if_splits)
qed

lemma check_selected_task_refused:
  assumes "produced_by_inv past pb" "check_selected_task pb t = Inl e" "distinct (tk_outputs t)"
  shows "\<exists>m. e = ValidationError [Lit ''selections''] m \<and> selection_conflict (past @ [t]) m"
proof (cases "foldE (check_selected_output t) pb (tk_outputs t)")
  case (Inl d)
  then obtain x where x: "x \<in> set (tk_outputs t)" "pb x \<noteq> None" "e = ValidationError [Lit ''selections'']
      [Lit ''selected tasks produce object '', Repr x, Lit '' more than once'']"
    using check_selected_outputs_refused [OF Inl assms(3)] assms(2) by (auto simp: check_selected_task_def)
  then obtain i where "i < length past" "x \<in> set (tk_outputs (past ! i))"
    using assms(1) unfolding produced_by_inv_def by fastforce
  then have "selection_conflict (past @ [t])
      [Lit ''selected tasks produce object '', Repr x, Lit '' more than once'']"
    unfolding selection_conflict_def using x(1)
    by (intro disjI1 exI [of _ i] exI [of _ "length past"] exI [of _ x]) (simp add: nth_append)
  then show ?thesis using x(3) by blast
next
  case (Inr pb')
  note R = check_selected_outputs_run [OF Inr]
  have "checkE (\<lambda>input_id. case pb' input_id of None \<Rightarrow> Inr ()
         | Some producer \<Rightarrow> require (producer \<in> set (tk_dependencies t)) [Lit ''selections'']
             [Lit ''task '', Repr (tk_task_id t), Lit '' omits active producer '', Repr producer])
       (tk_inputs t) = Inl e"
    using assms(2) Inr by (auto simp: check_selected_task_def bindE_Inl_iff)
  from checkE_Inl_member [OF this] obtain x w where x: "x \<in> set (tk_inputs t)" "pb' x = Some w"
    "w \<notin> set (tk_dependencies t)" "e = ValidationError [Lit ''selections'']
      [Lit ''task '', Repr (tk_task_id t), Lit '' omits active producer '', Repr w]"
    by (auto simp: require_def fail_def split: option.splits if_splits)
  obtain i where i: "i \<le> length past" "x \<in> set (tk_outputs ((past @ [t]) ! i))"
    "w = tk_task_id ((past @ [t]) ! i)"
  proof (cases "x \<in> set (tk_outputs t)")
    case True
    then show thesis using R x(2) that [of "length past"] by simp
  next
    case False
    then have "pb x = Some w" using R x(2) by simp
    then obtain i where "i < length past" "x \<in> set (tk_outputs (past ! i))" "w = tk_task_id (past ! i)"
      using assms(1) unfolding produced_by_inv_def by blast
    then show thesis using that [of i] by (simp add: nth_append)
  qed
  then have "selection_conflict (past @ [t])
      [Lit ''task '', Repr (tk_task_id t), Lit '' omits active producer '', Repr w]"
    unfolding selection_conflict_def using x(1,3)
    by (intro disjI2 exI [of _ i] exI [of _ "length past"] exI [of _ x]) simp
  then show ?thesis using x(4) by blast
qed

lemma check_selected_run:
  assumes "\<forall>t \<in> set ts. distinct (tk_outputs t)"
  shows "(case foldE check_selected_task Map.empty ts of
     Inl e \<Rightarrow> \<exists>m. e = ValidationError [Lit ''selections''] m \<and> selection_conflict ts m
   | Inr pb \<Rightarrow> produces_alone ts)"
proof (cases "foldE check_selected_task Map.empty ts")
  have inv: "produced_by_inv past pb" if "foldE check_selected_task Map.empty past = Inr pb" for past pb
    by (rule foldE_invariant [OF that])
      (simp add: produced_by_inv_def produces_alone_def, rule check_selected_task_step)
  case (Inl e)
  then obtain past t rest pb where t: "ts = past @ t # rest" "foldE check_selected_task Map.empty past = Inr pb"
    "check_selected_task pb t = Inl e"
    by (rule foldE_InlE)
  obtain m where "e = ValidationError [Lit ''selections''] m" "selection_conflict (past @ [t]) m"
    using check_selected_task_refused [OF inv [OF t(2)] t(3)] assms t(1) by auto
  then show ?thesis using selection_conflict_append [of "past @ [t]" m rest] t(1) Inl by simp
next
  case (Inr pb)
  have "produced_by_inv ts pb"
    by (rule foldE_invariant [OF Inr])
      (simp add: produced_by_inv_def produces_alone_def, rule check_selected_task_step)
  then show ?thesis using Inr by (simp add: produced_by_inv_def)
qed

lemma selection_conflict_not_alone: "selection_conflict ts m \<Longrightarrow> \<not> produces_alone ts"
  unfolding selection_conflict_def produces_alone_def
  by (elim disjE exE conjE) (metis order.strict_trans less_irrefl, metis)

lemma valid_task_outputs: "valid_task t \<Longrightarrow> distinct (tk_outputs t)"
  by (auto simp: valid_task_def task_spec_post_init_def bindE_Inr_iff index_unique_run)

lemma without_inactive_valid:
  assumes "valid_task t"
  shows "without_inactive_dependencies t active
    = Inr (t\<lparr>tk_dependencies := filter (\<lambda>d. d \<in> set active) (tk_dependencies t)\<rparr>)"
proof -
  have "task_spec_post_init (t\<lparr>tk_dependencies := filter (\<lambda>d. d \<in> set active) (tk_dependencies t)\<rparr>) = Inr ()"
    using assms by (auto simp: valid_task_def task_spec_post_init_def bindE_Inr_iff index_unique_run)
  then have "\<exists>u. without_inactive_dependencies t active = Inr u"
    by (simp add: without_inactive_dependencies_def Let_def construct_def)
  then show ?thesis using without_inactive_Inr by fastforce
qed

text \<open>The loop over the groups, with a choice of known options and without.\<close>

lemma select_groups_total:
  assumes "\<forall>g \<in> set groups. \<exists>c. sel (al_group_id g) = Some c"
  shows "(case foldE (select_group sel) st groups of
     Inl e \<Rightarrow> (\<exists>m. e = ValidationError [Lit ''selections''] m)
       \<and> (\<exists>g \<in> set groups. \<exists>c. sel (al_group_id g) = Some c \<and> ac_option_id c \<notin> ao_option_id ` set (al_options g))
   | Inr st' \<Rightarrow> \<forall>g \<in> set groups. \<forall>c. sel (al_group_id g) = Some c
       \<longrightarrow> ac_option_id c \<in> ao_option_id ` set (al_options g))"
  using assms
proof (induction groups arbitrary: st)
  case (Cons g groups)
  obtain vs as where st: "st = (vs, as)" by fastforce
  obtain c where c: "sel (al_group_id g) = Some c" using Cons.prems by auto
  let ?options = "dict_of (map (\<lambda>x. (ao_option_id x, x)) (al_options g))"
  show ?case
  proof (cases "?options (ac_option_id c)")
    case None
    then have "ac_option_id c \<notin> ao_option_id ` set (al_options g)"
      using dict_of_is_Some [of "map (\<lambda>x. (ao_option_id x, x)) (al_options g)" "ac_option_id c"]
      by (auto simp: image_image)
    then show ?thesis using c None by (auto simp: select_group_def st require_def fail_def)
  next
    case (Some x)
    then have "ac_option_id c \<in> ao_option_id ` set (al_options g)"
      using dict_of_records [of ao_option_id "al_options g"] by force
    moreover obtain st' where "select_group sel st g = Inr st'"
      using c Some by (simp add: select_group_def st require_def Let_def)
    ultimately show ?thesis using Cons.IH [of st'] Cons.prems c by (auto split: sum.splits)
  qed
qed simp


section \<open>A sample program\<close>

text \<open>
  Two ways of running a task: with its activation kept, or recomputed by a second task. The
  third option of the group activates both writers of the activation.
\<close>

definition sample_task :: "string \<Rightarrow> string list \<Rightarrow> string list \<Rightarrow> string list \<Rightarrow> task_spec" where
  "sample_task i ds ins outs =
     \<lparr>tk_task_id = i, tk_resource = \<lparr>rs_device_id = ''gpu'', rs_kind = COMPUTE, rs_lane = 0\<rparr>,
      tk_profile_id = ''p'', tk_dependencies = ds, tk_inputs = ins, tk_outputs = outs,
      tk_mutations = [], tk_phase = ''compute'', tk_requires_entrypoint = True\<rparr>"

definition sample_group :: "string \<Rightarrow> int \<Rightarrow> alias_group_spec" where
  "sample_group i b =
     \<lparr>ag_alias_group_id = i, ag_device_id = ''gpu'', ag_size_bytes = b, ag_initial_version = 0,
      ag_retain_spill_copy = False, ag_shared_residency = None, ag_transfer = None\<rparr>"

definition sample_object :: "string \<Rightarrow> string \<Rightarrow> int \<Rightarrow> object_spec" where
  "sample_object i g b =
     \<lparr>ob_object_id = i, ob_alias_group_id = g, ob_offset_bytes = 0, ob_size_bytes = b,
      ob_role = OTHER, ob_persistence = STEP\<rparr>"

definition sample_option :: "string \<Rightarrow> string list \<Rightarrow> task_alternative_option" where
  "sample_option i ts =
     \<lparr>ao_option_id = i, ao_active_task_ids = ts, ao_retained_alias_group_ids = []\<rparr>"

definition sample_program :: shadow_spill_program where
  "sample_program =
     \<lparr>pg_devices = [\<lparr>dv_device_id = ''gpu'', dv_process_id = ''0'', dv_kind = ''cuda'', dv_index = 0\<rparr>],
      pg_alias_groups = [sample_group ''w'' 8, sample_group ''a'' 4, sample_group ''g'' 4],
      pg_objects = [sample_object ''W'' ''w'' 8, sample_object ''A'' ''a'' 4, sample_object ''G'' ''g'' 4],
      pg_profiles = [\<lparr>pf_profile_id = ''p'', pf_runtime_ns = 5, pf_workspace_bytes = 0,
        pf_compatibility_digest = ''d'', pf_resource_phases = [], pf_overlap_costs = []\<rparr>],
      pg_tasks = [sample_task ''keep'' [] [''W''] [''A''], sample_task ''again'' [] [''W''] [''A''],
        sample_task ''back'' [''keep'', ''again''] [''A''] [''G'']],
      pg_task_alternative_groups = [\<lparr>al_group_id = ''r'', al_options =
        [sample_option ''save'' [''keep''], sample_option ''redo'' [''again''],
         sample_option ''both'' [''keep'', ''again'']]\<rparr>]\<rparr>"

definition sample_choice :: "string \<Rightarrow> task_alternative_choice list" where
  "sample_choice i = [\<lparr>ac_group_id = ''r'', ac_option_id = i\<rparr>]"

lemmas sample_defs = sample_program_def sample_task_def sample_group_def sample_object_def
  sample_option_def

lemma sample_program_accepted: "program_post_init sample_program = Inr ()"
  by code_simp

lemma sample_program_valid: "valid_program sample_program"
  by code_simp


section \<open>Properties\<close>

text \<open>
  C20. Decoding the dictionary form of a valid program gives the program back, so no field of
  any record, optional transfer recipe or timing measurement is lost.
\<close>

theorem program_roundtrip:
  assumes "valid_program p"
  shows "program_from_dict (program_to_dict p) = Inr p"
  using assms by (rule program.decode_encode)

theorem program_roundtrip_witness:
  "program_from_dict (program_to_dict sample_program) = Inr sample_program"
  by (rule program_roundtrip [OF sample_program_valid])

text \<open>
  C21. Whatever value is decoded, an accepted program satisfies every record check and is well
  formed: unique ids, objects inside their alias groups, dependencies on earlier tasks only,
  an earlier producer among the dependencies of a task for every input produced so far, and
  two writers of one object only under options that leave each other out.
\<close>

theorem program_from_dict_accepted:
  assumes "program_from_dict v = Inr p"
  shows "valid_program p \<and> well_formed p"
  using program.decode_valid [OF assms] program_post_init_well_formed
  by (simp add: valid_program_def)

theorem program_from_dict_accepted_witness: "well_formed sample_program"
  using program_from_dict_accepted [of "program_to_dict sample_program" sample_program]
    program.decode_encode [OF sample_program_valid] by simp

text \<open>
  C22. The tasks of a selection are, in program order, those no group offers and those of the
  chosen options, each keeping its dependencies on active tasks; each depends on earlier
  selected tasks only, no two produce the same object, and a task that reads what an earlier
  selected task produced depends on it.
\<close>

theorem select_tasks_sound:
  assumes "valid_program p" and "select_tasks p selections = Inr ts"
  shows "map tk_task_id ts = filter (takes_part p selections) (map tk_task_id (pg_tasks p))
    \<and> (\<forall>as t bs. ts = as @ t # bs \<longrightarrow> set (tk_dependencies t) \<subseteq> tk_task_id ` set as)
    \<and> produces_alone ts"
proof (intro conjI allI impI)
  show "map tk_task_id ts = filter (takes_part p selections) (map tk_task_id (pg_tasks p))"
    unfolding select_tasks_Inr(1) [OF assms] by (simp add: filter_map comp_def)
  show "set (tk_dependencies t) \<subseteq> tk_task_id ` set as" if "ts = as @ t # bs" for as t bs
    using selected_dependencies_precede [OF assms that] .
  show "produces_alone ts" using select_tasks_Inr(2) [OF assms] .
qed

theorem select_tasks_sound_witness:
  "produces_alone [sample_task ''again'' [] [''W''] [''A''],
     sample_task ''back'' [''again''] [''A''] [''G'']]"
proof -
  have "select_tasks sample_program (sample_choice ''redo'')
      = Inr [sample_task ''again'' [] [''W''] [''A''], sample_task ''back'' [''again''] [''A''] [''G'']]"
    by code_simp
  then show ?thesis using select_tasks_sound [OF sample_program_valid] by blast
qed

text \<open>
  The cache of the last selection is transparent: with a cache that holds what selecting
  returned, every call returns what selecting would, and leaves such a cache.
\<close>

definition coherent_cache :: "shadow_spill_program \<Rightarrow> selected_cache \<Rightarrow> bool" where
  "coherent_cache p cached = (case cached of None \<Rightarrow> True | Some (held, ts) \<Rightarrow> select_tasks p held = Inr ts)"

theorem selected_tasks_cached:
  assumes "coherent_cache p cached"
  shows "fst (selected_tasks p cached selections) = select_tasks p selections
    \<and> coherent_cache p (snd (selected_tasks p cached selections))"
  using assms by (auto simp: coherent_cache_def selected_tasks_def split: option.splits sum.splits)

theorem selected_tasks_cached_witness:
  "fst (selected_tasks sample_program (snd (selected_tasks sample_program None (sample_choice ''save'')))
     (sample_choice ''redo'')) = select_tasks sample_program (sample_choice ''redo'')"
proof -
  have "coherent_cache sample_program None" by (simp add: coherent_cache_def)
  from selected_tasks_cached [OF this] show ?thesis using selected_tasks_cached by blast
qed

text \<open>
  C23. Selecting decides exactly. For an accepted program it returns the active tasks just when the
  selection chooses one known option of every group and no two active tasks write the same
  object and every active reader depends on the active writer; any other selection is refused,
  and the refusal of a complete one names two writers, or a reader and the writer it omits, among
  the active tasks. The constructor does not exclude these: it accepts two writers as soon as two
  options of a group keep them apart, although a third option may activate both.
\<close>

theorem select_tasks_decides:
  assumes "valid_program p"
  shows "(complete_choice p selections \<and> produces_alone (active_selection p selections)
      \<longrightarrow> select_tasks p selections = Inr (active_selection p selections))
    \<and> (\<not> complete_choice p selections
      \<longrightarrow> (\<exists>m. select_tasks p selections = Inl (ValidationError [Lit ''selections''] m)))
    \<and> (complete_choice p selections \<and> \<not> produces_alone (active_selection p selections)
      \<longrightarrow> (\<exists>m. select_tasks p selections = Inl (ValidationError [Lit ''selections''] m)
            \<and> selection_conflict (active_selection p selections) m))"
proof (cases "distinct (map ac_group_id selections)
    \<and> set (map ac_group_id selections) = set (map al_group_id (pg_task_alternative_groups p))")
  case False
  then have "\<exists>m. select_tasks p selections = Inl (ValidationError [Lit ''selections''] m)"
    by (auto simp: select_tasks_def Let_def require_def fail_def length_remdups_distinct)
  moreover have "\<not> complete_choice p selections" using False by (auto simp: complete_choice_def)
  ultimately show ?thesis by blast
next
  case True
  let ?groups = "pg_task_alternative_groups p"
    and ?sel = "dict_of (map (\<lambda>c. (ac_group_id c, c)) selections)"
  note sel = choice_lookup [OF conjunct1 [OF True]]
  have known: "\<exists>c. ?sel (al_group_id g) = Some c" if "g \<in> set ?groups" for g
  proof -
    have "al_group_id g \<in> set (map ac_group_id selections)" using True that by simp
    then show ?thesis by (auto simp: sel)
  qed
  then have "\<forall>g \<in> set ?groups. \<exists>c. ?sel (al_group_id g) = Some c" by blast
  note G = select_groups_total [OF this, of "([], [])"]
  have options: "complete_choice p selections \<longleftrightarrow> (\<forall>g \<in> set ?groups. \<forall>c. ?sel (al_group_id g) = Some c
      \<longrightarrow> ac_option_id c \<in> ao_option_id ` set (al_options g))"
    using True unfolding complete_choice_def sel by blast
  have guards: "length (remdups (map ac_group_id selections)) = length selections"
    "set (map ac_group_id selections) = set (map al_group_id ?groups)"
    using True by (simp_all only: length_remdups_distinct)
  show ?thesis
  proof (cases "foldE (select_group ?sel) ([], []) ?groups")
    case (Inl e)
    then have "\<not> complete_choice p selections" "\<exists>m. e = ValidationError [Lit ''selections''] m"
      using G unfolding options by auto
    moreover have "select_tasks p selections = Inl e"
      using Inl guards by (simp add: select_tasks_def Let_def require_def)
    ultimately show ?thesis by blast
  next
    case (Inr st)
    obtain vs as where st: "st = (vs, as)" by fastforce
    note part = selected_part [OF assms conjunct1 [OF True] Inr [unfolded st]]
    let ?ids = "filter (\<lambda>t. t \<notin> set vs \<or> t \<in> set as) (map tk_task_id (pg_tasks p))"
    have tasks: "filter (\<lambda>task. tk_task_id task \<in> tk_task_id ` set (pg_tasks p)
          \<and> (tk_task_id task \<in> set vs \<longrightarrow> tk_task_id task \<in> set as)) (pg_tasks p)
        = filter (\<lambda>t. takes_part p selections (tk_task_id t)) (pg_tasks p)"
      by (rule filter_cong) (simp_all add: part)
    have "mapE (\<lambda>task. without_inactive_dependencies task ?ids)
        (filter (\<lambda>t. takes_part p selections (tk_task_id t)) (pg_tasks p)) = Inr (active_selection p selections)"
      unfolding active_selection_def
    proof (rule mapE_Inr_all)
      fix t assume "t \<in> set (filter (\<lambda>t. takes_part p selections (tk_task_id t)) (pg_tasks p))"
      then have "valid_task t" using assms by (simp add: valid_program_def)
      then show "without_inactive_dependencies t ?ids = Inr (t\<lparr>tk_dependencies := filter
          (\<lambda>d. d \<in> tk_task_id ` set (pg_tasks p) \<and> takes_part p selections d) (tk_dependencies t)\<rparr>)"
        unfolding without_inactive_valid [OF \<open>valid_task t\<close>] by (simp add: part)
    qed
    then have run: "select_tasks p selections
        = bindE (foldE check_selected_task Map.empty (active_selection p selections)) (\<lambda>_. Inr (active_selection p selections))"
      using guards Inr by (simp add: select_tasks_def Let_def require_def st tasks)
    have "\<forall>t \<in> set (active_selection p selections). distinct (tk_outputs t)"
      using assms valid_task_outputs by (auto simp: active_selection_def valid_program_def)
    note C = check_selected_run [OF this]
    have "complete_choice p selections" using G Inr unfolding options by simp
    then show ?thesis
      using C selection_conflict_not_alone unfolding run by (auto split: sum.splits)
  qed
qed

theorem select_tasks_decides_witness:
  "program_post_init sample_program = Inr ()
   \<and> (\<exists>m. select_tasks sample_program (sample_choice ''both'') = Inl (ValidationError [Lit ''selections''] m)
        \<and> selection_conflict (active_selection sample_program (sample_choice ''both'')) m)"
proof -
  have active: "active_selection sample_program (sample_choice ''both'')
      = [sample_task ''keep'' [] [''W''] [''A''], sample_task ''again'' [] [''W''] [''A''],
         sample_task ''back'' [''keep'', ''again''] [''A''] [''G'']]"
    by code_simp
  have "selection_conflict (active_selection sample_program (sample_choice ''both''))
      [Lit ''selected tasks produce object '', Repr ''A'', Lit '' more than once'']"
    unfolding selection_conflict_def active
    by (intro disjI1 exI [of _ 0] exI [of _ "Suc 0"] exI [of _ "''A''"]) (simp add: sample_task_def)
  then have "\<not> produces_alone (active_selection sample_program (sample_choice ''both''))"
    by (rule selection_conflict_not_alone)
  moreover have "complete_choice sample_program (sample_choice ''both'')" by code_simp
  ultimately show ?thesis
    using select_tasks_decides [OF sample_program_valid] sample_program_accepted by blast
qed

end
