(* ===== verification/Schedule.thy ===== *)
theory Schedule
  imports Program
begin

text \<open>
  Memory residency schedules (\<^verbatim>\<open>src/shadowspill/ir/schedule.py\<close>): the records and their codecs,
  the walk that validates a schedule against the active tasks of a program, the refusals a
  compiled check reports by number, and the order of the initial fetches. Sets of alias ids
  are HOL sets.
\<close>

section \<open>Records\<close>

definition schedule_schema :: string where "schedule_schema = artifact_schema ''memory_schedule''"

definition RUNTIME_OWNED :: fstring where
  "RUNTIME_OWNED = [Lit ''shared residency is owned by the runtime, not the schedule'']"

datatype memory_location = DEVICE | SPILL

fun memory_location_value :: "memory_location \<Rightarrow> string" where
  "memory_location_value DEVICE = ''device''"
| "memory_location_value SPILL = ''host''"

definition memory_location_of :: "string \<Rightarrow> memory_location option" where
  "memory_location_of = member_of memory_location_value [DEVICE, SPILL]"

datatype memory_action_kind = RELEASE | EVICT | FETCH | WRITE_BACK

fun memory_action_kind_value :: "memory_action_kind \<Rightarrow> string" where
  "memory_action_kind_value RELEASE = ''release''"
| "memory_action_kind_value EVICT = ''evict''"
| "memory_action_kind_value FETCH = ''fetch''"
| "memory_action_kind_value WRITE_BACK = ''write_back''"

definition memory_action_kind_of :: "string \<Rightarrow> memory_action_kind option" where
  "memory_action_kind_of = member_of memory_action_kind_value [RELEASE, EVICT, FETCH, WRITE_BACK]"

record residency_spec =
  rd_alias_group_id :: string
  rd_location :: memory_location

definition residency_spec_post_init :: "residency_spec \<Rightarrow> py_error + unit" where
  "residency_spec_post_init self =
     require_identifier (rd_alias_group_id self) [Lit ''residency.alias_group_id'']"

definition residency_spec_to_dict :: "residency_spec \<Rightarrow> pyval" where
  "residency_spec_to_dict self =
     dict_lit [(''alias_group_id'', PStr (rd_alias_group_id self)),
               (''location'', PStr (memory_location_value (rd_location self)))]"

definition residency_spec_from_value :: "pyval \<Rightarrow> path \<Rightarrow> py_error + residency_spec" where
  "residency_spec_from_value value path =
     bindE (expect_mapping value path) (\<lambda>data.
     bindE (string_field data ''location'' path) (\<lambda>location_value.
     bindE (enum_member memory_location_of location_value (at_field path ''location'') ''location'')
       (\<lambda>location.
     bindE (string_field data ''alias_group_id'' path) (\<lambda>alias_group_id.
       construct residency_spec_post_init
         \<lparr>rd_alias_group_id = alias_group_id, rd_location = location\<rparr>))))"

record memory_action =
  ma_trigger_task_id :: string
  ma_alias_group_id :: string
  ma_kind :: memory_action_kind

definition memory_action_post_init :: "memory_action \<Rightarrow> py_error + unit" where
  "memory_action_post_init self =
     bindE (require_identifier (ma_trigger_task_id self) [Lit ''action.trigger_task_id'']) (\<lambda>_.
     require_identifier (ma_alias_group_id self) [Lit ''action.alias_group_id''])"

text \<open>\<^verbatim>\<open>MemoryAction.from_validated\<close> skips the check.\<close>

definition memory_action_from_validated :: "string \<Rightarrow> string \<Rightarrow> memory_action_kind \<Rightarrow> memory_action" where
  "memory_action_from_validated trigger_task_id alias_group_id kind =
     \<lparr>ma_trigger_task_id = trigger_task_id, ma_alias_group_id = alias_group_id, ma_kind = kind\<rparr>"

definition memory_action_to_dict :: "memory_action \<Rightarrow> pyval" where
  "memory_action_to_dict self =
     dict_lit [(''alias_group_id'', PStr (ma_alias_group_id self)),
               (''kind'', PStr (memory_action_kind_value (ma_kind self))),
               (''trigger_task_id'', PStr (ma_trigger_task_id self))]"

definition memory_action_from_value :: "pyval \<Rightarrow> path \<Rightarrow> py_error + memory_action" where
  "memory_action_from_value value path =
     bindE (expect_mapping value path) (\<lambda>data.
     bindE (string_field data ''kind'' path) (\<lambda>kind_value.
     bindE (enum_member memory_action_kind_of kind_value (at_field path ''kind'') ''memory action'')
       (\<lambda>kind.
     bindE (string_field data ''trigger_task_id'' path) (\<lambda>trigger_task_id.
     bindE (string_field data ''alias_group_id'' path) (\<lambda>alias_group_id.
       construct memory_action_post_init
         \<lparr>ma_trigger_task_id = trigger_task_id, ma_alias_group_id = alias_group_id,
          ma_kind = kind\<rparr>)))))"

record memory_schedule =
  ms_initial_residency :: "residency_spec list"
  ms_actions :: "memory_action list"
  ms_final_residency :: "residency_spec list"

definition memory_schedule_post_init :: "memory_schedule \<Rightarrow> py_error + unit" where
  "memory_schedule_post_init self =
     bindE (index_unique (map rd_alias_group_id (ms_initial_residency self))
       [Lit ''schedule.initial_residency'']) (\<lambda>_.
     bindE (index_unique (map rd_alias_group_id (ms_final_residency self))
       [Lit ''schedule.final_residency'']) (\<lambda>_. Inr ()))"

definition memory_schedule_to_dict :: "memory_schedule \<Rightarrow> pyval" where
  "memory_schedule_to_dict self =
     dict_lit [(''actions'', PList (map memory_action_to_dict (ms_actions self))),
               (''final_residency'', PList (map residency_spec_to_dict (ms_final_residency self))),
               (''initial_residency'', PList (map residency_spec_to_dict (ms_initial_residency self))),
               (''schema'', PStr schedule_schema)]"

definition memory_schedule_from_dict :: "pyval \<Rightarrow> py_error + memory_schedule" where
  "memory_schedule_from_dict value =
     (let path = [Lit ''schedule'']
      in bindE (expect_mapping value path) (\<lambda>data.
         bindE (string_field data ''schema'' path) (\<lambda>schema.
         bindE (require (schema = schedule_schema) (at_field path ''schema'')
           [Lit ''unsupported schema '', Repr schema]) (\<lambda>_.
         bindE (list_field data ''initial_residency'' path) (\<lambda>initial.
         bindE (list_field data ''actions'' path) (\<lambda>actions.
         bindE (list_field data ''final_residency'' path) (\<lambda>final.
         bindE (decode_list residency_spec_from_value initial (at_field path ''initial_residency''))
           (\<lambda>initial_residency.
         bindE (decode_list memory_action_from_value actions (at_field path ''actions'')) (\<lambda>actions.
         bindE (decode_list residency_spec_from_value final (at_field path ''final_residency''))
           (\<lambda>final_residency.
           construct memory_schedule_post_init
             \<lparr>ms_initial_residency = initial_residency, ms_actions = actions,
              ms_final_residency = final_residency\<rparr>))))))))))"


section \<open>The validation walk\<close>

text \<open>The dictionary \<open>alias_by_id\<close> is kept as its pairs, since the walk also iterates it.\<close>

record alias_facts =
  af_alias_items :: "(string \<times> alias_group_spec) list"
  af_object_alias :: "string \<rightharpoonup> string"
  af_shared_aliases :: "string set"
  af_zero_size_aliases :: "string set"
  af_task_order :: "string \<rightharpoonup> nat"
  af_last_reader :: "string \<rightharpoonup> int"
  af_final_aliases :: "string set"

definition alias_by_id :: "alias_facts \<Rightarrow> string \<rightharpoonup> alias_group_spec" where
  "alias_by_id facts = dict_of (af_alias_items facts)"

record residency =
  rv_device :: "string set"
  rv_spill :: "string set"
  rv_spill_current :: "string set"

definition task_consumes :: "task_spec \<Rightarrow> string list" where
  "task_consumes task = tk_inputs task @ map mu_object_id (tk_mutations task)"

definition record_readers ::
    "(string \<rightharpoonup> string) \<Rightarrow> (string \<rightharpoonup> int) \<Rightarrow> nat \<times> task_spec \<Rightarrow> py_error + (string \<rightharpoonup> int)" where
  "record_readers object_alias last_reader = (\<lambda>(index, task).
     foldE (\<lambda>last object_id.
         bindE (dict_get object_alias object_id) (\<lambda>alias_id. Inr (last(alias_id \<mapsto> int index))))
       last_reader (task_consumes task))"

definition alias_facts_of ::
    "shadow_spill_program \<Rightarrow> task_spec list \<Rightarrow> residency_spec list \<Rightarrow> py_error + alias_facts" where
  "alias_facts_of program active_tasks final_residency =
     (let object_alias = dict_of (map (\<lambda>b. (ob_object_id b, ob_alias_group_id b)) (pg_objects program))
      in bindE (foldE (record_readers object_alias) Map.empty (enumerate 0 active_tasks)) (\<lambda>last_reader.
           Inr \<lparr>af_alias_items = map (\<lambda>g. (ag_alias_group_id g, g)) (pg_alias_groups program),
                af_object_alias = object_alias,
                af_shared_aliases = ag_alias_group_id `
                  set (filter (\<lambda>g. ag_shared_residency g \<noteq> None) (pg_alias_groups program)),
                af_zero_size_aliases = ag_alias_group_id `
                  set (filter (\<lambda>g. ag_size_bytes g = 0) (pg_alias_groups program)),
                af_task_order = dict_of (map (\<lambda>(index, task). (tk_task_id task, index))
                  (enumerate 0 active_tasks)),
                af_last_reader = last_reader,
                af_final_aliases = rd_alias_group_id ` set final_residency\<rparr>))"

definition require_plan_owned :: "string \<Rightarrow> alias_facts \<Rightarrow> path \<Rightarrow> fstring \<Rightarrow> py_error + unit" where
  "require_plan_owned alias_group_id facts path refusal =
     bindE (require (known (alias_by_id facts) alias_group_id) path
       [Lit ''unknown alias group '', Repr alias_group_id]) (\<lambda>_.
     require (alias_group_id \<notin> af_shared_aliases facts) path refusal)"

definition initial_residency_path :: "nat \<Rightarrow> path" where
  "initial_residency_path index =
     at_field (at_index [Lit ''schedule.initial_residency''] index) ''alias_group_id''"

definition place_initial ::
    "alias_facts \<Rightarrow> residency \<Rightarrow> nat \<times> residency_spec \<Rightarrow> py_error + residency" where
  "place_initial facts residency = (\<lambda>(index, item).
     bindE (require_plan_owned (rd_alias_group_id item) facts (initial_residency_path index)
       RUNTIME_OWNED) (\<lambda>_.
       if rd_alias_group_id item \<in> af_zero_size_aliases facts then Inr residency
       else if rd_location item = DEVICE then
         Inr (residency\<lparr>rv_device := insert (rd_alias_group_id item) (rv_device residency)\<rparr>)
       else
         Inr (residency\<lparr>rv_spill := insert (rd_alias_group_id item) (rv_spill residency),
                        rv_spill_current := insert (rd_alias_group_id item) (rv_spill_current residency)\<rparr>)))"

definition retained_aliases :: "alias_facts \<Rightarrow> string set" where
  "retained_aliases facts =
     fst ` set (filter (\<lambda>(group_id, g). alias_by_id facts group_id = Some g \<and> ag_retain_spill_copy g)
                  (af_alias_items facts))"

definition initial_residency_of :: "memory_schedule \<Rightarrow> alias_facts \<Rightarrow> py_error + residency" where
  "initial_residency_of self facts =
     foldE (place_initial facts)
       \<lparr>rv_device = af_shared_aliases facts, rv_spill = retained_aliases facts,
        rv_spill_current = retained_aliases facts\<rparr>
       (enumerate 0 (ms_initial_residency self))"

definition action_path :: "nat \<Rightarrow> path" where
  "action_path index = at_index [Lit ''schedule.actions''] index"

definition task_actions :: "(string \<rightharpoonup> (nat \<times> memory_action) list) \<Rightarrow> string \<Rightarrow> (nat \<times> memory_action) list" where
  "task_actions by_task task_id = (case by_task task_id of None \<Rightarrow> [] | Some xs \<Rightarrow> xs)"

definition order_action ::
    "alias_facts \<Rightarrow> int \<times> (string \<rightharpoonup> (nat \<times> memory_action) list) \<Rightarrow> nat \<times> memory_action
     \<Rightarrow> py_error + (int \<times> (string \<rightharpoonup> (nat \<times> memory_action) list))" where
  "order_action facts st = (\<lambda>(index, action). case st of (previous_trigger, by_task) \<Rightarrow>
     bindE (require (known (af_task_order facts) (ma_trigger_task_id action))
       (at_field (action_path index) ''trigger_task_id'')
       [Lit ''unknown or inactive task '', Repr (ma_trigger_task_id action)]) (\<lambda>_.
     bindE (require_plan_owned (ma_alias_group_id action) facts
       (at_field (action_path index) ''alias_group_id'')
       [Lit ''shared alias groups cannot have plan-owned memory actions'']) (\<lambda>_.
     bindE (require (ma_alias_group_id action \<notin> af_zero_size_aliases facts)
       (at_field (action_path index) ''alias_group_id'')
       [Lit ''zero-size alias groups cannot have physical memory actions'']) (\<lambda>_.
     bindE (dict_get (af_task_order facts) (ma_trigger_task_id action)) (\<lambda>trigger.
     bindE (require (int trigger \<ge> previous_trigger) (action_path index)
       [Lit ''actions must be ordered by trigger task'']) (\<lambda>_.
       Inr (int trigger,
            by_task(ma_trigger_task_id action \<mapsto>
              task_actions by_task (ma_trigger_task_id action) @ [(index, action)]))))))))"

definition ordered_actions ::
    "memory_schedule \<Rightarrow> alias_facts \<Rightarrow> py_error + (string \<rightharpoonup> (nat \<times> memory_action) list)" where
  "ordered_actions self facts =
     bindE (foldE (order_action facts) (- 1, Map.empty) (enumerate 0 (ms_actions self)))
       (\<lambda>(previous_trigger, by_task). Inr by_task)"

definition inputs_path :: "string \<Rightarrow> path" where
  "inputs_path task_id = [Lit ''schedule.task['', Lit task_id, Lit ''].inputs'']"

definition require_inputs_resident :: "task_spec \<Rightarrow> alias_facts \<Rightarrow> residency \<Rightarrow> py_error + unit" where
  "require_inputs_resident task facts residency =
     checkE (\<lambda>object_id.
         bindE (dict_get (af_object_alias facts) object_id) (\<lambda>alias_id.
           if alias_id \<in> af_zero_size_aliases facts then Inr ()
           else require (alias_id \<in> rv_device residency) (inputs_path (tk_task_id task))
                  [Lit ''alias group '', Repr alias_id, Lit '' is not device resident'']))
       (tk_inputs task)"

definition record_output :: "alias_facts \<Rightarrow> residency \<Rightarrow> string \<Rightarrow> py_error + residency" where
  "record_output facts residency object_id =
     bindE (dict_get (af_object_alias facts) object_id) (\<lambda>alias_id.
       if alias_id \<in> af_zero_size_aliases facts then Inr residency
       else Inr (residency\<lparr>rv_device := insert alias_id (rv_device residency),
                           rv_spill_current := rv_spill_current residency - {alias_id}\<rparr>))"

definition record_mutation :: "alias_facts \<Rightarrow> residency \<Rightarrow> mutation_spec \<Rightarrow> py_error + residency" where
  "record_mutation facts residency mutation =
     bindE (dict_get (af_object_alias facts) (mu_object_id mutation)) (\<lambda>alias_id.
       if alias_id \<in> af_zero_size_aliases facts then Inr residency
       else Inr (residency\<lparr>rv_spill_current := rv_spill_current residency - {alias_id}\<rparr>))"

definition record_task_writes :: "task_spec \<Rightarrow> alias_facts \<Rightarrow> residency \<Rightarrow> py_error + residency" where
  "record_task_writes task facts residency =
     bindE (foldE (record_output facts) residency (tk_outputs task)) (\<lambda>residency.
       foldE (record_mutation facts) residency (tk_mutations task))"

text \<open>\<^verbatim>\<open>kind.value.replace("_", "-")\<close>, and the removal of a set member that must be there.\<close>

definition kind_words :: "memory_action_kind \<Rightarrow> string" where
  "kind_words kind =
     map (\<lambda>c. if c = CHR ''_'' then CHR ''-'' else c) (memory_action_kind_value kind)"

definition set_remove :: "string \<Rightarrow> string set \<Rightarrow> py_error + string set" where
  "set_remove x A = (if x \<in> A then Inr (A - {x}) else Inl KeyError)"

definition apply_action ::
    "memory_action \<Rightarrow> path \<Rightarrow> task_spec \<Rightarrow> alias_facts \<Rightarrow> residency \<Rightarrow> py_error + residency" where
  "apply_action action path task facts residency =
     (let alias_id = ma_alias_group_id action
      in if ma_kind action = FETCH then
           bindE (require (alias_id \<in> rv_spill residency \<and> alias_id \<in> rv_spill_current residency) path
             [Lit ''fetch requires current host residency'']) (\<lambda>_.
           bindE (require (alias_id \<notin> rv_device residency) path
             [Lit ''fetch requires absent device residency'']) (\<lambda>_.
           let residency = residency\<lparr>rv_device := insert alias_id (rv_device residency)\<rparr>
           in bindE (dict_get (alias_by_id facts) alias_id) (\<lambda>g.
                if \<not> ag_retain_spill_copy g then
                  bindE (set_remove alias_id (rv_spill residency)) (\<lambda>spill.
                  bindE (set_remove alias_id (rv_spill_current residency)) (\<lambda>spill_current.
                    Inr (residency\<lparr>rv_spill := spill, rv_spill_current := spill_current\<rparr>)))
                else Inr residency)))
         else
           bindE (require (alias_id \<in> rv_device residency) path
             [Lit (kind_words (ma_kind action) @ '' requires device residency'')]) (\<lambda>_.
           if ma_kind action = RELEASE then
             bindE (if alias_id \<in> rv_spill_current residency then Inr True
                    else if alias_id \<in> af_final_aliases facts then Inr False
                    else bindE (dict_get (af_task_order facts) (tk_task_id task)) (\<lambda>order.
                         Inr ((case af_last_reader facts alias_id of None \<Rightarrow> - 1 | Some i \<Rightarrow> i)
                              \<le> int order))) (\<lambda>free.
             bindE (require free path
               [Lit ''release drops the only current copy of a value still needed'']) (\<lambda>_.
             bindE (set_remove alias_id (rv_device residency)) (\<lambda>device.
             bindE (dict_get (alias_by_id facts) alias_id) (\<lambda>g.
               if \<not> ag_retain_spill_copy g then
                 Inr (residency\<lparr>rv_device := device, rv_spill := rv_spill residency - {alias_id},
                                rv_spill_current := rv_spill_current residency - {alias_id}\<rparr>)
               else Inr (residency\<lparr>rv_device := device\<rparr>)))))
           else
             let residency = residency\<lparr>rv_spill := insert alias_id (rv_spill residency),
                                       rv_spill_current := insert alias_id (rv_spill_current residency)\<rparr>
             in if ma_kind action = EVICT then
                  bindE (set_remove alias_id (rv_device residency)) (\<lambda>device.
                    Inr (residency\<lparr>rv_device := device\<rparr>))
                else Inr residency))"

definition walk_task ::
    "alias_facts \<Rightarrow> (string \<rightharpoonup> (nat \<times> memory_action) list) \<Rightarrow> residency \<Rightarrow> task_spec
     \<Rightarrow> py_error + residency" where
  "walk_task facts by_task residency task =
     bindE (require_inputs_resident task facts residency) (\<lambda>_.
     bindE (record_task_writes task facts residency) (\<lambda>residency.
     foldE (\<lambda>r (index, action). apply_action action (action_path index) task facts r) residency
       (task_actions by_task (tk_task_id task))))"

definition walk_tasks ::
    "memory_schedule \<Rightarrow> task_spec list \<Rightarrow> alias_facts \<Rightarrow> residency \<Rightarrow> py_error + residency" where
  "walk_tasks self active_tasks facts residency =
     bindE (ordered_actions self facts) (\<lambda>by_task.
       foldE (walk_task facts by_task) residency active_tasks)"

definition final_path :: "nat \<Rightarrow> path" where
  "final_path index = at_index [Lit ''schedule.final_residency''] index"

definition check_final :: "alias_facts \<Rightarrow> residency \<Rightarrow> nat \<times> residency_spec \<Rightarrow> py_error + unit" where
  "check_final facts residency = (\<lambda>(index, item).
     bindE (require_plan_owned (rd_alias_group_id item) facts
       (at_field (final_path index) ''alias_group_id'') RUNTIME_OWNED) (\<lambda>_.
       if rd_alias_group_id item \<in> af_zero_size_aliases facts then Inr ()
       else require
              (if rd_location item = DEVICE then rd_alias_group_id item \<in> rv_device residency
               else rd_alias_group_id item \<in> rv_spill residency
                    \<and> rd_alias_group_id item \<in> rv_spill_current residency)
              (final_path index)
              [Lit ''required current '', Lit (memory_location_value (rd_location item)),
               Lit '' residency was not reached'']))"

definition final_residency_reached :: "memory_schedule \<Rightarrow> alias_facts \<Rightarrow> residency \<Rightarrow> py_error + unit" where
  "final_residency_reached self facts residency =
     checkE (check_final facts residency) (enumerate 0 (ms_final_residency self))"

definition validate_selected ::
    "memory_schedule \<Rightarrow> shadow_spill_program \<Rightarrow> task_spec list \<Rightarrow> py_error + unit" where
  "validate_selected self program active_tasks =
     bindE (alias_facts_of program active_tasks (ms_final_residency self)) (\<lambda>facts.
     bindE (initial_residency_of self facts) (\<lambda>residency.
     bindE (walk_tasks self active_tasks facts residency) (\<lambda>residency.
     final_residency_reached self facts residency)))"

definition validate_schedule ::
    "memory_schedule \<Rightarrow> shadow_spill_program \<Rightarrow> task_alternative_choice list \<Rightarrow> py_error + unit" where
  "validate_schedule self program selections =
     bindE (select_tasks program selections) (\<lambda>tasks. validate_selected self program tasks)"


section \<open>Refusals by number\<close>

definition schedule_refusal ::
    "int \<Rightarrow> nat \<Rightarrow> string \<Rightarrow> string list \<Rightarrow> memory_schedule \<Rightarrow> py_error + py_error" where
  "schedule_refusal refusal index alias_group_id task_ids schedule =
     (if refusal = 1 then
        Inr (ValidationError (initial_residency_path index) RUNTIME_OWNED)
      else if refusal = 2 then
        Inr (ValidationError (at_field (action_path index) ''alias_group_id'')
          [Lit ''shared alias groups cannot have plan-owned memory actions''])
      else if refusal = 3 then
        Inr (ValidationError (at_field (action_path index) ''alias_group_id'')
          [Lit ''zero-size alias groups cannot have physical memory actions''])
      else if refusal = 4 then
        Inr (ValidationError (action_path index) [Lit ''actions must be ordered by trigger task''])
      else if refusal = 5 then
        bindE (py_nth task_ids (int index)) (\<lambda>task_id.
          Inr (ValidationError (inputs_path task_id)
            [Lit ''alias group '', Repr alias_group_id, Lit '' is not device resident'']))
      else if refusal = 6 then
        Inr (ValidationError (action_path index) [Lit ''fetch requires current host residency''])
      else if refusal = 7 then
        Inr (ValidationError (action_path index) [Lit ''fetch requires absent device residency''])
      else if refusal = 8 then
        bindE (py_nth (ms_actions schedule) (int index)) (\<lambda>action.
          Inr (ValidationError (action_path index)
            [Lit (kind_words (ma_kind action) @ '' requires device residency'')]))
      else if refusal = 9 then
        Inr (ValidationError (action_path index)
          [Lit ''release drops the only current copy of a value still needed''])
      else if refusal = 10 then
        Inr (ValidationError (at_field (final_path index) ''alias_group_id'') RUNTIME_OWNED)
      else if refusal = 11 then
        bindE (py_nth (ms_final_residency schedule) (int index)) (\<lambda>item.
          Inr (ValidationError (final_path index)
            [Lit ''required current '', Lit (memory_location_value (rd_location item)),
             Lit '' residency was not reached'']))
      else Inl (ValueError [Lit ''unknown schedule refusal '', Num refusal]))"


section \<open>The order of the initial fetches\<close>

definition emitted_aliases :: "memory_schedule \<Rightarrow> string list" where
  "emitted_aliases schedule =
     map rd_alias_group_id (filter (\<lambda>item. rd_location item = DEVICE) (ms_initial_residency schedule))"

definition rank_use :: "(string \<rightharpoonup> string) \<Rightarrow> string list \<Rightarrow> string \<Rightarrow> string list" where
  "rank_use alias_of order object_id =
     (case alias_of object_id of
        None \<Rightarrow> order
      | Some alias_id \<Rightarrow> if alias_id \<in> set order then order else order @ [alias_id])"

text \<open>
  The dictionary \<open>rank\<close> maps the aliases to their insertion order, so it is the list of its
  keys and \<open>rank.get(alias, unused)\<close> is the index in it, or its length.
\<close>

definition first_use_initial_order :: "shadow_spill_program \<Rightarrow> memory_schedule \<Rightarrow> string list" where
  "first_use_initial_order program schedule =
     (let emitted = emitted_aliases schedule;
          alias_of = dict_of (map (\<lambda>b. (ob_object_id b, ob_alias_group_id b))
            (filter (\<lambda>b. ob_alias_group_id b \<in> set emitted) (pg_objects program)));
          rank = fold (\<lambda>task order. fold (\<lambda>object_id order. rank_use alias_of order object_id)
            (task_consumes task) order) (pg_tasks program) [];
          position = dict_of (map (\<lambda>(index, a). (a, index)) (enumerate 0 emitted))
      in sort_key (\<lambda>a. (rank_of rank a, case position a of None \<Rightarrow> 0 | Some i \<Rightarrow> i)) emitted)"

end
