(* ===== verification/Schedule_Safety.thy ===== *)
theory Schedule_Safety
  imports Schedule "HOL-Library.Multiset"
begin

text \<open>
  What a validated schedule promises. The reference is an execution over contents: every
  alias group has a device copy, a spill copy or both, each at some version, and the version
  written last. Running a schedule there fails when a task reads anything but the latest
  version, or an action copies from a place that holds no copy. A schedule the walk accepts
  runs through, and ends with the latest version wherever it promised to.
\<close>

section \<open>Executing a schedule over contents\<close>

record contents =
  cn_device :: "string \<rightharpoonup> nat"
  cn_spill :: "string \<rightharpoonup> nat"
  cn_latest :: "string \<Rightarrow> nat"

definition initial_contents :: "residency \<Rightarrow> contents" where
  "initial_contents r =
     \<lparr>cn_device = (\<lambda>a. if a \<in> rv_device r then Some 0 else None),
      cn_spill = (\<lambda>a. if a \<in> rv_spill r then Some 0 else None), cn_latest = (\<lambda>_. 0)\<rparr>"

definition reads_latest :: "alias_facts \<Rightarrow> contents \<Rightarrow> string \<Rightarrow> bool" where
  "reads_latest facts c object_id =
     (case af_object_alias facts object_id of
        None \<Rightarrow> False
      | Some a \<Rightarrow> a \<in> af_zero_size_aliases facts \<or> cn_device c a = Some (cn_latest c a))"

text \<open>An output is written to the device; a mutation changes the device copy where it is.\<close>

definition write_output :: "alias_facts \<Rightarrow> string \<Rightarrow> contents \<Rightarrow> contents" where
  "write_output facts object_id c =
     (case af_object_alias facts object_id of
        None \<Rightarrow> c
      | Some a \<Rightarrow>
          if a \<in> af_zero_size_aliases facts then c
          else c\<lparr>cn_device := (cn_device c)(a \<mapsto> Suc (cn_latest c a)),
                 cn_latest := (cn_latest c)(a := Suc (cn_latest c a))\<rparr>)"

definition write_mutation :: "alias_facts \<Rightarrow> string \<Rightarrow> contents \<Rightarrow> contents" where
  "write_mutation facts object_id c =
     (case af_object_alias facts object_id of
        None \<Rightarrow> c
      | Some a \<Rightarrow>
          if a \<in> af_zero_size_aliases facts then c
          else c\<lparr>cn_device := (cn_device c)(a := map_option (\<lambda>_. Suc (cn_latest c a)) (cn_device c a)),
                 cn_latest := (cn_latest c)(a := Suc (cn_latest c a))\<rparr>)"

definition retains :: "alias_facts \<Rightarrow> string \<Rightarrow> bool" where
  "retains facts a = (case alias_by_id facts a of None \<Rightarrow> False | Some g \<Rightarrow> ag_retain_spill_copy g)"

definition exec_action :: "alias_facts \<Rightarrow> memory_action \<Rightarrow> contents \<Rightarrow> contents option" where
  "exec_action facts action c =
     (let a = ma_alias_group_id action
      in case ma_kind action of
           FETCH \<Rightarrow>
             (case (cn_spill c a, cn_device c a) of
                (Some v, None) \<Rightarrow>
                  Some (c\<lparr>cn_device := (cn_device c)(a \<mapsto> v),
                          cn_spill := (if retains facts a then cn_spill c else (cn_spill c)(a := None))\<rparr>)
              | _ \<Rightarrow> None)
         | RELEASE \<Rightarrow>
             (case cn_device c a of
                Some v \<Rightarrow>
                  Some (c\<lparr>cn_device := (cn_device c)(a := None),
                          cn_spill := (if retains facts a then cn_spill c else (cn_spill c)(a := None))\<rparr>)
              | None \<Rightarrow> None)
         | EVICT \<Rightarrow>
             (case cn_device c a of
                Some v \<Rightarrow> Some (c\<lparr>cn_device := (cn_device c)(a := None), cn_spill := (cn_spill c)(a \<mapsto> v)\<rparr>)
              | None \<Rightarrow> None)
         | WRITE_BACK \<Rightarrow>
             (case cn_device c a of
                Some v \<Rightarrow> Some (c\<lparr>cn_spill := (cn_spill c)(a \<mapsto> v)\<rparr>)
              | None \<Rightarrow> None))"

fun exec_actions :: "alias_facts \<Rightarrow> (nat \<times> memory_action) list \<Rightarrow> contents \<Rightarrow> contents option" where
  "exec_actions facts [] c = Some c"
| "exec_actions facts ((_, action) # actions) c =
     Option.bind (exec_action facts action c) (exec_actions facts actions)"

definition exec_writes :: "alias_facts \<Rightarrow> task_spec \<Rightarrow> contents \<Rightarrow> contents" where
  "exec_writes facts task c =
     fold (write_mutation facts) (map mu_object_id (tk_mutations task))
       (fold (write_output facts) (tk_outputs task) c)"

fun exec_tasks ::
    "alias_facts \<Rightarrow> (string \<rightharpoonup> (nat \<times> memory_action) list) \<Rightarrow> task_spec list \<Rightarrow> contents \<Rightarrow> contents option" where
  "exec_tasks facts by_task [] c = Some c"
| "exec_tasks facts by_task (task # tasks) c =
     (if list_all (reads_latest facts c) (tk_inputs task) then
        Option.bind (exec_actions facts (task_actions by_task (tk_task_id task)) (exec_writes facts task c))
          (exec_tasks facts by_task tasks)
      else None)"

definition promised :: "alias_facts \<Rightarrow> contents \<Rightarrow> residency_spec \<Rightarrow> bool" where
  "promised facts c item \<longleftrightarrow>
     rd_alias_group_id item \<in> af_zero_size_aliases facts
     \<or> (if rd_location item = DEVICE
        then cn_device c (rd_alias_group_id item) = Some (cn_latest c (rd_alias_group_id item))
        else cn_spill c (rd_alias_group_id item) = Some (cn_latest c (rd_alias_group_id item)))"


section \<open>The walk follows the contents\<close>

text \<open>
  The residency sets are the domains of the copies, every device copy is the latest version,
  and so is every spill copy the walk calls current.
\<close>

definition copies :: "residency \<Rightarrow> contents \<Rightarrow> bool" where
  "copies r c \<longleftrightarrow>
     (\<forall>a \<in> rv_device r. cn_device c a = Some (cn_latest c a))
     \<and> (\<forall>a. a \<notin> rv_device r \<longrightarrow> cn_device c a = None)
     \<and> (\<forall>a. a \<in> rv_spill r \<longleftrightarrow> cn_spill c a \<noteq> None)
     \<and> rv_spill_current r \<subseteq> rv_spill r
     \<and> (\<forall>a \<in> rv_spill_current r. cn_spill c a = Some (cn_latest c a))"

lemma copies_initial: "rv_spill_current r \<subseteq> rv_spill r \<Longrightarrow> copies r (initial_contents r)"
  by (auto simp: copies_def initial_contents_def)

lemma initial_current:
  assumes "initial_residency_of self facts = Inr r"
  shows "rv_spill_current r \<subseteq> rv_spill r"
  by (rule foldE_simple_invariant [OF assms [unfolded initial_residency_of_def]])
    (auto simp: place_initial_def split: if_splits prod.splits)

lemma copies_output:
  "copies r c \<Longrightarrow> record_output facts r b = Inr r' \<Longrightarrow> copies r' (write_output facts b c)"
  by (auto simp: record_output_def write_output_def copies_def dict_get_Inr_iff split: if_splits)

lemma copies_mutation:
  "copies r c \<Longrightarrow> record_mutation facts r m = Inr r' \<Longrightarrow> copies r' (write_mutation facts (mu_object_id m) c)"
  by (auto simp: record_mutation_def write_mutation_def copies_def dict_get_Inr_iff split: if_splits)

lemma copies_outputs:
  "copies r c \<Longrightarrow> foldE (record_output facts) r bs = Inr r' \<Longrightarrow>
    copies r' (fold (write_output facts) bs c)"
  by (induction bs arbitrary: r c) (auto intro: copies_output)

lemma copies_mutations:
  "copies r c \<Longrightarrow> foldE (record_mutation facts) r ms = Inr r' \<Longrightarrow>
    copies r' (fold (write_mutation facts) (map mu_object_id ms) c)"
  by (induction ms arbitrary: r c) (auto intro: copies_mutation)

lemma copies_writes:
  "copies r c \<Longrightarrow> record_task_writes t facts r = Inr r' \<Longrightarrow> copies r' (exec_writes facts t c)"
  by (auto simp: record_task_writes_def exec_writes_def intro: copies_outputs copies_mutations)

lemma copies_reads:
  assumes "copies r c" "require_inputs_resident t facts r = Inr ()"
  shows "list_all (reads_latest facts c) (tk_inputs t)"
  unfolding list_all_iff
proof
  fix x
  assume "x \<in> set (tk_inputs t)"
  then obtain a where "af_object_alias facts x = Some a"
    "a \<in> af_zero_size_aliases facts \<or> a \<in> rv_device r"
    using assms(2)
    by (fastforce simp: require_inputs_resident_def checkE_Inr_iff bindE_Inr_iff dict_get_Inr_iff
        split: if_splits)
  then show "reads_latest facts c x" using assms(1) by (auto simp: reads_latest_def copies_def)
qed

lemma copies_action:
  assumes "copies r c" "apply_action x path t facts r = Inr r'"
  shows "\<exists>c'. exec_action facts x c = Some c' \<and> copies r' c'"
proof (cases "ma_kind x")
  case FETCH
  then show ?thesis using assms
    by (auto simp: apply_action_def exec_action_def Let_def copies_def dict_get_Inr_iff set_remove_def
        retains_def split: if_splits option.splits)
next
  case RELEASE
  then show ?thesis using assms
    by (auto simp: apply_action_def exec_action_def Let_def copies_def dict_get_Inr_iff set_remove_def
        retains_def split: if_splits option.splits)
next
  case EVICT
  then show ?thesis using assms
    by (auto simp: apply_action_def exec_action_def Let_def copies_def set_remove_def
        split: if_splits option.splits)
next
  case WRITE_BACK
  then show ?thesis using assms
    by (auto simp: apply_action_def exec_action_def Let_def copies_def split: if_splits option.splits)
qed

lemma copies_actions:
  "copies r c \<Longrightarrow> foldE (\<lambda>r (index, x). apply_action x (action_path index) t facts r) r xs = Inr r' \<Longrightarrow>
    \<exists>c'. exec_actions facts xs c = Some c' \<and> copies r' c'"
  by (induction xs arbitrary: r c) (fastforce dest: copies_action)+

lemma copies_tasks:
  "copies r c \<Longrightarrow> foldE (walk_task facts by_task) r ts = Inr r' \<Longrightarrow>
    \<exists>c'. exec_tasks facts by_task ts c = Some c' \<and> copies r' c'"
proof (induction ts arbitrary: r c)
  case Nil
  then show ?case by simp
next
  case (Cons t ts)
  then obtain r1 r2 where R: "require_inputs_resident t facts r = Inr ()"
    "record_task_writes t facts r = Inr r1"
    "foldE (\<lambda>r (index, x). apply_action x (action_path index) t facts r) r1
      (task_actions by_task (tk_task_id t)) = Inr r2"
    "foldE (walk_task facts by_task) r2 ts = Inr r'"
    unfolding foldE.simps walk_task_def by (elim bindE_InrE) auto
  obtain c2 where "exec_actions facts (task_actions by_task (tk_task_id t)) (exec_writes facts t c) = Some c2"
    "copies r2 c2"
    using copies_actions [OF copies_writes [OF Cons.prems(1) R(2)] R(3)] by blast
  then show ?case using Cons.IH [of r2 c2] R(4) copies_reads [OF Cons.prems(1) R(1)] by simp
qed

lemma copies_final:
  assumes "copies r c" "final_residency_reached self facts r = Inr ()"
  shows "\<forall>item \<in> set (ms_final_residency self). promised facts c item"
proof
  fix item
  assume "item \<in> set (ms_final_residency self)"
  from member_enumerate [OF this]
  obtain i where "(i, item) \<in> set (enumerate 0 (ms_final_residency self))" by (elim exE conjE)
  then have "check_final facts r (i, item) = Inr ()"
    using assms(2) unfolding final_residency_reached_def checkE_Inr_iff by blast
  then show "promised facts c item"
    using assms(1) by (auto simp: check_final_def promised_def copies_def split: if_splits)
qed

section \<open>Refusals have numbers\<close>

text \<open>
  The names a compiled check never sees unknown: known alias groups, active trigger tasks and
  the alias of every object a task touches.
\<close>

definition names_known :: "alias_facts \<Rightarrow> memory_schedule \<Rightarrow> task_spec list \<Rightarrow> bool" where
  "names_known facts self tasks \<longleftrightarrow>
     (\<forall>item \<in> set (ms_initial_residency self) \<union> set (ms_final_residency self).
        known (alias_by_id facts) (rd_alias_group_id item))
     \<and> (\<forall>x \<in> set (ms_actions self). known (alias_by_id facts) (ma_alias_group_id x)
          \<and> known (af_task_order facts) (ma_trigger_task_id x))
     \<and> (\<forall>t \<in> set tasks. known (af_task_order facts) (tk_task_id t)
          \<and> (\<forall>b \<in> set (tk_inputs t) \<union> set (tk_outputs t) \<union> mu_object_id ` set (tk_mutations t).
               known (af_object_alias facts) b))"

definition numbered :: "string list \<Rightarrow> memory_schedule \<Rightarrow> py_error \<Rightarrow> bool" where
  "numbered task_ids self e \<longleftrightarrow>
     (\<exists>k i a. 1 \<le> k \<and> k \<le> 11 \<and> schedule_refusal k i a task_ids self = Inr e)"

lemma numberedI: "1 \<le> k \<Longrightarrow> k \<le> 11 \<Longrightarrow> schedule_refusal k i a task_ids self = Inr e \<Longrightarrow>
    numbered task_ids self e"
  by (auto simp: numbered_def)

lemma numbered_errors [intro]:
  "numbered ids self (ValidationError (initial_residency_path i) RUNTIME_OWNED)"
  "numbered ids self (ValidationError (at_field (action_path i) ''alias_group_id'')
     [Lit ''shared alias groups cannot have plan-owned memory actions''])"
  "numbered ids self (ValidationError (at_field (action_path i) ''alias_group_id'')
     [Lit ''zero-size alias groups cannot have physical memory actions''])"
  "numbered ids self (ValidationError (action_path i) [Lit ''actions must be ordered by trigger task''])"
  "i < length ids \<Longrightarrow> numbered ids self (ValidationError (inputs_path (ids ! i))
     [Lit ''alias group '', Repr a, Lit '' is not device resident''])"
  "numbered ids self (ValidationError (action_path i) [Lit ''fetch requires current host residency''])"
  "numbered ids self (ValidationError (action_path i) [Lit ''fetch requires absent device residency''])"
  "i < length (ms_actions self) \<Longrightarrow> numbered ids self (ValidationError (action_path i)
     [Lit (kind_words (ma_kind (ms_actions self ! i)) @ '' requires device residency'')])"
  "numbered ids self (ValidationError (action_path i)
     [Lit ''release drops the only current copy of a value still needed''])"
  "numbered ids self (ValidationError (at_field (final_path i) ''alias_group_id'') RUNTIME_OWNED)"
  "i < length (ms_final_residency self) \<Longrightarrow> numbered ids self (ValidationError (final_path i)
     [Lit ''required current '', Lit (memory_location_value (rd_location (ms_final_residency self ! i))),
      Lit '' residency was not reached''])"
  by (rule numberedI [of 1 i], simp_all add: schedule_refusal_def)
    (rule numberedI [of 2 i] numberedI [of 3 i] numberedI [of 4 i] numberedI [of 5 i a]
      numberedI [of 6 i] numberedI [of 7 i] numberedI [of 8 i] numberedI [of 9 i] numberedI [of 10 i]
      numberedI [of 11 i], simp_all add: schedule_refusal_def; fail)+

lemma initial_numbered:
  assumes "initial_residency_of self facts = Inl e" "names_known facts self tasks"
  shows "numbered task_ids self e"
proof -
  obtain x r where x: "x \<in> set (enumerate 0 (ms_initial_residency self))" "place_initial facts r x = Inl e"
    using assms(1) foldE_Inl_member unfolding initial_residency_of_def by metis
  obtain i item where i: "x = (i, item)" by fastforce
  then have "item \<in> set (ms_initial_residency self)" using x(1) by (auto simp: in_set_enumerate_eq)
  then have "known (alias_by_id facts) (rd_alias_group_id item)"
    using assms(2) unfolding names_known_def by blast
  then have "e = ValidationError (initial_residency_path i) RUNTIME_OWNED"
    using x(2) i by (auto simp: place_initial_def require_plan_owned_def bindE_Inl_iff require_def fail_def
        split: if_splits)
  then show ?thesis by auto
qed

lemma ordered_numbered:
  assumes "ordered_actions self facts = Inl e" "names_known facts self tasks"
  shows "numbered task_ids self e"
proof -
  obtain x st where x: "x \<in> set (enumerate 0 (ms_actions self))" "order_action facts st x = Inl e"
  proof -
    have "foldE (order_action facts) (- 1, Map.empty) (enumerate 0 (ms_actions self)) = Inl e"
      using assms(1) by (auto simp: ordered_actions_def bindE_Inl_iff)
    from foldE_Inl_member [OF this] show thesis using that by blast
  qed
  obtain i action where i: "x = (i, action)" by fastforce
  then have "action \<in> set (ms_actions self)" using x(1) by (auto simp: in_set_enumerate_eq)
  then obtain g n where known: "alias_by_id facts (ma_alias_group_id action) = Some g"
    "af_task_order facts (ma_trigger_task_id action) = Some n"
    using assms(2) unfolding names_known_def by blast
  have "e = ValidationError (at_field (action_path i) ''alias_group_id'')
        [Lit ''shared alias groups cannot have plan-owned memory actions'']
      \<or> e = ValidationError (at_field (action_path i) ''alias_group_id'')
        [Lit ''zero-size alias groups cannot have physical memory actions'']
      \<or> e = ValidationError (action_path i) [Lit ''actions must be ordered by trigger task'']"
    using x(2) i known
    by (cases st) (auto simp: order_action_def require_plan_owned_def bindE_Inl_iff require_def fail_def
        split: if_splits)
  then show ?thesis by auto
qed

text \<open>The actions grouped by task are those of the schedule, at their positions.\<close>

lemma task_actions_update [simp]:
  "task_actions (by_task(t \<mapsto> xs)) u = (if u = t then xs else task_actions by_task u)"
  by (simp add: task_actions_def)

lemma order_action_Inr:
  "order_action facts st y = Inr st' \<Longrightarrow>
    snd st' = (snd st)(ma_trigger_task_id (snd y) \<mapsto>
      task_actions (snd st) (ma_trigger_task_id (snd y)) @ [y])"
  by (cases st; cases y) (auto simp: order_action_def)

lemma ordered_actions_positions:
  assumes "ordered_actions self facts = Inr by_task" "(i, x) \<in> set (task_actions by_task t)"
  shows "i < length (ms_actions self) \<and> x = ms_actions self ! i"
proof -
  obtain trig where run: "foldE (order_action facts) (- 1, Map.empty) (enumerate 0 (ms_actions self))
      = Inr (trig, by_task)"
    using assms(1) by (auto simp: ordered_actions_def)
  have "\<forall>t. set (task_actions (snd (trig, by_task)) t) \<subseteq> set (enumerate 0 (ms_actions self))"
  proof (rule foldE_simple_invariant [OF run])
    fix y st st'
    assume "\<forall>t. set (task_actions (snd st) t) \<subseteq> set (enumerate 0 (ms_actions self))"
      "y \<in> set (enumerate 0 (ms_actions self))" "order_action facts st y = Inr st'"
    then show "\<forall>t. set (task_actions (snd st') t) \<subseteq> set (enumerate 0 (ms_actions self))"
      by (simp add: order_action_Inr)
  qed (simp add: task_actions_def)
  then have "(i, x) \<in> set (enumerate 0 (ms_actions self))" using assms(2) by auto
  then show ?thesis by (auto simp: in_set_enumerate_eq)
qed

lemma action_numbered:
  assumes "apply_action x (action_path i) t facts r = Inl e" "i < length (ms_actions self)"
    "x = ms_actions self ! i" "known (alias_by_id facts) (ma_alias_group_id x)"
    "known (af_task_order facts) (tk_task_id t)"
  shows "numbered task_ids self e"
proof -
  obtain g n where g: "alias_by_id facts (ma_alias_group_id x) = Some g"
    "af_task_order facts (tk_task_id t) = Some n" using assms(4,5) by blast
  have "e = ValidationError (action_path i) [Lit ''fetch requires current host residency'']
      \<or> e = ValidationError (action_path i) [Lit ''fetch requires absent device residency'']
      \<or> e = ValidationError (action_path i) [Lit (kind_words (ma_kind x) @ '' requires device residency'')]
      \<or> e = ValidationError (action_path i)
          [Lit ''release drops the only current copy of a value still needed'']"
    using assms(1) g unfolding apply_action_def Let_def
    by (cases "ma_kind x") (auto simp: bindE_Inl_iff require_def fail_def set_remove_def split: if_splits)
  then show ?thesis using assms(2,3) by auto
qed

lemma inputs_numbered:
  assumes "require_inputs_resident t facts r = Inl e" "i < length task_ids" "tk_task_id t = task_ids ! i"
    "\<forall>b \<in> set (tk_inputs t). known (af_object_alias facts) b"
  shows "numbered task_ids self e"
proof -
  have "checkE f xs = Inl e \<Longrightarrow> \<exists>x \<in> set xs. f x = Inl e" for f :: "string \<Rightarrow> py_error + unit" and xs
    by (induction xs) (auto simp: bindE_Inl_iff)
  then obtain b where b: "b \<in> set (tk_inputs t)"
    "bindE (dict_get (af_object_alias facts) b) (\<lambda>alias_id.
      if alias_id \<in> af_zero_size_aliases facts then Inr ()
      else require (alias_id \<in> rv_device r) (inputs_path (tk_task_id t))
             [Lit ''alias group '', Repr alias_id, Lit '' is not device resident'']) = Inl e"
    using assms(1) unfolding require_inputs_resident_def by blast
  then obtain a where "e = ValidationError (inputs_path (task_ids ! i))
      [Lit ''alias group '', Repr a, Lit '' is not device resident'']"
    using assms(3,4) by (auto simp: bindE_Inl_iff require_def fail_def split: if_splits)
  then show ?thesis
    using assms(2) by auto
qed

lemma writes_return:
  assumes "\<forall>b \<in> set (tk_outputs t) \<union> mu_object_id ` set (tk_mutations t). known (af_object_alias facts) b"
  shows "\<exists>r'. record_task_writes t facts r = Inr r'"
proof -
  have outs: "\<exists>r'. foldE (record_output facts) r bs = Inr r'"
    if "\<forall>b \<in> set bs. known (af_object_alias facts) b" for r bs
    using that
  proof (induction bs arbitrary: r)
    case (Cons b bs)
    then obtain a where "af_object_alias facts b = Some a" by auto
    then show ?case using Cons by (simp add: record_output_def)
  qed simp
  have muts: "\<exists>r'. foldE (record_mutation facts) r ms = Inr r'"
    if "\<forall>m \<in> set ms. known (af_object_alias facts) (mu_object_id m)" for r ms
    using that
  proof (induction ms arbitrary: r)
    case (Cons m ms)
    then obtain a where "af_object_alias facts (mu_object_id m) = Some a" by auto
    then show ?case using Cons by (simp add: record_mutation_def)
  qed simp
  obtain r1 where r1: "foldE (record_output facts) r (tk_outputs t) = Inr r1"
    using outs [of "tk_outputs t" r] assms by auto
  obtain r2 where "foldE (record_mutation facts) r1 (tk_mutations t) = Inr r2"
    using muts [of "tk_mutations t" r1] assms by auto
  with r1 show ?thesis by (simp add: record_task_writes_def)
qed

lemma walk_numbered:
  assumes "walk_tasks self tasks facts r = Inl e" "names_known facts self tasks"
  shows "numbered (map tk_task_id tasks) self e"
proof (cases "ordered_actions self facts")
  case (Inl e')
  then show ?thesis using assms ordered_numbered by (auto simp: walk_tasks_def)
next
  case (Inr by_task)
  then have "foldE (walk_task facts by_task) r tasks = Inl e" using assms(1) by (simp add: walk_tasks_def)
  from foldE_Inl_member [OF this] obtain t r1 where t: "t \<in> set tasks" "walk_task facts by_task r1 t = Inl e"
    by blast
  obtain i where i: "i < length tasks" "t = tasks ! i" using t(1) by (auto simp: in_set_conv_nth)
  have known: "known (af_task_order facts) (tk_task_id t)"
    "\<forall>b \<in> set (tk_inputs t) \<union> set (tk_outputs t) \<union> mu_object_id ` set (tk_mutations t).
      known (af_object_alias facts) b"
    "\<And>x. x \<in> set (ms_actions self) \<Longrightarrow> known (alias_by_id facts) (ma_alias_group_id x)"
    using assms(2) t(1) unfolding names_known_def by blast+
  show ?thesis
  proof (cases "require_inputs_resident t facts r1")
    case (Inl e')
    then have "require_inputs_resident t facts r1 = Inl e" using t(2) by (simp add: walk_task_def)
    then show ?thesis by (rule inputs_numbered [of _ _ _ _ i]) (use i known(2) in auto)
  next
    case resident: (Inr u)
    obtain r2 where r2: "record_task_writes t facts r1 = Inr r2"
      using writes_return [of t facts r1] known(2) by blast
    then have "foldE (\<lambda>r (index, x). apply_action x (action_path index) t facts r) r2
        (task_actions by_task (tk_task_id t)) = Inl e"
      using t(2) resident by (simp add: walk_task_def)
    from foldE_Inl_member [OF this] obtain k x r3 where
      x: "(k, x) \<in> set (task_actions by_task (tk_task_id t))"
        "apply_action x (action_path k) t facts r3 = Inl e"
      by auto
    note pos = ordered_actions_positions [OF Inr x(1)]
    show ?thesis
      by (rule action_numbered [OF x(2)]) (use pos known in auto)
  qed
qed

lemma final_numbered:
  assumes "final_residency_reached self facts r = Inl e" "names_known facts self tasks"
  shows "numbered task_ids self e"
proof -
  have "checkE f xs = Inl e \<Longrightarrow> \<exists>x \<in> set xs. f x = Inl e"
    for f :: "nat \<times> residency_spec \<Rightarrow> py_error + unit" and xs
    by (induction xs) (auto simp: bindE_Inl_iff)
  then obtain i item where i: "(i, item) \<in> set (enumerate 0 (ms_final_residency self))"
    "check_final facts r (i, item) = Inl e"
    using assms(1) unfolding final_residency_reached_def by fast
  then have at: "i < length (ms_final_residency self)" "item = ms_final_residency self ! i"
    by (auto simp: in_set_enumerate_eq)
  then have "known (alias_by_id facts) (rd_alias_group_id item)"
    using assms(2) unfolding names_known_def by simp
  then have "e = ValidationError (at_field (final_path i) ''alias_group_id'') RUNTIME_OWNED
      \<or> e = ValidationError (final_path i) [Lit ''required current '',
          Lit (memory_location_value (rd_location item)), Lit '' residency was not reached'']"
    using i(2) by (auto simp: check_final_def require_plan_owned_def bindE_Inl_iff require_def fail_def
        split: if_splits)
  then show ?thesis using at by auto
qed

section \<open>The initial order\<close>

text \<open>The aliases in \<open>emitted\<close> that tasks consume, in the order of their first use.\<close>

definition first_uses :: "shadow_spill_program \<Rightarrow> string list \<Rightarrow> string list" where
  "first_uses program emitted =
     fromkeys (List.map_filter
       (dict_of (map (\<lambda>b. (ob_object_id b, ob_alias_group_id b))
          (filter (\<lambda>b. ob_alias_group_id b \<in> set emitted) (pg_objects program))))
       (concat (map task_consumes (pg_tasks program))))"

lemma fromkeys_snoc: "fromkeys (xs @ [x]) = (if x \<in> set xs then fromkeys xs else fromkeys xs @ [x])"
  by (simp add: fromkeys_def)

lemma rank_use_fold: "fold (\<lambda>b order. rank_use m order b) xs [] = fromkeys (List.map_filter m xs)"
proof (induction xs rule: rev_induct)
  case Nil
  then show ?case by (simp add: fromkeys_def map_filter_simps)
next
  case (snoc x xs)
  have "List.map_filter m (xs @ [x])
      = List.map_filter m xs @ (case m x of None \<Rightarrow> [] | Some a \<Rightarrow> [a])"
    by (auto simp: List.map_filter_def split: option.split)
  then show ?case using snoc by (auto simp: rank_use_def fromkeys_snoc split: option.split)
qed

lemma rank_use_tasks:
  "fold (\<lambda>t order. fold (\<lambda>b order. rank_use m order b) (task_consumes t) order) ts order
    = fold (\<lambda>b order. rank_use m order b) (concat (map task_consumes ts)) order"
  by (induction ts arbitrary: order) auto

lemma first_uses_props: "distinct (first_uses program emitted)" "set (first_uses program emitted) \<subseteq> set emitted"
proof -
  show "distinct (first_uses program emitted)" by (simp add: first_uses_def)
  show "set (first_uses program emitted) \<subseteq> set emitted"
  proof
    fix a
    let ?m = "dict_of (map (\<lambda>b. (ob_object_id b, ob_alias_group_id b))
      (filter (\<lambda>b. ob_alias_group_id b \<in> set emitted) (pg_objects program)))"
    assume "a \<in> set (first_uses program emitted)"
    then obtain x where "?m x = Some a"
      by (auto simp: first_uses_def List.map_filter_def)
    from dict_of_SomeD [OF this] show "a \<in> set emitted" by auto
  qed
qed

lemma first_use_sort:
  assumes "distinct emitted" "distinct used" "set used \<subseteq> set emitted"
    and pos: "\<And>i. i < length emitted \<Longrightarrow> position (emitted ! i) = i"
  shows "sort_key (\<lambda>a. (rank_of used a, position a :: nat)) emitted
    = used @ filter (\<lambda>a. a \<notin> set used) emitted"
proof (rule sort_key_inj_key_eq)
  let ?rest = "filter (\<lambda>a. a \<notin> set used) emitted"
  show "mset emitted = mset (used @ ?rest)"
    by (rule iffD1 [OF set_eq_iff_mset_eq_distinct]) (use assms(1,2,3) in auto)
  show "inj_on (\<lambda>a. (rank_of used a, position a)) (set emitted)"
    using pos by (force intro!: inj_onI simp: in_set_conv_nth)
  have out: "rank_of used a = length used" if "a \<notin> set used" for a
  proof -
    have "takeWhile (\<lambda>y. y \<noteq> a) used = used"
      using that by (intro takeWhile_eq_all_conv [THEN iffD2]) blast
    then show ?thesis unfolding rank_of_def by (rule arg_cong)
  qed
  have "sorted (map position emitted)"
    using pos by (simp add: sorted_iff_nth_mono)
  then have "sorted (map position ?rest)" by (rule sorted_filter)
  then have rest: "sorted (map (\<lambda>a. (rank_of used a, position a)) ?rest)"
    by (induction emitted) (auto simp: out)
  have used: "sorted (map (\<lambda>a. (rank_of used a, position a)) used)"
    using rank_of_nth [OF assms(2)]
    by (auto simp: sorted_iff_nth_mono less_eq_prod_def) (metis le_neq_implies_less order_refl)
  show "sorted (map (\<lambda>a. (rank_of used a, position a)) (used @ ?rest))"
    using used rest rank_of_less_length [of _ used]
    by (auto simp: sorted_append out less_eq_prod_def)
qed


section \<open>Codecs\<close>

definition valid_residency :: "residency_spec \<Rightarrow> bool" where
  "valid_residency x \<longleftrightarrow> residency_spec_post_init x = Inr ()"

definition valid_action :: "memory_action \<Rightarrow> bool" where
  "valid_action x \<longleftrightarrow> memory_action_post_init x = Inr ()"

definition valid_schedule :: "memory_schedule \<Rightarrow> bool" where
  "valid_schedule s \<longleftrightarrow> memory_schedule_post_init s = Inr ()
     \<and> (\<forall>x \<in> set (ms_initial_residency s). valid_residency x)
     \<and> (\<forall>x \<in> set (ms_actions s). valid_action x)
     \<and> (\<forall>x \<in> set (ms_final_residency s). valid_residency x)"

interpretation memory_location: str_enum memory_location_value memory_location_of
proof unfold_locales
  show "memory_location_of (memory_location_value k) = Some k" for k
    by (cases k) (simp_all add: memory_location_of_def member_of_def)
qed (auto simp: memory_location_of_def dest: member_of_SomeD)

interpretation memory_action_kind: str_enum memory_action_kind_value memory_action_kind_of
proof unfold_locales
  show "memory_action_kind_of (memory_action_kind_value k) = Some k" for k
    by (cases k) (simp_all add: memory_action_kind_of_def member_of_def)
qed (auto simp: memory_action_kind_of_def dest: member_of_SomeD)

lemma schedule_eta [simp]:
  "\<lparr>rd_alias_group_id = rd_alias_group_id a, rd_location = rd_location a\<rparr> = a"
  "\<lparr>ma_trigger_task_id = ma_trigger_task_id b, ma_alias_group_id = ma_alias_group_id b,
    ma_kind = ma_kind b\<rparr> = b"
  "\<lparr>ms_initial_residency = ms_initial_residency c, ms_actions = ms_actions c,
    ms_final_residency = ms_final_residency c\<rparr> = c"
  by simp_all

interpretation residency_codec: codec residency_spec_to_dict residency_spec_from_value valid_residency
  by unfold_locales
    (auto simp: residency_spec_to_dict_def residency_spec_from_value_def valid_residency_def
      decode_simps construct_Inr_iff)

interpretation action_codec: codec memory_action_to_dict memory_action_from_value valid_action
  by unfold_locales
    (auto simp: memory_action_to_dict_def memory_action_from_value_def valid_action_def
      decode_simps construct_Inr_iff)

interpretation schedule_codec: codec memory_schedule_to_dict "\<lambda>v path. memory_schedule_from_dict v"
    valid_schedule
proof unfold_locales
  fix s
  assume "valid_schedule s"
  then show "memory_schedule_from_dict (memory_schedule_to_dict s) = Inr s"
    by (simp add: valid_schedule_def memory_schedule_from_dict_def memory_schedule_to_dict_def
        decode_simps residency_codec.decode_list_encode action_codec.decode_list_encode Let_def)
next
  fix v s
  assume "memory_schedule_from_dict v = Inr s"
  then show "valid_schedule s"
    by (auto simp: memory_schedule_from_dict_def valid_schedule_def construct_Inr_iff Let_def
        dest: residency_codec.decode_list_valid action_codec.decode_list_valid)
qed

section \<open>Properties\<close>

text \<open>
  C2. A validated schedule is safe to run: executing it over contents never reads anything but
  the latest version of an input and never copies from an absent copy, and it ends with the
  latest version at every location the schedule promised.
\<close>

theorem validate_selected_safe:
  assumes "validate_selected self program tasks = Inr ()"
  shows "\<exists>facts r by_task c.
    alias_facts_of program tasks (ms_final_residency self) = Inr facts
    \<and> initial_residency_of self facts = Inr r \<and> ordered_actions self facts = Inr by_task
    \<and> exec_tasks facts by_task tasks (initial_contents r) = Some c
    \<and> (\<forall>item \<in> set (ms_final_residency self). promised facts c item)"
proof -
  from assms obtain facts r by_task r' where R:
    "alias_facts_of program tasks (ms_final_residency self) = Inr facts"
    "initial_residency_of self facts = Inr r" "ordered_actions self facts = Inr by_task"
    "foldE (walk_task facts by_task) r tasks = Inr r'"
    "final_residency_reached self facts r' = Inr ()"
    by (auto simp: validate_selected_def walk_tasks_def)
  obtain c where "exec_tasks facts by_task tasks (initial_contents r) = Some c" "copies r' c"
    using copies_tasks [OF copies_initial [OF initial_current [OF R(2)]] R(4)] by blast
  with R copies_final [OF _ R(5)] show ?thesis by blast
qed

abbreviation act :: "string \<Rightarrow> string \<Rightarrow> memory_action_kind \<Rightarrow> memory_action" where
  "act t a k \<equiv> \<lparr>ma_trigger_task_id = t, ma_alias_group_id = a, ma_kind = k\<rparr>"

abbreviation stay :: "string \<Rightarrow> memory_location \<Rightarrow> residency_spec" where
  "stay a l \<equiv> \<lparr>rd_alias_group_id = a, rd_location = l\<rparr>"

definition sample_schedule :: memory_schedule where
  "sample_schedule =
     \<lparr>ms_initial_residency = [stay ''w'' DEVICE],
      ms_actions = [act ''keep'' ''w'' EVICT, act ''back'' ''a'' RELEASE, act ''back'' ''g'' WRITE_BACK],
      ms_final_residency = [stay ''g'' SPILL, stay ''w'' SPILL]\<rparr>"

definition sample_tasks :: "task_spec list" where
  "sample_tasks = [sample_task ''keep'' [] [''W''] [''A''], sample_task ''back'' [''keep''] [''A''] [''G'']]"

lemma sample_schedule_valid: "validate_selected sample_schedule sample_program sample_tasks = Inr ()"
  by code_simp

theorem validate_selected_safe_witness:
  "\<exists>facts r by_task c. initial_residency_of sample_schedule facts = Inr r
     \<and> exec_tasks facts by_task sample_tasks (initial_contents r) = Some c
     \<and> promised facts c (stay ''g'' SPILL)"
proof -
  have "stay ''g'' SPILL \<in> set (ms_final_residency sample_schedule)"
    by (simp add: sample_schedule_def)
  with validate_selected_safe [OF sample_schedule_valid] show ?thesis by blast
qed

text \<open>
  C24. Where every name is known, each error validation raises is the one
  \<open>schedule_refusal\<close> builds for some refusal number from 1 to 11, path and message alike, so a
  refusal reported by number reads the same as one raised here.
\<close>

theorem validate_selected_numbered:
  assumes "validate_selected self program tasks = Inl e"
    and "alias_facts_of program tasks (ms_final_residency self) = Inr facts"
    and "names_known facts self tasks"
  shows "\<exists>k i a. 1 \<le> k \<and> k \<le> 11 \<and> schedule_refusal k i a (map tk_task_id tasks) self = Inr e"
proof -
  have "numbered (map tk_task_id tasks) self e"
    using assms(1,2)
    by (auto simp: validate_selected_def bindE_Inl_iff
        intro: initial_numbered [OF _ assms(3)] walk_numbered [OF _ assms(3)] final_numbered [OF _ assms(3)])
  then show ?thesis by (simp add: numbered_def)
qed

definition sample_bad_schedule :: memory_schedule where
  "sample_bad_schedule = sample_schedule\<lparr>ms_actions := [act ''keep'' ''w'' FETCH]\<rparr>"

theorem validate_selected_numbered_witness:
  "\<exists>k i a. 1 \<le> k \<and> k \<le> 11
     \<and> schedule_refusal k i a (map tk_task_id sample_tasks) sample_bad_schedule
       = Inr (ValidationError (action_path 0) [Lit ''fetch requires current host residency''])"
proof -
  have run: "validate_selected sample_bad_schedule sample_program sample_tasks
      = Inl (ValidationError (action_path 0) [Lit ''fetch requires current host residency''])"
    by code_simp
  obtain facts where facts:
    "alias_facts_of sample_program sample_tasks (ms_final_residency sample_bad_schedule) = Inr facts"
    and "names_known facts sample_bad_schedule sample_tasks"
  proof -
    have "(case alias_facts_of sample_program sample_tasks (ms_final_residency sample_bad_schedule) of
        Inl e \<Rightarrow> False | Inr facts \<Rightarrow> names_known facts sample_bad_schedule sample_tasks)"
      by code_simp
    then show thesis using that by (auto split: sum.splits)
  qed
  then show ?thesis using validate_selected_numbered [OF run] by blast
qed

text \<open>
  C25. The initial device aliases are fetched in the order tasks first consume them, those no
  task consumes after all others in the order they were emitted; none is lost or repeated.
\<close>

theorem first_use_initial_order_exact:
  assumes "distinct (map rd_alias_group_id (ms_initial_residency schedule))"
  shows "first_use_initial_order program schedule
    = first_uses program (emitted_aliases schedule)
      @ filter (\<lambda>a. a \<notin> set (first_uses program (emitted_aliases schedule))) (emitted_aliases schedule)"
proof -
  let ?emitted = "emitted_aliases schedule"
  have dist: "distinct ?emitted"
    unfolding emitted_aliases_def using assms by (rule distinct_map_filter)
  let ?pos = "dict_of (map (\<lambda>(index, a). (a, index)) (enumerate 0 ?emitted))"
  have "?pos (?emitted ! i) = Some i" if "i < length ?emitted" for i
  proof (rule dict_of_distinct)
    have "map fst (map (\<lambda>(index, a). (a, index)) (enumerate 0 ?emitted)) = map snd (enumerate 0 ?emitted)"
      by (simp add: comp_def split_beta)
    then show "distinct (map fst (map (\<lambda>(index, a). (a, index)) (enumerate 0 ?emitted)))"
      using dist by simp
    show "(?emitted ! i, i) \<in> set (map (\<lambda>(index, a). (a, index)) (enumerate 0 ?emitted))"
      using that by (force simp: in_set_enumerate_eq)
  qed
  then have "sort_key (\<lambda>a. (rank_of (first_uses program ?emitted) a,
        case ?pos a of None \<Rightarrow> 0 | Some i \<Rightarrow> i)) ?emitted
      = first_uses program ?emitted @ filter (\<lambda>a. a \<notin> set (first_uses program ?emitted)) ?emitted"
    by (intro first_use_sort [OF dist first_uses_props]) simp
  then show ?thesis
    unfolding first_use_initial_order_def Let_def rank_use_tasks rank_use_fold first_uses_def .
qed

theorem first_use_initial_order_exact_witness:
  "first_use_initial_order sample_program
     (sample_schedule\<lparr>ms_initial_residency := [stay ''g'' DEVICE, stay ''a'' DEVICE, stay ''w'' DEVICE]\<rparr>)
   = [''w'', ''a''] @ [''g'']"
proof -
  let ?s = "sample_schedule\<lparr>ms_initial_residency := [stay ''g'' DEVICE, stay ''a'' DEVICE, stay ''w'' DEVICE]\<rparr>"
  have "emitted_aliases ?s = [''g'', ''a'', ''w'']"
    "first_uses sample_program [''g'', ''a'', ''w''] = [''w'', ''a'']"
    by code_simp+
  moreover have "distinct (map rd_alias_group_id (ms_initial_residency ?s))" by simp
  ultimately show ?thesis using first_use_initial_order_exact [of ?s sample_program] by simp
qed

text \<open>Decoding the dictionary form of a valid schedule gives the schedule back.\<close>

theorem schedule_roundtrip:
  assumes "valid_schedule s"
  shows "memory_schedule_from_dict (memory_schedule_to_dict s) = Inr s"
  using assms by (rule schedule_codec.decode_encode)

theorem schedule_roundtrip_witness:
  "memory_schedule_from_dict (memory_schedule_to_dict sample_schedule) = Inr sample_schedule"
proof (rule schedule_roundtrip)
  show "valid_schedule sample_schedule" by code_simp
qed

section \<open>Copies that a release drops\<close>

definition lost :: "string \<Rightarrow> residency \<Rightarrow> bool" where
  "lost a r \<longleftrightarrow> a \<notin> rv_device r \<and> a \<notin> rv_spill r \<and> a \<notin> rv_spill_current r"

definition belongs :: "alias_facts \<Rightarrow> string \<Rightarrow> string list \<Rightarrow> bool" where
  "belongs facts a objects \<longleftrightarrow> (\<exists>x \<in> set objects. af_object_alias facts x = Some a)"

lemma action_keeps_lost: "apply_action x path t facts r = Inr r' \<Longrightarrow> lost a r \<Longrightarrow> lost a r'"
  by (auto simp: apply_action_def lost_def Let_def bindE_Inr_iff set_remove_def split: if_splits)

lemma output_keeps_lost:
  "record_output facts r x = Inr r' \<Longrightarrow> af_object_alias facts x \<noteq> Some a \<Longrightarrow> lost a r \<Longrightarrow> lost a r'"
  by (auto simp: record_output_def lost_def bindE_Inr_iff dict_get_Inr_iff split: if_splits)

lemma mutation_keeps_lost: "record_mutation facts r m = Inr r' \<Longrightarrow> lost a r \<Longrightarrow> lost a r'"
  by (auto simp: record_mutation_def lost_def bindE_Inr_iff split: if_splits)

lemma task_keeps_lost:
  assumes "walk_task facts by_task r t = Inr r'" "\<not> belongs facts a (tk_outputs t)" "lost a r"
    and "a \<notin> af_zero_size_aliases facts"
  shows "lost a r' \<and> \<not> belongs facts a (tk_inputs t)"
proof -
  obtain r1 r2 where run: "require_inputs_resident t facts r = Inr ()"
    "foldE (record_output facts) r (tk_outputs t) = Inr r1"
    "foldE (record_mutation facts) r1 (tk_mutations t) = Inr r2"
    "foldE (\<lambda>r (index, action). apply_action action (action_path index) t facts r) r2
       (task_actions by_task (tk_task_id t)) = Inr r'"
    using assms(1) by (auto simp: walk_task_def record_task_writes_def bindE_Inr_iff)
  have "lost a r1"
    by (rule foldE_invariant [OF run(2), where P = "\<lambda>_. lost a"])
      (use assms(2,3) output_keeps_lost in \<open>auto simp: belongs_def\<close>)
  then have "lost a r2"
    by (rule foldE_simple_invariant [OF run(3)]) (rule mutation_keeps_lost)
  then have "lost a r'"
    by (rule foldE_simple_invariant [OF run(4)]) (auto intro: action_keeps_lost)
  moreover have "\<not> belongs facts a (tk_inputs t)"
    using run(1) assms(3,4)
    by (auto simp: require_inputs_resident_def checkE_Inr_iff belongs_def lost_def bindE_Inr_iff)
  ultimately show ?thesis by blast
qed

lemma walk_keeps_lost:
  assumes "foldE (walk_task facts by_task) r tasks = Inr r'" "\<forall>t \<in> set tasks. \<not> belongs facts a (tk_outputs t)"
    and "lost a r" "a \<notin> af_zero_size_aliases facts"
  shows "lost a r' \<and> (\<forall>t \<in> set tasks. \<not> belongs facts a (tk_inputs t))"
proof (rule foldE_invariant [OF assms(1), where
      P = "\<lambda>past r. lost a r \<and> (\<forall>t \<in> set past. \<not> belongs facts a (tk_inputs t))"])
  show "lost a r \<and> (\<forall>t \<in> set []. \<not> belongs facts a (tk_inputs t))" using assms(3) by simp
qed (use assms(2,4) task_keeps_lost in \<open>fastforce\<close>)

text \<open>
  C26. The documentation of the action kinds says that after a write-back the spill copy is current
  "and a later release costs nothing". The walk drops both copies of a group it does not
  retain a spill copy of: where it accepts the write-back of such a group, a release right after
  it is accepted and leaves no copy anywhere. However the schedule goes on, until a task writes the
  group afresh no task that reads it and no declared final residency of it is accepted. An
  eviction in place of the release keeps the written-back copy.
\<close>

theorem release_drops_written_back_copy:
  assumes "alias_by_id facts a = Some g" and "\<not> ag_retain_spill_copy g"
    and "a \<notin> af_zero_size_aliases facts" and "a \<in> rv_device r"
    and "ma_alias_group_id wb = a" "ma_kind wb = WRITE_BACK"
    and "ma_alias_group_id rel = a" "ma_kind rel = RELEASE"
    and "ma_alias_group_id ev = a" "ma_kind ev = EVICT"
  shows "\<exists>kept dropped evicted. apply_action wb path task facts r = Inr kept
    \<and> a \<in> rv_spill_current kept
    \<and> apply_action rel path' task' facts kept = Inr dropped \<and> lost a dropped
    \<and> apply_action ev path' task' facts kept = Inr evicted
    \<and> a \<in> rv_spill evicted \<and> a \<in> rv_spill_current evicted
    \<and> (\<forall>by_task tasks r'. foldE (walk_task facts by_task) dropped tasks = Inr r'
         \<and> (\<forall>t \<in> set tasks. \<not> belongs facts a (tk_outputs t)) \<longrightarrow>
         (\<forall>t \<in> set tasks. \<not> belongs facts a (tk_inputs t))
         \<and> (\<forall>i place. rd_alias_group_id place = a \<longrightarrow> check_final facts r' (i, place) \<noteq> Inr ()))"
proof -
  let ?kept = "r\<lparr>rv_spill := insert a (rv_spill r), rv_spill_current := insert a (rv_spill_current r)\<rparr>"
  let ?dropped = "?kept\<lparr>rv_device := rv_device r - {a}, rv_spill := rv_spill ?kept - {a},
    rv_spill_current := rv_spill_current ?kept - {a}\<rparr>"
  have kept: "apply_action wb path task facts r = Inr ?kept"
    using assms by (simp add: apply_action_def)
  have dropped: "apply_action rel path' task' facts ?kept = Inr ?dropped"
    using assms by (simp add: apply_action_def set_remove_def)
  have evicted: "apply_action ev path' task' facts ?kept = Inr (?kept\<lparr>rv_device := rv_device r - {a}\<rparr>)"
    using assms by (simp add: apply_action_def set_remove_def Let_def)
  have gone: "lost a ?dropped" by (simp add: lost_def)
  have "check_final facts r' (i, place) \<noteq> Inr ()"
    if "lost a r'" "rd_alias_group_id place = a" for r' i place
    using that assms(3) by (auto simp: check_final_def lost_def bindE_Inr_iff)
  then have future: "\<forall>by_task tasks r'. foldE (walk_task facts by_task) ?dropped tasks = Inr r'
         \<and> (\<forall>t \<in> set tasks. \<not> belongs facts a (tk_outputs t)) \<longrightarrow>
         (\<forall>t \<in> set tasks. \<not> belongs facts a (tk_inputs t))
         \<and> (\<forall>i place. rd_alias_group_id place = a \<longrightarrow> check_final facts r' (i, place) \<noteq> Inr ())"
    using walk_keeps_lost [OF _ _ gone assms(3)] by blast
  show ?thesis
    by (rule exI [of _ ?kept], rule exI [of _ ?dropped],
        rule exI [of _ "?kept\<lparr>rv_device := rv_device r - {a}\<rparr>"], intro conjI)
      (use kept dropped evicted gone future in simp_all)
qed

theorem release_drops_written_back_copy_witness:
  "\<exists>facts r dropped. alias_facts_of sample_program sample_tasks [] = Inr facts
     \<and> apply_action (act ''keep'' ''w'' WRITE_BACK) (action_path 0) (hd sample_tasks) facts
         \<lparr>rv_device = {''w''}, rv_spill = {}, rv_spill_current = {}\<rparr> = Inr r
     \<and> apply_action (act ''keep'' ''w'' RELEASE) (action_path 1) (hd sample_tasks) facts r = Inr dropped
     \<and> lost ''w'' dropped"
proof -
  have "case alias_facts_of sample_program sample_tasks [] of Inl e \<Rightarrow> False | Inr facts \<Rightarrow>
      alias_by_id facts ''w'' = Some (sample_group ''w'' 8) \<and> ''w'' \<notin> af_zero_size_aliases facts"
    by code_simp
  then obtain facts where facts: "alias_facts_of sample_program sample_tasks [] = Inr facts"
    "alias_by_id facts ''w'' = Some (sample_group ''w'' 8)" "''w'' \<notin> af_zero_size_aliases facts"
    by (auto split: sum.splits)
  have "\<not> ag_retain_spill_copy (sample_group ''w'' 8)" by (simp add: sample_group_def)
  note R = release_drops_written_back_copy [OF facts(2) this facts(3),
      of "\<lparr>rv_device = {''w''}, rv_spill = {}, rv_spill_current = {}\<rparr>" "act ''keep'' ''w'' WRITE_BACK"
         "act ''keep'' ''w'' RELEASE" "act ''keep'' ''w'' EVICT" "action_path 0" "hd sample_tasks"
         "action_path 1" "hd sample_tasks"]
  show ?thesis using R facts(1) by fastforce
qed

end
