(* ===== verification/Simulator_Model.thy ===== *)
theory Simulator_Model
  imports Schedule
begin

text \<open>
  The inputs, intervals and diagnostics of the simulator
  (\<^verbatim>\<open>src/shadowspill/simulator/model.py\<close>). Fields are typed, so of the constructors' checks the
  ones on values remain. \<open>SimulationInfeasibleError\<close> is a record of its fields.
\<close>

section \<open>Configuration\<close>

definition name_ok :: "string \<Rightarrow> bool" where
  "name_ok s \<longleftrightarrow> s \<noteq> [] \<and> py_strip s = s"

definition sm_require_non_negative :: "int \<Rightarrow> string \<Rightarrow> py_error + unit" where
  "sm_require_non_negative value name =
     ensure (\<not> value < 0) (ValueError [Lit name, Lit '' must be a non-negative integer''])"

definition sm_require_positive :: "int \<Rightarrow> string \<Rightarrow> py_error + unit" where
  "sm_require_positive value name =
     bindE (sm_require_non_negative value name) (\<lambda>_.
       ensure (value \<noteq> 0) (ValueError [Lit name, Lit '' must be positive'']))"

record device_simulation_config =
  dc_device_id :: string
  dc_capacity_bytes :: int
  dc_fetch_solo :: int
  dc_fetch_concurrent :: int
  dc_evict_solo :: int
  dc_evict_concurrent :: int
  dc_fetch_latency_ns :: int
  dc_evict_latency_ns :: int

definition device_simulation_config_post_init :: "device_simulation_config \<Rightarrow> py_error + unit" where
  "device_simulation_config_post_init self =
     bindE (ensure (name_ok (dc_device_id self))
       (ValueError [Lit ''device_id must be a non-empty normalized string''])) (\<lambda>_.
     bindE (sm_require_non_negative (dc_capacity_bytes self) ''capacity_bytes'') (\<lambda>_.
     bindE (sm_require_positive (dc_fetch_solo self) ''fetch_solo_bandwidth_bytes_per_second'') (\<lambda>_.
     bindE (sm_require_positive (dc_fetch_concurrent self)
       ''fetch_concurrent_bandwidth_bytes_per_second'') (\<lambda>_.
     bindE (sm_require_positive (dc_evict_solo self) ''evict_solo_bandwidth_bytes_per_second'') (\<lambda>_.
     bindE (sm_require_positive (dc_evict_concurrent self)
       ''evict_concurrent_bandwidth_bytes_per_second'') (\<lambda>_.
     bindE (sm_require_non_negative (dc_fetch_latency_ns self) ''fetch_latency_ns'') (\<lambda>_.
     sm_require_non_negative (dc_evict_latency_ns self) ''evict_latency_ns'')))))))"

record simulation_config =
  sc_devices :: "device_simulation_config list"
  sc_spill_capacity_bytes :: int

definition config_device :: "string list \<Rightarrow> nat \<times> device_simulation_config \<Rightarrow> py_error + string list" where
  "config_device seen = (\<lambda>(index, device).
     bindE (ensure (dc_device_id device \<notin> set seen)
       (ValueError [Lit ''devices['', Num (int index), Lit ''] duplicates '', Repr (dc_device_id device)]))
       (\<lambda>_. Inr (seen @ [dc_device_id device])))"

definition simulation_config_post_init :: "simulation_config \<Rightarrow> py_error + unit" where
  "simulation_config_post_init self =
     bindE (ensure (sc_devices self \<noteq> []) (ValueError [Lit ''devices must be a non-empty tuple''])) (\<lambda>_.
     bindE (foldE config_device [] (enumerate 0 (sc_devices self))) (\<lambda>_.
     sm_require_non_negative (sc_spill_capacity_bytes self) ''spill_capacity_bytes''))"

definition single_device ::
    "string \<Rightarrow> int \<Rightarrow> int \<Rightarrow> int \<Rightarrow> int \<Rightarrow> int \<Rightarrow> int \<Rightarrow> int \<Rightarrow> int \<Rightarrow> py_error + simulation_config" where
  "single_device device_id device_capacity spill_capacity fetch_solo fetch_concurrent evict_solo
      evict_concurrent fetch_latency evict_latency =
     bindE (construct device_simulation_config_post_init
       \<lparr>dc_device_id = device_id, dc_capacity_bytes = device_capacity, dc_fetch_solo = fetch_solo,
        dc_fetch_concurrent = fetch_concurrent, dc_evict_solo = evict_solo,
        dc_evict_concurrent = evict_concurrent, dc_fetch_latency_ns = fetch_latency,
        dc_evict_latency_ns = evict_latency\<rparr>) (\<lambda>device.
     construct simulation_config_post_init
       \<lparr>sc_devices = [device], sc_spill_capacity_bytes = spill_capacity\<rparr>)"


section \<open>Admission\<close>

record task_physical_delta =
  td_task_id :: string
  td_start_bytes :: int
  td_completion_bytes :: int

definition task_physical_delta_post_init :: "task_physical_delta \<Rightarrow> py_error + unit" where
  "task_physical_delta_post_init self =
     ensure (name_ok (td_task_id self))
       (ValueError [Lit ''task_id must be a non-empty normalized string''])"

record action_physical_delta =
  ad_action_index :: int
  ad_trigger_bytes :: int
  ad_completion_bytes :: int

definition action_physical_delta_post_init :: "action_physical_delta \<Rightarrow> py_error + unit" where
  "action_physical_delta_post_init self = sm_require_non_negative (ad_action_index self) ''action_index''"

record memory_reuse_dependency =
  rd_predecessor_action_index :: "int option"
  rd_successor_task_id :: "string option"
  rd_successor_action_index :: "int option"
  rd_predecessor_task_id :: "string option"

definition opt_check :: "'a option \<Rightarrow> ('a \<Rightarrow> py_error + unit) \<Rightarrow> py_error + unit" where
  "opt_check x f = (case x of None \<Rightarrow> Inr () | Some v \<Rightarrow> f v)"

definition memory_reuse_dependency_post_init :: "memory_reuse_dependency \<Rightarrow> py_error + unit" where
  "memory_reuse_dependency_post_init self =
     bindE (ensure ((rd_predecessor_action_index self = None) \<noteq> (rd_predecessor_task_id self = None))
       (ValueError [Lit ''exactly one memory-reuse predecessor task or action is required''])) (\<lambda>_.
     bindE (opt_check (rd_predecessor_action_index self)
       (\<lambda>i. sm_require_non_negative i ''predecessor_action_index'')) (\<lambda>_.
     bindE (opt_check (rd_predecessor_task_id self) (\<lambda>t. ensure (name_ok t)
       (ValueError [Lit ''predecessor_task_id must be a non-empty normalized string'']))) (\<lambda>_.
     bindE (ensure (\<not> (rd_predecessor_task_id self \<noteq> None
         \<and> rd_predecessor_task_id self = rd_successor_task_id self))
       (ValueError [Lit ''a task cannot wait for its own completion''])) (\<lambda>_.
     bindE (ensure ((rd_successor_task_id self = None) \<noteq> (rd_successor_action_index self = None))
       (ValueError [Lit ''exactly one memory-reuse successor task or action is required''])) (\<lambda>_.
     bindE (opt_check (rd_successor_task_id self) (\<lambda>t. ensure (name_ok t)
       (ValueError [Lit ''successor_task_id must be a non-empty normalized string'']))) (\<lambda>_.
     opt_check (rd_successor_action_index self)
       (\<lambda>i. sm_require_non_negative i ''successor_action_index'')))))))"

record simulation_admission =
  am_initial_physical_bytes :: "(string \<times> int) list"
  am_device_capacity_bytes :: "(string \<times> int) list"
  am_task_deltas :: "task_physical_delta list"
  am_action_deltas :: "action_physical_delta list"
  am_reuse_dependencies :: "memory_reuse_dependency list"
  am_unlisted_delta_bytes :: "int option"

definition validate_unique_values :: "'a list \<Rightarrow> string \<Rightarrow> py_error + unit" where
  "validate_unique_values items name =
     ensure (length (remdups items) = length items)
       (ValueError [Lit name, Lit '' contains duplicate identities''])"

definition validate_unique_pairs :: "(string \<times> int) list \<Rightarrow> string \<Rightarrow> py_error + unit" where
  "validate_unique_pairs items name = validate_unique_values (map fst items) name"

definition simulation_admission_post_init :: "simulation_admission \<Rightarrow> py_error + unit" where
  "simulation_admission_post_init self =
     bindE (validate_unique_pairs (am_initial_physical_bytes self) ''initial_physical_bytes'') (\<lambda>_.
     bindE (checkE (\<lambda>(device_id, bytes).
         bindE (ensure (name_ok device_id)
           (ValueError [Lit ''initial physical device IDs must be normalized strings''])) (\<lambda>_.
         sm_require_non_negative bytes ''initial physical bytes'')) (am_initial_physical_bytes self)) (\<lambda>_.
     bindE (validate_unique_pairs (am_device_capacity_bytes self) ''device_capacity_bytes'') (\<lambda>_.
     bindE (checkE (\<lambda>(device_id, bytes).
         bindE (ensure (name_ok device_id)
           (ValueError [Lit ''admission capacity device IDs must be normalized strings''])) (\<lambda>_.
         sm_require_positive bytes ''admission device capacity bytes'')) (am_device_capacity_bytes self)) (\<lambda>_.
     bindE (ensure (am_device_capacity_bytes self = []
         \<or> set (map fst (am_device_capacity_bytes self)) = set (map fst (am_initial_physical_bytes self)))
       (ValueError [Lit ''admission device capacities and initial physical bytes must name the same devices'']))
       (\<lambda>_.
     bindE (validate_unique_values (map td_task_id (am_task_deltas self)) ''task_deltas'') (\<lambda>_.
     validate_unique_values (map ad_action_index (am_action_deltas self)) ''action_deltas''))))))"


section \<open>Results\<close>

datatype transfer_direction = FETCH_LANE | EVICT_LANE

fun transfer_direction_value :: "transfer_direction \<Rightarrow> string" where
  "transfer_direction_value FETCH_LANE = ''fetch''"
| "transfer_direction_value EVICT_LANE = ''evict''"

record task_interval =
  ti_task_id :: string
  ti_device_id :: string
  ti_resource_kind :: resource_kind
  ti_resource_lane :: int
  ti_ready_ns :: int
  ti_start_ns :: int
  ti_end_ns :: int
  ti_workspace_bytes :: int
  ti_stall_reasons :: "string list"

definition task_stall_ns :: "task_interval \<Rightarrow> int" where
  "task_stall_ns self = ti_start_ns self - ti_ready_ns self"

record transfer_interval =
  tr_alias_group_id :: string
  tr_trigger_task_id :: string
  tr_device_id :: string
  tr_direction :: transfer_direction
  tr_kind :: memory_action_kind
  tr_sequence :: int
  tr_ready_ns :: int
  tr_start_ns :: int
  tr_end_ns :: int
  tr_bytes :: int
  tr_stall_reasons :: "string list"

definition transfer_stall_ns :: "transfer_interval \<Rightarrow> int" where
  "transfer_stall_ns self = tr_start_ns self - tr_ready_ns self"

record device_memory_peak =
  pk_device_id :: string
  pk_object_bytes :: int
  pk_workspace_bytes :: int
  pk_total_bytes :: int

record memory_snapshot =
  sn_time_ns :: int
  sn_device_object_bytes :: "(string \<times> int) list"
  sn_device_workspace_bytes :: "(string \<times> int) list"
  sn_spill_bytes :: int
  sn_device_physical_bytes :: "(string \<times> int) list"

record infeasible =
  if_message :: fstring
  if_kind :: string
  if_time_ns :: int
  if_task_id :: "string option"
  if_alias_group_ids :: "string list"
  if_location :: "string option"
  if_capacity_bytes :: "int option"
  if_used_bytes :: "int option"
  if_requested_bytes :: "int option"

datatype sim_error =
    SimulationInfeasible infeasible
  | SimFault py_error

record capacity_violation =
  cv_reason :: string
  cv_location :: string
  cv_time_ns :: int
  cv_capacity_bytes :: int
  cv_used_bytes :: int
  cv_requested_bytes :: int
  cv_device_id :: string
  cv_task_id :: "string option"
  cv_alias_group_id :: "string option"

definition excess_bytes :: "capacity_violation \<Rightarrow> int" where
  "excess_bytes self = max 0 (cv_used_bytes self + cv_requested_bytes self - cv_capacity_bytes self)"

record simulation_result =
  sr_makespan_ns :: int
  sr_task_intervals :: "task_interval list"
  sr_transfer_intervals :: "transfer_interval list"
  sr_device_peaks :: "device_memory_peak list"
  sr_spill_peak_bytes :: int
  sr_memory_timeline :: "memory_snapshot list"
  sr_capacity_violations :: "capacity_violation list"
  sr_capacity_violation_count :: int

fun find_peak :: "device_memory_peak list \<Rightarrow> string \<Rightarrow> py_error + device_memory_peak" where
  "find_peak [] device_id = Inl KeyError"
| "find_peak (peak # peaks) device_id =
     (if pk_device_id peak = device_id then Inr peak else find_peak peaks device_id)"

definition device_peak :: "simulation_result \<Rightarrow> string \<Rightarrow> py_error + device_memory_peak" where
  "device_peak self = find_peak (sr_device_peaks self)"

end
