(* ===== verification/Simulator.thy ===== *)
theory Simulator
  imports Simulator_Model
begin

text \<open>
  The reference simulator (\<^verbatim>\<open>reference/python/simulator/implementation.py\<close>). What the
  constructor derives from its arguments and no method changes is a context, what the methods
  mutate is a state passed explicitly, and each method is a definition of its name. A
  dictionary keyed by devices or ids is a map with the order of its keys in the context, the
  tables of running tasks and transfers are association lists in insertion order, and a set
  that is only tested, shrunk and sorted is the list of its members. An exception of Python is
  \<open>SimFault\<close>, \<open>SimulationInfeasibleError\<close> is \<open>SimulationInfeasible\<close>.
\<close>

section \<open>Records\<close>

definition NANOSECONDS_PER_SECOND :: int where "NANOSECONDS_PER_SECOND = 1000000000"

record alias_state =
  as_size_bytes :: int
  as_device_id :: string
  as_initial_version :: int
  as_retain_spill_copy :: bool
  as_device_allocated :: bool
  as_device_ready :: bool
  as_device_version :: int
  as_spill_allocated :: bool
  as_spill_ready :: bool
  as_spill_version :: int
  as_fetch_pending :: bool
  as_evict_pending :: bool
  as_write_back_pending :: bool

record pending_transfer =
  pt_action_index :: nat
  pt_alias_group_id :: string
  pt_trigger_task_id :: string
  pt_direction :: transfer_direction
  pt_kind :: memory_action_kind
  pt_ready_ns :: int
  pt_sequence :: int
  pt_version :: int
  pt_stall_reasons :: "string list"

record active_transfer =
  at_pending :: pending_transfer
  at_start_ns :: int
  at_end_ns :: int
  at_payload_start_ns :: int
  at_remaining :: int
  at_progress_ns :: int
  at_rate :: int

record active_task =
  ak_task :: task_spec
  ak_ready_ns :: int
  ak_start_ns :: int
  ak_end_ns :: int
  ak_workspace_bytes :: int
  ak_output_aliases :: "string list"
  ak_stall_reasons :: "string list"

record task_wait =
  tw_ready_ns :: "int option"
  tw_reasons :: "string list"

type_synonym lane_key = "string \<times> resource_kind \<times> int"

record sim_context =
  cx_program :: shadow_spill_program
  cx_schedule :: memory_schedule
  cx_selections :: "task_alternative_choice list"
  cx_config :: simulation_config
  cx_admission :: "simulation_admission option"
  cx_record_timeline :: bool
  cx_tasks :: "task_spec list"
  cx_task_by_id :: "string \<rightharpoonup> task_spec"
  cx_task_order :: "string \<rightharpoonup> nat"
  cx_profile_by_id :: "string \<rightharpoonup> task_profile"
  cx_object_alias :: "string \<rightharpoonup> string"
  cx_alias_last_reader :: "string \<rightharpoonup> string"
  cx_final_aliases :: "string list"
  cx_device_config :: "(string \<times> device_simulation_config) list"
  cx_task_physical_deltas :: "string \<rightharpoonup> task_physical_delta"
  cx_action_physical_deltas :: "int \<rightharpoonup> action_physical_delta"
  cx_task_reuse_dependencies :: "string \<rightharpoonup> memory_reuse_dependency list"
  cx_action_reuse_dependencies :: "int \<rightharpoonup> memory_reuse_dependency list"

record sim_state =
  st_alias_state :: "string \<rightharpoonup> alias_state"
  st_next_action_index :: nat
  st_deferred_ready_ns :: "nat \<rightharpoonup> int"
  st_capacity_violations :: "capacity_violation list"
  st_now_ns :: int
  st_unlaunched :: "string list"
  st_completed :: "string \<rightharpoonup> int"
  st_completed_transfer_actions :: "int list"
  st_active_tasks :: "(lane_key \<times> active_task) list"
  st_task_waits :: "string \<rightharpoonup> task_wait"
  st_pending_fetch :: "string \<rightharpoonup> pending_transfer list"
  st_pending_evict :: "string \<rightharpoonup> pending_transfer list"
  st_active_fetch :: "(string \<times> active_transfer) list"
  st_active_evict :: "(string \<times> active_transfer) list"
  st_transfer_sequence :: "string \<times> transfer_direction \<rightharpoonup> int"
  st_device_object_bytes :: "string \<rightharpoonup> int"
  st_device_workspace_bytes :: "string \<rightharpoonup> int"
  st_device_physical_bytes :: "string \<rightharpoonup> int"
  st_device_object_peaks :: "string \<rightharpoonup> int"
  st_device_workspace_peaks :: "string \<rightharpoonup> int"
  st_device_total_peaks :: "string \<rightharpoonup> int"
  st_spill_bytes :: int
  st_spill_peak_bytes :: int
  st_task_intervals :: "task_interval list"
  st_transfer_intervals :: "transfer_interval list"
  st_memory_timeline :: "memory_snapshot list"

definition device_ids :: "sim_context \<Rightarrow> string list" where
  "device_ids cx = map dc_device_id (sc_devices (cx_config cx))"

definition look :: "('k \<rightharpoonup> 'v) \<Rightarrow> 'k \<Rightarrow> sim_error + 'v" where
  "look m k = map_error SimFault (dict_get m k)"

definition append_to :: "('k \<rightharpoonup> 'v list) \<Rightarrow> 'k \<Rightarrow> 'v \<Rightarrow> 'k \<rightharpoonup> 'v list" where
  "append_to m k v = m(k \<mapsto> (case m k of None \<Rightarrow> [] | Some xs \<Rightarrow> xs) @ [v])"

definition drop_key :: "'k \<Rightarrow> ('k \<times> 'v) list \<Rightarrow> ('k \<times> 'v) list" where
  "drop_key k xs = filter (\<lambda>x. fst x \<noteq> k) xs"

definition put_key :: "'k \<Rightarrow> 'v option \<Rightarrow> ('k \<times> 'v) list \<Rightarrow> ('k \<times> 'v) list" where
  "put_key k v xs =
     (case v of None \<Rightarrow> xs | Some w \<Rightarrow> map (\<lambda>x. if fst x = k then (k, w) else x) xs)"

definition sorted_ids :: "string set \<Rightarrow> string list" where
  "sorted_ids A = sorted_list_of_set A"

definition set_alias :: "string \<Rightarrow> alias_state \<Rightarrow> sim_state \<Rightarrow> sim_state" where
  "set_alias alias_id a st = st\<lparr>st_alias_state := (st_alias_state st)(alias_id \<mapsto> a)\<rparr>"

definition add_object_bytes :: "string \<Rightarrow> int \<Rightarrow> sim_state \<Rightarrow> sim_error + sim_state" where
  "add_object_bytes device_id amount st =
     bindE (look (st_device_object_bytes st) device_id) (\<lambda>b.
       Inr (st\<lparr>st_device_object_bytes := (st_device_object_bytes st)(device_id \<mapsto> b + amount)\<rparr>))"

definition add_workspace_bytes :: "string \<Rightarrow> int \<Rightarrow> sim_state \<Rightarrow> sim_error + sim_state" where
  "add_workspace_bytes device_id amount st =
     bindE (look (st_device_workspace_bytes st) device_id) (\<lambda>b.
       Inr (st\<lparr>st_device_workspace_bytes := (st_device_workspace_bytes st)(device_id \<mapsto> b + amount)\<rparr>))"


section \<open>Construction\<close>

definition record_reader ::
    "(string \<rightharpoonup> string) \<Rightarrow> (string \<rightharpoonup> string) \<Rightarrow> task_spec \<Rightarrow> sim_error + (string \<rightharpoonup> string)" where
  "record_reader object_alias readers task =
     foldE (\<lambda>readers object_id.
         bindE (look object_alias object_id) (\<lambda>alias_id. Inr (readers(alias_id \<mapsto> tk_task_id task))))
       readers (task_consumes task)"

text \<open>\<^verbatim>\<open>dataclasses.replace\<close> runs the constructor checks again.\<close>

definition admitted_device ::
    "(string \<rightharpoonup> int) \<Rightarrow> string \<times> device_simulation_config
     \<Rightarrow> sim_error + (string \<times> device_simulation_config)" where
  "admitted_device capacities = (\<lambda>(device_id, item).
     bindE (look capacities device_id) (\<lambda>capacity.
     bindE (map_error SimFault (construct device_simulation_config_post_init
         (item\<lparr>dc_capacity_bytes := capacity\<rparr>))) (\<lambda>item.
       Inr (device_id, item))))"

definition admission_device_config ::
    "simulation_admission option \<Rightarrow> (string \<times> device_simulation_config) list
     \<Rightarrow> sim_error + (string \<times> device_simulation_config) list" where
  "admission_device_config admission device_config =
     (case admission of
        None \<Rightarrow> Inr device_config
      | Some a \<Rightarrow>
          if am_device_capacity_bytes a = [] then Inr device_config
          else let capacities = am_device_capacity_bytes a
            in bindE (ensure (set (map fst capacities) = set (map fst device_config))
                 (SimFault (ValueError [Lit ''simulation admission capacities must exactly match program '',
                   Lit ''devices; expected '', ReprList (sorted_ids (set (map fst device_config))),
                   Lit '', got '', ReprList (sorted_ids (set (map fst capacities)))]))) (\<lambda>_.
               mapE (admitted_device (dict_of capacities)) device_config))"

definition add_reuse_dependency ::
    "(string \<rightharpoonup> memory_reuse_dependency list) \<times> (int \<rightharpoonup> memory_reuse_dependency list)
     \<Rightarrow> memory_reuse_dependency
     \<Rightarrow> sim_error + ((string \<rightharpoonup> memory_reuse_dependency list) \<times> (int \<rightharpoonup> memory_reuse_dependency list))" where
  "add_reuse_dependency tables dependency =
     (case rd_successor_task_id dependency of
        Some task_id \<Rightarrow> Inr (append_to (fst tables) task_id dependency, snd tables)
      | None \<Rightarrow>
         (case rd_successor_action_index dependency of
            None \<Rightarrow> Inl (SimFault (AssertionError []))
          | Some index \<Rightarrow> Inr (fst tables, append_to (snd tables) index dependency)))"

definition validate_dependency :: "sim_context \<Rightarrow> memory_reuse_dependency \<Rightarrow> sim_error + unit" where
  "validate_dependency cx dependency =
     (let actions = ms_actions (cx_schedule cx);
          action_count = int (length actions)
      in map_error SimFault (
         bindE (opt_check (rd_predecessor_action_index dependency) (\<lambda>predecessor.
           bindE (ensure (\<not> predecessor \<ge> action_count)
             (ValueError [Lit ''memory-reuse predecessor action '', Num predecessor, Lit '' is unknown'']))
             (\<lambda>_.
           bindE (py_nth actions predecessor) (\<lambda>action.
           ensure (ma_kind action = EVICT)
             (ValueError [Lit ''memory-reuse predecessor action '', Num predecessor,
               Lit '' is not an eviction'']))))) (\<lambda>_.
         bindE (opt_check (rd_predecessor_task_id dependency) (\<lambda>task_id.
           ensure (known (cx_task_by_id cx) task_id)
             (ValueError [Lit ''memory-reuse predecessor task is unknown'']))) (\<lambda>_.
         bindE (opt_check (rd_successor_task_id dependency) (\<lambda>task_id.
           ensure (known (cx_task_by_id cx) task_id)
             (ValueError [Lit ''memory-reuse successor task '', Repr task_id, Lit '' is unknown''])))
           (\<lambda>_.
         opt_check (rd_successor_action_index dependency) (\<lambda>index.
           ensure (\<not> index \<ge> action_count)
             (ValueError [Lit ''memory-reuse successor action '', Num index, Lit '' is unknown''])))))))"

definition validate_inputs :: "sim_context \<Rightarrow> sim_error + unit" where
  "validate_inputs cx =
     (let program_devices = set (map dv_device_id (pg_devices (cx_program cx)));
          configured_devices = set (map fst (cx_device_config cx))
      in bindE (ensure (configured_devices = program_devices)
           (SimFault (ValueError
             [Lit ''simulation devices must exactly match ShadowSpillProgram devices; '', Lit ''expected '',
              ReprList (sorted_ids program_devices), Lit '', got '', ReprList (sorted_ids configured_devices)])))
           (\<lambda>_.
         bindE (map_error SimFault (validate_schedule (cx_schedule cx) (cx_program cx) (cx_selections cx)))
           (\<lambda>_.
         case cx_admission cx of
           None \<Rightarrow> Inr ()
         | Some admission \<Rightarrow>
             let initial_devices = set (map fst (am_initial_physical_bytes admission));
                 unknown_tasks = sorted_ids
                   (set (filter (\<lambda>t. \<not> known (cx_task_by_id cx) t) (map td_task_id (am_task_deltas admission))));
                 action_count = int (length (ms_actions (cx_schedule cx)));
                 unknown_actions = sort (remdups
                   (filter (\<lambda>i. i \<ge> action_count) (map ad_action_index (am_action_deltas admission))))
             in bindE (ensure (initial_devices = configured_devices)
                  (SimFault (ValueError
                    [Lit ''admission initial physical devices must exactly match simulation '',
                     Lit ''devices; expected '', ReprList (sorted_ids configured_devices), Lit '', got '',
                     ReprList (sorted_ids initial_devices)]))) (\<lambda>_.
                bindE (ensure (unknown_tasks = [])
                  (SimFault (ValueError [Lit ''admission contains unknown tasks '', ReprList unknown_tasks])))
                  (\<lambda>_.
                bindE (ensure (unknown_actions = [])
                  (SimFault (ValueError
                    [Lit ''admission contains unknown action indices '', ReprInts unknown_actions]))) (\<lambda>_.
                checkE (validate_dependency cx) (am_reuse_dependencies admission)))))))"

definition make_context ::
    "shadow_spill_program \<Rightarrow> memory_schedule \<Rightarrow> task_alternative_choice list \<Rightarrow> simulation_config
     \<Rightarrow> simulation_admission option \<Rightarrow> bool \<Rightarrow> sim_error + sim_context" where
  "make_context program schedule selections config admission record_timeline =
     bindE (map_error SimFault (select_tasks program selections)) (\<lambda>tasks.
     let object_alias = dict_of (map (\<lambda>b. (ob_object_id b, ob_alias_group_id b)) (pg_objects program));
         dependencies = (case admission of None \<Rightarrow> [] | Some a \<Rightarrow> am_reuse_dependencies a)
     in bindE (foldE (record_reader object_alias) Map.empty tasks) (\<lambda>alias_last_reader.
        bindE (admission_device_config admission
          (map (\<lambda>d. (dc_device_id d, d)) (sc_devices config))) (\<lambda>device_config.
        bindE (foldE add_reuse_dependency (Map.empty, Map.empty) dependencies)
          (\<lambda>(task_dependencies, action_dependencies).
        let cx = \<lparr>cx_program = program, cx_schedule = schedule, cx_selections = selections,
             cx_config = config, cx_admission = admission, cx_record_timeline = record_timeline,
             cx_tasks = tasks,
             cx_task_by_id = dict_of (map (\<lambda>t. (tk_task_id t, t)) tasks),
             cx_task_order = dict_of (map (\<lambda>(index, t). (tk_task_id t, index)) (enumerate 0 tasks)),
             cx_profile_by_id = dict_of (map (\<lambda>p. (pf_profile_id p, p)) (pg_profiles program)),
             cx_object_alias = object_alias,
             cx_alias_last_reader = alias_last_reader,
             cx_final_aliases = map rd_alias_group_id (ms_final_residency schedule),
             cx_device_config = device_config,
             cx_task_physical_deltas = dict_of (map (\<lambda>d. (td_task_id d, d))
               (case admission of None \<Rightarrow> [] | Some a \<Rightarrow> am_task_deltas a)),
             cx_action_physical_deltas = dict_of (map (\<lambda>d. (ad_action_index d, d))
               (case admission of None \<Rightarrow> [] | Some a \<Rightarrow> am_action_deltas a)),
             cx_task_reuse_dependencies = task_dependencies,
             cx_action_reuse_dependencies = action_dependencies\<rparr>
        in bindE (validate_inputs cx) (\<lambda>_. Inr cx)))))"

definition initial_alias_state :: "alias_group_spec \<Rightarrow> alias_state" where
  "initial_alias_state g =
     \<lparr>as_size_bytes = ag_size_bytes g, as_device_id = ag_device_id g,
      as_initial_version = ag_initial_version g, as_retain_spill_copy = ag_retain_spill_copy g,
      as_device_allocated = False, as_device_ready = False,
      as_device_version = ag_initial_version g, as_spill_allocated = False, as_spill_ready = False,
      as_spill_version = ag_initial_version g, as_fetch_pending = False, as_evict_pending = False,
      as_write_back_pending = False\<rparr>"

definition zero_bytes :: "sim_context \<Rightarrow> string \<rightharpoonup> int" where
  "zero_bytes cx = dict_of (map (\<lambda>d. (d, 0)) (device_ids cx))"

definition initial_state :: "sim_context \<Rightarrow> sim_state" where
  "initial_state cx =
     \<lparr>st_alias_state = dict_of (map (\<lambda>g. (ag_alias_group_id g, initial_alias_state g))
        (pg_alias_groups (cx_program cx))),
      st_next_action_index = 0, st_deferred_ready_ns = Map.empty, st_capacity_violations = [],
      st_now_ns = 0, st_unlaunched = map tk_task_id (cx_tasks cx), st_completed = Map.empty,
      st_completed_transfer_actions = [], st_active_tasks = [],
      st_task_waits = dict_of (map (\<lambda>t. (tk_task_id t, \<lparr>tw_ready_ns = None, tw_reasons = []\<rparr>))
        (cx_tasks cx)),
      st_pending_fetch = dict_of (map (\<lambda>d. (d, [])) (device_ids cx)),
      st_pending_evict = dict_of (map (\<lambda>d. (d, [])) (device_ids cx)),
      st_active_fetch = [], st_active_evict = [], st_transfer_sequence = Map.empty,
      st_device_object_bytes = zero_bytes cx, st_device_workspace_bytes = zero_bytes cx,
      st_device_physical_bytes = zero_bytes cx, st_device_object_peaks = zero_bytes cx,
      st_device_workspace_peaks = zero_bytes cx, st_device_total_peaks = zero_bytes cx,
      st_spill_bytes = 0, st_spill_peak_bytes = 0, st_task_intervals = [],
      st_transfer_intervals = [], st_memory_timeline = []\<rparr>"

end
