(* ===== verification/Simulator_Steps.thy ===== *)
theory Simulator_Steps
  imports Simulator
begin

text \<open>
  The methods of the reference simulator (\<^verbatim>\<open>reference/python/simulator/implementation.py\<close>)
  up to the completion of events: memory accounting, launches, the submission of actions and
  the two copy lanes of each device. A \<^verbatim>\<open>for\<close> loop is \<open>foldE\<close>, a \<^verbatim>\<open>continue\<close> returns the
  state, and the loop over the remaining actions is bounded by their number.
\<close>

section \<open>Memory\<close>

definition snapshot_device :: "sim_state \<Rightarrow> string \<Rightarrow> sim_error + sim_state" where
  "snapshot_device st device_id =
     bindE (look (st_device_object_bytes st) device_id) (\<lambda>objects.
     bindE (look (st_device_workspace_bytes st) device_id) (\<lambda>workspace.
     bindE (look (st_device_object_peaks st) device_id) (\<lambda>object_peak.
     bindE (look (st_device_workspace_peaks st) device_id) (\<lambda>workspace_peak.
     bindE (look (st_device_total_peaks st) device_id) (\<lambda>total_peak.
     bindE (look (st_device_physical_bytes st) device_id) (\<lambda>physical.
       Inr (st\<lparr>st_device_object_peaks :=
                 (st_device_object_peaks st)(device_id \<mapsto> max object_peak objects),
               st_device_workspace_peaks :=
                 (st_device_workspace_peaks st)(device_id \<mapsto> max workspace_peak workspace),
               st_device_total_peaks :=
                 (st_device_total_peaks st)(device_id \<mapsto> max total_peak physical)\<rparr>)))))))"

definition items_of :: "(string \<rightharpoonup> int) \<Rightarrow> string list \<Rightarrow> sim_error + (string \<times> int) list" where
  "items_of table ids = mapE (\<lambda>d. bindE (look table d) (\<lambda>v. Inr (d, v))) ids"

definition record_snapshot :: "sim_context \<Rightarrow> sim_state \<Rightarrow> sim_error + sim_state" where
  "record_snapshot cx st =
     (if cx_record_timeline cx then
        bindE (items_of (st_device_object_bytes st) (device_ids cx)) (\<lambda>objects.
        bindE (items_of (st_device_workspace_bytes st) (device_ids cx)) (\<lambda>workspaces.
        bindE (items_of (st_device_physical_bytes st) (device_ids cx)) (\<lambda>physicals.
          Inr (st\<lparr>st_memory_timeline := st_memory_timeline st @
            [\<lparr>sn_time_ns = st_now_ns st, sn_device_object_bytes = objects,
              sn_device_workspace_bytes = workspaces, sn_spill_bytes = st_spill_bytes st,
              sn_device_physical_bytes = physicals\<rparr>]\<rparr>))))
      else Inr st)"

definition take_snapshot :: "sim_context \<Rightarrow> sim_state \<Rightarrow> sim_error + sim_state" where
  "take_snapshot cx st =
     bindE (foldE snapshot_device st (device_ids cx)) (\<lambda>st.
       record_snapshot cx
         (st\<lparr>st_spill_peak_bytes := max (st_spill_peak_bytes st) (st_spill_bytes st)\<rparr>))"

definition raise_capacity ::
    "sim_state \<Rightarrow> string \<Rightarrow> string \<Rightarrow> int \<Rightarrow> int \<Rightarrow> int \<Rightarrow> string option \<Rightarrow> string list \<Rightarrow> sim_error" where
  "raise_capacity st kind location capacity used requested task_id aliases =
     SimulationInfeasible
       \<lparr>if_message = [Lit kind, Lit '' at '', Num (st_now_ns st), Lit '' ns: '', Num used,
          Lit '' used + '', Num requested, Lit '' requested '', Lit ''exceeds '', Num capacity,
          Lit '' bytes at '', Lit location],
        if_kind = kind, if_time_ns = st_now_ns st, if_task_id = task_id,
        if_alias_group_ids = aliases, if_location = Some location,
        if_capacity_bytes = Some capacity, if_used_bytes = Some used,
        if_requested_bytes = Some requested\<rparr>"

definition sim_infeasible ::
    "sim_state \<Rightarrow> fstring \<Rightarrow> string \<Rightarrow> string option \<Rightarrow> string list \<Rightarrow> string option \<Rightarrow> sim_error" where
  "sim_infeasible st message kind task_id aliases location =
     SimulationInfeasible
       \<lparr>if_message = message, if_kind = kind, if_time_ns = st_now_ns st, if_task_id = task_id,
        if_alias_group_ids = aliases, if_location = location, if_capacity_bytes = None,
        if_used_bytes = None, if_requested_bytes = None\<rparr>"

text \<open>The first loop of \<^verbatim>\<open>_initialize_memory\<close>, then the second.\<close>

definition initialize_alias :: "sim_state \<Rightarrow> string \<Rightarrow> sim_error + sim_state" where
  "initialize_alias st alias_id =
     bindE (look (st_alias_state st) alias_id) (\<lambda>a.
       if as_size_bytes a = 0 then
         Inr (set_alias alias_id (a\<lparr>as_device_allocated := True, as_device_ready := True\<rparr>) st)
       else if as_retain_spill_copy a then
         Inr (set_alias alias_id (a\<lparr>as_spill_allocated := True, as_spill_ready := True\<rparr>) st
           \<lparr>st_spill_bytes := st_spill_bytes st + as_size_bytes a\<rparr>)
       else Inr st)"

definition initialize_residency :: "sim_state \<Rightarrow> residency_spec \<Rightarrow> sim_error + sim_state" where
  "initialize_residency st residency =
     (let alias_id = rd_alias_group_id residency
      in bindE (look (st_alias_state st) alias_id) (\<lambda>a.
         if rd_location residency = DEVICE then
           add_object_bytes (as_device_id a) (as_size_bytes a)
             (set_alias alias_id (a\<lparr>as_device_allocated := True, as_device_ready := True\<rparr>) st)
         else
           let st = (if \<not> as_spill_allocated a
                     then st\<lparr>st_spill_bytes := st_spill_bytes st + as_size_bytes a\<rparr> else st)
           in Inr (set_alias alias_id (a\<lparr>as_spill_allocated := True, as_spill_ready := True\<rparr>) st)))"

definition check_initial_capacity :: "sim_context \<Rightarrow> sim_state \<Rightarrow> string \<Rightarrow> sim_error + unit" where
  "check_initial_capacity cx st device_id =
     bindE (look (st_device_physical_bytes st) device_id) (\<lambda>used.
     bindE (look (map_of (cx_device_config cx)) device_id) (\<lambda>config.
       ensure (\<not> used > dc_capacity_bytes config)
         (raise_capacity st ''initial-device-capacity'' (''device:'' @ device_id)
           (dc_capacity_bytes config) used 0 None [])))"

definition initialize_memory :: "sim_context \<Rightarrow> sim_state \<Rightarrow> sim_error + sim_state" where
  "initialize_memory cx st =
     bindE (foldE initialize_alias st (map ag_alias_group_id (pg_alias_groups (cx_program cx)))) (\<lambda>st.
     bindE (foldE initialize_residency st (ms_initial_residency (cx_schedule cx))) (\<lambda>st.
     let st = (case cx_admission cx of
         None \<Rightarrow> st\<lparr>st_device_physical_bytes :=
           st_device_physical_bytes st ++ st_device_object_bytes st\<rparr>
       | Some admission \<Rightarrow> st\<lparr>st_device_physical_bytes :=
           st_device_physical_bytes st ++ dict_of (am_initial_physical_bytes admission)\<rparr>)
     in bindE (take_snapshot cx st) (\<lambda>st.
        bindE (checkE (check_initial_capacity cx st) (device_ids cx)) (\<lambda>_.
        bindE (ensure (\<not> st_spill_bytes st > sc_spill_capacity_bytes (cx_config cx))
          (raise_capacity st ''initial-spill-capacity'' ''host''
            (sc_spill_capacity_bytes (cx_config cx)) (st_spill_bytes st) 0 None [])) (\<lambda>_.
        Inr st)))))"

definition apply_physical_delta :: "string \<Rightarrow> int \<Rightarrow> sim_state \<Rightarrow> sim_error + sim_state" where
  "apply_physical_delta device_id delta st =
     bindE (look (st_device_physical_bytes st) device_id) (\<lambda>current.
     let updated = current + delta
     in bindE (ensure (\<not> updated < 0)
          (SimFault (ValueError [Lit ''simulation admission underflows physical execution memory: '',
            Lit ''device='', Repr device_id, Lit '', '', Lit ''current='', Num current, Lit '', '',
            Lit ''delta='', Num delta]))) (\<lambda>_.
        Inr (st\<lparr>st_device_physical_bytes := (st_device_physical_bytes st)(device_id \<mapsto> updated)\<rparr>)))"

definition unlisted_delta :: "sim_context \<Rightarrow> int \<Rightarrow> int" where
  "unlisted_delta cx default_delta =
     (case cx_admission cx of
        None \<Rightarrow> default_delta
      | Some admission \<Rightarrow>
          (case am_unlisted_delta_bytes admission of None \<Rightarrow> default_delta | Some d \<Rightarrow> d))"

definition task_start_delta :: "sim_context \<Rightarrow> task_spec \<Rightarrow> int \<Rightarrow> int" where
  "task_start_delta cx task default_delta =
     (case cx_task_physical_deltas cx (tk_task_id task) of
        None \<Rightarrow> unlisted_delta cx default_delta | Some admitted \<Rightarrow> td_start_bytes admitted)"

definition task_completion_delta :: "sim_context \<Rightarrow> task_spec \<Rightarrow> int \<Rightarrow> int" where
  "task_completion_delta cx task default_delta =
     (case cx_task_physical_deltas cx (tk_task_id task) of
        None \<Rightarrow> unlisted_delta cx default_delta | Some admitted \<Rightarrow> td_completion_bytes admitted)"

definition action_trigger_delta :: "sim_context \<Rightarrow> nat \<Rightarrow> int \<Rightarrow> int" where
  "action_trigger_delta cx action_index default_delta =
     (case cx_action_physical_deltas cx (int action_index) of
        None \<Rightarrow> unlisted_delta cx default_delta | Some admitted \<Rightarrow> ad_trigger_bytes admitted)"

definition action_completion_delta :: "sim_context \<Rightarrow> nat \<Rightarrow> int \<Rightarrow> int" where
  "action_completion_delta cx action_index default_delta =
     (case cx_action_physical_deltas cx (int action_index) of
        None \<Rightarrow> unlisted_delta cx default_delta | Some admitted \<Rightarrow> ad_completion_bytes admitted)"


section \<open>Launching tasks\<close>

definition reuse_dependencies_complete :: "sim_state \<Rightarrow> memory_reuse_dependency list \<Rightarrow> bool" where
  "reuse_dependencies_complete st predecessors =
     list_all (\<lambda>dependency.
       case rd_predecessor_task_id dependency of
         Some task_id \<Rightarrow> known (st_completed st) task_id
       | None \<Rightarrow> (case rd_predecessor_action_index dependency of
                    None \<Rightarrow> False
                  | Some index \<Rightarrow> index \<in> set (st_completed_transfer_actions st))) predecessors"

definition resource_key :: "task_spec \<Rightarrow> lane_key" where
  "resource_key task =
     (rs_device_id (tk_resource task), rs_kind (tk_resource task), rs_lane (tk_resource task))"

fun first_on_lane :: "sim_state \<Rightarrow> lane_key \<Rightarrow> string \<Rightarrow> task_spec list \<Rightarrow> bool" where
  "first_on_lane st key task_id [] = False"
| "first_on_lane st key task_id (candidate # candidates) =
     (if tk_task_id candidate \<notin> set (st_unlaunched st) then first_on_lane st key task_id candidates
      else if resource_key candidate = key then tk_task_id candidate = task_id
      else first_on_lane st key task_id candidates)"

definition first_unlaunched_on_lane :: "sim_context \<Rightarrow> sim_state \<Rightarrow> task_spec \<Rightarrow> bool" where
  "first_unlaunched_on_lane cx st task =
     first_on_lane st (resource_key task) (tk_task_id task) (cx_tasks cx)"

definition task_output_aliases :: "sim_context \<Rightarrow> task_spec \<Rightarrow> sim_error + string list" where
  "task_output_aliases cx task =
     bindE (mapE (look (cx_object_alias cx)) (tk_outputs task)) (\<lambda>ids. Inr (fromkeys ids))"

definition input_missing :: "sim_state \<Rightarrow> string list \<Rightarrow> string \<Rightarrow> sim_error + string list" where
  "input_missing st missing alias_id =
     bindE (look (st_alias_state st) alias_id) (\<lambda>a.
       if \<not> as_device_ready a \<or> as_fetch_pending a \<or> as_evict_pending a
       then Inr (missing @ [alias_id]) else Inr missing)"

definition task_missing_inputs :: "sim_context \<Rightarrow> sim_state \<Rightarrow> task_spec \<Rightarrow> sim_error + string list" where
  "task_missing_inputs cx st task =
     bindE (mapE (look (cx_object_alias cx)) (tk_inputs task)) (\<lambda>ids.
       foldE (input_missing st) [] (fromkeys ids))"

text \<open>\<^verbatim>\<open>sum(size of each output alias without a device allocation)\<close>.\<close>

definition new_output_bytes :: "sim_state \<Rightarrow> string list \<Rightarrow> sim_error + int" where
  "new_output_bytes st output_aliases =
     foldE (\<lambda>total alias_id. bindE (look (st_alias_state st) alias_id) (\<lambda>a.
       Inr (if as_device_allocated a then total else total + as_size_bytes a))) 0 output_aliases"

definition wait_reason :: "string \<Rightarrow> task_wait \<Rightarrow> string \<Rightarrow> sim_state \<Rightarrow> sim_state" where
  "wait_reason task_id wait reason st =
     st\<lparr>st_task_waits := (st_task_waits st)(task_id \<mapsto>
       wait\<lparr>tw_reasons := List.insert reason (tw_reasons wait)\<rparr>)\<rparr>"

definition reserve_output :: "string \<Rightarrow> sim_state \<Rightarrow> string \<Rightarrow> sim_error + sim_state" where
  "reserve_output device_id st alias_id =
     bindE (look (st_alias_state st) alias_id) (\<lambda>a.
     bindE (if as_device_allocated a then Inr st
            else add_object_bytes device_id (as_size_bytes a) st) (\<lambda>st.
       Inr (set_alias alias_id
         (a\<lparr>as_device_allocated := True, as_device_ready := False, as_fetch_pending := False,
            as_evict_pending := False, as_write_back_pending := False, as_spill_ready := False\<rparr>) st)))"

definition launch_task ::
    "sim_context \<Rightarrow> task_spec \<Rightarrow> task_profile \<Rightarrow> string list \<Rightarrow> int \<Rightarrow> int \<Rightarrow> task_wait
     \<Rightarrow> sim_state \<Rightarrow> sim_error + sim_state" where
  "launch_task cx task profile output_aliases physical_delta ready_ns wait st =
     (let device_id = rs_device_id (tk_resource task);
          start = st_now_ns st;
          end_ns = start + pf_runtime_ns profile
      in bindE (foldE (reserve_output device_id) st output_aliases) (\<lambda>st.
         bindE (add_workspace_bytes device_id (pf_workspace_bytes profile) st) (\<lambda>st.
         bindE (apply_physical_delta device_id physical_delta st) (\<lambda>st.
         take_snapshot cx
           (st\<lparr>st_active_tasks := st_active_tasks st @ [(resource_key task,
                 \<lparr>ak_task = task, ak_ready_ns = ready_ns, ak_start_ns = start, ak_end_ns = end_ns,
                  ak_workspace_bytes = pf_workspace_bytes profile, ak_output_aliases = output_aliases,
                  ak_stall_reasons = sort (tw_reasons wait)\<rparr>)],
               st_unlaunched := filter (\<lambda>t. t \<noteq> tk_task_id task) (st_unlaunched st)\<rparr>)))))"

definition max_or_zero :: "int list \<Rightarrow> int" where
  "max_or_zero xs = (case xs of [] \<Rightarrow> 0 | y # ys \<Rightarrow> fold max ys y)"

definition try_launch_task ::
    "sim_context \<Rightarrow> bool \<times> sim_state \<Rightarrow> task_spec \<Rightarrow> sim_error + (bool \<times> sim_state)" where
  "try_launch_task cx = (\<lambda>(changed, st) task.
     let task_id = tk_task_id task; device_id = rs_device_id (tk_resource task)
     in if task_id \<notin> set (st_unlaunched st) then Inr (changed, st)
        else if \<not> first_unlaunched_on_lane cx st task then Inr (changed, st)
        else if known (map_of (st_active_tasks st)) (resource_key task) then Inr (changed, st)
        else if list_ex (\<lambda>d. \<not> known (st_completed st) d) (tk_dependencies task) then Inr (changed, st)
        else
          bindE (look (st_task_waits st) task_id) (\<lambda>wait.
          bindE (mapE (look (st_completed st)) (tk_dependencies task)) (\<lambda>completions.
          let ready_ns = (case tw_ready_ns wait of
                None \<Rightarrow> max (st_now_ns st) (max_or_zero completions) | Some r \<Rightarrow> r);
              wait = wait\<lparr>tw_ready_ns := Some ready_ns\<rparr>;
              st = st\<lparr>st_task_waits := (st_task_waits st)(task_id \<mapsto> wait)\<rparr>;
              reuse_dependencies =
                (case cx_task_reuse_dependencies cx task_id of None \<Rightarrow> [] | Some xs \<Rightarrow> xs)
          in if \<not> reuse_dependencies_complete st reuse_dependencies
             then Inr (changed, wait_reason task_id wait ''memory-reuse'' st)
             else
               bindE (task_missing_inputs cx st task) (\<lambda>missing.
               if missing \<noteq> [] then Inr (changed, wait_reason task_id wait ''input-residency'' st)
               else
                 bindE (look (cx_profile_by_id cx) (tk_profile_id task)) (\<lambda>profile.
                 bindE (task_output_aliases cx task) (\<lambda>output_aliases.
                 bindE (new_output_bytes st output_aliases) (\<lambda>output_bytes.
                 let logical_requested = output_bytes + pf_workspace_bytes profile;
                     physical_delta = task_start_delta cx task logical_requested;
                     requested = max physical_delta 0
                 in bindE (look (st_device_physical_bytes st) device_id) (\<lambda>used.
                    bindE (look (map_of (cx_device_config cx)) device_id) (\<lambda>config.
                    if used + requested > dc_capacity_bytes config
                    then Inr (changed, wait_reason task_id wait ''device-capacity'' st)
                    else
                      bindE (launch_task cx task profile output_aliases physical_delta ready_ns wait st)
                        (\<lambda>st. Inr (True, st)))))))))))"

definition try_launch_tasks :: "sim_context \<Rightarrow> sim_state \<Rightarrow> sim_error + (bool \<times> sim_state)" where
  "try_launch_tasks cx st = foldE (try_launch_task cx) (False, st) (cx_tasks cx)"


section \<open>Submitting actions\<close>

definition pending_queue :: "transfer_direction \<Rightarrow> sim_state \<Rightarrow> string \<rightharpoonup> pending_transfer list" where
  "pending_queue direction st =
     (case direction of FETCH_LANE \<Rightarrow> st_pending_fetch st | EVICT_LANE \<Rightarrow> st_pending_evict st)"

definition set_queue :: "transfer_direction \<Rightarrow> string \<Rightarrow> pending_transfer list \<Rightarrow> sim_state \<Rightarrow> sim_state" where
  "set_queue direction device_id queue st =
     (case direction of
        FETCH_LANE \<Rightarrow> st\<lparr>st_pending_fetch := (st_pending_fetch st)(device_id \<mapsto> queue)\<rparr>
      | EVICT_LANE \<Rightarrow> st\<lparr>st_pending_evict := (st_pending_evict st)(device_id \<mapsto> queue)\<rparr>)"

definition active_table :: "transfer_direction \<Rightarrow> sim_state \<Rightarrow> (string \<times> active_transfer) list" where
  "active_table direction st =
     (case direction of FETCH_LANE \<Rightarrow> st_active_fetch st | EVICT_LANE \<Rightarrow> st_active_evict st)"

definition set_table ::
    "transfer_direction \<Rightarrow> (string \<times> active_transfer) list \<Rightarrow> sim_state \<Rightarrow> sim_state" where
  "set_table direction table st =
     (case direction of
        FETCH_LANE \<Rightarrow> st\<lparr>st_active_fetch := table\<rparr>
      | EVICT_LANE \<Rightarrow> st\<lparr>st_active_evict := table\<rparr>)"

definition enqueue_transfer ::
    "nat \<Rightarrow> memory_action \<Rightarrow> transfer_direction \<Rightarrow> sim_state \<Rightarrow> sim_error + sim_state" where
  "enqueue_transfer action_index action direction st =
     (let alias_id = ma_alias_group_id action
      in bindE (look (st_alias_state st) alias_id) (\<lambda>a.
         let key = (as_device_id a, direction);
             sequence = (case st_transfer_sequence st key of None \<Rightarrow> 0 | Some n \<Rightarrow> n);
             deferred = st_deferred_ready_ns st action_index;
             pending = \<lparr>pt_action_index = action_index, pt_alias_group_id = alias_id,
               pt_trigger_task_id = ma_trigger_task_id action, pt_direction = direction,
               pt_kind = ma_kind action,
               pt_ready_ns = (case deferred of None \<Rightarrow> st_now_ns st | Some r \<Rightarrow> r),
               pt_sequence = sequence, pt_version = as_device_version a,
               pt_stall_reasons = (if deferred = None then []
                 else if direction = EVICT_LANE then [''host-capacity'']
                 else [''device-capacity''])\<rparr>;
             a' = (if direction = FETCH_LANE then a\<lparr>as_fetch_pending := True\<rparr>
                   else if ma_kind action = WRITE_BACK then a\<lparr>as_write_back_pending := True\<rparr>
                   else a\<lparr>as_evict_pending := True\<rparr>)
         in bindE (look (pending_queue direction st) (as_device_id a)) (\<lambda>queue.
              Inr (set_queue direction (as_device_id a) (queue @ [pending])
                (set_alias alias_id a'
                  (st\<lparr>st_transfer_sequence := (st_transfer_sequence st)(key \<mapsto> sequence + 1)\<rparr>))))))"

text \<open>\<^verbatim>\<open>_release\<close> returns whether the device copy was dropped.\<close>

definition release_alias ::
    "sim_context \<Rightarrow> memory_action \<Rightarrow> sim_state \<Rightarrow> sim_error + (bool \<times> sim_state)" where
  "release_alias cx action st =
     (let alias_id = ma_alias_group_id action; task_id = Some (ma_trigger_task_id action)
      in bindE (look (st_alias_state st) alias_id) (\<lambda>a.
         bindE (ensure (\<not> (\<not> as_device_allocated a \<or> \<not> as_device_ready a))
           (sim_infeasible st [Lit ''release of '', Repr alias_id, Lit '' has no ready device copy'']
             ''invalid-release'' task_id [alias_id] (Some (''device:'' @ as_device_id a)))) (\<lambda>_.
         bindE (ensure (\<not> (as_fetch_pending a \<or> as_evict_pending a))
           (sim_infeasible st [Lit ''release of '', Repr alias_id, Lit '' conflicts with a transfer'']
             ''release-transfer-conflict'' task_id [alias_id] None)) (\<lambda>_.
         if as_write_back_pending a then Inr (False, st)
         else
           bindE (ensure (\<not> (\<not> as_spill_ready a \<and>
               (alias_id \<in> set (cx_final_aliases cx)
                \<or> (case cx_alias_last_reader cx alias_id of
                     None \<Rightarrow> False | Some reader \<Rightarrow> \<not> known (st_completed st) reader))))
             (sim_infeasible st [Lit ''release of '', Repr alias_id, Lit '' drops the only current copy'']
               ''invalid-release'' task_id [alias_id] (Some (''device:'' @ as_device_id a)))) (\<lambda>_.
           let dropped = a\<lparr>as_device_allocated := False, as_device_ready := False\<rparr>
           in bindE (add_object_bytes (as_device_id a) (- as_size_bytes a) (set_alias alias_id dropped st))
                (\<lambda>st.
              let st = (if as_spill_allocated a \<and> \<not> as_retain_spill_copy a
                  then set_alias alias_id (dropped\<lparr>as_spill_allocated := False, as_spill_ready := False\<rparr>)
                    (st\<lparr>st_spill_bytes := st_spill_bytes st - as_size_bytes a\<rparr>)
                  else st)
              in bindE (take_snapshot cx st) (\<lambda>st. Inr (True, st))))))))"

definition defer_action ::
    "string \<Rightarrow> string \<Rightarrow> int \<Rightarrow> int \<Rightarrow> int \<Rightarrow> string \<Rightarrow> nat \<Rightarrow> memory_action \<Rightarrow> sim_state \<Rightarrow> sim_state" where
  "defer_action reason location capacity used requested device_id action_index action st =
     (if known (st_deferred_ready_ns st) action_index then st
      else st\<lparr>st_deferred_ready_ns := (st_deferred_ready_ns st)(action_index \<mapsto> st_now_ns st),
              st_capacity_violations := st_capacity_violations st @
                [\<lparr>cv_reason = reason, cv_location = location, cv_time_ns = st_now_ns st,
                  cv_capacity_bytes = capacity, cv_used_bytes = used, cv_requested_bytes = requested,
                  cv_device_id = device_id, cv_task_id = Some (ma_trigger_task_id action),
                  cv_alias_group_id = Some (ma_alias_group_id action)\<rparr>]\<rparr>)"

text \<open>The end of an iteration that submitted its action.\<close>

definition action_submitted ::
    "sim_context \<Rightarrow> string \<Rightarrow> int \<Rightarrow> sim_state \<Rightarrow> sim_error + (bool \<times> sim_state)" where
  "action_submitted cx device_id physical_delta st =
     bindE (apply_physical_delta device_id physical_delta st) (\<lambda>st.
     bindE (take_snapshot cx st) (\<lambda>st.
       Inr (True, st\<lparr>st_next_action_index := st_next_action_index st + 1\<rparr>)))"

definition departure_name :: "memory_action_kind \<Rightarrow> string" where
  "departure_name kind = (if kind = EVICT then ''evict'' else ''write-back'')"

definition submit_departure ::
    "sim_context \<Rightarrow> nat \<Rightarrow> memory_action \<Rightarrow> int \<Rightarrow> sim_state \<Rightarrow> sim_error + (bool \<times> sim_state)" where
  "submit_departure cx action_index action physical_delta st =
     (let alias_id = ma_alias_group_id action; name = departure_name (ma_kind action)
      in bindE (look (st_alias_state st) alias_id) (\<lambda>a.
         bindE (ensure (\<not> (\<not> as_device_allocated a \<or> \<not> as_device_ready a
             \<or> as_evict_pending a \<or> as_write_back_pending a))
           (sim_infeasible st [Lit name, Lit '' of '', Repr alias_id, Lit '' lacks a device '',
              Lit ''source or overlaps a transfer'']
             (''invalid-'' @ name) (Some (ma_trigger_task_id action)) [alias_id] None)) (\<lambda>_.
         if ma_kind action = WRITE_BACK \<and> as_spill_ready a
         then action_submitted cx (as_device_id a) physical_delta st
         else if \<not> as_spill_allocated a
             \<and> st_spill_bytes st + as_size_bytes a > sc_spill_capacity_bytes (cx_config cx)
         then Inr (False, defer_action ''evict-spill-capacity'' ''spill''
           (sc_spill_capacity_bytes (cx_config cx)) (st_spill_bytes st) (as_size_bytes a)
           (as_device_id a) action_index action st)
         else
           let st = (if \<not> as_spill_allocated a
               then set_alias alias_id (a\<lparr>as_spill_allocated := True, as_spill_ready := False\<rparr>)
                 (st\<lparr>st_spill_bytes := st_spill_bytes st + as_size_bytes a\<rparr>)
               else st)
           in bindE (enqueue_transfer action_index action EVICT_LANE st) (\<lambda>st.
              action_submitted cx (as_device_id a) physical_delta st))))"

definition submit_fetch ::
    "sim_context \<Rightarrow> nat \<Rightarrow> memory_action \<Rightarrow> int \<Rightarrow> sim_state \<Rightarrow> sim_error + (bool \<times> sim_state)" where
  "submit_fetch cx action_index action physical_delta st =
     (let alias_id = ma_alias_group_id action; task_id = Some (ma_trigger_task_id action)
      in bindE (look (st_alias_state st) alias_id) (\<lambda>a.
         bindE (ensure (\<not> (as_device_allocated a \<and> \<not> as_evict_pending a))
           (sim_infeasible st [Lit ''fetch of '', Repr alias_id, Lit '' already has a device copy'']
             ''invalid-fetch'' task_id [alias_id] None)) (\<lambda>_.
         bindE (ensure (\<not> (\<not> as_spill_ready a \<and> \<not> as_evict_pending a))
           (sim_infeasible st [Lit ''fetch of '', Repr alias_id, Lit '' lacks a spill source'']
             ''invalid-fetch'' task_id [alias_id] None)) (\<lambda>_.
         bindE (if as_device_allocated a then Inr st
                else add_object_bytes (as_device_id a) (as_size_bytes a)
                  (set_alias alias_id (a\<lparr>as_device_allocated := True, as_device_ready := False\<rparr>) st))
           (\<lambda>st.
         bindE (enqueue_transfer action_index action FETCH_LANE st) (\<lambda>st.
         action_submitted cx (as_device_id a) physical_delta st))))))"

text \<open>One iteration of the loop of \<^verbatim>\<open>_submit_ready_actions\<close>: whether to go on.\<close>

definition submit_action ::
    "sim_context \<Rightarrow> nat \<Rightarrow> memory_action \<Rightarrow> sim_state \<Rightarrow> sim_error + (bool \<times> sim_state)" where
  "submit_action cx action_index action st =
     (if \<not> known (st_completed st) (ma_trigger_task_id action) then Inr (False, st)
      else
        bindE (look (st_alias_state st) (ma_alias_group_id action)) (\<lambda>a.
        let device_id = as_device_id a;
            default_delta =
              (case ma_kind action of
                 RELEASE \<Rightarrow> - as_size_bytes a
               | FETCH \<Rightarrow> (if as_device_allocated a then 0 else as_size_bytes a)
               | _ \<Rightarrow> 0);
            physical_delta = action_trigger_delta cx action_index default_delta;
            requested = max physical_delta 0
        in bindE (look (map_of (cx_device_config cx)) device_id) (\<lambda>config.
           bindE (look (st_device_physical_bytes st) device_id) (\<lambda>used.
           if used + requested > dc_capacity_bytes config
           then Inr (False, defer_action ''fetch-device-capacity'' ''device''
             (dc_capacity_bytes config) used requested device_id action_index action st)
           else
             (case ma_kind action of
                RELEASE \<Rightarrow>
                  bindE (release_alias cx action st) (\<lambda>(dropped, st).
                    if dropped then action_submitted cx device_id physical_delta st else Inr (False, st))
              | FETCH \<Rightarrow> submit_fetch cx action_index action physical_delta st
              | _ \<Rightarrow> submit_departure cx action_index action physical_delta st)))))"

fun submit_actions :: "nat \<Rightarrow> sim_context \<Rightarrow> sim_state \<Rightarrow> sim_error + sim_state" where
  "submit_actions 0 cx st = Inr st"
| "submit_actions (Suc remaining) cx st =
     (let action_index = st_next_action_index st
      in if action_index < length (ms_actions (cx_schedule cx)) then
           bindE (submit_action cx action_index (ms_actions (cx_schedule cx) ! action_index) st)
             (\<lambda>(go_on, st). if go_on then submit_actions remaining cx st else Inr st)
         else Inr st)"

definition submit_ready_actions :: "sim_context \<Rightarrow> sim_state \<Rightarrow> sim_error + sim_state" where
  "submit_ready_actions cx st =
     submit_actions (length (ms_actions (cx_schedule cx)) - st_next_action_index st) cx st"

end
