(* ===== verification/Simulator_Run.thy ===== *)
theory Simulator_Run
  imports Simulator_Steps
begin

text \<open>
  The rest of the reference simulator (\<^verbatim>\<open>reference/python/simulator/implementation.py\<close>):
  the copy lanes, the completion of tasks and transfers, the diagnosis of a deadlock and the
  two nested \<^verbatim>\<open>while\<close> loops of \<^verbatim>\<open>run\<close>, which are partial functions here: a loop that does
  not end is \<open>None\<close>.
\<close>

section \<open>Copy lanes\<close>

definition progressed :: "int \<Rightarrow> active_transfer \<Rightarrow> active_transfer" where
  "progressed now active =
     active\<lparr>at_remaining := max 0 (at_remaining active - (now - at_progress_ns active) * at_rate active),
            at_progress_ns := now\<rparr>"

definition moving :: "int \<Rightarrow> active_transfer option \<Rightarrow> bool" where
  "moving now active =
     (case active of
        None \<Rightarrow> False
      | Some a \<Rightarrow> at_remaining a > 0 \<and> at_payload_start_ns a \<le> now)"

definition set_rate ::
    "int \<Rightarrow> bool \<Rightarrow> int \<Rightarrow> active_transfer option \<Rightarrow> sim_error + active_transfer option" where
  "set_rate now is_moving rate active =
     (case active of
        None \<Rightarrow> Inr None
      | Some a \<Rightarrow>
          let a = a\<lparr>at_rate := if is_moving then rate else 0\<rparr>
          in if is_moving then
               bindE (map_error SimFault (py_floordiv (at_remaining a + rate - 1) rate)) (\<lambda>duration.
                 Inr (Some (a\<lparr>at_end_ns := now + duration\<rparr>)))
             else Inr (Some a))"

definition refresh_device_rates ::
    "sim_state \<Rightarrow> string \<times> device_simulation_config \<Rightarrow> sim_error + sim_state" where
  "refresh_device_rates st = (\<lambda>(device_id, config).
     let now = st_now_ns st;
         fetch = map_option (progressed now) (map_of (st_active_fetch st) device_id);
         evict = map_option (progressed now) (map_of (st_active_evict st) device_id);
         fetching = moving now fetch;
         evicting = moving now evict
     in bindE (set_rate now fetching
          (if evicting then dc_fetch_concurrent config else dc_fetch_solo config) fetch) (\<lambda>fetch.
        bindE (set_rate now evicting
          (if fetching then dc_evict_concurrent config else dc_evict_solo config) evict) (\<lambda>evict.
        Inr (st\<lparr>st_active_fetch := put_key device_id fetch (st_active_fetch st),
                st_active_evict := put_key device_id evict (st_active_evict st)\<rparr>))))"

definition refresh_transfer_rates :: "sim_context \<Rightarrow> sim_state \<Rightarrow> sim_error + sim_state" where
  "refresh_transfer_rates cx st = foldE refresh_device_rates st (cx_device_config cx)"

definition stall_head ::
    "transfer_direction \<Rightarrow> string \<Rightarrow> pending_transfer \<Rightarrow> pending_transfer list \<Rightarrow> string
     \<Rightarrow> sim_state \<Rightarrow> sim_error + (bool \<times> sim_state)" where
  "stall_head direction device_id pending queue reason st =
     Inr (False, set_queue direction device_id
       (pending\<lparr>pt_stall_reasons := List.insert reason (pt_stall_reasons pending)\<rparr> # queue) st)"

definition started_transfer :: "int \<Rightarrow> int \<Rightarrow> pending_transfer \<Rightarrow> active_transfer" where
  "started_transfer now size_bytes pending =
     \<lparr>at_pending = pending, at_start_ns = now,
      at_end_ns = now + size_bytes * NANOSECONDS_PER_SECOND, at_payload_start_ns = now,
      at_remaining = size_bytes * NANOSECONDS_PER_SECOND, at_progress_ns = now, at_rate = 0\<rparr>"

definition try_start_direction ::
    "sim_context \<Rightarrow> string \<Rightarrow> transfer_direction \<Rightarrow> sim_state \<Rightarrow> sim_error + (bool \<times> sim_state)" where
  "try_start_direction cx device_id direction st =
     bindE (look (pending_queue direction st) device_id) (\<lambda>pending_list.
       case pending_list of
         [] \<Rightarrow> Inr (False, st)
       | pending # queue \<Rightarrow>
           if known (map_of (active_table direction st)) device_id
           then stall_head direction device_id pending queue ''lane-busy'' st
           else
             bindE (look (st_alias_state st) (pt_alias_group_id pending)) (\<lambda>a.
             if \<not> reuse_dependencies_complete st
                  (case cx_action_reuse_dependencies cx (int (pt_action_index pending)) of
                     None \<Rightarrow> [] | Some xs \<Rightarrow> xs)
             then stall_head direction device_id pending queue ''memory-reuse'' st
             else if (if direction = FETCH_LANE then as_evict_pending a \<or> \<not> as_spill_ready a
                      else \<not> as_device_ready a)
             then stall_head direction device_id pending queue ''source-readiness'' st
             else
               bindE (if direction = FETCH_LANE
                      then ensure (as_device_allocated a) (SimFault (AssertionError
                        [Lit ''queued FETCH has no trigger-time reservation'']))
                      else ensure (as_spill_allocated a) (SimFault (AssertionError
                        [Lit ''queued EVICT has no trigger-time reservation'']))) (\<lambda>_.
               bindE (take_snapshot cx
                   (set_table direction
                     (active_table direction st @
                       [(device_id, started_transfer (st_now_ns st) (as_size_bytes a) pending)])
                     (set_queue direction device_id queue st))) (\<lambda>st.
                 Inr (True, st)))))"

definition try_start_device ::
    "sim_context \<Rightarrow> bool \<times> sim_state \<Rightarrow> string \<Rightarrow> sim_error + (bool \<times> sim_state)" where
  "try_start_device cx = (\<lambda>(changed, st) device_id.
     bindE (try_start_direction cx device_id FETCH_LANE st) (\<lambda>(fetched, st).
     bindE (try_start_direction cx device_id EVICT_LANE st) (\<lambda>(evicted, st).
       Inr (changed \<or> fetched \<or> evicted, st))))"

definition try_start_transfers :: "sim_context \<Rightarrow> sim_state \<Rightarrow> sim_error + (bool \<times> sim_state)" where
  "try_start_transfers cx st = foldE (try_start_device cx) (False, st) (map fst (cx_device_config cx))"


section \<open>Completions\<close>

definition finish_output :: "sim_state \<Rightarrow> string \<Rightarrow> sim_error + sim_state" where
  "finish_output st alias_id =
     bindE (look (st_alias_state st) alias_id) (\<lambda>a.
       Inr (set_alias alias_id
         (a\<lparr>as_device_ready := True, as_device_version := as_device_version a + 1,
            as_spill_ready := False\<rparr>) st))"

definition finish_mutation :: "sim_context \<Rightarrow> sim_state \<Rightarrow> mutation_spec \<Rightarrow> sim_error + sim_state" where
  "finish_mutation cx st mutation =
     bindE (look (cx_object_alias cx) (mu_object_id mutation)) (\<lambda>alias_id.
     bindE (look (st_alias_state st) alias_id) (\<lambda>a.
       Inr (set_alias alias_id
         (a\<lparr>as_device_version := as_device_version a + mu_version_delta mutation,
            as_spill_ready := False\<rparr>) st)))"

text \<open>\<^verbatim>\<open>_complete_task\<close> up to its last line, then the method.\<close>

definition finish_task :: "sim_context \<Rightarrow> lane_key \<Rightarrow> sim_state \<Rightarrow> sim_error + sim_state" where
  "finish_task cx key st =
     bindE (look (map_of (st_active_tasks st)) key) (\<lambda>active.
     let task = ak_task active;
         device_id = rs_device_id (tk_resource task);
         st = st\<lparr>st_active_tasks := drop_key key (st_active_tasks st)\<rparr>
     in bindE (add_workspace_bytes device_id (- ak_workspace_bytes active) st) (\<lambda>st.
        bindE (apply_physical_delta device_id
          (task_completion_delta cx task (- ak_workspace_bytes active)) st) (\<lambda>st.
        bindE (foldE finish_output st (ak_output_aliases active)) (\<lambda>st.
        bindE (foldE (finish_mutation cx) st (tk_mutations task)) (\<lambda>st.
        take_snapshot cx
          (st\<lparr>st_completed := (st_completed st)(tk_task_id task \<mapsto> st_now_ns st),
              st_task_intervals := st_task_intervals st @
                [\<lparr>ti_task_id = tk_task_id task, ti_device_id = device_id,
                  ti_resource_kind = rs_kind (tk_resource task),
                  ti_resource_lane = rs_lane (tk_resource task), ti_ready_ns = ak_ready_ns active,
                  ti_start_ns = ak_start_ns active, ti_end_ns = ak_end_ns active,
                  ti_workspace_bytes = ak_workspace_bytes active,
                  ti_stall_reasons = ak_stall_reasons active\<rparr>]\<rparr>))))))"

definition complete_task :: "sim_context \<Rightarrow> lane_key \<Rightarrow> sim_state \<Rightarrow> sim_error + sim_state" where
  "complete_task cx key st = bindE (finish_task cx key st) (submit_ready_actions cx)"

text \<open>What a landed copy changes, with the default of its completion delta.\<close>

definition land_transfer ::
    "string \<Rightarrow> transfer_direction \<Rightarrow> pending_transfer \<Rightarrow> alias_state \<Rightarrow> sim_state
     \<Rightarrow> sim_error + (int \<times> sim_state)" where
  "land_transfer device_id direction pending a st =
     (let alias_id = pt_alias_group_id pending
      in if direction = FETCH_LANE then
           let a = a\<lparr>as_device_ready := True, as_device_version := as_spill_version a,
                     as_fetch_pending := False\<rparr>
           in if as_retain_spill_copy a then Inr (0, set_alias alias_id a st)
              else Inr (0, set_alias alias_id (a\<lparr>as_spill_allocated := False, as_spill_ready := False\<rparr>)
                (st\<lparr>st_spill_bytes := st_spill_bytes st - as_size_bytes a\<rparr>))
         else
           let a = a\<lparr>as_spill_version := pt_version pending,
                     as_spill_ready := (as_device_version a = pt_version pending)\<rparr>
           in if pt_kind pending = WRITE_BACK
              then Inr (0, set_alias alias_id (a\<lparr>as_write_back_pending := False\<rparr>) st)
              else
                let a = a\<lparr>as_evict_pending := False, as_device_ready := False\<rparr>
                in if as_fetch_pending a then Inr (0, set_alias alias_id a st)
                   else bindE (add_object_bytes device_id (- as_size_bytes a)
                          (set_alias alias_id (a\<lparr>as_device_allocated := False\<rparr>) st))
                     (\<lambda>st. Inr (- as_size_bytes a, st)))"

definition complete_transfer ::
    "sim_context \<Rightarrow> string \<Rightarrow> transfer_direction \<Rightarrow> sim_state \<Rightarrow> sim_error + sim_state" where
  "complete_transfer cx device_id direction st =
     bindE (look (map_of (active_table direction st)) device_id) (\<lambda>active.
     let pending = at_pending active;
         st = set_table direction (drop_key device_id (active_table direction st)) st
     in bindE (look (st_alias_state st) (pt_alias_group_id pending)) (\<lambda>a.
        bindE (land_transfer device_id direction pending a st) (\<lambda>(default_delta, st).
        bindE (apply_physical_delta device_id
          (action_completion_delta cx (pt_action_index pending) default_delta) st) (\<lambda>st.
        take_snapshot cx
          (st\<lparr>st_completed_transfer_actions :=
                List.insert (int (pt_action_index pending)) (st_completed_transfer_actions st),
              st_transfer_intervals := st_transfer_intervals st @
                [\<lparr>tr_alias_group_id = pt_alias_group_id pending,
                  tr_trigger_task_id = pt_trigger_task_id pending, tr_device_id = device_id,
                  tr_direction = direction, tr_kind = pt_kind pending,
                  tr_sequence = pt_sequence pending, tr_ready_ns = pt_ready_ns pending,
                  tr_start_ns = at_start_ns active, tr_end_ns = at_end_ns active,
                  tr_bytes = as_size_bytes a,
                  tr_stall_reasons = sort (pt_stall_reasons pending)\<rparr>]\<rparr>)))))"

definition transfer_event_ns :: "int \<Rightarrow> active_transfer \<Rightarrow> int" where
  "transfer_event_ns now active =
     (if at_payload_start_ns active > now then at_payload_start_ns active else at_end_ns active)"

definition next_event_time :: "sim_state \<Rightarrow> int option" where
  "next_event_time st =
     (case map (\<lambda>x. ak_end_ns (snd x)) (st_active_tasks st) @
           map (\<lambda>x. transfer_event_ns (st_now_ns st) (snd x)) (st_active_fetch st @ st_active_evict st) of
        [] \<Rightarrow> None
      | e # ends \<Rightarrow> Some (fold min ends e))"

definition complete_due_transfer ::
    "sim_context \<Rightarrow> transfer_direction \<Rightarrow> sim_state \<Rightarrow> string \<Rightarrow> sim_error + sim_state" where
  "complete_due_transfer cx direction st device_id =
     bindE (look (map_of (active_table direction st)) device_id) (\<lambda>active.
       if at_end_ns active = st_now_ns st then complete_transfer cx device_id direction st
       else Inr st)"

definition due_tasks :: "sim_context \<Rightarrow> sim_state \<Rightarrow> sim_error + lane_key list" where
  "due_tasks cx st =
     bindE (mapE (\<lambda>x. bindE (look (cx_task_order cx) (tk_task_id (ak_task (snd x))))
         (\<lambda>order. Inr (order, fst x)))
       (filter (\<lambda>x. ak_end_ns (snd x) = st_now_ns st) (st_active_tasks st))) (\<lambda>keyed.
     Inr (map snd (sort_key fst keyed)))"

definition complete_events :: "sim_context \<Rightarrow> sim_state \<Rightarrow> sim_error + sim_state" where
  "complete_events cx st =
     bindE (foldE (complete_due_transfer cx FETCH_LANE) st (sort (map fst (st_active_fetch st)))) (\<lambda>st.
     bindE (foldE (complete_due_transfer cx EVICT_LANE) st (sort (map fst (st_active_evict st)))) (\<lambda>st.
     bindE (due_tasks cx st) (\<lambda>keys.
     foldE (\<lambda>st key. complete_task cx key st) st keys)))"


section \<open>Diagnosis of a deadlock\<close>

text \<open>
  \<^verbatim>\<open>_deadlock\<close> never returns: each part raises what it finds, and the last line raises when
  none did.
\<close>

definition deadlocked_action :: "sim_context \<Rightarrow> sim_state \<Rightarrow> sim_error + unit" where
  "deadlocked_action cx st =
     (if st_next_action_index st < length (ms_actions (cx_schedule cx)) then
        let action = ms_actions (cx_schedule cx) ! st_next_action_index st
        in if \<not> known (st_completed st) (ma_trigger_task_id action) then Inr ()
           else
             bindE (look (st_alias_state st) (ma_alias_group_id action)) (\<lambda>a.
             case ma_kind action of
               RELEASE \<Rightarrow> Inr ()
             | FETCH \<Rightarrow>
                 bindE (look (map_of (cx_device_config cx)) (as_device_id a)) (\<lambda>config.
                 bindE (look (st_device_physical_bytes st) (as_device_id a)) (\<lambda>used.
                 Inl (raise_capacity st ''fetch-device-capacity'' (''device:'' @ as_device_id a)
                   (dc_capacity_bytes config) used (as_size_bytes a)
                   (Some (ma_trigger_task_id action)) [ma_alias_group_id action])))
             | _ \<Rightarrow>
                 Inl (raise_capacity st ''evict-spill-capacity'' ''host''
                   (sc_spill_capacity_bytes (cx_config cx)) (st_spill_bytes st) (as_size_bytes a)
                   (Some (ma_trigger_task_id action)) [ma_alias_group_id action]))
      else Inr ())"

definition deadlocked_queue ::
    "sim_context \<Rightarrow> sim_state \<Rightarrow> transfer_direction \<Rightarrow> string \<Rightarrow> sim_error + unit" where
  "deadlocked_queue cx st direction device_id =
     bindE (look (pending_queue direction st) device_id) (\<lambda>pending_list.
       case pending_list of
         [] \<Rightarrow> Inr ()
       | pending # queue \<Rightarrow>
           bindE (look (st_alias_state st) (pt_alias_group_id pending)) (\<lambda>a.
           if direction = FETCH_LANE then
             bindE (look (st_device_physical_bytes st) device_id) (\<lambda>used.
             bindE (look (map_of (cx_device_config cx)) device_id) (\<lambda>config.
             ensure (\<not> (\<not> as_device_allocated a \<and> used + as_size_bytes a > dc_capacity_bytes config))
               (raise_capacity st ''fetch-device-capacity'' (''device:'' @ device_id)
                 (dc_capacity_bytes config) used (as_size_bytes a) None [pt_alias_group_id pending])))
           else
             ensure (\<not> (\<not> as_spill_allocated a
                 \<and> st_spill_bytes st + as_size_bytes a > sc_spill_capacity_bytes (cx_config cx)))
               (raise_capacity st ''evict-spill-capacity'' ''host''
                 (sc_spill_capacity_bytes (cx_config cx)) (st_spill_bytes st) (as_size_bytes a) None
                 [pt_alias_group_id pending])))"

definition deadlocked_task :: "sim_context \<Rightarrow> sim_state \<Rightarrow> task_spec \<Rightarrow> sim_error + unit" where
  "deadlocked_task cx st task =
     (let device_id = rs_device_id (tk_resource task)
      in if tk_task_id task \<notin> set (st_unlaunched st) then Inr ()
         else if list_ex (\<lambda>d. \<not> known (st_completed st) d) (tk_dependencies task) then Inr ()
         else
           bindE (task_missing_inputs cx st task) (\<lambda>missing.
           bindE (ensure (missing = [])
             (sim_infeasible st [Lit ''task '', Repr (tk_task_id task),
                Lit '' has no progress source for inputs '', ReprTuple missing]
               ''task-input-deadlock'' (Some (tk_task_id task)) missing (Some (''device:'' @ device_id))))
             (\<lambda>_.
           bindE (look (cx_profile_by_id cx) (tk_profile_id task)) (\<lambda>profile.
           bindE (task_output_aliases cx task) (\<lambda>output_aliases.
           bindE (new_output_bytes st output_aliases) (\<lambda>output_bytes.
           let requested = max (task_start_delta cx task (pf_workspace_bytes profile + output_bytes)) 0
           in bindE (look (st_device_physical_bytes st) device_id) (\<lambda>used.
              bindE (look (map_of (cx_device_config cx)) device_id) (\<lambda>config.
              ensure (\<not> used + requested > dc_capacity_bytes config)
                (raise_capacity st ''task-device-capacity'' (''device:'' @ device_id)
                  (dc_capacity_bytes config) used requested (Some (tk_task_id task)) output_aliases)))))))))"

definition stuck_queue :: "sim_state \<Rightarrow> transfer_direction \<Rightarrow> string \<Rightarrow> sim_error + unit" where
  "stuck_queue st direction device_id =
     bindE (look (pending_queue direction st) device_id) (\<lambda>pending_list.
       case pending_list of
         [] \<Rightarrow> Inr ()
       | pending # queue \<Rightarrow>
           Inl (sim_infeasible st
             [Lit ''transfer for '', Repr (pt_alias_group_id pending), Lit '' has no progress source'']
             ''transfer-deadlock'' None [pt_alias_group_id pending] None))"

definition deadlock :: "sim_context \<Rightarrow> sim_state \<Rightarrow> sim_error + sim_state" where
  "deadlock cx st =
     bindE (deadlocked_action cx st) (\<lambda>_.
     bindE (checkE (deadlocked_queue cx st FETCH_LANE) (device_ids cx)) (\<lambda>_.
     bindE (checkE (deadlocked_queue cx st EVICT_LANE) (device_ids cx)) (\<lambda>_.
     bindE (checkE (deadlocked_task cx st) (cx_tasks cx)) (\<lambda>_.
     bindE (checkE (stuck_queue st FETCH_LANE) (device_ids cx)) (\<lambda>_.
     bindE (checkE (stuck_queue st EVICT_LANE) (device_ids cx)) (\<lambda>_.
     Inl (sim_infeasible st [Lit ''task dependencies cannot make progress''] ''dependency-deadlock''
       None [] None)))))))"


section \<open>The event loop\<close>

definition check_final_item :: "sim_state \<Rightarrow> residency_spec \<Rightarrow> sim_error + unit" where
  "check_final_item st residency =
     bindE (look (st_alias_state st) (rd_alias_group_id residency)) (\<lambda>a.
       ensure (if rd_location residency = DEVICE then as_device_ready a else as_spill_ready a)
         (sim_infeasible st
           [Lit ''final '', Lit (memory_location_value (rd_location residency)),
            Lit '' residency missing for '', Repr (rd_alias_group_id residency)]
           ''final-residency'' None [rd_alias_group_id residency]
           (Some (memory_location_value (rd_location residency)))))"

definition check_final_residency :: "sim_context \<Rightarrow> sim_state \<Rightarrow> sim_error + unit" where
  "check_final_residency cx st = checkE (check_final_item st) (ms_final_residency (cx_schedule cx))"

definition any_pending :: "sim_context \<Rightarrow> (string \<rightharpoonup> pending_transfer list) \<Rightarrow> bool" where
  "any_pending cx queues =
     list_ex (\<lambda>d. case queues d of None \<Rightarrow> False | Some queue \<Rightarrow> queue \<noteq> []) (device_ids cx)"

definition has_pending_work :: "sim_context \<Rightarrow> sim_state \<Rightarrow> bool" where
  "has_pending_work cx st \<longleftrightarrow>
     st_unlaunched st \<noteq> [] \<or> st_active_tasks st \<noteq> []
     \<or> st_next_action_index st < length (ms_actions (cx_schedule cx))
     \<or> any_pending cx (st_pending_fetch st) \<or> any_pending cx (st_pending_evict st)
     \<or> st_active_fetch st \<noteq> [] \<or> st_active_evict st \<noteq> []"

text \<open>One iteration of the inner loop, and the inner loop.\<close>

definition settle_round :: "sim_context \<Rightarrow> sim_state \<Rightarrow> sim_error + (bool \<times> sim_state)" where
  "settle_round cx st =
     bindE (try_start_transfers cx st) (\<lambda>(started, st).
     bindE (try_launch_tasks cx st) (\<lambda>(launched, st).
     let earlier = st_next_action_index st
     in bindE (submit_ready_actions cx st) (\<lambda>st.
          Inr (started \<or> launched \<or> st_next_action_index st \<noteq> earlier, st))))"

partial_function (option) settle :: "sim_context \<Rightarrow> sim_state \<Rightarrow> (sim_error + sim_state) option" where
  "settle cx st =
     (case settle_round cx st of
        Inl e \<Rightarrow> Some (Inl e)
      | Inr x \<Rightarrow> if fst x then settle cx (snd x) else Some (Inr (snd x)))"

text \<open>From the settled state to the next event and its completions.\<close>

definition advance :: "sim_context \<Rightarrow> sim_state \<Rightarrow> sim_error + sim_state" where
  "advance cx st =
     bindE (refresh_transfer_rates cx st) (\<lambda>st.
       case next_event_time st of
         None \<Rightarrow> deadlock cx st
       | Some next_time \<Rightarrow> complete_events cx (st\<lparr>st_now_ns := next_time\<rparr>))"

partial_function (option) event_loop :: "sim_context \<Rightarrow> sim_state \<Rightarrow> (sim_error + sim_state) option" where
  "event_loop cx st =
     (if \<not> has_pending_work cx st then Some (Inr st)
      else Option.bind (settle cx st) (\<lambda>settled.
        case settled of
          Inl e \<Rightarrow> Some (Inl e)
        | Inr st \<Rightarrow>
            if \<not> has_pending_work cx st then Some (Inr st)
            else (case advance cx st of
                    Inl e \<Rightarrow> Some (Inl e)
                  | Inr st \<Rightarrow> event_loop cx st)))"

declare settle.simps [code] event_loop.simps [code]

definition peak_of :: "sim_state \<Rightarrow> string \<Rightarrow> sim_error + device_memory_peak" where
  "peak_of st device_id =
     bindE (look (st_device_object_peaks st) device_id) (\<lambda>objects.
     bindE (look (st_device_workspace_peaks st) device_id) (\<lambda>workspace.
     bindE (look (st_device_total_peaks st) device_id) (\<lambda>total.
       Inr \<lparr>pk_device_id = device_id, pk_object_bytes = objects, pk_workspace_bytes = workspace,
            pk_total_bytes = total\<rparr>)))"

definition ordered_task_intervals :: "sim_context \<Rightarrow> sim_state \<Rightarrow> sim_error + task_interval list" where
  "ordered_task_intervals cx st =
     bindE (mapE (\<lambda>i. bindE (look (cx_task_order cx) (ti_task_id i)) (\<lambda>order. Inr (order, i)))
       (st_task_intervals st)) (\<lambda>keyed. Inr (map snd (sort_key fst keyed)))"

definition transfer_interval_key :: "transfer_interval \<Rightarrow> int \<times> string \<times> string \<times> int" where
  "transfer_interval_key item =
     (tr_start_ns item, transfer_direction_value (tr_direction item), tr_device_id item,
      tr_sequence item)"

definition simulation_result_of :: "sim_context \<Rightarrow> sim_state \<Rightarrow> sim_error + simulation_result" where
  "simulation_result_of cx st =
     bindE (check_final_residency cx st) (\<lambda>_.
     bindE (mapE (peak_of st) (map fst (cx_device_config cx))) (\<lambda>peaks.
     bindE (ordered_task_intervals cx st) (\<lambda>task_intervals.
       Inr \<lparr>sr_makespan_ns = st_now_ns st, sr_task_intervals = task_intervals,
            sr_transfer_intervals = sort_key transfer_interval_key (st_transfer_intervals st),
            sr_device_peaks = peaks, sr_spill_peak_bytes = st_spill_peak_bytes st,
            sr_memory_timeline = st_memory_timeline st,
            sr_capacity_violations = st_capacity_violations st,
            sr_capacity_violation_count = int (length (st_capacity_violations st))\<rparr>)))"

definition run_simulation :: "sim_context \<Rightarrow> (sim_error + simulation_result) option" where
  "run_simulation cx =
     (case initialize_memory cx (initial_state cx) of
        Inl e \<Rightarrow> Some (Inl e)
      | Inr st \<Rightarrow>
          Option.bind (event_loop cx st) (\<lambda>finished. Some (bindE finished (simulation_result_of cx))))"

definition simulate_python ::
    "shadow_spill_program \<Rightarrow> memory_schedule \<Rightarrow> task_alternative_choice list \<Rightarrow> simulation_config
     \<Rightarrow> simulation_admission option \<Rightarrow> bool \<Rightarrow> (sim_error + simulation_result) option" where
  "simulate_python program schedule selections config admission record_timeline =
     (case make_context program schedule selections config admission record_timeline of
        Inl e \<Rightarrow> Some (Inl e)
      | Inr cx \<Rightarrow> run_simulation cx)"

end
