(* ===== verification/Simulator_Frames.thy ===== *)
theory Simulator_Frames
  imports Simulator_Run
begin

text \<open>
  What each operation of the simulator changes: for every operation an elimination rule whose
  cases are the ways the code can return, each with its guards and the new state as an update
  of the old one, so a fact about the fields an operation leaves alone is one simplification.
\<close>

section \<open>Reading the state\<close>

lemma look_Inr_iff [simp]: "look m k = Inr v \<longleftrightarrow> m k = Some v"
  by (simp add: look_def dict_get_Inr_iff)

lemma look_Some [simp]: "m k = Some v \<Longrightarrow> look m k = Inr v"
  by simp

lemma drop_key_subset: "set (drop_key k xs) \<subseteq> set xs"
  by (auto simp: drop_key_def)

lemma drop_key_iff [simp]: "x \<in> set (drop_key k xs) \<longleftrightarrow> x \<in> set xs \<and> fst x \<noteq> k"
  by (auto simp: drop_key_def)

lemma drop_key_distinct: "distinct (map fst xs) \<Longrightarrow> distinct (map fst (drop_key k xs))"
  by (simp add: drop_key_def distinct_map_filter)

lemma drop_key_map_of: "k' \<noteq> k \<Longrightarrow> map_of (drop_key k xs) k' = map_of xs k'"
  by (induction xs) (auto simp: drop_key_def)

lemma drop_key_length: "map_of xs k = Some v \<Longrightarrow> length (drop_key k xs) < length xs"
  unfolding drop_key_def
  by (rule length_filter_less [where x = "(k, v)"]) (auto dest: map_of_SomeD)

lemma put_key_keys [simp]: "map fst (put_key k v xs) = map fst xs"
  by (induction xs) (auto simp: put_key_def split: option.splits)

lemma put_key_length [simp]: "length (put_key k v xs) = length xs"
  by (simp add: put_key_def split: option.splits)

lemma put_key_member: "x \<in> set (put_key k v xs) \<Longrightarrow> x \<in> set xs \<or> (fst x = k \<and> v = Some (snd x))"
  by (auto simp: put_key_def split: option.splits if_splits)

lemma lane_simps:
  "pending_queue FETCH_LANE st = st_pending_fetch st"
  "pending_queue EVICT_LANE st = st_pending_evict st"
  "active_table FETCH_LANE st = st_active_fetch st"
  "active_table EVICT_LANE st = st_active_evict st"
  "set_queue FETCH_LANE d q st = st\<lparr>st_pending_fetch := (st_pending_fetch st)(d \<mapsto> q)\<rparr>"
  "set_queue EVICT_LANE d q st = st\<lparr>st_pending_evict := (st_pending_evict st)(d \<mapsto> q)\<rparr>"
  "set_table FETCH_LANE t st = st\<lparr>st_active_fetch := t\<rparr>"
  "set_table EVICT_LANE t st = st\<lparr>st_active_evict := t\<rparr>"
  by (simp_all add: pending_queue_def active_table_def set_queue_def set_table_def)

section \<open>Snapshots, deltas and byte counters\<close>

lemma snapshot_deviceE:
  assumes "snapshot_device st d = Inr st'"
  obtains a b c where "st' = st\<lparr>st_device_object_peaks := a, st_device_workspace_peaks := b,
    st_device_total_peaks := c\<rparr>"
  using assms by (auto simp: snapshot_device_def)

lemma snapshot_devicesE:
  assumes "foldE snapshot_device st ds = Inr st'"
  obtains a b c where "st' = st\<lparr>st_device_object_peaks := a, st_device_workspace_peaks := b,
    st_device_total_peaks := c\<rparr>"
proof -
  have "\<exists>a b c. st' = st\<lparr>st_device_object_peaks := a, st_device_workspace_peaks := b,
      st_device_total_peaks := c\<rparr>"
  proof (rule foldE_simple_invariant [OF assms])
    show "\<exists>a b c. st = st\<lparr>st_device_object_peaks := a, st_device_workspace_peaks := b,
        st_device_total_peaks := c\<rparr>"
      by (intro exI [of _ "st_device_object_peaks st"] exI [of _ "st_device_workspace_peaks st"]
        exI [of _ "st_device_total_peaks st"]) simp
  next
    fix d t t'
    assume "\<exists>a b c. t = st\<lparr>st_device_object_peaks := a, st_device_workspace_peaks := b,
        st_device_total_peaks := c\<rparr>" and step: "snapshot_device t d = Inr t'"
    then obtain a b c where "t = st\<lparr>st_device_object_peaks := a, st_device_workspace_peaks := b,
        st_device_total_peaks := c\<rparr>" by blast
    with step show "\<exists>a b c. t' = st\<lparr>st_device_object_peaks := a, st_device_workspace_peaks := b,
        st_device_total_peaks := c\<rparr>" by (elim snapshot_deviceE) (simp, blast)
  qed
  then show ?thesis using that by blast
qed

lemma record_snapshotE:
  assumes "record_snapshot cx st = Inr st'"
  obtains t where "st' = st\<lparr>st_memory_timeline := t\<rparr>"
proof (cases "cx_record_timeline cx")
  case True
  with assms that show ?thesis by (auto simp: record_snapshot_def)
next
  case False
  with assms that [of "st_memory_timeline st"] show ?thesis by (simp add: record_snapshot_def)
qed

lemma take_snapshotE:
  assumes "take_snapshot cx st = Inr st'"
  obtains a b c s t where "st' = st\<lparr>st_device_object_peaks := a, st_device_workspace_peaks := b,
    st_device_total_peaks := c, st_spill_peak_bytes := s, st_memory_timeline := t\<rparr>"
proof -
  from assms obtain u where u: "foldE snapshot_device st (device_ids cx) = Inr u"
    "record_snapshot cx (u\<lparr>st_spill_peak_bytes := max (st_spill_peak_bytes u) (st_spill_bytes u)\<rparr>)
      = Inr st'" by (auto simp: take_snapshot_def)
  from u(1) obtain a b c where "u = st\<lparr>st_device_object_peaks := a, st_device_workspace_peaks := b,
      st_device_total_peaks := c\<rparr>" by (rule snapshot_devicesE)
  with u(2) show ?thesis by (auto elim!: record_snapshotE intro: that)
qed

lemma apply_physical_deltaE:
  assumes "apply_physical_delta d delta st = Inr st'"
  obtains v where "st_device_physical_bytes st d = Some v" "0 \<le> v + delta"
    "st' = st\<lparr>st_device_physical_bytes := (st_device_physical_bytes st)(d \<mapsto> v + delta)\<rparr>"
  using assms by (auto simp: apply_physical_delta_def Let_def)

lemma add_object_bytesE:
  assumes "add_object_bytes d n st = Inr st'"
  obtains v where "st_device_object_bytes st d = Some v"
    "st' = st\<lparr>st_device_object_bytes := (st_device_object_bytes st)(d \<mapsto> v + n)\<rparr>"
  using assms by (auto simp: add_object_bytes_def)

lemma add_workspace_bytesE:
  assumes "add_workspace_bytes d n st = Inr st'"
  obtains v where "st_device_workspace_bytes st d = Some v"
    "st' = st\<lparr>st_device_workspace_bytes := (st_device_workspace_bytes st)(d \<mapsto> v + n)\<rparr>"
  using assms by (auto simp: add_workspace_bytes_def)


section \<open>Starting transfers\<close>

definition reuse_of :: "('k \<rightharpoonup> memory_reuse_dependency list) \<Rightarrow> 'k \<Rightarrow> memory_reuse_dependency list" where
  "reuse_of table key = (case table key of None \<Rightarrow> [] | Some xs \<Rightarrow> xs)"

lemma try_start_directionE:
  assumes "try_start_direction cx d direction st = Inr (c, st')"
  obtains (idle) "\<not> c" "st' = st"
  | (stalled) p q rs where "\<not> c" "pending_queue direction st d = Some (p # q)"
      "st' = set_queue direction d (p\<lparr>pt_stall_reasons := rs\<rparr> # q) st"
  | (started) p q a where "c" "pending_queue direction st d = Some (p # q)"
      "map_of (active_table direction st) d = None"
      "st_alias_state st (pt_alias_group_id p) = Some a"
      "reuse_dependencies_complete st
        (reuse_of (cx_action_reuse_dependencies cx) (int (pt_action_index p)))"
      "direction = FETCH_LANE \<Longrightarrow> as_spill_ready a \<and> \<not> as_evict_pending a \<and> as_device_allocated a"
      "direction = EVICT_LANE \<Longrightarrow> as_device_ready a \<and> as_spill_allocated a"
      "take_snapshot cx (set_table direction
         (active_table direction st @ [(d, started_transfer (st_now_ns st) (as_size_bytes a) p)])
         (set_queue direction d q st)) = Inr st'"
  using assms
  by (cases "\<exists>p q rs. \<not> c \<and> pending_queue direction st d = Some (p # q)
        \<and> st' = set_queue direction d (p\<lparr>pt_stall_reasons := rs\<rparr> # q) st")
    (use that(2) in blast, auto simp: try_start_direction_def stall_head_def reuse_of_def
      split: list.splits if_splits intro: that(1) that(3), blast+)

lemma started_transfer_simps [simp]:
  "at_pending (started_transfer t n p) = p" "at_start_ns (started_transfer t n p) = t"
  "at_end_ns (started_transfer t n p) = t + n * NANOSECONDS_PER_SECOND"
  "at_payload_start_ns (started_transfer t n p) = t"
  "at_remaining (started_transfer t n p) = n * NANOSECONDS_PER_SECOND"
  "at_progress_ns (started_transfer t n p) = t" "at_rate (started_transfer t n p) = 0"
  by (simp_all add: started_transfer_def)


section \<open>Launching a task\<close>

text \<open>What no operation changes of an alias.\<close>

definition alias_shape :: "alias_state \<Rightarrow> int \<times> string \<times> int \<times> bool" where
  "alias_shape a = (as_size_bytes a, as_device_id a, as_initial_version a, as_retain_spill_copy a)"

definition shapes :: "(string \<rightharpoonup> alias_state) \<Rightarrow> string \<rightharpoonup> int \<times> string \<times> int \<times> bool" where
  "shapes m x = map_option alias_shape (m x)"

lemma shapes_upd:
  "m k = Some a \<Longrightarrow> alias_shape a' = alias_shape a \<Longrightarrow> shapes (m(k \<mapsto> a')) = shapes m"
  by (auto simp: shapes_def)

lemma shapes_empty [simp]: "shapes Map.empty = Map.empty"
  by (auto simp: shapes_def)

lemma reserve_outputE:
  assumes "reserve_output d st x = Inr st'"
  obtains a objects where "st_alias_state st x = Some a"
    "if as_device_allocated a then objects = st_device_object_bytes st
     else \<exists>b. st_device_object_bytes st d = Some b
       \<and> objects = (st_device_object_bytes st)(d \<mapsto> b + as_size_bytes a)"
    "st' = st\<lparr>st_alias_state := (st_alias_state st)(x \<mapsto>
        a\<lparr>as_device_allocated := True, as_device_ready := False, as_fetch_pending := False,
          as_evict_pending := False, as_write_back_pending := False, as_spill_ready := False\<rparr>),
      st_device_object_bytes := objects\<rparr>"
proof -
  from assms obtain a u where a: "st_alias_state st x = Some a"
    and u: "(if as_device_allocated a then Inr st else add_object_bytes d (as_size_bytes a) st) = Inr u"
    and st': "st' = set_alias x (a\<lparr>as_device_allocated := True, as_device_ready := False,
        as_fetch_pending := False, as_evict_pending := False, as_write_back_pending := False,
        as_spill_ready := False\<rparr>) u"
    by (auto simp: reserve_output_def)
  show ?thesis
  proof (cases "as_device_allocated a")
    case True
    with u st' a show ?thesis
      by (intro that [of a "st_device_object_bytes st"]) (auto simp: set_alias_def)
  next
    case False
    with u obtain b where "st_device_object_bytes st d = Some b"
      "u = st\<lparr>st_device_object_bytes := (st_device_object_bytes st)(d \<mapsto> b + as_size_bytes a)\<rparr>"
      by (auto elim: add_object_bytesE)
    with False st' a show ?thesis
      by (intro that [of a "(st_device_object_bytes st)(d \<mapsto> b + as_size_bytes a)"])
        (auto simp: set_alias_def)
  qed
qed

lemma reserve_outputsE:
  assumes "foldE (reserve_output d) st xs = Inr st'"
  obtains aliases objects where "st' = st\<lparr>st_alias_state := aliases, st_device_object_bytes := objects\<rparr>"
    "shapes aliases = shapes (st_alias_state st)"
proof -
  have "\<exists>aliases objects. st' = st\<lparr>st_alias_state := aliases, st_device_object_bytes := objects\<rparr>
      \<and> shapes aliases = shapes (st_alias_state st)"
  proof (rule foldE_simple_invariant [OF assms])
    show "\<exists>aliases objects. st = st\<lparr>st_alias_state := aliases, st_device_object_bytes := objects\<rparr>
      \<and> shapes aliases = shapes (st_alias_state st)"
      by (intro exI [of _ "st_alias_state st"] exI [of _ "st_device_object_bytes st"]) simp
  next
    fix x t t'
    assume "\<exists>aliases objects. t = st\<lparr>st_alias_state := aliases, st_device_object_bytes := objects\<rparr>
      \<and> shapes aliases = shapes (st_alias_state st)" and "reserve_output d t x = Inr t'"
    then obtain aliases objects where t: "t = st\<lparr>st_alias_state := aliases,
        st_device_object_bytes := objects\<rparr>" and sh: "shapes aliases = shapes (st_alias_state st)"
      and run: "reserve_output d t x = Inr t'" by blast
    from run have "\<exists>a a' objects'. aliases x = Some a \<and> alias_shape a' = alias_shape a
      \<and> t' = t\<lparr>st_alias_state := (st_alias_state t)(x \<mapsto> a'), st_device_object_bytes := objects'\<rparr>"
      by (elim reserve_outputE, intro exI conjI) (auto simp: t alias_shape_def)
    then obtain a a' objects' where "aliases x = Some a" "alias_shape a' = alias_shape a"
      "t' = t\<lparr>st_alias_state := (st_alias_state t)(x \<mapsto> a'), st_device_object_bytes := objects'\<rparr>"
      by blast
    with t sh show "\<exists>aliases objects. t' = st\<lparr>st_alias_state := aliases,
        st_device_object_bytes := objects\<rparr> \<and> shapes aliases = shapes (st_alias_state st)"
      by (intro exI [of _ "aliases(x \<mapsto> a')"] exI [of _ objects']) (simp add: shapes_upd)
  qed
  with that show ?thesis by blast
qed

definition launched_task ::
    "task_spec \<Rightarrow> task_profile \<Rightarrow> string list \<Rightarrow> int \<Rightarrow> int \<Rightarrow> task_wait \<Rightarrow> active_task" where
  "launched_task task profile output_aliases ready_ns now wait =
     \<lparr>ak_task = task, ak_ready_ns = ready_ns, ak_start_ns = now,
      ak_end_ns = now + pf_runtime_ns profile, ak_workspace_bytes = pf_workspace_bytes profile,
      ak_output_aliases = output_aliases, ak_stall_reasons = sort (tw_reasons wait)\<rparr>"

lemma launched_task_simps [simp]:
  "ak_task (launched_task t p os r n w) = t" "ak_ready_ns (launched_task t p os r n w) = r"
  "ak_start_ns (launched_task t p os r n w) = n"
  "ak_end_ns (launched_task t p os r n w) = n + pf_runtime_ns p"
  "ak_workspace_bytes (launched_task t p os r n w) = pf_workspace_bytes p"
  "ak_output_aliases (launched_task t p os r n w) = os"
  by (simp_all add: launched_task_def)

lemma launch_taskE:
  assumes "launch_task cx task profile outs delta ready wait st = Inr st'"
  obtains aliases objects w v where
    "foldE (reserve_output (rs_device_id (tk_resource task))) st outs
      = Inr (st\<lparr>st_alias_state := aliases, st_device_object_bytes := objects\<rparr>)"
    "shapes aliases = shapes (st_alias_state st)"
    "st_device_workspace_bytes st (rs_device_id (tk_resource task)) = Some w"
    "st_device_physical_bytes st (rs_device_id (tk_resource task)) = Some v" "0 \<le> v + delta"
    "take_snapshot cx (st\<lparr>st_alias_state := aliases, st_device_object_bytes := objects,
       st_device_workspace_bytes := (st_device_workspace_bytes st)
         (rs_device_id (tk_resource task) \<mapsto> w + pf_workspace_bytes profile),
       st_device_physical_bytes := (st_device_physical_bytes st)
         (rs_device_id (tk_resource task) \<mapsto> v + delta),
       st_active_tasks := st_active_tasks st @
         [(resource_key task, launched_task task profile outs ready (st_now_ns st) wait)],
       st_unlaunched := filter (\<lambda>t. t \<noteq> tk_task_id task) (st_unlaunched st)\<rparr>) = Inr st'"
proof -
  let ?d = "rs_device_id (tk_resource task)"
  from assms obtain u1 u2 u3 where run: "foldE (reserve_output ?d) st outs = Inr u1"
    "add_workspace_bytes ?d (pf_workspace_bytes profile) u1 = Inr u2"
    "apply_physical_delta ?d delta u2 = Inr u3"
    "take_snapshot cx (u3\<lparr>st_active_tasks := st_active_tasks u3 @
       [(resource_key task, launched_task task profile outs ready (st_now_ns st) wait)],
       st_unlaunched := filter (\<lambda>t. t \<noteq> tk_task_id task) (st_unlaunched u3)\<rparr>) = Inr st'"
    by (auto simp: launch_task_def Let_def launched_task_def)
  from run(1) obtain aliases objects where
    u1: "u1 = st\<lparr>st_alias_state := aliases, st_device_object_bytes := objects\<rparr>"
    and sh: "shapes aliases = shapes (st_alias_state st)" by (rule reserve_outputsE)
  from run(2) u1 obtain w where w: "st_device_workspace_bytes st ?d = Some w"
    "u2 = u1\<lparr>st_device_workspace_bytes := (st_device_workspace_bytes st)
      (?d \<mapsto> w + pf_workspace_bytes profile)\<rparr>" by (elim add_workspace_bytesE) simp
  from run(3) u1 w(2) obtain v where v: "st_device_physical_bytes st ?d = Some v" "0 \<le> v + delta"
    "u3 = u2\<lparr>st_device_physical_bytes := (st_device_physical_bytes st)(?d \<mapsto> v + delta)\<rparr>"
    by (elim apply_physical_deltaE) simp
  show ?thesis
    by (rule that) (use run(1,4) u1 sh w v in simp_all)
qed

lemma task_waits_irrelevant [simp]:
  "reuse_dependencies_complete (st\<lparr>st_task_waits := w\<rparr>) ds = reuse_dependencies_complete st ds"
  "task_missing_inputs cx (st\<lparr>st_task_waits := w\<rparr>) task = task_missing_inputs cx st task"
  "new_output_bytes (st\<lparr>st_task_waits := w\<rparr>) xs = new_output_bytes st xs"
  by (simp_all add: reuse_dependencies_complete_def task_missing_inputs_def input_missing_def [abs_def]
    new_output_bytes_def cong: option.case_cong)

text \<open>The conditions under which a task is launched, with the values computed on the way.\<close>

definition ready_time :: "sim_state \<Rightarrow> task_wait \<Rightarrow> int list \<Rightarrow> int" where
  "ready_time st wait completions =
     (case tw_ready_ns wait of
        None \<Rightarrow> max (st_now_ns st) (max_or_zero completions) | Some r \<Rightarrow> r)"

lemma try_launch_taskE:
  assumes "try_launch_task cx (c, st) task = Inr (c', st')"
  obtains (kept) w where "c' = c" "st' = st\<lparr>st_task_waits := w\<rparr>"
    "\<And>x y. w x = Some y \<Longrightarrow> tw_ready_ns y \<noteq> tw_ready_ns (the (st_task_waits st x)) \<Longrightarrow>
      \<exists>wait completions. x = tk_task_id task \<and> st_task_waits st x = Some wait
        \<and> mapE (look (st_completed st)) (tk_dependencies task) = Inr completions
        \<and> tw_ready_ns y = Some (ready_time st wait completions)"
    "dom w = dom (st_task_waits st)"
  | (launched) wait w completions profile outs bytes used config where "c'"
    "tk_task_id task \<in> set (st_unlaunched st)" "first_unlaunched_on_lane cx st task"
    "map_of (st_active_tasks st) (resource_key task) = None"
    "\<forall>d \<in> set (tk_dependencies task). known (st_completed st) d"
    "st_task_waits st (tk_task_id task) = Some wait"
    "mapE (look (st_completed st)) (tk_dependencies task) = Inr completions"
    "w = wait\<lparr>tw_ready_ns := Some (ready_time st wait completions)\<rparr>"
    "reuse_dependencies_complete st (reuse_of (cx_task_reuse_dependencies cx) (tk_task_id task))"
    "task_missing_inputs cx st task = Inr []"
    "cx_profile_by_id cx (tk_profile_id task) = Some profile"
    "task_output_aliases cx task = Inr outs"
    "new_output_bytes st outs = Inr bytes"
    "st_device_physical_bytes st (rs_device_id (tk_resource task)) = Some used"
    "map_of (cx_device_config cx) (rs_device_id (tk_resource task)) = Some config"
    "used + max (task_start_delta cx task (bytes + pf_workspace_bytes profile)) 0
      \<le> dc_capacity_bytes config"
    "launch_task cx task profile outs (task_start_delta cx task (bytes + pf_workspace_bytes profile))
      (ready_time st wait completions) w
      (st\<lparr>st_task_waits := (st_task_waits st)(tk_task_id task \<mapsto> w)\<rparr>) = Inr st'"
proof (cases "tk_task_id task \<in> set (st_unlaunched st) \<and> first_unlaunched_on_lane cx st task
    \<and> map_of (st_active_tasks st) (resource_key task) = None
    \<and> (\<forall>d \<in> set (tk_dependencies task). known (st_completed st) d)")
  case False
  with assms have "c' = c" "st' = st"
    by (auto simp: try_launch_task_def Let_def list_ex_iff split: if_splits)
  with kept [of "st_task_waits st"] show ?thesis by simp
next
  case ready: True
  let ?id = "tk_task_id task"
  from ready have nex: "\<not> list_ex (\<lambda>d. \<not> known (st_completed st) d) (tk_dependencies task)"
    by (auto simp: list_ex_iff)
  from assms ready nex obtain wait completions where
    wait: "st_task_waits st ?id = Some wait"
    and comp: "mapE (look (st_completed st)) (tk_dependencies task) = Inr completions"
    by (auto simp: try_launch_task_def Let_def)
  define w where "w = wait\<lparr>tw_ready_ns := Some (ready_time st wait completions)\<rparr>"
  define st1 where "st1 = st\<lparr>st_task_waits := (st_task_waits st)(?id \<mapsto> w)\<rparr>"
  let ?d = "rs_device_id (tk_resource task)"
  have run: "(if \<not> reuse_dependencies_complete st1 (reuse_of (cx_task_reuse_dependencies cx) ?id)
      then Inr (c, wait_reason ?id w ''memory-reuse'' st1)
      else bindE (task_missing_inputs cx st1 task) (\<lambda>missing.
        if missing \<noteq> [] then Inr (c, wait_reason ?id w ''input-residency'' st1)
        else bindE (look (cx_profile_by_id cx) (tk_profile_id task)) (\<lambda>profile.
          bindE (task_output_aliases cx task) (\<lambda>outs.
          bindE (new_output_bytes st1 outs) (\<lambda>bytes.
          bindE (look (st_device_physical_bytes st1) ?d) (\<lambda>used.
          bindE (look (map_of (cx_device_config cx)) ?d) (\<lambda>config.
          if used + max (task_start_delta cx task (bytes + pf_workspace_bytes profile)) 0
            > dc_capacity_bytes config
          then Inr (c, wait_reason ?id w ''device-capacity'' st1)
          else bindE (launch_task cx task profile outs
              (task_start_delta cx task (bytes + pf_workspace_bytes profile))
              (ready_time st wait completions) w st1) (\<lambda>st. Inr (True, st)))))))))
      = Inr (c', st')"
    using assms ready nex
    by (simp add: try_launch_task_def Let_def wait comp ready_time_def w_def st1_def reuse_of_def
      cong: if_cong)
  have waits: "\<exists>w'. wait_reason ?id w reason st1 = st\<lparr>st_task_waits := w'\<rparr>
      \<and> (\<forall>x y. w' x = Some y \<longrightarrow> tw_ready_ns y \<noteq> tw_ready_ns (the (st_task_waits st x)) \<longrightarrow>
          x = ?id \<and> tw_ready_ns y = Some (ready_time st wait completions))
      \<and> dom w' = dom (st_task_waits st)" for reason
    by (rule exI [of _ "(st_task_waits st)(?id \<mapsto> w\<lparr>tw_reasons := List.insert reason (tw_reasons w)\<rparr>)"])
      (use wait in \<open>auto simp: wait_reason_def st1_def w_def\<close>)
  show ?thesis
  proof (cases "c' = c \<and> (\<exists>reason. st' = wait_reason ?id w reason st1)")
    case True
    then obtain reason where "st' = wait_reason ?id w reason st1" by blast
    with waits [of reason] True wait comp kept show ?thesis by (metis (mono_tags, lifting))
  next
    case False
    with run have reuse: "reuse_dependencies_complete st1
        (reuse_of (cx_task_reuse_dependencies cx) ?id)" by (auto split: if_splits)
    with run obtain missing where missing: "task_missing_inputs cx st1 task = Inr missing" by auto
    with run reuse False have "missing = []" by (auto split: if_splits)
    with run reuse missing obtain profile outs bytes used config where vals:
      "cx_profile_by_id cx (tk_profile_id task) = Some profile" "task_output_aliases cx task = Inr outs"
      "new_output_bytes st1 outs = Inr bytes" "st_device_physical_bytes st1 ?d = Some used"
      "map_of (cx_device_config cx) ?d = Some config" by auto
    let ?delta = "task_start_delta cx task (bytes + pf_workspace_bytes profile)"
    from run reuse missing \<open>missing = []\<close> vals False
    have fits: "used + max ?delta 0 \<le> dc_capacity_bytes config" by (auto split: if_splits)
    with run reuse missing \<open>missing = []\<close> vals have "c'"
      "launch_task cx task profile outs ?delta (ready_time st wait completions) w st1 = Inr st'" by auto
    with ready wait comp w_def reuse missing \<open>missing = []\<close> vals fits show ?thesis
      by (intro launched) (simp_all add: st1_def)
  qed
qed


section \<open>Submitting an action\<close>

lemma enqueue_transferE:
  assumes "enqueue_transfer i action direction st = Inr st'"
  obtains a a' p q n where "st_alias_state st (ma_alias_group_id action) = Some a"
    "pending_queue direction st (as_device_id a) = Some q"
    "alias_shape a' = alias_shape a" "as_device_allocated a' = as_device_allocated a"
    "as_spill_allocated a' = as_spill_allocated a"
    "pt_action_index p = i" "pt_direction p = direction" "pt_sequence p = n"
    "n = (case st_transfer_sequence st (as_device_id a, direction) of None \<Rightarrow> 0 | Some n \<Rightarrow> n)"
    "st' = set_queue direction (as_device_id a) (q @ [p])
      (st\<lparr>st_transfer_sequence := (st_transfer_sequence st)((as_device_id a, direction) \<mapsto> n + 1),
          st_alias_state := (st_alias_state st)(ma_alias_group_id action \<mapsto> a')\<rparr>)"
proof -
  from assms obtain a q where a: "st_alias_state st (ma_alias_group_id action) = Some a"
    and q: "pending_queue direction st (as_device_id a) = Some q"
    by (auto simp: enqueue_transfer_def Let_def)
  define n where "n = (case st_transfer_sequence st (as_device_id a, direction) of None \<Rightarrow> 0 | Some n \<Rightarrow> n)"
  define a' where "a' = (if direction = FETCH_LANE then a\<lparr>as_fetch_pending := True\<rparr>
    else if ma_kind action = WRITE_BACK then a\<lparr>as_write_back_pending := True\<rparr>
    else a\<lparr>as_evict_pending := True\<rparr>)"
  define p where "p = \<lparr>pt_action_index = i, pt_alias_group_id = ma_alias_group_id action,
    pt_trigger_task_id = ma_trigger_task_id action, pt_direction = direction,
    pt_kind = ma_kind action,
    pt_ready_ns = (case st_deferred_ready_ns st i of None \<Rightarrow> st_now_ns st | Some r \<Rightarrow> r),
    pt_sequence = n, pt_version = as_device_version a,
    pt_stall_reasons = (if st_deferred_ready_ns st i = None then []
      else if direction = EVICT_LANE then [''host-capacity''] else [''device-capacity''])\<rparr>"
  have st': "st' = set_queue direction (as_device_id a) (q @ [p])
      (st\<lparr>st_transfer_sequence := (st_transfer_sequence st)((as_device_id a, direction) \<mapsto> n + 1),
          st_alias_state := (st_alias_state st)(ma_alias_group_id action \<mapsto> a')\<rparr>)"
    using assms a q unfolding enqueue_transfer_def Let_def set_alias_def n_def a'_def p_def by simp
  show ?thesis
    by (rule that [OF a q _ _ _ _ _ _ _ st']) (auto simp: a'_def p_def n_def alias_shape_def)
qed

lemma action_submittedE:
  assumes "action_submitted cx d delta st = Inr (c, st')"
  obtains v u where "c" "st_device_physical_bytes st d = Some v" "0 \<le> v + delta"
    "take_snapshot cx
      (st\<lparr>st_device_physical_bytes := (st_device_physical_bytes st)(d \<mapsto> v + delta)\<rparr>) = Inr u"
    "st' = u\<lparr>st_next_action_index := st_next_action_index u + 1\<rparr>"
  using assms by (auto simp: action_submitted_def elim!: apply_physical_deltaE)

definition needed_later :: "sim_context \<Rightarrow> sim_state \<Rightarrow> string \<Rightarrow> bool" where
  "needed_later cx st alias_id \<longleftrightarrow>
     alias_id \<in> set (cx_final_aliases cx)
     \<or> (\<exists>reader. cx_alias_last_reader cx alias_id = Some reader \<and> \<not> known (st_completed st) reader)"

lemma release_aliasE:
  assumes "release_alias cx action st = Inr (dropped, st')"
    and a: "st_alias_state st (ma_alias_group_id action) = Some a"
  obtains (waits) "\<not> dropped" "st' = st" "as_write_back_pending a"
  | (dropped) a' b s where "dropped" "as_device_allocated a" "as_device_ready a"
      "\<not> as_fetch_pending a" "\<not> as_evict_pending a" "\<not> as_write_back_pending a"
      "as_spill_ready a \<or> \<not> needed_later cx st (ma_alias_group_id action)"
      "alias_shape a' = alias_shape a" "\<not> as_device_allocated a'" "\<not> as_device_ready a'"
      "st_device_object_bytes st (as_device_id a) = Some b"
      "if as_spill_allocated a \<and> \<not> as_retain_spill_copy a
       then s = st_spill_bytes st - as_size_bytes a \<and> \<not> as_spill_allocated a'
       else s = st_spill_bytes st \<and> as_spill_allocated a' = as_spill_allocated a"
      "take_snapshot cx (st\<lparr>st_alias_state := (st_alias_state st)(ma_alias_group_id action \<mapsto> a'),
         st_device_object_bytes := (st_device_object_bytes st)(as_device_id a \<mapsto> b - as_size_bytes a),
         st_spill_bytes := s\<rparr>) = Inr st'"
proof (cases "as_write_back_pending a")
  case True
  with assms have "\<not> dropped" "st' = st" by (auto simp: release_alias_def Let_def)
  with waits True show ?thesis by blast
next
  case False
  let ?x = "ma_alias_group_id action"
  from assms False have guards: "as_device_allocated a" "as_device_ready a" "\<not> as_fetch_pending a"
    "\<not> as_evict_pending a" by (auto simp: release_alias_def Let_def)
  from assms False guards have loss: "as_spill_ready a \<or> \<not> needed_later cx st ?x"
    by (auto simp: release_alias_def Let_def needed_later_def split: option.splits)
  define da where "da = a\<lparr>as_device_allocated := False, as_device_ready := False\<rparr>"
  from assms False obtain u where
    u: "add_object_bytes (as_device_id a) (- as_size_bytes a) (set_alias ?x da st) = Inr u"
    by (auto simp: release_alias_def Let_def da_def)
  from u obtain b where b: "st_device_object_bytes st (as_device_id a) = Some b"
    "u = st\<lparr>st_alias_state := (st_alias_state st)(?x \<mapsto> da),
      st_device_object_bytes := (st_device_object_bytes st)(as_device_id a \<mapsto> b - as_size_bytes a)\<rparr>"
    by (elim add_object_bytesE) (simp add: set_alias_def)
  let ?drop = "as_spill_allocated a \<and> \<not> as_retain_spill_copy a"
  define a' where "a' = (if ?drop then da\<lparr>as_spill_allocated := False, as_spill_ready := False\<rparr> else da)"
  define s where "s = (if ?drop then st_spill_bytes st - as_size_bytes a else st_spill_bytes st)"
  define w where "w = (if ?drop then set_alias ?x (da\<lparr>as_spill_allocated := False, as_spill_ready := False\<rparr>)
    (u\<lparr>st_spill_bytes := st_spill_bytes u - as_size_bytes a\<rparr>) else u)"
  have w: "w = st\<lparr>st_alias_state := (st_alias_state st)(?x \<mapsto> a'),
      st_device_object_bytes := (st_device_object_bytes st)(as_device_id a \<mapsto> b - as_size_bytes a),
      st_spill_bytes := s\<rparr>"
    by (rule sim_state.equality) (simp_all add: w_def a'_def s_def b(2) set_alias_def)
  have "dropped" and "take_snapshot cx w = Inr st'"
    using assms False guards loss u by (auto simp: release_alias_def Let_def da_def w_def)
  then have snap: "take_snapshot cx (st\<lparr>st_alias_state := (st_alias_state st)(?x \<mapsto> a'),
      st_device_object_bytes := (st_device_object_bytes st)(as_device_id a \<mapsto> b - as_size_bytes a),
      st_spill_bytes := s\<rparr>) = Inr st'" by (simp only: w)
  show ?thesis
    by (rule that(2) [OF \<open>dropped\<close> guards False loss _ _ _ b(1) _ snap])
      (auto simp: a'_def da_def s_def alias_shape_def)
qed


definition defers :: "sim_state \<Rightarrow> sim_state \<Rightarrow> bool" where
  "defers st st' \<longleftrightarrow> (\<exists>m v. st' = st\<lparr>st_deferred_ready_ns := m, st_capacity_violations := v\<rparr>
    \<and> (\<forall>j t. m j = Some t \<longrightarrow> st_deferred_ready_ns st j = Some t \<or> t = st_now_ns st))"

lemma defer_action_defers [simp]: "defers st (defer_action r l c n q d i action st)"
proof (cases "known (st_deferred_ready_ns st) i")
  case True
  then show ?thesis unfolding defers_def
    by (intro exI [of _ "st_deferred_ready_ns st"] exI [of _ "st_capacity_violations st"])
      (simp add: defer_action_def)
next
  case False
  then show ?thesis unfolding defer_action_def defers_def by (auto split: if_splits)
qed

lemma submit_departureE:
  assumes run: "submit_departure cx i action delta st = Inr (c, st')"
    and a: "st_alias_state st (ma_alias_group_id action) = Some a"
  obtains (deferred) m v where "\<not> c" "st' = st\<lparr>st_deferred_ready_ns := m, st_capacity_violations := v\<rparr>"
    "\<And>j t. m j = Some t \<Longrightarrow> st_deferred_ready_ns st j = Some t \<or> t = st_now_ns st"
  | (skipped) "ma_kind action = WRITE_BACK"
      "action_submitted cx (as_device_id a) delta st = Inr (c, st')"
  | (departed) a' s u where "as_device_allocated a" "as_device_ready a" "\<not> as_evict_pending a"
      "\<not> as_write_back_pending a" "alias_shape a' = alias_shape a"
      "as_device_allocated a'" "as_spill_allocated a'"
      "if as_spill_allocated a then s = st_spill_bytes st
       else s = st_spill_bytes st + as_size_bytes a \<and> s \<le> sc_spill_capacity_bytes (cx_config cx)"
      "enqueue_transfer i action EVICT_LANE (st\<lparr>st_spill_bytes := s,
         st_alias_state := (st_alias_state st)(ma_alias_group_id action \<mapsto> a')\<rparr>) = Inr u"
      "action_submitted cx (as_device_id a) delta u = Inr (c, st')"
proof -
  let ?x = "ma_alias_group_id action"
  let ?full = "\<not> as_spill_allocated a
    \<and> st_spill_bytes st + as_size_bytes a > sc_spill_capacity_bytes (cx_config cx)"
  from run a have guards: "as_device_allocated a" "as_device_ready a" "\<not> as_evict_pending a"
    "\<not> as_write_back_pending a" by (auto simp: submit_departure_def Let_def)
  consider (skip) "ma_kind action = WRITE_BACK" "as_spill_ready a"
    | (full) "\<not> (ma_kind action = WRITE_BACK \<and> as_spill_ready a)" "?full"
    | (go) "\<not> (ma_kind action = WRITE_BACK \<and> as_spill_ready a)" "\<not> ?full" by blast
  then show ?thesis
  proof cases
    case skip
    with run a guards have "action_submitted cx (as_device_id a) delta st = Inr (c, st')"
      by (auto simp: submit_departure_def Let_def)
    with skip skipped show ?thesis by blast
  next
    case full
    with run a guards have "\<not> c"
      "defers st st'"
      by (auto simp: submit_departure_def Let_def)
    with deferred show ?thesis unfolding defers_def by blast
  next
    case go
    define a' where "a' = (if as_spill_allocated a then a
      else a\<lparr>as_spill_allocated := True, as_spill_ready := False\<rparr>)"
    define s where "s = (if as_spill_allocated a then st_spill_bytes st
      else st_spill_bytes st + as_size_bytes a)"
    define t where "t = (if \<not> as_spill_allocated a
      then set_alias ?x (a\<lparr>as_spill_allocated := True, as_spill_ready := False\<rparr>)
        (st\<lparr>st_spill_bytes := st_spill_bytes st + as_size_bytes a\<rparr>) else st)"
    have t: "t = st\<lparr>st_spill_bytes := s, st_alias_state := (st_alias_state st)(?x \<mapsto> a')\<rparr>"
      by (rule sim_state.equality)
        (use a in \<open>simp_all add: t_def s_def a'_def set_alias_def map_upd_triv\<close>)
    from run a guards go obtain u where "enqueue_transfer i action EVICT_LANE t = Inr u"
      "action_submitted cx (as_device_id a) delta u = Inr (c, st')"
      unfolding submit_departure_def Let_def t_def by (auto split del: if_split split: if_splits)
    then show ?thesis unfolding t
      by (intro departed [OF guards])
        (use guards go in \<open>auto simp: a'_def s_def alias_shape_def\<close>)
  qed
qed

lemma submit_fetchE:
  assumes run: "submit_fetch cx i action delta st = Inr (c, st')"
    and a: "st_alias_state st (ma_alias_group_id action) = Some a"
  obtains a' objects u where "as_device_allocated a \<Longrightarrow> as_evict_pending a"
    "as_spill_ready a \<or> as_evict_pending a" "alias_shape a' = alias_shape a" "as_device_allocated a'"
    "if as_device_allocated a then objects = st_device_object_bytes st
     else \<exists>b. st_device_object_bytes st (as_device_id a) = Some b
       \<and> objects = (st_device_object_bytes st)(as_device_id a \<mapsto> b + as_size_bytes a)"
    "enqueue_transfer i action FETCH_LANE (st\<lparr>st_alias_state := (st_alias_state st)
       (ma_alias_group_id action \<mapsto> a'), st_device_object_bytes := objects\<rparr>) = Inr u"
    "action_submitted cx (as_device_id a) delta u = Inr (c, st')"
proof -
  let ?x = "ma_alias_group_id action"
  from run a have guards: "as_device_allocated a \<Longrightarrow> as_evict_pending a"
    "as_spill_ready a \<or> as_evict_pending a" by (auto simp: submit_fetch_def Let_def)
  from run a obtain t u where
    t: "(if as_device_allocated a then Inr st else add_object_bytes (as_device_id a) (as_size_bytes a)
        (set_alias ?x (a\<lparr>as_device_allocated := True, as_device_ready := False\<rparr>) st)) = Inr t"
    and rest: "enqueue_transfer i action FETCH_LANE t = Inr u"
      "action_submitted cx (as_device_id a) delta u = Inr (c, st')"
    by (auto simp: submit_fetch_def Let_def)
  show ?thesis
  proof (cases "as_device_allocated a")
    case True
    with t a have "t = st\<lparr>st_alias_state := (st_alias_state st)(?x \<mapsto> a),
      st_device_object_bytes := st_device_object_bytes st\<rparr>" by (simp add: map_upd_triv)
    with rest True show ?thesis
      by (intro that [OF guards, of a "st_device_object_bytes st" u]) auto
  next
    case False
    let ?a' = "a\<lparr>as_device_allocated := True, as_device_ready := False\<rparr>"
    from False t obtain b where b: "st_device_object_bytes st (as_device_id a) = Some b"
      "t = st\<lparr>st_alias_state := (st_alias_state st)(?x \<mapsto> ?a'), st_device_object_bytes :=
        (st_device_object_bytes st)(as_device_id a \<mapsto> b + as_size_bytes a)\<rparr>"
      by (auto simp: set_alias_def elim!: add_object_bytesE)
    with rest False show ?thesis
      by (intro that [OF guards, of ?a' "(st_device_object_bytes st)
        (as_device_id a \<mapsto> b + as_size_bytes a)" u]) (auto simp: alias_shape_def)
  qed
qed

definition trigger_default :: "memory_action \<Rightarrow> alias_state \<Rightarrow> int" where
  "trigger_default action a =
     (case ma_kind action of
        RELEASE \<Rightarrow> - as_size_bytes a
      | FETCH \<Rightarrow> (if as_device_allocated a then 0 else as_size_bytes a)
      | _ \<Rightarrow> 0)"

lemma submit_actionE:
  assumes run: "submit_action cx i action st = Inr (c, st')"
  obtains (kept) "\<not> c" "st' = st"
  | (deferred) m v where "\<not> c" "known (st_completed st) (ma_trigger_task_id action)"
      "st' = st\<lparr>st_deferred_ready_ns := m, st_capacity_violations := v\<rparr>"
      "\<And>j t. m j = Some t \<Longrightarrow> st_deferred_ready_ns st j = Some t \<or> t = st_now_ns st"
  | (submitted) a config used where "known (st_completed st) (ma_trigger_task_id action)"
      "st_alias_state st (ma_alias_group_id action) = Some a"
      "map_of (cx_device_config cx) (as_device_id a) = Some config"
      "st_device_physical_bytes st (as_device_id a) = Some used"
      "used + max (action_trigger_delta cx i (trigger_default action a)) 0 \<le> dc_capacity_bytes config"
      "(case ma_kind action of
          RELEASE \<Rightarrow> \<exists>u. release_alias cx action st = Inr (True, u)
            \<and> action_submitted cx (as_device_id a)
              (action_trigger_delta cx i (trigger_default action a)) u = Inr (c, st')
        | FETCH \<Rightarrow> submit_fetch cx i action (action_trigger_delta cx i (trigger_default action a)) st
            = Inr (c, st')
        | _ \<Rightarrow> submit_departure cx i action (action_trigger_delta cx i (trigger_default action a)) st
            = Inr (c, st'))"
proof (cases "known (st_completed st) (ma_trigger_task_id action)")
  case False
  with run kept show ?thesis by (auto simp: submit_action_def)
next
  case trig: True
  with run obtain a config used where a: "st_alias_state st (ma_alias_group_id action) = Some a"
    and cap: "map_of (cx_device_config cx) (as_device_id a) = Some config"
    and used: "st_device_physical_bytes st (as_device_id a) = Some used"
    by (auto simp: submit_action_def Let_def)
  let ?delta = "action_trigger_delta cx i (trigger_default action a)"
  show ?thesis
  proof (cases "used + max ?delta 0 \<le> dc_capacity_bytes config")
    case False
    with run trig a cap used have "\<not> c"
      "defers st st'"
      by (auto simp: submit_action_def Let_def trigger_default_def)
    with deferred trig show ?thesis unfolding defers_def by blast
  next
    case True
    have rest: "(case ma_kind action of
          RELEASE \<Rightarrow> bindE (release_alias cx action st) (\<lambda>(dropped, st).
            if dropped then action_submitted cx (as_device_id a) ?delta st else Inr (False, st))
        | FETCH \<Rightarrow> submit_fetch cx i action ?delta st
        | _ \<Rightarrow> submit_departure cx i action ?delta st) = Inr (c, st')"
      using run trig a cap used True unfolding trigger_default_def by (simp add: submit_action_def Let_def)
    show ?thesis
    proof (cases "ma_kind action = RELEASE")
      case rel: True
      with rest obtain dropped u where u: "release_alias cx action st = Inr (dropped, u)"
        "(if dropped then action_submitted cx (as_device_id a) ?delta u else Inr (False, u)) = Inr (c, st')"
        by auto
      show ?thesis
      proof (cases dropped)
        case True
        with u rel show ?thesis
          by (intro submitted [OF trig a cap used \<open>used + max ?delta 0 \<le> dc_capacity_bytes config\<close>]) simp
      next
        case False
        from u(1) a have "u = st" using False by (cases rule: release_aliasE) auto
        with u(2) False kept show ?thesis by simp
      qed
    next
      case False
      with rest show ?thesis
        by (intro submitted [OF trig a cap used True]) (auto split: memory_action_kind.splits)
    qed
  qed
qed


section \<open>Rates, completions\<close>

definition config_rates :: "device_simulation_config \<Rightarrow> int set" where
  "config_rates config =
     {dc_fetch_solo config, dc_fetch_concurrent config, dc_evict_solo config, dc_evict_concurrent config}"

definition refreshed ::
    "device_simulation_config \<Rightarrow> int \<Rightarrow> active_transfer \<Rightarrow> active_transfer \<Rightarrow> bool" where
  "refreshed config now a a' \<longleftrightarrow>
     at_pending a' = at_pending a \<and> at_start_ns a' = at_start_ns a
     \<and> at_payload_start_ns a' = at_payload_start_ns a
     \<and> (at_end_ns a' = at_end_ns a
        \<or> (\<exists>rate \<in> config_rates config. rate \<noteq> 0 \<and> 0 < at_remaining a'
             \<and> at_end_ns a' = now + (at_remaining a' + rate - 1) div rate))"

lemma set_rateE:
  assumes "set_rate now m rate (map_option (progressed now) x) = Inr y"
    and "rate \<in> config_rates config" and "m \<Longrightarrow> moving now (map_option (progressed now) x)"
  shows "(x = None \<and> y = None) \<or> (\<exists>a a'. x = Some a \<and> y = Some a' \<and> refreshed config now a a')"
proof (cases x)
  case None
  with assms show ?thesis by (simp add: set_rate_def)
next
  case (Some a)
  with assms show ?thesis
    by (auto simp: set_rate_def Let_def refreshed_def progressed_def moving_def py_floordiv_Inr_iff
        split: if_splits) blast+
qed

definition table_refreshed ::
    "device_simulation_config \<Rightarrow> int \<Rightarrow> (string \<times> active_transfer) list
     \<Rightarrow> (string \<times> active_transfer) list \<Rightarrow> bool" where
  "table_refreshed config now xs ys \<longleftrightarrow>
     map fst ys = map fst xs
     \<and> (\<forall>k a'. (k, a') \<in> set ys \<longrightarrow> (\<exists>a. (k, a) \<in> set xs \<and> (a' = a \<or> refreshed config now a a')))"

lemma put_key_refreshed:
  assumes "(map_of xs d = None \<and> y = None)
    \<or> (\<exists>a a'. map_of xs d = Some a \<and> y = Some a' \<and> refreshed config now a a')"
  shows "table_refreshed config now xs (put_key d y xs)"
  unfolding table_refreshed_def
proof (intro conjI allI impI)
  fix k a'
  assume "(k, a') \<in> set (put_key d y xs)"
  then consider "(k, a') \<in> set xs" | "k = d" "y = Some a'" by (auto dest: put_key_member)
  then show "\<exists>a. (k, a) \<in> set xs \<and> (a' = a \<or> refreshed config now a a')"
    by cases (use assms in \<open>auto dest: map_of_SomeD\<close>)
qed simp

lemma refresh_device_ratesE:
  assumes "refresh_device_rates st (d, config) = Inr st'"
  obtains f e where "st' = st\<lparr>st_active_fetch := f, st_active_evict := e\<rparr>"
    "table_refreshed config (st_now_ns st) (st_active_fetch st) f"
    "table_refreshed config (st_now_ns st) (st_active_evict st) e"
proof -
  let ?n = "st_now_ns st"
  let ?f = "map_option (progressed ?n) (map_of (st_active_fetch st) d)"
  let ?e = "map_option (progressed ?n) (map_of (st_active_evict st) d)"
  from assms obtain f e where
    f: "set_rate ?n (moving ?n ?f)
      (if moving ?n ?e then dc_fetch_concurrent config else dc_fetch_solo config) ?f = Inr f"
    and e: "set_rate ?n (moving ?n ?e)
      (if moving ?n ?f then dc_evict_concurrent config else dc_evict_solo config) ?e = Inr e"
    and st': "st' = st\<lparr>st_active_fetch := put_key d f (st_active_fetch st),
      st_active_evict := put_key d e (st_active_evict st)\<rparr>"
    by (auto simp: refresh_device_rates_def Let_def)
  show ?thesis
    by (rule that [OF st']; rule put_key_refreshed)
      (rule set_rateE [OF f] set_rateE [OF e]; simp add: config_rates_def)+
qed

lemma land_transferE:
  assumes "land_transfer d direction p a st = Inr (delta, st')"
  obtains (fetched) a' s where "direction = FETCH_LANE" "delta = 0"
      "alias_shape a' = alias_shape a" "as_device_allocated a' = as_device_allocated a"
      "if as_retain_spill_copy a then s = st_spill_bytes st \<and> as_spill_allocated a' = as_spill_allocated a
       else s = st_spill_bytes st - as_size_bytes a \<and> \<not> as_spill_allocated a'"
      "st' = st\<lparr>st_spill_bytes := s,
        st_alias_state := (st_alias_state st)(pt_alias_group_id p \<mapsto> a')\<rparr>"
  | (copied) a' where "direction = EVICT_LANE" "delta = 0"
      "alias_shape a' = alias_shape a" "as_device_allocated a' = as_device_allocated a"
      "as_spill_allocated a' = as_spill_allocated a"
      "st' = st\<lparr>st_alias_state := (st_alias_state st)(pt_alias_group_id p \<mapsto> a')\<rparr>"
  | (evicted) a' b where "direction = EVICT_LANE" "pt_kind p \<noteq> WRITE_BACK"
      "delta = - as_size_bytes a"
      "alias_shape a' = alias_shape a" "\<not> as_device_allocated a'"
      "as_spill_allocated a' = as_spill_allocated a" "st_device_object_bytes st d = Some b"
      "st' = st\<lparr>st_alias_state := (st_alias_state st)(pt_alias_group_id p \<mapsto> a'),
        st_device_object_bytes := (st_device_object_bytes st)(d \<mapsto> b - as_size_bytes a)\<rparr>"
proof (cases direction)
  case FETCH_LANE
  show ?thesis
  proof (cases "as_retain_spill_copy a")
    case True
    with assms FETCH_LANE show ?thesis
      by (intro fetched [of "a\<lparr>as_device_ready := True, as_device_version := as_spill_version a,
          as_fetch_pending := False\<rparr>" "st_spill_bytes st"])
        (auto simp: land_transfer_def Let_def set_alias_def alias_shape_def)
  next
    case False
    with assms FETCH_LANE show ?thesis
      by (intro fetched [of "a\<lparr>as_device_ready := True, as_device_version := as_spill_version a,
          as_fetch_pending := False, as_spill_allocated := False, as_spill_ready := False\<rparr>"
          "st_spill_bytes st - as_size_bytes a"])
        (auto simp: land_transfer_def Let_def set_alias_def alias_shape_def)
  qed
next
  case EVICT_LANE
  show ?thesis
  proof (cases "pt_kind p = WRITE_BACK \<or> as_fetch_pending a")
    case True
    define a' where "a' = (let b = a\<lparr>as_spill_version := pt_version p,
        as_spill_ready := (as_device_version a = pt_version p)\<rparr>
      in if pt_kind p = WRITE_BACK then b\<lparr>as_write_back_pending := False\<rparr>
         else b\<lparr>as_evict_pending := False, as_device_ready := False\<rparr>)"
    with assms EVICT_LANE True show ?thesis
      by (intro copied [of a'])
        (auto simp: land_transfer_def Let_def set_alias_def alias_shape_def split: if_splits)
  next
    case False
    with assms EVICT_LANE show ?thesis
      by (auto simp: land_transfer_def Let_def set_alias_def alias_shape_def elim!: add_object_bytesE
        intro!: evicted [of "a\<lparr>as_spill_version := pt_version p,
          as_spill_ready := (as_device_version a = pt_version p), as_evict_pending := False,
          as_device_ready := False, as_device_allocated := False\<rparr>"])
  qed
qed

lemma complete_transferE:
  assumes "complete_transfer cx d direction st = Inr st'"
    and active: "map_of (active_table direction st) d = Some active"
  obtains a delta t v i where "st_alias_state st (pt_alias_group_id (at_pending active)) = Some a"
    "land_transfer d direction (at_pending active) a
       (set_table direction (drop_key d (active_table direction st)) st) = Inr (delta, t)"
    "st_device_physical_bytes t d = Some v"
    "0 \<le> v + action_completion_delta cx (pt_action_index (at_pending active)) delta"
    "tr_device_id i = d" "tr_direction i = direction" "tr_sequence i = pt_sequence (at_pending active)"
    "tr_start_ns i = at_start_ns active" "tr_end_ns i = at_end_ns active"
    "take_snapshot cx (t\<lparr>st_device_physical_bytes := (st_device_physical_bytes t)
         (d \<mapsto> v + action_completion_delta cx (pt_action_index (at_pending active)) delta),
       st_completed_transfer_actions := List.insert (int (pt_action_index (at_pending active)))
         (st_completed_transfer_actions t),
       st_transfer_intervals := st_transfer_intervals t @ [i]\<rparr>) = Inr st'"
proof -
  let ?st1 = "set_table direction (drop_key d (active_table direction st)) st"
  from assms obtain a delta t where
    a: "st_alias_state ?st1 (pt_alias_group_id (at_pending active)) = Some a"
    and land: "land_transfer d direction (at_pending active) a ?st1 = Inr (delta, t)"
    by (auto simp: complete_transfer_def Let_def)
  from a have a': "st_alias_state st (pt_alias_group_id (at_pending active)) = Some a"
    by (cases direction) (auto simp: lane_simps)
  from assms a land show ?thesis
    by (auto simp: complete_transfer_def Let_def elim!: apply_physical_deltaE intro!: that [OF a' land])
qed

text \<open>The loops at the end of a task keep what is allocated.\<close>

definition profiles :: "(string \<rightharpoonup> alias_state)
    \<Rightarrow> string \<rightharpoonup> (int \<times> string \<times> int \<times> bool) \<times> bool \<times> bool" where
  "profiles m x = map_option (\<lambda>a. (alias_shape a, as_device_allocated a, as_spill_allocated a)) (m x)"

lemma profiles_shapes: "profiles m = profiles m' \<Longrightarrow> shapes m = shapes m'"
proof -
  have "shapes n = (\<lambda>x. map_option fst (profiles n x))" for n
    by (simp add: fun_eq_iff shapes_def profiles_def option.map_comp comp_def)
  then show "profiles m = profiles m' \<Longrightarrow> shapes m = shapes m'" by simp
qed

definition touches_alias :: "sim_state \<Rightarrow> sim_state \<Rightarrow> bool" where
  "touches_alias st st' \<longleftrightarrow>
     (\<exists>m. st' = st\<lparr>st_alias_state := m\<rparr> \<and> profiles m = profiles (st_alias_state st))"

lemma touches_alias_refl: "touches_alias st st"
  unfolding touches_alias_def by (rule exI [of _ "st_alias_state st"]) simp

lemma touches_alias_trans: "touches_alias st t \<Longrightarrow> touches_alias t u \<Longrightarrow> touches_alias st u"
  unfolding touches_alias_def by fastforce

lemma finish_output_touches: "finish_output st x = Inr st' \<Longrightarrow> touches_alias st st'"
  unfolding touches_alias_def
  by (auto simp: finish_output_def set_alias_def profiles_def fun_eq_iff alias_shape_def)

lemma finish_mutation_touches: "finish_mutation cx st x = Inr st' \<Longrightarrow> touches_alias st st'"
  unfolding touches_alias_def
  by (auto simp: finish_mutation_def set_alias_def profiles_def fun_eq_iff alias_shape_def)

lemma fold_touches:
  assumes "foldE f st xs = Inr st'" and "\<And>x t t'. f t x = Inr t' \<Longrightarrow> touches_alias t t'"
  shows "touches_alias st st'"
  by (rule foldE_simple_invariant [OF assms(1) touches_alias_refl])
    (rule touches_alias_trans [OF _ assms(2)])

definition finished_interval :: "active_task \<Rightarrow> task_interval" where
  "finished_interval active =
     \<lparr>ti_task_id = tk_task_id (ak_task active),
      ti_device_id = rs_device_id (tk_resource (ak_task active)),
      ti_resource_kind = rs_kind (tk_resource (ak_task active)),
      ti_resource_lane = rs_lane (tk_resource (ak_task active)), ti_ready_ns = ak_ready_ns active,
      ti_start_ns = ak_start_ns active, ti_end_ns = ak_end_ns active,
      ti_workspace_bytes = ak_workspace_bytes active, ti_stall_reasons = ak_stall_reasons active\<rparr>"

lemma finish_taskE:
  assumes "finish_task cx key st = Inr st'" and active: "map_of (st_active_tasks st) key = Some active"
  obtains w v m where
    "st_device_workspace_bytes st (rs_device_id (tk_resource (ak_task active))) = Some w"
    "st_device_physical_bytes st (rs_device_id (tk_resource (ak_task active))) = Some v"
    "0 \<le> v + task_completion_delta cx (ak_task active) (- ak_workspace_bytes active)"
    "profiles m = profiles (st_alias_state st)"
    "take_snapshot cx (st\<lparr>st_active_tasks := drop_key key (st_active_tasks st),
       st_device_workspace_bytes := (st_device_workspace_bytes st)
         (rs_device_id (tk_resource (ak_task active)) \<mapsto> w - ak_workspace_bytes active),
       st_device_physical_bytes := (st_device_physical_bytes st)
         (rs_device_id (tk_resource (ak_task active)) \<mapsto>
            v + task_completion_delta cx (ak_task active) (- ak_workspace_bytes active)),
       st_alias_state := m,
       st_completed := (st_completed st)(tk_task_id (ak_task active) \<mapsto> st_now_ns st),
       st_task_intervals := st_task_intervals st @ [finished_interval active]\<rparr>) = Inr st'"
proof -
  let ?d = "rs_device_id (tk_resource (ak_task active))"
  let ?delta = "task_completion_delta cx (ak_task active) (- ak_workspace_bytes active)"
  from assms obtain u1 u2 u3 u4 where run:
    "add_workspace_bytes ?d (- ak_workspace_bytes active)
      (st\<lparr>st_active_tasks := drop_key key (st_active_tasks st)\<rparr>) = Inr u1"
    "apply_physical_delta ?d ?delta u1 = Inr u2"
    "foldE finish_output u2 (ak_output_aliases active) = Inr u3"
    "foldE (finish_mutation cx) u3 (tk_mutations (ak_task active)) = Inr u4"
    and snap: "take_snapshot cx (u4\<lparr>st_completed := (st_completed u4)
        (tk_task_id (ak_task active) \<mapsto> st_now_ns u4),
      st_task_intervals := st_task_intervals u4 @ [finished_interval active]\<rparr>) = Inr st'"
    by (auto simp: finish_task_def Let_def finished_interval_def)
  from run(1) obtain w where w: "st_device_workspace_bytes st ?d = Some w"
    "u1 = st\<lparr>st_active_tasks := drop_key key (st_active_tasks st), st_device_workspace_bytes :=
      (st_device_workspace_bytes st)(?d \<mapsto> w - ak_workspace_bytes active)\<rparr>"
    by (elim add_workspace_bytesE) simp
  from run(2) w(2) obtain v where v: "st_device_physical_bytes st ?d = Some v" "0 \<le> v + ?delta"
    "u2 = u1\<lparr>st_device_physical_bytes := (st_device_physical_bytes st)(?d \<mapsto> v + ?delta)\<rparr>"
    by (elim apply_physical_deltaE) simp
  have "touches_alias u2 u4"
    by (rule touches_alias_trans [OF fold_touches [OF run(3)] fold_touches [OF run(4)]])
      (auto intro: finish_output_touches finish_mutation_touches)
  then obtain m where m: "u4 = u2\<lparr>st_alias_state := m\<rparr>" "profiles m = profiles (st_alias_state u2)"
    by (auto simp: touches_alias_def)
  show ?thesis
    by (rule that [OF w(1) v(1,2), of m]) (use snap m v(3) w(2) in simp_all)
qed

end
