(* ===== verification/Simulator_Reach.thy ===== *)
theory Simulator_Reach
  imports Simulator_Frames "HOL-Library.Multiset"
begin

text \<open>
  The simulator as a state machine: one kind of step per operation the event loop composes,
  with the guard under which the loop takes it, and the theorem that whatever the loop returns
  is reached by such steps. An invariant of the steps is then an invariant of a run.
\<close>

section \<open>Steps\<close>

inductive sim_step :: "sim_context \<Rightarrow> sim_state \<Rightarrow> sim_state \<Rightarrow> bool" for cx where
  start: "try_start_direction cx d direction st = Inr (c, st')
    \<Longrightarrow> d \<in> fst ` set (cx_device_config cx) \<Longrightarrow> sim_step cx st st'"
| launch: "try_launch_task cx (c, st) task = Inr (c', st')
    \<Longrightarrow> task \<in> set (cx_tasks cx) \<Longrightarrow> sim_step cx st st'"
| submit: "st_next_action_index st < length (ms_actions (cx_schedule cx))
    \<Longrightarrow> submit_action cx (st_next_action_index st)
          (ms_actions (cx_schedule cx) ! st_next_action_index st) st = Inr (c, st')
    \<Longrightarrow> sim_step cx st st'"
| refresh: "(d, config) \<in> set (cx_device_config cx)
    \<Longrightarrow> refresh_device_rates st (d, config) = Inr st' \<Longrightarrow> sim_step cx st st'"
| tick: "next_event_time st = Some t \<Longrightarrow> sim_step cx st (st\<lparr>st_now_ns := t\<rparr>)"
| land: "map_of (active_table direction st) d = Some active \<Longrightarrow> at_end_ns active = st_now_ns st
    \<Longrightarrow> complete_transfer cx d direction st = Inr st' \<Longrightarrow> sim_step cx st st'"
| finish: "map_of (st_active_tasks st) key = Some active \<Longrightarrow> ak_end_ns active = st_now_ns st
    \<Longrightarrow> finish_task cx key st = Inr st' \<Longrightarrow> sim_step cx st st'"

abbreviation sim_steps :: "sim_context \<Rightarrow> sim_state \<Rightarrow> sim_state \<Rightarrow> bool" where
  "sim_steps cx \<equiv> (sim_step cx)\<^sup>*\<^sup>*"

lemma steps_invariant:
  assumes "sim_steps cx st st'" and "P st" and "\<And>t u. P t \<Longrightarrow> sim_step cx t u \<Longrightarrow> P u"
  shows "P st'"
  using assms by (induction rule: rtranclp_induct) auto

text \<open>A loop each of whose iterations is a run of steps is one.\<close>

lemma fold_steps:
  assumes "foldE f st xs = Inr st'"
    and "\<And>x t t'. x \<in> set xs \<Longrightarrow> f t x = Inr t' \<Longrightarrow> sim_steps cx (g t) (g t')"
  shows "sim_steps cx (g st) (g st')"
  by (rule foldE_simple_invariant [OF assms(1), where P = "\<lambda>t. sim_steps cx (g st) (g t)"])
    (auto intro: rtranclp_trans assms(2))


section \<open>What submitting an action keeps\<close>

lemma set_queue_keeps [simp]:
  "st_active_tasks (set_queue l d q st) = st_active_tasks st"
  "st_now_ns (set_queue l d q st) = st_now_ns st"
  "st_unlaunched (set_queue l d q st) = st_unlaunched st"
  "st_completed (set_queue l d q st) = st_completed st"
  "st_task_intervals (set_queue l d q st) = st_task_intervals st"
  "st_task_waits (set_queue l d q st) = st_task_waits st"
  "st_transfer_intervals (set_queue l d q st) = st_transfer_intervals st"
  "st_active_fetch (set_queue l d q st) = st_active_fetch st"
  "st_active_evict (set_queue l d q st) = st_active_evict st"
  "st_next_action_index (set_queue l d q st) = st_next_action_index st"
  "st_alias_state (set_queue l d q st) = st_alias_state st"
  "st_device_object_bytes (set_queue l d q st) = st_device_object_bytes st"
  "st_device_workspace_bytes (set_queue l d q st) = st_device_workspace_bytes st"
  "st_device_physical_bytes (set_queue l d q st) = st_device_physical_bytes st"
  "st_spill_bytes (set_queue l d q st) = st_spill_bytes st"
  "st_device_total_peaks (set_queue l d q st) = st_device_total_peaks st"
  "st_spill_peak_bytes (set_queue l d q st) = st_spill_peak_bytes st"
  "st_memory_timeline (set_queue l d q st) = st_memory_timeline st"
  "st_completed_transfer_actions (set_queue l d q st) = st_completed_transfer_actions st"
  by (cases l; simp add: lane_simps)+

lemma set_table_keeps [simp]:
  "st_active_tasks (set_table l t st) = st_active_tasks st"
  "st_now_ns (set_table l t st) = st_now_ns st"
  "st_unlaunched (set_table l t st) = st_unlaunched st"
  "st_completed (set_table l t st) = st_completed st"
  "st_task_intervals (set_table l t st) = st_task_intervals st"
  "st_task_waits (set_table l t st) = st_task_waits st"
  "st_transfer_intervals (set_table l t st) = st_transfer_intervals st"
  "st_pending_fetch (set_table l t st) = st_pending_fetch st"
  "st_pending_evict (set_table l t st) = st_pending_evict st"
  "st_next_action_index (set_table l t st) = st_next_action_index st"
  "st_alias_state (set_table l t st) = st_alias_state st"
  "st_device_object_bytes (set_table l t st) = st_device_object_bytes st"
  "st_device_workspace_bytes (set_table l t st) = st_device_workspace_bytes st"
  "st_device_physical_bytes (set_table l t st) = st_device_physical_bytes st"
  "st_spill_bytes (set_table l t st) = st_spill_bytes st"
  "st_device_total_peaks (set_table l t st) = st_device_total_peaks st"
  "st_spill_peak_bytes (set_table l t st) = st_spill_peak_bytes st"
  "st_memory_timeline (set_table l t st) = st_memory_timeline st"
  "st_completed_transfer_actions (set_table l t st) = st_completed_transfer_actions st"
  by (cases l; simp add: lane_simps)+

definition task_view where
  "task_view st = (st_now_ns st, st_active_tasks st, st_unlaunched st, st_completed st,
     st_task_intervals st, st_task_waits st)"

definition lane_view where
  "lane_view st = (st_active_fetch st, st_active_evict st, st_transfer_intervals st,
     st_completed_transfer_actions st)"

lemma take_snapshot_views:
  "take_snapshot cx st = Inr st' \<Longrightarrow> task_view st' = task_view st \<and> lane_view st' = lane_view st"
  by (elim take_snapshotE) (simp add: task_view_def lane_view_def)

lemma action_submitted_views:
  "action_submitted cx d delta st = Inr (c, st') \<Longrightarrow> task_view st' = task_view st \<and> lane_view st' = lane_view st"
  by (elim action_submittedE) (drule take_snapshot_views, simp add: task_view_def lane_view_def)

lemma enqueue_transfer_views:
  "enqueue_transfer i action l st = Inr st' \<Longrightarrow> task_view st' = task_view st \<and> lane_view st' = lane_view st"
  by (elim enqueue_transferE) (simp add: task_view_def lane_view_def)

lemma submit_action_views:
  assumes "submit_action cx i action st = Inr (c, st')"
  shows "task_view st' = task_view st \<and> lane_view st' = lane_view st"
  using assms
proof (cases rule: submit_actionE)
  case kept
  then show ?thesis by simp
next
  case deferred
  then show ?thesis by (simp add: task_view_def lane_view_def)
next
  case (submitted a config used)
  let ?delta = "action_trigger_delta cx i (trigger_default action a)"
  have departure: "submit_departure cx i action ?delta st = Inr (c, st') \<Longrightarrow> ?thesis"
    by (erule submit_departureE [OF _ submitted(2)])
      (auto dest!: action_submitted_views enqueue_transfer_views simp: task_view_def lane_view_def)
  have fetch: "submit_fetch cx i action ?delta st = Inr (c, st') \<Longrightarrow> ?thesis"
    by (erule submit_fetchE [OF _ submitted(2)])
      (auto dest!: action_submitted_views enqueue_transfer_views simp: task_view_def lane_view_def)
  have release: "release_alias cx action st = Inr (True, u) \<Longrightarrow>
      action_submitted cx (as_device_id a) ?delta u = Inr (c, st') \<Longrightarrow> ?thesis" for u
    by (erule release_aliasE [OF _ submitted(2)])
      (auto dest!: action_submitted_views take_snapshot_views simp: task_view_def lane_view_def)
  from submitted(6) departure fetch release show ?thesis
    by (cases "ma_kind action") auto
qed


section \<open>The loops take steps\<close>

lemma submit_actions_steps:
  "submit_actions n cx st = Inr st' \<Longrightarrow> sim_steps cx st st' \<and> task_view st' = task_view st
    \<and> lane_view st' = lane_view st"
proof (induction n arbitrary: st)
  case 0
  then show ?case by simp
next
  case (Suc n)
  show ?case
  proof (cases "st_next_action_index st < length (ms_actions (cx_schedule cx))")
    case False
    with Suc.prems show ?thesis by simp
  next
    case True
    with Suc.prems obtain go u where u: "submit_action cx (st_next_action_index st)
        (ms_actions (cx_schedule cx) ! st_next_action_index st) st = Inr (go, u)"
      and rest: "(if go then submit_actions n cx u else Inr u) = Inr st'"
      by (auto simp: Let_def)
    have "sim_step cx st u" by (rule sim_step.submit [OF True u])
    then show ?thesis
      using Suc.IH [of u] rest submit_action_views [OF u]
      by (cases go) (auto intro: converse_rtranclp_into_rtranclp)
  qed
qed

lemma submit_ready_actions_steps:
  "submit_ready_actions cx st = Inr st' \<Longrightarrow> sim_steps cx st st' \<and> task_view st' = task_view st
    \<and> lane_view st' = lane_view st"
  by (simp add: submit_ready_actions_def submit_actions_steps)

lemma try_start_transfers_steps:
  assumes "try_start_transfers cx st = Inr (c, st')"
  shows "sim_steps cx st st'"
proof -
  have "sim_steps cx (snd (False, st)) (snd (c, st'))"
  proof (rule fold_steps [where f = "try_start_device cx" and g = snd])
    show "foldE (try_start_device cx) (False, st) (map fst (cx_device_config cx)) = Inr (c, st')"
      using assms by (simp add: try_start_transfers_def)
  next
    fix d t t'
    assume "d \<in> set (map fst (cx_device_config cx))" "try_start_device cx t d = Inr t'"
    then obtain b1 b2 u v where "d \<in> fst ` set (cx_device_config cx)"
      "try_start_direction cx d FETCH_LANE (snd t) = Inr (b1, u)"
      "try_start_direction cx d EVICT_LANE u = Inr (b2, v)" "snd t' = v"
      by (auto simp: try_start_device_def split: prod.splits)
    then show "sim_steps cx (snd t) (snd t')"
      by (meson sim_step.start r_into_rtranclp rtranclp.rtrancl_into_rtrancl)
  qed
  then show ?thesis by simp
qed

lemma try_launch_tasks_steps:
  assumes "try_launch_tasks cx st = Inr (c, st')"
  shows "sim_steps cx st st'"
proof -
  have "sim_steps cx (snd (False, st)) (snd (c, st'))"
  proof (rule fold_steps [where f = "try_launch_task cx" and g = snd])
    show "foldE (try_launch_task cx) (False, st) (cx_tasks cx) = Inr (c, st')"
      using assms by (simp add: try_launch_tasks_def)
  next
    fix task t t'
    assume "task \<in> set (cx_tasks cx)" "try_launch_task cx t task = Inr t'"
    then show "sim_steps cx (snd t) (snd t')"
      by (cases t; cases t') (auto intro: sim_step.launch)
  qed
  then show ?thesis by simp
qed

lemma settle_round_steps:
  assumes "settle_round cx st = Inr (c, st')"
  shows "sim_steps cx st st'"
proof -
  from assms obtain b1 u b2 v where "try_start_transfers cx st = Inr (b1, u)"
    "try_launch_tasks cx u = Inr (b2, v)" "submit_ready_actions cx v = Inr st'"
    by (auto simp: settle_round_def Let_def split: prod.splits)
  then show ?thesis
    by (meson rtranclp_trans try_start_transfers_steps try_launch_tasks_steps
      submit_ready_actions_steps)
qed

lemma settle_steps:
  assumes "settle cx st = Some r"
  shows "r = Inr st' \<longrightarrow> sim_steps cx st st'"
proof (rule settle.raw_induct [where P = "\<lambda>cx st r. r = Inr st' \<longrightarrow> sim_steps cx st st'", OF _ assms])
  fix f cx st r
  assume IH: "\<And>cx st r. f cx st = Some r \<Longrightarrow> r = Inr st' \<longrightarrow> sim_steps cx st st'"
    and eq: "(case settle_round cx st of Inl e \<Rightarrow> Some (Inl e)
      | Inr x \<Rightarrow> if fst x then f cx (snd x) else Some (Inr (snd x))) = Some r"
  show "r = Inr st' \<longrightarrow> sim_steps cx st st'"
  proof (cases "settle_round cx st")
    case (Inl e)
    with eq show ?thesis by auto
  next
    case (Inr x)
    obtain c u where x: "x = (c, u)" by (cases x)
    from Inr x have "sim_steps cx st u" by (intro settle_round_steps) simp
    with eq Inr x IH [of cx u r] show ?thesis by (auto split: if_splits)
  qed
qed

lemma refresh_transfer_rates_steps:
  "refresh_transfer_rates cx st = Inr st' \<Longrightarrow> sim_steps cx st st'"
  unfolding refresh_transfer_rates_def
  using fold_steps [where g = "\<lambda>t. t", of refresh_device_rates st "cx_device_config cx" st' cx]
  by (auto intro: sim_step.refresh)

lemma complete_due_transfers_steps:
  "foldE (complete_due_transfer cx direction) st ds = Inr st' \<Longrightarrow> sim_steps cx st st'"
proof (rule fold_steps [where g = "\<lambda>t. t", of _ st ds st'])
  fix d t t'
  assume "complete_due_transfer cx direction t d = Inr t'"
  then show "sim_steps cx t t'"
    by (auto simp: complete_due_transfer_def split: if_splits)
      (blast intro: sim_step.land r_into_rtranclp)
qed

definition keys_distinct :: "sim_state \<Rightarrow> bool" where
  "keys_distinct st \<longleftrightarrow> distinct (map fst (st_active_tasks st))
     \<and> distinct (map fst (st_active_fetch st)) \<and> distinct (map fst (st_active_evict st))"

lemma finish_task_views:
  assumes "finish_task cx key st = Inr st'"
  shows "st_active_tasks st' = drop_key key (st_active_tasks st) \<and> st_now_ns st' = st_now_ns st
    \<and> lane_view st' = lane_view st"
proof -
  from assms obtain active where active: "map_of (st_active_tasks st) key = Some active"
    by (auto simp: finish_task_def)
  from assms show ?thesis
    by (elim finish_taskE [OF _ active]) (drule take_snapshot_views, simp add: task_view_def lane_view_def)
qed

lemma complete_transfer_views:
  assumes "complete_transfer cx d direction st = Inr st'"
    and active: "map_of (active_table direction st) d = Some active"
  shows "task_view st' = task_view st"
    and "st_active_fetch st' = (if direction = FETCH_LANE then drop_key d (st_active_fetch st)
      else st_active_fetch st)"
    and "st_active_evict st' = (if direction = EVICT_LANE then drop_key d (st_active_evict st)
      else st_active_evict st)"
proof -
  from assms obtain a delta t v i where
    land: "land_transfer d direction (at_pending active) a
       (set_table direction (drop_key d (active_table direction st)) st) = Inr (delta, t)"
    and snap: "take_snapshot cx (t\<lparr>st_device_physical_bytes := (st_device_physical_bytes t)
         (d \<mapsto> v + action_completion_delta cx (pt_action_index (at_pending active)) delta),
       st_completed_transfer_actions := List.insert (int (pt_action_index (at_pending active)))
         (st_completed_transfer_actions t),
       st_transfer_intervals := st_transfer_intervals t @ [i]\<rparr>) = Inr st'"
    by (elim complete_transferE [OF _ active]) blast
  have "task_view t = task_view st"
    "st_active_fetch t = (if direction = FETCH_LANE then drop_key d (st_active_fetch st)
      else st_active_fetch st)"
    "st_active_evict t = (if direction = EVICT_LANE then drop_key d (st_active_evict st)
      else st_active_evict st)"
    using land by (cases direction; elim land_transferE; simp add: lane_simps task_view_def)+
  with take_snapshot_views [OF snap] show "task_view st' = task_view st"
    "st_active_fetch st' = (if direction = FETCH_LANE then drop_key d (st_active_fetch st)
      else st_active_fetch st)"
    "st_active_evict st' = (if direction = EVICT_LANE then drop_key d (st_active_evict st)
      else st_active_evict st)"
    by (simp_all add: task_view_def lane_view_def)
qed

lemma launch_views:
  assumes "try_launch_task cx (c, st) task = Inr (c', st')"
  shows "lane_view st' = lane_view st \<and> st_now_ns st' = st_now_ns st
    \<and> (st_active_tasks st' = st_active_tasks st
       \<or> map_of (st_active_tasks st) (resource_key task) = None
         \<and> (\<exists>active. st_active_tasks st' = st_active_tasks st @ [(resource_key task, active)]))"
  using assms
proof (cases rule: try_launch_taskE)
  case kept
  then show ?thesis by (simp add: lane_view_def)
next
  case launched
  from launched(17) show ?thesis
    by (elim launch_taskE) (drule take_snapshot_views, use launched(4) in \<open>auto simp: task_view_def lane_view_def\<close>)
qed

lemma start_views:
  assumes "try_start_direction cx d direction st = Inr (c, st')"
  shows "task_view st' = task_view st
    \<and> (active_table l st' = active_table l st
       \<or> l = direction \<and> map_of (active_table l st) d = None
         \<and> (\<exists>active. active_table l st' = active_table l st @ [(d, active)]))"
  using assms
proof (cases rule: try_start_directionE)
  case idle
  then show ?thesis by simp
next
  case stalled
  then show ?thesis by (cases l) (simp_all add: lane_simps task_view_def)
next
  case (started p q a)
  from take_snapshot_views [OF started(8)] started(3) show ?thesis
    by (cases l; cases direction) (auto simp: lane_simps task_view_def lane_view_def)
qed

lemma distinct_fst_snoc:
  "distinct (map fst xs) \<Longrightarrow> map_of xs k = None \<Longrightarrow> distinct (map fst (xs @ [(k, v)]))"
  by (auto simp: map_of_eq_None_iff)

lemma sim_step_keys:
  assumes "sim_step cx st st'" and "keys_distinct st"
  shows "keys_distinct st'"
  using assms
proof (cases rule: sim_step.cases)
  case (start d direction c)
  from start_views [OF start(1), of FETCH_LANE] start_views [OF start(1), of EVICT_LANE] assms(2)
  show ?thesis
    by (auto simp: keys_distinct_def task_view_def lane_simps map_of_eq_None_iff)
next
  case (launch c task c')
  from launch_views [OF launch(1)] assms(2) show ?thesis
    by (auto simp: keys_distinct_def lane_view_def map_of_eq_None_iff)
next
  case (submit c)
  from submit_action_views [OF submit(2)] assms(2) show ?thesis
    by (simp add: keys_distinct_def task_view_def lane_view_def)
next
  case (refresh d config)
  from refresh(2) assms(2) show ?thesis
    by (elim refresh_device_ratesE) (simp add: keys_distinct_def table_refreshed_def)
next
  case (tick t)
  with assms(2) show ?thesis by (simp add: keys_distinct_def)
next
  case (land direction d active)
  from complete_transfer_views [OF land(3,1)] assms(2) show ?thesis
    by (auto simp: keys_distinct_def task_view_def intro: drop_key_distinct)
next
  case (finish key active)
  from finish_task_views [OF finish(3)] assms(2) show ?thesis
    by (simp add: keys_distinct_def lane_view_def drop_key_distinct)
qed

lemma sim_steps_keys: "sim_steps cx st st' \<Longrightarrow> keys_distinct st \<Longrightarrow> keys_distinct st'"
  by (erule steps_invariant [where P = keys_distinct]) (auto intro: sim_step_keys)


section \<open>Completions\<close>

lemma due_tasks_props:
  assumes "due_tasks cx st = Inr keys" and "distinct (map fst (st_active_tasks st))"
  shows "distinct keys"
    and "k \<in> set keys \<Longrightarrow> \<exists>active. map_of (st_active_tasks st) k = Some active
      \<and> ak_end_ns active = st_now_ns st"
proof -
  let ?due = "filter (\<lambda>x. ak_end_ns (snd x) = st_now_ns st) (st_active_tasks st)"
  from assms(1) obtain keyed where keyed: "mapE (\<lambda>x. bindE (look (cx_task_order cx)
      (tk_task_id (ak_task (snd x)))) (\<lambda>order. Inr (order, fst x))) ?due = Inr keyed"
    and keys: "keys = map snd (sort_key fst keyed)" by (auto simp: due_tasks_def)
  have "map snd keyed = map fst ?due"
  proof (rule nth_equalityI)
    show len: "length (map snd keyed) = length (map fst ?due)" using mapE_length [OF keyed] by simp
    fix i
    assume "i < length (map snd keyed)"
    then have i: "i < length ?due" using len by simp
    with mapE_nth [OF keyed i] len show "map snd keyed ! i = map fst ?due ! i"
      by (auto dest: arg_cong [where f = snd])
  qed
  moreover have "mset keys = mset (map snd keyed)" by (simp add: keys)
  ultimately have mset: "mset keys = mset (map fst ?due)" by simp
  moreover have "distinct (map fst ?due)" using assms(2) by (simp add: distinct_map_filter)
  ultimately show "distinct keys" by (metis mset_eq_imp_distinct_iff)
  assume "k \<in> set keys"
  with mset have "k \<in> set (map fst ?due)" by (metis mset_eq_setD)
  with assms(2) show "\<exists>active. map_of (st_active_tasks st) k = Some active
      \<and> ak_end_ns active = st_now_ns st" by fastforce
qed

lemma complete_task_views:
  assumes "complete_task cx key st = Inr st'"
  shows "st_active_tasks st' = drop_key key (st_active_tasks st) \<and> st_now_ns st' = st_now_ns st"
proof -
  from assms obtain u where u: "finish_task cx key st = Inr u" "submit_ready_actions cx u = Inr st'"
    by (auto simp: complete_task_def)
  from finish_task_views [OF u(1)] submit_ready_actions_steps [OF u(2)] show ?thesis
    by (simp add: task_view_def)
qed

lemma complete_task_steps:
  assumes "complete_task cx key st = Inr st'" and "map_of (st_active_tasks st) key = Some active"
    and "ak_end_ns active = st_now_ns st"
  shows "sim_steps cx st st'"
proof -
  from assms(1) obtain u where "finish_task cx key st = Inr u" "submit_ready_actions cx u = Inr st'"
    by (auto simp: complete_task_def)
  with assms(2,3) show ?thesis
    by (meson converse_rtranclp_into_rtranclp sim_step.finish submit_ready_actions_steps)
qed

lemma complete_events_steps:
  assumes "complete_events cx st = Inr st'" and "keys_distinct st"
  shows "sim_steps cx st st'"
proof -
  from assms(1) obtain u v keys where
    u: "foldE (complete_due_transfer cx FETCH_LANE) st (sort (map fst (st_active_fetch st))) = Inr u"
    and v: "foldE (complete_due_transfer cx EVICT_LANE) u (sort (map fst (st_active_evict u))) = Inr v"
    and keys: "due_tasks cx v = Inr keys"
    and fin: "foldE (\<lambda>st key. complete_task cx key st) v keys = Inr st'"
    by (auto simp: complete_events_def)
  from complete_due_transfers_steps [OF u] complete_due_transfers_steps [OF v]
  have stv: "sim_steps cx st v" by simp
  with assms(2) have "keys_distinct v" by (auto dest: sim_steps_keys)
  then have "distinct (map fst (st_active_tasks v))" by (simp add: keys_distinct_def)
  note due = due_tasks_props [OF keys this]
  have "sim_steps cx v st' \<and> st_now_ns st' = st_now_ns v
    \<and> (\<forall>k. k \<notin> set keys \<longrightarrow> map_of (st_active_tasks st') k = map_of (st_active_tasks v) k)"
  proof (rule foldE_invariant [OF fin, where P = "\<lambda>ys t. sim_steps cx v t \<and> st_now_ns t = st_now_ns v
      \<and> (\<forall>k. k \<notin> set ys \<longrightarrow> map_of (st_active_tasks t) k = map_of (st_active_tasks v) k)"])
    fix ys key zs t t'
    assume IH: "sim_steps cx v t \<and> st_now_ns t = st_now_ns v
      \<and> (\<forall>k. k \<notin> set ys \<longrightarrow> map_of (st_active_tasks t) k = map_of (st_active_tasks v) k)"
      and split: "keys = ys @ key # zs" and run: "complete_task cx key t = Inr t'"
    from due(1) split have "key \<notin> set ys" by auto
    with IH split due(2) [of key] obtain active where
      "map_of (st_active_tasks t) key = Some active" "ak_end_ns active = st_now_ns t" by auto
    from complete_task_steps [OF run this] complete_task_views [OF run] IH
    show "sim_steps cx v t' \<and> st_now_ns t' = st_now_ns v
      \<and> (\<forall>k. k \<notin> set (ys @ [key]) \<longrightarrow> map_of (st_active_tasks t') k = map_of (st_active_tasks v) k)"
      by (auto simp: drop_key_map_of)
  qed simp
  with stv show ?thesis by auto
qed

lemma deadlock_raises: "\<exists>e. deadlock cx st = Inl e"
  by (auto simp: deadlock_def bindE_def split: sum.splits)

lemma advance_steps:
  assumes "advance cx st = Inr st'" and "keys_distinct st"
  shows "sim_steps cx st st'"
proof -
  from assms(1) obtain u where u: "refresh_transfer_rates cx st = Inr u"
    and rest: "(case next_event_time u of None \<Rightarrow> deadlock cx u
      | Some t \<Rightarrow> complete_events cx (u\<lparr>st_now_ns := t\<rparr>)) = Inr st'"
    by (auto simp: advance_def)
  from rest deadlock_raises [of cx u] obtain t where t: "next_event_time u = Some t"
    "complete_events cx (u\<lparr>st_now_ns := t\<rparr>) = Inr st'" by (cases "next_event_time u") auto
  note stu = refresh_transfer_rates_steps [OF u]
  from sim_steps_keys [OF stu assms(2)] have "keys_distinct (u\<lparr>st_now_ns := t\<rparr>)"
    by (simp add: keys_distinct_def)
  from complete_events_steps [OF t(2) this] stu sim_step.tick [OF t(1), of cx] show ?thesis
    by (meson converse_rtranclp_into_rtranclp rtranclp_trans)
qed

text \<open>Every state the event loop returns is reached by steps.\<close>

lemma event_loop_steps:
  assumes "event_loop cx st = Some r"
  shows "r = Inr st' \<longrightarrow> keys_distinct st \<longrightarrow> sim_steps cx st st'"
proof (rule event_loop.raw_induct [where P = "\<lambda>cx st r. r = Inr st' \<longrightarrow> keys_distinct st
    \<longrightarrow> sim_steps cx st st'", OF _ assms])
  fix f cx st r
  assume IH: "\<And>cx st r. f cx st = Some r \<Longrightarrow> r = Inr st' \<longrightarrow> keys_distinct st \<longrightarrow> sim_steps cx st st'"
    and eq: "(if \<not> has_pending_work cx st then Some (Inr st)
      else Option.bind (settle cx st) (\<lambda>settled. case settled of Inl e \<Rightarrow> Some (Inl e)
        | Inr st \<Rightarrow> if \<not> has_pending_work cx st then Some (Inr st)
            else (case advance cx st of Inl e \<Rightarrow> Some (Inl e) | Inr st \<Rightarrow> f cx st))) = Some r"
  show "r = Inr st' \<longrightarrow> keys_distinct st \<longrightarrow> sim_steps cx st st'"
  proof (intro impI)
    assume r: "r = Inr st'" and kd: "keys_distinct st"
    show "sim_steps cx st st'"
    proof (cases "has_pending_work cx st")
      case False
      with eq r show ?thesis by simp
    next
      case True
      with eq r obtain u where u: "settle cx st = Some (Inr u)"
        and rest: "(if \<not> has_pending_work cx u then Some (Inr u)
          else (case advance cx u of Inl e \<Rightarrow> Some (Inl e) | Inr st \<Rightarrow> f cx st)) = Some (Inr st')"
        by (cases "settle cx st") (auto split: sum.splits)
      from settle_steps [OF u] have stu: "sim_steps cx st u" by simp
      note kdu = sim_steps_keys [OF stu kd]
      show ?thesis
      proof (cases "has_pending_work cx u")
        case False
        with rest stu show ?thesis by simp
      next
        case True
        with rest obtain v where v: "advance cx u = Inr v" "f cx v = Some (Inr st')"
          by (auto split: sum.splits)
        note uv = advance_steps [OF v(1) kdu]
        from IH [OF v(2)] sim_steps_keys [OF uv kdu] stu uv show ?thesis by auto
      qed
    qed
  qed
qed


section \<open>The start of a run\<close>

lemma initialize_aliasE:
  assumes "initialize_alias st x = Inr st'"
  obtains a a' s where "st_alias_state st x = Some a" "alias_shape a' = alias_shape a"
    "st' = st\<lparr>st_spill_bytes := s, st_alias_state := (st_alias_state st)(x \<mapsto> a')\<rparr>"
proof -
  from assms obtain a where a: "st_alias_state st x = Some a" by (auto simp: initialize_alias_def)
  let ?n = "if as_size_bytes a = 0 then a\<lparr>as_device_allocated := True, as_device_ready := True\<rparr>
    else if as_retain_spill_copy a then a\<lparr>as_spill_allocated := True, as_spill_ready := True\<rparr> else a"
  let ?s = "if as_size_bytes a \<noteq> 0 \<and> as_retain_spill_copy a then st_spill_bytes st + as_size_bytes a
    else st_spill_bytes st"
  have "st' = st\<lparr>st_spill_bytes := ?s, st_alias_state := (st_alias_state st)(x \<mapsto> ?n)\<rparr>"
    by (rule sim_state.equality)
      (use assms a in \<open>auto simp: initialize_alias_def set_alias_def map_upd_triv split: if_splits\<close>)
  with a show ?thesis by (intro that [of a ?n ?s]) (auto simp: alias_shape_def)
qed

lemma initialize_residencyE:
  assumes "initialize_residency st r = Inr st'"
  obtains a a' s objects where "st_alias_state st (rd_alias_group_id r) = Some a"
    "alias_shape a' = alias_shape a"
    "st' = st\<lparr>st_spill_bytes := s,
      st_alias_state := (st_alias_state st)(rd_alias_group_id r \<mapsto> a'),
      st_device_object_bytes := objects\<rparr>" "dom objects = dom (st_device_object_bytes st)"
proof -
  let ?x = "rd_alias_group_id r"
  from assms obtain a where a: "st_alias_state st ?x = Some a"
    by (auto simp: initialize_residency_def Let_def)
  show ?thesis
  proof (cases "rd_location r = DEVICE")
    case True
    let ?n = "a\<lparr>as_device_allocated := True, as_device_ready := True\<rparr>"
    from assms a True obtain b where b: "st_device_object_bytes st (as_device_id a) = Some b"
      and st': "st' = st\<lparr>st_alias_state := (st_alias_state st)(?x \<mapsto> ?n), st_device_object_bytes :=
        (st_device_object_bytes st)(as_device_id a \<mapsto> b + as_size_bytes a)\<rparr>"
      by (auto simp: initialize_residency_def Let_def set_alias_def elim!: add_object_bytesE)
    show ?thesis
      by (rule that [of a ?n "(st_device_object_bytes st)(as_device_id a \<mapsto> b + as_size_bytes a)"
          "st_spill_bytes st"])
        (use a b st' in \<open>auto simp: alias_shape_def\<close>)
  next
    case False
    let ?n = "a\<lparr>as_spill_allocated := True, as_spill_ready := True\<rparr>"
    let ?s = "if as_spill_allocated a then st_spill_bytes st else st_spill_bytes st + as_size_bytes a"
    have "st' = st\<lparr>st_spill_bytes := ?s, st_alias_state := (st_alias_state st)(?x \<mapsto> ?n),
        st_device_object_bytes := st_device_object_bytes st\<rparr>"
      by (rule sim_state.equality)
        (use assms a False in \<open>auto simp: initialize_residency_def Let_def set_alias_def\<close>)
    with a show ?thesis
      by (intro that [of a ?n "st_device_object_bytes st" ?s]) (auto simp: alias_shape_def)
  qed
qed

definition loaded_from :: "sim_state \<Rightarrow> sim_state \<Rightarrow> bool" where
  "loaded_from st st' \<longleftrightarrow> (\<exists>s m objects. st' = st\<lparr>st_spill_bytes := s, st_alias_state := m,
     st_device_object_bytes := objects\<rparr> \<and> shapes m = shapes (st_alias_state st)
     \<and> dom objects = dom (st_device_object_bytes st))"

lemma loaded_from_refl: "loaded_from st st"
  unfolding loaded_from_def
  by (intro exI [of _ "st_spill_bytes st"] exI [of _ "st_alias_state st"]
    exI [of _ "st_device_object_bytes st"]) simp

lemma loaded_from_trans: "loaded_from st t \<Longrightarrow> loaded_from t u \<Longrightarrow> loaded_from st u"
  unfolding loaded_from_def by fastforce

lemma initialize_alias_loads: "initialize_alias st x = Inr st' \<Longrightarrow> loaded_from st st'"
  unfolding loaded_from_def
  by (elim initialize_aliasE, intro exI [of _ "st_spill_bytes st'"] exI [of _ "st_alias_state st'"]
    exI [of _ "st_device_object_bytes st'"]) (simp add: shapes_upd)

lemma initialize_residency_loads: "initialize_residency st x = Inr st' \<Longrightarrow> loaded_from st st'"
  unfolding loaded_from_def
  by (elim initialize_residencyE, intro exI [of _ "st_spill_bytes st'"] exI [of _ "st_alias_state st'"]
    exI [of _ "st_device_object_bytes st'"]) (simp add: shapes_upd)

lemma fold_loads:
  assumes "foldE f st xs = Inr st'" and "\<And>x t t'. f t x = Inr t' \<Longrightarrow> loaded_from t t'"
  shows "loaded_from st st'"
  by (rule foldE_simple_invariant [OF assms(1) loaded_from_refl])
    (rule loaded_from_trans [OF _ assms(2)])

lemma initialize_memoryE:
  assumes "initialize_memory cx st = Inr st'"
  obtains u where "loaded_from st u"
    "take_snapshot cx (u\<lparr>st_device_physical_bytes := st_device_physical_bytes u ++
       (case cx_admission cx of None \<Rightarrow> st_device_object_bytes u
        | Some admission \<Rightarrow> dict_of (am_initial_physical_bytes admission))\<rparr>) = Inr st'"
    "\<forall>d \<in> set (device_ids cx). check_initial_capacity cx st' d = Inr ()"
    "st_spill_bytes st' \<le> sc_spill_capacity_bytes (cx_config cx)"
proof -
  from assms obtain t u where t: "foldE initialize_alias st
      (map ag_alias_group_id (pg_alias_groups (cx_program cx))) = Inr t"
    and u: "foldE initialize_residency t (ms_initial_residency (cx_schedule cx)) = Inr u"
    and rest: "take_snapshot cx (u\<lparr>st_device_physical_bytes := st_device_physical_bytes u ++
       (case cx_admission cx of None \<Rightarrow> st_device_object_bytes u
        | Some admission \<Rightarrow> dict_of (am_initial_physical_bytes admission))\<rparr>) = Inr st'"
      "\<forall>d \<in> set (device_ids cx). check_initial_capacity cx st' d = Inr ()"
      "st_spill_bytes st' \<le> sc_spill_capacity_bytes (cx_config cx)"
    by (cases "cx_admission cx") (auto simp: initialize_memory_def Let_def checkE_Inr_iff)
  have "loaded_from st u"
    by (rule loaded_from_trans [OF fold_loads [OF t] fold_loads [OF u]])
      (auto intro: initialize_alias_loads initialize_residency_loads)
  with rest that show ?thesis by blast
qed

lemma initialize_memory_views:
  "initialize_memory cx st = Inr st' \<Longrightarrow> task_view st' = task_view st \<and> lane_view st' = lane_view st
    \<and> shapes (st_alias_state st') = shapes (st_alias_state st)
    \<and> st_pending_fetch st' = st_pending_fetch st \<and> st_pending_evict st' = st_pending_evict st
    \<and> st_next_action_index st' = st_next_action_index st
    \<and> st_transfer_sequence st' = st_transfer_sequence st"
  by (elim initialize_memoryE take_snapshotE) (auto simp: loaded_from_def task_view_def lane_view_def)

text \<open>What a run that returns a result has gone through.\<close>

lemma run_simulationE:
  assumes "run_simulation cx = Some (Inr result)"
  obtains st st' where "initialize_memory cx (initial_state cx) = Inr st"
    "event_loop cx st = Some (Inr st')" "sim_steps cx st st'" "keys_distinct st'"
    "simulation_result_of cx st' = Inr result"
proof -
  from assms obtain st where st: "initialize_memory cx (initial_state cx) = Inr st"
    by (auto simp: run_simulation_def split: sum.splits)
  with assms obtain r where loop: "event_loop cx st = Some r"
    and res: "bindE r (simulation_result_of cx) = Inr result"
    by (cases "event_loop cx st") (auto simp: run_simulation_def)
  from res obtain st' where st': "r = Inr st'" "simulation_result_of cx st' = Inr result" by auto
  have "keys_distinct st"
    using initialize_memory_views [OF st]
    by (simp add: keys_distinct_def task_view_def lane_view_def initial_state_def)
  with event_loop_steps [OF loop, of st'] st' sim_steps_keys have "sim_steps cx st st'" "keys_distinct st'"
    by blast+
  with st loop st' that show ?thesis by blast
qed

lemma simulate_pythonE:
  assumes "simulate_python program schedule selections config admission timeline = Some (Inr result)"
  obtains cx where "make_context program schedule selections config admission timeline = Inr cx"
    "run_simulation cx = Some (Inr result)"
  using assms by (auto simp: simulate_python_def split: sum.splits)

end
