(* ===== verification/Simulator_Context.thy ===== *)
theory Simulator_Context
  imports Simulator_Reach
begin

text \<open>
  What the constructor of the simulator guarantees about the context of a run when its
  arguments passed their own constructors, and about the state the run starts from.
\<close>

definition valid_config :: "simulation_config \<Rightarrow> bool" where
  "valid_config config \<longleftrightarrow> simulation_config_post_init config = Inr ()
     \<and> (\<forall>d \<in> set (sc_devices config). device_simulation_config_post_init d = Inr ())"

definition rates_positive :: "device_simulation_config \<Rightarrow> bool" where
  "rates_positive c \<longleftrightarrow> 0 \<le> dc_capacity_bytes c \<and> (\<forall>r \<in> config_rates c. 0 < r)"

definition sound_context :: "sim_context \<Rightarrow> bool" where
  "sound_context cx \<longleftrightarrow>
     map fst (cx_device_config cx) = device_ids cx \<and> distinct (device_ids cx)
     \<and> (\<forall>x \<in> set (cx_device_config cx). rates_positive (snd x))
     \<and> 0 \<le> sc_spill_capacity_bytes (cx_config cx)
     \<and> (\<forall>g \<in> set (pg_alias_groups (cx_program cx)). 0 \<le> ag_size_bytes g)
     \<and> (\<forall>i p. cx_profile_by_id cx i = Some p \<longrightarrow> 0 \<le> pf_runtime_ns p \<and> 0 \<le> pf_workspace_bytes p)
     \<and> (\<forall>a. cx_admission cx = Some a
          \<longrightarrow> fst ` set (am_initial_physical_bytes a) = set (device_ids cx))"

lemma device_config_positive:
  "device_simulation_config_post_init d = Inr () \<Longrightarrow> rates_positive d"
  by (auto simp: device_simulation_config_post_init_def sm_require_positive_def
      sm_require_non_negative_def rates_positive_def config_rates_def)

lemma config_devices_distinct:
  assumes "foldE config_device seen (enumerate i ds) = Inr seen'" and "distinct seen"
  shows "seen' = seen @ map dc_device_id ds \<and> distinct seen'"
  using assms
proof (induction ds arbitrary: seen i)
  case Nil
  then show ?case by simp
next
  case (Cons d ds)
  have "config_device seen (i, d) = Inr t \<longleftrightarrow> dc_device_id d \<notin> set seen \<and> t = seen @ [dc_device_id d]" for t
    by (auto simp: config_device_def)
  with Cons.prems have "foldE config_device (seen @ [dc_device_id d]) (enumerate (Suc i) ds) = Inr seen'"
    and "distinct (seen @ [dc_device_id d])" by (auto simp: bindE_Inr_iff)
  from Cons.IH [OF this] show ?case by (metis append.assoc append_Cons append_Nil list.simps(9))
qed

lemma valid_config_facts:
  assumes "valid_config config"
  shows "distinct (map dc_device_id (sc_devices config))" "0 \<le> sc_spill_capacity_bytes config"
    "d \<in> set (sc_devices config) \<Longrightarrow> rates_positive d"
  using assms config_devices_distinct [of "[]" 0 "sc_devices config"]
  by (auto simp: valid_config_def simulation_config_post_init_def sm_require_non_negative_def
      intro: device_config_positive)

lemma admitted_devices:
  "mapE (admitted_device capacities) xs = Inr ys
    \<Longrightarrow> map fst ys = map fst xs \<and> (\<forall>x \<in> set ys. rates_positive (snd x))"
proof (induction xs arbitrary: ys)
  case Nil
  then show ?case by simp
next
  case (Cons x xs)
  then obtain y zs where y: "admitted_device capacities x = Inr y"
    and zs: "mapE (admitted_device capacities) xs = Inr zs" "ys = y # zs" by auto
  from y have "fst y = fst x \<and> rates_positive (snd y)"
    by (auto simp: admitted_device_def construct_Inr_iff dest!: device_config_positive split: prod.splits)
  with Cons.IH [OF zs(1)] zs(2) show ?case by simp
qed

lemma admission_device_config_facts:
  assumes "admission_device_config admission table = Inr table'"
    and "\<forall>x \<in> set table. rates_positive (snd x)"
  shows "map fst table' = map fst table \<and> (\<forall>x \<in> set table'. rates_positive (snd x))"
proof (cases admission)
  case None
  with assms show ?thesis by (simp add: admission_device_config_def)
next
  case (Some a)
  show ?thesis
  proof (cases "am_device_capacity_bytes a = []")
    case True
    with assms Some show ?thesis by (simp add: admission_device_config_def)
  next
    case False
    with assms(1) Some
    have "mapE (admitted_device (dict_of (am_device_capacity_bytes a))) table = Inr table'"
      by (auto simp: admission_device_config_def Let_def)
    then show ?thesis by (rule admitted_devices)
  qed
qed

lemma make_contextE:
  assumes "make_context program schedule selections config admission timeline = Inr cx"
  obtains tasks where "select_tasks program selections = Inr tasks" "cx_tasks cx = tasks"
    "cx_program cx = program" "cx_schedule cx = schedule" "cx_config cx = config"
    "cx_admission cx = admission" "cx_record_timeline cx = timeline"
    "cx_task_order cx = dict_of (map (\<lambda>(index, t). (tk_task_id t, index)) (enumerate 0 tasks))"
    "cx_profile_by_id cx = dict_of (map (\<lambda>p. (pf_profile_id p, p)) (pg_profiles program))"
    "cx_object_alias cx = dict_of (map (\<lambda>b. (ob_object_id b, ob_alias_group_id b)) (pg_objects program))"
    "cx_task_physical_deltas cx = dict_of (map (\<lambda>d. (td_task_id d, d))
       (case admission of None \<Rightarrow> [] | Some a \<Rightarrow> am_task_deltas a))"
    "cx_action_physical_deltas cx = dict_of (map (\<lambda>d. (ad_action_index d, d))
       (case admission of None \<Rightarrow> [] | Some a \<Rightarrow> am_action_deltas a))"
    "admission_device_config admission (map (\<lambda>d. (dc_device_id d, d)) (sc_devices config))
       = Inr (cx_device_config cx)"
    "foldE add_reuse_dependency (Map.empty, Map.empty)
       (case admission of None \<Rightarrow> [] | Some a \<Rightarrow> am_reuse_dependencies a)
       = Inr (cx_task_reuse_dependencies cx, cx_action_reuse_dependencies cx)"
    "validate_inputs cx = Inr ()"
proof -
  from assms obtain tasks readers table deps where
    ctx: "select_tasks program selections = Inr tasks"
    "admission_device_config admission (map (\<lambda>d. (dc_device_id d, d)) (sc_devices config)) = Inr table"
    "foldE add_reuse_dependency (Map.empty, Map.empty)
       (case admission of None \<Rightarrow> [] | Some a \<Rightarrow> am_reuse_dependencies a) = Inr deps"
    and cx: "cx = \<lparr>cx_program = program, cx_schedule = schedule, cx_selections = selections,
             cx_config = config, cx_admission = admission, cx_record_timeline = timeline,
             cx_tasks = tasks,
             cx_task_by_id = dict_of (map (\<lambda>t. (tk_task_id t, t)) tasks),
             cx_task_order = dict_of (map (\<lambda>(index, t). (tk_task_id t, index)) (enumerate 0 tasks)),
             cx_profile_by_id = dict_of (map (\<lambda>p. (pf_profile_id p, p)) (pg_profiles program)),
             cx_object_alias = dict_of (map (\<lambda>b. (ob_object_id b, ob_alias_group_id b)) (pg_objects program)),
             cx_alias_last_reader = readers,
             cx_final_aliases = map rd_alias_group_id (ms_final_residency schedule),
             cx_device_config = table,
             cx_task_physical_deltas = dict_of (map (\<lambda>d. (td_task_id d, d))
               (case admission of None \<Rightarrow> [] | Some a \<Rightarrow> am_task_deltas a)),
             cx_action_physical_deltas = dict_of (map (\<lambda>d. (ad_action_index d, d))
               (case admission of None \<Rightarrow> [] | Some a \<Rightarrow> am_action_deltas a)),
             cx_task_reuse_dependencies = fst deps,
             cx_action_reuse_dependencies = snd deps\<rparr>"
    and val: "validate_inputs cx = Inr ()"
    unfolding make_context_def Let_def by (auto split: prod.splits)
  show ?thesis by (rule that [of tasks]) (use ctx val in \<open>simp_all add: cx\<close>)
qed

lemma make_context_sound:
  assumes "make_context program schedule selections config admission timeline = Inr cx"
    and "valid_program program" and "valid_config config"
  shows "sound_context cx"
  using assms(1)
proof (rule make_contextE)
  fix tasks
  assume cx: "cx_program cx = program" "cx_config cx = config" "cx_admission cx = admission"
    "cx_profile_by_id cx = dict_of (map (\<lambda>p. (pf_profile_id p, p)) (pg_profiles program))"
    and table: "admission_device_config admission (map (\<lambda>d. (dc_device_id d, d)) (sc_devices config))
       = Inr (cx_device_config cx)"
    and val: "validate_inputs cx = Inr ()"
  have pos: "\<forall>x \<in> set (map (\<lambda>d. (dc_device_id d, d)) (sc_devices config)). rates_positive (snd x)"
    using valid_config_facts(3) [OF assms(3)] by auto
  note table' = admission_device_config_facts [OF table pos]
  have ids: "map fst (cx_device_config cx) = device_ids cx"
    using table' by (simp add: device_ids_def cx(2) comp_def)
  have sizes: "0 \<le> ag_size_bytes g" if "g \<in> set (pg_alias_groups program)" for g
    using assms(2) that
    by (auto simp: valid_program_def valid_alias_group_def alias_group_spec_post_init_def
        require_non_negative_def)
  have profs: "0 \<le> pf_runtime_ns p \<and> 0 \<le> pf_workspace_bytes p" if "cx_profile_by_id cx i = Some p" for i p
    using assms(2) that
    by (auto simp: cx(4) valid_program_def valid_profile_def task_profile_post_init_def
        require_non_negative_def dest!: dict_of_SomeD)
  have init: "fst ` set (am_initial_physical_bytes a) = set (device_ids cx)" if "admission = Some a" for a
    using val that ids by (auto simp: validate_inputs_def Let_def cx(3) simp flip: set_map)
  show "sound_context cx"
    unfolding sound_context_def
    using ids valid_config_facts [OF assms(3)] table' sizes profs init
    by (simp add: cx device_ids_def)
qed


section \<open>The shape of an alias never changes\<close>

abbreviation alias_shapes :: "sim_state \<Rightarrow> string \<rightharpoonup> int \<times> string \<times> int \<times> bool" where
  "alias_shapes st \<equiv> shapes (st_alias_state st)"

lemma take_snapshot_shapes: "take_snapshot cx st = Inr st' \<Longrightarrow> alias_shapes st' = alias_shapes st"
  by (elim take_snapshotE) simp

lemma submitted_shapes: "action_submitted cx d n st = Inr (c, st') \<Longrightarrow> alias_shapes st' = alias_shapes st"
  by (elim action_submittedE) (drule take_snapshot_shapes, simp)

lemma enqueue_shapes: "enqueue_transfer i action l st = Inr st' \<Longrightarrow> alias_shapes st' = alias_shapes st"
  by (elim enqueue_transferE) (simp add: shapes_upd)

lemma submit_shapes:
  assumes run: "submit_action cx i action st = Inr (c, st')"
  shows "alias_shapes st' = alias_shapes st"
  using run
proof (cases rule: submit_actionE)
  case (submitted a config used)
  let ?delta = "action_trigger_delta cx i (trigger_default action a)"
  have "submit_departure cx i action ?delta st = Inr (c, st') \<Longrightarrow> ?thesis"
    by (erule submit_departureE [OF _ submitted(2)])
      (auto dest!: submitted_shapes enqueue_shapes simp: shapes_upd [of "st_alias_state st", OF submitted(2)])
  moreover have "submit_fetch cx i action ?delta st = Inr (c, st') \<Longrightarrow> ?thesis"
    by (erule submit_fetchE [OF _ submitted(2)])
      (auto dest!: submitted_shapes enqueue_shapes simp: shapes_upd [of "st_alias_state st", OF submitted(2)])
  moreover have "release_alias cx action st = Inr (True, u) \<Longrightarrow>
      action_submitted cx (as_device_id a) ?delta u = Inr (c, st') \<Longrightarrow> ?thesis" for u
    by (erule release_aliasE [OF _ submitted(2)])
      (auto dest!: submitted_shapes take_snapshot_shapes simp: shapes_upd [of "st_alias_state st", OF submitted(2)])
  ultimately show ?thesis using submitted(6) by (cases "ma_kind action") auto
qed auto

lemma land_shapes:
  assumes run: "complete_transfer cx d direction st = Inr st'"
    and active: "map_of (active_table direction st) d = Some active"
  shows "alias_shapes st' = alias_shapes st"
  using run
proof (rule complete_transferE [OF _ active])
  fix a delta t v i
  assume a: "st_alias_state st (pt_alias_group_id (at_pending active)) = Some a"
    and land: "land_transfer d direction (at_pending active) a
       (set_table direction (drop_key d (active_table direction st)) st) = Inr (delta, t)"
    and snap: "take_snapshot cx (t\<lparr>st_device_physical_bytes := (st_device_physical_bytes t)
         (d \<mapsto> v + action_completion_delta cx (pt_action_index (at_pending active)) delta),
       st_completed_transfer_actions := List.insert (int (pt_action_index (at_pending active)))
         (st_completed_transfer_actions t),
       st_transfer_intervals := st_transfer_intervals t @ [i]\<rparr>) = Inr st'"
  have "alias_shapes t = alias_shapes st"
    using land by (elim land_transferE) (simp_all add: shapes_upd [of "st_alias_state st", OF a])
  with take_snapshot_shapes [OF snap] show ?thesis by simp
qed

lemma step_shapes:
  assumes "sim_step cx st st'"
  shows "alias_shapes st' = alias_shapes st"
  using assms
proof (cases rule: sim_step.cases)
  case (start d direction c)
  from start(1) show ?thesis
    by (cases rule: try_start_directionE) (auto dest!: take_snapshot_shapes)
next
  case (launch c task c')
  from launch(1) show ?thesis
  proof (cases rule: try_launch_taskE)
    case launched
    from launched(17) show ?thesis by (elim launch_taskE) (drule take_snapshot_shapes, simp)
  qed simp
next
  case (submit c)
  then show ?thesis by (auto intro: submit_shapes)
next
  case (refresh d config)
  then show ?thesis by (auto elim: refresh_device_ratesE)
next
  case (land direction d active)
  then show ?thesis by (auto intro: land_shapes)
next
  case (finish key active)
  from finish(3) show ?thesis
    by (rule finish_taskE [OF _ finish(1)]) (drule take_snapshot_shapes, drule profiles_shapes, simp)
qed simp

definition sizes_nonneg :: "sim_state \<Rightarrow> bool" where
  "sizes_nonneg st \<longleftrightarrow> (\<forall>x n r. alias_shapes st x = Some (n, r) \<longrightarrow> 0 \<le> n)"

lemma sizes_nonnegD: "sizes_nonneg st \<Longrightarrow> st_alias_state st x = Some a \<Longrightarrow> 0 \<le> as_size_bytes a"
  by (force simp: sizes_nonneg_def shapes_def alias_shape_def)

lemma step_sizes: "sim_step cx st st' \<Longrightarrow> sizes_nonneg st \<Longrightarrow> sizes_nonneg st'"
  by (simp add: sizes_nonneg_def step_shapes)

lemma initial_shapes:
  assumes "sound_context cx" and "alias_shapes (initial_state cx) x = Some (n, r)"
  shows "0 \<le> n"
  using assms by (auto simp: shapes_def initial_state_def alias_shape_def sound_context_def
      initial_alias_state_def dest!: dict_of_SomeD)

lemma initial_sizes:
  assumes "initialize_memory cx (initial_state cx) = Inr st" and "sound_context cx"
  shows "sizes_nonneg st"
  using initialize_memory_views [OF assms(1)] initial_shapes [OF assms(2)]
  by (simp add: sizes_nonneg_def)

end
