(* ===== verification/Simulator_Capacity.thy ===== *)
theory Simulator_Capacity
  imports Simulator_Context
begin

text \<open>
  Memory safety of a simulated run: the bytes the simulator counts on a device never exceed
  its capacity and the spill bytes never exceed the spill capacity, at any snapshot of a run.
  An admission may give each step its own byte deltas, so the claim asks that completions do
  not add bytes; without an admission they never do.
\<close>

section \<open>The invariant\<close>

definition fits :: "sim_context \<Rightarrow> string \<Rightarrow> int \<Rightarrow> bool" where
  "fits cx d v \<longleftrightarrow> (\<exists>config. map_of (cx_device_config cx) d = Some config \<and> v \<le> dc_capacity_bytes config)"

definition snapshot_fits :: "sim_context \<Rightarrow> memory_snapshot \<Rightarrow> bool" where
  "snapshot_fits cx s \<longleftrightarrow> sn_spill_bytes s \<le> sc_spill_capacity_bytes (cx_config cx)
     \<and> (\<forall>(d, v) \<in> set (sn_device_physical_bytes s). fits cx d v)"

definition bytes_fit :: "sim_context \<Rightarrow> sim_state \<Rightarrow> bool" where
  "bytes_fit cx st \<longleftrightarrow> (\<forall>d v. st_device_physical_bytes st d = Some v \<longrightarrow> fits cx d v)
     \<and> st_spill_bytes st \<le> sc_spill_capacity_bytes (cx_config cx)"

definition peaks_fit :: "sim_context \<Rightarrow> sim_state \<Rightarrow> bool" where
  "peaks_fit cx st \<longleftrightarrow> (\<forall>d v. st_device_total_peaks st d = Some v \<longrightarrow> fits cx d v)
     \<and> st_spill_peak_bytes st \<le> sc_spill_capacity_bytes (cx_config cx)
     \<and> (\<forall>s \<in> set (st_memory_timeline st). snapshot_fits cx s)"

definition sizes_known :: "sim_context \<Rightarrow> sim_state \<Rightarrow> bool" where
  "sizes_known cx st \<longleftrightarrow> sizes_nonneg st
     \<and> (\<forall>x \<in> set (st_active_tasks st). 0 \<le> ak_workspace_bytes (snd x))"

definition completions_release :: "sim_context \<Rightarrow> bool" where
  "completions_release cx \<longleftrightarrow>
     (\<forall>t x. cx_task_physical_deltas cx t = Some x \<longrightarrow> td_completion_bytes x \<le> 0)
     \<and> (\<forall>i x. cx_action_physical_deltas cx i = Some x \<longrightarrow> ad_completion_bytes x \<le> 0)
     \<and> (\<forall>a u. cx_admission cx = Some a \<longrightarrow> am_unlisted_delta_bytes a = Some u \<longrightarrow> u \<le> 0)"

lemma unlisted_releases: "completions_release cx \<Longrightarrow> n \<le> 0 \<Longrightarrow> unlisted_delta cx n \<le> 0"
  by (auto simp: completions_release_def unlisted_delta_def split: option.splits)

lemma task_completion_releases:
  "completions_release cx \<Longrightarrow> n \<le> 0 \<Longrightarrow> task_completion_delta cx task n \<le> 0"
  using unlisted_releases [of cx n]
  by (auto simp: task_completion_delta_def completions_release_def split: option.splits)

lemma action_completion_releases:
  "completions_release cx \<Longrightarrow> n \<le> 0 \<Longrightarrow> action_completion_delta cx i n \<le> 0"
  using unlisted_releases [of cx n]
  by (auto simp: action_completion_delta_def completions_release_def split: option.splits)

lemma fits_le: "fits cx d v \<Longrightarrow> w \<le> v \<Longrightarrow> fits cx d w"
  by (auto simp: fits_def)

lemma fits_release:
  "bytes_fit cx st \<Longrightarrow> st_device_physical_bytes st d = Some v \<Longrightarrow> delta \<le> 0 \<Longrightarrow> fits cx d (v + delta)"
  by (rule fits_le [of cx d v]) (auto simp: bytes_fit_def)

lemma alias_size: "sizes_known cx st \<Longrightarrow> st_alias_state st x = Some a \<Longrightarrow> 0 \<le> as_size_bytes a"
  by (auto simp: sizes_known_def intro: sizes_nonnegD)


section \<open>Snapshots\<close>

lemma snapshot_device_peaks:
  assumes "snapshot_device st d = Inr st'"
    and "\<forall>d v. st_device_physical_bytes st d = Some v \<longrightarrow> fits cx d v"
    and "\<forall>d v. st_device_total_peaks st d = Some v \<longrightarrow> fits cx d v"
  shows "\<forall>d v. st_device_total_peaks st' d = Some v \<longrightarrow> fits cx d v"
  using assms by (auto simp: snapshot_device_def max_def split: if_splits)

lemma items_of_member:
  "items_of table ids = Inr xs \<Longrightarrow> x \<in> set xs \<Longrightarrow> table (fst x) = Some (snd x)"
  unfolding items_of_def by (induction ids arbitrary: xs) auto

lemma record_snapshot_fits:
  assumes "record_snapshot cx st = Inr st'" and "bytes_fit cx st" and "peaks_fit cx st"
  shows "bytes_fit cx st' \<and> peaks_fit cx st'"
proof (cases "cx_record_timeline cx")
  case True
  with assms(1) obtain xs ys zs where
    zs: "items_of (st_device_physical_bytes st) (device_ids cx) = Inr zs"
    and st': "st' = st\<lparr>st_memory_timeline := st_memory_timeline st @
      [\<lparr>sn_time_ns = st_now_ns st, sn_device_object_bytes = xs, sn_device_workspace_bytes = ys,
        sn_spill_bytes = st_spill_bytes st, sn_device_physical_bytes = zs\<rparr>]\<rparr>"
    by (auto simp: record_snapshot_def)
  have "\<forall>x \<in> set zs. fits cx (fst x) (snd x)"
    using assms(2) items_of_member [OF zs] by (auto simp: bytes_fit_def)
  with assms(2,3) show ?thesis
    by (simp add: st' bytes_fit_def peaks_fit_def snapshot_fits_def case_prod_beta)
next
  case False
  with assms show ?thesis by (simp add: record_snapshot_def)
qed

lemma take_snapshot_fits:
  assumes snap: "take_snapshot cx st = Inr st'" and bytes: "bytes_fit cx st" and peaks: "peaks_fit cx st"
  shows "bytes_fit cx st' \<and> peaks_fit cx st'"
proof -
  from snap obtain u where u: "foldE snapshot_device st (device_ids cx) = Inr u"
    and rec: "record_snapshot cx
      (u\<lparr>st_spill_peak_bytes := max (st_spill_peak_bytes u) (st_spill_bytes u)\<rparr>) = Inr st'"
    by (auto simp: take_snapshot_def)
  from u obtain a b c where uf: "u = st\<lparr>st_device_object_peaks := a, st_device_workspace_peaks := b,
      st_device_total_peaks := c\<rparr>" by (rule snapshot_devicesE)
  have "\<forall>d v. st_device_total_peaks u d = Some v \<longrightarrow> fits cx d v"
  proof -
    have "st_device_physical_bytes u = st_device_physical_bytes st
        \<and> (\<forall>d v. st_device_total_peaks u d = Some v \<longrightarrow> fits cx d v)"
    proof (rule foldE_simple_invariant [OF u])
      fix d t t'
      assume "st_device_physical_bytes t = st_device_physical_bytes st
          \<and> (\<forall>d v. st_device_total_peaks t d = Some v \<longrightarrow> fits cx d v)" "snapshot_device t d = Inr t'"
      then show "st_device_physical_bytes t' = st_device_physical_bytes st
          \<and> (\<forall>d v. st_device_total_peaks t' d = Some v \<longrightarrow> fits cx d v)"
        using bytes snapshot_device_peaks [of t d t' cx]
        by (auto simp: bytes_fit_def elim!: snapshot_deviceE)
    qed (use peaks in \<open>simp add: peaks_fit_def\<close>)
    then show ?thesis by simp
  qed
  with bytes peaks have "bytes_fit cx (u\<lparr>st_spill_peak_bytes := max (st_spill_peak_bytes u) (st_spill_bytes u)\<rparr>)"
    "peaks_fit cx (u\<lparr>st_spill_peak_bytes := max (st_spill_peak_bytes u) (st_spill_bytes u)\<rparr>)"
    by (simp_all add: uf bytes_fit_def peaks_fit_def)
  with record_snapshot_fits [OF rec] show ?thesis by blast
qed

definition capacity_inv :: "sim_context \<Rightarrow> sim_state \<Rightarrow> bool" where
  "capacity_inv cx st \<longleftrightarrow> bytes_fit cx st \<and> peaks_fit cx st \<and> sizes_known cx st"

lemma snapshot_capacity:
  assumes "take_snapshot cx st = Inr st'" and "bytes_fit cx st" "peaks_fit cx st" "sizes_known cx st"
  shows "capacity_inv cx st'"
  using assms(1)
  by (rule take_snapshotE)
    (use take_snapshot_fits [OF assms(1-3)] assms(4) in \<open>simp add: capacity_inv_def sizes_known_def sizes_nonneg_def\<close>)


section \<open>The steps keep it\<close>

lemma bytes_fit_update:
  "bytes_fit cx st \<Longrightarrow> fits cx d v \<Longrightarrow> st_spill_bytes st' \<le> st_spill_bytes st
    \<Longrightarrow> st_device_physical_bytes st' = (st_device_physical_bytes st)(d \<mapsto> v) \<Longrightarrow> bytes_fit cx st'"
  by (auto simp: bytes_fit_def)

lemma capacity_inv_cong:
  assumes "capacity_inv cx st"
    and "st_device_physical_bytes st' = st_device_physical_bytes st"
    and "st_spill_bytes st' = st_spill_bytes st" and "st_device_total_peaks st' = st_device_total_peaks st"
    and "st_spill_peak_bytes st' = st_spill_peak_bytes st"
    and "st_memory_timeline st' = st_memory_timeline st"
    and "shapes (st_alias_state st') = shapes (st_alias_state st)"
    and "st_active_tasks st' = st_active_tasks st"
  shows "capacity_inv cx st'"
  using assms by (simp add: capacity_inv_def bytes_fit_def peaks_fit_def sizes_known_def sizes_nonneg_def)

lemma submitted_capacity:
  assumes "action_submitted cx d delta st = Inr (c, st')" and "capacity_inv cx st"
    and "\<And>v. st_device_physical_bytes st d = Some v \<Longrightarrow> fits cx d (v + delta)"
  shows "capacity_inv cx st'"
  using assms(1)
proof (rule action_submittedE)
  fix v u
  assume v: "st_device_physical_bytes st d = Some v"
    and snap: "take_snapshot cx
      (st\<lparr>st_device_physical_bytes := (st_device_physical_bytes st)(d \<mapsto> v + delta)\<rparr>) = Inr u"
    and st': "st' = u\<lparr>st_next_action_index := st_next_action_index u + 1\<rparr>"
  from assms(2) assms(3) [OF v] have "capacity_inv cx u"
    by (intro snapshot_capacity [OF snap])
      (auto simp: capacity_inv_def bytes_fit_def peaks_fit_def sizes_known_def sizes_nonneg_def)
  then show ?thesis by (rule capacity_inv_cong) (simp_all add: st')
qed

lemma enqueue_capacity:
  assumes "enqueue_transfer i action l st = Inr st'" and "capacity_inv cx st"
  shows "capacity_inv cx st' \<and> st_device_physical_bytes st' = st_device_physical_bytes st"
  using assms(1)
  by (rule enqueue_transferE)
    (use assms(2) in \<open>auto intro!: capacity_inv_cong [OF assms(2)] simp: shapes_upd\<close>)

lemma submit_capacity:
  assumes run: "submit_action cx i action st = Inr (c, st')" and inv: "capacity_inv cx st"
  shows "capacity_inv cx st'"
  using run
proof (cases rule: submit_actionE)
  case kept
  with inv show ?thesis by simp
next
  case (deferred m v)
  with inv show ?thesis by (auto intro: capacity_inv_cong)
next
  case (submitted a config used)
  let ?d = "as_device_id a" and ?x = "ma_alias_group_id action"
  let ?delta = "action_trigger_delta cx i (trigger_default action a)"
  have size: "0 \<le> as_size_bytes a"
    using inv submitted(2) by (auto simp: capacity_inv_def intro: alias_size)
  have room: "fits cx ?d (used + ?delta)" using submitted(3,5) by (auto simp: fits_def)
  have departure: ?thesis if "submit_departure cx i action ?delta st = Inr (c, st')"
    using that
  proof (rule submit_departureE [OF _ submitted(2)])
    fix m v
    assume "st' = st\<lparr>st_deferred_ready_ns := m, st_capacity_violations := v\<rparr>"
    with inv show ?thesis by (auto intro: capacity_inv_cong)
  next
    assume "action_submitted cx ?d ?delta st = Inr (c, st')"
    then show ?thesis by (rule submitted_capacity [OF _ inv]) (use submitted(4) room in simp)
  next
    fix a' s u
    assume shape: "alias_shape a' = alias_shape a"
      and s: "if as_spill_allocated a then s = st_spill_bytes st
       else s = st_spill_bytes st + as_size_bytes a \<and> s \<le> sc_spill_capacity_bytes (cx_config cx)"
      and enq: "enqueue_transfer i action EVICT_LANE (st\<lparr>st_spill_bytes := s,
         st_alias_state := (st_alias_state st)(?x \<mapsto> a')\<rparr>) = Inr u"
      and fin: "action_submitted cx ?d ?delta u = Inr (c, st')"
    have "capacity_inv cx (st\<lparr>st_spill_bytes := s, st_alias_state := (st_alias_state st)(?x \<mapsto> a')\<rparr>)"
      using inv s size
      by (auto simp: capacity_inv_def bytes_fit_def peaks_fit_def sizes_known_def sizes_nonneg_def
          shapes_upd [of "st_alias_state st", OF submitted(2) shape] split: if_splits)
    from enqueue_capacity [OF enq this] show ?thesis
      by (intro submitted_capacity [OF fin]) (use submitted(4) room in auto)
  qed
  have fetch: ?thesis if "submit_fetch cx i action ?delta st = Inr (c, st')"
    using that
  proof (rule submit_fetchE [OF _ submitted(2)])
    fix a' objects u
    assume shape: "alias_shape a' = alias_shape a"
      and enq: "enqueue_transfer i action FETCH_LANE (st\<lparr>st_alias_state := (st_alias_state st)(?x \<mapsto> a'),
         st_device_object_bytes := objects\<rparr>) = Inr u"
      and fin: "action_submitted cx ?d ?delta u = Inr (c, st')"
    have "capacity_inv cx (st\<lparr>st_alias_state := (st_alias_state st)(?x \<mapsto> a'),
        st_device_object_bytes := objects\<rparr>)"
      by (rule capacity_inv_cong [OF inv]) (simp_all add: shapes_upd [of "st_alias_state st", OF submitted(2) shape])
    from enqueue_capacity [OF enq this] show ?thesis
      by (intro submitted_capacity [OF fin]) (use submitted(4) room in auto)
  qed
  have release: ?thesis if "release_alias cx action st = Inr (True, u)"
    and fin: "action_submitted cx ?d ?delta u = Inr (c, st')" for u
    using that(1)
  proof (rule release_aliasE [OF _ submitted(2)])
    fix a' b s
    assume shape: "alias_shape a' = alias_shape a"
      and s: "if as_spill_allocated a \<and> \<not> as_retain_spill_copy a
       then s = st_spill_bytes st - as_size_bytes a \<and> \<not> as_spill_allocated a'
       else s = st_spill_bytes st \<and> as_spill_allocated a' = as_spill_allocated a"
      and snap: "take_snapshot cx (st\<lparr>st_alias_state := (st_alias_state st)(?x \<mapsto> a'),
         st_device_object_bytes := (st_device_object_bytes st)(?d \<mapsto> b - as_size_bytes a),
         st_spill_bytes := s\<rparr>) = Inr u"
    have "capacity_inv cx u"
      by (rule snapshot_capacity [OF snap])
        (use inv s size in \<open>auto simp: capacity_inv_def bytes_fit_def peaks_fit_def sizes_known_def sizes_nonneg_def
          shapes_upd [of "st_alias_state st", OF submitted(2) shape] split: if_splits\<close>)
    moreover have "st_device_physical_bytes u = st_device_physical_bytes st"
      using take_snapshotE [OF snap] by fastforce
    ultimately show ?thesis
      by (intro submitted_capacity [OF fin]) (use submitted(4) room in auto)
  qed simp
  from submitted(6) departure fetch release show ?thesis by (cases "ma_kind action") auto
qed


lemma launch_capacity:
  assumes run: "try_launch_task cx (c, st) task = Inr (c', st')" and inv: "capacity_inv cx st"
    and sound: "sound_context cx"
  shows "capacity_inv cx st'"
  using run
proof (cases rule: try_launch_taskE)
  case (kept w)
  with inv show ?thesis by (auto intro: capacity_inv_cong)
next
  case (launched wait w completions profile outs bytes used config)
  let ?d = "rs_device_id (tk_resource task)"
  from sound launched(11) have work: "0 \<le> pf_workspace_bytes profile"
    by (simp add: sound_context_def)
  from launched(17) show ?thesis
  proof (rule launch_taskE)
    fix aliases objects n v
    assume shape: "shapes aliases = shapes (st_alias_state (st\<lparr>st_task_waits :=
        (st_task_waits st)(tk_task_id task \<mapsto> w)\<rparr>))"
      and v: "st_device_physical_bytes (st\<lparr>st_task_waits :=
        (st_task_waits st)(tk_task_id task \<mapsto> w)\<rparr>) ?d = Some v"
      and snap: "take_snapshot cx (st\<lparr>st_task_waits := (st_task_waits st)(tk_task_id task \<mapsto> w),
         st_alias_state := aliases, st_device_object_bytes := objects,
         st_device_workspace_bytes := (st_device_workspace_bytes (st\<lparr>st_task_waits :=
           (st_task_waits st)(tk_task_id task \<mapsto> w)\<rparr>))(?d \<mapsto> n + pf_workspace_bytes profile),
         st_device_physical_bytes := (st_device_physical_bytes (st\<lparr>st_task_waits :=
           (st_task_waits st)(tk_task_id task \<mapsto> w)\<rparr>))
           (?d \<mapsto> v + task_start_delta cx task (bytes + pf_workspace_bytes profile)),
         st_active_tasks := st_active_tasks (st\<lparr>st_task_waits :=
           (st_task_waits st)(tk_task_id task \<mapsto> w)\<rparr>) @ [(resource_key task,
             launched_task task profile outs (ready_time st wait completions)
               (st_now_ns (st\<lparr>st_task_waits := (st_task_waits st)(tk_task_id task \<mapsto> w)\<rparr>)) w)],
         st_unlaunched := filter (\<lambda>t. t \<noteq> tk_task_id task) (st_unlaunched (st\<lparr>st_task_waits :=
           (st_task_waits st)(tk_task_id task \<mapsto> w)\<rparr>))\<rparr>) = Inr st'"
    have "fits cx ?d (v + task_start_delta cx task (bytes + pf_workspace_bytes profile))"
      using launched(14-16) v by (auto simp: fits_def)
    with inv shape work show ?thesis
      by (intro snapshot_capacity [OF snap])
        (auto simp: capacity_inv_def bytes_fit_def peaks_fit_def sizes_known_def sizes_nonneg_def)
  qed
qed

lemma land_capacity:
  assumes run: "complete_transfer cx d direction st = Inr st'"
    and active: "map_of (active_table direction st) d = Some active"
    and inv: "capacity_inv cx st" and rel: "completions_release cx"
  shows "capacity_inv cx st'"
proof -
  let ?p = "at_pending active"
  from complete_transferE [OF run active] obtain a delta t v i where
    a: "st_alias_state st (pt_alias_group_id ?p) = Some a"
    and land: "land_transfer d direction ?p a
       (set_table direction (drop_key d (active_table direction st)) st) = Inr (delta, t)"
    and v: "st_device_physical_bytes t d = Some v"
    and snap: "take_snapshot cx (t\<lparr>st_device_physical_bytes := (st_device_physical_bytes t)
         (d \<mapsto> v + action_completion_delta cx (pt_action_index ?p) delta),
       st_completed_transfer_actions := List.insert (int (pt_action_index ?p))
         (st_completed_transfer_actions t),
       st_transfer_intervals := st_transfer_intervals t @ [i]\<rparr>) = Inr st'"
    by metis
  have size: "0 \<le> as_size_bytes a" using inv a by (auto simp: capacity_inv_def intro: alias_size)
  have t: "capacity_inv cx t \<and> delta \<le> 0"
    using land
  proof (cases rule: land_transferE)
    case (fetched a' s)
    with inv size show ?thesis
      by (auto simp: capacity_inv_def bytes_fit_def peaks_fit_def sizes_known_def sizes_nonneg_def
          shapes_upd [of "st_alias_state st", OF a] split: if_splits)
  next
    case (copied a')
    with inv show ?thesis
      by (auto simp: shapes_upd [of "st_alias_state st", OF a] intro!: capacity_inv_cong [OF inv])
  next
    case (evicted a' b)
    with inv size show ?thesis
      by (auto simp: shapes_upd [of "st_alias_state st", OF a] intro!: capacity_inv_cong [OF inv])
  qed
  then have "action_completion_delta cx (pt_action_index ?p) delta \<le> 0"
    using action_completion_releases [OF rel] by blast
  with t v have "fits cx d (v + action_completion_delta cx (pt_action_index ?p) delta)"
    by (auto simp: capacity_inv_def intro: fits_release)
  with t show ?thesis
    by (intro snapshot_capacity [OF snap])
      (auto simp: capacity_inv_def bytes_fit_def peaks_fit_def sizes_known_def sizes_nonneg_def)
qed

lemma finish_capacity:
  assumes run: "finish_task cx key st = Inr st'"
    and active: "map_of (st_active_tasks st) key = Some active"
    and inv: "capacity_inv cx st" and rel: "completions_release cx"
  shows "capacity_inv cx st'"
  using run
proof (rule finish_taskE [OF _ active])
  let ?d = "rs_device_id (tk_resource (ak_task active))"
  let ?delta = "task_completion_delta cx (ak_task active) (- ak_workspace_bytes active)"
  fix n v m
  assume v: "st_device_physical_bytes st ?d = Some v" and prof: "profiles m = profiles (st_alias_state st)"
    and snap: "take_snapshot cx (st\<lparr>st_active_tasks := drop_key key (st_active_tasks st),
       st_device_workspace_bytes := (st_device_workspace_bytes st)(?d \<mapsto> n - ak_workspace_bytes active),
       st_device_physical_bytes := (st_device_physical_bytes st)(?d \<mapsto> v + ?delta),
       st_alias_state := m,
       st_completed := (st_completed st)(tk_task_id (ak_task active) \<mapsto> st_now_ns st),
       st_task_intervals := st_task_intervals st @ [finished_interval active]\<rparr>) = Inr st'"
  have "0 \<le> ak_workspace_bytes active"
    using inv map_of_SomeD [OF active] by (force simp: capacity_inv_def sizes_known_def sizes_nonneg_def)
  then have "?delta \<le> 0" by (intro task_completion_releases [OF rel]) simp
  with v inv have "fits cx ?d (v + ?delta)"
    by (auto simp: capacity_inv_def intro: fits_release)
  with inv profiles_shapes [OF prof] show ?thesis
    by (intro snapshot_capacity [OF snap])
      (auto simp: capacity_inv_def bytes_fit_def peaks_fit_def sizes_known_def sizes_nonneg_def)
qed

lemma step_capacity:
  assumes "sim_step cx st st'" and inv: "capacity_inv cx st"
    and sound: "sound_context cx" and rel: "completions_release cx"
  shows "capacity_inv cx st'"
  using assms(1)
proof (cases rule: sim_step.cases)
  case (start d direction c)
  from start(1) show ?thesis
  proof (cases rule: try_start_directionE)
    case idle
    with inv show ?thesis by simp
  next
    case (stalled p q rs)
    show ?thesis by (rule capacity_inv_cong [OF inv]) (simp_all add: stalled(3))
  next
    case (started p q a)
    from inv show ?thesis
      by (intro snapshot_capacity [OF started(8)])
        (auto simp: capacity_inv_def bytes_fit_def peaks_fit_def sizes_known_def sizes_nonneg_def)
  qed
next
  case (launch c task c')
  show ?thesis by (rule launch_capacity [OF launch(1) inv sound])
next
  case (submit c)
  show ?thesis by (rule submit_capacity [OF submit(2) inv])
next
  case (refresh d config)
  from refresh(2) show ?thesis
    by (rule refresh_device_ratesE) (auto intro: capacity_inv_cong [OF inv])
next
  case (tick t)
  then show ?thesis by (auto intro: capacity_inv_cong [OF inv])
next
  case (land direction d active)
  show ?thesis by (rule land_capacity [OF land(3,1) inv rel])
next
  case (finish key active)
  show ?thesis by (rule finish_capacity [OF finish(3,1) inv rel])
qed


section \<open>The start of a run\<close>

lemma initial_capacity:
  assumes init: "initialize_memory cx (initial_state cx) = Inr st" and sound: "sound_context cx"
  shows "capacity_inv cx st"
  using init
proof (rule initialize_memoryE)
  fix u :: sim_state
  let ?u = "u\<lparr>st_device_physical_bytes := st_device_physical_bytes u ++
       (case cx_admission cx of None \<Rightarrow> st_device_object_bytes u
        | Some admission \<Rightarrow> dict_of (am_initial_physical_bytes admission))\<rparr>"
  assume load: "loaded_from (initial_state cx) u" and snap: "take_snapshot cx ?u = Inr st"
    and caps: "\<forall>d \<in> set (device_ids cx). check_initial_capacity cx st d = Inr ()"
    and spill: "st_spill_bytes st \<le> sc_spill_capacity_bytes (cx_config cx)"
  from snap have same: "st_device_physical_bytes st = st_device_physical_bytes ?u"
    "st_spill_bytes st = st_spill_bytes ?u" by (auto elim!: take_snapshotE)
  have zero: "dom (zero_bytes cx) = set (device_ids cx)"
    by (simp add: zero_bytes_def dict_of_dom image_image)
  have u: "st_device_physical_bytes u = zero_bytes cx"
    "dom (st_device_object_bytes u) = set (device_ids cx)"
    using load zero unfolding loaded_from_def by (elim exE conjE; simp add: initial_state_def)+
  have "dom (st_device_physical_bytes st) = set (device_ids cx)"
    using u zero sound
    by (cases "cx_admission cx") (simp_all add: same sound_context_def dict_of_dom)
  then have phys: "fits cx d v" if "st_device_physical_bytes st d = Some v" for d v
    using that caps by (fastforce simp: check_initial_capacity_def fits_def)
  have pos: "0 \<le> dc_capacity_bytes c" if "map_of (cx_device_config cx) d = Some c" for d c
    using sound map_of_SomeD [OF that] by (auto simp: sound_context_def rates_positive_def)
  have zeros: "fits cx d v" if "zero_bytes cx d = Some v" for d v
  proof -
    from that have "d \<in> set (device_ids cx)" "v = 0"
      by (auto simp: zero_bytes_def dest!: dict_of_SomeD)
    with sound have "d \<in> set (map fst (cx_device_config cx))" by (simp add: sound_context_def)
    with \<open>v = 0\<close> have "d \<in> fst ` set (cx_device_config cx)" "v = 0" by simp_all
    then show ?thesis using pos
      by (cases "map_of (cx_device_config cx) d") (auto simp: fits_def map_of_eq_None_iff)
  qed
  note groups = initial_shapes [OF sound]
  have "st_device_total_peaks u = zero_bytes cx" "st_spill_peak_bytes u = 0" "st_memory_timeline u = []"
    "st_active_tasks u = []" "shapes (st_alias_state u) = shapes (st_alias_state (initial_state cx))"
    using load by (auto simp: loaded_from_def initial_state_def)
  then show ?thesis
    using phys zeros spill sound groups
    by (intro snapshot_capacity [OF snap])
      (auto simp: same bytes_fit_def peaks_fit_def sizes_known_def sizes_nonneg_def sound_context_def)
qed

lemma peak_fits:
  "peak_of st d = Inr p \<Longrightarrow> \<forall>d v. st_device_total_peaks st d = Some v \<longrightarrow> fits cx d v
    \<Longrightarrow> fits cx (pk_device_id p) (pk_total_bytes p)"
  by (auto simp: peak_of_def)

lemma run_capacity:
  assumes "run_simulation cx = Some (Inr result)" and "sound_context cx" and "completions_release cx"
  shows "(\<forall>p \<in> set (sr_device_peaks result). fits cx (pk_device_id p) (pk_total_bytes p))
    \<and> sr_spill_peak_bytes result \<le> sc_spill_capacity_bytes (cx_config cx)
    \<and> (\<forall>s \<in> set (sr_memory_timeline result). snapshot_fits cx s)"
  using assms(1)
proof (rule run_simulationE)
  fix st st'
  assume init: "initialize_memory cx (initial_state cx) = Inr st" and steps: "sim_steps cx st st'"
    and res: "simulation_result_of cx st' = Inr result"
  have inv: "capacity_inv cx st'"
    using steps initial_capacity [OF init assms(2)]
    by (rule steps_invariant [where P = "capacity_inv cx"]) (rule step_capacity [OF _ _ assms(2,3)])
  from res obtain peaks where peaks: "mapE (peak_of st') (map fst (cx_device_config cx)) = Inr peaks"
    and result: "sr_device_peaks result = peaks" "sr_spill_peak_bytes result = st_spill_peak_bytes st'"
      "sr_memory_timeline result = st_memory_timeline st'"
    by (auto simp: simulation_result_of_def)
  have "\<forall>p \<in> set peaks. fits cx (pk_device_id p) (pk_total_bytes p)"
  proof
    fix p
    assume "p \<in> set peaks"
    then obtain i where "i < length peaks" "p = peaks ! i" by (auto simp: in_set_conv_nth)
    with mapE_nth [OF peaks, of i] mapE_length [OF peaks]
    have "peak_of st' (map fst (cx_device_config cx) ! i) = Inr p" by simp
    with inv show "fits cx (pk_device_id p) (pk_total_bytes p)"
      by (auto simp: capacity_inv_def peaks_fit_def intro: peak_fits)
  qed
  with inv result show ?thesis by (auto simp: capacity_inv_def peaks_fit_def)
qed

end
