(* ===== verification/Simulator_Termination.thy ===== *)
theory Simulator_Termination
  imports Simulator_Context
begin

text \<open>
  Both loops of the simulator end. The work left counts the actions not submitted, the copies
  waiting and under way and the tasks not launched and running, weighted so that every step
  that changes something lowers it; an iteration of the inner loop that reports a change, and
  every event, is such a step, because the next event is the earliest end of something active.
\<close>

section \<open>The work left\<close>

definition queued :: "(string \<rightharpoonup> pending_transfer list) \<Rightarrow> string \<Rightarrow> nat" where
  "queued queues d = (case queues d of None \<Rightarrow> 0 | Some q \<Rightarrow> length q)"

definition work_left :: "sim_context \<Rightarrow> sim_state \<Rightarrow> nat" where
  "work_left cx st =
     3 * (length (ms_actions (cx_schedule cx)) - st_next_action_index st)
     + 2 * (\<Sum>d \<in> set (device_ids cx). queued (st_pending_fetch st) d)
     + 2 * (\<Sum>d \<in> set (device_ids cx). queued (st_pending_evict st) d)
     + length (st_active_fetch st) + length (st_active_evict st)
     + 2 * length (st_unlaunched st) + length (st_active_tasks st)"

lemma queued_upd:
  "(\<Sum>d \<in> set ds. queued (m(k \<mapsto> q)) d) + (if k \<in> set ds then queued m k else 0)
    = (\<Sum>d \<in> set ds. queued m d) + (if k \<in> set ds then length q else 0)"
proof (cases "k \<in> set ds")
  case True
  have "(\<Sum>d \<in> set ds. queued (m(k \<mapsto> q)) d) = length q + (\<Sum>d \<in> set ds - {k}. queued m d)"
    using True by (subst sum.remove [of _ k]) (auto simp: queued_def intro!: sum.cong)
  moreover have "(\<Sum>d \<in> set ds. queued m d) = queued m k + (\<Sum>d \<in> set ds - {k}. queued m d)"
    using True by (subst sum.remove [of _ k]) auto
  ultimately show ?thesis using True by simp
next
  case False
  then show ?thesis by (auto simp: queued_def intro!: sum.cong)
qed

definition work_view where
  "work_view st = (st_next_action_index st, st_pending_fetch st, st_pending_evict st,
     length (st_active_fetch st), length (st_active_evict st), st_unlaunched st,
     length (st_active_tasks st))"

lemma work_view_cong: "work_view st' = work_view st \<Longrightarrow> work_left cx st' = work_left cx st"
  by (simp add: work_view_def work_left_def)

lemma take_snapshot_work: "take_snapshot cx st = Inr st' \<Longrightarrow> work_view st' = work_view st"
  by (elim take_snapshotE) (simp add: work_view_def)

lemma start_work:
  assumes "try_start_direction cx d direction st = Inr (c, st')" and "d \<in> set (device_ids cx)"
  shows "work_left cx st' + (if c then 1 else 0) \<le> work_left cx st"
  using assms(1)
proof (cases rule: try_start_directionE)
  case idle
  then show ?thesis by simp
next
  case (stalled p q rs)
  have "(\<Sum>k \<in> set (device_ids cx). queued ((pending_queue direction st)
      (d \<mapsto> p\<lparr>pt_stall_reasons := rs\<rparr> # q)) k) = (\<Sum>k \<in> set (device_ids cx). queued (pending_queue direction st) k)"
    using queued_upd [of "pending_queue direction st" d "p\<lparr>pt_stall_reasons := rs\<rparr> # q" "device_ids cx"]
      stalled(2) assms(2) by (simp add: queued_def)
  with stalled show ?thesis by (cases direction) (simp_all add: work_left_def lane_simps)
next
  case (started p q a)
  have "(\<Sum>k \<in> set (device_ids cx). queued ((pending_queue direction st)(d \<mapsto> q)) k) + 1
      = (\<Sum>k \<in> set (device_ids cx). queued (pending_queue direction st) k)"
    using queued_upd [of "pending_queue direction st" d q "device_ids cx"] started(2) assms(2)
    by (simp add: queued_def)
  then show ?thesis
    using work_view_cong [OF take_snapshot_work [OF started(8)], of cx] started(1)
    by (cases direction) (simp_all add: work_left_def lane_simps)
qed

lemma launch_work:
  assumes "try_launch_task cx (c, st) task = Inr (c', st')"
  shows "work_left cx st' + (if c' \<and> \<not> c then 1 else 0) \<le> work_left cx st"
  using assms
proof (cases rule: try_launch_taskE)
  case (kept w)
  then show ?thesis by (simp add: work_left_def)
next
  case (launched wait w completions profile outs bytes used config)
  have "length (filter (\<lambda>t. t \<noteq> tk_task_id task) (st_unlaunched st)) < length (st_unlaunched st)"
    by (rule length_filter_less [where x = "tk_task_id task"]) (use launched(2) in simp_all)
  with launched(17) show ?thesis
    by (elim launch_taskE) (drule take_snapshot_work, drule work_view_cong [of _ _ cx],
      simp add: work_left_def)
qed

lemma submitted_work:
  assumes "action_submitted cx d delta st = Inr (c, st')"
    and "st_next_action_index st < length (ms_actions (cx_schedule cx))"
  shows "work_left cx st' + 3 = work_left cx st \<and> st_next_action_index st' = st_next_action_index st + 1"
  using assms(1)
proof (rule action_submittedE)
  fix v u
  assume "take_snapshot cx
      (st\<lparr>st_device_physical_bytes := (st_device_physical_bytes st)(d \<mapsto> v + delta)\<rparr>) = Inr u"
    and st': "st' = u\<lparr>st_next_action_index := st_next_action_index u + 1\<rparr>"
  then have "work_view u = work_view st"
    by (auto dest!: take_snapshot_work simp: work_view_def)
  with assms(2) show ?thesis by (simp add: st' work_left_def work_view_def)
qed

lemma enqueue_work:
  assumes "enqueue_transfer i action l st = Inr st'"
  shows "work_left cx st' \<le> work_left cx st + 2 \<and> st_next_action_index st' = st_next_action_index st"
  using assms
proof (rule enqueue_transferE)
  fix a a' p q n
  assume q: "pending_queue l st (as_device_id a) = Some q"
    and st': "st' = set_queue l (as_device_id a) (q @ [p])
      (st\<lparr>st_transfer_sequence := (st_transfer_sequence st)((as_device_id a, l) \<mapsto> n + 1),
          st_alias_state := (st_alias_state st)(ma_alias_group_id action \<mapsto> a')\<rparr>)"
  have "(\<Sum>k \<in> set (device_ids cx). queued ((pending_queue l st)(as_device_id a \<mapsto> q @ [p])) k)
      \<le> (\<Sum>k \<in> set (device_ids cx). queued (pending_queue l st) k) + 1"
    using queued_upd [of "pending_queue l st" "as_device_id a" "q @ [p]" "device_ids cx"] q
    by (simp add: queued_def split: if_splits)
  then show ?thesis by (cases l) (simp_all add: st' work_left_def lane_simps)
qed

lemma submit_work:
  assumes run: "submit_action cx (st_next_action_index st) action st = Inr (c, st')"
    and len: "st_next_action_index st < length (ms_actions (cx_schedule cx))"
  shows "work_left cx st' \<le> work_left cx st
    \<and> (st_next_action_index st' \<noteq> st_next_action_index st \<longrightarrow> work_left cx st' < work_left cx st)
    \<and> st_next_action_index st' = st_next_action_index st + (if c then 1 else 0)"
  using run
proof (cases rule: submit_actionE)
  case kept
  then show ?thesis by simp
next
  case (deferred m v)
  then show ?thesis by (simp add: work_left_def)
next
  case (submitted a config used)
  let ?delta = "action_trigger_delta cx (st_next_action_index st) (trigger_default action a)"
  let ?d = "as_device_id a"
  have c: "c" if "action_submitted cx d delta u = Inr (c, st')" for d delta u
    using that by (elim action_submittedE)
  have through: ?thesis if "enqueue_transfer (st_next_action_index st) action l t = Inr u"
    "action_submitted cx ?d ?delta u = Inr (c, st')" "work_view t = work_view st" for l t u
    using enqueue_work [OF that(1), of cx] submitted_work [OF that(2)] len c [OF that(2)]
      work_view_cong [OF that(3), of cx] that(3) by (simp add: work_view_def)
  have departure: ?thesis if "submit_departure cx (st_next_action_index st) action ?delta st = Inr (c, st')"
    using that
  proof (rule submit_departureE [OF _ submitted(2)])
    fix m v
    assume "\<not> c" "st' = st\<lparr>st_deferred_ready_ns := m, st_capacity_violations := v\<rparr>"
    then show ?thesis by (simp add: work_left_def)
  next
    assume "action_submitted cx ?d ?delta st = Inr (c, st')"
    with submitted_work [OF this len] c [OF this] show ?thesis by simp
  next
    fix a' s u
    assume "enqueue_transfer (st_next_action_index st) action EVICT_LANE (st\<lparr>st_spill_bytes := s,
         st_alias_state := (st_alias_state st)(ma_alias_group_id action \<mapsto> a')\<rparr>) = Inr u"
      and "action_submitted cx ?d ?delta u = Inr (c, st')"
    then show ?thesis by (rule through) (simp add: work_view_def)
  qed
  have fetch: ?thesis if "submit_fetch cx (st_next_action_index st) action ?delta st = Inr (c, st')"
    using that
  proof (rule submit_fetchE [OF _ submitted(2)])
    fix a' objects u
    assume "enqueue_transfer (st_next_action_index st) action FETCH_LANE (st\<lparr>st_alias_state :=
         (st_alias_state st)(ma_alias_group_id action \<mapsto> a'), st_device_object_bytes := objects\<rparr>) = Inr u"
      and "action_submitted cx ?d ?delta u = Inr (c, st')"
    then show ?thesis by (rule through) (simp add: work_view_def)
  qed
  have release: ?thesis if "release_alias cx action st = Inr (True, u)"
    and fin: "action_submitted cx ?d ?delta u = Inr (c, st')" for u
    using that(1)
  proof (rule release_aliasE [OF _ submitted(2)])
    fix a' b s
    assume "take_snapshot cx (st\<lparr>st_alias_state := (st_alias_state st)(ma_alias_group_id action \<mapsto> a'),
         st_device_object_bytes := (st_device_object_bytes st)(?d \<mapsto> b - as_size_bytes a),
         st_spill_bytes := s\<rparr>) = Inr u"
    then have u: "work_view u = work_view st" by (auto dest!: take_snapshot_work simp: work_view_def)
    with submitted_work [OF fin] len c [OF fin] work_view_cong [OF u, of cx] show ?thesis
      by (simp add: work_view_def)
  qed simp
  from submitted(6) departure fetch release show ?thesis by (cases "ma_kind action") auto
qed


lemma refresh_work:
  "refresh_device_rates st x = Inr st' \<Longrightarrow> work_left cx st' = work_left cx st"
  by (cases x) (auto elim!: refresh_device_ratesE simp: table_refreshed_def work_left_def
    dest!: map_eq_imp_length_eq)

lemma land_work:
  assumes run: "complete_transfer cx d direction st = Inr st'"
    and active: "map_of (active_table direction st) d = Some active"
  shows "work_left cx st' < work_left cx st"
  using run
proof (rule complete_transferE [OF _ active])
  fix a delta t v i
  assume land: "land_transfer d direction (at_pending active) a
       (set_table direction (drop_key d (active_table direction st)) st) = Inr (delta, t)"
    and snap: "take_snapshot cx (t\<lparr>st_device_physical_bytes := (st_device_physical_bytes t)
         (d \<mapsto> v + action_completion_delta cx (pt_action_index (at_pending active)) delta),
       st_completed_transfer_actions := List.insert (int (pt_action_index (at_pending active)))
         (st_completed_transfer_actions t),
       st_transfer_intervals := st_transfer_intervals t @ [i]\<rparr>) = Inr st'"
  have "work_view t = work_view (set_table direction (drop_key d (active_table direction st)) st)"
    using land by (elim land_transferE) (simp_all add: work_view_def)
  then have "work_left cx t < work_left cx st"
    using drop_key_length [OF active]
    by (cases direction) (simp_all add: work_left_def lane_simps work_view_def)
  moreover have "work_view st' = work_view t"
    using snap by (elim take_snapshotE) (simp add: work_view_def)
  ultimately show ?thesis using work_view_cong [of st' t cx] by simp
qed

lemma finish_work:
  assumes run: "finish_task cx key st = Inr st'"
    and active: "map_of (st_active_tasks st) key = Some active"
  shows "work_left cx st' < work_left cx st"
  using run
  by (rule finish_taskE [OF _ active])
    (drule take_snapshot_work, drule work_view_cong [of _ _ cx],
      use drop_key_length [OF active] in \<open>simp add: work_left_def\<close>)

lemma submit_actions_work:
  "submit_actions n cx st = Inr st' \<Longrightarrow> work_left cx st' \<le> work_left cx st
    \<and> (st_next_action_index st' \<noteq> st_next_action_index st \<longrightarrow> work_left cx st' < work_left cx st)
    \<and> st_next_action_index st \<le> st_next_action_index st'"
proof (induction n arbitrary: st)
  case 0
  then show ?case by simp
next
  case (Suc n)
  show ?case
  proof (cases "st_next_action_index st < length (ms_actions (cx_schedule cx))")
    case False
    with Suc.prems show ?thesis by simp
  next
    case True
    with Suc.prems obtain go u where u: "submit_action cx (st_next_action_index st)
        (ms_actions (cx_schedule cx) ! st_next_action_index st) st = Inr (go, u)"
      and rest: "(if go then submit_actions n cx u else Inr u) = Inr st'"
      by (auto simp: Let_def)
    show ?thesis
    proof (cases go)
      case True
      with rest submit_work [OF u \<open>st_next_action_index st < _\<close>] Suc.IH [of u] show ?thesis by auto
    next
      case False
      with rest submit_work [OF u \<open>st_next_action_index st < _\<close>] show ?thesis by simp
    qed
  qed
qed

lemma submit_ready_actions_work:
  "submit_ready_actions cx st = Inr st' \<Longrightarrow> work_left cx st' \<le> work_left cx st
    \<and> (st_next_action_index st' \<noteq> st_next_action_index st \<longrightarrow> work_left cx st' < work_left cx st)"
  using submit_actions_work by (simp add: submit_ready_actions_def)


section \<open>The inner loop\<close>

lemma try_start_transfers_work:
  assumes "try_start_transfers cx st = Inr (c, st')" and "set (map fst (cx_device_config cx)) = set (device_ids cx)"
  shows "work_left cx st' + (if c then 1 else 0) \<le> work_left cx st"
proof -
  have "work_left cx (snd (c, st')) + (if fst (c, st') then 1 else 0) \<le> work_left cx st"
  proof (rule foldE_simple_invariant [where
      P = "\<lambda>x. work_left cx (snd x) + (if fst x then 1 else 0) \<le> work_left cx st"])
    show "foldE (try_start_device cx) (False, st) (map fst (cx_device_config cx)) = Inr (c, st')"
      using assms by (simp add: try_start_transfers_def)
  next
    fix d t t'
    assume t: "work_left cx (snd t) + (if fst t then 1 else 0) \<le> work_left cx st"
      and d: "d \<in> set (map fst (cx_device_config cx))" and run: "try_start_device cx t d = Inr t'"
    from run obtain b1 u b2 v where u: "try_start_direction cx d FETCH_LANE (snd t) = Inr (b1, u)"
      and v: "try_start_direction cx d EVICT_LANE u = Inr (b2, v)" and t': "t' = (fst t \<or> b1 \<or> b2, v)"
      by (auto simp: try_start_device_def split: prod.splits)
    from d assms(2) have "d \<in> set (device_ids cx)" by simp
    from start_work [OF u this] start_work [OF v this] t
    show "work_left cx (snd t') + (if fst t' then 1 else 0) \<le> work_left cx st"
      by (auto simp: t' split: if_splits)
  qed simp
  then show ?thesis by simp
qed

lemma try_launch_tasks_work:
  assumes "try_launch_tasks cx st = Inr (c, st')"
  shows "work_left cx st' + (if c then 1 else 0) \<le> work_left cx st"
proof -
  have "work_left cx (snd (c, st')) + (if fst (c, st') then 1 else 0) \<le> work_left cx st"
  proof (rule foldE_simple_invariant [where
      P = "\<lambda>x. work_left cx (snd x) + (if fst x then 1 else 0) \<le> work_left cx st"])
    show "foldE (try_launch_task cx) (False, st) (cx_tasks cx) = Inr (c, st')"
      using assms by (simp add: try_launch_tasks_def)
  next
    fix task t t'
    assume "work_left cx (snd t) + (if fst t then 1 else 0) \<le> work_left cx st"
      and "try_launch_task cx t task = Inr t'"
    then show "work_left cx (snd t') + (if fst t' then 1 else 0) \<le> work_left cx st"
      using launch_work [of cx "fst t" "snd t" task "fst t'" "snd t'"] by (auto split: if_splits)
  qed simp
  then show ?thesis by simp
qed

lemma settle_round_work:
  assumes "settle_round cx st = Inr (c, st')" and "set (map fst (cx_device_config cx)) = set (device_ids cx)"
  shows "work_left cx st' \<le> work_left cx st \<and> (c \<longrightarrow> work_left cx st' < work_left cx st)"
proof -
  from assms(1) obtain b1 u b2 v where u: "try_start_transfers cx st = Inr (b1, u)"
    and v: "try_launch_tasks cx u = Inr (b2, v)" and w: "submit_ready_actions cx v = Inr st'"
    and c: "c \<longleftrightarrow> b1 \<or> b2 \<or> st_next_action_index st' \<noteq> st_next_action_index v"
    by (auto simp: settle_round_def Let_def split: prod.splits)
  from try_start_transfers_work [OF u assms(2)] try_launch_tasks_work [OF v]
    submit_ready_actions_work [OF w] c show ?thesis by (auto split: if_splits)
qed

lemma settle_total:
  assumes "set (map fst (cx_device_config cx)) = set (device_ids cx)"
  shows "\<exists>r. settle cx st = Some r \<and> (\<forall>st'. r = Inr st' \<longrightarrow> work_left cx st' \<le> work_left cx st)"
proof (induction "work_left cx st" arbitrary: st rule: less_induct)
  case less
  show ?case
  proof (cases "settle_round cx st")
    case (Inl e)
    then show ?thesis by (subst settle.simps) simp
  next
    case (Inr x)
    obtain c u where x: "x = (c, u)" by (cases x)
    note work = settle_round_work [OF Inr [unfolded x] assms]
    show ?thesis
    proof (cases c)
      case True
      with work less [of u] Inr x show ?thesis
        by (subst settle.simps) fastforce
    next
      case False
      with work Inr x show ?thesis by (subst settle.simps) simp
    qed
  qed
qed


section \<open>Time moves forward\<close>

text \<open>Nothing active has ended, and every copy under way has started.\<close>

definition transfer_due :: "int \<Rightarrow> active_transfer \<Rightarrow> bool" where
  "transfer_due now a \<longleftrightarrow> at_payload_start_ns a \<le> now \<and> now \<le> at_end_ns a"

definition timing_inv :: "sim_state \<Rightarrow> bool" where
  "timing_inv st \<longleftrightarrow>
     (\<forall>x \<in> set (st_active_fetch st) \<union> set (st_active_evict st). transfer_due (st_now_ns st) (snd x))
     \<and> (\<forall>x \<in> set (st_active_tasks st). st_now_ns st \<le> ak_end_ns (snd x))"

lemma timing_inv_views:
  "timing_inv st \<Longrightarrow> task_view st' = task_view st \<Longrightarrow> lane_view st' = lane_view st \<Longrightarrow> timing_inv st'"
  by (simp add: timing_inv_def task_view_def lane_view_def)

lemma refreshed_due:
  assumes "refreshed config now a a'" and "rates_positive config" and "transfer_due now a"
  shows "transfer_due now a'"
proof -
  have "now \<le> now + (at_remaining a' + rate - 1) div rate" if "0 < at_remaining a'" "0 < rate" for rate
    using that by (simp add: pos_imp_zdiv_nonneg_iff)
  with assms show ?thesis
    by (auto simp: refreshed_def transfer_due_def rates_positive_def)
qed

lemma table_refreshed_due:
  assumes "table_refreshed config now xs ys" and "rates_positive config"
    and "\<forall>x \<in> set xs. transfer_due now (snd x)"
  shows "\<forall>x \<in> set ys. transfer_due now (snd x)"
  using assms by (fastforce simp: table_refreshed_def intro: refreshed_due)

lemma next_event_min:
  assumes "next_event_time st = Some t"
  shows "(\<forall>x \<in> set (st_active_tasks st). t \<le> ak_end_ns (snd x))
    \<and> (\<forall>x \<in> set (st_active_fetch st) \<union> set (st_active_evict st). t \<le> transfer_event_ns (st_now_ns st) (snd x))
    \<and> ((\<exists>x \<in> set (st_active_tasks st). t = ak_end_ns (snd x))
       \<or> (\<exists>x \<in> set (st_active_fetch st) \<union> set (st_active_evict st). t = transfer_event_ns (st_now_ns st) (snd x)))"
proof -
  let ?ends = "map (\<lambda>x. ak_end_ns (snd x)) (st_active_tasks st) @
    map (\<lambda>x. transfer_event_ns (st_now_ns st) (snd x)) (st_active_fetch st @ st_active_evict st)"
  from assms obtain e es where ends: "?ends = e # es" and t: "t = fold min es e"
    by (auto simp: next_event_time_def split: list.splits)
  have "t = Min (set ?ends)" unfolding ends t by (rule Min.set_eq_fold [symmetric])
  moreover have "set ?ends \<noteq> {}" using ends by simp
  ultimately have "\<forall>x \<in> set ?ends. t \<le> x" "t \<in> set ?ends" by (simp, metis List.finite_set Min_in)
  then show ?thesis by (auto simp: image_iff)
qed

lemma due_event: "transfer_due now a \<Longrightarrow> transfer_event_ns now a = at_end_ns a"
  by (simp add: transfer_due_def transfer_event_ns_def)

lemma tick_timing:
  assumes "next_event_time st = Some t" and "timing_inv st"
  shows "timing_inv (st\<lparr>st_now_ns := t\<rparr>) \<and> st_now_ns st \<le> t"
proof -
  let ?lanes = "set (st_active_fetch st) \<union> set (st_active_evict st)"
  note least = next_event_min [OF assms(1)]
  have due: "transfer_due (st_now_ns st) (snd x)" if "x \<in> ?lanes" for x
    using that assms(2) by (auto simp: timing_inv_def)
  have ends: "t \<le> at_end_ns (snd x)" if "x \<in> ?lanes" for x
    using least that due_event [OF due [OF that]] by force
  have now: "st_now_ns st \<le> t"
  proof -
    consider x where "x \<in> set (st_active_tasks st)" "t = ak_end_ns (snd x)"
      | x where "x \<in> ?lanes" "t = transfer_event_ns (st_now_ns st) (snd x)" using least by blast
    then show ?thesis
    proof cases
      case 1
      with assms(2) show ?thesis by (simp add: timing_inv_def)
    next
      case (2 x)
      with due [of x] due_event [OF due [of x]] show ?thesis by (simp add: transfer_due_def)
    qed
  qed
  have "transfer_due t (snd x)" if "x \<in> ?lanes" for x
    using due [OF that] ends [OF that] now by (simp add: transfer_due_def)
  with now least show ?thesis by (simp add: timing_inv_def)
qed

lemma step_timing:
  assumes "sim_step cx st st'" and inv: "timing_inv st" and sizes: "sizes_nonneg st"
    and sound: "sound_context cx"
  shows "timing_inv st' \<and> st_now_ns st \<le> st_now_ns st'"
  using assms(1)
proof (cases rule: sim_step.cases)
  case (start d direction c)
  from start(1) show ?thesis
  proof (cases rule: try_start_directionE)
    case idle
    with inv show ?thesis by simp
  next
    case (stalled p q rs)
    with inv show ?thesis by (simp add: timing_inv_def)
  next
    case (started p q a)
    have "transfer_due (st_now_ns st) (started_transfer (st_now_ns st) (as_size_bytes a) p)"
      using sizes_nonnegD [OF sizes started(4)] by (simp add: transfer_due_def NANOSECONDS_PER_SECOND_def)
    with inv take_snapshot_views [OF started(8)] show ?thesis
      by (cases direction) (auto simp: timing_inv_def task_view_def lane_view_def lane_simps)
  qed
next
  case (launch c task c')
  from launch(1) show ?thesis
  proof (cases rule: try_launch_taskE)
    case kept
    with inv show ?thesis by (simp add: timing_inv_def)
  next
    case (launched wait w completions profile outs bytes used config)
    from sound launched(11) have "0 \<le> pf_runtime_ns profile" by (simp add: sound_context_def)
    with launched(17) inv show ?thesis
      by (elim launch_taskE) (drule take_snapshot_views, auto simp: timing_inv_def task_view_def lane_view_def)
  qed
next
  case (submit c)
  from submit_action_views [OF submit(2)] timing_inv_views [OF inv] show ?thesis
    by (auto simp: task_view_def)
next
  case (refresh d config)
  have "rates_positive config" using sound refresh(1) by (force simp: sound_context_def)
  with refresh(2) inv show ?thesis
    by (elim refresh_device_ratesE) (auto simp: timing_inv_def dest!: table_refreshed_due)
next
  case (tick t)
  with tick_timing [OF tick(2) inv] show ?thesis by simp
next
  case (land direction d active)
  from complete_transfer_views [OF land(3,1)] inv show ?thesis
    by (auto simp: timing_inv_def task_view_def)
next
  case (finish key active)
  from finish_task_views [OF finish(3)] inv show ?thesis
    by (simp add: timing_inv_def lane_view_def)
qed

definition forward_inv :: "sim_state \<Rightarrow> bool" where
  "forward_inv st \<longleftrightarrow> timing_inv st \<and> sizes_nonneg st \<and> keys_distinct st"

lemma step_forward:
  "sim_step cx st st' \<Longrightarrow> forward_inv st \<Longrightarrow> sound_context cx \<Longrightarrow> forward_inv st'"
  by (auto simp: forward_inv_def dest: step_timing step_sizes sim_step_keys)

lemma steps_forward:
  "sim_steps cx st st' \<Longrightarrow> forward_inv st \<Longrightarrow> sound_context cx \<Longrightarrow> forward_inv st'"
  by (erule steps_invariant [where P = forward_inv]) (auto intro: step_forward)


section \<open>Every event completes something\<close>

lemma complete_due_work:
  "foldE (complete_due_transfer cx direction) st ds = Inr st' \<Longrightarrow> st' = st \<or> work_left cx st' < work_left cx st"
proof (induction ds arbitrary: st)
  case Nil
  then show ?case by simp
next
  case (Cons d ds)
  then obtain u where u: "complete_due_transfer cx direction st d = Inr u"
    and rest: "foldE (complete_due_transfer cx direction) u ds = Inr st'" by auto
  from u have "u = st \<or> work_left cx u < work_left cx st"
    by (auto simp: complete_due_transfer_def split: if_splits intro: land_work)
  with Cons.IH [OF rest] show ?case by auto
qed

lemma complete_due_progress:
  assumes "foldE (complete_due_transfer cx direction) st ds = Inr st'" and "d \<in> set ds"
    and "map_of (active_table direction st) d = Some active" and "at_end_ns active = st_now_ns st"
  shows "work_left cx st' < work_left cx st"
  using assms
proof (induction ds)
  case Nil
  then show ?case by simp
next
  case (Cons x ds)
  then obtain u where u: "complete_due_transfer cx direction st x = Inr u"
    and rest: "foldE (complete_due_transfer cx direction) u ds = Inr st'" by auto
  note le = complete_due_work [OF rest]
  show ?case
  proof (cases "u = st")
    case True
    have "x \<noteq> d"
    proof
      assume "x = d"
      with u Cons.prems(3,4) have "complete_transfer cx d direction st = Inr u"
        by (simp add: complete_due_transfer_def)
      from land_work [OF this Cons.prems(3)] True show False by simp
    qed
    with Cons True rest show ?thesis by simp
  next
    case False
    with u have "work_left cx u < work_left cx st"
      by (auto simp: complete_due_transfer_def split: if_splits intro: land_work)
    with le show ?thesis by auto
  qed
qed

lemma complete_task_work:
  "complete_task cx key st = Inr st' \<Longrightarrow> work_left cx st' < work_left cx st"
proof -
  assume "complete_task cx key st = Inr st'"
  then obtain u where u: "finish_task cx key st = Inr u" "submit_ready_actions cx u = Inr st'"
    by (auto simp: complete_task_def)
  from u(1) obtain active where "map_of (st_active_tasks st) key = Some active"
    by (auto simp: finish_task_def)
  from finish_work [OF u(1) this] submit_ready_actions_work [OF u(2)] show ?thesis by simp
qed

lemma complete_tasks_work:
  "foldE (\<lambda>st key. complete_task cx key st) st keys = Inr st'
    \<Longrightarrow> work_left cx st' \<le> work_left cx st \<and> (keys \<noteq> [] \<longrightarrow> work_left cx st' < work_left cx st)"
proof (induction keys arbitrary: st)
  case Nil
  then show ?case by simp
next
  case (Cons k ks)
  then obtain u where "complete_task cx k st = Inr u"
    and "foldE (\<lambda>st key. complete_task cx key st) u ks = Inr st'" by auto
  with Cons.IH [of u] complete_task_work [of cx k st u] show ?case by auto
qed

lemma due_tasks_nonempty:
  assumes "due_tasks cx st = Inr keys" and "x \<in> set (st_active_tasks st)"
    and "ak_end_ns (snd x) = st_now_ns st"
  shows "keys \<noteq> []"
proof -
  from assms(1) obtain keyed where keyed: "mapE (\<lambda>x. bindE (look (cx_task_order cx)
      (tk_task_id (ak_task (snd x)))) (\<lambda>order. Inr (order, fst x)))
      (filter (\<lambda>x. ak_end_ns (snd x) = st_now_ns st) (st_active_tasks st)) = Inr keyed"
    and keys: "keys = map snd (sort_key fst keyed)" by (auto simp: due_tasks_def)
  from assms(2,3) have "filter (\<lambda>x. ak_end_ns (snd x) = st_now_ns st) (st_active_tasks st) \<noteq> []"
    by (auto simp: filter_empty_conv)
  with mapE_length [OF keyed] have "keyed \<noteq> []" by auto
  then have "length keys \<noteq> 0" by (simp add: keys)
  then show ?thesis by auto
qed

lemma complete_events_work:
  assumes run: "complete_events cx st = Inr st'" and kd: "keys_distinct st"
    and due: "(\<exists>x \<in> set (st_active_tasks st). st_now_ns st = ak_end_ns (snd x))
      \<or> (\<exists>x \<in> set (st_active_fetch st) \<union> set (st_active_evict st). st_now_ns st = at_end_ns (snd x))"
  shows "work_left cx st' < work_left cx st"
proof -
  from run obtain u v keys where
    u: "foldE (complete_due_transfer cx FETCH_LANE) st (sort (map fst (st_active_fetch st))) = Inr u"
    and v: "foldE (complete_due_transfer cx EVICT_LANE) u (sort (map fst (st_active_evict u))) = Inr v"
    and keys: "due_tasks cx v = Inr keys"
    and fin: "foldE (\<lambda>st key. complete_task cx key st) v keys = Inr st'"
    by (auto simp: complete_events_def)
  note le = complete_due_work [OF u] complete_due_work [OF v] complete_tasks_work [OF fin]
  show ?thesis
  proof (cases "u = st \<and> v = st")
    case False
    with le show ?thesis by auto
  next
    case True
    then have [simp]: "u = st" "v = st" by simp_all
    have entry: "map_of xs (fst x) = Some (snd x)" if "distinct (map fst xs)" "x \<in> set xs"
      for x and xs :: "(string \<times> active_transfer) list"
      using that by (cases x) simp
    consider x where "x \<in> set (st_active_tasks st)" "ak_end_ns (snd x) = st_now_ns st"
      | x where "x \<in> set (st_active_fetch st)" "at_end_ns (snd x) = st_now_ns st"
      | x where "x \<in> set (st_active_evict st)" "at_end_ns (snd x) = st_now_ns st"
      using due by (elim disjE bexE UnE) (simp_all add: eq_commute)
    then show ?thesis
    proof cases
      case 1
      with due_tasks_nonempty [OF keys] le(3) show ?thesis by simp
    next
      case (2 x)
      with entry [of "st_active_fetch st" x] kd
        complete_due_progress [OF u, of "fst x" "snd x"] show ?thesis
        by (simp add: keys_distinct_def lane_simps)
    next
      case (3 x)
      with entry [of "st_active_evict st" x] kd
        complete_due_progress [OF v, of "fst x" "snd x"] show ?thesis
        by (simp add: keys_distinct_def lane_simps)
    qed
  qed
qed

lemma refresh_rates_work:
  "refresh_transfer_rates cx st = Inr st' \<Longrightarrow> work_left cx st' = work_left cx st"
  unfolding refresh_transfer_rates_def
  by (rule foldE_simple_invariant [where P = "\<lambda>t. work_left cx t = work_left cx st"])
    (assumption, rule refl, metis refresh_work)

lemma advance_work:
  assumes run: "advance cx st = Inr st'" and inv: "forward_inv st" and sound: "sound_context cx"
  shows "work_left cx st' < work_left cx st"
proof -
  from run obtain u where u: "refresh_transfer_rates cx st = Inr u"
    and rest: "(case next_event_time u of None \<Rightarrow> deadlock cx u
      | Some t \<Rightarrow> complete_events cx (u\<lparr>st_now_ns := t\<rparr>)) = Inr st'"
    by (auto simp: advance_def)
  from rest deadlock_raises [of cx u] obtain t where t: "next_event_time u = Some t"
    and ev: "complete_events cx (u\<lparr>st_now_ns := t\<rparr>) = Inr st'" by (cases "next_event_time u") auto
  have fu: "forward_inv u"
    by (rule steps_forward [OF refresh_transfer_rates_steps [OF u] inv sound])
  have evs: "transfer_event_ns (st_now_ns u) (snd x) = at_end_ns (snd x)"
    if "x \<in> set (st_active_fetch u) \<union> set (st_active_evict u)" for x
    using that fu by (auto simp: forward_inv_def timing_inv_def intro: due_event)
  have "work_left cx st' < work_left cx (u\<lparr>st_now_ns := t\<rparr>)"
    by (rule complete_events_work [OF ev])
      (use fu next_event_min [OF t] evs in \<open>auto simp: forward_inv_def keys_distinct_def\<close>)
  with refresh_rates_work [OF u] show ?thesis by (simp add: work_left_def)
qed


section \<open>The outer loop\<close>

lemma event_loop_total:
  assumes "forward_inv st" and sound: "sound_context cx"
  shows "\<exists>r. event_loop cx st = Some r"
  using assms(1)
proof (induction "work_left cx st" arbitrary: st rule: less_induct)
  case less
  have devices: "set (map fst (cx_device_config cx)) = set (device_ids cx)"
    using sound by (simp add: sound_context_def)
  show ?case
  proof (cases "has_pending_work cx st")
    case False
    then show ?thesis by (subst event_loop.simps) simp
  next
    case pending: True
    obtain r where r: "settle cx st = Some r"
      and work: "\<And>u. r = Inr u \<Longrightarrow> work_left cx u \<le> work_left cx st"
      using settle_total [OF devices] by blast
    show ?thesis
    proof (cases r)
      case (Inl e)
      with pending r show ?thesis by (subst event_loop.simps) simp
    next
      case (Inr u)
      have fu: "forward_inv u"
        using settle_steps [OF r, of u] Inr steps_forward [OF _ less.prems sound] by simp
      show ?thesis
      proof (cases "has_pending_work cx u")
        case False
        with pending r Inr show ?thesis by (subst event_loop.simps) simp
      next
        case True
        show ?thesis
        proof (cases "advance cx u")
          case (Inl e)
          with pending r \<open>r = Inr u\<close> True show ?thesis by (subst event_loop.simps) simp
        next
          case (Inr v)
          have "work_left cx v < work_left cx st"
            using advance_work [OF Inr fu sound] work [OF \<open>r = Inr u\<close>] by simp
          moreover have "forward_inv v"
            using steps_forward [OF advance_steps [OF Inr] fu sound] fu by (simp add: forward_inv_def)
          ultimately obtain r' where "event_loop cx v = Some r'" using less.hyps by blast
          with pending r \<open>r = Inr u\<close> True Inr show ?thesis by (subst event_loop.simps) simp
        qed
      qed
    qed
  qed
qed

lemma initial_forward:
  assumes "initialize_memory cx (initial_state cx) = Inr st" and "sound_context cx"
  shows "forward_inv st"
  using initialize_memory_views [OF assms(1)] initial_sizes [OF assms]
  by (simp add: forward_inv_def timing_inv_def keys_distinct_def task_view_def lane_view_def
      initial_state_def)

lemma run_simulation_total:
  assumes "sound_context cx"
  shows "\<exists>r. run_simulation cx = Some r"
proof (cases "initialize_memory cx (initial_state cx)")
  case (Inl e)
  then show ?thesis by (simp add: run_simulation_def)
next
  case (Inr st)
  from event_loop_total [OF initial_forward [OF Inr assms] assms] Inr show ?thesis
    by (auto simp: run_simulation_def)
qed

end
