(* ===== verification/Simulator_Intervals.thy ===== *)
theory Simulator_Intervals
  imports Simulator_Termination
begin

text \<open>
  The timing of the tasks of a run: each selected task runs exactly once, for the runtime of
  its profile, after the tasks it depends on and after the earlier tasks of its lane.
\<close>

section \<open>What must have ended before a task starts\<close>

definition lane_before :: "sim_context \<Rightarrow> task_spec \<Rightarrow> task_spec \<Rightarrow> bool" where
  "lane_before cx p t \<longleftrightarrow> resource_key p = resource_key t
     \<and> (\<exists>xs ys zs. cx_tasks cx = xs @ p # ys @ t # zs)"

definition precedes :: "sim_context \<Rightarrow> string \<Rightarrow> task_spec \<Rightarrow> bool" where
  "precedes cx d t \<longleftrightarrow> d \<in> set (tk_dependencies t) \<or> (\<exists>p. lane_before cx p t \<and> tk_task_id p = d)"

definition ended_by :: "sim_state \<Rightarrow> int \<Rightarrow> string \<Rightarrow> bool" where
  "ended_by st time d \<longleftrightarrow> (\<exists>e. st_completed st d = Some e \<and> e \<le> time)"

definition sound_tasks :: "sim_context \<Rightarrow> bool" where
  "sound_tasks cx \<longleftrightarrow> distinct (map tk_task_id (cx_tasks cx))"

lemma first_on_lane_earlier:
  "first_on_lane st key task_id (xs @ rest) \<Longrightarrow> task_id \<notin> tk_task_id ` set xs \<Longrightarrow> p \<in> set xs
    \<Longrightarrow> resource_key p = key \<Longrightarrow> tk_task_id p \<notin> set (st_unlaunched st)"
proof (induction xs)
  case Nil
  then show ?case by simp
next
  case (Cons x xs)
  then show ?case by (auto split: if_splits)
qed

lemma first_unlaunched_earlier:
  assumes "first_unlaunched_on_lane cx st t" and "lane_before cx p t" and "sound_tasks cx"
  shows "tk_task_id p \<notin> set (st_unlaunched st) \<and> p \<in> set (cx_tasks cx)"
proof -
  from assms(2) obtain xs ys zs where split: "cx_tasks cx = (xs @ p # ys) @ t # zs"
    and key: "resource_key p = resource_key t" by (auto simp: lane_before_def)
  from assms(3) split have "tk_task_id t \<notin> tk_task_id ` set (xs @ p # ys)"
    by (auto simp: sound_tasks_def)
  with first_on_lane_earlier [of st "resource_key t" "tk_task_id t" "xs @ p # ys" "t # zs" p]
    assms(1) split key show ?thesis by (auto simp: first_unlaunched_on_lane_def)
qed


section \<open>The invariant\<close>

text \<open>A launch, under way or finished: the task with its ready, start and end times.\<close>

definition launch_ok :: "sim_context \<Rightarrow> sim_state \<Rightarrow> task_spec \<Rightarrow> int \<Rightarrow> int \<Rightarrow> int \<Rightarrow> bool" where
  "launch_ok cx st t ready start end_ns \<longleftrightarrow>
     t \<in> set (cx_tasks cx) \<and> 0 \<le> ready \<and> ready \<le> start \<and> start \<le> st_now_ns st
     \<and> (\<exists>p. cx_profile_by_id cx (tk_profile_id t) = Some p \<and> end_ns = start + pf_runtime_ns p)
     \<and> (\<forall>d \<in> set (tk_dependencies t). ended_by st ready d)
     \<and> (\<forall>d. precedes cx d t \<longrightarrow> ended_by st start d)"

definition active_ok :: "sim_context \<Rightarrow> sim_state \<Rightarrow> lane_key \<times> active_task \<Rightarrow> bool" where
  "active_ok cx st x \<longleftrightarrow> fst x = resource_key (ak_task (snd x))
     \<and> tk_task_id (ak_task (snd x)) \<notin> set (st_unlaunched st)
     \<and> tk_task_id (ak_task (snd x)) \<notin> dom (st_completed st)
     \<and> launch_ok cx st (ak_task (snd x)) (ak_ready_ns (snd x)) (ak_start_ns (snd x)) (ak_end_ns (snd x))"

definition interval_ok :: "sim_context \<Rightarrow> sim_state \<Rightarrow> task_interval \<Rightarrow> bool" where
  "interval_ok cx st i \<longleftrightarrow> (\<exists>t. tk_task_id t = ti_task_id i
     \<and> resource_key t = (ti_device_id i, ti_resource_kind i, ti_resource_lane i)
     \<and> launch_ok cx st t (ti_ready_ns i) (ti_start_ns i) (ti_end_ns i)
     \<and> st_completed st (tk_task_id t) = Some (ti_end_ns i))"

definition wait_ok :: "sim_context \<Rightarrow> sim_state \<Rightarrow> bool" where
  "wait_ok cx st \<longleftrightarrow> (\<forall>t \<in> set (cx_tasks cx). \<forall>w r. st_task_waits st (tk_task_id t) = Some w
     \<longrightarrow> tw_ready_ns w = Some r
     \<longrightarrow> 0 \<le> r \<and> r \<le> st_now_ns st \<and> (\<forall>d \<in> set (tk_dependencies t). ended_by st r d))"

definition tasks_inv :: "sim_context \<Rightarrow> sim_state \<Rightarrow> bool" where
  "tasks_inv cx st \<longleftrightarrow> 0 \<le> st_now_ns st
     \<and> set (st_unlaunched st) \<subseteq> tk_task_id ` set (cx_tasks cx)
     \<and> (\<forall>t \<in> set (cx_tasks cx). tk_task_id t \<in> set (st_unlaunched st) \<or> known (st_completed st) (tk_task_id t)
          \<or> (\<exists>x \<in> set (st_active_tasks st). ak_task (snd x) = t))
     \<and> (\<forall>d e. st_completed st d = Some e \<longrightarrow> e \<le> st_now_ns st \<and> d \<notin> set (st_unlaunched st))
     \<and> (\<forall>x \<in> set (st_active_tasks st). active_ok cx st x)
     \<and> (\<forall>i \<in> set (st_task_intervals st). interval_ok cx st i)
     \<and> ti_task_id ` set (st_task_intervals st) = dom (st_completed st)
     \<and> distinct (map ti_task_id (st_task_intervals st))
     \<and> wait_ok cx st"

definition grows :: "sim_state \<Rightarrow> sim_state \<Rightarrow> bool" where
  "grows st st' \<longleftrightarrow> st_now_ns st \<le> st_now_ns st'
     \<and> (\<forall>d e. st_completed st d = Some e \<longrightarrow> st_completed st' d = Some e)"

lemma ended_by_grows: "grows st st' \<Longrightarrow> ended_by st r d \<Longrightarrow> ended_by st' r d"
  by (auto simp: grows_def ended_by_def)

lemma launch_ok_grows: "grows st st' \<Longrightarrow> launch_ok cx st t r s e \<Longrightarrow> launch_ok cx st' t r s e"
  using ended_by_grows [of st st'] by (auto simp: launch_ok_def grows_def)

lemma interval_ok_grows: "grows st st' \<Longrightarrow> interval_ok cx st i \<Longrightarrow> interval_ok cx st' i"
  using launch_ok_grows [of st st' cx] by (auto simp: interval_ok_def grows_def)

lemma wait_ok_grows:
  assumes "grows st st'" and "st_task_waits st' = st_task_waits st" and "wait_ok cx st"
  shows "wait_ok cx st'"
proof -
  from assms(1) have "st_now_ns st \<le> st_now_ns st'" by (simp add: grows_def)
  with assms(2,3) ended_by_grows [OF assms(1)] show ?thesis
    unfolding wait_ok_def by (metis order_trans)
qed

definition timing_view where
  "timing_view st = (st_unlaunched st, st_completed st, st_task_intervals st, st_task_waits st,
     st_active_tasks st)"

lemma tasks_inv_later:
  assumes inv: "tasks_inv cx st" and "timing_view st' = timing_view st" and "st_now_ns st \<le> st_now_ns st'"
  shows "tasks_inv cx st'"
proof -
  from assms(2) have same: "st_unlaunched st' = st_unlaunched st" "st_completed st' = st_completed st"
    "st_task_intervals st' = st_task_intervals st" "st_task_waits st' = st_task_waits st"
    "st_active_tasks st' = st_active_tasks st" by (simp_all add: timing_view_def)
  have g: "grows st st'" using assms(3) same by (simp add: grows_def)
  have "active_ok cx st' x" if "active_ok cx st x" for x
    using that launch_ok_grows [OF g] by (simp add: active_ok_def same)
  moreover have "wait_ok cx st'"
    using wait_ok_grows [OF g same(4)] inv by (simp add: tasks_inv_def)
  ultimately show ?thesis
    using inv interval_ok_grows [OF g] assms(3)
    unfolding tasks_inv_def same by (fastforce intro: order_trans)
qed


section \<open>The steps keep it\<close>

lemma task_progress:
  assumes "tasks_inv cx st" and "t \<in> set (cx_tasks cx)"
  shows "tk_task_id t \<in> set (st_unlaunched st) \<or> known (st_completed st) (tk_task_id t)
    \<or> (\<exists>x \<in> set (st_active_tasks st). ak_task (snd x) = t)"
  using assms unfolding tasks_inv_def by (elim conjE) (rule bspec)

lemma known_deps_ended:
  assumes "tasks_inv cx st" and "known (st_completed st) d"
  shows "ended_by st (st_now_ns st) d"
  using assms by (auto simp: tasks_inv_def ended_by_def)

lemma completions_max:
  assumes "mapE (look m) ds = Inr xs"
  shows "\<forall>d \<in> set ds. \<exists>e. m d = Some e \<and> e \<le> max_or_zero xs"
proof -
  have le: "\<forall>x \<in> set ys. x \<le> max_or_zero ys" for ys :: "int list"
  proof (cases ys)
    case (Cons y zs)
    then have "max_or_zero ys = Max (set ys)"
      by (simp add: max_or_zero_def Max.set_eq_fold [symmetric])
    then show ?thesis by simp
  qed simp
  show ?thesis
  proof
    fix d
    assume "d \<in> set ds"
    then obtain i where "i < length ds" "d = ds ! i" by (auto simp: in_set_conv_nth)
    with mapE_nth [OF assms, of i] mapE_length [OF assms] le [of xs]
    show "\<exists>e. m d = Some e \<and> e \<le> max_or_zero xs" by (metis look_Inr_iff nth_mem)
  qed
qed

lemma completions_bounded:
  assumes "mapE (look m) ds = Inr xs" and "\<forall>d e. m d = Some e \<longrightarrow> e \<le> n" and "0 \<le> n"
  shows "max_or_zero xs \<le> n"
proof (cases xs)
  case Nil
  with assms(3) show ?thesis by (simp add: max_or_zero_def)
next
  case (Cons y ys)
  then have "max_or_zero xs = Max (set xs)"
    by (simp add: max_or_zero_def Max.set_eq_fold [symmetric])
  moreover have "x \<le> n" if "x \<in> set xs" for x
  proof -
    from that obtain i where "i < length xs" "x = xs ! i" by (auto simp: in_set_conv_nth)
    with mapE_nth [OF assms(1), of i] mapE_length [OF assms(1)] assms(2) show ?thesis
      by (metis look_Inr_iff)
  qed
  ultimately show ?thesis using Cons by simp
qed

lemma ready_time_ok:
  assumes inv: "tasks_inv cx st" and t: "t \<in> set (cx_tasks cx)"
    and wait: "st_task_waits st (tk_task_id t) = Some w"
    and comp: "mapE (look (st_completed st)) (tk_dependencies t) = Inr xs"
  shows "0 \<le> ready_time st w xs \<and> ready_time st w xs \<le> st_now_ns st
    \<and> (\<forall>d \<in> set (tk_dependencies t). ended_by st (ready_time st w xs) d)"
proof (cases "tw_ready_ns w")
  case None
  have "max_or_zero xs \<le> st_now_ns st"
    using inv by (intro completions_bounded [OF comp]) (auto simp: tasks_inv_def)
  with None completions_max [OF comp] inv show ?thesis
    by (fastforce simp: ready_time_def tasks_inv_def ended_by_def)
next
  case (Some r)
  with inv t wait show ?thesis by (auto simp: ready_time_def tasks_inv_def wait_ok_def)
qed

lemma same_task:
  "sound_tasks cx \<Longrightarrow> t \<in> set (cx_tasks cx) \<Longrightarrow> u \<in> set (cx_tasks cx) \<Longrightarrow> tk_task_id t = tk_task_id u
    \<Longrightarrow> t = u"
  by (auto simp: sound_tasks_def distinct_map dest: inj_onD)

lemma launch_tasks_inv:
  assumes run: "try_launch_task cx (c, st) task = Inr (c', st')" and t: "task \<in> set (cx_tasks cx)"
    and inv: "tasks_inv cx st" and sound: "sound_tasks cx"
  shows "tasks_inv cx st'"
  using run
proof (cases rule: try_launch_taskE)
  case (kept w)
  have "wait_ok cx st'"
    unfolding wait_ok_def
  proof (intro ballI allI impI)
    fix u y r
    assume u: "u \<in> set (cx_tasks cx)" and y: "st_task_waits st' (tk_task_id u) = Some y"
      and r: "tw_ready_ns y = Some r"
    from y kept have wy: "w (tk_task_id u) = Some y" by simp
    then have "tk_task_id u \<in> dom (st_task_waits st)" using kept(4) by auto
    then obtain y0 where y0: "st_task_waits st (tk_task_id u) = Some y0" by auto
    show "0 \<le> r \<and> r \<le> st_now_ns st' \<and> (\<forall>d \<in> set (tk_dependencies u). ended_by st' r d)"
    proof (cases "tw_ready_ns y = tw_ready_ns y0")
      case True
      with inv u y0 r show ?thesis
        by (auto simp: kept(2) tasks_inv_def wait_ok_def ended_by_def)
    next
      case False
      with kept(3) [OF wy] y0 obtain wait completions where "tk_task_id u = tk_task_id task"
        "st_task_waits st (tk_task_id u) = Some wait"
        "mapE (look (st_completed st)) (tk_dependencies task) = Inr completions"
        "r = ready_time st wait completions" using r by auto
      with ready_time_ok [OF inv t] same_task [OF sound u t] show ?thesis
        by (auto simp: kept(2) ended_by_def)
    qed
  qed
  moreover have "grows st st'" by (simp add: kept(2) grows_def)
  ultimately show ?thesis
    using inv launch_ok_grows [of st st' cx] interval_ok_grows [of st st' cx]
    by (simp add: kept(2) tasks_inv_def active_ok_def)
next
  case (launched wait w completions profile outs bytes used config)
  from launched(17) have "task_view st' = task_view (st\<lparr>st_task_waits := (st_task_waits st)
        (tk_task_id task \<mapsto> w),
      st_active_tasks := st_active_tasks st @ [(resource_key task,
        launched_task task profile outs (ready_time st wait completions) (st_now_ns st) w)],
      st_unlaunched := filter (\<lambda>t. t \<noteq> tk_task_id task) (st_unlaunched st)\<rparr>)"
    by (elim launch_taskE) (drule take_snapshot_views, simp add: task_view_def)
  then have v: "st_now_ns st' = st_now_ns st" "st_completed st' = st_completed st"
    "st_task_intervals st' = st_task_intervals st"
    "st_task_waits st' = (st_task_waits st)(tk_task_id task \<mapsto> w)"
    "st_active_tasks st' = st_active_tasks st @ [(resource_key task,
      launched_task task profile outs (ready_time st wait completions) (st_now_ns st) w)]"
    "st_unlaunched st' = filter (\<lambda>t. t \<noteq> tk_task_id task) (st_unlaunched st)"
    by (simp_all add: task_view_def)
  have g: "grows st st'" by (simp add: grows_def v)
  note ready = ready_time_ok [OF inv t launched(6,7)]
  have lane: "ended_by st (st_now_ns st) (tk_task_id p)" if "lane_before cx p task" for p
  proof -
    from first_unlaunched_earlier [OF launched(3) that sound]
    have p: "tk_task_id p \<notin> set (st_unlaunched st)" "p \<in> set (cx_tasks cx)" by auto
    have "ak_task (snd x) \<noteq> p" if "x \<in> set (st_active_tasks st)" for x
    proof
      assume "ak_task (snd x) = p"
      with that inv have "fst x = resource_key p" by (auto simp: tasks_inv_def active_ok_def)
      with \<open>lane_before cx p task\<close> have "fst x = resource_key task" by (simp add: lane_before_def)
      with that launched(4) show False by (force simp: map_of_eq_None_iff)
    qed
    with p task_progress [OF inv p(2)] have "known (st_completed st) (tk_task_id p)" by auto
    with known_deps_ended [OF inv] show ?thesis by simp
  qed
  have "launch_ok cx st task (ready_time st wait completions) (st_now_ns st)
      (st_now_ns st + pf_runtime_ns profile)"
    using ready t launched(11) lane known_deps_ended [OF inv] launched(5)
    by (auto simp: launch_ok_def precedes_def)
  then have ok: "launch_ok cx st' task (ready_time st wait completions) (st_now_ns st)
      (st_now_ns st + pf_runtime_ns profile)" by (rule launch_ok_grows [OF g])
  have fresh: "tk_task_id task \<notin> dom (st_completed st)"
    using launched(2) inv by (auto simp: tasks_inv_def)
  have act: "active_ok cx st' x" if "x \<in> set (st_active_tasks st')" for x
  proof -
    from that v(5) consider "x \<in> set (st_active_tasks st)"
      | "x = (resource_key task, launched_task task profile outs (ready_time st wait completions)
          (st_now_ns st) w)" by auto
    then show ?thesis
    proof cases
      case 1
      with inv have x: "active_ok cx st x" by (simp add: tasks_inv_def)
      then have "launch_ok cx st' (ak_task (snd x)) (ak_ready_ns (snd x)) (ak_start_ns (snd x))
          (ak_end_ns (snd x))" by (intro launch_ok_grows [OF g]) (simp add: active_ok_def)
      with x show ?thesis by (simp add: active_ok_def v)
    next
      case 2
      with ok fresh show ?thesis by (simp add: active_ok_def v)
    qed
  qed
  have "wait_ok cx st'"
    unfolding wait_ok_def
  proof (intro ballI allI impI)
    fix u y r
    assume u: "u \<in> set (cx_tasks cx)" and y: "st_task_waits st' (tk_task_id u) = Some y"
      and r: "tw_ready_ns y = Some r"
    show "0 \<le> r \<and> r \<le> st_now_ns st' \<and> (\<forall>d \<in> set (tk_dependencies u). ended_by st' r d)"
    proof (cases "u = task")
      case True
      with y r ready launched(8) show ?thesis by (auto simp: v ended_by_def)
    next
      case False
      with same_task [OF sound u t] y u r inv show ?thesis
        by (auto simp: v tasks_inv_def wait_ok_def ended_by_def split: if_splits)
    qed
  qed
  moreover have "tk_task_id u \<in> set (st_unlaunched st') \<or> known (st_completed st') (tk_task_id u)
      \<or> (\<exists>x \<in> set (st_active_tasks st'). ak_task (snd x) = u)" if "u \<in> set (cx_tasks cx)" for u
  proof (cases "u = task")
    case True
    then show ?thesis by (simp add: v)
  next
    case False
    with same_task [OF sound that t] that inv show ?thesis
      by (auto simp: v tasks_inv_def)
  qed
  ultimately show ?thesis
    using inv act interval_ok_grows [OF g] unfolding tasks_inv_def by (auto simp: v)
qed


lemma finished_interval_simps [simp]:
  "ti_task_id (finished_interval a) = tk_task_id (ak_task a)"
  "ti_ready_ns (finished_interval a) = ak_ready_ns a"
  "ti_start_ns (finished_interval a) = ak_start_ns a"
  "ti_end_ns (finished_interval a) = ak_end_ns a"
  by (simp_all add: finished_interval_def)

lemma finished_interval_key:
  "resource_key (ak_task a) = (ti_device_id (finished_interval a),
     ti_resource_kind (finished_interval a), ti_resource_lane (finished_interval a))"
  by (simp add: finished_interval_def resource_key_def)

lemma one_active_per_lane:
  assumes "keys_distinct st" and "x \<in> set (st_active_tasks st)" and "(key, a) \<in> set (st_active_tasks st)"
    and "fst x = key"
  shows "x = (key, a)"
proof -
  from assms(1) have "distinct (map fst (st_active_tasks st))" by (simp add: keys_distinct_def)
  moreover from assms(2,4) have "(key, snd x) \<in> set (st_active_tasks st)" by (metis prod.collapse)
  ultimately have "snd x = a" using assms(3) by (rule eq_key_imp_eq_value)
  with assms(4) show ?thesis by (cases x) simp
qed

lemma finish_tasks_inv:
  assumes run: "finish_task cx key st = Inr st'"
    and active: "map_of (st_active_tasks st) key = Some active" and now: "ak_end_ns active = st_now_ns st"
    and inv: "tasks_inv cx st" and kd: "keys_distinct st" and sound: "sound_tasks cx"
  shows "tasks_inv cx st'"
proof -
  let ?t = "ak_task active"
  from run have "task_view st' = task_view (st\<lparr>st_active_tasks := drop_key key (st_active_tasks st),
      st_completed := (st_completed st)(tk_task_id ?t \<mapsto> st_now_ns st),
      st_task_intervals := st_task_intervals st @ [finished_interval active]\<rparr>)"
    by (elim finish_taskE [OF _ active]) (drule take_snapshot_views, simp add: task_view_def)
  then have v: "st_now_ns st' = st_now_ns st" "st_unlaunched st' = st_unlaunched st"
    "st_completed st' = (st_completed st)(tk_task_id ?t \<mapsto> st_now_ns st)"
    "st_task_intervals st' = st_task_intervals st @ [finished_interval active]"
    "st_task_waits st' = st_task_waits st"
    "st_active_tasks st' = drop_key key (st_active_tasks st)"
    by (simp_all add: task_view_def)
  from active have mem: "(key, active) \<in> set (st_active_tasks st)" by (rule map_of_SomeD)
  with inv have ok: "active_ok cx st (key, active)" by (simp add: tasks_inv_def)
  then have fresh: "tk_task_id ?t \<notin> dom (st_completed st)" "tk_task_id ?t \<notin> set (st_unlaunched st)"
    and key: "key = resource_key ?t" and t: "?t \<in> set (cx_tasks cx)"
    by (simp_all add: active_ok_def launch_ok_def)
  have g: "grows st st'" using fresh by (auto simp: grows_def v)
  have only: "x = (key, active)" if "x \<in> set (st_active_tasks st)" "ak_task (snd x) = ?t" for x
  proof -
    from that inv have "fst x = key" by (auto simp: tasks_inv_def active_ok_def key)
    then show ?thesis by (rule one_active_per_lane [OF kd that(1) mem])
  qed
  have act: "active_ok cx st' x" if "x \<in> set (st_active_tasks st')" for x
  proof -
    from that have x: "x \<in> set (st_active_tasks st)" "fst x \<noteq> key" by (simp_all add: v)
    with inv have okx: "active_ok cx st x" by (simp add: tasks_inv_def)
    then have "ak_task (snd x) \<noteq> ?t" using only [OF x(1)] x(2) by auto
    moreover have "ak_task (snd x) \<in> set (cx_tasks cx)"
      using okx by (simp add: active_ok_def launch_ok_def)
    ultimately have "tk_task_id (ak_task (snd x)) \<noteq> tk_task_id ?t"
      using same_task [OF sound _ t] by blast
    moreover have "launch_ok cx st' (ak_task (snd x)) (ak_ready_ns (snd x)) (ak_start_ns (snd x))
        (ak_end_ns (snd x))"
      using okx by (intro launch_ok_grows [OF g]) (simp add: active_ok_def)
    ultimately show ?thesis using okx by (simp add: active_ok_def v)
  qed
  have int: "interval_ok cx st' i" if "i \<in> set (st_task_intervals st')" for i
  proof -
    from that consider "i \<in> set (st_task_intervals st)" | "i = finished_interval active"
      by (auto simp: v)
    then show ?thesis
    proof cases
      case 1
      with inv interval_ok_grows [OF g] show ?thesis by (simp add: tasks_inv_def)
    next
      case 2
      have "launch_ok cx st' ?t (ak_ready_ns active) (ak_start_ns active) (ak_end_ns active)"
        using ok by (intro launch_ok_grows [OF g]) (simp add: active_ok_def)
      with now show ?thesis
        unfolding interval_ok_def by (intro exI [of _ ?t]) (simp add: 2 v finished_interval_key)
    qed
  qed
  have prog: "tk_task_id u \<in> set (st_unlaunched st') \<or> known (st_completed st') (tk_task_id u)
      \<or> (\<exists>x \<in> set (st_active_tasks st'). ak_task (snd x) = u)" if "u \<in> set (cx_tasks cx)" for u
  proof (cases "u = ?t")
    case True
    then show ?thesis by (simp add: v)
  next
    case False
    have "fst x \<noteq> key" if "x \<in> set (st_active_tasks st)" "ak_task (snd x) = u" for x
    proof
      assume "fst x = key"
      with that(1) mem have "x = (key, active)" by (intro one_active_per_lane [OF kd])
      with that(2) False show False by simp
    qed
    with task_progress [OF inv that] show ?thesis by (auto simp: v)
  qed
  have "wait_ok cx st'" using wait_ok_grows [OF g v(5)] inv by (simp add: tasks_inv_def)
  moreover have "ti_task_id ` set (st_task_intervals st') = dom (st_completed st')"
    using inv by (auto simp: v tasks_inv_def)
  moreover have "distinct (map ti_task_id (st_task_intervals st'))"
    using inv fresh by (auto simp: v tasks_inv_def)
  ultimately show ?thesis
    using inv act int prog fresh unfolding tasks_inv_def by (auto simp: v)
qed

lemma start_tasks_inv:
  assumes "try_start_direction cx d direction st = Inr (c, st')" and "tasks_inv cx st"
  shows "tasks_inv cx st'"
proof -
  from start_views [OF assms(1), of FETCH_LANE] have "task_view st' = task_view st" by simp
  then show ?thesis
    by (intro tasks_inv_later [OF assms(2)]) (simp_all add: task_view_def timing_view_def)
qed

lemma step_tasks_inv:
  assumes "sim_step cx st st'" and inv: "tasks_inv cx st" and fwd: "forward_inv st"
    and sound: "sound_context cx" "sound_tasks cx"
  shows "tasks_inv cx st'"
  using assms(1)
proof (cases rule: sim_step.cases)
  case (start d direction c)
  show ?thesis by (rule start_tasks_inv [OF start(1) inv])
next
  case (launch c task c')
  show ?thesis by (rule launch_tasks_inv [OF launch inv sound(2)])
next
  case (submit c)
  from submit_action_views [OF submit(2)] show ?thesis
    by (intro tasks_inv_later [OF inv]) (simp_all add: task_view_def timing_view_def)
next
  case (refresh d config)
  from refresh(2) show ?thesis
    by (elim refresh_device_ratesE) (auto intro!: tasks_inv_later [OF inv] simp: timing_view_def)
next
  case (tick t)
  have "st_now_ns st \<le> t" using tick_timing [OF tick(2)] fwd by (simp add: forward_inv_def)
  with tick(1) show ?thesis by (auto intro!: tasks_inv_later [OF inv] simp: timing_view_def)
next
  case (land direction d active)
  from complete_transfer_views [OF land(3,1)] show ?thesis
    by (intro tasks_inv_later [OF inv]) (simp_all add: task_view_def timing_view_def)
next
  case (finish key active)
  show ?thesis
    by (rule finish_tasks_inv [OF finish(3,1,2) inv _ sound(2)]) (use fwd in \<open>simp add: forward_inv_def\<close>)
qed

lemma steps_tasks_inv:
  assumes "sim_steps cx st st'" and "tasks_inv cx st" and "forward_inv st"
    and "sound_context cx" and "sound_tasks cx"
  shows "tasks_inv cx st' \<and> forward_inv st'"
  using assms(1)
proof (rule steps_invariant [where P = "\<lambda>st. tasks_inv cx st \<and> forward_inv st"])
  fix t u
  assume "tasks_inv cx t \<and> forward_inv t" "sim_step cx t u"
  with step_tasks_inv [of cx t u] step_forward [of cx t u] assms(4,5)
  show "tasks_inv cx u \<and> forward_inv u" by blast
qed (use assms(2,3) in simp)

lemma initial_tasks_inv:
  assumes "initialize_memory cx (initial_state cx) = Inr st"
  shows "tasks_inv cx st"
proof -
  have "task_view st = task_view (initial_state cx)"
    using initialize_memory_views [OF assms] by simp
  then have v: "st_now_ns st = 0" "st_unlaunched st = map tk_task_id (cx_tasks cx)"
    "st_completed st = Map.empty" "st_task_intervals st = []" "st_active_tasks st = []"
    "st_task_waits st = dict_of (map (\<lambda>t. (tk_task_id t, \<lparr>tw_ready_ns = None, tw_reasons = []\<rparr>))
        (cx_tasks cx))"
    by (simp_all add: task_view_def initial_state_def)
  show ?thesis
    by (auto simp: tasks_inv_def v wait_ok_def dest!: dict_of_SomeD)
qed


section \<open>The intervals of a result\<close>

lemma event_loop_done:
  assumes "event_loop cx st = Some r"
  shows "r = Inr st' \<longrightarrow> \<not> has_pending_work cx st'"
proof (rule event_loop.raw_induct [where P = "\<lambda>cx st r. r = Inr st' \<longrightarrow> \<not> has_pending_work cx st'",
    OF _ assms])
  fix f cx st r
  assume IH: "\<And>cx st r. f cx st = Some r \<Longrightarrow> r = Inr st' \<longrightarrow> \<not> has_pending_work cx st'"
    and eq: "(if \<not> has_pending_work cx st then Some (Inr st)
      else Option.bind (settle cx st) (\<lambda>settled. case settled of Inl e \<Rightarrow> Some (Inl e)
        | Inr st \<Rightarrow> if \<not> has_pending_work cx st then Some (Inr st)
            else (case advance cx st of Inl e \<Rightarrow> Some (Inl e) | Inr st \<Rightarrow> f cx st))) = Some r"
  show "r = Inr st' \<longrightarrow> \<not> has_pending_work cx st'"
  proof (cases "has_pending_work cx st")
    case False
    with eq show ?thesis by auto
  next
    case True
    with eq IH show ?thesis
      by (cases "settle cx st") (auto split: sum.splits if_splits)
  qed
qed

lemma lane_before_nth:
  assumes "j < i" "i < length (cx_tasks cx)"
    "resource_key (cx_tasks cx ! j) = resource_key (cx_tasks cx ! i)"
  shows "lane_before cx (cx_tasks cx ! j) (cx_tasks cx ! i)"
proof -
  let ?ts = "cx_tasks cx"
  have "?ts = take j ?ts @ ?ts ! j # drop (Suc j) ?ts" using assms by (simp add: id_take_nth_drop)
  moreover have "drop (Suc j) ?ts = take (i - Suc j) (drop (Suc j) ?ts) @ ?ts ! i # drop (Suc i) ?ts"
    using assms id_take_nth_drop [of "i - Suc j" "drop (Suc j) ?ts"] by simp
  ultimately show ?thesis using assms(3) unfolding lane_before_def by metis
qed

text \<open>
  The intervals \<open>ivs\<close> of the selected tasks, position by position: lane, order of the times,
  runtime, dependencies and earlier tasks of the same lane.
\<close>

definition intervals_of_tasks ::
    "(string \<rightharpoonup> task_profile) \<Rightarrow> task_spec list \<Rightarrow> task_interval list \<Rightarrow> int \<Rightarrow> bool" where
  "intervals_of_tasks table tasks ivs makespan \<longleftrightarrow>
     map ti_task_id ivs = map tk_task_id tasks
     \<and> (\<forall>i < length tasks.
          resource_key (tasks ! i)
            = (ti_device_id (ivs ! i), ti_resource_kind (ivs ! i), ti_resource_lane (ivs ! i))
          \<and> 0 \<le> ti_ready_ns (ivs ! i) \<and> ti_ready_ns (ivs ! i) \<le> ti_start_ns (ivs ! i)
          \<and> ti_end_ns (ivs ! i) \<le> makespan
          \<and> (\<exists>p. table (tk_profile_id (tasks ! i)) = Some p
               \<and> ti_end_ns (ivs ! i) = ti_start_ns (ivs ! i) + pf_runtime_ns p)
          \<and> (\<forall>j < length tasks. tk_task_id (tasks ! j) \<in> set (tk_dependencies (tasks ! i))
               \<longrightarrow> ti_end_ns (ivs ! j) \<le> ti_ready_ns (ivs ! i))
          \<and> (\<forall>j < i. resource_key (tasks ! j) = resource_key (tasks ! i)
               \<longrightarrow> ti_end_ns (ivs ! j) \<le> ti_start_ns (ivs ! i)))"

lemma sort_key_indices:
  assumes "distinct (map fst xs)" and "fst ` set xs = {0..<n}"
  shows "map fst (sort_key fst xs) = [0..<n]"
proof -
  have "sorted (map fst (sort_key fst xs))" by simp
  moreover have "distinct (map fst (sort_key fst xs))"
    using assms(1) by (simp add: distinct_map)
  moreover have "set (map fst (sort_key fst xs)) = set [0..<n]" using assms(2) by simp
  ultimately show ?thesis by (intro sorted_distinct_set_unique) simp_all
qed

lemma ordered_intervals_ids:
  assumes "ordered_task_intervals cx st = Inr ivs" and "sound_tasks cx"
    and order: "cx_task_order cx = dict_of (map (\<lambda>(index, t). (tk_task_id t, index)) (enumerate 0 (cx_tasks cx)))"
    and "ti_task_id ` set (st_task_intervals st) = tk_task_id ` set (cx_tasks cx)"
    and "distinct (map ti_task_id (st_task_intervals st))"
  shows "map ti_task_id ivs = map tk_task_id (cx_tasks cx) \<and> set ivs = set (st_task_intervals st)"
proof -
  let ?ts = "cx_tasks cx" and ?is = "st_task_intervals st"
  let ?key = "\<lambda>i. bindE (look (cx_task_order cx) (ti_task_id i)) (\<lambda>order. Inr (order, i))"
  from assms(1) obtain keyed where keyed: "mapE ?key ?is = Inr keyed"
    and ivs: "ivs = map snd (sort_key fst keyed)" by (auto simp: ordered_task_intervals_def)
  have len: "length keyed = length ?is" using keyed by (rule mapE_length)
  have at: "snd (keyed ! k) = ?is ! k \<and> cx_task_order cx (ti_task_id (?is ! k)) = Some (fst (keyed ! k))"
    if "k < length ?is" for k
    using mapE_nth [OF keyed that] by (cases "keyed ! k") (auto simp: bindE_Inr_iff)
  have snds: "map snd keyed = ?is" using at len by (intro nth_equalityI) auto
  have rank: "n < length ?ts \<and> tk_task_id (?ts ! n) = d" if "cx_task_order cx d = Some n" for d n
    using that by (auto simp: order in_set_enumerate_eq dest!: dict_of_SomeD)
  have pair: "fst x < length ?ts \<and> tk_task_id (?ts ! fst x) = ti_task_id (snd x)" if "x \<in> set keyed" for x
  proof -
    from that obtain k where "k < length ?is" "x = keyed ! k" using len by (auto simp: in_set_conv_nth)
    with at [of k] rank show ?thesis by auto
  qed
  have ids: "distinct (map ti_task_id (map snd keyed))" using assms(5) by (simp only: snds)
  then have dist: "distinct (map fst keyed)"
    using pair by (simp add: distinct_map inj_on_def) metis
  have cover: "fst ` set keyed = {0..<length ?ts}"
  proof
    show "fst ` set keyed \<subseteq> {0..<length ?ts}" using pair by auto
    show "{0..<length ?ts} \<subseteq> fst ` set keyed"
    proof
      fix n
      assume "n \<in> {0..<length ?ts}"
      then have n: "n < length ?ts" by simp
      then have "tk_task_id (?ts ! n) \<in> ti_task_id ` set (map snd keyed)"
        using assms(4) by (simp only: snds) simp
      then obtain x where x: "x \<in> set keyed" "ti_task_id (snd x) = tk_task_id (?ts ! n)" by auto
      with pair [OF x(1)] have same: "map tk_task_id ?ts ! fst x = map tk_task_id ?ts ! n"
        "fst x < length ?ts" using n by simp_all
      with assms(2) n have "fst x = n"
        by (simp add: sound_tasks_def nth_eq_iff_index_eq [of "map tk_task_id ?ts"] del: nth_map)
      with x(1) show "n \<in> fst ` set keyed" by auto
    qed
  qed
  note fsts = sort_key_indices [OF dist cover]
  let ?s = "sort_key fst keyed"
  have "length ?s = length ?ts" using arg_cong [OF fsts, of length] by simp
  moreover have "ti_task_id (snd (?s ! k)) = tk_task_id (?ts ! k)" if "k < length ?ts" for k
  proof -
    from that calculation have k: "k < length ?s" by simp
    have "fst (?s ! k) = k" using arg_cong [OF fsts, of "\<lambda>l. l ! k"] k that by simp
    moreover have "?s ! k \<in> set keyed" using nth_mem [OF k] by simp
    ultimately show ?thesis using pair [of "?s ! k"] by simp
  qed
  ultimately have "map ti_task_id ivs = map tk_task_id ?ts"
    by (intro nth_equalityI) (simp_all add: ivs)
  moreover have "set ivs = set ?is" unfolding snds [symmetric] by (simp add: ivs)
  ultimately show ?thesis by simp
qed

lemma run_task_intervals:
  assumes "run_simulation cx = Some (Inr result)" and ctx: "sound_context cx" "sound_tasks cx"
    and order: "cx_task_order cx = dict_of (map (\<lambda>(index, t). (tk_task_id t, index)) (enumerate 0 (cx_tasks cx)))"
  shows "intervals_of_tasks (cx_profile_by_id cx) (cx_tasks cx) (sr_task_intervals result) (sr_makespan_ns result)"
  using assms(1)
proof (rule run_simulationE)
  fix st st'
  let ?ts = "cx_tasks cx" and ?ivs = "sr_task_intervals result"
  assume init: "initialize_memory cx (initial_state cx) = Inr st" and steps: "sim_steps cx st st'"
    and loop: "event_loop cx st = Some (Inr st')" and res: "simulation_result_of cx st' = Inr result"
  have inv: "tasks_inv cx st'"
    using steps_tasks_inv [OF steps initial_tasks_inv [OF init] initial_forward [OF init ctx(1)] ctx]
    by simp
  have "\<not> has_pending_work cx st'" using event_loop_done [OF loop, of st'] by simp
  then have idle: "st_unlaunched st' = []" "st_active_tasks st' = []"
    by (simp_all add: has_pending_work_def)
  from res have ordered: "ordered_task_intervals cx st' = Inr ?ivs"
    and makespan: "sr_makespan_ns result = st_now_ns st'"
    by (auto simp: simulation_result_of_def bindE_Inr_iff)
  have each: "interval_ok cx st' i" if "i \<in> set (st_task_intervals st')" for i
    using inv that by (simp add: tasks_inv_def)
  have "ti_task_id ` set (st_task_intervals st') = tk_task_id ` set ?ts"
  proof
    show "tk_task_id ` set ?ts \<subseteq> ti_task_id ` set (st_task_intervals st')"
      using task_progress [OF inv] idle inv by (fastforce simp: tasks_inv_def)
    show "ti_task_id ` set (st_task_intervals st') \<subseteq> tk_task_id ` set ?ts"
    proof
      fix d
      assume "d \<in> ti_task_id ` set (st_task_intervals st')"
      then obtain i where "i \<in> set (st_task_intervals st')" "d = ti_task_id i" by blast
      with each [of i] show "d \<in> tk_task_id ` set ?ts"
        unfolding interval_ok_def launch_ok_def by (metis imageI)
    qed
  qed
  moreover have "distinct (map ti_task_id (st_task_intervals st'))" using inv by (simp add: tasks_inv_def)
  ultimately have ids: "map ti_task_id ?ivs = map tk_task_id ?ts" "set ?ivs = set (st_task_intervals st')"
    using ordered_intervals_ids [OF ordered ctx(2) order] by simp_all
  have len: "length ?ivs = length ?ts" using arg_cong [OF ids(1), of length] by simp
  have ok: "resource_key (?ts ! i) = (ti_device_id (?ivs ! i), ti_resource_kind (?ivs ! i), ti_resource_lane (?ivs ! i))
      \<and> launch_ok cx st' (?ts ! i) (ti_ready_ns (?ivs ! i)) (ti_start_ns (?ivs ! i)) (ti_end_ns (?ivs ! i))
      \<and> st_completed st' (tk_task_id (?ts ! i)) = Some (ti_end_ns (?ivs ! i))" if i: "i < length ?ts" for i
  proof -
    from i len have "?ivs ! i \<in> set ?ivs" by simp
    with each ids(2) obtain t where t: "tk_task_id t = ti_task_id (?ivs ! i)"
      "resource_key t = (ti_device_id (?ivs ! i), ti_resource_kind (?ivs ! i), ti_resource_lane (?ivs ! i))"
      "launch_ok cx st' t (ti_ready_ns (?ivs ! i)) (ti_start_ns (?ivs ! i)) (ti_end_ns (?ivs ! i))"
      "st_completed st' (tk_task_id t) = Some (ti_end_ns (?ivs ! i))"
      unfolding interval_ok_def by blast
    have "ti_task_id (?ivs ! i) = tk_task_id (?ts ! i)"
      using arg_cong [OF ids(1), of "\<lambda>l. l ! i"] i len by simp
    with t same_task [OF ctx(2), of t "?ts ! i"] i have "t = ?ts ! i" by (simp add: launch_ok_def)
    with t show ?thesis by simp
  qed
  have ended: "ti_end_ns (?ivs ! j) \<le> time" if "j < length ?ts" "ended_by st' time (tk_task_id (?ts ! j))" for j time
    using ok [OF that(1)] that(2) by (auto simp: ended_by_def)
  have now: "ti_end_ns (?ivs ! i) \<le> st_now_ns st'" if "i < length ?ts" for i
    using ok [OF that] inv by (auto simp: tasks_inv_def)
  have lane: "ti_end_ns (?ivs ! j) \<le> ti_start_ns (?ivs ! i)"
    if "i < length ?ts" "j < i" "resource_key (?ts ! j) = resource_key (?ts ! i)" for i j
    using lane_before_nth [OF that(2,1,3)] ok [OF that(1)] that ended [of j]
    by (auto simp: launch_ok_def precedes_def)
  have deps: "ti_end_ns (?ivs ! j) \<le> ti_ready_ns (?ivs ! i)"
    if "i < length ?ts" "j < length ?ts" "tk_task_id (?ts ! j) \<in> set (tk_dependencies (?ts ! i))" for i j
    using ok [OF that(1)] that ended [OF that(2)] by (auto simp: launch_ok_def)
  show ?thesis
    unfolding intervals_of_tasks_def makespan
    using ids(1) ok now lane deps by (auto simp: launch_ok_def)
qed

end
