(* ===== verification/Simulator_Lanes.thy ===== *)
theory Simulator_Lanes
  imports Simulator_Intervals "HOL-Library.Sublist"
begin

text \<open>
  The copy lanes of a run: each direction of each device carries one copy at a time, in the order
  the schedule submitted them, and carries every fetch and eviction of the schedule.
\<close>

section \<open>The contents of a lane\<close>

type_synonym copy_key = "string \<times> string \<times> memory_action_kind"

definition pending_key :: "pending_transfer \<Rightarrow> int \<times> copy_key" where
  "pending_key p = (pt_sequence p, pt_alias_group_id p, pt_trigger_task_id p, pt_kind p)"

definition interval_key :: "transfer_interval \<Rightarrow> int \<times> copy_key" where
  "interval_key i = (tr_sequence i, tr_alias_group_id i, tr_trigger_task_id i, tr_kind i)"

definition action_key :: "memory_action \<Rightarrow> copy_key" where
  "action_key a = (ma_alias_group_id a, ma_trigger_task_id a, ma_kind a)"

definition on_lane :: "transfer_direction \<Rightarrow> string \<Rightarrow> transfer_interval \<Rightarrow> bool" where
  "on_lane l d i \<longleftrightarrow> tr_device_id i = d \<and> tr_direction i = l"

text \<open>
  What a lane holds: the finished intervals, the copy under way with its start, the queue and the
  next sequence number. A queued copy is its key and the time it became ready.
\<close>

record lane =
  ln_done :: "transfer_interval list"
  ln_running :: "((int \<times> copy_key) \<times> int \<times> int) option"
  ln_queue :: "((int \<times> copy_key) \<times> int) list"
  ln_next :: int

definition queue_of :: "(string \<rightharpoonup> pending_transfer list) \<Rightarrow> string \<Rightarrow> pending_transfer list" where
  "queue_of queues d = (case queues d of None \<Rightarrow> [] | Some q \<Rightarrow> q)"

definition lane_of :: "transfer_direction \<Rightarrow> string \<Rightarrow> sim_state \<Rightarrow> lane" where
  "lane_of l d st =
     \<lparr>ln_done = filter (on_lane l d) (st_transfer_intervals st),
      ln_running = map_option (\<lambda>a. (pending_key (at_pending a), pt_ready_ns (at_pending a), at_start_ns a))
        (map_of (active_table l st) d),
      ln_queue = map (\<lambda>p. (pending_key p, pt_ready_ns p)) (queue_of (pending_queue l st) d),
      ln_next = (case st_transfer_sequence st (d, l) of None \<Rightarrow> 0 | Some n \<Rightarrow> n)\<rparr>"

definition lane_log :: "lane \<Rightarrow> (int \<times> copy_key) list" where
  "lane_log x = map interval_key (ln_done x)
     @ (case ln_running x of None \<Rightarrow> [] | Some r \<Rightarrow> [fst r]) @ map fst (ln_queue x)"

section \<open>What the operations do to a lane\<close>

definition copy_view where
  "copy_view st = (st_transfer_intervals st, st_active_fetch st, st_active_evict st,
     st_pending_fetch st, st_pending_evict st, st_transfer_sequence st)"

lemma lane_of_view: "copy_view st' = copy_view st \<Longrightarrow> lane_of l d st' = lane_of l d st"
  by (cases l) (simp_all add: copy_view_def lane_of_def lane_simps)

lemma take_snapshot_copies: "take_snapshot cx st = Inr st' \<Longrightarrow> copy_view st' = copy_view st
    \<and> st_deferred_ready_ns st' = st_deferred_ready_ns st \<and> st_next_action_index st' = st_next_action_index st
    \<and> st_now_ns st' = st_now_ns st"
  by (elim take_snapshotE) (simp add: copy_view_def)

lemma action_submitted_copies:
  "action_submitted cx d delta st = Inr (c, st') \<Longrightarrow> c \<and> copy_view st' = copy_view st
    \<and> st_deferred_ready_ns st' = st_deferred_ready_ns st
    \<and> st_next_action_index st' = Suc (st_next_action_index st) \<and> st_now_ns st' = st_now_ns st"
  by (elim action_submittedE) (auto simp: copy_view_def dest!: take_snapshot_copies)

definition lane_only :: "transfer_direction \<Rightarrow> string \<Rightarrow> sim_state \<Rightarrow> sim_state \<Rightarrow> bool" where
  "lane_only l d st st' \<longleftrightarrow> (\<forall>l' d'. (l', d') \<noteq> (l, d) \<longrightarrow> lane_of l' d' st' = lane_of l' d' st)"

lemma lane_only_iff:
  "lane_only l d st st' \<longleftrightarrow>
     (\<forall>d'. (l \<noteq> FETCH_LANE \<or> d' \<noteq> d \<longrightarrow> lane_of FETCH_LANE d' st' = lane_of FETCH_LANE d' st)
       \<and> (l \<noteq> EVICT_LANE \<or> d' \<noteq> d \<longrightarrow> lane_of EVICT_LANE d' st' = lane_of EVICT_LANE d' st))"
proof
  assume R: "\<forall>d'. (l \<noteq> FETCH_LANE \<or> d' \<noteq> d \<longrightarrow> lane_of FETCH_LANE d' st' = lane_of FETCH_LANE d' st)
       \<and> (l \<noteq> EVICT_LANE \<or> d' \<noteq> d \<longrightarrow> lane_of EVICT_LANE d' st' = lane_of EVICT_LANE d' st)"
  show "lane_only l d st st'" unfolding lane_only_def
  proof (intro allI impI)
    fix l' d'
    assume "(l', d') \<noteq> (l, d)"
    with R show "lane_of l' d' st' = lane_of l' d' st" by (cases l') auto
  qed
qed (auto simp: lane_only_def)

lemma enqueue_lane:
  assumes "enqueue_transfer i action l st = Inr st'"
    and a: "st_alias_state st (ma_alias_group_id action) = Some a"
  shows "lane_only l (as_device_id a) st st'
    \<and> lane_of l (as_device_id a) st' = (lane_of l (as_device_id a) st)
        \<lparr>ln_queue := ln_queue (lane_of l (as_device_id a) st)
            @ [((ln_next (lane_of l (as_device_id a) st), action_key action),
                case st_deferred_ready_ns st i of None \<Rightarrow> st_now_ns st | Some r \<Rightarrow> r)],
         ln_next := ln_next (lane_of l (as_device_id a) st) + 1\<rparr>
    \<and> st_deferred_ready_ns st' = st_deferred_ready_ns st
    \<and> st_next_action_index st' = st_next_action_index st \<and> st_now_ns st' = st_now_ns st"
  using assms
  by (cases l) (auto simp: enqueue_transfer_def Let_def lane_only_iff lane_of_def lane_simps set_alias_def
      queue_of_def pending_key_def action_key_def split: transfer_direction.splits)

lemma start_lane:
  assumes "try_start_direction cx d l st = Inr (c, st')"
  shows "lane_only l d st st' \<and> (lane_of l d st' = lane_of l d st
      \<or> (\<exists>k r q. ln_running (lane_of l d st) = None \<and> ln_queue (lane_of l d st) = (k, r) # q
          \<and> lane_of l d st' = (lane_of l d st)\<lparr>ln_running := Some (k, r, st_now_ns st), ln_queue := q\<rparr>))
    \<and> st_deferred_ready_ns st' = st_deferred_ready_ns st
    \<and> st_next_action_index st' = st_next_action_index st \<and> st_now_ns st' = st_now_ns st"
  using assms
proof (cases rule: try_start_directionE)
  case idle
  then show ?thesis by (simp add: lane_only_def)
next
  case (stalled p q rs)
  then show ?thesis
    by (cases l) (auto simp: lane_only_iff lane_of_def lane_simps queue_of_def pending_key_def)
next
  case (started p q a)
  from take_snapshot_copies [OF started(8)] started(2,3) show ?thesis
    by (cases l) (auto simp: lane_only_iff lane_of_def lane_simps queue_of_def copy_view_def map_add_def pending_key_def
        split: option.splits)
qed

lemma map_of_drop_key [simp]: "map_of (drop_key k xs) k = None"
  by (auto simp: map_of_eq_None_iff)

lemma land_lane:
  assumes run: "complete_transfer cx d l st = Inr st'"
    and active: "map_of (active_table l st) d = Some active"
  shows "lane_only l d st st'
    \<and> (\<exists>i. interval_key i = pending_key (at_pending active) \<and> tr_ready_ns i = pt_ready_ns (at_pending active)
        \<and> tr_start_ns i = at_start_ns active \<and> tr_end_ns i = at_end_ns active
        \<and> lane_of l d st' = (lane_of l d st)\<lparr>ln_running := None, ln_done := ln_done (lane_of l d st) @ [i]\<rparr>)
    \<and> st_deferred_ready_ns st' = st_deferred_ready_ns st
    \<and> st_next_action_index st' = st_next_action_index st \<and> st_now_ns st' = st_now_ns st"
proof -
  let ?p = "at_pending active"
  let ?st1 = "set_table l (drop_key d (active_table l st)) st"
  from run active obtain a delta t u where land: "land_transfer d l ?p a ?st1 = Inr (delta, t)"
    and app: "apply_physical_delta d (action_completion_delta cx (pt_action_index ?p) delta) t = Inr u"
    and snap: "take_snapshot cx (u\<lparr>st_completed_transfer_actions :=
          List.insert (int (pt_action_index ?p)) (st_completed_transfer_actions u),
        st_transfer_intervals := st_transfer_intervals u @
          [\<lparr>tr_alias_group_id = pt_alias_group_id ?p, tr_trigger_task_id = pt_trigger_task_id ?p,
            tr_device_id = d, tr_direction = l, tr_kind = pt_kind ?p, tr_sequence = pt_sequence ?p,
            tr_ready_ns = pt_ready_ns ?p, tr_start_ns = at_start_ns active, tr_end_ns = at_end_ns active,
            tr_bytes = as_size_bytes a, tr_stall_reasons = sort (pt_stall_reasons ?p)\<rparr>]\<rparr>) = Inr st'"
    (is "take_snapshot cx (u\<lparr>st_completed_transfer_actions := ?done,
        st_transfer_intervals := st_transfer_intervals u @ [?i]\<rparr>) = Inr st'")
    by (auto simp: complete_transfer_def Let_def)
  from land have t: "copy_view t = copy_view ?st1 \<and> st_deferred_ready_ns t = st_deferred_ready_ns ?st1
    \<and> st_next_action_index t = st_next_action_index ?st1 \<and> st_now_ns t = st_now_ns ?st1"
    by (cases rule: land_transferE) (simp_all add: copy_view_def)
  from app have u: "copy_view u = copy_view t \<and> st_deferred_ready_ns u = st_deferred_ready_ns t
    \<and> st_next_action_index u = st_next_action_index t \<and> st_now_ns u = st_now_ns t"
    by (elim apply_physical_deltaE) (simp add: copy_view_def)
  from take_snapshot_copies [OF snap] t u have st': "st_transfer_intervals st' = st_transfer_intervals st @ [?i]"
    "st_active_fetch st' = st_active_fetch ?st1" "st_active_evict st' = st_active_evict ?st1"
    "st_pending_fetch st' = st_pending_fetch st" "st_pending_evict st' = st_pending_evict st"
    "st_transfer_sequence st' = st_transfer_sequence st"
    "st_deferred_ready_ns st' = st_deferred_ready_ns st"
    "st_next_action_index st' = st_next_action_index st" "st_now_ns st' = st_now_ns st"
    by (cases l; simp add: copy_view_def lane_simps)+
  have "lane_only l d st st'"
    by (cases l) (auto simp: lane_only_iff lane_of_def lane_simps st' on_lane_def drop_key_map_of
        split: transfer_direction.splits)
  moreover have "lane_of l d st' = (lane_of l d st)\<lparr>ln_running := None, ln_done := ln_done (lane_of l d st) @ [?i]\<rparr>"
    by (cases l) (simp_all add: lane_of_def lane_simps st' on_lane_def)
  ultimately show ?thesis
    using st' by (intro conjI exI [of _ ?i]) (simp_all add: interval_key_def pending_key_def)
qed


lemma launch_task_copies:
  assumes "try_launch_task cx (c, st) task = Inr (c', st')"
  shows "copy_view st' = copy_view st \<and> st_deferred_ready_ns st' = st_deferred_ready_ns st
    \<and> st_next_action_index st' = st_next_action_index st \<and> st_now_ns st' = st_now_ns st"
  using assms
proof (cases rule: try_launch_taskE)
  case (kept w)
  then show ?thesis by (simp add: copy_view_def)
next
  case (launched wait w completions profile outs bytes used config)
  from launched(17) show ?thesis
    by (elim launch_taskE) (drule take_snapshot_copies, simp add: copy_view_def)
qed

lemma finish_task_copies:
  assumes "finish_task cx key st = Inr st'" and "map_of (st_active_tasks st) key = Some active"
  shows "copy_view st' = copy_view st \<and> st_deferred_ready_ns st' = st_deferred_ready_ns st
    \<and> st_next_action_index st' = st_next_action_index st \<and> st_now_ns st' = st_now_ns st"
  using assms(1) by (elim finish_taskE [OF _ assms(2)]) (drule take_snapshot_copies, simp add: copy_view_def)

lemma refreshed_lane:
  assumes "table_refreshed config now xs ys" and "distinct (map fst xs)"
  shows "map_option (\<lambda>a. (at_pending a, at_start_ns a)) (map_of ys d)
    = map_option (\<lambda>a. (at_pending a, at_start_ns a)) (map_of xs d)"
proof (cases "map_of ys d")
  case None
  with assms have "map_of xs d = None" by (metis map_of_eq_None_iff set_map table_refreshed_def)
  with None show ?thesis by simp
next
  case (Some a')
  with assms obtain a where "(d, a) \<in> set xs" and same: "a' = a \<or> refreshed config now a a'"
    unfolding table_refreshed_def by (meson map_of_SomeD)
  then have "map_of xs d = Some a" using assms(2) by simp
  with Some same show ?thesis by (auto simp: refreshed_def)
qed

lemma refresh_lane:
  assumes "refresh_device_rates st (d, config) = Inr st'" and "keys_distinct st"
  shows "lane_of l d' st' = lane_of l d' st \<and> st_deferred_ready_ns st' = st_deferred_ready_ns st
    \<and> st_next_action_index st' = st_next_action_index st \<and> st_now_ns st' = st_now_ns st"
  using assms(1)
proof (rule refresh_device_ratesE)
  fix f e
  assume st': "st' = st\<lparr>st_active_fetch := f, st_active_evict := e\<rparr>"
    and fe: "table_refreshed config (st_now_ns st) (st_active_fetch st) f"
      "table_refreshed config (st_now_ns st) (st_active_evict st) e"
  let ?g = "\<lambda>(p, s :: int). (pending_key p, pt_ready_ns p, s)"
  have run: "map_option (\<lambda>a. (pending_key (at_pending a), pt_ready_ns (at_pending a), at_start_ns a)) m
      = map_option ?g (map_option (\<lambda>a. (at_pending a, at_start_ns a)) m)" for m
    by (cases m) simp_all
  have "distinct (map fst (st_active_fetch st))" "distinct (map fst (st_active_evict st))"
    using assms(2) by (simp_all add: keys_distinct_def)
  from refreshed_lane [OF fe(1) this(1)] refreshed_lane [OF fe(2) this(2)] show ?thesis
    unfolding lane_of_def run st' by (cases l) (simp_all add: lane_simps)
qed



section \<open>The invariant of a lane\<close>

fun kind_lane :: "memory_action_kind \<Rightarrow> transfer_direction option" where
  "kind_lane FETCH = Some FETCH_LANE"
| "kind_lane EVICT = Some EVICT_LANE"
| "kind_lane WRITE_BACK = Some EVICT_LANE"
| "kind_lane RELEASE = None"

definition alias_device :: "shadow_spill_program \<Rightarrow> string \<rightharpoonup> string" where
  "alias_device program = dict_of (map (\<lambda>g. (ag_alias_group_id g, ag_device_id g)) (pg_alias_groups program))"

text \<open>The actions of the schedule that copy on the lane, in order.\<close>

definition lane_actions ::
    "shadow_spill_program \<Rightarrow> memory_action list \<Rightarrow> transfer_direction \<Rightarrow> string \<Rightarrow> copy_key list" where
  "lane_actions program acts l d = map action_key (filter (\<lambda>a. kind_lane (ma_kind a) = Some l
     \<and> alias_device program (ma_alias_group_id a) = Some d) acts)"

text \<open>A write-back of a group whose spill copy is current needs no copy; every other action does.\<close>

definition firm :: "copy_key \<Rightarrow> bool" where
  "firm k \<longleftrightarrow> snd (snd k) \<noteq> WRITE_BACK"

definition in_order :: "lane \<Rightarrow> copy_key list \<Rightarrow> bool" where
  "in_order x expected \<longleftrightarrow> map fst (lane_log x) = map int [0..<length (lane_log x)]
     \<and> ln_next x = int (length (lane_log x))
     \<and> subseq (map snd (lane_log x)) expected
     \<and> filter firm (map snd (lane_log x)) = filter firm expected"

definition one_at_a_time :: "lane \<Rightarrow> int \<Rightarrow> bool" where
  "one_at_a_time x now \<longleftrightarrow> sorted_wrt (\<lambda>i j. tr_end_ns i \<le> tr_start_ns j) (ln_done x)
     \<and> (\<forall>i \<in> set (ln_done x). tr_ready_ns i \<le> tr_start_ns i \<and> tr_start_ns i \<le> tr_end_ns i \<and> tr_end_ns i \<le> now)
     \<and> (\<forall>k r s. ln_running x = Some (k, r, s) \<longrightarrow> r \<le> s \<and> s \<le> now \<and> (\<forall>i \<in> set (ln_done x). tr_end_ns i \<le> s))
     \<and> (\<forall>(k, r) \<in> set (ln_queue x). r \<le> now)"

lemma in_order_enqueue:
  assumes "in_order x expected" and "x' = x\<lparr>ln_queue := ln_queue x @ [((ln_next x, key), r)], ln_next := ln_next x + 1\<rparr>"
  shows "in_order x' (expected @ [key])"
proof -
  have log: "lane_log x' = lane_log x @ [(ln_next x, key)]" by (simp add: lane_log_def assms(2))
  show ?thesis
    using assms(1) list_emb_append_mono [of "(=)" "map snd (lane_log x)" expected "[key]" "[key]"]
    unfolding in_order_def log by (simp add: assms(2))
qed

lemma in_order_skip: "in_order x expected \<Longrightarrow> \<not> firm key \<Longrightarrow> in_order x (expected @ [key])"
  by (auto simp: in_order_def intro: list_emb_prefix)

lemma in_order_start:
  "ln_running x = None \<Longrightarrow> ln_queue x = (k, r) # q
    \<Longrightarrow> in_order (x\<lparr>ln_running := Some (k, r, s), ln_queue := q\<rparr>) expected = in_order x expected"
  by (simp add: in_order_def lane_log_def)

lemma in_order_land:
  "ln_running x = Some (k, rs) \<Longrightarrow> interval_key i = k
    \<Longrightarrow> in_order (x\<lparr>ln_running := None, ln_done := ln_done x @ [i]\<rparr>) expected = in_order x expected"
  by (simp add: in_order_def lane_log_def)

lemma one_at_a_time_later: "one_at_a_time x now \<Longrightarrow> now \<le> now' \<Longrightarrow> one_at_a_time x now'"
  unfolding one_at_a_time_def by (fastforce intro: order_trans)

lemma one_at_a_time_start:
  "one_at_a_time x now \<Longrightarrow> ln_queue x = (k, r) # q
    \<Longrightarrow> one_at_a_time (x\<lparr>ln_running := Some (k, r, now), ln_queue := q\<rparr>) now"
  by (auto simp: one_at_a_time_def)

lemma one_at_a_time_land:
  "one_at_a_time x now \<Longrightarrow> ln_running x = Some (k, r, s) \<Longrightarrow> tr_ready_ns i = r \<Longrightarrow> tr_start_ns i = s
    \<Longrightarrow> tr_end_ns i = now \<Longrightarrow> one_at_a_time (x\<lparr>ln_running := None, ln_done := ln_done x @ [i]\<rparr>) now"
  by (cases k) (auto simp: one_at_a_time_def sorted_wrt_append)

lemma one_at_a_time_enqueue:
  "one_at_a_time x now \<Longrightarrow> r \<le> now
    \<Longrightarrow> one_at_a_time (x\<lparr>ln_queue := ln_queue x @ [(k, r)], ln_next := n\<rparr>) now"
  by (auto simp: one_at_a_time_def)

definition lanes_inv :: "sim_context \<Rightarrow> sim_state \<Rightarrow> bool" where
  "lanes_inv cx st \<longleftrightarrow>
     (\<forall>x a. st_alias_state st x = Some a \<longrightarrow> alias_device (cx_program cx) x = Some (as_device_id a))
     \<and> (\<forall>i r. st_deferred_ready_ns st i = Some r \<longrightarrow> r \<le> st_now_ns st)
     \<and> (\<forall>l d. in_order (lane_of l d st) (lane_actions (cx_program cx)
            (take (st_next_action_index st) (ms_actions (cx_schedule cx))) l d)
          \<and> one_at_a_time (lane_of l d st) (st_now_ns st))"

lemma alias_devices_kept:
  assumes "alias_shapes st' = alias_shapes st"
    and "\<forall>x a. st_alias_state st x = Some a \<longrightarrow> alias_device p x = Some (as_device_id a)"
  shows "\<forall>x a. st_alias_state st' x = Some a \<longrightarrow> alias_device p x = Some (as_device_id a)"
proof (intro allI impI)
  fix x a
  assume "st_alias_state st' x = Some a"
  with fun_cong [OF assms(1), of x] obtain b where "st_alias_state st x = Some b" "as_device_id b = as_device_id a"
    by (cases "st_alias_state st x") (auto simp: shapes_def alias_shape_def)
  with assms(2) show "alias_device p x = Some (as_device_id a)" by auto
qed

lemma lanes_invD:
  assumes "lanes_inv cx st"
  shows "\<forall>x a. st_alias_state st x = Some a \<longrightarrow> alias_device (cx_program cx) x = Some (as_device_id a)"
    and "\<forall>i r. st_deferred_ready_ns st i = Some r \<longrightarrow> r \<le> st_now_ns st"
    and "in_order (lane_of l d st) (lane_actions (cx_program cx)
       (take (st_next_action_index st) (ms_actions (cx_schedule cx))) l d)"
    and "one_at_a_time (lane_of l d st) (st_now_ns st)"
  using assms unfolding lanes_inv_def by blast+

lemma lanes_inv_kept:
  assumes inv: "lanes_inv cx st" and "alias_shapes st' = alias_shapes st"
    and "\<And>l d. lane_of l d st' = lane_of l d st" and "st_deferred_ready_ns st' = st_deferred_ready_ns st"
    and "st_next_action_index st' = st_next_action_index st" and later: "st_now_ns st \<le> st_now_ns st'"
  shows "lanes_inv cx st'"
  unfolding lanes_inv_def assms(3-5)
proof (intro conjI allI)
  show "st_alias_state st' x = Some a \<longrightarrow> alias_device (cx_program cx) x = Some (as_device_id a)" for x a
    using alias_devices_kept [OF assms(2) lanes_invD(1) [OF inv]] by blast
  show "st_deferred_ready_ns st i = Some r \<longrightarrow> r \<le> st_now_ns st'" for i r
    using lanes_invD(2) [OF inv] later order_trans by blast
  show "one_at_a_time (lane_of l d st) (st_now_ns st')" for l d
    by (rule one_at_a_time_later [OF lanes_invD(4) [OF inv] later])
qed (rule lanes_invD(3) [OF inv])

lemma lane_only_inv:
  assumes inv: "lanes_inv cx st" and shapes: "alias_shapes st' = alias_shapes st"
    and only: "lane_only l d st st'" and keep: "st_deferred_ready_ns st' = st_deferred_ready_ns st"
      "st_now_ns st' = st_now_ns st"
    and order: "\<And>l' d'. (l', d') \<noteq> (l, d) \<Longrightarrow>
       lane_actions (cx_program cx) (take (st_next_action_index st') (ms_actions (cx_schedule cx))) l' d'
       = lane_actions (cx_program cx) (take (st_next_action_index st) (ms_actions (cx_schedule cx))) l' d'"
    and this_lane: "in_order (lane_of l d st') (lane_actions (cx_program cx)
       (take (st_next_action_index st') (ms_actions (cx_schedule cx))) l d)"
      "one_at_a_time (lane_of l d st') (st_now_ns st)"
  shows "lanes_inv cx st'"
  unfolding lanes_inv_def keep
proof (intro conjI allI)
  show "st_alias_state st' x = Some a \<longrightarrow> alias_device (cx_program cx) x = Some (as_device_id a)" for x a
    using alias_devices_kept [OF shapes lanes_invD(1) [OF inv]] by blast
  show "st_deferred_ready_ns st i = Some r \<longrightarrow> r \<le> st_now_ns st" for i r
    using lanes_invD(2) [OF inv] by blast
  show "in_order (lane_of l' d' st') (lane_actions (cx_program cx)
      (take (st_next_action_index st') (ms_actions (cx_schedule cx))) l' d')" for l' d'
  proof (cases "(l', d') = (l, d)")
    case True
    with this_lane show ?thesis by simp
  next
    case False
    with only have "lane_of l' d' st' = lane_of l' d' st" by (simp add: lane_only_def)
    with order [OF False] lanes_invD(3) [OF inv] show ?thesis by simp
  qed
  show "one_at_a_time (lane_of l' d' st') (st_now_ns st)" for l' d'
  proof (cases "(l', d') = (l, d)")
    case True
    with this_lane show ?thesis by simp
  next
    case False
    with only have "lane_of l' d' st' = lane_of l' d' st" by (simp add: lane_only_def)
    with lanes_invD(4) [OF inv] show ?thesis by simp
  qed
qed



section \<open>Every step keeps it\<close>

lemma lane_actions_snoc:
  assumes "k < length acts"
  shows "lane_actions p (take (Suc k) acts) l d = lane_actions p (take k acts) l d
    @ (if kind_lane (ma_kind (acts ! k)) = Some l \<and> alias_device p (ma_alias_group_id (acts ! k)) = Some d
       then [action_key (acts ! k)] else [])"
  using assms by (simp add: lane_actions_def take_Suc_conv_app_nth)

text \<open>A submission that copies nothing: a release, or a write-back of a current copy.\<close>

lemma silent_submission:
  assumes inv: "lanes_inv cx st" and shapes: "alias_shapes st' = alias_shapes st"
    and view: "copy_view st' = copy_view st" "st_deferred_ready_ns st' = st_deferred_ready_ns st"
      "st_now_ns st' = st_now_ns st" "st_next_action_index st' = Suc (st_next_action_index st)"
    and k: "st_next_action_index st < length (ms_actions (cx_schedule cx))"
    and kind: "ma_kind (ms_actions (cx_schedule cx) ! st_next_action_index st) \<in> {RELEASE, WRITE_BACK}"
  shows "lanes_inv cx st'"
  unfolding lanes_inv_def view(2,3)
proof (intro conjI allI)
  show "st_alias_state st' x = Some a \<longrightarrow> alias_device (cx_program cx) x = Some (as_device_id a)" for x a
    using alias_devices_kept [OF shapes lanes_invD(1) [OF inv]] by blast
  show "st_deferred_ready_ns st i = Some r \<longrightarrow> r \<le> st_now_ns st" for i r
    using lanes_invD(2) [OF inv] by blast
  show "one_at_a_time (lane_of l d st') (st_now_ns st)" for l d
    using lanes_invD(4) [OF inv] by (simp add: lane_of_view [OF view(1)])
  let ?a = "ms_actions (cx_schedule cx) ! st_next_action_index st"
  have "\<not> firm (action_key ?a)" if "kind_lane (ma_kind ?a) = Some l" for l
    using that kind by (auto simp: firm_def action_key_def)
  then show "in_order (lane_of l d st') (lane_actions (cx_program cx)
      (take (st_next_action_index st') (ms_actions (cx_schedule cx))) l d)" for l d
    using lanes_invD(3) [OF inv, of l d] in_order_skip
    by (auto simp: lane_of_view [OF view(1)] view(4) lane_actions_snoc [OF k])
qed

lemma copying_submission:
  assumes inv: "lanes_inv cx st" and shapes: "alias_shapes st' = alias_shapes st"
    and k: "st_next_action_index st < length (ms_actions (cx_schedule cx))"
    and action: "action = ms_actions (cx_schedule cx) ! st_next_action_index st"
    and a: "st_alias_state st (ma_alias_group_id action) = Some a"
    and view: "copy_view t = copy_view st" "st_deferred_ready_ns t = st_deferred_ready_ns st"
      "st_now_ns t = st_now_ns st" "st_next_action_index t = st_next_action_index st"
    and a': "st_alias_state t (ma_alias_group_id action) = Some a'" "as_device_id a' = as_device_id a"
    and enqueue: "enqueue_transfer (st_next_action_index st) action l t = Inr u"
    and submit: "action_submitted cx d delta u = Inr (c, st')"
    and kind: "kind_lane (ma_kind action) = Some l"
  shows "lanes_inv cx st'"
proof -
  note q = enqueue_lane [OF enqueue a'(1), unfolded a'(2) view lane_of_view [OF view(1)]]
  note s = action_submitted_copies [OF submit]
  have lanes: "lane_of l' d' st' = lane_of l' d' u" for l' d' using s lane_of_view by blast
  have dev: "alias_device (cx_program cx) (ma_alias_group_id action) = Some (as_device_id a)"
    using lanes_invD(1) [OF inv] a by blast
  let ?d = "as_device_id a"
  have only: "lane_only l ?d st st'"
    using q unfolding lane_only_def lanes by (simp add: lane_of_view [OF view(1)])
  have idx: "st_next_action_index st' = Suc (st_next_action_index st)" using s q by simp
  show ?thesis
  proof (rule lane_only_inv [OF inv shapes only])
    show "st_deferred_ready_ns st' = st_deferred_ready_ns st" "st_now_ns st' = st_now_ns st"
      using s q by simp_all
    show "lane_actions (cx_program cx) (take (st_next_action_index st') (ms_actions (cx_schedule cx))) l' d'
        = lane_actions (cx_program cx) (take (st_next_action_index st) (ms_actions (cx_schedule cx))) l' d'"
      if "(l', d') \<noteq> (l, ?d)" for l' d'
      using that kind dev by (auto simp: idx lane_actions_snoc [OF k] action)
    show "in_order (lane_of l ?d st') (lane_actions (cx_program cx)
        (take (st_next_action_index st') (ms_actions (cx_schedule cx))) l ?d)"
      using in_order_enqueue [OF lanes_invD(3) [OF inv, of l ?d]] q kind dev
      by (simp add: lanes idx lane_actions_snoc [OF k] action)
    show "one_at_a_time (lane_of l ?d st') (st_now_ns st)"
      unfolding lanes using q lanes_invD(2) [OF inv]
      by (auto intro!: one_at_a_time_enqueue lanes_invD(4) [OF inv] split: option.split)
  qed
qed

lemma release_copies:
  assumes "release_alias cx action st = Inr (True, u)" and "st_alias_state st (ma_alias_group_id action) = Some a"
  shows "copy_view u = copy_view st \<and> st_deferred_ready_ns u = st_deferred_ready_ns st
    \<and> st_next_action_index u = st_next_action_index st \<and> st_now_ns u = st_now_ns st"
  using assms
proof (cases rule: release_aliasE)
  case (dropped a' b s)
  from take_snapshot_copies [OF dropped(13)] show ?thesis by (simp add: copy_view_def)
qed simp

lemma submit_lanes_inv:
  assumes k: "st_next_action_index st < length (ms_actions (cx_schedule cx))"
    and run: "submit_action cx (st_next_action_index st)
      (ms_actions (cx_schedule cx) ! st_next_action_index st) st = Inr (c, st')"
    and shapes: "alias_shapes st' = alias_shapes st" and inv: "lanes_inv cx st"
  shows "lanes_inv cx st'"
  using run
proof (cases rule: submit_actionE)
  case kept
  with inv show ?thesis by simp
next
  case (deferred m v)
  have "lane_of l d st' = lane_of l d st" for l d
    by (rule lane_of_view) (simp add: deferred(3) copy_view_def)
  moreover have "r \<le> st_now_ns st" if "m i = Some r" for i r
    using deferred(4) [OF that] lanes_invD(2) [OF inv] by auto
  ultimately show ?thesis
    using lanes_invD [OF inv] unfolding lanes_inv_def by (simp add: deferred(3))
next
  case (submitted a config used)
  let ?action = "ms_actions (cx_schedule cx) ! st_next_action_index st"
  let ?delta = "action_trigger_delta cx (st_next_action_index st) (trigger_default ?action a)"
  note copying = copying_submission [OF inv shapes k refl submitted(2)]
  consider (release) "ma_kind ?action = RELEASE" | (fetch) "ma_kind ?action = FETCH"
    | (departure) "kind_lane (ma_kind ?action) = Some EVICT_LANE"
    by (cases "ma_kind ?action") simp_all
  then show ?thesis
  proof cases
    case release
    with submitted(6) obtain u where u: "release_alias cx ?action st = Inr (True, u)"
      "action_submitted cx (as_device_id a) ?delta u = Inr (c, st')" by auto
    from release_copies [OF u(1) submitted(2)] action_submitted_copies [OF u(2)] release show ?thesis
      by (intro silent_submission [OF inv shapes _ _ _ _ k]) simp_all
  next
    case fetch
    with submitted(6) have "submit_fetch cx (st_next_action_index st) ?action ?delta st = Inr (c, st')"
      by simp
    then show ?thesis
    proof (rule submit_fetchE [OF _ submitted(2)])
      fix a' objects u
      assume a': "alias_shape a' = alias_shape a"
        and rest: "enqueue_transfer (st_next_action_index st) ?action FETCH_LANE (st\<lparr>st_alias_state :=
            (st_alias_state st)(ma_alias_group_id ?action \<mapsto> a'), st_device_object_bytes := objects\<rparr>) = Inr u"
          "action_submitted cx (as_device_id a) ?delta u = Inr (c, st')"
      from a' show "lanes_inv cx st'"
        by (intro copying [where a' = a', OF _ _ _ _ _ _ rest]) (simp_all add: copy_view_def fetch alias_shape_def)
    qed
  next
    case departure
    with submitted(6) have "submit_departure cx (st_next_action_index st) ?action ?delta st = Inr (c, st')"
      by (cases "ma_kind ?action") simp_all
    from this submitted(2) show ?thesis
    proof (cases rule: submit_departureE)
      case (deferred m v)
      have "lane_of l d st' = lane_of l d st" for l d
        by (rule lane_of_view) (simp add: deferred(2) copy_view_def)
      moreover have "r \<le> st_now_ns st" if "m i = Some r" for i r
        using deferred(3) [OF that] lanes_invD(2) [OF inv] by auto
      ultimately show ?thesis
        using lanes_invD [OF inv] unfolding lanes_inv_def by (simp add: deferred(2))
    next
      case skipped
      from action_submitted_copies [OF skipped(2)] skipped(1) show ?thesis
        by (intro silent_submission [OF inv shapes _ _ _ _ k]) simp_all
    next
      case (departed a' s u)
      from departed(5) show ?thesis
        by (intro copying [where a' = a', OF _ _ _ _ _ _ departed(9,10)]) (simp_all add: copy_view_def departure alias_shape_def)
    qed
  qed
qed

lemma step_lanes_inv:
  assumes step: "sim_step cx st st'" and inv: "lanes_inv cx st" and fwd: "forward_inv st"
    and ctx: "sound_context cx"
  shows "lanes_inv cx st'"
  using step
proof (cases rule: sim_step.cases)
  case (start d direction c)
  note s = start_lane [OF start(1)]
  show ?thesis
  proof (rule lane_only_inv [OF inv step_shapes [OF step]])
    show "lane_only direction d st st'" using s by simp
    show "in_order (lane_of direction d st') (lane_actions (cx_program cx)
        (take (st_next_action_index st') (ms_actions (cx_schedule cx))) direction d)"
      using s lanes_invD(3) [OF inv, of direction d] by (auto simp: in_order_start)
    show "one_at_a_time (lane_of direction d st') (st_now_ns st)"
      using s lanes_invD(4) [OF inv, of direction d] by (auto intro: one_at_a_time_start)
  qed (use s in simp_all)
next
  case (launch c task c')
  from launch_task_copies [OF launch(1)] show ?thesis
    by (intro lanes_inv_kept [OF inv step_shapes [OF step]] lane_of_view) simp_all
next
  case (submit c)
  show ?thesis by (rule submit_lanes_inv [OF submit step_shapes [OF step] inv])
next
  case (refresh d config)
  have "keys_distinct st" using fwd by (simp add: forward_inv_def)
  from refresh_lane [OF refresh(2) this] show ?thesis
    by (intro lanes_inv_kept [OF inv step_shapes [OF step]]) simp_all
next
  case (tick t)
  have "st_now_ns st \<le> t" using tick_timing [OF tick(2)] fwd by (simp add: forward_inv_def)
  with tick(1) show ?thesis
    by (intro lanes_inv_kept [OF inv step_shapes [OF step]] lane_of_view) (simp_all add: copy_view_def)
next
  case (land direction d active)
  from land_lane [OF land(3,1)] obtain i where only: "lane_only direction d st st'"
    and i: "interval_key i = pending_key (at_pending active)" "tr_ready_ns i = pt_ready_ns (at_pending active)"
      "tr_start_ns i = at_start_ns active" "tr_end_ns i = st_now_ns st"
      "lane_of direction d st' = (lane_of direction d st)
         \<lparr>ln_running := None, ln_done := ln_done (lane_of direction d st) @ [i]\<rparr>"
    and keep: "st_deferred_ready_ns st' = st_deferred_ready_ns st"
      "st_next_action_index st' = st_next_action_index st" "st_now_ns st' = st_now_ns st"
    using land(2) by auto
  have run: "ln_running (lane_of direction d st)
      = Some (pending_key (at_pending active), pt_ready_ns (at_pending active), at_start_ns active)"
    using land(1) by (simp add: lane_of_def)
  show ?thesis
  proof (rule lane_only_inv [OF inv step_shapes [OF step] only keep(1,3)])
    show "in_order (lane_of direction d st') (lane_actions (cx_program cx)
        (take (st_next_action_index st') (ms_actions (cx_schedule cx))) direction d)"
      unfolding i(5) in_order_land [OF run i(1)] keep by (rule lanes_invD(3) [OF inv])
    show "one_at_a_time (lane_of direction d st') (st_now_ns st)"
      unfolding i(5) by (rule one_at_a_time_land [OF lanes_invD(4) [OF inv] run i(2-4)])
  qed (simp add: keep)
next
  case (finish key active)
  from finish_task_copies [OF finish(3,1)] show ?thesis
    by (intro lanes_inv_kept [OF inv step_shapes [OF step]] lane_of_view) simp_all
qed


lemma initial_lanes_inv:
  assumes "initialize_memory cx (initial_state cx) = Inr st"
  shows "lanes_inv cx st"
proof -
  note views = initialize_memory_views [OF assms]
  have deferred: "st_deferred_ready_ns st = Map.empty"
    using assms
  proof (rule initialize_memoryE)
    fix u
    assume "loaded_from (initial_state cx) u" and "take_snapshot cx (u\<lparr>st_device_physical_bytes :=
       st_device_physical_bytes u ++ (case cx_admission cx of None \<Rightarrow> st_device_object_bytes u
        | Some admission \<Rightarrow> dict_of (am_initial_physical_bytes admission))\<rparr>) = Inr st"
    then show ?thesis
      by (elim take_snapshotE) (auto simp: loaded_from_def initial_state_def)
  qed
  have "queue_of (dict_of (map (\<lambda>d. (d, [])) ds)) d = []" for ds d
    by (auto simp: queue_of_def split: option.split dest!: dict_of_SomeD)
  then have lane: "lane_of l d st = \<lparr>ln_done = [], ln_running = None, ln_queue = [], ln_next = 0\<rparr>" for l d
    using views by (cases l)
      (simp_all add: lane_of_def lane_simps lane_view_def initial_state_def)
  have idx: "st_next_action_index st = 0" and now: "st_now_ns st = 0"
    using views by (simp_all add: initial_state_def task_view_def)
  have "alias_device (cx_program cx) x = Some (as_device_id a)"
    if "st_alias_state (initial_state cx) x = Some a" for x a
  proof -
    let ?gs = "pg_alias_groups (cx_program cx)"
    have "dict_of (map (\<lambda>g. (ag_alias_group_id g, f g)) gs) x
        = map_option f (dict_of (map (\<lambda>g. (ag_alias_group_id g, g)) gs) x)" for f :: "alias_group_spec \<Rightarrow> 'c" and gs
      by (induction gs rule: rev_induct) (simp_all add: dict_of_snoc dict_of_def)
    from this [of initial_alias_state ?gs] this [of ag_device_id ?gs] that show ?thesis
      by (auto simp: initial_state_def alias_device_def initial_alias_state_def)
  qed
  with alias_devices_kept [of st "initial_state cx" "cx_program cx"] views
  have "\<forall>x a. st_alias_state st x = Some a \<longrightarrow> alias_device (cx_program cx) x = Some (as_device_id a)"
    by simp
  then show ?thesis
    by (simp add: lanes_inv_def deferred lane idx now in_order_def one_at_a_time_def lane_log_def
        lane_actions_def)
qed

lemma steps_lanes_inv:
  assumes "sim_steps cx st st'" and "lanes_inv cx st" and "forward_inv st" and "sound_context cx"
  shows "lanes_inv cx st' \<and> forward_inv st'"
  using assms(1)
proof (rule steps_invariant [where P = "\<lambda>st. lanes_inv cx st \<and> forward_inv st"])
  fix t u
  assume "lanes_inv cx t \<and> forward_inv t" "sim_step cx t u"
  with step_lanes_inv [of cx t u] step_forward [of cx t u] assms(4)
  show "lanes_inv cx u \<and> forward_inv u" by blast
qed (use assms(2,3) in simp)


section \<open>The copies of a result\<close>

text \<open>
  The intervals \<open>ivs\<close> of one lane: numbered in order, one after the other, each ready before it
  starts, and the copies of the lane's actions in the order of the schedule, where only
  write-backs may be missing.
\<close>

definition lane_history :: "transfer_interval list \<Rightarrow> copy_key list \<Rightarrow> int \<Rightarrow> bool" where
  "lane_history ivs expected makespan \<longleftrightarrow>
     map tr_sequence ivs = map int [0..<length ivs]
     \<and> sorted_wrt (\<lambda>i j. tr_end_ns i \<le> tr_start_ns j) ivs
     \<and> (\<forall>i \<in> set ivs. tr_ready_ns i \<le> tr_start_ns i \<and> tr_start_ns i \<le> tr_end_ns i \<and> tr_end_ns i \<le> makespan)
     \<and> subseq (map (snd \<circ> interval_key) ivs) expected
     \<and> filter firm (map (snd \<circ> interval_key) ivs) = filter firm expected"

lemma lane_sorted:
  assumes "\<forall>i \<in> set ivs. on_lane l d i" and seqs: "map tr_sequence ivs = map int [0..<length ivs]"
    and wrt: "sorted_wrt (\<lambda>i j. tr_end_ns i \<le> tr_start_ns j) ivs"
    and "\<forall>i \<in> set ivs. tr_start_ns i \<le> tr_end_ns i"
  shows "sorted (map transfer_interval_key ivs)"
  unfolding sorted_iff_nth_mono_less
proof (intro allI impI)
  fix i j
  assume ij: "i < j" "j < length (map transfer_interval_key ivs)"
  then have "tr_end_ns (ivs ! i) \<le> tr_start_ns (ivs ! j)"
    using wrt by (simp add: sorted_wrt_iff_nth_less)
  moreover have "tr_start_ns (ivs ! i) \<le> tr_end_ns (ivs ! i)" "on_lane l d (ivs ! i)" "on_lane l d (ivs ! j)"
    using assms(1,4) ij by simp_all
  moreover have "tr_sequence (ivs ! i) = int i" "tr_sequence (ivs ! j) = int j"
    using arg_cong [OF seqs, of "\<lambda>xs. xs ! i"] arg_cong [OF seqs, of "\<lambda>xs. xs ! j"] ij by simp_all
  ultimately show "map transfer_interval_key ivs ! i \<le> map transfer_interval_key ivs ! j"
    using ij by (auto simp: transfer_interval_key_def on_lane_def less_eq_prod_def)
qed

lemma run_transfers:
  assumes "run_simulation cx = Some (Inr result)" and ctx: "sound_context cx" and d: "d \<in> set (device_ids cx)"
  shows "lane_history (filter (on_lane l d) (sr_transfer_intervals result))
    (lane_actions (cx_program cx) (ms_actions (cx_schedule cx)) l d) (sr_makespan_ns result)"
  using assms(1)
proof (rule run_simulationE)
  fix st st'
  assume init: "initialize_memory cx (initial_state cx) = Inr st" and steps: "sim_steps cx st st'"
    and loop: "event_loop cx st = Some (Inr st')" and res: "simulation_result_of cx st' = Inr result"
  have inv: "lanes_inv cx st'"
    using steps_lanes_inv [OF steps initial_lanes_inv [OF init] initial_forward [OF init ctx] ctx] by simp
  have idle: "\<not> has_pending_work cx st'" using event_loop_done [OF loop, of st'] by simp
  let ?x = "lane_of l d st'" and ?ivs = "filter (on_lane l d) (st_transfer_intervals st')"
  have parts: "ln_done ?x = ?ivs" "ln_running ?x = None" "ln_queue ?x = []"
    using idle d by (cases l; force simp: lane_of_def lane_simps has_pending_work_def any_pending_def
      queue_of_def list_ex_iff split: option.splits)+
  then have log: "lane_log ?x = map interval_key ?ivs" by (simp add: lane_log_def)
  have "take (st_next_action_index st') (ms_actions (cx_schedule cx)) = ms_actions (cx_schedule cx)"
    using idle by (simp add: has_pending_work_def)
  with lanes_invD(3) [OF inv, of l d] lanes_invD(4) [OF inv, of l d]
  have hist: "lane_history ?ivs (lane_actions (cx_program cx) (ms_actions (cx_schedule cx)) l d) (st_now_ns st')"
    by (simp add: lane_history_def in_order_def one_at_a_time_def log parts comp_def interval_key_def)
  then have "sorted (map transfer_interval_key ?ivs)"
    by (intro lane_sorted [of _ l d]) (simp_all add: lane_history_def)
  then have "filter (on_lane l d) (sort_key transfer_interval_key (st_transfer_intervals st')) = ?ivs"
    by (simp add: filter_sort sort_key_id_if_sorted)
  with hist res show ?thesis by (auto simp: simulation_result_of_def bindE_Inr_iff)
qed

end
