(* ===== verification/Simulator_Example.thy ===== *)
theory Simulator_Example
  imports Simulator_Context
begin

text \<open>
  A run evaluated step by step in the kernel: two tasks of which the second waits until the
  weights of the first have been evicted. The witnesses of the simulator's properties use it.
\<close>

lemma dict_of_Nil: "dict_of [] = Map.empty"
  by (simp add: dict_of_def)

lemma bindE_weak: "m = m' \<Longrightarrow> bindE m f = bindE m' f"
  by simp

lemmas simulator_eval = device_ids_def look_def dict_get_def append_to_def drop_key_def put_key_def
  sorted_ids_def set_alias_def add_object_bytes_def add_workspace_bytes_def initial_alias_state_def
  zero_bytes_def initial_state_def snapshot_device_def items_of_def record_snapshot_def
  take_snapshot_def initialize_alias_def initialize_residency_def check_initial_capacity_def
  initialize_memory_def apply_physical_delta_def unlisted_delta_def task_start_delta_def
  task_completion_delta_def action_trigger_delta_def action_completion_delta_def
  reuse_dependencies_complete_def resource_key_def first_unlaunched_on_lane_def
  task_output_aliases_def input_missing_def task_missing_inputs_def new_output_bytes_def
  wait_reason_def reserve_output_def launch_task_def max_or_zero_def try_launch_task_def
  try_launch_tasks_def pending_queue_def set_queue_def active_table_def set_table_def
  enqueue_transfer_def release_alias_def defer_action_def action_submitted_def departure_name_def
  submit_departure_def submit_fetch_def submit_action_def submit_ready_actions_def progressed_def
  moving_def set_rate_def refresh_device_rates_def refresh_transfer_rates_def stall_head_def
  started_transfer_def try_start_direction_def try_start_device_def try_start_transfers_def
  finish_output_def finish_mutation_def finish_task_def complete_task_def land_transfer_def
  complete_transfer_def transfer_event_ns_def next_event_time_def complete_due_transfer_def
  due_tasks_def complete_events_def check_final_item_def check_final_residency_def any_pending_def
  has_pending_work_def settle_round_def advance_def peak_of_def ordered_task_intervals_def
  transfer_interval_key_def simulation_result_of_def run_simulation_def simulate_python_def
  settle.simps event_loop.simps NANOSECONDS_PER_SECOND_def py_floordiv_def fromkeys_def dict_of_def
  Let_def

definition stays :: "string \<Rightarrow> memory_location \<Rightarrow> residency_spec" where
  "stays a l = \<lparr>rd_alias_group_id = a, rd_location = l\<rparr>"

definition acts :: "string \<Rightarrow> string \<Rightarrow> memory_action_kind \<Rightarrow> memory_action" where
  "acts t a k = \<lparr>ma_trigger_task_id = t, ma_alias_group_id = a, ma_kind = k\<rparr>"

definition example_schedule :: memory_schedule where
  "example_schedule =
     \<lparr>ms_initial_residency = [stays ''w'' DEVICE],
      ms_actions = [acts ''keep'' ''w'' EVICT, acts ''back'' ''a'' RELEASE],
      ms_final_residency = [stays ''g'' DEVICE]\<rparr>"

definition example_device :: device_simulation_config where
  "example_device = \<lparr>dc_device_id = ''gpu'', dc_capacity_bytes = 12, dc_fetch_solo = 1000000000,
     dc_fetch_concurrent = 500000000, dc_evict_solo = 1000000000, dc_evict_concurrent = 500000000,
     dc_fetch_latency_ns = 0, dc_evict_latency_ns = 0\<rparr>"

definition example_config :: simulation_config where
  "example_config = \<lparr>sc_devices = [example_device], sc_spill_capacity_bytes = 20\<rparr>"

lemma example_config_valid: "valid_config example_config"
  by (simp add: valid_config_def simulation_config_post_init_def device_simulation_config_post_init_def
      example_config_def example_device_def config_device_def sm_require_positive_def
      sm_require_non_negative_def name_ok_def) code_simp

definition example_tasks :: "task_spec list" where
  "example_tasks = [sample_task ''keep'' [] [''W''] [''A''], sample_task ''back'' [''keep''] [''A''] [''G'']]"

lemma example_selected: "select_tasks sample_program (sample_choice ''save'') = Inr example_tasks"
  by code_simp

lemma example_validated: "validate_selected example_schedule sample_program example_tasks = Inr ()"
  by code_simp

definition example_cx :: sim_context where
  "example_cx = \<lparr>cx_program = sample_program, cx_schedule = example_schedule,
     cx_selections = sample_choice ''save'', cx_config = example_config, cx_admission = None,
     cx_record_timeline = True, cx_tasks = example_tasks,
     cx_task_by_id = dict_of (map (\<lambda>t. (tk_task_id t, t)) example_tasks),
     cx_task_order = dict_of (map (\<lambda>(index, t). (tk_task_id t, index)) (enumerate 0 example_tasks)),
     cx_profile_by_id = dict_of (map (\<lambda>p. (pf_profile_id p, p)) (pg_profiles sample_program)),
     cx_object_alias = dict_of (map (\<lambda>b. (ob_object_id b, ob_alias_group_id b)) (pg_objects sample_program)),
     cx_alias_last_reader = [''w'' \<mapsto> ''keep'', ''a'' \<mapsto> ''back''],
     cx_final_aliases = [''g''], cx_device_config = [(''gpu'', example_device)],
     cx_task_physical_deltas = Map.empty, cx_action_physical_deltas = Map.empty,
     cx_task_reuse_dependencies = Map.empty, cx_action_reuse_dependencies = Map.empty\<rparr>"

lemmas example_defs = example_schedule_def example_config_def example_device_def stays_def acts_def

lemma example_context:
  "make_context sample_program example_schedule (sample_choice ''save'') example_config None True
    = Inr example_cx"
proof -
  have readers: "foldE (record_reader (dict_of (map (\<lambda>b. (ob_object_id b, ob_alias_group_id b))
      (pg_objects sample_program)))) Map.empty example_tasks = Inr [''w'' \<mapsto> ''keep'', ''a'' \<mapsto> ''back'']"
    by (simp add: sample_defs example_tasks_def record_reader_def task_consumes_def look_def
      dict_of_def cong: bindE_weak)
  have checks: "validate_inputs example_cx = Inr ()"
    by (simp add: validate_inputs_def validate_schedule_def example_cx_def example_selected
      example_validated) (simp add: sample_program_def)
  have conf: "map (\<lambda>d. (dc_device_id d, d)) (sc_devices example_config) = [(''gpu'', example_device)]"
    and final: "map rd_alias_group_id (ms_final_residency example_schedule) = [''g'']"
    by (simp_all add: example_defs)
  show ?thesis
    using checks
    by (simp add: make_context_def example_selected readers admission_device_config_def conf final
      example_cx_def Let_def dict_of_Nil)
qed

lemma example_run: "\<exists>result. run_simulation example_cx = Some (Inr result) \<and> sr_makespan_ns result = 18"
  by (simp add: simulator_eval example_cx_def example_tasks_def example_defs sample_defs
    cong: bindE_weak)

end
