(* ===== verification/Simulator_Overlap.thy ===== *)
theory Simulator_Overlap
  imports Simulator_Example
begin

text \<open>
  A run in which a task writes a group whose eviction is still under way: the launch of the task
  forgets that the eviction is pending, and the landing copy then drops the memory of the new
  value.
\<close>

definition overlap_program :: shadow_spill_program where
  "overlap_program =
     \<lparr>pg_devices = [\<lparr>dv_device_id = ''gpu'', dv_process_id = ''0'', dv_kind = ''cuda'', dv_index = 0\<rparr>],
      pg_alias_groups = [sample_group ''w'' 8],
      pg_objects = [sample_object ''W'' ''w'' 8, sample_object ''V'' ''w'' 8],
      pg_profiles = [\<lparr>pf_profile_id = ''p'', pf_runtime_ns = 5, pf_workspace_bytes = 0,
        pf_compatibility_digest = ''d'', pf_resource_phases = [], pf_overlap_costs = []\<rparr>],
      pg_tasks = [sample_task ''use'' [] [''W''] [], sample_task ''make'' [''use''] [] [''V'']],
      pg_task_alternative_groups = []\<rparr>"

definition overlap_schedule :: memory_schedule where
  "overlap_schedule =
     \<lparr>ms_initial_residency = [stays ''w'' DEVICE],
      ms_actions = [acts ''use'' ''w'' EVICT, acts ''make'' ''w'' RELEASE],
      ms_final_residency = []\<rparr>"

definition overlap_tasks :: "task_spec list" where
  "overlap_tasks = [sample_task ''use'' [] [''W''] [], sample_task ''make'' [''use''] [] [''V'']]"

lemma overlap_valid: "valid_program overlap_program"
  by code_simp

lemma overlap_validated: "validate_schedule overlap_schedule overlap_program [] = Inr ()"
  by code_simp

lemma overlap_selected: "select_tasks overlap_program [] = Inr overlap_tasks"
  by code_simp

definition overlap_cx :: sim_context where
  "overlap_cx = \<lparr>cx_program = overlap_program, cx_schedule = overlap_schedule, cx_selections = [],
     cx_config = example_config, cx_admission = None, cx_record_timeline = False,
     cx_tasks = overlap_tasks,
     cx_task_by_id = dict_of (map (\<lambda>t. (tk_task_id t, t)) overlap_tasks),
     cx_task_order = dict_of (map (\<lambda>(index, t). (tk_task_id t, index)) (enumerate 0 overlap_tasks)),
     cx_profile_by_id = dict_of (map (\<lambda>p. (pf_profile_id p, p)) (pg_profiles overlap_program)),
     cx_object_alias = dict_of (map (\<lambda>b. (ob_object_id b, ob_alias_group_id b)) (pg_objects overlap_program)),
     cx_alias_last_reader = [''w'' \<mapsto> ''use''],
     cx_final_aliases = [], cx_device_config = [(''gpu'', example_device)],
     cx_task_physical_deltas = Map.empty, cx_action_physical_deltas = Map.empty,
     cx_task_reuse_dependencies = Map.empty, cx_action_reuse_dependencies = Map.empty\<rparr>"

lemma overlap_context:
  "make_context overlap_program overlap_schedule [] example_config None False = Inr overlap_cx"
proof -
  have readers: "foldE (record_reader (dict_of (map (\<lambda>b. (ob_object_id b, ob_alias_group_id b))
      (pg_objects overlap_program)))) Map.empty overlap_tasks = Inr [''w'' \<mapsto> ''use'']"
    by (simp add: overlap_program_def sample_object_def sample_task_def overlap_tasks_def record_reader_def
      task_consumes_def look_def dict_of_def cong: bindE_weak)
  have checks: "validate_inputs overlap_cx = Inr ()"
    by (simp add: validate_inputs_def overlap_cx_def overlap_validated) (simp add: overlap_program_def)
  have conf: "map (\<lambda>d. (dc_device_id d, d)) (sc_devices example_config) = [(''gpu'', example_device)]"
    and final: "map rd_alias_group_id (ms_final_residency overlap_schedule) = []"
    by (simp_all add: example_defs overlap_schedule_def)
  show ?thesis
    using checks
    by (simp add: make_context_def overlap_selected readers admission_device_config_def conf final
      overlap_cx_def Let_def dict_of_Nil)
qed

lemma overlap_run:
  "run_simulation overlap_cx = Some (Inl (SimFault (ValueError
     [Lit ''simulation admission underflows physical execution memory: '', Lit ''device='', Repr ''gpu'',
      Lit '', '', Lit ''current='', Num 0, Lit '', '', Lit ''delta='', Num (- 8)])))"
  by (simp add: simulator_eval overlap_cx_def overlap_tasks_def overlap_schedule_def overlap_program_def
    sample_group_def sample_object_def sample_task_def example_defs cong: bindE_weak)

text \<open>
  Writing a group while its eviction is under way is not simulated soundly: the launch of the
  writing task clears the pending flag, so the copy that lands later frees the group a second
  time. A valid program with a validated schedule and no admission then ends in the error that
  blames the admission for an underflow.
\<close>

theorem eviction_overlapped_by_output:
  "valid_program overlap_program \<and> valid_config example_config
    \<and> validate_schedule overlap_schedule overlap_program [] = Inr ()
    \<and> simulate_python overlap_program overlap_schedule [] example_config None False
      = Some (Inl (SimFault (ValueError
          [Lit ''simulation admission underflows physical execution memory: '', Lit ''device='',
           Repr ''gpu'', Lit '', '', Lit ''current='', Num 0, Lit '', '', Lit ''delta='', Num (- 8)])))"
proof -
  have "valid_config example_config" by (rule example_config_valid)
  then show ?thesis
    by (simp add: overlap_valid overlap_validated simulate_python_def overlap_context overlap_run)
qed

end
