(* ===== verification/Simulator_Properties.thy ===== *)
theory Simulator_Properties
  imports Simulator_Capacity Simulator_Lanes Simulator_Overlap
begin

text \<open>
  The properties of a whole simulation, from the program and the configuration to the result:
  it returns, it keeps to the capacities, and the intervals it reports are a legal execution.
\<close>

section \<open>Every simulation returns\<close>

text \<open>
  C5. The event loop of the simulator ends: for every program, schedule, selection, admission
  and configuration whose constructors accepted them, \<open>simulate_python\<close> returns, with a result
  or with an error. A stuck run is reported as a deadlock, never looped on.
\<close>

theorem simulate_terminates:
  assumes "valid_program program" and "valid_config config"
  shows "\<exists>r. simulate_python program schedule selections config admission timeline = Some r"
proof (cases "make_context program schedule selections config admission timeline")
  case (Inl e)
  then show ?thesis by (simp add: simulate_python_def)
next
  case (Inr cx)
  with run_simulation_total [OF make_context_sound [OF Inr assms]] show ?thesis
    by (simp add: simulate_python_def)
qed

theorem simulate_terminates_witness:
  "\<exists>r. simulate_python sample_program example_schedule (sample_choice ''redo'') example_config None False
     = Some r"
  using simulate_terminates [OF sample_program_valid example_config_valid] .


section \<open>Capacities\<close>

text \<open>What an admission promises: completions only give memory back.\<close>

definition admission_releases :: "simulation_admission option \<Rightarrow> bool" where
  "admission_releases admission \<longleftrightarrow> (case admission of None \<Rightarrow> True | Some a \<Rightarrow>
     (\<forall>d \<in> set (am_task_deltas a). td_completion_bytes d \<le> 0)
     \<and> (\<forall>d \<in> set (am_action_deltas a). ad_completion_bytes d \<le> 0)
     \<and> (\<forall>u. am_unlisted_delta_bytes a = Some u \<longrightarrow> u \<le> 0))"

lemma admission_completions:
  assumes "make_context program schedule selections config admission timeline = Inr cx"
    and "admission_releases admission"
  shows "completions_release cx"
  using assms(1)
proof (rule make_contextE)
  assume cx: "cx_admission cx = admission"
    "cx_task_physical_deltas cx = dict_of (map (\<lambda>d. (td_task_id d, d))
       (case admission of None \<Rightarrow> [] | Some a \<Rightarrow> am_task_deltas a))"
    "cx_action_physical_deltas cx = dict_of (map (\<lambda>d. (ad_action_index d, d))
       (case admission of None \<Rightarrow> [] | Some a \<Rightarrow> am_action_deltas a))"
  show "completions_release cx"
    using assms(2) unfolding completions_release_def admission_releases_def cx
    by (auto dest!: dict_of_SomeD split: option.splits)
qed

text \<open>
  C1. A simulation that succeeds stays within the memory it was given: the peak of every device
  and every snapshot of the timeline is at most the device's capacity (the admission's where it
  sets one), the spill peak at most the spill capacity. Only what an admission declares to
  happen at completions is assumed to release memory rather than take it.
\<close>

theorem simulate_within_capacity:
  assumes "simulate_python program schedule selections config admission timeline = Some (Inr result)"
    and "valid_program program" and "valid_config config" and "admission_releases admission"
    and "admission_device_config admission (map (\<lambda>d. (dc_device_id d, d)) (sc_devices config)) = Inr table"
  shows "(\<forall>p \<in> set (sr_device_peaks result). \<exists>c. map_of table (pk_device_id p) = Some c
        \<and> pk_total_bytes p \<le> dc_capacity_bytes c)
    \<and> sr_spill_peak_bytes result \<le> sc_spill_capacity_bytes config
    \<and> (\<forall>s \<in> set (sr_memory_timeline result). sn_spill_bytes s \<le> sc_spill_capacity_bytes config
        \<and> (\<forall>(d, bytes) \<in> set (sn_device_physical_bytes s). \<exists>c. map_of table d = Some c
             \<and> bytes \<le> dc_capacity_bytes c))"
  using assms(1)
proof (rule simulate_pythonE)
  fix cx
  assume mk: "make_context program schedule selections config admission timeline = Inr cx"
    and run: "run_simulation cx = Some (Inr result)"
  have same: "cx_config cx = config" "cx_device_config cx = table"
    using mk assms(5) by (auto elim!: make_contextE)
  show ?thesis
    using run_capacity [OF run make_context_sound [OF mk assms(2,3)] admission_completions [OF mk assms(4)]]
    by (simp add: fits_def snapshot_fits_def same)
qed

theorem simulate_within_capacity_witness:
  "\<exists>result. simulate_python sample_program example_schedule (sample_choice ''save'') example_config None
      True = Some (Inr result) \<and> sr_makespan_ns result = 18
    \<and> (\<forall>p \<in> set (sr_device_peaks result). pk_device_id p = ''gpu'' \<longrightarrow> pk_total_bytes p \<le> 12)
    \<and> sr_spill_peak_bytes result \<le> 20"
proof -
  from example_run obtain result where run: "simulate_python sample_program example_schedule
      (sample_choice ''save'') example_config None True = Some (Inr result)" "sr_makespan_ns result = 18"
    by (auto simp: simulate_python_def example_context)
  have table: "admission_device_config None (map (\<lambda>d. (dc_device_id d, d)) (sc_devices example_config))
      = Inr [(''gpu'', example_device)]"
    by (simp add: admission_device_config_def example_config_def example_device_def)
  have sizes: "dc_capacity_bytes example_device = 12" "sc_spill_capacity_bytes example_config = 20"
    by (simp_all add: example_config_def example_device_def)
  have "admission_releases None" by (simp add: admission_releases_def)
  from simulate_within_capacity [OF run(1) sample_program_valid example_config_valid this table]
  have "\<forall>p \<in> set (sr_device_peaks result). pk_device_id p = ''gpu'' \<longrightarrow> pk_total_bytes p \<le> 12"
    and "sr_spill_peak_bytes result \<le> 20"
    using sizes by (auto split: if_splits)
  with run show ?thesis by blast
qed


section \<open>The reported execution\<close>

lemma selected_tasks_sound:
  assumes "valid_program program" and "select_tasks program selections = Inr tasks"
  shows "distinct (map tk_task_id tasks)"
proof -
  have "distinct (map tk_task_id (pg_tasks program))"
    using assms(1) program_post_init_well_formed
    by (simp add: valid_program_def well_formed_def)
  then show ?thesis
    unfolding select_tasks_Inr(1) [OF assms] by (simp add: distinct_map_filter comp_def)
qed

text \<open>
  C6. The task intervals of a successful simulation are an execution of the selected tasks: one
  interval per task, in the order of the tasks, on the task's own lane, as long as its profile
  says, ready once every dependency has ended, started once every earlier task of the same lane
  has ended, and ended by the makespan.
\<close>

theorem simulate_task_intervals:
  assumes "simulate_python program schedule selections config admission timeline = Some (Inr result)"
    and "valid_program program" and "valid_config config"
    and "select_tasks program selections = Inr tasks"
  shows "intervals_of_tasks (dict_of (map (\<lambda>p. (pf_profile_id p, p)) (pg_profiles program))) tasks
    (sr_task_intervals result) (sr_makespan_ns result)"
  using assms(1)
proof (rule simulate_pythonE)
  fix cx
  assume mk: "make_context program schedule selections config admission timeline = Inr cx"
    and run: "run_simulation cx = Some (Inr result)"
  have cx: "cx_tasks cx = tasks"
    "cx_task_order cx = dict_of (map (\<lambda>(index, t). (tk_task_id t, index)) (enumerate 0 tasks))"
    "cx_profile_by_id cx = dict_of (map (\<lambda>p. (pf_profile_id p, p)) (pg_profiles program))"
    using mk assms(4) by (auto elim!: make_contextE)
  have "sound_tasks cx" using selected_tasks_sound [OF assms(2,4)] by (simp add: sound_tasks_def cx)
  with run_task_intervals [OF run make_context_sound [OF mk assms(2,3)]] show ?thesis
    by (simp add: cx)
qed

theorem simulate_task_intervals_witness:
  "\<exists>result. simulate_python sample_program example_schedule (sample_choice ''save'') example_config None
      True = Some (Inr result)
    \<and> map ti_task_id (sr_task_intervals result) = [''keep'', ''back'']
    \<and> ti_end_ns (sr_task_intervals result ! 0) \<le> ti_ready_ns (sr_task_intervals result ! 1)
    \<and> ti_end_ns (sr_task_intervals result ! 1) \<le> 18"
proof -
  from example_run obtain result where run: "simulate_python sample_program example_schedule
      (sample_choice ''save'') example_config None True = Some (Inr result)" "sr_makespan_ns result = 18"
    by (auto simp: simulate_python_def example_context)
  have tasks: "length example_tasks = 2" "tk_task_id (example_tasks ! 0) = ''keep''"
    "map tk_task_id example_tasks = [''keep'', ''back'']"
    "tk_dependencies (example_tasks ! 1) = [''keep'']"
    by (simp_all add: example_tasks_def sample_task_def)
  from simulate_task_intervals [OF run(1) sample_program_valid example_config_valid example_selected]
  show ?thesis
    using tasks run(2)
    by (intro exI [of _ result] conjI run(1)) (simp_all add: intervals_of_tasks_def)
qed


text \<open>
  C27. The copies of a successful simulation are the schedule's: each direction of each device
  carries them one at a time, numbered in the order in which the schedule triggers them, each
  started at or after the moment it became ready and ended by the makespan; every fetch and every
  eviction of the schedule is carried exactly once, and nothing else but write-backs.
\<close>

theorem simulate_transfers:
  assumes "simulate_python program schedule selections config admission timeline = Some (Inr result)"
    and "valid_program program" and "valid_config config" and "d \<in> dc_device_id ` set (sc_devices config)"
  shows "lane_history (filter (on_lane l d) (sr_transfer_intervals result))
    (lane_actions program (ms_actions schedule) l d) (sr_makespan_ns result)"
  using assms(1)
proof (rule simulate_pythonE)
  fix cx
  assume mk: "make_context program schedule selections config admission timeline = Inr cx"
    and run: "run_simulation cx = Some (Inr result)"
  have cx: "cx_program cx = program" "cx_schedule cx = schedule" "cx_config cx = config"
    using mk by (auto elim!: make_contextE)
  from run_transfers [OF run make_context_sound [OF mk assms(2,3)], of d l] assms(4) show ?thesis
    by (simp add: cx device_ids_def)
qed

theorem simulate_transfers_witness:
  "\<exists>result copy. simulate_python sample_program example_schedule (sample_choice ''save'') example_config None
      True = Some (Inr result)
    \<and> filter (on_lane EVICT_LANE ''gpu'') (sr_transfer_intervals result) = [copy]
    \<and> tr_alias_group_id copy = ''w'' \<and> tr_trigger_task_id copy = ''keep'' \<and> tr_end_ns copy \<le> 18"
proof -
  from example_run obtain result where run: "simulate_python sample_program example_schedule
      (sample_choice ''save'') example_config None True = Some (Inr result)" "sr_makespan_ns result = 18"
    by (auto simp: simulate_python_def example_context)
  let ?copies = "filter (on_lane EVICT_LANE ''gpu'') (sr_transfer_intervals result)"
  have dev: "''gpu'' \<in> dc_device_id ` set (sc_devices example_config)"
    by (simp add: example_config_def example_device_def)
  have acts: "lane_actions sample_program (ms_actions example_schedule) EVICT_LANE ''gpu''
      = [(''w'', ''keep'', EVICT)]"
    by code_simp
  from simulate_transfers [OF run(1) sample_program_valid example_config_valid dev, of EVICT_LANE]
  have hist: "subseq (map (snd \<circ> interval_key) ?copies) [(''w'', ''keep'', EVICT)]"
    "filter firm (map (snd \<circ> interval_key) ?copies) = [(''w'', ''keep'', EVICT)]"
    and ends: "\<forall>i \<in> set ?copies. tr_end_ns i \<le> 18"
    unfolding lane_history_def acts run(2) by (auto simp: firm_def)
  from hist(1) have "length ?copies \<le> 1" by (metis length_map list_emb_length length_Cons list.size(3) One_nat_def)
  moreover from hist(2) have "?copies \<noteq> []" by auto
  ultimately obtain copy where copy: "?copies = [copy]"
    by (cases ?copies) auto
  with hist ends run(1) show ?thesis
    by (intro exI [of _ result] exI [of _ copy]) (auto simp: interval_key_def firm_def split: if_splits)
qed

end
