(* ===== verification/PressureFit_Facts.thy ===== *)
theory PressureFit_Facts
  imports Simulator_Model
begin

text \<open>
  The facts PressureFit derives once per resolution
  (\<^verbatim>\<open>reference/python/pressurefit/facts.py\<close>), with the error of a search that cannot answer
  (\<^verbatim>\<open>src/shadowspill/errors.py\<close>). A boundary is the number of the task that has just completed,
  \<open>-1\<close> before the first. An alias is its position in the program, so every list of the facts is
  indexed by positions below its length. A Python set that is only tested and filled is a set.
\<close>

section \<open>Errors\<close>

record plan_infeasible =
  pi_message :: fstring
  pi_kind :: string
  pi_device_id :: "string option"
  pi_boundary_task_id :: "string option"
  pi_required_bytes :: "int option"
  pi_capacity_bytes :: "int option"

datatype plan_error = PlanFault py_error | PlanInfeasible plan_infeasible


section \<open>The facts\<close>

record planning_facts =
  fc_program :: shadow_spill_program
  fc_selections :: "task_alternative_choice list"
  fc_tasks :: "task_spec list"
  fc_task_index :: "string \<rightharpoonup> nat"
  fc_alias_ids :: "string list"
  fc_alias_index :: "string \<rightharpoonup> nat"
  fc_alias_sizes :: "int list"
  fc_alias_devices :: "string list"
  fc_alias_retain_spill_copy :: "bool list"
  fc_initial_locations :: "memory_location option list"
  fc_final_locations :: "memory_location option list"
  fc_anchors :: "int set list"
  fc_access_events :: "(int \<times> int) list list"
  fc_production_boundaries :: "int set list"
  fc_write_boundaries :: "int list list"
  fc_output_reservations :: "nat list list"
  fc_input_tasks :: "int list list"
  fc_first_input_tasks :: "int list"
  fc_object_capacity_by_device :: "(string \<times> int) list"
  fc_object_capacity_by_boundary :: "string \<rightharpoonup> int list"
  fc_task_ideal_end_ns :: "int list"

definition last_boundary :: "planning_facts \<Rightarrow> int" where
  "last_boundary facts = int (length (fc_tasks facts)) - 1"

definition profile_workspace :: "planning_facts \<Rightarrow> task_spec \<Rightarrow> py_error + int" where
  "profile_workspace facts task =
     bindE (dict_get (dict_of (map (\<lambda>p. (pf_profile_id p, p)) (pg_profiles (fc_program facts))))
       (tk_profile_id task)) (\<lambda>p. Inr (pf_workspace_bytes p))"

definition residency_entry ::
    "string \<Rightarrow> (string \<times> memory_location) list \<Rightarrow> nat \<times> residency_spec
     \<Rightarrow> py_error + (string \<times> memory_location) list" where
  "residency_entry field_name result = (\<lambda>(index, value).
     bindE (ensure (rd_alias_group_id value \<notin> fst ` set result)
       (ValueError [Lit field_name, Lit ''['', Num (int index), Lit ''] duplicates alias group '',
         Repr (rd_alias_group_id value)])) (\<lambda>_.
     Inr (result @ [(rd_alias_group_id value, rd_location value)])))"

definition residency_map ::
    "residency_spec list \<Rightarrow> string \<Rightarrow> py_error + (string \<times> memory_location) list" where
  "residency_map vs field_name = foldE (residency_entry field_name) [] (enumerate 0 vs)"

definition check_known_aliases ::
    "string list \<Rightarrow> string \<Rightarrow> (string \<times> memory_location) list \<Rightarrow> py_error + unit" where
  "check_known_aliases alias_ids field_name vs =
     (let unknown = set (map fst vs) - set alias_ids
      in ensure (unknown = {})
        (ValueError [Lit field_name, Lit '' contains unknown aliases: '',
          ReprList (sorted_list_of_set unknown)]))"

text \<open>The aliases with payload of a list of objects, each once.\<close>

definition payload_aliases :: "(string \<rightharpoonup> nat) \<Rightarrow> nat set \<Rightarrow> string list \<Rightarrow> py_error + nat list" where
  "payload_aliases object_alias zero_aliases ids =
     bindE (mapE (dict_get object_alias) ids) (\<lambda>as. Inr (remdups (filter (\<lambda>a. a \<notin> zero_aliases) as)))"

definition add_each :: "nat list \<Rightarrow> 'a \<Rightarrow> 'a set list \<Rightarrow> 'a set list" where
  "add_each as v sets = fold (\<lambda>a sets. sets[a := insert v (sets ! a)]) as sets"

definition append_each :: "nat list \<Rightarrow> 'a \<Rightarrow> 'a list list \<Rightarrow> 'a list list" where
  "append_each as v rows = fold (\<lambda>a rows. rows[a := rows ! a @ [v]]) as rows"

text \<open>What the first loop over the tasks fills.\<close>

record facts_build =
  fb_anchors :: "int set list"
  fb_accesses :: "(int \<times> int) set list"
  fb_productions :: "int set list"
  fb_writes :: "int set list"
  fb_reservations :: "nat list list"
  fb_consumers :: "int list list"
  fb_produced :: "nat set"
  fb_ideal_time :: int
  fb_ideal_end :: "int list"

definition record_task ::
    "(string \<rightharpoonup> nat) \<Rightarrow> nat set \<Rightarrow> (string \<rightharpoonup> task_profile) \<Rightarrow> facts_build \<Rightarrow> nat \<times> task_spec
     \<Rightarrow> py_error + facts_build" where
  "record_task object_alias zero_aliases profile_by_id b = (\<lambda>(i, task).
     let index = int i
     in bindE (payload_aliases object_alias zero_aliases (tk_inputs task)) (\<lambda>input_aliases.
        bindE (payload_aliases object_alias zero_aliases (tk_outputs task)) (\<lambda>output_aliases.
        bindE (payload_aliases object_alias zero_aliases (map mu_object_id (tk_mutations task)))
          (\<lambda>mutation_aliases.
        let read_aliases = remdups (input_aliases @ mutation_aliases);
            fresh_outputs = filter (\<lambda>a. a \<notin> set input_aliases \<and> a \<notin> set mutation_aliases)
              (sort output_aliases)
        in bindE (dict_get profile_by_id (tk_profile_id task)) (\<lambda>profile.
           Inr (b\<lparr>fb_anchors := add_each mutation_aliases index (add_each output_aliases index
                    (add_each read_aliases (index - 1) (fb_anchors b))),
                  fb_accesses := add_each output_aliases (index, index)
                    (add_each read_aliases (index - 1, index) (fb_accesses b)),
                  fb_productions := add_each output_aliases index (fb_productions b),
                  fb_writes := add_each mutation_aliases index
                    (add_each output_aliases index (fb_writes b)),
                  fb_reservations := fb_reservations b @ [fresh_outputs],
                  fb_consumers := append_each input_aliases index (fb_consumers b),
                  fb_produced := fb_produced b \<union> set output_aliases,
                  fb_ideal_time := fb_ideal_time b + pf_runtime_ns profile,
                  fb_ideal_end := fb_ideal_end b @ [fb_ideal_time b + pf_runtime_ns profile]\<rparr>))))))"

definition anchor_residency ::
    "(string \<rightharpoonup> nat) \<Rightarrow> nat set \<Rightarrow> int \<Rightarrow> int set list \<Rightarrow> string \<times> memory_location
     \<Rightarrow> py_error + int set list" where
  "anchor_residency alias_index zero_aliases boundary anchors = (\<lambda>(alias_id, location).
     bindE (dict_get alias_index alias_id) (\<lambda>a.
       Inr (if location = DEVICE \<and> a \<notin> zero_aliases
            then anchors[a := insert boundary (anchors ! a)] else anchors)))"

definition check_first_read ::
    "(string \<rightharpoonup> nat) \<Rightarrow> nat set \<Rightarrow> int set list \<Rightarrow> nat set \<Rightarrow> string list
     \<Rightarrow> (string \<times> memory_location) list \<Rightarrow> string \<Rightarrow> py_error + unit" where
  "check_first_read object_alias zero_aliases anchors produced alias_ids initial object_id =
     bindE (dict_get object_alias object_id) (\<lambda>a.
       if a \<in> zero_aliases then Inr ()
       else if anchors ! a = {} then Inr ()
       else
         let first_anchor = Min (anchors ! a); alias_id = alias_ids ! a
         in ensure (\<not> (first_anchor = - 1 \<and> a \<notin> produced \<and> map_of initial alias_id \<noteq> Some DEVICE))
              (ValueError [Lit ''input alias '', Repr alias_id, Lit '' has no initial residency on the '',
                Lit ''device or preceding fetch boundary'']))"

definition reserve_workspace ::
    "(string \<rightharpoonup> task_profile) \<Rightarrow> (string \<times> int) list \<Rightarrow> (string \<rightharpoonup> int list) \<Rightarrow> nat \<times> task_spec
     \<Rightarrow> plan_error + (string \<rightharpoonup> int list)" where
  "reserve_workspace profile_by_id object_capacity boundary_capacity = (\<lambda>(index, task).
     bindE (map_error PlanFault (dict_get profile_by_id (tk_profile_id task))) (\<lambda>profile.
     let workspace = pf_workspace_bytes profile; device_id = rs_device_id (tk_resource task)
     in bindE (map_error PlanFault (dict_get (map_of object_capacity) device_id)) (\<lambda>capacity.
        bindE (ensure (\<not> workspace > capacity)
          (PlanInfeasible
            \<lparr>pi_message = [Lit ''task workspace '', Num workspace, Lit '' exceeds capacity '',
               Num capacity, Lit '' on '', Repr device_id],
             pi_kind = ''workspace_capacity'', pi_device_id = Some device_id,
             pi_boundary_task_id = Some (tk_task_id task), pi_required_bytes = Some workspace,
             pi_capacity_bytes = Some capacity\<rparr>)) (\<lambda>_.
        bindE (map_error PlanFault (dict_get boundary_capacity device_id)) (\<lambda>row.
        Inr (boundary_capacity(device_id \<mapsto> row[index := capacity - workspace])))))))"

definition first_input_task :: "nat \<Rightarrow> (int \<times> int) list \<Rightarrow> int" where
  "first_input_task task_count events =
     (case map snd (filter (\<lambda>(boundary, task). boundary = task - 1) events) of
        [] \<Rightarrow> int task_count
      | t # ts \<Rightarrow> fold min ts t)"

definition location_of :: "(string \<times> memory_location) list \<Rightarrow> string \<Rightarrow> memory_location option" where
  "location_of residency alias_id = map_of residency alias_id"

text \<open>\<^verbatim>\<open>build_facts\<close>: the checks in the order of the source, then the records.\<close>

definition build_facts ::
    "shadow_spill_program \<Rightarrow> task_alternative_choice list \<Rightarrow> residency_spec list \<Rightarrow> residency_spec list
     \<Rightarrow> simulation_config \<Rightarrow> plan_error + planning_facts" where
  "build_facts program selections initial_residency final_residency config =
     bindE (map_error PlanFault (select_tasks program selections)) (\<lambda>tasks.
     let aliases = pg_alias_groups program;
         alias_ids = map ag_alias_group_id aliases;
         alias_index = dict_of (map (\<lambda>(index, i). (i, index)) (enumerate 0 alias_ids));
         zero_aliases = set (map fst (filter (\<lambda>(index, g). ag_size_bytes g = 0) (enumerate 0 aliases)))
     in bindE (map_error PlanFault (residency_map initial_residency ''initial_residency'')) (\<lambda>initial.
        bindE (map_error PlanFault (residency_map final_residency ''final_residency'')) (\<lambda>final.
        bindE (map_error PlanFault (check_known_aliases alias_ids ''initial_residency'' initial)) (\<lambda>_.
        bindE (map_error PlanFault (check_known_aliases alias_ids ''final_residency'' final)) (\<lambda>_.
        let configured = map (\<lambda>d. (dc_device_id d, d)) (sc_devices config);
            program_devices = set (map dv_device_id (pg_devices program))
        in bindE (ensure (set (map fst configured) = program_devices)
             (PlanFault (ValueError [Lit ''simulation config devices must exactly match the program devices: '',
               Lit ''expected '', ReprList (sorted_list_of_set program_devices), Lit '', got '',
               ReprList (sorted_list_of_set (set (map fst configured)))]))) (\<lambda>_.
           bindE (map_error PlanFault (mapE (\<lambda>b.
               bindE (dict_get alias_index (ob_alias_group_id b)) (\<lambda>a. Inr (ob_object_id b, a)))
               (pg_objects program))) (\<lambda>object_pairs.
           let object_alias = dict_of object_pairs;
               profile_by_id = dict_of (map (\<lambda>p. (pf_profile_id p, p)) (pg_profiles program));
               nothing = replicate (length aliases) {}
           in bindE (map_error PlanFault
                (foldE (anchor_residency alias_index zero_aliases (- 1)) nothing initial)) (\<lambda>anchors.
              bindE (map_error PlanFault
                (foldE (record_task object_alias zero_aliases profile_by_id)
                  \<lparr>fb_anchors = anchors, fb_accesses = replicate (length aliases) {},
                   fb_productions = nothing, fb_writes = nothing, fb_reservations = [],
                   fb_consumers = replicate (length aliases) [], fb_produced = {},
                   fb_ideal_time = 0, fb_ideal_end = []\<rparr> (enumerate 0 tasks))) (\<lambda>b.
              bindE (map_error PlanFault
                (foldE (anchor_residency alias_index zero_aliases (int (length tasks) - 1))
                  (fb_anchors b) final)) (\<lambda>anchors.
              bindE (map_error PlanFault
                (checkE (\<lambda>task. checkE (check_first_read object_alias zero_aliases anchors (fb_produced b)
                  alias_ids initial) (tk_inputs task)) tasks)) (\<lambda>_.
              let object_capacity = map (\<lambda>(i, d). (i, dc_capacity_bytes d)) configured;
                  rows = dict_of (map (\<lambda>(i, d). (i, replicate (length tasks + 1) (dc_capacity_bytes d)))
                    configured);
                  accesses = map sorted_list_of_set (fb_accesses b)
              in bindE (foldE (reserve_workspace profile_by_id object_capacity) rows (enumerate 0 tasks))
                   (\<lambda>boundary_capacity.
                 Inr \<lparr>fc_program = program, fc_selections = selections, fc_tasks = tasks,
                   fc_task_index = dict_of (map (\<lambda>(index, t). (tk_task_id t, index)) (enumerate 0 tasks)),
                   fc_alias_ids = alias_ids, fc_alias_index = alias_index,
                   fc_alias_sizes = map ag_size_bytes aliases,
                   fc_alias_devices = map ag_device_id aliases,
                   fc_alias_retain_spill_copy = map ag_retain_spill_copy aliases,
                   fc_initial_locations = map (location_of initial) alias_ids,
                   fc_final_locations = map (location_of final) alias_ids,
                   fc_anchors = anchors, fc_access_events = accesses,
                   fc_production_boundaries = fb_productions b,
                   fc_write_boundaries = map sorted_list_of_set (fb_writes b),
                   fc_output_reservations = fb_reservations b, fc_input_tasks = fb_consumers b,
                   fc_first_input_tasks = map (first_input_task (length tasks)) accesses,
                   fc_object_capacity_by_device = object_capacity,
                   fc_object_capacity_by_boundary = boundary_capacity,
                   fc_task_ideal_end_ns = fb_ideal_end b\<rparr>))))))))))))"

end
