(* ===== verification/PressureFit_Residency.thy ===== *)
theory PressureFit_Residency
  imports PressureFit_Facts
begin

text \<open>
  The residency intervals of PressureFit and their greedy reduction
  (\<^verbatim>\<open>reference/python/pressurefit/residency.py\<close>). Plans are built from the facts, so an alias is a
  position of every list; every other index is checked as Python checks it. The loop of
  \<^verbatim>\<open>reduce_pressure\<close> is a partial function, and its score cache is part of its state.
\<close>

section \<open>Lists updated in place\<close>

definition py_add :: "int list \<Rightarrow> int \<Rightarrow> int \<Rightarrow> py_error + int list" where
  "py_add xs i n =
     (if i < - int (length xs) \<or> int (length xs) \<le> i then Inl IndexError
      else let k = nat (i mod int (length xs)) in Inr (xs[k := xs ! k + n]))"

lemma py_add_in_range [simp]:
  "0 \<le> i \<Longrightarrow> i < int (length xs) \<Longrightarrow> py_add xs i n = Inr (xs[nat i := xs ! nat i + n])"
  by (simp add: py_add_def Let_def)

definition starts_with :: "string \<Rightarrow> string \<Rightarrow> bool" where
  "starts_with s p \<longleftrightarrow> take (length p) s = p"

definition ends_with :: "string \<Rightarrow> string \<Rightarrow> bool" where
  "ends_with s p \<longleftrightarrow> take (length p) (rev s) = rev p"


section \<open>Spans, plans and cuts\<close>

record span =
  sp_start :: int
  sp_end :: int

definition span_contains :: "span \<Rightarrow> int \<Rightarrow> bool" where
  "span_contains self boundary \<longleftrightarrow> sp_start self \<le> boundary \<and> boundary \<le> sp_end self"

definition span_key :: "span \<Rightarrow> int \<times> int" where
  "span_key self = (sp_start self, sp_end self)"

record residency_plan =
  rp_spans :: "span list list"
  rp_anchors :: "int set list"

definition plan_resident :: "residency_plan \<Rightarrow> nat \<Rightarrow> int \<Rightarrow> bool" where
  "plan_resident self alias boundary \<longleftrightarrow>
     list_ex (\<lambda>s. span_contains s boundary) (rp_spans self ! alias)"

record cut =
  ct_alias :: nat
  ct_span_index :: nat
  ct_start :: int
  ct_end :: int

definition cut_length :: "cut \<Rightarrow> int" where
  "cut_length self = max (ct_end self - ct_start self + 1) 0"

definition seed_span :: "int set \<Rightarrow> span list" where
  "seed_span anchors =
     (if anchors = {} then [] else [\<lparr>sp_start = Min anchors, sp_end = Max anchors\<rparr>])"

definition seed_from_anchors :: "int set list \<Rightarrow> residency_plan" where
  "seed_from_anchors anchors = \<lparr>rp_spans = map seed_span anchors, rp_anchors = anchors\<rparr>"

definition seed_residency :: "planning_facts \<Rightarrow> residency_plan" where
  "seed_residency facts = seed_from_anchors (fc_anchors facts)"


section \<open>Charged memory\<close>

definition effective_start :: "planning_facts \<Rightarrow> bool \<Rightarrow> nat \<Rightarrow> span \<Rightarrow> int" where
  "effective_start facts fetch_headroom alias s =
     (if fetch_headroom \<and> sp_start s > - 1 \<and> sp_start s \<notin> fc_production_boundaries facts ! alias
      then sp_start s - 1 else sp_start s)"

text \<open>An access from within the span by a task after the boundary.\<close>

definition accessed_later :: "planning_facts \<Rightarrow> nat \<Rightarrow> span \<Rightarrow> int \<Rightarrow> bool" where
  "accessed_later facts alias s boundary \<longleftrightarrow>
     list_ex (\<lambda>(anchor, task). sp_start s \<le> anchor \<and> anchor \<le> sp_end s \<and> task > boundary)
       (fc_access_events facts ! alias)"

fun charged_at :: "planning_facts \<Rightarrow> bool \<Rightarrow> nat \<Rightarrow> int \<Rightarrow> span list \<Rightarrow> bool" where
  "charged_at facts fetch_headroom alias boundary [] = False"
| "charged_at facts fetch_headroom alias boundary (s # ss) =
     (if \<not> (effective_start facts fetch_headroom alias s \<le> boundary \<and> boundary \<le> sp_end s)
      then charged_at facts fetch_headroom alias boundary ss
      else if boundary < 0 \<or> sp_end s \<noteq> boundary then True
      else if fc_final_locations facts ! alias = Some DEVICE then True
      else accessed_later facts alias s boundary)"

definition boundary_bytes ::
    "planning_facts \<Rightarrow> residency_plan \<Rightarrow> int \<Rightarrow> string \<Rightarrow> bool \<Rightarrow> int" where
  "boundary_bytes facts plan boundary device_id fetch_headroom =
     (let charged = (\<lambda>alias. charged_at facts fetch_headroom alias boundary (rp_spans plan ! alias));
          resident = sum_list (map (\<lambda>alias. fc_alias_sizes facts ! alias)
            (filter (\<lambda>alias. fc_alias_devices facts ! alias = device_id \<and> charged alias)
              [0..<length (fc_alias_ids facts)]));
          task = boundary + 1
      in if task < 0 \<or> task \<ge> int (length (fc_tasks facts)) then resident
         else resident + sum_list (map (\<lambda>alias. fc_alias_sizes facts ! alias)
           (filter (\<lambda>alias. fc_alias_devices facts ! alias = device_id \<and> \<not> charged alias)
             (fc_output_reservations facts ! nat task))))"

definition charged_span :: "planning_facts \<Rightarrow> bool \<Rightarrow> nat \<Rightarrow> span \<Rightarrow> span option" where
  "charged_span facts fetch_headroom alias s =
     (let start = effective_start facts fetch_headroom alias s;
          end_boundary =
            (if sp_end s \<ge> 0 \<and> fc_final_locations facts ! alias \<noteq> Some DEVICE
                \<and> \<not> accessed_later facts alias s (sp_end s)
             then sp_end s - 1 else sp_end s)
      in if end_boundary < start then None else Some \<lparr>sp_start = start, sp_end = end_boundary\<rparr>)"

definition charged_spans_of :: "planning_facts \<Rightarrow> bool \<Rightarrow> nat \<Rightarrow> span list \<Rightarrow> span list" where
  "charged_spans_of facts fetch_headroom alias ss = List.map_filter (charged_span facts fetch_headroom alias) ss"

type_synonym pressures = "string \<rightharpoonup> int list"

definition charge_interval :: "int \<Rightarrow> int list \<Rightarrow> span \<Rightarrow> py_error + int list" where
  "charge_interval size_bytes difference interval =
     bindE (py_add difference (sp_start interval + 1) size_bytes) (\<lambda>difference.
     py_add difference (sp_end interval + 1 + 1) (- size_bytes))"

definition charge_alias ::
    "planning_facts \<Rightarrow> bool \<Rightarrow> pressures \<times> span list list \<Rightarrow> nat \<times> span list
     \<Rightarrow> py_error + (pressures \<times> span list list)" where
  "charge_alias facts fetch_headroom = (\<lambda>(differences, all_charged) (alias, ss).
     let charged = charged_spans_of facts fetch_headroom alias ss; device_id = fc_alias_devices facts ! alias
     in bindE (dict_get differences device_id) (\<lambda>difference.
        bindE (foldE (charge_interval (fc_alias_sizes facts ! alias)) difference charged) (\<lambda>difference.
        Inr (differences(device_id \<mapsto> difference), all_charged @ [charged]))))"

fun running_sums :: "int \<Rightarrow> int list \<Rightarrow> int list" where
  "running_sums current [] = []"
| "running_sums current (x # xs) = (current + x) # running_sums (current + x) xs"

definition reserve_alias ::
    "planning_facts \<Rightarrow> span list list \<Rightarrow> nat \<Rightarrow> pressures \<Rightarrow> nat \<Rightarrow> py_error + pressures" where
  "reserve_alias facts all_charged task pressure alias =
     (if list_ex (\<lambda>s. span_contains s (int task - 1)) (all_charged ! alias) then Inr pressure
      else
        let device_id = fc_alias_devices facts ! alias
        in bindE (dict_get pressure device_id) (\<lambda>row.
           bindE (py_add row (int task) (fc_alias_sizes facts ! alias)) (\<lambda>row.
           Inr (pressure(device_id \<mapsto> row)))))"

definition pressure_by_device ::
    "planning_facts \<Rightarrow> residency_plan \<Rightarrow> bool \<Rightarrow> py_error + pressures" where
  "pressure_by_device facts plan fetch_headroom =
     (let boundary_count = length (fc_tasks facts) + 1;
          differences = dict_of (map (\<lambda>(d, _). (d, replicate (boundary_count + 1) 0))
            (fc_object_capacity_by_device facts))
      in bindE (foldE (charge_alias facts fetch_headroom) (differences, []) (enumerate 0 (rp_spans plan)))
           (\<lambda>(differences, all_charged).
         let pressure = (\<lambda>d. map_option (\<lambda>row. running_sums 0 (take boundary_count row)) (differences d))
         in foldE (\<lambda>pressure (task, reservations).
              foldE (reserve_alias facts all_charged task) pressure reservations)
              pressure (enumerate 0 (fc_output_reservations facts))))"

definition contributes ::
    "planning_facts \<Rightarrow> nat \<Rightarrow> span list \<Rightarrow> int \<Rightarrow> bool" where
  "contributes facts alias charged boundary \<longleftrightarrow>
     (0 \<le> boundary + 1 \<and> boundary + 1 < int (length (fc_output_reservations facts))
        \<and> alias \<in> set (fc_output_reservations facts ! nat (boundary + 1)))
     \<or> list_ex (\<lambda>s. span_contains s boundary) charged"

definition update_pressure_for_alias ::
    "planning_facts \<Rightarrow> residency_plan \<Rightarrow> residency_plan \<Rightarrow> nat \<Rightarrow> pressures \<Rightarrow> bool
     \<Rightarrow> py_error + pressures" where
  "update_pressure_for_alias facts previous current alias pressure fetch_headroom =
     (let previous_spans = charged_spans_of facts fetch_headroom alias (rp_spans previous ! alias);
          current_spans = charged_spans_of facts fetch_headroom alias (rp_spans current ! alias);
          device_id = fc_alias_devices facts ! alias;
          size_bytes = fc_alias_sizes facts ! alias
      in bindE (dict_get pressure device_id) (\<lambda>row.
         bindE (foldE (\<lambda>row boundary. py_add row (boundary + 1)
             (size_bytes * (of_bool (contributes facts alias current_spans boundary)
               - of_bool (contributes facts alias previous_spans boundary)))) row
             [- 1..last_boundary facts]) (\<lambda>row.
         Inr (pressure(device_id \<mapsto> row)))))"


section \<open>Cuts\<close>

function gap_start :: "int set \<Rightarrow> int \<Rightarrow> int \<Rightarrow> int" where
  "gap_start anchors lowest start =
     (if start > lowest \<and> start - 1 \<notin> anchors then gap_start anchors lowest (start - 1) else start)"
  by auto
termination by (relation "measure (\<lambda>(_, lowest, start). nat (start - lowest))") auto

function gap_end :: "int set \<Rightarrow> int \<Rightarrow> int \<Rightarrow> int" where
  "gap_end anchors highest e =
     (if e < highest \<and> e + 1 \<notin> anchors then gap_end anchors highest (e + 1) else e)"
  by auto
termination by (relation "measure (\<lambda>(_, highest, e). nat (highest - e))") auto

declare gap_start.simps [simp del] gap_end.simps [simp del]

definition gap_containing :: "int set \<Rightarrow> span \<Rightarrow> int \<Rightarrow> (int \<times> int) option" where
  "gap_containing anchors s boundary =
     (if boundary \<in> anchors \<or> \<not> span_contains s boundary then None
      else Some (gap_start anchors (sp_start s) boundary, gap_end anchors (sp_end s) boundary))"

definition cut_of_span ::
    "planning_facts \<Rightarrow> int set \<Rightarrow> int \<Rightarrow> nat \<Rightarrow> nat \<times> span \<Rightarrow> cut option" where
  "cut_of_span facts anchors boundary alias = (\<lambda>(span_index, s).
     let bounds =
       (case gap_containing anchors s boundary of
          None \<Rightarrow>
            if span_contains s boundary \<and> boundary \<in> anchors \<and> boundary < sp_end s
               \<and> \<not> list_ex (\<lambda>(anchor, task). anchor = boundary \<and> task > boundary)
                     (fc_access_events facts ! alias)
            then Some (boundary + 1, boundary) else None
        | Some gap \<Rightarrow> Some gap)
     in case bounds of
          None \<Rightarrow> None
        | Some (start, e) \<Rightarrow>
            if start \<le> - 1 then None
            else Some \<lparr>ct_alias = alias, ct_span_index = span_index, ct_start = start, ct_end = e\<rparr>)"

definition legal_cuts :: "planning_facts \<Rightarrow> residency_plan \<Rightarrow> int \<Rightarrow> string \<Rightarrow> cut list" where
  "legal_cuts facts plan boundary device_id =
     concat (map (\<lambda>(alias, ss).
         if fc_alias_devices facts ! alias \<noteq> device_id then []
         else List.map_filter (cut_of_span facts (rp_anchors plan ! alias) boundary alias) (enumerate 0 ss))
       (enumerate 0 (rp_spans plan)))"

definition transfer_runtime_ns ::
    "planning_facts \<Rightarrow> simulation_config \<Rightarrow> nat \<Rightarrow> bool \<Rightarrow> py_error + int" where
  "transfer_runtime_ns facts config alias to_device =
     (case filter (\<lambda>d. dc_device_id d = fc_alias_devices facts ! alias) (sc_devices config) of
        [] \<Rightarrow> Inl StopIteration
      | device # _ \<Rightarrow>
          let bandwidth = (if to_device then max (dc_fetch_solo device) (dc_fetch_concurrent device)
                else max (dc_evict_solo device) (dc_evict_concurrent device));
              size_bytes = fc_alias_sizes facts ! alias
          in py_floordiv (size_bytes * 1000000000 + bandwidth - 1) bandwidth)"

definition writeback_required :: "planning_facts \<Rightarrow> cut \<Rightarrow> bool" where
  "writeback_required facts c =
     (if \<not> fc_alias_retain_spill_copy facts ! ct_alias c then True
      else list_ex (\<lambda>boundary. boundary \<le> ct_start c - 1) (fc_write_boundaries facts ! ct_alias c))"

definition max_of :: "int list \<Rightarrow> int" where
  "max_of xs = fold max (tl xs) (hd xs)"

definition min_of :: "int list \<Rightarrow> int" where
  "min_of xs = fold min (tl xs) (hd xs)"

definition cut_score ::
    "planning_facts \<Rightarrow> simulation_config \<Rightarrow> cut \<Rightarrow> string \<Rightarrow> int \<Rightarrow> py_error + int list" where
  "cut_score facts config c score_kind boundary =
     bindE (transfer_runtime_ns facts config (ct_alias c) True) (\<lambda>fetch_ns.
     let writeback = (ct_start c \<ge> 0 \<and> writeback_required facts c)
     in bindE (if writeback then transfer_runtime_ns facts config (ct_alias c) False else Inr 0)
          (\<lambda>evict_ns.
        let events = fc_access_events facts ! ct_alias c;
            previous = map snd (filter (\<lambda>(position, task). position < ct_start c) events);
            following = map snd (filter (\<lambda>(position, task). position > ct_end c) events);
            ends = fc_task_ideal_end_ns facts;
            task_count = int (length (fc_tasks facts))
        in bindE (if previous \<noteq> [] then py_nth ends (max_of previous) else Inr 0) (\<lambda>prior_end.
           let next_task = (if following \<noteq> [] then min_of following else task_count)
           in bindE (if next_task \<noteq> 0 then py_nth ends (next_task - 1) else Inr 0) (\<lambda>next_begin.
              bindE (if boundary \<ge> 0 then py_nth ends boundary else Inr 0) (\<lambda>current_begin.
              bindE (if boundary + 1 < task_count then py_nth ends (boundary + 1) else Inr current_begin)
                (\<lambda>current_end.
              let se = max 0 (current_begin - prior_end);
                  sf = max 0 (next_begin - current_end);
                  exposed = min (2 ^ 64 - 1) (max 0 (evict_ns - se) + max 0 (fetch_ns - sf));
                  slack = se - evict_ns + sf - fetch_ns;
                  common = [of_bool writeback, - slack, - (fc_alias_sizes facts ! ct_alias c),
                    int (ct_alias c), ct_start c]
              in Inr (if score_kind = ''min-stall'' then exposed # common else common)))))))"

definition apply_cut :: "residency_plan \<Rightarrow> cut \<Rightarrow> residency_plan" where
  "apply_cut plan c =
     (let alias_spans = rp_spans plan ! ct_alias c;
          original = alias_spans ! ct_span_index c;
          remaining = take (ct_span_index c) alias_spans @ drop (Suc (ct_span_index c)) alias_spans;
          replacements =
            (if sp_start original < ct_start c
             then [\<lparr>sp_start = sp_start original, sp_end = ct_start c - 1\<rparr>] else [])
            @ (if ct_end c < sp_end original
               then [\<lparr>sp_start = ct_end c + 1, sp_end = sp_end original\<rparr>] else [])
      in \<lparr>rp_spans = (rp_spans plan)[ct_alias c := sort_key span_key (remaining @ replacements)],
          rp_anchors = rp_anchors plan\<rparr>)"


section \<open>Reduction\<close>

definition strategy_object_capacity ::
    "planning_facts \<Rightarrow> string \<Rightarrow> string \<Rightarrow> int \<Rightarrow> py_error + int" where
  "strategy_object_capacity facts device_id strategy boundary =
     bindE (dict_get (fc_object_capacity_by_boundary facts) device_id) (\<lambda>row.
     py_nth row (boundary + 1))"

type_synonym excess_site = "string \<times> int \<times> int \<times> int"

definition worse_excess :: "excess_site \<Rightarrow> excess_site option \<Rightarrow> bool" where
  "worse_excess candidate selected = (case candidate of (device_id, boundary, excess, used) \<Rightarrow>
     (case selected of
        None \<Rightarrow> True
      | Some (device_id', boundary', excess', used') \<Rightarrow>
          (- excess, boundary, device_id) < (- excess', boundary', device_id')))"

definition find_excess ::
    "planning_facts \<Rightarrow> string \<Rightarrow> (string \<times> int \<rightharpoonup> int) \<Rightarrow> pressures \<Rightarrow> py_error + excess_site option" where
  "find_excess facts strategy additions pressure =
     foldE (\<lambda>selected (boundary, device_id).
         bindE (dict_get pressure device_id) (\<lambda>row.
         bindE (py_nth row (boundary + 1)) (\<lambda>charged.
         let used = charged + (case additions (device_id, boundary) of None \<Rightarrow> 0 | Some n \<Rightarrow> n)
         in bindE (strategy_object_capacity facts device_id strategy boundary) (\<lambda>capacity.
            let candidate = (device_id, boundary, used - capacity, used)
            in Inr (if used \<le> capacity then selected
                    else if worse_excess candidate selected then Some candidate else selected)))))
       None (List.product [- 1..last_boundary facts] (map fst (fc_object_capacity_by_device facts)))"

type_synonym score_cache = "(cut \<times> string \<times> int \<rightharpoonup> int list) option"

text \<open>\<^verbatim>\<open>score\<close> with its memo: the score and the cache it leaves.\<close>

definition cached_score ::
    "planning_facts \<Rightarrow> simulation_config \<Rightarrow> string \<Rightarrow> int \<Rightarrow> score_cache \<Rightarrow> cut
     \<Rightarrow> py_error + (int list \<times> score_cache)" where
  "cached_score facts config score_kind boundary cache c =
     (case cache of
        None \<Rightarrow> bindE (cut_score facts config c score_kind boundary) (\<lambda>v. Inr (v, None))
      | Some m \<Rightarrow>
          (case m (c, score_kind, boundary) of
             Some v \<Rightarrow> Inr (v, cache)
           | None \<Rightarrow> bindE (cut_score facts config c score_kind boundary) (\<lambda>v.
               Inr (v, Some (m((c, score_kind, boundary) \<mapsto> v))))))"

text \<open>\<^verbatim>\<open>min(cuts, key=score)\<close>: the first cut of least score.\<close>

definition better_cut ::
    "planning_facts \<Rightarrow> simulation_config \<Rightarrow> string \<Rightarrow> int \<Rightarrow> (int list \<times> cut) option \<times> score_cache \<Rightarrow> cut
     \<Rightarrow> py_error + ((int list \<times> cut) option \<times> score_cache)" where
  "better_cut facts config score_kind boundary = (\<lambda>(best, cache) c.
     bindE (cached_score facts config score_kind boundary cache c) (\<lambda>(v, cache).
       Inr ((case best of
               None \<Rightarrow> Some (v, c)
             | Some (lowest, picked) \<Rightarrow> if v < lowest then Some (v, c) else best), cache)))"

definition no_legal_cut ::
    "planning_facts \<Rightarrow> string \<Rightarrow> string \<Rightarrow> int \<Rightarrow> int \<Rightarrow> plan_error + 'a" where
  "no_legal_cut facts strategy device_id boundary used =
     (let task_index = boundary + 1;
          task_id = (if 0 \<le> task_index \<and> task_index < int (length (fc_tasks facts))
            then Some (tk_task_id (fc_tasks facts ! nat task_index)) else None)
      in bindE (map_error PlanFault (strategy_object_capacity facts device_id strategy boundary))
           (\<lambda>capacity.
         Inl (PlanInfeasible
           \<lparr>pi_message = [Lit ''no legal residency cut can relieve '', Num used, Lit '' bytes at '',
              Lit ''boundary '', Num boundary, Lit '' on '', Repr device_id, Lit ''; capacity is '', Num capacity],
            pi_kind = ''analytic_capacity'', pi_device_id = Some device_id,
            pi_boundary_task_id = task_id, pi_required_bytes = Some used,
            pi_capacity_bytes = Some capacity\<rparr>)))"

definition score_kind_of :: "string \<Rightarrow> string" where
  "score_kind_of strategy = (if ends_with strategy ''transfer'' then ''min-transfer'' else ''min-stall'')"

text \<open>One iteration of the loop: nothing to do, or the plan after the chosen cut.\<close>

definition reduce_step ::
    "planning_facts \<Rightarrow> simulation_config \<Rightarrow> string \<Rightarrow> (string \<times> int \<rightharpoonup> int)
     \<Rightarrow> residency_plan \<times> pressures \<times> score_cache
     \<Rightarrow> plan_error + (residency_plan \<times> pressures \<times> score_cache) option" where
  "reduce_step facts config strategy additions = (\<lambda>(plan, pressure, cache).
     bindE (map_error PlanFault (find_excess facts strategy additions pressure)) (\<lambda>selected.
       case selected of
         None \<Rightarrow> Inr None
       | Some (device_id, boundary, excess, used) \<Rightarrow>
           bindE (map_error PlanFault
             (foldE (better_cut facts config (score_kind_of strategy) boundary) (None, cache)
               (legal_cuts facts plan boundary device_id))) (\<lambda>(best, cache).
             case best of
               None \<Rightarrow> no_legal_cut facts strategy device_id boundary used
             | Some (_, picked) \<Rightarrow>
                 let plan' = apply_cut plan picked
                 in bindE (map_error PlanFault (update_pressure_for_alias facts plan plan' (ct_alias picked)
                      pressure (starts_with strategy ''headroom''))) (\<lambda>pressure.
                    Inr (Some (plan', pressure, cache))))))"

partial_function (option) reduce_loop ::
    "planning_facts \<Rightarrow> simulation_config \<Rightarrow> string \<Rightarrow> (string \<times> int \<rightharpoonup> int)
     \<Rightarrow> residency_plan \<times> pressures \<times> score_cache
     \<Rightarrow> (plan_error + (residency_plan \<times> score_cache)) option" where
  "reduce_loop facts config strategy additions state =
     (case reduce_step facts config strategy additions state of
        Inl e \<Rightarrow> Some (Inl e)
      | Inr None \<Rightarrow> Some (Inr (fst state, snd (snd state)))
      | Inr (Some state') \<Rightarrow> reduce_loop facts config strategy additions state')"

declare reduce_loop.simps [code]

definition reduce_pressure ::
    "planning_facts \<Rightarrow> simulation_config \<Rightarrow> residency_plan \<Rightarrow> string \<Rightarrow> (string \<times> int \<rightharpoonup> int)
     \<Rightarrow> score_cache \<Rightarrow> (plan_error + (residency_plan \<times> score_cache)) option" where
  "reduce_pressure facts config seed strategy additions cache =
     (case pressure_by_device facts seed (starts_with strategy ''headroom'') of
        Inl e \<Rightarrow> Some (Inl (PlanFault e))
      | Inr pressure \<Rightarrow> reduce_loop facts config strategy additions (seed, pressure, cache))"


section \<open>The required floor\<close>

definition floor_charged :: "planning_facts \<Rightarrow> nat \<Rightarrow> int \<Rightarrow> bool" where
  "floor_charged facts alias boundary \<longleftrightarrow>
     boundary < 0 \<or> fc_final_locations facts ! alias = Some DEVICE
     \<or> list_ex (\<lambda>(access_boundary, task). access_boundary = boundary \<and> task > boundary)
         (fc_access_events facts ! alias)"

definition floor_alias ::
    "planning_facts \<Rightarrow> pressures \<times> int set list \<Rightarrow> nat \<times> int set \<Rightarrow> py_error + (pressures \<times> int set list)" where
  "floor_alias facts = (\<lambda>(pressure, all_charged) (alias, anchors).
     let charged = filter (floor_charged facts alias) (sorted_list_of_set anchors);
         device_id = fc_alias_devices facts ! alias
     in bindE (foldE (\<lambda>pressure boundary.
          bindE (dict_get pressure device_id) (\<lambda>row.
          bindE (py_add row (boundary + 1) (fc_alias_sizes facts ! alias)) (\<lambda>row.
          Inr (pressure(device_id \<mapsto> row))))) pressure charged) (\<lambda>pressure.
        Inr (pressure, all_charged @ [set charged])))"

definition floor_reservation ::
    "planning_facts \<Rightarrow> int set list \<Rightarrow> nat \<Rightarrow> pressures \<Rightarrow> nat \<Rightarrow> py_error + pressures" where
  "floor_reservation facts all_charged task pressure alias =
     (if int task - 1 \<in> all_charged ! alias then Inr pressure
      else
        let device_id = fc_alias_devices facts ! alias
        in bindE (dict_get pressure device_id) (\<lambda>row.
           bindE (py_add row (int task) (fc_alias_sizes facts ! alias)) (\<lambda>row.
           Inr (pressure(device_id \<mapsto> row)))))"

definition required_floor_pressure :: "planning_facts \<Rightarrow> py_error + pressures" where
  "required_floor_pressure facts =
     (let boundary_count = length (fc_tasks facts) + 1;
          start = dict_of (map (\<lambda>(d, _). (d, replicate boundary_count 0)) (fc_object_capacity_by_device facts))
      in bindE (foldE (floor_alias facts) (start, []) (enumerate 0 (fc_anchors facts)))
           (\<lambda>(pressure, all_charged).
         foldE (\<lambda>pressure (task, reservations).
           foldE (floor_reservation facts all_charged task) pressure reservations)
           pressure (enumerate 0 (fc_output_reservations facts))))"

definition check_floor_site ::
    "planning_facts \<Rightarrow> pressures \<Rightarrow> int \<times> string \<Rightarrow> plan_error + unit" where
  "check_floor_site facts pressure = (\<lambda>(boundary, device_id).
     bindE (map_error PlanFault (bindE (dict_get pressure device_id) (\<lambda>row. py_nth row (boundary + 1))))
       (\<lambda>required.
     bindE (map_error PlanFault (bindE (dict_get (fc_object_capacity_by_boundary facts) device_id)
         (\<lambda>row. py_nth row (boundary + 1)))) (\<lambda>capacity.
     let task_index = boundary + 1;
         task_id = (if 0 \<le> task_index \<and> task_index < int (length (fc_tasks facts))
           then Some (tk_task_id (fc_tasks facts ! nat task_index)) else None)
     in ensure (\<not> required > capacity)
          (PlanInfeasible
            \<lparr>pi_message = [Lit ''required inputs and outputs need '', Num required, Lit '' bytes at '',
               Lit (case task_id of None \<Rightarrow> ''initialization'' | Some t \<Rightarrow> t), Lit '' on '', Repr device_id,
               Lit '', exceeding '', Lit ''object capacity '', Num capacity],
             pi_kind = ''required_capacity'', pi_device_id = Some device_id,
             pi_boundary_task_id = task_id, pi_required_bytes = Some required,
             pi_capacity_bytes = Some capacity\<rparr>))))"

definition assert_required_floor :: "planning_facts \<Rightarrow> plan_error + unit" where
  "assert_required_floor facts =
     bindE (map_error PlanFault (required_floor_pressure facts)) (\<lambda>pressure.
     checkE (check_floor_site facts pressure)
       (List.product [- 1..last_boundary facts] (map fst (fc_object_capacity_by_device facts))))"

end
