(* ===== verification/PressureFit_Actions.thy ===== *)
theory PressureFit_Actions
  imports PressureFit_Residency "HOL-Library.AList"
begin

text \<open>
  From the residency spans of a plan to a schedule of memory actions
  (\<^verbatim>\<open>reference/python/pressurefit/actions.py\<close>). A dictionary that is iterated is the list of its
  pairs in insertion order. The loop of \<^verbatim>\<open>_fit_clamped_triggers\<close> is a partial function.
\<close>

section \<open>Python's bisection and sorting\<close>

function bisect_right :: "int list \<Rightarrow> int \<Rightarrow> nat \<Rightarrow> nat \<Rightarrow> py_error + nat" where
  "bisect_right a x lo hi =
     (if lo < hi then
        let mid = (lo + hi) div 2
        in bindE (py_nth a (int mid)) (\<lambda>v.
             if x < v then bisect_right a x lo mid else bisect_right a x (mid + 1) hi)
      else Inr lo)"
  by auto
termination by (relation "measure (\<lambda>(_, _, lo, hi). hi - lo)") auto

declare bisect_right.simps [simp del]

text \<open>\<^verbatim>\<open>sorted(xs, key=key)\<close> where the key may raise.\<close>

definition sorted_by :: "('a \<Rightarrow> 'e + 'k::linorder) \<Rightarrow> 'a list \<Rightarrow> 'e + 'a list" where
  "sorted_by key xs = bindE (mapE key xs) (\<lambda>keys. Inr (map snd (sort_key fst (zip keys xs))))"

text \<open>\<^verbatim>\<open>sorted(xs, key=key, reverse=True)\<close>, which keeps the order of equal keys.\<close>

definition sorted_reverse :: "('a \<Rightarrow> 'k::linorder) \<Rightarrow> 'a list \<Rightarrow> 'a list" where
  "sorted_reverse key xs = rev (sort_key key (rev xs))"

text \<open>\<^verbatim>\<open>max(xs, key=key)\<close>: the first element of greatest key.\<close>

fun max_by :: "('a \<Rightarrow> 'k::linorder) \<Rightarrow> 'a \<Rightarrow> 'a list \<Rightarrow> 'a" where
  "max_by key best [] = best"
| "max_by key best (x # xs) = max_by key (if key best < key x then x else best) xs"


section \<open>Reloads and departures\<close>

record reload =
  rl_alias :: nat
  rl_earliest_trigger :: int
  rl_latest_trigger :: int
  rl_entry_boundary :: int

record departure =
  dp_alias :: nat
  dp_trigger :: int
  dp_kind :: memory_action_kind

definition kind_order :: "memory_action_kind \<rightharpoonup> int" where
  "kind_order = [RELEASE \<mapsto> 0, EVICT \<mapsto> 1, FETCH \<mapsto> 2]"

definition action_priority ::
    "planning_facts \<Rightarrow> int \<Rightarrow> nat \<Rightarrow> memory_action_kind \<Rightarrow> py_error + (int \<times> int \<times> int \<times> nat)" where
  "action_priority facts trigger alias kind =
     bindE (if kind = FETCH then
              let consumers = fc_input_tasks facts ! alias
              in bindE (bisect_right consumers trigger 0 (length consumers)) (\<lambda>i.
                 if i < length consumers then py_nth consumers (int i) else Inr (int (length (fc_tasks facts))))
            else Inr (int (length (fc_tasks facts)))) (\<lambda>consumer.
     bindE (dict_get kind_order kind) (\<lambda>order.
     Inr (trigger, order, consumer, alias)))"

definition events_in_span :: "planning_facts \<Rightarrow> nat \<Rightarrow> span \<Rightarrow> (int \<times> int) list" where
  "events_in_span facts alias s =
     filter (\<lambda>event. sp_start s \<le> fst event \<and> fst event \<le> sp_end s) (fc_access_events facts ! alias)"

definition departure_task :: "planning_facts \<Rightarrow> nat \<Rightarrow> span \<Rightarrow> plan_error + int" where
  "departure_task facts alias s =
     (let events = events_in_span facts alias s
      in if events \<noteq> [] then Inr (max_of (map snd events))
         else if fc_tasks facts = [] then
           Inl (PlanInfeasible
             \<lparr>pi_message = [Lit ''alias '', Repr (fc_alias_ids facts ! alias), Lit '' requires a pre-task departure, '',
                Lit ''but the program has no task boundary''],
              pi_kind = ''missing_action_boundary'', pi_device_id = None, pi_boundary_task_id = None,
              pi_required_bytes = None, pi_capacity_bytes = None\<rparr>)
         else Inr (min (max (sp_end s) 0) (int (length (fc_tasks facts)) - 1)))"

definition entry_deadline :: "planning_facts \<Rightarrow> nat \<Rightarrow> span \<Rightarrow> int" where
  "entry_deadline facts alias s =
     (let events = events_in_span facts alias s
      in if events \<noteq> [] then min_of (map snd events) - 1 else last_boundary facts)"

definition has_write_since :: "planning_facts \<Rightarrow> nat \<Rightarrow> int \<Rightarrow> int \<Rightarrow> bool" where
  "has_write_since facts alias refreshed_at through \<longleftrightarrow>
     list_ex (\<lambda>boundary. refreshed_at < boundary \<and> boundary \<le> through) (fc_write_boundaries facts ! alias)"

definition fetch_runtime_ns :: "planning_facts \<Rightarrow> simulation_config \<Rightarrow> nat \<Rightarrow> py_error + int" where
  "fetch_runtime_ns facts config alias =
     (case filter (\<lambda>d. dc_device_id d = fc_alias_devices facts ! alias) (sc_devices config) of
        [] \<Rightarrow> Inl StopIteration
      | device # _ \<Rightarrow>
          py_floordiv (fc_alias_sizes facts ! alias * 1000000000
              + max (dc_fetch_solo device) (dc_fetch_concurrent device) - 1)
            (max (dc_fetch_solo device) (dc_fetch_concurrent device)))"

definition ideal_trigger_time :: "planning_facts \<Rightarrow> int \<Rightarrow> py_error + int" where
  "ideal_trigger_time facts trigger = (if trigger < 0 then Inr 0 else py_nth (fc_task_ideal_end_ns facts) trigger)"

definition latest_trigger_at_or_before :: "planning_facts \<Rightarrow> int \<Rightarrow> int \<Rightarrow> int \<Rightarrow> py_error + int" where
  "latest_trigger_at_or_before facts earliest latest target_time_ns =
     bindE (bisect_right (fc_task_ideal_end_ns facts) target_time_ns (nat (max earliest 0)) (nat (latest + 1)))
       (\<lambda>insertion. Inr (max earliest (int insertion - 1)))"

type_synonym triggers = "(reload \<times> int) list"

definition packed_step ::
    "planning_facts \<Rightarrow> simulation_config \<Rightarrow> triggers \<times> (string \<rightharpoonup> int) \<Rightarrow> reload
     \<Rightarrow> py_error + (triggers \<times> (string \<rightharpoonup> int))" where
  "packed_step facts config = (\<lambda>(selected, packed_start) r.
     let device_id = fc_alias_devices facts ! rl_alias r
     in bindE (ideal_trigger_time facts (rl_latest_trigger r)) (\<lambda>deadline.
        let finish = min deadline (case packed_start device_id of None \<Rightarrow> deadline | Some t \<Rightarrow> t)
        in bindE (fetch_runtime_ns facts config (rl_alias r)) (\<lambda>runtime.
           let desired_start = max (finish - runtime) 0
           in bindE (latest_trigger_at_or_before facts (rl_earliest_trigger r) (rl_latest_trigger r) desired_start)
                (\<lambda>trigger.
              bindE (ideal_trigger_time facts trigger) (\<lambda>start.
              Inr (AList.update r trigger selected, packed_start(device_id \<mapsto> max start desired_start)))))))"

definition packed_triggers ::
    "planning_facts \<Rightarrow> simulation_config \<Rightarrow> reload list \<Rightarrow> py_error + triggers" where
  "packed_triggers facts config reloads =
     bindE (foldE (packed_step facts config) ([], Map.empty)
       (sorted_reverse (\<lambda>r. (rl_latest_trigger r, rl_alias r)) reloads)) (\<lambda>(selected, _). Inr selected)"

definition latest_safe_step ::
    "planning_facts \<Rightarrow> simulation_config \<Rightarrow> triggers \<Rightarrow> reload \<Rightarrow> py_error + triggers" where
  "latest_safe_step facts config selected r =
     bindE (ideal_trigger_time facts (rl_latest_trigger r)) (\<lambda>deadline.
     bindE (fetch_runtime_ns facts config (rl_alias r)) (\<lambda>runtime.
     let desired_start = max (deadline - runtime) 0
     in bindE (latest_trigger_at_or_before facts (rl_earliest_trigger r) (rl_latest_trigger r) desired_start)
          (\<lambda>trigger. Inr (AList.update r trigger selected))))"

definition latest_safe_triggers ::
    "planning_facts \<Rightarrow> simulation_config \<Rightarrow> reload list \<Rightarrow> py_error + triggers" where
  "latest_safe_triggers facts config reloads = foldE (latest_safe_step facts config) [] reloads"


section \<open>Fitting the packed triggers\<close>

record fit_state =
  ft_result :: triggers
  ft_active :: "string \<rightharpoonup> reload list list"
  ft_counts :: "string \<rightharpoonup> (nat \<rightharpoonup> int) list"
  ft_used :: pressures

definition use_bytes :: "pressures \<Rightarrow> string \<Rightarrow> int \<Rightarrow> int \<Rightarrow> py_error + pressures" where
  "use_bytes used device_id position n =
     bindE (dict_get used device_id) (\<lambda>row.
     bindE (py_add row position n) (\<lambda>row. Inr (used(device_id \<mapsto> row))))"

definition add_active_at ::
    "planning_facts \<Rightarrow> residency_plan \<Rightarrow> reload \<Rightarrow> fit_state \<Rightarrow> int \<Rightarrow> py_error + fit_state" where
  "add_active_at facts plan r st boundary =
     (let device_id = fc_alias_devices facts ! rl_alias r
      in if plan_resident plan (rl_alias r) boundary then Inr st
         else
           bindE (dict_get (ft_active st) device_id) (\<lambda>rows.
           bindE (py_nth rows boundary) (\<lambda>row.
           let active = (ft_active st)(device_id \<mapsto>
                 rows[nat boundary := if r \<in> set row then row else row @ [r]])
           in bindE (dict_get (ft_counts st) device_id) (\<lambda>tables.
              bindE (py_nth tables boundary) (\<lambda>counts.
              let previous = (case counts (rl_alias r) of None \<Rightarrow> 0 | Some n \<Rightarrow> n);
                  tables = tables[nat boundary := counts(rl_alias r \<mapsto> previous + 1)]
              in bindE (if previous = 0 then use_bytes (ft_used st) device_id (boundary + 1)
                          (fc_alias_sizes facts ! rl_alias r) else Inr (ft_used st)) (\<lambda>used.
                 Inr (st\<lparr>ft_active := active, ft_counts := (ft_counts st)(device_id \<mapsto> tables),
                         ft_used := used\<rparr>)))))))"

definition add_active ::
    "planning_facts \<Rightarrow> residency_plan \<Rightarrow> fit_state \<Rightarrow> reload \<times> int \<Rightarrow> py_error + fit_state" where
  "add_active facts plan st = (\<lambda>(r, trigger).
     foldE (add_active_at facts plan r) st [max trigger 0..rl_entry_boundary r - 1])"

definition move_active_at ::
    "planning_facts \<Rightarrow> residency_plan \<Rightarrow> reload \<Rightarrow> fit_state \<Rightarrow> int \<Rightarrow> py_error + fit_state" where
  "move_active_at facts plan r st boundary =
     (let device_id = fc_alias_devices facts ! rl_alias r
      in if plan_resident plan (rl_alias r) boundary then Inr st
         else
           bindE (dict_get (ft_active st) device_id) (\<lambda>rows.
           bindE (py_nth rows boundary) (\<lambda>row.
           bindE (ensure (r \<in> set row) KeyError) (\<lambda>_.
           let active = (ft_active st)(device_id \<mapsto> rows[nat boundary := remove1 r row])
           in bindE (dict_get (ft_counts st) device_id) (\<lambda>tables.
              bindE (py_nth tables boundary) (\<lambda>counts.
              bindE (dict_get counts (rl_alias r)) (\<lambda>count.
              let remaining = count - 1;
                  counts = (if remaining = 0 then counts(rl_alias r := None) else counts(rl_alias r \<mapsto> remaining));
                  tables = tables[nat boundary := counts]
              in bindE (if remaining = 0 then use_bytes (ft_used st) device_id (boundary + 1)
                          (- (fc_alias_sizes facts ! rl_alias r)) else Inr (ft_used st)) (\<lambda>used.
                 Inr (st\<lparr>ft_active := active, ft_counts := (ft_counts st)(device_id \<mapsto> tables),
                         ft_used := used\<rparr>)))))))))"

definition move_active ::
    "planning_facts \<Rightarrow> residency_plan \<Rightarrow> reload \<Rightarrow> int \<Rightarrow> int \<Rightarrow> fit_state \<Rightarrow> py_error + fit_state" where
  "move_active facts plan r old_trigger new_trigger st =
     foldE (move_active_at facts plan r) st [max old_trigger 0..max new_trigger 0 - 1]"

definition fit_start ::
    "planning_facts \<Rightarrow> residency_plan \<Rightarrow> triggers \<Rightarrow> bool \<Rightarrow> py_error + fit_state" where
  "fit_start facts plan selected fetch_headroom =
     bindE (pressure_by_device facts plan fetch_headroom) (\<lambda>base_pressure.
     let devices = map fst (fc_object_capacity_by_device facts); n = length (fc_tasks facts)
     in foldE (add_active facts plan)
          \<lparr>ft_result = selected,
           ft_active = dict_of (map (\<lambda>d. (d, replicate n [])) devices),
           ft_counts = dict_of (map (\<lambda>d. (d, replicate n Map.empty)) devices),
           ft_used = base_pressure\<rparr> selected)"

text \<open>The reloads in flight at a boundary over its capacity that may still be moved later.\<close>

definition movable_at ::
    "planning_facts \<Rightarrow> fit_state \<Rightarrow> string \<times> int \<Rightarrow> py_error + reload list" where
  "movable_at facts st = (\<lambda>(device_id, boundary).
     bindE (dict_get (fc_object_capacity_by_boundary facts) device_id) (\<lambda>capacities.
     bindE (py_nth capacities (boundary + 1)) (\<lambda>capacity.
     bindE (dict_get (ft_used st) device_id) (\<lambda>row.
     bindE (py_nth row (boundary + 1)) (\<lambda>used.
     if used \<le> capacity then Inr []
     else
       bindE (dict_get (ft_active st) device_id) (\<lambda>rows.
       bindE (py_nth rows boundary) (\<lambda>active.
       bindE (mapE (\<lambda>r. bindE (dict_get (map_of (ft_result st)) r) (\<lambda>t. Inr (r, t))) active) (\<lambda>placed.
       Inr (map fst (filter (\<lambda>(r, t). t < rl_latest_trigger r) placed))))))))))"

fun first_move ::
    "planning_facts \<Rightarrow> fit_state \<Rightarrow> (string \<times> int) list \<Rightarrow> py_error + (int \<times> reload) option" where
  "first_move facts st [] = Inr None"
| "first_move facts st (site # sites) =
     bindE (movable_at facts st site) (\<lambda>movable.
       case movable of
         [] \<Rightarrow> first_move facts st sites
       | r # rest \<Rightarrow> Inr (Some (snd site,
           max_by (\<lambda>r. (rl_entry_boundary r, fc_alias_sizes facts ! rl_alias r, rl_alias r)) r rest)))"

definition fit_step ::
    "planning_facts \<Rightarrow> residency_plan \<Rightarrow> fit_state \<Rightarrow> py_error + fit_state option" where
  "fit_step facts plan st =
     bindE (first_move facts st
       (List.product (map fst (fc_object_capacity_by_device facts)) [0..last_boundary facts])) (\<lambda>selected.
       case selected of
         None \<Rightarrow> Inr None
       | Some (boundary, picked) \<Rightarrow>
           bindE (dict_get (map_of (ft_result st)) picked) (\<lambda>old_trigger.
           let new_trigger = min (boundary + 1) (rl_latest_trigger picked)
           in bindE (move_active facts plan picked old_trigger new_trigger
                (st\<lparr>ft_result := AList.update picked new_trigger (ft_result st)\<rparr>)) (\<lambda>st. Inr (Some st))))"

partial_function (option) fit_loop ::
    "planning_facts \<Rightarrow> residency_plan \<Rightarrow> fit_state \<Rightarrow> (py_error + triggers) option" where
  "fit_loop facts plan st =
     (case fit_step facts plan st of
        Inl e \<Rightarrow> Some (Inl e)
      | Inr None \<Rightarrow> Some (Inr (ft_result st))
      | Inr (Some st') \<Rightarrow> fit_loop facts plan st')"

declare fit_loop.simps [code]

definition fit_clamped_triggers ::
    "planning_facts \<Rightarrow> residency_plan \<Rightarrow> triggers \<Rightarrow> bool \<Rightarrow> (py_error + triggers) option" where
  "fit_clamped_triggers facts plan selected fetch_headroom =
     (case fit_start facts plan selected fetch_headroom of
        Inl e \<Rightarrow> Some (Inl e)
      | Inr st \<Rightarrow> fit_loop facts plan st)"

definition choose_fetch_triggers ::
    "planning_facts \<Rightarrow> simulation_config \<Rightarrow> residency_plan \<Rightarrow> reload list \<Rightarrow> string \<Rightarrow> bool
     \<Rightarrow> (py_error + triggers) option" where
  "choose_fetch_triggers facts config plan reloads rule fetch_headroom =
     (if rule = ''demand'' then
        Some (Inr (fold (\<lambda>r selected. AList.update r (rl_latest_trigger r) selected) reloads []))
      else if rule = ''latest-safe'' then Some (latest_safe_triggers facts config reloads)
      else (case packed_triggers facts config reloads of
          Inl e \<Rightarrow> Some (Inl e)
        | Inr selected \<Rightarrow>
            if rule = ''packed-fit'' then fit_clamped_triggers facts plan selected fetch_headroom
            else Some (Inr selected)))"


section \<open>Emission\<close>

definition initial_schedule :: "planning_facts \<Rightarrow> py_error + residency_spec list" where
  "initial_schedule facts =
     mapE (\<lambda>(alias, location). construct residency_spec_post_init
         \<lparr>rd_alias_group_id = fc_alias_ids facts ! alias, rd_location = the location\<rparr>)
       (filter (\<lambda>(alias, location). \<not> (location = None \<or> fc_alias_sizes facts ! alias = 0))
         (enumerate 0 (fc_initial_locations facts)))"

definition final_schedule :: "planning_facts \<Rightarrow> py_error + residency_spec list" where
  "final_schedule facts =
     mapE (\<lambda>(alias, location). construct residency_spec_post_init
         \<lparr>rd_alias_group_id = fc_alias_ids facts ! alias, rd_location = the location\<rparr>)
       (filter (\<lambda>(alias, location). location \<noteq> None \<and> fc_alias_sizes facts ! alias \<noteq> 0)
         (enumerate 0 (fc_final_locations facts)))"

text \<open>What the loop over the spans of one alias carries.\<close>

type_synonym emission = "departure list \<times> reload list \<times> int \<times> departure option"

definition entry_reload ::
    "planning_facts \<Rightarrow> nat \<Rightarrow> span \<Rightarrow> departure option \<Rightarrow> plan_error + reload list" where
  "entry_reload facts alias s previous_departure =
     (let produced_at_entry = (sp_start s \<in> fc_production_boundaries facts ! alias);
          already_present = (sp_start s = - 1 \<and> fc_initial_locations facts ! alias = Some DEVICE)
      in if \<not> already_present \<and> \<not> produced_at_entry then
           let latest = entry_deadline facts alias s;
               earliest = (case previous_departure of None \<Rightarrow> 0 | Some d \<Rightarrow> dp_trigger d + 1)
           in bindE (ensure (\<not> latest < earliest) (PlanInfeasible
                \<lparr>pi_message = [Lit ''alias '', Repr (fc_alias_ids facts ! alias), Lit '' has no legal fetch '',
                   Lit ''boundary between tasks '', Num earliest, Lit '' and '', Num latest],
                 pi_kind = ''fetch_window'', pi_device_id = Some (fc_alias_devices facts ! alias),
                 pi_boundary_task_id = None, pi_required_bytes = None, pi_capacity_bytes = None\<rparr>)) (\<lambda>_.
              Inr [\<lparr>rl_alias = alias, rl_earliest_trigger = earliest, rl_latest_trigger = latest,
                    rl_entry_boundary = sp_start s\<rparr>])
         else Inr [])"

definition emit_span ::
    "planning_facts \<Rightarrow> nat \<Rightarrow> nat \<Rightarrow> emission \<Rightarrow> nat \<times> span \<Rightarrow> plan_error + emission" where
  "emit_span facts alias span_count =
     (\<lambda>(departures, reloads, spill_refreshed, previous_departure) (span_index, s).
     bindE (entry_reload facts alias s previous_departure) (\<lambda>entry.
     bindE (departure_task facts alias s) (\<lambda>task.
     let unchanged = (fc_alias_retain_spill_copy facts ! alias
           \<and> \<not> has_write_since facts alias spill_refreshed (sp_end s));
         leaves = (\<lambda>kind. \<lparr>dp_alias = alias, dp_trigger = task, dp_kind = kind\<rparr>);
         kept_or_evicted = leaves (if unchanged then RELEASE else EVICT)
     in if span_index + 1 < span_count then
          Inr (departures @ [kept_or_evicted], reloads @ entry,
               if unchanged then spill_refreshed else sp_end s, Some kept_or_evicted)
        else (case fc_final_locations facts ! alias of
            Some DEVICE \<Rightarrow> Inr (departures, reloads @ entry, spill_refreshed, previous_departure)
          | Some SPILL \<Rightarrow>
              Inr (departures @ [kept_or_evicted], reloads @ entry, spill_refreshed, Some kept_or_evicted)
          | None \<Rightarrow>
              Inr (departures @ [leaves RELEASE], reloads @ entry, spill_refreshed, Some (leaves RELEASE))))))"

definition emit_alias ::
    "planning_facts \<Rightarrow> departure list \<times> reload list \<Rightarrow> nat \<times> span list
     \<Rightarrow> plan_error + (departure list \<times> reload list)" where
  "emit_alias facts = (\<lambda>(departures, reloads) (alias, ss).
     if ss = [] \<or> fc_alias_sizes facts ! alias = 0 then Inr (departures, reloads)
     else
       let spill_refreshed = (if fc_initial_locations facts ! alias = Some SPILL
             \<or> fc_alias_retain_spill_copy facts ! alias then - 1 else - 2)
       in bindE (foldE (emit_span facts alias (length ss)) (departures, reloads, spill_refreshed, None)
            (enumerate 0 ss)) (\<lambda>(departures, reloads, _, _). Inr (departures, reloads)))"

type_synonym task_table = "(int \<times> (nat \<times> memory_action_kind) list) list"

definition add_action :: "int \<Rightarrow> nat \<times> memory_action_kind \<Rightarrow> task_table \<Rightarrow> task_table" where
  "add_action task item table = AList.map_default task [item] (\<lambda>items. items @ [item]) table"

definition actions_by_task ::
    "departure list \<Rightarrow> reload list \<Rightarrow> triggers \<Rightarrow> py_error + task_table" where
  "actions_by_task departures reloads selected =
     foldE (\<lambda>table r. bindE (dict_get (map_of selected) r) (\<lambda>t. Inr (add_action t (rl_alias r, FETCH) table)))
       (fold (\<lambda>d table. add_action (dp_trigger d) (dp_alias d, dp_kind d) table) departures []) reloads"

definition task_memory_actions ::
    "planning_facts \<Rightarrow> task_table \<Rightarrow> int \<Rightarrow> py_error + memory_action list" where
  "task_memory_actions facts table task =
     bindE (dict_get (map_of table) task) (\<lambda>items.
     bindE (sorted_by (\<lambda>(alias, kind). action_priority facts task alias kind) items) (\<lambda>items.
     mapE (\<lambda>(alias, kind).
         bindE (py_nth (fc_tasks facts) task) (\<lambda>trigger.
         construct memory_action_post_init
           \<lparr>ma_trigger_task_id = tk_task_id trigger, ma_alias_group_id = fc_alias_ids facts ! alias,
            ma_kind = kind\<rparr>)) items))"

definition assemble_schedule ::
    "planning_facts \<Rightarrow> departure list \<Rightarrow> reload list \<Rightarrow> triggers \<Rightarrow> py_error + memory_schedule" where
  "assemble_schedule facts departures reloads selected =
     bindE (actions_by_task departures reloads selected) (\<lambda>table.
     bindE (mapE (task_memory_actions facts table) (sort (map fst table))) (\<lambda>actions.
     bindE (initial_schedule facts) (\<lambda>initial.
     bindE (final_schedule facts) (\<lambda>final.
     bindE (construct memory_schedule_post_init
       \<lparr>ms_initial_residency = initial, ms_actions = concat actions, ms_final_residency = final\<rparr>) (\<lambda>schedule.
     bindE (validate_selected schedule (fc_program facts) (fc_tasks facts)) (\<lambda>_.
     Inr schedule))))))"

definition emit_schedule ::
    "planning_facts \<Rightarrow> simulation_config \<Rightarrow> residency_plan \<Rightarrow> string \<Rightarrow> bool
     \<Rightarrow> (plan_error + memory_schedule) option" where
  "emit_schedule facts config plan fetch_rule fetch_headroom =
     (case foldE (emit_alias facts) ([], []) (enumerate 0 (rp_spans plan)) of
        Inl e \<Rightarrow> Some (Inl e)
      | Inr (departures, reloads) \<Rightarrow>
          map_option (\<lambda>selected. map_error PlanFault (bindE selected (assemble_schedule facts departures reloads)))
            (choose_fetch_triggers facts config plan reloads fetch_rule fetch_headroom))"

end
