(* ===== verification/PressureFit_Facts_Sound.thy ===== *)
theory PressureFit_Facts_Sound
  imports PressureFit_Facts Simulator_Context
begin

text \<open>
  What the facts of a resolution are: the anchors and accesses of an alias in terms of the tasks
  that read, write and mutate it, and the shape every consumer of the facts relies on.
\<close>

section \<open>Tables indexed by alias\<close>

lemma add_each_length [simp]: "length (add_each as v sets) = length sets"
  by (induction as arbitrary: sets) (simp_all add: add_each_def)

lemma append_each_length [simp]: "length (append_each as v rows) = length rows"
  by (induction as arbitrary: rows) (simp_all add: append_each_def)

lemma nth_update_if: "a < length xs \<Longrightarrow> xs[i := v] ! a = (if i = a then v else xs ! a)"
  by simp

lemma add_each_nth [simp]:
  "a < length sets \<Longrightarrow> add_each as v sets ! a = (if a \<in> set as then insert v (sets ! a) else sets ! a)"
  unfolding add_each_def by (induction as arbitrary: sets) (auto simp: nth_update_if)

definition touched :: "(string \<rightharpoonup> nat) \<Rightarrow> nat set \<Rightarrow> string list \<Rightarrow> nat set" where
  "touched oa zero ids = {a. a \<notin> zero \<and> (\<exists>x \<in> set ids. oa x = Some a)}"

lemma payload_aliases_Inr:
  assumes "payload_aliases oa zero ids = Inr as"
  shows "distinct as" and "set as = touched oa zero ids"
proof -
  from assms obtain xs where xs: "mapE (dict_get oa) ids = Inr xs"
    and as: "as = remdups (filter (\<lambda>a. a \<notin> zero) xs)" by (auto simp: payload_aliases_def)
  have "set xs = {a. \<exists>x \<in> set ids. oa x = Some a}"
    using xs by (induction ids arbitrary: xs) (auto simp: dict_get_Inr_iff)
  then show "distinct as" and "set as = touched oa zero ids" by (auto simp: as touched_def)
qed

abbreviation reads :: "(string \<rightharpoonup> nat) \<Rightarrow> nat set \<Rightarrow> task_spec \<Rightarrow> nat set" where
  "reads oa zero t \<equiv> touched oa zero (tk_inputs t)"

abbreviation produces :: "(string \<rightharpoonup> nat) \<Rightarrow> nat set \<Rightarrow> task_spec \<Rightarrow> nat set" where
  "produces oa zero t \<equiv> touched oa zero (tk_outputs t)"

abbreviation mutates :: "(string \<rightharpoonup> nat) \<Rightarrow> nat set \<Rightarrow> task_spec \<Rightarrow> nat set" where
  "mutates oa zero t \<equiv> touched oa zero (map mu_object_id (tk_mutations t))"

section \<open>The loop over the tasks\<close>

definition needs_before :: "(string \<rightharpoonup> nat) \<Rightarrow> nat set \<Rightarrow> (nat \<times> task_spec) list \<Rightarrow> nat \<Rightarrow> int set" where
  "needs_before oa zero ys a = {int i - 1 |i t. (i, t) \<in> set ys \<and> a \<in> reads oa zero t \<union> mutates oa zero t}"

definition leaves_after :: "(string \<rightharpoonup> nat) \<Rightarrow> nat set \<Rightarrow> (nat \<times> task_spec) list \<Rightarrow> nat \<Rightarrow> int set" where
  "leaves_after oa zero ys a = {int i |i t. (i, t) \<in> set ys \<and> a \<in> produces oa zero t \<union> mutates oa zero t}"

definition accesses_of :: "(string \<rightharpoonup> nat) \<Rightarrow> nat set \<Rightarrow> (nat \<times> task_spec) list \<Rightarrow> nat \<Rightarrow> (int \<times> int) set" where
  "accesses_of oa zero ys a =
     {(int i - 1, int i) |i t. (i, t) \<in> set ys \<and> a \<in> reads oa zero t \<union> mutates oa zero t}
     \<union> {(int i, int i) |i t. (i, t) \<in> set ys \<and> a \<in> produces oa zero t}"

definition fresh_row :: "(string \<rightharpoonup> nat) \<Rightarrow> nat set \<Rightarrow> task_spec \<Rightarrow> nat list \<Rightarrow> bool" where
  "fresh_row oa zero t row \<longleftrightarrow> distinct row
     \<and> set row = produces oa zero t - reads oa zero t - mutates oa zero t"

definition build_ok ::
    "(string \<rightharpoonup> nat) \<Rightarrow> nat set \<Rightarrow> int set list \<Rightarrow> (nat \<times> task_spec) list \<Rightarrow> facts_build \<Rightarrow> bool" where
  "build_ok oa zero base ys b \<longleftrightarrow>
     length (fb_anchors b) = length base \<and> length (fb_accesses b) = length base
     \<and> length (fb_productions b) = length base \<and> length (fb_writes b) = length base
     \<and> length (fb_consumers b) = length base
     \<and> length (fb_ideal_end b) = length ys
     \<and> (\<forall>a < length base. fb_anchors b ! a = base ! a \<union> needs_before oa zero ys a \<union> leaves_after oa zero ys a)
     \<and> (\<forall>a < length base. fb_accesses b ! a = accesses_of oa zero ys a)
     \<and> (\<forall>a < length base. fb_productions b ! a = {int i |i t. (i, t) \<in> set ys \<and> a \<in> produces oa zero t})
     \<and> (\<forall>a < length base. fb_writes b ! a = leaves_after oa zero ys a)
     \<and> list_all2 (\<lambda>y row. fresh_row oa zero (snd y) row) ys (fb_reservations b)"

lemma snoc_sets:
  "needs_before oa zero (ys @ [(i, t)]) a = needs_before oa zero ys a
     \<union> (if a \<in> reads oa zero t \<union> mutates oa zero t then {int i - 1} else {})"
  "leaves_after oa zero (ys @ [(i, t)]) a = leaves_after oa zero ys a
     \<union> (if a \<in> produces oa zero t \<union> mutates oa zero t then {int i} else {})"
  "accesses_of oa zero (ys @ [(i, t)]) a = accesses_of oa zero ys a
     \<union> (if a \<in> reads oa zero t \<union> mutates oa zero t then {(int i - 1, int i)} else {})
     \<union> (if a \<in> produces oa zero t then {(int i, int i)} else {})"
  unfolding needs_before_def leaves_after_def accesses_of_def by auto

lemma record_task_ok:
  assumes "build_ok oa zero base ys b" and "record_task oa zero profile_by_id b (i, t) = Inr b'"
  shows "build_ok oa zero base (ys @ [(i, t)]) b'"
proof -
  from assms(2) obtain ins outs muts and profile :: task_profile where
    ins: "payload_aliases oa zero (tk_inputs t) = Inr ins"
    and outs: "payload_aliases oa zero (tk_outputs t) = Inr outs"
    and muts: "payload_aliases oa zero (map mu_object_id (tk_mutations t)) = Inr muts"
    and b': "b' = b\<lparr>fb_anchors := add_each muts (int i) (add_each outs (int i)
                    (add_each (remdups (ins @ muts)) (int i - 1) (fb_anchors b))),
                  fb_accesses := add_each outs (int i, int i)
                    (add_each (remdups (ins @ muts)) (int i - 1, int i) (fb_accesses b)),
                  fb_productions := add_each outs (int i) (fb_productions b),
                  fb_writes := add_each muts (int i) (add_each outs (int i) (fb_writes b)),
                  fb_reservations := fb_reservations b @
                    [filter (\<lambda>a. a \<notin> set ins \<and> a \<notin> set muts) (sort outs)],
                  fb_consumers := append_each ins (int i) (fb_consumers b),
                  fb_produced := fb_produced b \<union> set outs,
                  fb_ideal_time := fb_ideal_time b + pf_runtime_ns profile,
                  fb_ideal_end := fb_ideal_end b @ [fb_ideal_time b + pf_runtime_ns profile]\<rparr>"
    by (auto simp: record_task_def Let_def)
  note sets = payload_aliases_Inr [OF ins] payload_aliases_Inr [OF outs] payload_aliases_Inr [OF muts]
  have "fresh_row oa zero t (filter (\<lambda>a. a \<notin> set ins \<and> a \<notin> set muts) (sort outs))"
    using sets by (auto simp: fresh_row_def)
  with assms(1) show ?thesis
    unfolding build_ok_def snoc_sets b'
    using sets by (auto intro: list_all2_appendI)
qed

lemma record_tasks_ok:
  assumes "foldE (record_task oa zero profile_by_id) b xs = Inr b'" and "build_ok oa zero base [] b"
  shows "build_ok oa zero base xs b'"
  using assms
proof (rule foldE_invariant [where P = "build_ok oa zero base"])
  fix ys x zs t t'
  assume "build_ok oa zero base ys t" "record_task oa zero profile_by_id t x = Inr t'"
  then show "build_ok oa zero base (ys @ [x]) t'"
    by (cases x) (auto intro: record_task_ok)
qed

definition placed :: "(string \<rightharpoonup> nat) \<Rightarrow> nat set \<Rightarrow> (string \<times> memory_location) list \<Rightarrow> nat \<Rightarrow> bool" where
  "placed alias_index zero residency a \<longleftrightarrow> a \<notin> zero
     \<and> (\<exists>alias_id. (alias_id, DEVICE) \<in> set residency \<and> alias_index alias_id = Some a)"

lemma anchor_residencies:
  assumes "foldE (anchor_residency alias_index zero v) anchors xs = Inr anchors'"
  shows "length anchors' = length anchors \<and> (\<forall>a < length anchors. anchors' ! a
    = anchors ! a \<union> (if placed alias_index zero xs a then {v} else {}))"
  using assms
proof (rule foldE_invariant [where P = "\<lambda>ys t. length t = length anchors \<and> (\<forall>a < length anchors. t ! a
    = anchors ! a \<union> (if placed alias_index zero ys a then {v} else {}))"])
  fix ys x zs t t'
  assume inv: "length t = length anchors \<and> (\<forall>a < length anchors. t ! a
      = anchors ! a \<union> (if placed alias_index zero ys a then {v} else {}))"
    and run: "anchor_residency alias_index zero v t x = Inr t'"
  obtain alias_id location where x: "x = (alias_id, location)" by (cases x)
  from run obtain a where a: "alias_index alias_id = Some a"
    and t': "t' = (if location = DEVICE \<and> a \<notin> zero then t[a := insert v (t ! a)] else t)"
    by (auto simp: anchor_residency_def x dict_get_Inr_iff)
  have step: "placed alias_index zero (ys @ [x]) c
      \<longleftrightarrow> placed alias_index zero ys c \<or> (location = DEVICE \<and> a \<notin> zero \<and> c = a)" for c
    using a by (auto simp: placed_def x)
  show "length t' = length anchors \<and> (\<forall>a < length anchors. t' ! a
      = anchors ! a \<union> (if placed alias_index zero (ys @ [x]) a then {v} else {}))"
    using inv unfolding step t' by (auto simp: nth_update_if)
qed (simp add: placed_def)



section \<open>The shape of the facts\<close>

text \<open>What the planner relies on; a boundary lies between \<open>-1\<close> and the last task.\<close>

definition wf_tables :: "planning_facts \<Rightarrow> bool" where
  "wf_tables facts \<longleftrightarrow>
     length (fc_alias_sizes facts) = length (fc_alias_ids facts)
     \<and> length (fc_alias_devices facts) = length (fc_alias_ids facts)
     \<and> length (fc_alias_retain_spill_copy facts) = length (fc_alias_ids facts)
     \<and> length (fc_initial_locations facts) = length (fc_alias_ids facts)
     \<and> length (fc_final_locations facts) = length (fc_alias_ids facts)
     \<and> length (fc_anchors facts) = length (fc_alias_ids facts)
     \<and> length (fc_access_events facts) = length (fc_alias_ids facts)
     \<and> length (fc_production_boundaries facts) = length (fc_alias_ids facts)
     \<and> length (fc_write_boundaries facts) = length (fc_alias_ids facts)
     \<and> length (fc_input_tasks facts) = length (fc_alias_ids facts)
     \<and> length (fc_output_reservations facts) = length (fc_tasks facts)
     \<and> length (fc_task_ideal_end_ns facts) = length (fc_tasks facts)"

definition wf_devices :: "planning_facts \<Rightarrow> bool" where
  "wf_devices facts \<longleftrightarrow> distinct (map fst (fc_object_capacity_by_device facts))
     \<and> set (fc_alias_devices facts) \<subseteq> fst ` set (fc_object_capacity_by_device facts)
     \<and> (\<forall>n \<in> set (fc_alias_sizes facts). 0 \<le> n)
     \<and> (\<forall>d \<in> fst ` set (fc_object_capacity_by_device facts).
          \<exists>row. fc_object_capacity_by_boundary facts d = Some row \<and> length row = length (fc_tasks facts) + 1)"

definition wf_events :: "planning_facts \<Rightarrow> bool" where
  "wf_events facts \<longleftrightarrow>
     (\<forall>a < length (fc_alias_ids facts).
        finite (fc_anchors facts ! a)
        \<and> (\<forall>b \<in> fc_anchors facts ! a. - 1 \<le> b \<and> b \<le> last_boundary facts)
        \<and> (\<forall>(b, t) \<in> set (fc_access_events facts ! a). b \<in> fc_anchors facts ! a \<and> (t = b \<or> t = b + 1)
             \<and> 0 \<le> t \<and> t \<le> last_boundary facts)
        \<and> (\<forall>b \<in> fc_production_boundaries facts ! a. b \<in> fc_anchors facts ! a))
     \<and> (\<forall>row \<in> set (fc_output_reservations facts). distinct row
          \<and> (\<forall>a \<in> set row. a < length (fc_alias_ids facts)))"

definition wf_facts :: "planning_facts \<Rightarrow> bool" where
  "wf_facts facts \<longleftrightarrow> wf_tables facts \<and> wf_devices facts \<and> wf_events facts"

lemma reserve_workspaces_rows:
  assumes "foldE (reserve_workspace profile_by_id object_capacity) rows xs = Inr rows'"
    and "\<forall>d \<in> D. \<exists>row. rows d = Some row \<and> length row = n"
  shows "\<forall>d \<in> D. \<exists>row. rows' d = Some row \<and> length row = n"
  using assms
proof (rule foldE_simple_invariant [where P = "\<lambda>rows. \<forall>d \<in> D. \<exists>row. rows d = Some row \<and> length row = n"])
  fix x t t'
  assume inv: "\<forall>d \<in> D. \<exists>row. t d = Some row \<and> length row = n"
    and run: "reserve_workspace profile_by_id object_capacity t x = Inr t'"
  obtain i task where x: "x = (i, task)" by (cases x)
  from run obtain row v where "t (rs_device_id (tk_resource task)) = Some row"
    "t' = t(rs_device_id (tk_resource task) \<mapsto> row[i := v])"
    by (auto simp: reserve_workspace_def x Let_def dict_get_Inr_iff)
  with inv show "\<forall>d \<in> D. \<exists>row. t' d = Some row \<and> length row = n" by fastforce
qed

text \<open>What \<^verbatim>\<open>build_facts\<close> went through when it returned.\<close>

lemma build_factsE:
  assumes "build_facts program selections initial_residency final_residency config = Inr facts"
  obtains tasks initial final object_pairs anchors1 b oa zero alias_index where
    "select_tasks program selections = Inr tasks"
    "residency_map initial_residency ''initial_residency'' = Inr initial"
    "residency_map final_residency ''final_residency'' = Inr final"
    "alias_index = dict_of (map (\<lambda>(index, i). (i, index))
       (enumerate 0 (map ag_alias_group_id (pg_alias_groups program))))"
    "zero = set (map fst (filter (\<lambda>(index, g). ag_size_bytes g = 0) (enumerate 0 (pg_alias_groups program))))"
    "set (map dc_device_id (sc_devices config)) = set (map dv_device_id (pg_devices program))"
    "mapE (\<lambda>b. bindE (dict_get alias_index (ob_alias_group_id b)) (\<lambda>a. Inr (ob_object_id b, a)))
       (pg_objects program) = Inr object_pairs" "oa = dict_of object_pairs"
    "foldE (anchor_residency alias_index zero (- 1)) (replicate (length (pg_alias_groups program)) {}) initial
       = Inr anchors1"
    "build_ok oa zero anchors1 (enumerate 0 tasks) b"
    "foldE (anchor_residency alias_index zero (int (length tasks) - 1)) (fb_anchors b) final
       = Inr (fc_anchors facts)"
    "fc_program facts = program" "fc_tasks facts = tasks"
    "fc_alias_ids facts = map ag_alias_group_id (pg_alias_groups program)"
    "fc_alias_sizes facts = map ag_size_bytes (pg_alias_groups program)"
    "fc_alias_devices facts = map ag_device_id (pg_alias_groups program)"
    "fc_alias_retain_spill_copy facts = map ag_retain_spill_copy (pg_alias_groups program)"
    "fc_initial_locations facts = map (location_of initial) (fc_alias_ids facts)"
    "fc_final_locations facts = map (location_of final) (fc_alias_ids facts)"
    "fc_access_events facts = map sorted_list_of_set (fb_accesses b)"
    "fc_production_boundaries facts = fb_productions b"
    "fc_write_boundaries facts = map sorted_list_of_set (fb_writes b)"
    "fc_output_reservations facts = fb_reservations b" "fc_input_tasks facts = fb_consumers b"
    "fc_task_ideal_end_ns facts = fb_ideal_end b"
    "fc_object_capacity_by_device facts = map (\<lambda>d. (dc_device_id d, dc_capacity_bytes d)) (sc_devices config)"
    "foldE (reserve_workspace (dict_of (map (\<lambda>p. (pf_profile_id p, p)) (pg_profiles program)))
        (fc_object_capacity_by_device facts))
       (dict_of (map (\<lambda>d. (dc_device_id d, replicate (length tasks + 1) (dc_capacity_bytes d)))
          (sc_devices config))) (enumerate 0 tasks) = Inr (fc_object_capacity_by_boundary facts)"
proof -
  define alias_index where "alias_index = dict_of (map (\<lambda>(index, i). (i, index))
       (enumerate 0 (map ag_alias_group_id (pg_alias_groups program))))"
  define zero where "zero = set (map fst (filter (\<lambda>(index, g). ag_size_bytes g = 0)
    (enumerate 0 (pg_alias_groups program))))"
  let ?n = "length (pg_alias_groups program)"
  let ?profiles = "dict_of (map (\<lambda>p. (pf_profile_id p, p)) (pg_profiles program))"
  let ?start = "\<lambda>anchors. \<lparr>fb_anchors = anchors, fb_accesses = replicate ?n {},
    fb_productions = replicate ?n {}, fb_writes = replicate ?n {}, fb_reservations = [],
    fb_consumers = replicate ?n [], fb_produced = {}, fb_ideal_time = 0, fb_ideal_end = []\<rparr>"
  from assms obtain tasks initial final object_pairs anchors1 b where run:
    "select_tasks program selections = Inr tasks"
    "residency_map initial_residency ''initial_residency'' = Inr initial"
    "residency_map final_residency ''final_residency'' = Inr final"
    "set (map dc_device_id (sc_devices config)) = set (map dv_device_id (pg_devices program))"
    "mapE (\<lambda>b. bindE (dict_get alias_index (ob_alias_group_id b)) (\<lambda>a. Inr (ob_object_id b, a)))
       (pg_objects program) = Inr object_pairs"
    "foldE (anchor_residency alias_index zero (- 1)) (replicate ?n {}) initial = Inr anchors1"
    "foldE (record_task (dict_of object_pairs) zero ?profiles) (?start anchors1) (enumerate 0 tasks) = Inr b"
    "foldE (anchor_residency alias_index zero (int (length tasks) - 1)) (fb_anchors b) final
       = Inr (fc_anchors facts)"
    and fields: "fc_program facts = program" "fc_tasks facts = tasks"
    "fc_alias_ids facts = map ag_alias_group_id (pg_alias_groups program)"
    "fc_alias_sizes facts = map ag_size_bytes (pg_alias_groups program)"
    "fc_alias_devices facts = map ag_device_id (pg_alias_groups program)"
    "fc_alias_retain_spill_copy facts = map ag_retain_spill_copy (pg_alias_groups program)"
    "fc_initial_locations facts = map (location_of initial) (fc_alias_ids facts)"
    "fc_final_locations facts = map (location_of final) (fc_alias_ids facts)"
    "fc_access_events facts = map sorted_list_of_set (fb_accesses b)"
    "fc_production_boundaries facts = fb_productions b"
    "fc_write_boundaries facts = map sorted_list_of_set (fb_writes b)"
    "fc_output_reservations facts = fb_reservations b" "fc_input_tasks facts = fb_consumers b"
    "fc_task_ideal_end_ns facts = fb_ideal_end b"
    "fc_object_capacity_by_device facts = map (\<lambda>d. (dc_device_id d, dc_capacity_bytes d)) (sc_devices config)"
    "foldE (reserve_workspace ?profiles (fc_object_capacity_by_device facts))
       (dict_of (map (\<lambda>d. (dc_device_id d, replicate (length tasks + 1) (dc_capacity_bytes d)))
          (sc_devices config))) (enumerate 0 tasks) = Inr (fc_object_capacity_by_boundary facts)"
    unfolding build_facts_def Let_def alias_index_def [symmetric] zero_def [symmetric]
    by (auto simp: comp_def)
  have "length anchors1 = ?n" using anchor_residencies [OF run(6)] by simp
  then have "build_ok (dict_of object_pairs) zero anchors1 [] (?start anchors1)"
    by (simp add: build_ok_def needs_before_def leaves_after_def accesses_of_def)
  from record_tasks_ok [OF run(7) this] show ?thesis
    by (intro that [OF run(1-3) alias_index_def zero_def run(4,5) refl run(6) _ run(8) fields])
qed

lemma finite_events:
  "finite (needs_before oa zero (enumerate 0 ts) a)" "finite (leaves_after oa zero (enumerate 0 ts) a)"
  "finite (accesses_of oa zero (enumerate 0 ts) a)"
proof -
  let ?I = "{..<length ts}"
  have "needs_before oa zero (enumerate 0 ts) a \<subseteq> (\<lambda>i. int i - 1) ` ?I"
    "leaves_after oa zero (enumerate 0 ts) a \<subseteq> int ` ?I"
    "accesses_of oa zero (enumerate 0 ts) a
      \<subseteq> (\<lambda>i. (int i - 1, int i)) ` ?I \<union> (\<lambda>i. (int i, int i)) ` ?I"
    by (auto simp: needs_before_def leaves_after_def accesses_of_def in_set_enumerate_eq)
  then show "finite (needs_before oa zero (enumerate 0 ts) a)"
    "finite (leaves_after oa zero (enumerate 0 ts) a)" "finite (accesses_of oa zero (enumerate 0 ts) a)"
    by (auto elim: finite_subset)
qed

text \<open>The anchors and accesses of an alias, in terms of the tasks.\<close>

definition boundaries_of ::
    "(string \<rightharpoonup> nat) \<Rightarrow> nat set \<Rightarrow> task_spec list \<Rightarrow> bool \<Rightarrow> bool \<Rightarrow> nat \<Rightarrow> int set" where
  "boundaries_of oa zero tasks at_start at_end a =
     (if at_start then {- 1} else {}) \<union> needs_before oa zero (enumerate 0 tasks) a
     \<union> leaves_after oa zero (enumerate 0 tasks) a
     \<union> (if at_end then {int (length tasks) - 1} else {})"

lemma residency_entry_Inr:
  "residency_entry field_name acc (k, v) = Inr t \<longleftrightarrow> rd_alias_group_id v \<notin> fst ` set acc
    \<and> t = acc @ [(rd_alias_group_id v, rd_location v)]"
  by (simp add: residency_entry_def bindE_Inr_iff) (metis)

lemma residency_map_Inr:
  assumes "residency_map vs field_name = Inr result"
  shows "result = map (\<lambda>v. (rd_alias_group_id v, rd_location v)) vs \<and> distinct (map fst result)"
proof -
  have "foldE (residency_entry field_name) acc (enumerate k vs) = Inr r \<Longrightarrow> distinct (map fst acc)
      \<Longrightarrow> r = acc @ map (\<lambda>v. (rd_alias_group_id v, rd_location v)) vs \<and> distinct (map fst r)" for acc r k
  proof (induction vs arbitrary: acc k)
    case (Cons v vs)
    from Cons.prems(1) have new: "rd_alias_group_id v \<notin> fst ` set acc"
      and rest: "foldE (residency_entry field_name) (acc @ [(rd_alias_group_id v, rd_location v)])
        (enumerate (Suc k) vs) = Inr r"
      by (simp_all add: bindE_Inr_iff residency_entry_Inr)
    have "distinct (map fst (acc @ [(rd_alias_group_id v, rd_location v)]))"
      using Cons.prems(2) new by simp
    note r = Cons.IH [OF rest this]
    then have "r = acc @ map (\<lambda>v. (rd_alias_group_id v, rd_location v)) (v # vs)" by simp
    with r show ?case by blast
  qed simp
  from this [OF assms [unfolded residency_map_def]] show ?thesis
    unfolding append_Nil list.map(1) by (metis distinct.simps(1))
qed

lemma alias_index_Some:
  assumes "distinct ids" and "alias_index = dict_of (map (\<lambda>(index, i). (i, index)) (enumerate 0 ids))"
  shows "alias_index x = Some a \<longleftrightarrow> a < length ids \<and> ids ! a = x"
proof
  assume "alias_index x = Some a"
  then show "a < length ids \<and> ids ! a = x"
    by (auto simp: assms(2) in_set_enumerate_eq dest!: dict_of_SomeD)
next
  assume a: "a < length ids \<and> ids ! a = x"
  have keys: "map fst (map (\<lambda>(index, i). (i, index)) (enumerate 0 ids)) = ids"
    by (simp add: comp_def case_prod_unfold)
  have "(x, a) \<in> set (map (\<lambda>(index, i). (i, index)) (enumerate 0 ids))"
    using a by (force simp: in_set_enumerate_eq)
  with assms show "alias_index x = Some a" using keys by (simp add: dict_of_distinct)
qed

lemma placed_iff:
  assumes index: "\<And>x. alias_index x = Some a \<longleftrightarrow> a < length ids \<and> ids ! a = x"
    and "a < length ids" and "distinct (map fst residency)"
  shows "placed alias_index zero residency a \<longleftrightarrow> a \<notin> zero \<and> map_of residency (ids ! a) = Some DEVICE"
  using assms by (auto simp: placed_def)

lemma mapE_pairs:
  assumes "mapE f xs = Inr ys" and "dict_of ys k = Some v"
  shows "\<exists>x \<in> set xs. f x = Inr (k, v)"
proof -
  from dict_of_SomeD [OF assms(2)] obtain i where "i < length ys" "ys ! i = (k, v)"
    by (auto simp: in_set_conv_nth)
  with mapE_nth [OF assms(1), of i] mapE_length [OF assms(1)] show ?thesis by (metis nth_mem)
qed

lemma build_facts_sound:
  assumes build: "build_facts program selections initial_residency final_residency config = Inr facts"
    and valid: "valid_program program" and config: "valid_config config"
  obtains oa zero where "wf_facts facts" "select_tasks program selections = Inr (fc_tasks facts)"
    "fc_program facts = program"
    "fc_alias_ids facts = map ag_alias_group_id (pg_alias_groups program)"
    "zero = {a. a < length (fc_alias_ids facts) \<and> fc_alias_sizes facts ! a = 0}"
    "\<And>x a. oa x = Some a \<Longrightarrow> a < length (fc_alias_ids facts)
      \<and> (\<exists>v \<in> set (pg_objects program). ob_object_id v = x \<and> ob_alias_group_id v = fc_alias_ids facts ! a)"
    "\<And>v. v \<in> set (pg_objects program) \<Longrightarrow> \<exists>a. oa (ob_object_id v) = Some a"
    "\<forall>a < length (fc_alias_ids facts). fc_anchors facts ! a = boundaries_of oa zero (fc_tasks facts)
       (a \<notin> zero \<and> fc_initial_locations facts ! a = Some DEVICE)
       (a \<notin> zero \<and> fc_final_locations facts ! a = Some DEVICE) a"
    "\<forall>a < length (fc_alias_ids facts).
       set (fc_access_events facts ! a) = accesses_of oa zero (enumerate 0 (fc_tasks facts)) a"
  using build
proof (rule build_factsE)
  fix tasks initial final object_pairs anchors1 b oa zero alias_index
  let ?gs = "pg_alias_groups program"
  let ?ids = "map ag_alias_group_id ?gs"
  assume sel: "select_tasks program selections = Inr tasks"
    and initial: "residency_map initial_residency ''initial_residency'' = Inr initial"
    and final: "residency_map final_residency ''final_residency'' = Inr final"
    and ai: "alias_index = dict_of (map (\<lambda>(index, i). (i, index)) (enumerate 0 ?ids))"
    and zero: "zero = set (map fst (filter (\<lambda>(index, g). ag_size_bytes g = 0) (enumerate 0 ?gs)))"
    and devs: "set (map dc_device_id (sc_devices config)) = set (map dv_device_id (pg_devices program))"
    and pairs: "mapE (\<lambda>b. bindE (dict_get alias_index (ob_alias_group_id b)) (\<lambda>a. Inr (ob_object_id b, a)))
       (pg_objects program) = Inr object_pairs" and oa: "oa = dict_of object_pairs"
    and anchors1: "foldE (anchor_residency alias_index zero (- 1)) (replicate (length ?gs) {}) initial = Inr anchors1"
    and ok: "build_ok oa zero anchors1 (enumerate 0 tasks) b"
    and anchors: "foldE (anchor_residency alias_index zero (int (length tasks) - 1)) (fb_anchors b) final
       = Inr (fc_anchors facts)"
    and fields: "fc_program facts = program" "fc_tasks facts = tasks" "fc_alias_ids facts = ?ids"
    "fc_alias_sizes facts = map ag_size_bytes ?gs" "fc_alias_devices facts = map ag_device_id ?gs"
    "fc_alias_retain_spill_copy facts = map ag_retain_spill_copy ?gs"
    "fc_initial_locations facts = map (location_of initial) (fc_alias_ids facts)"
    "fc_final_locations facts = map (location_of final) (fc_alias_ids facts)"
    "fc_access_events facts = map sorted_list_of_set (fb_accesses b)"
    "fc_production_boundaries facts = fb_productions b"
    "fc_write_boundaries facts = map sorted_list_of_set (fb_writes b)"
    "fc_output_reservations facts = fb_reservations b" "fc_input_tasks facts = fb_consumers b"
    "fc_task_ideal_end_ns facts = fb_ideal_end b"
    "fc_object_capacity_by_device facts = map (\<lambda>d. (dc_device_id d, dc_capacity_bytes d)) (sc_devices config)"
    and caps: "foldE (reserve_workspace (dict_of (map (\<lambda>p. (pf_profile_id p, p)) (pg_profiles program)))
        (fc_object_capacity_by_device facts))
       (dict_of (map (\<lambda>d. (dc_device_id d, replicate (length tasks + 1) (dc_capacity_bytes d)))
          (sc_devices config))) (enumerate 0 tasks) = Inr (fc_object_capacity_by_boundary facts)"
  let ?n = "length ?ids"
  have wf: "well_formed program" using valid program_post_init_well_formed by (simp add: valid_program_def)
  have ids: "distinct ?ids" using wf by (simp add: well_formed_def)
  note index = alias_index_Some [OF ids ai]
  note start = anchor_residencies [OF anchors1] and finish = anchor_residencies [OF anchors]
  have len1: "length anchors1 = ?n" using start by simp
  have nb: "length (fb_anchors b) = ?n" using ok len1 by (simp add: build_ok_def)
  have oa_in: "a < ?n \<and> (\<exists>v \<in> set (pg_objects program). ob_object_id v = x \<and> ob_alias_group_id v = ?ids ! a)"
    if "oa x = Some a" for x a
    using mapE_pairs [OF pairs that [unfolded oa]] index by (auto simp: dict_get_Inr_iff)
  have oa_total: "\<exists>a. oa (ob_object_id v) = Some a" if v: "v \<in> set (pg_objects program)" for v
  proof -
    from v obtain i where i: "i < length (pg_objects program)" "v = pg_objects program ! i"
      by (auto simp: in_set_conv_nth)
    with mapE_nth [OF pairs i(1)] have "fst (object_pairs ! i) = ob_object_id v"
      by (cases "object_pairs ! i") auto
    moreover have "object_pairs ! i \<in> set object_pairs" using i mapE_length [OF pairs] by simp
    ultimately have "ob_object_id v \<in> fst ` set object_pairs" by force
    then show ?thesis unfolding oa dict_of_is_Some .
  qed
  have zero': "zero = {a. a < length (fc_alias_ids facts) \<and> fc_alias_sizes facts ! a = 0}"
    by (force simp: zero fields in_set_enumerate_eq)
  have initial': "distinct (map fst initial)" and final': "distinct (map fst final)"
    using residency_map_Inr [OF initial] residency_map_Inr [OF final] by blast+
  have all_anchors: "fc_anchors facts ! a = boundaries_of oa zero tasks
       (a \<notin> zero \<and> fc_initial_locations facts ! a = Some DEVICE)
       (a \<notin> zero \<and> fc_final_locations facts ! a = Some DEVICE) a" if a: "a < ?n" for a
  proof -
    have "anchors1 ! a = (if placed alias_index zero initial a then {- 1} else {})"
      using start a by simp
    moreover have "fb_anchors b ! a = anchors1 ! a \<union> needs_before oa zero (enumerate 0 tasks) a
        \<union> leaves_after oa zero (enumerate 0 tasks) a" using ok a len1 by (simp add: build_ok_def)
    moreover have "fc_anchors facts ! a = fb_anchors b ! a
        \<union> (if placed alias_index zero final a then {int (length tasks) - 1} else {})"
      using finish a nb by simp
    ultimately show ?thesis
      using placed_iff [OF index a initial', of zero] placed_iff [OF index a final', of zero] a
      by (simp add: boundaries_of_def fields location_of_def)
  qed
  have all_accesses: "set (fc_access_events facts ! a) = accesses_of oa zero (enumerate 0 tasks) a"
    if a: "a < ?n" for a
    using ok a len1 by (simp add: build_ok_def fields finite_events)
  have tables: "wf_tables facts"
    using ok len1 finish nb list_all2_lengthD [of _ "enumerate 0 tasks" "fb_reservations b"]
    by (auto simp: wf_tables_def fields build_ok_def)
  have sizes: "0 \<le> ag_size_bytes g" if "g \<in> set ?gs" for g
    using valid that
    by (auto simp: valid_program_def valid_alias_group_def alias_group_spec_post_init_def
        require_non_negative_def)
  have "wf_devices facts"
    unfolding wf_devices_def
  proof (intro conjI ballI)
    show "distinct (map fst (fc_object_capacity_by_device facts))"
      using valid_config_facts [OF config] by (simp add: fields comp_def)
    show "set (fc_alias_devices facts) \<subseteq> fst ` set (fc_object_capacity_by_device facts)"
    proof -
      have "fst ` set (fc_object_capacity_by_device facts) = set (map dv_device_id (pg_devices program))"
        unfolding devs [symmetric] by (simp add: fields image_image)
      moreover have "ag_device_id g \<in> set (map dv_device_id (pg_devices program))" if "g \<in> set ?gs" for g
        using wf that by (simp add: well_formed_def)
      ultimately show ?thesis by (auto simp: fields)
    qed
    show "0 \<le> m" if "m \<in> set (fc_alias_sizes facts)" for m using that sizes by (auto simp: fields)
    have "\<forall>d \<in> fst ` set (fc_object_capacity_by_device facts). \<exists>row.
        dict_of (map (\<lambda>d. (dc_device_id d, replicate (length tasks + 1) (dc_capacity_bytes d)))
          (sc_devices config)) d = Some row \<and> length row = length tasks + 1"
    proof
      fix d
      assume "d \<in> fst ` set (fc_object_capacity_by_device facts)"
      then have "\<exists>v. dict_of (map (\<lambda>d. (dc_device_id d, replicate (length tasks + 1) (dc_capacity_bytes d)))
          (sc_devices config)) d = Some v"
        unfolding dict_of_is_Some by (force simp: fields)
      then obtain v where v: "dict_of (map (\<lambda>d. (dc_device_id d, replicate (length tasks + 1)
          (dc_capacity_bytes d))) (sc_devices config)) d = Some v" by blast
      then have "length v = length tasks + 1" by (auto dest!: dict_of_SomeD)
      with v show "\<exists>row. dict_of (map (\<lambda>d. (dc_device_id d, replicate (length tasks + 1)
          (dc_capacity_bytes d))) (sc_devices config)) d = Some row \<and> length row = length tasks + 1" by blast
    qed
    from reserve_workspaces_rows [OF caps this]
    show "\<exists>row. fc_object_capacity_by_boundary facts d = Some row \<and> length row = length (fc_tasks facts) + 1"
      if "d \<in> fst ` set (fc_object_capacity_by_device facts)" for d
      using that unfolding fields(2) by blast
  qed
  moreover have "wf_events facts"
    unfolding wf_events_def
  proof (intro conjI allI impI)
    fix a
    assume "a < length (fc_alias_ids facts)"
    then have a: "a < ?n" by (simp add: fields)
    show "finite (fc_anchors facts ! a)"
      unfolding all_anchors [OF a] by (simp add: boundaries_of_def finite_events)
    show "\<forall>b \<in> fc_anchors facts ! a. - 1 \<le> b \<and> b \<le> last_boundary facts"
      unfolding all_anchors [OF a]
      by (auto simp: boundaries_of_def needs_before_def leaves_after_def in_set_enumerate_eq
          last_boundary_def fields split: if_splits)
    show "\<forall>(c, t) \<in> set (fc_access_events facts ! a). c \<in> fc_anchors facts ! a \<and> (t = c \<or> t = c + 1)
        \<and> 0 \<le> t \<and> t \<le> last_boundary facts"
      unfolding all_anchors [OF a] all_accesses [OF a]
      by (auto simp: accesses_of_def boundaries_of_def needs_before_def leaves_after_def in_set_enumerate_eq
          last_boundary_def fields)
    show "\<forall>c \<in> fc_production_boundaries facts ! a. c \<in> fc_anchors facts ! a"
      using ok a len1 unfolding all_anchors [OF a]
      by (auto simp: fields build_ok_def boundaries_of_def leaves_after_def)
  next
    have rows: "list_all2 (\<lambda>y row. fresh_row oa zero (snd y) row) (enumerate 0 tasks) (fb_reservations b)"
      using ok by (simp add: build_ok_def)
    show "\<forall>row \<in> set (fc_output_reservations facts). distinct row
        \<and> (\<forall>a \<in> set row. a < length (fc_alias_ids facts))"
    proof
      fix row
      assume "row \<in> set (fc_output_reservations facts)"
      then obtain i where "i < length (fb_reservations b)" "row = fb_reservations b ! i"
        by (auto simp: fields in_set_conv_nth)
      with list_all2_nthD2 [OF rows] obtain t where "fresh_row oa zero t row" by auto
      then show "distinct row \<and> (\<forall>a \<in> set row. a < length (fc_alias_ids facts))"
        using oa_in by (auto simp: fresh_row_def touched_def fields)
    qed
  qed
  ultimately have wff: "wf_facts facts" using tables by (simp add: wf_facts_def)
  show thesis
  proof (rule that [of zero oa])
    show "a < length (fc_alias_ids facts) \<and> (\<exists>v \<in> set (pg_objects program). ob_object_id v = x
        \<and> ob_alias_group_id v = fc_alias_ids facts ! a)" if "oa x = Some a" for x a
      using oa_in [OF that] by (simp only: fields(3))
    show "\<forall>a < length (fc_alias_ids facts). fc_anchors facts ! a = boundaries_of oa zero (fc_tasks facts)
       (a \<notin> zero \<and> fc_initial_locations facts ! a = Some DEVICE)
       (a \<notin> zero \<and> fc_final_locations facts ! a = Some DEVICE) a"
      using all_anchors by (simp only: fields(2,3)) blast
    show "\<forall>a < length (fc_alias_ids facts).
       set (fc_access_events facts ! a) = accesses_of oa zero (enumerate 0 (fc_tasks facts)) a"
      using all_accesses by (simp only: fields(2,3)) blast
  qed (use wff sel fields oa_total zero' in simp_all)
qed

end
