(* ===== verification/PressureFit_Pressure.thy ===== *)
theory PressureFit_Pressure
  imports PressureFit_Residency PressureFit_Facts_Sound
begin

text \<open>
  The pressure rows of a plan against their specification: at a boundary of a device, the bytes of
  the aliases of the device that are reserved by the task about to run or held by a charged span.
  The sweep of \<^verbatim>\<open>_pressure_by_device\<close>, the update of \<^verbatim>\<open>_update_pressure_for_alias\<close>, the direct
  count of \<^verbatim>\<open>boundary_bytes\<close> and the floor of \<^verbatim>\<open>_required_floor_pressure\<close> are all instances of
  one table of loads.
\<close>

section \<open>Loads\<close>

abbreviation alias_count :: "planning_facts \<Rightarrow> nat" where
  "alias_count facts \<equiv> length (fc_alias_ids facts)"

abbreviation fact_devices :: "planning_facts \<Rightarrow> string set" where
  "fact_devices facts \<equiv> fst ` set (fc_object_capacity_by_device facts)"

abbreviation task_total :: "planning_facts \<Rightarrow> nat" where
  "task_total facts \<equiv> length (fc_tasks facts)"

text \<open>The bytes of the aliases of a device that satisfy a condition.\<close>

definition load :: "planning_facts \<Rightarrow> string \<Rightarrow> (nat \<Rightarrow> bool) \<Rightarrow> int" where
  "load facts d C = (\<Sum>a < alias_count facts.
     if fc_alias_devices facts ! a = d \<and> C a then fc_alias_sizes facts ! a else 0)"

lemma load_none [simp]: "load facts d (\<lambda>_. False) = 0"
  by (simp add: load_def)

lemma load_cong:
  "(\<And>a. a < alias_count facts \<Longrightarrow> fc_alias_devices facts ! a = d \<Longrightarrow> C a = C' a)
     \<Longrightarrow> load facts d C = load facts d C'"
  unfolding load_def by (rule sum.cong) auto

lemma load_mono:
  assumes "wf_facts facts"
    and "\<And>a. a < alias_count facts \<Longrightarrow> fc_alias_devices facts ! a = d \<Longrightarrow> C a \<Longrightarrow> C' a"
  shows "load facts d C \<le> load facts d C'"
  unfolding load_def
proof (rule sum_mono)
  fix a
  assume "a \<in> {..<alias_count facts}"
  with assms show "(if fc_alias_devices facts ! a = d \<and> C a then fc_alias_sizes facts ! a else 0)
      \<le> (if fc_alias_devices facts ! a = d \<and> C' a then fc_alias_sizes facts ! a else 0)"
    by (auto simp: wf_facts_def wf_tables_def wf_devices_def)
qed

text \<open>Two conditions that differ at one alias only.\<close>

lemma load_differs:
  assumes "a < alias_count facts"
    and "\<And>x. x < alias_count facts \<Longrightarrow> x \<noteq> a \<Longrightarrow> C x = C' x"
  shows "load facts d C' = load facts d C
    + (if fc_alias_devices facts ! a = d
       then fc_alias_sizes facts ! a * (of_bool (C' a) - of_bool (C a)) else 0)"
proof -
  let ?v = "\<lambda>C x. if fc_alias_devices facts ! x = d \<and> C x then fc_alias_sizes facts ! x else 0"
  have split: "load facts d C = ?v C a + (\<Sum>x \<in> {..<alias_count facts} - {a}. ?v C x)" for C
    unfolding load_def using assms(1) by (intro sum.remove) auto
  have "(\<Sum>x \<in> {..<alias_count facts} - {a}. ?v C x) = (\<Sum>x \<in> {..<alias_count facts} - {a}. ?v C' x)"
    using assms(2) by (intro sum.cong) auto
  then show ?thesis unfolding split [of C] split [of C'] by auto
qed


section \<open>Tables of rows\<close>

definition rows_are :: "planning_facts \<Rightarrow> pressures \<Rightarrow> (string \<Rightarrow> int \<Rightarrow> int) \<Rightarrow> bool" where
  "rows_are facts P F \<longleftrightarrow> (\<forall>d \<in> fact_devices facts. \<exists>row. P d = Some row
     \<and> length row = task_total facts + 1 \<and> (\<forall>k \<le> task_total facts. row ! k = F d (int k - 1)))"

lemma rows_are_cong:
  assumes "rows_are facts P F"
    and "\<And>d b. d \<in> fact_devices facts \<Longrightarrow> - 1 \<le> b \<Longrightarrow> b \<le> last_boundary facts \<Longrightarrow> F d b = F' d b"
  shows "rows_are facts P F'"
  unfolding rows_are_def
proof
  fix d
  assume d: "d \<in> fact_devices facts"
  with assms(1) obtain row where "P d = Some row" "length row = task_total facts + 1"
    "\<forall>k \<le> task_total facts. row ! k = F d (int k - 1)" unfolding rows_are_def by blast
  then show "\<exists>row. P d = Some row \<and> length row = task_total facts + 1
      \<and> (\<forall>k \<le> task_total facts. row ! k = F' d (int k - 1))"
    using d assms(2) by (auto simp: last_boundary_def)
qed

lemma rows_are_lookup:
  assumes "rows_are facts P F" "d \<in> fact_devices facts" "- 1 \<le> b" "b \<le> last_boundary facts"
  shows "\<exists>row. dict_get P d = Inr row \<and> py_nth row (b + 1) = Inr (F d b)"
proof -
  from assms obtain row where row: "P d = Some row" "length row = task_total facts + 1"
    "\<forall>k \<le> task_total facts. row ! k = F d (int k - 1)" unfolding rows_are_def by blast
  have k: "nat (b + 1) \<le> task_total facts" "int (nat (b + 1)) = b + 1"
    using assms(3,4) by (auto simp: last_boundary_def)
  then have "py_nth row (int (nat (b + 1))) = Inr (row ! nat (b + 1))" using row(2) by (subst py_nth_nat) auto
  then show ?thesis using row k by auto
qed

text \<open>Adding to one cell of one row.\<close>

lemma rows_are_bump:
  assumes "rows_are facts P F" "d \<in> fact_devices facts" "- 1 \<le> b" "b \<le> last_boundary facts"
  shows "\<exists>P'. bindE (dict_get P d) (\<lambda>row. bindE (py_add row (b + 1) n) (\<lambda>row. Inr (P(d \<mapsto> row)))) = Inr P'
    \<and> rows_are facts P' (\<lambda>d' b'. F d' b' + (if d' = d \<and> b' = b then n else 0))"
proof -
  from assms obtain row where row: "P d = Some row" "length row = task_total facts + 1"
    "\<forall>k \<le> task_total facts. row ! k = F d (int k - 1)" unfolding rows_are_def by blast
  let ?row = "row[nat (b + 1) := row ! nat (b + 1) + n]"
  have k: "nat (b + 1) \<le> task_total facts" using assms(3,4) by (auto simp: last_boundary_def)
  have "py_add row (b + 1) n = Inr ?row"
    using assms(3,4) row(2) by (intro py_add_in_range) (auto simp: last_boundary_def)
  moreover have "rows_are facts (P(d \<mapsto> ?row)) (\<lambda>d' b'. F d' b' + (if d' = d \<and> b' = b then n else 0))"
    unfolding rows_are_def
  proof
    fix d'
    assume d': "d' \<in> fact_devices facts"
    show "\<exists>row. (P(d \<mapsto> ?row)) d' = Some row \<and> length row = task_total facts + 1
        \<and> (\<forall>k \<le> task_total facts. row ! k = F d' (int k - 1) + (if d' = d \<and> int k - 1 = b then n else 0))"
    proof (cases "d' = d")
      case True
      have "?row ! k' = F d (int k' - 1) + (if int k' - 1 = b then n else 0)" if "k' \<le> task_total facts" for k'
        using row that k assms(3) by (auto simp: nth_list_update)
      with True row(2) show ?thesis by simp
    next
      case False
      with assms(1) [unfolded rows_are_def, rule_format, OF d'] show ?thesis by simp
    qed
  qed
  ultimately show ?thesis using row(1) by simp
qed

text \<open>Loops that visit the pairs of two nested lists.\<close>

lemma foldE_nested:
  "foldE (\<lambda>s (i, xs). foldE (f i) s xs) s ys
     = foldE (\<lambda>s (i, x). f i s x) s (concat (map (\<lambda>(i, xs). map (Pair i) xs) ys))"
proof (induction ys arbitrary: s)
  case (Cons y ys)
  have inner: "foldE (\<lambda>s (i, x). f i s x) s (map (Pair (fst y)) xs) = foldE (f (fst y)) s xs" for s xs
    by (induction xs arbitrary: s) auto
  show ?case using Cons.IH inner by (cases y) (simp add: foldE_append)
qed simp

definition reservation_pairs :: "planning_facts \<Rightarrow> (nat \<times> nat) list" where
  "reservation_pairs facts =
     concat (map (\<lambda>(i, xs). map (Pair i) xs) (enumerate 0 (fc_output_reservations facts)))"

definition reserved :: "planning_facts \<Rightarrow> nat \<Rightarrow> int \<Rightarrow> bool" where
  "reserved facts a b \<longleftrightarrow> 0 \<le> b + 1 \<and> b + 1 < int (length (fc_output_reservations facts))
     \<and> a \<in> set (fc_output_reservations facts ! nat (b + 1))"

lemma set_reservation_pairs:
  "(t, a) \<in> set (reservation_pairs facts) \<longleftrightarrow> reserved facts a (int t - 1)"
  by (force simp: reservation_pairs_def reserved_def in_set_enumerate_eq)

lemma distinct_reservation_pairs:
  assumes "wf_facts facts"
  shows "distinct (reservation_pairs facts)"
proof -
  have "distinct (concat (map (\<lambda>(i, xs). map (Pair i) xs) (enumerate k rows)))"
    if "\<forall>row \<in> set rows. distinct row" for k and rows :: "nat list list"
    using that
  proof (induction rows arbitrary: k)
    case (Cons row rows)
    have "set (map (Pair k) row) \<inter> set (concat (map (\<lambda>(i, xs). map (Pair i) xs) (enumerate (Suc k) rows))) = {}"
      by (auto simp: in_set_enumerate_eq)
    moreover have "distinct (concat (map (\<lambda>(i, xs). map (Pair i) xs) (enumerate (Suc k) rows)))"
      using Cons by simp
    moreover have "distinct (map (Pair k) row)" using Cons.prems by (simp add: distinct_map inj_on_def)
    ultimately show ?case by (simp del: set_concat)
  qed simp
  with assms show ?thesis by (auto simp: reservation_pairs_def wf_facts_def wf_events_def)
qed

lemma reserved_bounds:
  assumes "wf_facts facts" "reserved facts a b"
  shows "a < alias_count facts" "- 1 \<le> b" "b \<le> last_boundary facts"
  using assms by (auto simp: reserved_def wf_facts_def wf_events_def wf_tables_def last_boundary_def)

lemma alias_device:
  assumes "wf_facts facts" "a < alias_count facts"
  shows "fc_alias_devices facts ! a \<in> fact_devices facts"
  using assms by (auto simp: wf_facts_def wf_devices_def wf_tables_def subset_iff)

text \<open>
  The loop that adds fresh outputs: the cells of the aliases a task is about to produce grow by
  those not counted yet.
\<close>

lemma reservations_rows:
  assumes wf: "wf_facts facts"
    and start: "rows_are facts P (\<lambda>d b. load facts d (\<lambda>a. held a b))"
    and step: "\<And>P task al. f task P al = (if held al (int task - 1) then Inr P
       else bindE (dict_get P (fc_alias_devices facts ! al)) (\<lambda>row.
         bindE (py_add row (int task) (fc_alias_sizes facts ! al)) (\<lambda>row.
         Inr (P(fc_alias_devices facts ! al \<mapsto> row)))))"
  shows "\<exists>P'. foldE (\<lambda>P (task, rs). foldE (f task) P rs) P (enumerate 0 (fc_output_reservations facts)) = Inr P'
    \<and> rows_are facts P' (\<lambda>d b. load facts d (\<lambda>a. reserved facts a b \<or> held a b))"
proof -
  define zs where "zs = reservation_pairs facts"
  let ?R = "\<lambda>ys d b. load facts d (\<lambda>a. (nat (b + 1), a) \<in> set ys \<or> held a b)"
  have "\<exists>P'. foldE (\<lambda>P (task, al). f task P al) P zs = Inr P' \<and> rows_are facts P' (?R zs)"
  proof (rule foldE_total [where P = "\<lambda>ys P. rows_are facts P (?R ys)"])
    show "rows_are facts P (?R [])" using start by simp
    fix ys x zs' Q
    assume inv: "rows_are facts Q (?R ys)" and zs: "zs = ys @ x # zs'"
    obtain task al where x: "x = (task, al)" by (cases x)
    have new: "x \<notin> set ys" using distinct_reservation_pairs [OF wf] zs by (simp add: zs_def)
    have "reserved facts al (int task - 1)"
      using zs x set_reservation_pairs [of task al facts] by (simp add: zs_def)
    note bounds = reserved_bounds [OF wf this]
    show "\<exists>P'. (case x of (task, al) \<Rightarrow> f task Q al) = Inr P' \<and> rows_are facts P' (?R (ys @ [x]))"
    proof (cases "held al (int task - 1)")
      case True
      have "rows_are facts Q (?R (ys @ [x]))"
        using inv by (rule rows_are_cong) (use True x in \<open>auto intro!: load_cong\<close>)
      with True show ?thesis by (simp add: x step)
    next
      case False
      from rows_are_bump [OF inv alias_device [OF wf bounds(1)] bounds(2,3),
          of "fc_alias_sizes facts ! al"]
      obtain P' where P': "f task Q al = Inr P'" and rows: "rows_are facts P' (\<lambda>d b. ?R ys d b
          + (if d = fc_alias_devices facts ! al \<and> b = int task - 1 then fc_alias_sizes facts ! al else 0))"
        using False by (auto simp: step)
      from rows have "rows_are facts P' (?R (ys @ [x]))"
      proof (rule rows_are_cong)
        fix d b
        assume b: "- 1 \<le> b" "b \<le> last_boundary facts"
        show "?R ys d b + (if d = fc_alias_devices facts ! al \<and> b = int task - 1
            then fc_alias_sizes facts ! al else 0) = ?R (ys @ [x]) d b"
        proof (cases "b = int task - 1")
          case True
          then show ?thesis
            using load_differs [OF bounds(1), of "\<lambda>a. (nat (b + 1), a) \<in> set ys \<or> held a b"
                "\<lambda>a. (nat (b + 1), a) \<in> set (ys @ [x]) \<or> held a b" d] False new b x by auto
        next
          case False
          then show ?thesis using b x by (auto intro!: load_cong)
        qed
      qed
      with P' show ?thesis by (simp add: x)
    qed
  qed
  then obtain P' where P': "foldE (\<lambda>P (task, al). f task P al) P zs = Inr P'"
    "rows_are facts P' (?R zs)" by blast
  from P'(2) have "rows_are facts P' (\<lambda>d b. load facts d (\<lambda>a. reserved facts a b \<or> held a b))"
    by (rule rows_are_cong) (auto intro!: load_cong simp: zs_def set_reservation_pairs)
  with P'(1) show ?thesis unfolding foldE_nested zs_def reservation_pairs_def by blast
qed


section \<open>Charged spans\<close>

definition wf_span :: "planning_facts \<Rightarrow> span \<Rightarrow> bool" where
  "wf_span facts s \<longleftrightarrow> - 1 \<le> sp_start s \<and> sp_start s \<le> sp_end s \<and> sp_end s \<le> last_boundary facts"

abbreviation covers :: "span list \<Rightarrow> int \<Rightarrow> bool" where
  "covers ss b \<equiv> list_ex (\<lambda>s. span_contains s b) ss"

definition hits :: "span list \<Rightarrow> int \<Rightarrow> int" where
  "hits ss b = sum_list (map (\<lambda>s. of_bool (span_contains s b)) ss)"

lemma hits_simps [simp]:
  "hits [] b = 0" "hits (s # ss) b = of_bool (span_contains s b) + hits ss b"
  by (simp_all add: hits_def)

text \<open>No boundary lies in two spans of the list.\<close>

fun disjoint_spans :: "span list \<Rightarrow> bool" where
  "disjoint_spans [] = True"
| "disjoint_spans (s # ss) = ((\<forall>t \<in> set ss. sp_end s < sp_start t \<or> sp_end t < sp_start s) \<and> disjoint_spans ss)"

lemma disjoint_hits: "disjoint_spans ss \<Longrightarrow> hits ss b = of_bool (covers ss b)"
proof (induction ss)
  case (Cons s ss)
  have "\<not> covers ss b" if "span_contains s b"
    using Cons.prems that by (force simp: list_ex_iff span_contains_def)
  with Cons show ?case by auto
qed simp

lemma charged_span_Some:
  assumes "charged_span facts h a s = Some i" "wf_span facts s"
  shows "wf_span facts i" and "sp_start i = effective_start facts h a s"
    and "sp_start i \<le> sp_start s" "sp_end i \<le> sp_end s"
  using assms
  by (auto simp: charged_span_def Let_def wf_span_def effective_start_def split: if_splits)

lemma charged_spans_wf:
  "\<forall>s \<in> set ss. wf_span facts s \<Longrightarrow> \<forall>i \<in> set (charged_spans_of facts h a ss). wf_span facts i"
  by (auto simp: charged_spans_of_def map_filter_def) (metis charged_span_Some(1) option.sel)

text \<open>\<^verbatim>\<open>_charged_span\<close> and the test of \<^verbatim>\<open>boundary_bytes\<close> agree on every boundary of a span.\<close>

lemma charged_span_contains:
  assumes "wf_facts facts" "wf_span facts s"
  shows "(case charged_span facts h a s of None \<Rightarrow> False | Some i \<Rightarrow> span_contains i b)
    \<longleftrightarrow> effective_start facts h a s \<le> b \<and> b \<le> sp_end s
      \<and> (b < 0 \<or> sp_end s \<noteq> b \<or> fc_final_locations facts ! a = Some DEVICE \<or> accessed_later facts a s b)"
  by (cases "b = sp_end s") (auto simp: charged_span_def span_contains_def Let_def)


section \<open>The sweep\<close>

lemma sum_list_grow: "i < length xs \<Longrightarrow> sum_list (xs[i := xs ! i + n]) = sum_list xs + (n :: int)"
proof (induction xs arbitrary: i)
  case (Cons x xs)
  then show ?case by (cases i) auto
qed simp

lemma prefix_update:
  fixes xs :: "int list"
  assumes "i < length xs" "k < length xs"
  shows "sum_list (take (Suc k) (xs[i := xs ! i + n])) = sum_list (take (Suc k) xs) + (if i \<le> k then n else 0)"
proof (cases "i \<le> k")
  case True
  then have same: "xs ! i = take (Suc k) xs ! i" by simp
  have "sum_list ((take (Suc k) xs)[i := take (Suc k) xs ! i + n]) = sum_list (take (Suc k) xs) + n"
    using True assms by (intro sum_list_grow) simp
  then show ?thesis using True unfolding same [symmetric] take_update_swap by simp
qed simp

lemma charge_intervals:
  assumes "\<forall>s \<in> set ss. wf_span facts s" "length row = task_total facts + 2"
  shows "\<exists>row'. foldE (charge_interval n) row ss = Inr row' \<and> length row' = task_total facts + 2
    \<and> (\<forall>k \<le> task_total facts. sum_list (take (Suc k) row')
         = sum_list (take (Suc k) row) + n * hits ss (int k - 1))"
  using assms
proof (induction ss arbitrary: row)
  case (Cons s ss)
  have wf: "wf_span facts s" using Cons.prems(1) by simp
  let ?i = "nat (sp_start s + 1)" and ?j = "nat (sp_end s + 1 + 1)"
  let ?r1 = "row[?i := row ! ?i + n]"
  let ?r2 = "?r1[?j := ?r1 ! ?j + - n]"
  have i: "?i < length row" "?j < length ?r1"
    using wf Cons.prems(2) by (auto simp: wf_span_def last_boundary_def)
  have step: "charge_interval n row s = Inr ?r2"
    using wf i by (simp add: charge_interval_def wf_span_def)
  have prefix: "sum_list (take (Suc k) ?r2) = sum_list (take (Suc k) row) + n * of_bool (span_contains s (int k - 1))"
    if k: "k \<le> task_total facts" for k
  proof -
    have "sum_list (take (Suc k) ?r2) = sum_list (take (Suc k) row) + (if ?i \<le> k then n else 0)
        + (if ?j \<le> k then - n else 0)"
      using prefix_update [of ?i row k n] prefix_update [of ?j ?r1 k "- n"] i k Cons.prems(2) by simp
    also have "\<dots> = sum_list (take (Suc k) row) + n * of_bool (span_contains s (int k - 1))"
      using wf by (auto simp: span_contains_def wf_span_def)
    finally show ?thesis .
  qed
  from Cons.IH [of ?r2] Cons.prems obtain row' where
    "foldE (charge_interval n) ?r2 ss = Inr row'" "length row' = task_total facts + 2"
    "\<forall>k \<le> task_total facts. sum_list (take (Suc k) row')
       = sum_list (take (Suc k) ?r2) + n * hits ss (int k - 1)" by auto
  then show ?case using prefix step by (simp add: ring_distribs)
qed simp

lemma running_sums_nth:
  "k < length xs \<Longrightarrow> running_sums c xs ! k = c + sum_list (take (Suc k) xs)"
  by (induction xs arbitrary: c k) (auto simp: nth_Cons' take_Cons' split: nat.split)

lemma running_sums_length [simp]: "length (running_sums c xs) = length xs"
  by (induction xs arbitrary: c) auto

text \<open>A plan has one list of spans per alias, each span within the boundaries of the program.\<close>

definition plan_shape :: "planning_facts \<Rightarrow> residency_plan \<Rightarrow> bool" where
  "plan_shape facts plan \<longleftrightarrow> length (rp_spans plan) = alias_count facts
     \<and> (\<forall>ss \<in> set (rp_spans plan). \<forall>s \<in> set ss. wf_span facts s)"

abbreviation charged_list :: "planning_facts \<Rightarrow> bool \<Rightarrow> residency_plan \<Rightarrow> nat \<Rightarrow> span list" where
  "charged_list facts h plan a \<equiv> charged_spans_of facts h a (rp_spans plan ! a)"

text \<open>The pressure of a plan at a boundary of a device.\<close>

definition plan_pressure :: "planning_facts \<Rightarrow> bool \<Rightarrow> residency_plan \<Rightarrow> string \<Rightarrow> int \<Rightarrow> int" where
  "plan_pressure facts h plan d b =
     load facts d (\<lambda>a. reserved facts a b \<or> covers (charged_list facts h plan a) b)"

lemma charge_aliases:
  assumes wf: "wf_facts facts" and shape: "plan_shape facts plan"
    and start: "\<forall>d \<in> fact_devices facts. D d = Some (replicate (task_total facts + 2) 0)"
    and disjoint: "\<forall>a < alias_count facts. disjoint_spans (charged_list facts h plan a)"
  shows "\<exists>D'. foldE (charge_alias facts h) (D, []) (enumerate 0 (rp_spans plan))
      = Inr (D', map (charged_list facts h plan) [0..<alias_count facts])
    \<and> (\<forall>d \<in> fact_devices facts. \<exists>row. D' d = Some row \<and> length row = task_total facts + 2
        \<and> (\<forall>k \<le> task_total facts. sum_list (take (Suc k) row)
            = load facts d (\<lambda>a. covers (charged_list facts h plan a) (int k - 1))))"
proof -
  let ?L = "\<lambda>m d k. load facts d (\<lambda>a. a < m \<and> covers (charged_list facts h plan a) (int k - 1))"
  define P where "P = (\<lambda>ys (st :: pressures \<times> span list list).
    snd st = map (charged_list facts h plan) [0..<length (ys :: (nat \<times> span list) list)]
    \<and> (\<forall>d \<in> fact_devices facts. \<exists>row. fst st d = Some row \<and> length row = task_total facts + 2
        \<and> (\<forall>k \<le> task_total facts. sum_list (take (Suc k) row) = ?L (length ys) d k)))"
  have len: "length (rp_spans plan) = alias_count facts" using shape by (simp add: plan_shape_def)
  have "\<exists>st. foldE (charge_alias facts h) (D, []) (enumerate 0 (rp_spans plan)) = Inr st
      \<and> P (enumerate 0 (rp_spans plan)) st"
  proof (rule foldE_total)
    have "sum_list (replicate k (0 :: int)) = 0" for k by (simp add: sum_list_replicate)
    then show "P [] (D, [])"
      using start by (simp add: P_def take_replicate del: replicate.simps replicate_Suc take_Suc_Cons)
    fix ys x zs and st :: "pressures \<times> span list list"
    assume inv: "P ys st" and split: "enumerate 0 (rp_spans plan) = ys @ x # zs"
    let ?a = "length ys"
    have "enumerate 0 (rp_spans plan) ! ?a = x" using split by simp
    moreover have a: "?a < alias_count facts"
      using arg_cong [OF split, of length] len by simp
    ultimately have x: "x = (?a, rp_spans plan ! ?a)" using len by (simp add: nth_enumerate_eq)
    obtain E all_charged where st: "st = (E, all_charged)" by (cases st)
    let ?d = "fc_alias_devices facts ! ?a" and ?c = "charged_list facts h plan ?a"
      and ?n = "fc_alias_sizes facts ! ?a"
    note d = alias_device [OF wf a]
    with inv obtain row where row: "E ?d = Some row" "length row = task_total facts + 2"
      "\<forall>k \<le> task_total facts. sum_list (take (Suc k) row) = ?L ?a ?d k" unfolding P_def st by auto
    have "\<forall>s \<in> set ?c. wf_span facts s"
    proof (rule charged_spans_wf)
      have "rp_spans plan ! ?a \<in> set (rp_spans plan)" using a len by simp
      then show "\<forall>s \<in> set (rp_spans plan ! ?a). wf_span facts s" using shape by (simp add: plan_shape_def)
    qed
    from charge_intervals [OF this row(2), of ?n] obtain row' where
      row': "foldE (charge_interval ?n) row ?c = Inr row'" "length row' = task_total facts + 2"
      "\<forall>k \<le> task_total facts. sum_list (take (Suc k) row')
         = sum_list (take (Suc k) row) + ?n * hits ?c (int k - 1)" by blast
    have "charge_alias facts h st x = Inr (E(?d \<mapsto> row'), all_charged @ [?c])"
      using row(1) row'(1) by (simp add: charge_alias_def x st Let_def)
    moreover have grow: "?L (Suc ?a) d k = ?L ?a d k + (if ?d = d then ?n * hits ?c (int k - 1) else 0)" for d k
    proof -
      have "?L (Suc ?a) d k = ?L ?a d k + (if ?d = d then ?n * (of_bool (?a < Suc ?a \<and> covers ?c (int k - 1))
          - of_bool (?a < ?a \<and> covers ?c (int k - 1))) else 0)"
        by (rule load_differs [OF a]) auto
      then show ?thesis using disjoint a by (simp add: disjoint_hits)
    qed
    have "P (ys @ [x]) (E(?d \<mapsto> row'), all_charged @ [?c])"
      unfolding P_def
    proof (intro conjI ballI)
      show "snd (E(?d \<mapsto> row'), all_charged @ [?c]) = map (charged_list facts h plan) [0..<length (ys @ [x])]"
        using inv by (simp add: P_def st)
      fix d
      assume d: "d \<in> fact_devices facts"
      show "\<exists>row. fst (E(?d \<mapsto> row'), all_charged @ [?c]) d = Some row \<and> length row = task_total facts + 2
          \<and> (\<forall>k \<le> task_total facts. sum_list (take (Suc k) row) = ?L (length (ys @ [x])) d k)"
      proof (cases "?d = d")
        case True
        then show ?thesis using row(3) row'(2,3) grow by simp
      next
        case False
        from inv d obtain r where "E d = Some r" "length r = task_total facts + 2"
          "\<forall>k \<le> task_total facts. sum_list (take (Suc k) r) = ?L ?a d k" unfolding P_def st by auto
        with False show ?thesis using grow by simp
      qed
    qed
    ultimately show "\<exists>st'. charge_alias facts h st x = Inr st' \<and> P (ys @ [x]) st'" by blast
  qed
  then obtain D' all_charged where run: "foldE (charge_alias facts h) (D, []) (enumerate 0 (rp_spans plan))
      = Inr (D', all_charged)" and inv: "P (enumerate 0 (rp_spans plan)) (D', all_charged)" by auto
  have same: "?L (alias_count facts) d k = load facts d (\<lambda>a. covers (charged_list facts h plan a) (int k - 1))" for d k
    by (rule load_cong) simp
  show ?thesis using run inv len by (simp add: P_def same)
qed


lemma dict_of_const: "d \<in> fst ` set kvs \<Longrightarrow> dict_of (map (\<lambda>(d, _). (d, v)) kvs) d = Some v"
proof -
  assume "d \<in> fst ` set kvs"
  then have "d \<in> fst ` set (map (\<lambda>(d, _). (d, v)) kvs)" by force
  then obtain w where "dict_of (map (\<lambda>(d, _). (d, v)) kvs) d = Some w" using dict_of_is_Some by metis
  then show ?thesis using dict_of_SomeD by fastforce
qed

lemma pressure_by_device_rows:
  assumes wf: "wf_facts facts" and shape: "plan_shape facts plan"
    and disjoint: "\<forall>a < alias_count facts. disjoint_spans (charged_list facts h plan a)"
  shows "\<exists>P. pressure_by_device facts plan h = Inr P \<and> rows_are facts P (plan_pressure facts h plan)"
proof -
  let ?C = "\<lambda>a b. covers (charged_list facts h plan a) b"
  let ?D = "dict_of (map (\<lambda>(d, _). (d, replicate (task_total facts + 1 + 1) 0)) (fc_object_capacity_by_device facts))"
  have "\<forall>d \<in> fact_devices facts. ?D d = Some (replicate (task_total facts + 2) 0)"
    using dict_of_const [of _ "fc_object_capacity_by_device facts" "replicate (task_total facts + 2) 0"]
    by (intro ballI) (simp del: replicate.simps replicate_Suc)
  from charge_aliases [OF wf shape this disjoint] obtain D' where
    run: "foldE (charge_alias facts h) (?D, []) (enumerate 0 (rp_spans plan))
      = Inr (D', map (charged_list facts h plan) [0..<alias_count facts])"
    and rows: "\<forall>d \<in> fact_devices facts. \<exists>row. D' d = Some row \<and> length row = task_total facts + 2
        \<and> (\<forall>k \<le> task_total facts. sum_list (take (Suc k) row) = load facts d (\<lambda>a. ?C a (int k - 1)))"
    by blast
  let ?P = "\<lambda>d. map_option (\<lambda>row. running_sums 0 (take (task_total facts + 1) row)) (D' d)"
  have "rows_are facts ?P (\<lambda>d b. load facts d (\<lambda>a. ?C a b))"
    unfolding rows_are_def
  proof
    fix d
    assume "d \<in> fact_devices facts"
    with rows obtain row where "D' d = Some row" "length row = task_total facts + 2"
      "\<forall>k \<le> task_total facts. sum_list (take (Suc k) row) = load facts d (\<lambda>a. ?C a (int k - 1))" by blast
    then show "\<exists>row. ?P d = Some row \<and> length row = task_total facts + 1
        \<and> (\<forall>k \<le> task_total facts. row ! k = load facts d (\<lambda>a. ?C a (int k - 1)))"
      by (simp add: running_sums_nth min_def)
  qed
  moreover define f where "f = (\<lambda>task P al. if ?C al (int task - 1) then Inr P
       else bindE (dict_get P (fc_alias_devices facts ! al)) (\<lambda>row.
         bindE (py_add row (int task) (fc_alias_sizes facts ! al)) (\<lambda>row.
         Inr (P(fc_alias_devices facts ! al \<mapsto> row)))))"
  ultimately obtain P where P: "foldE (\<lambda>P (task, rs). foldE (f task) P rs) ?P
      (enumerate 0 (fc_output_reservations facts)) = Inr P"
    and out: "rows_are facts P (\<lambda>d b. load facts d (\<lambda>a. reserved facts a b \<or> ?C a b))"
    using reservations_rows [OF wf, of ?P ?C f] by (metis (no_types, lifting))
  have same: "reserve_alias facts (map (charged_list facts h plan) [0..<alias_count facts]) task Q al = f task Q al"
    if "al < alias_count facts" for task Q al
    using that by (simp add: reserve_alias_def f_def Let_def)
  have "foldE (\<lambda>P (task, rs). foldE (reserve_alias facts (map (charged_list facts h plan) [0..<alias_count facts]) task) P rs)
      ?P (enumerate 0 (fc_output_reservations facts)) = Inr P"
    unfolding P [symmetric]
  proof (intro foldE_cong refl)
    fix Q x
    assume "x \<in> set (enumerate 0 (fc_output_reservations facts))"
    moreover obtain task rs where x: "x = (task, rs)" by (cases x)
    ultimately have "rs \<in> set (fc_output_reservations facts)" by (auto simp: in_set_enumerate_eq)
    then have "\<forall>al \<in> set rs. al < alias_count facts" using wf by (auto simp: wf_facts_def wf_events_def)
    then show "(case x of (task, rs) \<Rightarrow> foldE (reserve_alias facts (map (charged_list facts h plan)
        [0..<alias_count facts]) task) Q rs) = (case x of (task, rs) \<Rightarrow> foldE (f task) Q rs)"
      unfolding x prod.case by (intro foldE_cong refl) (simp add: same)
  qed
  then show ?thesis
    using run out by (simp add: pressure_by_device_def Let_def plan_pressure_def [abs_def])
qed


section \<open>The direct count\<close>

text \<open>The boundaries at which a span may be charged: with headroom, also the one before it.\<close>

definition reach :: "planning_facts \<Rightarrow> bool \<Rightarrow> nat \<Rightarrow> span \<Rightarrow> span" where
  "reach facts h a s = s\<lparr>sp_start := effective_start facts h a s\<rparr>"

lemma reach_False [simp]: "map (reach facts False a) ss = ss"
  by (simp add: map_idI reach_def effective_start_def)

lemma disjoint_reach_charged:
  assumes "\<forall>s \<in> set ss. wf_span facts s" "disjoint_spans (map (reach facts h a) ss)"
  shows "disjoint_spans (charged_spans_of facts h a ss)"
  using assms
proof (induction ss)
  case (Cons s ss)
  have rest: "disjoint_spans (charged_spans_of facts h a ss)" using Cons by simp
  have "sp_end i < sp_start j \<or> sp_end j < sp_start i"
    if i: "charged_span facts h a s = Some i" and j: "j \<in> set (charged_spans_of facts h a ss)" for i j
  proof -
    from j obtain t where t: "t \<in> set ss" "charged_span facts h a t = Some j"
      by (auto simp: charged_spans_of_def map_filter_def)
    have "sp_end s < effective_start facts h a t \<or> sp_end t < effective_start facts h a s"
      using Cons.prems(2) t(1) by (auto simp: reach_def)
    then show ?thesis
      using charged_span_Some(2,4) [OF t(2)] charged_span_Some(2,4) [OF i] t(1) Cons.prems(1) by auto
  qed
  then show ?case
    using rest by (auto simp: charged_spans_of_def map_filter_simps split: option.split)
qed (simp add: charged_spans_of_def map_filter_simps)

lemma charged_at_covers:
  assumes "wf_facts facts" "\<forall>s \<in> set ss. wf_span facts s" "disjoint_spans (map (reach facts h a) ss)"
  shows "charged_at facts h a b ss \<longleftrightarrow> covers (charged_spans_of facts h a ss) b"
  using assms(2,3)
proof (induction ss)
  case (Cons s ss)
  have wf: "wf_span facts s" using Cons.prems by simp
  note contains = charged_span_contains [OF assms(1) wf, where h = h and a = a and b = b]
  have "\<not> covers (charged_spans_of facts h a ss) b" if "effective_start facts h a s \<le> b \<and> b \<le> sp_end s"
  proof
    assume "covers (charged_spans_of facts h a ss) b"
    then obtain t i where t: "t \<in> set ss" "charged_span facts h a t = Some i" "span_contains i b"
      by (auto simp: list_ex_iff charged_spans_of_def map_filter_def)
    with Cons.prems charged_span_Some(2,4) [OF t(2)] have "effective_start facts h a t \<le> b \<and> b \<le> sp_end t"
      by (auto simp: span_contains_def)
    with that t(1) Cons.prems(2) show False by (force simp: reach_def)
  qed
  with Cons contains show ?case
    by (auto simp: charged_spans_of_def map_filter_simps split: option.splits)
qed (simp add: charged_spans_of_def map_filter_simps)

lemma boundary_bytes_reach:
  assumes wf: "wf_facts facts" and shape: "plan_shape facts plan"
    and disjoint: "\<forall>a < alias_count facts. disjoint_spans (map (reach facts h a) (rp_spans plan ! a))"
    and b: "- 1 \<le> b"
  shows "boundary_bytes facts plan b d h = plan_pressure facts h plan d b"
proof -
  let ?C = "\<lambda>a. charged_at facts h a b (rp_spans plan ! a)"
  let ?size = "\<lambda>a. fc_alias_sizes facts ! a"
  have C: "?C a \<longleftrightarrow> covers (charged_list facts h plan a) b" if a: "a < alias_count facts" for a
  proof -
    have "rp_spans plan ! a \<in> set (rp_spans plan)" using a shape by (simp add: plan_shape_def)
    then show ?thesis using shape disjoint a by (intro charged_at_covers [OF wf]) (auto simp: plan_shape_def)
  qed
  have resident: "sum_list (map ?size (filter (\<lambda>a. fc_alias_devices facts ! a = d \<and> ?C a)
      [0..<alias_count facts])) = load facts d ?C"
    unfolding load_def by (simp add: sum_list_map_filter' sum_list_distinct_conv_sum_set atLeast0LessThan)
  have total: "boundary_bytes facts plan b d h = load facts d (\<lambda>a. reserved facts a b \<or> ?C a)"
  proof (cases "b + 1 \<ge> int (task_total facts)")
    case True
    then have "\<not> reserved facts a b" for a using wf by (auto simp: reserved_def wf_facts_def wf_tables_def)
    then show ?thesis using True resident by (simp add: boundary_bytes_def Let_def)
  next
    case False
    let ?row = "fc_output_reservations facts ! nat (b + 1)"
    have k: "nat (b + 1) < length (fc_output_reservations facts)"
      using False b wf by (auto simp: wf_facts_def wf_tables_def)
    have row: "distinct ?row" "set ?row \<subseteq> {..<alias_count facts}"
      using wf nth_mem [OF k] by (auto simp: wf_facts_def wf_events_def)
    have res: "reserved facts a b \<longleftrightarrow> a \<in> set ?row" for a using k b by (auto simp: reserved_def)
    let ?new = "\<lambda>a. if fc_alias_devices facts ! a = d \<and> \<not> ?C a then ?size a else 0"
    have "sum_list (map ?size (filter (\<lambda>a. fc_alias_devices facts ! a = d \<and> \<not> ?C a) ?row)) = sum ?new (set ?row)"
      using row(1) by (simp add: sum_list_map_filter' sum_list_distinct_conv_sum_set)
    also have "\<dots> = (\<Sum>a < alias_count facts. if a \<in> set ?row then ?new a else 0)"
      using row(2) by (simp add: sum.inter_restrict [symmetric] Int_absorb1)
    finally have "boundary_bytes facts plan b d h
        = (\<Sum>a < alias_count facts. (if fc_alias_devices facts ! a = d \<and> ?C a then ?size a else 0)
            + (if a \<in> set ?row then ?new a else 0))"
      using False b resident by (simp add: boundary_bytes_def Let_def load_def sum.distrib)
    also have "\<dots> = load facts d (\<lambda>a. reserved facts a b \<or> ?C a)"
      unfolding load_def res by (rule sum.cong) auto
    finally show ?thesis .
  qed
  show ?thesis unfolding total plan_pressure_def by (rule load_cong) (simp add: C)
qed

lemma boundary_bytes_pressure:
  assumes wf: "wf_facts facts" and shape: "plan_shape facts plan"
    and disjoint: "\<forall>ss \<in> set (rp_spans plan). disjoint_spans ss" and b: "- 1 \<le> b"
  shows "boundary_bytes facts plan b d False = plan_pressure facts False plan d b"
  by (rule boundary_bytes_reach [OF wf shape _ b]) (use disjoint shape in \<open>simp add: plan_shape_def\<close>)


section \<open>The incremental update\<close>

lemma contributes_reserved:
  "contributes facts a charged b \<longleftrightarrow> reserved facts a b \<or> covers charged b"
  by (simp add: contributes_def reserved_def)

lemma foldE_bump_rows:
  assumes "distinct bs" "\<forall>b \<in> set bs. 0 \<le> b + 1 \<and> b + 1 < int (length row)"
  shows "\<exists>row'. foldE (\<lambda>row b. py_add row (b + 1) (f b)) row bs = Inr row' \<and> length row' = length row
    \<and> (\<forall>k < length row. row' ! k = row ! k + (if int k - 1 \<in> set bs then f (int k - 1) else 0))"
  using assms
proof (induction bs arbitrary: row)
  case (Cons b bs)
  let ?r = "row[nat (b + 1) := row ! nat (b + 1) + f b]"
  have "py_add row (b + 1) (f b) = Inr ?r" using Cons.prems(2) by (intro py_add_in_range) auto
  moreover from Cons.IH [of ?r] Cons.prems obtain row' where
    "foldE (\<lambda>row b. py_add row (b + 1) (f b)) ?r bs = Inr row'" "length row' = length row"
    "\<forall>k < length row. row' ! k = ?r ! k + (if int k - 1 \<in> set bs then f (int k - 1) else 0)" by auto
  moreover have "?r ! k = row ! k + (if int k - 1 = b then f b else 0)" if "k < length row" for k
    using that Cons.prems(2) by (auto simp: nth_list_update)
  ultimately show ?case using Cons.prems(1) by auto
qed simp

lemma update_pressure_rows:
  assumes wf: "wf_facts facts" and a: "a < alias_count facts"
    and rows: "rows_are facts P (plan_pressure facts h plan)"
    and others: "\<And>x. x \<noteq> a \<Longrightarrow> rp_spans plan' ! x = rp_spans plan ! x"
  shows "\<exists>P'. update_pressure_for_alias facts plan plan' a P h = Inr P'
    \<and> rows_are facts P' (plan_pressure facts h plan')"
proof -
  let ?d = "fc_alias_devices facts ! a" and ?n = "fc_alias_sizes facts ! a"
  let ?f = "\<lambda>b. ?n * (of_bool (contributes facts a (charged_list facts h plan' a) b)
      - of_bool (contributes facts a (charged_list facts h plan a) b))"
  from rows alias_device [OF wf a] obtain row where row: "P ?d = Some row" "length row = task_total facts + 1"
    "\<forall>k \<le> task_total facts. row ! k = plan_pressure facts h plan ?d (int k - 1)"
    unfolding rows_are_def by blast
  have "\<forall>b \<in> set [- 1..last_boundary facts]. 0 \<le> b + 1 \<and> b + 1 < int (length row)"
    using row(2) by (auto simp: last_boundary_def)
  from foldE_bump_rows [OF _ this, of ?f] obtain row' where
    row': "foldE (\<lambda>row b. py_add row (b + 1) (?f b)) row [- 1..last_boundary facts] = Inr row'"
    "length row' = length row"
    "\<forall>k < length row. row' ! k = row ! k + (if int k - 1 \<in> set [- 1..last_boundary facts] then ?f (int k - 1) else 0)"
    by auto
  have change: "plan_pressure facts h plan' d b = plan_pressure facts h plan d b + (if ?d = d then ?f b else 0)"
    for d b
    unfolding plan_pressure_def contributes_reserved by (rule load_differs [OF a]) (simp add: others)
  have "rows_are facts (P(?d \<mapsto> row')) (plan_pressure facts h plan')"
    unfolding rows_are_def
  proof
    fix d
    assume d: "d \<in> fact_devices facts"
    show "\<exists>row. (P(?d \<mapsto> row')) d = Some row \<and> length row = task_total facts + 1
        \<and> (\<forall>k \<le> task_total facts. row ! k = plan_pressure facts h plan' d (int k - 1))"
    proof (cases "?d = d")
      case True
      have "row' ! k = plan_pressure facts h plan' d (int k - 1)" if "k \<le> task_total facts" for k
        using that row row' True by (simp add: change last_boundary_def)
      with True row(2) row'(2) show ?thesis by simp
    next
      case False
      with rows [unfolded rows_are_def, rule_format, OF d] show ?thesis by (simp add: change)
    qed
  qed
  then show ?thesis using row(1) row'(1) by (simp add: update_pressure_for_alias_def Let_def)
qed


section \<open>The required floor\<close>

definition floor_pressure :: "planning_facts \<Rightarrow> string \<Rightarrow> int \<Rightarrow> int" where
  "floor_pressure facts d b =
     load facts d (\<lambda>a. reserved facts a b \<or> (b \<in> fc_anchors facts ! a \<and> floor_charged facts a b))"

lemma floor_alias_rows:
  assumes wf: "wf_facts facts" and a: "a < alias_count facts"
    and rows: "rows_are facts P (\<lambda>d b. load facts d (\<lambda>x. x < a \<and> H x b))"
    and H: "\<And>b. H a b \<longleftrightarrow> b \<in> fc_anchors facts ! a \<and> floor_charged facts a b"
  shows "\<exists>P'. floor_alias facts (P, cs) (a, fc_anchors facts ! a) = Inr (P', cs @ [{b. H a b}])
    \<and> rows_are facts P' (\<lambda>d b. load facts d (\<lambda>x. x < Suc a \<and> H x b))"
proof -
  let ?d = "fc_alias_devices facts ! a" and ?n = "fc_alias_sizes facts ! a"
  define bs where "bs = filter (floor_charged facts a) (sorted_list_of_set (fc_anchors facts ! a))"
  have fin: "finite (fc_anchors facts ! a)" and range: "\<forall>b \<in> fc_anchors facts ! a. - 1 \<le> b \<and> b \<le> last_boundary facts"
    using wf a by (auto simp: wf_facts_def wf_events_def)
  have set: "set bs = {b. H a b}" using fin by (auto simp: bs_def H)
  have dist: "distinct bs" by (simp add: bs_def)
  have bounds: "- 1 \<le> b \<and> b \<le> last_boundary facts" if "b \<in> set bs" for b
    using that range by (auto simp: set H)
  let ?R = "\<lambda>ys d b. load facts d (\<lambda>x. x < a \<and> H x b) + (if d = ?d \<and> b \<in> set ys then ?n else 0)"
  let ?f = "\<lambda>P b. bindE (dict_get P ?d) (\<lambda>row. bindE (py_add row (b + 1) ?n) (\<lambda>row. Inr (P(?d \<mapsto> row))))"
  have "\<exists>P'. foldE ?f P bs = Inr P' \<and> rows_are facts P' (?R bs)"
  proof (rule foldE_total [where P = "\<lambda>ys Q. rows_are facts Q (?R ys)"])
    show "rows_are facts P (?R [])" using rows by simp
    fix ys b zs Q
    assume inv: "rows_are facts Q (?R ys)" and split: "bs = ys @ b # zs"
    have b: "- 1 \<le> b" "b \<le> last_boundary facts" using bounds [of b] by (simp_all add: split)
    have new: "b \<notin> set ys" using dist by (simp add: split)
    from rows_are_bump [OF inv alias_device [OF wf a] b, of ?n] obtain P' where
      P': "?f Q b = Inr P'" and r: "rows_are facts P' (\<lambda>d' b'. ?R ys d' b' + (if d' = ?d \<and> b' = b then ?n else 0))"
      by (elim exE conjE) (rule that)
    from r have "rows_are facts P' (?R (ys @ [b]))" by (rule rows_are_cong) (use new in auto)
    with P' show "\<exists>P'. ?f Q b = Inr P' \<and> rows_are facts P' (?R (ys @ [b]))" by (intro exI conjI)
  qed
  then obtain P' where P': "foldE ?f P bs = Inr P'" and r: "rows_are facts P' (?R bs)" by blast
  have "?R bs d b = load facts d (\<lambda>x. x < Suc a \<and> H x b)" for d b
  proof -
    have "load facts d (\<lambda>x. x < Suc a \<and> H x b) = load facts d (\<lambda>x. x < a \<and> H x b)
        + (if ?d = d then ?n * (of_bool (a < Suc a \<and> H a b) - of_bool (a < a \<and> H a b)) else 0)"
      by (rule load_differs [OF a]) auto
    then show ?thesis by (auto simp: set)
  qed
  with r have "rows_are facts P' (\<lambda>d b. load facts d (\<lambda>x. x < Suc a \<and> H x b))" by simp
  moreover have "floor_alias facts (P, cs) (a, fc_anchors facts ! a) = Inr (P', cs @ [{b. H a b}])"
    using P' set unfolding floor_alias_def Let_def prod.case bs_def [symmetric] by simp
  ultimately show ?thesis by blast
qed

lemma required_floor_rows:
  assumes wf: "wf_facts facts"
  shows "\<exists>P. required_floor_pressure facts = Inr P \<and> rows_are facts P (floor_pressure facts)"
proof -
  define H where "H = (\<lambda>a b. b \<in> fc_anchors facts ! a \<and> floor_charged facts a b)"
  let ?P = "dict_of (map (\<lambda>(d, _). (d, replicate (task_total facts + 1) (0 :: int))) (fc_object_capacity_by_device facts))"
  have len: "length (fc_anchors facts) = alias_count facts" using wf by (simp add: wf_facts_def wf_tables_def)
  define I where "I = (\<lambda>ys (st :: pressures \<times> int set list).
    snd st = map (\<lambda>a. {b. H a b}) [0..<length (ys :: (nat \<times> int set) list)]
    \<and> rows_are facts (fst st) (\<lambda>d b. load facts d (\<lambda>x. x < length ys \<and> H x b)))"
  have "\<exists>st. foldE (floor_alias facts) (?P, []) (enumerate 0 (fc_anchors facts)) = Inr st
      \<and> I (enumerate 0 (fc_anchors facts)) st"
  proof (rule foldE_total)
    have "\<forall>d \<in> fact_devices facts. ?P d = Some (replicate (task_total facts + 1) 0)"
      by (intro ballI dict_of_const)
    then show "I [] (?P, [])"
      by (simp add: I_def rows_are_def nth_Cons' del: replicate.simps)
    fix ys x zs and st :: "pressures \<times> int set list"
    assume inv: "I ys st" and split: "enumerate 0 (fc_anchors facts) = ys @ x # zs"
    let ?a = "length ys"
    have "enumerate 0 (fc_anchors facts) ! ?a = x" using split by simp
    moreover have a: "?a < alias_count facts" using arg_cong [OF split, of length] len by simp
    ultimately have x: "x = (?a, fc_anchors facts ! ?a)" using len by (simp add: nth_enumerate_eq)
    obtain P cs where st: "st = (P, cs)" by (cases st)
    from inv have rows: "rows_are facts P (\<lambda>d b. load facts d (\<lambda>x. x < ?a \<and> H x b))"
      by (simp add: I_def st)
    from floor_alias_rows [OF wf a rows, of cs] obtain P' where
      "floor_alias facts (P, cs) (?a, fc_anchors facts ! ?a) = Inr (P', cs @ [{b. H ?a b}])"
      "rows_are facts P' (\<lambda>d b. load facts d (\<lambda>x. x < Suc ?a \<and> H x b))"
      unfolding H_def by blast
    then show "\<exists>st'. floor_alias facts st x = Inr st' \<and> I (ys @ [x]) st'"
      using inv by (auto simp: st x I_def)
  qed
  then obtain P where run: "foldE (floor_alias facts) (?P, []) (enumerate 0 (fc_anchors facts))
      = Inr (P, map (\<lambda>a. {b. H a b}) [0..<alias_count facts])"
    and rows: "rows_are facts P (\<lambda>d b. load facts d (\<lambda>x. x < alias_count facts \<and> H x b))"
    using len by (auto simp: I_def)
  from rows have rows: "rows_are facts P (\<lambda>d b. load facts d (\<lambda>x. H x b))"
    by (rule rows_are_cong) (auto intro: load_cong)
  define f where "f = (\<lambda>task P al. if H al (int task - 1) then Inr P
       else bindE (dict_get P (fc_alias_devices facts ! al)) (\<lambda>row.
         bindE (py_add row (int task) (fc_alias_sizes facts ! al)) (\<lambda>row.
         Inr (P(fc_alias_devices facts ! al \<mapsto> row)))))"
  obtain P' where P': "foldE (\<lambda>P (task, rs). foldE (f task) P rs) P
      (enumerate 0 (fc_output_reservations facts)) = Inr P'"
    and out: "rows_are facts P' (\<lambda>d b. load facts d (\<lambda>a. reserved facts a b \<or> H a b))"
    using reservations_rows [OF wf rows, of f] f_def by (metis (no_types, lifting))
  have same: "floor_reservation facts (map (\<lambda>a. {b. H a b}) [0..<alias_count facts]) task Q al = f task Q al"
    if "al < alias_count facts" for task Q al
    using that by (simp add: floor_reservation_def f_def Let_def)
  have "foldE (\<lambda>P (task, rs). foldE (floor_reservation facts (map (\<lambda>a. {b. H a b}) [0..<alias_count facts]) task) P rs)
      P (enumerate 0 (fc_output_reservations facts)) = Inr P'"
    unfolding P' [symmetric]
  proof (intro foldE_cong refl)
    fix Q x
    assume "x \<in> set (enumerate 0 (fc_output_reservations facts))"
    moreover obtain task rs where x: "x = (task, rs)" by (cases x)
    ultimately have "rs \<in> set (fc_output_reservations facts)" by (auto simp: in_set_enumerate_eq)
    then have "\<forall>al \<in> set rs. al < alias_count facts" using wf by (auto simp: wf_facts_def wf_events_def)
    then show "(case x of (task, rs) \<Rightarrow> foldE (floor_reservation facts (map (\<lambda>a. {b. H a b})
        [0..<alias_count facts]) task) Q rs) = (case x of (task, rs) \<Rightarrow> foldE (f task) Q rs)"
      unfolding x prod.case by (intro foldE_cong refl) (simp add: same)
  qed
  then show ?thesis
    using run out by (simp add: required_floor_pressure_def Let_def floor_pressure_def [abs_def] H_def)
qed

end
