(* ===== verification/PressureFit_Cuts.thy ===== *)
theory PressureFit_Cuts
  imports PressureFit_Pressure "HOL-Library.Multiset"
begin

text \<open>
  The plans the reduction of PressureFit moves through: sorted, disjoint spans that end at an
  anchor and keep every anchor resident. A legal cut lies inside one span and away from the
  anchors, and applying it gives such a plan of smaller weight.
\<close>

section \<open>Well-formed plans\<close>

definition ordered_spans :: "span list \<Rightarrow> bool" where
  "ordered_spans ss \<longleftrightarrow> sorted_wrt (\<lambda>s t. sp_end s < sp_start t) ss"

definition spans_ok :: "planning_facts \<Rightarrow> int set \<Rightarrow> span list \<Rightarrow> bool" where
  "spans_ok facts anchors ss \<longleftrightarrow> ordered_spans ss
     \<and> (\<forall>s \<in> set ss. wf_span facts s \<and> sp_end s \<in> anchors \<and> Min anchors \<le> sp_start s)
     \<and> (\<forall>b \<in> anchors. covers ss b)"

definition plan_ok :: "planning_facts \<Rightarrow> residency_plan \<Rightarrow> bool" where
  "plan_ok facts plan \<longleftrightarrow> length (rp_spans plan) = alias_count facts
     \<and> rp_anchors plan = fc_anchors facts
     \<and> (\<forall>a < alias_count facts. spans_ok facts (fc_anchors facts ! a) (rp_spans plan ! a))"

lemma plan_ok_shape: "plan_ok facts plan \<Longrightarrow> plan_shape facts plan"
  unfolding plan_ok_def plan_shape_def spans_ok_def by (metis in_set_conv_nth)

lemma ordered_disjoint: "ordered_spans ss \<Longrightarrow> disjoint_spans ss"
  by (induction ss) (auto simp: ordered_spans_def)

text \<open>The seed: one span per alias with an anchor, the hull of its anchors.\<close>

lemma seed_residency_ok:
  assumes wf: "wf_facts facts"
  shows "plan_ok facts (seed_residency facts)"
    and "\<forall>a < alias_count facts. disjoint_spans (charged_list facts h (seed_residency facts) a)"
proof -
  have len: "length (fc_anchors facts) = alias_count facts" using wf by (simp add: wf_facts_def wf_tables_def)
  have "spans_ok facts (fc_anchors facts ! a) (seed_span (fc_anchors facts ! a))" if "a < alias_count facts" for a
    using wf that
    by (auto simp: spans_ok_def seed_span_def ordered_spans_def wf_span_def wf_facts_def wf_events_def
        span_contains_def)
  then show "plan_ok facts (seed_residency facts)"
    using len by (simp add: plan_ok_def seed_residency_def seed_from_anchors_def)
  show "\<forall>a < alias_count facts. disjoint_spans (charged_list facts h (seed_residency facts) a)"
    using len by (auto simp: seed_residency_def seed_from_anchors_def seed_span_def charged_spans_of_def
        map_filter_simps split: option.split)
qed


section \<open>Gaps\<close>

lemma gap_start_props:
  "lowest \<le> start \<Longrightarrow> start \<notin> anchors
     \<Longrightarrow> lowest \<le> gap_start anchors lowest start \<and> gap_start anchors lowest start \<le> start
       \<and> (\<forall>x. gap_start anchors lowest start \<le> x \<and> x \<le> start \<longrightarrow> x \<notin> anchors)
       \<and> (lowest < gap_start anchors lowest start \<longrightarrow> gap_start anchors lowest start - 1 \<in> anchors)"
proof (induction anchors lowest start rule: gap_start.induct)
  case (1 anchors lowest start)
  show ?case
  proof (cases "start > lowest \<and> start - 1 \<notin> anchors")
    case True
    with 1 have IH: "lowest \<le> gap_start anchors lowest (start - 1)
        \<and> gap_start anchors lowest (start - 1) \<le> start - 1
        \<and> (\<forall>x. gap_start anchors lowest (start - 1) \<le> x \<and> x \<le> start - 1 \<longrightarrow> x \<notin> anchors)
        \<and> (lowest < gap_start anchors lowest (start - 1) \<longrightarrow> gap_start anchors lowest (start - 1) - 1 \<in> anchors)"
      by simp
    have eq: "gap_start anchors lowest start = gap_start anchors lowest (start - 1)"
      using True by (subst gap_start.simps) simp
    have "x \<notin> anchors" if "gap_start anchors lowest (start - 1) \<le> x" "x \<le> start" for x
      using that IH 1(3) by (cases "x = start") auto
    with IH show ?thesis unfolding eq by auto
  next
    case False
    then have "gap_start anchors lowest start = start" by (subst gap_start.simps) argo
    with False 1 show ?thesis by auto
  qed
qed

lemma gap_end_props:
  "e \<le> highest \<Longrightarrow> e \<notin> anchors
     \<Longrightarrow> gap_end anchors highest e \<le> highest \<and> e \<le> gap_end anchors highest e
       \<and> (\<forall>x. e \<le> x \<and> x \<le> gap_end anchors highest e \<longrightarrow> x \<notin> anchors)"
proof (induction anchors highest e rule: gap_end.induct)
  case (1 anchors highest e)
  show ?case
  proof (cases "e < highest \<and> e + 1 \<notin> anchors")
    case True
    with 1 have IH: "gap_end anchors highest (e + 1) \<le> highest \<and> e + 1 \<le> gap_end anchors highest (e + 1)
        \<and> (\<forall>x. e + 1 \<le> x \<and> x \<le> gap_end anchors highest (e + 1) \<longrightarrow> x \<notin> anchors)" by simp
    have eq: "gap_end anchors highest e = gap_end anchors highest (e + 1)"
      using True by (subst gap_end.simps) simp
    have "x \<notin> anchors" if "e \<le> x" "x \<le> gap_end anchors highest (e + 1)" for x
      using that IH 1(3) by (cases "x = e") auto
    with IH show ?thesis unfolding eq by auto
  next
    case False
    then have "gap_end anchors highest e = e" by (subst gap_end.simps) argo
    with False 1 show ?thesis by auto
  qed
qed


section \<open>Legal cuts\<close>

text \<open>The removed boundaries lie inside one span, past the initial boundary, and hold no anchor.\<close>

definition cut_of :: "planning_facts \<Rightarrow> residency_plan \<Rightarrow> cut \<Rightarrow> bool" where
  "cut_of facts plan c \<longleftrightarrow> ct_alias c < alias_count facts
     \<and> ct_span_index c < length (rp_spans plan ! ct_alias c)
     \<and> (let s = rp_spans plan ! ct_alias c ! ct_span_index c; anchors = fc_anchors facts ! ct_alias c
        in 0 \<le> ct_start c \<and> sp_start s \<le> ct_start c \<and> ct_start c \<le> ct_end c + 1 \<and> ct_end c < sp_end s
           \<and> (\<forall>x. ct_start c \<le> x \<and> x \<le> ct_end c \<longrightarrow> x \<notin> anchors)
           \<and> (sp_start s < ct_start c \<longrightarrow> ct_start c - 1 \<in> anchors)
           \<and> (ct_end c < ct_start c \<longrightarrow> sp_start s < ct_start c))"

lemma cut_of_span_Some:
  assumes "cut_of_span facts anchors boundary a (i, s) = Some c"
    and "sp_end s \<in> anchors"
  shows "ct_alias c = a" "ct_span_index c = i" "0 \<le> ct_start c" "sp_start s \<le> ct_start c"
    "ct_start c \<le> ct_end c + 1" "ct_end c < sp_end s" "\<forall>x. ct_start c \<le> x \<and> x \<le> ct_end c \<longrightarrow> x \<notin> anchors"
    "sp_start s < ct_start c \<longrightarrow> ct_start c - 1 \<in> anchors" "ct_end c < ct_start c \<longrightarrow> sp_start s < ct_start c"
proof -
  from assms(1) consider
      (gap) "boundary \<notin> anchors" "span_contains s boundary"
        "c = \<lparr>ct_alias = a, ct_span_index = i, ct_start = gap_start anchors (sp_start s) boundary,
           ct_end = gap_end anchors (sp_end s) boundary\<rparr>" "0 \<le> ct_start c"
    | (split) "boundary \<in> anchors" "span_contains s boundary" "boundary < sp_end s"
        "c = \<lparr>ct_alias = a, ct_span_index = i, ct_start = boundary + 1, ct_end = boundary\<rparr>" "0 \<le> ct_start c"
    unfolding cut_of_span_def gap_containing_def Let_def prod.case
    by (cases "boundary \<in> anchors"; cases "span_contains s boundary") (simp_all split: if_splits)
  note cases = this
  have all: "ct_alias c = a \<and> ct_span_index c = i \<and> 0 \<le> ct_start c \<and> sp_start s \<le> ct_start c
    \<and> ct_start c \<le> ct_end c + 1 \<and> ct_end c < sp_end s \<and> (\<forall>x. ct_start c \<le> x \<and> x \<le> ct_end c \<longrightarrow> x \<notin> anchors)
    \<and> (sp_start s < ct_start c \<longrightarrow> ct_start c - 1 \<in> anchors)
    \<and> (ct_end c < ct_start c \<longrightarrow> sp_start s < ct_start c)"
  proof (cases rule: cases)
    case gap
    have s: "ct_start c = gap_start anchors (sp_start s) boundary" "ct_end c = gap_end anchors (sp_end s) boundary"
      "ct_alias c = a" "ct_span_index c = i" "sp_start s \<le> boundary" "boundary \<le> sp_end s"
      using gap(2,3) by (simp_all add: span_contains_def)
    have start: "sp_start s \<le> ct_start c \<and> ct_start c \<le> boundary
        \<and> (\<forall>x. ct_start c \<le> x \<and> x \<le> boundary \<longrightarrow> x \<notin> anchors)
        \<and> (sp_start s < ct_start c \<longrightarrow> ct_start c - 1 \<in> anchors)"
      unfolding s(1) by (rule gap_start_props [OF s(5) gap(1)])
    have finish: "ct_end c \<le> sp_end s \<and> boundary \<le> ct_end c \<and> (\<forall>x. boundary \<le> x \<and> x \<le> ct_end c \<longrightarrow> x \<notin> anchors)"
      unfolding s(2) by (rule gap_end_props [OF s(6) gap(1)])
    then have "ct_end c \<notin> anchors" by simp
    then have "ct_end c \<noteq> sp_end s" using assms(2) by metis
    moreover have "x \<notin> anchors" if "ct_start c \<le> x" "x \<le> ct_end c" for x
      using start finish that linear [of x boundary] by blast
    ultimately show ?thesis using start finish gap(4) s(3,4) by simp
  next
    case split
    then show ?thesis by (auto simp: span_contains_def)
  qed
  from all show "ct_alias c = a" "ct_span_index c = i" "0 \<le> ct_start c" "sp_start s \<le> ct_start c"
    "ct_start c \<le> ct_end c + 1" "ct_end c < sp_end s" "\<forall>x. ct_start c \<le> x \<and> x \<le> ct_end c \<longrightarrow> x \<notin> anchors"
    "sp_start s < ct_start c \<longrightarrow> ct_start c - 1 \<in> anchors" "ct_end c < ct_start c \<longrightarrow> sp_start s < ct_start c"
    by blast+
qed

lemma set_legal_cuts:
  "set (legal_cuts facts plan boundary d) = {c. \<exists>a i. a < length (rp_spans plan) \<and> fc_alias_devices facts ! a = d
     \<and> i < length (rp_spans plan ! a)
     \<and> cut_of_span facts (rp_anchors plan ! a) boundary a (i, rp_spans plan ! a ! i) = Some c}"
proof -
  have pick: "set (List.map_filter (cut_of_span facts anchors boundary a) (enumerate 0 ss))
      = {c. \<exists>i < length ss. cut_of_span facts anchors boundary a (i, ss ! i) = Some c}" for anchors a ss
    by (force simp: map_filter_def in_set_enumerate_eq)
  show ?thesis
    unfolding legal_cuts_def set_concat set_map image_image
    by (force simp: pick in_set_enumerate_eq split: if_splits)
qed

lemma legal_cut_of:
  assumes "plan_ok facts plan" "c \<in> set (legal_cuts facts plan boundary d)"
  shows "cut_of facts plan c" and "fc_alias_devices facts ! ct_alias c = d"
proof -
  from assms obtain a i where a: "a < alias_count facts" "fc_alias_devices facts ! a = d"
    and i: "i < length (rp_spans plan ! a)"
    and cut: "cut_of_span facts (fc_anchors facts ! a) boundary a (i, rp_spans plan ! a ! i) = Some c"
    by (auto simp: set_legal_cuts plan_ok_def)
  have "sp_end (rp_spans plan ! a ! i) \<in> fc_anchors facts ! a"
    using assms(1) a i by (simp add: plan_ok_def spans_ok_def)
  note props = cut_of_span_Some [OF cut this]
  show "cut_of facts plan c" using props a(1) i by (simp add: cut_of_def Let_def)
  show "fc_alias_devices facts ! ct_alias c = d" using props(1) a(2) by simp
qed


section \<open>Applying a cut\<close>

definition pieces :: "span \<Rightarrow> cut \<Rightarrow> span list" where
  "pieces s c = (if sp_start s < ct_start c then [\<lparr>sp_start = sp_start s, sp_end = ct_start c - 1\<rparr>] else [])
     @ [\<lparr>sp_start = ct_end c + 1, sp_end = sp_end s\<rparr>]"

lemma span_key_inj: "inj_on span_key A"
  by (auto simp: span_key_def inj_on_def)

lemma ordered_sorted_key:
  assumes "ordered_spans ss" "\<forall>s \<in> set ss. sp_start s \<le> sp_end s"
  shows "sorted (map span_key ss)"
  using assms by (induction ss) (force simp: ordered_spans_def span_key_def)+

text \<open>What the pieces of a span keep and lose.\<close>

lemma pieces_props:
  assumes "cut_of facts plan c" "s = rp_spans plan ! ct_alias c ! ct_span_index c"
    and "wf_span facts s" "sp_end s \<in> fc_anchors facts ! ct_alias c"
    and "t \<in> set (pieces s c)"
  shows "wf_span facts t" "sp_end t \<in> fc_anchors facts ! ct_alias c"
    "sp_start s \<le> sp_start t" "sp_end t \<le> sp_end s"
  using assms by (auto simp: pieces_def cut_of_def Let_def wf_span_def split: if_splits)

lemma pieces_ordered:
  assumes "cut_of facts plan c" "s = rp_spans plan ! ct_alias c ! ct_span_index c"
  shows "ordered_spans (pieces s c)"
  using assms by (auto simp: pieces_def cut_of_def Let_def ordered_spans_def)

lemma pieces_cover:
  assumes "cut_of facts plan c" "s = rp_spans plan ! ct_alias c ! ct_span_index c"
  shows "covers (pieces s c) b \<longleftrightarrow> span_contains s b \<and> \<not> (ct_start c \<le> b \<and> b \<le> ct_end c)"
  using assms by (auto simp: pieces_def cut_of_def Let_def span_contains_def)

lemma replace_ordered:
  assumes "ordered_spans ss" "i < length ss" "ordered_spans ps"
    and "\<forall>s \<in> set ss. sp_start s \<le> sp_end s"
    and "\<forall>p \<in> set ps. sp_start (ss ! i) \<le> sp_start p \<and> sp_start p \<le> sp_end p \<and> sp_end p \<le> sp_end (ss ! i)"
  shows "ordered_spans (take i ss @ ps @ drop (Suc i) ss)"
proof -
  have whole: "ordered_spans (take i ss @ ss ! i # drop (Suc i) ss)" using assms(1,2) by (simp add: id_take_nth_drop [symmetric])
  show ?thesis
    using whole assms(3,5) unfolding ordered_spans_def sorted_wrt_append by force
qed

lemma apply_cut_spans:
  assumes ok: "plan_ok facts plan" and cut: "cut_of facts plan c"
    and ss: "ss = rp_spans plan ! ct_alias c" and i: "i = ct_span_index c"
  shows "rp_spans (apply_cut plan c) = (rp_spans plan)[ct_alias c := take i ss @ pieces (ss ! i) c @ drop (Suc i) ss]"
    and "spans_ok facts (fc_anchors facts ! ct_alias c) (take i ss @ pieces (ss ! i) c @ drop (Suc i) ss)"
proof -
  let ?A = "fc_anchors facts ! ct_alias c" and ?new = "take i ss @ pieces (ss ! i) c @ drop (Suc i) ss"
  have a: "ct_alias c < alias_count facts" and len: "i < length ss" using cut by (simp_all add: cut_of_def ss i)
  have old: "spans_ok facts ?A ss" using ok a by (simp add: plan_ok_def ss)
  then have nth: "wf_span facts (ss ! i)" "sp_end (ss ! i) \<in> ?A" "Min ?A \<le> sp_start (ss ! i)"
    using len by (simp_all add: spans_ok_def)
  note props = pieces_props [OF cut _ nth(1,2), unfolded ss i, OF refl, folded ss i]
  have members: "wf_span facts t \<and> sp_end t \<in> ?A \<and> Min ?A \<le> sp_start t" if t: "t \<in> set ?new" for t
  proof -
    from t consider "t \<in> set ss" | "t \<in> set (pieces (ss ! i) c)" by (auto dest: in_set_takeD in_set_dropD)
    then show ?thesis
    proof cases
      case 1
      then show ?thesis using old by (simp add: spans_ok_def)
    next
      case 2
      with props [OF 2] nth(3) show ?thesis by auto
    qed
  qed
  have "ordered_spans ?new"
  proof (rule replace_ordered [OF _ len])
    show "ordered_spans ss" "\<forall>s \<in> set ss. sp_start s \<le> sp_end s" using old by (auto simp: spans_ok_def wf_span_def)
    show "ordered_spans (pieces (ss ! i) c)" using pieces_ordered [OF cut] by (simp add: ss i)
    show "\<forall>p \<in> set (pieces (ss ! i) c). sp_start (ss ! i) \<le> sp_start p \<and> sp_start p \<le> sp_end p
        \<and> sp_end p \<le> sp_end (ss ! i)" using props by (auto simp: wf_span_def)
  qed
  note ordered = this
  have covered: "covers ?new b" if b: "b \<in> ?A" for b
  proof -
    from old b have "covers ss b" by (simp add: spans_ok_def)
    moreover have "ss = take i ss @ ss ! i # drop (Suc i) ss" using len by (simp add: id_take_nth_drop)
    ultimately have "covers (take i ss @ ss ! i # drop (Suc i) ss) b" by metis
    moreover have "covers (pieces (ss ! i) c) b" if "span_contains (ss ! i) b"
    proof -
      have "\<not> (ct_start c \<le> b \<and> b \<le> ct_end c)" using cut b unfolding cut_of_def Let_def by blast
      with that show ?thesis using pieces_cover [OF cut, of "ss ! i" b] by (simp add: ss i)
    qed
    ultimately show ?thesis by auto
  qed
  show "spans_ok facts ?A ?new" using members ordered covered by (auto simp: spans_ok_def)
  have "ct_end c < sp_end (ss ! i)" using cut by (simp add: cut_of_def Let_def ss i)
  then have "sort_key span_key ((take i ss @ drop (Suc i) ss) @ pieces (ss ! i) c) = ?new"
    using ordered_sorted_key [OF ordered] members
    by (intro sort_key_inj_key_eq span_key_inj) (auto simp: wf_span_def)
  with \<open>ct_end c < sp_end (ss ! i)\<close>
  show "rp_spans (apply_cut plan c) = (rp_spans plan)[ct_alias c := ?new]"
    by (simp add: apply_cut_def Let_def ss i pieces_def)
qed

lemma apply_cut_ok:
  assumes "plan_ok facts plan" "cut_of facts plan c"
  shows "plan_ok facts (apply_cut plan c)"
proof -
  note spans = apply_cut_spans [OF assms refl refl]
  have "rp_anchors (apply_cut plan c) = rp_anchors plan" by (simp add: apply_cut_def Let_def)
  moreover have "spans_ok facts (fc_anchors facts ! a) (rp_spans (apply_cut plan c) ! a)"
    if "a < alias_count facts" for a
    using that assms(1) spans(2) unfolding spans(1) by (cases "a = ct_alias c") (simp_all add: plan_ok_def)
  ultimately show ?thesis using assms(1) unfolding plan_ok_def spans(1) by simp
qed


section \<open>Weight\<close>

definition span_weight :: "span \<Rightarrow> nat" where
  "span_weight s = nat (2 * (sp_end s - sp_start s) + 1)"

definition spans_weight :: "span list \<Rightarrow> nat" where
  "spans_weight ss = sum_list (map span_weight ss)"

definition plan_weight :: "residency_plan \<Rightarrow> nat" where
  "plan_weight plan = sum_list (map spans_weight (rp_spans plan))"

lemma pieces_weight:
  assumes "cut_of facts plan c" "s = rp_spans plan ! ct_alias c ! ct_span_index c"
  shows "spans_weight (pieces s c) < span_weight s"
  using assms by (auto simp: pieces_def cut_of_def Let_def spans_weight_def span_weight_def)

lemma sum_list_update_less:
  fixes xs :: "nat list"
  assumes "i < length xs" "v < xs ! i"
  shows "sum_list (xs[i := v]) < sum_list xs"
  using assms
proof (induction xs arbitrary: i)
  case (Cons x xs)
  then show ?case by (cases i) auto
qed simp

lemma apply_cut_weight:
  assumes ok: "plan_ok facts plan" and cut: "cut_of facts plan c"
  shows "plan_weight (apply_cut plan c) < plan_weight plan"
proof -
  let ?a = "ct_alias c" and ?i = "ct_span_index c"
  let ?ss = "rp_spans plan ! ?a"
  have a: "?a < length (rp_spans plan)" and i: "?i < length ?ss"
    using ok cut by (simp_all add: cut_of_def plan_ok_def)
  have "spans_weight ?ss = spans_weight (take ?i ?ss @ ?ss ! ?i # drop (Suc ?i) ?ss)"
    using i by (simp add: id_take_nth_drop [symmetric])
  then have "spans_weight (take ?i ?ss @ pieces (?ss ! ?i) c @ drop (Suc ?i) ?ss) < spans_weight ?ss"
    using pieces_weight [OF cut refl] by (simp add: spans_weight_def)
  then show ?thesis
    unfolding plan_weight_def apply_cut_spans(1) [OF ok cut refl refl] map_update
    using a by (intro sum_list_update_less) simp_all
qed

end
