(* ===== verification/PressureFit_Reduction.thy ===== *)
theory PressureFit_Reduction
  imports PressureFit_Cuts
begin

text \<open>
  The greedy loop of \<^verbatim>\<open>reduce_pressure\<close>: the excess it looks for, the cut it picks, its score
  memo, its termination, what it returns, and when it is stuck.
\<close>

section \<open>The worst excess\<close>

definition capacity_at :: "planning_facts \<Rightarrow> string \<Rightarrow> int \<Rightarrow> int" where
  "capacity_at facts d b = the (fc_object_capacity_by_boundary facts d) ! nat (b + 1)"

definition extra :: "(string \<times> int \<rightharpoonup> int) \<Rightarrow> string \<Rightarrow> int \<Rightarrow> int" where
  "extra additions d b = (case additions (d, b) of None \<Rightarrow> 0 | Some n \<Rightarrow> n)"

abbreviation site :: "planning_facts \<Rightarrow> string \<Rightarrow> int \<Rightarrow> bool" where
  "site facts d b \<equiv> d \<in> fact_devices facts \<and> - 1 \<le> b \<and> b \<le> last_boundary facts"

definition fits :: "planning_facts \<Rightarrow> bool \<Rightarrow> (string \<times> int \<rightharpoonup> int) \<Rightarrow> residency_plan \<Rightarrow> bool" where
  "fits facts h additions plan \<longleftrightarrow> (\<forall>d b. site facts d b \<longrightarrow>
     plan_pressure facts h plan d b + extra additions d b \<le> capacity_at facts d b)"

lemma strategy_object_capacity_at:
  assumes "wf_facts facts" "site facts d b"
  shows "strategy_object_capacity facts d strategy b = Inr (capacity_at facts d b)"
proof -
  from assms obtain row where row: "fc_object_capacity_by_boundary facts d = Some row"
    "length row = task_total facts + 1" by (auto simp: wf_facts_def wf_devices_def)
  have "nat (b + 1) < length row" "int (nat (b + 1)) = b + 1"
    using assms(2) row(2) by (auto simp: last_boundary_def)
  then show ?thesis
    using row(1) py_nth_nat [of "nat (b + 1)" row] by (simp add: strategy_object_capacity_def capacity_at_def)
qed

text \<open>The key a site is selected by: the larger excess, then the earlier boundary, then the device.\<close>

definition site_key :: "excess_site \<Rightarrow> int \<times> int \<times> string" where
  "site_key = (\<lambda>(d, b, excess, used). (- excess, b, d))"

definition excess_at ::
    "planning_facts \<Rightarrow> (string \<times> int \<rightharpoonup> int) \<Rightarrow> (string \<Rightarrow> int \<Rightarrow> int) \<Rightarrow> string \<Rightarrow> int \<Rightarrow> excess_site" where
  "excess_at facts additions F d b =
     (d, b, F d b + extra additions d b - capacity_at facts d b, F d b + extra additions d b)"

lemma worse_excess_key:
  "worse_excess c selected \<longleftrightarrow> (case selected of None \<Rightarrow> True | Some c' \<Rightarrow> site_key c < site_key c')"
  by (cases c) (auto simp: worse_excess_def site_key_def split: option.split)

lemma find_excess_spec:
  assumes wf: "wf_facts facts" and rows: "rows_are facts P F"
  shows "\<exists>selected. find_excess facts strategy additions P = Inr selected
    \<and> (selected = None \<longrightarrow> (\<forall>d b. site facts d b \<longrightarrow> F d b + extra additions d b \<le> capacity_at facts d b))
    \<and> (\<forall>c. selected = Some c \<longrightarrow> (\<exists>d b. site facts d b \<and> c = excess_at facts additions F d b
      \<and> F d b + extra additions d b > capacity_at facts d b
      \<and> (\<forall>d' b'. site facts d' b' \<longrightarrow> F d' b' + extra additions d' b' > capacity_at facts d' b' \<longrightarrow>
           site_key c \<le> site_key (excess_at facts additions F d' b'))))"
proof -
  let ?sites = "List.product [- 1..last_boundary facts] (map fst (fc_object_capacity_by_device facts))"
  let ?E = "\<lambda>d b. F d b + extra additions d b > capacity_at facts d b"
  let ?e = "excess_at facts additions F"
  define I where "I = (\<lambda>ys selected. (case selected of
      None \<Rightarrow> \<forall>(b, d) \<in> set ys. \<not> ?E d b
    | Some c \<Rightarrow> \<exists>d b. site facts d b \<and> c = ?e d b \<and> ?E d b
        \<and> (\<forall>(b', d') \<in> set ys. ?E d' b' \<longrightarrow> site_key c \<le> site_key (?e d' b'))))"
  have "\<exists>selected. find_excess facts strategy additions P = Inr selected \<and> I ?sites selected"
    unfolding find_excess_def
  proof (rule foldE_total)
    show "I [] None" by (simp add: I_def)
    fix ys x zs and selected :: "excess_site option"
    assume inv: "I ys selected" and split: "?sites = ys @ x # zs"
    obtain b d where x: "x = (b, d)" by (cases x)
    have "x \<in> set ?sites" unfolding split by simp
    then have s: "site facts d b" by (auto simp: x)
    obtain row where row: "dict_get P d = Inr row" "py_nth row (b + 1) = Inr (F d b)"
      using rows_are_lookup [OF rows, of d b] s by blast
    let ?next = "if F d b + extra additions d b \<le> capacity_at facts d b then selected
      else if worse_excess (?e d b) selected then Some (?e d b) else selected"
    have step: "(case x of (boundary, device_id) \<Rightarrow>
         bindE (dict_get P device_id) (\<lambda>row.
         bindE (py_nth row (boundary + 1)) (\<lambda>charged.
         let used = charged + (case additions (device_id, boundary) of None \<Rightarrow> 0 | Some n \<Rightarrow> n)
         in bindE (strategy_object_capacity facts device_id strategy boundary) (\<lambda>capacity.
            let candidate = (device_id, boundary, used - capacity, used)
            in Inr (if used \<le> capacity then selected
                    else if worse_excess candidate selected then Some candidate else selected))))) = Inr ?next"
      using row strategy_object_capacity_at [OF wf s]
      by (simp add: x Let_def excess_at_def extra_def)
    have "I (ys @ [x]) ?next"
    proof (cases "?E d b")
      case False
      then show ?thesis using inv by (auto simp: I_def x split: option.splits)
    next
      case True
      show ?thesis
      proof (cases selected)
        case None
        then have "\<forall>(b', d') \<in> set (ys @ [x]). ?E d' b' \<longrightarrow> site_key (?e d b) \<le> site_key (?e d' b')"
          using inv by (fastforce simp: I_def x)
        then show ?thesis using True s None
          by (simp add: I_def worse_excess_key del: set_append) blast
      next
        case (Some c)
        then have keep: "\<exists>d b. site facts d b \<and> c = ?e d b \<and> ?E d b
          \<and> (\<forall>(b', d') \<in> set ys. ?E d' b' \<longrightarrow> site_key c \<le> site_key (?e d' b'))" using inv by (simp add: I_def)
        show ?thesis
        proof (cases "site_key (?e d b) < site_key c")
          case better: True
          then have "\<forall>(b', d') \<in> set (ys @ [x]). ?E d' b' \<longrightarrow> site_key (?e d b) \<le> site_key (?e d' b')"
            using keep unfolding x by (auto dest: order.trans [OF less_imp_le])
          then show ?thesis using better True s Some
            by (simp add: I_def worse_excess_key del: set_append) blast
        next
          case worse: False
          then have "\<forall>(b', d') \<in> set (ys @ [x]). ?E d' b' \<longrightarrow> site_key c \<le> site_key (?e d' b')" if "\<forall>(b', d') \<in> set ys. ?E d' b' \<longrightarrow> site_key c \<le> site_key (?e d' b')"
            using that by (auto simp: x)
          with keep show ?thesis using worse True Some
            by (simp add: I_def worse_excess_key del: set_append) blast
        qed
      qed
    qed
    with step show "\<exists>selected'. (case x of (boundary, device_id) \<Rightarrow>
         bindE (dict_get P device_id) (\<lambda>row.
         bindE (py_nth row (boundary + 1)) (\<lambda>charged.
         let used = charged + (case additions (device_id, boundary) of None \<Rightarrow> 0 | Some n \<Rightarrow> n)
         in bindE (strategy_object_capacity facts device_id strategy boundary) (\<lambda>capacity.
            let candidate = (device_id, boundary, used - capacity, used)
            in Inr (if used \<le> capacity then selected
                    else if worse_excess candidate selected then Some candidate else selected))))) = Inr selected'
        \<and> I (ys @ [x]) selected'" by (intro exI conjI)
  qed
  then obtain selected where find: "find_excess facts strategy additions P = Inr selected"
    and inv: "I ?sites selected" by blast
  have member: "(b, d) \<in> set ?sites" if "site facts d b" for d b using that by auto
  have "\<forall>d b. site facts d b \<longrightarrow> F d b + extra additions d b \<le> capacity_at facts d b" if "selected = None"
  proof (intro allI impI)
    fix d b
    assume "site facts d b"
    from inv that have all: "\<forall>(b, d) \<in> set ?sites. \<not> ?E d b" unfolding I_def by simp
    from bspec [OF all member [OF \<open>site facts d b\<close>]]
    show "F d b + extra additions d b \<le> capacity_at facts d b" by simp
  qed
  moreover have "\<exists>d b. site facts d b \<and> c = ?e d b \<and> ?E d b
      \<and> (\<forall>d' b'. site facts d' b' \<longrightarrow> ?E d' b' \<longrightarrow> site_key c \<le> site_key (?e d' b'))" if "selected = Some c" for c
  proof -
    from inv that have "\<exists>d b. site facts d b \<and> c = ?e d b \<and> ?E d b
        \<and> (\<forall>(b', d') \<in> set ?sites. ?E d' b' \<longrightarrow> site_key c \<le> site_key (?e d' b'))"
      unfolding I_def by simp
    then show ?thesis using member by blast
  qed
  ultimately show ?thesis using find by blast
qed


section \<open>The chosen cut\<close>

text \<open>Every device of the facts has a configuration, and no bandwidth is zero.\<close>

definition rated :: "planning_facts \<Rightarrow> simulation_config \<Rightarrow> bool" where
  "rated facts config \<longleftrightarrow> fact_devices facts \<subseteq> dc_device_id ` set (sc_devices config)
     \<and> (\<forall>d \<in> set (sc_devices config). 0 < dc_fetch_solo d \<and> 0 < dc_fetch_concurrent d
          \<and> 0 < dc_evict_solo d \<and> 0 < dc_evict_concurrent d)"

lemma transfer_runtime_total:
  assumes "wf_facts facts" "rated facts config" "a < alias_count facts"
  shows "\<exists>n. transfer_runtime_ns facts config a to_device = Inr n"
proof -
  let ?ds = "filter (\<lambda>d. dc_device_id d = fc_alias_devices facts ! a) (sc_devices config)"
  have "\<exists>d \<in> set (sc_devices config). dc_device_id d = fc_alias_devices facts ! a"
    using alias_device [OF assms(1,3)] assms(2) by (force simp: rated_def)
  then obtain d ds where ds: "?ds = d # ds" by (cases ?ds) (auto simp: filter_empty_conv)
  then have "d \<in> set ?ds" by simp
  then have "max (dc_fetch_solo d) (dc_fetch_concurrent d) \<noteq> 0" "max (dc_evict_solo d) (dc_evict_concurrent d) \<noteq> 0"
    using assms(2) by (force simp: rated_def)+
  with ds show ?thesis by (simp add: transfer_runtime_ns_def Let_def)
qed

lemma max_of_mem: "xs \<noteq> [] \<Longrightarrow> max_of xs \<in> set xs"
proof -
  have "fold max ys x \<in> insert x (set ys)" for x :: int and ys
    by (induction ys arbitrary: x) (auto simp: max_def)
  then show "xs \<noteq> [] \<Longrightarrow> max_of xs \<in> set xs" by (cases xs) (auto simp: max_of_def)
qed

lemma min_of_mem: "xs \<noteq> [] \<Longrightarrow> min_of xs \<in> set xs"
proof -
  have "fold min ys x \<in> insert x (set ys)" for x :: int and ys
    by (induction ys arbitrary: x) (auto simp: min_def)
  then show "xs \<noteq> [] \<Longrightarrow> min_of xs \<in> set xs" by (cases xs) (auto simp: min_of_def)
qed

lemma py_nth_total: "0 \<le> i \<Longrightarrow> i < int (length xs) \<Longrightarrow> \<exists>x. py_nth xs i = Inr x"
  by (auto simp: py_nth_def)

lemma event_tasks:
  assumes "wf_facts facts" "a < alias_count facts" "t \<in> snd ` set (fc_access_events facts ! a)"
  shows "0 \<le> t" "t < int (task_total facts)"
proof -
  obtain p where mem: "(p, t) \<in> set (fc_access_events facts ! a)" using assms(3) by auto
  have all: "\<forall>(b, t) \<in> set (fc_access_events facts ! a). b \<in> fc_anchors facts ! a \<and> (t = b \<or> t = b + 1)
      \<and> 0 \<le> t \<and> t \<le> last_boundary facts"
    using assms(1,2) by (simp add: wf_facts_def wf_events_def)
  from bspec [OF all mem] show "0 \<le> t" "t < int (task_total facts)" by (simp_all add: last_boundary_def)
qed

lemma cut_score_total:
  assumes wf: "wf_facts facts" and "rated facts config" and a: "ct_alias c < alias_count facts"
    and b: "- 1 \<le> b" "b \<le> last_boundary facts"
  shows "\<exists>v. cut_score facts config c kind b = Inr v"
proof -
  let ?ends = "fc_task_ideal_end_ns facts" and ?events = "fc_access_events facts ! ct_alias c"
  have len: "length ?ends = task_total facts" using wf by (simp add: wf_facts_def wf_tables_def)
  obtain fetch_ns where fetch: "transfer_runtime_ns facts config (ct_alias c) True = Inr fetch_ns"
    using transfer_runtime_total assms(1-3) by blast
  obtain evict where evict: "transfer_runtime_ns facts config (ct_alias c) False = Inr evict"
    using transfer_runtime_total assms(1-3) by blast
  define previous where "previous = map snd (filter (\<lambda>(position, task). position < ct_start c) ?events)"
  define following where "following = map snd (filter (\<lambda>(position, task). position > ct_end c) ?events)"
  have tasks: "\<forall>t \<in> set previous \<union> set following. 0 \<le> t \<and> t < int (task_total facts)"
    using event_tasks [OF wf a] by (force simp: previous_def following_def)
  have "\<exists>x. (if previous \<noteq> [] then py_nth ?ends (max_of previous) else Inr 0) = Inr x"
    using tasks max_of_mem [of previous] len by (auto intro: py_nth_total)
  then obtain prior_end where prior: "(if previous \<noteq> [] then py_nth ?ends (max_of previous) else Inr 0) = Inr prior_end"
    by blast
  define next_task where "next_task = (if following \<noteq> [] then min_of following else int (task_total facts))"
  have "0 \<le> next_task \<and> next_task \<le> int (task_total facts)"
  proof (cases "following = []")
    case False
    then show ?thesis
      using bspec [OF tasks, of "min_of following"] min_of_mem [OF False] by (simp add: next_task_def less_imp_le)
  qed (simp add: next_task_def)
  then have "\<exists>x. (if next_task \<noteq> 0 then py_nth ?ends (next_task - 1) else Inr 0) = Inr x"
    using len by (auto intro: py_nth_total)
  then obtain next_begin where begin_at: "(if next_task \<noteq> 0 then py_nth ?ends (next_task - 1) else Inr 0) = Inr next_begin"
    by blast
  have "\<exists>x. (if b \<ge> 0 then py_nth ?ends b else Inr 0) = Inr x"
    using b len by (auto intro: py_nth_total simp: last_boundary_def)
  then obtain current_begin where current: "(if b \<ge> 0 then py_nth ?ends b else Inr 0) = Inr current_begin" by blast
  have "\<exists>x. (if b + 1 < int (task_total facts) then py_nth ?ends (b + 1) else Inr current_begin) = Inr x"
    using b len by (auto intro: py_nth_total)
  then obtain current_end where finish:
    "(if b + 1 < int (task_total facts) then py_nth ?ends (b + 1) else Inr current_begin) = Inr current_end" by blast
  show ?thesis
    unfolding cut_score_def fetch bindE_simps Let_def previous_def [symmetric] following_def [symmetric]
      next_task_def [symmetric] prior begin_at current finish
    by (simp add: evict)
qed

fun pick_cut :: "(cut \<Rightarrow> int list) \<Rightarrow> (int list \<times> cut) option \<Rightarrow> cut list \<Rightarrow> (int list \<times> cut) option" where
  "pick_cut f best [] = best"
| "pick_cut f best (c # cs) = pick_cut f (case best of None \<Rightarrow> Some (f c, c)
     | Some (v, c') \<Rightarrow> if f c < v then Some (f c, c) else best) cs"

lemma pick_cut_spec:
  assumes "\<And>v c. best = Some (v, c) \<Longrightarrow> v = f c"
  shows "(pick_cut f best cs = None \<longleftrightarrow> best = None \<and> cs = [])
    \<and> (\<forall>v c. pick_cut f best cs = Some (v, c) \<longrightarrow> v = f c \<and> (c \<in> set cs \<or> best = Some (v, c))
        \<and> (\<forall>c' \<in> set cs. v \<le> f c') \<and> (\<forall>v' c'. best = Some (v', c') \<longrightarrow> v \<le> v'))"
  using assms
proof (induction cs arbitrary: best)
  case (Cons c cs)
  let ?best = "case best of None \<Rightarrow> Some (f c, c) | Some (v, c') \<Rightarrow> if f c < v then Some (f c, c) else best"
  have ok: "\<And>v c'. ?best = Some (v, c') \<Longrightarrow> v = f c'"
    using Cons.prems by (auto split: option.splits prod.splits if_splits)
  note IH = Cons.IH [of ?best, OF ok]
  obtain v c' where next_best: "?best = Some (v, c')"
  proof (cases best)
    case (Some p)
    then show thesis using that by (cases p; cases "f c < fst p") simp_all
  qed (use that in simp)
  have least: "v \<le> f c \<and> (\<forall>w x. best = Some (w, x) \<longrightarrow> v \<le> w) \<and> (c' = c \<or> best = Some (v, c'))"
    using next_best by (auto split: option.splits prod.splits if_splits)
  have step: "pick_cut f best (c # cs) = pick_cut f ?best cs" by simp
  have never: "pick_cut f (Some (v, c')) cs \<noteq> None" using IH unfolding next_best by simp
  have all: "w = f x \<and> (x \<in> set cs \<or> (v = w \<and> c' = x)) \<and> (\<forall>y \<in> set cs. w \<le> f y) \<and> w \<le> v"
    if "pick_cut f (Some (v, c')) cs = Some (w, x)" for w x
  proof -
    from IH that have "w = f x \<and> (x \<in> set cs \<or> Some (v, c') = Some (w, x)) \<and> (\<forall>y \<in> set cs. w \<le> f y)
        \<and> (\<forall>v' y. Some (v, c') = Some (v', y) \<longrightarrow> w \<le> v')" unfolding next_best by blast
    then show ?thesis by auto
  qed
  show ?case
    unfolding step next_best
  proof (intro conjI allI impI)
    show "pick_cut f (Some (v, c')) cs = None \<longleftrightarrow> best = None \<and> c # cs = []" using never by simp
    fix w x
    assume run: "pick_cut f (Some (v, c')) cs = Some (w, x)"
    note res = all [OF run]
    show "w = f x" using res by blast
    show "x \<in> set (c # cs) \<or> best = Some (w, x)" using res least by auto
    show "\<forall>y \<in> set (c # cs). w \<le> f y" using res least by (auto intro: order.trans)
    show "w \<le> v'" if "best = Some (v', y)" for v' y using res least that by (auto intro: order.trans)
  qed
qed simp

definition cache_ok :: "planning_facts \<Rightarrow> simulation_config \<Rightarrow> score_cache \<Rightarrow> bool" where
  "cache_ok facts config cache \<longleftrightarrow> (case cache of None \<Rightarrow> True
     | Some m \<Rightarrow> \<forall>c kind b v. m (c, kind, b) = Some v \<longrightarrow> cut_score facts config c kind b = Inr v)"

lemma cached_score_ok:
  assumes "cut_score facts config c kind b = Inr v" "cache_ok facts config cache"
  obtains cache' where "cached_score facts config kind b cache c = Inr (v, cache')" "cache_ok facts config cache'"
    "cache = None \<Longrightarrow> cache' = None"
proof (cases cache)
  case None
  with assms that [of None] show thesis by (simp add: cached_score_def cache_ok_def)
next
  case (Some m)
  show thesis
  proof (cases "m (c, kind, b)")
    case None
    with Some assms that [of "Some (m((c, kind, b) \<mapsto> v))"] show thesis
      by (auto simp: cached_score_def cache_ok_def)
  next
    case known: (Some w)
    with Some assms have "cut_score facts config c kind b = Inr w" by (simp add: cache_ok_def)
    with assms(1) have "w = v" by simp
    with Some known assms that [of cache] show thesis by (simp add: cached_score_def)
  qed
qed

lemma better_cuts_ok:
  assumes "\<forall>c \<in> set cs. cut_score facts config c kind b = Inr (f c)" "cache_ok facts config cache"
  shows "\<exists>cache'. foldE (better_cut facts config kind b) (best, cache) cs = Inr (pick_cut f best cs, cache')
    \<and> cache_ok facts config cache' \<and> (cache = None \<longrightarrow> cache' = None)"
  using assms
proof (induction cs arbitrary: best cache)
  case (Cons c cs)
  then have "cut_score facts config c kind b = Inr (f c)" by simp
  from cached_score_ok [OF this Cons.prems(2)] obtain cache1 where
    one: "cached_score facts config kind b cache c = Inr (f c, cache1)" "cache_ok facts config cache1"
      "cache = None \<Longrightarrow> cache1 = None" by blast
  let ?best = "case best of None \<Rightarrow> Some (f c, c) | Some (v, c') \<Rightarrow> if f c < v then Some (f c, c) else best"
  from Cons.IH [OF _ one(2), of ?best] Cons.prems(1) obtain cache' where
    "foldE (better_cut facts config kind b) (?best, cache1) cs = Inr (pick_cut f ?best cs, cache')"
    "cache_ok facts config cache'" "cache1 = None \<longrightarrow> cache' = None" by auto
  with one show ?case by (auto simp: better_cut_def)
qed simp


section \<open>The floor and stuck plans\<close>

lemma events_near:
  assumes "wf_facts facts" "a < alias_count facts" "(p, t) \<in> set (fc_access_events facts ! a)"
  shows "p \<in> fc_anchors facts ! a" "t = p \<or> t = p + 1"
proof -
  have all: "\<forall>(b, t) \<in> set (fc_access_events facts ! a). b \<in> fc_anchors facts ! a \<and> (t = b \<or> t = b + 1)
      \<and> 0 \<le> t \<and> t \<le> last_boundary facts"
    using assms(1,2) by (simp add: wf_facts_def wf_events_def)
  from bspec [OF all assms(3)] show "p \<in> fc_anchors facts ! a" "t = p \<or> t = p + 1" by simp_all
qed

lemma covers_charged:
  assumes "wf_facts facts" "\<forall>s \<in> set ss. wf_span facts s"
  shows "covers (charged_spans_of facts h a ss) b \<longleftrightarrow> (\<exists>s \<in> set ss. effective_start facts h a s \<le> b \<and> b \<le> sp_end s
      \<and> (b < 0 \<or> sp_end s \<noteq> b \<or> fc_final_locations facts ! a = Some DEVICE \<or> accessed_later facts a s b))"
proof -
  have "covers (charged_spans_of facts h a ss) b \<longleftrightarrow>
      (\<exists>s \<in> set ss. case charged_span facts h a s of None \<Rightarrow> False | Some i \<Rightarrow> span_contains i b)"
    by (auto simp: charged_spans_of_def map_filter_def list_ex_iff split: option.splits)
  also have "\<dots> \<longleftrightarrow> (\<exists>s \<in> set ss. effective_start facts h a s \<le> b \<and> b \<le> sp_end s
      \<and> (b < 0 \<or> sp_end s \<noteq> b \<or> fc_final_locations facts ! a = Some DEVICE \<or> accessed_later facts a s b))"
    using assms(2) by (intro bex_cong refl charged_span_contains [OF assms(1)]) auto
  finally show ?thesis .
qed

text \<open>Whatever keeps the anchors resident is charged at least the floor.\<close>

lemma floor_le_pressure:
  assumes wf: "wf_facts facts" and ok: "plan_ok facts plan"
  shows "floor_pressure facts d b \<le> plan_pressure facts h plan d b"
  unfolding floor_pressure_def plan_pressure_def
proof (rule load_mono [OF wf])
  fix a
  assume a: "a < alias_count facts"
    and "reserved facts a b \<or> (b \<in> fc_anchors facts ! a \<and> floor_charged facts a b)"
  then consider "reserved facts a b" | "b \<in> fc_anchors facts ! a" "floor_charged facts a b" by blast
  then show "reserved facts a b \<or> covers (charged_list facts h plan a) b"
  proof cases
    case 2
    have spans: "spans_ok facts (fc_anchors facts ! a) (rp_spans plan ! a)" using ok a by (simp add: plan_ok_def)
    then obtain s where s: "s \<in> set (rp_spans plan ! a)" "span_contains s b"
      using 2(1) by (auto simp: spans_ok_def list_ex_iff)
    have "effective_start facts h a s \<le> b" using s(2) by (auto simp: effective_start_def span_contains_def)
    moreover have "b < 0 \<or> sp_end s \<noteq> b \<or> fc_final_locations facts ! a = Some DEVICE \<or> accessed_later facts a s b"
    proof -
      have "accessed_later facts a s b" if "(b, t) \<in> set (fc_access_events facts ! a)" "t > b" for t
        using that s(2) by (force simp: accessed_later_def span_contains_def list_ex_iff)
      then show ?thesis using 2(2) by (auto simp: floor_charged_def list_ex_iff)
    qed
    ultimately show ?thesis
      using s spans by (subst covers_charged [OF wf]) (auto simp: spans_ok_def span_contains_def)
  qed simp
qed

text \<open>Where no cut is legal, the plan charges no more than the floor.\<close>

lemma stuck_pressure:
  assumes wf: "wf_facts facts" and ok: "plan_ok facts plan" and stuck: "legal_cuts facts plan b d = []"
  shows "plan_pressure facts False plan d b \<le> floor_pressure facts d b"
  unfolding floor_pressure_def plan_pressure_def
proof (rule load_mono [OF wf])
  fix a
  assume a: "a < alias_count facts" "fc_alias_devices facts ! a = d"
    and "reserved facts a b \<or> covers (charged_list facts False plan a) b"
  then consider "reserved facts a b" | "covers (charged_list facts False plan a) b" by blast
  then show "reserved facts a b \<or> (b \<in> fc_anchors facts ! a \<and> floor_charged facts a b)"
  proof cases
    case 2
    let ?A = "fc_anchors facts ! a"
    have spans: "spans_ok facts ?A (rp_spans plan ! a)" using ok a by (simp add: plan_ok_def)
    from 2 obtain s where s: "s \<in> set (rp_spans plan ! a)" "sp_start s \<le> b" "b \<le> sp_end s"
      and charged: "b < 0 \<or> sp_end s \<noteq> b \<or> fc_final_locations facts ! a = Some DEVICE \<or> accessed_later facts a s b"
      using spans by (subst (asm) covers_charged [OF wf]) (auto simp: spans_ok_def effective_start_def)
    then have inside: "span_contains s b" by (simp add: span_contains_def)
    obtain i where i: "i < length (rp_spans plan ! a)" "s = rp_spans plan ! a ! i"
      using s(1) by (auto simp: in_set_conv_nth)
    have none: "cut_of_span facts ?A b a (i, s) = None"
    proof (rule ccontr)
      assume "cut_of_span facts ?A b a (i, s) \<noteq> None"
      then obtain c where "cut_of_span facts ?A b a (i, s) = Some c" by blast
      then have "c \<in> set (legal_cuts facts plan b d)"
        using ok a i by (auto simp: set_legal_cuts plan_ok_def)
      then show False using stuck by simp
    qed
    have "b \<in> ?A"
    proof (rule ccontr)
      assume b: "b \<notin> ?A"
      have start: "sp_start s \<le> gap_start ?A (sp_start s) b"
        "\<forall>x. gap_start ?A (sp_start s) b \<le> x \<and> x \<le> b \<longrightarrow> x \<notin> ?A"
        using gap_start_props [OF s(2) b] by blast+
      have "gap_start ?A (sp_start s) b \<le> - 1"
        using none inside b by (simp add: cut_of_span_def gap_containing_def split: if_splits)
      moreover have "- 1 \<le> sp_start s" "Min ?A \<le> sp_start s" "sp_end s \<in> ?A"
        using spans s(1) by (auto simp: spans_ok_def wf_span_def)
      moreover have fin: "finite ?A" and "\<forall>x \<in> ?A. - 1 \<le> x"
        using wf a(1) by (auto simp: wf_facts_def wf_events_def)
      ultimately have low: "gap_start ?A (sp_start s) b = - 1" and "Min ?A \<le> - 1"
        using start(1) by linarith+
      have "Min ?A \<in> ?A" using Min_in [OF fin] \<open>sp_end s \<in> ?A\<close> by blast
      then have "- 1 \<in> ?A" using \<open>Min ?A \<le> - 1\<close> \<open>\<forall>x \<in> ?A. - 1 \<le> x\<close> by (metis antisym)
      moreover have "- 1 \<le> b" using \<open>- 1 \<le> sp_start s\<close> s(2) by simp
      ultimately show False using start(2) low by auto
    qed
    moreover have "floor_charged facts a b"
    proof (cases "b < 0 \<or> fc_final_locations facts ! a = Some DEVICE")
      case False
      have "list_ex (\<lambda>(p, t). p = b \<and> t > b) (fc_access_events facts ! a)"
      proof (cases "b = sp_end s")
        case True
        with False charged have "accessed_later facts a s b" by simp
        then obtain p t where e: "(p, t) \<in> set (fc_access_events facts ! a)" "p \<le> sp_end s" "t > b"
          by (auto simp: accessed_later_def list_ex_iff)
        with events_near(2) [OF wf a(1) e(1)] True have "p = b" by auto
        with e show ?thesis by (force simp: list_ex_iff)
      next
        case inner: False
        then have "b < sp_end s" using s(3) by simp
        then show ?thesis
          using none inside \<open>b \<in> ?A\<close> False
          by (auto simp: cut_of_span_def gap_containing_def Let_def split: if_splits)
      qed
      with False show ?thesis by (simp add: floor_charged_def)
    qed (auto simp: floor_charged_def)
    ultimately show ?thesis by simp
  qed simp
qed


section \<open>One round\<close>

definition inside :: "planning_facts \<Rightarrow> residency_plan \<Rightarrow> residency_plan \<Rightarrow> bool" where
  "inside facts plan' plan \<longleftrightarrow>
     (\<forall>a < alias_count facts. \<forall>b. covers (rp_spans plan' ! a) b \<longrightarrow> covers (rp_spans plan ! a) b)"

lemma inside_refl [simp]: "inside facts plan plan"
  by (simp add: inside_def)

lemma inside_trans: "inside facts p q \<Longrightarrow> inside facts q r \<Longrightarrow> inside facts p r"
  by (simp add: inside_def)

lemma apply_cut_inside:
  assumes ok: "plan_ok facts plan" and cut: "cut_of facts plan c"
  shows "inside facts (apply_cut plan c) plan"
proof -
  let ?i = "ct_span_index c" and ?ss = "rp_spans plan ! ct_alias c"
  have i: "?i < length ?ss" using cut by (simp add: cut_of_def)
  have "covers ?ss b" if "covers (take ?i ?ss @ pieces (?ss ! ?i) c @ drop (Suc ?i) ?ss) b" for b
  proof -
    have "covers (take ?i ?ss @ ?ss ! ?i # drop (Suc ?i) ?ss) b"
      using that pieces_cover [OF cut refl] by auto
    then show ?thesis using i by (simp add: id_take_nth_drop [symmetric])
  qed
  then show ?thesis
    unfolding inside_def apply_cut_spans(1) [OF assms refl refl]
    using ok unfolding plan_ok_def by (metis nth_list_update_eq nth_list_update_neq)
qed

text \<open>The error a stuck reduction reports.\<close>

definition stuck_error :: "planning_facts \<Rightarrow> string \<Rightarrow> int \<Rightarrow> int \<Rightarrow> plan_infeasible \<Rightarrow> bool" where
  "stuck_error facts d b used e \<longleftrightarrow> pi_kind e = ''analytic_capacity'' \<and> pi_device_id e = Some d
     \<and> pi_boundary_task_id e = (if b + 1 < int (task_total facts)
          then Some (tk_task_id (fc_tasks facts ! nat (b + 1))) else None)
     \<and> pi_required_bytes e = Some used \<and> pi_capacity_bytes e = Some (capacity_at facts d b)"

lemma no_legal_cut_error:
  assumes "wf_facts facts" "site facts d b"
  obtains e where "no_legal_cut facts strategy d b used = Inl (PlanInfeasible e)" "stuck_error facts d b used e"
proof -
  have "no_legal_cut facts strategy d b used = Inl (PlanInfeasible
      \<lparr>pi_message = [Lit ''no legal residency cut can relieve '', Num used, Lit '' bytes at '',
         Lit ''boundary '', Num b, Lit '' on '', Repr d, Lit ''; capacity is '', Num (capacity_at facts d b)],
       pi_kind = ''analytic_capacity'', pi_device_id = Some d,
       pi_boundary_task_id = (if b + 1 < int (task_total facts)
          then Some (tk_task_id (fc_tasks facts ! nat (b + 1))) else None),
       pi_required_bytes = Some used, pi_capacity_bytes = Some (capacity_at facts d b)\<rparr>)"
    using assms(2) by (simp add: no_legal_cut_def strategy_object_capacity_at [OF assms] Let_def)
  then show thesis by (rule that) (simp add: stuck_error_def)
qed

abbreviation headroom :: "string \<Rightarrow> bool" where
  "headroom strategy \<equiv> starts_with strategy ''headroom''"

text \<open>
  A round ends the reduction, applies the cut of least score, or is stuck; the memo changes only
  what the memo holds.
\<close>

datatype round = Fit | Cut residency_plan pressures | Stuck plan_infeasible

definition round_result :: "round \<Rightarrow> score_cache \<Rightarrow> plan_error + (residency_plan \<times> pressures \<times> score_cache) option" where
  "round_result r cache = (case r of Fit \<Rightarrow> Inr None | Cut plan P \<Rightarrow> Inr (Some (plan, P, cache))
     | Stuck e \<Rightarrow> Inl (PlanInfeasible e))"

definition round_ok ::
    "planning_facts \<Rightarrow> simulation_config \<Rightarrow> string \<Rightarrow> (string \<times> int \<rightharpoonup> int) \<Rightarrow> residency_plan \<Rightarrow> round \<Rightarrow> bool" where
  "round_ok facts config strategy additions plan r \<longleftrightarrow> (case r of
     Fit \<Rightarrow> fits facts (headroom strategy) additions plan
   | Cut plan' P' \<Rightarrow> plan_ok facts plan' \<and> inside facts plan' plan \<and> plan_weight plan' < plan_weight plan
       \<and> rows_are facts P' (plan_pressure facts (headroom strategy) plan')
   | Stuck e \<Rightarrow> \<exists>d b. site facts d b \<and> legal_cuts facts plan b d = []
       \<and> plan_pressure facts (headroom strategy) plan d b + extra additions d b > capacity_at facts d b
       \<and> stuck_error facts d b (plan_pressure facts (headroom strategy) plan d b + extra additions d b) e)"

lemma reduce_step_round:
  assumes wf: "wf_facts facts" and rated: "rated facts config" and ok: "plan_ok facts plan"
    and rows: "rows_are facts P (plan_pressure facts (headroom strategy) plan)"
  obtains r where "round_ok facts config strategy additions plan r"
    and "\<And>cache. cache_ok facts config cache \<Longrightarrow> \<exists>cache'. cache_ok facts config cache'
      \<and> (cache = None \<longrightarrow> cache' = None)
      \<and> reduce_step facts config strategy additions (plan, P, cache) = round_result r cache'"
proof -
  let ?F = "plan_pressure facts (headroom strategy) plan"
  from find_excess_spec [OF wf rows, of strategy additions] obtain selected where
    find: "find_excess facts strategy additions P = Inr selected"
    and none: "selected = None \<longrightarrow> (\<forall>d b. site facts d b \<longrightarrow> ?F d b + extra additions d b \<le> capacity_at facts d b)"
    and some: "\<forall>c. selected = Some c \<longrightarrow> (\<exists>d b. site facts d b \<and> c = excess_at facts additions ?F d b
      \<and> ?F d b + extra additions d b > capacity_at facts d b
      \<and> (\<forall>d' b'. site facts d' b' \<longrightarrow> ?F d' b' + extra additions d' b' > capacity_at facts d' b' \<longrightarrow>
           site_key c \<le> site_key (excess_at facts additions ?F d' b')))"
    by (elim exE conjE) (rule that)
  show thesis
  proof (cases selected)
    case None
    show thesis
    proof (rule that [of Fit])
      show "round_ok facts config strategy additions plan Fit" using none None by (simp add: round_ok_def fits_def)
      show "\<exists>cache'. cache_ok facts config cache' \<and> (cache = None \<longrightarrow> cache' = None)
          \<and> reduce_step facts config strategy additions (plan, P, cache) = round_result Fit cache'"
        if "cache_ok facts config cache" for cache
        using that find None by (auto simp: reduce_step_def round_result_def)
    qed
  next
    case (Some w)
    from some Some obtain d b where db: "site facts d b" "w = excess_at facts additions ?F d b"
      "?F d b + extra additions d b > capacity_at facts d b" by blast
    let ?used = "?F d b + extra additions d b" and ?cuts = "legal_cuts facts plan b d"
      and ?kind = "score_kind_of strategy"
    define f where "f = (\<lambda>c. projr (cut_score facts config c ?kind b))"
    have scores: "\<forall>c \<in> set ?cuts. cut_score facts config c ?kind b = Inr (f c)"
    proof
      fix c
      assume "c \<in> set ?cuts"
      from legal_cut_of(1) [OF ok this] have "ct_alias c < alias_count facts" by (simp add: cut_of_def)
      from cut_score_total [OF wf rated this, of b ?kind] db(1)
      show "cut_score facts config c ?kind b = Inr (f c)" by (auto simp: f_def)
    qed
    note pick = pick_cut_spec [of None f ?cuts, simplified]
    have step: "\<exists>cache'. cache_ok facts config cache' \<and> (cache = None \<longrightarrow> cache' = None)
        \<and> reduce_step facts config strategy additions (plan, P, cache)
          = (case pick_cut f None ?cuts of None \<Rightarrow> no_legal_cut facts strategy d b ?used
             | Some (_, c) \<Rightarrow> bindE (map_error PlanFault (update_pressure_for_alias facts plan (apply_cut plan c)
                 (ct_alias c) P (headroom strategy))) (\<lambda>P'. Inr (Some (apply_cut plan c, P', cache'))))"
      if cache: "cache_ok facts config cache" for cache
      using better_cuts_ok [OF scores cache, of None] find Some db(2)
      by (auto simp: reduce_step_def excess_at_def Let_def split: option.split)
    show thesis
    proof (cases "pick_cut f None ?cuts")
      case None
      then have empty: "?cuts = []" using pick by simp
      obtain e where e: "(no_legal_cut facts strategy d b ?used
          :: plan_error + (residency_plan \<times> pressures \<times> score_cache) option) = Inl (PlanInfeasible e)"
        "stuck_error facts d b ?used e"
        by (rule no_legal_cut_error [OF wf db(1)])
      show thesis
      proof (rule that [of "Stuck e"])
        show "round_ok facts config strategy additions plan (Stuck e)"
          unfolding round_ok_def round.case using db empty e(2)
          by (intro exI [of _ d] exI [of _ b]) simp
        show "\<exists>cache'. cache_ok facts config cache' \<and> (cache = None \<longrightarrow> cache' = None)
            \<and> reduce_step facts config strategy additions (plan, P, cache) = round_result (Stuck e) cache'"
          if "cache_ok facts config cache" for cache
          using step [OF that] None e(1) by (simp add: round_result_def)
      qed
    next
      case (Some p)
      obtain v c where p: "p = (v, c)" by (cases p)
      have c: "c \<in> set ?cuts" using pick Some by (simp add: p)
      note cut = legal_cut_of(1) [OF ok c]
      have a: "ct_alias c < alias_count facts" using cut by (simp add: cut_of_def)
      have others: "rp_spans (apply_cut plan c) ! x = rp_spans plan ! x" if "x \<noteq> ct_alias c" for x
        using that by (simp add: apply_cut_def Let_def)
      from update_pressure_rows [OF wf a rows others] obtain P' where
        P': "update_pressure_for_alias facts plan (apply_cut plan c) (ct_alias c) P (headroom strategy) = Inr P'"
        "rows_are facts P' (plan_pressure facts (headroom strategy) (apply_cut plan c))" by blast
      show thesis
      proof (rule that [of "Cut (apply_cut plan c) P'"])
        show "round_ok facts config strategy additions plan (Cut (apply_cut plan c) P')"
          using P'(2) apply_cut_ok [OF ok cut] apply_cut_inside [OF ok cut] apply_cut_weight [OF ok cut]
          by (simp add: round_ok_def)
        show "\<exists>cache'. cache_ok facts config cache' \<and> (cache = None \<longrightarrow> cache' = None)
            \<and> reduce_step facts config strategy additions (plan, P, cache)
              = round_result (Cut (apply_cut plan c) P') cache'"
          if "cache_ok facts config cache" for cache
          using step [OF that] Some P'(1) by (simp add: round_result_def p)
      qed
    qed
  qed
qed


section \<open>The loop\<close>

datatype reduction = Reduced residency_plan | Refused plan_infeasible

definition reduction_result :: "reduction \<Rightarrow> score_cache \<Rightarrow> plan_error + (residency_plan \<times> score_cache)" where
  "reduction_result r cache = (case r of Reduced plan \<Rightarrow> Inr (plan, cache) | Refused e \<Rightarrow> Inl (PlanInfeasible e))"

definition reduction_ok ::
    "planning_facts \<Rightarrow> string \<Rightarrow> (string \<times> int \<rightharpoonup> int) \<Rightarrow> residency_plan \<Rightarrow> reduction \<Rightarrow> bool" where
  "reduction_ok facts strategy additions plan r \<longleftrightarrow> (case r of
     Reduced plan' \<Rightarrow> plan_ok facts plan' \<and> inside facts plan' plan \<and> fits facts (headroom strategy) additions plan'
   | Refused e \<Rightarrow> \<exists>plan' d b. plan_ok facts plan' \<and> inside facts plan' plan \<and> site facts d b
       \<and> legal_cuts facts plan' b d = []
       \<and> plan_pressure facts (headroom strategy) plan' d b + extra additions d b > capacity_at facts d b
       \<and> stuck_error facts d b (plan_pressure facts (headroom strategy) plan' d b + extra additions d b) e)"

lemma reduction_ok_inside:
  assumes "inside facts plan' plan" "reduction_ok facts strategy additions plan' r"
  shows "reduction_ok facts strategy additions plan r"
  using assms inside_trans unfolding reduction_ok_def by (cases r) (simp_all, blast+)

lemma reduce_loop_result:
  assumes wf: "wf_facts facts" and rated: "rated facts config" and ok: "plan_ok facts plan"
    and rows: "rows_are facts P (plan_pressure facts (headroom strategy) plan)"
  shows "\<exists>r. reduction_ok facts strategy additions plan r
    \<and> (\<forall>cache. cache_ok facts config cache \<longrightarrow> (\<exists>cache'. cache_ok facts config cache' \<and> (cache = None \<longrightarrow> cache' = None)
         \<and> reduce_loop facts config strategy additions (plan, P, cache) = Some (reduction_result r cache')))"
  using ok rows
proof (induction "plan_weight plan" arbitrary: plan P rule: less_induct)
  case less
  obtain r where r: "round_ok facts config strategy additions plan r"
    and step: "\<And>cache. cache_ok facts config cache \<Longrightarrow> \<exists>cache'. cache_ok facts config cache'
      \<and> (cache = None \<longrightarrow> cache' = None)
      \<and> reduce_step facts config strategy additions (plan, P, cache) = round_result r cache'"
    using reduce_step_round [OF wf rated less.prems, of additions] by metis
  show ?case
  proof (cases r)
    case Fit
    have "reduce_loop facts config strategy additions (plan, P, cache) = Some (reduction_result (Reduced plan) cache)"
      if "cache_ok facts config cache" for cache
      using step [OF that] unfolding Fit
      by (subst reduce_loop.simps) (auto simp: round_result_def reduction_result_def)
    moreover have "reduction_ok facts strategy additions plan (Reduced plan)"
      using r less.prems(1) by (simp add: Fit round_ok_def reduction_ok_def)
    ultimately show ?thesis by blast
  next
    case (Stuck e)
    have "reduce_loop facts config strategy additions (plan, P, cache) = Some (reduction_result (Refused e) cache)"
      if "cache_ok facts config cache" for cache
      using step [OF that] unfolding Stuck
      by (subst reduce_loop.simps) (auto simp: round_result_def reduction_result_def)
    moreover have "reduction_ok facts strategy additions plan (Refused e)"
      using r less.prems(1) inside_refl unfolding Stuck round_ok_def reduction_ok_def round.case reduction.case by blast
    ultimately show ?thesis by blast
  next
    case (Cut plan' P')
    then have next_ok: "plan_ok facts plan'" "inside facts plan' plan" "plan_weight plan' < plan_weight plan"
      "rows_are facts P' (plan_pressure facts (headroom strategy) plan')" using r by (simp_all add: round_ok_def)
    from less.hyps [OF next_ok(3,1,4)] obtain r' where
      r': "reduction_ok facts strategy additions plan' r'"
      and rest: "\<forall>cache. cache_ok facts config cache \<longrightarrow> (\<exists>cache'. cache_ok facts config cache' \<and> (cache = None \<longrightarrow> cache' = None)
         \<and> reduce_loop facts config strategy additions (plan', P', cache) = Some (reduction_result r' cache'))" by blast
    have "\<exists>cache'. cache_ok facts config cache' \<and> (cache = None \<longrightarrow> cache' = None)
        \<and> reduce_loop facts config strategy additions (plan, P, cache) = Some (reduction_result r' cache')"
      if cache: "cache_ok facts config cache" for cache
    proof -
      from step [OF cache] obtain cache1 where one: "cache_ok facts config cache1" "cache = None \<longrightarrow> cache1 = None"
        "reduce_step facts config strategy additions (plan, P, cache) = Inr (Some (plan', P', cache1))"
        by (auto simp: Cut round_result_def)
      then have "reduce_loop facts config strategy additions (plan, P, cache)
          = reduce_loop facts config strategy additions (plan', P', cache1)"
        by (subst reduce_loop.simps) simp
      with rest one(1,2) show ?thesis by metis
    qed
    with reduction_ok_inside [OF next_ok(2) r'] show ?thesis by blast
  qed
qed

lemma reduce_pressure_result:
  assumes wf: "wf_facts facts" and rated: "rated facts config" and ok: "plan_ok facts seed"
    and disjoint: "\<forall>a < alias_count facts. disjoint_spans (charged_list facts (headroom strategy) seed a)"
  obtains r where "reduction_ok facts strategy additions seed r"
    and "\<And>cache. cache_ok facts config cache \<Longrightarrow> \<exists>cache'. cache_ok facts config cache'
      \<and> (cache = None \<longrightarrow> cache' = None)
      \<and> reduce_pressure facts config seed strategy additions cache = Some (reduction_result r cache')"
proof -
  from pressure_by_device_rows [OF wf plan_ok_shape [OF ok] disjoint] obtain P where
    P: "pressure_by_device facts seed (headroom strategy) = Inr P"
    "rows_are facts P (plan_pressure facts (headroom strategy) seed)" by blast
  from reduce_loop_result [OF wf rated ok P(2), of additions] obtain r where
    r: "reduction_ok facts strategy additions seed r"
    and rest: "\<forall>cache. cache_ok facts config cache \<longrightarrow> (\<exists>cache'. cache_ok facts config cache' \<and> (cache = None \<longrightarrow> cache' = None)
         \<and> reduce_loop facts config strategy additions (seed, P, cache) = Some (reduction_result r cache'))" by blast
  show thesis by (rule that [OF r]) (use rest P(1) in \<open>simp add: reduce_pressure_def\<close>)
qed


section \<open>The assertion of the floor\<close>

definition floor_error :: "planning_facts \<Rightarrow> string \<Rightarrow> int \<Rightarrow> plan_infeasible \<Rightarrow> bool" where
  "floor_error facts d b e \<longleftrightarrow> pi_kind e = ''required_capacity'' \<and> pi_device_id e = Some d
     \<and> pi_boundary_task_id e = (if b + 1 < int (task_total facts)
          then Some (tk_task_id (fc_tasks facts ! nat (b + 1))) else None)
     \<and> pi_required_bytes e = Some (floor_pressure facts d b)
     \<and> pi_capacity_bytes e = Some (capacity_at facts d b)"

lemma check_floor_site_result:
  assumes "wf_facts facts" "rows_are facts P (floor_pressure facts)" "site facts d b"
  shows "if floor_pressure facts d b \<le> capacity_at facts d b
    then check_floor_site facts P (b, d) = Inr ()
    else \<exists>e. check_floor_site facts P (b, d) = Inl (PlanInfeasible e) \<and> floor_error facts d b e"
proof -
  from assms(3) have d: "d \<in> fact_devices facts" "- 1 \<le> b" "b \<le> last_boundary facts" by simp_all
  from rows_are_lookup [OF assms(2) d] obtain row where
    row: "dict_get P d = Inr row" "py_nth row (b + 1) = Inr (floor_pressure facts d b)" by blast
  have cap: "bindE (dict_get (fc_object_capacity_by_boundary facts) d) (\<lambda>row. py_nth row (b + 1))
      = Inr (capacity_at facts d b)"
    using strategy_object_capacity_at [OF assms(1,3)] by (simp add: strategy_object_capacity_def)
  have index: "0 \<le> b + 1" using d(2) by simp
  show ?thesis
  proof (cases "floor_pressure facts d b \<le> capacity_at facts d b")
    case True
    then show ?thesis using row cap by (simp add: check_floor_site_def Let_def)
  next
    case False
    then show ?thesis
      using row cap index by (simp add: check_floor_site_def Let_def floor_error_def ensure_def)
  qed
qed

lemma assert_required_floor_result:
  assumes wf: "wf_facts facts"
  shows "assert_required_floor facts = Inr ()
      \<longleftrightarrow> (\<forall>d b. site facts d b \<longrightarrow> floor_pressure facts d b \<le> capacity_at facts d b)"
    and "\<And>x. assert_required_floor facts = Inl x \<Longrightarrow> \<exists>d b e. x = PlanInfeasible e \<and> site facts d b
      \<and> floor_pressure facts d b > capacity_at facts d b \<and> floor_error facts d b e"
proof -
  from required_floor_rows [OF wf] obtain P where P: "required_floor_pressure facts = Inr P"
    "rows_are facts P (floor_pressure facts)" by blast
  let ?sites = "List.product [- 1..last_boundary facts] (map fst (fc_object_capacity_by_device facts))"
  have run: "assert_required_floor facts = checkE (check_floor_site facts P) ?sites"
    by (simp add: assert_required_floor_def P(1))
  have member: "(b, d) \<in> set ?sites \<longleftrightarrow> site facts d b" for b d by auto
  note check = check_floor_site_result [OF wf P(2)]
  have iff: "check_floor_site facts P (b, d) = Inr () \<longleftrightarrow> floor_pressure facts d b \<le> capacity_at facts d b"
    if "site facts d b" for d b using check [OF that] by (auto split: if_splits)
  show "assert_required_floor facts = Inr ()
      \<longleftrightarrow> (\<forall>d b. site facts d b \<longrightarrow> floor_pressure facts d b \<le> capacity_at facts d b)"
    unfolding run checkE_Inr_iff using iff member by (metis surj_pair)
  have "\<exists>y \<in> set xs. f y = Inl e" if "checkE f xs = Inl e" for f :: "'x \<Rightarrow> 'e + unit" and xs e
    using that by (induction xs) (auto simp: bindE_Inl_iff)
  then show "\<exists>d b e. x = PlanInfeasible e \<and> site facts d b
      \<and> floor_pressure facts d b > capacity_at facts d b \<and> floor_error facts d b e"
    if "assert_required_floor facts = Inl x" for x
  proof -
    from that obtain b d where "(b, d) \<in> set ?sites" and out: "check_floor_site facts P (b, d) = Inl x"
      unfolding run using \<open>\<And>xs f e. checkE f xs = Inl e \<Longrightarrow> \<exists>y \<in> set xs. f y = Inl e\<close> by (metis surj_pair)
    then have s: "site facts d b" using member by blast
    from check [OF s] out show ?thesis using s by (fastforce split: if_splits)
  qed
qed

end
