(* ===== verification/PressureFit_Triggers.thy ===== *)
theory PressureFit_Triggers
  imports PressureFit_Actions PressureFit_Reduction
begin

text \<open>
  Where the fetches of a plan are triggered: the bisection over the ideal task ends, the packed and
  the latest-safe placements, and the loop that moves packed fetches later until nothing over
  capacity can move. Every trigger stays inside the window of its reload.
\<close>

section \<open>Bisection\<close>

lemma bisect_right_result:
  assumes "lo \<le> hi" "hi \<le> length a"
  shows "\<exists>k. bisect_right a x lo hi = Inr k \<and> lo \<le> k \<and> k \<le> hi
    \<and> (sorted a \<longrightarrow> (\<forall>i. lo \<le> i \<longrightarrow> i < k \<longrightarrow> a ! i \<le> x) \<and> (\<forall>i. k \<le> i \<longrightarrow> i < hi \<longrightarrow> x < a ! i))"
  using assms
proof (induction "hi - lo" arbitrary: lo hi rule: less_induct)
  case less
  show ?case
  proof (cases "lo < hi")
    case False
    with less.prems show ?thesis by (subst bisect_right.simps) auto
  next
    case True
    define mid where "mid = (lo + hi) div 2"
    have mid: "lo \<le> mid" "mid < hi" using True by (auto simp: mid_def)
    have nth: "py_nth a (int mid) = Inr (a ! mid)" using mid less.prems(2) by simp
    have step: "bisect_right a x lo hi
        = (if x < a ! mid then bisect_right a x lo mid else bisect_right a x (mid + 1) hi)"
      using True nth by (subst bisect_right.simps) (simp add: mid_def Let_def)
    have mono: "sorted a \<Longrightarrow> i \<le> j \<Longrightarrow> j < hi \<Longrightarrow> a ! i \<le> a ! j" for i j
      using less.prems(2) by (simp add: sorted_nth_mono)
    have smaller: "mid - lo < hi - lo" "hi - (mid + 1) < hi - lo" using mid by linarith+
    show ?thesis
    proof (cases "x < a ! mid")
      case left: True
      from less.hyps [OF smaller(1)] mid less.prems obtain k where
        k: "bisect_right a x lo mid = Inr k" "lo \<le> k" "k \<le> mid"
        "sorted a \<Longrightarrow> (\<forall>i. lo \<le> i \<longrightarrow> i < k \<longrightarrow> a ! i \<le> x) \<and> (\<forall>i. k \<le> i \<longrightarrow> i < mid \<longrightarrow> x < a ! i)" by auto
      have "x < a ! i" if "sorted a" "k \<le> i" "i < hi" for i
        using that k(4) left mono [of mid i] by (cases "i < mid") auto
      with k mid left show ?thesis by (intro exI [of _ k]) (simp add: step)
    next
      case right: False
      from less.hyps [OF smaller(2)] mid less.prems obtain k where
        k: "bisect_right a x (mid + 1) hi = Inr k" "mid + 1 \<le> k" "k \<le> hi"
        "sorted a \<Longrightarrow> (\<forall>i. mid + 1 \<le> i \<longrightarrow> i < k \<longrightarrow> a ! i \<le> x) \<and> (\<forall>i. k \<le> i \<longrightarrow> i < hi \<longrightarrow> x < a ! i)" by auto
      have "a ! i \<le> x" if "sorted a" "lo \<le> i" "i < k" for i
        using that k(4) right mono [of i mid] mid by (cases "i \<le> mid") auto
      with k mid right show ?thesis by (intro exI [of _ k]) (simp add: step)
    qed
  qed
qed


section \<open>The latest boundary that leaves time\<close>

definition window :: "planning_facts \<Rightarrow> reload \<Rightarrow> bool" where
  "window facts r \<longleftrightarrow> rl_alias r < alias_count facts \<and> 0 \<le> rl_earliest_trigger r
     \<and> rl_earliest_trigger r \<le> rl_latest_trigger r \<and> rl_latest_trigger r \<le> last_boundary facts
     \<and> rl_entry_boundary r \<le> last_boundary facts"

definition latest_in_time :: "planning_facts \<Rightarrow> int \<Rightarrow> int \<Rightarrow> int \<Rightarrow> int \<Rightarrow> bool" where
  "latest_in_time facts earliest latest target t \<longleftrightarrow>
     (t = earliest \<or> fc_task_ideal_end_ns facts ! nat t \<le> target)
     \<and> (\<forall>u. t < u \<longrightarrow> u \<le> latest \<longrightarrow> target < fc_task_ideal_end_ns facts ! nat u)"

lemma latest_trigger_result:
  assumes wf: "wf_facts facts" and "0 \<le> earliest" "earliest \<le> latest" "latest \<le> last_boundary facts"
  shows "\<exists>t. latest_trigger_at_or_before facts earliest latest target = Inr t \<and> earliest \<le> t \<and> t \<le> latest
    \<and> (sorted (fc_task_ideal_end_ns facts) \<longrightarrow> latest_in_time facts earliest latest target t)"
proof -
  let ?ends = "fc_task_ideal_end_ns facts"
  have n: "length ?ends = task_total facts" using wf by (simp add: wf_facts_def wf_tables_def)
  have "nat earliest \<le> nat (latest + 1)" "nat (latest + 1) \<le> length ?ends"
    using assms(2-4) by (auto simp: n last_boundary_def)
  from bisect_right_result [OF this, of target] obtain k where
    k: "bisect_right ?ends target (nat earliest) (nat (latest + 1)) = Inr k" "nat earliest \<le> k" "k \<le> nat (latest + 1)"
    "sorted ?ends \<Longrightarrow> (\<forall>i. nat earliest \<le> i \<longrightarrow> i < k \<longrightarrow> ?ends ! i \<le> target)
       \<and> (\<forall>i. k \<le> i \<longrightarrow> i < nat (latest + 1) \<longrightarrow> target < ?ends ! i)" by blast
  define t where "t = max earliest (int k - 1)"
  have "latest_in_time facts earliest latest target t" if "sorted ?ends"
  proof -
    note sides = k(4) [OF that]
    have "?ends ! nat t \<le> target" if "t \<noteq> earliest"
      using sides [THEN conjunct1, rule_format, of "nat t"] that assms(2) by (simp add: t_def max_def split: if_splits)
    moreover have "target < ?ends ! nat u" if "t < u" "u \<le> latest" for u
      using sides [THEN conjunct2, rule_format, of "nat u"] that assms(2) by (auto simp: t_def)
    ultimately show ?thesis by (auto simp: latest_in_time_def)
  qed
  moreover have "earliest \<le> t" "t \<le> latest" using k(2,3) assms(2,3) by (auto simp: t_def)
  moreover have "latest_trigger_at_or_before facts earliest latest target = Inr t"
    using k(1) assms(2) by (simp add: latest_trigger_at_or_before_def t_def)
  ultimately show ?thesis by blast
qed

lemma ideal_trigger_time_total:
  assumes "wf_facts facts" "t \<le> last_boundary facts"
  shows "\<exists>v. ideal_trigger_time facts t = Inr v"
proof -
  have "length (fc_task_ideal_end_ns facts) = task_total facts" using assms(1) by (simp add: wf_facts_def wf_tables_def)
  then show ?thesis
    using py_nth_total [of t "fc_task_ideal_end_ns facts"] assms(2)
    by (auto simp: ideal_trigger_time_def last_boundary_def)
qed

lemma fetch_runtime_eq: "fetch_runtime_ns facts config a = transfer_runtime_ns facts config a True"
  by (simp add: fetch_runtime_ns_def transfer_runtime_ns_def Let_def split: list.split)

lemma fetch_runtime_total:
  assumes "wf_facts facts" "rated facts config" "a < alias_count facts"
  shows "\<exists>v. fetch_runtime_ns facts config a = Inr v"
  unfolding fetch_runtime_eq using assms by (rule transfer_runtime_total)


section \<open>Placements within the windows\<close>

definition within_windows :: "triggers \<Rightarrow> bool" where
  "within_windows selected \<longleftrightarrow>
     (\<forall>r t. map_of selected r = Some t \<longrightarrow> rl_earliest_trigger r \<le> t \<and> t \<le> rl_latest_trigger r)"

definition triggers_of :: "reload set \<Rightarrow> triggers \<Rightarrow> bool" where
  "triggers_of R selected \<longleftrightarrow> distinct (map fst selected) \<and> set (map fst selected) = R \<and> within_windows selected"

lemma triggers_of_Nil [simp]: "triggers_of {} []"
  by (simp add: triggers_of_def within_windows_def)

lemma triggers_of_update:
  assumes "triggers_of R selected" "rl_earliest_trigger r \<le> t" "t \<le> rl_latest_trigger r"
  shows "triggers_of (insert r R) (AList.update r t selected)"
  using assms
  by (auto simp: triggers_of_def within_windows_def distinct_update dom_update update_conv' split: if_splits)

lemma set_sorted_reverse [simp]: "set (sorted_reverse key xs) = set xs"
  by (simp add: sorted_reverse_def)

lemma demand_triggers:
  assumes "\<forall>r \<in> set reloads. window facts r"
  shows "triggers_of (set reloads)
    (fold (\<lambda>r selected. AList.update r (rl_latest_trigger r) selected) reloads [])"
  using assms
proof (induction reloads rule: rev_induct)
  case (snoc r rs)
  then show ?case by (simp add: triggers_of_update window_def)
qed simp

lemma packed_step_total:
  assumes wf: "wf_facts facts" and rated: "rated facts config" and w: "window facts r"
    and sel: "triggers_of R (fst st)"
  shows "\<exists>st'. packed_step facts config st r = Inr st' \<and> triggers_of (insert r R) (fst st')"
proof -
  obtain selected packed_start where st: "st = (selected, packed_start)" by (cases st)
  from w have win: "rl_alias r < alias_count facts" "0 \<le> rl_earliest_trigger r"
    "rl_earliest_trigger r \<le> rl_latest_trigger r" "rl_latest_trigger r \<le> last_boundary facts"
    by (simp_all add: window_def)
  obtain deadline where deadline: "ideal_trigger_time facts (rl_latest_trigger r) = Inr deadline"
    using ideal_trigger_time_total [OF wf win(4)] by blast
  obtain runtime where runtime: "fetch_runtime_ns facts config (rl_alias r) = Inr runtime"
    using fetch_runtime_total [OF wf rated win(1)] by blast
  define desired where "desired = max (min deadline (case packed_start (fc_alias_devices facts ! rl_alias r) of
    None \<Rightarrow> deadline | Some t \<Rightarrow> t) - runtime) 0"
  from latest_trigger_result [OF wf win(2-4), of desired] obtain t where
    t: "latest_trigger_at_or_before facts (rl_earliest_trigger r) (rl_latest_trigger r) desired = Inr t"
    "rl_earliest_trigger r \<le> t" "t \<le> rl_latest_trigger r" by blast
  obtain start where start: "ideal_trigger_time facts t = Inr start"
    using ideal_trigger_time_total [OF wf] t(3) win(4) by fastforce
  have "packed_step facts config st r = Inr (AList.update r t selected,
      packed_start(fc_alias_devices facts ! rl_alias r \<mapsto> max start desired))"
    unfolding packed_step_def st prod.case Let_def deadline runtime bindE_simps
    unfolding desired_def [symmetric] t(1) start bindE_simps ..
  then show ?thesis using triggers_of_update [OF sel t(2,3)] by (simp add: st)
qed

lemma packed_triggers_total:
  assumes "wf_facts facts" "rated facts config" "\<forall>r \<in> set reloads. window facts r"
  shows "\<exists>selected. packed_triggers facts config reloads = Inr selected \<and> triggers_of (set reloads) selected"
proof -
  let ?order = "sorted_reverse (\<lambda>r. (rl_latest_trigger r, rl_alias r)) reloads"
  have "\<exists>st. foldE (packed_step facts config) ([], Map.empty) ?order = Inr st \<and> triggers_of (set ?order) (fst st)"
  proof (rule foldE_total [where P = "\<lambda>ys st. triggers_of (set ys) (fst st)"])
    fix ys r zs and st :: "triggers \<times> (string \<rightharpoonup> int)"
    assume "triggers_of (set ys) (fst st)" and split: "?order = ys @ r # zs"
    moreover have "r \<in> set reloads" using arg_cong [OF split, of set] by simp
    ultimately show "\<exists>st'. packed_step facts config st r = Inr st' \<and> triggers_of (set (ys @ [r])) (fst st')"
      using packed_step_total [OF assms(1,2)] assms(3) by simp
  qed simp
  then show ?thesis by (auto simp: packed_triggers_def)
qed

definition safe_in_time :: "planning_facts \<Rightarrow> simulation_config \<Rightarrow> reload \<Rightarrow> int \<Rightarrow> bool" where
  "safe_in_time facts config r t \<longleftrightarrow> (\<exists>runtime. fetch_runtime_ns facts config (rl_alias r) = Inr runtime
     \<and> latest_in_time facts (rl_earliest_trigger r) (rl_latest_trigger r)
         (max (fc_task_ideal_end_ns facts ! nat (rl_latest_trigger r) - runtime) 0) t)"

lemma latest_safe_total:
  assumes wf: "wf_facts facts" and rated: "rated facts config" and wins: "\<forall>r \<in> set reloads. window facts r"
  shows "\<exists>selected. latest_safe_triggers facts config reloads = Inr selected \<and> triggers_of (set reloads) selected
    \<and> (sorted (fc_task_ideal_end_ns facts) \<longrightarrow> (\<forall>r t. map_of selected r = Some t \<longrightarrow> safe_in_time facts config r t))"
  unfolding latest_safe_triggers_def
proof (rule foldE_total [where P = "\<lambda>ys selected. triggers_of (set ys) selected
    \<and> (sorted (fc_task_ideal_end_ns facts) \<longrightarrow> (\<forall>r t. map_of selected r = Some t \<longrightarrow> safe_in_time facts config r t))"])
  fix ys r zs selected
  assume inv: "triggers_of (set ys) selected
      \<and> (sorted (fc_task_ideal_end_ns facts) \<longrightarrow> (\<forall>r t. map_of selected r = Some t \<longrightarrow> safe_in_time facts config r t))"
    and split: "reloads = ys @ r # zs"
  from wins split have win: "rl_alias r < alias_count facts" "0 \<le> rl_earliest_trigger r"
    "rl_earliest_trigger r \<le> rl_latest_trigger r" "rl_latest_trigger r \<le> last_boundary facts"
    by (simp_all add: window_def)
  have n: "length (fc_task_ideal_end_ns facts) = task_total facts" using wf by (simp add: wf_facts_def wf_tables_def)
  have deadline: "ideal_trigger_time facts (rl_latest_trigger r)
      = Inr (fc_task_ideal_end_ns facts ! nat (rl_latest_trigger r))"
    using win py_nth_nat [of "nat (rl_latest_trigger r)" "fc_task_ideal_end_ns facts"]
    by (simp add: ideal_trigger_time_def n last_boundary_def)
  obtain runtime where runtime: "fetch_runtime_ns facts config (rl_alias r) = Inr runtime"
    using fetch_runtime_total [OF wf rated win(1)] by blast
  define desired where "desired = max (fc_task_ideal_end_ns facts ! nat (rl_latest_trigger r) - runtime) 0"
  from latest_trigger_result [OF wf win(2-4), of desired] obtain t where
    t: "latest_trigger_at_or_before facts (rl_earliest_trigger r) (rl_latest_trigger r) desired = Inr t"
    "rl_earliest_trigger r \<le> t" "t \<le> rl_latest_trigger r"
    "sorted (fc_task_ideal_end_ns facts) \<longrightarrow>
       latest_in_time facts (rl_earliest_trigger r) (rl_latest_trigger r) desired t" by blast
  have "latest_safe_step facts config selected r = Inr (AList.update r t selected)"
    unfolding latest_safe_step_def deadline runtime bindE_simps Let_def desired_def [symmetric] t(1) ..
  moreover have "triggers_of (set (ys @ [r])) (AList.update r t selected)"
    using triggers_of_update [OF inv [THEN conjunct1] t(2,3)] by simp
  moreover have "\<forall>r' t'. map_of (AList.update r t selected) r' = Some t' \<longrightarrow> safe_in_time facts config r' t'"
    if "sorted (fc_task_ideal_end_ns facts)"
  proof (intro allI impI)
    fix r' t'
    assume "map_of (AList.update r t selected) r' = Some t'"
    moreover have "safe_in_time facts config r t"
      unfolding safe_in_time_def desired_def [symmetric] using t(4) that runtime by (auto simp: desired_def)
    ultimately show "safe_in_time facts config r' t'"
      using inv that by (auto simp: update_conv' split: if_splits)
  qed
  ultimately show "\<exists>selected'. latest_safe_step facts config selected r = Inr selected'
      \<and> triggers_of (set (ys @ [r])) selected' \<and> (sorted (fc_task_ideal_end_ns facts) \<longrightarrow>
        (\<forall>r t. map_of selected' r = Some t \<longrightarrow> safe_in_time facts config r t))" by blast
qed simp

end
