(* ===== verification/PressureFit_Fit.thy ===== *)
theory PressureFit_Fit
  imports PressureFit_Triggers
begin

text \<open>
  The loop of \<^verbatim>\<open>_fit_clamped_triggers\<close>: its tables are those of the fetches in flight, every move
  delays one fetch within its window, and it stops when every boundary over capacity has only
  fetches at the end of their windows in flight.
\<close>

section \<open>The pressure the loop starts from\<close>

text \<open>With headroom two charged spans of an alias may overlap, so only the shape is claimed here.\<close>

lemma charge_aliases_shape:
  assumes wf: "wf_facts facts" and shape: "plan_shape facts plan"
    and start: "\<forall>d \<in> fact_devices facts. \<exists>row. D d = Some row \<and> length row = task_total facts + 2"
  shows "\<exists>D'. foldE (charge_alias facts h) (D, []) (enumerate 0 (rp_spans plan))
      = Inr (D', map (charged_list facts h plan) [0..<alias_count facts])
    \<and> (\<forall>d \<in> fact_devices facts. \<exists>row. D' d = Some row \<and> length row = task_total facts + 2)"
proof -
  define P where "P = (\<lambda>ys (st :: pressures \<times> span list list).
    snd st = map (charged_list facts h plan) [0..<length (ys :: (nat \<times> span list) list)]
    \<and> (\<forall>d \<in> fact_devices facts. \<exists>row. fst st d = Some row \<and> length row = task_total facts + 2))"
  have len: "length (rp_spans plan) = alias_count facts" using shape by (simp add: plan_shape_def)
  have "\<exists>st. foldE (charge_alias facts h) (D, []) (enumerate 0 (rp_spans plan)) = Inr st
      \<and> P (enumerate 0 (rp_spans plan)) st"
  proof (rule foldE_total)
    show "P [] (D, [])" using start by (simp add: P_def)
    fix ys x zs and st :: "pressures \<times> span list list"
    assume inv: "P ys st" and split: "enumerate 0 (rp_spans plan) = ys @ x # zs"
    have "enumerate 0 (rp_spans plan) ! length ys = x" using split by simp
    moreover have a: "length ys < alias_count facts" using arg_cong [OF split, of length] len by simp
    ultimately have x: "x = (length ys, rp_spans plan ! length ys)" using len by (simp add: nth_enumerate_eq)
    obtain E all_charged where st: "st = (E, all_charged)" by (cases st)
    let ?d = "fc_alias_devices facts ! length ys" and ?c = "charged_list facts h plan (length ys)"
    from inv alias_device [OF wf a] obtain row where row: "E ?d = Some row" "length row = task_total facts + 2"
      by (auto simp: P_def st)
    have "\<forall>s \<in> set ?c. wf_span facts s"
      by (rule charged_spans_wf) (use a len shape in \<open>auto simp: plan_shape_def\<close>)
    from charge_intervals [OF this row(2)] obtain row' where
      "foldE (charge_interval (fc_alias_sizes facts ! length ys)) row ?c = Inr row'" "length row' = task_total facts + 2"
      by blast
    then show "\<exists>st'. charge_alias facts h st x = Inr st' \<and> P (ys @ [x]) st'"
      using row(1) inv by (intro exI [of _ "(E(?d \<mapsto> row'), all_charged @ [?c])"])
        (auto simp: charge_alias_def x st Let_def P_def)
  qed
  then show ?thesis using len by (auto simp: P_def)
qed

lemma pressure_by_device_total:
  assumes wf: "wf_facts facts" and shape: "plan_shape facts plan"
  shows "\<exists>P F. pressure_by_device facts plan h = Inr P \<and> rows_are facts P F"
proof -
  let ?D = "dict_of (map (\<lambda>(d, _). (d, replicate (task_total facts + 1 + 1) (0 :: int))) (fc_object_capacity_by_device facts))"
  let ?held = "map (charged_list facts h plan) [0..<alias_count facts]"
  have "\<forall>d \<in> fact_devices facts. \<exists>row. ?D d = Some row \<and> length row = task_total facts + 2"
    using dict_of_const [of _ "fc_object_capacity_by_device facts" "replicate (task_total facts + 2) (0 :: int)"]
    by (simp del: replicate.simps replicate_Suc)
  from charge_aliases_shape [OF wf shape this] obtain D' where
    D': "foldE (charge_alias facts h) (?D, []) (enumerate 0 (rp_spans plan)) = Inr (D', ?held)"
    "\<forall>d \<in> fact_devices facts. \<exists>row. D' d = Some row \<and> length row = task_total facts + 2" by blast
  let ?P = "\<lambda>d. map_option (\<lambda>row. running_sums 0 (take (task_total facts + 1) row)) (D' d)"
  have "rows_are facts ?P (\<lambda>d b. the (?P d) ! nat (b + 1))"
    using D'(2) by (fastforce simp: rows_are_def)
  then have start: "\<exists>F. rows_are facts ?P F" by blast
  have step: "\<exists>Q'. reserve_alias facts ?held task Q al = Inr Q' \<and> (\<exists>F. rows_are facts Q' F)"
    if "\<exists>F. rows_are facts Q F" "task < task_total facts" "al < alias_count facts" for task Q al
  proof (cases "list_ex (\<lambda>s. span_contains s (int task - 1)) (?held ! al)")
    case True
    with that show ?thesis by (simp add: reserve_alias_def)
  next
    case False
    from that obtain F where "rows_are facts Q F" by blast
    from rows_are_bump [OF this alias_device [OF wf that(3)], of "int task - 1" "fc_alias_sizes facts ! al"] that(2)
    show ?thesis using False by (auto simp: reserve_alias_def last_boundary_def Let_def)
  qed
  have "\<exists>Q. foldE (\<lambda>P (task, rs). foldE (reserve_alias facts ?held task) P rs) ?P
      (enumerate 0 (fc_output_reservations facts)) = Inr Q \<and> (\<exists>F. rows_are facts Q F)"
  proof (rule foldE_total [where P = "\<lambda>_ Q. \<exists>F. rows_are facts Q F", OF start])
    fix ys x zs Q
    assume inv: "\<exists>F. rows_are facts Q F" and split: "enumerate 0 (fc_output_reservations facts) = ys @ x # zs"
    obtain task rs where x: "x = (task, rs)" by (cases x)
    have "x \<in> set (enumerate 0 (fc_output_reservations facts))" using split by simp
    then have task: "task < task_total facts" and "rs \<in> set (fc_output_reservations facts)"
      using wf by (auto simp: x in_set_enumerate_eq wf_facts_def wf_tables_def)
    then have rs: "\<forall>al \<in> set rs. al < alias_count facts" using wf by (auto simp: wf_facts_def wf_events_def)
    have "\<exists>Q'. foldE (reserve_alias facts ?held task) Q rs = Inr Q' \<and> (\<exists>F. rows_are facts Q' F)"
      by (rule foldE_total [where P = "\<lambda>_ Q. \<exists>F. rows_are facts Q F", OF inv])
        (use rs in \<open>auto intro!: step [OF _ task]\<close>)
    then show "\<exists>Q'. (case x of (task, rs) \<Rightarrow> foldE (reserve_alias facts ?held task) Q rs) = Inr Q'
        \<and> (\<exists>F. rows_are facts Q' F)" by (simp add: x)
  qed
  then show ?thesis using D'(1) by (simp add: pressure_by_device_def Let_def)
qed


section \<open>The tables of the fetches in flight\<close>

text \<open>A fetch is in flight at a boundary from its trigger to its entry, where its alias is not resident.\<close>

definition in_flight :: "residency_plan \<Rightarrow> (reload \<rightharpoonup> int) \<Rightarrow> (reload \<times> int) set" where
  "in_flight plan T = {(r, b). \<exists>t. T r = Some t \<and> max t 0 \<le> b \<and> b < rl_entry_boundary r
     \<and> \<not> plan_resident plan (rl_alias r) b}"

definition fetching :: "(reload \<times> int) set \<Rightarrow> int \<Rightarrow> nat \<Rightarrow> bool" where
  "fetching F b a \<longleftrightarrow> (\<exists>r. (r, b) \<in> F \<and> rl_alias r = a)"

definition flights_at :: "(reload \<times> int) set \<Rightarrow> int \<Rightarrow> nat \<Rightarrow> reload set" where
  "flights_at F b a = {r. (r, b) \<in> F \<and> rl_alias r = a}"

definition count_of :: "'a set \<Rightarrow> int option" where
  "count_of A = (if A = {} then None else Some (int (card A)))"

abbreviation device_of :: "planning_facts \<Rightarrow> reload \<Rightarrow> string" where
  "device_of facts r \<equiv> fc_alias_devices facts ! rl_alias r"

definition active_rows :: "planning_facts \<Rightarrow> (reload \<times> int) set \<Rightarrow> (string \<rightharpoonup> reload list list) \<Rightarrow> bool" where
  "active_rows facts F A \<longleftrightarrow> (\<forall>d \<in> fact_devices facts. \<exists>rows. A d = Some rows \<and> length rows = task_total facts
     \<and> (\<forall>b < task_total facts. distinct (rows ! b) \<and> set (rows ! b) = {r. (r, int b) \<in> F \<and> device_of facts r = d}))"

definition count_rows :: "planning_facts \<Rightarrow> (reload \<times> int) set \<Rightarrow> (string \<rightharpoonup> (nat \<rightharpoonup> int) list) \<Rightarrow> bool" where
  "count_rows facts F C \<longleftrightarrow> (\<forall>d \<in> fact_devices facts. \<exists>tables. C d = Some tables \<and> length tables = task_total facts
     \<and> (\<forall>b < task_total facts. \<forall>a. fc_alias_devices facts ! a = d \<longrightarrow> (tables ! b) a = count_of (flights_at F (int b) a)))"

definition fit_tables ::
    "planning_facts \<Rightarrow> (string \<Rightarrow> int \<Rightarrow> int) \<Rightarrow> (reload \<times> int) set \<Rightarrow> fit_state \<Rightarrow> bool" where
  "fit_tables facts base F st \<longleftrightarrow> finite F \<and> active_rows facts F (ft_active st) \<and> count_rows facts F (ft_counts st)
     \<and> rows_are facts (ft_used st) (\<lambda>d b. base d b + load facts d (fetching F b))"

lemma flights_at_insert [simp]:
  "flights_at (insert (r, b) F) b' a
     = (if b' = b \<and> a = rl_alias r then insert r (flights_at F b a) else flights_at F b' a)"
  by (auto simp: flights_at_def)

lemma flights_at_remove [simp]:
  "flights_at (F - {(r, b)}) b' a
     = (if b' = b \<and> a = rl_alias r then flights_at F b a - {r} else flights_at F b' a)"
  by (auto simp: flights_at_def)

lemma finite_flights [simp]: "finite F \<Longrightarrow> finite (flights_at F b a)"
proof -
  assume "finite F"
  moreover have "flights_at F b a \<subseteq> fst ` F" by (force simp: flights_at_def)
  ultimately show ?thesis by (auto elim: finite_subset)
qed

lemma fetching_flights: "fetching F b a \<longleftrightarrow> flights_at F b a \<noteq> {}"
  by (auto simp: fetching_def flights_at_def)

text \<open>One row of each table after one flight is added or removed.\<close>

lemma active_rows_set:
  assumes "active_rows facts F A" "0 \<le> b" "b \<le> last_boundary facts" "A (device_of facts r) = Some rows"
    and "device_of facts r \<in> fact_devices facts"
    and "distinct row" "set row = {r'. (r', b) \<in> F' \<and> device_of facts r' = device_of facts r}"
    and "\<And>r' b'. (r', b') \<noteq> (r, b) \<Longrightarrow> (r', b') \<in> F' \<longleftrightarrow> (r', b') \<in> F"
  shows "active_rows facts F' (A(device_of facts r \<mapsto> rows[nat b := row]))"
  unfolding active_rows_def
proof
  fix d
  assume d: "d \<in> fact_devices facts"
  with assms(1) obtain old where old: "A d = Some old" "length old = task_total facts"
    "\<And>k. k < task_total facts \<Longrightarrow> distinct (old ! k) \<and> set (old ! k) = {r. (r, int k) \<in> F \<and> device_of facts r = d}"
    unfolding active_rows_def by blast
  show "\<exists>rows'. (A(device_of facts r \<mapsto> rows[nat b := row])) d = Some rows' \<and> length rows' = task_total facts
      \<and> (\<forall>b < task_total facts. distinct (rows' ! b) \<and> set (rows' ! b) = {r. (r, int b) \<in> F' \<and> device_of facts r = d})"
  proof (cases "d = device_of facts r")
    case True
    have b: "int (nat b) = b" using assms(2) by simp
    have "distinct (rows[nat b := row] ! k) \<and> set (rows[nat b := row] ! k) = {r. (r, int k) \<in> F' \<and> device_of facts r = d}"
      if "k < task_total facts" for k
    proof (cases "k = nat b")
      case k: True
      then show ?thesis using that assms(4,6,7) old(1,2) True b by simp
    next
      case False
      then have "int k \<noteq> b" by auto
      then show ?thesis using that False assms(4,8) old True by simp
    qed
    then show ?thesis using True assms(4) old by simp
  next
    case False
    have "(x, int k) \<in> F' \<and> device_of facts x = d \<longleftrightarrow> (x, int k) \<in> F \<and> device_of facts x = d" for x k
      using assms(8) [of x "int k"] False by auto
    with False old show ?thesis by simp
  qed
qed

lemma count_rows_set:
  assumes "count_rows facts F C" "0 \<le> b" "b \<le> last_boundary facts" "C (device_of facts r) = Some tables"
    and "device_of facts r \<in> fact_devices facts"
    and "slot = (tables ! nat b)(rl_alias r := count_of (flights_at F' b (rl_alias r)))"
    and "\<And>b' a. (b', a) \<noteq> (b, rl_alias r) \<Longrightarrow> flights_at F' b' a = flights_at F b' a"
  shows "count_rows facts F' (C(device_of facts r \<mapsto> tables[nat b := slot]))"
  unfolding count_rows_def
proof
  fix d
  assume d: "d \<in> fact_devices facts"
  with assms(1) obtain old where old: "C d = Some old" "length old = task_total facts"
    "\<And>k a. k < task_total facts \<Longrightarrow> fc_alias_devices facts ! a = d \<Longrightarrow> (old ! k) a = count_of (flights_at F (int k) a)"
    unfolding count_rows_def by blast
  show "\<exists>tables'. (C(device_of facts r \<mapsto> tables[nat b := slot])) d = Some tables' \<and> length tables' = task_total facts
      \<and> (\<forall>b < task_total facts. \<forall>a. fc_alias_devices facts ! a = d \<longrightarrow> (tables' ! b) a = count_of (flights_at F' (int b) a))"
  proof (cases "d = device_of facts r")
    case True
    have b: "int (nat b) = b" using assms(2) by simp
    have "(tables[nat b := slot] ! k) a = count_of (flights_at F' (int k) a)"
      if "k < task_total facts" "fc_alias_devices facts ! a = d" for k a
    proof (cases "k = nat b \<and> a = rl_alias r")
      case ka: True
      then show ?thesis using that assms(4,6) old(1,2) True b by simp
    next
      case False
      then have "(int k, a) \<noteq> (b, rl_alias r)" using b by auto
      from assms(7) [OF this] False show ?thesis
        using that assms(4,6) old True b by (cases "k = nat b") auto
    qed
    then show ?thesis using True assms(4) old by simp
  next
    case False
    have "flights_at F' (int k) a = flights_at F (int k) a" if "fc_alias_devices facts ! a = d" for k a
      using that assms(7) [of "int k" a] False by auto
    with False old show ?thesis by simp
  qed
qed

lemma rows_are_fetching:
  assumes "rows_are facts U (\<lambda>d b. base d b + load facts d (fetching F b))"
    and "rl_alias r < alias_count facts" "0 \<le> b" "b \<le> last_boundary facts" "wf_facts facts"
    and "\<And>b' a. (b', a) \<noteq> (b, rl_alias r) \<Longrightarrow> flights_at F' b' a = flights_at F b' a"
    and "n = fc_alias_sizes facts ! rl_alias r
      * (of_bool (fetching F' b (rl_alias r)) - of_bool (fetching F b (rl_alias r)))"
  shows "\<exists>U'. use_bytes U (device_of facts r) (b + 1) n = Inr U'
    \<and> rows_are facts U' (\<lambda>d b. base d b + load facts d (fetching F' b))"
proof -
  have "- 1 \<le> b" using assms(3) by simp
  from rows_are_bump [OF assms(1) alias_device [OF assms(5,2)] this assms(4), where n = n, folded use_bytes_def] obtain U' where
    U': "use_bytes U (device_of facts r) (b + 1) n = Inr U'"
    "rows_are facts U' (\<lambda>d b'. base d b' + load facts d (fetching F b')
      + (if d = device_of facts r \<and> b' = b then n else 0))" by (elim exE conjE) (rule that)
  from U'(2) have "rows_are facts U' (\<lambda>d b. base d b + load facts d (fetching F' b))"
  proof (rule rows_are_cong)
    fix d b'
    show "base d b' + load facts d (fetching F b') + (if d = device_of facts r \<and> b' = b then n else 0)
        = base d b' + load facts d (fetching F' b')"
    proof (cases "b' = b")
      case True
      have "load facts d (fetching F' b) = load facts d (fetching F b) + (if device_of facts r = d
          then fc_alias_sizes facts ! rl_alias r
            * (of_bool (fetching F' b (rl_alias r)) - of_bool (fetching F b (rl_alias r))) else 0)"
        by (rule load_differs [OF assms(2)]) (use assms(6) in \<open>simp add: fetching_flights\<close>)
      with True assms(7) show ?thesis by auto
    next
      case False
      then have "load facts d (fetching F' b') = load facts d (fetching F b')"
        using assms(6) by (intro load_cong) (simp add: fetching_flights)
      with False show ?thesis by simp
    qed
  qed
  with U'(1) show ?thesis by blast
qed

lemma fit_lookup:
  assumes "fit_tables facts base F st" "d \<in> fact_devices facts" "0 \<le> b" "b \<le> last_boundary facts"
  shows "\<exists>rows tables. ft_active st d = Some rows \<and> py_nth rows b = Inr (rows ! nat b)
    \<and> distinct (rows ! nat b) \<and> set (rows ! nat b) = {r. (r, b) \<in> F \<and> device_of facts r = d}
    \<and> ft_counts st d = Some tables \<and> py_nth tables b = Inr (tables ! nat b)
    \<and> (\<forall>a. fc_alias_devices facts ! a = d \<longrightarrow> (tables ! nat b) a = count_of (flights_at F b a))"
proof -
  have b: "nat b < task_total facts" "int (nat b) = b" using assms(3,4) by (auto simp: last_boundary_def)
  from assms(1,2) obtain rows where rows: "ft_active st d = Some rows" "length rows = task_total facts"
    "\<And>b. b < task_total facts \<Longrightarrow> distinct (rows ! b) \<and> set (rows ! b) = {r. (r, int b) \<in> F \<and> device_of facts r = d}"
    unfolding fit_tables_def active_rows_def by blast
  from assms(1,2) obtain tables where tables: "ft_counts st d = Some tables" "length tables = task_total facts"
    "\<And>b a. b < task_total facts \<Longrightarrow> fc_alias_devices facts ! a = d \<Longrightarrow> (tables ! b) a = count_of (flights_at F (int b) a)"
    unfolding fit_tables_def count_rows_def by blast
  have "py_nth rows b = Inr (rows ! nat b)" "py_nth tables b = Inr (tables ! nat b)"
    using py_nth_nat [of "nat b" rows] py_nth_nat [of "nat b" tables] b rows(2) tables(2) by simp_all
  then show ?thesis using rows(1) rows(3) [of "nat b"] tables(1) tables(3) [of "nat b"] b by auto
qed

lemma add_active_at_result:
  assumes wf: "wf_facts facts" and tables: "fit_tables facts base F st" and r: "rl_alias r < alias_count facts"
    and b: "0 \<le> b" "b \<le> last_boundary facts" and new: "(r, b) \<notin> F"
    and absent: "\<not> plan_resident plan (rl_alias r) b"
  shows "\<exists>st'. add_active_at facts plan r st b = Inr st' \<and> ft_result st' = ft_result st
    \<and> fit_tables facts base (insert (r, b) F) st'"
proof -
  let ?d = "device_of facts r" and ?F = "insert (r, b) F" and ?a = "rl_alias r"
  note d = alias_device [OF wf r]
  from fit_lookup [OF tables d b] obtain rows counts where
    rows: "ft_active st ?d = Some rows" "py_nth rows b = Inr (rows ! nat b)" "distinct (rows ! nat b)"
    "set (rows ! nat b) = {r. (r, b) \<in> F \<and> device_of facts r = ?d}"
    and counts: "ft_counts st ?d = Some counts" "py_nth counts b = Inr (counts ! nat b)"
    "(counts ! nat b) ?a = count_of (flights_at F b ?a)" by blast
  have fin: "finite F" using tables by (simp add: fit_tables_def)
  define previous where "previous = (case (counts ! nat b) ?a of None \<Rightarrow> 0 | Some n \<Rightarrow> n)"
  have previous: "previous = int (card (flights_at F b ?a))"
    unfolding previous_def counts(3) using fin by (simp add: count_of_def)
  have none: "previous = 0 \<longleftrightarrow> \<not> fetching F b ?a" using fin by (simp add: previous fetching_flights)
  have "r \<notin> flights_at F b ?a" using new by (simp add: flights_at_def)
  then have one_more: "count_of (flights_at ?F b ?a) = Some (previous + 1)"
    using fin by (simp add: count_of_def previous)
  have others: "flights_at ?F b' a = flights_at F b' a" if "(b', a) \<noteq> (b, ?a)" for b' a using that by auto
  have used: "rows_are facts (ft_used st) (\<lambda>d b. base d b + load facts d (fetching F b))"
    using tables by (simp add: fit_tables_def)
  have "\<exists>U'. (if previous = 0 then use_bytes (ft_used st) ?d (b + 1) (fc_alias_sizes facts ! ?a) else Inr (ft_used st)) = Inr U'
      \<and> rows_are facts U' (\<lambda>d b. base d b + load facts d (fetching ?F b))"
  proof (cases "previous = 0")
    case True
    have "fetching ?F b ?a" by (auto simp: fetching_def)
    then have "fc_alias_sizes facts ! ?a
        = fc_alias_sizes facts ! ?a * (of_bool (fetching ?F b ?a) - of_bool (fetching F b ?a))"
      using True none by simp
    from rows_are_fetching [OF used r b wf others this] True show ?thesis by simp
  next
    case False
    have "fetching ?F b' a = fetching F b' a" for b' a using False none by (auto simp: fetching_def)
    then have "fetching ?F b' = fetching F b'" for b' by blast
    with False used show ?thesis by simp
  qed
  then obtain U' where U': "(if previous = 0 then use_bytes (ft_used st) ?d (b + 1) (fc_alias_sizes facts ! ?a)
      else Inr (ft_used st)) = Inr U'" "rows_are facts U' (\<lambda>d b. base d b + load facts d (fetching ?F b))" by blast
  let ?A = "(ft_active st)(?d \<mapsto> rows[nat b := rows ! nat b @ [r]])"
  let ?C = "(ft_counts st)(?d \<mapsto> counts[nat b := (counts ! nat b)(?a \<mapsto> previous + 1)])"
  have "r \<notin> set (rows ! nat b)" using rows(4) new by simp
  then have "add_active_at facts plan r st b = Inr (st\<lparr>ft_active := ?A, ft_counts := ?C, ft_used := U'\<rparr>)"
    using absent rows(1,2) counts(1,2) U'(1) by (simp add: add_active_at_def Let_def flip: previous_def)
  moreover have "active_rows facts ?F ?A"
  proof (rule active_rows_set [where facts = facts and A = "ft_active st" and r = r and F = F, OF _ b rows(1) d])
    show "active_rows facts F (ft_active st)" using tables by (simp add: fit_tables_def)
    show "distinct (rows ! nat b @ [r])" using rows(3) \<open>r \<notin> set (rows ! nat b)\<close> by simp
  qed (use rows(4) in auto)
  moreover have "count_rows facts ?F ?C"
  proof (rule count_rows_set [where facts = facts and C = "ft_counts st" and r = r and F = F, OF _ b counts(1) d _ others])
    show "count_rows facts F (ft_counts st)" using tables by (simp add: fit_tables_def)
  qed (simp add: one_more del: flights_at_insert)
  ultimately show ?thesis
    using U'(2) fin by (intro exI [of _ "st\<lparr>ft_active := ?A, ft_counts := ?C, ft_used := U'\<rparr>"]) (simp add: fit_tables_def)
qed

lemma move_active_at_result:
  assumes wf: "wf_facts facts" and tables: "fit_tables facts base F st" and r: "rl_alias r < alias_count facts"
    and b: "0 \<le> b" "b \<le> last_boundary facts" and old: "(r, b) \<in> F"
    and absent: "\<not> plan_resident plan (rl_alias r) b"
  shows "\<exists>st'. move_active_at facts plan r st b = Inr st' \<and> ft_result st' = ft_result st
    \<and> fit_tables facts base (F - {(r, b)}) st'"
proof -
  let ?d = "device_of facts r" and ?F = "F - {(r, b)}" and ?a = "rl_alias r"
  note d = alias_device [OF wf r]
  from fit_lookup [OF tables d b] obtain rows counts where
    rows: "ft_active st ?d = Some rows" "py_nth rows b = Inr (rows ! nat b)" "distinct (rows ! nat b)"
    "set (rows ! nat b) = {r. (r, b) \<in> F \<and> device_of facts r = ?d}"
    and counts: "ft_counts st ?d = Some counts" "py_nth counts b = Inr (counts ! nat b)"
    "(counts ! nat b) ?a = count_of (flights_at F b ?a)" by blast
  have fin: "finite F" using tables by (simp add: fit_tables_def)
  have mem: "r \<in> flights_at F b ?a" using old by (simp add: flights_at_def)
  define n where "n = int (card (flights_at F b ?a))"
  have n: "(counts ! nat b) ?a = Some n" using mem unfolding counts(3) count_of_def n_def by auto
  have left: "int (card (flights_at F b ?a - {r})) = n - 1"
    using mem fin card_gt_0_iff [of "flights_at F b ?a"] by (auto simp: n_def of_nat_diff)
  have none: "n - 1 = 0 \<longleftrightarrow> \<not> fetching ?F b ?a" using fin by (auto simp: fetching_flights simp flip: left)
  have slot: "(if n - 1 = 0 then (counts ! nat b)(?a := None) else (counts ! nat b)(?a \<mapsto> n - 1))
      = (counts ! nat b)(?a := count_of (flights_at ?F b ?a))"
    using none left by (auto simp: count_of_def fetching_flights)
  have others: "flights_at ?F b' a = flights_at F b' a" if "(b', a) \<noteq> (b, ?a)" for b' a using that by auto
  have used: "rows_are facts (ft_used st) (\<lambda>d b. base d b + load facts d (fetching F b))"
    using tables by (simp add: fit_tables_def)
  have "fetching F b ?a" using old by (auto simp: fetching_def)
  have "\<exists>U'. (if n - 1 = 0 then use_bytes (ft_used st) ?d (b + 1) (- (fc_alias_sizes facts ! ?a)) else Inr (ft_used st)) = Inr U'
      \<and> rows_are facts U' (\<lambda>d b. base d b + load facts d (fetching ?F b))"
  proof (cases "n - 1 = 0")
    case True
    then have "- (fc_alias_sizes facts ! ?a)
        = fc_alias_sizes facts ! ?a * (of_bool (fetching ?F b ?a) - of_bool (fetching F b ?a))"
      using none \<open>fetching F b ?a\<close> by simp
    from rows_are_fetching [OF used r b wf others this] True show ?thesis by simp
  next
    case False
    have "fetching ?F b' a = fetching F b' a" for b' a
      using False none others [of b' a] \<open>fetching F b ?a\<close> by (cases "(b', a) = (b, ?a)") (auto simp: fetching_flights)
    then have "fetching ?F b' = fetching F b'" for b' by blast
    with False used show ?thesis by simp
  qed
  then obtain U' where U': "(if n - 1 = 0 then use_bytes (ft_used st) ?d (b + 1) (- (fc_alias_sizes facts ! ?a))
      else Inr (ft_used st)) = Inr U'" "rows_are facts U' (\<lambda>d b. base d b + load facts d (fetching ?F b))" by blast
  let ?A = "(ft_active st)(?d \<mapsto> rows[nat b := remove1 r (rows ! nat b)])"
  let ?C = "(ft_counts st)(?d \<mapsto> counts[nat b :=
    (if n - 1 = 0 then (counts ! nat b)(?a := None) else (counts ! nat b)(?a \<mapsto> n - 1))])"
  have "r \<in> set (rows ! nat b)" using rows(4) old by simp
  then have "move_active_at facts plan r st b = Inr (st\<lparr>ft_active := ?A, ft_counts := ?C, ft_used := U'\<rparr>)"
    using absent rows(1,2) counts(1,2) U'(1) n unfolding move_active_at_def Let_def by simp
  moreover have "active_rows facts ?F ?A"
  proof (rule active_rows_set [where facts = facts and A = "ft_active st" and r = r and F = F, OF _ b rows(1) d])
    show "active_rows facts F (ft_active st)" using tables by (simp add: fit_tables_def)
  qed (use rows(3,4) in auto)
  moreover have "count_rows facts ?F ?C"
  proof (rule count_rows_set [where facts = facts and C = "ft_counts st" and r = r and F = F, OF _ b counts(1) d slot others])
    show "count_rows facts F (ft_counts st)" using tables by (simp add: fit_tables_def)
  qed
  ultimately show ?thesis
    using U'(2) fin by (intro exI [of _ "st\<lparr>ft_active := ?A, ft_counts := ?C, ft_used := U'\<rparr>"]) (simp add: fit_tables_def)
qed

text \<open>A whole fetch enters the tables, and part of one leaves them.\<close>

definition flight :: "residency_plan \<Rightarrow> reload \<Rightarrow> int set \<Rightarrow> (reload \<times> int) set" where
  "flight plan r B = {(r, b) |b. b \<in> B \<and> \<not> plan_resident plan (rl_alias r) b}"

lemma flight_simps [simp]:
  "flight plan r {} = {}"
  "flight plan r (insert b B) = (if plan_resident plan (rl_alias r) b then flight plan r B
     else insert (r, b) (flight plan r B))"
  "flight plan r (B \<union> B') = flight plan r B \<union> flight plan r B'"
  by (auto simp: flight_def)

lemma in_flight_iff [simp]: "(r', b) \<in> flight plan r B \<longleftrightarrow> r' = r \<and> b \<in> B \<and> \<not> plan_resident plan (rl_alias r) b"
  by (auto simp: flight_def)

lemma add_active_result:
  assumes wf: "wf_facts facts" and tables: "fit_tables facts base F st" and w: "window facts r"
    and new: "\<And>b. (r, b) \<notin> F"
  shows "\<exists>st'. add_active facts plan st (r, t) = Inr st' \<and> ft_result st' = ft_result st
    \<and> fit_tables facts base (F \<union> flight plan r {max t 0..<rl_entry_boundary r}) st'"
proof -
  let ?bs = "[max t 0..rl_entry_boundary r - 1]"
  have "\<exists>st'. foldE (add_active_at facts plan r) st ?bs = Inr st' \<and> ft_result st' = ft_result st
      \<and> fit_tables facts base (F \<union> flight plan r (set ?bs)) st'"
  proof (rule foldE_total [where P = "\<lambda>ys st'. ft_result st' = ft_result st
      \<and> fit_tables facts base (F \<union> flight plan r (set ys)) st'"])
    fix ys b zs st'
    assume inv: "ft_result st' = ft_result st \<and> fit_tables facts base (F \<union> flight plan r (set ys)) st'"
      and split: "?bs = ys @ b # zs"
    have mem: "b \<in> set ?bs" unfolding split by simp
    have dist: "distinct ?bs" by simp
    show "\<exists>st''. add_active_at facts plan r st' b = Inr st'' \<and> ft_result st'' = ft_result st
        \<and> fit_tables facts base (F \<union> flight plan r (set (ys @ [b]))) st''"
    proof (cases "plan_resident plan (rl_alias r) b")
      case True
      then show ?thesis using inv by (simp add: add_active_at_def Let_def)
    next
      case False
      have "0 \<le> b" "b \<le> last_boundary facts" "rl_alias r < alias_count facts"
        using mem w by (auto simp: window_def)
      moreover have "(r, b) \<notin> F \<union> flight plan r (set ys)" using new dist unfolding split by simp
      ultimately show ?thesis
        using add_active_at_result [OF wf inv [THEN conjunct2]] False inv by fastforce
    qed
  qed (use tables in simp)
  moreover have "set ?bs = {max t 0..<rl_entry_boundary r}" by auto
  ultimately show ?thesis by (simp add: add_active_def)
qed

lemma move_active_result:
  assumes wf: "wf_facts facts" and tables: "fit_tables facts base F st" and r: "rl_alias r < alias_count facts"
    and there: "\<And>b. max old 0 \<le> b \<Longrightarrow> b < max new 0 \<Longrightarrow> \<not> plan_resident plan (rl_alias r) b \<Longrightarrow>
      (r, b) \<in> F \<and> b \<le> last_boundary facts"
  shows "\<exists>st'. move_active facts plan r old new st = Inr st' \<and> ft_result st' = ft_result st
    \<and> fit_tables facts base (F - flight plan r {max old 0..<max new 0}) st'"
proof -
  let ?bs = "[max old 0..max new 0 - 1]"
  have "\<exists>st'. foldE (move_active_at facts plan r) st ?bs = Inr st' \<and> ft_result st' = ft_result st
      \<and> fit_tables facts base (F - flight plan r (set ?bs)) st'"
  proof (rule foldE_total [where P = "\<lambda>ys st'. ft_result st' = ft_result st
      \<and> fit_tables facts base (F - flight plan r (set ys)) st'"])
    fix ys b zs st'
    assume inv: "ft_result st' = ft_result st \<and> fit_tables facts base (F - flight plan r (set ys)) st'"
      and split: "?bs = ys @ b # zs"
    have mem: "b \<in> set ?bs" unfolding split by simp
    have dist: "distinct ?bs" by simp
    show "\<exists>st''. move_active_at facts plan r st' b = Inr st'' \<and> ft_result st'' = ft_result st
        \<and> fit_tables facts base (F - flight plan r (set (ys @ [b]))) st''"
    proof (cases "plan_resident plan (rl_alias r) b")
      case True
      then show ?thesis using inv by (simp add: move_active_at_def Let_def)
    next
      case False
      have b: "0 \<le> b" "max old 0 \<le> b" "b < max new 0" using mem by auto
      note here = there [OF b(2,3) False]
      have "(r, b) \<in> F - flight plan r (set ys)" using here dist unfolding split by simp
      moreover have "F - flight plan r (set (ys @ [b])) = F - flight plan r (set ys) - {(r, b)}"
        using False by auto
      ultimately show ?thesis
        using move_active_at_result [OF wf inv [THEN conjunct2] r b(1)] here False inv by fastforce
    qed
  qed (use tables in simp)
  moreover have "set ?bs = {max old 0..<max new 0}" by auto
  ultimately show ?thesis by (simp add: move_active_def)
qed

lemma in_flight_update:
  "in_flight plan (T(r \<mapsto> t)) = (in_flight plan T - {r} \<times> UNIV) \<union> flight plan r {max t 0..<rl_entry_boundary r}"
  by (auto simp: in_flight_def split: if_splits)

lemma dict_of_devices: "d \<in> fact_devices facts \<Longrightarrow>
  dict_of (map (\<lambda>d. (d, v)) (map fst (fc_object_capacity_by_device facts))) d = Some v"
  using dict_of_const [of d "fc_object_capacity_by_device facts" v] by (simp add: comp_def case_prod_unfold)

lemma fit_start_result:
  assumes wf: "wf_facts facts" and shape: "plan_shape facts plan"
    and sel: "triggers_of R selected" and wins: "\<forall>r \<in> R. window facts r"
    and base: "pressure_by_device facts plan h = Inr P" "rows_are facts P base"
  shows "\<exists>st. fit_start facts plan selected h = Inr st \<and> ft_result st = selected
    \<and> fit_tables facts base (in_flight plan (map_of selected)) st"
proof -
  let ?devices = "map fst (fc_object_capacity_by_device facts)"
  let ?st = "\<lparr>ft_result = selected, ft_active = dict_of (map (\<lambda>d. (d, replicate (task_total facts) [])) ?devices),
    ft_counts = dict_of (map (\<lambda>d. (d, replicate (task_total facts) Map.empty)) ?devices), ft_used = P\<rparr>"
  have "active_rows facts {} (ft_active ?st)" "count_rows facts {} (ft_counts ?st)"
    unfolding active_rows_def count_rows_def by (simp_all add: dict_of_devices flights_at_def count_of_def del: map_map)
  then have start: "fit_tables facts base {} ?st"
    using base(2) by (simp add: fit_tables_def fetching_def [abs_def])
  have dist: "distinct (map fst selected)" and R: "fst ` set selected = R" using sel by (auto simp: triggers_of_def)
  have "\<exists>st. foldE (add_active facts plan) ?st selected = Inr st \<and> ft_result st = selected
      \<and> fit_tables facts base (in_flight plan (map_of selected)) st"
  proof (rule foldE_total [where P = "\<lambda>ys st. ft_result st = selected
      \<and> fit_tables facts base (in_flight plan (map_of ys)) st"])
    show "ft_result ?st = selected \<and> fit_tables facts base (in_flight plan (map_of [])) ?st"
      using start by (simp add: in_flight_def)
    fix ys x zs st
    assume inv: "ft_result st = selected \<and> fit_tables facts base (in_flight plan (map_of ys)) st"
      and split: "selected = ys @ x # zs"
    obtain r t where x: "x = (r, t)" by (cases x)
    have w: "window facts r" using wins R by (force simp: split x)
    have fresh: "r \<notin> fst ` set ys" using dist by (force simp: split x)
    then have none: "map_of ys r = None" by (simp add: map_of_eq_None_iff)
    then have new: "(r, b) \<notin> in_flight plan (map_of ys)" for b by (simp add: in_flight_def)
    have "map_of (ys @ [x]) = (map_of ys)(r \<mapsto> t)" using none by (auto simp: x map_add_def split: option.split)
    then have "in_flight plan (map_of (ys @ [x]))
        = in_flight plan (map_of ys) \<union> flight plan r {max t 0..<rl_entry_boundary r}"
      using new by (auto simp: in_flight_update)
    with add_active_result [OF wf inv [THEN conjunct2] w new, of plan t] inv
    show "\<exists>st'. add_active facts plan st x = Inr st' \<and> ft_result st' = selected
        \<and> fit_tables facts base (in_flight plan (map_of (ys @ [x]))) st'" by (simp add: x)
  qed
  then show ?thesis using base(1) by (simp add: fit_start_def Let_def)
qed


section \<open>One move\<close>

definition fit_inv ::
    "planning_facts \<Rightarrow> residency_plan \<Rightarrow> (string \<Rightarrow> int \<Rightarrow> int) \<Rightarrow> reload set \<Rightarrow> fit_state \<Rightarrow> bool" where
  "fit_inv facts plan base R st \<longleftrightarrow> triggers_of R (ft_result st)
     \<and> fit_tables facts base (in_flight plan (map_of (ft_result st))) st"

definition charged_with ::
    "planning_facts \<Rightarrow> residency_plan \<Rightarrow> (string \<Rightarrow> int \<Rightarrow> int) \<Rightarrow> triggers \<Rightarrow> string \<Rightarrow> int \<Rightarrow> int" where
  "charged_with facts plan base T d b = base d b + load facts d (fetching (in_flight plan (map_of T)) b)"

definition movable :: "planning_facts \<Rightarrow> residency_plan \<Rightarrow> (string \<Rightarrow> int \<Rightarrow> int) \<Rightarrow> triggers \<Rightarrow> string \<Rightarrow> int \<Rightarrow> reload set" where
  "movable facts plan base T d b = (if charged_with facts plan base T d b \<le> capacity_at facts d b then {}
     else {r. (r, b) \<in> in_flight plan (map_of T) \<and> device_of facts r = d \<and> the (map_of T r) < rl_latest_trigger r})"

text \<open>No boundary over capacity has a fetch in flight that could be triggered later.\<close>

definition settled :: "planning_facts \<Rightarrow> residency_plan \<Rightarrow> (string \<Rightarrow> int \<Rightarrow> int) \<Rightarrow> triggers \<Rightarrow> bool" where
  "settled facts plan base T \<longleftrightarrow>
     (\<forall>d \<in> fact_devices facts. \<forall>b. 0 \<le> b \<longrightarrow> b \<le> last_boundary facts \<longrightarrow> movable facts plan base T d b = {})"

lemma movable_at_result:
  assumes wf: "wf_facts facts" and inv: "fit_inv facts plan base R st"
    and d: "d \<in> fact_devices facts" and b: "0 \<le> b" "b \<le> last_boundary facts"
  shows "\<exists>rs. movable_at facts st (d, b) = Inr rs \<and> set rs = movable facts plan base (ft_result st) d b"
proof -
  let ?T = "ft_result st" and ?F = "in_flight plan (map_of (ft_result st))"
  have b': "- 1 \<le> b" using b by simp
  from inv have tables: "fit_tables facts base ?F st" by (simp add: fit_inv_def)
  have site: "site facts d b" using d b by simp
  from wf d obtain capacities where capacities: "fc_object_capacity_by_boundary facts d = Some capacities"
    by (auto simp: wf_facts_def wf_devices_def)
  have capacity: "py_nth capacities (b + 1) = Inr (capacity_at facts d b)"
    using strategy_object_capacity_at [OF wf site] capacities by (simp add: strategy_object_capacity_def)
  from tables have "rows_are facts (ft_used st) (\<lambda>d b. base d b + load facts d (fetching ?F b))"
    by (simp add: fit_tables_def)
  from rows_are_lookup [OF this d b' b(2)] obtain row where row: "dict_get (ft_used st) d = Inr row"
    "py_nth row (b + 1) = Inr (charged_with facts plan base ?T d b)" by (auto simp: charged_with_def)
  from fit_lookup [OF tables d b] obtain rows where rows: "ft_active st d = Some rows"
    "py_nth rows b = Inr (rows ! nat b)" "set (rows ! nat b) = {r. (r, b) \<in> ?F \<and> device_of facts r = d}" by blast
  have placed: "mapE (\<lambda>r. bindE (dict_get (map_of ?T) r) (\<lambda>t. Inr (r, t))) (rows ! nat b)
      = Inr (map (\<lambda>r. (r, the (map_of ?T r))) (rows ! nat b))"
  proof (rule mapE_Inr_all)
    fix r
    assume "r \<in> set (rows ! nat b)"
    then have "(r, b) \<in> ?F" using rows(3) by blast
    then show "bindE (dict_get (map_of ?T) r) (\<lambda>t. Inr (r, t)) = Inr (r, the (map_of ?T r))"
      by (auto simp: in_flight_def)
  qed
  have got: "dict_get (fc_object_capacity_by_boundary facts) d = Inr capacities" "dict_get (ft_active st) d = Inr rows"
    using capacities rows(1) by simp_all
  have "movable_at facts st (d, b) = (if charged_with facts plan base ?T d b \<le> capacity_at facts d b then Inr []
      else Inr (map fst (filter (\<lambda>(r, t). t < rl_latest_trigger r)
        (map (\<lambda>r. (r, the (map_of ?T r))) (rows ! nat b)))))"
    unfolding movable_at_def prod.case got capacity row rows(2) bindE_simps placed ..
  moreover have "set (map fst (filter (\<lambda>(r, t). t < rl_latest_trigger r)
        (map (\<lambda>r. (r, the (map_of ?T r))) (rows ! nat b))))
      = {r. (r, b) \<in> ?F \<and> device_of facts r = d \<and> the (map_of ?T r) < rl_latest_trigger r}"
    using rows(3) by (simp add: filter_map comp_def)
  ultimately show ?thesis by (simp add: movable_def)
qed

lemma max_by_member: "max_by key best xs \<in> insert best (set xs)"
  by (induction xs arbitrary: best) (auto split: if_splits)

lemma first_move_result:
  assumes wf: "wf_facts facts" and inv: "fit_inv facts plan base R st"
    and "\<forall>(d, b) \<in> set sites. d \<in> fact_devices facts \<and> 0 \<le> b \<and> b \<le> last_boundary facts"
  shows "(first_move facts st sites = Inr None
       \<and> (\<forall>(d, b) \<in> set sites. movable facts plan base (ft_result st) d b = {}))
    \<or> (\<exists>d b r. (d, b) \<in> set sites \<and> first_move facts st sites = Inr (Some (b, r))
       \<and> r \<in> movable facts plan base (ft_result st) d b)"
  using assms(3)
proof (induction sites)
  case (Cons x sites)
  obtain d b where x: "x = (d, b)" by (cases x)
  with Cons.prems have "d \<in> fact_devices facts" "0 \<le> b" "b \<le> last_boundary facts" by auto
  from movable_at_result [OF wf inv this] obtain rs where
    rs: "movable_at facts st (d, b) = Inr rs" "set rs = movable facts plan base (ft_result st) d b" by blast
  show ?case
  proof (cases rs)
    case Nil
    then have "first_move facts st (x # sites) = first_move facts st sites"
      "movable facts plan base (ft_result st) d b = {}" using rs by (simp_all add: x)
    with Cons show ?thesis by (auto simp: x)
  next
    case (Cons r rest)
    let ?key = "\<lambda>r. (rl_entry_boundary r, fc_alias_sizes facts ! rl_alias r, rl_alias r)"
    have "first_move facts st (x # sites) = Inr (Some (b, max_by ?key r rest))"
      using rs(1) Cons by (simp add: x)
    moreover have "max_by ?key r rest \<in> movable facts plan base (ft_result st) d b"
      using max_by_member [of ?key r rest] rs(2) Cons by auto
    ultimately show ?thesis by (auto simp: x)
  qed
qed simp

text \<open>The plan keeps the alias of a reload resident from its entry to its latest trigger.\<close>

definition held_after_entry :: "residency_plan \<Rightarrow> reload \<Rightarrow> bool" where
  "held_after_entry plan r \<longleftrightarrow>
     (\<forall>b. rl_entry_boundary r \<le> b \<longrightarrow> b < rl_latest_trigger r \<longrightarrow> plan_resident plan (rl_alias r) b)"

definition slack_of :: "reload set \<Rightarrow> triggers \<Rightarrow> nat" where
  "slack_of R T = (\<Sum>r \<in> R. nat (rl_latest_trigger r - the (map_of T r)))"

definition delayed :: "reload set \<Rightarrow> triggers \<Rightarrow> triggers \<Rightarrow> bool" where
  "delayed R T T' \<longleftrightarrow> (\<forall>r \<in> R. the (map_of T r) \<le> the (map_of T' r))"

lemma fit_step_result:
  assumes wf: "wf_facts facts" and inv: "fit_inv facts plan base R st"
    and wins: "\<forall>r \<in> R. window facts r \<and> held_after_entry plan r"
  shows "(fit_step facts plan st = Inr None \<and> settled facts plan base (ft_result st))
    \<or> (\<exists>st'. fit_step facts plan st = Inr (Some st') \<and> fit_inv facts plan base R st'
       \<and> slack_of R (ft_result st') < slack_of R (ft_result st) \<and> delayed R (ft_result st) (ft_result st'))"
proof -
  let ?sites = "List.product (map fst (fc_object_capacity_by_device facts)) [0..last_boundary facts]"
  let ?T = "ft_result st"
  have sites: "\<forall>(d, b) \<in> set ?sites. d \<in> fact_devices facts \<and> 0 \<le> b \<and> b \<le> last_boundary facts" by auto
  from first_move_result [OF wf inv sites] consider
      (none) "first_move facts st ?sites = Inr None"
        "\<forall>(d, b) \<in> set ?sites. movable facts plan base ?T d b = {}"
    | (some) d b r where "(d, b) \<in> set ?sites" "first_move facts st ?sites = Inr (Some (b, r))"
        "r \<in> movable facts plan base ?T d b" by blast
  then show ?thesis
  proof cases
    case none
    then have "settled facts plan base ?T" unfolding settled_def by fastforce
    with none(1) show ?thesis by (simp add: fit_step_def)
  next
    case (some d b r)
    from some(3) have mov: "(r, b) \<in> in_flight plan (map_of ?T)" "the (map_of ?T r) < rl_latest_trigger r"
      by (auto simp: movable_def split: if_splits)
    then obtain old where old: "map_of ?T r = Some old" "max old 0 \<le> b" "b < rl_entry_boundary r"
      "old < rl_latest_trigger r" by (auto simp: in_flight_def)
    from inv have trig: "triggers_of R ?T" and tables: "fit_tables facts base (in_flight plan (map_of ?T)) st"
      by (simp_all add: fit_inv_def)
    have r: "r \<in> R" using old(1) trig by (force simp: triggers_of_def dest: map_of_SomeD)
    with wins have w: "window facts r" and held: "held_after_entry plan r" by auto
    define new where "new = min (b + 1) (rl_latest_trigger r)"
    let ?T' = "AList.update r new ?T"
    have "rl_earliest_trigger r \<le> old" using trig old(1) by (auto simp: triggers_of_def within_windows_def)
    then have bounds: "old < new" "rl_earliest_trigger r \<le> new" "new \<le> rl_latest_trigger r"
      using old w by (auto simp: new_def window_def)
    have map': "map_of ?T' = (map_of ?T)(r \<mapsto> new)" by (simp add: update_conv')
    have trig': "triggers_of R ?T'" using triggers_of_update [OF trig bounds(2,3)] r by (simp add: insert_absorb)
    have flights: "in_flight plan (map_of ?T) - flight plan r {max old 0..<max new 0} = in_flight plan (map_of ?T')"
      unfolding map' in_flight_update using old(1) bounds(1) by (auto simp: in_flight_def)
    have there: "(r, b') \<in> in_flight plan (map_of ?T) \<and> b' \<le> last_boundary facts"
      if "max old 0 \<le> b'" "b' < max new 0" "\<not> plan_resident plan (rl_alias r) b'" for b'
    proof -
      have late: "b' < rl_latest_trigger r" using that bounds(3) w by (auto simp: window_def)
      then have "b' < rl_entry_boundary r" using held that(3) unfolding held_after_entry_def by (meson not_le)
      with late show ?thesis using that old(1) w by (auto simp: in_flight_def window_def)
    qed
    have "fit_tables facts base (in_flight plan (map_of ?T)) (st\<lparr>ft_result := ?T'\<rparr>)"
      using tables by (simp add: fit_tables_def)
    moreover have "rl_alias r < alias_count facts" using w by (simp add: window_def)
    ultimately have "\<exists>st'. move_active facts plan r old new (st\<lparr>ft_result := ?T'\<rparr>) = Inr st' \<and> ft_result st' = ?T'
        \<and> fit_tables facts base (in_flight plan (map_of ?T')) st'"
      using move_active_result [where plan = plan and old = old and new = new, OF wf _ _ there] flights by fastforce
    then obtain st' where
      st': "move_active facts plan r old new (st\<lparr>ft_result := ?T'\<rparr>) = Inr st'" "ft_result st' = ?T'"
      "fit_tables facts base (in_flight plan (map_of ?T')) st'" by blast
    have "fit_step facts plan st = Inr (Some st')"
      using some(2) old(1) st'(1) by (simp add: fit_step_def new_def Let_def)
    moreover have "fit_inv facts plan base R st'" using st' trig' by (simp add: fit_inv_def)
    moreover have "slack_of R ?T' < slack_of R ?T"
      unfolding slack_of_def
    proof (rule sum_strict_mono_ex1)
      show "finite R" using trig by (auto simp: triggers_of_def)
      show "\<forall>x \<in> R. nat (rl_latest_trigger x - the (map_of ?T' x)) \<le> nat (rl_latest_trigger x - the (map_of ?T x))"
        using old bounds by (auto simp: map')
      show "\<exists>x \<in> R. nat (rl_latest_trigger x - the (map_of ?T' x)) < nat (rl_latest_trigger x - the (map_of ?T x))"
        using old bounds r by (intro bexI [of _ r]) (auto simp: map')
    qed
    moreover have "delayed R ?T ?T'" using old bounds by (auto simp: delayed_def map')
    ultimately show ?thesis using st'(2) by auto
  qed
qed


section \<open>The loop\<close>

lemma fit_loop_result:
  assumes wf: "wf_facts facts" and inv: "fit_inv facts plan base R st"
    and wins: "\<forall>r \<in> R. window facts r \<and> held_after_entry plan r"
  shows "\<exists>T. fit_loop facts plan st = Some (Inr T) \<and> triggers_of R T \<and> delayed R (ft_result st) T
    \<and> settled facts plan base T"
  using inv
proof (induction "slack_of R (ft_result st)" arbitrary: st rule: less_induct)
  case less
  from fit_step_result [OF wf less.prems wins] show ?case
  proof (elim disjE exE conjE)
    assume "fit_step facts plan st = Inr None" "settled facts plan base (ft_result st)"
    then show ?thesis
      using less.prems by (subst fit_loop.simps) (simp add: fit_inv_def delayed_def)
  next
    fix st'
    assume st': "fit_step facts plan st = Inr (Some st')" "fit_inv facts plan base R st'"
      "slack_of R (ft_result st') < slack_of R (ft_result st)" "delayed R (ft_result st) (ft_result st')"
    from less.hyps [OF st'(3,2)] obtain T where
      "fit_loop facts plan st' = Some (Inr T)" "triggers_of R T" "delayed R (ft_result st') T"
      "settled facts plan base T" by blast
    moreover from this(3) st'(4) have "delayed R (ft_result st) T" unfolding delayed_def by fastforce
    ultimately show ?thesis using st'(1) by (subst fit_loop.simps) simp
  qed
qed

lemma fit_clamped_triggers_result:
  assumes wf: "wf_facts facts" and shape: "plan_shape facts plan" and sel: "triggers_of R selected"
    and wins: "\<forall>r \<in> R. window facts r \<and> held_after_entry plan r"
  shows "\<exists>P base T. pressure_by_device facts plan h = Inr P \<and> rows_are facts P base
    \<and> fit_clamped_triggers facts plan selected h = Some (Inr T) \<and> triggers_of R T \<and> delayed R selected T
    \<and> settled facts plan base T"
proof -
  from pressure_by_device_total [OF wf shape, of h] obtain P base where
    base: "pressure_by_device facts plan h = Inr P" "rows_are facts P base" by blast
  from fit_start_result [OF wf shape sel _ base] wins obtain st where
    st: "fit_start facts plan selected h = Inr st" "ft_result st = selected"
    "fit_tables facts base (in_flight plan (map_of selected)) st" by blast
  then have "fit_inv facts plan base R st" using sel by (simp add: fit_inv_def)
  from fit_loop_result [OF wf this wins] st obtain T where
    "fit_loop facts plan st = Some (Inr T)" "triggers_of R T" "delayed R selected T" "settled facts plan base T" by auto
  with st(1) base show ?thesis by (auto simp: fit_clamped_triggers_def)
qed

lemma choose_fetch_triggers_result:
  assumes wf: "wf_facts facts" and rated: "rated facts config" and shape: "plan_shape facts plan"
    and wins: "\<forall>r \<in> set reloads. window facts r \<and> held_after_entry plan r"
  shows "\<exists>T. choose_fetch_triggers facts config plan reloads rule h = Some (Inr T) \<and> triggers_of (set reloads) T"
proof -
  have win: "\<forall>r \<in> set reloads. window facts r" using wins by blast
  from packed_triggers_total [OF wf rated win] obtain selected where
    packed: "packed_triggers facts config reloads = Inr selected" "triggers_of (set reloads) selected" by blast
  show ?thesis
    using demand_triggers [OF win] latest_safe_total [OF wf rated win] packed
      fit_clamped_triggers_result [OF wf shape packed(2) wins, of h]
    by (auto simp: choose_fetch_triggers_def)
qed

end
