(* ===== verification/PressureFit_Properties.thy ===== *)
theory PressureFit_Properties
  imports PressureFit_Reduction Simulator_Example
begin

text \<open>
  What the pressure reduction of PressureFit promises on the facts of a valid program and
  configuration, each property with a run evaluated in the kernel: the weights of
  \<^verbatim>\<open>sample_program\<close> stay on the device from start to end and must leave in between.
\<close>

section \<open>From the planner's inputs\<close>

lemma build_facts_rated:
  assumes "build_facts program selections initial_residency final_residency config = Inr facts"
    and "valid_config config"
  shows "rated facts config"
  using assms(1)
proof (rule build_factsE)
  assume "fc_object_capacity_by_device facts = map (\<lambda>d. (dc_device_id d, dc_capacity_bytes d)) (sc_devices config)"
  then show "rated facts config"
    using valid_config_facts(3) [OF assms(2)] by (auto simp: rated_def rates_positive_def config_rates_def)
qed

lemma build_facts_wf:
  assumes "build_facts program selections initial_residency final_residency config = Inr facts"
    and "valid_program program" "valid_config config"
  shows "wf_facts facts"
  using assms by (rule build_facts_sound)

lemma reduce_seed_result:
  assumes "build_facts program selections initial_residency final_residency config = Inr facts"
    and "valid_program program" "valid_config config"
  obtains r where "reduction_ok facts strategy additions (seed_residency facts) r"
    and "\<And>cache. cache_ok facts config cache \<Longrightarrow> \<exists>cache'. cache_ok facts config cache'
      \<and> (cache = None \<longrightarrow> cache' = None)
      \<and> reduce_pressure facts config (seed_residency facts) strategy additions cache
        = Some (reduction_result r cache')"
proof -
  note wf = build_facts_wf [OF assms]
  show thesis
    using reduce_pressure_result [OF wf build_facts_rated [OF assms(1,3)] seed_residency_ok [OF wf],
        of strategy additions] that by metis
qed

lemma map_sum_Inr: "map_sum f g x = Inr y \<longleftrightarrow> (\<exists>z. x = Inr z \<and> g z = y)"
  by (cases x) auto

definition example_facts :: "(plan_error + planning_facts)" where
  "example_facts = build_facts sample_program (sample_choice ''save'') [stays ''w'' DEVICE] [stays ''w'' DEVICE]
     example_config"

definition spans_of :: "residency_plan \<Rightarrow> (int \<times> int) list list" where
  "spans_of plan = map (map span_key) (rp_spans plan)"

lemma example_facts_eval:
  "(case example_facts of Inl _ \<Rightarrow> False
     | Inr facts \<Rightarrow> fc_anchors facts = [{- 1, 1}, {0}, {1}] \<and> fc_alias_ids facts = [''w'', ''a'', ''g'']
         \<and> fc_alias_sizes facts = [8, 4, 4] \<and> length (fc_tasks facts) = 2
         \<and> map fst (fc_object_capacity_by_device facts) = [''gpu'']
         \<and> fc_object_capacity_by_boundary facts ''gpu'' = Some [12, 12, 12]
         \<and> map (\<lambda>b. boundary_bytes facts (seed_residency facts) b ''gpu'' False) [- 1..1] = [12, 16, 8]
         \<and> assert_required_floor facts = Inr ()
         \<and> map_option (map_sum id (\<lambda>(plan, _). spans_of plan))
             (reduce_pressure facts example_config (seed_residency facts) ''min-stall'' (\<lambda>_. None) None)
           = Some (Inr [[(- 1, - 1), (1, 1)], [(0, 0)], [(1, 1)]]))"
  by code_simp


lemma example_planned:
  obtains facts plan cache where "example_facts = Inr facts"
    "build_facts sample_program (sample_choice ''save'') [stays ''w'' DEVICE] [stays ''w'' DEVICE]
       example_config = Inr facts"
    "fc_anchors facts = [{- 1, 1}, {0}, {1}]" "length (fc_alias_ids facts) = 3" "length (fc_tasks facts) = 2"
    "map fst (fc_object_capacity_by_device facts) = [''gpu'']"
    "fc_object_capacity_by_boundary facts ''gpu'' = Some [12, 12, 12]"
    "boundary_bytes facts (seed_residency facts) 0 ''gpu'' False = 16"
    "assert_required_floor facts = Inr ()"
    "reduce_pressure facts example_config (seed_residency facts) ''min-stall'' (\<lambda>_. None) None
       = Some (Inr (plan, cache))"
    "spans_of plan = [[(- 1, - 1), (1, 1)], [(0, 0)], [(1, 1)]]"
proof (cases example_facts)
  case (Inl e)
  from example_facts_eval [unfolded Inl sum.case] show thesis ..
next
  case (Inr facts)
  from example_facts_eval [unfolded Inr sum.case] have eval:
    "fc_anchors facts = [{- 1, 1}, {0}, {1}]" "fc_alias_ids facts = [''w'', ''a'', ''g'']"
    "length (fc_tasks facts) = 2" "map fst (fc_object_capacity_by_device facts) = [''gpu'']"
    "fc_object_capacity_by_boundary facts ''gpu'' = Some [12, 12, 12]"
    "assert_required_floor facts = Inr ()"
    and bytes: "map (\<lambda>b. boundary_bytes facts (seed_residency facts) b ''gpu'' False) [- 1..1] = [12, 16, 8]"
    and red: "map_option (map_sum id (\<lambda>(plan, _). spans_of plan))
      (reduce_pressure facts example_config (seed_residency facts) ''min-stall'' (\<lambda>_. None) None)
        = Some (Inr [[(- 1, - 1), (1, 1)], [(0, 0)], [(1, 1)]])" by blast+
  from red obtain plan cache where
    "reduce_pressure facts example_config (seed_residency facts) ''min-stall'' (\<lambda>_. None) None
      = Some (Inr (plan, cache))" "spans_of plan = [[(- 1, - 1), (1, 1)], [(0, 0)], [(1, 1)]]"
    by (auto simp: map_sum_Inr)
  moreover have "boundary_bytes facts (seed_residency facts) 0 ''gpu'' False = 16"
  proof -
    have "[- 1..1] = [- 1, 0, 1 :: int]" by code_simp
    then show ?thesis using bytes by simp
  qed
  moreover have "length (fc_alias_ids facts) = 3" by (simp add: eval(2))
  moreover have "example_facts = Inr facts" "build_facts sample_program (sample_choice ''save'')
      [stays ''w'' DEVICE] [stays ''w'' DEVICE] example_config = Inr facts"
    using Inr by (simp_all add: example_facts_def)
  ultimately show thesis using eval by (intro that)
qed

lemmas example_valid = sample_program_valid example_config_valid


section \<open>Properties of the reduction\<close>

text \<open>
  C7. A reduction that returns a plan fits every device at every boundary, counting what the
  caller reserves on top: no boundary of the plan needs more than the capacity left by the
  workspace of the task about to run. Every boundary at which an alias is needed is still
  resident, and nothing is resident outside the hull of those boundaries.
\<close>

theorem reduce_pressure_fits:
  assumes "build_facts program selections initial_residency final_residency config = Inr facts"
    and "valid_program program" "valid_config config" and "cache_ok facts config cache"
    and "reduce_pressure facts config (seed_residency facts) strategy additions cache = Some (Inr (plan, cache'))"
  shows "(\<forall>d \<in> set (map fst (fc_object_capacity_by_device facts)). \<forall>b \<in> {- 1..last_boundary facts}.
        plan_pressure facts (headroom strategy) plan d b + extra additions d b \<le> capacity_at facts d b
        \<and> (\<not> headroom strategy \<longrightarrow>
             boundary_bytes facts plan b d False + extra additions d b \<le> capacity_at facts d b))
    \<and> (\<forall>a < length (fc_alias_ids facts).
        (\<forall>b \<in> fc_anchors facts ! a. plan_resident plan a b)
        \<and> (\<forall>b. plan_resident plan a b \<longrightarrow> Min (fc_anchors facts ! a) \<le> b \<and> b \<le> Max (fc_anchors facts ! a)))"
proof -
  note wf = build_facts_wf [OF assms(1-3)]
  from reduce_seed_result [OF assms(1-3), of strategy additions] obtain r where
    r: "reduction_ok facts strategy additions (seed_residency facts) r"
    and run: "\<exists>cache'. reduce_pressure facts config (seed_residency facts) strategy additions cache
        = Some (reduction_result r cache')" using assms(4) by metis
  from run assms(5) have "r = Reduced plan" by (cases r) (auto simp: reduction_result_def)
  with r have plan: "plan_ok facts plan" "inside facts plan (seed_residency facts)"
    and fits: "fits facts (headroom strategy) additions plan" by (simp_all add: reduction_ok_def)
  have direct: "boundary_bytes facts plan b d False = plan_pressure facts False plan d b" if "- 1 \<le> b" for b d
    using plan(1) that
    by (intro boundary_bytes_pressure [OF wf plan_ok_shape])
      (auto simp: plan_ok_def spans_ok_def in_set_conv_nth intro!: ordered_disjoint)
  have len: "length (fc_anchors facts) = alias_count facts" using wf by (simp add: wf_facts_def wf_tables_def)
  have hull: "Min (fc_anchors facts ! a) \<le> b \<and> b \<le> Max (fc_anchors facts ! a)"
    if "a < alias_count facts" "covers (rp_spans plan ! a) b" for a b
  proof -
    have "covers (rp_spans (seed_residency facts) ! a) b" using plan(2) that by (simp add: inside_def)
    then show ?thesis
      using that(1) len by (auto simp: seed_residency_def seed_from_anchors_def seed_span_def span_contains_def
          split: if_splits)
  qed
  show ?thesis
    using fits hull plan(1) direct
    by (fastforce simp: fits_def plan_ok_def spans_ok_def plan_resident_def)
qed

theorem reduce_pressure_fits_witness:
  "\<exists>facts plan. example_facts = Inr facts \<and> boundary_bytes facts (seed_residency facts) 0 ''gpu'' False = 16
    \<and> spans_of plan = [[(- 1, - 1), (1, 1)], [(0, 0)], [(1, 1)]]
    \<and> boundary_bytes facts plan 0 ''gpu'' False \<le> 12 \<and> plan_resident plan 0 1"
proof -
  obtain facts plan cache where ex: "example_facts = Inr facts"
    "build_facts sample_program (sample_choice ''save'') [stays ''w'' DEVICE] [stays ''w'' DEVICE]
       example_config = Inr facts"
    "fc_anchors facts = [{- 1, 1}, {0}, {1}]" "length (fc_alias_ids facts) = 3" "length (fc_tasks facts) = 2"
    "map fst (fc_object_capacity_by_device facts) = [''gpu'']"
    "fc_object_capacity_by_boundary facts ''gpu'' = Some [12, 12, 12]"
    "boundary_bytes facts (seed_residency facts) 0 ''gpu'' False = 16"
    "reduce_pressure facts example_config (seed_residency facts) ''min-stall'' (\<lambda>_. None) None
       = Some (Inr (plan, cache))"
    "spans_of plan = [[(- 1, - 1), (1, 1)], [(0, 0)], [(1, 1)]]"
    by (rule example_planned)
  have "capacity_at facts ''gpu'' 0 = 12" "extra (\<lambda>_. None) ''gpu'' 0 = 0" "last_boundary facts = 1"
    "\<not> headroom ''min-stall''"
    using ex(5,7) by (simp_all add: capacity_at_def extra_def last_boundary_def starts_with_def)
  note sizes = this
  note fits = reduce_pressure_fits [OF ex(2) example_valid _ ex(9), unfolded cache_ok_def option.case, OF TrueI]
  have "boundary_bytes facts plan 0 ''gpu'' False + extra (\<lambda>_. None) ''gpu'' 0 \<le> capacity_at facts ''gpu'' 0"
    using fits sizes(3,4) ex(6) by simp
  moreover have "plan_resident plan 0 1" using fits ex(3,4) by simp
  ultimately have "boundary_bytes facts plan 0 ''gpu'' False \<le> 12 \<and> plan_resident plan 0 1"
    using sizes(1,2) by simp
  with ex(1,8,10) show ?thesis by blast
qed


text \<open>
  C28. The reduction always returns: whatever the strategy, the reservations of the caller and the
  scores remembered, it ends with a plan or with the error that no legal cut is left, and never
  with a fault of the program.
\<close>

theorem reduce_pressure_returns:
  assumes "build_facts program selections initial_residency final_residency config = Inr facts"
    and "valid_program program" "valid_config config" and "cache_ok facts config cache"
  shows "\<exists>r. reduce_pressure facts config (seed_residency facts) strategy additions cache = Some r
    \<and> (\<forall>fault. r \<noteq> Inl (PlanFault fault))"
proof -
  from reduce_seed_result [OF assms(1-3), of strategy additions] obtain r cache' where
    "reduce_pressure facts config (seed_residency facts) strategy additions cache
      = Some (reduction_result r cache')" using assms(4) by metis
  then show ?thesis by (cases r) (simp_all add: reduction_result_def)
qed

theorem reduce_pressure_returns_witness:
  "\<exists>facts r. example_facts = Inr facts
    \<and> reduce_pressure facts example_config (seed_residency facts) ''headroom'' [(''gpu'', 0) \<mapsto> 3] (Some Map.empty)
      = Some r \<and> (\<forall>fault. r \<noteq> Inl (PlanFault fault))"
proof -
  obtain facts where ex: "example_facts = Inr facts" "build_facts sample_program (sample_choice ''save'')
      [stays ''w'' DEVICE] [stays ''w'' DEVICE] example_config = Inr facts" by (rule example_planned)
  have "cache_ok facts example_config (Some Map.empty)" by (simp add: cache_ok_def)
  from reduce_pressure_returns [OF ex(2) example_valid this] ex(1) show ?thesis by blast
qed

text \<open>
  C9. The greedy reduction is complete. Without fetch headroom and without reservations of the
  caller, it finds a plan exactly when the bytes that no plan can avoid, those of the anchors
  and of fresh outputs, fit at every boundary: the early check \<^verbatim>\<open>assert_required_floor\<close> refuses the
  same programs the reduction would refuse.
\<close>

theorem reduce_pressure_iff_floor:
  assumes "build_facts program selections initial_residency final_residency config = Inr facts"
    and "valid_program program" "valid_config config" and "cache_ok facts config cache"
    and "\<not> headroom strategy"
  shows "(\<exists>plan cache'. reduce_pressure facts config (seed_residency facts) strategy (\<lambda>_. None) cache
      = Some (Inr (plan, cache'))) \<longleftrightarrow> assert_required_floor facts = Inr ()"
proof -
  note wf = build_facts_wf [OF assms(1-3)]
  from reduce_seed_result [OF assms(1-3), of strategy "\<lambda>_. None"] obtain r cache' where
    r: "reduction_ok facts strategy (\<lambda>_. None) (seed_residency facts) r"
    and run: "reduce_pressure facts config (seed_residency facts) strategy (\<lambda>_. None) cache
        = Some (reduction_result r cache')" using assms(4) by metis
  show ?thesis
  proof (cases r)
    case (Reduced plan)
    have "floor_pressure facts d b \<le> capacity_at facts d b" if "site facts d b" for d b
      using that r floor_le_pressure [OF wf, of plan d b "headroom strategy"]
      by (force simp: Reduced reduction_ok_def fits_def extra_def)
    then show ?thesis
      using run unfolding assert_required_floor_result(1) [OF wf] by (auto simp: Reduced reduction_result_def)
  next
    case (Refused e)
    with r assms(5) obtain plan d b where "plan_ok facts plan" "site facts d b" "legal_cuts facts plan b d = []"
      "plan_pressure facts False plan d b > capacity_at facts d b"
      by (auto simp: reduction_ok_def extra_def)
    with stuck_pressure [OF wf] have "floor_pressure facts d b > capacity_at facts d b" "site facts d b" by force+
    then show ?thesis
      using run unfolding assert_required_floor_result(1) [OF wf] Refused reduction_result_def reduction.case
      by (metis Inl_Inr_False leD option.inject)
  qed
qed

theorem reduce_pressure_iff_floor_witness:
  "\<exists>facts plan. example_facts = Inr facts \<and> assert_required_floor facts = Inr ()
    \<and> map_option (map_sum id fst) (reduce_pressure facts example_config (seed_residency facts)
        ''min-transfer'' (\<lambda>_. None) None) = Some (Inr plan)"
proof -
  obtain facts where ex: "example_facts = Inr facts" "build_facts sample_program (sample_choice ''save'')
      [stays ''w'' DEVICE] [stays ''w'' DEVICE] example_config = Inr facts"
    "assert_required_floor facts = Inr ()" by (rule example_planned)
  have "cache_ok facts example_config None" "\<not> headroom ''min-transfer''"
    by (simp_all add: cache_ok_def starts_with_def)
  from reduce_pressure_iff_floor [OF ex(2) example_valid this] ex(1,3) show ?thesis by fastforce
qed

text \<open>
  C29. A refusal is justified: the error names a device and a boundary, the task about to run
  there, the capacity and the bytes used there by a plan that keeps the anchors and in which no
  further cut at that boundary is legal; these bytes exceed the capacity. A strategy without fetch
  headroom is refused only where no plan that keeps the anchors has room; one with headroom may be
  refused although a plan has room without the headroom.
\<close>

theorem reduce_pressure_refusal:
  assumes "build_facts program selections initial_residency final_residency config = Inr facts"
    and "valid_program program" "valid_config config" and "cache_ok facts config cache"
    and "reduce_pressure facts config (seed_residency facts) strategy additions cache
      = Some (Inl (PlanInfeasible e))"
  shows "\<exists>d b used stuck. d \<in> set (map fst (fc_object_capacity_by_device facts)) \<and> b \<in> {- 1..last_boundary facts}
    \<and> stuck_error facts d b used e \<and> used > capacity_at facts d b
    \<and> plan_ok facts stuck \<and> legal_cuts facts stuck b d = []
    \<and> used = plan_pressure facts (headroom strategy) stuck d b + extra additions d b
    \<and> (\<not> headroom strategy \<longrightarrow> (\<forall>plan. plan_ok facts plan \<longrightarrow>
         boundary_bytes facts plan b d False + extra additions d b > capacity_at facts d b))"
proof -
  note wf = build_facts_wf [OF assms(1-3)]
  from reduce_seed_result [OF assms(1-3), of strategy additions] obtain r cache' where
    r: "reduction_ok facts strategy additions (seed_residency facts) r"
    and run: "reduce_pressure facts config (seed_residency facts) strategy additions cache
        = Some (reduction_result r cache')" using assms(4) by metis
  from run assms(5) have "r = Refused e" by (cases r) (auto simp: reduction_result_def)
  with r obtain stuck d b where stuck: "plan_ok facts stuck" "site facts d b" "legal_cuts facts stuck b d = []"
    "plan_pressure facts (headroom strategy) stuck d b + extra additions d b > capacity_at facts d b"
    "stuck_error facts d b (plan_pressure facts (headroom strategy) stuck d b + extra additions d b) e"
    by (auto simp: reduction_ok_def)
  have "boundary_bytes facts plan b d False + extra additions d b > capacity_at facts d b"
    if "\<not> headroom strategy" "plan_ok facts plan" for plan
  proof -
    have "boundary_bytes facts plan b d False = plan_pressure facts False plan d b"
      using that(2) stuck(2) by (intro boundary_bytes_pressure [OF wf plan_ok_shape])
        (auto simp: plan_ok_def spans_ok_def in_set_conv_nth intro!: ordered_disjoint)
    with floor_le_pressure [OF wf that(2), of d b False] stuck_pressure [OF wf stuck(1,3)] stuck(4) that(1)
    show ?thesis by simp
  qed
  moreover have "d \<in> set (map fst (fc_object_capacity_by_device facts))" "b \<in> {- 1..last_boundary facts}"
    using stuck(2) by auto
  ultimately show ?thesis using stuck(1,3-5) by blast
qed

theorem reduce_pressure_refusal_witness:
  "\<exists>facts e d b. example_facts = Inr facts
    \<and> map_option (map_sum id fst) (reduce_pressure facts example_config (seed_residency facts) ''min-stall''
        [(''gpu'', - 1) \<mapsto> 1] None) = Some (Inl (PlanInfeasible e))
    \<and> pi_kind e = ''analytic_capacity'' \<and> pi_device_id e = Some d
    \<and> (\<forall>plan. plan_ok facts plan \<longrightarrow> boundary_bytes facts plan b d False
         + extra [(''gpu'', - 1) \<mapsto> 1] d b > capacity_at facts d b)"
proof -
  obtain facts where ex: "example_facts = Inr facts" "build_facts sample_program (sample_choice ''save'')
      [stays ''w'' DEVICE] [stays ''w'' DEVICE] example_config = Inr facts" by (rule example_planned)
  have "case example_facts of Inl _ \<Rightarrow> False | Inr facts \<Rightarrow> (case reduce_pressure facts example_config
      (seed_residency facts) ''min-stall'' [(''gpu'', - 1) \<mapsto> 1] None of Some (Inl (PlanInfeasible _)) \<Rightarrow> True | _ \<Rightarrow> False)"
    by code_simp
  then obtain e where e: "reduce_pressure facts example_config (seed_residency facts) ''min-stall''
      [(''gpu'', - 1) \<mapsto> 1] None = Some (Inl (PlanInfeasible e))"
    unfolding ex(1) sum.case by (auto split: option.splits sum.splits plan_error.splits)
  have "cache_ok facts example_config None" "\<not> headroom ''min-stall''"
    by (simp_all add: cache_ok_def starts_with_def)
  with reduce_pressure_refusal [OF ex(2) example_valid _ e] obtain d b used where
    "stuck_error facts d b used e" "\<forall>plan. plan_ok facts plan \<longrightarrow> boundary_bytes facts plan b d False
      + extra [(''gpu'', - 1) \<mapsto> 1] d b > capacity_at facts d b" by blast
  then show ?thesis using ex(1) e by (intro exI [of _ facts] exI [of _ e] exI [of _ d] exI [of _ b])
    (simp add: stuck_error_def)
qed


text \<open>
  The memo of cut scores is transparent: a reduction that starts from a memo of correct scores
  returns the plan, or the error, of a reduction without memo, and leaves correct scores.
\<close>

theorem reduce_pressure_memo:
  assumes "build_facts program selections initial_residency final_residency config = Inr facts"
    and "valid_program program" "valid_config config" and "cache_ok facts config cache"
  shows "map_option (map_sum id fst) (reduce_pressure facts config (seed_residency facts) strategy additions cache)
      = map_option (map_sum id fst) (reduce_pressure facts config (seed_residency facts) strategy additions None)
    \<and> (\<forall>plan cache'. reduce_pressure facts config (seed_residency facts) strategy additions cache
         = Some (Inr (plan, cache')) \<longrightarrow> cache_ok facts config cache')"
proof -
  from reduce_seed_result [OF assms(1-3), of strategy additions] obtain r where
    run: "\<And>cache. cache_ok facts config cache \<Longrightarrow> \<exists>cache'. cache_ok facts config cache'
      \<and> reduce_pressure facts config (seed_residency facts) strategy additions cache
        = Some (reduction_result r cache')" by metis
  have "cache_ok facts config None" by (simp add: cache_ok_def)
  from run [OF this] run [OF assms(4)] show ?thesis by (cases r) (auto simp: reduction_result_def)
qed

theorem reduce_pressure_memo_witness:
  "\<exists>facts. example_facts = Inr facts
    \<and> map_option (map_sum id fst) (reduce_pressure facts example_config (seed_residency facts) ''min-stall'' (\<lambda>_. None)
        (Some Map.empty))
      = map_option (map_sum id fst) (reduce_pressure facts example_config (seed_residency facts) ''min-stall''
        (\<lambda>_. None) None)"
proof -
  obtain facts where ex: "example_facts = Inr facts" "build_facts sample_program (sample_choice ''save'')
      [stays ''w'' DEVICE] [stays ''w'' DEVICE] example_config = Inr facts" by (rule example_planned)
  have "cache_ok facts example_config (Some Map.empty)" by (simp add: cache_ok_def)
  from reduce_pressure_memo [OF ex(2) example_valid this] ex(1) show ?thesis by blast
qed

text \<open>Spans of an alias with a boundary between them, as headroom needs it.\<close>

definition separated :: "span list \<Rightarrow> bool" where
  "separated ss \<longleftrightarrow> sorted_wrt (\<lambda>s t. sp_end s + 1 < sp_start t) ss"

lemma disjoint_reach:
  assumes "ordered_spans ss" "h \<Longrightarrow> separated ss"
  shows "disjoint_spans (map (reach facts h a) ss)"
proof (cases h)
  case False
  then show ?thesis using ordered_disjoint [OF assms(1)] by simp
next
  case True
  from assms(2) [OF True] show ?thesis
    by (induction ss) (auto simp: separated_def reach_def effective_start_def)
qed

text \<open>
  C30. The sweep over charged spans agrees with the direct count, with fetch headroom and without:
  for every plan of sorted spans that keeps the anchors, each cell of \<^verbatim>\<open>_pressure_by_device\<close> is the
  \<^verbatim>\<open>boundary_bytes\<close> of its device and boundary. With headroom, which charges a fetched span one
  boundary early, this needs a boundary between any two spans of an alias.
\<close>

theorem pressure_sweep_exact:
  assumes "build_facts program selections initial_residency final_residency config = Inr facts"
    and "valid_program program" "valid_config config" and "plan_ok facts plan"
    and "fetch_headroom \<Longrightarrow> \<forall>ss \<in> set (rp_spans plan). separated ss"
  shows "\<exists>pressure. pressure_by_device facts plan fetch_headroom = Inr pressure
    \<and> (\<forall>d \<in> set (map fst (fc_object_capacity_by_device facts)). \<exists>row. pressure d = Some row
        \<and> length row = length (fc_tasks facts) + 1
        \<and> (\<forall>k < length row. row ! k = boundary_bytes facts plan (int k - 1) d fetch_headroom))"
proof -
  let ?h = fetch_headroom
  note wf = build_facts_wf [OF assms(1-3)] and shape = plan_ok_shape [OF assms(4)]
  have reach: "\<forall>a < alias_count facts. disjoint_spans (map (reach facts ?h a) (rp_spans plan ! a))"
    using assms(4,5) by (auto simp: plan_ok_def spans_ok_def intro!: disjoint_reach)
  have "\<forall>a < alias_count facts. disjoint_spans (charged_list facts ?h plan a)"
    using assms(4) reach by (auto simp: plan_ok_def spans_ok_def intro!: disjoint_reach_charged)
  from pressure_by_device_rows [OF wf shape this] obtain P where
    P: "pressure_by_device facts plan ?h = Inr P" "rows_are facts P (plan_pressure facts ?h plan)" by blast
  have "\<exists>row. P d = Some row \<and> length row = length (fc_tasks facts) + 1
      \<and> (\<forall>k < length row. row ! k = boundary_bytes facts plan (int k - 1) d ?h)"
    if d: "d \<in> fact_devices facts" for d
  proof -
    from P(2) d obtain row where "P d = Some row" "length row = task_total facts + 1"
      "\<forall>k \<le> task_total facts. row ! k = plan_pressure facts ?h plan d (int k - 1)"
      unfolding rows_are_def by blast
    then show ?thesis
      by (intro exI [of _ row]) (simp add: boundary_bytes_reach [OF wf shape reach] less_Suc_eq_le)
  qed
  with P(1) show ?thesis by simp
qed

theorem pressure_sweep_exact_witness:
  "\<exists>facts pressure row. example_facts = Inr facts
    \<and> pressure_by_device facts (seed_residency facts) True = Inr pressure
    \<and> pressure ''gpu'' = Some row \<and> length row = 3
    \<and> row ! 1 = boundary_bytes facts (seed_residency facts) 0 ''gpu'' True"
proof -
  obtain facts where ex: "example_facts = Inr facts" "build_facts sample_program (sample_choice ''save'')
      [stays ''w'' DEVICE] [stays ''w'' DEVICE] example_config = Inr facts" "length (fc_tasks facts) = 2"
      "map fst (fc_object_capacity_by_device facts) = [''gpu'']" by (rule example_planned)
  note ok = seed_residency_ok(1) [OF build_facts_wf [OF ex(2) example_valid]]
  have "\<forall>ss \<in> set (rp_spans (seed_residency facts)). separated ss"
    by (auto simp: seed_residency_def seed_from_anchors_def seed_span_def separated_def)
  from pressure_sweep_exact [where fetch_headroom = True, OF ex(2) example_valid ok this] obtain pressure where
    pressure: "pressure_by_device facts (seed_residency facts) True = Inr pressure"
    "\<forall>d \<in> {''gpu''}. \<exists>row. pressure d = Some row \<and> length row = 3
      \<and> (\<forall>k < length row. row ! k = boundary_bytes facts (seed_residency facts) (int k - 1) d True)"
    unfolding ex(3,4) by auto
  then obtain row where row: "pressure ''gpu'' = Some row" "length row = 3"
    "\<forall>k < 3. row ! k = boundary_bytes facts (seed_residency facts) (int k - 1) ''gpu'' True" by auto
  from row(3) [rule_format, of 1] have "row ! 1 = boundary_bytes facts (seed_residency facts) 0 ''gpu'' True" by simp
  then show ?thesis using ex(1) pressure(1) row(1,2) by blast
qed

text \<open>
  Without the boundary in between, the sweep with headroom charges an alias twice where its first
  span ends and its second is fetched, and the direct count once.
\<close>

theorem sweep_charges_adjacent_spans_twice:
  "case example_facts of Inl e \<Rightarrow> False
   | Inr facts \<Rightarrow>
       let span = (\<lambda>(s, e). \<lparr>sp_start = s, sp_end = e\<rparr>);
           plan = \<lparr>rp_spans = map (map span) [[(- 1, - 1), (0, 1)], [(0, 0)], [(1, 1)]],
                   rp_anchors = fc_anchors facts\<rparr>
       in map_sum id (\<lambda>pressure. pressure ''gpu'') (pressure_by_device facts plan True) = Inr (Some [20, 16, 8])
          \<and> map (\<lambda>b. boundary_bytes facts plan b ''gpu'' True) [- 1, 0, 1] = [12, 16, 8]"
  by code_simp

text \<open>
  C31. A program refused by the early check cannot be planned: the error names a device, a boundary
  and the bytes required there, and every plan that keeps the anchors resident needs at least
  those bytes, more than the capacity.
\<close>

theorem assert_required_floor_refusal:
  assumes "build_facts program selections initial_residency final_residency config = Inr facts"
    and "valid_program program" "valid_config config" and "assert_required_floor facts = Inl x"
  shows "\<exists>e d b. x = PlanInfeasible e \<and> d \<in> set (map fst (fc_object_capacity_by_device facts))
    \<and> b \<in> {- 1..last_boundary facts} \<and> floor_error facts d b e
    \<and> (\<forall>plan. plan_ok facts plan \<longrightarrow>
         the (pi_required_bytes e) \<le> boundary_bytes facts plan b d False
         \<and> capacity_at facts d b < boundary_bytes facts plan b d False)"
proof -
  note wf = build_facts_wf [OF assms(1-3)]
  from assert_required_floor_result(2) [OF wf assms(4)] obtain d b e where
    e: "x = PlanInfeasible e" "site facts d b" "floor_pressure facts d b > capacity_at facts d b"
    "floor_error facts d b e" by blast
  have "floor_pressure facts d b \<le> boundary_bytes facts plan b d False" if "plan_ok facts plan" for plan
  proof -
    have "boundary_bytes facts plan b d False = plan_pressure facts False plan d b"
      using that e(2) by (intro boundary_bytes_pressure [OF wf plan_ok_shape])
        (auto simp: plan_ok_def spans_ok_def in_set_conv_nth intro!: ordered_disjoint)
    with floor_le_pressure [OF wf that] show ?thesis by simp
  qed
  moreover have "pi_required_bytes e = Some (floor_pressure facts d b)" using e(4) by (simp add: floor_error_def)
  moreover have "d \<in> set (map fst (fc_object_capacity_by_device facts))" "b \<in> {- 1..last_boundary facts}"
    using e(2) by auto
  ultimately show ?thesis using e by (intro exI [of _ e] exI [of _ d] exI [of _ b]) force
qed

definition small_config :: simulation_config where
  "small_config = example_config\<lparr>sc_devices := [example_device\<lparr>dc_capacity_bytes := 7\<rparr>]\<rparr>"

lemma small_config_valid: "valid_config small_config"
  by (simp add: valid_config_def simulation_config_post_init_def device_simulation_config_post_init_def
      small_config_def example_config_def example_device_def config_device_def sm_require_positive_def
      sm_require_non_negative_def name_ok_def) code_simp

theorem assert_required_floor_refusal_witness:
  "\<exists>facts e d b. build_facts sample_program (sample_choice ''save'') [stays ''w'' DEVICE] [stays ''w'' DEVICE]
      small_config = Inr facts
    \<and> assert_required_floor facts = Inl (PlanInfeasible e) \<and> pi_required_bytes e = Some 12
    \<and> (\<forall>plan. plan_ok facts plan \<longrightarrow> 12 \<le> boundary_bytes facts plan b d False)"
proof -
  let ?run = "build_facts sample_program (sample_choice ''save'') [stays ''w'' DEVICE] [stays ''w'' DEVICE] small_config"
  have eval: "case ?run of Inl _ \<Rightarrow> False | Inr facts \<Rightarrow> (case assert_required_floor facts of
      Inl (PlanInfeasible e) \<Rightarrow> pi_required_bytes e = Some 12 | _ \<Rightarrow> False)" by code_simp
  then obtain facts where facts: "?run = Inr facts" by (cases ?run) simp_all
  with eval obtain e where e: "assert_required_floor facts = Inl (PlanInfeasible e)" "pi_required_bytes e = Some 12"
    by (auto split: sum.splits plan_error.splits)
  from assert_required_floor_refusal [OF facts sample_program_valid small_config_valid e(1)] e(2)
  obtain d b where "\<forall>plan. plan_ok facts plan \<longrightarrow> 12 \<le> boundary_bytes facts plan b d False" by auto
  with facts e show ?thesis by blast
qed

text \<open>
  C32. The facts are exact. An alias with payload must be on the device at the boundary before a
  task that reads or mutates it and at the boundary after a task that produces or mutates it, at
  the start or the end when it is declared resident there, and at no other boundary; its access
  events are those of its readers, mutators and producers.
\<close>

theorem build_facts_exact:
  assumes "build_facts program selections initial_residency final_residency config = Inr facts"
    and "valid_program program" "valid_config config"
  shows "\<exists>oa zero. wf_facts facts \<and> select_tasks program selections = Inr (fc_tasks facts)
    \<and> zero = {a. a < length (fc_alias_ids facts) \<and> fc_alias_sizes facts ! a = 0}
    \<and> (\<forall>v \<in> set (pg_objects program). \<exists>a < length (fc_alias_ids facts). oa (ob_object_id v) = Some a)
    \<and> (\<forall>x a. oa x = Some a \<longrightarrow> (\<exists>v \<in> set (pg_objects program).
         ob_object_id v = x \<and> ob_alias_group_id v = fc_alias_ids facts ! a))
    \<and> (\<forall>a < length (fc_alias_ids facts).
         fc_anchors facts ! a = boundaries_of oa zero (fc_tasks facts)
           (a \<notin> zero \<and> fc_initial_locations facts ! a = Some DEVICE)
           (a \<notin> zero \<and> fc_final_locations facts ! a = Some DEVICE) a
         \<and> set (fc_access_events facts ! a) = accesses_of oa zero (enumerate 0 (fc_tasks facts)) a)"
  using assms
proof (rule build_facts_sound)
  fix oa zero
  assume "wf_facts facts" "select_tasks program selections = Inr (fc_tasks facts)"
    and "zero = {a. a < length (fc_alias_ids facts) \<and> fc_alias_sizes facts ! a = 0}"
    and "\<And>x a. oa x = Some a \<Longrightarrow> a < length (fc_alias_ids facts)
      \<and> (\<exists>v \<in> set (pg_objects program). ob_object_id v = x \<and> ob_alias_group_id v = fc_alias_ids facts ! a)"
    and "\<And>v. v \<in> set (pg_objects program) \<Longrightarrow> \<exists>a. oa (ob_object_id v) = Some a"
    and "\<forall>a < length (fc_alias_ids facts). fc_anchors facts ! a = boundaries_of oa zero (fc_tasks facts)
       (a \<notin> zero \<and> fc_initial_locations facts ! a = Some DEVICE)
       (a \<notin> zero \<and> fc_final_locations facts ! a = Some DEVICE) a"
    and "\<forall>a < length (fc_alias_ids facts).
       set (fc_access_events facts ! a) = accesses_of oa zero (enumerate 0 (fc_tasks facts)) a"
  then show ?thesis by (intro exI [of _ oa] exI [of _ zero]) blast
qed

theorem build_facts_exact_witness:
  "\<exists>facts oa zero. example_facts = Inr facts \<and> fc_anchors facts = [{- 1, 1}, {0}, {1}]
    \<and> boundaries_of oa zero (fc_tasks facts) True True 0 = {- 1, 1}"
proof -
  obtain facts where ex: "example_facts = Inr facts" "build_facts sample_program (sample_choice ''save'')
      [stays ''w'' DEVICE] [stays ''w'' DEVICE] example_config = Inr facts"
      "fc_anchors facts = [{- 1, 1}, {0}, {1}]" "length (fc_alias_ids facts) = 3" by (rule example_planned)
  have "case example_facts of Inl _ \<Rightarrow> False | Inr facts \<Rightarrow> fc_alias_sizes facts ! 0 \<noteq> 0
      \<and> fc_initial_locations facts ! 0 = Some DEVICE \<and> fc_final_locations facts ! 0 = Some DEVICE" by code_simp
  then have at_ends: "fc_alias_sizes facts ! 0 \<noteq> 0" "fc_initial_locations facts ! 0 = Some DEVICE"
    "fc_final_locations facts ! 0 = Some DEVICE" unfolding ex(1) sum.case by blast+
  from build_facts_exact [OF ex(2) example_valid] obtain oa zero where
    zero: "zero = {a. a < length (fc_alias_ids facts) \<and> fc_alias_sizes facts ! a = 0}"
    and anchors: "\<forall>a < length (fc_alias_ids facts). fc_anchors facts ! a = boundaries_of oa zero (fc_tasks facts)
           (a \<notin> zero \<and> fc_initial_locations facts ! a = Some DEVICE)
           (a \<notin> zero \<and> fc_final_locations facts ! a = Some DEVICE) a
         \<and> set (fc_access_events facts ! a) = accesses_of oa zero (enumerate 0 (fc_tasks facts)) a"
    by (elim exE conjE) (rule that)
  have "0 \<notin> zero" using at_ends(1) by (simp add: zero)
  then have "boundaries_of oa zero (fc_tasks facts) True True 0 = {- 1, 1}"
    using conjunct1 [OF anchors [rule_format, of 0]] ex(3,4) at_ends by simp
  with ex(1,3) show ?thesis by blast
qed

end
