(* ===== verification/PressureFit_Emission.thy ===== *)
theory PressureFit_Emission
  imports PressureFit_Fit PressureFit_Properties
begin

text \<open>
  What \<^verbatim>\<open>emit_schedule\<close> makes of a plan. A plan that came out of the reduction never starts a span
  between a task and its input, so a reload enters a span that holds the alias until the reload's
  latest trigger. Every span is left by one departure and entered by at most one fetch, and the
  emission can only be refused by an empty fetch window or by the validation of the schedule.
\<close>

section \<open>Plans of the reduction\<close>

definition backed_anchors :: "planning_facts \<Rightarrow> bool" where
  "backed_anchors facts \<longleftrightarrow> (\<forall>a < alias_count facts. \<forall>b \<in> fc_anchors facts ! a.
     (\<exists>t. (b, t) \<in> set (fc_access_events facts ! a)) \<or> (b - 1, b) \<in> set (fc_access_events facts ! a)
     \<or> (b = - 1 \<and> fc_initial_locations facts ! a = Some DEVICE)
     \<or> (b = last_boundary facts \<and> fc_final_locations facts ! a = Some DEVICE))"

lemma build_facts_backed:
  assumes "build_facts program selections initial_residency final_residency config = Inr facts"
    and "valid_program program" "valid_config config"
  shows "backed_anchors facts"
  using assms
proof (rule build_facts_sound)
  fix oa zero
  assume anchors: "\<forall>a < alias_count facts. fc_anchors facts ! a = boundaries_of oa zero (fc_tasks facts)
       (a \<notin> zero \<and> fc_initial_locations facts ! a = Some DEVICE)
       (a \<notin> zero \<and> fc_final_locations facts ! a = Some DEVICE) a"
    and events: "\<forall>a < alias_count facts.
       set (fc_access_events facts ! a) = accesses_of oa zero (enumerate 0 (fc_tasks facts)) a"
  show "backed_anchors facts"
    unfolding backed_anchors_def
  proof (intro allI impI ballI)
    fix a b
    assume a: "a < alias_count facts" and "b \<in> fc_anchors facts ! a"
    with anchors have "b \<in> boundaries_of oa zero (fc_tasks facts)
       (a \<notin> zero \<and> fc_initial_locations facts ! a = Some DEVICE)
       (a \<notin> zero \<and> fc_final_locations facts ! a = Some DEVICE) a" by simp
    then show "(\<exists>t. (b, t) \<in> set (fc_access_events facts ! a)) \<or> (b - 1, b) \<in> set (fc_access_events facts ! a)
      \<or> (b = - 1 \<and> fc_initial_locations facts ! a = Some DEVICE)
      \<or> (b = last_boundary facts \<and> fc_final_locations facts ! a = Some DEVICE)"
      using events a
      by (auto simp: boundaries_of_def needs_before_def leaves_after_def accesses_of_def last_boundary_def
          split: if_splits)
  qed
qed

text \<open>No span starts between a task's input boundary and the task.\<close>

definition clean_spans :: "planning_facts \<Rightarrow> nat \<Rightarrow> span list \<Rightarrow> bool" where
  "clean_spans facts a ss \<longleftrightarrow> (\<forall>s \<in> set ss. (sp_start s - 1, sp_start s) \<notin> set (fc_access_events facts ! a))"

definition clean_plan :: "planning_facts \<Rightarrow> residency_plan \<Rightarrow> bool" where
  "clean_plan facts plan \<longleftrightarrow> plan_ok facts plan
     \<and> (\<forall>a < alias_count facts. clean_spans facts a (rp_spans plan ! a))"

lemma seed_clean:
  assumes wf: "wf_facts facts"
  shows "clean_plan facts (seed_residency facts)"
proof -
  have len: "length (fc_anchors facts) = alias_count facts" using wf by (simp add: wf_facts_def wf_tables_def)
  have "clean_spans facts a (seed_span (fc_anchors facts ! a))" if a: "a < alias_count facts" for a
  proof -
    have "(Min A - 1, Min A) \<notin> set (fc_access_events facts ! a)"
      if "A = fc_anchors facts ! a" for A
    proof
      assume "(Min A - 1, Min A) \<in> set (fc_access_events facts ! a)"
      then have "Min A - 1 \<in> A" "finite A" using wf a that by (auto simp: wf_facts_def wf_events_def)
      then have "Min A \<le> Min A - 1" by (rule Min_le [rotated])
      then show False by simp
    qed
    then show ?thesis by (simp add: clean_spans_def seed_span_def)
  qed
  then show ?thesis
    using seed_residency_ok(1) [OF wf] len by (simp add: clean_plan_def seed_residency_def seed_from_anchors_def)
qed

lemma cut_end_free:
  assumes ok: "plan_ok facts plan" and wf: "wf_facts facts" and c: "c \<in> set (legal_cuts facts plan b d)"
  shows "(ct_end c, ct_end c + 1) \<notin> set (fc_access_events facts ! ct_alias c)"
proof
  assume event: "(ct_end c, ct_end c + 1) \<in> set (fc_access_events facts ! ct_alias c)"
  note cut = legal_cut_of(1) [OF ok c]
  from cut have a: "ct_alias c < alias_count facts" by (simp add: cut_of_def)
  then have anchor: "ct_end c \<in> fc_anchors facts ! ct_alias c"
    using wf event by (fastforce simp: wf_facts_def wf_events_def)
  have "\<not> ct_start c \<le> ct_end c"
  proof
    assume "ct_start c \<le> ct_end c"
    with cut anchor show False unfolding cut_of_def Let_def by blast
  qed
  then have short: "ct_end c < ct_start c" by simp
  from c obtain i where i: "i < length (rp_spans plan ! ct_alias c)"
    and run: "cut_of_span facts (rp_anchors plan ! ct_alias c) b (ct_alias c) (i, rp_spans plan ! ct_alias c ! i) = Some c"
  proof -
    from c obtain a i where ai: "i < length (rp_spans plan ! a)" "a < length (rp_spans plan)"
      "cut_of_span facts (rp_anchors plan ! a) b a (i, rp_spans plan ! a ! i) = Some c"
      by (auto simp: set_legal_cuts)
    then have "ct_alias c = a" by (auto simp: cut_of_span_def Let_def split: option.splits if_splits)
    with ai that show thesis by metis
  qed
  let ?s = "rp_spans plan ! ct_alias c ! i" and ?A = "rp_anchors plan ! ct_alias c"
  show False
  proof (cases "b \<in> ?A")
    case True
    then have "c = \<lparr>ct_alias = ct_alias c, ct_span_index = i, ct_start = b + 1, ct_end = b\<rparr>"
      "\<forall>x \<in> set (fc_access_events facts ! ct_alias c). \<not> (case x of (anchor, task) \<Rightarrow> anchor = b \<and> b < task)"
      using run by (simp_all add: cut_of_span_def gap_containing_def Let_def list_ex_iff split: if_splits)
    moreover from this(1) have "ct_end c = b" by (metis cut.select_convs(4))
    ultimately show False using event by fastforce
  next
    case False
    then have whole: "c = \<lparr>ct_alias = ct_alias c, ct_span_index = i, ct_start = gap_start ?A (sp_start ?s) b,
        ct_end = gap_end ?A (sp_end ?s) b\<rparr>"
      and inside: "sp_start ?s \<le> b" "b \<le> sp_end ?s"
      using run by (simp_all add: cut_of_span_def gap_containing_def span_contains_def Let_def split: if_splits)
    have c_is: "ct_start c = gap_start ?A (sp_start ?s) b" "ct_end c = gap_end ?A (sp_end ?s) b"
      using arg_cong [OF whole, of ct_start] arg_cong [OF whole, of ct_end] by simp_all
    from gap_start_props [OF inside(1) False] gap_end_props [OF inside(2) False] short c_is show False by auto
  qed
qed

lemma apply_cut_clean:
  assumes wf: "wf_facts facts" and clean: "clean_plan facts plan" and c: "c \<in> set (legal_cuts facts plan b d)"
  shows "clean_plan facts (apply_cut plan c)"
proof -
  from clean have ok: "plan_ok facts plan" by (simp add: clean_plan_def)
  note cut = legal_cut_of(1) [OF ok c]
  note spans = apply_cut_spans [OF ok cut refl refl]
  let ?ss = "rp_spans plan ! ct_alias c" and ?i = "ct_span_index c"
  have a: "ct_alias c < alias_count facts" "?i < length ?ss" using cut by (simp_all add: cut_of_def)
  have "clean_spans facts (ct_alias c) (take ?i ?ss @ pieces (?ss ! ?i) c @ drop (Suc ?i) ?ss)"
    unfolding clean_spans_def
  proof
    fix s
    assume "s \<in> set (take ?i ?ss @ pieces (?ss ! ?i) c @ drop (Suc ?i) ?ss)"
    then consider "s \<in> set ?ss" | "sp_start s = sp_start (?ss ! ?i)" | "sp_start s = ct_end c + 1"
      by (auto simp: pieces_def dest: in_set_takeD in_set_dropD split: if_splits)
    then show "(sp_start s - 1, sp_start s) \<notin> set (fc_access_events facts ! ct_alias c)"
      using clean a cut_end_free [OF ok wf c] by cases (auto simp: clean_plan_def clean_spans_def)
  qed
  then have "clean_spans facts x (rp_spans (apply_cut plan c) ! x)" if "x < alias_count facts" for x
    using clean that a ok unfolding spans(1) by (cases "x = ct_alias c") (simp_all add: clean_plan_def plan_ok_def)
  then show ?thesis using apply_cut_ok [OF ok cut] by (simp add: clean_plan_def)
qed

text \<open>What every legal cut keeps holds of the plan a reduction returns.\<close>

lemma better_cuts_member:
  assumes "foldE (better_cut facts config kind b) (best, cache) cs = Inr (Some (v, c), cache')"
  shows "c \<in> set cs \<or> best = Some (v, c)"
  using assms
proof (induction cs arbitrary: best cache)
  case (Cons x xs)
  from Cons.prems obtain best1 cache1 where step: "better_cut facts config kind b (best, cache) x = Inr (best1, cache1)"
    and rest: "foldE (better_cut facts config kind b) (best1, cache1) xs = Inr (Some (v, c), cache')" by auto
  from step have "best1 = best \<or> (\<exists>w. best1 = Some (w, x))"
    by (auto simp: better_cut_def split: option.splits if_splits)
  with Cons.IH [OF rest] show ?case by auto
qed simp

lemma reduce_step_cut:
  assumes "reduce_step facts config strategy additions (plan, P, cache) = Inr (Some (plan', P', cache'))"
  shows "\<exists>c b d. c \<in> set (legal_cuts facts plan b d) \<and> plan' = apply_cut plan c"
proof -
  from assms obtain d b excess used v c cache1 where
    "foldE (better_cut facts config (score_kind_of strategy) b) (None, cache) (legal_cuts facts plan b d)
       = Inr (Some (v, c), cache1)" "plan' = apply_cut plan c"
    by (auto simp: reduce_step_def Let_def no_legal_cut_def split: option.splits)
  with better_cuts_member show ?thesis by blast
qed

lemma reduce_loop_invariant:
  assumes "reduce_loop facts config strategy additions state = Some (Inr (plan', cache'))"
    and "Q (fst state)"
    and "\<And>plan c b d. Q plan \<Longrightarrow> c \<in> set (legal_cuts facts plan b d) \<Longrightarrow> Q (apply_cut plan c)"
  shows "Q plan'"
proof -
  have "(\<forall>plan c b d. Q plan \<longrightarrow> c \<in> set (legal_cuts facts plan b d) \<longrightarrow> Q (apply_cut plan c)) \<longrightarrow>
      Q (fst state) \<longrightarrow> (\<forall>plan' cache'. result = Inr (plan', cache') \<longrightarrow> Q plan')"
    if "reduce_loop facts config strategy additions state = Some result" for result
  proof (rule reduce_loop.raw_induct [OF _ that])
    fix loop :: "planning_facts \<Rightarrow> simulation_config \<Rightarrow> string \<Rightarrow> (string \<times> int \<rightharpoonup> int)
      \<Rightarrow> residency_plan \<times> pressures \<times> score_cache \<Rightarrow> (plan_error + (residency_plan \<times> score_cache)) option"
    fix facts config strategy additions state result
    assume hyp: "\<And>facts config strategy additions state result. loop facts config strategy additions state = Some result \<Longrightarrow>
        (\<forall>plan c b d. Q plan \<longrightarrow> c \<in> set (legal_cuts facts plan b d) \<longrightarrow> Q (apply_cut plan c)) \<longrightarrow>
        Q (fst state) \<longrightarrow> (\<forall>plan' cache'. result = Inr (plan', cache') \<longrightarrow> Q plan')"
      and body: "(case reduce_step facts config strategy additions state of
          Inl e \<Rightarrow> Some (Inl e)
        | Inr None \<Rightarrow> Some (Inr (fst state, snd (snd state)))
        | Inr (Some state') \<Rightarrow> loop facts config strategy additions state') = Some result"
    show "(\<forall>plan c b d. Q plan \<longrightarrow> c \<in> set (legal_cuts facts plan b d) \<longrightarrow> Q (apply_cut plan c)) \<longrightarrow>
        Q (fst state) \<longrightarrow> (\<forall>plan' cache'. result = Inr (plan', cache') \<longrightarrow> Q plan')"
    proof (cases "reduce_step facts config strategy additions state")
      case (Inr next_state)
      show ?thesis
      proof (cases next_state)
        case None
        then show ?thesis using body Inr by auto
      next
        case (Some state')
        obtain plan P cache plan1 P1 cache1 where st: "state = (plan, P, cache)" "state' = (plan1, P1, cache1)"
          by (cases state, cases state')
        from reduce_step_cut [of facts config strategy additions plan P cache plan1 P1 cache1] Inr Some
        obtain c b d where step: "c \<in> set (legal_cuts facts plan b d)" "plan1 = apply_cut plan c" by (auto simp: st)
        have "loop facts config strategy additions state' = Some result" using body Inr Some by simp
        note IH = hyp [OF this]
        show ?thesis
        proof (intro impI)
          assume closed: "\<forall>plan c b d. Q plan \<longrightarrow> c \<in> set (legal_cuts facts plan b d) \<longrightarrow> Q (apply_cut plan c)"
            and "Q (fst state)"
          with step have "Q (fst state')" by (auto simp: st)
          with IH closed show "\<forall>plan' cache'. result = Inr (plan', cache') \<longrightarrow> Q plan'" by blast
        qed
      qed
    qed (use body in auto)
  qed
  from this [OF assms(1)] assms(2,3) show ?thesis by metis
qed

lemma reduce_pressure_clean:
  assumes "wf_facts facts" "clean_plan facts seed"
    and "reduce_pressure facts config seed strategy additions cache = Some (Inr (plan, cache'))"
  shows "clean_plan facts plan"
proof -
  from assms(3) obtain P where "reduce_loop facts config strategy additions (seed, P, cache) = Some (Inr (plan, cache'))"
    by (auto simp: reduce_pressure_def split: sum.splits)
  then show ?thesis by (rule reduce_loop_invariant) (use assms(1,2) apply_cut_clean in auto)
qed

end
