(* ===== verification/PressureFit_Spans.thy ===== *)
theory PressureFit_Spans
  imports PressureFit_Emission
begin

text \<open>
  The departures and reloads that \<^verbatim>\<open>emit_schedule\<close> collects from the spans of a plan, in closed
  form: when a span is entered and left, by which task, and in which window.
\<close>

section \<open>Entering and leaving a span\<close>

definition leave_task :: "planning_facts \<Rightarrow> nat \<Rightarrow> span \<Rightarrow> int" where
  "leave_task facts a s = (let events = events_in_span facts a s
     in if events \<noteq> [] then max_of (map snd events)
        else min (max (sp_end s) 0) (int (length (fc_tasks facts)) - 1))"

definition enters :: "planning_facts \<Rightarrow> nat \<Rightarrow> span \<Rightarrow> bool" where
  "enters facts a s \<longleftrightarrow> \<not> (sp_start s = - 1 \<and> fc_initial_locations facts ! a = Some DEVICE)
     \<and> sp_start s \<notin> fc_production_boundaries facts ! a"

definition leaves :: "planning_facts \<Rightarrow> nat \<Rightarrow> span list \<Rightarrow> nat \<Rightarrow> bool" where
  "leaves facts a ss i \<longleftrightarrow> Suc i < length ss \<or> fc_final_locations facts ! a \<noteq> Some DEVICE"

definition reload_at :: "planning_facts \<Rightarrow> nat \<Rightarrow> span list \<Rightarrow> nat \<Rightarrow> reload" where
  "reload_at facts a ss i =
     \<lparr>rl_alias = a, rl_earliest_trigger = (if i = 0 then 0 else leave_task facts a (ss ! (i - 1)) + 1),
      rl_latest_trigger = entry_deadline facts a (ss ! i), rl_entry_boundary = sp_start (ss ! i)\<rparr>"

definition departure_at :: "planning_facts \<Rightarrow> nat \<Rightarrow> span list \<Rightarrow> (nat \<Rightarrow> memory_action_kind) \<Rightarrow> nat \<Rightarrow> departure" where
  "departure_at facts a ss kinds i = \<lparr>dp_alias = a, dp_trigger = leave_task facts a (ss ! i), dp_kind = kinds i\<rparr>"

definition window_open :: "planning_facts \<Rightarrow> nat \<Rightarrow> span list \<Rightarrow> nat \<Rightarrow> bool" where
  "window_open facts a ss i \<longleftrightarrow> fc_tasks facts \<noteq> []
     \<and> (enters facts a (ss ! i) \<longrightarrow>
          rl_earliest_trigger (reload_at facts a ss i) \<le> rl_latest_trigger (reload_at facts a ss i))"

definition emission_refused :: "plan_error \<Rightarrow> bool" where
  "emission_refused e \<longleftrightarrow> (\<exists>i. e = PlanInfeasible i \<and> pi_kind i \<in> {''fetch_window'', ''missing_action_boundary''})"

lemma departure_task_cases:
  "(\<exists>e. departure_task facts a s = Inl e \<and> emission_refused e)
   \<or> departure_task facts a s = Inr (leave_task facts a s) \<and> (fc_tasks facts = [] \<longrightarrow> events_in_span facts a s \<noteq> [])"
  by (auto simp: departure_task_def leave_task_def Let_def emission_refused_def)

lemma entry_reload_cases:
  assumes "case previous of None \<Rightarrow> i = 0 | Some d \<Rightarrow> i \<noteq> 0 \<and> dp_trigger d = leave_task facts a (ss ! (i - 1))"
  shows "(\<exists>e. entry_reload facts a (ss ! i) previous = Inl e \<and> emission_refused e)
    \<or> entry_reload facts a (ss ! i) previous = Inr (if enters facts a (ss ! i) then [reload_at facts a ss i] else [])
      \<and> (enters facts a (ss ! i) \<longrightarrow>
          rl_earliest_trigger (reload_at facts a ss i) \<le> rl_latest_trigger (reload_at facts a ss i))"
  using assms
  by (cases previous)
    (auto simp: entry_reload_def enters_def reload_at_def emission_refused_def Let_def ensure_def)

lemma foldE_cases:
  assumes "P [] s"
    and "\<And>ys x zs t. P ys t \<Longrightarrow> xs = ys @ x # zs \<Longrightarrow>
      (\<exists>e. f t x = Inl e \<and> E e) \<or> (\<exists>t'. f t x = Inr t' \<and> P (ys @ [x]) t')"
  shows "(\<exists>e. foldE f s xs = Inl e \<and> E e) \<or> (\<exists>s'. foldE f s xs = Inr s' \<and> P xs s')"
  using assms
proof (induction xs rule: rev_induct)
  case (snoc x xs)
  have "(\<exists>e. foldE f s xs = Inl e \<and> E e) \<or> (\<exists>t. foldE f s xs = Inr t \<and> P xs t)"
  proof (rule snoc.IH [OF snoc.prems(1)])
    fix ys y zs u
    assume "P ys u" "xs = ys @ y # zs"
    then show "(\<exists>e. f u y = Inl e \<and> E e) \<or> (\<exists>u'. f u y = Inr u' \<and> P (ys @ [y]) u')"
      by (intro snoc.prems(2) [of ys u y "zs @ [x]"]) auto
  qed
  with snoc.prems(2) [of xs _ x "[]"] show ?case by (fastforce simp: foldE_append)
qed simp


section \<open>One alias\<close>

definition span_indices :: "(nat \<Rightarrow> bool) \<Rightarrow> nat \<Rightarrow> nat list" where
  "span_indices p n = filter p [0..<n]"

lemma span_indices_Suc: "span_indices p (Suc n) = span_indices p n @ (if p n then [n] else [])"
  by (simp add: span_indices_def)

lemma span_indices_0 [simp]: "span_indices p 0 = []"
  by (simp add: span_indices_def)

text \<open>
  A departure that drops the device copy of an alias needed later (by a span that follows, or in
  host memory at the end) loses no write: the host copy was there from the start or an earlier
  eviction took every write made so far with it.
\<close>

definition copy_kept :: "planning_facts \<Rightarrow> nat \<Rightarrow> span list \<Rightarrow> (nat \<Rightarrow> memory_action_kind) \<Rightarrow> nat \<Rightarrow> bool" where
  "copy_kept facts a ss kinds i \<longleftrightarrow>
     (if Suc i < length ss \<or> fc_final_locations facts ! a = Some SPILL then
        kinds i = EVICT \<or> kinds i = RELEASE \<and> fc_alias_retain_spill_copy facts ! a
          \<and> (\<forall>w \<in> set (fc_write_boundaries facts ! a). w \<le> sp_end (ss ! i) \<longrightarrow>
               w \<le> - 1 \<or> (\<exists>j < i. kinds j = EVICT \<and> w \<le> sp_end (ss ! j)))
      else kinds i = RELEASE)"

definition copies_kept :: "planning_facts \<Rightarrow> nat \<Rightarrow> span list \<Rightarrow> (nat \<Rightarrow> memory_action_kind) \<Rightarrow> nat \<Rightarrow> bool" where
  "copies_kept facts a ss kinds k \<longleftrightarrow> (\<forall>i. kinds i \<in> {RELEASE, EVICT})
     \<and> (\<forall>i < k. leaves facts a ss i \<longrightarrow> copy_kept facts a ss kinds i)"

definition refreshed_by :: "span list \<Rightarrow> (nat \<Rightarrow> memory_action_kind) \<Rightarrow> nat \<Rightarrow> int \<Rightarrow> bool" where
  "refreshed_by ss kinds k r \<longleftrightarrow> r \<le> - 1 \<or> (\<exists>j < k. kinds j = EVICT \<and> r = sp_end (ss ! j))"

lemma copies_kept_kinds: "copies_kept facts a ss kinds k \<Longrightarrow> kinds i \<in> {RELEASE, EVICT}"
  by (simp add: copies_kept_def)

lemma copies_kept_upd:
  assumes "copies_kept facts a ss kinds k" "kind \<in> {RELEASE, EVICT}"
    and "leaves facts a ss k \<longrightarrow> copy_kept facts a ss (kinds(k := kind)) k"
  shows "copies_kept facts a ss (kinds(k := kind)) (Suc k)"
proof -
  have "copy_kept facts a ss (kinds(k := kind)) i \<longleftrightarrow> copy_kept facts a ss kinds i" if "i < k" for i
  proof -
    have "(\<exists>j < i. (kinds(k := kind)) j = EVICT \<and> w \<le> sp_end (ss ! j))
      \<longleftrightarrow> (\<exists>j < i. kinds j = EVICT \<and> w \<le> sp_end (ss ! j))" for w
      using that by (intro ex_cong1) auto
    then show ?thesis using that by (simp add: copy_kept_def)
  qed
  then show ?thesis using assms by (auto simp: copies_kept_def less_Suc_eq)
qed

lemma copy_kept_choice:
  assumes refreshed: "refreshed_by ss kinds k r"
    and unchanged: "unchanged \<longleftrightarrow> fc_alias_retain_spill_copy facts ! a \<and> \<not> has_write_since facts a r (sp_end (ss ! k))"
    and later: "Suc k < length ss \<or> fc_final_locations facts ! a = Some SPILL"
  shows "copy_kept facts a ss (kinds(k := if unchanged then RELEASE else EVICT)) k"
    and "refreshed_by ss (kinds(k := if unchanged then RELEASE else EVICT)) (Suc k)
      (if unchanged then r else sp_end (ss ! k))"
  using assms by (auto simp: copy_kept_def refreshed_by_def has_write_since_def list_ex_iff less_Suc_eq not_less)

definition emitted ::
    "planning_facts \<Rightarrow> nat \<Rightarrow> span list \<Rightarrow> departure list \<Rightarrow> reload list \<Rightarrow> nat \<Rightarrow> emission \<Rightarrow> bool" where
  "emitted facts a ss departures0 reloads0 k = (\<lambda>(departures, reloads, refreshed, previous).
     (\<exists>kinds. copies_kept facts a ss kinds k \<and> (k < length ss \<longrightarrow> refreshed_by ss kinds k refreshed)
        \<and> departures = departures0 @ map (departure_at facts a ss kinds) (span_indices (leaves facts a ss) k))
     \<and> reloads = reloads0 @ map (reload_at facts a ss) (span_indices (\<lambda>i. enters facts a (ss ! i)) k)
     \<and> (\<forall>i < k. window_open facts a ss i)
     \<and> (k < length ss \<longrightarrow> (case previous of None \<Rightarrow> k = 0
          | Some d \<Rightarrow> k \<noteq> 0 \<and> dp_trigger d = leave_task facts a (ss ! (k - 1)))))"

lemma departures_snoc:
  assumes "leaves facts a ss k"
  shows "map (departure_at facts a ss kinds) (span_indices (leaves facts a ss) k)
        @ [\<lparr>dp_alias = a, dp_trigger = leave_task facts a (ss ! k), dp_kind = kind\<rparr>]
      = map (departure_at facts a ss (kinds(k := kind))) (span_indices (leaves facts a ss) (Suc k))"
proof -
  have "map (departure_at facts a ss (kinds(k := kind))) (span_indices (leaves facts a ss) k)
      = map (departure_at facts a ss kinds) (span_indices (leaves facts a ss) k)"
    by (rule map_cong) (auto simp: span_indices_def departure_at_def)
  then show ?thesis using assms by (simp add: span_indices_Suc departure_at_def)
qed

lemma emit_span_cases:
  assumes inv: "emitted facts a ss d0 r0 k st" and k: "k < length ss"
    and events: "fc_tasks facts \<noteq> [] \<or> events_in_span facts a (ss ! k) = []"
  shows "(\<exists>e. emit_span facts a (length ss) st (k, ss ! k) = Inl e \<and> emission_refused e)
    \<or> (\<exists>st'. emit_span facts a (length ss) st (k, ss ! k) = Inr st' \<and> emitted facts a ss d0 r0 (Suc k) st')"
proof -
  obtain departures reloads refreshed previous where st: "st = (departures, reloads, refreshed, previous)"
    by (cases st)
  from inv k have "case previous of None \<Rightarrow> k = 0 | Some d \<Rightarrow> k \<noteq> 0 \<and> dp_trigger d = leave_task facts a (ss ! (k - 1))"
    unfolding emitted_def st prod.case by blast
  from entry_reload_cases [OF this] show ?thesis
  proof (elim disjE exE conjE)
    fix e
    assume "entry_reload facts a (ss ! k) previous = Inl e" "emission_refused e"
    then show ?thesis by (simp add: emit_span_def st)
  next
    let ?entry = "if enters facts a (ss ! k) then [reload_at facts a ss k] else []"
    assume entry: "entry_reload facts a (ss ! k) previous = Inr ?entry"
      and open_window: "enters facts a (ss ! k) \<longrightarrow>
        rl_earliest_trigger (reload_at facts a ss k) \<le> rl_latest_trigger (reload_at facts a ss k)"
    from departure_task_cases [of facts a "ss ! k"] show ?thesis
    proof (elim disjE exE conjE)
      fix e
      assume "departure_task facts a (ss ! k) = Inl e" "emission_refused e"
      then show ?thesis using entry by (simp add: emit_span_def st)
    next
      assume task: "departure_task facts a (ss ! k) = Inr (leave_task facts a (ss ! k))"
        and "fc_tasks facts = [] \<longrightarrow> events_in_span facts a (ss ! k) \<noteq> []"
      with events have tasks: "fc_tasks facts \<noteq> []" by blast
      from inv k obtain kinds where kinds: "copies_kept facts a ss kinds k" "refreshed_by ss kinds k refreshed"
        and deps: "departures = d0 @ map (departure_at facts a ss kinds) (span_indices (leaves facts a ss) k)"
        and rest: "reloads = r0 @ map (reload_at facts a ss) (span_indices (\<lambda>i. enters facts a (ss ! i)) k)"
        "\<forall>i < k. window_open facts a ss i" by (auto simp: emitted_def st)
      have reloads: "reloads @ ?entry
          = r0 @ map (reload_at facts a ss) (span_indices (\<lambda>i. enters facts a (ss ! i)) (Suc k))"
        by (simp add: rest(1) span_indices_Suc)
      have opens: "\<forall>i < Suc k. window_open facts a ss i"
        using rest(2) open_window tasks by (auto simp: window_open_def less_Suc_eq)
      note run = emit_span_def st prod.case entry bindE_simps task Let_def
      show ?thesis
      proof (cases "leaves facts a ss k")
        case True
        let ?d = "\<lambda>kind. \<lparr>dp_alias = a, dp_trigger = leave_task facts a (ss ! k), dp_kind = kind\<rparr>"
        define unchanged where "unchanged = (fc_alias_retain_spill_copy facts ! a
          \<and> \<not> has_write_since facts a refreshed (sp_end (ss ! k)))"
        have gone: "emitted facts a ss d0 r0 (Suc k) (departures @ [?d kind], reloads @ ?entry, r, Some (?d kind))"
          if "copies_kept facts a ss (kinds(k := kind)) (Suc k)"
            "Suc k < length ss \<longrightarrow> refreshed_by ss (kinds(k := kind)) (Suc k) r" for kind r
          using that reloads opens departures_snoc [OF True]
          by (auto simp: emitted_def deps intro!: exI [of _ "kinds(k := kind)"])
        show ?thesis
        proof (cases "Suc k < length ss \<or> fc_final_locations facts ! a = Some SPILL")
          case True
          let ?kind = "if unchanged then RELEASE else EVICT"
          note choice = copy_kept_choice [OF kinds(2) unchanged_def True]
          have "copies_kept facts a ss (kinds(k := ?kind)) (Suc k)"
            using copies_kept_upd [OF kinds(1) _ impI [OF choice(1)]] by simp
          then have "emitted facts a ss d0 r0 (Suc k) (departures @ [?d ?kind], reloads @ ?entry,
              if Suc k < length ss \<and> \<not> unchanged then sp_end (ss ! k) else refreshed, Some (?d ?kind))"
            using choice(2) by (intro gone) auto
          moreover have "emit_span facts a (length ss) st (k, ss ! k) = Inr (departures @ [?d ?kind], reloads @ ?entry,
              if Suc k < length ss \<and> \<not> unchanged then sp_end (ss ! k) else refreshed, Some (?d ?kind))"
            unfolding run unchanged_def [symmetric] using True by auto
          ultimately show ?thesis by blast
        next
          case False
          then have gone_for_good: "\<not> k + 1 < length ss" "fc_final_locations facts ! a = None"
            using True by (auto simp: leaves_def split: option.split memory_location.split)
              (metis memory_location.exhaust option.exhaust)
          have "copy_kept facts a ss (kinds(k := RELEASE)) k" using False by (simp add: copy_kept_def)
          then have "emitted facts a ss d0 r0 (Suc k)
              (departures @ [?d RELEASE], reloads @ ?entry, refreshed, Some (?d RELEASE))"
            using False copies_kept_upd [OF kinds(1), of RELEASE] by (intro gone) auto
          moreover have "emit_span facts a (length ss) st (k, ss ! k) = Inr
              (departures @ [?d RELEASE], reloads @ ?entry, refreshed, Some (?d RELEASE))"
            unfolding run using gone_for_good by simp
          ultimately show ?thesis by blast
        qed
      next
        case False
        then have last: "\<not> k + 1 < length ss" "fc_final_locations facts ! a = Some DEVICE" by (auto simp: leaves_def)
        have "emit_span facts a (length ss) st (k, ss ! k) = Inr (departures, reloads @ ?entry, refreshed, previous)"
          unfolding run using last by simp
        moreover have "span_indices (leaves facts a ss) (Suc k) = span_indices (leaves facts a ss) k"
          using False by (simp add: span_indices_Suc)
        moreover have "copies_kept facts a ss kinds (Suc k)"
          using kinds(1) False by (auto simp: copies_kept_def less_Suc_eq)
        ultimately show ?thesis using deps reloads opens last(1) by (auto simp: emitted_def)
      qed
    qed
  qed
qed


section \<open>The whole plan\<close>

definition moved :: "planning_facts \<Rightarrow> nat \<Rightarrow> nat list" where
  "moved facts k = filter (\<lambda>a. fc_alias_sizes facts ! a \<noteq> 0) [0..<k]"

definition alias_departures ::
    "planning_facts \<Rightarrow> residency_plan \<Rightarrow> (nat \<Rightarrow> nat \<Rightarrow> memory_action_kind) \<Rightarrow> nat \<Rightarrow> departure list" where
  "alias_departures facts plan kinds a = (let ss = rp_spans plan ! a
     in map (departure_at facts a ss (kinds a)) (span_indices (leaves facts a ss) (length ss)))"

definition alias_reloads :: "planning_facts \<Rightarrow> residency_plan \<Rightarrow> nat \<Rightarrow> reload list" where
  "alias_reloads facts plan a = (let ss = rp_spans plan ! a
     in map (reload_at facts a ss) (span_indices (\<lambda>i. enters facts a (ss ! i)) (length ss)))"

definition plan_kept ::
    "planning_facts \<Rightarrow> residency_plan \<Rightarrow> (nat \<Rightarrow> nat \<Rightarrow> memory_action_kind) \<Rightarrow> nat \<Rightarrow> bool" where
  "plan_kept facts plan kinds k \<longleftrightarrow> (\<forall>a. copies_kept facts a (rp_spans plan ! a) (kinds a)
     (if a \<in> set (moved facts k) then length (rp_spans plan ! a) else 0))"

lemma plan_kept_kinds: "plan_kept facts plan kinds k \<Longrightarrow> kinds a i \<in> {RELEASE, EVICT}"
  unfolding plan_kept_def using copies_kept_kinds by blast

definition plan_emitted ::
    "planning_facts \<Rightarrow> residency_plan \<Rightarrow> nat \<Rightarrow> departure list \<times> reload list \<Rightarrow> bool" where
  "plan_emitted facts plan k = (\<lambda>(departures, reloads).
     (\<exists>kinds. plan_kept facts plan kinds k
        \<and> departures = concat (map (alias_departures facts plan kinds) (moved facts k)))
     \<and> reloads = concat (map (alias_reloads facts plan) (moved facts k))
     \<and> (\<forall>a \<in> set (moved facts k). \<forall>i < length (rp_spans plan ! a). window_open facts a (rp_spans plan ! a) i))"

lemma moved_Suc: "moved facts (Suc k) = moved facts k @ (if fc_alias_sizes facts ! k \<noteq> 0 then [k] else [])"
  by (simp add: moved_def)

lemma set_moved: "set (moved facts k) = {a. a < k \<and> fc_alias_sizes facts ! a \<noteq> 0}"
  by (auto simp: moved_def)

lemma alias_departures_upd:
  "a \<noteq> k \<Longrightarrow> alias_departures facts plan (kinds(k := f)) a = alias_departures facts plan kinds a"
  by (simp add: alias_departures_def)

lemma events_without_tasks:
  assumes "wf_facts facts" "a < alias_count facts"
  shows "fc_tasks facts \<noteq> [] \<or> events_in_span facts a s = []"
  using assms by (force simp: wf_facts_def wf_events_def events_in_span_def last_boundary_def filter_empty_conv)

lemma emit_spans_cases:
  assumes wf: "wf_facts facts" and a: "a < alias_count facts" and since: "since \<le> - 1"
  shows "(\<exists>e. foldE (emit_span facts a (length ss)) (d0, r0, since, None) (enumerate 0 ss) = Inl e \<and> emission_refused e)
    \<or> (\<exists>st. foldE (emit_span facts a (length ss)) (d0, r0, since, None) (enumerate 0 ss) = Inr st
         \<and> emitted facts a ss d0 r0 (length ss) st)"
proof -
  have "(\<exists>e. foldE (emit_span facts a (length ss)) (d0, r0, since, None) (enumerate 0 ss) = Inl e \<and> emission_refused e)
    \<or> (\<exists>st. foldE (emit_span facts a (length ss)) (d0, r0, since, None) (enumerate 0 ss) = Inr st
         \<and> emitted facts a ss d0 r0 (length (enumerate 0 ss)) st)"
  proof (rule foldE_cases [where P = "\<lambda>ys. emitted facts a ss d0 r0 (length ys)"])
    show "emitted facts a ss d0 r0 (length []) (d0, r0, since, None)"
      using since by (auto simp: emitted_def copies_kept_def refreshed_by_def intro!: exI [of _ "\<lambda>_. EVICT"])
    fix ys x zs st
    assume inv: "emitted facts a ss d0 r0 (length ys) st" and split: "enumerate 0 ss = ys @ x # zs"
    have "enumerate 0 ss ! length ys = x" using split by simp
    moreover have k: "length ys < length ss" using arg_cong [OF split, of length] by simp
    ultimately have x: "x = (length ys, ss ! length ys)" by (simp add: nth_enumerate_eq)
    from emit_span_cases [OF inv k events_without_tasks [OF wf a]]
    show "(\<exists>e. emit_span facts a (length ss) st x = Inl e \<and> emission_refused e)
      \<or> (\<exists>st'. emit_span facts a (length ss) st x = Inr st' \<and> emitted facts a ss d0 r0 (length (ys @ [x])) st')"
      by (simp add: x)
  qed
  then show ?thesis by simp
qed

lemma emit_alias_cases:
  assumes wf: "wf_facts facts" and k: "k < alias_count facts" and inv: "plan_emitted facts plan k st"
  shows "(\<exists>e. emit_alias facts st (k, rp_spans plan ! k) = Inl e \<and> emission_refused e)
    \<or> (\<exists>st'. emit_alias facts st (k, rp_spans plan ! k) = Inr st' \<and> plan_emitted facts plan (Suc k) st')"
proof -
  let ?ss = "rp_spans plan ! k"
  obtain d0 r0 where st: "st = (d0, r0)" by (cases st)
  from inv obtain kinds where kinds: "plan_kept facts plan kinds k"
    and d0: "d0 = concat (map (alias_departures facts plan kinds) (moved facts k))"
    and r0: "r0 = concat (map (alias_reloads facts plan) (moved facts k))"
    and opens: "\<forall>a \<in> set (moved facts k). \<forall>i < length (rp_spans plan ! a). window_open facts a (rp_spans plan ! a) i"
    by (auto simp: plan_emitted_def st)
  show ?thesis
  proof (cases "?ss = [] \<or> fc_alias_sizes facts ! k = 0")
    case True
    then have "emit_alias facts st (k, ?ss) = Inr st" by (auto simp: emit_alias_def st)
    moreover have "plan_kept facts plan kinds (Suc k)"
      unfolding plan_kept_def
    proof
      fix a
      have "copies_kept facts a (rp_spans plan ! a) (kinds a)
          (if a \<in> set (moved facts k) then length (rp_spans plan ! a) else 0)"
        using kinds by (simp only: plan_kept_def)
      then show "copies_kept facts a (rp_spans plan ! a) (kinds a)
          (if a \<in> set (moved facts (Suc k)) then length (rp_spans plan ! a) else 0)"
        using True by (cases "a = k") (auto simp: moved_Suc set_moved)
    qed
    then have "plan_emitted facts plan (Suc k) st"
      using True d0 r0 opens by (auto simp: plan_emitted_def st moved_Suc alias_departures_def alias_reloads_def intro!: exI [of _ kinds])
    ultimately show ?thesis by blast
  next
    case False
    define since :: int where "since = (if fc_initial_locations facts ! k = Some SPILL
      \<or> fc_alias_retain_spill_copy facts ! k then - 1 else - 2)"
    have run: "emit_alias facts st (k, ?ss) = bindE (foldE (emit_span facts k (length ?ss)) (d0, r0, since, None)
        (enumerate 0 ?ss)) (\<lambda>(departures, reloads, _, _). Inr (departures, reloads))"
      using False by (simp add: emit_alias_def st since_def)
    have "since \<le> - 1" by (simp add: since_def)
    from emit_spans_cases [OF wf k this, of ?ss d0 r0] show ?thesis
    proof (elim disjE exE conjE)
      fix st'
      assume loop: "foldE (emit_span facts k (length ?ss)) (d0, r0, since, None) (enumerate 0 ?ss) = Inr st'"
        and out: "emitted facts k ?ss d0 r0 (length ?ss) st'"
      obtain departures reloads r p where st': "st' = (departures, reloads, r, p)" by (cases st')
      from out obtain f where f: "copies_kept facts k ?ss f (length ?ss)"
        and departures: "departures = d0 @ map (departure_at facts k ?ss f) (span_indices (leaves facts k ?ss) (length ?ss))"
        and reloads: "reloads = r0 @ alias_reloads facts plan k"
        and last: "\<forall>i < length ?ss. window_open facts k ?ss i"
        by (auto simp: emitted_def st' alias_reloads_def Let_def)
      have same: "map (alias_departures facts plan (kinds(k := f))) (moved facts k)
          = map (alias_departures facts plan kinds) (moved facts k)"
        by (rule map_cong) (auto simp: set_moved alias_departures_upd)
      have "departures = concat (map (alias_departures facts plan (kinds(k := f))) (moved facts (Suc k)))"
        using False unfolding departures d0 same [symmetric] by (simp add: moved_Suc alias_departures_def Let_def)
      moreover have "plan_kept facts plan (kinds(k := f)) (Suc k)"
        using kinds f False by (auto simp: plan_kept_def moved_Suc set_moved split: if_splits)
      moreover have "reloads = concat (map (alias_reloads facts plan) (moved facts (Suc k)))"
        using False by (simp add: reloads r0 moved_Suc)
      moreover have "\<forall>a \<in> set (moved facts (Suc k)). \<forall>i < length (rp_spans plan ! a). window_open facts a (rp_spans plan ! a) i"
        using opens last False by (simp add: moved_Suc)
      ultimately have "plan_emitted facts plan (Suc k) (departures, reloads)"
        unfolding plan_emitted_def prod.case by blast
      then show ?thesis using loop by (simp add: run st')
    qed (simp add: run)
  qed
qed

lemma emit_plan_cases:
  assumes wf: "wf_facts facts" and len: "length (rp_spans plan) = alias_count facts"
  shows "(\<exists>e. foldE (emit_alias facts) ([], []) (enumerate 0 (rp_spans plan)) = Inl e \<and> emission_refused e)
    \<or> (\<exists>st. foldE (emit_alias facts) ([], []) (enumerate 0 (rp_spans plan)) = Inr st
         \<and> plan_emitted facts plan (alias_count facts) st)"
proof -
  have "(\<exists>e. foldE (emit_alias facts) ([], []) (enumerate 0 (rp_spans plan)) = Inl e \<and> emission_refused e)
    \<or> (\<exists>st. foldE (emit_alias facts) ([], []) (enumerate 0 (rp_spans plan)) = Inr st
         \<and> plan_emitted facts plan (length (enumerate 0 (rp_spans plan))) st)"
  proof (rule foldE_cases [where P = "\<lambda>ys. plan_emitted facts plan (length ys)"])
    show "plan_emitted facts plan (length []) ([], [])"
      by (auto simp: plan_emitted_def plan_kept_def copies_kept_def moved_def intro!: exI [of _ "\<lambda>_ _. EVICT"])
    fix ys x zs st
    assume inv: "plan_emitted facts plan (length ys) st" and split: "enumerate 0 (rp_spans plan) = ys @ x # zs"
    have "enumerate 0 (rp_spans plan) ! length ys = x" using split by simp
    moreover have k: "length ys < alias_count facts" using arg_cong [OF split, of length] len by simp
    ultimately have x: "x = (length ys, rp_spans plan ! length ys)" using len by (simp add: nth_enumerate_eq)
    from emit_alias_cases [OF wf k inv]
    show "(\<exists>e. emit_alias facts st x = Inl e \<and> emission_refused e)
      \<or> (\<exists>st'. emit_alias facts st x = Inr st' \<and> plan_emitted facts plan (length (ys @ [x])) st')"
      by (simp add: x)
  qed
  then show ?thesis using len by simp
qed


section \<open>The windows of the emitted reloads\<close>

lemma fold_max_ge: "x \<in> insert m (set xs) \<Longrightarrow> x \<le> fold max xs (m :: int)"
  unfolding Max.set_eq_fold [symmetric] by (rule Max_ge) simp_all

lemma fold_min_le: "x \<in> insert m (set xs) \<Longrightarrow> fold min xs (m :: int) \<le> x"
  unfolding Min.set_eq_fold [symmetric] by (rule Min_le) simp_all

lemma max_of_ge: "x \<in> set xs \<Longrightarrow> x \<le> max_of xs"
  unfolding max_of_def by (rule fold_max_ge) (cases xs, auto)

lemma min_of_le: "x \<in> set xs \<Longrightarrow> min_of xs \<le> x"
  unfolding min_of_def by (rule fold_min_le) (cases xs, auto)

lemma leave_task_bounds:
  assumes wf: "wf_facts facts" and a: "a < alias_count facts" and tasks: "fc_tasks facts \<noteq> []"
  shows "0 \<le> leave_task facts a s" and "leave_task facts a s \<le> last_boundary facts"
    and "\<And>b t. (b, t) \<in> set (events_in_span facts a s) \<Longrightarrow> t \<le> leave_task facts a s"
proof -
  have range: "0 \<le> t \<and> t \<le> last_boundary facts" if "(b, t) \<in> set (fc_access_events facts ! a)" for b t
    using wf a that by (fastforce simp: wf_facts_def wf_events_def)
  have "0 \<le> leave_task facts a s \<and> leave_task facts a s \<le> last_boundary facts"
  proof (cases "events_in_span facts a s = []")
    case True
    then show ?thesis using tasks by (cases "fc_tasks facts") (auto simp: leave_task_def last_boundary_def)
  next
    case False
    then have "leave_task facts a s \<in> set (map snd (events_in_span facts a s))"
      using max_of_mem [of "map snd (events_in_span facts a s)"] by (simp add: leave_task_def Let_def)
    then show ?thesis using range by (auto simp: events_in_span_def)
  qed
  then show "0 \<le> leave_task facts a s" "leave_task facts a s \<le> last_boundary facts" by simp_all
  fix b t
  assume event: "(b, t) \<in> set (events_in_span facts a s)"
  then have "t \<in> set (map snd (events_in_span facts a s))" by force
  then have "t \<le> max_of (map snd (events_in_span facts a s))" by (rule max_of_ge)
  then show "t \<le> leave_task facts a s" using event by (auto simp: leave_task_def Let_def)
qed

lemma entry_deadline_bounds:
  assumes wf: "wf_facts facts" and a: "a < alias_count facts"
  shows "entry_deadline facts a s \<le> last_boundary facts"
    and "\<And>b t. (b, t) \<in> set (events_in_span facts a s) \<Longrightarrow> entry_deadline facts a s < t"
    and "events_in_span facts a s \<noteq> [] \<Longrightarrow> \<exists>b t. (b, t) \<in> set (events_in_span facts a s) \<and> entry_deadline facts a s = t - 1"
proof -
  have range: "0 \<le> t \<and> t \<le> last_boundary facts" if "(b, t) \<in> set (fc_access_events facts ! a)" for b t
    using wf a that by (fastforce simp: wf_facts_def wf_events_def)
  show first: "\<exists>b t. (b, t) \<in> set (events_in_span facts a s) \<and> entry_deadline facts a s = t - 1"
    if "events_in_span facts a s \<noteq> []"
  proof -
    have "min_of (map snd (events_in_span facts a s)) \<in> set (map snd (events_in_span facts a s))"
      using that by (intro min_of_mem) simp
    then show ?thesis using that by (auto simp: entry_deadline_def Let_def)
  qed
  show "entry_deadline facts a s \<le> last_boundary facts"
  proof (cases "events_in_span facts a s = []")
    case False
    from first [OF this] range show ?thesis by (fastforce simp: events_in_span_def)
  qed (simp add: entry_deadline_def)
  fix b t
  assume event: "(b, t) \<in> set (events_in_span facts a s)"
  then have "t \<in> set (map snd (events_in_span facts a s))" by force
  then have "min_of (map snd (events_in_span facts a s)) \<le> t" by (rule min_of_le)
  then show "entry_deadline facts a s < t" using event by (auto simp: entry_deadline_def Let_def)
qed

text \<open>Where a reload is due, its alias is resident from the entry on.\<close>

lemma span_until_deadline:
  assumes wf: "wf_facts facts" and clean: "clean_plan facts plan" and backed: "backed_anchors facts"
    and a: "a < alias_count facts" and s: "s \<in> set (rp_spans plan ! a)" and enter: "enters facts a s"
    and b: "sp_start s \<le> b" "b < entry_deadline facts a s"
  shows "span_contains s b"
proof -
  have spans: "wf_span facts s" "sp_end s \<in> fc_anchors facts ! a"
    "(sp_start s - 1, sp_start s) \<notin> set (fc_access_events facts ! a)"
    using clean a s by (auto simp: clean_plan_def plan_ok_def spans_ok_def clean_spans_def)
  have "b \<le> sp_end s"
  proof (cases "events_in_span facts a s = []")
    case False
    from entry_deadline_bounds(3) [OF wf a False] obtain x t where
      event: "(x, t) \<in> set (events_in_span facts a s)" "entry_deadline facts a s = t - 1" by blast
    then have "(x, t) \<in> set (fc_access_events facts ! a)" "x \<le> sp_end s" by (auto simp: events_in_span_def)
    moreover from this(1) have "t \<le> x + 1" using wf a by (fastforce simp: wf_facts_def wf_events_def)
    ultimately show ?thesis using b(2) event(2) by simp
  next
    case True
    then have none: "(x, t) \<notin> set (fc_access_events facts ! a)" if "sp_start s \<le> x" "x \<le> sp_end s" for x t
      using that by (auto simp: events_in_span_def filter_empty_conv)
    have "sp_start s \<le> sp_end s" using spans(1) by (simp add: wf_span_def)
    with none have "(sp_end s, t) \<notin> set (fc_access_events facts ! a)" for t by blast
    moreover have "(sp_end s - 1, sp_end s) \<notin> set (fc_access_events facts ! a)"
      using none [of "sp_end s - 1" "sp_end s"] spans(3) \<open>sp_start s \<le> sp_end s\<close>
      by (cases "sp_start s = sp_end s") auto
    moreover have "\<not> (sp_end s = - 1 \<and> fc_initial_locations facts ! a = Some DEVICE)"
      using enter spans(1) by (auto simp: enters_def wf_span_def)
    ultimately have "sp_end s = last_boundary facts" using backed a spans(2) unfolding backed_anchors_def by blast
    moreover have "entry_deadline facts a s = last_boundary facts" using True by (simp add: entry_deadline_def)
    ultimately show ?thesis using b(2) by simp
  qed
  then show ?thesis using b(1) by (simp add: span_contains_def)
qed

lemma emitted_reload_ok:
  assumes wf: "wf_facts facts" and clean: "clean_plan facts plan" and backed: "backed_anchors facts"
    and a: "a < alias_count facts" and i: "i < length (rp_spans plan ! a)"
    and enter: "enters facts a (rp_spans plan ! a ! i)" and opened: "window_open facts a (rp_spans plan ! a) i"
  shows "window facts (reload_at facts a (rp_spans plan ! a) i) \<and> held_after_entry plan (reload_at facts a (rp_spans plan ! a) i)"
proof -
  let ?s = "rp_spans plan ! a ! i" and ?r = "reload_at facts a (rp_spans plan ! a) i"
  have s: "?s \<in> set (rp_spans plan ! a)" using i by simp
  have tasks: "fc_tasks facts \<noteq> []" and order: "rl_earliest_trigger ?r \<le> rl_latest_trigger ?r"
    using opened enter by (simp_all add: window_open_def)
  have "0 \<le> rl_earliest_trigger ?r" using leave_task_bounds(1) [OF wf a tasks] by (simp add: reload_at_def)
  moreover have "wf_span facts ?s" using clean a s by (simp add: clean_plan_def plan_ok_def spans_ok_def)
  ultimately have "window facts ?r"
    using order entry_deadline_bounds(1) [OF wf a] a by (simp add: window_def reload_at_def wf_span_def)
  moreover have "held_after_entry plan ?r"
    unfolding held_after_entry_def
  proof (intro allI impI)
    fix b
    assume "rl_entry_boundary ?r \<le> b" "b < rl_latest_trigger ?r"
    then have "span_contains ?s b"
      by (intro span_until_deadline [OF wf clean backed a s enter]) (simp_all add: reload_at_def)
    then show "plan_resident plan (rl_alias ?r) b"
      using s by (auto simp: plan_resident_def list_ex_iff reload_at_def)
  qed
  ultimately show ?thesis by blast
qed

lemma plan_emitted_windows:
  assumes wf: "wf_facts facts" and clean: "clean_plan facts plan" and backed: "backed_anchors facts"
    and emitted: "plan_emitted facts plan (alias_count facts) (departures, reloads)"
  shows "\<forall>r \<in> set reloads. window facts r \<and> held_after_entry plan r"
    and "\<forall>d \<in> set departures. dp_alias d < alias_count facts \<and> dp_kind d \<in> {RELEASE, EVICT}
       \<and> 0 \<le> dp_trigger d \<and> dp_trigger d \<le> last_boundary facts"
proof -
  from emitted obtain kinds where kinds: "plan_kept facts plan kinds (alias_count facts)"
    and d: "departures = concat (map (alias_departures facts plan kinds) (moved facts (alias_count facts)))"
    and r: "reloads = concat (map (alias_reloads facts plan) (moved facts (alias_count facts)))"
    and opens: "\<forall>a \<in> set (moved facts (alias_count facts)). \<forall>i < length (rp_spans plan ! a).
      window_open facts a (rp_spans plan ! a) i" by (auto simp: plan_emitted_def)
  show "\<forall>r \<in> set reloads. window facts r \<and> held_after_entry plan r"
  proof
    fix x
    assume "x \<in> set reloads"
    then obtain a i where a: "a \<in> set (moved facts (alias_count facts))" and i: "i < length (rp_spans plan ! a)"
      "enters facts a (rp_spans plan ! a ! i)" "x = reload_at facts a (rp_spans plan ! a) i"
      by (auto simp: r alias_reloads_def Let_def span_indices_def)
    then show "window facts x \<and> held_after_entry plan x"
      using opens emitted_reload_ok [OF wf clean backed] by (simp add: set_moved)
  qed
  show "\<forall>d \<in> set departures. dp_alias d < alias_count facts \<and> dp_kind d \<in> {RELEASE, EVICT}
       \<and> 0 \<le> dp_trigger d \<and> dp_trigger d \<le> last_boundary facts"
  proof
    fix x
    assume "x \<in> set departures"
    then obtain a i where a: "a \<in> set (moved facts (alias_count facts))" and i: "i < length (rp_spans plan ! a)"
      "x = departure_at facts a (rp_spans plan ! a) (kinds a) i"
      by (auto simp: d alias_departures_def Let_def span_indices_def)
    moreover have "fc_tasks facts \<noteq> []" using opens a i(1) by (auto simp: window_open_def)
    ultimately show "dp_alias x < alias_count facts \<and> dp_kind x \<in> {RELEASE, EVICT}
        \<and> 0 \<le> dp_trigger x \<and> dp_trigger x \<le> last_boundary facts"
      using leave_task_bounds(1,2) [OF wf] plan_kept_kinds [OF kinds] by (simp add: departure_at_def set_moved)
  qed
qed

end
