(* ===== verification/PressureFit_Assembly.thy ===== *)
theory PressureFit_Assembly
  imports PressureFit_Spans
begin

text \<open>
  The schedule that \<^verbatim>\<open>emit_schedule\<close> assembles: the departures and fetches in the order of their
  triggers, releases before evictions before fetches, each fetch in its window, and the initial and
  final residency of the facts. Only the validation of the schedule can still refuse it.
\<close>

section \<open>Actions by task\<close>

type_synonym item = "int \<times> nat \<times> memory_action_kind"

definition table_items :: "task_table \<Rightarrow> item list" where
  "table_items table = concat (map (\<lambda>(t, xs). map (Pair t) xs) table)"

lemma table_items_add: "mset (table_items (add_action t x table)) = add_mset (t, x) (mset (table_items table))"
  unfolding table_items_def add_action_def by (induction table) auto

lemma add_action_keys:
  "distinct (map fst table) \<Longrightarrow> distinct (map fst (add_action t x table))"
  "fst ` set (add_action t x table) = insert t (fst ` set table)"
  by (simp_all add: add_action_def distinct_map_default dom_map_default)

lemma departures_table:
  assumes "distinct (map fst table)"
  shows "distinct (map fst (fold (\<lambda>d table. add_action (dp_trigger d) (dp_alias d, dp_kind d) table) ds table))"
    and "fst ` set (fold (\<lambda>d table. add_action (dp_trigger d) (dp_alias d, dp_kind d) table) ds table)
      = fst ` set table \<union> dp_trigger ` set ds"
    and "mset (table_items (fold (\<lambda>d table. add_action (dp_trigger d) (dp_alias d, dp_kind d) table) ds table))
      = mset (table_items table) + mset (map (\<lambda>d. (dp_trigger d, dp_alias d, dp_kind d)) ds)"
  using assms
proof (induction ds arbitrary: table)
  case (Cons d ds)
  {
    case 1
    with add_action_keys(1) show ?case using Cons.IH(1) by simp
  next
    case 2
    then show ?case using Cons.IH(2) [OF add_action_keys(1)] add_action_keys(2) by simp
  next
    case 3
    then show ?case using Cons.IH(3) [OF add_action_keys(1)] by (simp add: table_items_add)
  }
qed simp_all

lemma actions_by_task_result:
  assumes "triggers_of (set reloads) T"
  shows "\<exists>table. actions_by_task departures reloads T = Inr table \<and> distinct (map fst table)
    \<and> fst ` set table = dp_trigger ` set departures \<union> (\<lambda>r. the (map_of T r)) ` set reloads
    \<and> mset (table_items table) = mset (map (\<lambda>d. (dp_trigger d, dp_alias d, dp_kind d)) departures
        @ map (\<lambda>r. (the (map_of T r), rl_alias r, FETCH)) reloads)"
proof -
  let ?table0 = "fold (\<lambda>d table. add_action (dp_trigger d) (dp_alias d, dp_kind d) table) departures []"
  let ?items = "\<lambda>rs. map (\<lambda>r. (the (map_of T r), rl_alias r, FETCH)) rs"
  have "\<exists>table. foldE (\<lambda>table r. bindE (dict_get (map_of T) r) (\<lambda>t. Inr (add_action t (rl_alias r, FETCH) table)))
      ?table0 reloads = Inr table \<and> distinct (map fst table)
      \<and> fst ` set table = dp_trigger ` set departures \<union> (\<lambda>r. the (map_of T r)) ` set reloads
      \<and> mset (table_items table) = mset (table_items ?table0) + mset (?items reloads)"
  proof (rule foldE_total [where P = "\<lambda>ys table. distinct (map fst table)
      \<and> fst ` set table = dp_trigger ` set departures \<union> (\<lambda>r. the (map_of T r)) ` set ys
      \<and> mset (table_items table) = mset (table_items ?table0) + mset (?items ys)"])
    show "distinct (map fst ?table0)
      \<and> fst ` set ?table0 = dp_trigger ` set departures \<union> (\<lambda>r. the (map_of T r)) ` set []
      \<and> mset (table_items ?table0) = mset (table_items ?table0) + mset (?items [])"
      using departures_table(1,2) [of "[]" departures] by simp
    fix ys r zs table
    assume inv: "distinct (map fst table)
        \<and> fst ` set table = dp_trigger ` set departures \<union> (\<lambda>r. the (map_of T r)) ` set ys \<and> mset (table_items table) = mset (table_items ?table0) + mset (?items ys)"
      and split: "reloads = ys @ r # zs"
    have "r \<in> fst ` set T" using assms split by (simp add: triggers_of_def)
    then obtain t where "map_of T r = Some t" by (metis map_of_eq_None_iff option.exhaust)
    then show "\<exists>table'. bindE (dict_get (map_of T) r) (\<lambda>t. Inr (add_action t (rl_alias r, FETCH) table)) = Inr table'
        \<and> distinct (map fst table')
        \<and> fst ` set table' = dp_trigger ` set departures \<union> (\<lambda>r. the (map_of T r)) ` set (ys @ [r])
        \<and> mset (table_items table') = mset (table_items ?table0) + mset (?items (ys @ [r]))"
      using inv add_action_keys by (simp add: table_items_add)
  qed
  moreover have "mset (table_items ?table0) = mset (map (\<lambda>d. (dp_trigger d, dp_alias d, dp_kind d)) departures)"
    using departures_table(3) [of "[]" departures] by (simp add: table_items_def)
  ultimately show ?thesis by (simp add: actions_by_task_def)
qed


section \<open>The order of the actions\<close>

definition item_key :: "planning_facts \<Rightarrow> item \<Rightarrow> py_error + (int \<times> int \<times> int \<times> nat)" where
  "item_key facts = (\<lambda>(t, a, k). action_priority facts t a k)"

definition action_of :: "planning_facts \<Rightarrow> item \<Rightarrow> memory_action" where
  "action_of facts = (\<lambda>(t, a, k). \<lparr>ma_trigger_task_id = tk_task_id (fc_tasks facts ! nat t),
     ma_alias_group_id = fc_alias_ids facts ! a, ma_kind = k\<rparr>)"

lemma sorted_by_result:
  assumes "\<And>x. x \<in> set xs \<Longrightarrow> \<exists>v. key x = Inr v"
  shows "\<exists>ys. sorted_by key xs = Inr ys \<and> mset ys = mset xs \<and> (\<exists>keys. mapE key ys = Inr keys \<and> sorted keys)"
proof -
  let ?key = "\<lambda>x. projr (key x)"
  have run: "mapE key xs = Inr (map ?key xs)" using assms by (intro mapE_Inr_all) force
  let ?zs = "sort_key fst (zip (map ?key xs) xs)"
  have keyed: "key (snd z) = Inr (fst z)" if "z \<in> set ?zs" for z
  proof -
    from that obtain i where "i < length xs" "z = (?key (xs ! i), xs ! i)" by (auto simp: set_zip)
    with assms [of "xs ! i"] show ?thesis by auto
  qed
  then have "mapE key (map snd ?zs) = Inr (map fst ?zs)" unfolding mapE_Inr_map by (intro mapE_Inr_all) simp
  moreover have "mset (map snd ?zs) = mset (map snd (zip (map ?key xs) xs))" by (simp only: mset_map mset_sort)
  then have "mset (map snd ?zs) = mset xs" by simp
  moreover have "sorted (map fst ?zs)" by simp
  ultimately show ?thesis using run by (auto simp: sorted_by_def)
qed

lemma action_priority_total:
  assumes "k \<in> {RELEASE, EVICT, FETCH}"
  shows "\<exists>order consumer. action_priority facts t a k = Inr (t, order, consumer, a)"
proof -
  let ?cs = "fc_input_tasks facts ! a"
  from bisect_right_result [of 0 "length ?cs" ?cs t] obtain i where "bisect_right ?cs t 0 (length ?cs) = Inr i" by auto
  then show ?thesis
    using assms by (auto simp: action_priority_def kind_order_def dict_get_def Let_def)
qed

definition named_ok :: "planning_facts \<Rightarrow> bool" where
  "named_ok facts \<longleftrightarrow> (\<forall>t \<in> set (fc_tasks facts). is_identifier (tk_task_id t))
     \<and> (\<forall>x \<in> set (fc_alias_ids facts). is_identifier x) \<and> distinct (fc_alias_ids facts)"

definition proper_item :: "planning_facts \<Rightarrow> item \<Rightarrow> bool" where
  "proper_item facts = (\<lambda>(t, a, k). 0 \<le> t \<and> t \<le> last_boundary facts \<and> a < alias_count facts
     \<and> k \<in> {RELEASE, EVICT, FETCH})"

lemma task_memory_actions_result:
  assumes named: "named_ok facts" and table: "distinct (map fst table)" "(t, xs) \<in> set table"
    and proper: "\<forall>x \<in> set xs. proper_item facts (t, x)" and t: "0 \<le> t" "t \<le> last_boundary facts"
  shows "\<exists>ys. task_memory_actions facts table t = Inr (map (\<lambda>x. action_of facts (t, x)) ys) \<and> mset ys = mset xs
    \<and> (\<exists>keys. mapE (item_key facts) (map (Pair t) ys) = Inr keys \<and> sorted keys \<and> (\<forall>key \<in> set keys. fst key = t))"
proof -
  let ?key = "\<lambda>(a, k). action_priority facts t a k"
  have get: "dict_get (map_of table) t = Inr xs" using table by simp
  have keyed: "\<exists>v. ?key x = Inr v" if x: "x \<in> set xs" for x
  proof -
    obtain a k where ak: "x = (a, k)" by (cases x)
    with proper x have "k \<in> {RELEASE, EVICT, FETCH}" by (auto simp: proper_item_def)
    from action_priority_total [OF this, of facts t a] show ?thesis by (auto simp: ak)
  qed
  from sorted_by_result [where key = ?key and xs = xs, OF keyed] obtain ys keys where ys: "sorted_by ?key xs = Inr ys" "mset ys = mset xs"
    and keys: "mapE ?key ys = Inr keys" "sorted keys" by blast
  have same: "set ys = set xs" using ys(2) mset_eq_setD by blast
  have nth: "py_nth (fc_tasks facts) t = Inr (fc_tasks facts ! nat t)" "fc_tasks facts ! nat t \<in> set (fc_tasks facts)"
    using t py_nth_nat [of "nat t" "fc_tasks facts"] by (simp_all add: last_boundary_def)
  have "mapE (\<lambda>(a, k). bindE (py_nth (fc_tasks facts) t) (\<lambda>trigger. construct memory_action_post_init
      \<lparr>ma_trigger_task_id = tk_task_id trigger, ma_alias_group_id = fc_alias_ids facts ! a, ma_kind = k\<rparr>)) ys
    = Inr (map (\<lambda>x. action_of facts (t, x)) ys)"
  proof (rule mapE_Inr_all)
    fix x
    assume "x \<in> set ys"
    then have "proper_item facts (t, x)" using proper same by blast
    then show "(case x of (a, k) \<Rightarrow> bindE (py_nth (fc_tasks facts) t) (\<lambda>trigger. construct memory_action_post_init
      \<lparr>ma_trigger_task_id = tk_task_id trigger, ma_alias_group_id = fc_alias_ids facts ! a, ma_kind = k\<rparr>))
      = Inr (action_of facts (t, x))"
      using named nth by (auto simp: proper_item_def named_ok_def action_of_def construct_def
          memory_action_post_init_def bindE_Inr_iff)
  qed
  then have "task_memory_actions facts table t = Inr (map (\<lambda>x. action_of facts (t, x)) ys)"
    using get ys(1) by (simp add: task_memory_actions_def)
  moreover have "mapE (item_key facts) (map (Pair t) ys) = Inr keys"
    using keys(1) by (simp add: mapE_Inr_map item_key_def)
  moreover have "\<forall>key \<in> set keys. fst key = t"
  proof
    fix key
    assume "key \<in> set keys"
    then obtain i where i: "i < length keys" "key = keys ! i" by (auto simp: in_set_conv_nth)
    obtain a k where ak: "ys ! i = (a, k)" by (cases "ys ! i")
    have len: "length keys = length ys" by (rule mapE_length [OF keys(1)])
    with i ak have "action_priority facts t a k = Inr key" using mapE_nth [OF keys(1), of i] by simp
    moreover have "proper_item facts (t, a, k)" using proper same i ak len nth_mem [of i ys] by auto
    ultimately show "fst key = t" using action_priority_total [of k facts t a] by (auto simp: proper_item_def)
  qed
  ultimately show ?thesis using ys(2) keys(2) by blast
qed

lemma mapE_append: "mapE f xs = Inr us \<Longrightarrow> mapE f ys = Inr vs \<Longrightarrow> mapE f (xs @ ys) = Inr (us @ vs)"
  by (induction xs arbitrary: us) auto

lemma keys_of_tasks:
  assumes "sorted ts" "distinct ts"
    and "\<And>t. t \<in> set ts \<Longrightarrow> \<exists>keys. mapE (item_key facts) (map (Pair t) (F t)) = Inr keys \<and> sorted keys
      \<and> (\<forall>key \<in> set keys. fst key = t)"
  shows "\<exists>keys. mapE (item_key facts) (concat (map (\<lambda>t. map (Pair t) (F t)) ts)) = Inr keys \<and> sorted keys
    \<and> fst ` set keys \<subseteq> set ts"
  using assms
proof (induction ts)
  case (Cons t ts)
  from Cons.IH Cons.prems obtain later where later: "sorted later" "fst ` set later \<subseteq> set ts"
    "mapE (item_key facts) (concat (map (\<lambda>t. map (Pair t) (F t)) ts)) = Inr later" by auto
  from Cons.prems(3) obtain keys where keys: "mapE (item_key facts) (map (Pair t) (F t)) = Inr keys" "sorted keys"
    "\<forall>key \<in> set keys. fst key = t" by fastforce
  have "t < u" if "u \<in> set ts" for u using Cons.prems(1,2) that by (cases "t = u") auto
  then have "x \<le> y" if "x \<in> set keys" "y \<in> set later" for x y
    using that keys(3) later(2) by (cases x; cases y) (force simp: less_eq_prod_def)
  then have "sorted (keys @ later)" using keys(2) later(1) by (simp add: sorted_append)
  then show ?case using mapE_append [OF keys(1) later(3)] keys(3) later(2) by (auto intro!: exI [of _ "keys @ later"])
qed simp


section \<open>The schedule\<close>

definition placements :: "planning_facts \<Rightarrow> memory_location option list \<Rightarrow> residency_spec list" where
  "placements facts locations = map (\<lambda>a. \<lparr>rd_alias_group_id = fc_alias_ids facts ! a, rd_location = the (locations ! a)\<rparr>)
     (filter (\<lambda>a. locations ! a \<noteq> None \<and> fc_alias_sizes facts ! a \<noteq> 0) [0..<alias_count facts])"

lemma enumerate_nth: "enumerate 0 xs = map (\<lambda>i. (i, xs ! i)) [0..<length xs]"
  by (rule nth_equalityI) (simp_all add: nth_enumerate_eq)

lemma residency_schedules:
  assumes "named_ok facts"
  shows "length (fc_initial_locations facts) = alias_count facts \<Longrightarrow>
      initial_schedule facts = Inr (placements facts (fc_initial_locations facts))"
    and "length (fc_final_locations facts) = alias_count facts \<Longrightarrow>
      final_schedule facts = Inr (placements facts (fc_final_locations facts))"
proof -
  have place: "mapE (\<lambda>(alias, location). construct residency_spec_post_init
         \<lparr>rd_alias_group_id = fc_alias_ids facts ! alias, rd_location = the location\<rparr>)
       (filter (\<lambda>(alias, location). location \<noteq> None \<and> fc_alias_sizes facts ! alias \<noteq> 0)
         (enumerate 0 locations)) = Inr (placements facts locations)"
    if "length locations = alias_count facts" for locations
    unfolding enumerate_nth that filter_map mapE_Inr_map placements_def comp_def prod.case
    using assms by (intro mapE_Inr_all) (auto simp: construct_def residency_spec_post_init_def named_ok_def bindE_Inr_iff)
  show "length (fc_initial_locations facts) = alias_count facts \<Longrightarrow>
      initial_schedule facts = Inr (placements facts (fc_initial_locations facts))"
    using place [of "fc_initial_locations facts"] by (simp add: initial_schedule_def)
  show "length (fc_final_locations facts) = alias_count facts \<Longrightarrow>
      final_schedule facts = Inr (placements facts (fc_final_locations facts))"
    using place [of "fc_final_locations facts"] by (simp add: final_schedule_def)
qed

lemma placements_unique:
  assumes "named_ok facts"
  shows "distinct (map rd_alias_group_id (placements facts locations))"
    and "\<forall>x \<in> set (map rd_alias_group_id (placements facts locations)). is_identifier x"
proof -
  let ?as = "filter (\<lambda>a. locations ! a \<noteq> None \<and> fc_alias_sizes facts ! a \<noteq> 0) [0..<alias_count facts]"
  have ids: "map rd_alias_group_id (placements facts locations) = map ((!) (fc_alias_ids facts)) ?as"
    by (simp add: placements_def)
  have "inj_on ((!) (fc_alias_ids facts)) (set ?as)" using assms by (intro inj_on_nth) (auto simp: named_ok_def)
  then show "distinct (map rd_alias_group_id (placements facts locations))" unfolding ids by (simp add: distinct_map)
  show "\<forall>x \<in> set (map rd_alias_group_id (placements facts locations)). is_identifier x"
    unfolding ids using assms by (auto simp: named_ok_def)
qed

text \<open>What the emission is meant to do with a plan.\<close>

definition plan_items ::
    "planning_facts \<Rightarrow> residency_plan \<Rightarrow> (nat \<Rightarrow> nat \<Rightarrow> memory_action_kind) \<Rightarrow> (nat \<Rightarrow> nat \<Rightarrow> int) \<Rightarrow> item list" where
  "plan_items facts plan kinds fetch = concat (map (\<lambda>a.
       map (\<lambda>i. (leave_task facts a (rp_spans plan ! a ! i), a, kinds a i))
         (span_indices (leaves facts a (rp_spans plan ! a)) (length (rp_spans plan ! a)))
       @ map (\<lambda>i. (fetch a i, a, FETCH))
         (span_indices (\<lambda>i. enters facts a (rp_spans plan ! a ! i)) (length (rp_spans plan ! a))))
     (moved facts (alias_count facts)))"

definition realizes ::
    "planning_facts \<Rightarrow> residency_plan \<Rightarrow> memory_schedule \<Rightarrow> (nat \<Rightarrow> nat \<Rightarrow> memory_action_kind) \<Rightarrow> (nat \<Rightarrow> nat \<Rightarrow> int) \<Rightarrow> bool" where
  "realizes facts plan s kinds fetch \<longleftrightarrow>
     ms_initial_residency s = placements facts (fc_initial_locations facts)
     \<and> ms_final_residency s = placements facts (fc_final_locations facts)
     \<and> (\<exists>items keys. ms_actions s = map (action_of facts) items \<and> mset items = mset (plan_items facts plan kinds fetch)
          \<and> mapE (item_key facts) items = Inr keys \<and> sorted keys)
     \<and> plan_kept facts plan kinds (alias_count facts)
     \<and> (\<forall>a \<in> set (moved facts (alias_count facts)). \<forall>i < length (rp_spans plan ! a).
          enters facts a (rp_spans plan ! a ! i) \<longrightarrow>
            0 \<le> fetch a i \<and> (i \<noteq> 0 \<longrightarrow> leave_task facts a (rp_spans plan ! a ! (i - 1)) < fetch a i)
            \<and> fetch a i \<le> last_boundary facts
            \<and> (\<forall>(b, t) \<in> set (events_in_span facts a (rp_spans plan ! a ! i)). fetch a i < t))"

lemma sum_list_sort: "sum_list (map f (sort xs)) = (sum_list (map f xs) :: 'a multiset)"
  by (metis mset_map mset_sort sum_mset_sum_list)

lemma assemble_schedule_result:
  assumes wf: "wf_facts facts" and named: "named_ok facts" and T: "triggers_of (set reloads) T"
    and proper: "\<forall>x \<in> set (map (\<lambda>d. (dp_trigger d, dp_alias d, dp_kind d)) departures
        @ map (\<lambda>r. (the (map_of T r), rl_alias r, FETCH)) reloads). proper_item facts x"
  shows "\<exists>s items keys. assemble_schedule facts departures reloads T
      = bindE (validate_selected s (fc_program facts) (fc_tasks facts)) (\<lambda>_. Inr s)
    \<and> ms_initial_residency s = placements facts (fc_initial_locations facts)
    \<and> ms_final_residency s = placements facts (fc_final_locations facts)
    \<and> ms_actions s = map (action_of facts) items
    \<and> mset items = mset (map (\<lambda>d. (dp_trigger d, dp_alias d, dp_kind d)) departures
        @ map (\<lambda>r. (the (map_of T r), rl_alias r, FETCH)) reloads)
    \<and> mapE (item_key facts) items = Inr keys \<and> sorted keys"
proof -
  let ?all = "map (\<lambda>d. (dp_trigger d, dp_alias d, dp_kind d)) departures
    @ map (\<lambda>r. (the (map_of T r), rl_alias r, FETCH)) reloads"
  from actions_by_task_result [OF T, of departures] obtain table where
    table: "actions_by_task departures reloads T = Inr table" "distinct (map fst table)"
    and keys: "fst ` set table = dp_trigger ` set departures \<union> (\<lambda>r. the (map_of T r)) ` set reloads"
    and items: "mset (table_items table) = mset ?all" by blast
  have row: "\<exists>ys. task_memory_actions facts table t = Inr (map (\<lambda>x. action_of facts (t, x)) ys)
      \<and> mset ys = mset (the (map_of table t))
      \<and> (\<exists>keys. mapE (item_key facts) (map (Pair t) ys) = Inr keys \<and> sorted keys \<and> (\<forall>key \<in> set keys. fst key = t))"
    if t: "t \<in> set (map fst table)" for t
  proof -
    from t obtain xs where xs: "(t, xs) \<in> set table" by auto
    have "\<forall>x \<in> set xs. proper_item facts (t, x)"
    proof
      fix x
      assume "x \<in> set xs"
      then have "(t, x) \<in> set (table_items table)" using xs by (force simp: table_items_def)
      then show "proper_item facts (t, x)" using proper mset_eq_setD [OF items] by blast
    qed
    moreover have "0 \<le> t \<and> t \<le> last_boundary facts"
    proof -
      have "t \<in> fst ` set ?all" using t keys by (auto simp: image_Un image_image)
      then obtain x where "x \<in> set ?all" "t = fst x" by blast
      moreover from this(1) proper have "proper_item facts x" by blast
      ultimately show ?thesis by (simp add: proper_item_def case_prod_unfold)
    qed
    ultimately show ?thesis
      using task_memory_actions_result [OF named table(2) xs] table(2) xs by (simp add: map_of_is_SomeI)
  qed
  from row obtain F where F: "\<And>t. t \<in> set (map fst table) \<Longrightarrow>
      task_memory_actions facts table t = Inr (map (\<lambda>x. action_of facts (t, x)) (F t))
      \<and> mset (F t) = mset (the (map_of table t))
      \<and> (\<exists>keys. mapE (item_key facts) (map (Pair t) (F t)) = Inr keys \<and> sorted keys \<and> (\<forall>key \<in> set keys. fst key = t))"
    by metis
  let ?ts = "sort (map fst table)"
  let ?items = "concat (map (\<lambda>t. map (Pair t) (F t)) ?ts)"
  have rows: "mapE (task_memory_actions facts table) ?ts
      = Inr (map (\<lambda>t. map (\<lambda>x. action_of facts (t, x)) (F t)) ?ts)"
    using F by (intro mapE_Inr_all) simp
  have actions: "concat (map (\<lambda>t. map (\<lambda>x. action_of facts (t, x)) (F t)) ?ts) = map (action_of facts) ?items"
    by (simp add: map_concat comp_def)
  have "mset ?items = sum_list (map (\<lambda>t. mset (map (Pair t) (F t))) ?ts)" by (simp add: mset_concat comp_def)
  also have "\<dots> = sum_list (map (\<lambda>t. mset (map (Pair t) (F t))) (map fst table))" by (rule sum_list_sort)
  also have "\<dots> = sum_list (map (\<lambda>(t, xs). mset (map (Pair t) xs)) table)"
    unfolding map_map comp_def
  proof (intro arg_cong [of _ _ sum_list] map_cong refl)
    fix x
    assume x: "x \<in> set table"
    obtain t xs where tx: "x = (t, xs)" by (cases x)
    with x have "map_of table t = Some xs" using table(2) by simp
    moreover have "t \<in> set (map fst table)" using x tx by force
    ultimately have "mset (F t) = mset xs" using F by simp
    then show "mset (map (Pair (fst x)) (F (fst x))) = (case x of (t, xs) \<Rightarrow> mset (map (Pair t) xs))" by (simp add: tx)
  qed
  also have "\<dots> = mset (table_items table)"
    by (simp add: table_items_def mset_concat comp_def case_prod_unfold)
  finally have all: "mset ?items = mset ?all" using items by simp
  obtain ks where ks: "mapE (item_key facts) ?items = Inr ks" "sorted ks"
    using keys_of_tasks [of ?ts facts F] table(2) F by auto
  let ?s = "\<lparr>ms_initial_residency = placements facts (fc_initial_locations facts),
    ms_actions = map (action_of facts) ?items, ms_final_residency = placements facts (fc_final_locations facts)\<rparr>"
  have lens: "length (fc_initial_locations facts) = alias_count facts" "length (fc_final_locations facts) = alias_count facts"
    using wf by (simp_all add: wf_facts_def wf_tables_def)
  have unique: "\<exists>m. index_unique (map rd_alias_group_id (placements facts locations)) path = Inr m" for locations path
    unfolding index_unique_run using placements_unique [OF named] by blast
  have "construct memory_schedule_post_init ?s = Inr ?s"
    using unique by (auto simp: construct_def memory_schedule_post_init_def bindE_Inr_iff)
  then have "assemble_schedule facts departures reloads T
      = bindE (validate_selected ?s (fc_program facts) (fc_tasks facts)) (\<lambda>_. Inr ?s)"
    unfolding assemble_schedule_def table(1) rows residency_schedules(1) [OF named lens(1)]
      residency_schedules(2) [OF named lens(2)] bindE_simps actions by simp
  then show ?thesis using all ks by (intro exI [of _ ?s] exI [of _ ?items] exI [of _ ks]) simp
qed


section \<open>The emission\<close>

lemma mset_concat_append:
  "mset (concat (map (\<lambda>a. f a @ g a) xs)) = mset (concat (map f xs) @ concat (map g xs))"
  by (induction xs) auto

lemma emitted_items:
  assumes "departures = concat (map (alias_departures facts plan kinds) (moved facts (alias_count facts)))"
    and "reloads = concat (map (alias_reloads facts plan) (moved facts (alias_count facts)))"
  shows "mset (map (\<lambda>d. (dp_trigger d, dp_alias d, dp_kind d)) departures
      @ map (\<lambda>r. (the (map_of T r), rl_alias r, FETCH)) reloads)
    = mset (plan_items facts plan kinds (\<lambda>a i. the (map_of T (reload_at facts a (rp_spans plan ! a) i))))"
  unfolding plan_items_def mset_concat_append assms
  by (simp add: map_concat comp_def alias_departures_def alias_reloads_def Let_def departure_at_def reload_at_def)

lemma emit_result:
  assumes wf: "wf_facts facts" and rated: "rated facts config" and clean: "clean_plan facts plan"
    and backed: "backed_anchors facts" and named: "named_ok facts"
  shows "(\<exists>e. emit_schedule facts config plan rule h = Some (Inl e) \<and> emission_refused e)
    \<or> (\<exists>s kinds fetch. realizes facts plan s kinds fetch \<and> emit_schedule facts config plan rule h
        = Some (map_error PlanFault (bindE (validate_selected s (fc_program facts) (fc_tasks facts)) (\<lambda>_. Inr s))))"
proof -
  have ok: "plan_ok facts plan" using clean by (simp add: clean_plan_def)
  then have "length (rp_spans plan) = alias_count facts" by (simp add: plan_ok_def)
  from emit_plan_cases [OF wf this] show ?thesis
  proof (elim disjE exE conjE)
    fix e
    assume "foldE (emit_alias facts) ([], []) (enumerate 0 (rp_spans plan)) = Inl e" "emission_refused e"
    then show ?thesis by (simp add: emit_schedule_def)
  next
    fix st
    assume run: "foldE (emit_alias facts) ([], []) (enumerate 0 (rp_spans plan)) = Inr st"
      and out: "plan_emitted facts plan (alias_count facts) st"
    obtain departures reloads where st: "st = (departures, reloads)" by (cases st)
    note wins = plan_emitted_windows [OF wf clean backed out [unfolded st]]
    from out obtain kinds where kinds: "plan_kept facts plan kinds (alias_count facts)"
      and departures: "departures = concat (map (alias_departures facts plan kinds) (moved facts (alias_count facts)))"
      and reloads: "reloads = concat (map (alias_reloads facts plan) (moved facts (alias_count facts)))"
      by (auto simp: plan_emitted_def st)
    from choose_fetch_triggers_result [OF wf rated plan_ok_shape [OF ok] wins(1)] obtain T where
      T: "choose_fetch_triggers facts config plan reloads rule h = Some (Inr T)" "triggers_of (set reloads) T" by blast
    have at: "rl_earliest_trigger r \<le> the (map_of T r) \<and> the (map_of T r) \<le> rl_latest_trigger r"
      if "r \<in> set reloads" for r
    proof -
      from that T(2) have "r \<in> fst ` set T" by (simp add: triggers_of_def)
      then obtain t where "map_of T r = Some t" by (metis map_of_eq_None_iff option.exhaust)
      then show ?thesis using T(2) by (auto simp: triggers_of_def within_windows_def)
    qed
    have proper: "\<forall>x \<in> set (map (\<lambda>d. (dp_trigger d, dp_alias d, dp_kind d)) departures
        @ map (\<lambda>r. (the (map_of T r), rl_alias r, FETCH)) reloads). proper_item facts x"
    proof
      fix x
      assume "x \<in> set (map (\<lambda>d. (dp_trigger d, dp_alias d, dp_kind d)) departures
        @ map (\<lambda>r. (the (map_of T r), rl_alias r, FETCH)) reloads)"
      then consider d where "d \<in> set departures" "x = (dp_trigger d, dp_alias d, dp_kind d)"
        | r where "r \<in> set reloads" "x = (the (map_of T r), rl_alias r, FETCH)" by auto
      then show "proper_item facts x"
      proof cases
        case 1
        with wins(2) show ?thesis by (auto simp: proper_item_def)
      next
        case 2
        with wins(1) at [OF 2(1)] show ?thesis by (auto simp: proper_item_def window_def)
      qed
    qed
    define fetch where "fetch a i = the (map_of T (reload_at facts a (rp_spans plan ! a) i))" for a i
    from assemble_schedule_result [OF wf named T(2) proper] obtain s items keys where
      s: "assemble_schedule facts departures reloads T
        = bindE (validate_selected s (fc_program facts) (fc_tasks facts)) (\<lambda>_. Inr s)"
      "ms_initial_residency s = placements facts (fc_initial_locations facts)"
      "ms_final_residency s = placements facts (fc_final_locations facts)"
      "ms_actions s = map (action_of facts) items" "mapE (item_key facts) items = Inr keys" "sorted keys"
      and items: "mset items = mset (plan_items facts plan kinds fetch)"
      unfolding emitted_items [OF departures reloads] fetch_def [abs_def] by blast
    have fetched: "0 \<le> fetch a i \<and> (i \<noteq> 0 \<longrightarrow> leave_task facts a (rp_spans plan ! a ! (i - 1)) < fetch a i)
        \<and> fetch a i \<le> last_boundary facts
        \<and> (\<forall>(b, t) \<in> set (events_in_span facts a (rp_spans plan ! a ! i)). fetch a i < t)"
      if a: "a \<in> set (moved facts (alias_count facts))" and i: "i < length (rp_spans plan ! a)"
        and enter: "enters facts a (rp_spans plan ! a ! i)" for a i
    proof -
      let ?r = "reload_at facts a (rp_spans plan ! a) i"
      have r: "?r \<in> set reloads"
        using a i enter by (auto simp: reloads alias_reloads_def Let_def span_indices_def intro!: bexI [of _ a])
      have a': "a < alias_count facts" using a by (simp add: set_moved)
      have w: "window facts ?r" using wins(1) r by blast
      have between: "rl_earliest_trigger ?r \<le> fetch a i" "fetch a i \<le> rl_latest_trigger ?r"
        using at [OF r] by (simp_all add: fetch_def)
      have "fetch a i < t" if "(b, t) \<in> set (events_in_span facts a (rp_spans plan ! a ! i))" for b t
        using entry_deadline_bounds(2) [OF wf a' that] between(2) by (simp add: reload_at_def)
      then show ?thesis using between w by (auto simp: window_def reload_at_def)
    qed
    have "realizes facts plan s kinds fetch"
      unfolding realizes_def using s(2-6) items kinds fetched by blast
    moreover have "emit_schedule facts config plan rule h
        = Some (map_error PlanFault (bindE (validate_selected s (fc_program facts) (fc_tasks facts)) (\<lambda>_. Inr s)))"
      using run T(1) s(1) by (simp add: emit_schedule_def st)
    ultimately show ?thesis by blast
  qed
qed

lemma build_facts_named:
  assumes "build_facts program selections initial_residency final_residency config = Inr facts"
    and "valid_program program" "valid_config config"
  shows "named_ok facts"
  using assms
proof (rule build_facts_sound)
  fix oa zero
  assume sel: "select_tasks program selections = Inr (fc_tasks facts)"
    and ids: "fc_alias_ids facts = map ag_alias_group_id (pg_alias_groups program)"
  have "tk_task_id ` set (fc_tasks facts) \<subseteq> tk_task_id ` set (pg_tasks program)"
    using select_tasks_Inr(1) [OF assms(2) sel] by auto
  moreover have "\<forall>t \<in> set (pg_tasks program). is_identifier (tk_task_id t)"
    using assms(2) by (auto simp: valid_program_def valid_task_def task_spec_post_init_def)
  moreover have "\<forall>g \<in> set (pg_alias_groups program). is_identifier (ag_alias_group_id g)"
    using assms(2) by (auto simp: valid_program_def valid_alias_group_def alias_group_spec_post_init_def)
  moreover have "distinct (map ag_alias_group_id (pg_alias_groups program))"
    using assms(2) program_post_init_well_formed by (auto simp: valid_program_def well_formed_def)
  ultimately show "named_ok facts" by (auto simp: named_ok_def ids)
qed

end
