(* ===== verification/PressureFit_Emission_Properties.thy ===== *)
theory PressureFit_Emission_Properties
  imports PressureFit_Assembly
begin

text \<open>
  What the emission of PressureFit promises for every plan the reduction returns, and what the rules
  that place the fetches promise for every list of reloads with open windows.
\<close>

section \<open>The ideal task ends\<close>

lemma build_facts_ideal_ends:
  assumes "build_facts program selections initial_residency final_residency config = Inr facts"
  shows "\<exists>oa zero start b. foldE (record_task oa zero (dict_of (map (\<lambda>p. (pf_profile_id p, p)) (pg_profiles program))))
      start (enumerate 0 (fc_tasks facts)) = Inr b
    \<and> fb_ideal_end start = [] \<and> fc_task_ideal_end_ns facts = fb_ideal_end b"
proof -
  let ?n = "length (pg_alias_groups program)"
  define zero where "zero = set (map fst (filter (\<lambda>(index, g). ag_size_bytes g = 0)
    (enumerate 0 (pg_alias_groups program))))"
  from assms obtain tasks object_pairs anchors b where
    "foldE (record_task (dict_of object_pairs) zero (dict_of (map (\<lambda>p. (pf_profile_id p, p)) (pg_profiles program))))
      \<lparr>fb_anchors = anchors, fb_accesses = replicate ?n {}, fb_productions = replicate ?n {},
       fb_writes = replicate ?n {}, fb_reservations = [], fb_consumers = replicate ?n [], fb_produced = {},
       fb_ideal_time = 0, fb_ideal_end = []\<rparr> (enumerate 0 tasks) = Inr b"
    "fc_tasks facts = tasks" "fc_task_ideal_end_ns facts = fb_ideal_end b"
    unfolding build_facts_def Let_def zero_def [symmetric] by (auto simp: comp_def)
  then show ?thesis by (intro exI conjI) auto
qed

lemma ideal_ends_sorted:
  assumes "build_facts program selections initial_residency final_residency config = Inr facts"
    and "valid_program program"
  shows "sorted (fc_task_ideal_end_ns facts)"
proof -
  let ?profile_of = "dict_of (map (\<lambda>p. (pf_profile_id p, p)) (pg_profiles program))"
  from build_facts_ideal_ends [OF assms(1)] obtain oa zero start b where
    run: "foldE (record_task oa zero ?profile_of) start (enumerate 0 (fc_tasks facts)) = Inr b"
    and start: "fb_ideal_end start = []" and ends: "fc_task_ideal_end_ns facts = fb_ideal_end b" by blast
  have "sorted (fb_ideal_end b) \<and> (\<forall>x \<in> set (fb_ideal_end b). x \<le> fb_ideal_time b)"
    using run
  proof (rule foldE_simple_invariant)
    fix x t t'
    assume inv: "sorted (fb_ideal_end t) \<and> (\<forall>x \<in> set (fb_ideal_end t). x \<le> fb_ideal_time t)"
      and step: "record_task oa zero ?profile_of t x = Inr t'"
    obtain i task where x: "x = (i, task)" by (cases x)
    from step obtain profile where p: "?profile_of (tk_profile_id task) = Some profile"
      "fb_ideal_time t' = fb_ideal_time t + pf_runtime_ns profile"
      "fb_ideal_end t' = fb_ideal_end t @ [fb_ideal_time t + pf_runtime_ns profile]"
      by (auto simp: record_task_def x Let_def dict_get_Inr_iff)
    have "profile \<in> set (pg_profiles program)" using dict_of_SomeD [OF p(1)] by auto
    then have "0 \<le> pf_runtime_ns profile"
      using assms(2) by (auto simp: valid_program_def valid_profile_def task_profile_post_init_def)
    with inv p show "sorted (fb_ideal_end t') \<and> (\<forall>x \<in> set (fb_ideal_end t'). x \<le> fb_ideal_time t')"
      by (fastforce simp: sorted_append)
  qed (simp add: start)
  then show ?thesis by (simp add: ends)
qed


section \<open>A run\<close>

definition example_plan :: "planning_facts \<Rightarrow> residency_plan option" where
  "example_plan facts = (case reduce_pressure facts example_config (seed_residency facts) ''min-stall'' (\<lambda>_. None) None of
     Some (Inr (plan, _)) \<Rightarrow> Some plan | _ \<Rightarrow> None)"

definition example_reload :: reload where
  "example_reload = \<lparr>rl_alias = 0, rl_earliest_trigger = 0, rl_latest_trigger = 1, rl_entry_boundary = 1\<rparr>"

definition moves_of :: "memory_schedule \<Rightarrow> (string \<times> string \<times> memory_action_kind) list" where
  "moves_of s = map (\<lambda>a. (ma_trigger_task_id a, ma_alias_group_id a, ma_kind a)) (ms_actions s)"

lemma example_emission_eval:
  "(case example_facts of Inl _ \<Rightarrow> False | Inr facts \<Rightarrow>
     (case example_plan facts of None \<Rightarrow> False | Some plan \<Rightarrow>
        map_option (map_sum id moves_of) (emit_schedule facts example_config plan ''packed-fit'' False)
          = Some (Inr [(''keep'', ''w'', EVICT), (''back'', ''a'', RELEASE), (''back'', ''g'', RELEASE),
              (''back'', ''w'', FETCH)])
        \<and> choose_fetch_triggers facts example_config plan [example_reload] ''latest-safe'' False
          = Some (Inr [(example_reload, 0)])
        \<and> choose_fetch_triggers facts example_config plan [example_reload] ''packed-fit'' False
          = Some (Inr [(example_reload, 1)])))"
  by code_simp

lemma example_emission:
  obtains facts plan cache s where "example_facts = Inr facts"
    "build_facts sample_program (sample_choice ''save'') [stays ''w'' DEVICE] [stays ''w'' DEVICE]
       example_config = Inr facts"
    "length (fc_alias_ids facts) = 3" "length (fc_tasks facts) = 2"
    "reduce_pressure facts example_config (seed_residency facts) ''min-stall'' (\<lambda>_. None) None = Some (Inr (plan, cache))"
    "emit_schedule facts example_config plan ''packed-fit'' False = Some (Inr s)"
    "moves_of s = [(''keep'', ''w'', EVICT), (''back'', ''a'', RELEASE), (''back'', ''g'', RELEASE), (''back'', ''w'', FETCH)]"
    "choose_fetch_triggers facts example_config plan [example_reload] ''latest-safe'' False = Some (Inr [(example_reload, 0)])"
    "choose_fetch_triggers facts example_config plan [example_reload] ''packed-fit'' False = Some (Inr [(example_reload, 1)])"
proof -
  obtain facts plan cache where facts: "example_facts = Inr facts"
    "build_facts sample_program (sample_choice ''save'') [stays ''w'' DEVICE] [stays ''w'' DEVICE]
       example_config = Inr facts" "length (fc_alias_ids facts) = 3" "length (fc_tasks facts) = 2"
    and red: "reduce_pressure facts example_config (seed_residency facts) ''min-stall'' (\<lambda>_. None) None
       = Some (Inr (plan, cache))" by (rule example_planned) metis
  have plan: "example_plan facts = Some plan" using red by (simp add: example_plan_def)
  from example_emission_eval [unfolded facts(1) sum.case plan option.case] have eval:
    "map_option (map_sum id moves_of) (emit_schedule facts example_config plan ''packed-fit'' False)
          = Some (Inr [(''keep'', ''w'', EVICT), (''back'', ''a'', RELEASE), (''back'', ''g'', RELEASE), (''back'', ''w'', FETCH)])"
    "choose_fetch_triggers facts example_config plan [example_reload] ''latest-safe'' False = Some (Inr [(example_reload, 0)])"
    "choose_fetch_triggers facts example_config plan [example_reload] ''packed-fit'' False = Some (Inr [(example_reload, 1)])"
    by blast+
  from eval(1) obtain s where "emit_schedule facts example_config plan ''packed-fit'' False = Some (Inr s)"
    "moves_of s = [(''keep'', ''w'', EVICT), (''back'', ''a'', RELEASE), (''back'', ''g'', RELEASE), (''back'', ''w'', FETCH)]"
    by (auto simp: map_sum_Inr)
  with facts red eval(2,3) show thesis by (intro that)
qed


section \<open>Properties of the emission\<close>

lemma reduced_clean:
  assumes "build_facts program selections initial_residency final_residency config = Inr facts"
    and "valid_program program" "valid_config config"
    and "reduce_pressure facts config (seed_residency facts) strategy additions cache = Some (Inr (plan, cache'))"
  shows "clean_plan facts plan"
  using reduce_pressure_clean [OF build_facts_wf [OF assms(1-3)] seed_clean assms(4)] build_facts_wf [OF assms(1-3)]
  by blast

lemma emit_reduced:
  assumes "build_facts program selections initial_residency final_residency config = Inr facts"
    and "valid_program program" "valid_config config"
    and "reduce_pressure facts config (seed_residency facts) strategy additions cache = Some (Inr (plan, cache'))"
  shows "(\<exists>e. emit_schedule facts config plan rule h = Some (Inl e) \<and> emission_refused e)
    \<or> (\<exists>s kinds fetch. realizes facts plan s kinds fetch \<and> emit_schedule facts config plan rule h
        = Some (map_error PlanFault (bindE (validate_selected s (fc_program facts) (fc_tasks facts)) (\<lambda>_. Inr s))))"
  using build_facts_wf [OF assms(1-3)] build_facts_rated [OF assms(1,3)] reduced_clean [OF assms]
    build_facts_backed [OF assms(1-3)] build_facts_named [OF assms(1-3)]
  by (rule emit_result)

text \<open>
  C10. The schedule emitted for the plan of a reduction passes the check of a selected schedule and
  realizes the plan: for every alias that moves it holds one departure (an eviction or a release) at
  the end of every span that has to leave, after the last use in that span, and one fetch for every
  span that has to be entered, after the departure of the span before and before the first use in
  the span; nothing else, in the order of task, kind priority and alias; and it opens and closes
  with the residency of the facts. A release of an alias that is needed later loses no write: each
  write so far was taken along by an earlier eviction.
\<close>
theorem emit_schedule_realizes:
  assumes "build_facts program selections initial_residency final_residency config = Inr facts"
    and "valid_program program" "valid_config config"
    and "reduce_pressure facts config (seed_residency facts) strategy additions cache = Some (Inr (plan, cache'))"
    and "emit_schedule facts config plan rule h = Some (Inr s)"
  shows "validate_selected s (fc_program facts) (fc_tasks facts) = Inr ()
    \<and> (\<exists>kinds fetch. realizes facts plan s kinds fetch)"
  using emit_reduced [OF assms(1-4), of rule h]
proof (elim disjE exE conjE)
  fix s' kinds fetch
  assume "realizes facts plan s' kinds fetch" "emit_schedule facts config plan rule h
    = Some (map_error PlanFault (bindE (validate_selected s' (fc_program facts) (fc_tasks facts)) (\<lambda>_. Inr s')))"
  then show ?thesis using assms(5) by (cases "validate_selected s' (fc_program facts) (fc_tasks facts)") auto
qed (simp add: assms(5))

theorem emit_schedule_realizes_witness:
  "\<exists>facts plan s kinds fetch. example_facts = Inr facts
    \<and> emit_schedule facts example_config plan ''packed-fit'' False = Some (Inr s)
    \<and> realizes facts plan s kinds fetch \<and> (''back'', ''w'', FETCH) \<in> set (moves_of s)"
proof -
  obtain facts plan cache s where ex: "example_facts = Inr facts"
    "build_facts sample_program (sample_choice ''save'') [stays ''w'' DEVICE] [stays ''w'' DEVICE]
       example_config = Inr facts"
    "reduce_pressure facts example_config (seed_residency facts) ''min-stall'' (\<lambda>_. None) None = Some (Inr (plan, cache))"
    "emit_schedule facts example_config plan ''packed-fit'' False = Some (Inr s)"
    "moves_of s = [(''keep'', ''w'', EVICT), (''back'', ''a'', RELEASE), (''back'', ''g'', RELEASE), (''back'', ''w'', FETCH)]"
    by (rule example_emission)
  from emit_schedule_realizes [OF ex(2) example_valid ex(3,4)] obtain kinds fetch where
    "realizes facts plan s kinds fetch" by blast
  with ex(1,4,5) show ?thesis by (intro exI conjI) auto
qed

text \<open>
  C34. The emission of the plan of a reduction returns: the loop that delays fetches ends, no lookup
  fails, and an error is one of two. Either an alias has nothing to reload from, or the schedule is
  refused by the check of a selected schedule, whose error is then the one returned.
\<close>
theorem emit_schedule_returns:
  assumes "build_facts program selections initial_residency final_residency config = Inr facts"
    and "valid_program program" "valid_config config"
    and "reduce_pressure facts config (seed_residency facts) strategy additions cache = Some (Inr (plan, cache'))"
  shows "\<exists>r. emit_schedule facts config plan rule h = Some r \<and> (\<forall>e. r = Inl e \<longrightarrow> emission_refused e
    \<or> (\<exists>p s. e = PlanFault p \<and> validate_selected s (fc_program facts) (fc_tasks facts) = Inl p))"
  using emit_reduced [OF assms, of rule h]
proof (elim disjE exE conjE)
  fix s
  assume "emit_schedule facts config plan rule h
    = Some (map_error PlanFault (bindE (validate_selected s (fc_program facts) (fc_tasks facts)) (\<lambda>_. Inr s)))"
  then show ?thesis by (cases "validate_selected s (fc_program facts) (fc_tasks facts)") auto
qed auto

theorem emit_schedule_returns_witness:
  "\<exists>facts plan r. example_facts = Inr facts
    \<and> emit_schedule facts example_config plan ''latest-safe'' True = Some r"
proof -
  obtain facts plan cache where ex: "example_facts = Inr facts"
    "build_facts sample_program (sample_choice ''save'') [stays ''w'' DEVICE] [stays ''w'' DEVICE]
       example_config = Inr facts"
    "reduce_pressure facts example_config (seed_residency facts) ''min-stall'' (\<lambda>_. None) None = Some (Inr (plan, cache))"
    by (rule example_emission)
  from emit_schedule_returns [OF ex(2) example_valid ex(3), of "''latest-safe''" True] ex(1) show ?thesis by blast
qed

text \<open>
  C35. The rule packed-fit ends at a fixed point. Its triggers stay in the windows of the reloads,
  none is earlier than the one the packing chose, and at no boundary over capacity, counting the
  fetches in flight, is there a fetch that could still be triggered later.
\<close>
theorem packed_fit_settles:
  assumes "build_facts program selections initial_residency final_residency config = Inr facts"
    and "valid_program program" "valid_config config" "plan_ok facts plan"
    and "\<forall>r \<in> set reloads. window facts r \<and> held_after_entry plan r"
  shows "\<exists>packed base rows T. packed_triggers facts config reloads = Inr packed
    \<and> pressure_by_device facts plan h = Inr rows \<and> rows_are facts rows base
    \<and> choose_fetch_triggers facts config plan reloads ''packed-fit'' h = Some (Inr T)
    \<and> triggers_of (set reloads) T \<and> delayed (set reloads) packed T \<and> settled facts plan base T"
proof -
  note wf = build_facts_wf [OF assms(1-3)]
  have "\<forall>r \<in> set reloads. window facts r" using assms(5) by blast
  from packed_triggers_total [OF wf build_facts_rated [OF assms(1,3)] this] obtain packed where
    packed: "packed_triggers facts config reloads = Inr packed" "triggers_of (set reloads) packed" by blast
  from fit_clamped_triggers_result [OF wf plan_ok_shape [OF assms(4)] packed(2) assms(5), of h] packed(1) show ?thesis
    by (auto simp: choose_fetch_triggers_def)
qed

lemma example_window:
  assumes "length (fc_alias_ids facts) = 3" "length (fc_tasks facts) = 2"
  shows "window facts example_reload" "held_after_entry plan example_reload"
  using assms by (auto simp: window_def held_after_entry_def example_reload_def last_boundary_def)

theorem packed_fit_settles_witness:
  "\<exists>facts plan packed. example_facts = Inr facts \<and> packed_triggers facts example_config [example_reload] = Inr packed
    \<and> delayed {example_reload} packed [(example_reload, 1)]"
proof -
  obtain facts plan cache where ex: "example_facts = Inr facts"
    "build_facts sample_program (sample_choice ''save'') [stays ''w'' DEVICE] [stays ''w'' DEVICE]
       example_config = Inr facts" "length (fc_alias_ids facts) = 3" "length (fc_tasks facts) = 2"
    "reduce_pressure facts example_config (seed_residency facts) ''min-stall'' (\<lambda>_. None) None = Some (Inr (plan, cache))"
    "choose_fetch_triggers facts example_config plan [example_reload] ''packed-fit'' False = Some (Inr [(example_reload, 1)])"
    by (rule example_emission)
  have "plan_ok facts plan" using reduced_clean [OF ex(2) example_valid ex(5)] by (simp add: clean_plan_def)
  from packed_fit_settles [OF ex(2) example_valid this, of "[example_reload]" False] ex(1,6) example_window [OF ex(3,4)]
  show ?thesis by fastforce
qed

text \<open>
  C36. The rule latest-safe triggers each fetch at the last task of its window whose ideal end still
  leaves the fetch's runtime before the ideal end of the latest trigger, or at the earliest task of
  the window when there is none.
\<close>
theorem latest_safe_in_time:
  assumes "build_facts program selections initial_residency final_residency config = Inr facts"
    and "valid_program program" "valid_config config"
    and "\<forall>r \<in> set reloads. window facts r"
  shows "\<exists>T. choose_fetch_triggers facts config plan reloads ''latest-safe'' h = Some (Inr T)
    \<and> triggers_of (set reloads) T \<and> (\<forall>r t. map_of T r = Some t \<longrightarrow> safe_in_time facts config r t)"
  using latest_safe_total [OF build_facts_wf [OF assms(1-3)] build_facts_rated [OF assms(1,3)] assms(4)]
    ideal_ends_sorted [OF assms(1,2)] by (auto simp: choose_fetch_triggers_def)

theorem latest_safe_in_time_witness:
  "\<exists>facts. example_facts = Inr facts \<and> safe_in_time facts example_config example_reload 0"
proof -
  obtain facts plan cache where ex: "example_facts = Inr facts"
    "build_facts sample_program (sample_choice ''save'') [stays ''w'' DEVICE] [stays ''w'' DEVICE]
       example_config = Inr facts" "length (fc_alias_ids facts) = 3" "length (fc_tasks facts) = 2"
    "choose_fetch_triggers facts example_config plan [example_reload] ''latest-safe'' False = Some (Inr [(example_reload, 0)])"
    by (rule example_emission)
  from latest_safe_in_time [OF ex(2) example_valid, of "[example_reload]" plan False] ex(1,5) example_window [OF ex(3,4)]
  show ?thesis by fastforce
qed

end
