(* ===== verification/Resolution.thy ===== *)
theory Resolution
  imports Program
begin

text \<open>
  Which resolutions of a program's task alternatives are planned
  (\<^verbatim>\<open>src/shadowspill/planner/search/toolkit/resolution.py\<close>). A \<^verbatim>\<open>Fraction\<close> is a rational number. A
  share spelled as text is read by the grammar of \<^verbatim>\<open>Fraction\<close>, over the ASCII digits. An index is
  the position of an option in its group, a resolution a list of choices.
\<close>

section \<open>Shares\<close>

datatype share_value = Share_Fraction rat | Share_Int int | Share_Text string | Share_Other string

fun digits_from :: "int \<Rightarrow> string \<Rightarrow> int option" where
  "digits_from n [] = Some n"
| "digits_from n (c # cs) =
     (if c = CHR ''_'' then (case cs of [] \<Rightarrow> None | d # _ \<Rightarrow> if d = CHR ''_'' then None else digits_from n cs)
      else if of_char c \<in> {48..57 :: int} then digits_from (10 * n + (of_char c - 48)) cs
      else None)"

definition digits :: "string \<Rightarrow> int option" where
  "digits cs = (case cs of [] \<Rightarrow> None | c # _ \<Rightarrow> if c = CHR ''_'' then None else digits_from 0 cs)"

definition count_digits :: "string \<Rightarrow> nat" where
  "count_digits cs = length (filter (\<lambda>c. c \<noteq> CHR ''_'') cs)"

definition signed :: "string \<Rightarrow> int \<times> string" where
  "signed cs = (case cs of [] \<Rightarrow> (1, []) | c # rest \<Rightarrow>
     if c = CHR ''-'' then (- 1, rest) else if c = CHR ''+'' then (1, rest) else (1, cs))"

definition split_at :: "char set \<Rightarrow> string \<Rightarrow> string \<times> string option" where
  "split_at stops cs = (case dropWhile (\<lambda>c. c \<notin> stops) cs of
     [] \<Rightarrow> (cs, None) | _ # rest \<Rightarrow> (takeWhile (\<lambda>c. c \<notin> stops) cs, Some rest))"

definition exponent_of :: "string option \<Rightarrow> int option" where
  "exponent_of e = (case e of None \<Rightarrow> Some 0 | Some cs \<Rightarrow>
     (case signed cs of (sign, ds) \<Rightarrow> map_option (\<lambda>n. sign * n) (digits ds)))"

definition scaled :: "rat \<Rightarrow> int \<Rightarrow> rat" where
  "scaled q e = (if e \<ge> 0 then q * 10 ^ nat e else q / 10 ^ nat (- e))"

definition decimal_of :: "string \<Rightarrow> rat option" where
  "decimal_of cs = (case split_at {CHR ''e'', CHR ''E''} cs of (mantissa, e) \<Rightarrow>
     (case split_at {CHR ''.''} mantissa of (whole, part) \<Rightarrow>
       let whole_value = (if whole = [] then Some 0 else digits whole);
           part_value = (case part of None \<Rightarrow> Some 0 | Some ds \<Rightarrow> if ds = [] then Some 0 else digits ds);
           places = (case part of None \<Rightarrow> 0 | Some ds \<Rightarrow> count_digits ds)
       in if whole = [] \<and> (part = None \<or> part = Some []) then None
          else (case (whole_value, part_value, exponent_of e) of
            (Some w, Some d, Some x) \<Rightarrow> Some (scaled (of_int w + of_int d / 10 ^ places) x)
          | _ \<Rightarrow> None)))"

definition fraction_of_string :: "string \<Rightarrow> rat option" where
  "fraction_of_string text = (case signed (py_strip text) of (sign, cs) \<Rightarrow>
     (case split_at {CHR ''/''} cs of
        (whole, Some denominator) \<Rightarrow>
          (case (digits (py_strip whole), digits (py_strip denominator)) of
             (Some n, Some d) \<Rightarrow>
               if d = 0 \<or> whole \<noteq> dropWhile py_isspace whole then None
               else Some (of_int sign * of_int n / of_int d)
           | _ \<Rightarrow> None)
      | (whole, None) \<Rightarrow> map_option (\<lambda>q. of_int sign * q) (decimal_of whole)))"

definition read_share :: "share_value \<Rightarrow> py_error + rat" where
  "read_share v = (case v of
     Share_Other shown \<Rightarrow> Inl (ValueError [Lit ''resolution options are Fractions, integers or strings such as'',
       Lit '' '', Repr ''3/8'', Lit ''; got '', Lit shown])
   | Share_Fraction q \<Rightarrow> Inr q
   | Share_Int n \<Rightarrow> Inr (of_int n)
   | Share_Text s \<Rightarrow> (case fraction_of_string s of
       None \<Rightarrow> Inl (ValueError [Lit ''resolution option '', Repr s, Lit '' is not a fraction''])
     | Some q \<Rightarrow> Inr q))"

definition share_text :: "rat \<Rightarrow> fstring" where
  "share_text q = (case quotient_of q of (n, d) \<Rightarrow> if d = 1 then [Num n] else [Num n, Lit ''/'', Num d])"

definition check_share :: "share_value \<Rightarrow> py_error + rat" where
  "check_share v =
     bindE (read_share v) (\<lambda>share.
     bindE (ensure (0 \<le> share \<and> share \<le> 1)
       (ValueError ([Lit ''resolution option ''] @ share_text share @ [Lit '' is outside [0, 1]'']))) (\<lambda>_.
     Inr share))"

definition validate_resolution_options :: "share_value list \<Rightarrow> py_error + rat list" where
  "validate_resolution_options vs =
     bindE (mapE check_share vs) (\<lambda>shares.
     bindE (ensure (shares \<noteq> []) (ValueError [Lit ''resolution options must name at least one share'']))
       (\<lambda>_. Inr (sort (remdups shares))))"

definition DEFAULT_RESOLUTION_OPTIONS :: "rat list" where
  "DEFAULT_RESOLUTION_OPTIONS = map (\<lambda>n. of_nat n / 4) [0..<5]"

definition EXHAUSTIVE_COMBINATION_LIMIT :: nat where "EXHAUSTIVE_COMBINATION_LIMIT = 64"
definition QUARTER_DENOMINATOR :: nat where "QUARTER_DENOMINATOR = 4"
definition WITHIN_GROUP_MEMORY_QUANTILES :: "nat list" where
  "WITHIN_GROUP_MEMORY_QUANTILES = [0, 1, 2, 3, 4]"
definition SAVE :: string where "SAVE = ''save''"
definition RECOMPUTE :: string where "RECOMPUTE = ''recompute''"


section \<open>Costed alternatives\<close>

record costed_option =
  co_option_id :: string
  co_retained_bytes :: int
  co_runtime_ns :: int

record costed_group =
  cg_group_id :: string
  cg_options :: "costed_option list"
  cg_forced_index :: "nat option"

text \<open>\<^verbatim>\<open>min(xs, key=key)\<close>: the first element of least key.\<close>

fun min_by :: "('a \<Rightarrow> 'k::linorder) \<Rightarrow> 'a \<Rightarrow> 'a list \<Rightarrow> 'a" where
  "min_by key best [] = best"
| "min_by key best (x # xs) = min_by key (if key x < key best then x else best) xs"

definition py_min :: "('a \<Rightarrow> 'k::linorder) \<Rightarrow> 'a list \<Rightarrow> py_error + 'a" where
  "py_min key xs = (case xs of [] \<Rightarrow> Inl (ValueError [Lit ''min() iterable argument is empty''])
     | x # rest \<Rightarrow> Inr (min_by key x rest))"

definition group_binary_endpoints :: "costed_group \<Rightarrow> (nat \<times> nat) option" where
  "group_binary_endpoints self =
     (let by_id = dict_of (map (\<lambda>(index, x). (co_option_id x, index)) (enumerate 0 (cg_options self)))
      in if length (cg_options self) \<noteq> 2 \<or> set (map co_option_id (cg_options self)) \<noteq> {SAVE, RECOMPUTE} then None
         else Some (the (by_id SAVE), the (by_id RECOMPUTE)))"

definition by_retained_bytes :: "costed_group \<Rightarrow> nat list" where
  "by_retained_bytes self =
     map fst (sort_key (\<lambda>(index, x). (co_retained_bytes x, co_runtime_ns x, index)) (enumerate 0 (cg_options self)))"

definition fastest_index :: "costed_group \<Rightarrow> py_error + nat" where
  "fastest_index self =
     py_min (\<lambda>index. (co_runtime_ns (cg_options self ! index), co_retained_bytes (cg_options self ! index), index))
       [0..<length (cg_options self)]"

definition forced_by_equal_retention :: "costed_option list \<Rightarrow> nat option" where
  "forced_by_equal_retention options =
     (if length options < 2 then (if options \<noteq> [] then Some 0 else None)
      else if length (remdups (map co_retained_bytes options)) \<noteq> 1 then None
      else Some (min_by (\<lambda>index. (co_runtime_ns (options ! index), index)) 0 [1..<length options]))"

definition sink_save ::
    "string set \<Rightarrow> string set \<Rightarrow> (nat \<rightharpoonup> nat) \<Rightarrow> nat \<times> task_alternative_group \<Rightarrow> py_error + (nat \<rightharpoonup> nat)" where
  "sink_save forward_task_ids consumed_by_forward forced = (\<lambda>(group_index, g).
     let group_forward_tasks = {t. t \<in> (\<Union>x \<in> set (al_options g). set (ao_active_task_ids x)) \<and> t \<in> forward_task_ids}
     in if group_forward_tasks = {} \<or> group_forward_tasks \<inter> consumed_by_forward \<noteq> {} then Inr forced
        else
          let save_indices = map fst (filter (\<lambda>(index, x). ao_option_id x = SAVE) (enumerate 0 (al_options g)))
          in bindE (ensure (length save_indices = 1)
               (ValueError [Lit ''a group that is a sink of the forward phase must expose '',
                 Lit ''exactly one 'save' option: '', Repr (al_group_id g)])) (\<lambda>_.
             Inr (forced(group_index \<mapsto> hd save_indices))))"

definition forward_sink_saves :: "shadow_spill_program \<Rightarrow> py_error + (nat \<rightharpoonup> nat)" where
  "forward_sink_saves program =
     (let forward_task_ids = set (map tk_task_id (filter (\<lambda>t. tk_phase t = ''forward'') (pg_tasks program)));
          consumed_by_forward = set (concat (map (\<lambda>t. filter (\<lambda>d. d \<in> forward_task_ids) (tk_dependencies t))
            (filter (\<lambda>t. tk_phase t = ''forward'') (pg_tasks program))))
      in foldE (sink_save forward_task_ids consumed_by_forward) Map.empty
           (enumerate 0 (pg_task_alternative_groups program)))"

definition cost_option ::
    "(string \<rightharpoonup> int) \<Rightarrow> (string \<rightharpoonup> task_profile) \<Rightarrow> (string \<rightharpoonup> task_spec) \<Rightarrow> task_alternative_option
     \<Rightarrow> py_error + costed_option" where
  "cost_option alias_bytes profiles tasks x =
     bindE (mapE (dict_get alias_bytes) (ao_retained_alias_group_ids x)) (\<lambda>retained.
     bindE (mapE (\<lambda>task_id. bindE (dict_get tasks task_id) (\<lambda>t.
         bindE (dict_get profiles (tk_profile_id t)) (\<lambda>p. Inr (pf_runtime_ns p)))) (ao_active_task_ids x))
       (\<lambda>runtimes.
     Inr \<lparr>co_option_id = ao_option_id x, co_retained_bytes = sum_list retained,
          co_runtime_ns = sum_list runtimes\<rparr>))"

definition cost_group ::
    "(string \<rightharpoonup> int) \<Rightarrow> (string \<rightharpoonup> task_profile) \<Rightarrow> (string \<rightharpoonup> task_spec) \<Rightarrow> (nat \<rightharpoonup> nat)
     \<Rightarrow> nat \<times> task_alternative_group \<Rightarrow> py_error + costed_group" where
  "cost_group alias_bytes profiles tasks structural = (\<lambda>(group_index, g).
     bindE (mapE (cost_option alias_bytes profiles tasks) (al_options g)) (\<lambda>options.
     Inr \<lparr>cg_group_id = al_group_id g, cg_options = options,
          cg_forced_index = (case structural group_index of
            None \<Rightarrow> forced_by_equal_retention options | Some i \<Rightarrow> Some i)\<rparr>))"

definition costed_from_program :: "shadow_spill_program \<Rightarrow> py_error + costed_group list" where
  "costed_from_program program =
     (let alias_bytes = dict_of (map (\<lambda>a. (ag_alias_group_id a, ag_size_bytes a)) (pg_alias_groups program));
          profiles = dict_of (map (\<lambda>p. (pf_profile_id p, p)) (pg_profiles program));
          tasks = dict_of (map (\<lambda>t. (tk_task_id t, t)) (pg_tasks program))
      in bindE (forward_sink_saves program) (\<lambda>structural.
         mapE (cost_group alias_bytes profiles tasks structural)
           (enumerate 0 (pg_task_alternative_groups program))))"

text \<open>The properties of \<^verbatim>\<open>CostedAlternatives\<close>, over its groups.\<close>

definition forced_of :: "costed_group list \<Rightarrow> nat \<rightharpoonup> nat" where
  "forced_of groups index = (if index < length groups then cg_forced_index (groups ! index) else None)"

definition flexible_count :: "costed_group list \<Rightarrow> nat" where
  "flexible_count groups = length (filter (\<lambda>g. cg_forced_index g = None) groups)"

definition combination_count :: "costed_group list \<Rightarrow> nat" where
  "combination_count groups =
     fold (\<lambda>g total. total * (if cg_forced_index g \<noteq> None then 1 else length (cg_options g))) groups 1"

definition binary_endpoints :: "costed_group list \<Rightarrow> (nat \<times> nat) list option" where
  "binary_endpoints groups =
     (let pairs = map group_binary_endpoints groups
      in if None \<in> set pairs then None else Some (map the pairs))"


section \<open>Choosing resolutions\<close>

definition evenly_spaced_indices :: "nat \<Rightarrow> nat \<Rightarrow> py_error + nat set" where
  "evenly_spaced_indices population count =
     bindE (ensure (count \<le> population)
       (ValueError [Lit ''evenly spaced selection count is outside its domain''])) (\<lambda>_.
     Inr (if count = 0 then {}
          else if count = population then {0..<population}
          else set (map (\<lambda>position. (2 * position + 1) * population div (2 * count)) [0..<count])))"

definition share_count :: "nat \<Rightarrow> rat \<Rightarrow> nat" where
  "share_count flexible share = nat \<lfloor>of_nat flexible * share + 1 / 2\<rfloor>"

definition group_fraction ::
    "(nat \<times> nat) list \<Rightarrow> (nat \<rightharpoonup> nat) \<Rightarrow> rat \<Rightarrow> py_error + nat list" where
  "group_fraction endpoints forced share =
     (let flexible = filter (\<lambda>index. forced index = None) [0..<length endpoints]
      in bindE (evenly_spaced_indices (length flexible) (share_count (length flexible) share)) (\<lambda>positions.
         bindE (mapE (\<lambda>position. py_nth flexible (int position)) (sorted_list_of_set positions)) (\<lambda>recomputing.
         Inr (map (\<lambda>(index, save, recompute). case forced index of Some i \<Rightarrow> i
             | None \<Rightarrow> if index \<in> set recomputing then recompute else save) (enumerate 0 endpoints)))))"

definition group_fractions ::
    "(nat \<times> nat) list \<Rightarrow> (nat \<rightharpoonup> nat) \<Rightarrow> rat list \<Rightarrow> py_error + nat list list" where
  "group_fractions endpoints forced resolution_options =
     bindE (mapE (group_fraction endpoints forced) resolution_options) (\<lambda>result. Inr (fromkeys result))"

definition quantile_index :: "nat list \<Rightarrow> nat \<Rightarrow> py_error + nat" where
  "quantile_index order numerator =
     py_nth order ((int (length order) - 1) * int numerator div int QUARTER_DENOMINATOR)"

definition within_group_quantiles :: "costed_group list \<Rightarrow> py_error + nat list list" where
  "within_group_quantiles groups =
     (let memory_order = map by_retained_bytes groups
      in bindE (mapE (\<lambda>order. py_nth order 0) memory_order) (\<lambda>least.
         bindE (mapE fastest_index groups) (\<lambda>fastest.
         bindE (mapE (\<lambda>numerator. mapE (\<lambda>order. quantile_index order numerator) memory_order)
             WITHIN_GROUP_MEMORY_QUANTILES) (\<lambda>quantiles.
         let raw = [map (\<lambda>_. 0) groups, map (\<lambda>g. length (cg_options g) - 1) groups, least, fastest] @ quantiles
         in Inr (fromkeys (map (\<lambda>item. map (\<lambda>(index, option_index).
              case forced_of groups index of Some i \<Rightarrow> i | None \<Rightarrow> option_index) (enumerate 0 item)) raw))))))"

definition resolution_of :: "costed_group list \<Rightarrow> nat list \<Rightarrow> py_error + task_alternative_choice list" where
  "resolution_of groups indices =
     bindE (ensure (length groups = length indices) (ValueError [Lit ''zip() arguments differ in length''])) (\<lambda>_.
     mapE (\<lambda>(g, index). bindE (py_nth (cg_options g) (int index)) (\<lambda>x.
       Inr \<lparr>ac_group_id = cg_group_id g, ac_option_id = co_option_id x\<rparr>)) (zip groups indices))"

definition select_resolutions :: "costed_group list \<Rightarrow> rat list \<Rightarrow> py_error + task_alternative_choice list list" where
  "select_resolutions groups resolution_options =
     bindE (validate_resolution_options (map Share_Fraction resolution_options)) (\<lambda>shares.
     if groups = [] then Inr [[]]
     else
       let forced = forced_of groups
       in if combination_count groups \<le> EXHAUSTIVE_COMBINATION_LIMIT then
            mapE (resolution_of groups) (product_lists
              (map (\<lambda>(index, g). case forced index of Some i \<Rightarrow> [i] | None \<Rightarrow> [0..<length (cg_options g)])
                (enumerate 0 groups)))
          else (case binary_endpoints groups of
              Some endpoints \<Rightarrow> bindE (group_fractions endpoints forced shares) (mapE (resolution_of groups))
            | None \<Rightarrow> bindE (within_group_quantiles groups) (mapE (resolution_of groups))))"

definition resolutions ::
    "shadow_spill_program \<Rightarrow> share_value list \<Rightarrow> py_error + task_alternative_choice list list" where
  "resolutions program resolution_options =
     bindE (validate_resolution_options resolution_options) (\<lambda>shares.
     if pg_task_alternative_groups program = [] then Inr [[]]
     else bindE (costed_from_program program) (\<lambda>groups. select_resolutions groups shares))"

definition recompute_share ::
    "shadow_spill_program \<Rightarrow> task_alternative_choice list \<Rightarrow> py_error + rat" where
  "recompute_share program selections =
     bindE (costed_from_program program) (\<lambda>groups.
     let picked = dict_of (map (\<lambda>c. (ac_group_id c, ac_option_id c)) selections)
     in if binary_endpoints groups = None \<or> flexible_count groups = 0 then
          (if groups = [] then Inr 0
           else Inr (of_nat (length (filter (\<lambda>g. picked (cg_group_id g) = Some RECOMPUTE) groups))
                / of_nat (length groups)))
        else
          let endpoints = the (binary_endpoints groups); forced = forced_of groups;
              recomputing = length (filter (\<lambda>(index, g). forced index = None
                \<and> Some (co_option_id (cg_options g ! snd (endpoints ! index))) = picked (cg_group_id g))
                (enumerate 0 groups))
          in Inr (of_nat recomputing / of_nat (flexible_count groups)))"

end
