(* ===== verification/PressureFit_Candidate.thy ===== *)
theory PressureFit_Candidate
  imports PressureFit_Emission_Properties Resolution
begin

text \<open>
  One candidate of PressureFit (\<^verbatim>\<open>_evaluate_candidate\<close> of
  \<^verbatim>\<open>reference/python/pressurefit/implementation.py\<close> with its two repairs), its options
  (\<^verbatim>\<open>planner/search/algorithms/pressurefit/options.py\<close>) and the counters it reports
  (\<^verbatim>\<open>planner/diagnostics\<close>). The search runs without admission facts. Wall-clock sections and the
  digest of a schedule are not modelled. The scores that a refused reduction added to the memo are
  dropped: a score is a function of its key, and nothing reports how often the memo was hit.
\<close>

section \<open>Options\<close>

definition RESIDENCY_STRATEGIES :: "string list" where
  "RESIDENCY_STRATEGIES = [''headroom-stall'', ''headroom-transfer'', ''tight-stall'', ''tight-transfer'']"

definition FETCH_RULES :: "string list" where
  "FETCH_RULES = [''packed-fifo'', ''packed-fit'', ''latest-safe'', ''demand'']"

record pressurefit_options =
  po_resolution_options :: "share_value list"
  po_residency_strategies :: "string list"
  po_fetch_rules :: "string list"
  po_max_repair_attempts :: int
  po_capacity_refinement_bytes :: int
  po_record_reduction_steps :: bool

definition DEFAULT_PRESSUREFIT_OPTIONS :: pressurefit_options where
  "DEFAULT_PRESSUREFIT_OPTIONS = \<lparr>
     po_resolution_options = map Share_Fraction DEFAULT_RESOLUTION_OPTIONS,
     po_residency_strategies = [''headroom-stall'', ''tight-stall''],
     po_fetch_rules = [''packed-fifo'', ''packed-fit'', ''latest-safe'', ''demand''],
     po_max_repair_attempts = 256, po_capacity_refinement_bytes = 256 * 1024 * 1024,
     po_record_reduction_steps = False\<rparr>"

definition unknown_names :: "string list \<Rightarrow> string list \<Rightarrow> string list" where
  "unknown_names names vocabulary = sort (remdups (filter (\<lambda>x. x \<notin> set vocabulary) names))"

text \<open>\<^verbatim>\<open>__post_init__\<close>: the checks in order, and the options with the shares normalized.\<close>

definition pressurefit_options_post_init :: "pressurefit_options \<Rightarrow> py_error + pressurefit_options" where
  "pressurefit_options_post_init self =
     bindE (ensure (\<not> po_capacity_refinement_bytes self < 0)
       (ValueError [Lit ''capacity_refinement_bytes is invalid''])) (\<lambda>_.
     bindE (ensure (po_residency_strategies self \<noteq> [])
       (ValueError [Lit ''residency_strategies must not be empty''])) (\<lambda>_.
     bindE (ensure (po_fetch_rules self \<noteq> [])
       (ValueError [Lit ''fetch_rules must not be empty''])) (\<lambda>_.
     bindE (ensure (distinct (po_residency_strategies self))
       (ValueError [Lit ''residency_strategies contains duplicates''])) (\<lambda>_.
     bindE (ensure (distinct (po_fetch_rules self))
       (ValueError [Lit ''fetch_rules contains duplicates''])) (\<lambda>_.
     let unknown_strategies = unknown_names (po_residency_strategies self) RESIDENCY_STRATEGIES;
         unknown_fetch = unknown_names (po_fetch_rules self) FETCH_RULES
     in bindE (ensure (unknown_strategies = [])
          (ValueError [Lit ''unknown residency strategies: '', ReprList unknown_strategies])) (\<lambda>_.
        bindE (ensure (unknown_fetch = [])
          (ValueError [Lit ''unknown fetch rules: '', ReprList unknown_fetch])) (\<lambda>_.
        bindE (ensure (\<not> po_max_repair_attempts self < 0)
          (ValueError [Lit ''max_repair_attempts must be a non-negative integer''])) (\<lambda>_.
        bindE (validate_resolution_options (po_resolution_options self)) (\<lambda>shares.
        Inr (self\<lparr>po_resolution_options := map Share_Fraction shares\<rparr>))))))))))"


section \<open>Counters and diagnostics\<close>

text \<open>The counters are naturals, so the checks of \<^verbatim>\<open>_nonnegative\<close> hold.\<close>

record repair_counts =
  rc_unclassified_attempts :: nat
  rc_admission_fetch_advance_attempts :: nat
  rc_admission_fetch_delay_attempts :: nat
  rc_admission_pressure_boundary_attempts :: nat
  rc_simulation_fetch_delay_attempts :: nat
  rc_simulation_pressure_boundary_attempts :: nat
  rc_layout_fetch_delay_attempts :: nat

definition no_repairs :: repair_counts where
  "no_repairs = \<lparr>rc_unclassified_attempts = 0, rc_admission_fetch_advance_attempts = 0,
     rc_admission_fetch_delay_attempts = 0, rc_admission_pressure_boundary_attempts = 0,
     rc_simulation_fetch_delay_attempts = 0, rc_simulation_pressure_boundary_attempts = 0,
     rc_layout_fetch_delay_attempts = 0\<rparr>"

definition total_attempts :: "repair_counts \<Rightarrow> nat" where
  "total_attempts self = rc_unclassified_attempts self + rc_admission_fetch_advance_attempts self
     + rc_admission_fetch_delay_attempts self + rc_admission_pressure_boundary_attempts self
     + rc_simulation_fetch_delay_attempts self + rc_simulation_pressure_boundary_attempts self
     + rc_layout_fetch_delay_attempts self"

record work_counts =
  wc_schedule_emissions :: nat
  wc_schedule_cache_hits :: nat
  wc_simulation_calls :: nat
  wc_simulation_cache_hits :: nat
  wc_admission_calls :: nat

definition no_work :: work_counts where
  "no_work = \<lparr>wc_schedule_emissions = 0, wc_schedule_cache_hits = 0, wc_simulation_calls = 0,
     wc_simulation_cache_hits = 0, wc_admission_calls = 0\<rparr>"

definition add_work :: "work_counts \<Rightarrow> work_counts \<Rightarrow> work_counts" where
  "add_work self other = \<lparr>wc_schedule_emissions = wc_schedule_emissions self + wc_schedule_emissions other,
     wc_schedule_cache_hits = wc_schedule_cache_hits self + wc_schedule_cache_hits other,
     wc_simulation_calls = wc_simulation_calls self + wc_simulation_calls other,
     wc_simulation_cache_hits = wc_simulation_cache_hits self + wc_simulation_cache_hits other,
     wc_admission_calls = wc_admission_calls self + wc_admission_calls other\<rparr>"

record candidate_diagnostic =
  dg_candidate_id :: string
  dg_selection_id :: string
  dg_status :: string
  dg_makespan_ns :: "int option"
  dg_failure_kind :: "string option"
  dg_failure_detail :: "fstring option"
  dg_repairs :: repair_counts
  dg_work :: work_counts


section \<open>Problems and candidates\<close>

text \<open>
  A problem is frozen; its three dictionaries are mutated by the candidates that share it, so they
  are a record of their own, passed on from one candidate to the next. A cached failure holds the
  fields of the error it was made from, and raising it again gives an error with those fields.
\<close>

record selection_problem =
  sp_selections :: "task_alternative_choice list"
  sp_selection_id :: string
  sp_facts :: planning_facts
  sp_seed :: residency_plan

record problem_caches =
  pc_cut_scores :: score_cache
  pc_schedules :: "residency_plan \<times> string \<times> bool \<rightharpoonup> memory_schedule"
  pc_simulations :: "memory_schedule \<rightharpoonup> infeasible + simulation_result"

definition empty_caches :: problem_caches where
  "empty_caches = \<lparr>pc_cut_scores = Some Map.empty, pc_schedules = Map.empty, pc_simulations = Map.empty\<rparr>"

record candidate_spec =
  cs_ordinal :: nat
  cs_problem_index :: nat
  cs_problem :: selection_problem
  cs_strategy :: string
  cs_fetch_rule :: string

definition candidate_id :: "candidate_spec \<Rightarrow> string" where
  "candidate_id self = cs_strategy self @ ''/'' @ cs_fetch_rule self"

record candidate_outcome =
  co_spec :: candidate_spec
  co_diagnostic :: candidate_diagnostic
  co_schedule :: "memory_schedule option"
  co_simulation :: "simulation_result option"

fun join_with :: "string \<Rightarrow> string list \<Rightarrow> string" where
  "join_with separator [] = []"
| "join_with separator [x] = x"
| "join_with separator (x # xs) = x @ separator @ join_with separator xs"

definition selection_id :: "task_alternative_choice list \<Rightarrow> string" where
  "selection_id selections = (if selections = [] then ''none''
     else join_with '','' (map (\<lambda>c. ac_group_id c @ ''='' @ ac_option_id c) selections))"


section \<open>The two repairs\<close>

text \<open>\<^verbatim>\<open>_repair_pressure\<close>: the boundary at which memory ran out and by how much.\<close>

definition repair_pressure :: "planning_facts \<Rightarrow> infeasible \<Rightarrow> py_error + ((string \<times> int) \<times> int) option" where
  "repair_pressure facts error =
     (if if_kind error \<notin> {''initial-device-capacity'', ''fetch-device-capacity'', ''task-device-capacity''} then
        Inr None
      else (case if_location error of
          None \<Rightarrow> Inr None
        | Some location \<Rightarrow>
            if \<not> starts_with location ''device:'' then Inr None
            else
              let device_id = drop (length ''device:'') location;
                  found = (case if_task_id error of
                      None \<Rightarrow> Some (- 1)
                    | Some task_id \<Rightarrow> map_option (\<lambda>task.
                        if if_kind error = ''task-device-capacity'' then int task - 1 else int task)
                        (fc_task_index facts task_id))
              in (case found of
                  None \<Rightarrow> Inr None
                | Some boundary \<Rightarrow>
                    let used = (case if_used_bytes error of None \<Rightarrow> 0 | Some v \<Rightarrow> v);
                        requested = (case if_requested_bytes error of None \<Rightarrow> 0 | Some v \<Rightarrow> v)
                    in bindE (case if_capacity_bytes error of
                         Some v \<Rightarrow> if v \<noteq> 0 then Inr v
                           else bindE (dict_get (fc_object_capacity_by_boundary facts) device_id) (\<lambda>row.
                             py_nth row (boundary + 1))
                       | None \<Rightarrow> bindE (dict_get (fc_object_capacity_by_boundary facts) device_id) (\<lambda>row.
                           py_nth row (boundary + 1))) (\<lambda>capacity.
                       Inr (Some ((device_id, boundary), max (used + requested - capacity) 1))))))"

text \<open>The loop body of \<^verbatim>\<open>_delay_fetch\<close>: the candidate an action gives, if any.\<close>

type_synonym delay = "int \<times> int \<times> int \<times> int"

definition delay_of ::
    "planning_facts \<Rightarrow> infeasible \<Rightarrow> nat option \<Rightarrow> nat \<times> memory_action \<Rightarrow> py_error + delay option" where
  "delay_of facts error failing_task = (\<lambda>(action_index, action).
     let requested_alias = (case if_alias_group_ids error of [] \<Rightarrow> None | alias_id # _ \<Rightarrow> Some alias_id)
     in if ma_kind action \<noteq> FETCH then Inr None
     else if requested_alias \<noteq> None \<and> Some (ma_alias_group_id action) \<noteq> requested_alias then Inr None
     else if if_kind error = ''fetch-device-capacity'' \<and> if_task_id error \<noteq> None
       \<and> Some (ma_trigger_task_id action) \<noteq> if_task_id error then Inr None
     else bindE (dict_get (fc_task_index facts) (ma_trigger_task_id action)) (\<lambda>trigger.
       if if_kind error = ''task-device-capacity''
         \<and> (case failing_task of None \<Rightarrow> False | Some failing \<Rightarrow> trigger \<ge> failing) then Inr None
       else bindE (dict_get (fc_alias_index facts) (ma_alias_group_id action)) (\<lambda>alias_ix.
       let consumers = fc_input_tasks facts ! alias_ix
       in bindE (bisect_right consumers (int trigger) 0 (length consumers)) (\<lambda>next_consumer.
       let latest = (if next_consumer < length consumers then consumers ! next_consumer - 1
                     else last_boundary facts);
           next_task = int trigger + 1;
           target = (case failing_task of None \<Rightarrow> next_task | Some failing \<Rightarrow>
             if if_kind error = ''task-device-capacity'' then max next_task (int failing) else next_task)
       in if target > latest then Inr None
          else Inr (Some (- (fc_alias_sizes facts ! alias_ix), - int trigger, int action_index, target))))))"

text \<open>\<^verbatim>\<open>min\<close> of a non-empty list.\<close>

fun least_of :: "'a::linorder \<Rightarrow> 'a list \<Rightarrow> 'a" where
  "least_of best [] = best"
| "least_of best (x # xs) = least_of (if x < best then x else best) xs"

definition action_key :: "planning_facts \<Rightarrow> memory_action \<Rightarrow> py_error + (int \<times> int \<times> int \<times> nat)" where
  "action_key facts action =
     bindE (dict_get (fc_task_index facts) (ma_trigger_task_id action)) (\<lambda>task.
     bindE (dict_get (fc_alias_index facts) (ma_alias_group_id action)) (\<lambda>alias_ix.
     action_priority facts (int task) alias_ix (ma_kind action)))"

definition delay_fetch ::
    "planning_facts \<Rightarrow> memory_schedule \<Rightarrow> infeasible \<Rightarrow> py_error + memory_schedule option" where
  "delay_fetch facts schedule error =
     (if if_kind error \<notin> {''fetch-device-capacity'', ''task-device-capacity''} then Inr None
      else
        let failing_task = (case if_task_id error of None \<Rightarrow> None | Some t \<Rightarrow> fc_task_index facts t)
        in bindE (mapE (delay_of facts error failing_task) (enumerate 0 (ms_actions schedule))) (\<lambda>found.
           case concat (map (\<lambda>d. case d of None \<Rightarrow> [] | Some x \<Rightarrow> [x]) found) of
             [] \<Rightarrow> Inr None
           | x # xs \<Rightarrow>
               (case least_of x xs of (_, _, selected_index, target) \<Rightarrow>
                 bindE (py_nth (fc_tasks facts) target) (\<lambda>task.
                 bindE (construct memory_action_post_init
                   ((ms_actions schedule ! nat selected_index)\<lparr>ma_trigger_task_id := tk_task_id task\<rparr>)) (\<lambda>moved_action.
                 bindE (sorted_by (action_key facts)
                   ((ms_actions schedule)[nat selected_index := moved_action])) (\<lambda>actions.
                 bindE (construct memory_schedule_post_init (schedule\<lparr>ms_actions := actions\<rparr>)) (\<lambda>repaired.
                 bindE (validate_selected repaired (fc_program facts) (fc_tasks facts)) (\<lambda>_.
                 Inr (Some repaired)))))))))"


section \<open>Evaluating a candidate\<close>

text \<open>
  The outer loop reduces and emits, the inner one simulates: one loop over the two phases. The
  counters are those the closures \<^verbatim>\<open>repairs_value\<close> and \<^verbatim>\<open>work_value\<close> read.
\<close>

datatype candidate_phase = Reducing | Simulating memory_schedule

record candidate_state =
  ct_phase :: candidate_phase
  ct_extra_pressure :: "string \<times> int \<rightharpoonup> int"
  ct_repairs :: repair_counts
  ct_work :: work_counts
  ct_caches :: problem_caches

datatype candidate_progress = Continue candidate_state | Answer candidate_outcome problem_caches

definition failure_diagnostic ::
    "candidate_spec \<Rightarrow> string \<Rightarrow> string \<Rightarrow> fstring \<Rightarrow> candidate_state \<Rightarrow> candidate_diagnostic" where
  "failure_diagnostic spec status kind detail st =
     \<lparr>dg_candidate_id = candidate_id spec, dg_selection_id = sp_selection_id (cs_problem spec),
      dg_status = status, dg_makespan_ns = None, dg_failure_kind = Some kind,
      dg_failure_detail = Some detail, dg_repairs = ct_repairs st, dg_work = ct_work st\<rparr>"

definition candidate_failed ::
    "candidate_spec \<Rightarrow> string \<Rightarrow> string \<Rightarrow> fstring \<Rightarrow> candidate_state \<Rightarrow> candidate_progress" where
  "candidate_failed spec status kind detail st =
     Answer \<lparr>co_spec = spec, co_diagnostic = failure_diagnostic spec status kind detail st,
       co_schedule = None, co_simulation = None\<rparr> (ct_caches st)"

definition planning_failed :: "candidate_spec \<Rightarrow> candidate_state \<Rightarrow> plan_error \<Rightarrow> py_error + candidate_progress" where
  "planning_failed spec st e =
     (case e of
        PlanInfeasible error \<Rightarrow> Inr (candidate_failed spec ''infeasible'' (pi_kind error) (pi_message error) st)
      | PlanFault fault \<Rightarrow>
          (case fault of
             ValidationError path message \<Rightarrow>
               Inr (candidate_failed spec ''invalid'' ''schedule_validation'' (path @ [Lit '': ''] @ message) st)
           | _ \<Rightarrow> Inl fault))"

definition reduce_phase ::
    "candidate_spec \<Rightarrow> simulation_config \<Rightarrow> candidate_state \<Rightarrow> (py_error + candidate_progress) option" where
  "reduce_phase spec config st =
     (let facts = sp_facts (cs_problem spec); strategy = cs_strategy spec
      in case reduce_pressure facts config (sp_seed (cs_problem spec)) strategy (ct_extra_pressure st)
           (pc_cut_scores (ct_caches st)) of
           None \<Rightarrow> None
         | Some (Inl e) \<Rightarrow> Some (planning_failed spec st e)
         | Some (Inr (plan, scores)) \<Rightarrow>
             let st = st\<lparr>ct_caches := (ct_caches st)\<lparr>pc_cut_scores := scores\<rparr>\<rparr>;
                 fetch_headroom = starts_with strategy ''headroom'';
                 schedule_key = (plan, cs_fetch_rule spec, fetch_headroom);
                 work = ct_work st
             in (case pc_schedules (ct_caches st) schedule_key of
                   Some schedule \<Rightarrow> Some (Inr (Continue (st\<lparr>ct_phase := Simulating schedule,
                     ct_work := work\<lparr>wc_schedule_cache_hits := wc_schedule_cache_hits work + 1\<rparr>\<rparr>)))
                 | None \<Rightarrow>
                     (case emit_schedule facts config plan (cs_fetch_rule spec) fetch_headroom of
                        None \<Rightarrow> None
                      | Some (Inl e) \<Rightarrow> Some (planning_failed spec st e)
                      | Some (Inr schedule) \<Rightarrow> Some (Inr (Continue (st\<lparr>ct_phase := Simulating schedule,
                          ct_work := work\<lparr>wc_schedule_emissions := wc_schedule_emissions work + 1\<rparr>,
                          ct_caches := (ct_caches st)\<lparr>pc_schedules :=
                            (pc_schedules (ct_caches st))(schedule_key \<mapsto> schedule)\<rparr>\<rparr>))))))"

definition cached_simulation ::
    "candidate_spec \<Rightarrow> simulation_config \<Rightarrow> memory_schedule \<Rightarrow> candidate_state
     \<Rightarrow> (py_error + ((infeasible + simulation_result) \<times> candidate_state)) option" where
  "cached_simulation spec config schedule st =
     (let facts = sp_facts (cs_problem spec); work = ct_work st
      in case pc_simulations (ct_caches st) schedule of
           Some r \<Rightarrow> Some (Inr (r, st\<lparr>ct_work := work\<lparr>wc_simulation_cache_hits := wc_simulation_cache_hits work + 1\<rparr>\<rparr>))
         | None \<Rightarrow>
             let seen = (\<lambda>r. st\<lparr>ct_work := work\<lparr>wc_simulation_calls := wc_simulation_calls work + 1\<rparr>,
               ct_caches := (ct_caches st)\<lparr>pc_simulations := (pc_simulations (ct_caches st))(schedule \<mapsto> r)\<rparr>\<rparr>)
             in (case simulate_python (fc_program facts) schedule (fc_selections facts) config None False of
                   None \<Rightarrow> None
                 | Some (Inl (SimFault e)) \<Rightarrow> Some (Inl e)
                 | Some (Inl (SimulationInfeasible error)) \<Rightarrow> Some (Inr (Inl error, seen (Inl error)))
                 | Some (Inr simulation) \<Rightarrow> Some (Inr (Inr simulation, seen (Inr simulation)))))"

definition repair_failure ::
    "candidate_spec \<Rightarrow> pressurefit_options \<Rightarrow> memory_schedule \<Rightarrow> infeasible \<Rightarrow> candidate_state
     \<Rightarrow> py_error + candidate_progress" where
  "repair_failure spec options schedule error st =
     (let facts = sp_facts (cs_problem spec); repairs = ct_repairs st; attempts = total_attempts repairs;
          refused = candidate_failed spec ''infeasible'' (if_kind error) (if_message error) st
      in if int attempts < po_max_repair_attempts options then
           bindE (delay_fetch facts schedule error) (\<lambda>delayed.
           case (if delayed = Some schedule then None else delayed) of
             Some later \<Rightarrow> Inr (Continue (st\<lparr>ct_phase := Simulating later,
               ct_repairs := repairs\<lparr>rc_simulation_fetch_delay_attempts :=
                 rc_simulation_fetch_delay_attempts repairs + 1\<rparr>\<rparr>))
           | None \<Rightarrow>
               bindE (repair_pressure facts error) (\<lambda>repair.
               case repair of
                 None \<Rightarrow> Inr refused
               | Some (boundary, missing) \<Rightarrow> Inr (Continue (st\<lparr>ct_phase := Reducing,
                   ct_extra_pressure := (ct_extra_pressure st)(boundary \<mapsto>
                     (case ct_extra_pressure st boundary of None \<Rightarrow> 0 | Some v \<Rightarrow> v) + missing),
                   ct_repairs := repairs\<lparr>rc_simulation_pressure_boundary_attempts :=
                     rc_simulation_pressure_boundary_attempts repairs + 1\<rparr>\<rparr>))))
         else
           bindE (delay_fetch facts schedule error) (\<lambda>delayed.
           bindE (if delayed \<noteq> None then Inr True
                  else bindE (repair_pressure facts error) (\<lambda>repair. Inr (repair \<noteq> None))) (\<lambda>repairable.
           Inr (if repairable then
                  candidate_failed spec ''exhausted'' ''repair_budget_exhausted''
                    ([Lit ''candidate repair budget exhausted after '', Num (int attempts),
                      Lit '' monotonic repairs; last simulator result: ''] @ if_message error) st
                else refused))))"

definition simulate_phase ::
    "candidate_spec \<Rightarrow> simulation_config \<Rightarrow> pressurefit_options \<Rightarrow> memory_schedule \<Rightarrow> candidate_state
     \<Rightarrow> (py_error + candidate_progress) option" where
  "simulate_phase spec config options schedule st =
     (case cached_simulation spec config schedule st of
        None \<Rightarrow> None
      | Some (Inl e) \<Rightarrow> Some (Inl e)
      | Some (Inr (Inl error, st)) \<Rightarrow> Some (repair_failure spec options schedule error st)
      | Some (Inr (Inr simulation, st)) \<Rightarrow> Some (Inr (Answer
          \<lparr>co_spec = spec, co_diagnostic =
             \<lparr>dg_candidate_id = candidate_id spec, dg_selection_id = sp_selection_id (cs_problem spec),
              dg_status = ''valid'', dg_makespan_ns = Some (sr_makespan_ns simulation),
              dg_failure_kind = None, dg_failure_detail = None,
              dg_repairs = ct_repairs st, dg_work = ct_work st\<rparr>,
           co_schedule = Some schedule, co_simulation = Some simulation\<rparr> (ct_caches st))))"

definition candidate_step ::
    "candidate_spec \<Rightarrow> simulation_config \<Rightarrow> pressurefit_options \<Rightarrow> candidate_state
     \<Rightarrow> (py_error + candidate_progress) option" where
  "candidate_step spec config options st =
     (case ct_phase st of
        Reducing \<Rightarrow> reduce_phase spec config st
      | Simulating schedule \<Rightarrow> simulate_phase spec config options schedule st)"

partial_function (option) candidate_loop ::
    "candidate_spec \<Rightarrow> simulation_config \<Rightarrow> pressurefit_options \<Rightarrow> candidate_state
     \<Rightarrow> (py_error + (candidate_outcome \<times> problem_caches)) option" where
  "candidate_loop spec config options st =
     (case candidate_step spec config options st of
        None \<Rightarrow> None
      | Some r \<Rightarrow>
          (case r of
             Inl e \<Rightarrow> Some (Inl e)
           | Inr progress \<Rightarrow>
               (case progress of
                  Answer outcome caches \<Rightarrow> Some (Inr (outcome, caches))
                | Continue st' \<Rightarrow> candidate_loop spec config options st')))"

declare candidate_loop.simps [code]

definition evaluate_candidate ::
    "candidate_spec \<Rightarrow> simulation_config \<Rightarrow> pressurefit_options \<Rightarrow> problem_caches
     \<Rightarrow> (py_error + (candidate_outcome \<times> problem_caches)) option" where
  "evaluate_candidate spec config options caches =
     candidate_loop spec config options
       \<lparr>ct_phase = Reducing, ct_extra_pressure = Map.empty, ct_repairs = no_repairs, ct_work = no_work,
        ct_caches = caches\<rparr>"

end
