(* ===== verification/PressureFit_Search.thy ===== *)
theory PressureFit_Search
  imports PressureFit_Candidate
begin

text \<open>
  The search of PressureFit (\<^verbatim>\<open>reference/python/pressurefit/implementation.py\<close>): the problems of the
  resolved programs, the candidates of each, their evaluation one after another or one batch per
  problem, and the selection. The type checks of the arguments, admission facts and progress
  messages are not modelled. A batch runs in a thread of its own; it shares no mutable state with
  the others, so the model evaluates the batches one after another.
\<close>

section \<open>Errors and results\<close>

datatype search_error =
    SearchFault py_error
  | SearchInfeasible plan_infeasible "candidate_diagnostic list"
  | SearchExhausted fstring "candidate_diagnostic list"

fun search_error_of :: "plan_error \<Rightarrow> search_error" where
  "search_error_of (PlanFault e) = SearchFault e"
| "search_error_of (PlanInfeasible e) = SearchInfeasible e []"

definition no_resolution :: plan_infeasible where
  "no_resolution = \<lparr>pi_message = [Lit ''no resolution could be constructed''],
     pi_kind = ''graph_pair_selection'', pi_device_id = None, pi_boundary_task_id = None,
     pi_required_bytes = None, pi_capacity_bytes = None\<rparr>"

record resolved_program_diagnostics =
  rp_selection_id :: string
  rp_choices :: "(string \<times> string) list"
  rp_selected_candidate_id :: "string option"
  rp_selected_makespan_ns :: "int option"
  rp_candidate_evaluations :: "candidate_diagnostic list"
  rp_work :: work_counts

definition INCUMBENT_CANDIDATE_ID :: string where "INCUMBENT_CANDIDATE_ID = ''incumbent''"

text \<open>\<^verbatim>\<open>ResolvedProgramDiagnostics.__post_init__\<close> of a record without an incumbent.\<close>

definition resolved_program_post_init :: "resolved_program_diagnostics \<Rightarrow> py_error + unit" where
  "resolved_program_post_init self =
     bindE (ensure (list_all (\<lambda>c. dg_selection_id c = rp_selection_id self) (rp_candidate_evaluations self))
       (ValueError [Lit ''candidate evaluation does not reference its resolved program''])) (\<lambda>_.
     bindE (ensure (distinct (map dg_candidate_id (rp_candidate_evaluations self)))
       (ValueError [Lit ''candidate policy appears more than once in a resolved program''])) (\<lambda>_.
     case rp_selected_candidate_id self of
       None \<Rightarrow> ensure (rp_selected_makespan_ns self = None)
         (ValueError [Lit ''selected_makespan_ns requires a selected candidate policy''])
     | Some selected_id \<Rightarrow>
         if selected_id = INCUMBENT_CANDIDATE_ID then
           Inl (ValueError [Lit ''the plan to beat is selected only when it was given and won''])
         else
           (case filter (\<lambda>c. dg_candidate_id c = selected_id)
               (filter (\<lambda>c. dg_status c = ''valid'') (rp_candidate_evaluations self)) of
              [selected] \<Rightarrow> ensure (rp_selected_makespan_ns self = dg_makespan_ns selected)
                (ValueError [Lit ''problem selected makespan does not match candidate evaluation''])
            | _ \<Rightarrow> Inl (ValueError [Lit ''selected candidate policy is not a unique valid evaluation'']))))"

record planning_diagnostics =
  pd_selected_candidate_id :: string
  pd_selected_selection_id :: string
  pd_selected_makespan_ns :: int
  pd_resolved_programs :: "resolved_program_diagnostics list"
  pd_work :: work_counts

definition planning_diagnostics_post_init :: "planning_diagnostics \<Rightarrow> py_error + unit" where
  "planning_diagnostics_post_init self =
     bindE (ensure (distinct (map rp_selection_id (pd_resolved_programs self)))
       (ValueError [Lit ''resolution appears more than once''])) (\<lambda>_.
     case filter (\<lambda>p. rp_selection_id p = pd_selected_selection_id self) (pd_resolved_programs self) of
       [problem] \<Rightarrow>
         bindE (ensure (rp_selected_candidate_id problem = Some (pd_selected_candidate_id self))
           (ValueError [Lit ''global and problem candidate selections disagree''])) (\<lambda>_.
         ensure (rp_selected_makespan_ns problem = Some (pd_selected_makespan_ns self))
           (ValueError [Lit ''global and problem selected makespans disagree'']))
     | _ \<Rightarrow> Inl (ValueError [Lit ''selected resolved program is not unique'']))"

record program_plan_result =
  pp_program :: shadow_spill_program
  pp_options :: pressurefit_options
  pp_initial_residency :: "residency_spec list"
  pp_final_residency :: "residency_spec list"
  pp_simulation_config :: simulation_config
  pp_schedule :: memory_schedule
  pp_selections :: "task_alternative_choice list"
  pp_simulation :: simulation_result
  pp_diagnostics :: planning_diagnostics


section \<open>Problems\<close>

definition build_problem ::
    "shadow_spill_program \<Rightarrow> residency_spec list \<Rightarrow> residency_spec list \<Rightarrow> simulation_config
     \<Rightarrow> task_alternative_choice list \<Rightarrow> plan_error + selection_problem" where
  "build_problem program initial_residency final_residency config selections =
     bindE (build_facts program selections initial_residency final_residency config) (\<lambda>facts.
     bindE (assert_required_floor facts) (\<lambda>_.
     Inr \<lparr>sp_selections = selections, sp_selection_id = selection_id selections, sp_facts = facts,
          sp_seed = seed_residency facts\<rparr>))"

definition add_problem ::
    "(task_alternative_choice list \<Rightarrow> plan_error + selection_problem)
     \<Rightarrow> selection_problem list \<times> plan_infeasible list \<Rightarrow> task_alternative_choice list
     \<Rightarrow> py_error + (selection_problem list \<times> plan_infeasible list)" where
  "add_problem build = (\<lambda>(problems, failures) selections.
     case build selections of
       Inr problem \<Rightarrow> Inr (problems @ [problem], failures)
     | Inl (PlanInfeasible error) \<Rightarrow> Inr (problems, failures @ [error])
     | Inl (PlanFault e) \<Rightarrow> Inl e)"

definition build_problems ::
    "shadow_spill_program \<Rightarrow> residency_spec list \<Rightarrow> residency_spec list \<Rightarrow> simulation_config
     \<Rightarrow> task_alternative_choice list list \<Rightarrow> search_error + selection_problem list" where
  "build_problems program initial_residency final_residency config resolved =
     bindE (map_error SearchFault (foldE (add_problem
       (build_problem program initial_residency final_residency config)) ([], []) resolved)) (\<lambda>(problems, failures).
     if problems \<noteq> [] then Inr problems
     else (case failures of
         error # _ \<Rightarrow> Inl (SearchInfeasible error [])
       | [] \<Rightarrow> Inl (SearchInfeasible no_resolution [])))"

text \<open>The loop of \<^verbatim>\<open>validate_schedule_feasibility\<close>: it stops at the first resolution that fits.\<close>

fun first_feasible ::
    "(task_alternative_choice list \<Rightarrow> plan_error + unit) \<Rightarrow> plan_infeasible list
     \<Rightarrow> task_alternative_choice list list \<Rightarrow> search_error + unit" where
  "first_feasible check failures [] = (case failures of
       error # _ \<Rightarrow> Inl (SearchInfeasible error [])
     | [] \<Rightarrow> Inl (SearchInfeasible no_resolution []))"
| "first_feasible check failures (selections # resolved) = (case check selections of
       Inr _ \<Rightarrow> Inr ()
     | Inl (PlanInfeasible error) \<Rightarrow> first_feasible check (failures @ [error]) resolved
     | Inl (PlanFault e) \<Rightarrow> Inl (SearchFault e))"

definition validate_schedule_feasibility ::
    "shadow_spill_program \<Rightarrow> residency_spec list \<Rightarrow> residency_spec list \<Rightarrow> simulation_config
     \<Rightarrow> pressurefit_options \<Rightarrow> search_error + unit" where
  "validate_schedule_feasibility program initial_residency final_residency config options =
     bindE (map_error SearchFault (resolutions program (po_resolution_options options))) (\<lambda>resolved.
     first_feasible (\<lambda>selections.
       bindE (build_facts program selections initial_residency final_residency config)
         assert_required_floor) [] resolved)"


section \<open>Candidates\<close>

definition candidate_specs :: "selection_problem list \<Rightarrow> pressurefit_options \<Rightarrow> candidate_spec list" where
  "candidate_specs problems options =
     map (\<lambda>(ordinal, (index, problem), strategy, rule).
         \<lparr>cs_ordinal = ordinal, cs_problem_index = index, cs_problem = problem, cs_strategy = strategy,
          cs_fetch_rule = rule\<rparr>)
       (enumerate 0 (List.product (enumerate 0 problems)
         (List.product (po_residency_strategies options) (po_fetch_rules options))))"

text \<open>The candidates of one problem, which share its caches.\<close>

fun evaluate_batch ::
    "simulation_config \<Rightarrow> pressurefit_options \<Rightarrow> problem_caches \<Rightarrow> candidate_spec list
     \<Rightarrow> (py_error + (candidate_outcome list \<times> problem_caches)) option" where
  "evaluate_batch config options caches [] = Some (Inr ([], caches))"
| "evaluate_batch config options caches (spec # specs) =
     (case evaluate_candidate spec config options caches of
        None \<Rightarrow> None
      | Some (Inl e) \<Rightarrow> Some (Inl e)
      | Some (Inr (outcome, caches)) \<Rightarrow>
          (case evaluate_batch config options caches specs of
             None \<Rightarrow> None
           | Some (Inl e) \<Rightarrow> Some (Inl e)
           | Some (Inr (outcomes, caches)) \<Rightarrow> Some (Inr (outcome # outcomes, caches))))"

text \<open>All candidates one after another, with the caches of every problem.\<close>

fun evaluate_in_order ::
    "simulation_config \<Rightarrow> pressurefit_options \<Rightarrow> problem_caches list \<Rightarrow> candidate_spec list
     \<Rightarrow> (py_error + candidate_outcome list) option" where
  "evaluate_in_order config options caches [] = Some (Inr [])"
| "evaluate_in_order config options caches (spec # specs) =
     (case evaluate_candidate spec config options (caches ! cs_problem_index spec) of
        None \<Rightarrow> None
      | Some (Inl e) \<Rightarrow> Some (Inl e)
      | Some (Inr (outcome, left)) \<Rightarrow>
          (case evaluate_in_order config options (caches[cs_problem_index spec := left]) specs of
             None \<Rightarrow> None
           | Some (Inl e) \<Rightarrow> Some (Inl e)
           | Some (Inr outcomes) \<Rightarrow> Some (Inr (outcome # outcomes))))"

definition add_to_batches :: "candidate_spec \<Rightarrow> candidate_spec list list \<Rightarrow> candidate_spec list list" where
  "add_to_batches spec batches =
     (if batches = [] \<or> cs_problem_index (hd (last batches)) \<noteq> cs_problem_index spec
      then batches @ [[spec]]
      else butlast batches @ [last batches @ [spec]])"

fun evaluate_batches ::
    "simulation_config \<Rightarrow> pressurefit_options \<Rightarrow> candidate_spec list list
     \<Rightarrow> (py_error + candidate_outcome list) option" where
  "evaluate_batches config options [] = Some (Inr [])"
| "evaluate_batches config options (batch # batches) =
     (case evaluate_batch config options empty_caches batch of
        None \<Rightarrow> None
      | Some (Inl e) \<Rightarrow> Some (Inl e)
      | Some (Inr (outcomes, _)) \<Rightarrow>
          (case evaluate_batches config options batches of
             None \<Rightarrow> None
           | Some (Inl e) \<Rightarrow> Some (Inl e)
           | Some (Inr others) \<Rightarrow> Some (Inr (outcomes @ others))))"

definition evaluate_one_by_one ::
    "simulation_config \<Rightarrow> pressurefit_options \<Rightarrow> selection_problem list \<Rightarrow> candidate_spec list
     \<Rightarrow> (py_error + candidate_outcome list) option" where
  "evaluate_one_by_one config options problems specs =
     evaluate_in_order config options (replicate (length problems) empty_caches) specs"

definition run_candidates ::
    "simulation_config \<Rightarrow> pressurefit_options \<Rightarrow> selection_problem list \<Rightarrow> candidate_spec list \<Rightarrow> int
     \<Rightarrow> (py_error + candidate_outcome list) option" where
  "run_candidates config options problems specs workers =
     (if workers = 1 \<or> length specs \<le> 1 then evaluate_one_by_one config options problems specs
      else if workers < 0 then Some (Inl (ValueError [Lit ''max_workers must be greater than 0'']))
      else (case evaluate_batches config options (fold add_to_batches specs []) of
          None \<Rightarrow> None
        | Some (Inl e) \<Rightarrow> Some (Inl e)
        | Some (Inr outcomes) \<Rightarrow> Some (Inr (sort_key (\<lambda>outcome. cs_ordinal (co_spec outcome)) outcomes))))"


section \<open>Selection\<close>

text \<open>The valid outcomes with their makespan, and the key \<^verbatim>\<open>min\<close> compares.\<close>

definition is_valid :: "candidate_outcome \<Rightarrow> bool" where
  "is_valid outcome \<longleftrightarrow> co_schedule outcome \<noteq> None \<and> co_simulation outcome \<noteq> None"

definition selection_key :: "candidate_outcome \<Rightarrow> int \<times> nat" where
  "selection_key outcome =
     (sr_makespan_ns (the (co_simulation outcome)), cs_ordinal (co_spec outcome))"

fun first_least :: "candidate_outcome \<Rightarrow> candidate_outcome list \<Rightarrow> candidate_outcome" where
  "first_least best [] = best"
| "first_least best (x # xs) = first_least (if selection_key x < selection_key best then x else best) xs"

definition best_of :: "candidate_outcome list \<Rightarrow> candidate_outcome option" where
  "best_of outcomes = (case filter is_valid outcomes of [] \<Rightarrow> None | x # xs \<Rightarrow> Some (first_least x xs))"

definition no_candidate :: "candidate_diagnostic list \<Rightarrow> search_error" where
  "no_candidate diagnostics =
     (if list_ex (\<lambda>d. dg_status d = ''exhausted'') diagnostics then
        SearchExhausted [Lit ''PressureFit exhausted its bounded candidate-repair budget '',
          Lit ''before proving a feasible schedule''] diagnostics
      else SearchInfeasible
        \<lparr>pi_message = [Lit ''no simulator-valid PressureFit candidate satisfied the declared '',
           Lit ''capacity and residency constraints''],
         pi_kind = (case diagnostics of [] \<Rightarrow> ''no_candidate''
           | d # _ \<Rightarrow> (case dg_failure_kind d of None \<Rightarrow> ''no_candidate''
               | Some kind \<Rightarrow> if kind = '''' then ''no_candidate'' else kind)),
         pi_device_id = None, pi_boundary_task_id = None, pi_required_bytes = None,
         pi_capacity_bytes = None\<rparr> diagnostics)"

definition problem_diagnostics ::
    "candidate_outcome list \<Rightarrow> nat \<times> selection_problem \<Rightarrow> py_error + resolved_program_diagnostics" where
  "problem_diagnostics outcomes = (\<lambda>(index, problem).
     let problem_outcomes = filter (\<lambda>o'. cs_problem_index (co_spec o') = index) outcomes;
         problem_candidates = map co_diagnostic problem_outcomes;
         problem_best = best_of problem_outcomes
     in construct resolved_program_post_init
       \<lparr>rp_selection_id = sp_selection_id problem,
        rp_choices = map (\<lambda>c. (ac_group_id c, ac_option_id c)) (sp_selections problem),
        rp_selected_candidate_id = map_option (\<lambda>best. candidate_id (co_spec best)) problem_best,
        rp_selected_makespan_ns = map_option (\<lambda>best. sr_makespan_ns (the (co_simulation best))) problem_best,
        rp_candidate_evaluations = problem_candidates,
        rp_work = fold (\<lambda>c work. add_work work (dg_work c)) problem_candidates no_work\<rparr>)"

definition select_outcome ::
    "shadow_spill_program \<Rightarrow> residency_spec list \<Rightarrow> residency_spec list \<Rightarrow> simulation_config
     \<Rightarrow> pressurefit_options \<Rightarrow> selection_problem list \<Rightarrow> candidate_outcome list
     \<Rightarrow> search_error + program_plan_result" where
  "select_outcome program initial_residency final_residency config options problems outcomes =
     (case best_of outcomes of
        None \<Rightarrow> Inl (no_candidate (map co_diagnostic outcomes))
      | Some best \<Rightarrow>
          map_error SearchFault (bindE (mapE (problem_diagnostics outcomes) (enumerate 0 problems)) (\<lambda>resolved_programs.
          bindE (construct planning_diagnostics_post_init
            \<lparr>pd_selected_candidate_id = candidate_id (co_spec best),
             pd_selected_selection_id = sp_selection_id (cs_problem (co_spec best)),
             pd_selected_makespan_ns = sr_makespan_ns (the (co_simulation best)),
             pd_resolved_programs = resolved_programs,
             pd_work = fold (\<lambda>p work. add_work work (rp_work p)) resolved_programs no_work\<rparr>) (\<lambda>diagnostics.
          Inr \<lparr>pp_program = program, pp_options = options, pp_initial_residency = initial_residency,
               pp_final_residency = final_residency, pp_simulation_config = config,
               pp_schedule = the (co_schedule best), pp_selections = sp_selections (cs_problem (co_spec best)),
               pp_simulation = the (co_simulation best), pp_diagnostics = diagnostics\<rparr>))))"

definition pressurefit_once ::
    "shadow_spill_program \<Rightarrow> residency_spec list \<Rightarrow> residency_spec list \<Rightarrow> simulation_config
     \<Rightarrow> pressurefit_options \<Rightarrow> int \<Rightarrow> (search_error + program_plan_result) option" where
  "pressurefit_once program initial_residency final_residency config options workers =
     (case bindE (map_error SearchFault (resolutions program (po_resolution_options options)))
         (build_problems program initial_residency final_residency config) of
        Inl e \<Rightarrow> Some (Inl e)
      | Inr problems \<Rightarrow>
          (case run_candidates config options problems (candidate_specs problems options) workers of
             None \<Rightarrow> None
           | Some outcomes \<Rightarrow> Some (bindE (map_error SearchFault outcomes)
               (select_outcome program initial_residency final_residency config options problems))))"

definition pressurefit ::
    "shadow_spill_program \<Rightarrow> residency_spec list \<Rightarrow> residency_spec list \<Rightarrow> simulation_config
     \<Rightarrow> pressurefit_options \<Rightarrow> int \<Rightarrow> (search_error + program_plan_result) option" where
  "pressurefit program initial_residency final_residency config options workers =
     (case validate_schedule_feasibility program initial_residency final_residency config options of
        Inl e \<Rightarrow> Some (Inl e)
      | Inr _ \<Rightarrow> pressurefit_once program initial_residency final_residency config options workers)"

end
