(* ===== verification/PressureFit_Candidate_Sound.thy ===== *)
theory PressureFit_Candidate_Sound
  imports PressureFit_Candidate Simulator_Properties
begin

text \<open>
  One candidate returns, within its repair budget; a schedule it answers with was simulated, and the
  caches it leaves hold what an evaluation without caches would compute.
\<close>

section \<open>The simulation of a schedule\<close>

lemma simulate_returns:
  assumes "valid_program program" and "valid_config config"
  shows "\<exists>r. simulate_python program schedule selections config None False = Some r"
proof (cases "make_context program schedule selections config None False")
  case (Inr cx)
  with run_simulation_total [OF make_context_sound [OF Inr assms]] show ?thesis by (simp add: simulate_python_def)
qed (simp add: simulate_python_def)

text \<open>What the search promises of a simulated schedule.\<close>

definition within_memory :: "simulation_config \<Rightarrow> simulation_result \<Rightarrow> bool" where
  "within_memory config result \<longleftrightarrow>
     (\<forall>p \<in> set (sr_device_peaks result). \<exists>c \<in> set (sc_devices config).
        dc_device_id c = pk_device_id p \<and> pk_total_bytes p \<le> dc_capacity_bytes c)
     \<and> sr_spill_peak_bytes result \<le> sc_spill_capacity_bytes config"

lemma simulated_within_memory:
  assumes "simulate_python program schedule selections config None False = Some (Inr result)"
    and "valid_program program" "valid_config config"
  shows "within_memory config result" and "validate_schedule schedule program selections = Inr ()"
proof -
  from assms(1) obtain cx where mk: "make_context program schedule selections config None False = Inr cx"
    and run: "run_simulation cx = Some (Inr result)" by (rule simulate_pythonE)
  have same: "cx_config cx = config" "cx_admission cx = None" "cx_program cx = program" "cx_schedule cx = schedule"
    "cx_selections cx = selections" "cx_device_config cx = map (\<lambda>d. (dc_device_id d, d)) (sc_devices config)"
    "validate_inputs cx = Inr ()"
    using mk by (auto simp: make_context_def admission_device_config_def Let_def bindE_Inr_iff)
  have "admission_releases None" by (simp add: admission_releases_def)
  from run_capacity [OF run make_context_sound [OF mk assms(2,3)] admission_completions [OF mk this]]
  show "within_memory config result"
    unfolding within_memory_def fits_def same by (force dest: map_of_SomeD)
  from same(7) show "validate_schedule schedule program selections = Inr ()"
    by (auto simp: validate_inputs_def same(1-6) Let_def bindE_Inr_iff map_error_def split: sum.splits)
qed


section \<open>Caches and outcomes\<close>

definition simulation_of ::
    "planning_facts \<Rightarrow> simulation_config \<Rightarrow> memory_schedule \<Rightarrow> (sim_error + simulation_result) option" where
  "simulation_of facts config schedule =
     simulate_python (fc_program facts) schedule (fc_selections facts) config None False"

definition caches_ok :: "planning_facts \<Rightarrow> simulation_config \<Rightarrow> problem_caches \<Rightarrow> bool" where
  "caches_ok facts config caches \<longleftrightarrow> cache_ok facts config (pc_cut_scores caches)
     \<and> (\<forall>schedule r. pc_simulations caches schedule = Some r \<longrightarrow>
          simulation_of facts config schedule = Some (case r of
            Inl error \<Rightarrow> Inl (SimulationInfeasible error) | Inr result \<Rightarrow> Inr result))"

lemma empty_caches_ok [simp]: "caches_ok facts config empty_caches"
  by (simp add: caches_ok_def empty_caches_def cache_ok_def)

lemma caches_ok_simps [simp]:
  "caches_ok facts config (caches\<lparr>pc_schedules := schedules\<rparr>) = caches_ok facts config caches"
  by (simp add: caches_ok_def)

definition outcome_ok ::
    "planning_facts \<Rightarrow> simulation_config \<Rightarrow> pressurefit_options \<Rightarrow> candidate_spec \<Rightarrow> candidate_outcome \<Rightarrow> bool" where
  "outcome_ok facts config options spec outcome \<longleftrightarrow> (let d = co_diagnostic outcome in
     co_spec outcome = spec \<and> dg_candidate_id d = candidate_id spec
     \<and> dg_selection_id d = sp_selection_id (cs_problem spec)
     \<and> int (total_attempts (dg_repairs d)) \<le> po_max_repair_attempts options
     \<and> (dg_status d = ''exhausted'' \<longrightarrow> int (total_attempts (dg_repairs d)) = po_max_repair_attempts options)
     \<and> (if dg_status d = ''valid'' then
          \<exists>schedule result. co_schedule outcome = Some schedule \<and> co_simulation outcome = Some result
            \<and> dg_makespan_ns d = Some (sr_makespan_ns result)
            \<and> simulation_of facts config schedule = Some (Inr result)
        else co_schedule outcome = None \<and> co_simulation outcome = None
          \<and> dg_status d \<in> {''infeasible'', ''invalid'', ''exhausted''}))"

definition state_ok :: "planning_facts \<Rightarrow> simulation_config \<Rightarrow> pressurefit_options \<Rightarrow> candidate_state \<Rightarrow> bool" where
  "state_ok facts config options st \<longleftrightarrow> caches_ok facts config (ct_caches st)
     \<and> int (total_attempts (ct_repairs st)) \<le> po_max_repair_attempts options"

definition repairs_left :: "pressurefit_options \<Rightarrow> candidate_state \<Rightarrow> nat" where
  "repairs_left options st = 2 * nat (po_max_repair_attempts options - int (total_attempts (ct_repairs st)))
     + (case ct_phase st of Reducing \<Rightarrow> 1 | Simulating _ \<Rightarrow> 0)"

text \<open>What one turn of the loop does: it answers, or goes on with less left to do.\<close>

definition progress_ok ::
    "planning_facts \<Rightarrow> simulation_config \<Rightarrow> pressurefit_options \<Rightarrow> candidate_spec \<Rightarrow> nat \<Rightarrow> candidate_progress \<Rightarrow> bool" where
  "progress_ok facts config options spec left progress \<longleftrightarrow> (case progress of
     Continue st \<Rightarrow> state_ok facts config options st \<and> repairs_left options st < left
   | Answer outcome caches \<Rightarrow> outcome_ok facts config options spec outcome \<and> caches_ok facts config caches)"

lemma total_attempts_upd [simp]:
  "total_attempts (r\<lparr>rc_simulation_fetch_delay_attempts := Suc (rc_simulation_fetch_delay_attempts r)\<rparr>)
     = Suc (total_attempts r)"
  "total_attempts (r\<lparr>rc_simulation_pressure_boundary_attempts := Suc (rc_simulation_pressure_boundary_attempts r)\<rparr>)
     = Suc (total_attempts r)"
  by (simp_all add: total_attempts_def)

lemma candidate_failed_ok:
  assumes "state_ok facts config options st" "status \<in> {''infeasible'', ''invalid'', ''exhausted''}"
    and "status = ''exhausted'' \<longrightarrow> int (total_attempts (ct_repairs st)) = po_max_repair_attempts options"
  shows "progress_ok facts config options spec left (candidate_failed spec status kind detail st)"
  using assms by (auto simp: progress_ok_def candidate_failed_def failure_diagnostic_def outcome_ok_def state_ok_def)

lemma planning_failed_ok:
  assumes "state_ok facts config options st" "planning_failed spec st e = Inr progress"
  shows "progress_ok facts config options spec left progress"
proof -
  from assms(2) obtain status kind detail where "status \<in> {''infeasible'', ''invalid''}"
    "progress = candidate_failed spec status kind detail st"
    by (auto simp: planning_failed_def split: plan_error.splits py_error.splits)
  then show ?thesis using candidate_failed_ok [OF assms(1), of status] by auto
qed


section \<open>The two phases\<close>

lemma reduce_phase_result:
  assumes facts: "build_facts program selections initial_residency final_residency config = Inr facts"
    and valid: "valid_program program" "valid_config config"
    and spec: "sp_facts (cs_problem spec) = facts" "sp_seed (cs_problem spec) = seed_residency facts"
    and st: "state_ok facts config options st" "ct_phase st = Reducing"
  shows "\<exists>r. reduce_phase spec config st = Some r
    \<and> (\<forall>progress. r = Inr progress \<longrightarrow> progress_ok facts config options spec (repairs_left options st) progress)"
proof -
  let ?scores = "pc_cut_scores (ct_caches st)"
  let ?red = "reduce_pressure facts config (seed_residency facts) (cs_strategy spec) (ct_extra_pressure st) ?scores"
  have cache: "cache_ok facts config ?scores" using st(1) by (simp add: state_ok_def caches_ok_def)
  from reduce_seed_result [OF facts valid, of "cs_strategy spec" "ct_extra_pressure st"] obtain r where
    "\<And>cache. cache_ok facts config cache \<Longrightarrow> \<exists>cache'. cache_ok facts config cache' \<and> (cache = None \<longrightarrow> cache' = None)
      \<and> reduce_pressure facts config (seed_residency facts) (cs_strategy spec) (ct_extra_pressure st) cache
        = Some (reduction_result r cache')" by metis
  from this [OF cache] obtain scores where
    red: "cache_ok facts config scores" "?red = Some (reduction_result r scores)" by blast
  show ?thesis
  proof (cases r)
    case (Refused e)
    with red(2) have "reduce_phase spec config st = Some (planning_failed spec st (PlanInfeasible e))"
      by (simp add: reduce_phase_def spec reduction_result_def Let_def)
    with planning_failed_ok [OF st(1)] show ?thesis by blast
  next
    case (Reduced plan)
    with red(2) have run: "?red = Some (Inr (plan, scores))" by (simp add: reduction_result_def)
    define st' where "st' = st\<lparr>ct_caches := (ct_caches st)\<lparr>pc_cut_scores := scores\<rparr>\<rparr>"
    have ok': "state_ok facts config options st'"
      using st(1) red(1) by (auto simp: st'_def state_ok_def caches_ok_def)
    let ?h = "starts_with (cs_strategy spec) ''headroom''"
    let ?key = "(plan, cs_fetch_rule spec, ?h)"
    have goes_on: "progress_ok facts config options spec (repairs_left options st)
        (Continue (st'\<lparr>ct_phase := Simulating s, ct_work := w\<rparr>))" for s w
      using ok' st(2) by (simp add: progress_ok_def state_ok_def repairs_left_def st'_def)
    have goes_on_with: "progress_ok facts config options spec (repairs_left options st)
        (Continue (st'\<lparr>ct_phase := Simulating s, ct_work := w, ct_caches := (ct_caches st')\<lparr>pc_schedules := m\<rparr>\<rparr>))" for s w m
      using ok' st(2) by (simp add: progress_ok_def state_ok_def repairs_left_def st'_def)
    show ?thesis
    proof (cases "pc_schedules (ct_caches st') ?key")
      case (Some s)
      then have "reduce_phase spec config st = Some (Inr (Continue (st'\<lparr>ct_phase := Simulating s,
          ct_work := (ct_work st')\<lparr>wc_schedule_cache_hits := wc_schedule_cache_hits (ct_work st') + 1\<rparr>\<rparr>)))"
        unfolding reduce_phase_def spec Let_def run option.case sum.case prod.case st'_def by simp
      with goes_on show ?thesis by blast
    next
      case None
      from emit_reduced [OF facts valid run] obtain e where
        emit: "emit_schedule facts config plan (cs_fetch_rule spec) ?h = Some e" by blast
      show ?thesis
      proof (cases e)
        case (Inl err)
        then have "reduce_phase spec config st = Some (planning_failed spec st' err)"
          using None emit unfolding reduce_phase_def spec Let_def run option.case sum.case prod.case st'_def by simp
        with planning_failed_ok [OF ok'] show ?thesis by blast
      next
        case (Inr s)
        then have "reduce_phase spec config st = Some (Inr (Continue (st'\<lparr>ct_phase := Simulating s,
            ct_work := (ct_work st')\<lparr>wc_schedule_emissions := wc_schedule_emissions (ct_work st') + 1\<rparr>,
            ct_caches := (ct_caches st')\<lparr>pc_schedules := (pc_schedules (ct_caches st'))(?key \<mapsto> s)\<rparr>\<rparr>)))"
          using None emit unfolding reduce_phase_def spec Let_def run option.case sum.case prod.case st'_def by simp
        with goes_on_with show ?thesis by blast
      qed
    qed
  qed
qed

lemma cached_simulation_result:
  assumes valid: "valid_program (fc_program facts)" "valid_config config"
    and spec: "sp_facts (cs_problem spec) = facts" and st: "state_ok facts config options st"
  shows "\<exists>r. cached_simulation spec config schedule st = Some r \<and> (\<forall>found st'. r = Inr (found, st') \<longrightarrow>
    state_ok facts config options st' \<and> ct_repairs st' = ct_repairs st \<and> ct_phase st' = ct_phase st
    \<and> (\<forall>result. found = Inr result \<longrightarrow> simulation_of facts config schedule = Some (Inr result)))"
proof (cases "pc_simulations (ct_caches st) schedule")
  case (Some r)
  with st show ?thesis
    by (auto simp: cached_simulation_def spec Let_def state_ok_def caches_ok_def split: sum.splits)
next
  case None
  from simulate_returns [OF valid, of schedule "fc_selections facts"] obtain r where
    r: "simulation_of facts config schedule = Some r" by (auto simp: simulation_of_def)
  note run = cached_simulation_def spec Let_def None option.case r [unfolded simulation_of_def]
  have seen: "state_ok facts config options (st\<lparr>ct_work := w,
      ct_caches := (ct_caches st)\<lparr>pc_simulations := (pc_simulations (ct_caches st))(schedule \<mapsto> found)\<rparr>\<rparr>)"
    if "r = (case found of Inl error \<Rightarrow> Inl (SimulationInfeasible error) | Inr result \<Rightarrow> Inr result)" for found w
    using st r that by (auto simp: state_ok_def caches_ok_def)
  show ?thesis
  proof (cases r)
    case (Inr result)
    with seen [of "Inr result"] r show ?thesis unfolding run by simp
  next
    case (Inl e)
    show ?thesis
    proof (cases e)
      case (SimulationInfeasible error)
      with Inl seen [of "Inl error"] show ?thesis unfolding run by simp
    qed (simp add: run Inl)
  qed
qed

lemma repair_failure_ok:
  assumes st: "state_ok facts config options st" "ct_phase st = Simulating schedule"
    and run: "repair_failure spec options schedule error st = Inr progress"
  shows "progress_ok facts config options spec (repairs_left options st) progress"
proof (cases "int (total_attempts (ct_repairs st)) < po_max_repair_attempts options")
  case True
  have refused: "progress_ok facts config options spec (repairs_left options st)
      (candidate_failed spec ''infeasible'' (if_kind error) (if_message error) st)"
    using candidate_failed_ok [OF st(1)] by simp
  have delayed: "progress_ok facts config options spec (repairs_left options st)
      (Continue (st\<lparr>ct_phase := Simulating later, ct_repairs := (ct_repairs st)\<lparr>rc_simulation_fetch_delay_attempts :=
        Suc (rc_simulation_fetch_delay_attempts (ct_repairs st))\<rparr>\<rparr>))" for later
    using st True by (simp add: progress_ok_def state_ok_def repairs_left_def)
  have reserved: "progress_ok facts config options spec (repairs_left options st)
      (Continue (st\<lparr>ct_phase := Reducing, ct_extra_pressure := m,
        ct_repairs := (ct_repairs st)\<lparr>rc_simulation_pressure_boundary_attempts :=
          Suc (rc_simulation_pressure_boundary_attempts (ct_repairs st))\<rparr>\<rparr>))" for m
    using st True by (simp add: progress_ok_def state_ok_def repairs_left_def)
  from run True show ?thesis
    by (auto simp: repair_failure_def Let_def bindE_Inr_iff split: if_splits option.splits
        intro!: refused delayed reserved)
next
  case False
  then have "int (total_attempts (ct_repairs st)) = po_max_repair_attempts options"
    using st(1) by (simp add: state_ok_def)
  then show ?thesis
    using run False by (auto simp: repair_failure_def Let_def bindE_Inr_iff intro!: candidate_failed_ok [OF st(1)]
      split: if_splits)
qed


section \<open>The candidate\<close>

lemma simulate_phase_result:
  assumes valid: "valid_program (fc_program facts)" "valid_config config"
    and spec: "sp_facts (cs_problem spec) = facts"
    and st: "state_ok facts config options st" "ct_phase st = Simulating schedule"
  shows "\<exists>r. simulate_phase spec config options schedule st = Some r
    \<and> (\<forall>progress. r = Inr progress \<longrightarrow> progress_ok facts config options spec (repairs_left options st) progress)"
proof -
  from cached_simulation_result [OF valid spec st(1)] obtain r where
    r: "cached_simulation spec config schedule st = Some r"
    and ok: "\<And>found st'. r = Inr (found, st') \<Longrightarrow> state_ok facts config options st' \<and> ct_repairs st' = ct_repairs st
      \<and> ct_phase st' = ct_phase st \<and> (\<forall>result. found = Inr result \<longrightarrow> simulation_of facts config schedule = Some (Inr result))"
    by metis
  show ?thesis
  proof (cases r)
    case (Inl e)
    with r show ?thesis by (simp add: simulate_phase_def)
  next
    case (Inr p)
    obtain found st' where p: "p = (found, st')" by (cases p)
    from ok Inr p have st': "state_ok facts config options st'" "ct_repairs st' = ct_repairs st"
      "ct_phase st' = Simulating schedule"
      "\<And>result. found = Inr result \<Longrightarrow> simulation_of facts config schedule = Some (Inr result)"
      using st(2) by auto
    have left: "repairs_left options st' = repairs_left options st" using st' st(2) by (simp add: repairs_left_def)
    show ?thesis
    proof (cases found)
      case (Inl error)
      with r Inr p have "simulate_phase spec config options schedule st = Some (repair_failure spec options schedule error st')"
        by (simp add: simulate_phase_def)
      with repair_failure_ok [OF st'(1,3)] show ?thesis by (auto simp: left)
    next
      case (Inr result)
      with r \<open>r = Inr p\<close> p st'(1) st'(4) [OF Inr] show ?thesis
        by (auto simp: simulate_phase_def progress_ok_def outcome_ok_def state_ok_def Let_def)
    qed
  qed
qed

lemma candidate_loop_result:
  assumes facts: "build_facts program selections initial_residency final_residency config = Inr facts"
    and valid: "valid_program program" "valid_config config" and program: "fc_program facts = program"
    and spec: "sp_facts (cs_problem spec) = facts" "sp_seed (cs_problem spec) = seed_residency facts"
    and st: "state_ok facts config options st"
  shows "\<exists>r. candidate_loop spec config options st = Some r \<and> (\<forall>outcome caches. r = Inr (outcome, caches) \<longrightarrow>
    outcome_ok facts config options spec outcome \<and> caches_ok facts config caches)"
  using st
proof (induction "repairs_left options st" arbitrary: st rule: less_induct)
  case less
  have "\<exists>r. candidate_step spec config options st = Some r
    \<and> (\<forall>progress. r = Inr progress \<longrightarrow> progress_ok facts config options spec (repairs_left options st) progress)"
  proof (cases "ct_phase st")
    case Reducing
    with reduce_phase_result [OF facts valid spec less.prems] show ?thesis by (simp add: candidate_step_def)
  next
    case (Simulating schedule)
    have "valid_program (fc_program facts)" using valid(1) program by simp
    from simulate_phase_result [OF this valid(2) spec(1) less.prems Simulating] Simulating show ?thesis
      by (simp add: candidate_step_def)
  qed
  then obtain r where r: "candidate_step spec config options st = Some r"
    and ok: "\<And>progress. r = Inr progress \<Longrightarrow> progress_ok facts config options spec (repairs_left options st) progress"
    by blast
  show ?case
  proof (cases r)
    case (Inl e)
    with r show ?thesis by (subst candidate_loop.simps) simp
  next
    case (Inr progress)
    from ok [OF Inr] have progress: "progress_ok facts config options spec (repairs_left options st) progress" .
    show ?thesis
    proof (cases progress)
      case (Continue st')
      with progress less.hyps [of st'] have "\<exists>r. candidate_loop spec config options st' = Some r
        \<and> (\<forall>outcome caches. r = Inr (outcome, caches) \<longrightarrow>
            outcome_ok facts config options spec outcome \<and> caches_ok facts config caches)"
        by (simp add: progress_ok_def)
      then show ?thesis using r Inr Continue by (subst candidate_loop.simps) simp
    next
      case (Answer outcome caches)
      with progress r Inr show ?thesis by (subst candidate_loop.simps) (simp add: progress_ok_def)
    qed
  qed
qed

lemma build_facts_program:
  assumes "build_facts program selections initial_residency final_residency config = Inr facts"
  shows "fc_program facts = program" "fc_selections facts = selections"
  using assms unfolding build_facts_def Let_def by auto

lemma evaluate_candidate_result:
  assumes "build_facts program selections initial_residency final_residency config = Inr facts"
    and "valid_program program" "valid_config config" and "0 \<le> po_max_repair_attempts options"
    and "sp_facts (cs_problem spec) = facts" "sp_seed (cs_problem spec) = seed_residency facts"
    and "caches_ok facts config caches"
  shows "\<exists>r. evaluate_candidate spec config options caches = Some r \<and> (\<forall>outcome caches'. r = Inr (outcome, caches') \<longrightarrow>
    outcome_ok facts config options spec outcome \<and> caches_ok facts config caches')"
  unfolding evaluate_candidate_def
  using assms by (intro candidate_loop_result [OF assms(1-3) build_facts_program(1) [OF assms(1)] assms(5,6)])
    (simp add: state_ok_def total_attempts_def no_repairs_def)

end
