(* ===== verification/PressureFit_Search_Sound.thy ===== *)
theory PressureFit_Search_Sound
  imports PressureFit_Search PressureFit_Candidate_Sound
begin

text \<open>
  The problems and candidates a search builds, the evaluation of all candidates in either order, and
  the choice of the fastest.
\<close>

section \<open>Problems\<close>

definition problem_ok ::
    "shadow_spill_program \<Rightarrow> residency_spec list \<Rightarrow> residency_spec list \<Rightarrow> simulation_config
     \<Rightarrow> selection_problem \<Rightarrow> bool" where
  "problem_ok program initial_residency final_residency config p \<longleftrightarrow>
     build_facts program (sp_selections p) initial_residency final_residency config = Inr (sp_facts p)
     \<and> sp_selection_id p = selection_id (sp_selections p) \<and> sp_seed p = seed_residency (sp_facts p)"

lemma build_problem_ok:
  "build_problem program initial_residency final_residency config selections = Inr p \<Longrightarrow>
    problem_ok program initial_residency final_residency config p \<and> sp_selections p = selections"
  by (auto simp: build_problem_def problem_ok_def)

lemma build_problems_ok:
  assumes "build_problems program initial_residency final_residency config resolved = Inr problems"
  shows "problems \<noteq> []"
    and "\<forall>p \<in> set problems. problem_ok program initial_residency final_residency config p
      \<and> sp_selections p \<in> set resolved"
proof -
  let ?build = "build_problem program initial_residency final_residency config"
  from assms obtain failures where run: "foldE (add_problem ?build) ([], []) resolved = Inr (problems, failures)"
    and some: "problems \<noteq> []"
    by (auto simp: build_problems_def bindE_Inr_iff split: if_splits list.splits)
  from run have "\<forall>p \<in> set (fst (problems, failures)). problem_ok program initial_residency final_residency config p
      \<and> sp_selections p \<in> set resolved"
  proof (rule foldE_invariant [where P = "\<lambda>ys t. \<forall>p \<in> set (fst t).
      problem_ok program initial_residency final_residency config p \<and> sp_selections p \<in> set ys"])
    fix ys x zs and t t' :: "selection_problem list \<times> plan_infeasible list"
    assume "\<forall>p \<in> set (fst t). problem_ok program initial_residency final_residency config p \<and> sp_selections p \<in> set ys"
      and "add_problem ?build t x = Inr t'"
    then show "\<forall>p \<in> set (fst t'). problem_ok program initial_residency final_residency config p
        \<and> sp_selections p \<in> set (ys @ [x])"
      using build_problem_ok [of program initial_residency final_residency config x]
      by (cases t) (auto simp: add_problem_def split: sum.splits plan_error.splits)
  qed simp
  then show "\<forall>p \<in> set problems. problem_ok program initial_residency final_residency config p
      \<and> sp_selections p \<in> set resolved" by simp
  show "problems \<noteq> []" by (rule some)
qed


section \<open>Candidates\<close>

definition spec_ok :: "selection_problem list \<Rightarrow> candidate_spec \<Rightarrow> bool" where
  "spec_ok problems spec \<longleftrightarrow> cs_problem_index spec < length problems
     \<and> cs_problem spec = problems ! cs_problem_index spec"

lemma candidate_specs_ok: "\<forall>spec \<in> set (candidate_specs problems options). spec_ok problems spec"
proof -
  have indexed: "i < length problems \<and> p = problems ! i" if "(i, p) \<in> set (enumerate 0 problems)" for i p
    using that by (auto simp: in_set_enumerate_eq)
  have "fst (snd x) \<in> set (enumerate 0 problems)"
    if "x \<in> set (enumerate 0 (List.product (enumerate 0 problems)
      (List.product (po_residency_strategies options) (po_fetch_rules options))))" for x
  proof -
    have "snd x \<in> snd ` set (enumerate 0 (List.product (enumerate 0 problems)
      (List.product (po_residency_strategies options) (po_fetch_rules options))))" using that by (rule imageI)
    also have "\<dots> = set (List.product (enumerate 0 problems)
      (List.product (po_residency_strategies options) (po_fetch_rules options)))"
      by (metis map_snd_enumerate set_map)
    finally show ?thesis by auto
  qed
  with indexed show ?thesis by (fastforce simp: candidate_specs_def spec_ok_def)
qed

lemma ordinals: "map cs_ordinal (candidate_specs problems options) = [0..<length (candidate_specs problems options)]"
proof -
  let ?xs = "List.product (enumerate 0 problems)
    (List.product (po_residency_strategies options) (po_fetch_rules options))"
  have "map cs_ordinal (candidate_specs problems options) = map fst (enumerate 0 ?xs)"
    by (simp add: candidate_specs_def comp_def case_prod_unfold)
  then show ?thesis by (simp add: candidate_specs_def)
qed

lemma sorted_map_const: "sorted (map (\<lambda>_. c) ys)"
  by (induction ys) auto

lemma sorted_product_fst: "sorted (map f xs) \<Longrightarrow> sorted (map (\<lambda>p. f (fst p)) (List.product xs ys))"
  by (induction xs) (auto simp: sorted_append comp_def sorted_map_const)

lemma problem_indices_sorted: "sorted (map cs_problem_index (candidate_specs problems options))"
proof -
  let ?xs = "List.product (enumerate 0 problems)
    (List.product (po_residency_strategies options) (po_fetch_rules options))"
  have "map cs_problem_index (candidate_specs problems options) = map (\<lambda>p. fst (fst p)) (map snd (enumerate 0 ?xs))"
    unfolding candidate_specs_def map_map by (simp add: comp_def case_prod_unfold)
  also have "\<dots> = map (\<lambda>p. fst (fst p)) ?xs" by (simp only: map_snd_enumerate)
  finally show ?thesis using sorted_product_fst [of fst "enumerate 0 problems"] by simp
qed


section \<open>One after another\<close>

lemma spec_candidate:
  assumes "\<forall>p \<in> set problems. problem_ok program initial_residency final_residency config p"
    and "valid_program program" "valid_config config" "0 \<le> po_max_repair_attempts options"
    and "spec_ok problems spec" "caches_ok (sp_facts (cs_problem spec)) config caches"
  shows "\<exists>r. evaluate_candidate spec config options caches = Some r \<and> (\<forall>outcome caches'. r = Inr (outcome, caches') \<longrightarrow>
    outcome_ok (sp_facts (cs_problem spec)) config options spec outcome
    \<and> caches_ok (sp_facts (cs_problem spec)) config caches')"
proof -
  have "problem_ok program initial_residency final_residency config (cs_problem spec)"
    using assms(1,5) by (auto simp: spec_ok_def)
  then show ?thesis using assms(2-4,6) by (intro evaluate_candidate_result) (auto simp: problem_ok_def)
qed

definition all_caches_ok :: "simulation_config \<Rightarrow> selection_problem list \<Rightarrow> problem_caches list \<Rightarrow> bool" where
  "all_caches_ok config problems caches \<longleftrightarrow> list_all2 (\<lambda>p c. caches_ok (sp_facts p) config c) problems caches"

lemma evaluate_in_order_result:
  assumes problems: "\<forall>p \<in> set problems. problem_ok program initial_residency final_residency config p"
    and valid: "valid_program program" "valid_config config" "0 \<le> po_max_repair_attempts options"
    and specs: "\<forall>spec \<in> set specs. spec_ok problems spec" and caches: "all_caches_ok config problems caches"
  shows "\<exists>r. evaluate_in_order config options caches specs = Some r \<and> (\<forall>outcomes. r = Inr outcomes \<longrightarrow>
    list_all2 (\<lambda>spec. outcome_ok (sp_facts (cs_problem spec)) config options spec) specs outcomes)"
  using specs caches
proof (induction specs arbitrary: caches)
  case (Cons spec specs)
  let ?i = "cs_problem_index spec"
  have spec: "spec_ok problems spec" "?i < length problems" "cs_problem spec = problems ! ?i"
    using Cons.prems(1) by (auto simp: spec_ok_def)
  have "caches_ok (sp_facts (cs_problem spec)) config (caches ! ?i)"
    using Cons.prems(2) spec by (auto simp: all_caches_ok_def list_all2_conv_all_nth)
  from spec_candidate [OF problems valid spec(1) this] obtain r where
    r: "evaluate_candidate spec config options (caches ! ?i) = Some r"
    and ok: "\<And>outcome left. r = Inr (outcome, left) \<Longrightarrow> outcome_ok (sp_facts (cs_problem spec)) config options spec outcome
      \<and> caches_ok (sp_facts (cs_problem spec)) config left" by blast
  show ?case
  proof (cases r)
    case (Inr p)
    obtain outcome left where p: "p = (outcome, left)" by (cases p)
    with ok Inr have here: "outcome_ok (sp_facts (cs_problem spec)) config options spec outcome"
      "caches_ok (sp_facts (cs_problem spec)) config left" by auto
    then have "all_caches_ok config problems (caches[?i := left])"
      using Cons.prems(2) spec by (auto simp: all_caches_ok_def list_all2_conv_all_nth nth_list_update)
    from Cons.IH [OF _ this] Cons.prems(1) obtain r' where "evaluate_in_order config options (caches[?i := left]) specs = Some r'"
      "\<forall>outcomes. r' = Inr outcomes \<longrightarrow>
        list_all2 (\<lambda>spec. outcome_ok (sp_facts (cs_problem spec)) config options spec) specs outcomes" by fastforce
    with r Inr p here show ?thesis by (auto split: sum.split)
  qed (simp add: r)
qed simp

lemma evaluate_one_by_one_result:
  assumes "\<forall>p \<in> set problems. problem_ok program initial_residency final_residency config p"
    and "valid_program program" "valid_config config" "0 \<le> po_max_repair_attempts options"
    and "\<forall>spec \<in> set specs. spec_ok problems spec"
  shows "\<exists>r. evaluate_one_by_one config options problems specs = Some r \<and> (\<forall>outcomes. r = Inr outcomes \<longrightarrow>
    list_all2 (\<lambda>spec. outcome_ok (sp_facts (cs_problem spec)) config options spec) specs outcomes)"
  unfolding evaluate_one_by_one_def
  using assms by (intro evaluate_in_order_result) (auto simp: all_caches_ok_def list_all2_conv_all_nth)


section \<open>One batch per problem\<close>

lemma evaluate_in_order_block:
  assumes "\<forall>spec \<in> set block. cs_problem_index spec = i" and "i < length caches"
  shows "evaluate_in_order config options caches (block @ specs) =
    (case evaluate_batch config options (caches ! i) block of
       None \<Rightarrow> None
     | Some (Inl e) \<Rightarrow> Some (Inl e)
     | Some (Inr (outcomes, left)) \<Rightarrow>
         (case evaluate_in_order config options (caches[i := left]) specs of
            None \<Rightarrow> None
          | Some (Inl e) \<Rightarrow> Some (Inl e)
          | Some (Inr others) \<Rightarrow> Some (Inr (outcomes @ others))))"
  using assms
proof (induction block arbitrary: caches)
  case Nil
  then show ?case by (auto split: option.split sum.split)
next
  case (Cons spec block)
  show ?case
  proof (cases "evaluate_candidate spec config options (caches ! i)")
    case None
    with Cons.prems show ?thesis by simp
  next
    case (Some r)
    show ?thesis
    proof (cases r)
      case (Inl e)
      with Some Cons.prems show ?thesis by simp
    next
      case (Inr p)
      obtain outcome left where p: "p = (outcome, left)" by (cases p)
      have "evaluate_in_order config options (caches[i := left]) (block @ specs) =
        (case evaluate_batch config options left block of
           None \<Rightarrow> None
         | Some (Inl e) \<Rightarrow> Some (Inl e)
         | Some (Inr (outcomes, left)) \<Rightarrow>
             (case evaluate_in_order config options (caches[i := left]) specs of
                None \<Rightarrow> None
              | Some (Inl e) \<Rightarrow> Some (Inl e)
              | Some (Inr others) \<Rightarrow> Some (Inr (outcomes @ others))))"
        using Cons.IH [of "caches[i := left]"] Cons.prems by (simp split: option.split sum.split)
      with Some Inr p Cons.prems show ?thesis by (simp split: option.split sum.split prod.split)
    qed
  qed
qed

lemma evaluate_in_order_blocks:
  assumes "\<forall>i. \<forall>spec \<in> set (block i). cs_problem_index spec = i" and "length caches = n" and "k \<le> n"
    and "\<forall>j. k \<le> j \<longrightarrow> j < n \<longrightarrow> caches ! j = empty_caches"
  shows "evaluate_in_order config options caches (concat (map block [k..<n]))
    = evaluate_batches config options (map block [k..<n])"
  using assms(3,2,4)
proof (induction k arbitrary: caches rule: inc_induct)
  case (step k)
  have k: "[k..<n] = k # [Suc k..<n]" "k < length caches" "caches ! k = empty_caches"
    using step.hyps step.prems by (auto simp: upt_conv_Cons)
  have "evaluate_in_order config options (caches[k := left]) (concat (map block [Suc k..<n]))
      = evaluate_batches config options (map block [Suc k..<n])" for left
    using step.prems by (intro step.IH) (auto simp: nth_list_update)
  then show ?case
    using evaluate_in_order_block [of "block k" k caches] assms(1) k
    by (simp split: option.split sum.split prod.split)
qed simp

lemma evaluate_batches_nonempty:
  "evaluate_batches config options (filter (\<lambda>b. b \<noteq> []) batches) = evaluate_batches config options batches"
  by (induction batches) (auto split: option.split sum.split)

lemma add_block_to_batches:
  assumes "\<forall>spec \<in> set block. cs_problem_index spec = i" and "block \<noteq> []"
    and "batches = [] \<or> cs_problem_index (hd (last batches)) \<noteq> i"
  shows "fold add_to_batches block batches = batches @ [block]"
  using assms(2,1)
proof (induction block rule: rev_nonempty_induct)
  case (single spec)
  then show ?case using assms(3) by (auto simp: add_to_batches_def)
next
  case (snoc spec block)
  then have "cs_problem_index (hd block) = i" by (cases block) auto
  with snoc show ?case by (simp add: add_to_batches_def)
qed

lemma batches_of_blocks:
  assumes "\<forall>i. \<forall>spec \<in> set (block i). cs_problem_index spec = i"
  shows "fold add_to_batches (concat (map block [0..<n])) [] = filter (\<lambda>b. b \<noteq> []) (map block [0..<n])"
proof (induction n)
  case (Suc n)
  let ?batches = "filter (\<lambda>b. b \<noteq> []) (map block [0..<n])"
  have "cs_problem_index (hd (last ?batches)) \<noteq> n" if "?batches \<noteq> []"
  proof -
    from that have "last ?batches \<in> set ?batches" by (rule last_in_set)
    then obtain i where i: "i < n" "last ?batches = block i" "block i \<noteq> []" by auto
    then have "hd (block i) \<in> set (block i)" by simp
    with assms have "cs_problem_index (hd (block i)) = i" by blast
    then show ?thesis using i(1) unfolding i(2) by simp
  qed
  then have "block n \<noteq> [] \<Longrightarrow> fold add_to_batches (block n) ?batches = ?batches @ [block n]"
    using assms by (intro add_block_to_batches) auto
  with Suc show ?case by simp
qed simp

lemma sorted_blocks:
  assumes "sorted (map f xs)" and "\<forall>x \<in> set xs. f x < n"
  shows "concat (map (\<lambda>i. filter (\<lambda>x. f x = i) xs) [0..<n]) = (xs :: 'a list)"
proof -
  have "concat (map (\<lambda>i. filter (\<lambda>x. f x = i) xs) [0..<k]) = filter (\<lambda>x. f x < k) xs" for k
  proof (induction k)
    case (Suc k)
    have "filter (\<lambda>x. f x < k) xs @ filter (\<lambda>x. f x = k) xs = filter (\<lambda>x. f x < Suc k) xs"
      using assms(1)
    proof (induction xs)
      case (Cons x xs)
      have "filter (\<lambda>x. f x < k) xs = []" if "k \<le> f x"
        using Cons.prems that by (auto simp: filter_empty_conv)
      with Cons show ?case by (cases "f x < k") (auto simp: less_Suc_eq)
    qed simp
    with Suc show ?case by simp
  qed simp
  then show ?thesis using assms(2) by simp
qed

lemma batches_in_order:
  assumes "sorted (map cs_problem_index specs)" and "\<forall>spec \<in> set specs. cs_problem_index spec < length problems"
  shows "evaluate_batches config options (fold add_to_batches specs [])
    = evaluate_one_by_one config options problems specs"
proof -
  let ?block = "\<lambda>i. filter (\<lambda>spec. cs_problem_index spec = i) specs"
  have specs: "concat (map ?block [0..<length problems]) = specs" using sorted_blocks [OF assms] .
  have "evaluate_batches config options (fold add_to_batches (concat (map ?block [0..<length problems])) [])
      = evaluate_one_by_one config options problems (concat (map ?block [0..<length problems]))"
    unfolding evaluate_one_by_one_def
    by (subst batches_of_blocks, simp, subst evaluate_batches_nonempty, rule evaluate_in_order_blocks [symmetric]) auto
  then show ?thesis unfolding specs .
qed

lemma sort_key_sorted: "sorted (map f xs) \<Longrightarrow> sort_key f xs = xs"
  by (induction xs) (auto simp: insort_is_Cons)

lemma outcomes_specs:
  "list_all2 (\<lambda>spec. outcome_ok (F spec) config options spec) specs outcomes \<Longrightarrow> map co_spec outcomes = specs"
  by (induction rule: list_all2_induct) (auto simp: outcome_ok_def Let_def)

lemma run_candidates_one_by_one:
  assumes "\<forall>p \<in> set problems. problem_ok program initial_residency final_residency config p"
    and "valid_program program" "valid_config config" "0 \<le> po_max_repair_attempts options" "0 \<le> workers"
  shows "run_candidates config options problems (candidate_specs problems options) workers
    = evaluate_one_by_one config options problems (candidate_specs problems options)"
proof -
  let ?specs = "candidate_specs problems options"
  have specs: "\<forall>spec \<in> set ?specs. spec_ok problems spec" by (rule candidate_specs_ok)
  have batches: "evaluate_batches config options (fold add_to_batches ?specs [])
      = evaluate_one_by_one config options problems ?specs"
    using batches_in_order [OF problem_indices_sorted] specs by (simp add: spec_ok_def)
  from evaluate_one_by_one_result [OF assms(1-4) specs] obtain r where
    r: "evaluate_one_by_one config options problems ?specs = Some r"
    and ok: "\<And>outcomes. r = Inr outcomes \<Longrightarrow>
      list_all2 (\<lambda>spec. outcome_ok (sp_facts (cs_problem spec)) config options spec) ?specs outcomes" by blast
  have same: "sort_key (\<lambda>outcome. cs_ordinal (co_spec outcome)) outcomes = outcomes" if "r = Inr outcomes" for outcomes
  proof -
    have "map co_spec outcomes = ?specs" using outcomes_specs [OF ok [OF that]] .
    then have "map (cs_ordinal \<circ> co_spec) outcomes = map cs_ordinal ?specs" by (metis map_map)
    then have "map (\<lambda>outcome. cs_ordinal (co_spec outcome)) outcomes = [0..<length ?specs]"
      by (simp only: ordinals comp_def)
    then show ?thesis by (intro sort_key_sorted) simp
  qed
  show ?thesis
  proof (cases r)
    case (Inr outcomes)
    then show ?thesis
      using assms(5) by (simp only: run_candidates_def batches r option.case sum.case same [OF Inr] not_less if_False if_cancel)
        simp
  qed (use assms(5) in \<open>simp add: run_candidates_def batches r\<close>)
qed


section \<open>The fastest candidate\<close>

lemma first_least_result:
  "first_least x xs \<in> insert x (set xs) \<and> (\<forall>y \<in> insert x (set xs). selection_key (first_least x xs) \<le> selection_key y)"
proof (induction xs arbitrary: x)
  case (Cons y ys)
  let ?z = "if selection_key y < selection_key x then y else x"
  from Cons [of ?z] show ?case by (auto split: if_splits intro: order_trans less_imp_le)
qed simp

lemma best_of_result:
  "(case best_of outcomes of
      None \<Rightarrow> \<forall>x \<in> set outcomes. \<not> is_valid x
    | Some best \<Rightarrow> best \<in> set outcomes \<and> is_valid best
        \<and> (\<forall>x \<in> set outcomes. is_valid x \<longrightarrow> selection_key best \<le> selection_key x))"
proof (cases "filter is_valid outcomes")
  case Nil
  then show ?thesis by (simp add: best_of_def filter_empty_conv)
next
  case (Cons x xs)
  have "insert x (set xs) = {y \<in> set outcomes. is_valid y}" using arg_cong [OF Cons, of set] by auto
  with first_least_result [of x xs] show ?thesis unfolding best_of_def Cons list.case option.case by blast
qed

end
