(* ===== verification/PressureFit_Search_Example.thy ===== *)
theory PressureFit_Search_Example
  imports PressureFit_Search_Sound
begin

text \<open>
  A search evaluated stage by stage in the kernel: one resolution, one candidate. The weights are
  evicted to make room for the gradient and fetched back; the witnesses of the search use it.
\<close>

section \<open>The stages\<close>

definition example_search_options :: pressurefit_options where
  "example_search_options = \<lparr>po_resolution_options = [Share_Fraction 0],
     po_residency_strategies = [''tight-stall''], po_fetch_rules = [''demand''],
     po_max_repair_attempts = 2, po_capacity_refinement_bytes = 0, po_record_reduction_steps = False\<rparr>"

lemma example_options_valid: "pressurefit_options_post_init example_search_options = Inr example_search_options"
  by code_simp

lemma example_resolutions:
  "resolutions sample_program (po_resolution_options example_search_options) = Inr [sample_choice ''save'']"
  by code_simp

definition example_moves :: memory_schedule where
  "example_moves = \<lparr>ms_initial_residency = [stays ''w'' DEVICE],
     ms_actions = [acts ''keep'' ''w'' EVICT, acts ''back'' ''a'' RELEASE, acts ''back'' ''g'' RELEASE,
       acts ''back'' ''w'' FETCH],
     ms_final_residency = [stays ''w'' DEVICE]\<rparr>"

lemma example_moves_eval:
  "(case example_facts of Inl _ \<Rightarrow> False | Inr facts \<Rightarrow>
     (case reduce_pressure facts example_config (seed_residency facts) ''tight-stall'' Map.empty (Some Map.empty) of
        Some (Inr (plan, _)) \<Rightarrow>
          emit_schedule facts example_config plan ''demand'' False = Some (Inr example_moves)
      | _ \<Rightarrow> False))"
  by code_simp

lemma example_moves_validated: "validate_selected example_moves sample_program example_tasks = Inr ()"
  by code_simp

definition example_moves_cx :: sim_context where
  "example_moves_cx = example_cx\<lparr>cx_schedule := example_moves, cx_record_timeline := False,
     cx_final_aliases := [''w'']\<rparr>"

lemma example_moves_context:
  "make_context sample_program example_moves (sample_choice ''save'') example_config None False
    = Inr example_moves_cx"
proof -
  have readers: "foldE (record_reader (dict_of (map (\<lambda>b. (ob_object_id b, ob_alias_group_id b))
      (pg_objects sample_program)))) Map.empty example_tasks = Inr [''w'' \<mapsto> ''keep'', ''a'' \<mapsto> ''back'']"
    by (simp add: sample_defs example_tasks_def record_reader_def task_consumes_def look_def
      dict_of_def cong: bindE_weak)
  have checks: "validate_inputs example_moves_cx = Inr ()"
    by (simp add: validate_inputs_def validate_schedule_def example_moves_cx_def example_cx_def example_selected
      example_moves_validated) (simp add: sample_program_def)
  have conf: "map (\<lambda>d. (dc_device_id d, d)) (sc_devices example_config) = [(''gpu'', example_device)]"
    and final: "map rd_alias_group_id (ms_final_residency example_moves) = [''w'']"
    by (simp_all add: example_defs example_moves_def)
  show ?thesis
    using checks
    by (simp add: make_context_def example_selected readers admission_device_config_def conf final
      example_moves_cx_def example_cx_def Let_def dict_of_Nil)
qed

lemma example_moves_run:
  "\<exists>result. simulate_python sample_program example_moves (sample_choice ''save'') example_config None False
     = Some (Inr result) \<and> sr_makespan_ns result = 26"
proof -
  have "\<exists>result. run_simulation example_moves_cx = Some (Inr result) \<and> sr_makespan_ns result = 26"
    by (simp add: simulator_eval example_moves_cx_def example_moves_def example_cx_def example_tasks_def
      example_defs sample_defs cong: bindE_weak)
  then show ?thesis by (simp add: simulate_python_def example_moves_context)
qed

section \<open>The search\<close>

definition example_spec :: "planning_facts \<Rightarrow> candidate_spec" where
  "example_spec facts = \<lparr>cs_ordinal = 0, cs_problem_index = 0,
     cs_problem = \<lparr>sp_selections = sample_choice ''save'', sp_selection_id = ''r=save'', sp_facts = facts,
       sp_seed = seed_residency facts\<rparr>,
     cs_strategy = ''tight-stall'', cs_fetch_rule = ''demand''\<rparr>"

lemma example_problems:
  "\<exists>facts. example_facts = Inr facts \<and> build_problems sample_program [stays ''w'' DEVICE] [stays ''w'' DEVICE]
     example_config [sample_choice ''save''] = Inr [cs_problem (example_spec facts)]"
proof -
  obtain facts where facts: "example_facts = Inr facts"
    "build_facts sample_program (sample_choice ''save'') [stays ''w'' DEVICE] [stays ''w'' DEVICE] example_config = Inr facts"
    "assert_required_floor facts = Inr ()" by (rule example_planned)
  have "selection_id (sample_choice ''save'') = ''r=save''" by code_simp
  with facts(2,3) have "build_problem sample_program [stays ''w'' DEVICE] [stays ''w'' DEVICE] example_config
      (sample_choice ''save'') = Inr (cs_problem (example_spec facts))"
    by (simp add: build_problem_def example_spec_def)
  with facts(1) show ?thesis by (intro exI [of _ facts]) (simp add: build_problems_def add_problem_def)
qed

lemma example_candidate:
  assumes "example_facts = Inr facts"
  shows "\<exists>outcome caches result. evaluate_candidate (example_spec facts) example_config example_search_options empty_caches
      = Some (Inr (outcome, caches))
    \<and> co_spec outcome = example_spec facts \<and> co_schedule outcome = Some example_moves
    \<and> co_simulation outcome = Some result \<and> sr_makespan_ns result = 26
    \<and> dg_status (co_diagnostic outcome) = ''valid'' \<and> dg_makespan_ns (co_diagnostic outcome) = Some 26
    \<and> dg_candidate_id (co_diagnostic outcome) = ''tight-stall/demand''
    \<and> dg_selection_id (co_diagnostic outcome) = ''r=save''"
proof -
  from example_moves_eval [unfolded assms sum.case] obtain plan scores where
    plan: "reduce_pressure facts example_config (seed_residency facts) ''tight-stall'' Map.empty (Some Map.empty)
      = Some (Inr (plan, scores))"
    and moves: "emit_schedule facts example_config plan ''demand'' False = Some (Inr example_moves)"
    by (auto split: option.splits sum.splits)
  obtain result where result: "simulate_python sample_program example_moves (sample_choice ''save'') example_config None False
      = Some (Inr result)" "sr_makespan_ns result = 26" using example_moves_run by blast
  have facts: "fc_program facts = sample_program" "fc_selections facts = sample_choice ''save''"
    using build_facts_program assms by (auto simp: example_facts_def)
  have tight: "\<not> starts_with ''tight-stall'' ''headroom''" by (simp add: starts_with_def)
  show ?thesis
    unfolding evaluate_candidate_def
    apply (subst candidate_loop.simps)
    apply (simp add: candidate_step_def reduce_phase_def example_spec_def plan empty_caches_def tight moves Let_def)
    apply (subst candidate_loop.simps)
    apply (simp add: candidate_step_def simulate_phase_def cached_simulation_def facts result Let_def candidate_id_def)
    done
qed

lemma example_search:
  "\<exists>result. pressurefit sample_program [stays ''w'' DEVICE] [stays ''w'' DEVICE] example_config
     example_search_options 1 = Some (Inr result)
   \<and> pp_schedule result = example_moves \<and> sr_makespan_ns (pp_simulation result) = 26"
proof -
  obtain facts where facts: "example_facts = Inr facts" and
    problems: "build_problems sample_program [stays ''w'' DEVICE] [stays ''w'' DEVICE] example_config [sample_choice ''save'']
      = Inr [cs_problem (example_spec facts)]" using example_problems by blast
  from example_candidate [OF facts] obtain outcome caches result where
    candidate: "evaluate_candidate (example_spec facts) example_config example_search_options empty_caches
      = Some (Inr (outcome, caches))" "co_spec outcome = example_spec facts" "co_schedule outcome = Some example_moves"
      "co_simulation outcome = Some result" "sr_makespan_ns result = 26"
      "dg_status (co_diagnostic outcome) = ''valid''" "dg_makespan_ns (co_diagnostic outcome) = Some 26"
      "dg_candidate_id (co_diagnostic outcome) = ''tight-stall/demand''"
      "dg_selection_id (co_diagnostic outcome) = ''r=save''" by blast
  have feasible: "validate_schedule_feasibility sample_program [stays ''w'' DEVICE] [stays ''w'' DEVICE] example_config
      example_search_options = Inr ()"
  proof -
    obtain facts where "build_facts sample_program (sample_choice ''save'') [stays ''w'' DEVICE] [stays ''w'' DEVICE]
      example_config = Inr facts" "assert_required_floor facts = Inr ()" by (rule example_planned)
    then show ?thesis by (simp add: validate_schedule_feasibility_def example_resolutions)
  qed
  have specs: "candidate_specs [cs_problem (example_spec facts)] example_search_options = [example_spec facts]"
    by (simp add: candidate_specs_def example_search_options_def example_spec_def)
  have index: "cs_problem_index (example_spec facts) = 0" by (simp add: example_spec_def)
  have run: "run_candidates example_config example_search_options [cs_problem (example_spec facts)] [example_spec facts] 1
      = Some (Inr [outcome])"
    by (simp add: run_candidates_def evaluate_one_by_one_def index candidate)
  have best: "best_of [outcome] = Some outcome" by (simp add: best_of_def is_valid_def candidate)
  have id: "candidate_id (example_spec facts) = ''tight-stall/demand''"
    "sp_selection_id (cs_problem (example_spec facts)) = ''r=save''"
    by (simp_all add: candidate_id_def example_spec_def)
  let ?once = "pressurefit_once sample_program [stays ''w'' DEVICE] [stays ''w'' DEVICE] example_config example_search_options 1"
  have "\<exists>result. ?once = Some (Inr result) \<and> pp_schedule result = example_moves \<and> sr_makespan_ns (pp_simulation result) = 26"
    unfolding pressurefit_once_def example_resolutions map_error_simps bindE_simps problems sum.case specs run option.case
    by (simp add: select_outcome_def best problem_diagnostics_def index candidate id construct_def
      resolved_program_post_init_def planning_diagnostics_post_init_def INCUMBENT_CANDIDATE_ID_def)
  then show ?thesis by (simp add: pressurefit_def feasible)
qed

end
