(* ===== verification/PressureFit_Search_Properties.thy ===== *)
theory PressureFit_Search_Properties
  imports PressureFit_Search_Example
begin

text \<open>What a search promises its caller, whatever the number of workers.\<close>

section \<open>The course of a search\<close>

lemma pressurefit_run:
  assumes "pressurefit program initial_residency final_residency config options workers = Some (Inr result)"
  shows "\<exists>resolved problems outcomes best. resolutions program (po_resolution_options options) = Inr resolved
    \<and> build_problems program initial_residency final_residency config resolved = Inr problems
    \<and> run_candidates config options problems (candidate_specs problems options) workers = Some (Inr outcomes)
    \<and> best_of outcomes = Some best
    \<and> pp_schedule result = the (co_schedule best) \<and> pp_simulation result = the (co_simulation best)
    \<and> pp_selections result = sp_selections (cs_problem (co_spec best))"
proof -
  from assms obtain problems where problems: "bindE (map_error SearchFault (resolutions program (po_resolution_options options)))
      (build_problems program initial_residency final_residency config) = Inr problems"
    and once: "pressurefit_once program initial_residency final_residency config options workers = Some (Inr result)"
    by (auto simp: pressurefit_def pressurefit_once_def split: sum.splits)
  from once obtain outcomes where
    run: "run_candidates config options problems (candidate_specs problems options) workers = Some (Inr outcomes)"
    and select: "select_outcome program initial_residency final_residency config options problems outcomes = Inr result"
    by (auto simp: pressurefit_once_def problems split: option.splits)
  from problems obtain resolved where "resolutions program (po_resolution_options options) = Inr resolved"
    "build_problems program initial_residency final_residency config resolved = Inr problems" by auto
  moreover from select obtain best where "best_of outcomes = Some best"
    "pp_schedule result = the (co_schedule best)" "pp_simulation result = the (co_simulation best)"
    "pp_selections result = sp_selections (cs_problem (co_spec best))"
    by (auto simp: select_outcome_def construct_def split: option.splits)
  ultimately show ?thesis using run by blast
qed

lemma options_budget: "pressurefit_options_post_init given = Inr options \<Longrightarrow> 0 \<le> po_max_repair_attempts options"
  by (auto simp: pressurefit_options_post_init_def Let_def)

lemma search_outcomes:
  assumes "valid_program program" "valid_config config" "0 \<le> po_max_repair_attempts options" "0 \<le> workers"
    and "build_problems program initial_residency final_residency config resolved = Inr problems"
  shows "\<exists>r. run_candidates config options problems (candidate_specs problems options) workers = Some r
    \<and> (\<forall>outcomes. r = Inr outcomes \<longrightarrow> list_all2 (\<lambda>spec. outcome_ok (sp_facts (cs_problem spec)) config options spec)
         (candidate_specs problems options) outcomes)"
proof -
  have problems: "\<forall>p \<in> set problems. problem_ok program initial_residency final_residency config p"
    using build_problems_ok(2) [OF assms(5)] by blast
  show ?thesis
    unfolding run_candidates_one_by_one [OF problems assms(1-4)]
    by (rule evaluate_one_by_one_result [OF problems assms(1-3) candidate_specs_ok])
qed

lemma list_all2_right: "list_all2 P xs ys \<Longrightarrow> y \<in> set ys \<Longrightarrow> \<exists>x \<in> set xs. P x y"
  by (induction rule: list_all2_induct) auto

text \<open>A valid outcome was simulated on the program of the search.\<close>

definition simulated :: "shadow_spill_program \<Rightarrow> simulation_config \<Rightarrow> task_alternative_choice list
    \<Rightarrow> memory_schedule \<Rightarrow> simulation_result \<Rightarrow> bool" where
  "simulated program config selections schedule result \<longleftrightarrow>
     simulate_python program schedule selections config None False = Some (Inr result)
     \<and> validate_schedule schedule program selections = Inr () \<and> within_memory config result"

lemma valid_outcome_simulated:
  assumes valid: "valid_program program" "valid_config config"
    and problems: "build_problems program initial_residency final_residency config resolved = Inr problems"
    and outcomes: "list_all2 (\<lambda>spec. outcome_ok (sp_facts (cs_problem spec)) config options spec)
      (candidate_specs problems options) outcomes"
    and x: "x \<in> set outcomes" "is_valid x"
  shows "sp_selections (cs_problem (co_spec x)) \<in> set resolved"
    and "simulated program config (sp_selections (cs_problem (co_spec x))) (the (co_schedule x)) (the (co_simulation x))"
proof -
  from outcomes x(1) obtain spec where spec: "spec \<in> set (candidate_specs problems options)"
    and ok: "outcome_ok (sp_facts (cs_problem spec)) config options spec x"
    by (blast dest: list_all2_right)
  have "cs_problem spec \<in> set problems" using spec candidate_specs_ok by (fastforce simp: spec_ok_def)
  with build_problems_ok(2) [OF problems] have p: "sp_selections (cs_problem spec) \<in> set resolved"
    "build_facts program (sp_selections (cs_problem spec)) initial_residency final_residency config
      = Inr (sp_facts (cs_problem spec))" by (auto simp: problem_ok_def)
  from ok x(2) have same: "co_spec x = spec"
    and run: "simulation_of (sp_facts (cs_problem spec)) config (the (co_schedule x)) = Some (Inr (the (co_simulation x)))"
    by (auto simp: outcome_ok_def is_valid_def Let_def split: if_splits)
  from run have "simulate_python program (the (co_schedule x)) (sp_selections (cs_problem spec)) config None False
      = Some (Inr (the (co_simulation x)))"
    by (simp add: simulation_of_def build_facts_program [OF p(2)])
  with simulated_within_memory [OF this valid] same
  show "simulated program config (sp_selections (cs_problem (co_spec x))) (the (co_schedule x)) (the (co_simulation x))"
    by (simp add: simulated_def)
  show "sp_selections (cs_problem (co_spec x)) \<in> set resolved" using p(1) same by simp
qed


section \<open>Properties of the search\<close>

text \<open>
  C8. A plan that the search returns is one the simulator accepts. Its selection is one of the
  resolutions of the program, its schedule passes the schedule check for that selection, the
  simulation reported is the simulator's own run of that schedule, within the capacity of every
  device and of the host; and no other candidate that the simulator accepts is faster, the first
  of the fastest being chosen.
\<close>
theorem pressurefit_sound:
  assumes "pressurefit program initial_residency final_residency config options workers = Some (Inr result)"
    and "valid_program program" "valid_config config"
    and "pressurefit_options_post_init given = Inr options" "0 \<le> workers"
  shows "\<exists>resolved problems outcomes. resolutions program (po_resolution_options options) = Inr resolved
    \<and> pp_selections result \<in> set resolved
    \<and> simulated program config (pp_selections result) (pp_schedule result) (pp_simulation result)
    \<and> build_problems program initial_residency final_residency config resolved = Inr problems
    \<and> run_candidates config options problems (candidate_specs problems options) workers = Some (Inr outcomes)
    \<and> (\<exists>best \<in> set outcomes. co_schedule best = Some (pp_schedule result)
         \<and> co_simulation best = Some (pp_simulation result)
         \<and> (\<forall>x \<in> set outcomes. is_valid x \<longrightarrow> selection_key best \<le> selection_key x))"
proof -
  from pressurefit_run [OF assms(1)] obtain resolved problems outcomes best where
    resolved: "resolutions program (po_resolution_options options) = Inr resolved"
    and problems: "build_problems program initial_residency final_residency config resolved = Inr problems"
    and run: "run_candidates config options problems (candidate_specs problems options) workers = Some (Inr outcomes)"
    and best: "best_of outcomes = Some best"
    and result: "pp_schedule result = the (co_schedule best)" "pp_simulation result = the (co_simulation best)"
      "pp_selections result = sp_selections (cs_problem (co_spec best))" by blast
  from search_outcomes [OF assms(2,3) options_budget [OF assms(4)] assms(5) problems] run
  have outcomes: "list_all2 (\<lambda>spec. outcome_ok (sp_facts (cs_problem spec)) config options spec)
    (candidate_specs problems options) outcomes" by auto
  from best_of_result [of outcomes] best have min: "best \<in> set outcomes" "is_valid best"
    "\<forall>x \<in> set outcomes. is_valid x \<longrightarrow> selection_key best \<le> selection_key x" by simp_all
  then have fastest: "\<exists>best \<in> set outcomes. co_schedule best = Some (pp_schedule result)
      \<and> co_simulation best = Some (pp_simulation result)
      \<and> (\<forall>x \<in> set outcomes. is_valid x \<longrightarrow> selection_key best \<le> selection_key x)"
    by (intro bexI [of _ best]) (simp_all add: result is_valid_def)
  note sim = valid_outcome_simulated [OF assms(2,3) problems outcomes min(1,2), folded result]
  show ?thesis by (intro exI conjI) (rule resolved sim problems run fastest)+
qed

theorem pressurefit_sound_witness:
  "\<exists>result. pressurefit sample_program [stays ''w'' DEVICE] [stays ''w'' DEVICE] example_config
     example_search_options 1 = Some (Inr result)
   \<and> simulated sample_program example_config (pp_selections result) example_moves (pp_simulation result)"
proof -
  obtain result where result: "pressurefit sample_program [stays ''w'' DEVICE] [stays ''w'' DEVICE] example_config
     example_search_options 1 = Some (Inr result)" "pp_schedule result = example_moves" using example_search by blast
  from pressurefit_sound [OF result(1) example_valid example_options_valid] result show ?thesis by auto
qed

text \<open>What a refusal of the search says of the candidates it lists.\<close>

definition refusal_ok :: "pressurefit_options \<Rightarrow> search_error \<Rightarrow> bool" where
  "refusal_ok options e \<longleftrightarrow> (case e of
     SearchFault _ \<Rightarrow> True
   | SearchInfeasible _ ds \<Rightarrow> (\<forall>d \<in> set ds. dg_status d \<in> {''infeasible'', ''invalid''}
       \<and> int (total_attempts (dg_repairs d)) \<le> po_max_repair_attempts options)
   | SearchExhausted _ ds \<Rightarrow> (\<forall>d \<in> set ds. dg_status d \<noteq> ''valid''
         \<and> int (total_attempts (dg_repairs d)) \<le> po_max_repair_attempts options)
       \<and> (\<exists>d \<in> set ds. dg_status d = ''exhausted''
            \<and> int (total_attempts (dg_repairs d)) = po_max_repair_attempts options))"

lemma first_feasible_refusal: "first_feasible check failures resolved = Inl e \<Longrightarrow> refusal_ok options e"
  by (induction check failures resolved rule: first_feasible.induct)
    (auto simp: refusal_ok_def split: list.splits sum.splits plan_error.splits)

lemma build_problems_refusal:
  "build_problems program initial_residency final_residency config resolved = Inl e \<Longrightarrow> refusal_ok options e"
  by (auto simp: build_problems_def refusal_ok_def map_error_def bindE_Inl_iff split: sum.splits if_splits list.splits)

lemma no_candidate_refusal:
  assumes "list_all2 (\<lambda>spec. outcome_ok (F spec) config options spec) specs outcomes"
    and "\<forall>x \<in> set outcomes. \<not> is_valid x"
  shows "refusal_ok options (no_candidate (map co_diagnostic outcomes))"
proof -
  have each: "dg_status (co_diagnostic x) \<in> {''infeasible'', ''invalid'', ''exhausted''}
    \<and> int (total_attempts (dg_repairs (co_diagnostic x))) \<le> po_max_repair_attempts options
    \<and> (dg_status (co_diagnostic x) = ''exhausted'' \<longrightarrow>
        int (total_attempts (dg_repairs (co_diagnostic x))) = po_max_repair_attempts options)"
    if x: "x \<in> set outcomes" for x
  proof -
    from assms(1) x obtain spec where "outcome_ok (F spec) config options spec x"
      by (blast dest: list_all2_right)
    moreover have "\<not> is_valid x" using assms(2) x by blast
    ultimately show ?thesis by (auto simp: outcome_ok_def is_valid_def Let_def split: if_splits)
  qed
  then show ?thesis by (fastforce simp: no_candidate_def refusal_ok_def list_ex_iff)
qed

text \<open>
  C11. The search returns on every accepted program, configuration and options, for any residency
  declared and any number of workers. When it refuses after evaluating candidates, no candidate was
  valid; it says that its repair budget is exhausted only if a candidate used all of it, and no
  candidate ever makes more repairs than the options allow.
\<close>
theorem pressurefit_returns:
  assumes "valid_program program" "valid_config config"
    and "pressurefit_options_post_init given = Inr options" "0 \<le> workers"
  shows "\<exists>r. pressurefit program initial_residency final_residency config options workers = Some r
    \<and> (\<forall>e. r = Inl e \<longrightarrow> refusal_ok options e)"
proof (cases "validate_schedule_feasibility program initial_residency final_residency config options")
  case (Inl e)
  then have "refusal_ok options e"
    by (auto simp: validate_schedule_feasibility_def bindE_Inl_iff map_error_def refusal_ok_def
      split: sum.splits dest: first_feasible_refusal [of _ _ _ _ options, unfolded refusal_ok_def])
  with Inl show ?thesis by (simp add: pressurefit_def)
next
  case (Inr u)
  let ?problems = "bindE (map_error SearchFault (resolutions program (po_resolution_options options)))
    (build_problems program initial_residency final_residency config)"
  show ?thesis
  proof (cases ?problems)
    case (Inl e)
    then have "refusal_ok options e"
      using build_problems_refusal by (auto simp: bindE_Inl_iff map_error_def refusal_ok_def split: sum.splits)
    with Inl \<open>_ = Inr u\<close> show ?thesis by (simp add: pressurefit_def pressurefit_once_def)
  next
    case (Inr problems)
    then obtain resolved where problems: "build_problems program initial_residency final_residency config resolved = Inr problems"
      by auto
    from search_outcomes [OF assms(1,2) options_budget [OF assms(3)] assms(4) problems] obtain r where
      r: "run_candidates config options problems (candidate_specs problems options) workers = Some r"
      and ok: "\<And>outcomes. r = Inr outcomes \<Longrightarrow>
        list_all2 (\<lambda>spec. outcome_ok (sp_facts (cs_problem spec)) config options spec) (candidate_specs problems options) outcomes"
      by blast
    let ?r = "bindE (map_error SearchFault r) (select_outcome program initial_residency final_residency config options problems)"
    have "pressurefit program initial_residency final_residency config options workers = Some ?r"
      using \<open>validate_schedule_feasibility _ _ _ _ _ = Inr u\<close> Inr r by (simp add: pressurefit_def pressurefit_once_def)
    moreover have "refusal_ok options e" if "?r = Inl e" for e
    proof (cases r)
      case (Inl f)
      with that show ?thesis by (auto simp: refusal_ok_def)
    next
      case (Inr outcomes)
      with that have e: "select_outcome program initial_residency final_residency config options problems outcomes = Inl e" by simp
      show ?thesis
      proof (cases "best_of outcomes")
        case None
        with best_of_result [of outcomes] no_candidate_refusal [OF ok [OF Inr]] e show ?thesis
          by (simp add: select_outcome_def)
      next
        case (Some best)
        with e obtain f where "e = SearchFault f" by (auto simp: select_outcome_def map_error_def split: sum.splits)
        then show ?thesis by (simp add: refusal_ok_def)
      qed
    qed
    ultimately show ?thesis by blast
  qed
qed

theorem pressurefit_returns_witness:
  "\<exists>r. pressurefit sample_program [stays ''w'' DEVICE] [stays ''w'' DEVICE] example_config
     example_search_options 4 = Some r"
  using pressurefit_returns [OF example_valid example_options_valid, of 4] by fastforce

text \<open>
  C37. The number of workers does not matter: evaluating the candidates in threads, one batch per
  problem, gives the outcomes of evaluating them one after another, in the same order, and the same
  error when one fails. A negative number of workers is excluded, which the thread pool refuses.
\<close>
theorem run_candidates_workers:
  assumes "valid_program program" "valid_config config"
    and "pressurefit_options_post_init given = Inr options" "0 \<le> workers"
    and "build_problems program initial_residency final_residency config resolved = Inr problems"
  shows "run_candidates config options problems (candidate_specs problems options) workers
    = run_candidates config options problems (candidate_specs problems options) 1"
proof -
  have problems: "\<forall>p \<in> set problems. problem_ok program initial_residency final_residency config p"
    using build_problems_ok(2) [OF assms(5)] by blast
  note same = run_candidates_one_by_one [OF problems assms(1,2) options_budget [OF assms(3)]]
  show ?thesis unfolding same [OF assms(4)] by (rule same [symmetric]) simp
qed

definition example_batch_options :: pressurefit_options where
  "example_batch_options = example_search_options\<lparr>po_fetch_rules := [''packed-fit'', ''demand'']\<rparr>"

lemma example_batch_valid: "pressurefit_options_post_init example_batch_options = Inr example_batch_options"
  by code_simp

theorem run_candidates_workers_witness:
  "\<exists>problems. build_problems sample_program [stays ''w'' DEVICE] [stays ''w'' DEVICE] example_config
      [sample_choice ''save''] = Inr problems \<and> length (candidate_specs problems example_batch_options) = 2
    \<and> run_candidates example_config example_batch_options problems (candidate_specs problems example_batch_options) 8
      = run_candidates example_config example_batch_options problems (candidate_specs problems example_batch_options) 1"
proof -
  obtain facts where problems: "build_problems sample_program [stays ''w'' DEVICE] [stays ''w'' DEVICE] example_config
      [sample_choice ''save''] = Inr [cs_problem (example_spec facts)]" using example_problems by blast
  have "length (candidate_specs [cs_problem (example_spec facts)] example_batch_options) = 2"
    by (simp add: candidate_specs_def example_batch_options_def example_search_options_def)
  with problems run_candidates_workers [OF example_valid example_batch_valid _ problems, of 8] show ?thesis by auto
qed

end
