(* ===== verification/Resolution_Properties.thy ===== *)
theory Resolution_Properties
  imports Resolution
begin

text \<open>
  What the resolutions of a program are: legal choices for every group, without repetition, the
  forced groups at their forced option, and the named share of the free groups recomputing.
\<close>

section \<open>Evenly spaced positions\<close>

definition spaced :: "nat \<Rightarrow> nat \<Rightarrow> nat \<Rightarrow> nat" where
  "spaced population count p = (2 * p + 1) * population div (2 * count)"

lemma spaced_step:
  assumes "0 < count"
  shows "spaced population count (Suc p) = spaced population count p + population div count
    \<or> spaced population count (Suc p) = spaced population count p + population div count + 1"
proof -
  define a where "a = (2 * p + 1) * population"
  define q where "q = population div count"
  define r where "r = population mod count"
  have pop: "population = count * q + r" by (simp add: q_def r_def)
  have "(2 * Suc p + 1) * population = a + 2 * population" by (simp add: a_def algebra_simps)
  also have "\<dots> = (a + 2 * r) + (2 * count) * q" by (simp add: pop)
  finally have "spaced population count (Suc p) = q + (a + 2 * r) div (2 * count)"
    using assms by (simp add: spaced_def)
  moreover have "(a + 2 * r) div (2 * count) = a div (2 * count) \<or> (a + 2 * r) div (2 * count) = a div (2 * count) + 1"
  proof -
    have "(a + 2 * r) div (2 * count) \<le> (a + 2 * count) div (2 * count)"
      using assms by (intro div_le_mono) (simp add: r_def less_imp_le)
    also have "\<dots> = a div (2 * count) + 1" using assms by simp
    finally have "(a + 2 * r) div (2 * count) \<le> a div (2 * count) + 1" .
    moreover have "a div (2 * count) \<le> (a + 2 * r) div (2 * count)" by (simp add: div_le_mono)
    ultimately show ?thesis by linarith
  qed
  ultimately show ?thesis by (auto simp: spaced_def a_def q_def)
qed

lemma spaced_less:
  assumes "p < count" "0 < population"
  shows "spaced population count p < population"
proof -
  have "2 * p + 1 < 2 * count" using assms(1) by simp
  then have "(2 * p + 1) * population < (2 * count) * population" using assms(2) by (rule mult_strict_right_mono)
  then show ?thesis by (simp add: spaced_def less_mult_imp_div_less mult.commute)
qed

lemma spaced_all: "0 < n \<Longrightarrow> spaced n n p = p"
proof -
  assume "0 < n"
  have "(2 * p + 1) * n div (2 * n) = (2 * p + 1) div 2" using \<open>0 < n\<close> by (simp add: div_mult2_eq mult.commute)
  then show ?thesis by (simp add: spaced_def)
qed

lemma evenly_spaced_result:
  assumes "count \<le> population"
  shows "evenly_spaced_indices population count = Inr (spaced population count ` {..<count})"
    and "card (spaced population count ` {..<count}) = count"
    and "spaced population count ` {..<count} \<subseteq> {..<population}"
proof -
  show "evenly_spaced_indices population count = Inr (spaced population count ` {..<count})"
  proof (cases "count = population \<and> 0 < count")
    case True
    then have "spaced population count ` {..<count} = {0..<population}"
      using spaced_all [of population] by (simp add: atLeast0LessThan)
    with True show ?thesis by (simp add: evenly_spaced_indices_def)
  next
    case False
    have "spaced population count ` {..<count}
        = set (map (\<lambda>position. (2 * position + 1) * population div (2 * count)) [0..<count])"
      by (simp add: spaced_def [abs_def] atLeast0LessThan)
    with False assms show ?thesis by (auto simp: evenly_spaced_indices_def)
  qed
  have "strict_mono_on {..<count} (spaced population count)"
  proof (cases "count = 0")
    case False
    then have "1 \<le> population div count" using assms by (simp add: Suc_le_eq div_greater_zero_iff)
    then have "spaced population count p < spaced population count (Suc p)" for p
      using spaced_step [of count population p] False by linarith
    then have "strict_mono (spaced population count)" by (simp add: strict_mono_Suc_iff)
    then show ?thesis by (simp add: strict_mono_on_def strict_mono_def)
  qed (simp add: strict_mono_on_def)
  then have "inj_on (spaced population count) {..<count}" by (rule strict_mono_on_imp_inj_on)
  then show "card (spaced population count ` {..<count}) = count" by (simp add: card_image)
  show "spaced population count ` {..<count} \<subseteq> {..<population}"
    using spaced_less [of _ count population] assms by auto
qed

text \<open>
  The positions chosen for a share are exactly as many as asked, inside the population, and
  evenly spread: neighbours are the quotient of the population by the count apart, or one more.
\<close>

theorem evenly_spaced_exact:
  assumes "count \<le> population"
  shows "\<exists>f. evenly_spaced_indices population count = Inr (f ` {..<count})
    \<and> card (f ` {..<count}) = count \<and> f ` {..<count} \<subseteq> {..<population}
    \<and> (\<forall>p. Suc p < count \<longrightarrow> f (Suc p) = f p + population div count \<or> f (Suc p) = f p + population div count + 1)"
  using evenly_spaced_result [OF assms] spaced_step [of count population] by (intro exI [of _ "spaced population count"]) auto

theorem evenly_spaced_exact_witness:
  "\<exists>S. evenly_spaced_indices 7 3 = Inr S \<and> card S = 3 \<and> S \<subseteq> {..<7}"
  using evenly_spaced_exact [of 3 7] by auto


section \<open>Shares of the free groups\<close>

lemma share_count_near:
  assumes "0 \<le> share" "share \<le> 1"
  shows "share_count n share \<le> n" and "\<bar>of_nat (share_count n share) - of_nat n * share\<bar> \<le> 1 / 2"
proof -
  have nonneg: "0 \<le> of_nat n * share + 1 / 2" using assms(1) by simp
  have "of_nat n * share \<le> of_nat n" using assms by (simp add: mult_left_le)
  then have "of_nat n * share + 1 / 2 < of_nat n + 1" by simp
  then have "\<lfloor>of_nat n * share + 1 / 2\<rfloor> < int n + 1" by (subst floor_less_iff) simp
  then show "share_count n share \<le> n" by (simp add: share_count_def)
  have "0 \<le> \<lfloor>of_nat n * share + 1 / 2\<rfloor>" using nonneg by simp
  then have "(of_nat (share_count n share) :: rat) = of_int \<lfloor>of_nat n * share + 1 / 2\<rfloor>"
    by (simp add: share_count_def)
  moreover have "of_int \<lfloor>of_nat n * share + 1 / 2\<rfloor> \<le> of_nat n * share + 1 / 2"
    "of_nat n * share + 1 / 2 < of_int \<lfloor>of_nat n * share + 1 / 2\<rfloor> + 1" by linarith+
  ultimately show "\<bar>of_nat (share_count n share) - of_nat n * share\<bar> \<le> 1 / 2" by (intro abs_leI) linarith+
qed

text \<open>
  A share makes its number of free groups recompute, to the nearest whole group: every forced
  group keeps its forced option, exactly that many free groups take \<^verbatim>\<open>recompute\<close> and the others
  take \<^verbatim>\<open>save\<close>.
\<close>

theorem group_fraction_counts:
  assumes "0 \<le> share" "share \<le> 1"
  shows "\<exists>item R. group_fraction endpoints forced share = Inr item \<and> length item = length endpoints
    \<and> R \<subseteq> {i. i < length endpoints \<and> forced i = None}
    \<and> \<bar>of_nat (card R) - of_nat (card {i. i < length endpoints \<and> forced i = None}) * share\<bar> \<le> 1 / 2
    \<and> (\<forall>i < length endpoints. item ! i = (case forced i of Some k \<Rightarrow> k
         | None \<Rightarrow> if i \<in> R then snd (endpoints ! i) else fst (endpoints ! i)))"
proof -
  let ?flexible = "{i. i < length endpoints \<and> forced i = None}"
  define free where "free = filter (\<lambda>index. forced index = None) [0..<length endpoints]"
  have set_free: "set free = ?flexible" and dist: "distinct free" by (auto simp: free_def)
  then have card: "length free = card ?flexible" by (metis distinct_card)
  define count where "count = share_count (length free) share"
  have near: "count \<le> length free" "\<bar>of_nat count - of_nat (length free) * share\<bar> \<le> 1 / 2"
    using share_count_near [OF assms(1,2)] by (simp_all add: count_def)
  define S where "S = spaced (length free) count ` {..<count}"
  have S: "evenly_spaced_indices (length free) count = Inr S" "card S = count" "S \<subseteq> {..<length free}"
    using evenly_spaced_result [OF near(1)] by (simp_all add: S_def)
  have fin: "finite S" by (simp add: S_def)
  have picked: "mapE (\<lambda>position. py_nth free (int position)) (sorted_list_of_set S)
      = Inr (map ((!) free) (sorted_list_of_set S))"
    using S(3) fin by (intro mapE_Inr_all) auto
  obtain item where item: "group_fraction endpoints forced share = Inr item"
    and at: "item = map (\<lambda>(index, save, recompute). case forced index of Some i \<Rightarrow> i
        | None \<Rightarrow> if index \<in> (!) free ` S then recompute else save) (enumerate 0 endpoints)"
  proof (rule that)
    have same: "set (map ((!) free) (sorted_list_of_set S)) = (!) free ` S" using fin by simp
    show "group_fraction endpoints forced share
        = Inr (map (\<lambda>(index, save, recompute). case forced index of Some i \<Rightarrow> i
        | None \<Rightarrow> if index \<in> (!) free ` S then recompute else save) (enumerate 0 endpoints))"
      unfolding group_fraction_def Let_def free_def [symmetric] count_def [symmetric] S(1) picked bindE_simps same ..
  qed (rule refl)
  have inj: "inj_on ((!) free) S" using dist S(3) by (intro inj_on_nth) auto
  have "(!) free ` S \<subseteq> ?flexible" using S(3) set_free by (force simp: in_set_conv_nth)
  moreover have "card ((!) free ` S) = count" using inj S(2) by (simp add: card_image)
  moreover have "item ! i = (case forced i of Some k \<Rightarrow> k
      | None \<Rightarrow> if i \<in> (!) free ` S then snd (endpoints ! i) else fst (endpoints ! i))" if "i < length endpoints" for i
    using that by (cases "endpoints ! i") (simp add: at nth_enumerate_eq split: option.split)
  moreover have "length item = length endpoints" by (simp add: at)
  ultimately show ?thesis using item near(2) card by (intro exI [of _ item] exI [of _ "(!) free ` S"]) simp
qed

theorem group_fraction_counts_witness:
  "\<exists>item. group_fraction (replicate 5 (0, 1)) [0 \<mapsto> 0] (1 / 2) = Inr item \<and> length item = 5 \<and> item ! 0 = 0"
proof -
  have "0 \<le> (1 / 2 :: rat)" "(1 / 2 :: rat) \<le> 1" by simp_all
  from group_fraction_counts [OF this, of "replicate 5 (0, 1)" "[0 \<mapsto> 0]"] obtain item where
    "group_fraction (replicate 5 (0, 1)) [0 \<mapsto> 0] (1 / 2) = Inr item" "length item = 5"
    "\<forall>i < 5. item ! i = (case [0 \<mapsto> 0] i of Some k \<Rightarrow> k | None \<Rightarrow> item ! i)" by (force split: option.splits)
  moreover from this(3) have "item ! 0 = 0" by force
  ultimately show ?thesis by blast
qed


section \<open>Legal resolutions\<close>

lemma resolution_of_Inr:
  assumes "resolution_of groups indices = Inr r"
  shows "length indices = length groups" "length r = length groups"
    and "\<And>i. i < length groups \<Longrightarrow> indices ! i < length (cg_options (groups ! i))
      \<and> r ! i = \<lparr>ac_group_id = cg_group_id (groups ! i), ac_option_id = co_option_id (cg_options (groups ! i) ! (indices ! i))\<rparr>"
proof -
  from assms have len: "length groups = length indices" and run: "mapE (\<lambda>(g, index).
      bindE (py_nth (cg_options g) (int index)) (\<lambda>x. Inr \<lparr>ac_group_id = cg_group_id g, ac_option_id = co_option_id x\<rparr>))
      (zip groups indices) = Inr r" by (auto simp: resolution_of_def)
  show "length indices = length groups" using len by simp
  show "length r = length groups" using mapE_length [OF run] len by simp
  show "indices ! i < length (cg_options (groups ! i))
      \<and> r ! i = \<lparr>ac_group_id = cg_group_id (groups ! i), ac_option_id = co_option_id (cg_options (groups ! i) ! (indices ! i))\<rparr>"
    if i: "i < length groups" for i
  proof -
    from mapE_nth [OF run, of i] i len obtain x where "py_nth (cg_options (groups ! i)) (int (indices ! i)) = Inr x"
      "r ! i = \<lparr>ac_group_id = cg_group_id (groups ! i), ac_option_id = co_option_id x\<rparr>" by auto
    with py_nth_InrD show ?thesis by fastforce
  qed
qed

lemma mapE_distinct:
  assumes "mapE f xs = Inr ys" "distinct xs"
    and "\<And>x y z. x \<in> set xs \<Longrightarrow> y \<in> set xs \<Longrightarrow> f x = Inr z \<Longrightarrow> f y = Inr z \<Longrightarrow> x = y"
  shows "distinct ys"
  unfolding distinct_conv_nth
proof (intro allI impI)
  fix i j
  assume ij: "i < length ys" "j < length ys" "i \<noteq> j"
  then have "f (xs ! i) = Inr (ys ! i)" "f (xs ! j) = Inr (ys ! j)" "i < length xs" "j < length xs"
    using mapE_nth [OF assms(1)] mapE_length [OF assms(1)] by simp_all
  with assms(2,3) ij(3) show "ys ! i \<noteq> ys ! j" by (metis nth_eq_iff_index_eq nth_mem)
qed

lemma legal_product:
  assumes "item \<in> set (product_lists (map (\<lambda>(index, g). case forced_of groups index of Some i \<Rightarrow> [i]
      | None \<Rightarrow> [0..<length (cg_options g)]) (enumerate 0 groups)))"
  shows "\<forall>i < length groups. \<forall>k. cg_forced_index (groups ! i) = Some k \<longrightarrow> item ! i = k"
proof (intro allI impI)
  fix i k
  assume i: "i < length groups" and k: "cg_forced_index (groups ! i) = Some k"
  have "list_all2 (\<in>) item (map set (map (\<lambda>(index, g). case forced_of groups index of Some i \<Rightarrow> [i]
      | None \<Rightarrow> [0..<length (cg_options g)]) (enumerate 0 groups)))"
    using assms unfolding product_lists_set by (simp add: list_all2_map2)
  from list_all2_nthD2 [OF this, of i] i k show "item ! i = k"
    by (simp add: nth_enumerate_eq forced_of_def)
qed

lemma product_lists_nonempty: "\<forall>xs \<in> set xss. xs \<noteq> [] \<Longrightarrow> product_lists xss \<noteq> []"
  by (induction xss) (auto simp: neq_Nil_conv)


definition open_groups :: "costed_group list \<Rightarrow> bool" where
  "open_groups groups \<longleftrightarrow> (\<forall>g \<in> set groups. cg_options g \<noteq> [] \<and> distinct (map co_option_id (cg_options g)))"

definition respects_forced :: "costed_group list \<Rightarrow> nat list \<Rightarrow> bool" where
  "respects_forced groups item \<longleftrightarrow>
     (\<forall>i < length groups. \<forall>k. cg_forced_index (groups ! i) = Some k \<longrightarrow> item ! i = k)"

lemma resolution_of_inj:
  assumes "open_groups groups" "resolution_of groups x = Inr r" "resolution_of groups y = Inr r"
  shows "x = y"
proof (rule nth_equalityI)
  show "length x = length y" using resolution_of_Inr(1) assms by metis
  fix i
  assume "i < length x"
  then have i: "i < length groups" using resolution_of_Inr(1) [OF assms(2)] by simp
  have dist: "distinct (map co_option_id (cg_options (groups ! i)))" using assms(1) i by (simp add: open_groups_def)
  from resolution_of_Inr(3) [OF assms(2) i] resolution_of_Inr(3) [OF assms(3) i]
  have "x ! i < length (cg_options (groups ! i))" "y ! i < length (cg_options (groups ! i))"
    "co_option_id (cg_options (groups ! i) ! (x ! i)) = co_option_id (cg_options (groups ! i) ! (y ! i))" by auto
  then show "x ! i = y ! i" using dist by (metis distinct_conv_nth length_map nth_map)
qed

lemma mapE_members: "mapE f xs = Inr ys \<Longrightarrow> y \<in> set ys \<Longrightarrow> \<exists>x \<in> set xs. f x = Inr y"
  by (metis in_set_conv_nth mapE_length mapE_nth)

lemma mapE_images: "mapE f xs = Inr ys \<Longrightarrow> x \<in> set xs \<Longrightarrow> \<exists>y. f x = Inr y"
  by (metis in_set_conv_nth mapE_length mapE_nth)

lemma resolutions_of_items:
  assumes "mapE (resolution_of groups) items = Inr rs" "open_groups groups" "distinct items" "items \<noteq> []"
    and "\<forall>item \<in> set items. respects_forced groups item"
  shows "rs \<noteq> [] \<and> distinct rs \<and> (\<forall>r \<in> set rs. \<exists>item. resolution_of groups item = Inr r \<and> respects_forced groups item)"
proof -
  have "rs \<noteq> []" using mapE_length [OF assms(1)] assms(4) by auto
  moreover have "distinct rs" by (rule mapE_distinct [OF assms(1,3)]) (rule resolution_of_inj [OF assms(2)])
  ultimately show ?thesis using mapE_members [OF assms(1)] assms(5) by blast
qed

lemma group_fraction_forced:
  assumes "group_fraction endpoints (forced_of groups) share = Inr item" "length endpoints = length groups"
  shows "respects_forced groups item"
proof -
  from assms(1) obtain R where item: "item = map (\<lambda>(index, save, recompute). case forced_of groups index of Some i \<Rightarrow> i
      | None \<Rightarrow> if index \<in> R then recompute else save) (enumerate 0 endpoints)"
    by (auto simp: group_fraction_def Let_def)
  have "item ! i = k" if "i < length groups" "cg_forced_index (groups ! i) = Some k" for i k
    using that assms(2) by (cases "endpoints ! i") (simp add: item nth_enumerate_eq forced_of_def)
  then show ?thesis by (simp add: respects_forced_def)
qed

lemma within_group_quantiles_shape:
  assumes "within_group_quantiles groups = Inr items"
  shows "\<exists>raw. raw \<noteq> [] \<and> items = fromkeys (map (\<lambda>item. map (\<lambda>(index, option_index).
    case forced_of groups index of Some i \<Rightarrow> i | None \<Rightarrow> option_index) (enumerate 0 item)) raw)"
proof -
  have shape: "Inr (fromkeys (map clamp raw)) = Inr items \<Longrightarrow> raw \<noteq> [] \<Longrightarrow>
      \<exists>raw. raw \<noteq> [] \<and> items = fromkeys (map clamp raw)" for clamp :: "nat list \<Rightarrow> nat list" and raw
    by auto
  from assms show ?thesis
    unfolding within_group_quantiles_def Let_def by (elim bindE_InrE) (erule shape, simp)
qed

lemma select_resolutions_legal:
  assumes "select_resolutions groups shares = Inr rs" "open_groups groups" "groups \<noteq> []"
  shows "rs \<noteq> [] \<and> distinct rs \<and> (\<forall>r \<in> set rs. \<exists>item. resolution_of groups item = Inr r \<and> respects_forced groups item)"
proof -
  from assms(1) obtain vs where vs: "validate_resolution_options (map Share_Fraction shares) = Inr vs"
    by (auto simp: select_resolutions_def)
  then have vs_ne: "vs \<noteq> []"
    by (auto simp: validate_resolution_options_def simp flip: set_empty)
  let ?ranges = "map (\<lambda>(index, g). case forced_of groups index of Some i \<Rightarrow> [i]
      | None \<Rightarrow> [0..<length (cg_options g)]) (enumerate 0 groups)"
  consider (all) "mapE (resolution_of groups) (product_lists ?ranges) = Inr rs"
    | (shares) endpoints items where "binary_endpoints groups = Some endpoints"
        "mapE (group_fraction endpoints (forced_of groups)) vs = Inr items"
        "mapE (resolution_of groups) (fromkeys items) = Inr rs"
    | (quantiles) items where "within_group_quantiles groups = Inr items" "mapE (resolution_of groups) items = Inr rs"
    using assms(1,3) vs
    by (auto simp: select_resolutions_def Let_def group_fractions_def split: if_splits option.splits)
  then show ?thesis
  proof cases
    case all
    show ?thesis
    proof (rule resolutions_of_items [OF all assms(2)])
      have ranges: "xs \<noteq> [] \<and> distinct xs" if "xs \<in> set ?ranges" for xs
        using that assms(2) by (auto simp: in_set_enumerate_eq open_groups_def split: option.splits)
      show "distinct (product_lists ?ranges)" using ranges by (intro distinct_product_lists) blast
      show "product_lists ?ranges \<noteq> []" using ranges by (intro product_lists_nonempty) blast
      show "\<forall>item \<in> set (product_lists ?ranges). respects_forced groups item"
        using legal_product unfolding respects_forced_def by blast
    qed
  next
    case (shares endpoints items)
    have len: "length endpoints = length groups" using shares(1) by (auto simp: binary_endpoints_def Let_def split: if_splits)
    have "fromkeys items \<noteq> []" using mapE_length [OF shares(2)] vs_ne by (metis length_0_conv set_empty set_fromkeys)
    moreover have "respects_forced groups item" if "item \<in> set items" for item
      using mapE_members [OF shares(2) that] group_fraction_forced len by blast
    ultimately show ?thesis by (intro resolutions_of_items [OF shares(3) assms(2)]) simp_all
  next
    case (quantiles items)
    from quantiles(1) obtain raw where raw: "raw \<noteq> []" and items: "items = fromkeys (map (\<lambda>item.
        map (\<lambda>(index, option_index). case forced_of groups index of Some i \<Rightarrow> i | None \<Rightarrow> option_index)
          (enumerate 0 item)) raw)"
      using within_group_quantiles_shape by blast
    show ?thesis
    proof (rule resolutions_of_items [OF quantiles(2) assms(2)])
      show "distinct items" by (simp add: items)
      show "items \<noteq> []" using raw unfolding items by (metis map_is_Nil_conv set_empty set_fromkeys)
      show "\<forall>item \<in> set items. respects_forced groups item"
      proof
        fix item
        assume "item \<in> set items"
        then obtain x where x: "item = map (\<lambda>(index, option_index). case forced_of groups index of Some i \<Rightarrow> i
            | None \<Rightarrow> option_index) (enumerate 0 x)" by (auto simp: items)
        obtain r where "resolution_of groups item = Inr r"
          using mapE_images [OF quantiles(2) \<open>item \<in> set items\<close>] by blast
        then have "length x = length groups" using resolution_of_Inr(1) x by fastforce
        then show "respects_forced groups item"
          by (simp add: respects_forced_def x nth_enumerate_eq forced_of_def)
      qed
    qed
  qed
qed

lemma cost_option_id: "cost_option alias_bytes profiles tasks x = Inr y \<Longrightarrow> co_option_id y = ao_option_id x"
  by (auto simp: cost_option_def)

lemma cost_group_ids:
  assumes "cost_group alias_bytes profile_of task_of structural (index, g) = Inr c"
  shows "cg_group_id c = al_group_id g" "map co_option_id (cg_options c) = map ao_option_id (al_options g)"
proof -
  from assms obtain options where run: "mapE (cost_option alias_bytes profile_of task_of) (al_options g) = Inr options"
    and c: "cg_group_id c = al_group_id g" "cg_options c = options" by (auto simp: cost_group_def)
  show "cg_group_id c = al_group_id g" by (rule c(1))
  show "map co_option_id (cg_options c) = map ao_option_id (al_options g)"
    unfolding c(2) using mapE_length [OF run] mapE_nth [OF run] cost_option_id by (intro nth_equalityI) fastforce+
qed

lemma costed_from_program_ids:
  assumes "costed_from_program p = Inr groups"
  shows "map cg_group_id groups = map al_group_id (pg_task_alternative_groups p)"
    and "map (\<lambda>c. map co_option_id (cg_options c)) groups
      = map (\<lambda>g. map ao_option_id (al_options g)) (pg_task_alternative_groups p)"
proof -
  from assms obtain alias_bytes profile_of task_of structural where
    run: "mapE (cost_group alias_bytes profile_of task_of structural) (enumerate 0 (pg_task_alternative_groups p)) = Inr groups"
    by (auto simp: costed_from_program_def Let_def)
  have len: "length groups = length (pg_task_alternative_groups p)" using mapE_length [OF run] by simp
  have at: "cost_group alias_bytes profile_of task_of structural (i, pg_task_alternative_groups p ! i) = Inr (groups ! i)"
    if "i < length groups" for i
    using mapE_nth [OF run, of i] that len by (simp add: nth_enumerate_eq)
  show "map cg_group_id groups = map al_group_id (pg_task_alternative_groups p)"
    using len cost_group_ids(1) [OF at] by (intro nth_equalityI) simp_all
  show "map (\<lambda>c. map co_option_id (cg_options c)) groups
      = map (\<lambda>g. map ao_option_id (al_options g)) (pg_task_alternative_groups p)"
    using len cost_group_ids(2) [OF at] by (intro nth_equalityI) simp_all
qed

lemma open_groups_of_program:
  assumes "valid_program p" "costed_from_program p = Inr groups"
  shows "open_groups groups"
proof -
  have each: "xs \<noteq> [] \<and> distinct xs"
    if "xs \<in> set (map (\<lambda>g. map ao_option_id (al_options g)) (pg_task_alternative_groups p))" for xs
    using that assms(1)
    by (auto simp: valid_program_def valid_group_def task_alternative_group_post_init_def index_unique_run)
  have "map co_option_id (cg_options c) \<noteq> [] \<and> distinct (map co_option_id (cg_options c))" if "c \<in> set groups" for c
    by (rule each) (use that in \<open>simp flip: costed_from_program_ids(2) [OF assms(2)]\<close>)
  then show ?thesis by (simp add: open_groups_def)
qed

text \<open>
  C33. Every resolution that is planned is a legal choice: for each of the program's groups, in
  order, one of its own options, at the forced option where a group is forced. There is at least
  one resolution and none is planned twice.
\<close>

theorem resolutions_legal:
  assumes "valid_program p" "resolutions p shares = Inr rs"
  shows "rs \<noteq> [] \<and> distinct rs \<and> (\<forall>r \<in> set rs.
      map ac_group_id r = map al_group_id (pg_task_alternative_groups p)
    \<and> (\<forall>i < length r. ac_option_id (r ! i) \<in> set (map ao_option_id (al_options (pg_task_alternative_groups p ! i))))
    \<and> (\<forall>groups. costed_from_program p = Inr groups \<longrightarrow> (\<forall>i < length groups. \<forall>k. cg_forced_index (groups ! i) = Some k
        \<longrightarrow> ac_option_id (r ! i) = ao_option_id (al_options (pg_task_alternative_groups p ! i) ! k))))"
proof (cases "pg_task_alternative_groups p = []")
  case True
  then have "rs = [[]]" using assms(2) by (auto simp: resolutions_def)
  moreover have "groups = []" if "costed_from_program p = Inr groups" for groups
    using costed_from_program_ids(1) [OF that] True by simp
  ultimately show ?thesis using True by auto
next
  case False
  with assms(2) obtain groups vs where costed: "costed_from_program p = Inr groups"
    and select: "select_resolutions groups vs = Inr rs" by (auto simp: resolutions_def)
  note ids = costed_from_program_ids [OF costed]
  have len: "length groups = length (pg_task_alternative_groups p)" using ids(1) by (metis length_map)
  have ne: "groups \<noteq> []" using len False by auto
  have options: "map co_option_id (cg_options (groups ! i)) = map ao_option_id (al_options (pg_task_alternative_groups p ! i))"
    if "i < length groups" for i
    using arg_cong [OF ids(2), of "\<lambda>xs. xs ! i"] that len by simp
  have legal: "map ac_group_id r = map al_group_id (pg_task_alternative_groups p)
    \<and> (\<forall>i < length r. ac_option_id (r ! i) \<in> set (map ao_option_id (al_options (pg_task_alternative_groups p ! i))))
    \<and> (\<forall>i < length groups. \<forall>k. cg_forced_index (groups ! i) = Some k
        \<longrightarrow> ac_option_id (r ! i) = ao_option_id (al_options (pg_task_alternative_groups p ! i) ! k))"
    if r: "resolution_of groups item = Inr r" and forced: "respects_forced groups item" for r item
  proof -
    note at = resolution_of_Inr [OF r]
    have "map ac_group_id r = map cg_group_id groups" using at(2,3) by (intro nth_equalityI) simp_all
    moreover have id: "item ! i < length (al_options (pg_task_alternative_groups p ! i))
        \<and> ac_option_id (r ! i) = ao_option_id (al_options (pg_task_alternative_groups p ! i) ! (item ! i))"
      if "i < length groups" for i
      using at(3) [OF that] arg_cong [OF options [OF that], of "\<lambda>xs. xs ! (item ! i)"] map_eq_imp_length_eq [OF options [OF that]]
      by simp
    ultimately show ?thesis using ids(1) at(2) forced by (auto simp: respects_forced_def)
  qed
  have only: "groups' = groups" if "costed_from_program p = Inr groups'" for groups'
    using that costed by simp
  from select_resolutions_legal [OF select open_groups_of_program [OF assms(1) costed] ne]
  have rs: "rs \<noteq> []" "distinct rs"
    "\<And>r. r \<in> set rs \<Longrightarrow> \<exists>item. resolution_of groups item = Inr r \<and> respects_forced groups item" by blast+
  have each: "map ac_group_id r = map al_group_id (pg_task_alternative_groups p)
    \<and> (\<forall>i < length r. ac_option_id (r ! i) \<in> set (map ao_option_id (al_options (pg_task_alternative_groups p ! i))))
    \<and> (\<forall>i < length groups. \<forall>k. cg_forced_index (groups ! i) = Some k
        \<longrightarrow> ac_option_id (r ! i) = ao_option_id (al_options (pg_task_alternative_groups p ! i) ! k))"
    if r: "r \<in> set rs" for r
  proof -
    from rs(3) [OF r] obtain item where "resolution_of groups item = Inr r" "respects_forced groups item" by blast
    then show ?thesis by (rule legal)
  qed
  show ?thesis
  proof (intro conjI ballI allI impI)
    fix r groups' i k
    assume r: "r \<in> set rs" and g: "costed_from_program p = Inr groups'" and i: "i < length groups'"
      and k: "cg_forced_index (groups' ! i) = Some k"
    show "ac_option_id (r ! i) = ao_option_id (al_options (pg_task_alternative_groups p ! i) ! k)"
      using each [OF r] i k unfolding only [OF g] by simp
  qed (use rs each in simp_all)
qed

theorem resolutions_legal_witness:
  "\<exists>rs. resolutions sample_program [Share_Text ''1/2''] = Inr rs \<and> distinct rs \<and> rs \<noteq> []
     \<and> (\<forall>r \<in> set rs. map ac_group_id r = [''r''])"
proof -
  have run: "resolutions sample_program [Share_Text ''1/2''] = Inr [[\<lparr>ac_group_id = ''r'', ac_option_id = ''save''\<rparr>]]"
    by code_simp
  have "map al_group_id (pg_task_alternative_groups sample_program) = [''r'']" by (simp add: sample_program_def)
  with resolutions_legal [OF sample_program_valid run] run show ?thesis by (intro exI conjI) (rule run, auto)
qed

end
