(* ===== verification/Admission_Facts.thy ===== *)
theory Admission_Facts
  imports Schedule_Safety
begin

text \<open>
  The physical facts admission plans with (\<^verbatim>\<open>src/shadowspill/planner/admission/__init__.py\<close>): what
  each task allocates, releases, replaces and hands over, the checks of the constructors, the
  agreement of the facts with a program, and the codecs over the strict readers of
  \<^verbatim>\<open>planner/strict.py\<close>. Sets of ordinals and of alias ids are HOL sets.
\<close>

section \<open>Strict readers\<close>

definition refuse :: "fstring \<Rightarrow> py_error + 'a" where
  "refuse message = Inl (ValueError message)"

definition strict_mapping :: "pyval \<Rightarrow> path \<Rightarrow> py_error + (string \<times> pyval) list" where
  "strict_mapping value path =
     (case value of
        PDict kvs \<Rightarrow>
          (case str_keys kvs of
             Some data \<Rightarrow> Inr data
           | None \<Rightarrow> refuse (path @ [Lit '': expected an object'']))
      | _ \<Rightarrow> refuse (path @ [Lit '': expected an object'']))"

definition strict_list :: "pyval \<Rightarrow> path \<Rightarrow> py_error + pyval list" where
  "strict_list value path =
     (case value of PList xs \<Rightarrow> Inr xs | _ \<Rightarrow> refuse (path @ [Lit '': expected a list'']))"

definition strict_string :: "pyval \<Rightarrow> path \<Rightarrow> py_error + string" where
  "strict_string value path =
     (case value of PStr s \<Rightarrow> Inr s | _ \<Rightarrow> refuse (path @ [Lit '': expected a string'']))"

definition strict_optional_string :: "pyval \<Rightarrow> path \<Rightarrow> py_error + string option" where
  "strict_optional_string value path =
     (if value = PNone then Inr None else bindE (strict_string value path) (\<lambda>s. Inr (Some s)))"

definition strict_integer :: "pyval \<Rightarrow> path \<Rightarrow> py_error + int" where
  "strict_integer value path =
     (case value of PInt i \<Rightarrow> Inr i | _ \<Rightarrow> refuse (path @ [Lit '': expected an integer'']))"

definition strict_optional_integer :: "pyval \<Rightarrow> path \<Rightarrow> py_error + int option" where
  "strict_optional_integer value path =
     (if value = PNone then Inr None else bindE (strict_integer value path) (\<lambda>i. Inr (Some i)))"

definition integer_tuple :: "pyval \<Rightarrow> path \<Rightarrow> py_error + int list" where
  "integer_tuple value path =
     bindE (strict_list value path) (\<lambda>items. decode_list strict_integer items path)"

definition string_tuple :: "pyval \<Rightarrow> path \<Rightarrow> py_error + string list" where
  "string_tuple value path =
     bindE (strict_list value path) (\<lambda>items. decode_list strict_string items path)"

text \<open>A reader applied to \<^verbatim>\<open>data.get(key)\<close>, which is \<^verbatim>\<open>None\<close> for a missing key.\<close>

definition read_key ::
    "(pyval \<Rightarrow> path \<Rightarrow> py_error + 'a) \<Rightarrow> (string \<times> pyval) list \<Rightarrow> string \<Rightarrow> path \<Rightarrow> py_error + 'a" where
  "read_key read data key path = read (data_get data key PNone) (at_field path key)"

text \<open>A list of records, each decoded under its own path.\<close>

definition record_tuple ::
    "(pyval \<Rightarrow> path \<Rightarrow> py_error + 'a) \<Rightarrow> pyval \<Rightarrow> path \<Rightarrow> py_error + 'a list" where
  "record_tuple decode value path =
     bindE (strict_list value path) (\<lambda>items. decode_list decode items path)"


section \<open>Allocation steps and handoffs\<close>

datatype task_allocation_step_kind = STEP_ALLOCATE | STEP_RELEASE

fun task_allocation_step_kind_value :: "task_allocation_step_kind \<Rightarrow> string" where
  "task_allocation_step_kind_value STEP_ALLOCATE = ''allocate''"
| "task_allocation_step_kind_value STEP_RELEASE = ''release''"

definition task_allocation_step_kind_of :: "string \<Rightarrow> task_allocation_step_kind option" where
  "task_allocation_step_kind_of =
     member_of task_allocation_step_kind_value [STEP_ALLOCATE, STEP_RELEASE]"

definition step_kind_from :: "pyval \<Rightarrow> path \<Rightarrow> py_error + task_allocation_step_kind" where
  "step_kind_from value path =
     bindE (strict_string value path) (\<lambda>raw.
       case task_allocation_step_kind_of raw of
         Some kind \<Rightarrow> Inr kind
       | None \<Rightarrow> refuse (path @ [Lit '': unknown value '', Repr raw]))"

record task_allocation_step =
  as_allocation_ordinal :: int
  as_kind :: task_allocation_step_kind
  as_charged_bytes :: int
  as_output_alias_group_id :: "string option"
  as_reuses_allocation_ordinal :: "int option"

definition task_allocation_step_post_init :: "task_allocation_step \<Rightarrow> py_error + unit" where
  "task_allocation_step_post_init self =
     (if as_allocation_ordinal self < 0 then
        refuse [Lit ''task allocation ordinal must be non-negative'']
      else if as_kind self = STEP_ALLOCATE then
        (if as_charged_bytes self \<le> 0 then
           refuse [Lit ''task allocation bytes must be positive'']
         else if as_output_alias_group_id self = Some [] then
           refuse [Lit ''task allocation output alias must be non-empty'']
         else case as_reuses_allocation_ordinal self of
           None \<Rightarrow> Inr ()
         | Some reused \<Rightarrow>
             if reused < 0 \<or> reused = as_allocation_ordinal self then
               refuse [Lit ''task allocation reuse ordinal is invalid'']
             else Inr ())
      else if as_charged_bytes self \<noteq> 0 \<or> as_output_alias_group_id self \<noteq> None
          \<or> as_reuses_allocation_ordinal self \<noteq> None then
        refuse [Lit ''task release carries allocation-only fields'']
      else Inr ())"

definition opt_integer :: "int option \<Rightarrow> pyval" where
  "opt_integer i = (case i of None \<Rightarrow> PNone | Some x \<Rightarrow> PInt x)"

definition task_allocation_step_to_dict :: "task_allocation_step \<Rightarrow> pyval" where
  "task_allocation_step_to_dict self =
     dict_lit [(''allocation_ordinal'', PInt (as_allocation_ordinal self)),
               (''charged_bytes'', PInt (as_charged_bytes self)),
               (''kind'', PStr (task_allocation_step_kind_value (as_kind self))),
               (''output_alias_group_id'', opt_string (as_output_alias_group_id self)),
               (''reuses_allocation_ordinal'', opt_integer (as_reuses_allocation_ordinal self))]"

definition task_allocation_step_from_value :: "pyval \<Rightarrow> path \<Rightarrow> py_error + task_allocation_step" where
  "task_allocation_step_from_value value path =
     bindE (strict_mapping value path) (\<lambda>data.
     bindE (read_key strict_integer data ''allocation_ordinal'' path) (\<lambda>allocation_ordinal.
     bindE (read_key step_kind_from data ''kind'' path) (\<lambda>kind.
     bindE (read_key strict_integer data ''charged_bytes'' path) (\<lambda>charged_bytes.
     bindE (read_key strict_optional_string data ''output_alias_group_id'' path) (\<lambda>output.
     bindE (read_key strict_optional_integer data ''reuses_allocation_ordinal'' path) (\<lambda>reuses.
       construct task_allocation_step_post_init
         \<lparr>as_allocation_ordinal = allocation_ordinal, as_kind = kind,
          as_charged_bytes = charged_bytes, as_output_alias_group_id = output,
          as_reuses_allocation_ordinal = reuses\<rparr>))))))"

record storage_handoff =
  sh_source_alias_group_id :: string
  sh_destination_alias_group_id :: string

definition storage_handoff_post_init :: "storage_handoff \<Rightarrow> py_error + unit" where
  "storage_handoff_post_init self =
     (if sh_source_alias_group_id self = [] \<or> sh_destination_alias_group_id self = [] then
        refuse [Lit ''storage-handoff alias IDs must be non-empty'']
      else if sh_source_alias_group_id self = sh_destination_alias_group_id self then
        refuse [Lit ''storage-handoff source and destination must differ'']
      else Inr ())"

definition storage_handoff_to_dict :: "storage_handoff \<Rightarrow> pyval" where
  "storage_handoff_to_dict self =
     dict_lit [(''destination_alias_group_id'', PStr (sh_destination_alias_group_id self)),
               (''source_alias_group_id'', PStr (sh_source_alias_group_id self))]"

definition storage_handoff_from_value :: "pyval \<Rightarrow> path \<Rightarrow> py_error + storage_handoff" where
  "storage_handoff_from_value value path =
     bindE (strict_mapping value path) (\<lambda>data.
     bindE (read_key strict_string data ''source_alias_group_id'' path) (\<lambda>source.
     bindE (read_key strict_string data ''destination_alias_group_id'' path) (\<lambda>destination.
       construct storage_handoff_post_init
         \<lparr>sh_source_alias_group_id = source, sh_destination_alias_group_id = destination\<rparr>)))"


section \<open>The facts of one task\<close>

record task_admission_spec =
  ta_task_id :: string
  ta_workspace_extents :: "int list"
  ta_fresh_output_aliases :: "string list"
  ta_replacement_aliases :: "string list"
  ta_storage_handoffs :: "storage_handoff list"
  ta_allocation_steps :: "task_allocation_step list"

text \<open>The bookkeeping of the allocation trace: its local variables.\<close>

record allocation_trace =
  tv_live :: "int set"
  tv_allocations :: "int \<rightharpoonup> task_allocation_step"
  tv_retired :: "int set"
  tv_reused :: "int set"
  tv_output_aliases :: "string set"

definition empty_trace :: allocation_trace where
  "empty_trace =
     \<lparr>tv_live = {}, tv_allocations = Map.empty, tv_retired = {}, tv_reused = {},
      tv_output_aliases = {}\<rparr>"

definition check_reuse :: "task_allocation_step \<Rightarrow> allocation_trace \<Rightarrow> py_error + allocation_trace" where
  "check_reuse step trace =
     (case as_reuses_allocation_ordinal step of
        None \<Rightarrow> Inr trace
      | Some source \<Rightarrow>
          if source \<notin> tv_retired trace then
            refuse [Lit ''task allocation trace reuses a non-retired ordinal'']
          else if source \<in> tv_reused trace then
            refuse [Lit ''task allocation trace reuses one ordinal twice'']
          else
            bindE (dict_get (tv_allocations trace) source) (\<lambda>earlier.
              if as_charged_bytes earlier \<noteq> as_charged_bytes step then
                refuse [Lit ''task allocation trace reuse changes charged bytes'']
              else Inr (trace\<lparr>tv_reused := insert source (tv_reused trace)\<rparr>)))"

definition check_bound_output :: "task_allocation_step \<Rightarrow> allocation_trace \<Rightarrow> py_error + allocation_trace" where
  "check_bound_output step trace =
     (case as_output_alias_group_id step of
        None \<Rightarrow> Inr trace
      | Some alias_id \<Rightarrow>
          if alias_id \<in> tv_output_aliases trace then
            refuse [Lit ''task allocation trace binds one output alias twice'']
          else Inr (trace\<lparr>tv_output_aliases := insert alias_id (tv_output_aliases trace)\<rparr>))"

definition trace_step :: "allocation_trace \<Rightarrow> task_allocation_step \<Rightarrow> py_error + allocation_trace" where
  "trace_step trace step =
     (let ordinal = as_allocation_ordinal step
      in if as_kind step = STEP_ALLOCATE then
           (if tv_allocations trace ordinal \<noteq> None then
              refuse [Lit ''task allocation trace allocates one ordinal twice'']
            else
              bindE (check_reuse step trace) (\<lambda>trace.
                check_bound_output step
                  (trace\<lparr>tv_allocations := (tv_allocations trace)(ordinal \<mapsto> step),
                         tv_live := insert ordinal (tv_live trace)\<rparr>)))
         else if ordinal \<notin> tv_live trace then
           refuse [Lit ''task allocation trace releases an unknown ordinal'']
         else
           Inr (trace\<lparr>tv_live := tv_live trace - {ordinal},
                      tv_retired := insert ordinal (tv_retired trace)\<rparr>))"

definition validate_allocation_steps :: "task_admission_spec \<Rightarrow> py_error + unit" where
  "validate_allocation_steps self =
     (if ta_allocation_steps self = [] then
        (if ta_workspace_extents self \<noteq> [] \<or> ta_fresh_output_aliases self \<noteq> []
            \<or> ta_replacement_aliases self \<noteq> [] then
           refuse [Lit ''task '', Lit (ta_task_id self), Lit '' physical admission requires explicit '',
             Lit ''allocation steps for workspace and allocated outputs'']
         else Inr ())
      else
        bindE (foldE trace_step empty_trace (ta_allocation_steps self)) (\<lambda>trace.
          let expected = set (ta_fresh_output_aliases self) \<union> set (ta_replacement_aliases self);
              persistent = as_allocation_ordinal `
                set (filter (\<lambda>step. as_output_alias_group_id step \<noteq> None) (ta_allocation_steps self))
          in if tv_output_aliases trace \<noteq> expected then
               refuse [Lit ''task allocation trace output aliases disagree with task ownership: '',
                 Lit ''trace='', ReprList (sorted_list_of_set (tv_output_aliases trace)),
                 Lit '', expected='', ReprList (sorted_list_of_set expected)]
             else if tv_live trace \<noteq> persistent then
               refuse [Lit ''task allocation trace must release every anonymous allocation'']
             else Inr ()))"

definition task_admission_spec_post_init :: "task_admission_spec \<Rightarrow> py_error + unit" where
  "task_admission_spec_post_init self =
     (let destinations = map sh_destination_alias_group_id (ta_storage_handoffs self);
          sources = map sh_source_alias_group_id (ta_storage_handoffs self);
          fresh = set (ta_fresh_output_aliases self);
          replaced = set (ta_replacement_aliases self)
      in if ta_task_id self = [] then refuse [Lit ''task admission ID must be non-empty'']
         else if \<exists>extent \<in> set (ta_workspace_extents self). extent \<le> 0 then
           refuse [Lit ''task admission workspace extents must be positive'']
         else
           bindE (checkE (\<lambda>(field_name, aliases).
               if \<not> distinct aliases then
                 refuse [Lit ''task admission '', Lit field_name, Lit '' must be unique'']
               else if [] \<in> set aliases then
                 refuse [Lit ''task admission '', Lit field_name, Lit '' must be non-empty'']
               else Inr ())
             [(''fresh_output_aliases'', ta_fresh_output_aliases self),
              (''replacement_aliases'', ta_replacement_aliases self)]) (\<lambda>_.
           if \<not> distinct destinations then
             refuse [Lit ''task storage-handoff destinations must be unique'']
           else if \<not> distinct sources then
             refuse [Lit ''task storage-handoff sources must be unique'']
           else if fresh \<inter> replaced \<noteq> {} \<or> fresh \<inter> set destinations \<noteq> {}
               \<or> replaced \<inter> set destinations \<noteq> {} then
             refuse [Lit ''fresh, replacement, and handoff destination aliases must be disjoint'']
           else validate_allocation_steps self))"

definition workspace_bytes :: "task_admission_spec \<Rightarrow> int" where
  "workspace_bytes self = sum_list (ta_workspace_extents self)"

definition task_admission_spec_to_dict :: "task_admission_spec \<Rightarrow> pyval" where
  "task_admission_spec_to_dict self =
     dict_lit [(''fresh_output_aliases'', string_list (ta_fresh_output_aliases self)),
               (''replacement_aliases'', string_list (ta_replacement_aliases self)),
               (''storage_handoffs'', PList (map storage_handoff_to_dict (ta_storage_handoffs self))),
               (''task_id'', PStr (ta_task_id self)),
               (''workspace_extents'', PList (map PInt (ta_workspace_extents self))),
               (''allocation_steps'',
                 PList (map task_allocation_step_to_dict (ta_allocation_steps self)))]"

definition task_admission_spec_from_value :: "pyval \<Rightarrow> path \<Rightarrow> py_error + task_admission_spec" where
  "task_admission_spec_from_value value path =
     bindE (strict_mapping value path) (\<lambda>data.
     bindE (read_key strict_string data ''task_id'' path) (\<lambda>task_id.
     bindE (read_key integer_tuple data ''workspace_extents'' path) (\<lambda>workspace_extents.
     bindE (read_key string_tuple data ''fresh_output_aliases'' path) (\<lambda>fresh_output_aliases.
     bindE (read_key string_tuple data ''replacement_aliases'' path) (\<lambda>replacement_aliases.
     bindE (read_key (record_tuple storage_handoff_from_value) data ''storage_handoffs'' path)
       (\<lambda>storage_handoffs.
     bindE (read_key (record_tuple task_allocation_step_from_value) data ''allocation_steps'' path)
       (\<lambda>allocation_steps.
       construct task_admission_spec_post_init
         \<lparr>ta_task_id = task_id, ta_workspace_extents = workspace_extents,
          ta_fresh_output_aliases = fresh_output_aliases,
          ta_replacement_aliases = replacement_aliases, ta_storage_handoffs = storage_handoffs,
          ta_allocation_steps = allocation_steps\<rparr>)))))))"


section \<open>The facts of a program\<close>

definition admission_schema :: string where "admission_schema = artifact_schema ''admission_facts''"

record admission_facts =
  fx_device_id :: string
  fx_pool_capacity_bytes :: int
  fx_object_capacity_bytes :: int
  fx_minimum_alignment :: int
  fx_tasks :: "task_admission_spec list"

definition admission_facts_post_init :: "admission_facts \<Rightarrow> py_error + unit" where
  "admission_facts_post_init self =
     (if fx_device_id self = [] then refuse [Lit ''admission device ID must be non-empty'']
      else if fx_pool_capacity_bytes self \<le> 0 then
        refuse [Lit ''admission pool capacity must be positive'']
      else if \<not> (0 < fx_object_capacity_bytes self
          \<and> fx_object_capacity_bytes self \<le> fx_pool_capacity_bytes self) then
        refuse [Lit ''admission object capacity must be positive and no larger than '',
          Lit ''the pool capacity'']
      else if fx_minimum_alignment self \<le> 0 then
        refuse [Lit ''admission minimum alignment must be positive'']
      else if \<not> distinct (map ta_task_id (fx_tasks self)) then
        refuse [Lit ''admission task IDs must be unique'']
      else Inr ())"

definition admission_facts_to_dict :: "admission_facts \<Rightarrow> pyval" where
  "admission_facts_to_dict self =
     dict_lit [(''device_id'', PStr (fx_device_id self)),
               (''minimum_alignment'', PInt (fx_minimum_alignment self)),
               (''object_capacity_bytes'', PInt (fx_object_capacity_bytes self)),
               (''pool_capacity_bytes'', PInt (fx_pool_capacity_bytes self)),
               (''schema'', PStr admission_schema),
               (''tasks'', PList (map task_admission_spec_to_dict (fx_tasks self)))]"

definition admission_facts_from_dict :: "pyval \<Rightarrow> py_error + admission_facts" where
  "admission_facts_from_dict value =
     (let path = [Lit ''admission'']
      in bindE (strict_mapping value path) (\<lambda>data.
         bindE (read_key strict_string data ''schema'' path) (\<lambda>schema.
         if schema \<noteq> admission_schema then
           refuse [Lit ''admission.schema: unsupported schema '', Repr schema]
         else
           bindE (read_key strict_string data ''device_id'' path) (\<lambda>device_id.
           bindE (read_key strict_integer data ''pool_capacity_bytes'' path) (\<lambda>pool_capacity_bytes.
           bindE (read_key strict_integer data ''object_capacity_bytes'' path) (\<lambda>object_capacity_bytes.
           bindE (read_key strict_integer data ''minimum_alignment'' path) (\<lambda>minimum_alignment.
           bindE (read_key (record_tuple task_admission_spec_from_value) data ''tasks'' path) (\<lambda>tasks.
             construct admission_facts_post_init
               \<lparr>fx_device_id = device_id, fx_pool_capacity_bytes = pool_capacity_bytes,
                fx_object_capacity_bytes = object_capacity_bytes,
                fx_minimum_alignment = minimum_alignment, fx_tasks = tasks\<rparr>))))))))"

definition referenced_aliases :: "task_admission_spec \<Rightarrow> string list" where
  "referenced_aliases task =
     ta_fresh_output_aliases task @ ta_replacement_aliases task
     @ map sh_source_alias_group_id (ta_storage_handoffs task)
     @ map sh_destination_alias_group_id (ta_storage_handoffs task)"

definition validate_facts :: "admission_facts \<Rightarrow> shadow_spill_program \<Rightarrow> py_error + unit" where
  "validate_facts self program =
     (let expected_tasks = map tk_task_id (pg_tasks program);
          actual_tasks = map ta_task_id (fx_tasks self);
          aliases = set (map ag_alias_group_id (pg_alias_groups program))
      in if fx_device_id self \<notin> set (map dv_device_id (pg_devices program)) then
           refuse [Lit ''admission facts names unknown device '', Repr (fx_device_id self)]
         else if length (pg_devices program) \<noteq> 1 then
           refuse [Lit ''one AdmissionFacts describes exactly one execution '',
             Lit ''pool; ShadowSpillProgram has '', Num (int (length (pg_devices program))),
             Lit '' devices'']
         else if actual_tasks \<noteq> expected_tasks then
           refuse [Lit ''admission tasks must exactly follow ShadowSpillProgram task order: '',
             Lit ''expected='', ReprTuple expected_tasks, Lit '', actual='', ReprTuple actual_tasks]
         else
           checkE (\<lambda>task.
               let unknown = set (referenced_aliases task) - aliases
               in if unknown \<noteq> {} then
                    refuse [Lit ''task admission '', Repr (ta_task_id task),
                      Lit '' references unknown aliases '', ReprList (sorted_list_of_set unknown)]
                  else Inr ())
             (fx_tasks self))"


section \<open>The codecs\<close>

lemma refuse_not_Inr [simp]: "refuse message \<noteq> Inr x"
  by (simp add: refuse_def)

lemma strict_simps [simp, py_simps]:
  "strict_mapping (dict_lit kvs) path = Inr kvs"
  "strict_list (PList xs) path = Inr xs"
  "strict_string (PStr s) path = Inr s"
  "strict_integer (PInt i) path = Inr i"
  "strict_optional_string (opt_string so) path = Inr so"
  "strict_optional_integer (opt_integer io) path = Inr io"
  by (auto simp: strict_mapping_def dict_lit_def strict_list_def strict_string_def
      strict_integer_def strict_optional_string_def strict_optional_integer_def opt_string_def
      opt_integer_def split: option.split)

lemma tuple_simps [simp]:
  "integer_tuple (PList (map PInt xs)) path = Inr xs"
  "string_tuple (string_list ys) path = Inr ys"
  by (simp_all add: integer_tuple_def string_tuple_def string_list_def decode_list_map)

interpretation step_kind: str_enum task_allocation_step_kind_value task_allocation_step_kind_of
proof unfold_locales
  show "task_allocation_step_kind_of (task_allocation_step_kind_value k) = Some k" for k
    by (cases k) (simp_all add: task_allocation_step_kind_of_def member_of_def)
qed (auto simp: task_allocation_step_kind_of_def dest: member_of_SomeD)

lemma step_kind_from_value [simp]:
  "step_kind_from (PStr (task_allocation_step_kind_value kind)) path = Inr kind"
  by (simp add: step_kind_from_def)

definition valid_step :: "task_allocation_step \<Rightarrow> bool" where
  "valid_step step \<longleftrightarrow> task_allocation_step_post_init step = Inr ()"

definition valid_handoff :: "storage_handoff \<Rightarrow> bool" where
  "valid_handoff handoff \<longleftrightarrow> storage_handoff_post_init handoff = Inr ()"

definition valid_admission :: "task_admission_spec \<Rightarrow> bool" where
  "valid_admission spec \<longleftrightarrow> task_admission_spec_post_init spec = Inr ()
     \<and> (\<forall>x \<in> set (ta_storage_handoffs spec). valid_handoff x)
     \<and> (\<forall>x \<in> set (ta_allocation_steps spec). valid_step x)"

definition valid_facts :: "admission_facts \<Rightarrow> bool" where
  "valid_facts facts \<longleftrightarrow> admission_facts_post_init facts = Inr ()
     \<and> (\<forall>x \<in> set (fx_tasks facts). valid_admission x)"

lemma admission_eta [simp]:
  "\<lparr>as_allocation_ordinal = as_allocation_ordinal a, as_kind = as_kind a,
    as_charged_bytes = as_charged_bytes a, as_output_alias_group_id = as_output_alias_group_id a,
    as_reuses_allocation_ordinal = as_reuses_allocation_ordinal a\<rparr> = a"
  "\<lparr>sh_source_alias_group_id = sh_source_alias_group_id b,
    sh_destination_alias_group_id = sh_destination_alias_group_id b\<rparr> = b"
  "\<lparr>ta_task_id = ta_task_id c, ta_workspace_extents = ta_workspace_extents c,
    ta_fresh_output_aliases = ta_fresh_output_aliases c,
    ta_replacement_aliases = ta_replacement_aliases c,
    ta_storage_handoffs = ta_storage_handoffs c,
    ta_allocation_steps = ta_allocation_steps c\<rparr> = c"
  "\<lparr>fx_device_id = fx_device_id d, fx_pool_capacity_bytes = fx_pool_capacity_bytes d,
    fx_object_capacity_bytes = fx_object_capacity_bytes d,
    fx_minimum_alignment = fx_minimum_alignment d, fx_tasks = fx_tasks d\<rparr> = d"
  by simp_all

interpretation step_codec: codec task_allocation_step_to_dict task_allocation_step_from_value valid_step
  by unfold_locales
    (auto simp: task_allocation_step_to_dict_def task_allocation_step_from_value_def valid_step_def
      read_key_def construct_Inr_iff)

interpretation handoff_codec: codec storage_handoff_to_dict storage_handoff_from_value valid_handoff
  by unfold_locales
    (auto simp: storage_handoff_to_dict_def storage_handoff_from_value_def valid_handoff_def
      read_key_def construct_Inr_iff)

lemma record_tuple_simps:
  "\<forall>x \<in> set xs. valid_step x \<Longrightarrow>
     record_tuple task_allocation_step_from_value (PList (map task_allocation_step_to_dict xs)) path
     = Inr xs"
  "\<forall>x \<in> set ys. valid_handoff x \<Longrightarrow>
     record_tuple storage_handoff_from_value (PList (map storage_handoff_to_dict ys)) path = Inr ys"
  by (simp_all add: record_tuple_def step_codec.decode_list_encode handoff_codec.decode_list_encode)

lemma record_tuple_valid:
  "record_tuple task_allocation_step_from_value v path = Inr xs \<Longrightarrow> \<forall>x \<in> set xs. valid_step x"
  "record_tuple storage_handoff_from_value v path = Inr ys \<Longrightarrow> \<forall>x \<in> set ys. valid_handoff x"
  by (auto simp: record_tuple_def dest: step_codec.decode_list_valid handoff_codec.decode_list_valid)

interpretation admission_codec:
  codec task_admission_spec_to_dict task_admission_spec_from_value valid_admission
proof unfold_locales
  fix x path
  assume "valid_admission x"
  then show "task_admission_spec_from_value (task_admission_spec_to_dict x) path = Inr x"
    by (auto simp: valid_admission_def task_admission_spec_from_value_def
        task_admission_spec_to_dict_def read_key_def record_tuple_simps construct_Inr_iff)
next
  fix v path x
  assume "task_admission_spec_from_value v path = Inr x"
  then show "valid_admission x"
    by (auto simp: valid_admission_def task_admission_spec_from_value_def read_key_def
        construct_Inr_iff dest: record_tuple_valid)
qed

lemma record_tuple_admissions:
  "record_tuple task_admission_spec_from_value v path = Inr xs \<Longrightarrow> \<forall>x \<in> set xs. valid_admission x"
  by (auto simp: record_tuple_def dest: admission_codec.decode_list_valid)

interpretation facts_codec:
  codec admission_facts_to_dict "\<lambda>v path. admission_facts_from_dict v" valid_facts
proof unfold_locales
  fix x
  assume "valid_facts x"
  then show "admission_facts_from_dict (admission_facts_to_dict x) = Inr x"
    by (auto simp: valid_facts_def admission_facts_from_dict_def admission_facts_to_dict_def
        read_key_def record_tuple_def admission_codec.decode_list_encode construct_Inr_iff)
next
  fix v x
  assume "admission_facts_from_dict v = Inr x"
  then show "valid_facts x"
    by (auto simp: valid_facts_def admission_facts_from_dict_def read_key_def construct_Inr_iff
        Let_def split: if_splits dest!: record_tuple_admissions)
qed

end
