(* ===== verification/Admission_Replay.thy ===== *)
theory Admission_Replay
  imports Admission_Facts "HOL-Library.AList"
begin

text \<open>
  The readable replay of a schedule into pool operations
  (\<^verbatim>\<open>reference/python/admission/replay.py\<close>, with the records of
  \<^verbatim>\<open>planner/admission/admission_replay.py\<close> and \<^verbatim>\<open>runtime/admission_replay.py\<close>). What the builder reads
  and never changes is the context, the rest of its attributes are the state every method returns
  updated. Dictionaries that are iterated are association lists in insertion order, the others
  maps. The pool that runs the operations is C: it is an argument, like the digests.
\<close>

section \<open>Records\<close>

datatype admission_purpose =
    INITIAL_OBJECT
  | TASK_WORKSPACE
  | TASK_OUTPUT
  | MUTATION_REPLACEMENT
  | PURPOSE_RELEASE
  | EVICTION
  | FETCH_DESTINATION
  | TERMINAL_COMPLETION

fun admission_purpose_value :: "admission_purpose \<Rightarrow> string" where
  "admission_purpose_value INITIAL_OBJECT = ''initial_object''"
| "admission_purpose_value TASK_WORKSPACE = ''task_workspace''"
| "admission_purpose_value TASK_OUTPUT = ''task_output''"
| "admission_purpose_value MUTATION_REPLACEMENT = ''mutation_replacement''"
| "admission_purpose_value PURPOSE_RELEASE = ''release''"
| "admission_purpose_value EVICTION = ''eviction''"
| "admission_purpose_value FETCH_DESTINATION = ''fetch_destination''"
| "admission_purpose_value TERMINAL_COMPLETION = ''terminal_completion''"

datatype ownership_transition_kind = STORAGE_HANDOFF | OWNERSHIP_REPLACEMENT

fun ownership_transition_kind_value :: "ownership_transition_kind \<Rightarrow> string" where
  "ownership_transition_kind_value STORAGE_HANDOFF = ''storage_handoff''"
| "ownership_transition_kind_value OWNERSHIP_REPLACEMENT = ''mutation_replacement''"

datatype pool_operation_kind =
    ACQUIRE
  | BEGIN_RETIREMENT
  | PUBLISH_DEPENDENCY
  | RESERVE
  | ACQUIRE_RESERVED
  | COMPLETE_RETIREMENT
  | POOL_RELEASE

fun pool_operation_kind_value :: "pool_operation_kind \<Rightarrow> int" where
  "pool_operation_kind_value ACQUIRE = 0"
| "pool_operation_kind_value BEGIN_RETIREMENT = 1"
| "pool_operation_kind_value PUBLISH_DEPENDENCY = 2"
| "pool_operation_kind_value RESERVE = 3"
| "pool_operation_kind_value ACQUIRE_RESERVED = 4"
| "pool_operation_kind_value COMPLETE_RETIREMENT = 5"
| "pool_operation_kind_value POOL_RELEASE = 6"

text \<open>Sequences and identifiers count from zero, so only the geometry can be refused.\<close>

record pool_operation =
  po_sequence :: nat
  po_lease_id :: nat
  po_kind :: pool_operation_kind
  po_bytes :: int
  po_alignment :: int
  po_dependency_id :: "nat option"
  po_dependency_expected :: bool

definition pool_operation_post_init :: "pool_operation \<Rightarrow> py_error + unit" where
  "pool_operation_post_init self =
     (if po_bytes self < 0 \<or> po_alignment self < 0 then
        refuse [Lit ''admission geometry must be non-negative'']
      else Inr ())"

record replay_step =
  rt_operation :: pool_operation
  rt_purpose :: admission_purpose
  rt_task_id :: "string option"
  rt_alias_group_id :: "string option"
  rt_action_index :: "nat option"

record ownership_transition =
  ot_task_id :: string
  ot_kind :: ownership_transition_kind
  ot_destination_alias_group_id :: string
  ot_destination_lease_id :: nat
  ot_source_alias_group_id :: "string option"
  ot_source_lease_id :: "nat option"

record lease_provenance =
  lp_purpose :: admission_purpose
  lp_task_id :: "string option"
  lp_alias_group_id :: "string option"
  lp_action_index :: "nat option"

record pending_retirement =
  pr_lease_id :: nat
  pr_dependency_id :: nat
  pr_provenance :: lease_provenance


section \<open>The builder\<close>

record builder_context =
  bc_schedule :: memory_schedule
  bc_tasks :: "task_spec list"
  bc_admission_by_task :: "string \<rightharpoonup> task_admission_spec"
  bc_alignment :: int
  bc_alias_size :: "string \<rightharpoonup> int"
  bc_shared_aliases :: "string set"
  bc_alias_by_object :: "string \<rightharpoonup> string"
  bc_actions_by_task :: "string \<rightharpoonup> (nat \<times> memory_action) list"

record builder =
  bs_operations :: "replay_step list"
  bs_ownership_transitions :: "ownership_transition list"
  bs_active_aliases :: "(string \<times> nat) list"
  bs_initial_alias_leases :: "string \<rightharpoonup> nat"
  bs_task_allocation_leases :: "string \<times> int \<rightharpoonup> nat"
  bs_action_destination_leases :: "nat \<rightharpoonup> nat"
  bs_lease_provenance :: "nat \<rightharpoonup> lease_provenance"
  bs_pending_retirements :: "pending_retirement list"
  bs_task_completion_dependencies :: "string \<rightharpoonup> nat"
  bs_handoff_releases :: "(string \<times> string) set"
  bs_workspace_bytes_by_task :: "(string \<times> int) list"
  bs_next_lease_id :: nat
  bs_next_dependency_id :: nat

definition index_actions :: "memory_schedule \<Rightarrow> (string \<rightharpoonup> (nat \<times> memory_action) list)" where
  "index_actions schedule =
     fold (\<lambda>(index, action) indexed.
         indexed(ma_trigger_task_id action \<mapsto>
           task_actions indexed (ma_trigger_task_id action) @ [(index, action)]))
       (enumerate 0 (ms_actions schedule)) Map.empty"

definition builder_context_of ::
    "shadow_spill_program \<Rightarrow> memory_schedule \<Rightarrow> task_alternative_choice list \<Rightarrow> admission_facts
     \<Rightarrow> py_error + builder_context" where
  "builder_context_of program schedule selections facts =
     bindE (select_tasks program selections) (\<lambda>tasks. Inr
       \<lparr>bc_schedule = schedule, bc_tasks = tasks,
        bc_admission_by_task = dict_of (map (\<lambda>x. (ta_task_id x, x)) (fx_tasks facts)),
        bc_alignment = fx_minimum_alignment facts,
        bc_alias_size = dict_of (map (\<lambda>g. (ag_alias_group_id g, ag_size_bytes g))
          (pg_alias_groups program)),
        bc_shared_aliases = ag_alias_group_id `
          set (filter (\<lambda>g. ag_shared_residency g \<noteq> None) (pg_alias_groups program)),
        bc_alias_by_object = dict_of (map (\<lambda>b. (ob_object_id b, ob_alias_group_id b))
          (pg_objects program)),
        bc_actions_by_task = index_actions schedule\<rparr>)"

definition new_builder :: builder where
  "new_builder =
     \<lparr>bs_operations = [], bs_ownership_transitions = [], bs_active_aliases = [],
      bs_initial_alias_leases = Map.empty, bs_task_allocation_leases = Map.empty,
      bs_action_destination_leases = Map.empty, bs_lease_provenance = Map.empty,
      bs_pending_retirements = [], bs_task_completion_dependencies = Map.empty,
      bs_handoff_releases = {}, bs_workspace_bytes_by_task = [], bs_next_lease_id = 0,
      bs_next_dependency_id = 0\<rparr>"

text \<open>Whether an alias owns a lease, and the lease it owns.\<close>

abbreviation active_lease :: "builder \<Rightarrow> (string \<rightharpoonup> nat)" where
  "active_lease s \<equiv> map_of (bs_active_aliases s)"

definition set_active :: "string \<Rightarrow> nat \<Rightarrow> builder \<Rightarrow> builder" where
  "set_active alias_id lease_id s =
     s\<lparr>bs_active_aliases := AList.update alias_id lease_id (bs_active_aliases s)\<rparr>"

definition pop_active :: "string \<Rightarrow> builder \<Rightarrow> builder" where
  "pop_active alias_id s = s\<lparr>bs_active_aliases := AList.delete alias_id (bs_active_aliases s)\<rparr>"


section \<open>Leases and retirements\<close>

definition append_operation ::
    "nat \<Rightarrow> pool_operation_kind \<Rightarrow> lease_provenance \<Rightarrow> int \<Rightarrow> int \<Rightarrow> nat option \<Rightarrow> bool \<Rightarrow> builder
     \<Rightarrow> py_error + builder" where
  "append_operation lease_id kind provenance bytes alignment dependency_id dependency_expected s =
     bindE (construct pool_operation_post_init
       \<lparr>po_sequence = length (bs_operations s), po_lease_id = lease_id, po_kind = kind,
        po_bytes = bytes, po_alignment = alignment, po_dependency_id = dependency_id,
        po_dependency_expected = dependency_expected\<rparr>) (\<lambda>operation.
     Inr (s\<lparr>bs_operations := bs_operations s @
       [\<lparr>rt_operation = operation, rt_purpose = lp_purpose provenance,
         rt_task_id = lp_task_id provenance, rt_alias_group_id = lp_alias_group_id provenance,
         rt_action_index = lp_action_index provenance\<rparr>]\<rparr>))"

definition new_lease_id :: "lease_provenance \<Rightarrow> builder \<Rightarrow> nat \<times> builder" where
  "new_lease_id provenance s =
     (let lease_id = bs_next_lease_id s
      in (lease_id, s\<lparr>bs_next_lease_id := lease_id + 1,
                      bs_lease_provenance := (bs_lease_provenance s)(lease_id \<mapsto> provenance)\<rparr>))"

definition new_dependency_id :: "builder \<Rightarrow> nat \<times> builder" where
  "new_dependency_id s =
     (bs_next_dependency_id s, s\<lparr>bs_next_dependency_id := bs_next_dependency_id s + 1\<rparr>)"

definition acquire :: "int \<Rightarrow> int \<Rightarrow> lease_provenance \<Rightarrow> builder \<Rightarrow> py_error + (nat \<times> builder)" where
  "acquire alignment bytes provenance s =
     (case new_lease_id provenance s of (lease_id, s) \<Rightarrow>
        bindE (append_operation lease_id RESERVE provenance bytes alignment None False s) (\<lambda>s.
        bindE (append_operation lease_id ACQUIRE_RESERVED provenance 0 0 None False s) (\<lambda>s.
          Inr (lease_id, s))))"

definition acquire_task :: "int \<Rightarrow> int \<Rightarrow> lease_provenance \<Rightarrow> builder \<Rightarrow> py_error + (nat \<times> builder)" where
  "acquire_task alignment bytes provenance s =
     (case new_lease_id provenance s of (lease_id, s) \<Rightarrow>
        bindE (append_operation lease_id ACQUIRE provenance bytes alignment None False s) (\<lambda>s.
          Inr (lease_id, s)))"

definition task_dependency :: "string \<Rightarrow> builder \<Rightarrow> nat \<times> builder" where
  "task_dependency task_id s =
     (case bs_task_completion_dependencies s task_id of
        Some dependency_id \<Rightarrow> (dependency_id, s)
      | None \<Rightarrow>
          (case new_dependency_id s of (dependency_id, s) \<Rightarrow>
             (dependency_id, s\<lparr>bs_task_completion_dependencies :=
                (bs_task_completion_dependencies s)(task_id \<mapsto> dependency_id)\<rparr>)))"

text \<open>The operation that begins a retirement, and the retirement left pending.\<close>

definition retire ::
    "nat \<Rightarrow> nat \<Rightarrow> bool \<Rightarrow> lease_provenance \<Rightarrow> builder \<Rightarrow> py_error + builder" where
  "retire lease_id dependency_id dependency_expected provenance s =
     bindE (append_operation lease_id BEGIN_RETIREMENT provenance 0 0 (Some dependency_id)
       dependency_expected s) (\<lambda>s.
     Inr (s\<lparr>bs_pending_retirements := bs_pending_retirements s @
       [\<lparr>pr_lease_id = lease_id, pr_dependency_id = dependency_id,
         pr_provenance = provenance\<rparr>]\<rparr>))"

definition begin_task_retirement :: "nat \<Rightarrow> lease_provenance \<Rightarrow> builder \<Rightarrow> py_error + builder" where
  "begin_task_retirement lease_id provenance s =
     (case lp_task_id provenance of
        None \<Rightarrow> refuse [Lit ''task retirement lacks its task identity'']
      | Some task_id \<Rightarrow>
          (case task_dependency task_id s of (dependency_id, s) \<Rightarrow>
             retire lease_id dependency_id False provenance s))"


section \<open>Initial objects\<close>

definition acquire_initial_object ::
    "builder_context \<Rightarrow> builder \<Rightarrow> residency_spec \<Rightarrow> py_error + builder" where
  "acquire_initial_object cx s residency =
     (let alias_id = rd_alias_group_id residency
      in if rd_location residency \<noteq> DEVICE then Inr s
         else bindE (dict_get (bc_alias_size cx) alias_id) (\<lambda>bytes.
           if bytes = 0 then Inr s
           else
             bindE (acquire (bc_alignment cx) bytes
               \<lparr>lp_purpose = INITIAL_OBJECT, lp_task_id = None, lp_alias_group_id = Some alias_id,
                lp_action_index = None\<rparr> s) (\<lambda>(lease_id, s).
             Inr ((set_active alias_id lease_id s)
               \<lparr>bs_initial_alias_leases := (bs_initial_alias_leases s)(alias_id \<mapsto> lease_id)\<rparr>))))"

definition acquire_initial_objects :: "builder_context \<Rightarrow> builder \<Rightarrow> py_error + builder" where
  "acquire_initial_objects cx s =
     foldE (acquire_initial_object cx) s (ms_initial_residency (bc_schedule cx))"


section \<open>The allocations of a task\<close>

definition missing_inputs :: "builder_context \<Rightarrow> builder \<Rightarrow> string list \<Rightarrow> py_error + string list" where
  "missing_inputs cx s required =
     foldE (\<lambda>missing alias_id.
         bindE (dict_get (bc_alias_size cx) alias_id) (\<lambda>bytes.
           Inr (if bytes \<noteq> 0 \<and> alias_id \<notin> bc_shared_aliases cx \<and> active_lease s alias_id = None
                then missing @ [alias_id] else missing)))
       [] required"

definition validate_task_inputs :: "builder_context \<Rightarrow> builder \<Rightarrow> task_spec \<Rightarrow> py_error + unit" where
  "validate_task_inputs cx s task =
     bindE (mapE (dict_get (bc_alias_by_object cx))
       (tk_inputs task @ map mu_object_id (tk_mutations task))) (\<lambda>aliases.
     bindE (missing_inputs cx s (fromkeys aliases)) (\<lambda>missing.
       if missing \<noteq> [] then
         refuse [Lit ''task '', Lit (tk_task_id task), Lit '' starts without execution aliases '',
           ReprList (sort missing)]
       else Inr ()))"

record allocations =
  av_leases_by_ordinal :: "int \<rightharpoonup> nat"
  av_reusable_leases :: "(int \<times> nat) list"
  av_output_leases :: "(string \<times> nat) list"
  av_terminal_leases :: "nat list"

definition no_allocations :: allocations where
  "no_allocations =
     \<lparr>av_leases_by_ordinal = Map.empty, av_reusable_leases = [], av_output_leases = [],
      av_terminal_leases = []\<rparr>"

definition reused_ordinals :: "task_admission_spec \<Rightarrow> int set" where
  "reused_ordinals admission =
     the ` set (filter (\<lambda>x. x \<noteq> None)
       (map as_reuses_allocation_ordinal (ta_allocation_steps admission)))"

definition allocation_purpose :: "task_admission_spec \<Rightarrow> string option \<Rightarrow> admission_purpose" where
  "allocation_purpose admission output_alias =
     (case output_alias of
        None \<Rightarrow> TASK_WORKSPACE
      | Some alias_id \<Rightarrow>
          if alias_id \<in> set (ta_replacement_aliases admission) then MUTATION_REPLACEMENT
          else TASK_OUTPUT)"

text \<open>The lease an allocation step uses: a new one, or the one its reused ordinal released.\<close>

definition step_lease ::
    "builder_context \<Rightarrow> task_allocation_step \<Rightarrow> lease_provenance \<Rightarrow> builder \<times> allocations
     \<Rightarrow> py_error + (nat \<times> builder \<times> allocations)" where
  "step_lease cx step provenance = (\<lambda>(s, al).
     case as_reuses_allocation_ordinal step of
       None \<Rightarrow>
         bindE (acquire_task (bc_alignment cx) (as_charged_bytes step) provenance s)
           (\<lambda>(lease_id, s). Inr (lease_id, s, al))
     | Some source \<Rightarrow>
         bindE (dict_get (map_of (av_reusable_leases al)) source) (\<lambda>lease_id.
         Inr (lease_id,
              s\<lparr>bs_lease_provenance := (bs_lease_provenance s)(lease_id \<mapsto> provenance)\<rparr>,
              al\<lparr>av_reusable_leases := AList.delete source (av_reusable_leases al)\<rparr>)))"

definition allocation_step ::
    "builder_context \<Rightarrow> string \<Rightarrow> task_admission_spec \<Rightarrow> builder \<times> allocations
     \<Rightarrow> task_allocation_step \<Rightarrow> py_error + (builder \<times> allocations)" where
  "allocation_step cx task_id admission = (\<lambda>(s, al) step.
     let ordinal = as_allocation_ordinal step
     in if as_kind step = STEP_ALLOCATE then
          (let alias = as_output_alias_group_id step;
               provenance = \<lparr>lp_purpose = allocation_purpose admission alias,
                 lp_task_id = Some task_id, lp_alias_group_id = alias, lp_action_index = None\<rparr>
           in bindE (step_lease cx step provenance (s, al)) (\<lambda>(lease_id, s, al).
                Inr (s\<lparr>bs_task_allocation_leases :=
                         (bs_task_allocation_leases s)((task_id, ordinal) \<mapsto> lease_id)\<rparr>,
                     al\<lparr>av_leases_by_ordinal := (av_leases_by_ordinal al)(ordinal \<mapsto> lease_id),
                        av_output_leases :=
                          (case alias of
                             None \<Rightarrow> av_output_leases al
                           | Some alias_id \<Rightarrow>
                               AList.update alias_id lease_id (av_output_leases al))\<rparr>)))
        else
          bindE (dict_get (av_leases_by_ordinal al) ordinal) (\<lambda>lease_id.
          let al = al\<lparr>av_leases_by_ordinal := (av_leases_by_ordinal al)(ordinal := None)\<rparr>
          in Inr (s, if ordinal \<in> reused_ordinals admission
                     then al\<lparr>av_reusable_leases :=
                       AList.update ordinal lease_id (av_reusable_leases al)\<rparr>
                     else al\<lparr>av_terminal_leases := av_terminal_leases al @ [lease_id]\<rparr>)))"

definition acquire_task_allocations ::
    "builder_context \<Rightarrow> string \<Rightarrow> task_admission_spec \<Rightarrow> builder
     \<Rightarrow> py_error + (nat list \<times> (string \<times> nat) list \<times> builder)" where
  "acquire_task_allocations cx task_id admission s =
     bindE (foldE (allocation_step cx task_id admission) (s, no_allocations)
       (ta_allocation_steps admission)) (\<lambda>(s, al).
     if av_reusable_leases al \<noteq> [] then
       refuse [Lit ''task '', Lit task_id, Lit '' allocation trace leaves unused reuse sources '',
         ReprInts (sort (map fst (av_reusable_leases al)))]
     else Inr (av_terminal_leases al, av_output_leases al, s))"


section \<open>Ownership at the end of a task\<close>

definition publish_handoff ::
    "builder_context \<Rightarrow> string \<Rightarrow> builder \<Rightarrow> storage_handoff \<Rightarrow> py_error + builder" where
  "publish_handoff cx task_id s handoff =
     (let source = sh_source_alias_group_id handoff;
          destination = sh_destination_alias_group_id handoff
      in bindE (dict_get (bc_alias_size cx) destination) (\<lambda>bytes.
         if bytes = 0 then Inr s
         else
           case active_lease s source of
             None \<Rightarrow> refuse [Lit ''task '', Lit task_id, Lit '' hands off nonresident alias '', Repr source]
           | Some lease_id \<Rightarrow>
               if active_lease s destination \<noteq> None then
                 refuse [Lit ''task '', Lit task_id, Lit '' handoff destination '', Repr destination,
                   Lit '' is already resident'']
               else
                 let s = set_active destination lease_id (pop_active source s)
                 in Inr (s\<lparr>bs_handoff_releases := insert (task_id, source) (bs_handoff_releases s),
                           bs_ownership_transitions := bs_ownership_transitions s @
                             [\<lparr>ot_task_id = task_id, ot_kind = STORAGE_HANDOFF,
                               ot_destination_alias_group_id = destination,
                               ot_destination_lease_id = lease_id,
                               ot_source_alias_group_id = Some source,
                               ot_source_lease_id = Some lease_id\<rparr>]\<rparr>)))"

definition publish_replacement ::
    "builder_context \<Rightarrow> string \<Rightarrow> (string \<times> nat) list \<Rightarrow> builder \<Rightarrow> string \<Rightarrow> py_error + builder" where
  "publish_replacement cx task_id new_alias_leases s alias_id =
     bindE (dict_get (bc_alias_size cx) alias_id) (\<lambda>bytes.
       if bytes = 0 then Inr s
       else
         bindE (dict_get (active_lease s) alias_id) (\<lambda>old_lease.
         bindE (dict_get (map_of new_alias_leases) alias_id) (\<lambda>new_lease.
         bindE (begin_task_retirement old_lease
           \<lparr>lp_purpose = MUTATION_REPLACEMENT, lp_task_id = Some task_id,
            lp_alias_group_id = Some alias_id, lp_action_index = None\<rparr> s) (\<lambda>s.
         let s = set_active alias_id new_lease s
         in Inr (s\<lparr>bs_ownership_transitions := bs_ownership_transitions s @
              [\<lparr>ot_task_id = task_id, ot_kind = OWNERSHIP_REPLACEMENT,
                ot_destination_alias_group_id = alias_id, ot_destination_lease_id = new_lease,
                ot_source_alias_group_id = Some alias_id,
                ot_source_lease_id = Some old_lease\<rparr>]\<rparr>)))))"

definition publish_output ::
    "string \<Rightarrow> string list \<Rightarrow> builder \<Rightarrow> string \<times> nat \<Rightarrow> py_error + builder" where
  "publish_output task_id replacement_aliases s = (\<lambda>(alias_id, lease_id).
     if alias_id \<in> set replacement_aliases then Inr s
     else if active_lease s alias_id \<noteq> None then
       refuse [Lit ''task '', Lit task_id, Lit '' creates resident alias '', Repr alias_id]
     else Inr (set_active alias_id lease_id s))"


section \<open>Actions\<close>

definition remove_active_alias ::
    "string \<Rightarrow> memory_action \<Rightarrow> builder \<Rightarrow> py_error + (nat \<times> builder)" where
  "remove_active_alias task_id action s =
     (case active_lease s (ma_alias_group_id action) of
        Some lease_id \<Rightarrow> Inr (lease_id, pop_active (ma_alias_group_id action) s)
      | None \<Rightarrow>
          refuse [Lit ''task '', Lit task_id, Lit '' '',
            Lit (memory_action_kind_value (ma_kind action)), Lit ''s nonresident alias '',
            Repr (ma_alias_group_id action)])"

definition replay_action ::
    "builder_context \<Rightarrow> string \<Rightarrow> builder \<Rightarrow> nat \<times> memory_action \<Rightarrow> py_error + builder" where
  "replay_action cx task_id s = (\<lambda>(action_index, action).
     let alias_id = ma_alias_group_id action;
         provenance = (\<lambda>purpose. \<lparr>lp_purpose = purpose, lp_task_id = Some task_id,
           lp_alias_group_id = Some alias_id, lp_action_index = Some action_index\<rparr>)
     in if ma_kind action = RELEASE then
          (if (task_id, alias_id) \<in> bs_handoff_releases s then Inr s
           else bindE (remove_active_alias task_id action s) (\<lambda>(lease_id, s).
             begin_task_retirement lease_id (provenance PURPOSE_RELEASE) s))
        else if ma_kind action = EVICT then
          bindE (remove_active_alias task_id action s) (\<lambda>(lease_id, s).
            case new_dependency_id s of (dependency_id, s) \<Rightarrow>
              retire lease_id dependency_id True (provenance EVICTION) s)
        else if active_lease s alias_id \<noteq> None then
          refuse [Lit ''task '', Lit task_id, Lit '' fetches resident alias '', Repr alias_id]
        else
          bindE (dict_get (bc_alias_size cx) alias_id) (\<lambda>bytes.
            if bytes = 0 then Inr s
            else
              bindE (acquire (bc_alignment cx) bytes (provenance FETCH_DESTINATION) s)
                (\<lambda>(lease_id, s).
              Inr ((set_active alias_id lease_id s)
                \<lparr>bs_action_destination_leases :=
                   (bs_action_destination_leases s)(action_index \<mapsto> lease_id)\<rparr>))))"

definition replay_actions :: "builder_context \<Rightarrow> string \<Rightarrow> builder \<Rightarrow> py_error + builder" where
  "replay_actions cx task_id s =
     foldE (replay_action cx task_id) s (task_actions (bc_actions_by_task cx) task_id)"


section \<open>The whole replay\<close>

definition workspace_provenance :: "string \<Rightarrow> lease_provenance" where
  "workspace_provenance task_id =
     \<lparr>lp_purpose = TASK_WORKSPACE, lp_task_id = Some task_id, lp_alias_group_id = None,
      lp_action_index = None\<rparr>"

definition replay_task :: "builder_context \<Rightarrow> builder \<Rightarrow> task_spec \<Rightarrow> py_error + builder" where
  "replay_task cx s task =
     (let task_id = tk_task_id task
      in bindE (validate_task_inputs cx s task) (\<lambda>_.
         bindE (dict_get (bc_admission_by_task cx) task_id) (\<lambda>admission.
         let s = s\<lparr>bs_workspace_bytes_by_task :=
                     bs_workspace_bytes_by_task s @ [(task_id, workspace_bytes admission)]\<rparr>
         in bindE (acquire_task_allocations cx task_id admission s)
              (\<lambda>(workspace_leases, new_alias_leases, s).
            bindE (foldE (\<lambda>s lease_id.
                begin_task_retirement lease_id (workspace_provenance task_id) s)
              s workspace_leases) (\<lambda>s.
            bindE (foldE (publish_handoff cx task_id) s (ta_storage_handoffs admission)) (\<lambda>s.
            bindE (foldE (publish_replacement cx task_id new_alias_leases) s
              (ta_replacement_aliases admission)) (\<lambda>s.
            bindE (foldE (publish_output task_id (ta_replacement_aliases admission)) s
              new_alias_leases) (\<lambda>s.
            replay_actions cx task_id s))))))))"

definition completion_provenance :: "lease_provenance \<Rightarrow> lease_provenance" where
  "completion_provenance provenance =
     (if lp_purpose provenance = EVICTION then provenance\<lparr>lp_purpose := TERMINAL_COMPLETION\<rparr>
      else provenance)"

definition complete_retirement :: "builder \<Rightarrow> pending_retirement \<Rightarrow> py_error + builder" where
  "complete_retirement s pending =
     append_operation (pr_lease_id pending) COMPLETE_RETIREMENT
       (completion_provenance (pr_provenance pending)) 0 0 (Some (pr_dependency_id pending)) False s"

definition complete_pending_retirements :: "builder \<Rightarrow> py_error + builder" where
  "complete_pending_retirements s = foldE complete_retirement s (bs_pending_retirements s)"

definition required_final :: "builder_context \<Rightarrow> py_error + string list" where
  "required_final cx =
     foldE (\<lambda>required residency.
         if rd_location residency \<noteq> DEVICE then Inr required
         else bindE (dict_get (bc_alias_size cx) (rd_alias_group_id residency)) (\<lambda>bytes.
           Inr (if bytes \<noteq> 0 then required @ [rd_alias_group_id residency] else required)))
       [] (ms_final_residency (bc_schedule cx))"

definition validate_final_execution_residency ::
    "builder_context \<Rightarrow> builder \<Rightarrow> py_error + unit" where
  "validate_final_execution_residency cx s =
     bindE (required_final cx) (\<lambda>required.
     let missing = set required - set (map fst (bs_active_aliases s))
     in if missing \<noteq> {} then
          refuse [Lit ''admission replay lacks final execution aliases '',
            ReprList (sorted_list_of_set missing)]
        else Inr ())"

definition build :: "builder_context \<Rightarrow> py_error + builder" where
  "build cx =
     bindE (acquire_initial_objects cx new_builder) (\<lambda>s.
     bindE (foldE (replay_task cx) s (bc_tasks cx)) (\<lambda>s.
     bindE (complete_pending_retirements s) (\<lambda>s.
     bindE (validate_final_execution_residency cx s) (\<lambda>_. Inr s))))"

definition final_aliases :: "builder \<Rightarrow> string list" where
  "final_aliases s = sort (map fst (bs_active_aliases s))"


section \<open>The certificate\<close>

record reuse_dependency =
  rx_predecessor_lease_id :: nat
  rx_successor_lease_id :: nat
  rx_dependency_id :: nat
  rx_consumer_operation_index :: nat

text \<open>Of the pool's result the replay reads the dependencies and the digest of its decisions.\<close>

record 'report pool_result =
  pl_dependencies :: "reuse_dependency list"
  pl_decision_digest :: int
  pl_report :: 'report

record causal_dependency =
  cd_dependency_id :: nat
  cd_predecessor_lease_id :: nat
  cd_predecessor_task_id :: string
  cd_predecessor_purpose :: admission_purpose
  cd_predecessor_alias_group_id :: "string option"
  cd_predecessor_action_index :: "nat option"
  cd_successor_lease_id :: nat
  cd_successor_task_id :: "string option"
  cd_successor_alias_group_id :: "string option"
  cd_successor_action_index :: "nat option"
  cd_consumer_operation_index :: nat

definition resolve_dependency ::
    "(nat \<rightharpoonup> pending_retirement) \<Rightarrow> (nat \<rightharpoonup> lease_provenance) \<Rightarrow> reuse_dependency
     \<Rightarrow> py_error + causal_dependency" where
  "resolve_dependency pending_by_lease provenance_by_lease dependency =
     bindE (dict_get pending_by_lease (rx_predecessor_lease_id dependency)) (\<lambda>pending.
     bindE (dict_get provenance_by_lease (rx_successor_lease_id dependency)) (\<lambda>successor.
     let predecessor = pr_provenance pending
     in Inr \<lparr>cd_dependency_id = rx_dependency_id dependency,
             cd_predecessor_lease_id = rx_predecessor_lease_id dependency,
             cd_predecessor_task_id = (case lp_task_id predecessor of None \<Rightarrow> [] | Some t \<Rightarrow> t),
             cd_predecessor_purpose = lp_purpose predecessor,
             cd_predecessor_alias_group_id = lp_alias_group_id predecessor,
             cd_predecessor_action_index = lp_action_index predecessor,
             cd_successor_lease_id = rx_successor_lease_id dependency,
             cd_successor_task_id = lp_task_id successor,
             cd_successor_alias_group_id = lp_alias_group_id successor,
             cd_successor_action_index = lp_action_index successor,
             cd_consumer_operation_index = rx_consumer_operation_index dependency\<rparr>))"

text \<open>The text a certificate's digest is taken of, before JSON sorts its keys.\<close>

definition opt_nat :: "nat option \<Rightarrow> pyval" where
  "opt_nat n = (case n of None \<Rightarrow> PNone | Some x \<Rightarrow> PInt (int x))"

definition operation_payload :: "replay_step \<Rightarrow> pyval" where
  "operation_payload item =
     (let operation = rt_operation item
      in dict_lit [(''sequence'', PInt (int (po_sequence operation))),
                   (''lease_id'', PInt (int (po_lease_id operation))),
                   (''kind'', PInt (pool_operation_kind_value (po_kind operation))),
                   (''bytes'', PInt (po_bytes operation)),
                   (''alignment'', PInt (po_alignment operation)),
                   (''dependency_id'', opt_nat (po_dependency_id operation)),
                   (''dependency_expected'', PBool (po_dependency_expected operation)),
                   (''purpose'', PStr (admission_purpose_value (rt_purpose item))),
                   (''task_id'', opt_string (rt_task_id item)),
                   (''alias_group_id'', opt_string (rt_alias_group_id item)),
                   (''action_index'', opt_nat (rt_action_index item))])"

definition transition_payload :: "ownership_transition \<Rightarrow> pyval" where
  "transition_payload item =
     dict_lit [(''task_id'', PStr (ot_task_id item)),
               (''kind'', PStr (ownership_transition_kind_value (ot_kind item))),
               (''destination_alias_group_id'', PStr (ot_destination_alias_group_id item)),
               (''destination_lease_id'', PInt (int (ot_destination_lease_id item))),
               (''source_alias_group_id'', opt_string (ot_source_alias_group_id item)),
               (''source_lease_id'', opt_nat (ot_source_lease_id item))]"

definition compatibility_payload ::
    "string \<Rightarrow> string \<Rightarrow> task_alternative_choice list \<Rightarrow> replay_step list
     \<Rightarrow> ownership_transition list \<Rightarrow> string \<Rightarrow> int \<Rightarrow> pyval" where
  "compatibility_payload program_digest schedule_digest selections operations transitions
       facts_digest decision_digest =
     dict_lit [(''program'', PStr program_digest),
               (''schedule'', PStr schedule_digest),
               (''selections'', PList (map task_alternative_choice_to_dict selections)),
               (''operations'', PList (map operation_payload operations)),
               (''ownership_transitions'', PList (map transition_payload transitions)),
               (''facts'', PStr facts_digest),
               (''decision_digest'', PInt decision_digest)]"

record 'report admission_replay =
  ar_pool :: "'report pool_result"
  ar_operations :: "replay_step list"
  ar_ownership_transitions :: "ownership_transition list"
  ar_dependencies :: "causal_dependency list"
  ar_final_execution_aliases :: "string list"
  ar_workspace_bytes_by_task :: "(string \<times> int) list"
  ar_compatibility_digest :: string

text \<open>
  The pool takes its capacity, the operations, the numbers of leases and dependencies and the
  alignment. The digests are those of the program, the schedule and the facts, and of the payload.
\<close>

type_synonym 'report replay_pool =
  "int \<Rightarrow> pool_operation list \<Rightarrow> nat \<Rightarrow> nat \<Rightarrow> int \<Rightarrow> py_error + 'report pool_result"

record digests =
  dg_program :: "shadow_spill_program \<Rightarrow> string"
  dg_schedule :: "memory_schedule \<Rightarrow> string"
  dg_facts :: "admission_facts \<Rightarrow> string"
  dg_payload :: "pyval \<Rightarrow> string"

definition replay_admission ::
    "digests \<Rightarrow> 'report replay_pool \<Rightarrow> shadow_spill_program \<Rightarrow> memory_schedule \<Rightarrow> admission_facts
     \<Rightarrow> task_alternative_choice list \<Rightarrow> py_error + 'report admission_replay" where
  "replay_admission digests run_admission_replay program schedule facts selections =
     bindE (validate_schedule schedule program selections) (\<lambda>_.
     bindE (validate_facts facts program) (\<lambda>_.
     bindE (builder_context_of program schedule selections facts) (\<lambda>cx.
     bindE (build cx) (\<lambda>s.
     bindE (run_admission_replay (fx_pool_capacity_bytes facts) (map rt_operation (bs_operations s))
       (bs_next_lease_id s) (bs_next_dependency_id s) (fx_minimum_alignment facts)) (\<lambda>pool.
     let pending_by_lease = dict_of (map (\<lambda>x. (pr_lease_id x, x)) (bs_pending_retirements s))
     in bindE (mapE (resolve_dependency pending_by_lease (bs_lease_provenance s))
          (pl_dependencies pool)) (\<lambda>dependencies.
        Inr \<lparr>ar_pool = pool, ar_operations = bs_operations s,
             ar_ownership_transitions = bs_ownership_transitions s,
             ar_dependencies = dependencies, ar_final_execution_aliases = final_aliases s,
             ar_workspace_bytes_by_task = bs_workspace_bytes_by_task s,
             ar_compatibility_digest = dg_payload digests
               (compatibility_payload (dg_program digests program) (dg_schedule digests schedule)
                 selections (bs_operations s) (bs_ownership_transitions s) (dg_facts digests facts)
                 (pl_decision_digest pool))\<rparr>))))))"

end
