(* ===== verification/Admission_Ledger.thy ===== *)
theory Admission_Ledger
  imports Admission_Replay
begin

text \<open>
  What a script of pool operations must be: per lease a life of reservation or acquisition, use,
  one retirement under a dependency and its completion. The ledger runs a script against that
  life cycle. The builder's state is in good order (\<open>books\<close>) when its script is accepted and the
  leases in use are those its active aliases own together with a set of leases held by the code
  between taking a lease and handing it on; every operation of the builder keeps that order.
\<close>

section \<open>Injective maps\<close>

lemma ran_remove:
  assumes inj: "inj_on m (dom m)" and at: "m a = Some l"
  shows "ran (m(a := None)) = ran m - {l}"
proof (intro set_eqI iffI)
  fix k
  assume "k \<in> ran (m(a := None))"
  then obtain x where x: "x \<noteq> a" "m x = Some k"
    by (auto simp: ran_def split: if_splits)
  then have "k \<noteq> l" using inj_onD [OF inj, of x a] at by auto
  then show "k \<in> ran m - {l}" using x(2) by (simp add: ranI)
next
  fix k
  assume "k \<in> ran m - {l}"
  then obtain x where x: "m x = Some k" "k \<noteq> l" by (auto simp: ran_def)
  then have "(m(a := None)) x = Some k" using at by auto
  then show "k \<in> ran (m(a := None))" by (rule ranI)
qed

lemma inj_remove: "inj_on m (dom m) \<Longrightarrow> inj_on (m(a := None)) (dom (m(a := None)))"
  by (auto simp: inj_on_def)

lemma inj_insert:
  "inj_on m (dom m) \<Longrightarrow> l \<notin> ran m \<Longrightarrow> a \<notin> dom m \<Longrightarrow> inj_on (m(a \<mapsto> l)) (dom (m(a \<mapsto> l)))"
  by (auto simp: inj_on_def ran_def dom_def)


section \<open>The life of a lease\<close>

datatype lease_phase = Reserved | In_Use | Retiring nat | Retired

type_synonym ledger = "nat \<rightharpoonup> lease_phase"

definition lease_move :: "pool_operation \<Rightarrow> lease_phase option \<Rightarrow> lease_phase option" where
  "lease_move operation phase =
     (case po_kind operation of
        RESERVE \<Rightarrow> if phase = None \<and> 0 < po_bytes operation then Some Reserved else None
      | ACQUIRE \<Rightarrow> if phase = None \<and> 0 < po_bytes operation then Some In_Use else None
      | ACQUIRE_RESERVED \<Rightarrow> if phase = Some Reserved then Some In_Use else None
      | BEGIN_RETIREMENT \<Rightarrow>
          if phase = Some In_Use then map_option Retiring (po_dependency_id operation) else None
      | COMPLETE_RETIREMENT \<Rightarrow>
          (case phase of
             Some (Retiring dependency_id) \<Rightarrow>
               if po_dependency_id operation = Some dependency_id then Some Retired else None
           | _ \<Rightarrow> None)
      | _ \<Rightarrow> None)"

fun ledger_run :: "pool_operation list \<Rightarrow> ledger \<Rightarrow> ledger option" where
  "ledger_run [] ledger = Some ledger"
| "ledger_run (operation # operations) ledger =
     (case lease_move operation (ledger (po_lease_id operation)) of
        None \<Rightarrow> None
      | Some phase \<Rightarrow> ledger_run operations (ledger(po_lease_id operation \<mapsto> phase)))"

lemma ledger_run_append:
  "ledger_run (xs @ ys) L = Option.bind (ledger_run xs L) (ledger_run ys)"
  by (induction xs arbitrary: L) (auto split: option.split)

lemma lease_move_simps:
  "po_kind p = RESERVE \<Longrightarrow> 0 < po_bytes p \<Longrightarrow> lease_move p None = Some Reserved"
  "po_kind p = ACQUIRE \<Longrightarrow> 0 < po_bytes p \<Longrightarrow> lease_move p None = Some In_Use"
  "po_kind p = ACQUIRE_RESERVED \<Longrightarrow> lease_move p (Some Reserved) = Some In_Use"
  "po_kind p = BEGIN_RETIREMENT \<Longrightarrow> po_dependency_id p = Some d \<Longrightarrow>
     lease_move p (Some In_Use) = Some (Retiring d)"
  "po_kind p = COMPLETE_RETIREMENT \<Longrightarrow> po_dependency_id p = Some d \<Longrightarrow>
     lease_move p (Some (Retiring d)) = Some Retired"
  by (simp_all add: lease_move_def)


section \<open>Books in good order\<close>

definition numbered :: "replay_step list \<Rightarrow> bool" where
  "numbered steps \<longleftrightarrow> (\<forall>i < length steps. po_sequence (rt_operation (steps ! i)) = i)"

definition bounded :: "nat \<Rightarrow> replay_step list \<Rightarrow> bool" where
  "bounded n steps \<longleftrightarrow>
     (\<forall>step \<in> set steps. case po_dependency_id (rt_operation step) of None \<Rightarrow> True | Some d \<Rightarrow> d < n)"

definition in_use :: "ledger \<Rightarrow> nat set" where
  "in_use L = {l. L l = Some In_Use}"

definition pending_pairs :: "builder \<Rightarrow> (nat \<times> nat) list" where
  "pending_pairs s = map (\<lambda>p. (pr_lease_id p, pr_dependency_id p)) (bs_pending_retirements s)"

definition ledger_of :: "builder \<Rightarrow> ledger option" where
  "ledger_of s = ledger_run (map rt_operation (bs_operations s)) Map.empty"

definition books_with :: "builder \<Rightarrow> nat set \<Rightarrow> ledger \<Rightarrow> bool" where
  "books_with s held L \<longleftrightarrow>
     ledger_of s = Some L \<and> numbered (bs_operations s)
     \<and> bounded (bs_next_dependency_id s) (bs_operations s)
     \<and> ran (bs_task_completion_dependencies s) \<subseteq> {..<bs_next_dependency_id s}
     \<and> dom L = {..<bs_next_lease_id s}
     \<and> dom (bs_lease_provenance s) = {..<bs_next_lease_id s}
     \<and> Some Reserved \<notin> range L \<and> Some Retired \<notin> range L
     \<and> distinct (map fst (bs_active_aliases s))
     \<and> inj_on (active_lease s) (dom (active_lease s))
     \<and> in_use L = ran (active_lease s) \<union> held \<and> ran (active_lease s) \<inter> held = {}
     \<and> distinct (map fst (pending_pairs s))
     \<and> (\<forall>l d. L l = Some (Retiring d) \<longleftrightarrow> (l, d) \<in> set (pending_pairs s))
     \<and> snd ` set (pending_pairs s) \<subseteq> {..<bs_next_dependency_id s}"

definition books :: "builder \<Rightarrow> nat set \<Rightarrow> bool" where
  "books s held \<longleftrightarrow> (\<exists>L. books_with s held L)"

lemma books_new: "books new_builder {}"
  by (auto simp: books_def books_with_def new_builder_def ledger_of_def numbered_def bounded_def
      in_use_def pending_pairs_def intro!: exI [of _ Map.empty])

text \<open>The other attributes do not matter to the books.\<close>

lemma books_frame [simp]:
  "books (s\<lparr>bs_ownership_transitions := a\<rparr>) held = books s held"
  "books (s\<lparr>bs_initial_alias_leases := b\<rparr>) held = books s held"
  "books (s\<lparr>bs_task_allocation_leases := c\<rparr>) held = books s held"
  "books (s\<lparr>bs_action_destination_leases := d\<rparr>) held = books s held"
  "books (s\<lparr>bs_handoff_releases := e\<rparr>) held = books s held"
  "books (s\<lparr>bs_workspace_bytes_by_task := f\<rparr>) held = books s held"
  by (simp_all add: books_def books_with_def ledger_of_def pending_pairs_def)

lemma books_provenance:
  "books s held \<Longrightarrow> l < bs_next_lease_id s \<Longrightarrow>
    books (s\<lparr>bs_lease_provenance := (bs_lease_provenance s)(l \<mapsto> p)\<rparr>) held"
  by (auto simp: books_def books_with_def ledger_of_def pending_pairs_def)

lemma books_with_in_use:
  assumes "books_with s held L"
  shows "L l = Some In_Use \<longleftrightarrow> l \<in> ran (active_lease s) \<or> l \<in> held"
proof -
  have "in_use L = ran (active_lease s) \<union> held" using assms by (simp add: books_with_def)
  then show ?thesis by (auto simp: in_use_def)
qed

lemma books_with_new:
  assumes "books_with s held L"
  shows "L (bs_next_lease_id s) = None" and "bs_next_lease_id s \<notin> ran (active_lease s)"
    and "bs_next_lease_id s \<notin> held"
proof -
  have "dom L = {..<bs_next_lease_id s}" using assms by (simp add: books_with_def)
  then show "L (bs_next_lease_id s) = None" by (metis domIff lessThan_iff less_irrefl)
  then show "bs_next_lease_id s \<notin> ran (active_lease s)" "bs_next_lease_id s \<notin> held"
    using books_with_in_use [OF assms, of "bs_next_lease_id s"] by auto
qed

lemma books_bound:
  assumes "books s held"
  shows "l \<in> held \<Longrightarrow> l < bs_next_lease_id s"
    and "active_lease s a = Some l \<Longrightarrow> l < bs_next_lease_id s"
proof -
  obtain L where L: "books_with s held L" using assms by (auto simp: books_def)
  then have dom: "dom L = {..<bs_next_lease_id s}" by (simp add: books_with_def)
  show "l \<in> held \<Longrightarrow> l < bs_next_lease_id s"
    "active_lease s a = Some l \<Longrightarrow> l < bs_next_lease_id s"
    using books_with_in_use [OF L, of l] dom by (metis domI lessThan_iff ranI)+
qed


section \<open>Appending an operation\<close>

lemma append_operation_Inr_iff:
  "append_operation l k p b al d e s = Inr s' \<longleftrightarrow>
    0 \<le> b \<and> 0 \<le> al \<and> s' = s\<lparr>bs_operations := bs_operations s @
      [\<lparr>rt_operation = \<lparr>po_sequence = length (bs_operations s), po_lease_id = l, po_kind = k,
          po_bytes = b, po_alignment = al, po_dependency_id = d, po_dependency_expected = e\<rparr>,
        rt_purpose = lp_purpose p, rt_task_id = lp_task_id p, rt_alias_group_id = lp_alias_group_id p,
        rt_action_index = lp_action_index p\<rparr>]\<rparr>"
  by (auto simp: append_operation_def construct_def pool_operation_post_init_def bindE_Inr_iff)

lemma numbered_snoc [simp]:
  "numbered (xs @ [x]) \<longleftrightarrow> numbered xs \<and> po_sequence (rt_operation x) = length xs"
  by (auto simp: numbered_def nth_append less_Suc_eq)

lemma bounded_snoc [simp]:
  "bounded n (xs @ [x]) \<longleftrightarrow> bounded n xs
    \<and> (case po_dependency_id (rt_operation x) of None \<Rightarrow> True | Some d \<Rightarrow> d < n)"
  by (auto simp: bounded_def)

lemma bounded_mono: "bounded m xs \<Longrightarrow> m \<le> n \<Longrightarrow> bounded n xs"
  by (fastforce simp: bounded_def split: option.splits)

lemma ledger_of_snoc:
  assumes "ledger_of s = Some L" "bs_operations t = bs_operations s @ [x]"
    and "lease_move (rt_operation x) (L (po_lease_id (rt_operation x))) = Some phase"
  shows "ledger_of t = Some (L(po_lease_id (rt_operation x) \<mapsto> phase))"
  using assms by (simp add: ledger_of_def ledger_run_append)


section \<open>Taking, retiring and passing on a lease\<close>

text \<open>A lease is taken: it is new, in use, and held by the code that took it.\<close>

lemma books_take:
  assumes "books_with s held L" and "ledger_of t = Some (L(bs_next_lease_id s \<mapsto> In_Use))"
    and "numbered (bs_operations t)" "bounded (bs_next_dependency_id s) (bs_operations t)"
    and "bs_active_aliases t = bs_active_aliases s"
    and "bs_lease_provenance t = (bs_lease_provenance s)(bs_next_lease_id s \<mapsto> p)"
    and "bs_pending_retirements t = bs_pending_retirements s"
    and "bs_task_completion_dependencies t = bs_task_completion_dependencies s"
    and "bs_next_lease_id t = bs_next_lease_id s + 1"
    and "bs_next_dependency_id t = bs_next_dependency_id s"
  shows "books t (insert (bs_next_lease_id s) held)"
proof -
  let ?n = "bs_next_lease_id s" and ?L = "L(bs_next_lease_id s \<mapsto> In_Use)"
  note new = books_with_new [OF assms(1)]
  have B: "dom L = {..<?n}" "in_use L = ran (active_lease s) \<union> held"
    "\<And>l d. L l = Some (Retiring d) \<longleftrightarrow> (l, d) \<in> set (pending_pairs s)"
    "Some Reserved \<notin> range L" "Some Retired \<notin> range L"
    using assms(1) by (auto simp: books_with_def)
  have used: "in_use ?L = ran (active_lease s) \<union> insert ?n held"
    using B(2) by (auto simp: in_use_def)
  have "(?n, d) \<notin> set (pending_pairs s)" for d using B(3) [of ?n d] new(1) by simp
  then have retiring: "\<forall>l d. ?L l = Some (Retiring d) \<longleftrightarrow> (l, d) \<in> set (pending_pairs s)"
    using B(3) by simp
  have dom: "dom ?L = {..<?n + 1}" using B(1) by auto
  have phases: "Some Reserved \<notin> range ?L" "Some Retired \<notin> range ?L"
    using B(4,5) by (auto simp: image_iff)
  have pairs: "pending_pairs t = pending_pairs s" using assms(7) by (simp add: pending_pairs_def)
  have provenance: "dom (bs_lease_provenance t) = {..<?n + 1}"
    using assms(1,6) by (auto simp: books_with_def)
  have "books_with t (insert ?n held) ?L"
    unfolding books_with_def assms(5,8-10) pairs
    using assms(1-4) used retiring dom phases provenance new(2)
    by (simp add: books_with_def)
  then show ?thesis by (auto simp: books_def)
qed

lemma acquire_Inr:
  assumes "acquire al b p s = Inr (l, s')"
  shows "l = bs_next_lease_id s" "0 \<le> b"
    "bs_active_aliases s' = bs_active_aliases s"
    "bs_lease_provenance s' = (bs_lease_provenance s)(l \<mapsto> p)"
    "bs_pending_retirements s' = bs_pending_retirements s"
    "bs_task_completion_dependencies s' = bs_task_completion_dependencies s"
    "bs_next_lease_id s' = bs_next_lease_id s + 1"
    "bs_next_dependency_id s' = bs_next_dependency_id s"
    "bs_handoff_releases s' = bs_handoff_releases s"
    "numbered (bs_operations s) \<Longrightarrow> numbered (bs_operations s')"
    "bounded n (bs_operations s) \<Longrightarrow> bounded n (bs_operations s')"
    "ledger_of s = Some L \<Longrightarrow> L l = None \<Longrightarrow> b \<noteq> 0 \<Longrightarrow> ledger_of s' = Some (L(l \<mapsto> In_Use))"
  using assms
  by (auto simp: acquire_def new_lease_id_def append_operation_Inr_iff Let_def ledger_of_def
      ledger_run_append lease_move_def numbered_def bounded_def nth_append less_Suc_eq)

lemma books_acquire:
  assumes "books s held" "acquire al b p s = Inr (l, s')" "b \<noteq> 0"
  shows "books s' (insert l held)" and "l \<notin> held" and "l \<notin> ran (active_lease s)"
proof -
  note A = acquire_Inr [OF assms(2)]
  obtain L where L: "books_with s held L" using assms(1) by (auto simp: books_def)
  note new = books_with_new [OF L, folded A(1)]
  show "l \<notin> held" "l \<notin> ran (active_lease s)" using new by auto
  have "ledger_of s = Some L" "numbered (bs_operations s)"
    "bounded (bs_next_dependency_id s) (bs_operations s)"
    using L by (simp_all add: books_with_def)
  then show "books s' (insert l held)"
    using A new(1) assms(3) unfolding A(1) by (intro books_take [OF L, where p = p]) auto
qed

lemma acquire_task_Inr:
  assumes "acquire_task al b p s = Inr (l, s')"
  shows "l = bs_next_lease_id s" "0 \<le> b"
    "bs_active_aliases s' = bs_active_aliases s"
    "bs_lease_provenance s' = (bs_lease_provenance s)(l \<mapsto> p)"
    "bs_pending_retirements s' = bs_pending_retirements s"
    "bs_task_completion_dependencies s' = bs_task_completion_dependencies s"
    "bs_next_lease_id s' = bs_next_lease_id s + 1"
    "bs_next_dependency_id s' = bs_next_dependency_id s"
    "bs_handoff_releases s' = bs_handoff_releases s"
    "numbered (bs_operations s) \<Longrightarrow> numbered (bs_operations s')"
    "bounded n (bs_operations s) \<Longrightarrow> bounded n (bs_operations s')"
    "ledger_of s = Some L \<Longrightarrow> L l = None \<Longrightarrow> b \<noteq> 0 \<Longrightarrow> ledger_of s' = Some (L(l \<mapsto> In_Use))"
  using assms
  by (auto simp: acquire_task_def new_lease_id_def append_operation_Inr_iff Let_def ledger_of_def
      ledger_run_append lease_move_def numbered_def bounded_def nth_append less_Suc_eq)

lemma books_acquire_task:
  assumes "books s held" "acquire_task al b p s = Inr (l, s')" "b \<noteq> 0"
  shows "books s' (insert l held)" and "l \<notin> held" and "l \<notin> ran (active_lease s)"
proof -
  note A = acquire_task_Inr [OF assms(2)]
  obtain L where L: "books_with s held L" using assms(1) by (auto simp: books_def)
  note new = books_with_new [OF L, folded A(1)]
  show "l \<notin> held" "l \<notin> ran (active_lease s)" using new by auto
  have "ledger_of s = Some L" "numbered (bs_operations s)"
    "bounded (bs_next_dependency_id s) (bs_operations s)"
    using L by (simp_all add: books_with_def)
  then show "books s' (insert l held)"
    using A new(1) assms(3) unfolding A(1) by (intro books_take [OF L, where p = p]) auto
qed

text \<open>A held lease is retired under a dependency that was handed out.\<close>

lemma retire_Inr:
  assumes "retire l d e p s = Inr s'"
  shows "bs_active_aliases s' = bs_active_aliases s"
    "bs_lease_provenance s' = bs_lease_provenance s"
    "bs_task_completion_dependencies s' = bs_task_completion_dependencies s"
    "bs_next_lease_id s' = bs_next_lease_id s"
    "bs_next_dependency_id s' = bs_next_dependency_id s"
    "bs_handoff_releases s' = bs_handoff_releases s"
    "pending_pairs s' = pending_pairs s @ [(l, d)]"
    "numbered (bs_operations s) \<Longrightarrow> numbered (bs_operations s')"
    "bounded n (bs_operations s) \<Longrightarrow> d < n \<Longrightarrow> bounded n (bs_operations s')"
    "ledger_of s = Some L \<Longrightarrow> L l = Some In_Use \<Longrightarrow> ledger_of s' = Some (L(l \<mapsto> Retiring d))"
  using assms
  by (auto simp: retire_def append_operation_Inr_iff pending_pairs_def ledger_of_def
      ledger_run_append lease_move_def)

lemma books_retire:
  assumes "books s held" "l \<in> held" "d < bs_next_dependency_id s" "retire l d e p s = Inr s'"
  shows "books s' (held - {l})"
proof -
  note R = retire_Inr [OF assms(4)]
  obtain L where L: "books_with s held L" using assms(1) by (auto simp: books_def)
  let ?L = "L(l \<mapsto> Retiring d)"
  have use: "L l = Some In_Use" using books_with_in_use [OF L, of l] assms(2) by simp
  have B: "in_use L = ran (active_lease s) \<union> held" "ran (active_lease s) \<inter> held = {}"
    "\<And>l d. L l = Some (Retiring d) \<longleftrightarrow> (l, d) \<in> set (pending_pairs s)"
    "Some Reserved \<notin> range L" "Some Retired \<notin> range L"
    using L by (auto simp: books_with_def)
  have used: "in_use ?L = ran (active_lease s) \<union> (held - {l})"
    using B(1,2) assms(2) by (auto simp: in_use_def)
  have old: "(l, d') \<notin> set (pending_pairs s)" for d' using B(3) [of l d'] use by simp
  then have new: "l \<notin> fst ` set (pending_pairs s)" by auto
  have retiring: "\<forall>l' d'. ?L l' = Some (Retiring d')
      \<longleftrightarrow> (l', d') \<in> set (pending_pairs s @ [(l, d)])"
    using B(3) old by auto
  have dom: "dom ?L = dom L" using use by auto
  have phases: "Some Reserved \<notin> range ?L" "Some Retired \<notin> range ?L"
    using B(4,5) by (auto simp: image_iff)
  have apart: "ran (active_lease s) \<inter> (held - {l}) = {}" using B(2) by auto
  have "books_with s' (held - {l}) ?L"
    unfolding books_with_def R(1-5,7) dom
    using L R(8-10) used retiring new phases use apart assms(3)
    by (intro conjI) (simp_all add: books_with_def)
  then show ?thesis by (auto simp: books_def)
qed

lemma books_new_dependency:
  assumes "books s held" "new_dependency_id s = (d, s')"
  shows "books s' held" and "d < bs_next_dependency_id s'"
    and "bs_active_aliases s' = bs_active_aliases s"
proof -
  have s': "s' = s\<lparr>bs_next_dependency_id := bs_next_dependency_id s + 1\<rparr>" "d = bs_next_dependency_id s"
    using assms(2) by (auto simp: new_dependency_id_def)
  then show "books s' held" "d < bs_next_dependency_id s'"
    "bs_active_aliases s' = bs_active_aliases s"
    using assms(1) bounded_mono [of "bs_next_dependency_id s" "bs_operations s"]
    by (fastforce simp: books_def books_with_def ledger_of_def pending_pairs_def)+
qed

lemma books_task_dependency:
  assumes "books s held" "task_dependency t s = (d, s')"
  shows "books s' held" and "d < bs_next_dependency_id s'"
    and "bs_active_aliases s' = bs_active_aliases s"
proof -
  have "books s' held \<and> d < bs_next_dependency_id s' \<and> bs_active_aliases s' = bs_active_aliases s"
  proof (cases "bs_task_completion_dependencies s t")
    case None
    obtain u where u: "new_dependency_id s = (d, u)"
      and s': "s' = u\<lparr>bs_task_completion_dependencies :=
        (bs_task_completion_dependencies u)(t \<mapsto> d)\<rparr>"
      using assms(2) None by (auto simp: task_dependency_def split: prod.splits)
    note U = books_new_dependency [OF assms(1) u]
    have "books s' held"
      using U(1,2) s' unfolding books_def books_with_def ledger_of_def pending_pairs_def
      by (fastforce simp: ran_def)
    then show ?thesis using U s' by simp
  next
    case (Some d')
    then show ?thesis
      using assms by (auto simp: task_dependency_def books_def books_with_def intro: ranI)
  qed
  then show "books s' held" "d < bs_next_dependency_id s'"
    "bs_active_aliases s' = bs_active_aliases s" by auto
qed

lemma books_begin_task_retirement:
  assumes "books s held" "l \<in> held" "begin_task_retirement l p s = Inr s'"
  shows "books s' (held - {l})" and "bs_active_aliases s' = bs_active_aliases s"
proof -
  obtain t d u where t: "task_dependency t s = (d, u)" and r: "retire l d False p u = Inr s'"
    using assms(3) by (auto simp: begin_task_retirement_def refuse_def split: option.splits prod.splits)
  note D = books_task_dependency [OF assms(1) t]
  show "books s' (held - {l})" "bs_active_aliases s' = bs_active_aliases s"
    using books_retire [OF D(1) assms(2) D(2) r] retire_Inr(1) [OF r] D(3) by auto
qed

text \<open>A held lease becomes the lease of an alias that owns none, and the other way round.\<close>

lemma books_set_active:
  assumes "books s held" "l \<in> held" "active_lease s a = None"
  shows "books (set_active a l s) (held - {l})"
proof -
  obtain L where L: "books_with s held L" using assms(1) by (auto simp: books_def)
  have new: "a \<notin> dom (active_lease s)" using assms(3) by auto
  have upd: "active_lease (set_active a l s) = (active_lease s)(a \<mapsto> l)"
    by (simp add: set_active_def update_conv')
  have ran: "ran ((active_lease s)(a \<mapsto> l)) = insert l (ran (active_lease s))"
    using assms(3) by (simp add: ran_map_upd)
  have apart: "l \<notin> ran (active_lease s)" using L assms(2) by (auto simp: books_with_def)
  have inj: "inj_on ((active_lease s)(a \<mapsto> l)) (dom ((active_lease s)(a \<mapsto> l)))"
    using L new apart by (intro inj_insert) (simp_all add: books_with_def)
  have "books_with (set_active a l s) (held - {l}) L"
    using L inj apart assms(2) unfolding books_with_def upd ran
    by (auto simp: set_active_def ledger_of_def pending_pairs_def distinct_update)
  then show ?thesis by (auto simp: books_def)
qed

lemma books_pop_active:
  assumes "books s held" "active_lease s a = Some l"
  shows "books (pop_active a s) (insert l held)" and "l \<notin> held"
    and "active_lease (pop_active a s) = (active_lease s)(a := None)"
proof -
  obtain L where L: "books_with s held L" using assms(1) by (auto simp: books_def)
  have "l \<in> ran (active_lease s)" using assms(2) by (rule ranI)
  then show apart: "l \<notin> held" using L by (auto simp: books_with_def)
  show upd: "active_lease (pop_active a s) = (active_lease s)(a := None)"
    by (simp add: pop_active_def delete_conv')
  have inj: "inj_on (active_lease s) (dom (active_lease s))" using L by (simp add: books_with_def)
  note ran = ran_remove [OF inj assms(2)] and inj' = inj_remove [OF inj, of a]
  have same: "bs_operations (pop_active a s) = bs_operations s"
    "bs_lease_provenance (pop_active a s) = bs_lease_provenance s"
    "bs_task_completion_dependencies (pop_active a s) = bs_task_completion_dependencies s"
    "bs_next_lease_id (pop_active a s) = bs_next_lease_id s"
    "bs_next_dependency_id (pop_active a s) = bs_next_dependency_id s"
    "ledger_of (pop_active a s) = ledger_of s" "pending_pairs (pop_active a s) = pending_pairs s"
    by (simp_all add: pop_active_def ledger_of_def pending_pairs_def)
  have names: "distinct (map fst (bs_active_aliases (pop_active a s)))"
    using L by (simp add: books_with_def pop_active_def distinct_delete)
  have use: "in_use L = ran ((active_lease s)(a := None)) \<union> insert l held"
    using L \<open>l \<in> ran (active_lease s)\<close> unfolding ran by (auto simp: books_with_def)
  have split: "ran ((active_lease s)(a := None)) \<inter> insert l held = {}"
    using L unfolding ran by (auto simp: books_with_def)
  have "books_with (pop_active a s) (insert l held) L"
    unfolding books_with_def upd same
    using L inj' names use split by (intro conjI) (simp_all add: books_with_def)
  then show "books (pop_active a s) (insert l held)" by (auto simp: books_def)
qed

end
