(* ===== verification/Admission_Walk.thy ===== *)
theory Admission_Walk
  imports Admission_Ledger
begin

text \<open>
  The allocations of one task. The check of the constructor and the walk of the builder go through
  the same steps; the walk is related to what the check has recorded, so on facts the constructor
  accepted it always returns, takes every lease once, hands every anonymous lease back for
  retirement and leaves exactly the leases of the declared outputs.
\<close>

section \<open>What the check of the trace records\<close>

definition allocates :: "task_allocation_step \<Rightarrow> bool" where
  "allocates step \<longleftrightarrow> as_kind step = STEP_ALLOCATE"

definition trace_ok :: "task_allocation_step list \<Rightarrow> allocation_trace \<Rightarrow> bool" where
  "trace_ok steps trace \<longleftrightarrow>
     (\<forall>step \<in> set steps. allocates step \<longrightarrow>
        tv_allocations trace (as_allocation_ordinal step) = Some step)
     \<and> tv_live trace \<union> tv_retired trace = dom (tv_allocations trace)
     \<and> tv_live trace \<inter> tv_retired trace = {}
     \<and> tv_output_aliases trace =
         {a. \<exists>step \<in> set steps. as_output_alias_group_id step = Some a}
     \<and> tv_reused trace = {r. \<exists>step \<in> set steps. as_reuses_allocation_ordinal step = Some r}
     \<and> tv_reused trace \<subseteq> tv_retired trace"

lemma valid_release:
  "valid_step step \<Longrightarrow> \<not> allocates step \<Longrightarrow>
    as_output_alias_group_id step = None \<and> as_reuses_allocation_ordinal step = None"
  by (auto simp: valid_step_def task_allocation_step_post_init_def allocates_def split: if_splits)

lemma valid_charge: "valid_step step \<Longrightarrow> allocates step \<Longrightarrow> 0 < as_charged_bytes step"
  by (auto simp: valid_step_def task_allocation_step_post_init_def allocates_def split: if_splits)

lemma trace_step_release:
  assumes "\<not> allocates step"
  shows "trace_step trace step = Inr trace' \<longleftrightarrow>
    as_allocation_ordinal step \<in> tv_live trace
    \<and> trace' = trace\<lparr>tv_live := tv_live trace - {as_allocation_ordinal step},
        tv_retired := insert (as_allocation_ordinal step) (tv_retired trace)\<rparr>"
  using assms by (auto simp: trace_step_def allocates_def Let_def)

lemma check_reuse_Inr:
  "check_reuse step trace = Inr trace' \<longleftrightarrow>
    (\<forall>r. as_reuses_allocation_ordinal step = Some r \<longrightarrow>
       r \<in> tv_retired trace - tv_reused trace
       \<and> (\<exists>earlier. tv_allocations trace r = Some earlier
            \<and> as_charged_bytes earlier = as_charged_bytes step))
    \<and> trace' = trace\<lparr>tv_reused := set_option (as_reuses_allocation_ordinal step) \<union> tv_reused trace\<rparr>"
  by (cases "as_reuses_allocation_ordinal step")
    (auto simp: check_reuse_def bindE_Inr_iff dict_get_Inr_iff split: if_splits)

lemma check_bound_output_Inr:
  "check_bound_output step trace = Inr trace' \<longleftrightarrow>
    (\<forall>a. as_output_alias_group_id step = Some a \<longrightarrow> a \<notin> tv_output_aliases trace)
    \<and> trace' = trace\<lparr>tv_output_aliases :=
        set_option (as_output_alias_group_id step) \<union> tv_output_aliases trace\<rparr>"
  by (cases "as_output_alias_group_id step") (auto simp: check_bound_output_def)

lemma trace_step_allocate:
  assumes "allocates step"
  shows "trace_step trace step = Inr trace' \<longleftrightarrow>
    as_allocation_ordinal step \<notin> dom (tv_allocations trace)
    \<and> (\<forall>r. as_reuses_allocation_ordinal step = Some r \<longrightarrow>
         r \<in> tv_retired trace - tv_reused trace
         \<and> (\<exists>earlier. tv_allocations trace r = Some earlier
              \<and> as_charged_bytes earlier = as_charged_bytes step))
    \<and> (\<forall>a. as_output_alias_group_id step = Some a \<longrightarrow> a \<notin> tv_output_aliases trace)
    \<and> trace' = trace\<lparr>
        tv_allocations := (tv_allocations trace)(as_allocation_ordinal step \<mapsto> step),
        tv_live := insert (as_allocation_ordinal step) (tv_live trace),
        tv_reused := set_option (as_reuses_allocation_ordinal step) \<union> tv_reused trace,
        tv_output_aliases := set_option (as_output_alias_group_id step) \<union> tv_output_aliases trace\<rparr>"
  using assms
  by (auto simp: trace_step_def allocates_def Let_def check_reuse_Inr check_bound_output_Inr
      bindE_Inr_iff domIff)

lemma trace_ok_step:
  assumes "trace_ok steps trace" "trace_step trace step = Inr trace'" "valid_step step"
  shows "trace_ok (steps @ [step]) trace'"
proof (cases "allocates step")
  case True
  then show ?thesis
    using assms(1,2) unfolding trace_step_allocate [OF True] trace_ok_def
    by (auto simp: allocates_def)
next
  case False
  then show ?thesis
    using assms(1,2) valid_release [OF assms(3) False]
    unfolding trace_step_release [OF False] trace_ok_def by auto
qed

lemma trace_ok_empty: "trace_ok [] empty_trace"
  by (simp add: trace_ok_def empty_trace_def)


section \<open>The walk\<close>

definition walk_leases :: "allocations \<Rightarrow> nat set" where
  "walk_leases al =
     ran (av_leases_by_ordinal al) \<union> ran (map_of (av_reusable_leases al)) \<union> set (av_terminal_leases al)"

definition leases_apart :: "nat set \<Rightarrow> allocations \<Rightarrow> bool" where
  "leases_apart held al \<longleftrightarrow>
     held \<inter> walk_leases al = {}
     \<and> ran (av_leases_by_ordinal al) \<inter> ran (map_of (av_reusable_leases al)) = {}
     \<and> ran (av_leases_by_ordinal al) \<inter> set (av_terminal_leases al) = {}
     \<and> ran (map_of (av_reusable_leases al)) \<inter> set (av_terminal_leases al) = {}
     \<and> inj_on (av_leases_by_ordinal al) (dom (av_leases_by_ordinal al))
     \<and> inj_on (map_of (av_reusable_leases al)) (dom (map_of (av_reusable_leases al)))
     \<and> distinct (av_terminal_leases al)"

definition walk_follows ::
    "task_admission_spec \<Rightarrow> task_allocation_step list \<Rightarrow> allocation_trace \<Rightarrow> allocations \<Rightarrow> bool" where
  "walk_follows admission steps trace al \<longleftrightarrow>
     dom (av_leases_by_ordinal al) = tv_live trace
     \<and> dom (map_of (av_reusable_leases al)) =
         (tv_retired trace \<inter> reused_ordinals admission) - tv_reused trace
     \<and> distinct (map fst (av_output_leases al))
     \<and> dom (map_of (av_output_leases al)) = tv_output_aliases trace
     \<and> (\<forall>step \<in> set steps. \<forall>a. as_output_alias_group_id step = Some a
          \<longrightarrow> as_allocation_ordinal step \<in> tv_live trace
          \<longrightarrow> av_leases_by_ordinal al (as_allocation_ordinal step) = map_of (av_output_leases al) a)"

text \<open>What the walk leaves alone.\<close>

definition same_owners :: "builder \<Rightarrow> builder \<Rightarrow> bool" where
  "same_owners s t \<longleftrightarrow> bs_active_aliases t = bs_active_aliases s
     \<and> bs_handoff_releases t = bs_handoff_releases s"

lemma same_owners_refl [simp]: "same_owners s s"
  by (simp add: same_owners_def)

lemma same_owners_trans: "same_owners s t \<Longrightarrow> same_owners t u \<Longrightarrow> same_owners s u"
  by (simp add: same_owners_def)

lemma acquire_task_total:
  "0 \<le> b \<Longrightarrow> 0 \<le> al \<Longrightarrow> \<exists>l s'. acquire_task al b p s = Inr (l, s')"
  by (simp add: acquire_task_def new_lease_id_def append_operation_def construct_def
      pool_operation_post_init_def Let_def)

lemma acquire_total:
  "0 \<le> b \<Longrightarrow> 0 \<le> al \<Longrightarrow> \<exists>l s'. acquire al b p s = Inr (l, s')"
  by (simp add: acquire_def new_lease_id_def append_operation_def construct_def
      pool_operation_post_init_def Let_def)

lemma retire_total: "\<exists>s'. retire l d e p s = Inr s'"
  by (simp add: retire_def append_operation_def construct_def pool_operation_post_init_def)

lemma begin_task_retirement_total:
  "lp_task_id p \<noteq> None \<Longrightarrow> \<exists>s'. begin_task_retirement l p s = Inr s'"
  by (auto simp: begin_task_retirement_def retire_total split: prod.split)

text \<open>The lease of an allocating step.\<close>

lemma step_lease_new:
  assumes "books s (held \<union> walk_leases al)" "as_reuses_allocation_ordinal step = None"
    and "0 < as_charged_bytes step" "0 \<le> bc_alignment cx"
  shows "\<exists>l s'. step_lease cx step p (s, al) = Inr (l, s', al)
    \<and> books s' (insert l (held \<union> walk_leases al)) \<and> l \<notin> held \<union> walk_leases al \<and> same_owners s s'"
proof -
  obtain l s' where A: "acquire_task (bc_alignment cx) (as_charged_bytes step) p s = Inr (l, s')"
    using acquire_task_total [of "as_charged_bytes step"] assms(3,4) by (meson less_imp_le)
  have "as_charged_bytes step \<noteq> 0" using assms(3) by simp
  from books_acquire_task [OF assms(1) A this] acquire_task_Inr(3,9) [OF A] show ?thesis
    using A assms(2) by (auto simp: step_lease_def same_owners_def)
qed

lemma step_lease_reuse:
  assumes "books s (held \<union> walk_leases al)" "as_reuses_allocation_ordinal step = Some r"
    and "map_of (av_reusable_leases al) r = Some l"
  shows "\<exists>s'. step_lease cx step p (s, al) =
      Inr (l, s', al\<lparr>av_reusable_leases := AList.delete r (av_reusable_leases al)\<rparr>)
    \<and> books s' (held \<union> walk_leases al) \<and> same_owners s s'"
proof -
  have "l \<in> walk_leases al" using ranI [of "map_of (av_reusable_leases al)"] assms(3)
    by (auto simp: walk_leases_def)
  then have "l < bs_next_lease_id s" using books_bound(1) [OF assms(1), of l] by simp
  from books_provenance [OF assms(1) this] show ?thesis
    using assms(2,3) by (simp add: step_lease_def same_owners_def)
qed

text \<open>Moving a lease between the containers of the walk keeps them apart.\<close>

lemma apart_new:
  assumes "leases_apart held al" "l \<notin> held \<union> walk_leases al" "r \<notin> dom (av_leases_by_ordinal al)"
  shows "leases_apart held (al\<lparr>av_leases_by_ordinal := (av_leases_by_ordinal al)(r \<mapsto> l),
      av_output_leases := outs\<rparr>)"
    and "walk_leases (al\<lparr>av_leases_by_ordinal := (av_leases_by_ordinal al)(r \<mapsto> l),
      av_output_leases := outs\<rparr>) = insert l (walk_leases al)"
proof -
  have ran: "ran ((av_leases_by_ordinal al)(r \<mapsto> l)) = insert l (ran (av_leases_by_ordinal al))"
    using assms(3) by (simp add: ran_map_upd domIff)
  show "walk_leases (al\<lparr>av_leases_by_ordinal := (av_leases_by_ordinal al)(r \<mapsto> l),
      av_output_leases := outs\<rparr>) = insert l (walk_leases al)"
    by (simp add: walk_leases_def ran)
  moreover have "inj_on ((av_leases_by_ordinal al)(r \<mapsto> l)) (dom ((av_leases_by_ordinal al)(r \<mapsto> l)))"
    using assms by (intro inj_insert) (auto simp: leases_apart_def walk_leases_def)
  ultimately show "leases_apart held (al\<lparr>av_leases_by_ordinal := (av_leases_by_ordinal al)(r \<mapsto> l),
      av_output_leases := outs\<rparr>)"
    using assms(1,2) by (simp add: leases_apart_def ran) (auto simp: walk_leases_def)
qed

lemma apart_reuse:
  assumes "leases_apart held al" "map_of (av_reusable_leases al) r = Some l"
  shows "leases_apart held (al\<lparr>av_reusable_leases := AList.delete r (av_reusable_leases al)\<rparr>)"
    and "insert l (walk_leases (al\<lparr>av_reusable_leases := AList.delete r (av_reusable_leases al)\<rparr>))
      = walk_leases al"
    and "l \<notin> held \<union> walk_leases (al\<lparr>av_reusable_leases := AList.delete r (av_reusable_leases al)\<rparr>)"
proof -
  let ?m = "map_of (av_reusable_leases al)"
  have inj: "inj_on ?m (dom ?m)" using assms(1) by (simp add: leases_apart_def)
  have upd: "map_of (AList.delete r (av_reusable_leases al)) = ?m(r := None)"
    by (rule delete_conv')
  note ran = ran_remove [OF inj assms(2)] and inj' = inj_remove [OF inj, of r]
  have l: "l \<in> ran ?m" using assms(2) by (rule ranI)
  show "insert l (walk_leases (al\<lparr>av_reusable_leases := AList.delete r (av_reusable_leases al)\<rparr>))
      = walk_leases al"
    using l by (auto simp: walk_leases_def upd ran)
  show "l \<notin> held \<union> walk_leases (al\<lparr>av_reusable_leases := AList.delete r (av_reusable_leases al)\<rparr>)"
    using l assms(1) by (auto simp: walk_leases_def upd ran leases_apart_def)
  show "leases_apart held (al\<lparr>av_reusable_leases := AList.delete r (av_reusable_leases al)\<rparr>)"
    using assms(1) inj' unfolding leases_apart_def
    by (simp add: upd ran) (auto simp: walk_leases_def upd ran)
qed

lemma apart_release:
  assumes "leases_apart held al" "av_leases_by_ordinal al r = Some l"
    and "r \<notin> dom (map_of (av_reusable_leases al))"
  defines "out \<equiv> al\<lparr>av_leases_by_ordinal := (av_leases_by_ordinal al)(r := None)\<rparr>"
  shows "leases_apart held (out\<lparr>av_reusable_leases := AList.update r l (av_reusable_leases out)\<rparr>)"
    and "leases_apart held (out\<lparr>av_terminal_leases := av_terminal_leases out @ [l]\<rparr>)"
    and "walk_leases (out\<lparr>av_reusable_leases := AList.update r l (av_reusable_leases out)\<rparr>) = walk_leases al"
    and "walk_leases (out\<lparr>av_terminal_leases := av_terminal_leases out @ [l]\<rparr>) = walk_leases al"
proof -
  let ?b = "av_leases_by_ordinal al" and ?m = "map_of (av_reusable_leases al)"
  have inj: "inj_on ?b (dom ?b)" "inj_on ?m (dom ?m)" using assms(1) by (simp_all add: leases_apart_def)
  note ran = ran_remove [OF inj(1) assms(2)] and inj' = inj_remove [OF inj(1), of r]
  have l: "l \<in> ran ?b" using assms(2) by (rule ranI)
  have apart: "l \<notin> ran ?m" "l \<notin> set (av_terminal_leases al)"
    using l assms(1) by (auto simp: leases_apart_def)
  have upd: "map_of (AList.update r l (av_reusable_leases al)) = ?m(r \<mapsto> l)" by (rule update_conv')
  have ran_m: "ran (?m(r \<mapsto> l)) = insert l (ran ?m)"
    using assms(3) by (simp add: ran_map_upd domIff)
  have inj_m: "inj_on (?m(r \<mapsto> l)) (dom (?m(r \<mapsto> l)))"
    using inj(2) apart(1) assms(3) by (rule inj_insert)
  show leases: "walk_leases (out\<lparr>av_reusable_leases := AList.update r l (av_reusable_leases out)\<rparr>)
      = walk_leases al"
    "walk_leases (out\<lparr>av_terminal_leases := av_terminal_leases out @ [l]\<rparr>) = walk_leases al"
    using l by (auto simp: out_def walk_leases_def upd ran ran_m)
  show "leases_apart held (out\<lparr>av_reusable_leases := AList.update r l (av_reusable_leases out)\<rparr>)"
    using assms(1) inj' inj_m apart unfolding leases_apart_def leases(1)
    by (simp add: out_def upd ran ran_m) blast
  show "leases_apart held (out\<lparr>av_terminal_leases := av_terminal_leases out @ [l]\<rparr>)"
    using assms(1) inj' apart unfolding leases_apart_def leases(2)
    by (simp add: out_def ran) blast
qed

text \<open>One step of the check, and the step of the walk that goes with it.\<close>

lemma follows_allocate:
  assumes "trace_ok steps trace" "walk_follows admission steps trace al"
    and "trace_step trace step = Inr trace'" "allocates step"
    and "av_leases_by_ordinal al' = (av_leases_by_ordinal al)(as_allocation_ordinal step \<mapsto> l)"
    and "dom (map_of (av_reusable_leases al')) =
      dom (map_of (av_reusable_leases al)) - set_option (as_reuses_allocation_ordinal step)"
    and "av_output_leases al' =
      (case as_output_alias_group_id step of None \<Rightarrow> av_output_leases al
       | Some a \<Rightarrow> AList.update a l (av_output_leases al))"
    and "\<forall>x \<in> set steps. valid_step x"
  shows "walk_follows admission (steps @ [step]) trace' al'"
proof -
  let ?r = "as_allocation_ordinal step"
  note T = assms(3) [unfolded trace_step_allocate [OF assms(4)]]
  have fresh: "?r \<notin> dom (tv_allocations trace)" using T by blast
  have outputs: "map_of (av_output_leases al') =
      (case as_output_alias_group_id step of None \<Rightarrow> map_of (av_output_leases al)
       | Some a \<Rightarrow> (map_of (av_output_leases al))(a \<mapsto> l))"
    unfolding assms(7) by (simp add: update_conv' split: option.split)
  have names: "distinct (map fst (av_output_leases al'))"
    using assms(2) unfolding assms(7)
    by (simp add: walk_follows_def distinct_update split: option.split)
  have agree: "av_leases_by_ordinal al' (as_allocation_ordinal x) = map_of (av_output_leases al') a"
    if x: "x \<in> set (steps @ [step])" "as_output_alias_group_id x = Some a"
      "as_allocation_ordinal x \<in> tv_live trace'" for x a
  proof (cases "x = step")
    case True
    then show ?thesis using x(2) unfolding outputs assms(5) by simp
  next
    case False
    then have old: "x \<in> set steps" using x(1) by simp
    then have "a \<in> tv_output_aliases trace" using assms(1) x(2) by (auto simp: trace_ok_def)
    then have apart: "as_output_alias_group_id step \<noteq> Some a" using T by blast
    have "allocates x" using valid_release [of x] assms(8) old x(2) by auto
    then have "as_allocation_ordinal x \<noteq> ?r"
      using assms(1) old fresh by (auto simp: trace_ok_def)
    moreover from this have "as_allocation_ordinal x \<in> tv_live trace" using x(3) T by auto
    moreover from this have
      "av_leases_by_ordinal al (as_allocation_ordinal x) = map_of (av_output_leases al) a"
      using assms(2) old x(2) by (auto simp: walk_follows_def)
    ultimately show ?thesis
      using apart unfolding outputs assms(5) by (auto split: option.split)
  qed
  show ?thesis
    unfolding walk_follows_def
    using assms(2,5,6) T names agree outputs
    by (auto simp: walk_follows_def split: option.splits)
qed

lemma walk_allocate:
  assumes "trace_ok steps trace" "walk_follows admission steps trace al"
    and "trace_step trace step = Inr trace'" "allocates step"
    and "\<forall>x \<in> set steps. valid_step x" "valid_step step"
    and "books s (held \<union> walk_leases al)" "leases_apart held al" "0 \<le> bc_alignment cx"
    and "step \<in> set (ta_allocation_steps admission)"
  shows "\<exists>s' al'. allocation_step cx task_id admission (s, al) step = Inr (s', al')
    \<and> books s' (held \<union> walk_leases al') \<and> leases_apart held al'
    \<and> walk_follows admission (steps @ [step]) trace' al' \<and> same_owners s s'"
proof -
  let ?r = "as_allocation_ordinal step"
  let ?p = "\<lparr>lp_purpose = allocation_purpose admission (as_output_alias_group_id step),
    lp_task_id = Some task_id, lp_alias_group_id = as_output_alias_group_id step,
    lp_action_index = None\<rparr>"
  note T = assms(3) [unfolded trace_step_allocate [OF assms(4)]]
  have fresh: "?r \<notin> dom (av_leases_by_ordinal al)"
    using T assms(1,2) by (auto simp: trace_ok_def walk_follows_def)
  have "\<exists>l s' mid. step_lease cx step ?p (s, al) = Inr (l, s', mid)
      \<and> books s' (insert l (held \<union> walk_leases mid)) \<and> l \<notin> held \<union> walk_leases mid
      \<and> leases_apart held mid \<and> same_owners s s'
      \<and> av_leases_by_ordinal mid = av_leases_by_ordinal al
      \<and> av_output_leases mid = av_output_leases al
      \<and> dom (map_of (av_reusable_leases mid)) =
          dom (map_of (av_reusable_leases al)) - set_option (as_reuses_allocation_ordinal step)"
  proof (cases "as_reuses_allocation_ordinal step")
    case None
    from step_lease_new [OF assms(7) None valid_charge [OF assms(6,4)] assms(9), of ?p]
    show ?thesis using assms(8) None by fastforce
  next
    case (Some r)
    have "r \<in> reused_ordinals admission"
      using Some assms(10) unfolding reused_ordinals_def by force
    then have "r \<in> dom (map_of (av_reusable_leases al))"
      using T Some assms(2) by (auto simp: walk_follows_def)
    then obtain l where l: "map_of (av_reusable_leases al) r = Some l" by blast
    let ?mid = "al\<lparr>av_reusable_leases := AList.delete r (av_reusable_leases al)\<rparr>"
    from step_lease_reuse [OF assms(7) Some l, of cx ?p] obtain s' where
      s': "step_lease cx step ?p (s, al) = Inr (l, s', ?mid)"
      "books s' (held \<union> walk_leases al)" "same_owners s s'" by blast
    note A = apart_reuse [OF assms(8) l]
    have "insert l (held \<union> walk_leases ?mid) = held \<union> walk_leases al" using A(2) by blast
    then have "books s' (insert l (held \<union> walk_leases ?mid))" using s'(2) by simp
    then show ?thesis
      using s' A(1,3) Some by (intro exI [of _ l] exI [of _ s'] exI [of _ ?mid])
        (auto simp: delete_conv')
  qed
  then obtain l s' mid where M: "step_lease cx step ?p (s, al) = Inr (l, s', mid)"
    "books s' (insert l (held \<union> walk_leases mid))" "l \<notin> held \<union> walk_leases mid"
    "leases_apart held mid" "same_owners s s'" "av_leases_by_ordinal mid = av_leases_by_ordinal al"
    "av_output_leases mid = av_output_leases al"
    "dom (map_of (av_reusable_leases mid)) =
      dom (map_of (av_reusable_leases al)) - set_option (as_reuses_allocation_ordinal step)"
    by blast
  let ?t = "s'\<lparr>bs_task_allocation_leases := (bs_task_allocation_leases s')((task_id, ?r) \<mapsto> l)\<rparr>"
  let ?al = "mid\<lparr>av_leases_by_ordinal := (av_leases_by_ordinal mid)(?r \<mapsto> l),
      av_output_leases := (case as_output_alias_group_id step of None \<Rightarrow> av_output_leases mid
        | Some a \<Rightarrow> AList.update a l (av_output_leases mid))\<rparr>"
  have step: "allocation_step cx task_id admission (s, al) step = Inr (?t, ?al)"
    using M(1) assms(4) by (simp add: allocation_step_def allocates_def Let_def)
  note A = apart_new [OF M(4,3), of ?r] fresh [folded M(6)]
  have "walk_follows admission (steps @ [step]) trace' ?al"
    by (rule follows_allocate [OF assms(1-4) _ _ _ assms(5), where l = l])
      (use M(6-8) in \<open>simp_all split: option.split\<close>)
  moreover have "same_owners s ?t" using M(5) by (simp add: same_owners_def)
  moreover have "held \<union> walk_leases ?al = insert l (held \<union> walk_leases mid)" using A by simp
  ultimately show ?thesis using step M(2) A by auto
qed

lemma walk_release:
  assumes "trace_ok steps trace" "walk_follows admission steps trace al"
    and "trace_step trace step = Inr trace'" "\<not> allocates step" "valid_step step"
    and "books s (held \<union> walk_leases al)" "leases_apart held al"
  shows "\<exists>s' al'. allocation_step cx task_id admission (s, al) step = Inr (s', al')
    \<and> books s' (held \<union> walk_leases al') \<and> leases_apart held al'
    \<and> walk_follows admission (steps @ [step]) trace' al' \<and> same_owners s s'"
proof -
  let ?r = "as_allocation_ordinal step"
  note T = assms(3) [unfolded trace_step_release [OF assms(4)]]
  have plain: "as_output_alias_group_id step = None" using valid_release [OF assms(5,4)] by simp
  obtain l where l: "av_leases_by_ordinal al ?r = Some l"
    using T assms(2) unfolding walk_follows_def by (metis domD)
  have fresh: "?r \<notin> dom (map_of (av_reusable_leases al))"
    using T assms(1,2) by (auto simp: trace_ok_def walk_follows_def)
  have "tv_reused trace \<subseteq> tv_retired trace" "tv_live trace \<inter> tv_retired trace = {}"
    using assms(1) unfolding trace_ok_def by blast+
  then have unused: "?r \<notin> tv_reused trace" using T by blast
  let ?out = "al\<lparr>av_leases_by_ordinal := (av_leases_by_ordinal al)(?r := None)\<rparr>"
  let ?al = "if ?r \<in> reused_ordinals admission
    then ?out\<lparr>av_reusable_leases := AList.update ?r l (av_reusable_leases ?out)\<rparr>
    else ?out\<lparr>av_terminal_leases := av_terminal_leases ?out @ [l]\<rparr>"
  have step: "allocation_step cx task_id admission (s, al) step = Inr (s, ?al)"
    using l assms(4) by (simp add: allocation_step_def allocates_def Let_def)
  note A = apart_release [OF assms(7) l fresh]
  have "walk_follows admission (steps @ [step]) trace' ?al"
    using assms(2) T plain unused by (auto simp: walk_follows_def update_conv')
  then show ?thesis using step A assms(6) by (auto split: if_splits)
qed

text \<open>The whole walk over steps the check has accepted.\<close>

lemma walk_all:
  assumes "foldE trace_step empty_trace steps = Inr trace"
    and "\<forall>x \<in> set steps. valid_step x" "set steps \<subseteq> set (ta_allocation_steps admission)"
    and "books s held" "0 \<le> bc_alignment cx"
  shows "\<exists>s' al. foldE (allocation_step cx task_id admission) (s, no_allocations) steps = Inr (s', al)
    \<and> trace_ok steps trace \<and> books s' (held \<union> walk_leases al) \<and> leases_apart held al
    \<and> walk_follows admission steps trace al \<and> same_owners s s'"
  using assms(1-3)
proof (induction steps arbitrary: trace rule: rev_induct)
  case Nil
  then show ?case
    using assms(4) by (auto simp: trace_ok_def no_allocations_def walk_leases_def leases_apart_def
        walk_follows_def empty_trace_def)
next
  case (snoc step steps)
  obtain mid where mid: "foldE trace_step empty_trace steps = Inr mid"
    "trace_step mid step = Inr trace"
    using snoc.prems(1) by (auto simp: foldE_append)
  obtain t al where W: "foldE (allocation_step cx task_id admission) (s, no_allocations) steps = Inr (t, al)"
    "trace_ok steps mid" "books t (held \<union> walk_leases al)" "leases_apart held al"
    "walk_follows admission steps mid al" "same_owners s t"
    using snoc.IH [OF mid(1)] snoc.prems(2,3) by auto
  have valid: "\<forall>x \<in> set steps. valid_step x" "valid_step step" using snoc.prems(2) by auto
  have "\<exists>s' al'. allocation_step cx task_id admission (t, al) step = Inr (s', al')
    \<and> books s' (held \<union> walk_leases al') \<and> leases_apart held al'
    \<and> walk_follows admission (steps @ [step]) trace al' \<and> same_owners t s'"
  proof (cases "allocates step")
    case True
    show ?thesis
      by (rule walk_allocate [OF W(2,5) mid(2) True valid W(3,4) assms(5)]) (use snoc.prems(3) in auto)
  next
    case False
    show ?thesis by (rule walk_release [OF W(2,5) mid(2) False valid(2) W(3,4)])
  qed
  then show ?case
    using W(1,6) trace_ok_step [OF W(2) mid(2) valid(2)] same_owners_trans
    by (fastforce simp: foldE_append)
qed

lemma reused_ordinals_iff:
  "r \<in> reused_ordinals admission \<longleftrightarrow>
    (\<exists>step \<in> set (ta_allocation_steps admission). as_reuses_allocation_ordinal step = Some r)"
proof
  assume "r \<in> reused_ordinals admission"
  then show "\<exists>step \<in> set (ta_allocation_steps admission). as_reuses_allocation_ordinal step = Some r"
    by (auto simp: reused_ordinals_def)
next
  assume "\<exists>step \<in> set (ta_allocation_steps admission). as_reuses_allocation_ordinal step = Some r"
  then obtain step where "step \<in> set (ta_allocation_steps admission)"
    "as_reuses_allocation_ordinal step = Some r" by blast
  then have "Some r \<in> set (filter (\<lambda>x. x \<noteq> None)
      (map as_reuses_allocation_ordinal (ta_allocation_steps admission)))"
    by (force simp: image_iff)
  then show "r \<in> reused_ordinals admission"
    unfolding reused_ordinals_def by (intro image_eqI [of _ _ "Some r"]) simp_all
qed

lemma distinct_values:
  assumes "distinct (map fst xs)" "inj_on (map_of xs) (dom (map_of xs))"
  shows "distinct (map snd xs)"
proof -
  have "inj_on snd (set xs)"
  proof (rule inj_onI)
    fix x y
    assume xy: "x \<in> set xs" "y \<in> set xs" "snd x = snd y"
    have "map_of xs (fst x) = Some (snd x)" "map_of xs (fst y) = Some (snd y)"
      using xy(1,2) by (simp_all add: map_of_is_SomeI [OF assms(1)])
    then have "map_of xs (fst x) = Some (snd x)" "map_of xs (fst y) = Some (snd x)"
      using xy(3) by simp_all
    then have "fst x = fst y" using inj_onD [OF assms(2), of "fst x" "fst y"] by auto
    then show "x = y" using xy(3) by (rule prod_eqI)
  qed
  then show ?thesis using assms(1) by (simp add: distinct_map)
qed

text \<open>What a task's allocations leave behind.\<close>

lemma task_allocations:
  assumes "valid_admission admission" "books s held" "0 \<le> bc_alignment cx"
  shows "\<exists>terminal outputs s'.
    acquire_task_allocations cx task_id admission s = Inr (terminal, outputs, s')
    \<and> books s' (held \<union> set terminal \<union> ran (map_of outputs)) \<and> same_owners s s'
    \<and> distinct terminal \<and> distinct (map fst outputs) \<and> distinct (map snd outputs)
    \<and> held \<inter> set terminal = {} \<and> held \<inter> ran (map_of outputs) = {}
    \<and> set terminal \<inter> ran (map_of outputs) = {}
    \<and> fst ` set outputs = set (ta_fresh_output_aliases admission) \<union> set (ta_replacement_aliases admission)"
proof (cases "ta_allocation_steps admission = []")
  case True
  then have "ta_fresh_output_aliases admission = []" "ta_replacement_aliases admission = []"
    using assms(1) by (auto simp: valid_admission_def task_admission_spec_post_init_def
        validate_allocation_steps_def Let_def bindE_Inr_iff split: if_splits)
  then show ?thesis
    using True assms(2) by (simp add: acquire_task_allocations_def no_allocations_def)
next
  case False
  let ?steps = "ta_allocation_steps admission"
  have valid: "\<forall>x \<in> set ?steps. valid_step x" using assms(1) by (simp add: valid_admission_def)
  obtain trace where trace: "foldE trace_step empty_trace ?steps = Inr trace"
    "tv_output_aliases trace = set (ta_fresh_output_aliases admission) \<union> set (ta_replacement_aliases admission)"
    "tv_live trace = as_allocation_ordinal ` {x \<in> set ?steps. as_output_alias_group_id x \<noteq> None}"
    using assms(1) False
    by (auto simp: valid_admission_def task_admission_spec_post_init_def
        validate_allocation_steps_def Let_def bindE_Inr_iff split: if_splits)
  from walk_all [OF trace(1) valid subset_refl assms(2,3), of task_id] obtain s' al where W:
    "foldE (allocation_step cx task_id admission) (s, no_allocations) ?steps = Inr (s', al)"
    "trace_ok ?steps trace" "books s' (held \<union> walk_leases al)" "leases_apart held al"
    "walk_follows admission ?steps trace al" "same_owners s s'" by blast
  let ?b = "av_leases_by_ordinal al" and ?o = "map_of (av_output_leases al)"
  have reused: "tv_reused trace = reused_ordinals admission"
    using W(2) by (auto simp: trace_ok_def reused_ordinals_iff)
  have "dom (map_of (av_reusable_leases al)) = {}"
    using W(5) reused by (auto simp: walk_follows_def)
  then have none: "av_reusable_leases al = []" by simp
  have agree: "?b (as_allocation_ordinal x) = ?o a"
    if "x \<in> set ?steps" "as_output_alias_group_id x = Some a" for x a
    using W(5) that trace(3) by (auto simp: walk_follows_def)
  have names: "dom ?o = {a. \<exists>x \<in> set ?steps. as_output_alias_group_id x = Some a}"
    using W(2,5) by (simp add: walk_follows_def trace_ok_def)
  have domb: "dom ?b = as_allocation_ordinal ` {x \<in> set ?steps. as_output_alias_group_id x \<noteq> None}"
    using W(5) trace(3) by (simp add: walk_follows_def)
  have by_output: "\<exists>x \<in> set ?steps. as_output_alias_group_id x = Some a
      \<and> ?b (as_allocation_ordinal x) = Some l" if l: "?o a = Some l" for a l
  proof -
    have "a \<in> dom ?o" using l by (rule domI)
    then obtain x where x: "x \<in> set ?steps" "as_output_alias_group_id x = Some a"
      unfolding names by blast
    then show ?thesis using agree [OF x] l by (intro bexI [of _ x]) simp_all
  qed
  have ran: "ran ?o = ran ?b"
  proof (intro set_eqI iffI)
    fix l
    assume "l \<in> ran ?o"
    then obtain a where "?o a = Some l" by (auto simp: ran_def)
    from by_output [OF this] show "l \<in> ran ?b" by (auto intro: ranI)
  next
    fix l
    assume "l \<in> ran ?b"
    then obtain r where r: "?b r = Some l" by (auto simp: ran_def)
    then have "r \<in> dom ?b" by (rule domI)
    then obtain x a where "x \<in> set ?steps" "as_output_alias_group_id x = Some a"
      "r = as_allocation_ordinal x" unfolding domb by auto
    then have "?o a = Some l" using agree r by metis
    then show "l \<in> ran ?o" by (rule ranI)
  qed
  have inj: "inj_on ?o (dom ?o)"
  proof (rule inj_onI)
    fix a1 a2
    assume "a1 \<in> dom ?o" "a2 \<in> dom ?o" "?o a1 = ?o a2"
    then obtain l where l: "?o a1 = Some l" "?o a2 = Some l" by auto
    from by_output [OF l(1)] obtain x1 where x1: "x1 \<in> set ?steps"
      "as_output_alias_group_id x1 = Some a1" "?b (as_allocation_ordinal x1) = Some l" by blast
    from by_output [OF l(2)] obtain x2 where x2: "x2 \<in> set ?steps"
      "as_output_alias_group_id x2 = Some a2" "?b (as_allocation_ordinal x2) = Some l" by blast
    have "inj_on ?b (dom ?b)" using W(4) by (simp add: leases_apart_def)
    then have "as_allocation_ordinal x1 = as_allocation_ordinal x2"
      by (rule inj_onD) (use x1(3) x2(3) in auto)
    moreover have "allocates x1" "allocates x2"
      using valid_release [of x1] valid_release [of x2] valid x1(1,2) x2(1,2) by auto
    moreover have "tv_allocations trace (as_allocation_ordinal x) = Some x"
      if "x \<in> set ?steps" "allocates x" for x using W(2) that by (simp add: trace_ok_def)
    ultimately have "Some x1 = Some x2" using x1(1) x2(1) by metis
    then have "x1 = x2" by simp
    then show "a1 = a2" using x1(2) x2(2) by simp
  qed
  have keys: "distinct (map fst (av_output_leases al))" using W(5) by (simp add: walk_follows_def)
  have leases: "walk_leases al = set (av_terminal_leases al) \<union> ran ?o"
    by (auto simp: walk_leases_def none ran)
  have result: "acquire_task_allocations cx task_id admission s
      = Inr (av_terminal_leases al, av_output_leases al, s')"
    using W(1) none by (simp add: acquire_task_allocations_def)
  have "fst ` set (av_output_leases al) = dom ?o" by (simp add: dom_map_of_conv_image_fst)
  then have outputs: "fst ` set (av_output_leases al) =
      set (ta_fresh_output_aliases admission) \<union> set (ta_replacement_aliases admission)"
    using W(5) trace(2) by (simp add: walk_follows_def)
  have apart: "held \<inter> set (av_terminal_leases al) = {}" "held \<inter> ran ?o = {}"
    "set (av_terminal_leases al) \<inter> ran ?o = {}" "distinct (av_terminal_leases al)"
    using W(4) unfolding leases_apart_def leases ran by blast+
  have "books s' (held \<union> set (av_terminal_leases al) \<union> ran ?o)"
    using W(3) unfolding leases by (simp add: Un_assoc)
  then show ?thesis
    using result apart outputs keys distinct_values [OF keys inj] W(6) by blast
qed

end
