(* ===== verification/Admission_Books.thy ===== *)
theory Admission_Books
  imports Admission_Walk
begin

text \<open>
  The operations of the builder over whole tasks: each keeps the books, and the leases a task took
  end up retired, owned by an alias, or, for the replacement of an alias without bytes, in use with
  no owner. Completing the pending retirements closes every retirement that was begun.
\<close>

section \<open>Retiring and replacing\<close>

lemma begin_task_retirement_owners:
  assumes "begin_task_retirement l p s = Inr s'"
  shows "same_owners s s'"
proof -
  obtain t d u where t: "task_dependency t s = (d, u)" and r: "retire l d False p u = Inr s'"
    using assms by (auto simp: begin_task_retirement_def refuse_def split: option.splits prod.splits)
  have "same_owners s u"
    using t by (auto simp: task_dependency_def new_dependency_id_def same_owners_def split: option.splits)
  then show ?thesis using retire_Inr(1,6) [OF r] by (simp add: same_owners_def)
qed

lemma retire_all:
  assumes "books s (held \<union> set leases)" "distinct leases" "held \<inter> set leases = {}"
    and "lp_task_id p \<noteq> None"
  shows "\<exists>s'. foldE (\<lambda>s l. begin_task_retirement l p s) s leases = Inr s' \<and> books s' held
    \<and> same_owners s s'"
  using assms(1-3)
proof (induction leases arbitrary: s)
  case Nil
  then show ?case by simp
next
  case (Cons l leases)
  obtain t where t: "begin_task_retirement l p s = Inr t"
    using begin_task_retirement_total [OF assms(4)] by blast
  have "books t (held \<union> set (l # leases) - {l})"
    by (rule books_begin_task_retirement(1) [OF Cons.prems(1) _ t]) simp
  moreover have "held \<union> set (l # leases) - {l} = held \<union> set leases"
    using Cons.prems(2,3) by auto
  ultimately obtain s' where "foldE (\<lambda>s l. begin_task_retirement l p s) t leases = Inr s'"
    "books s' held" "same_owners t s'"
    using Cons.IH [of t] Cons.prems(2,3) by auto
  then show ?case
    using t begin_task_retirement_owners [OF t] same_owners_trans by fastforce
qed

text \<open>The order of the active aliases does not matter.\<close>

lemma books_reorder:
  assumes "books (s\<lparr>bs_active_aliases := xs\<rparr>) held" "map_of ys = map_of xs" "distinct (map fst ys)"
  shows "books (s\<lparr>bs_active_aliases := ys\<rparr>) held"
  using assms by (auto simp: books_def books_with_def ledger_of_def pending_pairs_def)

lemma begin_task_retirement_active:
  assumes "begin_task_retirement l p s = Inr s'"
  shows "begin_task_retirement l p (s\<lparr>bs_active_aliases := xs\<rparr>) = Inr (s'\<lparr>bs_active_aliases := xs\<rparr>)"
  using assms
  by (auto simp: begin_task_retirement_def task_dependency_def new_dependency_id_def retire_def
      append_operation_Inr_iff append_operation_def construct_def pool_operation_post_init_def
      refuse_def split: option.splits)

lemma books_replace:
  assumes "books s held" "active_lease s a = Some old" "new \<in> held"
    and "begin_task_retirement old p s = Inr s'"
  shows "books (set_active a new s') (held - {new})"
proof -
  note P = books_pop_active [OF assms(1,2)]
  let ?xs = "AList.delete a (bs_active_aliases s)"
  have s': "bs_active_aliases s' = bs_active_aliases s"
    using begin_task_retirement_owners [OF assms(4)] by (simp add: same_owners_def)
  have "begin_task_retirement old p (pop_active a s) = Inr (s'\<lparr>bs_active_aliases := ?xs\<rparr>)"
    unfolding pop_active_def by (rule begin_task_retirement_active [OF assms(4)])
  from books_begin_task_retirement(1) [OF P(1) _ this]
  have "books (s'\<lparr>bs_active_aliases := ?xs\<rparr>) held" using P(2) by (simp add: insert_Diff_if)
  from books_set_active [OF this assms(3), of a]
  have B: "books (s'\<lparr>bs_active_aliases := AList.update a new ?xs\<rparr>) (held - {new})"
    by (simp add: set_active_def delete_conv')
  have "distinct (map fst (bs_active_aliases s))"
    using assms(1) by (auto simp: books_def books_with_def)
  then have "books (s'\<lparr>bs_active_aliases := AList.update a new (bs_active_aliases s)\<rparr>) (held - {new})"
    by (intro books_reorder [OF B]) (auto simp: update_conv' delete_conv' distinct_update)
  then show ?thesis using s' by (simp add: set_active_def)
qed


section \<open>Publishing the aliases of a task\<close>

lemma books_handoff:
  assumes "books s held" "publish_handoff cx task_id s handoff = Inr s'"
  shows "books s' held"
proof (cases "s' = s")
  case True
  then show ?thesis using assms(1) by simp
next
  case False
  then obtain l where l: "active_lease s (sh_source_alias_group_id handoff) = Some l"
    "active_lease s (sh_destination_alias_group_id handoff) = None"
    and s': "books s' held = books (set_active (sh_destination_alias_group_id handoff) l
      (pop_active (sh_source_alias_group_id handoff) s)) held"
    using assms(2)
    by (auto simp: publish_handoff_def Let_def bindE_Inr_iff refuse_def
        split: if_splits option.splits)
  note P = books_pop_active [OF assms(1) l(1)]
  show ?thesis
    unfolding s' using books_set_active [OF P(1), of l "sh_destination_alias_group_id handoff"] P(2,3) l(2)
    by (simp add: insert_Diff_if)
qed

lemma books_handoffs:
  "books s held \<Longrightarrow> foldE (publish_handoff cx task_id) s handoffs = Inr s' \<Longrightarrow> books s' held"
  by (erule foldE_simple_invariant [where P = "\<lambda>s. books s held"]) (auto intro: books_handoff)

text \<open>The leases of a task's outputs that no alias owns yet: all but those of the aliases published.\<close>

definition unpublished :: "(string \<times> nat) list \<Rightarrow> string set \<Rightarrow> nat set" where
  "unpublished outputs published = {l. \<exists>a. a \<notin> published \<and> map_of outputs a = Some l}"

lemma unpublished_none: "unpublished outputs {} = ran (map_of outputs)"
  by (auto simp: unpublished_def ran_def)

definition outputs_free :: "nat set \<Rightarrow> (string \<times> nat) list \<Rightarrow> bool" where
  "outputs_free held outputs \<longleftrightarrow> distinct (map fst outputs) \<and> distinct (map snd outputs)
     \<and> held \<inter> ran (map_of outputs) = {}"

lemma values_inject:
  assumes "distinct (map snd xs)" "map_of xs a = Some l" "map_of xs b = Some l"
  shows "a = b"
proof -
  have "(a, l) \<in> set xs" "(b, l) \<in> set xs" using assms(2,3) by (auto dest: map_of_SomeD)
  moreover have "inj_on snd (set xs)" using assms(1) by (simp add: distinct_map)
  ultimately have "(a, l) = (b, l)" by (intro inj_onD [of snd "set xs"]) simp_all
  then show ?thesis by simp
qed

lemma unpublished_insert:
  assumes "distinct (map snd outputs)" "map_of outputs a = Some l"
  shows "unpublished outputs (insert a A) = unpublished outputs A - {l}"
proof (intro set_eqI iffI)
  fix k
  assume "k \<in> unpublished outputs (insert a A)"
  then obtain b where "b \<noteq> a" "b \<notin> A" "map_of outputs b = Some k" by (auto simp: unpublished_def)
  then show "k \<in> unpublished outputs A - {l}"
    using values_inject [OF assms(1,2), of b] by (auto simp: unpublished_def)
next
  fix k
  assume "k \<in> unpublished outputs A - {l}"
  then obtain b where b: "b \<notin> A" "map_of outputs b = Some k" "k \<noteq> l" by (auto simp: unpublished_def)
  then have "b \<noteq> a" using assms(2) by auto
  then show "k \<in> unpublished outputs (insert a A)" using b by (auto simp: unpublished_def)
qed

lemma unpublished_member: "map_of outputs a = Some l \<Longrightarrow> a \<notin> A \<Longrightarrow> l \<in> unpublished outputs A"
  by (auto simp: unpublished_def)

lemma publish_one:
  assumes "outputs_free held outputs" "map_of outputs a = Some l" "a \<notin> A"
  shows "l \<in> held \<union> unpublished outputs A"
    and "held \<union> unpublished outputs A - {l} = held \<union> unpublished outputs (insert a A)"
proof -
  show "l \<in> held \<union> unpublished outputs A" using unpublished_member [OF assms(2,3)] by simp
  have leases: "distinct (map snd outputs)" using assms(1) by (simp add: outputs_free_def)
  have "l \<in> ran (map_of outputs)" using assms(2) by (rule ranI)
  then have "l \<notin> held" using assms(1) by (auto simp: outputs_free_def)
  then show "held \<union> unpublished outputs A - {l} = held \<union> unpublished outputs (insert a A)"
    unfolding unpublished_insert [OF leases assms(2)] by auto
qed

lemma books_replacement:
  assumes "outputs_free held outputs" "books s (held \<union> unpublished outputs A)" "a \<notin> A"
    and "publish_replacement cx task_id outputs s a = Inr s'"
  shows "books s' (held \<union> unpublished outputs (if bc_alias_size cx a = Some 0 then A else insert a A))"
proof -
  from assms(4) obtain bytes where bytes: "bc_alias_size cx a = Some bytes"
    by (auto simp: publish_replacement_def dict_get_Inr_iff)
  show ?thesis
  proof (cases "bytes = 0")
    case True
    then show ?thesis using assms(2,4) bytes by (simp add: publish_replacement_def)
  next
    case False
    then obtain old new t p where t: "active_lease s a = Some old" "map_of outputs a = Some new"
      "begin_task_retirement old p s = Inr t"
      and s': "books s' = books (set_active a new t)"
      using assms(4) bytes
      by (auto simp: publish_replacement_def dict_get_Inr_iff Let_def fun_eq_iff)
    note one = publish_one [OF assms(1) t(2) assms(3)]
    from books_replace [OF assms(2) t(1) one(1) t(3)]
    show ?thesis unfolding s' one(2) using bytes False by simp
  qed
qed

lemma books_replacements:
  assumes "outputs_free held outputs" "books s (held \<union> ran (map_of outputs))" "distinct replaced"
    and "foldE (publish_replacement cx task_id outputs) s replaced = Inr s'"
  shows "books s' (held \<union> unpublished outputs {a \<in> set replaced. bc_alias_size cx a \<noteq> Some 0})"
proof (rule foldE_invariant [OF assms(4),
    where P = "\<lambda>ys s. books s (held \<union> unpublished outputs {a \<in> set ys. bc_alias_size cx a \<noteq> Some 0})"])
  show "books s (held \<union> unpublished outputs {a \<in> set []. bc_alias_size cx a \<noteq> Some 0})"
    using assms(2) by (simp add: unpublished_none)
next
  fix ys a zs t t'
  let ?A = "{a \<in> set ys. bc_alias_size cx a \<noteq> Some 0}"
  assume "books t (held \<union> unpublished outputs ?A)" "replaced = ys @ a # zs"
    "publish_replacement cx task_id outputs t a = Inr t'"
  moreover from this have "a \<notin> ?A" using assms(3) by auto
  moreover have "{b \<in> set (ys @ [a]). bc_alias_size cx b \<noteq> Some 0}
      = (if bc_alias_size cx a = Some 0 then ?A else insert a ?A)" by auto
  ultimately show
    "books t' (held \<union> unpublished outputs {b \<in> set (ys @ [a]). bc_alias_size cx b \<noteq> Some 0})"
    using books_replacement [OF assms(1), of t ?A a cx task_id t'] by simp
qed

lemma books_outputs:
  assumes "outputs_free held outputs" "books s (held \<union> unpublished outputs A)" "A \<subseteq> set replaced"
    and "foldE (publish_output task_id replaced) s outputs = Inr s'"
  shows "books s' (held \<union> unpublished outputs (A \<union> (fst ` set outputs - set replaced)))"
proof -
  have names: "distinct (map fst outputs)" using assms(1) by (simp add: outputs_free_def)
  show ?thesis
  proof (rule foldE_invariant [OF assms(4),
    where P = "\<lambda>ys s. books s (held \<union> unpublished outputs (A \<union> (fst ` set ys - set replaced)))"])
  show "books s (held \<union> unpublished outputs (A \<union> (fst ` set [] - set replaced)))"
    using assms(2) by simp
next
  fix ys x zs t t'
  assume B: "books t (held \<union> unpublished outputs (A \<union> (fst ` set ys - set replaced)))"
    "outputs = ys @ x # zs" "publish_output task_id replaced t x = Inr t'"
  obtain a l where x: "x = (a, l)" by (cases x)
  show "books t' (held \<union> unpublished outputs (A \<union> (fst ` set (ys @ [x]) - set replaced)))"
  proof (cases "a \<in> set replaced")
    case True
    moreover have "fst ` set (ys @ [x]) - set replaced = fst ` set ys - set replaced"
      using True x by auto
    ultimately show ?thesis using B(1,3) x by (simp add: publish_output_def)
  next
    case False
    have at: "map_of outputs a = Some l"
      using B(2) x by (intro map_of_is_SomeI [OF names]) simp
    have new: "a \<notin> A \<union> (fst ` set ys - set replaced)"
      using False assms(3) names B(2) x by auto
    have none: "active_lease t a = None" and t': "t' = set_active a l t"
      using B(3) x False by (auto simp: publish_output_def refuse_def split: if_splits)
    have "A \<union> (fst ` set (ys @ [x]) - set replaced)
        = insert a (A \<union> (fst ` set ys - set replaced))" using False x by auto
    then show ?thesis
      using books_set_active [OF B(1) publish_one(1) [OF assms(1) at new] none]
      unfolding t' publish_one(2) [OF assms(1) at new] by simp
  qed
qed
qed



section \<open>Actions\<close>

lemma remove_active_Inr:
  "remove_active_alias task_id action s = Inr (l, s') \<longleftrightarrow>
    active_lease s (ma_alias_group_id action) = Some l \<and> s' = pop_active (ma_alias_group_id action) s"
  by (auto simp: remove_active_alias_def refuse_def split: option.splits)

lemma books_action:
  assumes "books s held" "replay_action cx task_id s (i, action) = Inr s'"
  shows "books s' held"
proof (cases "ma_kind action = RELEASE \<or> ma_kind action = EVICT")
  case True
  show ?thesis
  proof (cases "s' = s")
    case True
    then show ?thesis using assms(1) by simp
  next
    case False
    obtain e v where fresh: "new_dependency_id (pop_active (ma_alias_group_id action) s) = (e, v)"
      by (cases "new_dependency_id (pop_active (ma_alias_group_id action) s)")
    then obtain l t p where t: "active_lease s (ma_alias_group_id action) = Some l"
      "t = pop_active (ma_alias_group_id action) s"
      and how: "begin_task_retirement l p t = Inr s'
        \<or> (\<exists>d u. new_dependency_id t = (d, u) \<and> retire l d True p u = Inr s')"
      using assms(2) True False
      by (auto simp: replay_action_def Let_def bindE_Inr_iff remove_active_Inr split: if_splits)
    note P = books_pop_active(1,2) [OF assms(1) t(1), folded t(2)]
    have "books s' (insert l held - {l})"
      using how
    proof
      assume "begin_task_retirement l p t = Inr s'"
      then show ?thesis by (rule books_begin_task_retirement(1) [OF P(1) insertI1])
    next
      assume "\<exists>d u. new_dependency_id t = (d, u) \<and> retire l d True p u = Inr s'"
      then obtain d u where d: "new_dependency_id t = (d, u)" "retire l d True p u = Inr s'" by blast
      note D = books_new_dependency [OF P(1) d(1)]
      show ?thesis by (rule books_retire [OF D(1) _ D(2) d(2)]) simp
    qed
    then show ?thesis using P(2) by simp
  qed
next
  case False
  then have none: "active_lease s (ma_alias_group_id action) = None"
    using assms(2) by (auto simp: replay_action_def Let_def refuse_def split: if_splits)
  obtain bytes where bytes: "bc_alias_size cx (ma_alias_group_id action) = Some bytes"
    using assms(2) False none
    by (auto simp: replay_action_def Let_def dict_get_Inr_iff split: if_splits)
  show ?thesis
  proof (cases "bytes = 0")
    case True
    then show ?thesis using assms False none bytes
      by (auto simp: replay_action_def Let_def split: if_splits)
  next
    case bytes0: False
    obtain l t p where t: "acquire (bc_alignment cx) bytes p s = Inr (l, t)"
      and s': "books s' = books (set_active (ma_alias_group_id action) l t)"
      using assms(2) False none bytes bytes0
      by (auto simp: replay_action_def Let_def fun_eq_iff split: if_splits)
    note A = books_acquire [OF assms(1) t bytes0]
    have "active_lease t (ma_alias_group_id action) = None"
      using none acquire_Inr(3) [OF t] by simp
    from books_set_active [OF A(1) insertI1 this] show ?thesis
      unfolding s' using A(2) by (simp add: insert_Diff_if)
  qed
qed

lemma books_actions:
  "books s held \<Longrightarrow> replay_actions cx task_id s = Inr s' \<Longrightarrow> books s' held"
  unfolding replay_actions_def
  by (erule foldE_simple_invariant [where P = "\<lambda>s. books s held"]) (auto intro: books_action)


section \<open>A task\<close>

text \<open>The leases of the replacements of aliases without bytes, which no alias comes to own.\<close>

definition unowned_free :: "builder_context \<Rightarrow> task_admission_spec \<Rightarrow> bool" where
  "unowned_free cx admission \<longleftrightarrow>
     (\<forall>a \<in> set (ta_replacement_aliases admission). bc_alias_size cx a \<noteq> Some 0)"

lemma valid_admission_distinct:
  "valid_admission admission \<Longrightarrow> distinct (ta_replacement_aliases admission)"
  by (auto simp: valid_admission_def task_admission_spec_post_init_def Let_def bindE_Inr_iff
      split: if_splits)

lemma books_task:
  assumes "books s held" "0 \<le> bc_alignment cx"
    and "\<forall>t admission. bc_admission_by_task cx t = Some admission \<longrightarrow> valid_admission admission"
    and "replay_task cx s task = Inr s'"
    and adm: "bc_admission_by_task cx (tk_task_id task) = Some admission"
  shows "\<exists>held'. held \<subseteq> held' \<and> books s' held' \<and> (unowned_free cx admission \<longrightarrow> held' = held)"
proof -
  let ?t = "tk_task_id task"
  note valid = assms(3) [rule_format, OF adm]
  let ?s = "s\<lparr>bs_workspace_bytes_by_task :=
    bs_workspace_bytes_by_task s @ [(?t, workspace_bytes admission)]\<rparr>"
  have "books ?s held" using assms(1) by simp
  from task_allocations [OF valid this assms(2), of ?t] obtain terminal outputs u where T:
    "acquire_task_allocations cx ?t admission ?s = Inr (terminal, outputs, u)"
    "books u (held \<union> set terminal \<union> ran (map_of outputs))" "distinct terminal"
    "distinct (map fst outputs)" "distinct (map snd outputs)" "held \<inter> set terminal = {}"
    "held \<inter> ran (map_of outputs) = {}" "set terminal \<inter> ran (map_of outputs) = {}"
    "fst ` set outputs = set (ta_fresh_output_aliases admission) \<union> set (ta_replacement_aliases admission)"
    by blast
  have "books u (held \<union> ran (map_of outputs) \<union> set terminal)" using T(2) by (simp add: Un_ac)
  from retire_all [OF this T(3), of "workspace_provenance ?t"] T(6,8) obtain v where V:
    "foldE (\<lambda>s l. begin_task_retirement l (workspace_provenance ?t) s) u terminal = Inr v"
    "books v (held \<union> ran (map_of outputs))"
    by (auto simp: workspace_provenance_def)
  obtain w x y where W: "foldE (publish_handoff cx ?t) v (ta_storage_handoffs admission) = Inr w"
    "foldE (publish_replacement cx ?t outputs) w (ta_replacement_aliases admission) = Inr x"
    "foldE (publish_output ?t (ta_replacement_aliases admission)) x outputs = Inr y"
    "replay_actions cx ?t y = Inr s'"
    using assms(4) adm T(1) V(1)
    by (auto simp: replay_task_def Let_def workspace_provenance_def dict_get_def)
  have free: "outputs_free held outputs" using T(4,5,7) by (simp add: outputs_free_def)
  let ?A = "{a \<in> set (ta_replacement_aliases admission). bc_alias_size cx a \<noteq> Some 0}"
  have "books x (held \<union> unpublished outputs ?A)"
    using books_replacements [OF free books_handoffs [OF V(2) W(1)]
      valid_admission_distinct [OF valid] W(2)] .
  from books_outputs [OF free this _ W(3)]
  have "books y (held \<union> unpublished outputs
      (?A \<union> (fst ` set outputs - set (ta_replacement_aliases admission))))" by auto
  from books_actions [OF this W(4)]
  have final: "books s' (held \<union> unpublished outputs
      (?A \<union> (fst ` set outputs - set (ta_replacement_aliases admission))))" .
  have "unpublished outputs (?A \<union> (fst ` set outputs - set (ta_replacement_aliases admission))) = {}"
    if "unowned_free cx admission"
  proof -
    have "a \<in> fst ` set outputs" if "map_of outputs a = Some l" for a l
      using map_of_SomeD [OF that] by force
    then show ?thesis
      using \<open>unowned_free cx admission\<close> by (auto simp: unowned_free_def unpublished_def)
  qed
  then show ?thesis using final adm by (intro exI conjI) auto
qed


section \<open>The whole replay\<close>

lemma books_initial_object:
  assumes "books s held" "acquire_initial_object cx s residency = Inr s'"
    and "active_lease s (rd_alias_group_id residency) = None"
  shows "books s' held"
    and "active_lease s' a \<noteq> None \<Longrightarrow> a = rd_alias_group_id residency \<or> active_lease s a \<noteq> None"
proof -
  have "books s' held \<and> (active_lease s' a \<noteq> None
    \<longrightarrow> a = rd_alias_group_id residency \<or> active_lease s a \<noteq> None)"
  proof (cases "s' = s")
    case True
    then show ?thesis using assms(1) by simp
  next
    case False
    then obtain bytes p l t where t: "acquire (bc_alignment cx) bytes p s = Inr (l, t)" "bytes \<noteq> 0"
      and s': "books s' = books (set_active (rd_alias_group_id residency) l t)"
        "active_lease s' = active_lease (set_active (rd_alias_group_id residency) l t)"
      using assms(2)
      by (auto simp: acquire_initial_object_def Let_def fun_eq_iff split: if_splits)
    note A = books_acquire [OF assms(1) t]
    have none: "active_lease t (rd_alias_group_id residency) = None"
      using assms(3) acquire_Inr(3) [OF t(1)] by simp
    from books_set_active [OF A(1) insertI1 none] have "books s' held"
      unfolding s' using A(2) by (simp add: insert_Diff_if)
    then show ?thesis
      unfolding s'(2) using acquire_Inr(3) [OF t(1)] by (auto simp: set_active_def update_conv')
  qed
  then show "books s' held"
    "active_lease s' a \<noteq> None \<Longrightarrow> a = rd_alias_group_id residency \<or> active_lease s a \<noteq> None"
    by auto
qed

lemma books_initial_objects:
  assumes "distinct (map rd_alias_group_id (ms_initial_residency (bc_schedule cx)))"
    and "acquire_initial_objects cx new_builder = Inr s"
  shows "books s {}"
proof -
  let ?xs = "ms_initial_residency (bc_schedule cx)"
  have "books s {} \<and> (\<forall>a. active_lease s a \<noteq> None \<longrightarrow> a \<in> set (map rd_alias_group_id ?xs))"
  proof (rule foldE_invariant [OF assms(2) [unfolded acquire_initial_objects_def],
      where P = "\<lambda>ys s. books s {} \<and> (\<forall>a. active_lease s a \<noteq> None \<longrightarrow> a \<in> set (map rd_alias_group_id ys))"])
    show "books new_builder {} \<and> (\<forall>a. active_lease new_builder a \<noteq> None
        \<longrightarrow> a \<in> set (map rd_alias_group_id []))"
      by (simp add: books_new) (simp add: new_builder_def)
  next
    fix ys x zs t t'
    assume B: "books t {} \<and> (\<forall>a. active_lease t a \<noteq> None \<longrightarrow> a \<in> set (map rd_alias_group_id ys))"
      "?xs = ys @ x # zs" "acquire_initial_object cx t x = Inr t'"
    have "rd_alias_group_id x \<notin> set (map rd_alias_group_id ys)" using assms(1) B(2) by auto
    then have "active_lease t (rd_alias_group_id x) = None" using B(1) by blast
    from books_initial_object [OF _ B(3) this, of "{}"]
    show "books t' {} \<and> (\<forall>a. active_lease t' a \<noteq> None
        \<longrightarrow> a \<in> set (map rd_alias_group_id (ys @ [x])))" using B(1) by auto
  qed
  then show ?thesis by simp
qed

lemma books_tasks:
  assumes "books s held" "0 \<le> bc_alignment cx"
    and "\<forall>t admission. bc_admission_by_task cx t = Some admission \<longrightarrow> valid_admission admission"
    and "foldE (replay_task cx) s tasks = Inr s'"
  shows "\<exists>held'. held \<subseteq> held' \<and> books s' held'
    \<and> ((\<forall>task \<in> set tasks. \<forall>admission. bc_admission_by_task cx (tk_task_id task) = Some admission
          \<longrightarrow> unowned_free cx admission) \<longrightarrow> held' = held)"
proof -
  let ?ok = "\<forall>task \<in> set tasks. \<forall>admission. bc_admission_by_task cx (tk_task_id task) = Some admission
    \<longrightarrow> unowned_free cx admission"
  show ?thesis
  proof (rule foldE_simple_invariant [OF assms(4),
      where P = "\<lambda>s. \<exists>held'. held \<subseteq> held' \<and> books s held' \<and> (?ok \<longrightarrow> held' = held)"])
    show "\<exists>held'. held \<subseteq> held' \<and> books s held' \<and> (?ok \<longrightarrow> held' = held)" using assms(1) by blast
  next
    fix task t t'
    assume B: "\<exists>held'. held \<subseteq> held' \<and> books t held' \<and> (?ok \<longrightarrow> held' = held)"
      "task \<in> set tasks" "replay_task cx t task = Inr t'"
    then obtain h where h: "held \<subseteq> h" "books t h" "?ok \<longrightarrow> h = held" by blast
    obtain admission where adm: "bc_admission_by_task cx (tk_task_id task) = Some admission"
      using B(3) by (auto simp: replay_task_def dict_get_Inr_iff Let_def)
    from books_task [OF h(2) assms(2,3) B(3) adm] obtain h' where
      "h \<subseteq> h'" "books t' h'" "unowned_free cx admission \<longrightarrow> h' = h" by blast
    moreover have "unowned_free cx admission" if ?ok using that B(2) adm by blast
    ultimately show "\<exists>held'. held \<subseteq> held' \<and> books t' held' \<and> (?ok \<longrightarrow> held' = held)"
      using h by (intro exI [of _ h']) auto
  qed
qed

text \<open>The pending retirements are completed one by one.\<close>

lemma complete_all:
  assumes "foldE complete_retirement s ps = Inr s'"
    and "ledger_of s = Some L" "numbered (bs_operations s)" "bounded n (bs_operations s)"
    and "distinct (map pr_lease_id ps)"
    and "\<forall>p \<in> set ps. L (pr_lease_id p) = Some (Retiring (pr_dependency_id p)) \<and> pr_dependency_id p < n"
  shows "ledger_of s' = Some (\<lambda>l. if l \<in> pr_lease_id ` set ps then Some Retired else L l)
    \<and> numbered (bs_operations s') \<and> bounded n (bs_operations s')
    \<and> bs_active_aliases s' = bs_active_aliases s \<and> bs_next_lease_id s' = bs_next_lease_id s
    \<and> bs_next_dependency_id s' = bs_next_dependency_id s
    \<and> bs_pending_retirements s' = bs_pending_retirements s
    \<and> bs_lease_provenance s' = bs_lease_provenance s"
  using assms
proof (induction ps arbitrary: s L)
  case Nil
  then show ?case by simp
next
  case (Cons p ps)
  obtain t where t: "complete_retirement s p = Inr t" "foldE complete_retirement t ps = Inr s'"
    using Cons.prems(1) by auto
  have L: "ledger_of t = Some (L(pr_lease_id p \<mapsto> Retired))"
    using t(1) Cons.prems(2,6)
    by (simp add: complete_retirement_def append_operation_Inr_iff ledger_of_def ledger_run_append
        lease_move_def)
  have ops: "numbered (bs_operations t)" "bounded n (bs_operations t)"
    "bs_active_aliases t = bs_active_aliases s" "bs_next_lease_id t = bs_next_lease_id s"
    "bs_next_dependency_id t = bs_next_dependency_id s"
    "bs_pending_retirements t = bs_pending_retirements s"
    "bs_lease_provenance t = bs_lease_provenance s"
    using t(1) Cons.prems(3,4,6) by (simp_all add: complete_retirement_def append_operation_Inr_iff)
  have rest: "\<forall>q \<in> set ps. (L(pr_lease_id p \<mapsto> Retired)) (pr_lease_id q)
      = Some (Retiring (pr_dependency_id q)) \<and> pr_dependency_id q < n"
    using Cons.prems(5,6) by (auto simp: image_iff)
  have "(\<lambda>l. if l \<in> pr_lease_id ` set ps then Some Retired else (L(pr_lease_id p \<mapsto> Retired)) l)
      = (\<lambda>l. if l \<in> pr_lease_id ` set (p # ps) then Some Retired else L l)"
    by (rule ext) simp
  then show ?case
    using Cons.IH [OF t(2) L ops(1,2) _ rest] Cons.prems(5) ops(3-7) by simp
qed

text \<open>The ledger of a finished script.\<close>

definition closed_books :: "builder \<Rightarrow> nat set \<Rightarrow> ledger \<Rightarrow> bool" where
  "closed_books s held L \<longleftrightarrow>
     ledger_of s = Some L \<and> numbered (bs_operations s)
     \<and> bounded (bs_next_dependency_id s) (bs_operations s)
     \<and> dom L = {..<bs_next_lease_id s} \<and> ran L \<subseteq> {In_Use, Retired}
     \<and> distinct (map fst (bs_active_aliases s))
     \<and> inj_on (active_lease s) (dom (active_lease s))
     \<and> in_use L = ran (active_lease s) \<union> held
     \<and> {l. L l = Some Retired} = pr_lease_id ` set (bs_pending_retirements s)
     \<and> distinct (map pr_lease_id (bs_pending_retirements s))
     \<and> dom (bs_lease_provenance s) = {..<bs_next_lease_id s}"

lemma books_complete:
  assumes "books s held" "complete_pending_retirements s = Inr s'"
  shows "\<exists>L. closed_books s' held L"
proof -
  let ?ps = "bs_pending_retirements s"
  obtain L where L: "books_with s held L" using assms(1) by (auto simp: books_def)
  have pending: "\<forall>p \<in> set ?ps. L (pr_lease_id p) = Some (Retiring (pr_dependency_id p))"
    using L by (auto simp: books_with_def pending_pairs_def)
  have bound: "\<forall>p \<in> set ?ps. pr_dependency_id p < bs_next_dependency_id s"
  proof
    fix p
    assume "p \<in> set ?ps"
    then have "pr_dependency_id p \<in> snd ` set (pending_pairs s)"
      by (force simp: pending_pairs_def)
    then show "pr_dependency_id p < bs_next_dependency_id s" using L by (auto simp: books_with_def)
  qed
  have names: "distinct (map pr_lease_id ?ps)"
    using L by (simp add: books_with_def pending_pairs_def comp_def)
  let ?L = "\<lambda>l. if l \<in> pr_lease_id ` set ?ps then Some Retired else L l"
  have C: "ledger_of s' = Some ?L \<and> numbered (bs_operations s')
    \<and> bounded (bs_next_dependency_id s) (bs_operations s')
    \<and> bs_active_aliases s' = bs_active_aliases s \<and> bs_next_lease_id s' = bs_next_lease_id s
    \<and> bs_next_dependency_id s' = bs_next_dependency_id s
    \<and> bs_pending_retirements s' = bs_pending_retirements s
    \<and> bs_lease_provenance s' = bs_lease_provenance s"
    by (rule complete_all [OF assms(2) [unfolded complete_pending_retirements_def]])
      (use L pending bound names in \<open>auto simp: books_with_def\<close>)
  have retiring: "L l = Some (Retiring d) \<Longrightarrow> l \<in> pr_lease_id ` set ?ps" for l d
    using L by (force simp: books_with_def pending_pairs_def)
  have settled: "L l \<noteq> Some Reserved \<and> L l \<noteq> Some Retired" for l
    using L unfolding books_with_def by (metis rangeI)
  have phases: "\<exists>p. ?L l = Some p \<Longrightarrow> ?L l = Some In_Use \<or> ?L l = Some Retired" for l
  proof (cases "L l")
    case None
    then show "\<exists>p. ?L l = Some p \<Longrightarrow> ?L l = Some In_Use \<or> ?L l = Some Retired"
      by (auto split: if_splits)
  next
    case (Some a)
    then show ?thesis
      using retiring [of l] settled [of l] by (cases a) auto
  qed
  have use: "in_use ?L = in_use L" using pending by (auto simp: in_use_def)
  have dom: "dom ?L = dom L" using pending by (auto simp: dom_def)
  have closed: "{l. ?L l = Some Retired} = pr_lease_id ` set ?ps"
    using settled by auto
  have "ran ?L \<subseteq> {In_Use, Retired}" using phases by (fastforce simp: ran_def)
  then have "closed_books s' held ?L"
    unfolding closed_books_def use dom closed using C L names
    by (intro conjI) (simp_all add: books_with_def)
  then show ?thesis by blast
qed

lemma books_build:
  assumes "build cx = Inr s" "0 \<le> bc_alignment cx"
    and "\<forall>t admission. bc_admission_by_task cx t = Some admission \<longrightarrow> valid_admission admission"
    and "distinct (map rd_alias_group_id (ms_initial_residency (bc_schedule cx)))"
  shows "\<exists>held L. closed_books s held L
    \<and> ((\<forall>task \<in> set (bc_tasks cx). \<forall>admission. bc_admission_by_task cx (tk_task_id task) = Some admission
          \<longrightarrow> unowned_free cx admission) \<longrightarrow> held = {})"
proof -
  obtain t u where t: "acquire_initial_objects cx new_builder = Inr t"
    "foldE (replay_task cx) t (bc_tasks cx) = Inr u" "complete_pending_retirements u = Inr s"
    using assms(1) by (auto simp: build_def)
  from books_tasks [OF books_initial_objects [OF assms(4) t(1)] assms(2,3) t(2)] obtain held where
    "books u held" "(\<forall>task \<in> set (bc_tasks cx). \<forall>admission.
      bc_admission_by_task cx (tk_task_id task) = Some admission \<longrightarrow> unowned_free cx admission)
      \<longrightarrow> held = {}" by blast
  then show ?thesis using books_complete [OF _ t(3)] by blast
qed

end
