(* ===== verification/Admission_Follows.thy ===== *)
theory Admission_Follows
  imports Admission_Books
begin

text \<open>
  The replay follows the validation of a schedule: with facts that own what the tasks write, the
  aliases that own a lease are at every task the resident aliases of the validating walk that the
  plan owns, and no step of the replay is refused.
\<close>

section \<open>Facts that agree with a program\<close>

definition known_aliases :: "alias_facts \<Rightarrow> string set" where
  "known_aliases facts = dom (alias_by_id facts)"

text \<open>What the context and the facts of the validating walk have in common.\<close>

definition linked :: "builder_context \<Rightarrow> alias_facts \<Rightarrow> bool" where
  "linked cx facts \<longleftrightarrow>
     bc_alias_by_object cx = af_object_alias facts
     \<and> bc_shared_aliases cx = af_shared_aliases facts
     \<and> (\<forall>a \<in> known_aliases facts. \<exists>b \<ge> 0. bc_alias_size cx a = Some b
          \<and> (b = 0 \<longleftrightarrow> a \<in> af_zero_size_aliases facts))
     \<and> ran (af_object_alias facts) \<subseteq> known_aliases facts
     \<and> 0 \<le> bc_alignment cx"

lemma linked_size:
  assumes "linked cx facts" "a \<in> known_aliases facts"
  obtains b where "0 \<le> b" "bc_alias_size cx a = Some b" "b = 0 \<longleftrightarrow> a \<in> af_zero_size_aliases facts"
  using assms unfolding linked_def by blast

definition object_aliases :: "alias_facts \<Rightarrow> string list \<Rightarrow> string set" where
  "object_aliases facts objects =
     {a. \<exists>x \<in> set objects. af_object_alias facts x = Some a} - af_zero_size_aliases facts"

lemma object_aliases_known:
  "linked cx facts \<Longrightarrow> a \<in> object_aliases facts objects \<Longrightarrow> a \<in> known_aliases facts"
  unfolding linked_def object_aliases_def by (auto intro: ranI)

text \<open>
  The handoffs that move bytes, and the agreement itself: a task's outputs are its fresh ones and
  the destinations it is handed; what it replaces is mutated, what it hands over is an input the
  schedule releases right then, and nothing else.
\<close>

definition moves :: "alias_facts \<Rightarrow> task_admission_spec \<Rightarrow> storage_handoff list" where
  "moves facts admission =
     filter (\<lambda>h. sh_destination_alias_group_id h \<notin> af_zero_size_aliases facts)
       (ta_storage_handoffs admission)"

definition moved :: "alias_facts \<Rightarrow> task_admission_spec \<Rightarrow> string set" where
  "moved facts admission = sh_source_alias_group_id ` set (moves facts admission)"

definition released_only :: "(nat \<times> memory_action) list \<Rightarrow> string \<Rightarrow> bool" where
  "released_only actions a \<longleftrightarrow>
     map (\<lambda>(i, x). ma_kind x) (filter (\<lambda>(i, x). ma_alias_group_id x = a) actions) = [RELEASE]"

definition ownership_agrees ::
    "alias_facts \<Rightarrow> (nat \<times> memory_action) list \<Rightarrow> task_spec \<Rightarrow> task_admission_spec \<Rightarrow> bool" where
  "ownership_agrees facts actions task admission \<longleftrightarrow>
     set (ta_fresh_output_aliases admission)
         \<union> sh_destination_alias_group_id ` set (moves facts admission)
       = object_aliases facts (tk_outputs task)
     \<and> set (ta_replacement_aliases admission)
         \<subseteq> object_aliases facts (map mu_object_id (tk_mutations task)) - af_shared_aliases facts
     \<and> moved facts admission
         \<subseteq> object_aliases facts (tk_inputs task) - af_shared_aliases facts
             - set (ta_replacement_aliases admission)
     \<and> (\<forall>a \<in> moved facts admission. released_only actions a)"

text \<open>An alias is written first by one task, before which no copy of it exists.\<close>

definition written_once :: "alias_facts \<Rightarrow> memory_schedule \<Rightarrow> task_spec list \<Rightarrow> bool" where
  "written_once facts schedule tasks \<longleftrightarrow>
     (\<forall>before task after. tasks = before @ task # after \<longrightarrow>
        object_aliases facts (tk_outputs task) \<inter>
          (af_shared_aliases facts \<union> retained_aliases facts
           \<union> rd_alias_group_id ` set (ms_initial_residency schedule)
           \<union> (\<Union>u \<in> set before. object_aliases facts (tk_outputs u))) = {})"

definition facts_own_writes ::
    "alias_facts \<Rightarrow> memory_schedule \<Rightarrow> task_spec list \<Rightarrow> admission_facts \<Rightarrow> bool" where
  "facts_own_writes alias_facts schedule tasks facts \<longleftrightarrow>
     written_once alias_facts schedule tasks
     \<and> (\<forall>task \<in> set tasks. \<forall>admission \<in> set (fx_tasks facts).
          ta_task_id admission = tk_task_id task \<longrightarrow>
          ownership_agrees alias_facts (task_actions (index_actions schedule) (tk_task_id task))
            task admission)"


section \<open>The relation\<close>

abbreviation owners :: "builder \<Rightarrow> string set" where
  "owners s \<equiv> dom (active_lease s)"

definition tracks :: "alias_facts \<Rightarrow> builder \<Rightarrow> residency \<Rightarrow> string set \<Rightarrow> bool" where
  "tracks facts s r given \<longleftrightarrow> owners s = rv_device r - af_shared_aliases facts - given"

lemma owners_set_active [simp]: "owners (set_active a l s) = insert a (owners s)"
  by (simp add: set_active_def update_conv')

lemma owners_pop_active [simp]: "owners (pop_active a s) = owners s - {a}"
  by (simp add: pop_active_def delete_conv')

lemma owners_acquire: "acquire al b p s = Inr (l, t) \<Longrightarrow> owners t = owners s"
  by (simp add: acquire_Inr(3))

lemma releases_set_pop [simp]:
  "bs_handoff_releases (set_active a l s) = bs_handoff_releases s"
  "bs_handoff_releases (pop_active a s) = bs_handoff_releases s"
  by (simp_all add: set_active_def pop_active_def)


section \<open>The parts of a task\<close>

lemma missing_inputs_none:
  assumes "\<forall>a \<in> set required. \<exists>b. bc_alias_size cx a = Some b
    \<and> (b \<noteq> 0 \<longrightarrow> a \<notin> bc_shared_aliases cx \<longrightarrow> a \<in> owners s)"
  shows "missing_inputs cx s required = Inr []"
  using assms unfolding missing_inputs_def by (induction required) fastforce+

lemma inputs_present:
  assumes "linked cx facts" "tracks facts s r {}" "require_inputs_resident task facts r = Inr ()"
    and "mu_object_id ` set (tk_mutations task) \<subseteq> set (tk_inputs task)"
  shows "validate_task_inputs cx s task = Inr ()"
proof -
  let ?xs = "tk_inputs task @ map mu_object_id (tk_mutations task)"
  have each: "\<exists>a. af_object_alias facts x = Some a
      \<and> (a \<in> af_zero_size_aliases facts \<or> a \<in> rv_device r)" if "x \<in> set (tk_inputs task)" for x
    using assms(3) that
    by (fastforce simp: require_inputs_resident_def checkE_Inr_iff dict_get_Inr_iff bindE_Inr_iff
        split: if_splits)
  have members: "set ?xs \<subseteq> set (tk_inputs task)" using assms(4) by auto
  let ?m = "bc_alias_by_object cx"
  have link: "?m = af_object_alias facts" using assms(1) by (simp add: linked_def)
  have "mapE (dict_get ?m) ?xs = Inr (map (\<lambda>x. the (?m x)) ?xs)"
    by (rule mapE_Inr_all) (use members each link in \<open>fastforce simp: dict_get_def\<close>)
  moreover have "missing_inputs cx s (fromkeys (map (\<lambda>x. the (?m x)) ?xs)) = Inr []"
  proof (rule missing_inputs_none, rule ballI)
    fix a
    assume "a \<in> set (fromkeys (map (\<lambda>x. the (?m x)) ?xs))"
    then obtain x where x: "x \<in> set ?xs" "a = the (?m x)" by auto
    then have at: "af_object_alias facts x = Some a"
      and here: "a \<in> af_zero_size_aliases facts \<or> a \<in> rv_device r"
    proof -
      have "x \<in> set (tk_inputs task)" using x(1) members by blast
      from each [OF this] show "af_object_alias facts x = Some a"
        "a \<in> af_zero_size_aliases facts \<or> a \<in> rv_device r" using x(2) link by auto
    qed
    then have "a \<in> known_aliases facts" using assms(1) ranI [of "af_object_alias facts" x a]
      by (auto simp: linked_def)
    then obtain b where "bc_alias_size cx a = Some b" "b = 0 \<longleftrightarrow> a \<in> af_zero_size_aliases facts"
      using linked_size [OF assms(1)] by metis
    then show "\<exists>b. bc_alias_size cx a = Some b
        \<and> (b \<noteq> 0 \<longrightarrow> a \<notin> bc_shared_aliases cx \<longrightarrow> a \<in> owners s)"
      using here assms(1,2) by (auto simp: tracks_def linked_def)
  qed
  ultimately show ?thesis by (simp add: validate_task_inputs_def)
qed

lemma outputs_resident:
  assumes "foldE (record_output facts) r objects = Inr r'"
  shows "rv_device r' = rv_device r \<union> object_aliases facts objects \<and> rv_spill r' = rv_spill r"
  using assms
proof (induction objects arbitrary: r)
  case Nil
  then show ?case by (simp add: object_aliases_def)
next
  case (Cons x objects)
  then obtain t where t: "record_output facts r x = Inr t" "foldE (record_output facts) t objects = Inr r'"
    by auto
  from t(1) obtain a where a: "af_object_alias facts x = Some a"
    "rv_device t = rv_device r \<union> ({a} - af_zero_size_aliases facts)" "rv_spill t = rv_spill r"
    by (auto simp: record_output_def dict_get_Inr_iff insert_Diff_if split: if_splits)
  then show ?case using Cons.IH [OF t(2)] by (auto simp: object_aliases_def)
qed

lemma mutations_resident:
  assumes "foldE (record_mutation facts) r mutations = Inr r'"
  shows "rv_device r' = rv_device r \<and> rv_spill r' = rv_spill r"
  using assms
  by (induction mutations arbitrary: r)
    (fastforce simp: record_mutation_def dict_get_Inr_iff split: if_splits)+

lemma writes_resident:
  assumes "record_task_writes task facts r = Inr r'"
  shows "rv_device r' = rv_device r \<union> object_aliases facts (tk_outputs task)"
    and "rv_spill r' = rv_spill r"
  using assms outputs_resident mutations_resident unfolding record_task_writes_def
  by (fastforce simp: bindE_Inr_iff)+

lemma handoffs_return:
  assumes "\<forall>h \<in> set hs. \<exists>b. bc_alias_size cx (sh_destination_alias_group_id h) = Some b
      \<and> (b = 0 \<longleftrightarrow> sh_destination_alias_group_id h \<in> zero)"
    and "ms = filter (\<lambda>h. sh_destination_alias_group_id h \<notin> zero) hs"
    and "distinct (map sh_source_alias_group_id ms)" "distinct (map sh_destination_alias_group_id ms)"
    and "sh_source_alias_group_id ` set ms \<subseteq> owners s"
    and "sh_destination_alias_group_id ` set ms \<inter> owners s = {}"
  shows "\<exists>s'. foldE (publish_handoff cx task_id) s hs = Inr s'
    \<and> owners s' = owners s - sh_source_alias_group_id ` set ms \<union> sh_destination_alias_group_id ` set ms
    \<and> bs_handoff_releases s' = bs_handoff_releases s \<union> {task_id} \<times> sh_source_alias_group_id ` set ms"
  using assms
proof (induction hs arbitrary: s ms)
  case Nil
  then show ?case by simp
next
  case (Cons h hs)
  let ?a = "sh_source_alias_group_id h" and ?b = "sh_destination_alias_group_id h"
  let ?ms = "filter (\<lambda>h. sh_destination_alias_group_id h \<notin> zero) hs"
  obtain b where b: "bc_alias_size cx ?b = Some b" "b = 0 \<longleftrightarrow> ?b \<in> zero" using Cons.prems(1) by auto
  show ?case
  proof (cases "?b \<in> zero")
    case True
    then have "publish_handoff cx task_id s h = Inr s" using b by (simp add: publish_handoff_def)
    moreover have "ms = ?ms" using True Cons.prems(2) by simp
    ultimately show ?thesis using Cons.IH [of ms s] Cons.prems by simp
  next
    case False
    then have ms: "ms = h # ?ms" using Cons.prems(2) by simp
    then obtain l where l: "active_lease s ?a = Some l" "active_lease s ?b = None"
      using Cons.prems(5,6) by auto
    obtain t where t: "publish_handoff cx task_id s h = Inr t"
      "owners t = insert ?b (owners s - {?a})"
      "bs_handoff_releases t = insert (task_id, ?a) (bs_handoff_releases s)"
      using b False l by (simp add: publish_handoff_def Let_def)
    have "\<exists>s'. foldE (publish_handoff cx task_id) t hs = Inr s'
      \<and> owners s' = owners t - sh_source_alias_group_id ` set ?ms \<union> sh_destination_alias_group_id ` set ?ms
      \<and> bs_handoff_releases s' = bs_handoff_releases t \<union> {task_id} \<times> sh_source_alias_group_id ` set ?ms"
      by (rule Cons.IH) (use Cons.prems t(2) ms in \<open>auto simp: image_iff\<close>)
    then obtain s' where s': "foldE (publish_handoff cx task_id) t hs = Inr s'"
      "owners s' = owners t - sh_source_alias_group_id ` set ?ms \<union> sh_destination_alias_group_id ` set ?ms"
      "bs_handoff_releases s' = bs_handoff_releases t \<union> {task_id} \<times> sh_source_alias_group_id ` set ?ms"
      by blast
    have "?b \<notin> sh_source_alias_group_id ` set ?ms" using Cons.prems(5,6) l(2) ms by auto
    then show ?thesis using s' t ms by auto
  qed
qed

lemma replacements_return:
  assumes "\<forall>a \<in> set as. (\<exists>b. bc_alias_size cx a = Some b \<and> b \<noteq> 0) \<and> a \<in> owners s
    \<and> a \<in> dom (map_of outputs)"
  shows "\<exists>s'. foldE (publish_replacement cx task_id outputs) s as = Inr s' \<and> owners s' = owners s
    \<and> bs_handoff_releases s' = bs_handoff_releases s"
  using assms
proof (induction as arbitrary: s)
  case Nil
  then show ?case by simp
next
  case (Cons a as)
  obtain b old new where b: "bc_alias_size cx a = Some b" "b \<noteq> 0" "active_lease s a = Some old"
    "map_of outputs a = Some new" using Cons.prems by auto
  let ?p = "\<lparr>lp_purpose = MUTATION_REPLACEMENT, lp_task_id = Some task_id,
    lp_alias_group_id = Some a, lp_action_index = None\<rparr>"
  obtain t where t: "begin_task_retirement old ?p s = Inr t"
    using begin_task_retirement_total [of ?p] by auto
  have same: "owners t = owners s" "bs_handoff_releases t = bs_handoff_releases s"
    using begin_task_retirement_owners [OF t] by (simp_all add: same_owners_def)
  obtain u where u: "publish_replacement cx task_id outputs s a = Inr u"
    "owners u = insert a (owners s)" "bs_handoff_releases u = bs_handoff_releases s"
    using b t same by (simp add: publish_replacement_def Let_def)
  have "insert a (owners s) = owners s" using Cons.prems by auto
  then show ?case using Cons.IH [of u] Cons.prems u by auto
qed

lemma outputs_return:
  assumes "distinct (map fst outputs)" "(fst ` set outputs - set replaced) \<inter> owners s = {}"
  shows "\<exists>s'. foldE (publish_output task_id replaced) s outputs = Inr s'
    \<and> owners s' = owners s \<union> (fst ` set outputs - set replaced)
    \<and> bs_handoff_releases s' = bs_handoff_releases s"
  using assms
proof (induction outputs arbitrary: s)
  case Nil
  then show ?case by simp
next
  case (Cons x outputs)
  obtain a l where x: "x = (a, l)" by (cases x)
  show ?case
  proof (cases "a \<in> set replaced")
    case True
    then have "publish_output task_id replaced s x = Inr s" using x by (simp add: publish_output_def)
    moreover have "fst ` set (x # outputs) - set replaced = fst ` set outputs - set replaced"
      using True x by auto
    ultimately show ?thesis using Cons.IH [of s] Cons.prems by simp
  next
    case False
    then have "active_lease s a = None" using Cons.prems(2) x by auto
    then have step: "publish_output task_id replaced s x = Inr (set_active a l s)"
      using False x by (simp add: publish_output_def)
    have rest: "distinct (map fst outputs)"
      "(fst ` set outputs - set replaced) \<inter> owners (set_active a l s) = {}"
      using Cons.prems x by auto
    obtain s' where "foldE (publish_output task_id replaced) (set_active a l s) outputs = Inr s'"
      "owners s' = owners (set_active a l s) \<union> (fst ` set outputs - set replaced)"
      "bs_handoff_releases s' = bs_handoff_releases s"
      using Cons.IH [OF rest] by auto
    then show ?thesis using step x False by auto
  qed
qed



section \<open>Actions\<close>

definition plan_owned :: "alias_facts \<Rightarrow> string \<Rightarrow> bool" where
  "plan_owned facts a \<longleftrightarrow>
     a \<in> known_aliases facts - af_shared_aliases facts - af_zero_size_aliases facts"

lemma order_action_owned:
  "order_action facts st y = Inr st' \<Longrightarrow> plan_owned facts (ma_alias_group_id (snd y))"
  by (cases st; cases y)
    (auto simp: order_action_def plan_owned_def known_aliases_def require_plan_owned_def)

lemma ordered_actions_index:
  assumes "ordered_actions schedule facts = Inr by_task"
  shows "by_task = index_actions schedule"
    and "(i, x) \<in> set (task_actions by_task t) \<Longrightarrow> plan_owned facts (ma_alias_group_id x)"
proof -
  let ?f = "\<lambda>(index, action) indexed. indexed(ma_trigger_task_id action \<mapsto>
      task_actions indexed (ma_trigger_task_id action) @ [(index, action)])"
  obtain trig where run: "foldE (order_action facts) (- 1, Map.empty) (enumerate 0 (ms_actions schedule))
      = Inr (trig, by_task)"
    using assms by (auto simp: ordered_actions_def)
  have "snd (trig, by_task) = fold ?f (enumerate 0 (ms_actions schedule)) Map.empty
    \<and> (\<forall>t. \<forall>(i, x) \<in> set (task_actions (snd (trig, by_task)) t). plan_owned facts (ma_alias_group_id x))"
  proof (rule foldE_invariant [OF run, where P = "\<lambda>ys st. snd st = fold ?f ys Map.empty
      \<and> (\<forall>t. \<forall>(i, x) \<in> set (task_actions (snd st) t). plan_owned facts (ma_alias_group_id x))"])
    show "snd (- 1 :: int, Map.empty) = fold ?f [] Map.empty
      \<and> (\<forall>t. \<forall>(i, x) \<in> set (task_actions (snd (- 1 :: int, Map.empty)) t).
           plan_owned facts (ma_alias_group_id x))"
      by (simp add: task_actions_def)
  next
    fix ys y zs st st'
    assume B: "snd st = fold ?f ys Map.empty
      \<and> (\<forall>t. \<forall>(i, x) \<in> set (task_actions (snd st) t). plan_owned facts (ma_alias_group_id x))"
      "order_action facts st y = Inr st'"
    obtain i x where y: "y = (i, x)" by (cases y)
    from order_action_Inr [OF B(2)] order_action_owned [OF B(2)]
    show "snd st' = fold ?f (ys @ [y]) Map.empty
      \<and> (\<forall>t. \<forall>(i, x) \<in> set (task_actions (snd st') t). plan_owned facts (ma_alias_group_id x))"
      using B(1) y by auto
  qed
  then show "by_task = index_actions schedule"
    "(i, x) \<in> set (task_actions by_task t) \<Longrightarrow> plan_owned facts (ma_alias_group_id x)"
    by (auto simp: index_actions_def)
qed

text \<open>What an action does to the residency.\<close>

lemma apply_action_resident:
  assumes "apply_action action path task facts r = Inr r'" "ma_kind action \<noteq> WRITE_BACK"
  shows "ma_kind action = FETCH \<Longrightarrow> ma_alias_group_id action \<notin> rv_device r
      \<and> ma_alias_group_id action \<in> rv_spill r
      \<and> rv_device r' = insert (ma_alias_group_id action) (rv_device r)"
    and "ma_kind action \<noteq> FETCH \<Longrightarrow> ma_alias_group_id action \<in> rv_device r
      \<and> rv_device r' = rv_device r - {ma_alias_group_id action}"
    and "rv_device r' \<union> rv_spill r' \<subseteq> rv_device r \<union> rv_spill r"
  using assms
  by (cases "ma_kind action"; auto simp: apply_action_def Let_def set_remove_def
      split: if_splits)+

lemma action_follows:
  assumes "linked cx facts" "tracks facts s r given" "plan_owned facts (ma_alias_group_id action)"
    and "apply_action action path task facts r = Inr r'" "ma_kind action \<noteq> WRITE_BACK"
    and "ma_alias_group_id action \<in> given \<longrightarrow> ma_kind action = RELEASE"
    and "(t, ma_alias_group_id action) \<in> bs_handoff_releases s \<longleftrightarrow> ma_alias_group_id action \<in> given"
  shows "\<exists>s'. replay_action cx t s (i, action) = Inr s'
    \<and> tracks facts s' r' (given - {ma_alias_group_id action})
    \<and> bs_handoff_releases s' = bs_handoff_releases s"
proof -
  let ?a = "ma_alias_group_id action"
  let ?p = "\<lambda>purpose. \<lparr>lp_purpose = purpose, lp_task_id = Some t, lp_alias_group_id = Some ?a,
    lp_action_index = Some i\<rparr>"
  note R = apply_action_resident [OF assms(4,5)]
  have own: "?a \<notin> af_shared_aliases facts" "?a \<in> known_aliases facts"
    using assms(3) by (simp_all add: plan_owned_def)
  consider "ma_kind action = RELEASE" "?a \<in> given" | "ma_kind action = RELEASE" "?a \<notin> given"
    | "ma_kind action = EVICT" "?a \<notin> given" | "ma_kind action = FETCH" "?a \<notin> given"
    using assms(5,6) by (cases "ma_kind action") auto
  then show ?thesis
  proof cases
    case 1
    then have "replay_action cx t s (i, action) = Inr s" using assms(7) by (simp add: replay_action_def)
    moreover have "tracks facts s r' (given - {?a})"
      using assms(2) R(2) 1 by (auto simp: tracks_def)
    ultimately show ?thesis by blast
  next
    case 2
    then obtain l where l: "active_lease s ?a = Some l"
      using R(2) own assms(2) by (auto simp: tracks_def)
    obtain u where u: "begin_task_retirement l (?p PURPOSE_RELEASE) (pop_active ?a s) = Inr u"
      using begin_task_retirement_total [of "?p PURPOSE_RELEASE"] by auto
    have "owners u = owners s - {?a}" "bs_handoff_releases u = bs_handoff_releases s"
      using begin_task_retirement_owners [OF u] by (simp_all add: same_owners_def)
    then show ?thesis
      using 2 l u assms(2,7) R(2)
      by (intro exI [of _ u]) (auto simp: replay_action_def remove_active_alias_def tracks_def)
  next
    case 3
    then obtain l where l: "active_lease s ?a = Some l"
      using R(2) own assms(2) by (auto simp: tracks_def)
    obtain d v where v: "new_dependency_id (pop_active ?a s) = (d, v)"
      by (cases "new_dependency_id (pop_active ?a s)")
    obtain u where u: "retire l d True (?p EVICTION) v = Inr u" using retire_total by blast
    have "same_owners (pop_active ?a s) v"
      using v by (auto simp: new_dependency_id_def same_owners_def)
    then have "owners v = owners s - {?a}" "bs_handoff_releases v = bs_handoff_releases s"
      by (simp_all add: same_owners_def)
    then have "owners u = owners s - {?a}" "bs_handoff_releases u = bs_handoff_releases s"
      using retire_Inr(1,6) [OF u] by simp_all
    then show ?thesis
      using 3 l v u assms(2) R(2)
      by (intro exI [of _ u]) (auto simp: replay_action_def remove_active_alias_def tracks_def)
  next
    case 4
    obtain b where b: "0 \<le> b" "bc_alias_size cx ?a = Some b" "b \<noteq> 0"
      using linked_size [OF assms(1) own(2)] assms(3) by (metis DiffD2 plan_owned_def)
    have none: "active_lease s ?a = None" using R(1) 4 assms(2) by (auto simp: tracks_def)
    obtain l u where u: "acquire (bc_alignment cx) b (?p FETCH_DESTINATION) s = Inr (l, u)"
      using acquire_total [OF b(1)] assms(1) by (metis linked_def)
    have "owners u = owners s" "bs_handoff_releases u = bs_handoff_releases s"
      using acquire_Inr(3,9) [OF u] by simp_all
    then show ?thesis
      using 4 none b(2,3) u assms(2) R(1) own
      by (simp add: replay_action_def tracks_def) blast
  qed
qed

lemma released_once:
  assumes "released_only (ys @ (i, x) # zs) (ma_alias_group_id x)"
  shows "ma_kind x = RELEASE" and "\<forall>(j, y) \<in> set ys. ma_alias_group_id y \<noteq> ma_alias_group_id x"
  using assms unfolding released_only_def
  by (auto simp: append_eq_Cons_conv filter_empty_conv map_eq_Cons_conv)

lemma released_member:
  assumes "released_only actions a"
  shows "a \<in> (\<lambda>(i, x). ma_alias_group_id x) ` set actions"
proof -
  have "filter (\<lambda>(i, x). ma_alias_group_id x = a) actions \<noteq> []"
    using assms by (auto simp: released_only_def)
  then show ?thesis by (fastforce simp: filter_empty_conv)
qed

lemma actions_follow_upto:
  assumes "linked cx facts" "tracks facts s r given"
    and "foldE (\<lambda>r (i, action). apply_action action (action_path i) task facts r) r actions = Inr r'"
    and "\<forall>(i, x) \<in> set actions. plan_owned facts (ma_alias_group_id x) \<and> ma_kind x \<noteq> WRITE_BACK"
    and "\<forall>a \<in> given. released_only (actions @ rest) a"
    and "\<forall>a. (t, a) \<in> bs_handoff_releases s \<longleftrightarrow> a \<in> given"
  shows "\<exists>s'. foldE (replay_action cx t) s actions = Inr s'
    \<and> tracks facts s' r' (given - (\<lambda>(i, x). ma_alias_group_id x) ` set actions)
    \<and> bs_handoff_releases s' = bs_handoff_releases s
    \<and> rv_device r' \<union> rv_spill r' \<subseteq> rv_device r \<union> rv_spill r"
proof -
  let ?left = "\<lambda>ys. given - (\<lambda>(i, x). ma_alias_group_id x) ` set ys"
  show ?thesis
  proof (rule foldE_invariant [OF assms(3),
      where P = "\<lambda>ys r'. \<exists>s'. foldE (replay_action cx t) s ys = Inr s' \<and> tracks facts s' r' (?left ys)
        \<and> bs_handoff_releases s' = bs_handoff_releases s
        \<and> rv_device r' \<union> rv_spill r' \<subseteq> rv_device r \<union> rv_spill r"])
    show "\<exists>s'. foldE (replay_action cx t) s [] = Inr s' \<and> tracks facts s' r (?left [])
        \<and> bs_handoff_releases s' = bs_handoff_releases s
        \<and> rv_device r \<union> rv_spill r \<subseteq> rv_device r \<union> rv_spill r"
      using assms(2) by simp
  next
    fix ys y zs q q'
    assume B: "\<exists>s'. foldE (replay_action cx t) s ys = Inr s' \<and> tracks facts s' q (?left ys)
        \<and> bs_handoff_releases s' = bs_handoff_releases s
        \<and> rv_device q \<union> rv_spill q \<subseteq> rv_device r \<union> rv_spill r"
      "actions = ys @ y # zs" "(case y of (i, action) \<Rightarrow> apply_action action (action_path i) task facts q) = Inr q'"
    obtain i x where y: "y = (i, x)" by (cases y)
    from B(1) obtain u where u: "foldE (replay_action cx t) s ys = Inr u" "tracks facts u q (?left ys)"
      "bs_handoff_releases u = bs_handoff_releases s"
      "rv_device q \<union> rv_spill q \<subseteq> rv_device r \<union> rv_spill r" by blast
    have x: "plan_owned facts (ma_alias_group_id x)" "ma_kind x \<noteq> WRITE_BACK"
      "apply_action x (action_path i) task facts q = Inr q'"
      using assms(4) B(2,3) y by auto
    have once: "ma_kind x = RELEASE" "\<forall>(j, z) \<in> set ys. ma_alias_group_id z \<noteq> ma_alias_group_id x"
      if "ma_alias_group_id x \<in> given"
      using released_once [of ys i x "zs @ rest"] assms(5) that B(2) y by auto
    have mark: "(t, ma_alias_group_id x) \<in> bs_handoff_releases u \<longleftrightarrow> ma_alias_group_id x \<in> ?left ys"
      using assms(6) u(3) once(2) by fastforce
    from action_follows [OF assms(1) u(2) x(1,3,2) _ mark, of i] once(1) obtain v where
      v: "replay_action cx t u (i, x) = Inr v" "tracks facts v q' (?left ys - {ma_alias_group_id x})"
        "bs_handoff_releases v = bs_handoff_releases u" by blast
    have left: "?left (ys @ [y]) = ?left ys - {ma_alias_group_id x}" using y by auto
    have "foldE (replay_action cx t) s (ys @ [y]) = Inr v" using u(1) v(1) y by (simp add: foldE_append)
    moreover have "rv_device q' \<union> rv_spill q' \<subseteq> rv_device r \<union> rv_spill r"
      using apply_action_resident(3) [OF x(3,2)] u(4) by blast
    ultimately show "\<exists>s'. foldE (replay_action cx t) s (ys @ [y]) = Inr s'
        \<and> tracks facts s' q' (?left (ys @ [y])) \<and> bs_handoff_releases s' = bs_handoff_releases s
        \<and> rv_device q' \<union> rv_spill q' \<subseteq> rv_device r \<union> rv_spill r"
      using v(2,3) u(3) unfolding left by blast
  qed
qed

lemma actions_follow:
  assumes "linked cx facts" "tracks facts s r given"
    and "foldE (\<lambda>r (i, action). apply_action action (action_path i) task facts r) r actions = Inr r'"
    and "\<forall>(i, x) \<in> set actions. plan_owned facts (ma_alias_group_id x) \<and> ma_kind x \<noteq> WRITE_BACK"
    and "\<forall>a \<in> given. released_only actions a"
    and "\<forall>a. (t, a) \<in> bs_handoff_releases s \<longleftrightarrow> a \<in> given"
  shows "\<exists>s'. foldE (replay_action cx t) s actions = Inr s' \<and> tracks facts s' r' {}
    \<and> bs_handoff_releases s' = bs_handoff_releases s
    \<and> rv_device r' \<union> rv_spill r' \<subseteq> rv_device r \<union> rv_spill r"
proof -
  have "given - (\<lambda>(i, x). ma_alias_group_id x) ` set actions = {}"
    using assms(5) released_member by fastforce
  moreover have "\<forall>a \<in> given. released_only (actions @ []) a" using assms(5) by simp
  ultimately show ?thesis
    using actions_follow_upto [OF assms(1-4) _ assms(6), of "[]"] by (metis (no_types, lifting))
qed

text \<open>
  A write-back of a resident alias is replayed as a fetch, and refused because the alias is
  resident. Validation asks for just that residency.
\<close>

lemma write_back_refused:
  assumes "linked cx facts" "tracks facts s r given"
    and "foldE (\<lambda>r (i, action). apply_action action (action_path i) task facts r) r actions = Inr r'"
    and "\<forall>(i, x) \<in> set actions. plan_owned facts (ma_alias_group_id x)"
    and "\<forall>a \<in> given. released_only actions a"
    and "\<forall>a. (t, a) \<in> bs_handoff_releases s \<longleftrightarrow> a \<in> given"
    and "(j, wb) \<in> set actions" "ma_kind wb = WRITE_BACK"
  shows "\<exists>m. foldE (replay_action cx t) s actions = Inl (ValueError m)"
proof -
  have "\<exists>z \<in> set actions. ma_kind (snd z) = WRITE_BACK" using assms(7,8) by force
  then obtain ys y zs where split: "actions = ys @ y # zs" "ma_kind (snd y) = WRITE_BACK"
    "\<forall>z \<in> set ys. ma_kind (snd z) \<noteq> WRITE_BACK"
    using split_list_first_prop [of actions "\<lambda>z. ma_kind (snd z) = WRITE_BACK"] by blast
  obtain i x where y: "y = (i, x)" by (cases y)
  obtain q q' where q: "foldE (\<lambda>r (i, action). apply_action action (action_path i) task facts r) r ys = Inr q"
    "apply_action x (action_path i) task facts q = Inr q'"
    using assms(3) unfolding split(1) y by (auto simp: foldE_append)
  have clean: "\<forall>(i, x) \<in> set ys. plan_owned facts (ma_alias_group_id x) \<and> ma_kind x \<noteq> WRITE_BACK"
    using assms(4) split(1,3) by fastforce
  have "\<forall>a \<in> given. released_only (ys @ y # zs) a" using assms(5) split(1) by simp
  from actions_follow_upto [OF assms(1,2) q(1) clean this assms(6)] obtain u where
    u: "foldE (replay_action cx t) s ys = Inr u"
      "tracks facts u q (given - (\<lambda>(i, x). ma_alias_group_id x) ` set ys)" by blast
  have own: "ma_alias_group_id x \<notin> af_shared_aliases facts"
    using assms(4) split(1) y by (auto simp: plan_owned_def)
  have here: "ma_alias_group_id x \<in> rv_device q"
    using q(2) split(2) y by (auto simp: apply_action_def Let_def split: if_splits)
  have "ma_alias_group_id x \<notin> given"
  proof
    assume "ma_alias_group_id x \<in> given"
    then have "ma_kind x = RELEASE"
      using released_once(1) [of ys i x zs] assms(5) split(1) y by auto
    then show False using split(2) y by simp
  qed
  then have "ma_alias_group_id x \<in> owners u" using u(2) own here by (simp add: tracks_def)
  then obtain l where "active_lease u (ma_alias_group_id x) = Some l" by blast
  then have "\<exists>m. replay_action cx t u (i, x) = Inl (ValueError m)"
    using split(2) y by (simp add: replay_action_def Let_def refuse_def)
  then show ?thesis using u(1) split(1) y by (auto simp: foldE_append)
qed


section \<open>A task\<close>

lemma valid_admission_facts:
  assumes "valid_admission admission"
  shows "distinct (map sh_source_alias_group_id (ta_storage_handoffs admission))"
    and "distinct (map sh_destination_alias_group_id (ta_storage_handoffs admission))"
    and "set (ta_fresh_output_aliases admission) \<inter> set (ta_replacement_aliases admission) = {}"
    and "set (ta_fresh_output_aliases admission)
      \<inter> sh_destination_alias_group_id ` set (ta_storage_handoffs admission) = {}"
  using assms
  by (auto simp: valid_admission_def task_admission_spec_post_init_def Let_def bindE_Inr_iff
      split: if_splits)

lemma resident_inputs:
  assumes "require_inputs_resident task facts r = Inr ()"
  shows "object_aliases facts (tk_inputs task) \<subseteq> rv_device r"
  using assms
  by (fastforce simp: object_aliases_def require_inputs_resident_def checkE_Inr_iff
      dict_get_Inr_iff bindE_Inr_iff split: if_splits)

text \<open>The state between the allocations of a task and its actions.\<close>

lemma publish_follows:
  assumes "linked cx facts" "tracks facts s r {}" "valid_admission admission"
    and "ownership_agrees facts actions task admission"
    and "set (referenced_aliases admission) \<subseteq> known_aliases facts"
    and "object_aliases facts (tk_inputs task) \<subseteq> rv_device r"
    and "mu_object_id ` set (tk_mutations task) \<subseteq> set (tk_inputs task)"
    and "object_aliases facts (tk_outputs task) \<inter> (rv_device r \<union> af_shared_aliases facts) = {}"
    and "same_owners s v" "distinct (map fst outputs)"
    and "fst ` set outputs = set (ta_fresh_output_aliases admission) \<union> set (ta_replacement_aliases admission)"
  shows "\<exists>w x y. foldE (publish_handoff cx t) v (ta_storage_handoffs admission) = Inr w
    \<and> foldE (publish_replacement cx t outputs) w (ta_replacement_aliases admission) = Inr x
    \<and> foldE (publish_output t (ta_replacement_aliases admission)) x outputs = Inr y
    \<and> owners y = (rv_device r \<union> object_aliases facts (tk_outputs task)) - af_shared_aliases facts
        - moved facts admission
    \<and> bs_handoff_releases y = bs_handoff_releases s \<union> {t} \<times> moved facts admission"
proof -
  let ?ms = "moves facts admission" and ?zero = "af_zero_size_aliases facts"
  let ?dst = "sh_destination_alias_group_id ` set ?ms"
  let ?fresh = "set (ta_fresh_output_aliases admission)" and ?repl = "set (ta_replacement_aliases admission)"
  let ?outs = "object_aliases facts (tk_outputs task)"
  note V = valid_admission_facts [OF assms(3)]
  note A = assms(4) [unfolded ownership_agrees_def]
  have s: "owners s = rv_device r - af_shared_aliases facts" using assms(2) by (simp add: tracks_def)
  have v: "owners v = owners s" "bs_handoff_releases v = bs_handoff_releases s"
    using assms(9) by (simp_all add: same_owners_def)
  have split: "?fresh \<union> ?dst = ?outs" using A by blast
  have taken: "moved facts admission \<subseteq> owners s" using A assms(6) s by blast
  have muts: "object_aliases facts (map mu_object_id (tk_mutations task))
      \<subseteq> object_aliases facts (tk_inputs task)"
    using assms(7) by (auto simp: object_aliases_def)
  have repl: "?repl \<subseteq> owners s" "?repl \<inter> moved facts admission = {}"
    using A muts assms(6) s by blast+
  have new: "?outs \<inter> owners s = {}" using assms(8) s by blast
  have known: "\<exists>b. bc_alias_size cx a = Some b \<and> (b = 0 \<longleftrightarrow> a \<in> ?zero)" if "a \<in> known_aliases facts" for a
    using linked_size [OF assms(1) that] by metis
  have W: "\<exists>w. foldE (publish_handoff cx t) v (ta_storage_handoffs admission) = Inr w
    \<and> owners w = owners v - sh_source_alias_group_id ` set ?ms \<union> ?dst
    \<and> bs_handoff_releases w = bs_handoff_releases v \<union> {t} \<times> sh_source_alias_group_id ` set ?ms"
  proof (rule handoffs_return [where zero = ?zero])
    show "\<forall>h \<in> set (ta_storage_handoffs admission).
        \<exists>b. bc_alias_size cx (sh_destination_alias_group_id h) = Some b
        \<and> (b = 0 \<longleftrightarrow> sh_destination_alias_group_id h \<in> ?zero)"
      using known assms(5) by (auto simp: referenced_aliases_def)
    show "distinct (map sh_source_alias_group_id ?ms)" "distinct (map sh_destination_alias_group_id ?ms)"
      using V(1,2) by (simp_all add: moves_def distinct_map_filter)
    show "sh_source_alias_group_id ` set ?ms \<subseteq> owners v" using taken v by (simp add: moved_def)
    show "?dst \<inter> owners v = {}" using split new v by blast
  qed (simp add: moves_def)
  then obtain w where w: "foldE (publish_handoff cx t) v (ta_storage_handoffs admission) = Inr w"
    "owners w = owners s - moved facts admission \<union> ?dst"
    "bs_handoff_releases w = bs_handoff_releases s \<union> {t} \<times> moved facts admission"
    unfolding moved_def v by blast
  have "\<exists>x. foldE (publish_replacement cx t outputs) w (ta_replacement_aliases admission) = Inr x
      \<and> owners x = owners w \<and> bs_handoff_releases x = bs_handoff_releases w"
  proof (rule replacements_return, rule ballI)
    fix a
    assume a: "a \<in> ?repl"
    have mutated: "a \<in> object_aliases facts (map mu_object_id (tk_mutations task))" using A a by blast
    then have "a \<notin> ?zero" by (simp add: object_aliases_def)
    then have "\<exists>b. bc_alias_size cx a = Some b \<and> b \<noteq> 0"
      using known [OF object_aliases_known [OF assms(1) mutated]] by blast
    moreover have "a \<in> owners w" using repl a unfolding w(2) by blast
    moreover have "a \<in> dom (map_of outputs)" using a assms(11) by (simp add: dom_map_of_conv_image_fst)
    ultimately show "(\<exists>b. bc_alias_size cx a = Some b \<and> b \<noteq> 0) \<and> a \<in> owners w
        \<and> a \<in> dom (map_of outputs)" by blast
  qed
  then obtain x where x: "foldE (publish_replacement cx t outputs) w (ta_replacement_aliases admission) = Inr x"
    "owners x = owners w" "bs_handoff_releases x = bs_handoff_releases w" by blast
  have keys: "fst ` set outputs - ?repl = ?fresh" using assms(11) V(3) by blast
  have "?dst \<subseteq> sh_destination_alias_group_id ` set (ta_storage_handoffs admission)"
    by (auto simp: moves_def)
  then have "?fresh \<inter> owners x = {}" using V(4) split new unfolding x(2) w(2) by blast
  then obtain y where y: "foldE (publish_output t (ta_replacement_aliases admission)) x outputs = Inr y"
    "owners y = owners x \<union> ?fresh" "bs_handoff_releases y = bs_handoff_releases x"
    using outputs_return [OF assms(10), of "ta_replacement_aliases admission" x t] unfolding keys by blast
  have "?outs \<inter> moved facts admission = {}" using new taken by blast
  then have "owners y = (rv_device r \<union> ?outs) - af_shared_aliases facts - moved facts admission"
    unfolding y(2) x(2) w(2) s using split assms(8) by blast
  moreover have "bs_handoff_releases y = bs_handoff_releases s \<union> {t} \<times> moved facts admission"
    using y(3) x(3) w(3) by simp
  ultimately show ?thesis using w(1) x(1) y(1) by blast
qed

lemma task_reaches_actions:
  assumes "linked cx facts" "tracks facts s r {}" "books s held"
    and "bc_admission_by_task cx (tk_task_id task) = Some admission" "valid_admission admission"
    and "set (referenced_aliases admission) \<subseteq> known_aliases facts"
    and "ownership_agrees facts actions task admission"
    and "mu_object_id ` set (tk_mutations task) \<subseteq> set (tk_inputs task)"
    and "object_aliases facts (tk_outputs task)
      \<inter> (rv_device r \<union> rv_spill r \<union> af_shared_aliases facts) = {}"
    and "require_inputs_resident task facts r = Inr ()" "record_task_writes task facts r = Inr r1"
  shows "\<exists>y. replay_task cx s task = replay_actions cx (tk_task_id task) y
    \<and> tracks facts y r1 (moved facts admission)
    \<and> bs_handoff_releases y = bs_handoff_releases s \<union> {tk_task_id task} \<times> moved facts admission"
proof -
  let ?t = "tk_task_id task"
  have inputs: "validate_task_inputs cx s task = Inr ()"
    by (rule inputs_present [OF assms(1,2,10,8)])
  let ?s = "s\<lparr>bs_workspace_bytes_by_task :=
    bs_workspace_bytes_by_task s @ [(?t, workspace_bytes admission)]\<rparr>"
  have align: "0 \<le> bc_alignment cx" using assms(1) by (simp add: linked_def)
  have "books ?s held" using assms(3) by simp
  from task_allocations [OF assms(5) this align, of ?t] obtain terminal outputs u where T:
    "acquire_task_allocations cx ?t admission ?s = Inr (terminal, outputs, u)"
    "books u (held \<union> set terminal \<union> ran (map_of outputs))" "same_owners ?s u" "distinct terminal"
    "distinct (map fst outputs)" "held \<inter> set terminal = {}" "set terminal \<inter> ran (map_of outputs) = {}"
    "fst ` set outputs = set (ta_fresh_output_aliases admission) \<union> set (ta_replacement_aliases admission)"
    by blast
  have "books u (held \<union> ran (map_of outputs) \<union> set terminal)" using T(2) by (simp add: Un_ac)
  from retire_all [OF this T(4), of "workspace_provenance ?t"] T(6,7) obtain v where V:
    "foldE (\<lambda>s l. begin_task_retirement l (workspace_provenance ?t) s) u terminal = Inr v"
    "same_owners u v"
    by (auto simp: workspace_provenance_def)
  have "same_owners s v" using T(3) V(2) by (simp add: same_owners_def)
  moreover have "object_aliases facts (tk_outputs task) \<inter> (rv_device r \<union> af_shared_aliases facts) = {}"
    using assms(9) by blast
  ultimately obtain w x y where W:
    "foldE (publish_handoff cx ?t) v (ta_storage_handoffs admission) = Inr w"
    "foldE (publish_replacement cx ?t outputs) w (ta_replacement_aliases admission) = Inr x"
    "foldE (publish_output ?t (ta_replacement_aliases admission)) x outputs = Inr y"
    "owners y = (rv_device r \<union> object_aliases facts (tk_outputs task)) - af_shared_aliases facts
        - moved facts admission"
    "bs_handoff_releases y = bs_handoff_releases s \<union> {?t} \<times> moved facts admission"
    using publish_follows [OF assms(1,2,5,7,6) resident_inputs [OF assms(10)] assms(8) _ _ T(5,8), of v ?t]
    by blast
  have "tracks facts y r1 (moved facts admission)"
    using W(4) writes_resident(1) [OF assms(11)] by (simp add: tracks_def)
  moreover have "replay_task cx s task = replay_actions cx ?t y"
    using inputs assms(4) T(1) V(1) W(1-3) by (simp add: replay_task_def dict_get_def Let_def)
  ultimately show ?thesis using W(5) by blast
qed

lemma task_follows:
  assumes "linked cx facts" "tracks facts s r {}" "books s held"
    and "bc_admission_by_task cx (tk_task_id task) = Some admission" "valid_admission admission"
    and "set (referenced_aliases admission) \<subseteq> known_aliases facts"
    and "ownership_agrees facts (task_actions (bc_actions_by_task cx) (tk_task_id task)) task admission"
    and "\<forall>(i, x) \<in> set (task_actions (bc_actions_by_task cx) (tk_task_id task)).
      plan_owned facts (ma_alias_group_id x)"
    and "mu_object_id ` set (tk_mutations task) \<subseteq> set (tk_inputs task)"
    and "object_aliases facts (tk_outputs task)
      \<inter> (rv_device r \<union> rv_spill r \<union> af_shared_aliases facts) = {}"
    and "\<forall>a. (tk_task_id task, a) \<notin> bs_handoff_releases s"
    and "walk_task facts (bc_actions_by_task cx) r task = Inr r'"
  shows "\<forall>(i, x) \<in> set (task_actions (bc_actions_by_task cx) (tk_task_id task)). ma_kind x \<noteq> WRITE_BACK
      \<Longrightarrow> \<exists>s'. replay_task cx s task = Inr s' \<and> tracks facts s' r' {}
    \<and> bs_handoff_releases s' \<subseteq> bs_handoff_releases s \<union> {tk_task_id task} \<times> UNIV
    \<and> rv_device r' \<union> rv_spill r' \<subseteq> rv_device r \<union> rv_spill r \<union> object_aliases facts (tk_outputs task)"
    and "(j, wb) \<in> set (task_actions (bc_actions_by_task cx) (tk_task_id task)) \<Longrightarrow> ma_kind wb = WRITE_BACK
      \<Longrightarrow> \<exists>m. replay_task cx s task = Inl (ValueError m)"
proof -
  let ?t = "tk_task_id task" and ?actions = "task_actions (bc_actions_by_task cx) (tk_task_id task)"
  obtain r1 where r1: "require_inputs_resident task facts r = Inr ()"
    "record_task_writes task facts r = Inr r1"
    "foldE (\<lambda>r (i, action). apply_action action (action_path i) task facts r) r1 ?actions = Inr r'"
    using assms(12) by (auto simp: walk_task_def)
  from task_reaches_actions [OF assms(1-7,9,10) r1(1,2)] obtain y where
    y: "replay_task cx s task = replay_actions cx ?t y" "tracks facts y r1 (moved facts admission)"
      "bs_handoff_releases y = bs_handoff_releases s \<union> {?t} \<times> moved facts admission" by blast
  have once: "\<forall>a \<in> moved facts admission. released_only ?actions a"
    using assms(7) by (simp add: ownership_agrees_def)
  have marks: "\<forall>a. (?t, a) \<in> bs_handoff_releases y \<longleftrightarrow> a \<in> moved facts admission"
    using y(3) assms(11) by simp
  show "\<exists>m. replay_task cx s task = Inl (ValueError m)" if "(j, wb) \<in> set ?actions" "ma_kind wb = WRITE_BACK"
    using write_back_refused [OF assms(1) y(2) r1(3) assms(8) once marks that] y(1)
    by (simp add: replay_actions_def)
  show "\<exists>s'. replay_task cx s task = Inr s' \<and> tracks facts s' r' {}
    \<and> bs_handoff_releases s' \<subseteq> bs_handoff_releases s \<union> {?t} \<times> UNIV
    \<and> rv_device r' \<union> rv_spill r' \<subseteq> rv_device r \<union> rv_spill r \<union> object_aliases facts (tk_outputs task)"
    if clean: "\<forall>(i, x) \<in> set ?actions. ma_kind x \<noteq> WRITE_BACK"
  proof -
    have "\<forall>(i, x) \<in> set ?actions. plan_owned facts (ma_alias_group_id x) \<and> ma_kind x \<noteq> WRITE_BACK"
      using clean assms(8) by blast
    from actions_follow [OF assms(1) y(2) r1(3) this once marks] obtain s' where
      s': "foldE (replay_action cx ?t) y ?actions = Inr s'"
        "tracks facts s' r' {}" "bs_handoff_releases s' = bs_handoff_releases y"
        "rv_device r' \<union> rv_spill r' \<subseteq> rv_device r1 \<union> rv_spill r1" by blast
    have "bs_handoff_releases s' \<subseteq> bs_handoff_releases s \<union> {?t} \<times> UNIV" using s'(3) y(3) by auto
    moreover have "rv_device r' \<union> rv_spill r'
        \<subseteq> rv_device r \<union> rv_spill r \<union> object_aliases facts (tk_outputs task)"
      using s'(4) writes_resident [OF r1(2)] by blast
    ultimately show ?thesis using s'(1,2) y(1) by (auto simp: replay_actions_def)
  qed
qed


section \<open>The whole replay\<close>

lemma initial_follows_step:
  assumes "linked cx facts" "tracks facts s r {}" "place_initial facts r (i, item) = Inr r'"
  shows "\<exists>s'. acquire_initial_object cx s item = Inr s' \<and> tracks facts s' r' {}
    \<and> bs_handoff_releases s' = bs_handoff_releases s
    \<and> rv_device r' \<union> rv_spill r' \<subseteq> insert (rd_alias_group_id item) (rv_device r \<union> rv_spill r)"
proof -
  let ?a = "rd_alias_group_id item"
  have own: "?a \<in> known_aliases facts" "?a \<notin> af_shared_aliases facts"
    using assms(3) by (auto simp: place_initial_def require_plan_owned_def known_aliases_def)
  obtain b where b: "0 \<le> b" "bc_alias_size cx ?a = Some b" "b = 0 \<longleftrightarrow> ?a \<in> af_zero_size_aliases facts"
    using linked_size [OF assms(1) own(1)] by blast
  show ?thesis
  proof (cases "rd_location item = DEVICE \<and> b \<noteq> 0")
    case True
    let ?p = "\<lparr>lp_purpose = INITIAL_OBJECT, lp_task_id = None, lp_alias_group_id = Some ?a,
      lp_action_index = None\<rparr>"
    have "0 \<le> bc_alignment cx" using assms(1) by (simp add: linked_def)
    then obtain l u where u: "acquire (bc_alignment cx) b ?p s = Inr (l, u)"
      using acquire_total [OF b(1)] by metis
    have same: "owners u = owners s" "bs_handoff_releases u = bs_handoff_releases s"
      using acquire_Inr(3,9) [OF u] by simp_all
    have r': "rv_device r' = insert ?a (rv_device r)" "rv_spill r' = rv_spill r"
      using assms(3) True b(3) by (auto simp: place_initial_def split: if_splits)
    obtain s' where s': "acquire_initial_object cx s item = Inr s'"
      "owners s' = insert ?a (owners s)" "bs_handoff_releases s' = bs_handoff_releases s"
      using True b(2) u same by (simp add: acquire_initial_object_def Let_def)
    have "tracks facts s' r' {}" using assms(2) own(2) r'(1) s'(2) by (auto simp: tracks_def)
    then show ?thesis using s' r' by blast
  next
    case False
    then have "acquire_initial_object cx s item = Inr s"
      using b(2) by (auto simp: acquire_initial_object_def Let_def)
    moreover have "rv_device r' = rv_device r" "rv_spill r' \<subseteq> insert ?a (rv_spill r)"
      using assms(3) False b(3) by (auto simp: place_initial_def split: if_splits)
    ultimately show ?thesis using assms(2) by (intro exI [of _ s]) (auto simp: tracks_def)
  qed
qed

lemma initial_follows:
  assumes "linked cx facts" "initial_residency_of (bc_schedule cx) facts = Inr r"
  shows "\<exists>s. acquire_initial_objects cx new_builder = Inr s \<and> tracks facts s r {}
    \<and> bs_handoff_releases s = {}
    \<and> rv_device r \<union> rv_spill r \<subseteq> af_shared_aliases facts \<union> retained_aliases facts
        \<union> rd_alias_group_id ` set (ms_initial_residency (bc_schedule cx))"
proof -
  let ?xs = "ms_initial_residency (bc_schedule cx)"
  let ?base = "af_shared_aliases facts \<union> retained_aliases facts"
  let ?P = "\<lambda>(ys :: (nat \<times> residency_spec) list) r. \<exists>s. foldE (acquire_initial_object cx) new_builder (map snd ys) = Inr s
    \<and> tracks facts s r {} \<and> bs_handoff_releases s = {}
    \<and> rv_device r \<union> rv_spill r \<subseteq> ?base \<union> rd_alias_group_id ` snd ` set ys"
  have "?P (enumerate 0 ?xs) r"
  proof (rule foldE_invariant [OF assms(2) [unfolded initial_residency_of_def], where P = ?P])
    show "?P [] \<lparr>rv_device = af_shared_aliases facts, rv_spill = retained_aliases facts,
        rv_spill_current = retained_aliases facts\<rparr>"
      by (simp add: tracks_def new_builder_def)
  next
    fix ys y zs q q'
    assume B: "?P ys q" "place_initial facts q y = Inr q'"
    obtain i x where y: "y = (i, x)" by (cases y)
    from B(1) obtain s where s: "foldE (acquire_initial_object cx) new_builder (map snd ys) = Inr s"
      "tracks facts s q {}" "bs_handoff_releases s = {}"
      "rv_device q \<union> rv_spill q \<subseteq> ?base \<union> rd_alias_group_id ` snd ` set ys" by blast
    from initial_follows_step [OF assms(1) s(2) B(2) [unfolded y]] obtain s' where
      s': "acquire_initial_object cx s x = Inr s'" "tracks facts s' q' {}"
        "bs_handoff_releases s' = bs_handoff_releases s"
        "rv_device q' \<union> rv_spill q' \<subseteq> insert (rd_alias_group_id x) (rv_device q \<union> rv_spill q)" by blast
    have "foldE (acquire_initial_object cx) new_builder (map snd (ys @ [y])) = Inr s'"
      using s(1) s'(1) y by (simp add: foldE_append)
    moreover have "rv_device q' \<union> rv_spill q' \<subseteq> ?base \<union> rd_alias_group_id ` snd ` set (ys @ [y])"
      using s(4) s'(4) y by auto
    ultimately show "?P (ys @ [y]) q'" using s'(2,3) s(3) by auto
  qed
  then show ?thesis by (simp add: acquire_initial_objects_def flip: set_map)
qed

lemma tasks_follow:
  assumes "linked cx facts" "tracks facts s r {}" "books s held" "bs_handoff_releases s = {}"
    and "rv_device r \<union> rv_spill r \<subseteq> af_shared_aliases facts \<union> retained_aliases facts
        \<union> rd_alias_group_id ` set (ms_initial_residency (bc_schedule cx))"
    and "\<forall>t admission. bc_admission_by_task cx t = Some admission \<longrightarrow> valid_admission admission"
    and "\<forall>task \<in> set tasks. \<exists>admission. bc_admission_by_task cx (tk_task_id task) = Some admission
      \<and> set (referenced_aliases admission) \<subseteq> known_aliases facts
      \<and> ownership_agrees facts (task_actions (bc_actions_by_task cx) (tk_task_id task)) task admission"
    and "\<forall>t. \<forall>(i, x) \<in> set (task_actions (bc_actions_by_task cx) t). plan_owned facts (ma_alias_group_id x)"
    and "\<forall>task \<in> set tasks. mu_object_id ` set (tk_mutations task) \<subseteq> set (tk_inputs task)"
    and "written_once facts (bc_schedule cx) tasks" "distinct (map tk_task_id tasks)"
    and "foldE (walk_task facts (bc_actions_by_task cx)) r tasks = Inr r'"
  shows "\<forall>task \<in> set tasks. \<forall>(i, x) \<in> set (task_actions (bc_actions_by_task cx) (tk_task_id task)).
      ma_kind x \<noteq> WRITE_BACK \<Longrightarrow>
      \<exists>s'. foldE (replay_task cx) s tasks = Inr s' \<and> tracks facts s' r' {}"
    and "task \<in> set tasks \<Longrightarrow> (j, wb) \<in> set (task_actions (bc_actions_by_task cx) (tk_task_id task)) \<Longrightarrow>
      ma_kind wb = WRITE_BACK \<Longrightarrow> \<exists>m. foldE (replay_task cx) s tasks = Inl (ValueError m)"
proof -
  let ?base = "af_shared_aliases facts \<union> retained_aliases facts
    \<union> rd_alias_group_id ` set (ms_initial_residency (bc_schedule cx))"
  let ?outs = "\<lambda>ys. \<Union>u \<in> set ys. object_aliases facts (tk_outputs u)"
  let ?P = "\<lambda>ys r. \<exists>s'. foldE (replay_task cx) s ys = Inr s' \<and> tracks facts s' r {}
    \<and> (\<exists>held. books s' held) \<and> bs_handoff_releases s' \<subseteq> tk_task_id ` set ys \<times> UNIV
    \<and> rv_device r \<union> rv_spill r \<subseteq> ?base \<union> ?outs ys"
  let ?clean = "\<lambda>task. \<forall>(i, x) \<in> set (task_actions (bc_actions_by_task cx) (tk_task_id task)).
    ma_kind x \<noteq> WRITE_BACK"
  have align: "0 \<le> bc_alignment cx" using assms(1) by (simp add: linked_def)
  have start: "?P [] r" using assms(2-5) by auto
  have step: "\<exists>admission u h. foldE (replay_task cx) s ys = Inr u \<and> books u h
      \<and> bc_admission_by_task cx (tk_task_id task) = Some admission
      \<and> (?clean task \<longrightarrow> (\<exists>v. replay_task cx u task = Inr v \<and> tracks facts v q' {}
          \<and> bs_handoff_releases v \<subseteq> tk_task_id ` set (ys @ [task]) \<times> UNIV
          \<and> rv_device q' \<union> rv_spill q' \<subseteq> ?base \<union> ?outs (ys @ [task])))
      \<and> (\<not> ?clean task \<longrightarrow> (\<exists>m. replay_task cx u task = Inl (ValueError m)))"
    if B: "?P ys q" "tasks = ys @ task # zs" "walk_task facts (bc_actions_by_task cx) q task = Inr q'"
    for ys task zs q q'
  proof -
    from B(1) obtain u h where u: "foldE (replay_task cx) s ys = Inr u" "tracks facts u q {}" "books u h"
      "bs_handoff_releases u \<subseteq> tk_task_id ` set ys \<times> UNIV"
      "rv_device q \<union> rv_spill q \<subseteq> ?base \<union> ?outs ys" by blast
    obtain admission where adm: "bc_admission_by_task cx (tk_task_id task) = Some admission"
      "set (referenced_aliases admission) \<subseteq> known_aliases facts"
      "ownership_agrees facts (task_actions (bc_actions_by_task cx) (tk_task_id task)) task admission"
      using assms(7) B(2) by auto
    have "object_aliases facts (tk_outputs task) \<inter> (?base \<union> ?outs ys) = {}"
      using assms(10) B(2) unfolding written_once_def by blast
    then have new: "object_aliases facts (tk_outputs task)
        \<inter> (rv_device q \<union> rv_spill q \<union> af_shared_aliases facts) = {}" using u(5) by blast
    have "tk_task_id task \<notin> tk_task_id ` set ys" using assms(11) B(2) by auto
    then have mark: "\<forall>a. (tk_task_id task, a) \<notin> bs_handoff_releases u" using u(4) by blast
    have muts: "mu_object_id ` set (tk_mutations task) \<subseteq> set (tk_inputs task)" using assms(9) B(2) by simp
    note F = task_follows [OF assms(1) u(2,3) adm(1) assms(6) [rule_format, OF adm(1)] adm(2,3)
        spec [OF assms(8)] muts new mark B(3)]
    have "\<exists>v. replay_task cx u task = Inr v \<and> tracks facts v q' {}
        \<and> bs_handoff_releases v \<subseteq> tk_task_id ` set (ys @ [task]) \<times> UNIV
        \<and> rv_device q' \<union> rv_spill q' \<subseteq> ?base \<union> ?outs (ys @ [task])" if "?clean task"
    proof -
      from F(1) [OF that] obtain v where v: "replay_task cx u task = Inr v" "tracks facts v q' {}"
        "bs_handoff_releases v \<subseteq> bs_handoff_releases u \<union> {tk_task_id task} \<times> UNIV"
        "rv_device q' \<union> rv_spill q' \<subseteq> rv_device q \<union> rv_spill q \<union> object_aliases facts (tk_outputs task)"
        by blast
      have "bs_handoff_releases v \<subseteq> tk_task_id ` set (ys @ [task]) \<times> UNIV" using u(4) v(3) by auto
      moreover have "rv_device q' \<union> rv_spill q' \<subseteq> ?base \<union> ?outs (ys @ [task])" using u(5) v(4) by auto
      ultimately show ?thesis using v(1,2) by blast
    qed
    moreover have "\<exists>m. replay_task cx u task = Inl (ValueError m)" if "\<not> ?clean task"
      using F(2) that by blast
    ultimately show ?thesis using u(1,3) adm(1) by blast
  qed
  have follow: "?P ys q" if run: "foldE (walk_task facts (bc_actions_by_task cx)) r ys = Inr q"
    "tasks = ys @ zs" "\<forall>task \<in> set ys. ?clean task" for ys zs q
  proof (rule foldE_invariant [OF run(1), where P = ?P])
    show "?P [] r" by (rule start)
  next
    fix as task bs q q'
    assume B: "?P as q" "ys = as @ task # bs" "walk_task facts (bc_actions_by_task cx) q task = Inr q'"
    have "tasks = as @ task # (bs @ zs)" using run(2) B(2) by simp
    from step [OF B(1) this B(3)] run(3) B(2) obtain admission u h v where
      v: "foldE (replay_task cx) s as = Inr u" "books u h"
        "bc_admission_by_task cx (tk_task_id task) = Some admission"
        "replay_task cx u task = Inr v" "tracks facts v q' {}"
        "bs_handoff_releases v \<subseteq> tk_task_id ` set (as @ [task]) \<times> UNIV"
        "rv_device q' \<union> rv_spill q' \<subseteq> ?base \<union> ?outs (as @ [task])" by auto
    have "\<exists>held. books v held" using books_task [OF v(2) align assms(6) v(4,3)] by blast
    moreover have "foldE (replay_task cx) s (as @ [task]) = Inr v" using v(1,4) by (simp add: foldE_append)
    ultimately show "?P (as @ [task]) q'" using v(5-7) by blast
  qed
  show "\<exists>s'. foldE (replay_task cx) s tasks = Inr s' \<and> tracks facts s' r' {}"
    if "\<forall>task \<in> set tasks. ?clean task"
    using follow [OF assms(12), of "[]"] that by auto
  show "\<exists>m. foldE (replay_task cx) s tasks = Inl (ValueError m)"
    if wb: "task \<in> set tasks" "(j, wb) \<in> set (task_actions (bc_actions_by_task cx) (tk_task_id task))"
      "ma_kind wb = WRITE_BACK"
  proof -
    have "\<exists>task \<in> set tasks. \<not> ?clean task" using wb by blast
    then obtain ys t zs where split: "tasks = ys @ t # zs" "\<not> ?clean t" "\<forall>task \<in> set ys. ?clean task"
      using split_list_first_prop [of tasks "\<lambda>t. \<not> ?clean t"] by blast
    obtain q q' where q: "foldE (walk_task facts (bc_actions_by_task cx)) r ys = Inr q"
      "walk_task facts (bc_actions_by_task cx) q t = Inr q'"
      using assms(12) unfolding split(1) by (auto simp: foldE_append)
    from step [OF follow [OF q(1) split(1,3)] split(1) q(2)] split(2)
    show ?thesis unfolding split(1) by (auto simp: foldE_append)
  qed
qed

lemma complete_owners:
  "foldE complete_retirement s ps = Inr s' \<Longrightarrow> bs_active_aliases s' = bs_active_aliases s"
  by (induction ps arbitrary: s) (auto simp: complete_retirement_def append_operation_Inr_iff)

lemma complete_returns: "\<exists>s'. foldE complete_retirement s ps = Inr s'"
  by (induction ps arbitrary: s)
    (simp_all add: complete_retirement_def append_operation_def construct_def pool_operation_post_init_def)

lemma final_follows:
  assumes "linked cx facts" "owners s = rv_device r - af_shared_aliases facts"
    and "final_residency_reached (bc_schedule cx) facts r = Inr ()"
  shows "validate_final_execution_residency cx s = Inr ()"
proof -
  let ?xs = "ms_final_residency (bc_schedule cx)"
  let ?f = "\<lambda>required residency.
     if rd_location residency \<noteq> DEVICE then Inr required
     else bindE (dict_get (bc_alias_size cx) (rd_alias_group_id residency)) (\<lambda>bytes.
       Inr (if bytes \<noteq> 0 then required @ [rd_alias_group_id residency] else required))"
  have each: "rd_location x = DEVICE \<longrightarrow> (\<exists>b. bc_alias_size cx (rd_alias_group_id x) = Some b
      \<and> (b \<noteq> 0 \<longrightarrow> rd_alias_group_id x \<in> owners s))" if x: "x \<in> set ?xs" for x
  proof
    assume device: "rd_location x = DEVICE"
    obtain i where "(i, x) \<in> set (enumerate 0 ?xs)" using member_enumerate [OF x] by blast
    then have ok: "check_final facts r (i, x) = Inr ()"
      using assms(3) by (auto simp: final_residency_reached_def checkE_Inr_iff)
    then have own: "rd_alias_group_id x \<in> known_aliases facts" "rd_alias_group_id x \<notin> af_shared_aliases facts"
      by (auto simp: check_final_def require_plan_owned_def known_aliases_def)
    obtain b where b: "bc_alias_size cx (rd_alias_group_id x) = Some b"
      "b = 0 \<longleftrightarrow> rd_alias_group_id x \<in> af_zero_size_aliases facts"
      using linked_size [OF assms(1) own(1)] by metis
    have "b \<noteq> 0 \<longrightarrow> rd_alias_group_id x \<in> rv_device r"
      using ok device b(2) by (auto simp: check_final_def split: if_splits)
    then show "\<exists>b. bc_alias_size cx (rd_alias_group_id x) = Some b
        \<and> (b \<noteq> 0 \<longrightarrow> rd_alias_group_id x \<in> owners s)"
      using b(1) own(2) assms(2) by blast
  qed
  have "\<exists>required. foldE ?f [] ?xs = Inr required \<and> set required \<subseteq> owners s"
  proof (rule foldE_total [where P = "\<lambda>_ required. set required \<subseteq> owners s"])
    fix ys x zs required
    assume "set required \<subseteq> owners s" "?xs = ys @ x # zs"
    then show "\<exists>t. ?f required x = Inr t \<and> set t \<subseteq> owners s"
      using each [of x] by (cases "rd_location x") (auto simp: dict_get_def)
  qed simp
  then obtain required where "required_final cx = Inr required" "set required \<subseteq> owners s"
    by (auto simp: required_final_def)
  then show ?thesis
    by (simp add: validate_final_execution_residency_def dom_map_of_conv_image_fst Diff_eq_empty_iff)
qed

end
