(* ===== verification/Admission_Example.thy ===== *)
theory Admission_Example
  imports Admission_Follows
begin

text \<open>
  A training step of two tasks to replay: the first reuses its workspace for its output, the second
  replaces the storage of what it mutates and hands the storage of its input to its output.
\<close>

definition sample_step ::
    "int \<Rightarrow> task_allocation_step_kind \<Rightarrow> int \<Rightarrow> string option \<Rightarrow> int option
     \<Rightarrow> task_allocation_step" where
  "sample_step i k b alias reuse =
     \<lparr>as_allocation_ordinal = i, as_kind = k, as_charged_bytes = b,
      as_output_alias_group_id = alias, as_reuses_allocation_ordinal = reuse\<rparr>"

definition step_program :: shadow_spill_program where
  "step_program =
     \<lparr>pg_devices = [\<lparr>dv_device_id = ''gpu'', dv_process_id = ''0'', dv_kind = ''cuda'', dv_index = 0\<rparr>],
      pg_alias_groups = [sample_group ''w'' 8, sample_group ''x'' 4, sample_group ''a'' 4, sample_group ''b'' 4],
      pg_objects = [sample_object ''W'' ''w'' 8, sample_object ''X'' ''x'' 4, sample_object ''A'' ''a'' 4,
        sample_object ''B'' ''b'' 4],
      pg_profiles = [\<lparr>pf_profile_id = ''p'', pf_runtime_ns = 5, pf_workspace_bytes = 4,
          pf_compatibility_digest = ''d'', pf_resource_phases = [], pf_overlap_costs = []\<rparr>,
        \<lparr>pf_profile_id = ''q'', pf_runtime_ns = 5, pf_workspace_bytes = 8,
          pf_compatibility_digest = ''e'', pf_resource_phases = [], pf_overlap_costs = []\<rparr>],
      pg_tasks = [sample_task ''fwd'' [] [''W'', ''X''] [''A''],
        (sample_task ''opt'' [''fwd''] [''W'', ''A''] [''B''])
          \<lparr>tk_profile_id := ''q'', tk_mutations := [\<lparr>mu_object_id = ''W'', mu_version_delta = 1\<rparr>]\<rparr>],
      pg_task_alternative_groups = []\<rparr>"

definition step_schedule :: "memory_action list \<Rightarrow> memory_schedule" where
  "step_schedule xs =
     \<lparr>ms_initial_residency = [stay ''w'' DEVICE, stay ''x'' DEVICE],
      ms_actions = act ''fwd'' ''x'' EVICT # act ''opt'' ''a'' RELEASE # act ''opt'' ''x'' FETCH # xs,
      ms_final_residency = [stay ''b'' DEVICE, stay ''w'' DEVICE, stay ''x'' DEVICE]\<rparr>"

definition step_facts :: admission_facts where
  "step_facts =
     \<lparr>fx_device_id = ''gpu'', fx_pool_capacity_bytes = 64, fx_object_capacity_bytes = 64,
      fx_minimum_alignment = 8, fx_tasks =
        [\<lparr>ta_task_id = ''fwd'', ta_workspace_extents = [4], ta_fresh_output_aliases = [''a''],
          ta_replacement_aliases = [], ta_storage_handoffs = [],
          ta_allocation_steps = [sample_step 0 STEP_ALLOCATE 4 None None,
            sample_step 0 STEP_RELEASE 0 None None,
            sample_step 1 STEP_ALLOCATE 4 (Some ''a'') (Some 0)]\<rparr>,
         \<lparr>ta_task_id = ''opt'', ta_workspace_extents = [], ta_fresh_output_aliases = [],
          ta_replacement_aliases = [''w''],
          ta_storage_handoffs = [\<lparr>sh_source_alias_group_id = ''a'', sh_destination_alias_group_id = ''b''\<rparr>],
          ta_allocation_steps = [sample_step 0 STEP_ALLOCATE 8 (Some ''w'') None]\<rparr>]\<rparr>"

definition step_tasks :: "task_spec list" where "step_tasks = pg_tasks step_program"

lemma step_program_valid: "valid_program step_program"
  by code_simp

lemma step_facts_valid: "valid_facts step_facts"
  by code_simp

lemma step_schedule_accepted:
  "memory_schedule_post_init (step_schedule []) = Inr ()"
  "memory_schedule_post_init (step_schedule [act ''opt'' ''b'' WRITE_BACK]) = Inr ()"
  by code_simp+

lemma step_schedule_valid:
  "validate_schedule (step_schedule []) step_program [] = Inr ()"
  "validate_schedule (step_schedule [act ''opt'' ''b'' WRITE_BACK]) step_program [] = Inr ()"
  by code_simp+

lemma step_facts_fit: "validate_facts step_facts step_program = Inr ()"
  by code_simp

lemma step_tasks_selected: "select_tasks step_program [] = Inr step_tasks"
  by code_simp

definition step_context :: "memory_action list \<Rightarrow> builder_context" where
  "step_context xs =
     (case builder_context_of step_program (step_schedule xs) [] step_facts of Inr cx \<Rightarrow> cx)"

lemma step_context: "builder_context_of step_program (step_schedule xs) [] step_facts = Inr (step_context xs)"
  by (simp add: step_context_def builder_context_of_def step_tasks_selected)

lemma step_context_tasks: "bc_tasks (step_context xs) = step_tasks"
  by (simp add: step_context_def builder_context_of_def step_tasks_selected)

text \<open>The agreement of facts and program, in a form that computes.\<close>

lemma object_aliases_code [code]:
  "object_aliases facts objects =
     set (List.map_filter (af_object_alias facts) objects) - af_zero_size_aliases facts"
  unfolding object_aliases_def by (force simp: List.map_filter_def)

lemma written_once_code [code]:
  "written_once facts schedule tasks \<longleftrightarrow>
     (\<forall>k \<in> set [0..<length tasks].
        object_aliases facts (tk_outputs (tasks ! k)) \<inter>
          (af_shared_aliases facts \<union> retained_aliases facts
           \<union> rd_alias_group_id ` set (ms_initial_residency schedule)
           \<union> (\<Union>u \<in> set (take k tasks). object_aliases facts (tk_outputs u))) = {})"
  (is "_ = ?indexed")
proof
  assume ?indexed
  then show "written_once facts schedule tasks"
    unfolding written_once_def by (fastforce simp: nth_append)
next
  assume written: "written_once facts schedule tasks"
  show ?indexed
  proof
    fix k assume "k \<in> set [0..<length tasks]"
    then have "tasks = take k tasks @ tasks ! k # drop (Suc k) tasks"
      by (simp add: id_take_nth_drop)
    then show "object_aliases facts (tk_outputs (tasks ! k)) \<inter>
          (af_shared_aliases facts \<union> retained_aliases facts
           \<union> rd_alias_group_id ` set (ms_initial_residency schedule)
           \<union> (\<Union>u \<in> set (take k tasks). object_aliases facts (tk_outputs u))) = {}"
      using written unfolding written_once_def by blast
  qed
qed

definition step_alias_facts :: alias_facts where
  "step_alias_facts =
     (case alias_facts_of step_program step_tasks (ms_final_residency (step_schedule [])) of
        Inr facts \<Rightarrow> facts)"

lemma step_alias_facts:
  "alias_facts_of step_program step_tasks (ms_final_residency (step_schedule xs)) = Inr step_alias_facts"
proof -
  have "case alias_facts_of step_program step_tasks (ms_final_residency (step_schedule [])) of
      Inl e \<Rightarrow> False | Inr facts \<Rightarrow> True"
    by code_simp
  then show ?thesis by (auto simp: step_alias_facts_def step_schedule_def split: sum.splits)
qed

lemma step_facts_agree:
  "facts_own_writes step_alias_facts (step_schedule []) step_tasks step_facts"
  "facts_own_writes step_alias_facts (step_schedule [act ''opt'' ''b'' WRITE_BACK]) step_tasks step_facts"
  by code_simp+


section \<open>Its replay\<close>

lemma step_alias_sizes:
  "bc_alias_size (step_context xs) ''w'' = Some 8"
  "bc_alias_size (step_context xs) ''x'' = Some 4"
  "bc_alias_size (step_context xs) ''a'' = Some 4"
  "bc_alias_size (step_context xs) ''b'' = Some 4"
  "bc_alignment (step_context xs) = 8"
  "bc_shared_aliases (step_context xs) = {}"
  by code_simp+

lemma step_objects:
  "bc_alias_by_object (step_context xs) ''W'' = Some ''w''"
  "bc_alias_by_object (step_context xs) ''X'' = Some ''x''"
  "bc_alias_by_object (step_context xs) ''A'' = Some ''a''"
  "bc_alias_by_object (step_context xs) ''B'' = Some ''b''"
  by code_simp+

lemma step_actions:
  "task_actions (bc_actions_by_task (step_context [])) ''fwd'' = [(0, act ''fwd'' ''x'' EVICT)]"
  "task_actions (bc_actions_by_task (step_context [])) ''opt'' =
     [(1, act ''opt'' ''a'' RELEASE), (2, act ''opt'' ''x'' FETCH)]"
  by code_simp+

lemma step_admissions:
  "bc_schedule (step_context xs) = step_schedule xs"
  "bc_admission_by_task (step_context xs) ''fwd'' = Some (hd (fx_tasks step_facts))"
  "bc_admission_by_task (step_context xs) ''opt'' = Some (fx_tasks step_facts ! 1)"
  by (simp_all add: step_context_def builder_context_of_def step_tasks_selected step_facts_def
      dict_of_def)

lemmas builder_defs = new_lease_id_def new_dependency_id_def task_dependency_def append_operation_def
  construct_def pool_operation_post_init_def acquire_def acquire_task_def retire_def
  begin_task_retirement_def set_active_def pop_active_def dict_get_def new_builder_def Let_def

lemmas replay_defs = build_def acquire_initial_objects_def acquire_initial_object_def replay_task_def
  validate_task_inputs_def missing_inputs_def fromkeys_def acquire_task_allocations_def
  allocation_step_def step_lease_def no_allocations_def reused_ordinals_def allocation_purpose_def
  workspace_bytes_def workspace_provenance_def publish_handoff_def publish_replacement_def
  publish_output_def replay_actions_def replay_action_def remove_active_alias_def
  complete_pending_retirements_def complete_retirement_def completion_provenance_def
  validate_final_execution_residency_def required_final_def

text \<open>
  The evicted lease 1 is retired under dependency 0, the replaced lease 0 under dependency 1; the
  workspace, released and allocated again, and the storage handed over stay lease 2.
\<close>

lemma step_build:
  "\<exists>s. build (step_context []) = Inr s
     \<and> map (\<lambda>x. (po_lease_id (rt_operation x), po_kind (rt_operation x))) (bs_operations s) =
         [(0, RESERVE), (0, ACQUIRE_RESERVED), (1, RESERVE), (1, ACQUIRE_RESERVED), (2, ACQUIRE),
          (1, BEGIN_RETIREMENT), (3, ACQUIRE), (0, BEGIN_RETIREMENT), (4, RESERVE),
          (4, ACQUIRE_RESERVED), (1, COMPLETE_RETIREMENT), (0, COMPLETE_RETIREMENT)]
     \<and> map pr_lease_id (bs_pending_retirements s) = [1, 0]
     \<and> bs_active_aliases s = [(''w'', 3), (''b'', 2), (''x'', 4)] \<and> bs_next_lease_id s = 5"
  by (simp add: builder_defs replay_defs step_alias_sizes step_objects step_actions step_admissions
      step_context_tasks step_tasks_def step_program_def step_schedule_def step_facts_def
      sample_step_def sample_task_def)

text \<open>A pool that reuses the block of the evicted lease for the fetch that follows.\<close>

definition step_result :: "unit pool_result" where
  "step_result =
     \<lparr>pl_dependencies = [\<lparr>rx_predecessor_lease_id = 1, rx_successor_lease_id = 4,
        rx_dependency_id = 0, rx_consumer_operation_index = 8\<rparr>],
      pl_decision_digest = 7, pl_report = ()\<rparr>"

definition step_pool :: "unit replay_pool" where
  "step_pool capacity operations lease_count dependency_count alignment = Inr step_result"

end
