(* ===== verification/Admission_Properties.thy ===== *)
theory Admission_Properties
  imports Admission_Example
begin

text \<open>
  What the replay of a schedule into pool operations promises: its script is a ledger the pool can
  keep, it is built for every validated schedule the facts agree with, and the one kind of action
  it cannot replay.
\<close>

section \<open>The context of a program and its facts\<close>

lemma alias_facts_Inr:
  assumes "alias_facts_of program tasks final = Inr facts"
  shows "alias_by_id facts = dict_of (map (\<lambda>g. (ag_alias_group_id g, g)) (pg_alias_groups program))"
    and "af_object_alias facts = dict_of (map (\<lambda>b. (ob_object_id b, ob_alias_group_id b)) (pg_objects program))"
    and "af_shared_aliases facts =
      ag_alias_group_id ` set (filter (\<lambda>g. ag_shared_residency g \<noteq> None) (pg_alias_groups program))"
    and "af_zero_size_aliases facts =
      ag_alias_group_id ` set (filter (\<lambda>g. ag_size_bytes g = 0) (pg_alias_groups program))"
  using assms by (auto simp: alias_facts_of_def Let_def alias_by_id_def)

lemma valid_program_well_formed: "valid_program program \<Longrightarrow> well_formed program"
  by (simp add: valid_program_def program_post_init_well_formed)

lemma known_alias_groups:
  assumes "alias_facts_of program tasks final = Inr facts"
  shows "known_aliases facts = ag_alias_group_id ` set (pg_alias_groups program)"
  unfolding known_aliases_def alias_facts_Inr(1) [OF assms] by (simp add: dict_of_dom image_image)

lemma valid_facts_admissions:
  assumes "valid_facts facts"
  shows "0 \<le> fx_minimum_alignment facts" "distinct (map ta_task_id (fx_tasks facts))"
    "\<forall>x \<in> set (fx_tasks facts). valid_admission x"
  using assms by (auto simp: valid_facts_def admission_facts_post_init_def split: if_splits)

lemma context_linked:
  assumes "valid_program program" "valid_facts facts"
    and "builder_context_of program schedule selections facts = Inr cx"
    and "alias_facts_of program tasks final = Inr alias_facts"
  shows "linked cx alias_facts"
proof -
  have cx: "bc_alias_by_object cx = dict_of (map (\<lambda>b. (ob_object_id b, ob_alias_group_id b)) (pg_objects program))"
    "bc_shared_aliases cx =
      ag_alias_group_id ` set (filter (\<lambda>g. ag_shared_residency g \<noteq> None) (pg_alias_groups program))"
    "bc_alias_size cx = dict_of (map (\<lambda>g. (ag_alias_group_id g, ag_size_bytes g)) (pg_alias_groups program))"
    "bc_alignment cx = fx_minimum_alignment facts"
    using assms(3) by (auto simp: builder_context_of_def)
  note A = alias_facts_Inr [OF assms(4)] and W = valid_program_well_formed [OF assms(1)]
  have distinct: "distinct (map ag_alias_group_id (pg_alias_groups program))"
    using W by (simp add: well_formed_def)
  have sizes: "\<exists>b \<ge> 0. bc_alias_size cx a = Some b \<and> (b = 0 \<longleftrightarrow> a \<in> af_zero_size_aliases alias_facts)"
    if "a \<in> known_aliases alias_facts" for a
  proof -
    obtain g where g: "g \<in> set (pg_alias_groups program)" "a = ag_alias_group_id g"
      using \<open>a \<in> known_aliases alias_facts\<close> unfolding known_alias_groups [OF assms(4)] by blast
    have "bc_alias_size cx a = Some (ag_size_bytes g)"
      unfolding cx(3) by (rule dict_of_distinct) (use g distinct in \<open>auto simp: comp_def\<close>)
    moreover have "0 \<le> ag_size_bytes g"
      using assms(1) g(1)
      by (auto simp: valid_program_def valid_alias_group_def alias_group_spec_post_init_def bindE_Inr_iff)
    moreover have "g = h" if "h \<in> set (pg_alias_groups program)" "ag_alias_group_id h = a" for h
      using distinct that g by (auto simp: distinct_map dest: inj_onD)
    then have "ag_size_bytes g = 0 \<longleftrightarrow> a \<in> af_zero_size_aliases alias_facts"
      unfolding A(4) using g by force
    ultimately show ?thesis by blast
  qed
  have "ran (af_object_alias alias_facts) \<subseteq> known_aliases alias_facts"
  proof
    fix a
    assume "a \<in> ran (af_object_alias alias_facts)"
    then obtain x where "af_object_alias alias_facts x = Some a" by (auto simp: ran_def)
    then obtain b where "b \<in> set (pg_objects program)" "ob_alias_group_id b = a"
      using dict_of_SomeD [of "map (\<lambda>b. (ob_object_id b, ob_alias_group_id b)) (pg_objects program)" x a]
      unfolding A(2) by auto
    then show "a \<in> known_aliases alias_facts"
      using W unfolding known_alias_groups [OF assms(4)] well_formed_def by force
  qed
  then show ?thesis
    unfolding linked_def using cx A sizes valid_facts_admissions(1) [OF assms(2)] by simp
qed

lemma context_admissions:
  assumes "valid_facts facts" "builder_context_of program schedule selections facts = Inr cx"
  shows "bc_admission_by_task cx t = Some admission \<longleftrightarrow>
      admission \<in> set (fx_tasks facts) \<and> ta_task_id admission = t"
    and "bc_schedule cx = schedule" "bc_actions_by_task cx = index_actions schedule"
    and "select_tasks program selections = Inr (bc_tasks cx)"
    and "bc_alignment cx = fx_minimum_alignment facts"
proof -
  have cx: "bc_admission_by_task cx = dict_of (map (\<lambda>x. (ta_task_id x, x)) (fx_tasks facts))"
    and rest: "bc_schedule cx = schedule" "bc_actions_by_task cx = index_actions schedule"
      "select_tasks program selections = Inr (bc_tasks cx)" "bc_alignment cx = fx_minimum_alignment facts"
    using assms(2) by (auto simp: builder_context_of_def)
  show "bc_admission_by_task cx t = Some admission \<longleftrightarrow>
      admission \<in> set (fx_tasks facts) \<and> ta_task_id admission = t"
    unfolding cx using dict_of_records [of ta_task_id "fx_tasks facts" t admission]
      dict_of_distinct [of "map (\<lambda>x. (ta_task_id x, x)) (fx_tasks facts)" t admission]
      valid_facts_admissions(2) [OF assms(1)]
    by (auto simp: comp_def)
qed (use assms(2) in \<open>auto simp: builder_context_of_def\<close>)


section \<open>The script as a ledger\<close>

lemma script_closed:
  assumes "valid_facts facts" "memory_schedule_post_init schedule = Inr ()"
    and "builder_context_of program schedule selections facts = Inr cx" "build cx = Inr s"
  shows "\<exists>held L. closed_books s held L
    \<and> ((\<forall>admission \<in> set (fx_tasks facts). unowned_free cx admission) \<longrightarrow> held = {})"
proof -
  note C = context_admissions [OF assms(1,3)] and V = valid_facts_admissions [OF assms(1)]
  have "distinct (map rd_alias_group_id (ms_initial_residency (bc_schedule cx)))"
    using assms(2) C(2) by (auto simp: memory_schedule_post_init_def index_unique_run)
  moreover have "\<forall>t admission. bc_admission_by_task cx t = Some admission \<longrightarrow> valid_admission admission"
    using C(1) V(3) by blast
  ultimately obtain held L where L: "closed_books s held L"
    "(\<forall>task \<in> set (bc_tasks cx). \<forall>admission. bc_admission_by_task cx (tk_task_id task) = Some admission
      \<longrightarrow> unowned_free cx admission) \<longrightarrow> held = {}"
    using books_build [OF assms(4)] V(1) C(5) by metis
  then show ?thesis using C(1) by blast
qed

lemma script_provenance:
  assumes "valid_facts facts" "memory_schedule_post_init schedule = Inr ()"
    and "builder_context_of program schedule selections facts = Inr cx" "build cx = Inr s"
  shows "dom (bs_lease_provenance s) = {..<bs_next_lease_id s}"
  using script_closed [OF assms] by (auto simp: closed_books_def)

lemma mapE_returns: "(\<And>x e. x \<in> set xs \<Longrightarrow> f x \<noteq> Inl e) \<Longrightarrow> \<exists>ys. mapE f xs = Inr ys"
proof (induction xs)
  case (Cons x xs)
  then obtain ys where "mapE f xs = Inr ys" by auto
  then show ?case using Cons.prems [of x] by (cases "f x") auto
qed simp

text \<open>
  C13. The script built from facts and a schedule that passed their constructors is one the pool can
  keep: operations are numbered from zero in order, every lease below the lease count is taken
  with a positive size, used, and retired at most once, under a dependency below the
  dependency count that its completion names again; at the end each lease is retired or in
  use, and the aliases that own a lease own different ones, all in use. Unless a task replaces an
  alias without bytes, no lease is left in use without an owner.
\<close>

theorem replay_script_lifecycle:
  assumes "valid_facts facts" and "memory_schedule_post_init schedule = Inr ()"
    and "builder_context_of program schedule selections facts = Inr cx" and "build cx = Inr s"
  shows "\<exists>ledger. ledger_run (map rt_operation (bs_operations s)) Map.empty = Some ledger
    \<and> map (po_sequence \<circ> rt_operation) (bs_operations s) = [0..<length (bs_operations s)]
    \<and> bounded (bs_next_dependency_id s) (bs_operations s)
    \<and> dom ledger = {..<bs_next_lease_id s} \<and> ran ledger \<subseteq> {In_Use, Retired}
    \<and> inj_on (active_lease s) (dom (active_lease s)) \<and> ran (active_lease s) \<subseteq> in_use ledger
    \<and> ((\<forall>admission \<in> set (fx_tasks facts). unowned_free cx admission) \<longrightarrow>
         in_use ledger = ran (active_lease s))"
proof -
  from script_closed [OF assms] obtain held L where L: "closed_books s held L"
    "(\<forall>admission \<in> set (fx_tasks facts). unowned_free cx admission) \<longrightarrow> held = {}" by blast
  have "map (po_sequence \<circ> rt_operation) (bs_operations s) = [0..<length (bs_operations s)]"
    using L(1) by (intro nth_equalityI) (simp_all add: closed_books_def numbered_def)
  then show ?thesis
    using L unfolding closed_books_def ledger_of_def by (intro exI [of _ L]) auto
qed

theorem replay_script_lifecycle_witness:
  "\<exists>s ledger. build (step_context []) = Inr s
     \<and> ledger_run (map rt_operation (bs_operations s)) Map.empty = Some ledger
     \<and> in_use ledger = {2, 3, 4} \<and> dom ledger = {..<5}"
proof -
  obtain s where s: "build (step_context []) = Inr s"
    "bs_active_aliases s = [(''w'', 3), (''b'', 2), (''x'', 4)]" "bs_next_lease_id s = 5"
    using step_build by (elim exE conjE) (rule that)
  have free: "\<forall>admission \<in> set (fx_tasks step_facts). unowned_free (step_context []) admission"
    by code_simp
  have "ran (active_lease s) = {3, 2, 4}" by (subst ran_distinct) (simp_all add: s(2))
  moreover obtain ledger where "ledger_run (map rt_operation (bs_operations s)) Map.empty = Some ledger"
    "dom ledger = {..<bs_next_lease_id s}" "in_use ledger = ran (active_lease s)"
    using replay_script_lifecycle [OF step_facts_valid step_schedule_accepted(1) step_context s(1)] free
    by blast
  ultimately show ?thesis using s(1,3) by (metis insert_commute)
qed



section \<open>The replay of a validated schedule\<close>

lemma selected_task_checked:
  assumes "valid_program program" "select_tasks program selections = Inr tasks"
  shows "distinct (map tk_task_id tasks)"
    and "task \<in> set tasks \<Longrightarrow> mu_object_id ` set (tk_mutations task) \<subseteq> set (tk_inputs task)"
    and "task \<in> set tasks \<Longrightarrow> tk_task_id task \<in> tk_task_id ` set (pg_tasks program)"
proof -
  note S = select_tasks_Inr(1) [OF assms] and W = valid_program_well_formed [OF assms(1)]
  have ids: "distinct (map tk_task_id (pg_tasks program))" using W by (simp add: well_formed_def)
  show "distinct (map tk_task_id tasks)"
    unfolding S using ids by (simp add: comp_def distinct_map_filter)
  show "tk_task_id task \<in> tk_task_id ` set (pg_tasks program)" if "task \<in> set tasks"
    using that unfolding S by auto
  show "mu_object_id ` set (tk_mutations task) \<subseteq> set (tk_inputs task)" if "task \<in> set tasks"
  proof -
    obtain u where u: "u \<in> set (pg_tasks program)" "tk_mutations task = tk_mutations u"
      "tk_inputs task = tk_inputs u"
    proof -
      obtain u where "u \<in> set (pg_tasks program)" "task = u\<lparr>tk_dependencies := filter
          (\<lambda>d. d \<in> tk_task_id ` set (pg_tasks program) \<and> takes_part program selections d)
          (tk_dependencies u)\<rparr>"
        using \<open>task \<in> set tasks\<close> unfolding S by auto
      then show thesis by (intro that) simp_all
    qed
    obtain before after where "pg_tasks program = before @ u # after" using split_list [OF u(1)] by blast
    from well_formed_task [OF W this] show ?thesis using u(2,3) by (simp add: task_in_program_def)
  qed
qed

lemma referenced_known:
  assumes "validate_facts facts program = Inr ()" "admission \<in> set (fx_tasks facts)"
    and "alias_facts_of program tasks final = Inr alias_facts"
  shows "set (referenced_aliases admission) \<subseteq> known_aliases alias_facts"
  using assms(1,2) unfolding known_alias_groups [OF assms(3)]
  by (auto simp: validate_facts_def Let_def checkE_Inr_iff split: if_splits)

text \<open>Every action of an accepted schedule is triggered by an active task and indexed under it.\<close>

lemma ordered_actions_all:
  assumes "ordered_actions schedule alias_facts = Inr by_task" "x \<in> set (ms_actions schedule)"
  shows "\<exists>i. (i, x) \<in> set (task_actions by_task (ma_trigger_task_id x))"
    and "ma_trigger_task_id x \<in> dom (af_task_order alias_facts)"
proof -
  obtain trig where run: "foldE (order_action alias_facts) (- 1, Map.empty) (enumerate 0 (ms_actions schedule))
      = Inr (trig, by_task)"
    using assms(1) by (auto simp: ordered_actions_def)
  let ?P = "\<lambda>(ys :: (nat \<times> memory_action) list) (st :: int \<times> (string \<rightharpoonup> (nat \<times> memory_action) list)).
    \<forall>y \<in> set ys. y \<in> set (task_actions (snd st) (ma_trigger_task_id (snd y)))
      \<and> ma_trigger_task_id (snd y) \<in> dom (af_task_order alias_facts)"
  have "?P (enumerate 0 (ms_actions schedule)) (trig, by_task)"
  proof (rule foldE_invariant [OF run, where P = ?P])
    fix ys y zs st st'
    assume B: "?P ys st" "order_action alias_facts st y = Inr st'"
    have "ma_trigger_task_id (snd y) \<in> dom (af_task_order alias_facts)"
      using B(2) by (cases st; cases y) (auto simp: order_action_def)
    then show "?P (ys @ [y]) st'" using B(1) by (auto simp: order_action_Inr [OF B(2)])
  qed simp
  moreover obtain i where "(i, x) \<in> set (enumerate 0 (ms_actions schedule))"
    using member_enumerate [OF assms(2)] by blast
  ultimately show "\<exists>i. (i, x) \<in> set (task_actions by_task (ma_trigger_task_id x))"
    "ma_trigger_task_id x \<in> dom (af_task_order alias_facts)" by fastforce+
qed

lemma active_task_order:
  assumes "alias_facts_of program tasks final = Inr alias_facts"
  shows "dom (af_task_order alias_facts) = tk_task_id ` set tasks"
proof -
  have order: "af_task_order alias_facts
      = dict_of (map (\<lambda>(index, task). (tk_task_id task, index)) (enumerate 0 tasks))"
    using assms by (auto simp: alias_facts_of_def Let_def)
  have "map (fst \<circ> (\<lambda>(index, task). (tk_task_id task, index))) (enumerate 0 tasks)
      = map tk_task_id (map snd (enumerate 0 tasks))"
    using map_map [of tk_task_id snd "enumerate 0 tasks"] by (simp add: case_prod_beta comp_def)
  then have "fst ` set (map (\<lambda>(index, task). (tk_task_id task, index)) (enumerate 0 tasks))
      = tk_task_id ` set tasks"
    by (metis list.set_map map_map map_snd_enumerate)
  then show ?thesis unfolding order dict_of_dom .
qed

text \<open>The replay up to the tasks, and what running the tasks comes to.\<close>

lemma replay_reaches_tasks:
  assumes "valid_program program" "valid_facts facts" "memory_schedule_post_init schedule = Inr ()"
    and "validate_schedule schedule program selections = Inr ()" "validate_facts facts program = Inr ()"
    and "builder_context_of program schedule selections facts = Inr cx"
    and "alias_facts_of program (bc_tasks cx) (ms_final_residency schedule) = Inr alias_facts"
    and "facts_own_writes alias_facts schedule (bc_tasks cx) facts"
  shows "\<exists>s r r'. acquire_initial_objects cx new_builder = Inr s
    \<and> initial_residency_of schedule alias_facts = Inr r
    \<and> walk_tasks schedule (bc_tasks cx) alias_facts r = Inr r'
    \<and> final_residency_reached schedule alias_facts r' = Inr ()
    \<and> ((\<forall>x \<in> set (ms_actions schedule). ma_kind x \<noteq> WRITE_BACK) \<longrightarrow>
         (\<exists>s'. foldE (replay_task cx) s (bc_tasks cx) = Inr s' \<and> tracks alias_facts s' r' {}))
    \<and> ((\<exists>x \<in> set (ms_actions schedule). ma_kind x = WRITE_BACK) \<longrightarrow>
         (\<exists>m. foldE (replay_task cx) s (bc_tasks cx) = Inl (ValueError m)))"
proof -
  note C = context_admissions [OF assms(2,6)] and V = valid_facts_admissions [OF assms(2)]
  note linked = context_linked [OF assms(1,2,6,7)] and S = selected_task_checked [OF assms(1) C(4)]
  have "validate_selected schedule program (bc_tasks cx) = Inr ()"
    using assms(4) C(4) by (simp add: validate_schedule_def)
  then obtain r r' where R: "initial_residency_of schedule alias_facts = Inr r"
    "walk_tasks schedule (bc_tasks cx) alias_facts r = Inr r'"
    "final_residency_reached schedule alias_facts r' = Inr ()"
    using assms(7) by (auto simp: validate_selected_def)
  then obtain by_task where walk: "ordered_actions schedule alias_facts = Inr by_task"
    "foldE (walk_task alias_facts by_task) r (bc_tasks cx) = Inr r'"
    by (auto simp: walk_tasks_def)
  note O = ordered_actions_index [OF walk(1)]
  have same: "by_task = bc_actions_by_task cx" using O(1) C(3) by simp
  obtain s where s: "acquire_initial_objects cx new_builder = Inr s" "tracks alias_facts s r {}"
    "bs_handoff_releases s = {}"
    "rv_device r \<union> rv_spill r \<subseteq> af_shared_aliases alias_facts \<union> retained_aliases alias_facts
        \<union> rd_alias_group_id ` set (ms_initial_residency (bc_schedule cx))"
    using initial_follows [OF linked] R(1) C(2) by metis
  have "distinct (map rd_alias_group_id (ms_initial_residency (bc_schedule cx)))"
    using assms(3) C(2) by (auto simp: memory_schedule_post_init_def index_unique_run)
  from books_initial_objects [OF this s(1)] have books: "books s {}" .
  have valid: "\<forall>t admission. bc_admission_by_task cx t = Some admission \<longrightarrow> valid_admission admission"
    using C(1) V(3) by blast
  have agrees: "\<forall>task \<in> set (bc_tasks cx). \<exists>admission.
      bc_admission_by_task cx (tk_task_id task) = Some admission
      \<and> set (referenced_aliases admission) \<subseteq> known_aliases alias_facts
      \<and> ownership_agrees alias_facts (task_actions (bc_actions_by_task cx) (tk_task_id task)) task admission"
  proof
    fix task
    assume task: "task \<in> set (bc_tasks cx)"
    have "map ta_task_id (fx_tasks facts) = map tk_task_id (pg_tasks program)"
      using assms(5) by (auto simp: validate_facts_def Let_def split: if_splits)
    then have "tk_task_id task \<in> ta_task_id ` set (fx_tasks facts)"
      using S(3) [OF task] by (metis set_map)
    then obtain admission where adm: "admission \<in> set (fx_tasks facts)" "ta_task_id admission = tk_task_id task"
      by auto
    then show "\<exists>admission. bc_admission_by_task cx (tk_task_id task) = Some admission
      \<and> set (referenced_aliases admission) \<subseteq> known_aliases alias_facts
      \<and> ownership_agrees alias_facts (task_actions (bc_actions_by_task cx) (tk_task_id task)) task admission"
      using C(1,3) referenced_known [OF assms(5) adm(1) assms(7)] assms(8) task
      by (auto simp: facts_own_writes_def)
  qed
  have owned: "\<forall>t. \<forall>(i, x) \<in> set (task_actions (bc_actions_by_task cx) t).
      plan_owned alias_facts (ma_alias_group_id x)"
    using O(2) same by auto
  have muts: "\<forall>task \<in> set (bc_tasks cx). mu_object_id ` set (tk_mutations task) \<subseteq> set (tk_inputs task)"
    using S(2) by blast
  have once: "written_once alias_facts (bc_schedule cx) (bc_tasks cx)"
    using assms(8) C(2) by (simp add: facts_own_writes_def)
  note F = tasks_follow [OF linked s(2) books s(3,4) valid agrees owned muts once S(1)
      walk(2) [unfolded same]]
  have members: "x \<in> set (ms_actions schedule)" if "(i, x) \<in> set (task_actions (bc_actions_by_task cx) t)"
    for i x t
    using ordered_actions_positions [OF walk(1), of i x t] that same by auto
  have clean: "\<exists>s'. foldE (replay_task cx) s (bc_tasks cx) = Inr s' \<and> tracks alias_facts s' r' {}"
    if "\<forall>x \<in> set (ms_actions schedule). ma_kind x \<noteq> WRITE_BACK"
    using F(1) members that by blast
  have "\<exists>m. foldE (replay_task cx) s (bc_tasks cx) = Inl (ValueError m)"
    if wb: "\<exists>x \<in> set (ms_actions schedule). ma_kind x = WRITE_BACK"
  proof -
    obtain x where x: "x \<in> set (ms_actions schedule)" "ma_kind x = WRITE_BACK" using wb by blast
    note A = ordered_actions_all [OF walk(1) x(1)]
    obtain i where i: "(i, x) \<in> set (task_actions (bc_actions_by_task cx) (ma_trigger_task_id x))"
      using A(1) same by blast
    obtain task where "task \<in> set (bc_tasks cx)" "ma_trigger_task_id x = tk_task_id task"
      using A(2) unfolding active_task_order [OF assms(7)] by blast
    then show ?thesis using F(2) i x(2) by metis
  qed
  then show ?thesis using s(1) R clean by blast
qed

lemma replay_builds:
  assumes "valid_program program" and "valid_facts facts"
    and "memory_schedule_post_init schedule = Inr ()"
    and "validate_schedule schedule program selections = Inr ()"
    and "validate_facts facts program = Inr ()"
    and "builder_context_of program schedule selections facts = Inr cx"
    and "alias_facts_of program (bc_tasks cx) (ms_final_residency schedule) = Inr alias_facts"
    and "facts_own_writes alias_facts schedule (bc_tasks cx) facts"
    and "\<forall>x \<in> set (ms_actions schedule). ma_kind x \<noteq> WRITE_BACK"
  shows "\<exists>s r r'. build cx = Inr s
    \<and> initial_residency_of schedule alias_facts = Inr r
    \<and> walk_tasks schedule (bc_tasks cx) alias_facts r = Inr r'
    \<and> set (final_aliases s) = rv_device r' - af_shared_aliases alias_facts"
proof -
  from replay_reaches_tasks [OF assms(1-8)] assms(9) obtain s0 r r' s1 where R:
    "acquire_initial_objects cx new_builder = Inr s0"
    "initial_residency_of schedule alias_facts = Inr r"
    "walk_tasks schedule (bc_tasks cx) alias_facts r = Inr r'"
    "final_residency_reached schedule alias_facts r' = Inr ()"
    "foldE (replay_task cx) s0 (bc_tasks cx) = Inr s1" "tracks alias_facts s1 r' {}" by blast
  obtain s where s: "complete_pending_retirements s1 = Inr s"
    using complete_returns by (auto simp: complete_pending_retirements_def)
  have owners: "owners s = rv_device r' - af_shared_aliases alias_facts"
    using R(6) complete_owners [OF s [unfolded complete_pending_retirements_def]]
    by (simp add: tracks_def)
  note C = context_admissions [OF assms(2,6)]
  have "validate_final_execution_residency cx s = Inr ()"
    by (rule final_follows [OF context_linked [OF assms(1,2,6,7)] owners]) (use R(4) C(2) in simp)
  then have "build cx = Inr s" using R(1,5) s by (simp add: build_def)
  moreover have "set (final_aliases s) = rv_device r' - af_shared_aliases alias_facts"
    using owners by (simp add: final_aliases_def dom_map_of_conv_image_fst)
  ultimately show ?thesis using R(2,3) by blast
qed

text \<open>
  C12. A schedule that validates is replayed to the end when the facts own what the tasks write and no
  action is a write-back: the builder returns a script, and the aliases that own a lease
  afterwards are the aliases the validation leaves resident, without those the runtime owns.
  With a pool that accepts the script and reports reuse between a retired lease and a known one,
  the whole replay returns its certificate.
\<close>

theorem replay_follows_schedule:
  assumes "valid_program program" and "valid_facts facts"
    and "memory_schedule_post_init schedule = Inr ()"
    and "validate_schedule schedule program selections = Inr ()"
    and "validate_facts facts program = Inr ()"
    and "builder_context_of program schedule selections facts = Inr cx"
    and "alias_facts_of program (bc_tasks cx) (ms_final_residency schedule) = Inr alias_facts"
    and "facts_own_writes alias_facts schedule (bc_tasks cx) facts"
    and "\<forall>x \<in> set (ms_actions schedule). ma_kind x \<noteq> WRITE_BACK"
  shows "\<exists>s r r'. build cx = Inr s
    \<and> initial_residency_of schedule alias_facts = Inr r
    \<and> walk_tasks schedule (bc_tasks cx) alias_facts r = Inr r'
    \<and> set (final_aliases s) = rv_device r' - af_shared_aliases alias_facts
    \<and> (\<forall>digests pool result.
         pool (fx_pool_capacity_bytes facts) (map rt_operation (bs_operations s)) (bs_next_lease_id s)
           (bs_next_dependency_id s) (fx_minimum_alignment facts) = Inr result
         \<and> (\<forall>d \<in> set (pl_dependencies result).
              rx_predecessor_lease_id d \<in> pr_lease_id ` set (bs_pending_retirements s)
              \<and> rx_successor_lease_id d < bs_next_lease_id s) \<longrightarrow>
         (\<exists>replay. replay_admission digests pool program schedule facts selections = Inr replay
            \<and> ar_operations replay = bs_operations s
            \<and> length (ar_dependencies replay) = length (pl_dependencies result)))"
proof -
  obtain s r r' where R: "build cx = Inr s" "initial_residency_of schedule alias_facts = Inr r"
    "walk_tasks schedule (bc_tasks cx) alias_facts r = Inr r'"
    "set (final_aliases s) = rv_device r' - af_shared_aliases alias_facts"
    using replay_builds [OF assms] by blast
  note build = R(1)
  have "\<exists>replay. replay_admission digests pool program schedule facts selections = Inr replay
      \<and> ar_operations replay = bs_operations s
      \<and> length (ar_dependencies replay) = length (pl_dependencies result)"
    if pool: "pool (fx_pool_capacity_bytes facts) (map rt_operation (bs_operations s)) (bs_next_lease_id s)
        (bs_next_dependency_id s) (fx_minimum_alignment facts) = Inr result"
      and reuse: "\<forall>d \<in> set (pl_dependencies result).
        rx_predecessor_lease_id d \<in> pr_lease_id ` set (bs_pending_retirements s)
        \<and> rx_successor_lease_id d < bs_next_lease_id s"
    for digests and pool :: "'a replay_pool" and result
  proof -
    let ?pending = "dict_of (map (\<lambda>x. (pr_lease_id x, x)) (bs_pending_retirements s))"
    have "resolve_dependency ?pending (bs_lease_provenance s) d \<noteq> Inl e"
      if "d \<in> set (pl_dependencies result)" for d e
    proof -
      have "rx_predecessor_lease_id d \<in> dom ?pending"
        using reuse that by (simp add: dict_of_dom image_image)
      moreover have "rx_successor_lease_id d \<in> dom (bs_lease_provenance s)"
        using reuse that script_provenance [OF assms(2,3,6) build] by simp
      ultimately obtain pending successor where
        "?pending (rx_predecessor_lease_id d) = Some pending"
        "bs_lease_provenance s (rx_successor_lease_id d) = Some successor" by blast
      then show ?thesis by (simp add: resolve_dependency_def dict_get_def Let_def)
    qed
    then obtain ds where ds: "mapE (resolve_dependency ?pending (bs_lease_provenance s))
        (pl_dependencies result) = Inr ds"
      using mapE_returns by blast
    then show ?thesis
      using assms(4-6) build pool mapE_length [OF ds] by (simp add: replay_admission_def Let_def)
  qed
  then show ?thesis using R by blast
qed

theorem replay_follows_schedule_witness:
  "\<forall>digests. \<exists>s replay. build (step_context []) = Inr s
     \<and> set (final_aliases s) = {''b'', ''w'', ''x''}
     \<and> replay_admission digests step_pool step_program (step_schedule []) step_facts [] = Inr replay
     \<and> ar_operations replay = bs_operations s \<and> length (ar_dependencies replay) = 1"
proof
  fix digests
  have tasks: "bc_tasks (step_context []) = step_tasks" by (rule step_context_tasks)
  have "\<forall>x \<in> set (ms_actions (step_schedule [])). ma_kind x \<noteq> WRITE_BACK"
    by (simp add: step_schedule_def)
  from replay_follows_schedule [OF step_program_valid step_facts_valid step_schedule_accepted(1)
      step_schedule_valid(1) step_facts_fit step_context, unfolded tasks, OF step_alias_facts
      step_facts_agree(1) this]
  obtain s where s: "build (step_context []) = Inr s" and F: "\<And>digests (pool :: unit replay_pool) result.
         pool (fx_pool_capacity_bytes step_facts) (map rt_operation (bs_operations s)) (bs_next_lease_id s)
           (bs_next_dependency_id s) (fx_minimum_alignment step_facts) = Inr result
         \<and> (\<forall>d \<in> set (pl_dependencies result).
              rx_predecessor_lease_id d \<in> pr_lease_id ` set (bs_pending_retirements s)
              \<and> rx_successor_lease_id d < bs_next_lease_id s) \<Longrightarrow>
         \<exists>replay. replay_admission digests pool step_program (step_schedule []) step_facts [] = Inr replay
            \<and> ar_operations replay = bs_operations s
            \<and> length (ar_dependencies replay) = length (pl_dependencies result)"
    by blast
  obtain t where "build (step_context []) = Inr t" and t: "map pr_lease_id (bs_pending_retirements t) = [1, 0]"
    "bs_active_aliases t = [(''w'', 3), (''b'', 2), (''x'', 4)]" "bs_next_lease_id t = 5"
    using step_build by (elim exE conjE) (rule that)
  with s have same: "t = s" by simp
  have "set (map pr_lease_id (bs_pending_retirements s)) = {1, 0}" by (simp add: t(1) [unfolded same])
  then have "1 \<in> pr_lease_id ` set (bs_pending_retirements s)" by simp
  then have reuse: "\<forall>d \<in> set (pl_dependencies step_result).
      rx_predecessor_lease_id d \<in> pr_lease_id ` set (bs_pending_retirements s)
      \<and> rx_successor_lease_id d < bs_next_lease_id s"
    by (simp add: step_result_def t(3) [unfolded same])
  obtain replay where "replay_admission digests step_pool step_program (step_schedule []) step_facts []
      = Inr replay" "ar_operations replay = bs_operations s"
      "length (ar_dependencies replay) = length (pl_dependencies step_result)"
  proof -
    have "\<exists>replay. replay_admission digests step_pool step_program (step_schedule []) step_facts []
        = Inr replay \<and> ar_operations replay = bs_operations s
        \<and> length (ar_dependencies replay) = length (pl_dependencies step_result)"
      by (rule F, rule conjI [OF _ reuse]) (simp add: step_pool_def)
    then show ?thesis using that by blast
  qed
  moreover have "set (final_aliases s) = {''b'', ''w'', ''x''}"
    by (simp add: final_aliases_def t(2) [unfolded same])
  ultimately show "\<exists>s replay. build (step_context []) = Inr s
     \<and> set (final_aliases s) = {''b'', ''w'', ''x''}
     \<and> replay_admission digests step_pool step_program (step_schedule []) step_facts [] = Inr replay
     \<and> ar_operations replay = bs_operations s \<and> length (ar_dependencies replay) = 1"
    by (intro exI [of _ s] exI [of _ replay]) (simp add: s step_result_def)
qed




section \<open>The facts on disk\<close>

text \<open>
  The admission facts written into a plan are the ones read back: decoding the dictionary
  form of facts that passed their constructors gives them again, every allocation step, handoff and
  optional reuse included.
\<close>

theorem admission_facts_roundtrip:
  assumes "valid_facts facts"
  shows "admission_facts_from_dict (admission_facts_to_dict facts) = Inr facts"
  using assms by (rule facts_codec.decode_encode)

theorem admission_facts_roundtrip_witness:
  "admission_facts_from_dict (admission_facts_to_dict step_facts) = Inr step_facts"
  by (rule admission_facts_roundtrip [OF step_facts_valid])

end
