(* ===== verification/Task_Storage.thy ===== *)
theory Task_Storage
  imports Admission_Facts
begin

text \<open>
  The storage contract of a task (\<^verbatim>\<open>src/shadowspill/task/storage.py\<close>): the roots its outputs view,
  the views, the mutations of inputs, and the contract left when some outputs turn out to live off
  the device. The digest of a contract is SHA-256 over its JSON text: a parameter of the model.
\<close>

section \<open>Roots, views and mutations\<close>

datatype storage_root_kind = ROOT_INPUT | ROOT_FRESH

record storage_root =
  ro_root_id :: int
  ro_kind :: storage_root_kind
  ro_source_input :: "int option"
  ro_producer_node :: "string option"
  ro_producer_target :: "string option"
  ro_producer_result :: "int option"
  ro_minimum_span_bytes :: int

text \<open>\<^verbatim>\<open>not value\<close> of an optional string: absent or empty.\<close>

definition absent :: "string option \<Rightarrow> bool" where
  "absent name \<longleftrightarrow> name = None \<or> name = Some []"

definition absent_or_negative :: "int option \<Rightarrow> bool" where
  "absent_or_negative position = (case position of None \<Rightarrow> True | Some i \<Rightarrow> i < 0)"

definition storage_root_post_init :: "storage_root \<Rightarrow> py_error + unit" where
  "storage_root_post_init self =
     (if ro_root_id self < 0 \<or> ro_minimum_span_bytes self < 0 then
        refuse [Lit ''storage-root fields must be non-negative'']
      else if ro_kind self = ROOT_INPUT then
        (if absent_or_negative (ro_source_input self) then
           refuse [Lit ''input root requires an input position'']
         else if ro_producer_node self \<noteq> None \<or> ro_producer_target self \<noteq> None
             \<or> ro_producer_result self \<noteq> None then
           refuse [Lit ''input root cannot name an FX producer'']
         else Inr ())
      else if ro_source_input self \<noteq> None then
        refuse [Lit ''fresh root cannot name a task input'']
      else if absent (ro_producer_node self) \<or> absent (ro_producer_target self) then
        refuse [Lit ''fresh root requires FX producer provenance'']
      else if absent_or_negative (ro_producer_result self) then
        refuse [Lit ''fresh root requires a producer result index'']
      else Inr ())"

record output_view =
  ow_leaf_index :: int
  ow_root_id :: int
  ow_offset_bytes :: int
  ow_span_bytes :: int
  ow_shape :: "int list"
  ow_stride :: "int list"
  ow_dtype :: string
  ow_layout :: string

definition output_view_post_init :: "output_view \<Rightarrow> py_error + unit" where
  "output_view_post_init self =
     (if min (min (ow_leaf_index self) (ow_root_id self))
           (min (ow_offset_bytes self) (ow_span_bytes self)) < 0 then
        refuse [Lit ''output-view fields must be non-negative'']
      else if length (ow_shape self) \<noteq> length (ow_stride self) then
        refuse [Lit ''output-view shape and stride ranks differ'']
      else if \<exists>extent \<in> set (ow_shape self). extent < 0 then
        refuse [Lit ''output-view shape has a negative extent'']
      else if \<exists>stride \<in> set (ow_stride self). stride < 0 then
        refuse [Lit ''output-view stride is negative'']
      else if ow_dtype self = [] \<or> ow_layout self = [] then
        refuse [Lit ''output-view dtype and layout must be non-empty'']
      else Inr ())"

record mutation_binding =
  mb_input_position :: int
  mb_replacement_output_leaf :: "int option"
  mb_producer_node :: string
  mb_producer_target :: string
  mb_argument_name :: string

definition mutation_binding_post_init :: "mutation_binding \<Rightarrow> py_error + unit" where
  "mutation_binding_post_init self =
     (if mb_input_position self < 0 then
        refuse [Lit ''mutation input position must be non-negative'']
      else if case mb_replacement_output_leaf self of None \<Rightarrow> False | Some leaf \<Rightarrow> leaf < 0 then
        refuse [Lit ''mutation output leaf must be non-negative'']
      else if mb_producer_node self = [] \<or> mb_producer_target self = []
          \<or> mb_argument_name self = [] then
        refuse [Lit ''mutation provenance must be non-empty'']
      else Inr ())"


section \<open>The contract\<close>

record storage_contract =
  so_roots :: "storage_root list"
  so_output_views :: "output_view list"
  so_mutations :: "mutation_binding list"
  so_compatibility_digest :: string

text \<open>The loop over the views, with the leaves and the roots seen so far.\<close>

definition check_view ::
    "(int \<rightharpoonup> storage_root) \<Rightarrow> int set \<times> int set \<Rightarrow> output_view \<Rightarrow> py_error + (int set \<times> int set)" where
  "check_view root_by_id = (\<lambda>(leaves, used_roots) view.
     if ow_leaf_index view \<in> leaves then
       refuse [Lit ''one output leaf has multiple storage bindings'']
     else
       case root_by_id (ow_root_id view) of
         None \<Rightarrow> refuse [Lit ''output view references an unknown storage root'']
       | Some base \<Rightarrow>
           if ow_offset_bytes view + ow_span_bytes view > ro_minimum_span_bytes base then
             refuse [Lit ''output view exceeds its semantic storage span'']
           else Inr (insert (ow_leaf_index view) leaves, insert (ow_root_id view) used_roots))"

definition mutation_key :: "mutation_binding \<Rightarrow> int \<times> string \<times> string" where
  "mutation_key mutation =
     (mb_input_position mutation, mb_producer_node mutation, mb_argument_name mutation)"

definition storage_contract_post_init :: "storage_contract \<Rightarrow> py_error + unit" where
  "storage_contract_post_init self =
     (if map ro_root_id (so_roots self) \<noteq> map int [0..<length (so_roots self)] then
        refuse [Lit ''storage roots must have contiguous indices'']
      else
        let root_by_id = dict_of (map (\<lambda>base. (ro_root_id base, base)) (so_roots self))
        in bindE (foldE (check_view root_by_id) ({}, {}) (so_output_views self))
             (\<lambda>(leaves, used_roots).
             if used_roots \<noteq> ro_root_id ` set (so_roots self) then
               refuse [Lit ''semantic storage root is not referenced by an output'']
             else if \<not> distinct (map mutation_key (so_mutations self)) then
               refuse [Lit ''task storage contract contains duplicate mutations'']
             else if length (so_compatibility_digest self) \<noteq> 64 then
               refuse [Lit ''task storage contract digest must be SHA-256'']
             else Inr ()))"

type_synonym storage_digest =
  "storage_root list \<Rightarrow> output_view list \<Rightarrow> mutation_binding list \<Rightarrow> string"

definition build_storage_contract ::
    "storage_digest \<Rightarrow> storage_root list \<Rightarrow> output_view list \<Rightarrow> mutation_binding list
     \<Rightarrow> py_error + storage_contract" where
  "build_storage_contract digest_of roots output_views mutations =
     construct storage_contract_post_init
       \<lparr>so_roots = roots, so_output_views = output_views, so_mutations = mutations,
        so_compatibility_digest = digest_of roots output_views mutations\<rparr>"

text \<open>
  A root named for all of its leaves gives up its span, and each of them with it. The copies with
  replaced fields run the constructors again.
\<close>

definition emptied_root :: "int set \<Rightarrow> storage_root \<Rightarrow> py_error + storage_root" where
  "emptied_root emptied base =
     (if ro_root_id base \<in> emptied then
        construct storage_root_post_init (base\<lparr>ro_minimum_span_bytes := 0\<rparr>)
      else Inr base)"

definition emptied_view :: "int set \<Rightarrow> output_view \<Rightarrow> py_error + output_view" where
  "emptied_view named view =
     (if ow_leaf_index view \<in> named then
        construct output_view_post_init (view\<lparr>ow_offset_bytes := 0, ow_span_bytes := 0\<rparr>)
      else Inr view)"

definition without_device_storage ::
    "storage_digest \<Rightarrow> int list \<Rightarrow> storage_contract \<Rightarrow> py_error + storage_contract" where
  "without_device_storage digest_of leaves self =
     (let named = set leaves;
          unknown = named - set (map ow_leaf_index (so_output_views self));
          emptied = ow_root_id `
            set (filter (\<lambda>view. ow_leaf_index view \<in> named) (so_output_views self));
          divided = filter (\<lambda>view. ow_root_id view \<in> emptied \<and> ow_leaf_index view \<notin> named)
            (so_output_views self)
      in if unknown \<noteq> {} then
           Inl (CaptureError [Lit ''task storage contract has no output leaves '',
             ReprInts (sorted_list_of_set unknown)])
         else if named = {} then Inr self
         else if divided \<noteq> [] then
           Inl (CaptureError [Lit ''one task storage root is partly off the execution device: '',
             Lit ''roots='', ReprInts (sorted_list_of_set emptied), Lit '', leaves_left_on_device='',
             ReprInts (sort (map ow_leaf_index divided))])
         else
           bindE (mapE (emptied_root emptied) (so_roots self)) (\<lambda>roots.
           bindE (mapE (emptied_view named) (so_output_views self)) (\<lambda>views.
             build_storage_contract digest_of roots views (so_mutations self))))"

end
