(* ===== verification/Task_Allocations.thy ===== *)
theory Task_Allocations
  imports Task_Storage "HOL-Library.AList"
begin

text \<open>
  What a profiled task does with the allocator: the normalized events
  (\<^verbatim>\<open>src/shadowspill/task/allocations/events.py\<close>), the contract captured from them and its copy for
  the outputs an execution retains (\<^verbatim>\<open>task/allocations/contract.py\<close>), and the limits the runtime
  holds the task to (\<^verbatim>\<open>runtime/plan/envelopes.py\<close>, \<^verbatim>\<open>runtime/plan/common.py\<close>).
\<close>

section \<open>Events\<close>

datatype allocation_operation = OP_ALLOCATE | OP_FREE

record allocation_event =
  ae_allocation_ordinal :: int
  ae_operation :: allocation_operation
  ae_requested_bytes :: int
  ae_charged_bytes :: int
  ae_output_leaf_indices :: "int list"
  ae_output_view_offsets :: "int list"
  ae_reuses_ordinal :: "int option"
  ae_alignment_bytes :: int

definition check_event_reuse :: "allocation_event \<Rightarrow> py_error + unit" where
  "check_event_reuse self =
     (case ae_reuses_ordinal self of
        None \<Rightarrow> Inr ()
      | Some ordinal \<Rightarrow>
          if ae_operation self \<noteq> OP_ALLOCATE then
            refuse [Lit ''only an allocation may reuse a retired extent'']
          else if ordinal < 0 then
            refuse [Lit ''reused task allocation ordinal must be non-negative'']
          else if ordinal = ae_allocation_ordinal self then
            refuse [Lit ''task allocation cannot reuse itself'']
          else Inr ())"

definition allocation_event_post_init :: "allocation_event \<Rightarrow> py_error + unit" where
  "allocation_event_post_init self =
     (if ae_allocation_ordinal self < 0 then
        refuse [Lit ''task allocation ordinal must be non-negative'']
      else if ae_requested_bytes self < 0 \<or> ae_charged_bytes self \<le> 0 then
        refuse [Lit ''task allocation sizes are invalid'']
      else if ae_alignment_bytes self \<le> 0 then
        refuse [Lit ''task allocation alignment must be positive'']
      else if \<exists>index \<in> set (ae_output_leaf_indices self). index < 0 then
        refuse [Lit ''task output leaf indices must be non-negative'']
      else if \<not> distinct (ae_output_leaf_indices self) then
        refuse [Lit ''task output leaf indices must be unique'']
      else if length (ae_output_view_offsets self) \<noteq> length (ae_output_leaf_indices self) then
        refuse [Lit ''task output leaves and view offsets must align'']
      else if \<exists>offset \<in> set (ae_output_view_offsets self). offset < 0 then
        refuse [Lit ''task output view offsets must be non-negative'']
      else if ae_operation self = OP_FREE
          \<and> (ae_output_leaf_indices self \<noteq> [] \<or> ae_output_view_offsets self \<noteq> []) then
        refuse [Lit ''task free operation cannot publish output leaves'']
      else check_event_reuse self)"


section \<open>The contract of a task\<close>

record contract_step =
  kc_operation_index :: int
  kc_allocation_ordinal :: int
  kc_operation :: allocation_operation
  kc_requested_bytes :: int
  kc_charged_bytes :: int
  kc_alignment_bytes :: int
  kc_output_leaf_indices :: "int list"
  kc_mutation_input_positions :: "int list"
  kc_persistent_after_task :: bool
  kc_required :: bool

definition contract_step_post_init :: "contract_step \<Rightarrow> py_error + unit" where
  "contract_step_post_init self =
     (if kc_operation_index self < 0 \<or> kc_allocation_ordinal self < 0 then
        refuse [Lit ''task allocation contract ordinals must be non-negative'']
      else if kc_requested_bytes self < 0 \<or> kc_charged_bytes self \<le> 0 then
        refuse [Lit ''task allocation contract sizes are invalid'']
      else if kc_alignment_bytes self \<le> 0 then
        refuse [Lit ''task allocation contract alignment must be positive'']
      else if \<exists>leaf \<in> set (kc_output_leaf_indices self). leaf < 0 then
        refuse [Lit ''task allocation contract output leaves are invalid'']
      else if \<exists>position \<in> set (kc_mutation_input_positions self). position < 0 then
        refuse [Lit ''task allocation contract mutation positions are invalid'']
      else if kc_operation self = OP_FREE
          \<and> (kc_output_leaf_indices self \<noteq> [] \<or> kc_mutation_input_positions self \<noteq> []
             \<or> kc_persistent_after_task self \<or> kc_required self) then
        refuse [Lit ''task allocation contract free carries allocation-only fields'']
      else if kc_required self
          \<and> \<not> (kc_output_leaf_indices self \<noteq> [] \<or> kc_mutation_input_positions self \<noteq> []) then
        refuse [Lit ''required task allocation contract storage must publish an output '',
          Lit ''or mutation'']
      else Inr ())"

text \<open>The local variables of the walk over the steps; the live steps in insertion order.\<close>

record contract_walk =
  cw_live :: "(int \<times> contract_step) list"
  cw_retired :: "int set"
  cw_returned_leaves :: "int set"
  cw_next_allocation_ordinal :: int

definition empty_walk :: contract_walk where
  "empty_walk =
     \<lparr>cw_live = [], cw_retired = {}, cw_returned_leaves = {}, cw_next_allocation_ordinal = 0\<rparr>"

definition walk_allocation :: "contract_walk \<Rightarrow> contract_step \<Rightarrow> py_error + contract_walk" where
  "walk_allocation walk step =
     (let ordinal = kc_allocation_ordinal step
      in if ordinal \<noteq> cw_next_allocation_ordinal walk then
           refuse [Lit ''task allocation contract requires contiguous allocation ordinals'']
         else if ordinal \<in> set (map fst (cw_live walk)) \<or> ordinal \<in> cw_retired walk then
           refuse [Lit ''task allocation contract allocates one ordinal twice'']
         else if cw_returned_leaves walk \<inter> set (kc_output_leaf_indices step) \<noteq> {} then
           refuse [Lit ''task allocation contract returns one leaf twice'']
         else
           Inr (walk\<lparr>cw_next_allocation_ordinal := cw_next_allocation_ordinal walk + 1,
                     cw_live := AList.update ordinal step (cw_live walk),
                     cw_returned_leaves :=
                       cw_returned_leaves walk \<union> set (kc_output_leaf_indices step)\<rparr>))"

definition walk_free :: "contract_walk \<Rightarrow> contract_step \<Rightarrow> py_error + contract_walk" where
  "walk_free walk step =
     (let ordinal = kc_allocation_ordinal step
      in case map_of (cw_live walk) ordinal of
           None \<Rightarrow> refuse [Lit ''task allocation contract frees an unknown ordinal'']
         | Some allocated \<Rightarrow>
             if kc_persistent_after_task allocated then
               refuse [Lit ''task allocation contract frees returned persistent storage'']
             else if kc_requested_bytes allocated \<noteq> kc_requested_bytes step
                 \<or> kc_charged_bytes allocated \<noteq> kc_charged_bytes step
                 \<or> kc_alignment_bytes allocated \<noteq> kc_alignment_bytes step then
               refuse [Lit ''task allocation contract changes geometry on free'']
             else Inr (walk\<lparr>cw_live := AList.delete ordinal (cw_live walk),
                            cw_retired := insert ordinal (cw_retired walk)\<rparr>))"

definition walk_step :: "contract_walk \<Rightarrow> contract_step \<Rightarrow> py_error + contract_walk" where
  "walk_step walk step =
     (if kc_operation step = OP_ALLOCATE then walk_allocation walk step else walk_free walk step)"

definition validate_contract_steps :: "contract_step list \<Rightarrow> py_error + unit" where
  "validate_contract_steps steps =
     bindE (foldE walk_step empty_walk steps) (\<lambda>walk.
       if \<exists>step \<in> set (map snd (cw_live walk)). \<not> kc_persistent_after_task step then
         refuse [Lit ''task allocation contract leaves anonymous storage live'']
       else Inr ())"

record allocation_contract =
  tc_steps :: "contract_step list"
  tc_compatibility_digest :: string

type_synonym steps_digest = "contract_step list \<Rightarrow> string"

definition allocation_contract_post_init ::
    "steps_digest \<Rightarrow> allocation_contract \<Rightarrow> py_error + unit" where
  "allocation_contract_post_init digest_steps self =
     (if length (tc_compatibility_digest self) \<noteq> 64 then
        refuse [Lit ''task allocation contract digest must be SHA-256'']
      else if map kc_operation_index (tc_steps self) \<noteq> map int [0..<length (tc_steps self)] then
        refuse [Lit ''task allocation contract operation indices must be contiguous'']
      else
        bindE (validate_contract_steps (tc_steps self)) (\<lambda>_.
          if tc_compatibility_digest self \<noteq> digest_steps (tc_steps self) then
            refuse [Lit ''task allocation contract digest does not match its steps'']
          else Inr ()))"

definition contract_of_steps :: "steps_digest \<Rightarrow> contract_step list \<Rightarrow> py_error + allocation_contract" where
  "contract_of_steps digest_steps steps =
     construct (allocation_contract_post_init digest_steps)
       \<lparr>tc_steps = steps, tc_compatibility_digest = digest_steps steps\<rparr>"

definition contract_step_of ::
    "(int \<rightharpoonup> int) \<Rightarrow> int set \<Rightarrow> nat \<times> allocation_event \<Rightarrow> py_error + contract_step" where
  "contract_step_of mutation_by_leaf freed_ordinals = (\<lambda>(operation_index, event).
     let leaves = ae_output_leaf_indices event;
         mutations = fromkeys (List.map_filter mutation_by_leaf leaves);
         allocates = ae_operation event = OP_ALLOCATE
     in construct contract_step_post_init
          \<lparr>kc_operation_index = int operation_index,
           kc_allocation_ordinal = ae_allocation_ordinal event, kc_operation = ae_operation event,
           kc_requested_bytes = ae_requested_bytes event, kc_charged_bytes = ae_charged_bytes event,
           kc_alignment_bytes = ae_alignment_bytes event, kc_output_leaf_indices = leaves,
           kc_mutation_input_positions = mutations,
           kc_persistent_after_task =
             (allocates \<and> ae_allocation_ordinal event \<notin> freed_ordinals),
           kc_required = (allocates \<and> (leaves \<noteq> [] \<or> mutations \<noteq> []))\<rparr>)"

definition mutation_by_leaf :: "storage_contract option \<Rightarrow> (int \<rightharpoonup> int)" where
  "mutation_by_leaf contract =
     (case contract of
        None \<Rightarrow> Map.empty
      | Some c \<Rightarrow> dict_of (List.map_filter
          (\<lambda>mutation. map_option (\<lambda>leaf. (leaf, mb_input_position mutation))
             (mb_replacement_output_leaf mutation)) (so_mutations c)))"

definition capture ::
    "steps_digest \<Rightarrow> allocation_event list \<Rightarrow> storage_contract option
     \<Rightarrow> py_error + allocation_contract" where
  "capture digest_steps trace contract =
     (let freed_ordinals = ae_allocation_ordinal `
            set (filter (\<lambda>event. ae_operation event = OP_FREE) trace)
      in bindE (mapE (contract_step_of (mutation_by_leaf contract) freed_ordinals) (enumerate 0 trace))
           (contract_of_steps digest_steps))"


section \<open>The contract for the outputs an execution retains\<close>

definition retained_ordinals :: "int set \<Rightarrow> contract_step list \<Rightarrow> int set" where
  "retained_ordinals retained_leaves steps =
     kc_allocation_ordinal ` set (filter (\<lambda>step. kc_operation step = OP_ALLOCATE
       \<and> retained_leaves \<inter> set (kc_output_leaf_indices step) \<noteq> {}) steps)"

definition rewrite_step ::
    "int set \<Rightarrow> contract_step list \<Rightarrow> contract_step \<Rightarrow> py_error + contract_step list" where
  "rewrite_step retained rewritten step =
     (if kc_operation step = OP_FREE \<and> kc_allocation_ordinal step \<in> retained then Inr rewritten
      else
        let retained_output = kc_operation step = OP_ALLOCATE \<and> kc_allocation_ordinal step \<in> retained
        in bindE (construct contract_step_post_init
             (step\<lparr>kc_operation_index := int (length rewritten),
                   kc_persistent_after_task := kc_persistent_after_task step \<or> retained_output\<rparr>))
             (\<lambda>step. Inr (rewritten @ [step])))"

definition for_retained_output_leaves ::
    "steps_digest \<Rightarrow> int list \<Rightarrow> allocation_contract \<Rightarrow> py_error + allocation_contract" where
  "for_retained_output_leaves digest_steps leaf_indices self =
     (let retained_leaves = set leaf_indices
      in if \<exists>leaf \<in> retained_leaves. leaf < 0 then
           refuse [Lit ''retained task output leaves must be non-negative'']
         else
           bindE (foldE (rewrite_step (retained_ordinals retained_leaves (tc_steps self))) []
             (tc_steps self)) (contract_of_steps digest_steps))"


section \<open>The limits of a task\<close>

record memory_envelope =
  mv_maximum_requested_allocation_bytes :: int
  mv_maximum_charged_allocation_bytes :: int
  mv_live_requested_allocation_limit_bytes :: int
  mv_live_charged_allocation_limit_bytes :: int
  mv_dynamic_scratch_maximum_allocation_bytes :: int
  mv_dynamic_scratch_live_limit_bytes :: int
  mv_allocation_contract :: "allocation_contract option"

definition memory_envelope_post_init :: "memory_envelope \<Rightarrow> py_error + unit" where
  "memory_envelope_post_init self =
     (if \<exists>value \<in> set [mv_maximum_requested_allocation_bytes self,
           mv_maximum_charged_allocation_bytes self, mv_live_requested_allocation_limit_bytes self,
           mv_live_charged_allocation_limit_bytes self,
           mv_dynamic_scratch_maximum_allocation_bytes self,
           mv_dynamic_scratch_live_limit_bytes self]. value < 0 then
        refuse [Lit ''task memory envelope bounds must be non-negative'']
      else if mv_live_requested_allocation_limit_bytes self \<noteq> 0
          \<and> mv_maximum_requested_allocation_bytes self
              > mv_live_requested_allocation_limit_bytes self then
        refuse [Lit ''requested allocation maximum exceeds live limit'']
      else if mv_live_charged_allocation_limit_bytes self \<noteq> 0
          \<and> mv_maximum_charged_allocation_bytes self > mv_live_charged_allocation_limit_bytes self then
        refuse [Lit ''charged allocation maximum exceeds live limit'']
      else if mv_dynamic_scratch_live_limit_bytes self \<noteq> 0
          \<and> mv_dynamic_scratch_maximum_allocation_bytes self
              > mv_dynamic_scratch_live_limit_bytes self then
        refuse [Lit ''scratch allocation maximum exceeds scratch live limit'']
      else Inr ())"

record envelope_scan =
  es_live :: "(int \<times> int \<times> int) list"
  es_live_requested :: int
  es_live_charged :: int
  es_peak_requested :: int
  es_peak_charged :: int
  es_maximum_requested :: int
  es_maximum_charged :: int

definition empty_scan :: envelope_scan where
  "empty_scan =
     \<lparr>es_live = [], es_live_requested = 0, es_live_charged = 0, es_peak_requested = 0,
      es_peak_charged = 0, es_maximum_requested = 0, es_maximum_charged = 0\<rparr>"

definition scan_event :: "envelope_scan \<Rightarrow> allocation_event \<Rightarrow> py_error + envelope_scan" where
  "scan_event scan event =
     (let ordinal = ae_allocation_ordinal event
      in if ae_operation event = OP_ALLOCATE then
           (let requested = ae_requested_bytes event; charged = ae_charged_bytes event;
                live_requested = es_live_requested scan + requested;
                live_charged = es_live_charged scan + charged
            in Inr (scan\<lparr>es_live := AList.update ordinal (requested, charged) (es_live scan),
                         es_live_requested := live_requested, es_live_charged := live_charged,
                         es_peak_requested := max (es_peak_requested scan) live_requested,
                         es_peak_charged := max (es_peak_charged scan) live_charged,
                         es_maximum_requested := max (es_maximum_requested scan) requested,
                         es_maximum_charged := max (es_maximum_charged scan) charged\<rparr>))
         else
           bindE (dict_get (map_of (es_live scan)) ordinal) (\<lambda>(requested, charged).
             Inr (scan\<lparr>es_live := AList.delete ordinal (es_live scan),
                       es_live_requested := es_live_requested scan - requested,
                       es_live_charged := es_live_charged scan - charged\<rparr>)))"

definition envelope_limit :: "int \<Rightarrow> int" where
  "envelope_limit profiled_bytes =
     (if profiled_bytes = 0 then 0
      else let two_mib = 2 * 2 ^ 20; with_headroom = (profiled_bytes * 5 + 3) div 4
           in (with_headroom + two_mib - 1) div two_mib * two_mib)"

text \<open>A measurement has a trace and possibly a contract.\<close>

definition task_memory_envelope ::
    "steps_digest \<Rightarrow> allocation_event list \<Rightarrow> allocation_contract option \<Rightarrow> int list \<Rightarrow> int
     \<Rightarrow> py_error + memory_envelope" where
  "task_memory_envelope digest_steps allocation_trace contract retained_output_leaves
       minimum_scratch_reserve_bytes =
     bindE (foldE scan_event empty_scan allocation_trace) (\<lambda>scan.
     bindE (case contract of
              None \<Rightarrow> Inr None
            | Some c \<Rightarrow>
                bindE (for_retained_output_leaves digest_steps retained_output_leaves c) (\<lambda>c.
                  Inr (Some c))) (\<lambda>contract.
     let scratch = max 0 minimum_scratch_reserve_bytes
     in construct memory_envelope_post_init
          \<lparr>mv_maximum_requested_allocation_bytes = max (es_maximum_requested scan) scratch,
           mv_maximum_charged_allocation_bytes = max (es_maximum_charged scan) scratch,
           mv_live_requested_allocation_limit_bytes =
             envelope_limit (es_peak_requested scan + scratch),
           mv_live_charged_allocation_limit_bytes =
             envelope_limit (es_peak_charged scan + scratch),
           mv_dynamic_scratch_maximum_allocation_bytes = scratch,
           mv_dynamic_scratch_live_limit_bytes = envelope_limit scratch,
           mv_allocation_contract = contract\<rparr>))"

text \<open>Updating an absent key appends.\<close>

lemma AList_update_new: "k \<notin> set (map fst xs) \<Longrightarrow> AList.update k v xs = xs @ [(k, v)]"
  by (induction xs) auto

end
