(* ===== verification/Task_Contracts.thy ===== *)
theory Task_Contracts
  imports Task_Allocations
begin

text \<open>
  What the walk over a contract's steps accepts, stated over the steps alone, and the copy of a
  contract for retained outputs as a filter and a map: the basis of the properties of contracts
  and of the memory limits.
\<close>

section \<open>The walk, declaratively\<close>

abbreviation allocates :: "contract_step \<Rightarrow> bool" where
  "allocates step \<equiv> kc_operation step = OP_ALLOCATE"

definition freed :: "contract_step list \<Rightarrow> int set" where
  "freed xs = kc_allocation_ordinal ` {step \<in> set xs. \<not> allocates step}"

definition held :: "contract_step list \<Rightarrow> contract_step list" where
  "held xs = filter (\<lambda>step. allocates step \<and> kc_allocation_ordinal step \<notin> freed xs) xs"

definition same_geometry :: "contract_step \<Rightarrow> contract_step \<Rightarrow> bool" where
  "same_geometry a b \<longleftrightarrow> kc_requested_bytes a = kc_requested_bytes b
     \<and> kc_charged_bytes a = kc_charged_bytes b \<and> kc_alignment_bytes a = kc_alignment_bytes b"

text \<open>
  An allocation takes the next ordinal and leaves nothing returned before; a free ends an
  allocation of the same geometry that is held and does not persist.
\<close>

definition step_fits :: "contract_step list \<Rightarrow> contract_step \<Rightarrow> bool" where
  "step_fits xs step \<longleftrightarrow>
     (if allocates step then
        kc_allocation_ordinal step = int (length (filter allocates xs))
        \<and> (\<forall>a \<in> set xs. allocates a \<longrightarrow>
             set (kc_output_leaf_indices a) \<inter> set (kc_output_leaf_indices step) = {})
      else \<exists>a \<in> set (held xs). kc_allocation_ordinal a = kc_allocation_ordinal step
        \<and> \<not> kc_persistent_after_task a \<and> same_geometry a step)"

definition walks :: "contract_step list \<Rightarrow> bool" where
  "walks xs \<longleftrightarrow> (\<forall>ys step zs. xs = ys @ step # zs \<longrightarrow> step_fits ys step)"

definition walk_of :: "contract_step list \<Rightarrow> contract_walk" where
  "walk_of xs =
     \<lparr>cw_live = map (\<lambda>step. (kc_allocation_ordinal step, step)) (held xs), cw_retired = freed xs,
      cw_returned_leaves = (\<Union>a \<in> {a \<in> set xs. allocates a}. set (kc_output_leaf_indices a)),
      cw_next_allocation_ordinal = int (length (filter allocates xs))\<rparr>"

lemma walks_Nil [simp]: "walks []"
  by (simp add: walks_def)

lemma walks_snoc: "walks (xs @ [step]) \<longleftrightarrow> walks xs \<and> step_fits xs step"
proof
  assume walks: "walks (xs @ [step])"
  have "step_fits ys s" if "xs = ys @ s # zs" for ys s zs
  proof -
    have "xs @ [step] = ys @ s # (zs @ [step])" using that by simp
    then show ?thesis using walks unfolding walks_def by blast
  qed
  moreover have "step_fits xs step" using walks unfolding walks_def by blast
  ultimately show "walks xs \<and> step_fits xs step" unfolding walks_def by blast
next
  assume walks: "walks xs \<and> step_fits xs step"
  have "step_fits ys s" if "xs @ [step] = ys @ s # zs" for ys s zs
    using walks that unfolding walks_def
    by (cases zs rule: rev_cases) auto
  then show "walks (xs @ [step])" unfolding walks_def by blast
qed

lemma freed_simps [simp]:
  "freed [] = {}"
  "freed (xs @ [step]) =
     (if allocates step then freed xs else insert (kc_allocation_ordinal step) (freed xs))"
  by (auto simp: freed_def)

text \<open>Ordinals are handed out in order, so each allocation has its own and frees come after it.\<close>

lemma walks_ordinals:
  assumes "walks xs"
  shows "map kc_allocation_ordinal (filter allocates xs) = map int [0..<length (filter allocates xs)]
    \<and> freed xs \<subseteq> kc_allocation_ordinal ` set (filter allocates xs)"
  using assms
proof (induction xs rule: rev_induct)
  case (snoc step xs)
  then have IH: "map kc_allocation_ordinal (filter allocates xs) = map int [0..<length (filter allocates xs)]"
    "freed xs \<subseteq> kc_allocation_ordinal ` set (filter allocates xs)" and fits: "step_fits xs step"
    by (simp_all add: walks_snoc)
  show ?case
  proof (cases "allocates step")
    case True
    then show ?thesis using IH fits by (auto simp: step_fits_def)
  next
    case False
    then obtain a where "a \<in> set (held xs)" "kc_allocation_ordinal step = kc_allocation_ordinal a"
      using fits unfolding step_fits_def by force
    then have "kc_allocation_ordinal step \<in> kc_allocation_ordinal ` set (filter allocates xs)"
      by (auto simp: held_def)
    then show ?thesis using IH False by simp
  qed
qed simp

lemma walks_distinct:
  assumes "walks xs"
  shows "distinct (map kc_allocation_ordinal (filter allocates xs))"
    and "distinct (map kc_allocation_ordinal (held xs))"
proof -
  show *: "distinct (map kc_allocation_ordinal (filter allocates xs))"
    using walks_ordinals [OF assms] by (simp add: distinct_map)
  have held: "held xs = filter (\<lambda>step. kc_allocation_ordinal step \<notin> freed xs) (filter allocates xs)"
    by (simp add: held_def)
  show "distinct (map kc_allocation_ordinal (held xs))"
    unfolding held by (rule distinct_map_filter [OF *])
qed

lemma next_ordinal:
  assumes "walks xs" "kc_allocation_ordinal step = int (length (filter allocates xs))"
  shows "kc_allocation_ordinal step \<notin> kc_allocation_ordinal ` set (filter allocates xs)"
    and "kc_allocation_ordinal step \<notin> freed xs"
proof -
  have "kc_allocation_ordinal ` set (filter allocates xs) = int ` {0..<length (filter allocates xs)}"
    using walks_ordinals [OF assms(1)] by (metis list.set_map set_upt)
  then show *: "kc_allocation_ordinal step \<notin> kc_allocation_ordinal ` set (filter allocates xs)"
    using assms(2) by auto
  then show "kc_allocation_ordinal step \<notin> freed xs" using walks_ordinals [OF assms(1)] by blast
qed

lemma held_snoc:
  assumes "walks (xs @ [step])"
  shows "held (xs @ [step]) =
    (if allocates step then held xs @ [step]
     else filter (\<lambda>a. kc_allocation_ordinal a \<noteq> kc_allocation_ordinal step) (held xs))"
proof (cases "allocates step")
  case True
  then have "kc_allocation_ordinal step \<notin> freed xs"
    using assms next_ordinal(2) [of xs step] by (simp add: walks_snoc step_fits_def)
  then show ?thesis using True by (simp add: held_def)
qed (auto simp: held_def intro: filter_cong)

lemma walk_of_snoc:
  assumes "walks xs"
  shows "walk_step (walk_of xs) step = Inr w \<longleftrightarrow> step_fits xs step \<and> w = walk_of (xs @ [step])"
proof (cases "allocates step")
  case True
  let ?o = "kc_allocation_ordinal step"
  have fresh: "?o \<notin> set (map fst (cw_live (walk_of xs)))" "?o \<notin> cw_retired (walk_of xs)"
    if "?o = int (length (filter allocates xs))"
    using next_ordinal [OF assms that] by (auto simp: walk_of_def held_def)
  have "walk_step (walk_of xs) step = Inr w \<longleftrightarrow> ?o = int (length (filter allocates xs))
      \<and> (\<Union>a \<in> {a \<in> set xs. allocates a}. set (kc_output_leaf_indices a))
          \<inter> set (kc_output_leaf_indices step) = {}
      \<and> w = (walk_of xs)\<lparr>cw_next_allocation_ordinal := int (length (filter allocates xs)) + 1,
          cw_live := AList.update ?o step (cw_live (walk_of xs)),
          cw_returned_leaves := (\<Union>a \<in> {a \<in> set xs. allocates a}. set (kc_output_leaf_indices a))
            \<union> set (kc_output_leaf_indices step)\<rparr>"
    using fresh True by (auto simp: walk_step_def walk_allocation_def Let_def walk_of_def refuse_def)
  also have "\<dots> \<longleftrightarrow> step_fits xs step \<and> w = walk_of (xs @ [step])"
  proof (cases "step_fits xs step")
    case fits: True
    then have next_o: "?o = int (length (filter allocates xs))" using True by (simp add: step_fits_def)
    have "held (xs @ [step]) = held xs @ [step]"
      using held_snoc assms fits True by (simp add: walks_snoc)
    then have "walk_of (xs @ [step]) = (walk_of xs)\<lparr>cw_next_allocation_ordinal :=
          int (length (filter allocates xs)) + 1,
        cw_live := AList.update ?o step (cw_live (walk_of xs)),
        cw_returned_leaves := (\<Union>a \<in> {a \<in> set xs. allocates a}. set (kc_output_leaf_indices a))
          \<union> set (kc_output_leaf_indices step)\<rparr>"
      using True AList_update_new [OF fresh(1) [OF next_o]] by (auto simp: walk_of_def)
    moreover have "(\<Union>a \<in> {a \<in> set xs. allocates a}. set (kc_output_leaf_indices a))
          \<inter> set (kc_output_leaf_indices step) = {}"
      using fits True by (auto simp: step_fits_def)
    ultimately show ?thesis using fits next_o by simp
  qed (use True in \<open>auto simp: step_fits_def\<close>)
  finally show ?thesis .
next
  case False
  let ?o = "kc_allocation_ordinal step" and ?live = "map (\<lambda>a. (kc_allocation_ordinal a, a)) (held xs)"
  have distinct: "distinct (map fst ?live)" using walks_distinct(2) [OF assms] by (simp add: comp_def)
  have found: "map_of ?live ?o = Some a \<longleftrightarrow> a \<in> set (held xs) \<and> kc_allocation_ordinal a = ?o" for a
    unfolding map_of_eq_Some_iff [OF distinct] by (auto simp: image_iff)
  have after: "(walk_of xs)\<lparr>cw_live := AList.delete ?o (cw_live (walk_of xs)),
      cw_retired := insert ?o (cw_retired (walk_of xs))\<rparr> = walk_of (xs @ [step])"
    if "step_fits xs step"
  proof -
    have "held (xs @ [step]) = filter (\<lambda>a. ?o \<noteq> kc_allocation_ordinal a) (held xs)"
      using held_snoc [of xs step] assms that False by (simp add: walks_snoc eq_commute)
    then show ?thesis using False
      by (auto simp: walk_of_def AList.delete_eq filter_map comp_def)
  qed
  show ?thesis
  proof (cases "map_of ?live ?o")
    case None
    then have "\<not> step_fits xs step" using False found unfolding step_fits_def by auto
    then show ?thesis using False None
      by (simp add: walk_step_def walk_free_def walk_of_def refuse_def)
  next
    case (Some a)
    then have a: "a \<in> set (held xs)" "kc_allocation_ordinal a = ?o" using found by auto
    have unique: "b = a" if "b \<in> set (held xs)" "kc_allocation_ordinal b = ?o" for b
      using found [of b] that Some by simp
    have "step_fits xs step \<longleftrightarrow> \<not> kc_persistent_after_task a \<and> same_geometry a step"
      using False a unique unfolding step_fits_def by metis
    moreover have "walk_step (walk_of xs) step = Inr w \<longleftrightarrow> \<not> kc_persistent_after_task a
        \<and> same_geometry a step \<and> w = (walk_of xs)\<lparr>cw_live := AList.delete ?o (cw_live (walk_of xs)),
          cw_retired := insert ?o (cw_retired (walk_of xs))\<rparr>"
    proof -
      have live: "map_of (cw_live (walk_of xs)) ?o = Some a" using Some by (simp add: walk_of_def)
      show ?thesis using False
        by (auto simp: walk_step_def walk_free_def live Let_def refuse_def same_geometry_def)
    qed
    ultimately show ?thesis using after by auto
  qed
qed

lemma walk_iff: "foldE walk_step empty_walk xs = Inr w \<longleftrightarrow> walks xs \<and> w = walk_of xs"
proof (induction xs arbitrary: w rule: rev_induct)
  case Nil
  show ?case by (auto simp: empty_walk_def walk_of_def held_def)
next
  case (snoc step xs)
  then show ?case using walk_of_snoc [of xs step] by (auto simp: foldE_append bindE_Inr_iff walks_snoc)
qed

lemma validate_contract_steps_iff:
  "validate_contract_steps xs = Inr () \<longleftrightarrow>
     walks xs \<and> (\<forall>step \<in> set (held xs). kc_persistent_after_task step)"
  by (auto simp: validate_contract_steps_def bindE_Inr_iff walk_iff refuse_def walk_of_def)

text \<open>In an accepted contract storage persists exactly when the task does not free it.\<close>

lemma walks_freed:
  assumes "walks xs" "step \<in> set xs" "allocates step" "kc_allocation_ordinal step \<in> freed xs"
  shows "\<not> kc_persistent_after_task step"
  using assms
proof (induction xs rule: rev_induct)
  case (snoc x xs)
  have walks: "walks xs" "step_fits xs x" using snoc.prems(1) by (simp_all add: walks_snoc)
  show ?case
  proof (cases "allocates x")
    case True
    then have "kc_allocation_ordinal step \<in> freed xs" using snoc.prems(4) by simp
    moreover have "step \<noteq> x"
      using next_ordinal(2) [OF walks(1), of x] walks(2) True calculation by (auto simp: step_fits_def)
    ultimately show ?thesis using snoc walks(1) by simp
  next
    case False
    then have member: "step \<in> set xs" using snoc.prems(2,3) by auto
    show ?thesis
    proof (cases "kc_allocation_ordinal step \<in> freed xs")
      case False
      then have same: "kc_allocation_ordinal step = kc_allocation_ordinal x"
        using snoc.prems(4) \<open>\<not> allocates x\<close> by simp
      obtain a where a: "a \<in> set (held xs)" "kc_allocation_ordinal a = kc_allocation_ordinal x"
        "\<not> kc_persistent_after_task a"
        using walks(2) \<open>\<not> allocates x\<close> unfolding step_fits_def by auto
      moreover have "step \<in> set (held xs)" using member False snoc.prems(3) by (simp add: held_def)
      ultimately have "a = step" using walks_distinct(2) [OF walks(1)] same
        by (metis distinct_map inj_onD)
      then show ?thesis using a(3) by simp
    qed (use snoc.IH member walks(1) snoc.prems(3) in simp)
  qed
qed simp


section \<open>Contracts\<close>

definition valid_contract :: "steps_digest \<Rightarrow> allocation_contract \<Rightarrow> bool" where
  "valid_contract digest_steps c \<longleftrightarrow> allocation_contract_post_init digest_steps c = Inr ()
     \<and> (\<forall>step \<in> set (tc_steps c). contract_step_post_init step = Inr ())"

lemma valid_contract_iff:
  "valid_contract digest_steps c \<longleftrightarrow>
     length (tc_compatibility_digest c) = 64 \<and> tc_compatibility_digest c = digest_steps (tc_steps c)
     \<and> map kc_operation_index (tc_steps c) = map int [0..<length (tc_steps c)]
     \<and> walks (tc_steps c) \<and> (\<forall>step \<in> set (held (tc_steps c)). kc_persistent_after_task step)
     \<and> (\<forall>step \<in> set (tc_steps c). contract_step_post_init step = Inr ())"
  by (auto simp: valid_contract_def allocation_contract_post_init_def refuse_def bindE_Inr_iff
      validate_contract_steps_iff)

lemma contract_of_steps_valid:
  assumes "\<And>xs. length (digest_steps xs) = 64"
    and "map kc_operation_index xs = map int [0..<length xs]" "walks xs"
    and "\<forall>step \<in> set (held xs). kc_persistent_after_task step"
    and "\<forall>step \<in> set xs. contract_step_post_init step = Inr ()"
  shows "\<exists>c. contract_of_steps digest_steps xs = Inr c \<and> tc_steps c = xs \<and> valid_contract digest_steps c"
proof -
  let ?c = "\<lparr>tc_steps = xs, tc_compatibility_digest = digest_steps xs\<rparr>"
  have "valid_contract digest_steps ?c" using assms by (simp add: valid_contract_iff)
  then show ?thesis by (auto simp: contract_of_steps_def construct_Inr_iff valid_contract_def)
qed


section \<open>The copy for retained outputs\<close>

definition keep :: "int set \<Rightarrow> contract_step \<Rightarrow> bool" where
  "keep retained step \<longleftrightarrow> allocates step \<or> kc_allocation_ordinal step \<notin> retained"

definition mark :: "int set \<Rightarrow> contract_step \<Rightarrow> contract_step" where
  "mark retained step = step\<lparr>kc_persistent_after_task :=
     kc_persistent_after_task step \<or> allocates step \<and> kc_allocation_ordinal step \<in> retained\<rparr>"

definition at_position :: "nat \<Rightarrow> contract_step \<Rightarrow> contract_step" where
  "at_position n step = step\<lparr>kc_operation_index := int n\<rparr>"

definition retained_steps :: "int set \<Rightarrow> contract_step list \<Rightarrow> contract_step list" where
  "retained_steps retained xs =
     map (\<lambda>(n, step). at_position n (mark retained step)) (enumerate 0 (filter (keep retained) xs))"

lemma copy_simps [simp]:
  "kc_operation (mark r step) = kc_operation step"
  "kc_operation (at_position n step) = kc_operation step"
  "kc_allocation_ordinal (mark r step) = kc_allocation_ordinal step"
  "kc_allocation_ordinal (at_position n step) = kc_allocation_ordinal step"
  "kc_output_leaf_indices (mark r step) = kc_output_leaf_indices step"
  "kc_output_leaf_indices (at_position n step) = kc_output_leaf_indices step"
  "kc_persistent_after_task (at_position n step) = kc_persistent_after_task step"
  "kc_operation_index (at_position n step) = int n"
  "same_geometry (at_position n (mark r step)) other = same_geometry step other"
  "same_geometry other (at_position n (mark r step)) = same_geometry other step"
  "keep r (mark q step) = keep r step" "keep r (at_position n step) = keep r step"
  by (simp_all add: mark_def at_position_def same_geometry_def keep_def)

lemma length_retained_steps [simp]: "length (retained_steps r xs) = length (filter (keep r) xs)"
  by (simp add: retained_steps_def)

lemma retained_steps_simps [simp]:
  "retained_steps r [] = []"
  "retained_steps r (xs @ [step]) =
     (if keep r step then retained_steps r xs @ [at_position (length (retained_steps r xs)) (mark r step)]
      else retained_steps r xs)"
  by (simp_all add: retained_steps_def enumerate_append_eq)

lemma retained_member:
  "s' \<in> set (retained_steps r xs) \<longleftrightarrow>
     (\<exists>n. (\<exists>s. s' = at_position n (mark r s) \<and> n < length (filter (keep r) xs)
        \<and> s = filter (keep r) xs ! n))"
  by (auto simp: retained_steps_def in_set_enumerate_eq)

lemma retained_steps_run:
  assumes "\<forall>step \<in> set xs. contract_step_post_init step = Inr ()"
  shows "foldE (rewrite_step r) [] xs = Inr (retained_steps r xs)"
    and "\<forall>step \<in> set (retained_steps r xs). contract_step_post_init step = Inr ()"
proof -
  have step: "contract_step_post_init (at_position n (mark r s)) = Inr ()"
    if "contract_step_post_init s = Inr ()" for n s
    using that by (auto simp: contract_step_post_init_def mark_def at_position_def refuse_def split: if_splits)
  show "foldE (rewrite_step r) [] xs = Inr (retained_steps r xs)"
    using assms
  proof (induction xs rule: rev_induct)
    case (snoc s xs)
    have "construct contract_step_post_init (at_position n (mark r s)) = Inr (at_position n (mark r s))" for n
      using step [of s n] snoc.prems by (simp add: construct_Inr_iff)
    moreover have "(s\<lparr>kc_operation_index := int n, kc_persistent_after_task := kc_persistent_after_task s
        \<or> allocates s \<and> kc_allocation_ordinal s \<in> r\<rparr>) = at_position n (mark r s)" for n
      by (simp add: at_position_def mark_def)
    moreover have "kc_operation s = OP_FREE \<longleftrightarrow> \<not> allocates s"
      using allocation_operation.exhaust by (metis allocation_operation.distinct(1))
    ultimately show ?case using snoc
      by (auto simp: foldE_append rewrite_step_def keep_def Let_def)
  qed simp
  show "\<forall>step \<in> set (retained_steps r xs). contract_step_post_init step = Inr ()"
    using assms
  proof (induction xs rule: rev_induct)
    case (snoc s xs)
    then show ?case using step by simp
  qed simp
qed

lemma allocations_retained:
  "map kc_allocation_ordinal (filter allocates (retained_steps r xs))
     = map kc_allocation_ordinal (filter allocates xs)"
  by (induction xs rule: rev_induct) (auto simp: keep_def)

lemma leaves_retained:
  "(\<exists>a \<in> set (retained_steps r xs). allocates a \<and> P (kc_allocation_ordinal a) (kc_output_leaf_indices a))
     \<longleftrightarrow> (\<exists>a \<in> set xs. allocates a \<and> P (kc_allocation_ordinal a) (kc_output_leaf_indices a))"
  by (induction xs rule: rev_induct) (auto simp: keep_def)

lemma freed_retained: "freed (retained_steps r xs) = freed xs - r"
  by (induction xs rule: rev_induct) (auto simp: keep_def)

lemma retained_copies:
  assumes "a \<in> set xs" "keep r a"
  shows "\<exists>n. at_position n (mark r a) \<in> set (retained_steps r xs)"
  using assms by (induction xs rule: rev_induct) auto

lemma retained_origin:
  "a \<in> set (retained_steps r xs) \<Longrightarrow> \<exists>b \<in> set xs. \<exists>n. keep r b \<and> a = at_position n (mark r b)"
  by (induction xs rule: rev_induct) (auto split: if_splits)

lemma walks_retained:
  assumes "walks xs"
  shows "walks (retained_steps r xs)"
  using assms
proof (induction xs rule: rev_induct)
  case (snoc step xs)
  let ?ys = "retained_steps r xs"
  have walks: "walks ?ys" and fits: "step_fits xs step" using snoc by (simp_all add: walks_snoc)
  have "step_fits ?ys (at_position n (mark r step))" if "keep r step" for n
  proof (cases "allocates step")
    case True
    have "length (filter allocates ?ys) = length (filter allocates xs)"
      using allocations_retained [of r xs] by (metis length_map)
    moreover have "set (kc_output_leaf_indices a) \<inter> set (kc_output_leaf_indices step) = {}"
      if "a \<in> set ?ys" "allocates a" for a
      using leaves_retained [of r xs "\<lambda>_ leaves. set leaves \<inter> set (kc_output_leaf_indices step) \<noteq> {}"]
        fits True that unfolding step_fits_def by auto
    ultimately show ?thesis using fits True by (simp add: step_fits_def)
  next
    case False
    then obtain a where a: "a \<in> set (held xs)" "kc_allocation_ordinal a = kc_allocation_ordinal step"
      "\<not> kc_persistent_after_task a" "same_geometry a step"
      using fits unfolding step_fits_def by auto
    have "kc_allocation_ordinal step \<notin> r" using \<open>keep r step\<close> False by (simp add: keep_def)
    moreover obtain m where "at_position m (mark r a) \<in> set ?ys"
      using retained_copies [of a xs r] a(1) by (auto simp: held_def keep_def)
    moreover have "kc_allocation_ordinal a \<notin> freed ?ys" using a(1) by (simp add: freed_retained held_def)
    ultimately have "at_position m (mark r a) \<in> set (held ?ys)"
      "\<not> kc_persistent_after_task (at_position m (mark r a))"
      using a by (auto simp: held_def mark_def)
    then show ?thesis using a False unfolding step_fits_def
      by (intro iffD2 [OF if_not_P]) (auto intro!: bexI [of _ "at_position m (mark r a)"])
  qed
  then show ?case using walks by (simp add: walks_snoc)
qed simp

lemma held_retained:
  assumes "\<forall>step \<in> set (held xs). kc_persistent_after_task step"
  shows "\<forall>step \<in> set (held (retained_steps r xs)). kc_persistent_after_task step"
proof
  fix step assume "step \<in> set (held (retained_steps r xs))"
  then have step: "step \<in> set (retained_steps r xs)" "allocates step"
    "kc_allocation_ordinal step \<notin> freed xs - r"
    by (simp_all add: held_def freed_retained)
  then obtain b n where b: "b \<in> set xs" "step = at_position n (mark r b)"
    using retained_origin by blast
  show "kc_persistent_after_task step"
  proof (cases "kc_allocation_ordinal b \<in> r")
    case True
    then show ?thesis using b step(2) by (simp add: mark_def at_position_def)
  next
    case False
    then have "b \<in> set (held xs)" using b step by (simp add: held_def)
    then show ?thesis using assms b(2) by (simp add: mark_def)
  qed
qed

lemma for_retained_run:
  assumes "valid_contract digest_steps c" "\<And>xs. length (digest_steps xs) = 64"
    and "\<forall>leaf \<in> set leaves. 0 \<le> leaf"
  shows "\<exists>c'. for_retained_output_leaves digest_steps leaves c = Inr c' \<and> valid_contract digest_steps c'
    \<and> tc_steps c' = retained_steps (retained_ordinals (set leaves) (tc_steps c)) (tc_steps c)"
proof -
  let ?r = "retained_ordinals (set leaves) (tc_steps c)" and ?xs = "tc_steps c"
  have valid: "walks ?xs" "\<forall>step \<in> set (held ?xs). kc_persistent_after_task step"
    "\<forall>step \<in> set ?xs. contract_step_post_init step = Inr ()"
    using assms(1) by (simp_all add: valid_contract_iff)
  have positions: "map kc_operation_index (retained_steps ?r ?xs)
      = map int [0..<length (retained_steps ?r ?xs)]"
    by (rule nth_equalityI) (simp_all add: retained_steps_def nth_enumerate_eq)
  have "\<exists>c'. contract_of_steps digest_steps (retained_steps ?r ?xs) = Inr c'
      \<and> tc_steps c' = retained_steps ?r ?xs \<and> valid_contract digest_steps c'"
    by (rule contract_of_steps_valid [OF assms(2) positions walks_retained [OF valid(1)]
        held_retained [OF valid(2)] retained_steps_run(2) [OF valid(3)]])
  then show ?thesis
    using assms(3) retained_steps_run(1) [OF valid(3)]
    by (auto simp: for_retained_output_leaves_def Let_def)
qed

text \<open>Retaining more outputs later is retaining them all at once.\<close>

lemma retained_again:
  "retained_steps q (retained_steps r xs) = retained_steps (r \<union> q) xs"
proof (induction xs rule: rev_induct)
  case (snoc step xs)
  have keeps: "keep (r \<union> q) step \<longleftrightarrow> keep r step \<and> keep q step" by (auto simp: keep_def)
  have "at_position n (mark q (at_position m (mark r step))) = at_position n (mark (r \<union> q) step)" for n m
    by (simp add: at_position_def mark_def conj_disj_distribL disj_assoc)
  moreover have "length (retained_steps q (retained_steps r xs)) = length (retained_steps (r \<union> q) xs)"
    using snoc.IH by simp
  ultimately show ?case using snoc.IH keeps by (simp del: length_retained_steps)
qed simp

lemma retained_ordinals_again:
  "retained_ordinals leaves (retained_steps r xs) = retained_ordinals leaves xs"
proof -
  have "retained_ordinals leaves ys = {k. \<exists>a \<in> set ys. allocates a \<and> k = kc_allocation_ordinal a
      \<and> leaves \<inter> set (kc_output_leaf_indices a) \<noteq> {}}" for ys
    by (auto simp: retained_ordinals_def)
  then show ?thesis
    using leaves_retained [of r xs "\<lambda>k' ls. k = k' \<and> leaves \<inter> set ls \<noteq> {}" for k] by auto
qed

lemma retained_ordinals_Un:
  "retained_ordinals (a \<union> b) xs = retained_ordinals a xs \<union> retained_ordinals b xs"
  by (auto simp: retained_ordinals_def Int_Un_distrib2)

end
