(* ===== verification/Task_Properties.thy ===== *)
theory Task_Properties
  imports Task_Contracts
begin

text \<open>
  What the contracts of a task promise: the copy for retained outputs is again a contract, and the
  outputs found off the device give up their storage and nothing else does.
\<close>

section \<open>Retained outputs\<close>

abbreviation allocated_ordinals :: "allocation_contract \<Rightarrow> int list" where
  "allocated_ordinals c \<equiv> map kc_allocation_ordinal (filter allocates (tc_steps c))"

text \<open>
  C39. Specializing an accepted allocation contract to the outputs an execution retains always
  succeeds and gives an accepted contract, with the same allocations. The task no longer frees
  exactly what backs a retained leaf, an allocation persists exactly when it is not freed, and
  retaining further outputs of the result is retaining all of them at once.
\<close>

theorem retained_contract_valid:
  assumes "valid_contract digest_steps c" and "\<And>xs. length (digest_steps xs) = 64"
    and "\<forall>leaf \<in> set leaves. 0 \<le> leaf"
  shows "\<exists>c'. for_retained_output_leaves digest_steps leaves c = Inr c'
    \<and> valid_contract digest_steps c'
    \<and> allocated_ordinals c' = allocated_ordinals c
    \<and> freed (tc_steps c') = freed (tc_steps c) - retained_ordinals (set leaves) (tc_steps c)
    \<and> (\<forall>step \<in> set (tc_steps c'). allocates step \<longrightarrow>
         (kc_persistent_after_task step \<longleftrightarrow> kc_allocation_ordinal step \<notin> freed (tc_steps c')))
    \<and> (\<forall>others. (\<forall>leaf \<in> set others. 0 \<le> leaf) \<longrightarrow>
         for_retained_output_leaves digest_steps others c'
           = for_retained_output_leaves digest_steps (leaves @ others) c)"
proof -
  obtain c' where c': "for_retained_output_leaves digest_steps leaves c = Inr c'"
    "valid_contract digest_steps c'"
    "tc_steps c' = retained_steps (retained_ordinals (set leaves) (tc_steps c)) (tc_steps c)"
    using for_retained_run [OF assms] by blast
  have valid: "walks (tc_steps c')" "\<forall>step \<in> set (held (tc_steps c')). kc_persistent_after_task step"
    using c'(2) by (simp_all add: valid_contract_iff)
  have "for_retained_output_leaves digest_steps others c'
      = for_retained_output_leaves digest_steps (leaves @ others) c"
    if others: "\<forall>leaf \<in> set others. 0 \<le> leaf" for others
  proof -
    have "\<forall>step \<in> set (tc_steps c). contract_step_post_init step = Inr ()"
      "\<forall>step \<in> set (tc_steps c'). contract_step_post_init step = Inr ()"
      using assms(1) c'(2) by (simp_all add: valid_contract_def)
    then show ?thesis using assms(3) others
      by (auto simp: for_retained_output_leaves_def Let_def retained_steps_run(1) c'(3)
          retained_again retained_ordinals_again retained_ordinals_Un)
  qed
  moreover have "kc_persistent_after_task step \<longleftrightarrow> kc_allocation_ordinal step \<notin> freed (tc_steps c')"
    if "step \<in> set (tc_steps c')" "allocates step" for step
    using walks_freed [OF valid(1) that] valid(2) that by (auto simp: held_def)
  ultimately show ?thesis using c' by (simp add: allocations_retained freed_retained)
qed

definition sample_event :: "int \<Rightarrow> allocation_operation \<Rightarrow> int \<Rightarrow> int list \<Rightarrow> allocation_event" where
  "sample_event i k b leaves =
     \<lparr>ae_allocation_ordinal = i, ae_operation = k, ae_requested_bytes = b, ae_charged_bytes = b,
      ae_output_leaf_indices = leaves, ae_output_view_offsets = map (\<lambda>_. 0) leaves,
      ae_reuses_ordinal = None, ae_alignment_bytes = 256\<rparr>"

definition sample_trace :: "allocation_event list" where
  "sample_trace = [sample_event 0 OP_ALLOCATE 512 [], sample_event 1 OP_ALLOCATE 256 [0],
     sample_event 0 OP_FREE 512 [], sample_event 2 OP_ALLOCATE 1024 [1, 2],
     sample_event 1 OP_FREE 256 [], sample_event 2 OP_FREE 1024 []]"

definition sample_digest :: steps_digest where "sample_digest steps = replicate 64 CHR ''a''"

definition sample_contract :: allocation_contract where
  "sample_contract = (case capture sample_digest sample_trace None of Inr c \<Rightarrow> c)"

lemma sample_contract: "capture sample_digest sample_trace None = Inr sample_contract"
  "valid_contract sample_digest sample_contract"
  by code_simp+

theorem retained_contract_valid_witness:
  "\<exists>c. for_retained_output_leaves sample_digest [1] sample_contract = Inr c
     \<and> valid_contract sample_digest c \<and> freed (tc_steps c) = {0, 1}"
proof -
  have "\<And>xs. length (sample_digest xs) = 64" by (simp add: sample_digest_def)
  moreover have "freed (tc_steps sample_contract)
      - retained_ordinals (set [1]) (tc_steps sample_contract) = {0, 1}"
    unfolding freed_def by code_simp
  ultimately show ?thesis
    using retained_contract_valid [OF sample_contract(2), of "[1]"] by auto
qed


section \<open>Outputs off the device\<close>

definition valid_storage :: "storage_contract \<Rightarrow> bool" where
  "valid_storage c \<longleftrightarrow> storage_contract_post_init c = Inr ()
     \<and> (\<forall>base \<in> set (so_roots c). storage_root_post_init base = Inr ())
     \<and> (\<forall>view \<in> set (so_output_views c). output_view_post_init view = Inr ())"

lemma check_views_iff:
  "foldE (check_view root_by_id) (leaves, used) views = Inr s \<longleftrightarrow>
     distinct (map ow_leaf_index views) \<and> ow_leaf_index ` set views \<inter> leaves = {}
     \<and> (\<forall>view \<in> set views. \<exists>base. root_by_id (ow_root_id view) = Some base
          \<and> ow_offset_bytes view + ow_span_bytes view \<le> ro_minimum_span_bytes base)
     \<and> s = (leaves \<union> ow_leaf_index ` set views, used \<union> ow_root_id ` set views)"
proof (induction views arbitrary: leaves used)
  case (Cons view views)
  show ?case
  proof (cases "root_by_id (ow_root_id view)")
    case None
    then show ?thesis by (simp add: check_view_def refuse_def)
  next
    case (Some base)
    then show ?thesis using Cons.IH [of "insert (ow_leaf_index view) leaves" "insert (ow_root_id view) used"]
      by (auto simp: check_view_def refuse_def)
  qed
qed auto

definition view_fits :: "storage_root list \<Rightarrow> output_view \<Rightarrow> bool" where
  "view_fits bases view \<longleftrightarrow> (\<exists>base \<in> set bases. ro_root_id base = ow_root_id view
     \<and> ow_offset_bytes view + ow_span_bytes view \<le> ro_minimum_span_bytes base)"

lemma storage_contract_iff:
  "storage_contract_post_init c = Inr () \<longleftrightarrow>
     map ro_root_id (so_roots c) = map int [0..<length (so_roots c)]
     \<and> distinct (map ow_leaf_index (so_output_views c))
     \<and> (\<forall>view \<in> set (so_output_views c). view_fits (so_roots c) view)
     \<and> ow_root_id ` set (so_output_views c) = ro_root_id ` set (so_roots c)
     \<and> distinct (map mutation_key (so_mutations c)) \<and> length (so_compatibility_digest c) = 64"
  (is "_ \<longleftrightarrow> ?positions \<and> _")
proof (cases ?positions)
  case True
  let ?by_id = "dict_of (map (\<lambda>base. (ro_root_id base, base)) (so_roots c))"
  have distinct: "distinct (map ro_root_id (so_roots c))" unfolding True by (simp add: distinct_map)
  have found: "?by_id k = Some base \<longleftrightarrow> base \<in> set (so_roots c) \<and> ro_root_id base = k" for k base
  proof
    assume "base \<in> set (so_roots c) \<and> ro_root_id base = k"
    then show "?by_id k = Some base"
      by (intro dict_of_distinct) (use distinct in \<open>auto simp: comp_def\<close>)
  qed (auto dest: dict_of_SomeD)
  have "(\<exists>base. ?by_id (ow_root_id view) = Some base
      \<and> ow_offset_bytes view + ow_span_bytes view \<le> ro_minimum_span_bytes base)
    \<longleftrightarrow> view_fits (so_roots c) view" for view
    unfolding found view_fits_def by blast
  then show ?thesis using True
    by (auto simp: storage_contract_post_init_def refuse_def bindE_Inr_iff check_views_iff Let_def)
qed (simp add: storage_contract_post_init_def refuse_def)

text \<open>The leaves of a root, and what is left of a view and of a root of which all leaves are named.\<close>

definition off_device :: "int set \<Rightarrow> output_view \<Rightarrow> output_view" where
  "off_device named view =
     (if ow_leaf_index view \<in> named then view\<lparr>ow_offset_bytes := 0, ow_span_bytes := 0\<rparr> else view)"

definition given_up :: "int set \<Rightarrow> output_view list \<Rightarrow> storage_root \<Rightarrow> storage_root" where
  "given_up named views base =
     (if \<exists>view \<in> set views. ow_root_id view = ro_root_id base \<and> ow_leaf_index view \<in> named
      then base\<lparr>ro_minimum_span_bytes := 0\<rparr> else base)"

lemma storage_root_shrunk:
  assumes "storage_root_post_init base = Inr ()"
  shows "storage_root_post_init (base\<lparr>ro_minimum_span_bytes := 0\<rparr>) = Inr ()"
    and "0 \<le> ro_minimum_span_bytes base"
  using assms by (auto simp: storage_root_post_init_def refuse_def absent_or_negative_def absent_def
      split: if_split_asm option.splits)

lemma output_view_shrunk:
  assumes "output_view_post_init view = Inr ()"
  shows "output_view_post_init (view\<lparr>ow_offset_bytes := 0, ow_span_bytes := 0\<rparr>) = Inr ()"
  using assms by (auto simp: output_view_post_init_def refuse_def split: if_split_asm)

lemma emptied_parts:
  assumes "valid_storage c"
  shows "mapE (emptied_root (ow_root_id ` set (filter (\<lambda>view. ow_leaf_index view \<in> named)
            (so_output_views c)))) (so_roots c)
          = Inr (map (given_up named (so_output_views c)) (so_roots c))"
    and "mapE (emptied_view named) (so_output_views c)
          = Inr (map (off_device named) (so_output_views c))"
proof -
  show "mapE (emptied_root (ow_root_id ` set (filter (\<lambda>view. ow_leaf_index view \<in> named)
            (so_output_views c)))) (so_roots c)
          = Inr (map (given_up named (so_output_views c)) (so_roots c))"
  proof (rule mapE_Inr_all)
    fix base assume "base \<in> set (so_roots c)"
    moreover have "ro_root_id base \<in> ow_root_id ` set (filter (\<lambda>view. ow_leaf_index view \<in> named)
          (so_output_views c))
        \<longleftrightarrow> (\<exists>view \<in> set (so_output_views c). ow_root_id view = ro_root_id base
          \<and> ow_leaf_index view \<in> named)"
      by (auto simp: image_iff)
    ultimately show "emptied_root (ow_root_id ` set (filter (\<lambda>view. ow_leaf_index view \<in> named)
        (so_output_views c))) base = Inr (given_up named (so_output_views c) base)"
      using assms storage_root_shrunk(1)
      by (auto simp: emptied_root_def given_up_def construct_Inr_iff valid_storage_def)
  qed
  show "mapE (emptied_view named) (so_output_views c)
          = Inr (map (off_device named) (so_output_views c))"
    using assms output_view_shrunk by (intro mapE_Inr_all)
      (auto simp: emptied_view_def off_device_def construct_Inr_iff valid_storage_def)
qed

lemma undivided_iff:
  "filter (\<lambda>view. ow_root_id view \<in> ow_root_id ` set (filter (\<lambda>view. ow_leaf_index view \<in> named) views)
       \<and> ow_leaf_index view \<notin> named) views = []
   \<longleftrightarrow> (\<forall>v \<in> set views. \<forall>w \<in> set views. ow_root_id v = ow_root_id w \<longrightarrow>
       (ow_leaf_index v \<in> named \<longleftrightarrow> ow_leaf_index w \<in> named))"
  (is "?empty \<longleftrightarrow> ?whole")
proof -
  have "?empty \<longleftrightarrow> (\<forall>v \<in> set views. (\<exists>w \<in> set views. ow_leaf_index w \<in> named
      \<and> ow_root_id v = ow_root_id w) \<longrightarrow> ow_leaf_index v \<in> named)"
    unfolding filter_empty_conv set_filter image_iff by blast
  also have "\<dots> \<longleftrightarrow> ?whole" by metis
  finally show ?thesis .
qed

text \<open>
  C40. Outputs found to live off the device give up their storage: when every named leaf is an
  output and each root is named for all of its leaves or none, the result is an accepted contract
  with the same mutations, in which exactly the named leaves and their roots have no span. Otherwise
  the request is refused as a capture error.
\<close>

theorem without_device_storage_exact:
  assumes "valid_storage c" and "\<And>roots views mutations. length (digest_of roots views mutations) = 64"
  shows "if set leaves \<subseteq> ow_leaf_index ` set (so_output_views c)
      \<and> (\<forall>v \<in> set (so_output_views c). \<forall>w \<in> set (so_output_views c). ow_root_id v = ow_root_id w \<longrightarrow>
           (ow_leaf_index v \<in> set leaves \<longleftrightarrow> ow_leaf_index w \<in> set leaves))
    then \<exists>c'. without_device_storage digest_of leaves c = Inr c' \<and> valid_storage c'
      \<and> so_output_views c' = map (off_device (set leaves)) (so_output_views c)
      \<and> so_roots c' = map (given_up (set leaves) (so_output_views c)) (so_roots c)
      \<and> so_mutations c' = so_mutations c
    else \<exists>message. without_device_storage digest_of leaves c = Inl (CaptureError message)"
  (is "if ?known \<and> ?whole then _ else _")
proof (cases "?known \<and> ?whole \<and> set leaves \<noteq> {}")
  case True
  let ?views = "so_output_views c" and ?named = "set leaves"
  let ?views' = "map (off_device ?named) ?views" and ?roots' = "map (given_up ?named ?views) (so_roots c)"
  let ?c' = "\<lparr>so_roots = ?roots', so_output_views = ?views', so_mutations = so_mutations c,
    so_compatibility_digest = digest_of ?roots' ?views' (so_mutations c)\<rparr>"
  note C = assms(1) [unfolded valid_storage_def storage_contract_iff]
  have ids: "ow_leaf_index (off_device n v) = ow_leaf_index v" "ow_root_id (off_device n v) = ow_root_id v"
    "ro_root_id (given_up n vs base) = ro_root_id base" for n v vs base
    by (simp_all add: off_device_def given_up_def)
  have "view_fits ?roots' (off_device ?named v)" if v: "v \<in> set ?views" for v
  proof -
    obtain base where base: "base \<in> set (so_roots c)" "ro_root_id base = ow_root_id v"
      "ow_offset_bytes v + ow_span_bytes v \<le> ro_minimum_span_bytes base"
      using C v unfolding view_fits_def by blast
    have named: "(\<exists>w \<in> set ?views. ow_root_id w = ro_root_id base \<and> ow_leaf_index w \<in> ?named)
        \<longleftrightarrow> ow_leaf_index v \<in> ?named"
      using True v base(2) by metis
    have "0 \<le> ro_minimum_span_bytes base" using C base(1) storage_root_shrunk(2) by blast
    then have "ow_offset_bytes (off_device ?named v) + ow_span_bytes (off_device ?named v)
        \<le> ro_minimum_span_bytes (given_up ?named ?views base)"
      using base(3) unfolding given_up_def named off_device_def by simp
    moreover have "given_up ?named ?views base \<in> set ?roots'" using base(1) by simp
    ultimately show ?thesis using base(2) ids unfolding view_fits_def by metis
  qed
  then have "storage_contract_post_init ?c' = Inr ()"
    unfolding storage_contract_iff using C assms(2) ids
    by (simp add: comp_def image_image)
  moreover have "\<forall>base \<in> set ?roots'. storage_root_post_init base = Inr ()"
    "\<forall>view \<in> set ?views'. output_view_post_init view = Inr ()"
    using C storage_root_shrunk(1) output_view_shrunk by (auto simp: given_up_def off_device_def)
  ultimately have "valid_storage ?c'" by (simp add: valid_storage_def)
  moreover have "without_device_storage digest_of leaves c = Inr ?c'"
  proof -
    have "?named - set (map ow_leaf_index ?views) = {}" "?named \<noteq> {}" using True by auto
    moreover have "?whole" using True by blast
    note iffD2 [OF undivided_iff this]
    moreover have "construct storage_contract_post_init ?c' = Inr ?c'"
      using \<open>storage_contract_post_init ?c' = Inr ()\<close> by (simp only: construct_Inr_iff simp_thms)
    ultimately show ?thesis
      unfolding without_device_storage_def Let_def
      by (simp only: if_False simp_thms bindE_simps build_storage_contract_def
          emptied_parts [OF assms(1), of ?named])
  qed
  ultimately have "\<exists>c'. without_device_storage digest_of leaves c = Inr c' \<and> valid_storage c'
      \<and> so_output_views c' = ?views' \<and> so_roots c' = ?roots' \<and> so_mutations c' = so_mutations c"
    by (intro exI [of _ ?c'] conjI) (simp_all del: map_map)
  moreover have "?known \<and> ?whole" using True by blast
  ultimately show ?thesis by (subst if_P)
next
  case False
  show ?thesis
  proof (cases "?known \<and> ?whole")
    case True
    then have "set leaves = {}" using False by blast
    then have none: "leaves = []" by simp
    have "map (off_device {}) (so_output_views c) = so_output_views c"
      "map (given_up {} (so_output_views c)) (so_roots c) = so_roots c"
      by (simp_all add: off_device_def given_up_def map_idI)
    then show ?thesis using none assms(1) by (simp add: without_device_storage_def)
  next
    case refused: False
    have "set leaves \<noteq> {}" using refused by auto
    moreover have "set leaves - set (map ow_leaf_index (so_output_views c)) \<noteq> {} \<or> \<not> ?whole"
      using refused by auto
    ultimately have "\<exists>message. without_device_storage digest_of leaves c = Inl (CaptureError message)"
      unfolding without_device_storage_def Let_def undivided_iff [symmetric]
      by (cases "set leaves - set (map ow_leaf_index (so_output_views c)) = {}")
        (simp_all only: if_True if_False simp_thms, blast+)
    then show ?thesis by (subst if_not_P [OF refused])
  qed
qed

definition sample_storage :: storage_contract where
  "sample_storage =
     (let fresh = (\<lambda>i b. \<lparr>ro_root_id = i, ro_kind = ROOT_FRESH, ro_source_input = None,
            ro_producer_node = Some ''mm'', ro_producer_target = Some ''aten.mm'',
            ro_producer_result = Some 0, ro_minimum_span_bytes = b\<rparr>);
          view = (\<lambda>l r b. \<lparr>ow_leaf_index = l, ow_root_id = r, ow_offset_bytes = 0, ow_span_bytes = b,
            ow_shape = [b div 4], ow_stride = [1], ow_dtype = ''float32'', ow_layout = ''strided''\<rparr>)
      in \<lparr>so_roots = [fresh 0 64, fresh 1 4], so_output_views = [view 0 0 64, view 1 1 4, view 2 0 32],
          so_mutations = [], so_compatibility_digest = replicate 64 CHR ''a''\<rparr>)"

definition sample_storage_digest :: storage_digest where
  "sample_storage_digest roots views mutations = replicate 64 CHR ''b''"

theorem without_device_storage_exact_witness:
  "(\<exists>c. without_device_storage sample_storage_digest [1] sample_storage = Inr c \<and> valid_storage c
      \<and> map ow_span_bytes (so_output_views c) = [64, 0, 32])
   \<and> (\<exists>message. without_device_storage sample_storage_digest [0] sample_storage
        = Inl (CaptureError message))"
proof -
  have valid: "valid_storage sample_storage" by code_simp
  have digest: "\<And>roots views mutations. length (sample_storage_digest roots views mutations) = 64"
    by (simp add: sample_storage_digest_def)
  have split: "set [1] \<subseteq> ow_leaf_index ` set (so_output_views sample_storage)
      \<and> (\<forall>v \<in> set (so_output_views sample_storage). \<forall>w \<in> set (so_output_views sample_storage).
           ow_root_id v = ow_root_id w \<longrightarrow>
           (ow_leaf_index v \<in> set [1] \<longleftrightarrow> ow_leaf_index w \<in> set [1]))"
    "\<not> (set [0] \<subseteq> ow_leaf_index ` set (so_output_views sample_storage)
      \<and> (\<forall>v \<in> set (so_output_views sample_storage). \<forall>w \<in> set (so_output_views sample_storage).
           ow_root_id v = ow_root_id w \<longrightarrow>
           (ow_leaf_index v \<in> set [0] \<longleftrightarrow> ow_leaf_index w \<in> set [0])))"
    by code_simp+
  have spans: "map ow_span_bytes (map (off_device (set [1])) (so_output_views sample_storage)) = [64, 0, 32]"
    by code_simp
  note kept = without_device_storage_exact [where digest_of = sample_storage_digest and leaves = "[1]",
    OF valid digest, unfolded if_P [OF split(1)]]
  note divided = without_device_storage_exact [where digest_of = sample_storage_digest and leaves = "[0]",
    OF valid digest, unfolded if_not_P [OF split(2)]]
  from kept obtain c where "without_device_storage sample_storage_digest [1] sample_storage = Inr c"
    "valid_storage c" "so_output_views c = map (off_device (set [1])) (so_output_views sample_storage)"
    by (elim exE conjE) (rule that)
  then have "\<exists>c. without_device_storage sample_storage_digest [1] sample_storage = Inr c
      \<and> valid_storage c \<and> map ow_span_bytes (so_output_views c) = [64, 0, 32]"
    using spans by (intro exI [of _ c]) (simp only: simp_thms)
  then show ?thesis using divided by (rule conjI)
qed

end
