(* ===== verification/Admission_Build.thy ===== *)
theory Admission_Build
  imports Task_Allocations Admission_Follows
begin

text \<open>
  How the admission facts of a program are made (\<^verbatim>\<open>src/shadowspill/planning/admission\<close>): the bindings of
  returned leaves to alias groups, the projection of a profiled allocation trace to the steps of a
  task, the workspace a trace needs at its peak, the bytes shared leases take
  (\<^verbatim>\<open>ir/sharing.py\<close>) and \<^verbatim>\<open>build_admission_facts\<close>.
\<close>

section \<open>Output bindings\<close>

record object_slot =
  os_leaf_index :: int
  os_object_id :: string

record lease_handoff =
  hn_leaf_index :: int
  hn_source_object_id :: string
  hn_destination_object_id :: string

text \<open>What else the program knows about a task, and its place in the program.\<close>

record task_options =
  to_phase :: string
  to_stage_index :: "int option"
  to_repetition :: "int option"
  to_variant :: "string option"
  to_target :: "string option"
  to_public_output_count :: int
  to_public_output_leaves :: "int list"
  to_contribution_slots :: "object_slot list"
  to_named_inputs :: "string list"

record task_entrypoint =
  en_task_id :: string
  en_input_slots :: "object_slot list"
  en_output_slots :: "object_slot list"
  en_replacement_output_leaves :: "int list"
  en_storage_handoffs :: "lease_handoff list"
  en_options :: task_options

definition boundary_entrypoint :: "task_spec \<Rightarrow> task_entrypoint" where
  "boundary_entrypoint task =
     \<lparr>en_task_id = tk_task_id task, en_input_slots = [], en_output_slots = [],
      en_replacement_output_leaves = [], en_storage_handoffs = [],
      en_options = \<lparr>to_phase = tk_phase task, to_stage_index = None, to_repetition = None,
        to_variant = None, to_target = None, to_public_output_count = 0,
        to_public_output_leaves = [], to_contribution_slots = [], to_named_inputs = []\<rparr>\<rparr>"

definition execution_entrypoints ::
    "task_spec list \<Rightarrow> task_entrypoint list \<Rightarrow> py_error + task_entrypoint list" where
  "execution_entrypoints tasks entrypoints =
     (let by_id = dict_of (map (\<lambda>x. (en_task_id x, x)) entrypoints)
      in mapE (\<lambda>task. if tk_requires_entrypoint task then dict_get by_id (tk_task_id task)
           else Inr (boundary_entrypoint task)) tasks)"

record output_binding =
  bi_leaf_index :: int
  bi_alias_group_id :: string
  bi_replacement :: bool
  bi_source_alias_group_id :: "string option"

definition output_binding_post_init :: "output_binding \<Rightarrow> py_error + unit" where
  "output_binding_post_init self =
     (if bi_leaf_index self < 0 then refuse [Lit ''output leaf index must be non-negative'']
      else if bi_alias_group_id self = [] then
        refuse [Lit ''output alias group ID must be non-empty'']
      else if bi_source_alias_group_id self = Some (bi_alias_group_id self) then
        refuse [Lit ''storage handoff source and destination must differ'']
      else Inr ())"

definition handoff_source ::
    "(string \<rightharpoonup> string) \<Rightarrow> (int \<rightharpoonup> lease_handoff) \<Rightarrow> int \<Rightarrow> py_error + string option" where
  "handoff_source alias_by_object handoff_by_leaf leaf =
     (case handoff_by_leaf leaf of
        None \<Rightarrow> Inr None
      | Some handoff \<Rightarrow>
          bindE (dict_get alias_by_object (hn_source_object_id handoff)) (\<lambda>alias_id.
            Inr (Some alias_id)))"

text \<open>One slot: the aliases seen so far and the bindings so far.\<close>

definition bind_slot ::
    "(string \<rightharpoonup> string) \<Rightarrow> task_spec \<Rightarrow> task_entrypoint \<Rightarrow> string set \<times> output_binding list \<Rightarrow> object_slot
     \<Rightarrow> py_error + (string set \<times> output_binding list)" where
  "bind_slot alias_by_object task entrypoint = (\<lambda>(seen_aliases, bindings) slot.
     let replacement = os_leaf_index slot \<in> set (en_replacement_output_leaves entrypoint);
         handoff_by_leaf = dict_of (map (\<lambda>x. (hn_leaf_index x, x)) (en_storage_handoffs entrypoint))
     in if os_object_id slot \<notin> set (tk_outputs task) \<and> \<not> replacement then
          Inr (seen_aliases, bindings)
        else
          bindE (dict_get alias_by_object (os_object_id slot)) (\<lambda>alias_id.
          if alias_id \<in> seen_aliases then Inr (seen_aliases, bindings)
          else
            bindE (handoff_source alias_by_object handoff_by_leaf (os_leaf_index slot)) (\<lambda>source.
            bindE (construct output_binding_post_init
              \<lparr>bi_leaf_index = os_leaf_index slot, bi_alias_group_id = alias_id,
               bi_replacement = replacement, bi_source_alias_group_id = source\<rparr>) (\<lambda>binding.
            Inr (insert alias_id seen_aliases, bindings @ [binding])))))"

definition entrypoint_slots :: "task_entrypoint \<Rightarrow> object_slot list" where
  "entrypoint_slots entrypoint =
     (if to_contribution_slots (en_options entrypoint) \<noteq> []
      then to_contribution_slots (en_options entrypoint)
      else en_output_slots entrypoint)"

definition bind_entrypoint ::
    "task_spec list \<Rightarrow> (string \<rightharpoonup> string) \<Rightarrow> (string \<rightharpoonup> output_binding list) \<Rightarrow> task_entrypoint
     \<Rightarrow> py_error + (string \<rightharpoonup> output_binding list)" where
  "bind_entrypoint tasks alias_by_object result entrypoint =
     (case dict_of (map (\<lambda>task. (tk_task_id task, task)) tasks) (en_task_id entrypoint) of
        None \<Rightarrow> Inr result
      | Some task \<Rightarrow>
          bindE (foldE (bind_slot alias_by_object task entrypoint) ({}, [])
            (entrypoint_slots entrypoint)) (\<lambda>(seen_aliases, bindings).
            Inr (result(tk_task_id task \<mapsto> bindings))))"

definition output_bindings_for_entrypoints ::
    "task_spec list \<Rightarrow> task_entrypoint list \<Rightarrow> (string \<rightharpoonup> string)
     \<Rightarrow> py_error + (string \<rightharpoonup> output_binding list)" where
  "output_bindings_for_entrypoints tasks entrypoints alias_by_object =
     foldE (bind_entrypoint tasks alias_by_object) Map.empty entrypoints"


section \<open>The steps of a trace\<close>

record trace_projection =
  tn_live :: "(int \<times> string option) list"
  tn_steps :: "task_allocation_step list"
  tn_observed_aliases :: "string set"

definition release_step :: "int \<Rightarrow> py_error + task_allocation_step" where
  "release_step ordinal =
     construct task_allocation_step_post_init
       \<lparr>as_allocation_ordinal = ordinal, as_kind = STEP_RELEASE, as_charged_bytes = 0,
        as_output_alias_group_id = None, as_reuses_allocation_ordinal = None\<rparr>"

definition project_event ::
    "string \<Rightarrow> (int \<rightharpoonup> string) \<Rightarrow> trace_projection \<Rightarrow> allocation_event \<Rightarrow> py_error + trace_projection" where
  "project_event task_id alias_by_leaf projection event =
     (let ordinal = ae_allocation_ordinal event
      in if ae_operation event = OP_ALLOCATE then
           (let aliases = fromkeys (List.map_filter alias_by_leaf (ae_output_leaf_indices event))
            in if length aliases > 1 then
                 refuse [Lit ''task '', Lit task_id, Lit '' allocation '', Num ordinal,
                   Lit '' backs distinct persistent aliases '', ReprList (sort aliases)]
               else
                 let alias_id = (case aliases of [] \<Rightarrow> None | a # _ \<Rightarrow> Some a)
                 in bindE (construct task_allocation_step_post_init
                      \<lparr>as_allocation_ordinal = ordinal, as_kind = STEP_ALLOCATE,
                       as_charged_bytes = ae_charged_bytes event,
                       as_output_alias_group_id = alias_id,
                       as_reuses_allocation_ordinal = ae_reuses_ordinal event\<rparr>) (\<lambda>step.
                    Inr \<lparr>tn_live = AList.update ordinal alias_id (tn_live projection),
                         tn_steps = tn_steps projection @ [step],
                         tn_observed_aliases =
                           set_option alias_id \<union> tn_observed_aliases projection\<rparr>))
         else if ordinal \<notin> set (map fst (tn_live projection)) then
           refuse [Lit ''task '', Lit task_id,
             Lit '' allocation trace releases unknown ordinal '', Num ordinal]
         else
           bindE (release_step ordinal) (\<lambda>step.
             Inr (projection\<lparr>tn_live := AList.delete ordinal (tn_live projection),
                             tn_steps := tn_steps projection @ [step]\<rparr>)))"

definition task_allocation_steps ::
    "string \<Rightarrow> allocation_event list \<Rightarrow> output_binding list \<Rightarrow> string set
     \<Rightarrow> py_error + task_allocation_step list" where
  "task_allocation_steps task_id trace bindings persistent_aliases =
     (let alias_by_leaf = dict_of (map (\<lambda>x. (bi_leaf_index x, bi_alias_group_id x)) bindings)
      in bindE (foldE (project_event task_id alias_by_leaf)
           \<lparr>tn_live = [], tn_steps = [], tn_observed_aliases = {}\<rparr> trace) (\<lambda>projection.
         let missing = persistent_aliases - tn_observed_aliases projection;
             unexpected = tn_observed_aliases projection - persistent_aliases
         in if missing \<noteq> {} \<or> unexpected \<noteq> {} then
              refuse [Lit ''task '', Lit task_id,
                Lit '' physical output bindings disagree with ShadowSpillProgram ownership: missing='',
                ReprList (sorted_list_of_set missing), Lit '', unexpected='',
                ReprList (sorted_list_of_set unexpected)]
            else
              bindE (mapE release_step
                  (map fst (filter (\<lambda>(ordinal, alias_id). alias_id = None) (tn_live projection))))
                (\<lambda>releases. Inr (tn_steps projection @ releases))))"

text \<open>The peak of the live set: the local variables of the scan.\<close>

record workspace_scan =
  ws_live :: "(int \<times> int) list"
  ws_peak :: "int list"
  ws_live_bytes :: int
  ws_peak_bytes :: int

definition is_workspace :: "string set \<Rightarrow> task_allocation_step \<Rightarrow> bool" where
  "is_workspace transient_aliases step \<longleftrightarrow>
     (case as_output_alias_group_id step of None \<Rightarrow> True | Some a \<Rightarrow> a \<in> transient_aliases)"

definition change_live :: "string set \<Rightarrow> workspace_scan \<Rightarrow> task_allocation_step \<Rightarrow> workspace_scan" where
  "change_live transient_aliases scan step =
     (let ordinal = as_allocation_ordinal step
      in if as_kind step = STEP_ALLOCATE then
           (if is_workspace transient_aliases step
            then scan\<lparr>ws_live := AList.update ordinal (as_charged_bytes step) (ws_live scan),
                      ws_live_bytes := ws_live_bytes scan + as_charged_bytes step\<rparr>
            else scan)
         else
           scan\<lparr>ws_live := AList.delete ordinal (ws_live scan),
                ws_live_bytes := ws_live_bytes scan -
                  (case map_of (ws_live scan) ordinal of None \<Rightarrow> 0 | Some b \<Rightarrow> b)\<rparr>)"

definition raise_peak :: "workspace_scan \<Rightarrow> workspace_scan" where
  "raise_peak scan =
     (if ws_live_bytes scan > ws_peak_bytes scan
      then scan\<lparr>ws_peak_bytes := ws_live_bytes scan, ws_peak := sort (map snd (ws_live scan))\<rparr>
      else scan)"

definition workspace_peak_extents :: "task_allocation_step list \<Rightarrow> string set \<Rightarrow> int list" where
  "workspace_peak_extents steps transient_aliases =
     ws_peak (fold (\<lambda>step scan. raise_peak (change_live transient_aliases scan step)) steps
       \<lparr>ws_live = [], ws_peak = [], ws_live_bytes = 0, ws_peak_bytes = 0\<rparr>)"

definition anonymous_peak_extents :: "task_allocation_step list \<Rightarrow> int list" where
  "anonymous_peak_extents steps = workspace_peak_extents steps {}"


section \<open>The bytes of shared leases\<close>

record shared_footprint =
  sf_device_bytes :: "(string \<times> int) list"
  sf_spill_bytes :: int
  sf_alias_group_ids :: "string list"

definition for_device :: "shared_footprint \<Rightarrow> string \<Rightarrow> py_error + int" where
  "for_device self device_id = dict_get (map_of (sf_device_bytes self)) device_id"

definition add_shared_alias :: "shared_footprint \<Rightarrow> alias_group_spec \<Rightarrow> py_error + shared_footprint" where
  "add_shared_alias footprint alias_group =
     (if ag_shared_residency alias_group = None then Inr footprint
      else
        bindE (dict_get (map_of (sf_device_bytes footprint)) (ag_device_id alias_group)) (\<lambda>bytes.
        Inr \<lparr>sf_device_bytes = AList.update (ag_device_id alias_group)
               (bytes + ag_size_bytes alias_group) (sf_device_bytes footprint),
             sf_spill_bytes = sf_spill_bytes footprint
               + (if ag_retain_spill_copy alias_group then spill_size_bytes alias_group else 0),
             sf_alias_group_ids =
               sf_alias_group_ids footprint @ [ag_alias_group_id alias_group]\<rparr>))"

definition shared_residency_footprint :: "shadow_spill_program \<Rightarrow> py_error + shared_footprint" where
  "shared_residency_footprint program =
     foldE add_shared_alias
       \<lparr>sf_device_bytes =
          fold (\<lambda>device. AList.update (dv_device_id device) 0) (pg_devices program) [],
        sf_spill_bytes = 0, sf_alias_group_ids = []\<rparr>
       (pg_alias_groups program)"


section \<open>The facts of a program\<close>

text \<open>A comprehension whose condition may raise.\<close>

definition selectE :: "('a \<Rightarrow> py_error + bool) \<Rightarrow> 'a list \<Rightarrow> py_error + 'a list" where
  "selectE p xs = foldE (\<lambda>ys x. bindE (p x) (\<lambda>b. Inr (if b then ys @ [x] else ys))) [] xs"

definition has_bytes :: "(string \<rightharpoonup> int) \<Rightarrow> string \<Rightarrow> py_error + bool" where
  "has_bytes alias_size alias_id = bindE (dict_get alias_size alias_id) (\<lambda>bytes. Inr (bytes \<noteq> 0))"

definition replacements_of ::
    "(string \<rightharpoonup> int) \<Rightarrow> output_binding list \<Rightarrow> py_error + string list" where
  "replacements_of alias_size bindings =
     bindE (selectE (\<lambda>x. if bi_replacement x then has_bytes alias_size (bi_alias_group_id x)
         else Inr False) bindings) (\<lambda>replaced.
       Inr (fromkeys (map bi_alias_group_id replaced)))"

definition handoffs_of :: "output_binding list \<Rightarrow> py_error + storage_handoff list" where
  "handoffs_of bindings =
     mapE (\<lambda>(source, destination). construct storage_handoff_post_init
         \<lparr>sh_source_alias_group_id = source, sh_destination_alias_group_id = destination\<rparr>)
       (List.map_filter (\<lambda>x. map_option (\<lambda>source. (source, bi_alias_group_id x))
         (bi_source_alias_group_id x)) bindings)"

definition fresh_candidates ::
    "(string \<rightharpoonup> string) \<Rightarrow> task_spec \<Rightarrow> output_binding list \<Rightarrow> py_error + string list" where
  "fresh_candidates alias_by_object task bindings =
     bindE (mapE (dict_get alias_by_object) (tk_outputs task)) (\<lambda>outputs.
       Inr (fromkeys (outputs @ map bi_alias_group_id
         (filter (\<lambda>x. \<not> bi_replacement x \<and> bi_source_alias_group_id x = None) bindings))))"

definition fresh_aliases_of ::
    "(string \<rightharpoonup> int) \<Rightarrow> string list \<Rightarrow> string set \<Rightarrow> string list \<Rightarrow> py_error + string list" where
  "fresh_aliases_of alias_size replacements handoff_destinations fresh =
     selectE (\<lambda>alias_id.
         if alias_id \<notin> set replacements \<and> alias_id \<notin> handoff_destinations
         then has_bytes alias_size alias_id else Inr False) fresh"

definition trace_of ::
    "(string \<rightharpoonup> allocation_event list) \<Rightarrow> task_spec \<Rightarrow> task_profile \<Rightarrow> py_error + allocation_event list" where
  "trace_of profiled_traces task profile =
     (if \<not> tk_requires_entrypoint task then Inr []
      else
        case profiled_traces (pf_compatibility_digest profile) of
          None \<Rightarrow>
            refuse [Lit ''task '', Lit (tk_task_id task), Lit '' lacks explicit physical allocation '',
              Lit ''evidence for profile '', Repr (pf_compatibility_digest profile)]
        | Some trace \<Rightarrow> Inr trace)"

definition workspace_disagrees ::
    "task_spec \<Rightarrow> task_profile \<Rightarrow> int list \<Rightarrow> string list \<Rightarrow> string list \<Rightarrow> py_error + 'a" where
  "workspace_disagrees task profile task_workspace_extents fresh_aliases replacements =
     refuse [Lit ''task '', Lit (tk_task_id task),
       Lit '' physical allocation trace and ShadowSpillProgram workspace disagree: trace_peak='',
       Num (sum_list task_workspace_extents), Lit '', program_workspace='',
       Num (pf_workspace_bytes profile), Lit '', phase='', Repr (tk_phase task), Lit '', profile='',
       Repr (pf_profile_id profile), Lit '', compatibility='', Repr (pf_compatibility_digest profile),
       Lit '', profiled_workspace='', Num (pf_workspace_bytes profile), Lit '', fresh_aliases='',
       ReprTuple fresh_aliases, Lit '', replacement_aliases='', ReprTuple replacements,
       Lit '', workspace_extents='', ReprInts task_workspace_extents]"

text \<open>What the loop over the tasks reads.\<close>

record facts_context =
  fc_alias_by_object :: "string \<rightharpoonup> string"
  fc_alias_size :: "string \<rightharpoonup> int"
  fc_profile_by_id :: "string \<rightharpoonup> task_profile"
  fc_profiled_traces :: "string \<rightharpoonup> allocation_event list"
  fc_bindings_by_task :: "string \<rightharpoonup> output_binding list"

definition facts_context_of ::
    "shadow_spill_program \<Rightarrow> (string \<rightharpoonup> output_binding list) \<Rightarrow> (string \<rightharpoonup> allocation_event list)
     \<Rightarrow> facts_context" where
  "facts_context_of program bindings_by_task profiled_traces =
     \<lparr>fc_alias_by_object =
        dict_of (map (\<lambda>b. (ob_object_id b, ob_alias_group_id b)) (pg_objects program)),
      fc_alias_size = dict_of (map (\<lambda>g. (ag_alias_group_id g, ag_size_bytes g))
        (pg_alias_groups program)),
      fc_profile_by_id = dict_of (map (\<lambda>p. (pf_profile_id p, p)) (pg_profiles program)),
      fc_profiled_traces = profiled_traces, fc_bindings_by_task = bindings_by_task\<rparr>"

definition bindings_of :: "facts_context \<Rightarrow> task_spec \<Rightarrow> output_binding list" where
  "bindings_of cx task =
     (case fc_bindings_by_task cx (tk_task_id task) of None \<Rightarrow> [] | Some xs \<Rightarrow> xs)"

definition task_admission_of :: "facts_context \<Rightarrow> task_spec \<Rightarrow> py_error + task_admission_spec" where
  "task_admission_of cx task =
     (let bindings = bindings_of cx task
      in bindE (replacements_of (fc_alias_size cx) bindings) (\<lambda>replacements.
         bindE (handoffs_of bindings) (\<lambda>handoffs.
         bindE (fresh_candidates (fc_alias_by_object cx) task bindings) (\<lambda>fresh.
         bindE (fresh_aliases_of (fc_alias_size cx) replacements
           (sh_destination_alias_group_id ` set handoffs) fresh) (\<lambda>fresh_aliases.
         bindE (dict_get (fc_profile_by_id cx) (tk_profile_id task)) (\<lambda>profile.
         bindE (trace_of (fc_profiled_traces cx) task profile) (\<lambda>trace.
         bindE (task_allocation_steps (tk_task_id task) trace bindings
           (set fresh_aliases \<union> set replacements)) (\<lambda>steps.
         let task_workspace_extents = workspace_peak_extents steps (set replacements)
         in if sum_list task_workspace_extents \<noteq> pf_workspace_bytes profile then
              workspace_disagrees task profile task_workspace_extents fresh_aliases replacements
            else
              construct task_admission_spec_post_init
                \<lparr>ta_task_id = tk_task_id task, ta_workspace_extents = anonymous_peak_extents steps,
                 ta_fresh_output_aliases = fresh_aliases, ta_replacement_aliases = replacements,
                 ta_storage_handoffs = handoffs, ta_allocation_steps = steps\<rparr>))))))))"

definition build_admission_facts ::
    "shadow_spill_program \<Rightarrow> int \<Rightarrow> int \<Rightarrow> (string \<rightharpoonup> output_binding list)
     \<Rightarrow> (string \<rightharpoonup> allocation_event list) \<Rightarrow> int \<Rightarrow> py_error + admission_facts" where
  "build_admission_facts program execution_pool_bytes object_capacity_bytes output_bindings
       allocation_traces alignment =
     (if length (pg_devices program) \<noteq> 1 then
        refuse [Lit ''one admission facts describes one execution pool; '',
          Lit ''ShadowSpillProgram has '', Num (int (length (pg_devices program))), Lit '' devices'']
      else
        let device_id = dv_device_id (hd (pg_devices program))
        in bindE (shared_residency_footprint program) (\<lambda>shared.
           bindE (for_device shared device_id) (\<lambda>shared_execution_bytes.
           let movable_pool_bytes = execution_pool_bytes - shared_execution_bytes;
               movable_object_bytes = object_capacity_bytes - shared_execution_bytes
           in if movable_pool_bytes \<le> 0 \<or> movable_object_bytes \<le> 0 then
                refuse [Lit ''shared residency leaves no positive callable-owned capacity: pool='',
                  Num execution_pool_bytes, Lit '', object='', Num object_capacity_bytes,
                  Lit '', shared='', Num shared_execution_bytes]
              else
                bindE (mapE (task_admission_of
                  (facts_context_of program output_bindings allocation_traces)) (pg_tasks program))
                  (\<lambda>task_specs.
                bindE (construct admission_facts_post_init
                  \<lparr>fx_device_id = device_id, fx_pool_capacity_bytes = movable_pool_bytes,
                   fx_object_capacity_bytes = movable_object_bytes, fx_minimum_alignment = alignment,
                   fx_tasks = task_specs\<rparr>) (\<lambda>facts.
                bindE (validate_facts facts program) (\<lambda>_. Inr facts))))))"

end
