(* ===== verification/Admission_Origin.thy ===== *)
theory Admission_Origin
  imports Admission_Build
begin

text \<open>
  What the facts of a program are worth: they pass every constructor, their workspace is the exact
  peak of the trace, and facts built from bindings that agree with the tasks own what these write.
\<close>

section \<open>The peak of a trace\<close>

definition released :: "task_allocation_step list \<Rightarrow> int set" where
  "released xs = as_allocation_ordinal ` {step \<in> set xs. \<not> allocates step}"

definition allocated :: "task_allocation_step list \<Rightarrow> int set" where
  "allocated xs = as_allocation_ordinal ` {step \<in> set xs. allocates step}"

definition workspace_held :: "string set \<Rightarrow> task_allocation_step list \<Rightarrow> task_allocation_step list" where
  "workspace_held transient xs =
     filter (\<lambda>step. allocates step \<and> is_workspace transient step
       \<and> as_allocation_ordinal step \<notin> released xs) xs"

definition workspace_at :: "string set \<Rightarrow> task_allocation_step list \<Rightarrow> nat \<Rightarrow> int" where
  "workspace_at transient xs k =
     sum_list (map as_charged_bytes (workspace_held transient (take k xs)))"

lemma released_simps [simp]:
  "released [] = {}"
  "released (xs @ [step]) =
     (if allocates step then released xs else insert (as_allocation_ordinal step) (released xs))"
  by (auto simp: released_def)

lemma allocated_simps [simp]:
  "allocated [] = {}"
  "allocated (xs @ [step]) =
     (if allocates step then insert (as_allocation_ordinal step) (allocated xs) else allocated xs)"
  by (auto simp: allocated_def)

lemma traced_sets:
  assumes "foldE trace_step empty_trace xs = Inr t"
  shows "dom (tv_allocations t) = allocated xs
    \<and> tv_live t = dom (tv_allocations t) - released xs \<and> released xs \<subseteq> dom (tv_allocations t)"
  using assms
proof (induction xs arbitrary: t rule: rev_induct)
  case Nil
  then show ?case by (auto simp: empty_trace_def)
next
  case (snoc step xs)
  then obtain s where s: "foldE trace_step empty_trace xs = Inr s" "trace_step s step = Inr t"
    by (auto simp: foldE_append)
  note IH = snoc.IH [OF s(1)]
  show ?case
  proof (cases "allocates step")
    case True
    have t: "as_allocation_ordinal step \<notin> dom (tv_allocations s)"
      "tv_allocations t = (tv_allocations s)(as_allocation_ordinal step \<mapsto> step)"
      "tv_live t = insert (as_allocation_ordinal step) (tv_live s)"
      using s(2) unfolding trace_step_allocate [OF True] by (elim conjE, simp)+
    have "dom (tv_allocations t) = insert (as_allocation_ordinal step) (dom (tv_allocations s))"
      unfolding t(2) by simp
    then show ?thesis unfolding t(3) using IH t(1) True by auto
  next
    case False
    then show ?thesis using IH s(2) unfolding trace_step_release [OF False] by auto
  qed
qed

lemma traced_snoc:
  assumes "foldE trace_step empty_trace (xs @ [step]) = Inr t"
  obtains s where "foldE trace_step empty_trace xs = Inr s"
    and "allocates step \<Longrightarrow> as_allocation_ordinal step \<notin> allocated xs"
    and "allocates step \<Longrightarrow> as_allocation_ordinal step \<notin> released xs"
proof -
  obtain s where s: "foldE trace_step empty_trace xs = Inr s" "trace_step s step = Inr t"
    using assms by (auto simp: foldE_append)
  have new: "as_allocation_ordinal step \<notin> dom (tv_allocations s)" if "allocates step"
    using s(2) unfolding trace_step_allocate [OF that] by (rule conjunct1)
  show ?thesis
    by (rule that [OF s(1)]) (use new traced_sets [OF s(1)] in \<open>auto\<close>)
qed

lemma held_allocated:
  "step \<in> set (workspace_held transient xs) \<Longrightarrow> as_allocation_ordinal step \<in> allocated xs"
  by (simp add: workspace_held_def allocated_def)

lemma workspace_held_snoc:
  assumes "foldE trace_step empty_trace (xs @ [step]) = Inr t"
  shows "workspace_held transient (xs @ [step]) =
    (if allocates step then
       (if is_workspace transient step then workspace_held transient xs @ [step]
        else workspace_held transient xs)
     else filter (\<lambda>a. as_allocation_ordinal step \<noteq> as_allocation_ordinal a) (workspace_held transient xs))"
proof (cases "allocates step")
  case True
  then have "as_allocation_ordinal step \<notin> released xs" using traced_snoc [OF assms] by blast
  then show ?thesis using True by (simp add: workspace_held_def)
qed (auto simp: workspace_held_def intro: filter_cong)

lemma workspace_held_distinct:
  assumes "foldE trace_step empty_trace xs = Inr t"
  shows "distinct (map as_allocation_ordinal (workspace_held transient xs))"
  using assms
proof (induction xs arbitrary: t rule: rev_induct)
  case Nil
  show ?case by (simp add: workspace_held_def)
next
  case (snoc step xs)
  obtain s where s: "foldE trace_step empty_trace xs = Inr s"
    "allocates step \<Longrightarrow> as_allocation_ordinal step \<notin> allocated xs"
    using traced_snoc [OF snoc.prems] by blast
  have "as_allocation_ordinal step \<notin> set (map as_allocation_ordinal (workspace_held transient xs))"
    if "allocates step"
    using s(2) [OF that] held_allocated [of _ transient xs] by force
  then show ?case
    using snoc.IH [OF s(1)] unfolding workspace_held_snoc [OF snoc.prems]
    by (simp add: distinct_map_filter)
qed

lemma sum_list_without:
  fixes f :: "'a \<Rightarrow> int"
  assumes "distinct (map k xs)"
  shows "sum_list (map f (filter (\<lambda>x. o' \<noteq> k x) xs))
    = sum_list (map f xs) - (case map_of (map (\<lambda>x. (k x, f x)) xs) o' of None \<Rightarrow> 0 | Some b \<Rightarrow> b)"
proof -
  have absent: "map_of (map (\<lambda>x. (k x, f x)) ys) q = None \<and> filter (\<lambda>x. q \<noteq> k x) ys = ys"
    if "q \<notin> k ` set ys" for q ys
    using that by (force simp: map_of_eq_None_iff filter_id_conv)
  show ?thesis using assms
  proof (induction xs)
    case (Cons x xs)
    then show ?case using absent [of "k x" xs] by auto
  qed simp
qed

abbreviation scan_step :: "string set \<Rightarrow> task_allocation_step \<Rightarrow> workspace_scan \<Rightarrow> workspace_scan" where
  "scan_step transient step scan \<equiv> raise_peak (change_live transient scan step)"

definition scan_of :: "string set \<Rightarrow> task_allocation_step list \<Rightarrow> workspace_scan" where
  "scan_of transient xs =
     fold (scan_step transient) xs \<lparr>ws_live = [], ws_peak = [], ws_live_bytes = 0, ws_peak_bytes = 0\<rparr>"

lemma raise_peak_live [simp]:
  "ws_live (raise_peak scan) = ws_live scan" "ws_live_bytes (raise_peak scan) = ws_live_bytes scan"
  by (simp_all add: raise_peak_def)

lemma scan_live:
  assumes "foldE trace_step empty_trace xs = Inr t"
  shows "ws_live (scan_of transient xs)
      = map (\<lambda>step. (as_allocation_ordinal step, as_charged_bytes step)) (workspace_held transient xs)
    \<and> ws_live_bytes (scan_of transient xs) = workspace_at transient xs (length xs)"
  using assms
proof (induction xs arbitrary: t rule: rev_induct)
  case Nil
  show ?case by (simp add: scan_of_def workspace_held_def workspace_at_def)
next
  case (snoc step xs)
  obtain s where s: "foldE trace_step empty_trace xs = Inr s"
    "allocates step \<Longrightarrow> as_allocation_ordinal step \<notin> allocated xs"
    using traced_snoc [OF snoc.prems] by blast
  note IH = snoc.IH [OF s(1)] and held = workspace_held_snoc [OF snoc.prems, of transient]
  have fresh: "as_allocation_ordinal step \<notin> fst ` set (ws_live (scan_of transient xs))" if "allocates step"
    using s(2) [OF that] held_allocated [of _ transient xs] IH by force
  have scan: "scan_of transient (xs @ [step]) = scan_step transient step (scan_of transient xs)"
    by (simp add: scan_of_def)
  show ?case
  proof (cases "allocates step")
    case True
    have "AList.update (as_allocation_ordinal step) (as_charged_bytes step) (ws_live (scan_of transient xs))
        = ws_live (scan_of transient xs) @ [(as_allocation_ordinal step, as_charged_bytes step)]"
      using fresh [OF True] by (simp add: AList_update_new)
    then show ?thesis using True IH held
      by (auto simp: scan change_live_def Let_def allocates_def workspace_at_def)
  next
    case False
    have "workspace_at transient (xs @ [step]) (length (xs @ [step]))
        = ws_live_bytes (scan_of transient xs) -
          (case map_of (ws_live (scan_of transient xs)) (as_allocation_ordinal step) of None \<Rightarrow> 0 | Some b \<Rightarrow> b)"
      using IH held False
        sum_list_without [OF workspace_held_distinct [OF s(1)], of as_charged_bytes "as_allocation_ordinal step" transient]
      by (simp add: workspace_at_def)
    then show ?thesis using IH held False
      by (auto simp: scan change_live_def Let_def allocates_def AList.delete_eq filter_map comp_def)
  qed
qed

definition is_peak :: "string set \<Rightarrow> task_allocation_step list \<Rightarrow> int list \<Rightarrow> bool" where
  "is_peak transient xs extents \<longleftrightarrow>
     (\<exists>k \<le> length xs. extents = sort (map as_charged_bytes (workspace_held transient (take k xs))))
     \<and> (\<forall>k \<le> length xs. workspace_at transient xs k \<le> sum_list extents)"

lemma sum_sorted [simp]: "sum_list (sort xs) = sum_list (xs :: int list)"
  by (metis mset_sort sum_mset_sum_list)

lemma workspace_at_append: "k \<le> length xs \<Longrightarrow> workspace_at transient (xs @ ys) k = workspace_at transient xs k"
  by (simp add: workspace_at_def)

lemma scan_peak:
  assumes "foldE trace_step empty_trace xs = Inr t"
  shows "is_peak transient xs (ws_peak (scan_of transient xs))
    \<and> ws_peak_bytes (scan_of transient xs) = sum_list (ws_peak (scan_of transient xs))"
  using assms
proof (induction xs arbitrary: t rule: rev_induct)
  case Nil
  show ?case by (simp add: scan_of_def is_peak_def workspace_held_def workspace_at_def)
next
  case (snoc step xs)
  obtain s where "foldE trace_step empty_trace xs = Inr s" using traced_snoc [OF snoc.prems] by blast
  note IH = snoc.IH [OF this]
  let ?ys = "xs @ [step]" and ?scan = "change_live transient (scan_of transient xs) step"
  have scan: "scan_of transient ?ys = raise_peak ?scan" by (simp add: scan_of_def)
  note live = scan_live [OF snoc.prems, of transient, unfolded scan raise_peak_live]
  have same: "ws_peak ?scan = ws_peak (scan_of transient xs)"
    "ws_peak_bytes ?scan = ws_peak_bytes (scan_of transient xs)"
    by (simp_all add: change_live_def Let_def)
  have before: "workspace_at transient ?ys k \<le> ws_peak_bytes (scan_of transient xs)" if "k \<le> length xs" for k
    using IH that by (simp add: is_peak_def workspace_at_append)
  have bounded: "workspace_at transient ?ys k \<le> b"
    if "ws_peak_bytes (scan_of transient xs) \<le> b" "ws_live_bytes ?scan \<le> b" "k \<le> length ?ys" for k b
  proof (cases "k \<le> length xs")
    case True
    then show ?thesis using before [OF True] that(1) by simp
  next
    case False
    then show ?thesis using live that(2,3) by (simp add: le_Suc_eq)
  qed
  show ?case
  proof (cases "ws_live_bytes ?scan > ws_peak_bytes ?scan")
    case True
    have peak: "ws_peak (raise_peak ?scan) = sort (map as_charged_bytes (workspace_held transient ?ys))"
      using True live by (simp add: raise_peak_def comp_def)
    have total: "sum_list (ws_peak (raise_peak ?scan)) = ws_live_bytes ?scan"
      using live by (simp add: peak workspace_at_def)
    have "is_peak transient ?ys (ws_peak (raise_peak ?scan))"
      unfolding is_peak_def total
      using bounded True same peak by (intro conjI exI [of _ "length ?ys"] allI impI) auto
    then show ?thesis using True total unfolding scan by (simp add: raise_peak_def)
  next
    case False
    then have "raise_peak ?scan = ?scan" by (simp add: raise_peak_def)
    moreover obtain k where k: "k \<le> length xs" "ws_peak (scan_of transient xs)
        = sort (map as_charged_bytes (workspace_held transient (take k xs)))"
      using IH by (auto simp: is_peak_def)
    moreover have "is_peak transient ?ys (ws_peak (scan_of transient xs))"
      unfolding is_peak_def
      using bounded [of "sum_list (ws_peak (scan_of transient xs))"] False same IH k
      by (intro conjI exI [of _ k] allI impI) auto
    ultimately show ?thesis using IH same unfolding scan by simp
  qed
qed

lemma workspace_peak:
  assumes "foldE trace_step empty_trace xs = Inr t"
  shows "is_peak transient xs (workspace_peak_extents xs transient)"
  using scan_peak [OF assms, of transient] by (simp add: workspace_peak_extents_def scan_of_def)


section \<open>The facts of one task\<close>

lemma selectE_Inr:
  "selectE p xs = Inr ys \<longleftrightarrow> (\<forall>x \<in> set xs. \<exists>b. p x = Inr b) \<and> ys = filter (\<lambda>x. p x = Inr True) xs"
proof (induction xs arbitrary: ys rule: rev_induct)
  case (snoc x xs)
  show ?case
    using snoc.IH unfolding selectE_def foldE_append
    by (cases "p x") (auto simp: bindE_Inr_iff)
qed (auto simp: selectE_def)

lemma has_bytes_Inr: "has_bytes alias_size a = Inr b \<longleftrightarrow> (\<exists>n. alias_size a = Some n \<and> b = (n \<noteq> 0))"
  by (auto simp: has_bytes_def dict_get_def split: option.splits)

lemma replacements_Inr:
  assumes "replacements_of alias_size bindings = Inr xs"
  shows "set xs = {bi_alias_group_id x |x. x \<in> set bindings \<and> bi_replacement x
      \<and> (\<exists>n. alias_size (bi_alias_group_id x) = Some n \<and> n \<noteq> 0)}"
    and "x \<in> set bindings \<Longrightarrow> bi_replacement x \<Longrightarrow> \<exists>n. alias_size (bi_alias_group_id x) = Some n"
proof -
  let ?p = "\<lambda>x. if bi_replacement x then has_bytes alias_size (bi_alias_group_id x) else Inr False"
  obtain replaced where R: "\<forall>x \<in> set bindings. \<exists>b. ?p x = Inr b"
    "replaced = filter (\<lambda>x. ?p x = Inr True) bindings" "set xs = bi_alias_group_id ` set replaced"
    using assms unfolding replacements_of_def by (auto simp: bindE_Inr_iff selectE_Inr)
  have p: "?p x = Inr True \<longleftrightarrow> bi_replacement x
    \<and> (\<exists>n. alias_size (bi_alias_group_id x) = Some n \<and> n \<noteq> 0)" for x
    by (simp add: has_bytes_Inr)
  show "set xs = {bi_alias_group_id x |x. x \<in> set bindings \<and> bi_replacement x
      \<and> (\<exists>n. alias_size (bi_alias_group_id x) = Some n \<and> n \<noteq> 0)}"
    unfolding R(3) R(2) p by auto
  show "\<exists>n. alias_size (bi_alias_group_id x) = Some n" if "x \<in> set bindings" "bi_replacement x"
    using R(1) that by (fastforce simp: has_bytes_Inr)
qed

lemma release_step_Inr:
  "release_step ordinal = Inr step \<Longrightarrow> valid_step step \<and> \<not> allocates step"
  by (auto simp: release_step_def construct_Inr_iff valid_step_def allocates_def)

lemma project_event_valid:
  assumes "project_event task_id alias_by_leaf p event = Inr p'"
  shows "\<exists>step. valid_step step \<and> tn_steps p' = tn_steps p @ [step]"
  using assms unfolding project_event_def
  by (auto simp: Let_def bindE_Inr_iff construct_Inr_iff valid_step_def refuse_def
      dest!: release_step_Inr split: if_splits)

lemma allocation_steps_valid:
  assumes "task_allocation_steps task_id trace bindings persistent = Inr steps"
  shows "\<forall>step \<in> set steps. valid_step step"
proof -
  let ?aliases = "dict_of (map (\<lambda>x. (bi_leaf_index x, bi_alias_group_id x)) bindings)"
  let ?start = "\<lparr>tn_live = [], tn_steps = [], tn_observed_aliases = {}\<rparr> :: trace_projection"
  obtain p releases where p: "foldE (project_event task_id ?aliases) ?start trace = Inr p"
    and releases: "mapE release_step (map fst (filter (\<lambda>(ordinal, alias_id). alias_id = None) (tn_live p)))
      = Inr releases" and steps: "steps = tn_steps p @ releases"
    using assms unfolding task_allocation_steps_def
    by (auto simp: Let_def bindE_Inr_iff refuse_def split: if_splits)
  have "\<forall>step \<in> set (tn_steps p). valid_step step"
    by (rule foldE_invariant [OF p, where P = "\<lambda>_ p. \<forall>step \<in> set (tn_steps p). valid_step step"])
      (auto dest!: project_event_valid)
  then show ?thesis
    using mapE_Inr_set [OF releases] release_step_Inr by (auto simp: steps)
qed

lemma admission_traced:
  assumes "valid_admission spec"
  shows "\<exists>t. foldE trace_step empty_trace (ta_allocation_steps spec) = Inr t"
  using assms
  by (auto simp: valid_admission_def task_admission_spec_post_init_def validate_allocation_steps_def
      Let_def bindE_Inr_iff refuse_def split: if_splits)

text \<open>The workspace of a task: what it charges its profile and what the trace needs besides.\<close>

definition accounts_for :: "task_profile \<Rightarrow> task_admission_spec \<Rightarrow> bool" where
  "accounts_for profile spec \<longleftrightarrow>
     is_peak {} (ta_allocation_steps spec) (ta_workspace_extents spec)
     \<and> (\<exists>extents. is_peak (set (ta_replacement_aliases spec)) (ta_allocation_steps spec) extents
          \<and> sum_list extents = pf_workspace_bytes profile)"

lemma task_admission_Inr:
  assumes "task_admission_of cx task = Inr spec"
  obtains profile where "ta_task_id spec = tk_task_id task"
    and "valid_admission spec"
    and "fc_profile_by_id cx (tk_profile_id task) = Some profile"
    and "accounts_for profile spec"
    and "replacements_of (fc_alias_size cx) (bindings_of cx task) = Inr (ta_replacement_aliases spec)"
    and "handoffs_of (bindings_of cx task) = Inr (ta_storage_handoffs spec)"
    and "bindE (fresh_candidates (fc_alias_by_object cx) task (bindings_of cx task))
      (fresh_aliases_of (fc_alias_size cx) (ta_replacement_aliases spec)
        (sh_destination_alias_group_id ` set (ta_storage_handoffs spec)))
      = Inr (ta_fresh_output_aliases spec)"
proof -
  obtain replacements handoffs fresh fresh_aliases profile trace steps where
    R: "replacements_of (fc_alias_size cx) (bindings_of cx task) = Inr replacements"
      "handoffs_of (bindings_of cx task) = Inr handoffs"
      "fresh_candidates (fc_alias_by_object cx) task (bindings_of cx task) = Inr fresh"
      "fresh_aliases_of (fc_alias_size cx) replacements (sh_destination_alias_group_id ` set handoffs) fresh
        = Inr fresh_aliases"
      "dict_get (fc_profile_by_id cx) (tk_profile_id task) = Inr profile"
      "task_allocation_steps (tk_task_id task) trace (bindings_of cx task)
        (set fresh_aliases \<union> set replacements) = Inr steps"
      "sum_list (workspace_peak_extents steps (set replacements)) = pf_workspace_bytes profile"
      "construct task_admission_spec_post_init
        \<lparr>ta_task_id = tk_task_id task, ta_workspace_extents = anonymous_peak_extents steps,
         ta_fresh_output_aliases = fresh_aliases, ta_replacement_aliases = replacements,
         ta_storage_handoffs = handoffs, ta_allocation_steps = steps\<rparr> = Inr spec"
    using assms unfolding task_admission_of_def
    by (auto simp: Let_def bindE_Inr_iff workspace_disagrees_def refuse_def split: if_splits)
  have spec: "ta_task_id spec = tk_task_id task" "ta_workspace_extents spec = anonymous_peak_extents steps"
    "ta_fresh_output_aliases spec = fresh_aliases" "ta_replacement_aliases spec = replacements"
    "ta_storage_handoffs spec = handoffs" "ta_allocation_steps spec = steps"
    "task_admission_spec_post_init spec = Inr ()"
    using R(8) by (auto simp: construct_Inr_iff)
  have "\<forall>x \<in> set handoffs. valid_handoff x"
    using mapE_Inr_set [OF R(2) [unfolded handoffs_of_def]]
    by (fastforce simp: construct_Inr_iff valid_handoff_def)
  then have valid: "valid_admission spec"
    using allocation_steps_valid [OF R(6)] by (simp add: valid_admission_def spec)
  obtain t where t: "foldE trace_step empty_trace steps = Inr t"
    using admission_traced [OF valid] by (auto simp: spec)
  have "accounts_for profile spec"
    unfolding accounts_for_def spec anonymous_peak_extents_def
    using workspace_peak [OF t] R(7) by blast
  moreover have "fc_profile_by_id cx (tk_profile_id task) = Some profile"
    using R(5) by (simp add: dict_get_def split: option.splits)
  ultimately show ?thesis
    using that [OF spec(1) valid] R(1-4) by (simp add: spec)
qed


section \<open>The bytes of shared leases\<close>

definition shared_groups :: "alias_group_spec list \<Rightarrow> alias_group_spec list" where
  "shared_groups groups = filter (\<lambda>g. ag_shared_residency g \<noteq> None) groups"

abbreviation device_charge :: "alias_group_spec list \<Rightarrow> string \<Rightarrow> int" where
  "device_charge groups d \<equiv>
     sum_list (map ag_size_bytes (filter (\<lambda>g. ag_device_id g = d) (shared_groups groups)))"

lemma zero_bytes:
  "map_of (fold (\<lambda>device. AList.update (dv_device_id device) (0 :: int)) ds []) d
    = (if d \<in> dv_device_id ` set ds then Some 0 else None)"
  by (induction ds rule: rev_induct) (auto simp: update_conv')

lemma shared_footprint_Inr:
  assumes "shared_residency_footprint program = Inr footprint"
  shows "map_of (sf_device_bytes footprint) d = (if d \<in> dv_device_id ` set (pg_devices program)
      then Some (device_charge (pg_alias_groups program) d) else None)
    \<and> sf_alias_group_ids footprint = map ag_alias_group_id (shared_groups (pg_alias_groups program))
    \<and> sf_spill_bytes footprint = sum_list (map spill_size_bytes
        (filter ag_retain_spill_copy (shared_groups (pg_alias_groups program))))"
    (is "?P (pg_alias_groups program) footprint")
proof -
  have step: "?P (groups @ [g]) t" if "?P groups s" "add_shared_alias s g = Inr t" for groups g s t
    using that unfolding add_shared_alias_def
    by (auto simp: bindE_Inr_iff dict_get_def shared_groups_def update_conv'
        split: if_splits option.splits)
  show ?thesis
  proof (rule foldE_invariant [OF assms [unfolded shared_residency_footprint_def], where P = ?P])
    show "?P ys s \<Longrightarrow> pg_alias_groups program = ys @ g # zs \<Longrightarrow> add_shared_alias s g = Inr t
      \<Longrightarrow> ?P (ys @ [g]) t" for ys g zs s t
      by (rule step)
  qed (auto simp: zero_bytes shared_groups_def)
qed

section \<open>The facts of a program\<close>

lemma built_Inr:
  assumes "build_admission_facts program pool_bytes object_bytes bindings traces alignment = Inr facts"
  shows "valid_facts facts" and "validate_facts facts program = Inr ()"
    and "\<exists>device. pg_devices program = [device] \<and> fx_device_id facts = dv_device_id device
      \<and> fx_pool_capacity_bytes facts
          = pool_bytes - device_charge (pg_alias_groups program) (dv_device_id device)
      \<and> fx_object_capacity_bytes facts
          = object_bytes - device_charge (pg_alias_groups program) (dv_device_id device)"
    and "list_all2 (\<lambda>task spec. task_admission_of (facts_context_of program bindings traces) task = Inr spec)
      (pg_tasks program) (fx_tasks facts)"
proof -
  obtain footprint shared task_specs where R: "length (pg_devices program) = 1"
    "shared_residency_footprint program = Inr footprint"
    "for_device footprint (dv_device_id (hd (pg_devices program))) = Inr shared"
    "mapE (task_admission_of (facts_context_of program bindings traces)) (pg_tasks program) = Inr task_specs"
    "construct admission_facts_post_init
      \<lparr>fx_device_id = dv_device_id (hd (pg_devices program)), fx_pool_capacity_bytes = pool_bytes - shared,
       fx_object_capacity_bytes = object_bytes - shared, fx_minimum_alignment = alignment,
       fx_tasks = task_specs\<rparr> = Inr facts"
    "validate_facts facts program = Inr ()"
    using assms unfolding build_admission_facts_def
    by (auto simp: Let_def bindE_Inr_iff refuse_def split: if_splits)
  have facts: "fx_device_id facts = dv_device_id (hd (pg_devices program))"
    "fx_pool_capacity_bytes facts = pool_bytes - shared"
    "fx_object_capacity_bytes facts = object_bytes - shared" "fx_tasks facts = task_specs"
    "admission_facts_post_init facts = Inr ()"
    using R(5) by (auto simp: construct_Inr_iff)
  have "valid_admission x" if "x \<in> set task_specs" for x
    using mapE_Inr_set [OF R(4) that] by (auto elim: task_admission_Inr)
  then show "valid_facts facts" by (simp add: valid_facts_def facts)
  show "validate_facts facts program = Inr ()" by (rule R(6))
  show "list_all2 (\<lambda>task spec. task_admission_of (facts_context_of program bindings traces) task = Inr spec)
      (pg_tasks program) (fx_tasks facts)"
    using mapE_list_all2 [OF R(4)] by (simp add: facts)
  obtain device where device: "pg_devices program = [device]"
    using R(1) by (auto simp: length_Suc_conv)
  then have "shared = device_charge (pg_alias_groups program) (dv_device_id device)"
    using R(3) shared_footprint_Inr [OF R(2), of "dv_device_id device"]
    by (simp add: for_device_def dict_get_def)
  then show "\<exists>device. pg_devices program = [device] \<and> fx_device_id facts = dv_device_id device
      \<and> fx_pool_capacity_bytes facts
          = pool_bytes - device_charge (pg_alias_groups program) (dv_device_id device)
      \<and> fx_object_capacity_bytes facts
          = object_bytes - device_charge (pg_alias_groups program) (dv_device_id device)"
    using device facts by simp
qed


section \<open>Where bindings come from\<close>

definition bound_to ::
    "(string \<rightharpoonup> string) \<Rightarrow> task_spec \<Rightarrow> task_entrypoint \<Rightarrow> output_binding \<Rightarrow> bool" where
  "bound_to aliases task e b \<longleftrightarrow>
     (\<exists>slot \<in> set (entrypoint_slots e). aliases (os_object_id slot) = Some (bi_alias_group_id b)
        \<and> (bi_replacement b \<longleftrightarrow> os_leaf_index slot \<in> set (en_replacement_output_leaves e))
        \<and> (os_object_id slot \<in> set (tk_outputs task) \<or> bi_replacement b))
     \<and> (\<forall>source. bi_source_alias_group_id b = Some source \<longrightarrow>
          (\<exists>h \<in> set (en_storage_handoffs e). aliases (hn_source_object_id h) = Some source))"

lemma handoff_source_Inr:
  assumes "handoff_source aliases (dict_of (map (\<lambda>x. (hn_leaf_index x, x)) hs)) leaf = Inr (Some source)"
  shows "\<exists>h \<in> set hs. aliases (hn_source_object_id h) = Some source"
  using assms unfolding handoff_source_def
  by (auto simp: bindE_Inr_iff dict_get_def dest!: dict_of_records split: option.splits)

lemma bind_slot_bound:
  assumes "bind_slot aliases task e (seen, bs) slot = Inr (seen', bs')"
    and "slot \<in> set (entrypoint_slots e)" "\<forall>b \<in> set bs. bound_to aliases task e b"
  shows "\<forall>b \<in> set bs'. bound_to aliases task e b"
  using assms unfolding bind_slot_def
  by (fastforce simp: Let_def bindE_Inr_iff construct_Inr_iff bound_to_def dict_get_def
      intro: handoff_source_Inr split: if_splits option.splits)

lemma slots_bound:
  assumes "foldE (bind_slot aliases task e) ({}, []) (entrypoint_slots e) = Inr (seen, bs)"
  shows "\<forall>b \<in> set bs. bound_to aliases task e b"
proof -
  have "\<forall>b \<in> set (snd (seen, bs)). bound_to aliases task e b"
  proof (rule foldE_invariant [OF assms, where P = "\<lambda>_ s. \<forall>b \<in> set (snd s). bound_to aliases task e b"])
    fix ys slot zs and s t :: "string set \<times> output_binding list"
    assume "\<forall>b \<in> set (snd s). bound_to aliases task e b" "entrypoint_slots e = ys @ slot # zs"
      "bind_slot aliases task e s slot = Inr t"
    then show "\<forall>b \<in> set (snd t). bound_to aliases task e b"
      using bind_slot_bound [of aliases task e "fst s" "snd s" slot "fst t" "snd t"] by simp
  qed simp
  then show ?thesis by simp
qed

lemma bindings_origin:
  assumes "output_bindings_for_entrypoints tasks entrypoints aliases = Inr result"
    and "result t = Some bs"
  shows "\<exists>task \<in> set tasks. tk_task_id task = t
    \<and> (\<exists>e \<in> set entrypoints. en_task_id e = t \<and> (\<forall>b \<in> set bs. bound_to aliases task e b))"
proof -
  let ?P = "\<lambda>es r. \<forall>t bs. r t = Some bs \<longrightarrow> (\<exists>task \<in> set tasks. tk_task_id task = t
    \<and> (\<exists>e \<in> set es. en_task_id e = t \<and> (\<forall>b \<in> set bs. bound_to aliases task e b)))"
  have "?P entrypoints result"
  proof (rule foldE_invariant [OF assms(1) [unfolded output_bindings_for_entrypoints_def], where P = ?P])
    fix es e zs r r'
    assume IH: "?P es r" and step: "bind_entrypoint tasks aliases r e = Inr r'"
    show "?P (es @ [e]) r'"
    proof (cases "dict_of (map (\<lambda>task. (tk_task_id task, task)) tasks) (en_task_id e)")
      case None
      then show ?thesis using IH step by (fastforce simp: bind_entrypoint_def)
    next
      case (Some task)
      note task = dict_of_records [OF Some]
      obtain seen bs where run: "foldE (bind_slot aliases task e) ({}, []) (entrypoint_slots e) = Inr (seen, bs)"
        and r': "r' = r(tk_task_id task \<mapsto> bs)"
        using step Some by (auto simp: bind_entrypoint_def bindE_Inr_iff)
      show ?thesis
        using IH task slots_bound [OF run] unfolding r' by (simp add: Bex_def) metis
    qed
  qed simp
  then show ?thesis using assms(2) by blast
qed


section \<open>Facts that own what the tasks write\<close>

text \<open>
  What an entrypoint has to say of its task: a replaced leaf is storage the task mutates and does
  not also write afresh, and a storage handed over is that of an input the task keeps, which the
  schedule releases at this task and does nothing else with.
\<close>

definition replaced_by :: "alias_facts \<Rightarrow> task_entrypoint \<Rightarrow> string set" where
  "replaced_by facts e = object_aliases facts (map os_object_id
     (filter (\<lambda>slot. os_leaf_index slot \<in> set (en_replacement_output_leaves e)) (entrypoint_slots e)))"

definition handed_by :: "alias_facts \<Rightarrow> task_entrypoint \<Rightarrow> string set" where
  "handed_by facts e = set (List.map_filter (\<lambda>h. af_object_alias facts (hn_source_object_id h))
     (en_storage_handoffs e))"

definition entrypoint_agrees ::
    "alias_facts \<Rightarrow> (nat \<times> memory_action) list \<Rightarrow> task_spec \<Rightarrow> task_entrypoint \<Rightarrow> bool" where
  "entrypoint_agrees facts actions task e \<longleftrightarrow>
     replaced_by facts e \<subseteq> object_aliases facts (map mu_object_id (tk_mutations task))
       - af_shared_aliases facts - object_aliases facts (tk_outputs task)
     \<and> handed_by facts e \<subseteq> object_aliases facts (tk_inputs task) - af_shared_aliases facts
         - replaced_by facts e
     \<and> (\<forall>a \<in> handed_by facts e. released_only actions a)"

lemma handoffs_of_set:
  assumes "handoffs_of bindings = Inr hs"
  shows "h \<in> set hs \<longleftrightarrow> (\<exists>b \<in> set bindings. bi_source_alias_group_id b = Some (sh_source_alias_group_id h)
    \<and> bi_alias_group_id b = sh_destination_alias_group_id h)"
  using assms unfolding handoffs_of_def
proof (induction bindings arbitrary: hs)
  case (Cons b bindings)
  then show ?case
    by (cases "bi_source_alias_group_id b") (auto simp: List.map_filter_def bindE_Inr_iff construct_Inr_iff)
qed (simp add: List.map_filter_def)

lemma fresh_Inr:
  assumes "bindE (fresh_candidates aliases task bindings) (fresh_aliases_of sizes replacements destinations)
      = Inr fresh"
  shows "(\<forall>x \<in> set (tk_outputs task). aliases x \<noteq> None)
    \<and> set fresh = {a. a \<notin> set replacements \<and> a \<notin> destinations \<and> (\<exists>n. sizes a = Some n \<and> n \<noteq> 0)
        \<and> ((\<exists>x \<in> set (tk_outputs task). aliases x = Some a)
           \<or> (\<exists>b \<in> set bindings. bi_alias_group_id b = a \<and> \<not> bi_replacement b
                \<and> bi_source_alias_group_id b = None))}
    \<and> (\<forall>x \<in> set (tk_outputs task). \<forall>a. aliases x = Some a \<and> a \<notin> set replacements \<and> a \<notin> destinations
        \<longrightarrow> (\<exists>n. sizes a = Some n))"
proof -
  obtain outputs where outputs: "mapE (dict_get aliases) (tk_outputs task) = Inr outputs"
    and fresh: "fresh_aliases_of sizes replacements destinations (fromkeys (outputs @ map bi_alias_group_id
         (filter (\<lambda>x. \<not> bi_replacement x \<and> bi_source_alias_group_id x = None) bindings))) = Inr fresh"
    using assms by (auto simp: fresh_candidates_def bindE_Inr_iff)
  note set_outputs = mapE_dict_get [OF outputs]
  show ?thesis
    using fresh unfolding fresh_aliases_of_def selectE_Inr
    by (auto simp: set_outputs has_bytes_Inr split: if_splits)
qed

lemma built_owns_writes:
  assumes "task_admission_of cx u = Inr spec" and "tk_outputs u = tk_outputs task"
    and "fc_alias_by_object cx = af_object_alias facts"
    and sizes: "\<And>a n. fc_alias_size cx a = Some n \<Longrightarrow> n = 0 \<longleftrightarrow> a \<in> af_zero_size_aliases facts"
    and origin: "\<forall>b \<in> set (bindings_of cx u). bound_to (af_object_alias facts) u e b"
    and agrees: "entrypoint_agrees facts actions task e"
  shows "ownership_agrees facts actions task spec"
proof -
  let ?bs = "bindings_of cx u" and ?zero = "af_zero_size_aliases facts"
  obtain profile where valid: "valid_admission spec"
    and replaced: "replacements_of (fc_alias_size cx) ?bs = Inr (ta_replacement_aliases spec)"
    and handoffs: "handoffs_of ?bs = Inr (ta_storage_handoffs spec)"
    and fresh: "bindE (fresh_candidates (fc_alias_by_object cx) u ?bs)
      (fresh_aliases_of (fc_alias_size cx) (ta_replacement_aliases spec)
        (sh_destination_alias_group_id ` set (ta_storage_handoffs spec))) = Inr (ta_fresh_output_aliases spec)"
    using task_admission_Inr [OF assms(1)] by metis
  note H = handoffs_of_set [OF handoffs]
    and F = fresh_Inr [OF fresh, unfolded assms(2,3)]
  have written: "bi_alias_group_id b \<in> object_aliases facts (tk_outputs task)"
    if "b \<in> set ?bs" "\<not> bi_replacement b" "bi_alias_group_id b \<notin> ?zero" for b
    using origin that assms(2) unfolding bound_to_def object_aliases_def by auto
  have replacing: "bi_alias_group_id b \<in> replaced_by facts e"
    if "b \<in> set ?bs" "bi_replacement b" "bi_alias_group_id b \<notin> ?zero" for b
    using origin that unfolding bound_to_def replaced_by_def object_aliases_def by fastforce
  let ?repl = "set (ta_replacement_aliases spec)"
    and ?dests = "sh_destination_alias_group_id ` set (ta_storage_handoffs spec)"
  have repl: "?repl = {bi_alias_group_id b |b. b \<in> set ?bs \<and> bi_replacement b \<and> bi_alias_group_id b \<notin> ?zero}"
    unfolding replacements_Inr(1) [OF replaced]
    using sizes replacements_Inr(2) [OF replaced] by fastforce
  then have replaces: "?repl \<subseteq> replaced_by facts e" using replacing by auto
  have disjoint: "?repl \<inter> ?dests = {}"
    using valid by (auto simp: valid_admission_def task_admission_spec_post_init_def Let_def bindE_Inr_iff
        refuse_def split: if_splits)
  have outputs: "?repl \<inter> object_aliases facts (tk_outputs task) = {}"
    using agrees replaces unfolding entrypoint_agrees_def by blast
  have dests: "sh_destination_alias_group_id ` set (moves facts spec) = ?dests - ?zero"
    by (auto simp: moves_def)
  have given: "?dests - ?zero \<subseteq> object_aliases facts (tk_outputs task)"
  proof
    fix a assume a: "a \<in> ?dests - ?zero"
    then obtain b where "b \<in> set ?bs" "bi_alias_group_id b = a" using H by auto
    then show "a \<in> object_aliases facts (tk_outputs task)"
      using written [of b] repl disjoint a by blast
  qed
  have fresh_outputs: "set (ta_fresh_output_aliases spec) \<subseteq> object_aliases facts (tk_outputs task)"
  proof
    fix a assume "a \<in> set (ta_fresh_output_aliases spec)"
    then obtain n where a: "fc_alias_size cx a = Some n" "n \<noteq> 0"
      "(\<exists>x \<in> set (tk_outputs task). af_object_alias facts x = Some a)
         \<or> (\<exists>b \<in> set ?bs. bi_alias_group_id b = a \<and> \<not> bi_replacement b)"
      using F by auto
    have "a \<notin> ?zero" using sizes [OF a(1)] a(2) by simp
    then show "a \<in> object_aliases facts (tk_outputs task)"
      using a(3) written by (auto simp: object_aliases_def)
  qed
  have covered: "a \<in> set (ta_fresh_output_aliases spec) \<union> (?dests - ?zero)"
    if "a \<in> object_aliases facts (tk_outputs task)" for a
  proof -
    obtain x where x: "x \<in> set (tk_outputs task)" "af_object_alias facts x = Some a" "a \<notin> ?zero"
      using \<open>a \<in> object_aliases facts (tk_outputs task)\<close> by (auto simp: object_aliases_def)
    have "a \<notin> ?repl" using outputs that by blast
    show ?thesis
    proof (cases "a \<in> ?dests")
      case True
      then show ?thesis using x(3) by simp
    next
      case False
      then obtain n where "fc_alias_size cx a = Some n" using F x(1,2) \<open>a \<notin> ?repl\<close> by blast
      then show ?thesis using F x \<open>a \<notin> ?repl\<close> False sizes by auto
    qed
  qed
  have moved: "moved facts spec \<subseteq> handed_by facts e"
  proof
    fix a assume "a \<in> moved facts spec"
    then obtain h where "h \<in> set (ta_storage_handoffs spec)" "sh_source_alias_group_id h = a"
      by (auto simp: moved_def moves_def)
    then obtain b where "b \<in> set ?bs" "bi_source_alias_group_id b = Some a" using H by auto
    then obtain g where "g \<in> set (en_storage_handoffs e)"
      "af_object_alias facts (hn_source_object_id g) = Some a"
      using origin by (auto simp: bound_to_def)
    then show "a \<in> handed_by facts e" by (force simp: handed_by_def List.map_filter_def)
  qed
  show ?thesis
    unfolding ownership_agrees_def dests
  proof (intro conjI)
    show "set (ta_fresh_output_aliases spec) \<union> (?dests - ?zero) = object_aliases facts (tk_outputs task)"
      using given fresh_outputs covered by blast
    show "?repl \<subseteq> object_aliases facts (map mu_object_id (tk_mutations task)) - af_shared_aliases facts"
      using agrees replaces unfolding entrypoint_agrees_def by blast
    show "moved facts spec \<subseteq> object_aliases facts (tk_inputs task) - af_shared_aliases facts - ?repl"
      using agrees moved replaces unfolding entrypoint_agrees_def by blast
    show "\<forall>a \<in> moved facts spec. released_only actions a"
      using agrees moved unfolding entrypoint_agrees_def by blast
  qed
qed

end
