(* ===== verification/Admission_Built.thy ===== *)
theory Admission_Built
  imports Admission_Origin Admission_Properties Task_Properties
begin

text \<open>
  What the making of admission facts promises: they are checked facts whose workspace is the exact
  peak of the profiled traces, and the schedules of a program are replayed with them when the
  entrypoints say the truth about what the tasks replace and hand over.
\<close>

section \<open>Checked facts\<close>

text \<open>
  C15. Facts that are built pass their constructors and fit the program. The pool they describe is
  the one device's without the bytes of the shared alias groups on it, and for every task the
  workspace extents are the sorted sizes held at an exact peak of its steps: no moment of the task
  holds more anonymous bytes. With the storage of replaced aliases counted, that peak is the
  workspace the profile of the task declares.
\<close>

theorem built_facts_sound:
  assumes "build_admission_facts program pool_bytes object_bytes bindings traces alignment = Inr facts"
  shows "valid_facts facts \<and> validate_facts facts program = Inr ()
    \<and> (\<exists>device. pg_devices program = [device] \<and> fx_device_id facts = dv_device_id device
        \<and> fx_pool_capacity_bytes facts
            = pool_bytes - device_charge (pg_alias_groups program) (dv_device_id device)
        \<and> fx_object_capacity_bytes facts
            = object_bytes - device_charge (pg_alias_groups program) (dv_device_id device))
    \<and> list_all2 (\<lambda>task spec. ta_task_id spec = tk_task_id task
        \<and> (\<exists>profile \<in> set (pg_profiles program). pf_profile_id profile = tk_profile_id task
             \<and> accounts_for profile spec)) (pg_tasks program) (fx_tasks facts)"
proof -
  have "ta_task_id spec = tk_task_id task
      \<and> (\<exists>profile \<in> set (pg_profiles program). pf_profile_id profile = tk_profile_id task
           \<and> accounts_for profile spec)"
    if run: "task_admission_of (facts_context_of program bindings traces) task = Inr spec" for task spec
  proof -
    obtain profile where P: "ta_task_id spec = tk_task_id task" "accounts_for profile spec"
      "fc_profile_by_id (facts_context_of program bindings traces) (tk_profile_id task) = Some profile"
      using task_admission_Inr [OF run] by metis
    then show ?thesis
      using dict_of_records [of pf_profile_id "pg_profiles program"] by (auto simp: facts_context_of_def)
  qed
  then show ?thesis
    using built_Inr [OF assms] by (auto elim: list_all2_mono)
qed


section \<open>The facts of the example\<close>

definition sample_slot :: "int \<Rightarrow> string \<Rightarrow> object_slot" where
  "sample_slot i x = \<lparr>os_leaf_index = i, os_object_id = x\<rparr>"

definition sample_entrypoint ::
    "string \<Rightarrow> object_slot list \<Rightarrow> int list \<Rightarrow> lease_handoff list \<Rightarrow> task_entrypoint" where
  "sample_entrypoint i slots replaced handed =
     \<lparr>en_task_id = i, en_input_slots = [], en_output_slots = slots,
      en_replacement_output_leaves = replaced, en_storage_handoffs = handed,
      en_options = \<lparr>to_phase = [], to_stage_index = None, to_repetition = None, to_variant = None,
        to_target = None, to_public_output_count = 0, to_public_output_leaves = [],
        to_contribution_slots = [], to_named_inputs = []\<rparr>\<rparr>"

definition step_entrypoints :: "task_entrypoint list" where
  "step_entrypoints =
     [sample_entrypoint ''fwd'' [sample_slot 0 ''A''] [] [],
      sample_entrypoint ''opt'' [sample_slot 0 ''W'', sample_slot 1 ''B''] [0]
        [\<lparr>hn_leaf_index = 1, hn_source_object_id = ''A'', hn_destination_object_id = ''B''\<rparr>]]"

definition step_aliases :: "string \<rightharpoonup> string" where
  "step_aliases = dict_of (map (\<lambda>b. (ob_object_id b, ob_alias_group_id b)) (pg_objects step_program))"

definition step_bindings :: "string \<rightharpoonup> output_binding list" where
  "step_bindings =
     (case output_bindings_for_entrypoints step_tasks step_entrypoints step_aliases of Inr b \<Rightarrow> b)"

definition step_traces :: "string \<rightharpoonup> allocation_event list" where
  "step_traces = [''d'' \<mapsto> [sample_event 0 OP_ALLOCATE 4 [], sample_event 0 OP_FREE 4 [],
       (sample_event 1 OP_ALLOCATE 4 [0])\<lparr>ae_reuses_ordinal := Some 0\<rparr>],
     ''e'' \<mapsto> [sample_event 0 OP_ALLOCATE 8 [0]]]"

lemma step_bindings: "output_bindings_for_entrypoints step_tasks step_entrypoints step_aliases = Inr step_bindings"
proof -
  have "case output_bindings_for_entrypoints step_tasks step_entrypoints step_aliases of
      Inl e \<Rightarrow> False | Inr b \<Rightarrow> True"
    by code_simp
  then show ?thesis by (auto simp: step_bindings_def split: sum.splits)
qed

lemma step_facts_built: "build_admission_facts step_program 64 64 step_bindings step_traces 8 = Inr step_facts"
  by code_simp

theorem built_facts_sound_witness:
  "valid_facts step_facts \<and> fx_pool_capacity_bytes step_facts = 64
     \<and> (\<exists>profile \<in> set (pg_profiles step_program). pf_profile_id profile = ''q''
          \<and> accounts_for profile (fx_tasks step_facts ! 1))"
proof -
  note S = built_facts_sound [OF step_facts_built]
  from S have "list_all2 (\<lambda>task spec. ta_task_id spec = tk_task_id task
      \<and> (\<exists>profile \<in> set (pg_profiles step_program). pf_profile_id profile = tk_profile_id task
           \<and> accounts_for profile spec)) (pg_tasks step_program) (fx_tasks step_facts)" by blast
  from list_all2_nthD [OF this, of 1]
  have "\<exists>profile \<in> set (pg_profiles step_program).
      pf_profile_id profile = tk_profile_id (pg_tasks step_program ! 1) \<and> accounts_for profile (fx_tasks step_facts ! 1)"
    by (simp add: step_program_def)
  moreover have "tk_profile_id (pg_tasks step_program ! 1) = ''q''" by (simp add: step_program_def)
  moreover have "valid_facts step_facts" using S by blast
  ultimately show ?thesis by (simp add: step_facts_def)
qed


section \<open>Facts that replay\<close>

lemma selected_origin:
  assumes "valid_program program" "select_tasks program selections = Inr tasks" "task \<in> set tasks"
  obtains u where "u \<in> set (pg_tasks program)" "tk_task_id task = tk_task_id u"
    "tk_outputs task = tk_outputs u"
proof -
  obtain u where "u \<in> set (pg_tasks program)" "task = u\<lparr>tk_dependencies := filter
      (\<lambda>d. d \<in> tk_task_id ` set (pg_tasks program) \<and> takes_part program selections d)
      (tk_dependencies u)\<rparr>"
    using assms(3) unfolding select_tasks_Inr(1) [OF assms(1,2)] by auto
  then show thesis by (intro that) simp_all
qed

lemma boundary_agrees: "entrypoint_agrees facts actions task (boundary_entrypoint u)"
  by (simp add: entrypoint_agrees_def replaced_by_def handed_by_def boundary_entrypoint_def
      entrypoint_slots_def object_aliases_def List.map_filter_def)

lemma task_by_identity:
  "valid_program program \<Longrightarrow> u \<in> set (pg_tasks program) \<Longrightarrow> v \<in> set (pg_tasks program)
     \<Longrightarrow> tk_task_id u = tk_task_id v \<Longrightarrow> u = v"
  using valid_program_well_formed [of program] by (auto simp: well_formed_def distinct_map dest: inj_onD)

lemma built_facts_own_writes:
  assumes program: "valid_program program"
    and facts_of: "alias_facts_of program tasks final = Inr alias_facts"
    and selected: "select_tasks program selections = Inr tasks"
    and bindings: "output_bindings_for_entrypoints (pg_tasks program) entrypoints
      (af_object_alias alias_facts) = Inr bindings"
    and built: "build_admission_facts program pool_bytes object_bytes bindings traces alignment = Inr facts"
    and once: "written_once alias_facts schedule tasks"
    and agrees: "\<forall>task \<in> set tasks. \<forall>e \<in> set entrypoints. en_task_id e = tk_task_id task \<longrightarrow>
      entrypoint_agrees alias_facts (task_actions (index_actions schedule) (tk_task_id task)) task e"
  shows "facts_own_writes alias_facts schedule tasks facts"
proof -
  let ?cx = "facts_context_of program bindings traces"
  note A = alias_facts_Inr [OF facts_of] and B = built_Inr [OF built]
  have sizes: "n = 0 \<longleftrightarrow> a \<in> af_zero_size_aliases alias_facts" if "fc_alias_size ?cx a = Some n" for a n
  proof -
    have "dict_of (map (\<lambda>g. (ag_alias_group_id g, ag_size_bytes g)) (pg_alias_groups program)) a = Some n"
      using that by (simp add: facts_context_of_def)
    from dict_of_SomeD [OF this] obtain g where g: "g \<in> set (pg_alias_groups program)"
      "ag_alias_group_id g = a" "ag_size_bytes g = n" by auto
    have "g = h" if "h \<in> set (pg_alias_groups program)" "ag_alias_group_id h = a" for h
      using valid_program_well_formed [OF program] that g
      by (auto simp: well_formed_def distinct_map dest: inj_onD)
    then show ?thesis unfolding A(4) using g by force
  qed
  have "ownership_agrees alias_facts (task_actions (index_actions schedule) (tk_task_id task)) task spec"
    if task: "task \<in> set tasks" and spec: "spec \<in> set (fx_tasks facts)" "ta_task_id spec = tk_task_id task"
    for task spec
  proof -
    obtain u where u: "u \<in> set (pg_tasks program)" "task_admission_of ?cx u = Inr spec"
      using list_all2_member [OF B(4) spec(1)] by blast
    have id: "tk_task_id u = tk_task_id task"
      using task_admission_Inr [OF u(2)] spec(2) by metis
    obtain w where w: "w \<in> set (pg_tasks program)" "tk_task_id task = tk_task_id w"
      "tk_outputs task = tk_outputs w"
      by (rule selected_origin [OF program selected task])
    have "u = w" by (rule task_by_identity [OF program u(1) w(1)]) (simp add: id w(2))
    then have outputs: "tk_outputs u = tk_outputs task" by (simp add: w(3))
    show ?thesis
    proof (cases "bindings (tk_task_id u)")
      case None
      then have "bindings_of ?cx u = []" by (simp add: bindings_of_def facts_context_of_def)
      then show ?thesis
        using built_owns_writes [OF u(2) outputs _ sizes _ boundary_agrees] A(2)
        by (simp add: facts_context_of_def)
    next
      case (Some bs)
      obtain v e where v: "v \<in> set (pg_tasks program)" "tk_task_id v = tk_task_id u"
        and e: "e \<in> set entrypoints" "en_task_id e = tk_task_id u"
          "\<forall>b \<in> set bs. bound_to (af_object_alias alias_facts) v e b"
        using bindings_origin [OF bindings Some] by blast
      have "v = u" by (rule task_by_identity [OF program v(1) u(1) v(2)])
      then have "\<forall>b \<in> set (bindings_of ?cx u). bound_to (af_object_alias alias_facts) u e b"
        using e(3) Some by (simp add: bindings_of_def facts_context_of_def)
      then show ?thesis
        using built_owns_writes [OF u(2) outputs _ sizes] agrees task e(1,2) id A(2)
        by (simp add: facts_context_of_def)
    qed
  qed
  then show ?thesis using once by (simp add: facts_own_writes_def)
qed

text \<open>
  C14. Facts built from entrypoints replay the schedules of the program. Let the bindings come from
  entrypoints that, for every selected task, replace only storage the task mutates and does not
  write afresh, and hand over only storage of inputs that the schedule releases right there. Let
  every alias a task produces be written once: no runtime or retained copy of it, no initial
  residency and no earlier producer. Then a schedule that validates and has no write-back is
  replayed to the end with the facts built from those bindings and any profiled traces, and the
  aliases left with a lease are those the validation leaves resident. Validation accepts
  schedules that write a resident alias again, which the replay may refuse.
\<close>

theorem built_facts_replay:
  assumes "valid_program program" and "memory_schedule_post_init schedule = Inr ()"
    and "validate_schedule schedule program selections = Inr ()"
    and "output_bindings_for_entrypoints (pg_tasks program) entrypoints
      (af_object_alias alias_facts) = Inr bindings"
    and "build_admission_facts program pool_bytes object_bytes bindings traces alignment = Inr facts"
    and "select_tasks program selections = Inr tasks"
    and "alias_facts_of program tasks (ms_final_residency schedule) = Inr alias_facts"
    and "written_once alias_facts schedule tasks"
    and "\<forall>task \<in> set tasks. \<forall>e \<in> set entrypoints. en_task_id e = tk_task_id task \<longrightarrow>
      entrypoint_agrees alias_facts (task_actions (index_actions schedule) (tk_task_id task)) task e"
    and "\<forall>x \<in> set (ms_actions schedule). ma_kind x \<noteq> WRITE_BACK"
  shows "\<exists>cx s r r'. builder_context_of program schedule selections facts = Inr cx
    \<and> build cx = Inr s
    \<and> initial_residency_of schedule alias_facts = Inr r
    \<and> walk_tasks schedule tasks alias_facts r = Inr r'
    \<and> set (final_aliases s) = rv_device r' - af_shared_aliases alias_facts"
proof -
  note B = built_Inr(1,2) [OF assms(5)]
  obtain cx where cx: "builder_context_of program schedule selections facts = Inr cx" "bc_tasks cx = tasks"
    using assms(6) by (simp add: builder_context_of_def)
  have "facts_own_writes alias_facts schedule tasks facts"
    by (rule built_facts_own_writes [OF assms(1,7,6,4,5,8,9)])
  from replay_builds [OF assms(1) B(1) assms(2,3) B(2) cx(1), unfolded cx(2), OF assms(7) this assms(10)]
  show ?thesis using cx(1) by blast
qed

theorem built_facts_replay_witness:
  "\<exists>cx s. builder_context_of step_program (step_schedule []) [] step_facts = Inr cx
     \<and> build cx = Inr s \<and> set (final_aliases s) = {''b'', ''w'', ''x''}"
proof -
  have bindings: "output_bindings_for_entrypoints (pg_tasks step_program) step_entrypoints
      (af_object_alias step_alias_facts) = Inr step_bindings"
    using step_bindings alias_facts_Inr(2) [OF step_alias_facts]
    by (simp add: step_tasks_def step_aliases_def)
  have once: "written_once step_alias_facts (step_schedule []) step_tasks"
    using step_facts_agree(1) by (simp add: facts_own_writes_def)
  have agrees: "\<forall>task \<in> set step_tasks. \<forall>e \<in> set step_entrypoints. en_task_id e = tk_task_id task \<longrightarrow>
      entrypoint_agrees step_alias_facts
        (task_actions (index_actions (step_schedule [])) (tk_task_id task)) task e"
    by code_simp
  have "\<forall>x \<in> set (ms_actions (step_schedule [])). ma_kind x \<noteq> WRITE_BACK"
    by (simp add: step_schedule_def)
  from built_facts_replay [OF step_program_valid step_schedule_accepted(1) step_schedule_valid(1)
      bindings step_facts_built step_tasks_selected step_alias_facts once agrees this]
  obtain cx s where run: "builder_context_of step_program (step_schedule []) [] step_facts = Inr cx"
    "build cx = Inr s" by blast
  have "cx = step_context []" using run(1) step_context [of "[]"] by simp
  then have "bs_active_aliases s = [(''w'', 3), (''b'', 2), (''x'', 4)]"
    using step_build run(2) by auto
  then have "set (final_aliases s) = {''b'', ''w'', ''x''}" by (simp add: final_aliases_def)
  then show ?thesis using run by blast
qed

end
