(* ===== verification/Spec2Isabelle.thy ===== *)
theory Spec2Isabelle
  imports Placement Layout_Reuse Schedule_Safety Simulator_Properties PressureFit_Search_Properties Resolution_Properties
    Admission_Properties Task_Properties Admission_Built
begin

text \<open>
  \<^bold>\<open>A verification development for the ShadowSpill planner.\<close>

  ShadowSpill runs a training step within a memory budget. A step is a \<^emph>\<open>program\<close>: tasks that read,
  write and mutate objects, objects grouped into aliases that share storage, devices, and groups of
  alternatives (save an activation or recompute it). A \<^emph>\<open>schedule\<close> adds memory actions at the end of
  tasks: fetch an alias from host memory, evict it to there, release it. The planner looks for a fast
  schedule that fits; this development models its readable Python core, which the compiled planner
  is tested against, and proves what that core promises.

  \<^bold>\<open>How the parts interact.\<close> A program is decoded and checked (\<^verbatim>\<open>ir/program\<close>), a resolution picks one
  option of each alternative group (\<^verbatim>\<open>toolkit/resolution.py\<close>) and \<^verbatim>\<open>selected_tasks\<close> gives its tasks.
  PressureFit (\<^verbatim>\<open>reference/python/pressurefit\<close>) derives facts from those tasks, reduces what stays
  resident until it fits, emits a schedule, and has it checked (\<^verbatim>\<open>ir/schedule.py\<close>) and simulated
  (\<^verbatim>\<open>reference/python/simulator\<close>); failures of the simulation are repaired within a budget, and the
  fastest schedule the simulator accepts is the answer. Admission (\<^verbatim>\<open>reference/python/admission\<close>)
  replays a schedule, with the physical facts of its tasks, into operations on the leases of a memory
  pool, gives the leases fixed offsets and recovers which of them reuse memory.

  \<^bold>\<open>Conventions.\<close> Python integers are \<open>int\<close> (unbounded, so nothing wraps), positions of lists are
  \<open>nat\<close>, identifiers are \<open>string\<close>, floats are rationals or the special values. Records have the
  fields of the classes under a two-letter prefix. An exception is a value of \<open>py_error\<close> in a sum
  type, an f-string in it the list of its parts. Loops whose end is not evident from the code are
  partial functions in the option type (\<open>None\<close> means that it does not return) and are proved total;
  no definition carries fuel. Dictionaries that are only looked up are maps, those that are iterated
  are association lists in insertion order. Names follow the source.

  \<^bold>\<open>Theories.\<close>
  \<^item> \<open>Prelude\<close>: errors, raising loops (\<open>foldE\<close>, \<open>mapE\<close>, \<open>checkE\<close>) with their invariant rules,
    dictionary and sequence reads, the collection \<open>py_simps\<close>.
  \<^item> \<open>Validation\<close>, \<open>Program_Timing\<close>, \<open>Program_Specs\<close>, \<open>Program_Checks\<close>, \<open>Program\<close>: the IR of a program
    (\<^verbatim>\<open>src/shadowspill/ir/validation.py\<close>, \<^verbatim>\<open>ir/program/*.py\<close>). The locales \<open>codec\<close> and \<open>str_enum\<close> are the
    contract of \<^verbatim>\<open>to_dict\<close>/\<^verbatim>\<open>from_value\<close> and of the enumerations, interpreted for every record.
    Proved: decoding inverts encoding, a decoded program is well formed, what a selection activates,
    when it is refused, and that the cache of selections is transparent.
  \<^item> \<open>Schedule\<close>, \<open>Schedule_Safety\<close>: schedules and the walk that validates them (\<^verbatim>\<open>ir/schedule.py\<close>),
    against an execution over versioned copies that fails when stale or absent data is read, and
    which copies a release drops for good.
  \<^item> \<open>Simulator_Model\<close>, \<open>Simulator\<close>, \<open>Simulator_Steps\<close>, \<open>Simulator_Run\<close>: the simulator
    (\<^verbatim>\<open>src/shadowspill/simulator/model.py\<close>, \<^verbatim>\<open>reference/python/simulator/implementation.py\<close>): a context
    fixed by the constructor and a state every method returns updated. \<open>Simulator_Frames\<close> has an
    elimination rule per operation, \<open>Simulator_Reach\<close> the inductive steps of a run, and
    \<open>Simulator_Context\<close>, \<open>Simulator_Capacity\<close>, \<open>Simulator_Termination\<close>, \<open>Simulator_Intervals\<close>,
    \<open>Simulator_Lanes\<close> the invariants over them. \<open>Simulator_Properties\<close> states what a result promises,
    \<open>Simulator_Example\<close> and \<open>Simulator_Overlap\<close> evaluate runs, the latter one that goes wrong.
  \<^item> \<open>Resolution\<close>, \<open>Resolution_Properties\<close>: which resolutions are planned.
  \<^item> \<open>PressureFit_Facts\<close>, \<open>PressureFit_Facts_Sound\<close> (\<^verbatim>\<open>facts.py\<close>); \<open>PressureFit_Residency\<close>,
    \<open>PressureFit_Pressure\<close>, \<open>PressureFit_Cuts\<close>, \<open>PressureFit_Reduction\<close>, \<open>PressureFit_Properties\<close>
    (\<^verbatim>\<open>residency.py\<close>): the pressure sweep equals a direct count, the greedy reduction ends, fits and
    finds a plan whenever the unavoidable bytes fit.
  \<^item> \<open>PressureFit_Actions\<close>, \<open>PressureFit_Triggers\<close>, \<open>PressureFit_Fit\<close>, \<open>PressureFit_Emission\<close>,
    \<open>PressureFit_Spans\<close>, \<open>PressureFit_Assembly\<close>, \<open>PressureFit_Emission_Properties\<close> (\<^verbatim>\<open>actions.py\<close>): when
    fetches are triggered and what schedule a plan becomes.
  \<^item> \<open>PressureFit_Candidate\<close>, \<open>PressureFit_Search\<close>, \<open>PressureFit_Candidate_Sound\<close>,
    \<open>PressureFit_Search_Sound\<close>, \<open>PressureFit_Search_Example\<close>, \<open>PressureFit_Search_Properties\<close>
    (\<^verbatim>\<open>implementation.py\<close>): the search as a whole, from the options to the plan it returns. Its
    results combine the reduction, the emission and the simulator.
  \<^item> \<open>Heap_Tree\<close>, \<open>Temporal_Index\<close>, \<open>Placement\<close> (\<^verbatim>\<open>admission/placement.py\<close>) and \<open>Owner_Index\<close>,
    \<open>Layout_Reuse\<close> (\<^verbatim>\<open>admission/reuse.py\<close>): the loops are proved over the locales \<open>interval_index\<close> and
    \<open>owner_map\<close>, which the two segment trees interpret.
  \<^item> \<open>Admission_Facts\<close> (\<^verbatim>\<open>planner/admission/__init__.py\<close>, \<^verbatim>\<open>planner/strict.py\<close>): what tasks allocate,
    replace and hand over, with its checks and codecs. \<open>Admission_Replay\<close>
    (\<^verbatim>\<open>admission/replay.py\<close>): the builder of the pool script, its context and its state, and the
    certificate. \<open>Admission_Ledger\<close> is the specification, the life cycle of a lease;
    \<open>Admission_Walk\<close> and \<open>Admission_Books\<close> keep the invariant that the builder's state is a ledger of
    the operations it wrote, and \<open>Admission_Follows\<close> the relation of its owners to the residency of
    the validating walk. \<open>Admission_Example\<close> evaluates a replay and \<open>Admission_Properties\<close> states the
    results: scripts a pool can keep, every agreeing schedule replayed, write-backs refused.
  \<^item> \<open>Task_Storage\<close> (\<^verbatim>\<open>task/storage.py\<close>) and \<open>Task_Allocations\<close> (\<^verbatim>\<open>task/allocations\<close>,
    \<^verbatim>\<open>runtime/plan/envelopes.py\<close>): what a compiled task returns and allocates. \<open>Task_Contracts\<close>
    restates the walk over a contract's steps without its state, and \<open>Task_Properties\<close> shows that the
    copies of contracts are contracts.
  \<^item> \<open>Admission_Build\<close> (\<^verbatim>\<open>planning/admission\<close>, \<^verbatim>\<open>task/entrypoints.py\<close>, \<^verbatim>\<open>ir/sharing.py\<close>): how the facts are
    made from the entrypoints of tasks and their profiled traces. \<open>Admission_Origin\<close> proves that the
    scan of a trace finds its exact peak and follows bindings back to entrypoints; \<open>Admission_Built\<close>
    has the results: what is built is checked facts, which replay the schedules of the program.

  \<^bold>\<open>Hypotheses.\<close> Properties ask for a program, a configuration and options that passed their own
  constructors (\<open>valid_program\<close>, \<open>valid_config\<close>, \<open>pressurefit_options_post_init\<close>). Two
  properties assume more: the capacity of the simulator, that completions declared by an admission
  free memory; the replay, that the facts own what the tasks write (\<open>facts_own_writes\<close>: their fresh
  outputs and handoffs cover a task's outputs, what is handed over is released right then, and
  \<open>written_once\<close>, an alias a task produces has no copy before and no other producer). Neither the
  checks of the facts nor the validation of schedules ask for it: a validated schedule may write a
  resident alias again, which the replay may refuse. For facts that are built \<open>built_facts_replay\<close>
  derives all of it but \<open>written_once\<close>, which stays a hypothesis, from entrypoints that name their
  replacements and handoffs truthfully; those come from the compiler of the tasks, which is not
  modelled. The pool is an argument of \<open>replay_admission\<close>, of which the certificate needs that it
  accepts the script and names retired and known leases.

  \<^bold>\<open>Not modelled.\<close> SHA-256 digests and JSON text (\<^verbatim>\<open>hashlib\<close>, \<^verbatim>\<open>json\<close>), wall-clock sections, progress
  messages and threads: the batches a thread pool runs share no state and are evaluated one after
  another. The search runs without admission facts, and
  \<^verbatim>\<open>admission/lifetimes.py\<close> is left out, which reads fields its argument no longer has. The scores that a refused reduction leaves in
  the memo of its problem are dropped, which nothing can observe. The compiled
  planner, simulator and memory pool (\<^verbatim>\<open>csrc\<close>) are C, and their Python bindings only marshal arrays. The
  phases around the planner (capturing PyTorch graphs, profiling, execution, communication,
  checkpoints, reports, tools, baselines and benchmarks) drive external libraries and devices.
\<close>

end
